(* ===== verification/Prelude.thy ===== *)
theory Prelude
  imports Main "HOL-Library.Sublist" "HOL-Library.AList"
begin

text \<open>
  The vocabulary shared by every component of the development.

  A Go \<^verbatim>\<open>string\<close> is a sequence of bytes, so it is a HOL \<open>string\<close> (a list of the 256
  values of type \<open>char\<close>); the functions of Go's \<^verbatim>\<open>strings\<close> package that the sources call
  are defined here on bytes (\<open>has_prefix\<close>, \<open>index_of\<close>, \<open>split_on\<close>, \<open>join_with\<close>,
  \<open>trim_space\<close> and their kin).  A result of \<^verbatim>\<open>strings.Index\<close> is an option: \<open>None\<close>
  stands for the value \<open>-1\<close>.  A Go map is a HOL map where its iteration order cannot be
  observed and an association list with distinct keys where it can.

  The lemmas are collected in \<open>go_string\<close> (facts on the string functions) and
  \<open>go_map\<close> (facts on association lists and maps) for the component proofs.
\<close>

named_theorems go_string \<open>facts on the functions of package strings\<close>
named_theorems go_map \<open>facts on Go maps\<close>

section \<open>Byte strings\<close>

definition nl :: char where
  "nl = CHR 0x0A"

definition has_prefix :: "string \<Rightarrow> string \<Rightarrow> bool" where
  "has_prefix s p \<longleftrightarrow> take (length p) s = p"

definition has_suffix :: "string \<Rightarrow> string \<Rightarrow> bool" where
  "has_suffix s p \<longleftrightarrow> length p \<le> length s \<and> drop (length s - length p) s = p"

definition trim_prefix :: "string \<Rightarrow> string \<Rightarrow> string" where
  "trim_prefix s p = (if has_prefix s p then drop (length p) s else s)"

definition trim_suffix :: "string \<Rightarrow> string \<Rightarrow> string" where
  "trim_suffix s p = (if has_suffix s p then take (length s - length p) s else s)"

text \<open>\<^verbatim>\<open>strings.Index\<close> and \<^verbatim>\<open>strings.LastIndex\<close>; \<open>None\<close> is the Go value -1.\<close>

fun index_of :: "string \<Rightarrow> string \<Rightarrow> nat option" where
  "index_of [] p = (if p = [] then Some 0 else None)"
| "index_of (c # s) p =
     (if has_prefix (c # s) p then Some 0 else map_option Suc (index_of s p))"

fun last_index :: "string \<Rightarrow> string \<Rightarrow> nat option" where
  "last_index [] p = (if p = [] then Some 0 else None)"
| "last_index (c # s) p =
     (case last_index s p of
        Some i \<Rightarrow> Some (Suc i)
      | None \<Rightarrow> if has_prefix (c # s) p then Some 0 else None)"

definition contains :: "string \<Rightarrow> string \<Rightarrow> bool" where
  "contains s p \<longleftrightarrow> index_of s p \<noteq> None"

text \<open>\<^verbatim>\<open>strings.Split\<close> at a one-byte separator, and \<^verbatim>\<open>strings.Join\<close>.\<close>

fun split_on :: "char \<Rightarrow> string \<Rightarrow> string list" where
  "split_on d [] = [[]]"
| "split_on d (c # s) =
     (if c = d then [] # split_on d s
      else (case split_on d s of [] \<Rightarrow> [[c]] | x # xs \<Rightarrow> (c # x) # xs))"

fun join_with :: "string \<Rightarrow> string list \<Rightarrow> string" where
  "join_with d [] = []"
| "join_with d [x] = x"
| "join_with d (x # y # xs) = x @ d @ join_with d (y # xs)"

text \<open>
  The white space \<^verbatim>\<open>strings.TrimSpace\<close> removes, as the byte sequences of its UTF-8
  encodings: the six ASCII characters, U+0085, U+00A0, U+1680, U+2000 to U+200A, U+2028,
  U+2029, U+202F, U+205F and U+3000.
\<close>

definition space_runes :: "string list" where
  "space_runes =
     [[CHR 0x20], [CHR 0x09], [CHR 0x0A], [CHR 0x0B], [CHR 0x0C], [CHR 0x0D],
      [CHR 0xC2, CHR 0x85], [CHR 0xC2, CHR 0xA0], [CHR 0xE1, CHR 0x9A, CHR 0x80],
      [CHR 0xE2, CHR 0x80, CHR 0x80], [CHR 0xE2, CHR 0x80, CHR 0x81],
      [CHR 0xE2, CHR 0x80, CHR 0x82], [CHR 0xE2, CHR 0x80, CHR 0x83],
      [CHR 0xE2, CHR 0x80, CHR 0x84], [CHR 0xE2, CHR 0x80, CHR 0x85],
      [CHR 0xE2, CHR 0x80, CHR 0x86], [CHR 0xE2, CHR 0x80, CHR 0x87],
      [CHR 0xE2, CHR 0x80, CHR 0x88], [CHR 0xE2, CHR 0x80, CHR 0x89],
      [CHR 0xE2, CHR 0x80, CHR 0x8A], [CHR 0xE2, CHR 0x80, CHR 0xA8],
      [CHR 0xE2, CHR 0x80, CHR 0xA9], [CHR 0xE2, CHR 0x80, CHR 0xAF],
      [CHR 0xE2, CHR 0x81, CHR 0x9F], [CHR 0xE3, CHR 0x80, CHR 0x80]]"

definition leading :: "string list \<Rightarrow> string \<Rightarrow> string option" where
  "leading ps s = find (\<lambda>p. p \<noteq> [] \<and> has_prefix s p) ps"

lemma leading_Some: "leading ps s = Some p \<Longrightarrow> p \<noteq> [] \<and> has_prefix s p"
  by (auto simp: leading_def find_Some_iff)

lemma has_prefix_iff [go_string]: "has_prefix s p \<longleftrightarrow> (\<exists>r. s = p @ r)"
  by (metis append_eq_conv_conj append_take_drop_id has_prefix_def)

lemma leading_shorter: "leading ps s = Some p \<Longrightarrow> length (drop (length p) s) < length s"
  by (drule leading_Some) (auto simp: has_prefix_iff)

function trim_by :: "string list \<Rightarrow> string \<Rightarrow> string" where
  "trim_by ps s = (case leading ps s of None \<Rightarrow> s | Some p \<Rightarrow> trim_by ps (drop (length p) s))"
  by pat_completeness auto
termination
  by (relation "measure (\<lambda>(ps, s). length s)") (auto dest: leading_shorter)

declare trim_by.simps [simp del]

definition trim_left_space :: "string \<Rightarrow> string" where
  "trim_left_space s = trim_by space_runes s"

definition trim_right_space :: "string \<Rightarrow> string" where
  "trim_right_space s = rev (trim_by (map rev space_runes) (rev s))"

definition trim_space :: "string \<Rightarrow> string" where
  "trim_space s = trim_right_space (trim_left_space s)"

text \<open>\<^verbatim>\<open>strings.ToLower\<close> and \<^verbatim>\<open>strings.ToUpper\<close> on the ASCII letters (other bytes are kept: the
  sources apply them to host names, schemes, identifiers and enumeration values), and the decimal
  representation \<^verbatim>\<open>%d\<close> of a natural number.\<close>

definition lower_char :: "char \<Rightarrow> char" where
  "lower_char c = (let n = of_char c :: nat in if 65 \<le> n \<and> n \<le> 90 then char_of (n + 32) else c)"

definition to_lower :: "string \<Rightarrow> string" where
  "to_lower = map lower_char"

definition upper_char :: "char \<Rightarrow> char" where
  "upper_char c = (let n = of_char c :: nat in if 97 \<le> n \<and> n \<le> 122 then char_of (n - 32) else c)"

definition to_upper :: "string \<Rightarrow> string" where
  "to_upper = map upper_char"

definition is_digit :: "char \<Rightarrow> bool" where
  "is_digit c \<longleftrightarrow> 48 \<le> (of_char c :: nat) \<and> (of_char c :: nat) \<le> 57"

definition digit_char :: "nat \<Rightarrow> char" where
  "digit_char d = char_of (48 + d)"

fun dec_string :: "nat \<Rightarrow> string" where
  "dec_string n =
     (if n < 10 then [digit_char n] else dec_string (n div 10) @ [digit_char (n mod 10)])"

declare dec_string.simps [simp del]

section \<open>Facts on byte strings\<close>

lemma digit_char_val:
  assumes "d < 10"
  shows "of_char (digit_char d) = 48 + d" and "is_digit (digit_char d)"
  using assms by (simp_all add: digit_char_def is_digit_def)

lemma digit_char_of: "is_digit c \<Longrightarrow> digit_char (of_char c - 48) = c"
  by (simp add: digit_char_def is_digit_def)

lemma dec_string_digits: "\<forall>c \<in> set (dec_string n). is_digit c"
proof (induction n rule: dec_string.induct)
  case (1 n)
  then show ?case by (subst dec_string.simps) (auto simp: digit_char_val)
qed

lemma dec_string_ne [simp]: "dec_string n \<noteq> []"
  by (subst dec_string.simps) simp

lemma dec_string_step: "d < 10 \<Longrightarrow> 0 < n \<Longrightarrow> dec_string (n * 10 + d) = dec_string n @ [digit_char d]"
  by (subst dec_string.simps) simp

lemma dec_string_digit: "d < 10 \<Longrightarrow> dec_string d = [digit_char d]"
  by (subst dec_string.simps) simp

lemma has_prefix_simps [simp]:
  "has_prefix s []"
  "has_prefix [] (c # p) = False"
  "has_prefix (d # s) (c # p) = (d = c \<and> has_prefix s p)"
  by (auto simp: has_prefix_def)

lemma has_prefix_refl [simp]: "has_prefix s s"
  by (simp add: has_prefix_def)

lemma has_prefix_append [simp]: "has_prefix (p @ s) p"
  by (simp add: has_prefix_def)

lemma has_prefix_appendI: "has_prefix s p \<Longrightarrow> has_prefix (s @ t) p"
  by (auto simp: has_prefix_iff)

lemma has_prefix_length: "has_prefix s p \<Longrightarrow> length p \<le> length s"
  by (auto simp: has_prefix_iff)

lemma has_suffix_iff [go_string]: "has_suffix s p \<longleftrightarrow> (\<exists>r. s = r @ p)"
proof
  assume "has_suffix s p"
  then have "s = take (length s - length p) s @ p"
    by (metis append_take_drop_id has_suffix_def)
  then show "\<exists>r. s = r @ p" ..
qed (auto simp: has_suffix_def)

lemma trim_prefix_append [simp]: "trim_prefix (p @ s) p = s"
  by (simp add: trim_prefix_def)

lemma trim_suffix_append [simp]: "trim_suffix (s @ p) p = s"
  by (simp add: trim_suffix_def has_suffix_def)

lemma index_of_Some:
  "index_of s p = Some i \<Longrightarrow> i + length p \<le> length s \<and> s = take i s @ p @ drop (i + length p) s"
proof (induction s p arbitrary: i rule: index_of.induct)
  case (2 c s p)
  show ?case
  proof (cases "has_prefix (c # s) p")
    case True
    then obtain r where "c # s = p @ r" by (auto simp: has_prefix_iff)
    moreover from True "2.prems" have "i = 0" by simp
    ultimately show ?thesis by simp
  next
    case False
    with "2.prems" obtain j where "index_of s p = Some j" "i = Suc j" by auto
    with "2.IH"[OF False] show ?thesis by simp
  qed
qed (auto split: if_splits)

lemma index_of_None: "index_of s p = None \<Longrightarrow> \<not> (\<exists>a b. s = a @ p @ b)"
proof (induction s p rule: index_of.induct)
  case (2 c s p)
  then have np: "\<not> has_prefix (c # s) p" and IH: "\<not> (\<exists>a b. s = a @ p @ b)"
    by (auto split: if_splits)
  show ?case
  proof
    assume "\<exists>a b. c # s = a @ p @ b"
    then obtain a b where ab: "c # s = a @ p @ b" by blast
    with np have "a \<noteq> []" by (auto simp: has_prefix_iff)
    with ab IH show False by (cases a) auto
  qed
qed (auto split: if_splits)

lemma index_of_None_iff: "index_of s p = None \<longleftrightarrow> \<not> (\<exists>a b. s = a @ p @ b)"
proof
  assume "\<not> (\<exists>a b. s = a @ p @ b)"
  then show "index_of s p = None"
    by (cases "index_of s p") (auto dest: index_of_Some)
qed (rule index_of_None)

lemma contains_iff [go_string]: "contains s p \<longleftrightarrow> (\<exists>a b. s = a @ p @ b)"
  using index_of_None_iff[of s p] by (auto simp: contains_def)

text \<open>The first occurrence is the earliest one.\<close>

lemma index_of_least: "index_of s p = Some i \<Longrightarrow> j < i \<Longrightarrow> \<not> has_prefix (drop j s) p"
proof (induction s p arbitrary: i j rule: index_of.induct)
  case (2 c s p)
  then have np: "\<not> has_prefix (c # s) p" by (auto split: if_splits)
  with "2.prems" obtain k where k: "index_of s p = Some k" "i = Suc k" by auto
  show ?case
  proof (cases j)
    case 0
    with np show ?thesis by simp
  next
    case (Suc j')
    with k "2.prems" "2.IH"[OF np k(1)] show ?thesis by simp
  qed
qed (auto split: if_splits)

lemma split_on_ne [simp]: "split_on d s \<noteq> []"
  by (cases s) (auto split: list.splits)

lemma join_split [simp]: "join_with [d] (split_on d s) = s"
proof (induction s)
  case (Cons c s)
  show ?case
  proof (cases "c = d")
    case True
    with Cons show ?thesis
      by (cases "split_on d s") auto
  next
    case False
    with Cons show ?thesis
      by (cases "split_on d s" rule: list.exhaust; cases "tl (split_on d s)") auto
  qed
qed simp

lemma split_on_no_sep: "x \<in> set (split_on d s) \<Longrightarrow> d \<notin> set x"
  by (induction s arbitrary: x) (auto split: if_splits list.splits)

lemma split_on_fixed: "d \<notin> set s \<Longrightarrow> split_on d s = [s]"
  by (induction s) auto

lemma split_on_append: "d \<notin> set x \<Longrightarrow> split_on d (x @ d # s) = x # split_on d s"
  by (induction x) auto

lemma split_join:
  "xs \<noteq> [] \<Longrightarrow> (\<forall>x \<in> set xs. d \<notin> set x) \<Longrightarrow> split_on d (join_with [d] xs) = xs"
  by (induction "[d]" xs rule: join_with.induct) (auto simp: split_on_fixed split_on_append)

lemma length_split_on: "length (split_on d s) = Suc (count_list s d)"
  by (induction s) (auto split: list.splits)

lemma set_join_with: "set (join_with d xs) \<subseteq> set d \<union> \<Union> (set ` set xs)"
  by (induction d xs rule: join_with.induct) auto

lemma leading_Nil [simp]: "leading ps [] = None"
  by (cases "leading ps []") (auto dest!: leading_Some simp: has_prefix_iff)

lemma trim_by_Nil [simp]: "trim_by ps [] = []"
  by (subst trim_by.simps) simp

lemma trim_space_Nil [simp]: "trim_space [] = []"
  by (simp add: trim_space_def trim_left_space_def trim_right_space_def)

lemma trim_by_suffix: "\<exists>a. s = a @ trim_by ps s"
proof (induction ps s rule: trim_by.induct)
  case (1 ps s)
  show ?case
  proof (cases "leading ps s")
    case None
    then show ?thesis by (auto simp: trim_by.simps[of ps s])
  next
    case (Some p)
    then have "s = take (length p) s @ drop (length p) s" by simp
    with 1[OF Some] Some show ?thesis
      by (metis append_assoc option.simps(5) trim_by.simps)
  qed
qed

lemma trim_by_no_leading: "leading ps (trim_by ps s) = None"
proof (induction ps s rule: trim_by.induct)
  case (1 ps s)
  then show ?case by (cases "leading ps s") (auto simp: trim_by.simps[of ps s])
qed

lemma trim_by_idem [simp]: "trim_by ps (trim_by ps s) = trim_by ps s"
  by (subst trim_by.simps) (simp add: trim_by_no_leading)

lemma trim_space_infix: "\<exists>a b. s = a @ trim_space s @ b"
proof -
  obtain a where a: "s = a @ trim_left_space s"
    using trim_by_suffix by (metis trim_left_space_def)
  obtain b where "rev (trim_left_space s) = b @ rev (trim_space s)"
    using trim_by_suffix by (metis rev_rev_ident trim_right_space_def trim_space_def)
  then have "trim_left_space s = trim_space s @ rev b"
    by (metis rev_append rev_rev_ident)
  with a show ?thesis by metis
qed

section \<open>Association lists as Go maps\<close>

lemma map_of_update [go_map]: "map_of (AList.update k v al) = (map_of al)(k \<mapsto> v)"
  by (rule update_conv')

lemma distinct_update [go_map, simp]:
  "distinct (map fst al) \<Longrightarrow> distinct (map fst (AList.update k v al))"
  by (rule distinct_update)

section \<open>Lists\<close>

lemma find_SomeD: "find P xs = Some x \<Longrightarrow> x \<in> set xs \<and> P x"
  by (induction xs) (auto split: if_splits)

lemma list_all2_in_set2: "list_all2 R xs ys \<Longrightarrow> y \<in> set ys \<Longrightarrow> \<exists>x \<in> set xs. R x y"
  by (induction rule: list_all2_induct) auto

section \<open>Trimming\<close>

lemma leading_hd:
  assumes "\<forall>p \<in> set ps. p \<noteq> [] \<longrightarrow> hd p \<noteq> c"
  shows "leading ps (c # s) = None"
proof (cases "leading ps (c # s)")
  case (Some p)
  then have p: "p \<noteq> []" "has_prefix (c # s) p" "p \<in> set ps"
    using leading_Some[OF Some] find_SomeD[OF Some[unfolded leading_def]] by simp_all
  then have "hd p = c" by (cases p) simp_all
  then show ?thesis using assms p(1,3) by blast
qed

definition plain_char :: "char \<Rightarrow> bool" where
  "plain_char c \<longleftrightarrow> c \<notin> hd ` set space_runes \<and> c \<notin> last ` set space_runes"

lemma trim_by_plain: "\<forall>p \<in> set ps. p \<noteq> [] \<longrightarrow> hd p \<noteq> c \<Longrightarrow> trim_by ps (c # s) = c # s"
  by (subst trim_by.simps) (simp add: leading_hd)

lemma trim_space_plain:
  assumes "plain_char c" "plain_char d" "last (c # s) = d"
  shows "trim_space (c # s) = c # s"
proof -
  have l: "trim_left_space (c # s) = c # s" unfolding trim_left_space_def
    by (rule trim_by_plain) (use assms(1) in \<open>auto simp: plain_char_def\<close>)
  obtain t where t: "rev (c # s) = d # t" using assms(3) by (metis hd_Cons_tl hd_rev list.discI rev_is_Nil_conv)
  have "\<forall>p \<in> set (map rev space_runes). p \<noteq> [] \<longrightarrow> hd p \<noteq> d"
    using assms(2) by (auto simp: plain_char_def hd_rev)
  then have "trim_by (map rev space_runes) (rev (c # s)) = rev (c # s)" unfolding t by (rule trim_by_plain)
  then have "trim_right_space (c # s) = rev (rev (c # s))" unfolding trim_right_space_def by (rule arg_cong)
  then show ?thesis by (simp add: trim_space_def l)
qed

subsection \<open>Case and white space\<close>

text \<open>Characters that no other character is lowered to, such as the white space.\<close>

definition caseless :: "char \<Rightarrow> bool" where
  "caseless c \<longleftrightarrow> (of_char c < (65 :: nat) \<or> 122 < (of_char c :: nat))"

lemma lower_caseless:
  assumes "caseless c"
  shows "lower_char x = c \<longleftrightarrow> x = c"
proof -
  have l: "of_char (lower_char x) = (if 65 \<le> (of_char x :: nat) \<and> of_char x \<le> (90 :: nat) then of_char x + 32 else (of_char x :: nat))"
    by (simp add: lower_char_def Let_def)
  have "lower_char x = c \<longleftrightarrow> of_char (lower_char x) = (of_char c :: nat)" "x = c \<longleftrightarrow> of_char x = (of_char c :: nat)"
    by simp_all
  then show ?thesis using assms unfolding l caseless_def by (auto split: if_splits)
qed

lemma map_lower_caseless: "list_all caseless p \<Longrightarrow> map lower_char xs = p \<longleftrightarrow> xs = p"
  by (induction p arbitrary: xs) (auto simp: Cons_eq_map_conv map_eq_Cons_conv lower_caseless)

lemma has_prefix_lower: "list_all caseless p \<Longrightarrow> has_prefix (to_lower s) p = has_prefix s p"
  by (simp add: has_prefix_def to_lower_def take_map map_lower_caseless)

lemma leading_lower: "list_all (list_all caseless) ps \<Longrightarrow> leading ps (to_lower s) = leading ps s"
  unfolding leading_def by (rule find_cong) (auto simp: list_all_iff has_prefix_lower)

lemma trim_by_lower: "list_all (list_all caseless) ps \<Longrightarrow> trim_by ps (to_lower s) = to_lower (trim_by ps s)"
proof (induction ps s rule: trim_by.induct)
  case (1 ps s)
  show ?case
  proof (cases "leading ps s")
    case None
    then show ?thesis using leading_lower[OF "1.prems", of s] by (simp add: trim_by.simps[of ps s] trim_by.simps[of ps "to_lower s"])
  next
    case (Some p)
    have "drop (length p) (to_lower s) = to_lower (drop (length p) s)" by (simp add: to_lower_def drop_map)
    then show ?thesis using Some "1.IH"[OF Some "1.prems"] leading_lower[OF "1.prems", of s]
      by (simp add: trim_by.simps[of ps s] trim_by.simps[of ps "to_lower s"])
  qed
qed

lemma caseless_spaces: "list_all (list_all caseless) space_runes" "list_all (list_all caseless) (map rev space_runes)"
  by code_simp+

lemma trim_space_lower: "trim_space (to_lower s) = to_lower (trim_space s)"
proof -
  have r: "rev (to_lower x) = to_lower (rev x)" for x by (simp add: to_lower_def rev_map)
  show ?thesis
    by (simp add: trim_space_def trim_left_space_def trim_right_space_def r trim_by_lower caseless_spaces)
qed

lemma trim_space_no_leading: "leading space_runes (trim_space s) = None"
proof (cases "leading space_runes (trim_space s)")
  case (Some p)
  let ?x = "trim_left_space s"
  obtain b where "rev ?x = b @ rev (trim_space s)"
    using trim_by_suffix[of "rev ?x" "map rev space_runes"] by (auto simp: trim_space_def trim_right_space_def)
  then have "?x = trim_space s @ rev b" by (metis rev_append rev_rev_ident)
  then have "has_prefix ?x p" using leading_Some[OF Some] by (auto simp: has_prefix_iff)
  moreover have "p \<noteq> []" "p \<in> set space_runes"
    using leading_Some[OF Some] find_SomeD[OF Some[unfolded leading_def]] by auto
  moreover have "leading space_runes ?x = None" by (simp add: trim_left_space_def trim_by_no_leading)
  ultimately show ?thesis by (auto simp: leading_def find_None_iff)
qed

lemma trim_space_idem [simp]: "trim_space (trim_space s) = trim_space s"
proof -
  have l: "trim_left_space (trim_space s) = trim_space s"
    unfolding trim_left_space_def by (subst trim_by.simps) (simp add: trim_space_no_leading)
  show ?thesis unfolding trim_space_def[of "trim_space s"] l
    by (simp add: trim_space_def trim_right_space_def)
qed

lemma lower_char_idem: "lower_char (lower_char c) = lower_char c"
  by (simp add: lower_char_def Let_def)

lemma to_lower_idem: "to_lower (to_lower s) = to_lower s"
  by (simp add: to_lower_def lower_char_idem)

lemma last_index_char:
  "(case last_index s [c] of None \<Rightarrow> c \<notin> set s | Some n \<Rightarrow> s = take n s @ [c] @ drop (n + 1) s \<and> c \<notin> set (drop (n + 1) s))"
  by (induction s) (auto split: option.splits if_splits)

end
