(* ===== verification/Filter_Text.thy ===== *)
theory Filter_Text
  imports Prelude
begin

text \<open>
  The text filters of the session proxy (\<^verbatim>\<open>proxy/internal/filter\<close>): the rule set and the
  audit action (\<^verbatim>\<open>rules.go\<close>, \<^verbatim>\<open>types.go\<close>), the redaction strategies (\<^verbatim>\<open>strategy.go\<close>) and
  the filters for code, shell output, diffs and tool output (\<^verbatim>\<open>code.go\<close>, \<^verbatim>\<open>shell.go\<close>,
  \<^verbatim>\<open>diff.go\<close>, \<^verbatim>\<open>tool.go\<close>).  Every filter returns the filtered text and the audit actions, as
  the Go functions do.  The lemmas say what survives each filter.
\<close>

section \<open>Rules and audit actions\<close>

record FilterAction =
  fa_Type :: string
  fa_Strategy :: string
  fa_Reason :: string
  fa_Original :: string
  fa_Language :: string
  fa_ToolName :: string
  fa_Path :: string
  fa_Input :: string
  fa_Filtered :: bool

text \<open>The zero value of the struct, which a composite literal fills in.\<close>

definition zero_action :: FilterAction where
  "zero_action = \<lparr>fa_Type = [], fa_Strategy = [], fa_Reason = [], fa_Original = [],
     fa_Language = [], fa_ToolName = [], fa_Path = [], fa_Input = [], fa_Filtered = False\<rparr>"

record TextStrategyConfig =
  ts_DefaultStrategy :: string

record ToolStrategyConfig =
  tool_DefaultStrategy :: string
  tool_ToolOverrides :: "(string \<times> string) list"

record StrategyConfig =
  sc_DefaultStrategy :: string

record RuntimeStrategyConfig =
  rt_FileContent :: StrategyConfig
  rt_DiffContent :: StrategyConfig

record PartStrategiesConfig =
  ps_Text :: TextStrategyConfig
  ps_Tool :: ToolStrategyConfig
  ps_Runtime :: RuntimeStrategyConfig

record FilterRules =
  DefaultStrategy :: string
  PartStrategies :: PartStrategiesConfig
  AllowedLanguages :: "string list"
  AllowedTools :: "string list"
  ShellCharThreshold :: int
  ReasoningThreshold :: int
  ContentLengthThreshold :: int
  PreserveLanguageHint :: bool
  PreserveFilePaths :: bool
  RedactPlaceholder :: string
  AuditPassthrough :: bool

definition DefaultRules :: FilterRules where
  "DefaultRules = \<lparr>
     DefaultStrategy = ''redact'',
     PartStrategies = \<lparr>
       ps_Text = \<lparr>ts_DefaultStrategy = ''redact''\<rparr>,
       ps_Tool = \<lparr>tool_DefaultStrategy = ''redact'', tool_ToolOverrides = [(''bash'', ''redact'')]\<rparr>,
       ps_Runtime = \<lparr>
         rt_FileContent = \<lparr>sc_DefaultStrategy = ''redact''\<rparr>,
         rt_DiffContent = \<lparr>sc_DefaultStrategy = ''redact''\<rparr>\<rparr>\<rparr>,
     AllowedLanguages = [],
     AllowedTools = [],
     ShellCharThreshold = 120,
     ReasoningThreshold = -1,
     ContentLengthThreshold = -1,
     PreserveLanguageHint = True,
     PreserveFilePaths = True,
     RedactPlaceholder = ''[code filtered]'',
     AuditPassthrough = False\<rparr>"

section \<open>Strategies\<close>

definition mask_line :: "string \<Rightarrow> string" where
  "mask_line line = (if trim_space line = [] then [] else ''***'')"

definition maskContent :: "string \<Rightarrow> string" where
  "maskContent content = join_with [nl] (map mask_line (split_on nl content))"

definition ApplyStrategy :: "string \<Rightarrow> string \<Rightarrow> string \<Rightarrow> string" where
  "ApplyStrategy content strategy placeholder =
     (if strategy = ''redact'' then placeholder
      else if strategy = ''strip'' then []
      else if strategy = ''mask'' then maskContent content
      else placeholder)"

section \<open>Code and shell output\<close>

definition FilterCode :: "string \<Rightarrow> FilterRules \<Rightarrow> string \<times> FilterAction list" where
  "FilterCode content rules =
     (if content = [] then (content, [])
      else
        let placeholder = RedactPlaceholder rules;
            strategy = DefaultStrategy rules;
            filtered = ApplyStrategy content strategy placeholder
        in if filtered = content then (content, [])
           else (filtered,
                 [zero_action\<lparr>fa_Type := ''code'', fa_Strategy := strategy,
                    fa_Reason := ''code'', fa_Original := content\<rparr>]))"

definition FilterCodeByLine :: "string \<Rightarrow> FilterRules \<Rightarrow> string \<times> FilterAction list" where
  "FilterCodeByLine content rules =
     (if content = [] then (content, [])
      else
        let lines = split_on nl content;
            placeholder = RedactPlaceholder rules;
            filtered = map (\<lambda>line. if trim_space line = [] then [] else placeholder) lines;
            result = join_with [nl] filtered
        in (result,
            [zero_action\<lparr>fa_Type := ''code'', fa_Strategy := DefaultStrategy rules,
               fa_Reason := ''code'', fa_Original := content\<rparr>]))"

definition FilterShell :: "string \<Rightarrow> FilterRules \<Rightarrow> string \<times> FilterAction list" where
  "FilterShell output rules =
     (if output = [] then (output, [])
      else
        let threshold = ShellCharThreshold rules
        in if threshold < 0 then (output, [])
           else if int (length output) \<le> threshold then (output, [])
           else (RedactPlaceholder rules,
                 [zero_action\<lparr>fa_Type := ''shell'', fa_Strategy := DefaultStrategy rules,
                    fa_Reason := ''tool_shell_threshold'', fa_Original := output\<rparr>]))"

section \<open>Diffs\<close>

record DiffLine =
  dl_Type :: string
  dl_Content :: string
  dl_LineNum :: string

text \<open>The body of \<open>ParseDiff\<close>'s loop: the entry appended for one line.\<close>

definition parse_diff_line :: "string \<Rightarrow> DiffLine" where
  "parse_diff_line line =
     (case line of
        [] \<Rightarrow> \<lparr>dl_Type = ''empty'', dl_Content = [], dl_LineNum = []\<rparr>
      | c # _ \<Rightarrow>
          (if has_prefix line ''--- '' \<or> has_prefix line ''+++ ''
           then \<lparr>dl_Type = ''header'', dl_Content = line, dl_LineNum = []\<rparr>
           else if has_prefix line ''@@ ''
           then \<lparr>dl_Type = ''hunk'', dl_Content = line, dl_LineNum = []\<rparr>
           else if c = CHR ''+''
           then \<lparr>dl_Type = ''add'', dl_Content = line, dl_LineNum = []\<rparr>
           else if c = CHR ''-''
           then \<lparr>dl_Type = ''remove'', dl_Content = line, dl_LineNum = []\<rparr>
           else if c = CHR '' ''
           then \<lparr>dl_Type = ''context'', dl_Content = line, dl_LineNum = []\<rparr>
           else \<lparr>dl_Type = ''other'', dl_Content = line, dl_LineNum = []\<rparr>))"

definition ParseDiff :: "string \<Rightarrow> DiffLine list" where
  "ParseDiff diff = map parse_diff_line (split_on nl diff)"

definition is_change_type :: "string \<Rightarrow> bool" where
  "is_change_type t \<longleftrightarrow> t = ''add'' \<or> t = ''remove''"

definition filter_diff_line :: "FilterRules \<Rightarrow> DiffLine \<Rightarrow> string" where
  "filter_diff_line rules line =
     (if is_change_type (dl_Type line)
      then (if PreserveFilePaths rules
            then take 0 (dl_Content line) @ RedactPlaceholder rules
            else RedactPlaceholder rules)
      else if dl_Type line \<in> {''hunk'', ''header'', ''context'', ''empty'', ''other''}
      then dl_Content line
      else [])"

definition FilterDiff :: "string \<Rightarrow> FilterRules \<Rightarrow> string \<times> FilterAction list" where
  "FilterDiff diff rules =
     (if diff = [] then (diff, [])
      else
        let lines = ParseDiff diff;
            filtered = map (filter_diff_line rules) lines;
            hasFiltered = list_ex (\<lambda>l. is_change_type (dl_Type l)) lines
        in if \<not> hasFiltered then (diff, [])
           else (join_with [nl] filtered,
                 [zero_action\<lparr>fa_Type := ''diff'', fa_Strategy := DefaultStrategy rules,
                    fa_Reason := ''runtime_diff'', fa_Original := diff\<rparr>]))"

section \<open>Tool output\<close>

definition FilterToolOutput :: "string \<Rightarrow> string \<Rightarrow> FilterRules \<Rightarrow> string \<times> FilterAction list" where
  "FilterToolOutput toolName output rules =
     (if toolName = ''bash'' \<or> toolName = ''shell'' then FilterShell output rules
      else if toolName = ''diff'' \<or> toolName = ''git_diff'' then FilterDiff output rules
      else FilterCode output rules)"

section \<open>What the filters let through\<close>

text \<open>The reference reading of a diff line: an added or removed line that is no file header.\<close>

definition changed_line :: "string \<Rightarrow> bool" where
  "changed_line l \<longleftrightarrow>
     (has_prefix l ''+'' \<or> has_prefix l ''-'') \<and>
     \<not> has_prefix l ''+++ '' \<and> \<not> has_prefix l ''--- ''"

lemma dl_Content_parse [simp]: "dl_Content (parse_diff_line l) = l"
  by (auto simp: parse_diff_line_def split: list.splits)

lemma is_change_parse [simp]:
  "is_change_type (dl_Type (parse_diff_line l)) \<longleftrightarrow> changed_line l"
  by (cases l) (auto simp: parse_diff_line_def changed_line_def is_change_type_def)

lemma filter_diff_line_parse [simp]:
  "filter_diff_line rules (parse_diff_line l) =
     (if changed_line l then RedactPlaceholder rules else l)"
proof (cases "changed_line l")
  case False
  then have "\<not> is_change_type (dl_Type (parse_diff_line l))" by simp
  moreover have "dl_Type (parse_diff_line l) \<in>
      {''hunk'', ''header'', ''context'', ''empty'', ''other'', ''add'', ''remove''}"
    by (cases l) (auto simp: parse_diff_line_def)
  ultimately show ?thesis using False
    by (auto simp: filter_diff_line_def is_change_type_def)
qed (simp add: filter_diff_line_def)

lemma map_if_id: "\<not> list_ex P xs \<Longrightarrow> map (\<lambda>x. if P x then f x else x) xs = xs"
  by (induction xs) auto

lemma FilterDiff_lines:
  "fst (FilterDiff diff rules) =
     join_with [nl] (map (\<lambda>l. if changed_line l then RedactPlaceholder rules else l)
                         (split_on nl diff))"
proof -
  have "list_ex (\<lambda>l. is_change_type (dl_Type l)) (ParseDiff diff) =
        list_ex changed_line (split_on nl diff)"
    by (simp add: ParseDiff_def list_ex_iff)
  moreover have "\<not> changed_line []" by (simp add: changed_line_def)
  ultimately show ?thesis
    by (auto simp: FilterDiff_def Let_def map_if_id) (simp add: ParseDiff_def comp_def)
qed

lemma maskContent_lines:
  "split_on nl (maskContent c) = map mask_line (split_on nl c)"
proof -
  have "\<forall>x \<in> set (map mask_line (split_on nl c)). nl \<notin> set x"
    by (auto simp: mask_line_def nl_def)
  then show ?thesis
    unfolding maskContent_def by (intro split_join) auto
qed

lemma maskContent_chars: "set (maskContent c) \<subseteq> {CHR ''*'', nl}"
proof -
  have "\<Union> (set ` set (map mask_line (split_on nl c))) \<subseteq> {CHR ''*''}"
    by (auto simp: mask_line_def split: if_splits)
  then show ?thesis
    unfolding maskContent_def using set_join_with[of "[nl]" "map mask_line (split_on nl c)"]
    by (simp only: list.set) blast
qed

lemma fst_FilterCode:
  "fst (FilterCode c rules) =
     (if c = [] then [] else ApplyStrategy c (DefaultStrategy rules) (RedactPlaceholder rules))"
  by (auto simp: FilterCode_def Let_def)

lemma snd_FilterCode:
  "snd (FilterCode c rules) = [] \<longleftrightarrow> fst (FilterCode c rules) = c"
  by (auto simp: FilterCode_def Let_def)

lemma snd_FilterShell:
  "RedactPlaceholder rules \<noteq> out \<Longrightarrow>
     snd (FilterShell out rules) = [] \<longleftrightarrow> fst (FilterShell out rules) = out"
  by (auto simp: FilterShell_def Let_def)

text \<open>
  No filter of the proxy invents text from the code it hides: the code filter returns the
  empty string, the configured placeholder, or a mask made of asterisks and line breaks only,
  whatever the configured strategy is, and it records the hidden original whenever it changed
  the content.
\<close>

theorem FilterCode_hides:
  "let (out, acts) = FilterCode content rules in
     (out = [] \<or> out = RedactPlaceholder rules \<or> set out \<subseteq> {CHR ''*'', nl}) \<and>
     (if out = content then acts = []
      else map fa_Original acts = [content] \<and> map fa_Type acts = [''code''])"
  using maskContent_chars[of content]
  by (auto simp: FilterCode_def Let_def ApplyStrategy_def)

text \<open>
  Masking keeps the shape of the text: the masked content has the same lines as the
  original, each blank line empty and every other line replaced by three asterisks.
\<close>

theorem maskContent_shape:
  "split_on nl (maskContent content) =
     map (\<lambda>line. if trim_space line = [] then [] else ''***'') (split_on nl content) \<and>
   length (split_on nl (maskContent content)) = length (split_on nl content)"
  by (simp add: maskContent_lines mask_line_def[abs_def])

text \<open>
  The diff filter is line by line: as long as the placeholder is a single line, the output
  has exactly the lines of the input, the added and removed ones replaced by the placeholder
  and all others unchanged; so no added or removed line of the input survives.
\<close>

theorem FilterDiff_correct:
  assumes "nl \<notin> set (RedactPlaceholder rules)"
  shows "split_on nl (fst (FilterDiff diff rules)) =
           map (\<lambda>l. if changed_line l then RedactPlaceholder rules else l) (split_on nl diff)"
proof -
  let ?f = "\<lambda>l. if changed_line l then RedactPlaceholder rules else l"
  have "\<forall>x \<in> set (map ?f (split_on nl diff)). nl \<notin> set x"
    using assms split_on_no_sep by auto
  then show ?thesis
    unfolding FilterDiff_lines by (intro split_join) auto
qed

theorem FilterDiff_correct_witness:
  "nl \<notin> set (RedactPlaceholder DefaultRules) \<and>
   split_on nl (fst (FilterDiff (''+a'' @ [nl] @ '' b'') DefaultRules)) = [''[code filtered]'', '' b'']"
proof -
  have h: "nl \<notin> set (RedactPlaceholder DefaultRules)"
    by (simp add: DefaultRules_def nl_def)
  show ?thesis
    using h FilterDiff_correct[OF h, of "''+a'' @ [nl] @ '' b''"]
    by (simp add: changed_line_def nl_def DefaultRules_def)
qed

text \<open>
  A removed source line that itself starts with two dashes and a blank (an SQL or Lua
  comment) is rendered by \<open>diff\<close> with three dashes, so the diff filter takes it for a file
  header and passes it on unredacted, whatever the rules are.
\<close>

theorem FilterDiff_header_leak:
  assumes "nl \<notin> set secret"
  shows "fst (FilterDiff (''--- '' @ secret) rules) = ''--- '' @ secret"
proof -
  have "nl \<notin> set (''--- '' @ secret)" using assms by (simp add: nl_def)
  then have "split_on nl (''--- '' @ secret) = [''--- '' @ secret]" by (rule split_on_fixed)
  moreover have "\<not> changed_line (''--- '' @ secret)" by (simp add: changed_line_def)
  ultimately show ?thesis by (simp add: FilterDiff_lines)
qed

theorem FilterDiff_header_leak_witness:
  "nl \<notin> set ''drop table users'' \<and>
   fst (FilterDiff (''--- '' @ ''drop table users'') DefaultRules) = ''--- drop table users''"
proof -
  have h: "nl \<notin> set ''drop table users''" by (simp add: nl_def)
  show ?thesis using h FilterDiff_header_leak[OF h, of DefaultRules] by simp
qed

end
