(* ===== verification/Filter_Markdown.thy ===== *)
theory Filter_Markdown
  imports Filter_Text
begin

text \<open>
  The Markdown filter of the session proxy (\<^verbatim>\<open>proxy/internal/filter/markdown.go\<close>) and the
  content-type dispatch of \<^verbatim>\<open>engine.go\<close>.

  The regular expressions of the source are written out as matchers on bytes.
  \<^verbatim>\<open>codeBlockRe\<close> is an opening fence, a run of word characters, a line feed, and the shortest
  text up to the next fence (\<open>match_block\<close>); \<open>code_matches\<close> is its
  \<^verbatim>\<open>FindAllStringSubmatchIndex\<close>, leftmost and non-overlapping.  \<open>fence_positions\<close> is the same
  for the fence alone.  The replacement loop keeps the running \<open>offset\<close> of the source; the
  main lemma shows that its index arithmetic computes the plain left-to-right substitution
  \<open>redact_blocks\<close>.
\<close>

section \<open>The matchers\<close>

definition fence :: string where
  "fence = ''```''"

definition is_word_char :: "char \<Rightarrow> bool" where
  "is_word_char c \<longleftrightarrow>
     (let n = (of_char c :: nat) in
      48 \<le> n \<and> n \<le> 57 \<or> 65 \<le> n \<and> n \<le> 90 \<or> 97 \<le> n \<and> n \<le> 122 \<or> n = 95)"

definition match_block :: "string \<Rightarrow> (string \<times> string \<times> nat) option" where
  "match_block s =
     (if has_prefix s fence then
        let r = drop 3 s;
            lang = takeWhile is_word_char r
        in (case dropWhile is_word_char r of
              [] \<Rightarrow> None
            | c # body \<Rightarrow>
                if c = nl then
                  (case index_of body fence of
                     None \<Rightarrow> None
                   | Some k \<Rightarrow> Some (lang, take k body, 3 + length lang + 1 + k + 3))
                else None)
      else None)"

lemma length_fence [simp]: "length fence = 3"
  by (simp add: fence_def)

lemma match_block_Some:
  assumes "match_block s = Some (lang, content, n)"
  shows "take n s = fence @ lang @ [nl] @ content @ fence" "n = length (take n s)" "0 < n"
proof -
  let ?r = "drop 3 s"
  from assms obtain body k where p: "has_prefix s fence"
    and lang: "lang = takeWhile is_word_char ?r"
    and dw: "dropWhile is_word_char ?r = nl # body"
    and k: "index_of body fence = Some k" and c: "content = take k body"
    and n: "n = 3 + length lang + 1 + k + 3"
    by (auto simp: match_block_def Let_def split: if_splits list.splits option.splits)
  have s: "s = fence @ ?r" using p by (metis append_take_drop_id has_prefix_def length_fence)
  have r: "?r = lang @ nl # body" unfolding lang dw[symmetric] by simp
  have b: "body = take k body @ fence @ drop (k + 3) body" "k + 3 \<le> length body"
    using index_of_Some[OF k] by simp_all
  have eq: "s = (fence @ lang @ [nl] @ content @ fence) @ drop (k + 3) body"
    using s r b(1) c by simp
  have len: "length (fence @ lang @ [nl] @ content @ fence) = n"
    using b(2) c n by simp
  show t: "take n s = fence @ lang @ [nl] @ content @ fence"
    using eq len by (metis append_eq_conv_conj)
  show "n = length (take n s)" using t len by simp
  show "0 < n" using n by simp
qed

lemma match_block_Nil [simp]: "match_block [] = None"
  by (simp add: match_block_def fence_def)

lemma match_block_bounds:
  "match_block s = Some (lang, content, n) \<Longrightarrow> 0 < n \<and> n \<le> length s"
  using match_block_Some(2,3)[of s lang content n] by (metis length_take min.cobounded1 min_def)

function code_matches :: "nat \<Rightarrow> string \<Rightarrow> (nat \<times> nat \<times> string \<times> string) list" where
  "code_matches i s =
     (case match_block s of
        Some (lang, content, n) \<Rightarrow> (i, i + n, lang, content) # code_matches (i + n) (drop n s)
      | None \<Rightarrow> (case s of [] \<Rightarrow> [] | c # t \<Rightarrow> code_matches (Suc i) t))"
  by pat_completeness auto
termination
  by (relation "measure (\<lambda>(i, s). length s)") (auto dest: match_block_bounds)

function fence_positions :: "nat \<Rightarrow> string \<Rightarrow> nat list" where
  "fence_positions i s =
     (if has_prefix s fence then i # fence_positions (i + 3) (drop 3 s)
      else (case s of [] \<Rightarrow> [] | c # t \<Rightarrow> fence_positions (Suc i) t))"
  by pat_completeness auto
termination
  by (relation "measure (\<lambda>(i, s). length s)") (auto dest: has_prefix_length)

declare code_matches.simps [simp del] fence_positions.simps [simp del]

section \<open>Code blocks\<close>

record CodeBlock =
  cb_Language :: string
  cb_Content :: string
  cb_Full :: string
  cb_Start :: nat
  cb_End :: nat
  cb_ClosingIndent :: string

definition closing_indent :: "string \<Rightarrow> string" where
  "closing_indent content =
     (if content \<noteq> [] then
        (case last_index content [nl] of
           None \<Rightarrow> []
         | Some lastNL \<Rightarrow>
             if lastNL + 1 < length content then
               (let afterNL = drop (lastNL + 1) content
                in if trim_space afterNL = [] then afterNL else [])
             else [])
      else [])"

definition mk_block :: "string \<Rightarrow> nat \<times> nat \<times> string \<times> string \<Rightarrow> CodeBlock" where
  "mk_block text m =
     (case m of (st, e, lang, content) \<Rightarrow>
        \<lparr>cb_Language = lang, cb_Content = content, cb_Full = take (e - st) (drop st text),
         cb_Start = st, cb_End = e, cb_ClosingIndent = closing_indent content\<rparr>)"

definition ExtractCodeBlocks :: "string \<Rightarrow> CodeBlock list" where
  "ExtractCodeBlocks text = map (mk_block text) (code_matches 0 text)"

definition HasUnclosedCodeBlock :: "string \<Rightarrow> bool" where
  "HasUnclosedCodeBlock text \<longleftrightarrow>
     length (fence_positions 0 text) > length (code_matches 0 text) * 2"

definition FindUnclosedBlock :: "string \<Rightarrow> (nat \<times> nat \<times> string) option" where
  "FindUnclosedBlock text =
     (let allBackticks = fence_positions 0 text;
          closedBlocks = code_matches 0 text;
          used = (\<lambda>b. list_ex (\<lambda>(st, e, _). st \<le> b \<and> b + 3 \<le> e) closedBlocks)
      in (case find (\<lambda>b. \<not> used b) allBackticks of
            None \<Rightarrow> None
          | Some b \<Rightarrow> Some (b, length text, takeWhile is_word_char (drop (b + 3) text))))"

section \<open>Filtering\<close>

definition streaming_marker :: "FilterRules \<Rightarrow> string \<Rightarrow> string" where
  "streaming_marker rules lang =
     (if PreserveLanguageHint rules \<and> lang \<noteq> [] then fence @ ''streaming-'' @ lang
      else fence @ ''streaming'') @ [nl] @ fence"

definition filterUnclosedBlock :: "string \<Rightarrow> FilterRules \<Rightarrow> string \<times> FilterAction list" where
  "filterUnclosedBlock text rules =
     (case FindUnclosedBlock text of
        None \<Rightarrow> (text, [])
      | Some (start, _, lang) \<Rightarrow>
          (take start text @ streaming_marker rules lang,
           [zero_action\<lparr>fa_Type := ''code_block_streaming'', fa_Strategy := ''streaming'',
              fa_Reason := ''code_block_streaming'', fa_Language := lang\<rparr>]))"

definition block_replacement :: "FilterRules \<Rightarrow> CodeBlock \<Rightarrow> string \<Rightarrow> string" where
  "block_replacement rules block filtered =
     (if PreserveLanguageHint rules \<and> cb_Language block \<noteq> []
      then fence @ ''filtered-'' @ cb_Language block
      else fence @ ''filtered'') @
     (if cb_ClosingIndent block \<noteq> []
      then [nl] @ (cb_ClosingIndent block @ filtered) @ [nl] @ cb_ClosingIndent block @ fence
      else [nl] @ filtered @ [nl] @ fence)"

definition block_action :: "FilterRules \<Rightarrow> CodeBlock \<Rightarrow> FilterAction" where
  "block_action rules block =
     zero_action\<lparr>fa_Type := ''code_block'', fa_Strategy := DefaultStrategy rules,
       fa_Reason := ''code_block'', fa_Language := cb_Language block,
       fa_Original := cb_Content block\<rparr>"

text \<open>One turn of the replacement loop, on the result so far, the offset and the actions.\<close>

definition md_step ::
  "FilterRules \<Rightarrow> string \<times> int \<times> FilterAction list \<Rightarrow> CodeBlock \<Rightarrow> string \<times> int \<times> FilterAction list"
where
  "md_step rules st block =
     (case st of (result, offset, actions) \<Rightarrow>
        let filtered = ApplyStrategy (cb_Content block) (DefaultStrategy rules)
                         (RedactPlaceholder rules)
        in if filtered \<noteq> cb_Content block then
             let replacement = block_replacement rules block filtered;
                 newResult = take (nat (int (cb_Start block) + offset)) result @ replacement @
                             drop (nat (int (cb_End block) + offset)) result
             in (newResult,
                 offset + (int (length replacement) - int (length (cb_Full block))),
                 actions @ [block_action rules block])
           else (result, offset, actions))"

definition FilterMarkdown :: "string \<Rightarrow> FilterRules \<Rightarrow> string \<times> FilterAction list" where
  "FilterMarkdown text rules =
     (let closedBlocks = ExtractCodeBlocks text;
          hasUnclosed = HasUnclosedCodeBlock text
      in if closedBlocks = [] then
           (if hasUnclosed then filterUnclosedBlock text rules else (text, []))
         else
           (case foldl (md_step rules) (text, 0, []) closedBlocks of
              (result, _, actions) \<Rightarrow>
                if hasUnclosed then
                  (case filterUnclosedBlock result rules of
                     (unclosedResult, unclosedActions) \<Rightarrow>
                       if unclosedActions \<noteq> [] then (unclosedResult, actions @ unclosedActions)
                       else (result, actions))
                else (result, actions)))"

definition FilterEngine :: "string \<Rightarrow> string \<Rightarrow> FilterRules \<Rightarrow> string \<times> FilterAction list" where
  "FilterEngine contentType content rules =
     (if contentType = ''markdown'' then FilterMarkdown content rules
      else if contentType = ''code'' then FilterCode content rules
      else if contentType = ''diff'' then FilterDiff content rules
      else if contentType = ''shell'' then FilterShell content rules
      else (content, []))"

section \<open>The reference substitution\<close>

text \<open>
  What the loop is meant to compute: walk over the text once; at every match of the block
  pattern emit the replacement (or the block itself when the strategy leaves its content as it
  is), everywhere else copy the byte.
\<close>

definition block_output :: "FilterRules \<Rightarrow> string \<Rightarrow> string \<Rightarrow> string \<Rightarrow> string" where
  "block_output rules lang content full =
     (let filtered = ApplyStrategy content (DefaultStrategy rules) (RedactPlaceholder rules)
      in if filtered \<noteq> content
         then block_replacement rules
                \<lparr>cb_Language = lang, cb_Content = content, cb_Full = full, cb_Start = 0,
                 cb_End = 0, cb_ClosingIndent = closing_indent content\<rparr> filtered
         else full)"

function redact_blocks :: "FilterRules \<Rightarrow> string \<Rightarrow> string" where
  "redact_blocks rules s =
     (case match_block s of
        Some (lang, content, n) \<Rightarrow>
          block_output rules lang content (take n s) @ redact_blocks rules (drop n s)
      | None \<Rightarrow> (case s of [] \<Rightarrow> [] | c # t \<Rightarrow> c # redact_blocks rules t))"
  by pat_completeness auto
termination
  by (relation "measure (\<lambda>(r, s). length s)") (auto dest: match_block_bounds)

function redacted_contents :: "FilterRules \<Rightarrow> string \<Rightarrow> string list" where
  "redacted_contents rules s =
     (case match_block s of
        Some (lang, content, n) \<Rightarrow>
          (if ApplyStrategy content (DefaultStrategy rules) (RedactPlaceholder rules) \<noteq> content
           then [content] else []) @ redacted_contents rules (drop n s)
      | None \<Rightarrow> (case s of [] \<Rightarrow> [] | c # t \<Rightarrow> redacted_contents rules t))"
  by pat_completeness auto
termination
  by (relation "measure (\<lambda>(r, s). length s)") (auto dest: match_block_bounds)

declare redact_blocks.simps [simp del] redacted_contents.simps [simp del]

section \<open>The loop computes the substitution\<close>

text \<open>The three walks over the text, by what the block matcher says at the head.\<close>

lemma walk_Nil [simp]:
  "code_matches i [] = []" "redact_blocks rules [] = []" "redacted_contents rules [] = []"
  by (simp_all add: code_matches.simps[of i "[]"] redact_blocks.simps[of rules "[]"]
      redacted_contents.simps[of rules "[]"])

lemma walk_skip:
  assumes "match_block (c # t) = None"
  shows "code_matches i (c # t) = code_matches (Suc i) t"
    "redact_blocks rules (c # t) = c # redact_blocks rules t"
    "redacted_contents rules (c # t) = redacted_contents rules t"
  using assms by (simp_all add: code_matches.simps[of i "c # t"]
      redact_blocks.simps[of rules "c # t"] redacted_contents.simps[of rules "c # t"])

lemma walk_match:
  assumes "match_block s = Some (lang, content, n)"
  shows "code_matches i s = (i, i + n, lang, content) # code_matches (i + n) (drop n s)"
    "redact_blocks rules s =
       block_output rules lang content (take n s) @ redact_blocks rules (drop n s)"
    "redacted_contents rules s =
       (if ApplyStrategy content (DefaultStrategy rules) (RedactPlaceholder rules) \<noteq> content
        then [content] else []) @ redacted_contents rules (drop n s)"
  using assms by (simp_all add: code_matches.simps[of i s]
      redact_blocks.simps[of rules s] redacted_contents.simps[of rules s])

lemma block_replacement_cong:
  "cb_Language b = cb_Language b' \<Longrightarrow> cb_ClosingIndent b = cb_ClosingIndent b' \<Longrightarrow>
   block_replacement rules b f = block_replacement rules b' f"
  by (simp add: block_replacement_def)

lemma mk_block_sel:
  "cb_Language (mk_block t (st, e, lang, content)) = lang"
  "cb_Content (mk_block t (st, e, lang, content)) = content"
  "cb_Full (mk_block t (st, e, lang, content)) = take (e - st) (drop st t)"
  "cb_Start (mk_block t (st, e, lang, content)) = st"
  "cb_End (mk_block t (st, e, lang, content)) = e"
  "cb_ClosingIndent (mk_block t (st, e, lang, content)) = closing_indent content"
  by (simp_all add: mk_block_def)

lemma md_step_block:
  assumes m: "match_block s = Some (lang, content, n)" and s: "drop i text = s"
  shows "md_step rules (pre @ s, int (length pre) - int i, acts)
           (mk_block text (i, i + n, lang, content)) =
    (let out = block_output rules lang content (take n s)
     in ((pre @ out) @ drop n s, int (length (pre @ out)) - int (i + n),
         acts @ (if ApplyStrategy content (DefaultStrategy rules) (RedactPlaceholder rules) \<noteq> content
                 then [block_action rules (mk_block text (i, i + n, lang, content))] else [])))"
proof (cases "ApplyStrategy content (DefaultStrategy rules) (RedactPlaceholder rules) = content")
  case True
  have "n \<le> length s" using match_block_bounds[OF m] by auto
  with True show ?thesis
    by (auto simp: md_step_def mk_block_def block_output_def Let_def)
next
  case False
  have n: "n \<le> length s" using match_block_bounds[OF m] by auto
  have e: "nat (int (i + n) + (int (length pre) - int i)) = length pre + n" by simp
  have st: "nat (int i + (int (length pre) - int i)) = length pre" by simp
  have cut: "take (length pre) (pre @ s) = pre" "drop (length pre + n) (pre @ s) = drop n s"
    by simp_all
  have out: "block_output rules lang content (take n s) =
      block_replacement rules (mk_block text (i, i + n, lang, content))
        (ApplyStrategy content (DefaultStrategy rules) (RedactPlaceholder rules))"
    using False by (auto simp: block_output_def Let_def mk_block_def intro: block_replacement_cong)
  show ?thesis
    unfolding out using n s False
    by (simp add: md_step_def Let_def mk_block_sel st e cut
        del: drop_append take_append of_nat_add)
qed

lemma md_loop:
  "drop i text = s \<Longrightarrow>
   \<exists>off acts'. foldl (md_step rules) (pre @ s, int (length pre) - int i, acts)
                 (map (mk_block text) (code_matches i s)) =
               (pre @ redact_blocks rules s, off, acts @ acts') \<and>
     map fa_Original acts' = redacted_contents rules s \<and>
     list_all (\<lambda>a. fa_Type a = ''code_block'') acts'"
proof (induction i s arbitrary: pre acts rule: code_matches.induct)
  case (1 i s)
  show ?case
  proof (cases "match_block s")
    case None
    show ?thesis
    proof (cases s)
      case (Cons c t)
      with "1.prems" have "drop (Suc i) text = t" by (metis drop_Suc list.sel(3) tl_drop)
      from "1.IH"(1)[OF None Cons this, of "pre @ [c]" acts] show ?thesis
        using None Cons by (simp add: walk_skip)
    qed simp
  next
    case (Some m)
    then obtain lang content n where m: "match_block s = Some (lang, content, n)"
      by (cases m) auto
    let ?out = "block_output rules lang content (take n s)"
    let ?new = "if ApplyStrategy content (DefaultStrategy rules) (RedactPlaceholder rules) \<noteq> content
                then [block_action rules (mk_block text (i, i + n, lang, content))] else []"
    have d: "drop (i + n) text = drop n s"
      unfolding "1.prems"[symmetric] by (simp add: add.commute)
    from "1.IH"(2)[OF m refl refl d, of "pre @ ?out" "acts @ ?new"] obtain off acts' where
      IH: "foldl (md_step rules)
             ((pre @ ?out) @ drop n s, int (length (pre @ ?out)) - int (i + n), acts @ ?new)
             (map (mk_block text) (code_matches (i + n) (drop n s))) =
           ((pre @ ?out) @ redact_blocks rules (drop n s), off, (acts @ ?new) @ acts')"
        "map fa_Original acts' = redacted_contents rules (drop n s)"
        "list_all (\<lambda>a. fa_Type a = ''code_block'') acts'"
      by blast
    have "foldl (md_step rules) (pre @ s, int (length pre) - int i, acts)
            (map (mk_block text) (code_matches i s)) =
          (pre @ redact_blocks rules s, off, acts @ (?new @ acts'))"
      using IH(1) by (simp add: walk_match[OF m] md_step_block[OF m "1.prems"] Let_def)
    moreover have "map fa_Original (?new @ acts') = redacted_contents rules s"
      using IH(2) by (simp add: walk_match[OF m] block_action_def mk_block_def)
    moreover have "list_all (\<lambda>a. fa_Type a = ''code_block'') (?new @ acts')"
      using IH(3) by (simp add: block_action_def)
    ultimately show ?thesis by blast
  qed
qed

lemma md_loop_start:
  obtains off acts where
    "foldl (md_step rules) (text, 0, []) (ExtractCodeBlocks text) =
       (redact_blocks rules text, off, acts)"
    "map fa_Original acts = redacted_contents rules text"
    "list_all (\<lambda>a. fa_Type a = ''code_block'') acts"
  using md_loop[of 0 "text" "text" rules "[]" "[]"] by (auto simp: ExtractCodeBlocks_def)

lemma no_blocks_identity:
  "code_matches i s = [] \<Longrightarrow> redact_blocks rules s = s \<and> redacted_contents rules s = []"
proof (induction i s rule: code_matches.induct)
  case (1 i s)
  show ?case
  proof (cases "match_block s")
    case None
    with 1 show ?thesis by (cases s) (auto simp: walk_skip)
  next
    case (Some m)
    then show ?thesis using "1.prems" by (cases m) (simp add: walk_match)
  qed
qed

lemma filterUnclosedBlock_None:
  "FindUnclosedBlock t = None \<Longrightarrow> filterUnclosedBlock t rules = (t, [])"
  by (simp add: filterUnclosedBlock_def)

lemma snd_filterUnclosedBlock:
  "snd (filterUnclosedBlock t rules) = [] \<longleftrightarrow> FindUnclosedBlock t = None"
  by (auto simp: filterUnclosedBlock_def split: option.splits)

lemma fst_filterUnclosedBlock:
  "fst (filterUnclosedBlock t rules) =
     (case FindUnclosedBlock t of
        None \<Rightarrow> t
      | Some (b, _, lang) \<Rightarrow> take b t @ streaming_marker rules lang)"
  by (auto simp: filterUnclosedBlock_def split: option.splits)

text \<open>
  C1. The Markdown filter replaces exactly the fenced code blocks: with every fence closed, its
  offset loop computes the left-to-right substitution of each block by its redacted form, text
  outside the blocks is copied byte for byte, and the audit actions list the hidden contents in
  order.  With a fence left open, the substituted text is cut at the first fence that belongs to
  no block and a streaming marker is put in its place.
\<close>

theorem FilterMarkdown_correct:
  "fst (FilterMarkdown text rules) =
     (let body = redact_blocks rules text
      in if \<not> HasUnclosedCodeBlock text then body
         else (case FindUnclosedBlock body of
                 None \<Rightarrow> body
               | Some (b, _, lang) \<Rightarrow> take b body @ streaming_marker rules lang)) \<and>
   (\<not> HasUnclosedCodeBlock text \<longrightarrow>
      map fa_Original (snd (FilterMarkdown text rules)) = redacted_contents rules text)"
proof (cases "ExtractCodeBlocks text = []")
  case True
  then have nb: "redact_blocks rules text = text" "redacted_contents rules text = []"
    using no_blocks_identity[of 0 "text" rules] by (simp_all add: ExtractCodeBlocks_def)
  with True show ?thesis
    by (simp add: FilterMarkdown_def fst_filterUnclosedBlock)
next
  case False
  obtain off acts where
    loop: "foldl (md_step rules) (text, 0, []) (ExtractCodeBlocks text) =
       (redact_blocks rules text, off, acts)"
    and orig: "map fa_Original acts = redacted_contents rules text"
    using md_loop_start[of rules "text"] by blast
  let ?u = "filterUnclosedBlock (redact_blocks rules text) rules"
  show ?thesis
    using False loop orig fst_filterUnclosedBlock[of "redact_blocks rules text" rules]
      snd_filterUnclosedBlock[of "redact_blocks rules text" rules]
    by (cases ?u) (auto simp: FilterMarkdown_def Let_def split: option.splits)
qed

theorem FilterMarkdown_correct_witness:
  "\<not> HasUnclosedCodeBlock (''a```c'' @ [nl] @ ''x'' @ fence) \<and>
   map fa_Original (snd (FilterMarkdown (''a```c'' @ [nl] @ ''x'' @ fence) DefaultRules)) = [''x'']"
proof -
  let ?t = "''a```c'' @ [nl] @ ''x'' @ fence"
  have h: "\<not> HasUnclosedCodeBlock ?t" by code_simp
  have r: "redacted_contents DefaultRules ?t = [''x'']" by code_simp
  show ?thesis using h r FilterMarkdown_correct[of ?t DefaultRules] by simp
qed

text \<open>
  The filter loses prose when a message holds a closed block with a language hint and a
  block still being streamed: the replacement of the closed block no longer matches the block
  pattern (its hint holds a hyphen), so the search for the open fence stops at the block that was
  just redacted and everything after it is dropped, the text between the two blocks included.
\<close>

theorem FilterMarkdown_drops_prose:
  "fst (FilterMarkdown (''```go'' @ [nl] @ ''a'' @ [nl] @ ''```'' @ [nl] @ ''keep'' @ [nl] @
          ''```py'' @ [nl] @ ''b'') DefaultRules) =
     ''```streaming-filtered'' @ [nl] @ ''```''"
  by code_simp

end
