(* ===== verification/Json_Data.thy ===== *)
theory Json_Data
  imports Prelude
begin

text \<open>
  Decoded JSON as Go's \<^verbatim>\<open>encoding/json\<close> hands it to the program: a value of type \<^verbatim>\<open>any\<close>, with the type switches and map accesses
  the components use.  An object is an association list with distinct keys, in the order of the document or, for a Go map, in
  one of its iteration orders.  A float64 is opaque.
\<close>

datatype json =
    JNull
  | JBool bool
  | JInt int
  | JFloat string
  | JStr string
  | JArr "json list"
  | JObj "(string \<times> json) list"

type_synonym jobj = "(string \<times> json) list"

text \<open>Reading a key of a map (a missing key gives nil) and the comma-ok type assertions.\<close>

definition jget :: "jobj \<Rightarrow> string \<Rightarrow> json" where
  "jget m k = (case map_of m k of None \<Rightarrow> JNull | Some v \<Rightarrow> v)"

definition jset :: "jobj \<Rightarrow> string \<Rightarrow> json \<Rightarrow> jobj" where
  "jset m k v = AList.update k v m"

definition as_str :: "json \<Rightarrow> string" where
  "as_str v = (case v of JStr s \<Rightarrow> s | _ \<Rightarrow> [])"

definition as_str_ok :: "json \<Rightarrow> string option" where
  "as_str_ok v = (case v of JStr s \<Rightarrow> Some s | _ \<Rightarrow> None)"

definition as_obj :: "json \<Rightarrow> jobj option" where
  "as_obj v = (case v of JObj m \<Rightarrow> Some m | _ \<Rightarrow> None)"

lemma jget_jset [simp]: "jget (jset m k v) k' = (if k' = k then v else jget m k')"
  by (simp add: jget_def jset_def map_of_update)

end
