(* ===== verification/Filter_Json.thy ===== *)
theory Filter_Json
  imports Filter_Markdown Json_Data
begin

text \<open>
  The message-part filter and the JSON rewriting of the session proxy
  (\<^verbatim>\<open>proxy/internal/filter/part.go\<close> and \<^verbatim>\<open>rewrite.go\<close>).

  A decoded JSON value (Go's \<^verbatim>\<open>interface{}\<close>) is a value of the datatype \<open>json\<close>; a
  \<^verbatim>\<open>map[string]interface{}\<close> is an association list, in one of the iteration orders Go may
  choose.  The codec of package \<^verbatim>\<open>encoding/json\<close> is a parameter \<open>json_codec\<close> of the functions
  that use it: decoding text, encoding a value, and the partial decoding of the \<^verbatim>\<open>type\<close> field.
  A float64 is opaque, since no function looks into one.

  The lemmas show that the walk over a response filters every message part and nothing else, and
  that the audit summary counts exactly what the part filter reported.
\<close>

section \<open>The codec\<close>

record json_codec =
  unmarshal :: "string \<Rightarrow> json option"
  marshal :: "json \<Rightarrow> string option"
  peek_type :: "string \<Rightarrow> string option"

text \<open>The \<^verbatim>\<open>metadata\<close> map of a part, fresh when the part has none, with its \<^verbatim>\<open>_filtered\<close> entry set.\<close>

definition mark_filtered :: "jobj \<Rightarrow> jobj \<Rightarrow> jobj" where
  "mark_filtered part info =
     (let metadata = (case as_obj (jget part ''metadata'') of None \<Rightarrow> [] | Some m \<Rightarrow> m)
      in jset part ''metadata'' (JObj (jset metadata ''_filtered'' (JObj info))))"

section \<open>Filtering one message part\<close>

definition filterTextPart :: "jobj \<Rightarrow> FilterRules \<Rightarrow> jobj \<times> FilterAction list" where
  "filterTextPart part rules =
     (let txt = as_str (jget part ''text'')
      in if txt = [] then (part, [])
         else (case FilterMarkdown txt rules of (filtered, actions) \<Rightarrow>
                 (if filtered \<noteq> txt then jset part ''text'' (JStr filtered) else part, actions)))"

fun first_path :: "jobj \<Rightarrow> string list \<Rightarrow> string" where
  "first_path input [] = []"
| "first_path input (k # ks) =
     (case as_str_ok (jget input k) of Some p \<Rightarrow> p | None \<Rightarrow> first_path input ks)"

definition extractToolFilePath :: "string \<Rightarrow> jobj option \<Rightarrow> string" where
  "extractToolFilePath toolName input =
     (case input of
        None \<Rightarrow> []
      | Some inp \<Rightarrow>
          if toolName \<in> {''read'', ''write'', ''edit'', ''read_file'', ''write_file'',
               ''edit_file'', ''file_read'', ''file_write'', ''file_edit'', ''apply_patch''}
          then first_path inp [''filePath'', ''file_path'', ''path'']
          else if toolName \<in> {''bash'', ''shell''} then first_path inp [''command'']
          else if toolName \<in> {''grep'', ''search'', ''glob'', ''list''}
          then first_path inp [''path'', ''directory'']
          else [])"

definition filterToolPart ::
  "json_codec \<Rightarrow> jobj \<Rightarrow> FilterRules \<Rightarrow> jobj \<times> FilterAction list" where
  "filterToolPart codec part rules =
     (let toolName = as_str (jget part ''tool'')
      in case as_obj (jget part ''state'') of
           None \<Rightarrow> (part, [])
         | Some state \<Rightarrow>
             let input = as_obj (jget state ''input'');
                 inputJSON =
                   (case marshal codec (case input of None \<Rightarrow> JNull | Some m \<Rightarrow> JObj m) of
                      None \<Rightarrow> [] | Some s \<Rightarrow> s);
                 filePath = extractToolFilePath toolName input;
                 trackAction = zero_action\<lparr>fa_Type := ''tool_output'', fa_ToolName := toolName,
                                 fa_Path := filePath, fa_Input := inputJSON\<rparr>;
                 status = as_str (jget state ''status'')
             in if status \<noteq> ''completed'' then (part, [trackAction])
                else
                  let output = as_str (jget state ''output'')
                  in if output = [] then (part, [trackAction])
                     else
                       (case FilterToolOutput toolName output rules of (filtered, actions) \<Rightarrow>
                          if filtered \<noteq> output then
                            let state1 = jset state ''output'' (JStr filtered);
                                state2 = mark_filtered state1
                                  [(''strategy'', JStr (DefaultStrategy rules)),
                                   (''reason'', JStr ''tool_output''),
                                   (''toolName'', JStr toolName),
                                   (''originalSize'', JInt (int (length output)))]
                            in (jset part ''state'' (JObj state2),
                                actions @ [trackAction\<lparr>fa_Filtered := True,
                                             fa_Strategy := DefaultStrategy rules\<rparr>])
                          else (part, actions @ [trackAction])))"

text \<open>The loop over the items of an array content: the items, the actions and \<^verbatim>\<open>modified\<close>.\<close>

fun filter_items :: "FilterRules \<Rightarrow> json list \<Rightarrow> json list \<times> FilterAction list \<times> bool" where
  "filter_items rules [] = ([], [], False)"
| "filter_items rules (item # rest) =
     (case filter_items rules rest of (rest', acts, modified) \<Rightarrow>
        (case as_obj item of
           None \<Rightarrow> (item # rest', acts, modified)
         | Some itemMap \<Rightarrow>
             let txt = as_str (jget itemMap ''text'')
             in if txt = [] then (item # rest', acts, modified)
                else (case FilterCode txt rules of (filtered, actions) \<Rightarrow>
                        if filtered \<noteq> txt
                        then (JObj (jset itemMap ''text'' (JStr filtered)) # rest',
                              actions @ acts, True)
                        else (item # rest', actions @ acts, modified))))"

definition filterToolResultArrayContent ::
  "jobj \<Rightarrow> json list \<Rightarrow> FilterRules \<Rightarrow> jobj \<times> FilterAction list" where
  "filterToolResultArrayContent part parts rules =
     (case filter_items rules parts of (parts', allActions, modified) \<Rightarrow>
        if modified then
          (mark_filtered (jset part ''content'' (JArr parts'))
             [(''strategy'', JStr (DefaultStrategy rules)), (''reason'', JStr ''tool_result'')],
           allActions)
        else (part, allActions))"

definition filterToolResultPart :: "jobj \<Rightarrow> FilterRules \<Rightarrow> jobj \<times> FilterAction list" where
  "filterToolResultPart part rules =
     (case jget part ''content'' of
        JArr arr \<Rightarrow> filterToolResultArrayContent part arr rules
      | content \<Rightarrow>
          let contentStr = as_str content
          in if contentStr = [] then (part, [])
             else (case FilterCode contentStr rules of (filtered, actions) \<Rightarrow>
                     if filtered \<noteq> contentStr then
                       (mark_filtered (jset part ''content'' (JStr filtered))
                          [(''strategy'', JStr (DefaultStrategy rules)),
                           (''reason'', JStr ''tool_result''),
                           (''originalSize'', JInt (int (length contentStr)))], actions)
                     else (part, actions)))"

definition filterReasoningPart :: "jobj \<Rightarrow> FilterRules \<Rightarrow> jobj \<times> FilterAction list" where
  "filterReasoningPart part rules =
     (if ReasoningThreshold rules < 0 then (part, [])
      else
        let txt = as_str (jget part ''text'')
        in if int (length txt) \<le> ReasoningThreshold rules then (part, [])
           else
             (mark_filtered (jset part ''text'' (JStr (RedactPlaceholder rules)))
                [(''strategy'', JStr (DefaultStrategy rules)),
                 (''reason'', JStr ''reasoning_threshold''),
                 (''originalSize'', JInt (int (length txt)))],
              [zero_action\<lparr>fa_Type := ''reasoning'', fa_Strategy := DefaultStrategy rules,
                 fa_Reason := ''reasoning_threshold'', fa_Original := txt\<rparr>]))"

definition filterSnapshotPart :: "jobj \<Rightarrow> FilterRules \<Rightarrow> jobj \<times> FilterAction list" where
  "filterSnapshotPart part rules =
     (let snapshot = as_str (jget part ''snapshot'')
      in if snapshot = [] then (part, [])
         else (case FilterCode snapshot rules of (filtered, actions) \<Rightarrow>
                 (if filtered \<noteq> snapshot then jset part ''snapshot'' (JStr filtered) else part,
                  actions)))"

definition FilterPart :: "json_codec \<Rightarrow> jobj \<Rightarrow> FilterRules \<Rightarrow> jobj \<times> FilterAction list" where
  "FilterPart codec partJSON rules =
     (let partType = as_str (jget partJSON ''type'')
      in if partType = ''text'' then filterTextPart partJSON rules
         else if partType = ''tool'' then filterToolPart codec partJSON rules
         else if partType = ''tool-result'' then filterToolResultPart partJSON rules
         else if partType = ''reasoning'' then filterReasoningPart partJSON rules
         else if partType = ''snapshot'' then filterSnapshotPart partJSON rules
         else (partJSON, []))"

section \<open>The audit summary and the walk over a response\<close>

record AuditSummary =
  as_ToolsCount :: nat
  as_CodeBlocksTotal :: nat
  as_CodeBlocksFiltered :: nat
  as_Filtered :: bool
  as_ToolActions :: "FilterAction list"

definition zero_summary :: AuditSummary where
  "zero_summary = \<lparr>as_ToolsCount = 0, as_CodeBlocksTotal = 0, as_CodeBlocksFiltered = 0,
     as_Filtered = False, as_ToolActions = []\<rparr>"

text \<open>The body of the loop over the actions of one part, shared by the walk and the stream.\<close>

definition count_action :: "AuditSummary \<Rightarrow> FilterAction \<Rightarrow> AuditSummary" where
  "count_action summary action =
     (let s1 = summary\<lparr>as_Filtered := True\<rparr>;
          s2 = (if fa_Type action = ''code_block'' \<or> fa_Type action = ''code_block_streaming''
                then
                  (let s = s1\<lparr>as_CodeBlocksTotal := as_CodeBlocksTotal s1 + 1\<rparr>
                   in if fa_Strategy action \<noteq> ''streaming''
                      then s\<lparr>as_CodeBlocksFiltered := as_CodeBlocksFiltered s + 1\<rparr> else s)
                else s1)
      in if fa_ToolName action \<noteq> []
         then s2\<lparr>as_ToolActions := as_ToolActions s2 @ [action],
                 as_ToolsCount := as_ToolsCount s2 + 1\<rparr>
         else s2)"

definition isPartType :: "string \<Rightarrow> bool" where
  "isPartType t \<longleftrightarrow> t \<in> {''text'', ''tool'', ''tool-result'', ''reasoning'', ''snapshot'',
     ''step-start'', ''patch''}"

definition is_part :: "jobj \<Rightarrow> bool" where
  "is_part m \<longleftrightarrow>
     (case as_str_ok (jget m ''type'') of None \<Rightarrow> False | Some t \<Rightarrow> isPartType t)"

fun walkJSON :: "json_codec \<Rightarrow> FilterRules \<Rightarrow> json \<Rightarrow> AuditSummary \<Rightarrow> json \<times> AuditSummary"
  and walk_fields :: "json_codec \<Rightarrow> FilterRules \<Rightarrow> jobj \<Rightarrow> AuditSummary \<Rightarrow> jobj \<times> AuditSummary"
  and walk_items ::
    "json_codec \<Rightarrow> FilterRules \<Rightarrow> json list \<Rightarrow> AuditSummary \<Rightarrow> json list \<times> AuditSummary"
where
  "walkJSON codec rules (JObj m) summary =
     (if is_part m then
        (case FilterPart codec m rules of (filtered, actions) \<Rightarrow>
           (JObj filtered, foldl count_action summary actions))
      else (case walk_fields codec rules m summary of (m', summary') \<Rightarrow> (JObj m', summary')))"
| "walkJSON codec rules (JArr xs) summary =
     (case walk_items codec rules xs summary of (xs', summary') \<Rightarrow> (JArr xs', summary'))"
| "walkJSON codec rules v summary = (v, summary)"
| "walk_fields codec rules [] summary = ([], summary)"
| "walk_fields codec rules (kv # m) summary =
     (case kv of (k, child) \<Rightarrow>
        case walkJSON codec rules child summary of (child', s1) \<Rightarrow>
        case walk_fields codec rules m s1 of (m', s2) \<Rightarrow> ((k, child') # m', s2))"
| "walk_items codec rules [] summary = ([], summary)"
| "walk_items codec rules (child # xs) summary =
     (case walkJSON codec rules child summary of (child', s1) \<Rightarrow>
        case walk_items codec rules xs s1 of (xs', s2) \<Rightarrow> (child' # xs', s2))"

section \<open>Responses\<close>

text \<open>
  The two decodings of the body (into a raw message, then into an interface value) are the same
  decoding of the same bytes; the second cannot fail where the first did not.
\<close>

definition processConversationResponse ::
  "json_codec \<Rightarrow> string \<Rightarrow> FilterRules \<Rightarrow> string \<times> AuditSummary option" where
  "processConversationResponse codec body rules =
     (case unmarshal codec body of
        None \<Rightarrow> (body, None)
      | Some raw \<Rightarrow>
          (case walkJSON codec rules raw zero_summary of (modified, summary) \<Rightarrow>
             (case marshal codec modified of
                None \<Rightarrow> (body, None)
              | Some result \<Rightarrow> (result, Some summary))))"

text \<open>
  Decoding into a \<^verbatim>\<open>map[string]interface{}\<close>: an object gives its map, \<^verbatim>\<open>null\<close> the nil map, any
  other value an error.  The flag says whether the map is nil, which encodes as \<^verbatim>\<open>null\<close>.
\<close>

definition decode_map :: "json_codec \<Rightarrow> string \<Rightarrow> (bool \<times> jobj) option" where
  "decode_map codec body =
     (case unmarshal codec body of
        Some (JObj m) \<Rightarrow> Some (False, m)
      | Some JNull \<Rightarrow> Some (True, [])
      | _ \<Rightarrow> None)"

definition processRuntimeFileContent ::
  "json_codec \<Rightarrow> string \<Rightarrow> FilterRules \<Rightarrow> string \<times> AuditSummary option" where
  "processRuntimeFileContent codec body rules =
     (case decode_map codec body of
        None \<Rightarrow> (body, None)
      | Some (_, data) \<Rightarrow>
          let content = as_str (jget data ''content'')
          in if content = [] then (body, None)
             else
               let filtered = fst (FilterCode content rules);
                   data1 = jset data ''content'' (JStr filtered);
                   data2 = jset data1 ''_filtered'' (JObj
                     [(''strategy'', JStr (DefaultStrategy rules)),
                      (''reason'', JStr ''runtime_file''),
                      (''originalSize'', JInt (int (length content)))])
               in (case marshal codec (JObj data2) of
                     None \<Rightarrow> (body, None)
                   | Some result \<Rightarrow>
                       (result, Some (zero_summary\<lparr>as_Filtered := True,
                          as_ToolActions := [zero_action\<lparr>fa_Type := ''runtime_file'',
                             fa_Strategy := DefaultStrategy rules\<rparr>]\<rparr>))))"

text \<open>One of the three field rewrites of \<open>processRuntimeDiffContent\<close>.\<close>

definition rewrite_field ::
  "(string \<Rightarrow> string) \<Rightarrow> string \<Rightarrow> jobj \<times> bool \<Rightarrow> jobj \<times> bool" where
  "rewrite_field f key st =
     (case st of (data, modified) \<Rightarrow>
        let v = as_str (jget data key)
        in if v \<noteq> [] \<and> f v \<noteq> v then (jset data key (JStr (f v)), True) else (data, modified))"

definition processRuntimeDiffContent ::
  "json_codec \<Rightarrow> string \<Rightarrow> FilterRules \<Rightarrow> string \<times> AuditSummary option" where
  "processRuntimeDiffContent codec body rules =
     (case decode_map codec body of
        None \<Rightarrow> (body, None)
      | Some (is_nil, data) \<Rightarrow>
          let code = (\<lambda>v. fst (FilterCode v rules));
              st = rewrite_field code ''after''
                     (rewrite_field code ''before''
                        (rewrite_field (\<lambda>v. fst (FilterDiff v rules)) ''diff'' (data, False)))
          in (case st of (data', modified) \<Rightarrow>
                let data'' = (if modified then jset data' ''_filtered'' (JObj
                                [(''strategy'', JStr (DefaultStrategy rules)),
                                 (''reason'', JStr ''runtime_diff'')]) else data');
                    summary = zero_summary\<lparr>as_Filtered := modified\<rparr>
                in (case marshal codec (if is_nil then JNull else JObj data'') of
                      None \<Rightarrow> (body, None)
                    | Some result \<Rightarrow> (result, Some summary))))"

definition ProcessResponse ::
  "json_codec \<Rightarrow> string \<Rightarrow> string \<Rightarrow> int \<Rightarrow> string \<Rightarrow> FilterRules \<Rightarrow> string \<times> AuditSummary option"
where
  "ProcessResponse codec path method statusCode body rules =
     (if body = [] then (body, None)
      else if contains path ''/runtime/files/content'' \<and> \<not> has_suffix path ''/meta''
      then processRuntimeFileContent codec body rules
      else if contains path ''/runtime/diff/content''
      then processRuntimeDiffContent codec body rules
      else if contains path ''/conversations/''
      then processConversationResponse codec body rules
      else (body, None))"

section \<open>What the part filter touches\<close>

lemma jget_mark_filtered [simp]:
  "k \<noteq> ''metadata'' \<Longrightarrow> jget (mark_filtered part info) k = jget part k"
  by (simp add: mark_filtered_def Let_def)

lemma jget_filterTextPart:
  "k \<noteq> ''text'' \<Longrightarrow> jget (fst (filterTextPart part rules)) k = jget part k"
  by (simp add: filterTextPart_def Let_def split: prod.split)

lemma jget_filterToolPart:
  "k \<noteq> ''state'' \<Longrightarrow> jget (fst (filterToolPart codec part rules)) k = jget part k"
  by (simp add: filterToolPart_def Let_def split: prod.split option.split)

lemma jget_filterToolResultPart:
  assumes "k \<noteq> ''content''" "k \<noteq> ''metadata''"
  shows "jget (fst (filterToolResultPart part rules)) k = jget part k"
proof -
  have "jget (fst (filterToolResultArrayContent part arr rules)) k = jget part k" for arr
    using assms by (simp add: filterToolResultArrayContent_def split: prod.split)
  then show ?thesis
    using assms by (simp add: filterToolResultPart_def Let_def split: prod.split json.split)
qed

lemma jget_filterReasoningPart:
  "k \<noteq> ''text'' \<Longrightarrow> k \<noteq> ''metadata'' \<Longrightarrow> jget (fst (filterReasoningPart part rules)) k = jget part k"
  by (simp add: filterReasoningPart_def Let_def)

lemma jget_filterSnapshotPart:
  "k \<noteq> ''snapshot'' \<Longrightarrow> jget (fst (filterSnapshotPart part rules)) k = jget part k"
  by (simp add: filterSnapshotPart_def Let_def split: prod.split)

lemma FilterPart_frame:
  assumes "k \<notin> {''text'', ''state'', ''content'', ''snapshot'', ''metadata''}"
  shows "jget (fst (FilterPart codec part rules)) k = jget part k"
  using assms by (simp add: FilterPart_def Let_def jget_filterTextPart jget_filterToolPart
      jget_filterToolResultPart jget_filterReasoningPart jget_filterSnapshotPart)

lemma is_part_FilterPart [simp]: "is_part (fst (FilterPart codec part rules)) = is_part part"
  by (simp add: is_part_def FilterPart_frame)

section \<open>The walk covers every part\<close>

text \<open>The outermost message parts of a decoded value, in the order the walk meets them.\<close>

fun parts_of :: "json \<Rightarrow> jobj list"
  and parts_of_fields :: "jobj \<Rightarrow> jobj list"
  and parts_of_items :: "json list \<Rightarrow> jobj list"
where
  "parts_of (JObj m) = (if is_part m then [m] else parts_of_fields m)"
| "parts_of (JArr xs) = parts_of_items xs"
| "parts_of v = []"
| "parts_of_fields [] = []"
| "parts_of_fields (kv # m) = (case kv of (k, child) \<Rightarrow> parts_of child @ parts_of_fields m)"
| "parts_of_items [] = []"
| "parts_of_items (child # xs) = parts_of child @ parts_of_items xs"

text \<open>
  A walked value keeps its shape: same keys in the same places, same array lengths, same leaves
  outside the parts.  \<open>map_parts f\<close> is the pure function that applies \<open>f\<close> to every outermost part.
\<close>

fun map_parts :: "(jobj \<Rightarrow> jobj) \<Rightarrow> json \<Rightarrow> json"
  and map_parts_fields :: "(jobj \<Rightarrow> jobj) \<Rightarrow> jobj \<Rightarrow> jobj"
  and map_parts_items :: "(jobj \<Rightarrow> jobj) \<Rightarrow> json list \<Rightarrow> json list"
where
  "map_parts f (JObj m) = JObj (if is_part m then f m else map_parts_fields f m)"
| "map_parts f (JArr xs) = JArr (map_parts_items f xs)"
| "map_parts f v = v"
| "map_parts_fields f [] = []"
| "map_parts_fields f (kv # m) = (case kv of (k, child) \<Rightarrow> (k, map_parts f child) # map_parts_fields f m)"
| "map_parts_items f [] = []"
| "map_parts_items f (child # xs) = map_parts f child # map_parts_items f xs"

abbreviation part_actions :: "json_codec \<Rightarrow> FilterRules \<Rightarrow> jobj list \<Rightarrow> FilterAction list" where
  "part_actions codec rules ps \<equiv> concat (map (\<lambda>p. snd (FilterPart codec p rules)) ps)"

lemma walk_spec:
  "walkJSON codec rules v summary =
     (map_parts (\<lambda>p. fst (FilterPart codec p rules)) v,
      foldl count_action summary (part_actions codec rules (parts_of v)))"
  "walk_fields codec rules m summary =
     (map_parts_fields (\<lambda>p. fst (FilterPart codec p rules)) m,
      foldl count_action summary (part_actions codec rules (parts_of_fields m)))"
  "walk_items codec rules xs summary =
     (map_parts_items (\<lambda>p. fst (FilterPart codec p rules)) xs,
      foldl count_action summary (part_actions codec rules (parts_of_items xs)))"
proof (induction codec rules v summary and codec rules m summary and codec rules xs summary
    rule: walkJSON_walk_fields_walk_items.induct)
  case (1 codec rules m summary)
  then show ?case by (auto split: prod.splits)
qed (auto split: prod.splits)

lemma map_of_map_parts_fields:
  "map_of (map_parts_fields f m) k = map_option (map_parts f) (map_of m k)"
  by (induction m) auto

lemma is_part_map_parts_fields: "\<not> is_part m \<Longrightarrow> \<not> is_part (map_parts_fields f m)"
proof -
  have str: "as_str_ok (map_parts f v) = as_str_ok v" for v
    by (cases v) (simp_all add: as_str_ok_def)
  have "as_str_ok (jget (map_parts_fields f m) k) = as_str_ok (jget m k)" for k
    by (simp add: jget_def map_of_map_parts_fields str as_str_ok_def[of JNull]
        split: option.splits)
  then show "\<not> is_part m \<Longrightarrow> \<not> is_part (map_parts_fields f m)"
    by (simp add: is_part_def)
qed

lemma parts_of_map_parts:
  assumes f: "\<And>p. is_part p \<Longrightarrow> is_part (f p)"
  shows "parts_of (map_parts f v) = map f (parts_of v)"
    "parts_of_fields (map_parts_fields f m) = map f (parts_of_fields m)"
    "parts_of_items (map_parts_items f xs) = map f (parts_of_items xs)"
proof (induction v and m and xs rule: parts_of_parts_of_fields_parts_of_items.induct)
  case (1 m)
  then show ?case by (cases "is_part m") (auto simp: f is_part_map_parts_fields)
qed (auto split: prod.splits)

section \<open>Audit accounting\<close>

definition summary_inv :: "AuditSummary \<Rightarrow> bool" where
  "summary_inv s \<longleftrightarrow>
     as_CodeBlocksFiltered s \<le> as_CodeBlocksTotal s \<and> as_ToolsCount s = length (as_ToolActions s) \<and>
     (as_CodeBlocksTotal s > 0 \<or> as_ToolActions s \<noteq> [] \<longrightarrow> as_Filtered s)"

lemma summary_inv_count_action: "summary_inv s \<Longrightarrow> summary_inv (count_action s a)"
  by (auto simp: summary_inv_def count_action_def Let_def)

lemma summary_inv_fold: "summary_inv s \<Longrightarrow> summary_inv (foldl count_action s acts)"
  by (induction acts arbitrary: s) (auto simp: summary_inv_count_action)

lemma summary_inv_zero: "summary_inv zero_summary"
  by (simp add: summary_inv_def zero_summary_def)

lemma tool_actions_fold:
  "as_ToolActions (foldl count_action s acts) =
     as_ToolActions s @ filter (\<lambda>a. fa_ToolName a \<noteq> []) acts"
  by (induction acts arbitrary: s) (auto simp: count_action_def Let_def)

text \<open>
  The walk over a conversation response filters every message part and nothing else: the
  result is the decoded value with each outermost part (at any depth of objects and arrays)
  replaced by its filtered form, the parts of the result are exactly those filtered parts in
  order, and the summary is the one obtained by counting their actions in that order.
\<close>

theorem walkJSON_filters_every_part:
  "let (out, summary) = walkJSON codec rules v zero_summary;
       flt = (\<lambda>p. fst (FilterPart codec p rules))
   in out = map_parts flt v \<and>
      parts_of out = map flt (parts_of v) \<and>
      summary = foldl count_action zero_summary
                  (concat (map (\<lambda>p. snd (FilterPart codec p rules)) (parts_of v)))"
  by (simp add: walk_spec(1) parts_of_map_parts)

text \<open>
  The audit summary of a response is consistent: it never counts more filtered blocks than
  blocks, the tool counter is the number of recorded tool actions, these are exactly the actions
  of the response's parts that name a tool, and a summary that counts anything is marked as
  filtered.
\<close>

theorem walkJSON_summary:
  "let summary = snd (walkJSON codec rules v zero_summary)
   in as_CodeBlocksFiltered summary \<le> as_CodeBlocksTotal summary \<and>
      as_ToolsCount summary = length (as_ToolActions summary) \<and>
      as_ToolActions summary =
        filter (\<lambda>a. fa_ToolName a \<noteq> [])
          (concat (map (\<lambda>p. snd (FilterPart codec p rules)) (parts_of v))) \<and>
      as_Filtered summary =
        (concat (map (\<lambda>p. snd (FilterPart codec p rules)) (parts_of v)) \<noteq> [])"
proof -
  let ?acts = "part_actions codec rules (parts_of v)"
  have "as_Filtered (foldl count_action s as) = (as_Filtered s \<or> as \<noteq> [])" for s as
    by (induction as arbitrary: s) (auto simp: count_action_def Let_def)
  moreover have "summary_inv (foldl count_action zero_summary ?acts)"
    by (rule summary_inv_fold[OF summary_inv_zero])
  ultimately show ?thesis
    by (simp add: walk_spec(1) tool_actions_fold summary_inv_def)
       (simp add: zero_summary_def)
qed

text \<open>
  A completed tool call never shows its raw output: after the part filter, the output field
  of its state is the tool filter's result, the part's other fields are unchanged, and the part
  always leaves one audit action naming the tool.
\<close>

theorem FilterPart_tool_output:
  assumes "jget part ''type'' = JStr ''tool''" and "jget part ''state'' = JObj state"
    and "jget state ''status'' = JStr ''completed''" and "jget state ''output'' = JStr output"
    and "output \<noteq> []"
  shows "\<exists>state'. jget (fst (FilterPart codec part rules)) ''state'' = JObj state' \<and>
           jget state' ''output'' =
             JStr (fst (FilterToolOutput (as_str (jget part ''tool'')) output rules)) \<and>
           (\<forall>k. k \<noteq> ''state'' \<longrightarrow> jget (fst (FilterPart codec part rules)) k = jget part k) \<and>
           fa_ToolName (last (snd (FilterPart codec part rules))) = as_str (jget part ''tool'')"
  using assms
  by (cases "FilterToolOutput (as_str (jget part ''tool'')) output rules")
     (auto simp: FilterPart_def filterToolPart_def as_str_def as_obj_def Let_def zero_action_def)

theorem FilterPart_tool_output_witness:
  "\<exists>state'. jget (fst (FilterPart \<lparr>unmarshal = (\<lambda>_. None), marshal = (\<lambda>_. None),
        peek_type = (\<lambda>_. None)\<rparr>
      [(''type'', JStr ''tool''), (''tool'', JStr ''read''),
       (''state'', JObj [(''status'', JStr ''completed''), (''output'', JStr ''x = 1'')])]
      DefaultRules)) ''state'' = JObj state' \<and>
    jget state' ''output'' = JStr ''[code filtered]''"
proof -
  let ?state = "[(''status'', JStr ''completed''), (''output'', JStr ''x = 1'')]"
  let ?part = "[(''type'', JStr ''tool''), (''tool'', JStr ''read''), (''state'', JObj ?state)]"
  let ?codec = "\<lparr>unmarshal = (\<lambda>_. None), marshal = (\<lambda>_. None), peek_type = (\<lambda>_. None)\<rparr>"
  have h: "jget ?part ''type'' = JStr ''tool''" "jget ?part ''state'' = JObj ?state"
    "jget ?state ''status'' = JStr ''completed''" "jget ?state ''output'' = JStr ''x = 1''"
    "''x = 1'' \<noteq> []"
    by (simp_all add: jget_def)
  have "fst (FilterToolOutput (as_str (jget ?part ''tool'')) ''x = 1'' DefaultRules) =
        ''[code filtered]''"
    by code_simp
  then show ?thesis using FilterPart_tool_output[OF h, of ?codec DefaultRules] by auto
qed

end
