(* ===== verification/Filter_SSE.thy ===== *)
theory Filter_SSE
  imports Filter_Json
begin

text \<open>
  The server-sent-event filter of the session proxy (\<^verbatim>\<open>proxy/internal/filter/sse.go\<close>).

  \<open>FilterSSEStream\<close> runs over the lines the scanner yields; its state is the event being
  assembled, the delta trackers (one per message part), the chunks written so far and the audit
  summaries handed to the callback.  The writer is a parameter: a predicate on the chunks written
  so far that says whether the next write fails.  Writes whose error the source ignores are skipped
  on failure, the others end the stream.

  Streaming text arrives as deltas; a tracker counts the fences seen so far and decides whether a
  delta is passed on, held back, or replaced.  The lemmas give the condition under which the
  tracker hides all code, and a run where it does not.
\<close>

section \<open>Fences in streamed text\<close>

function countFences :: "string \<Rightarrow> nat" where
  "countFences s =
     (case index_of s fence of None \<Rightarrow> 0 | Some idx \<Rightarrow> Suc (countFences (drop (idx + 3) s)))"
  by pat_completeness auto
termination
  by (relation "measure length") (auto dest!: index_of_Some)

function extractFenceLanguage :: "string \<Rightarrow> string" where
  "extractFenceLanguage fullText =
     (case index_of fullText fence of
        None \<Rightarrow> []
      | Some idx \<Rightarrow>
          let after = drop (idx + 3) fullText
          in if has_prefix after ''`'' then extractFenceLanguage after
             else (case index_of after [nl] of
                     None \<Rightarrow> trim_space after
                   | Some newlineIdx \<Rightarrow> trim_space (take newlineIdx after)))"
  by pat_completeness auto
termination
  by (relation "measure length") (auto dest!: index_of_Some)

declare countFences.simps [simp del] extractFenceLanguage.simps [simp del]

record deltaTracker =
  dt_buf :: string
  dt_fenceCount :: nat
  dt_suppressing :: bool

definition zero_tracker :: deltaTracker where
  "zero_tracker = \<lparr>dt_buf = [], dt_fenceCount = 0, dt_suppressing = False\<rparr>"

datatype delta_verdict = Suppress | Replace string | PassThrough

definition filtered_delta :: "string \<Rightarrow> string" where
  "filtered_delta lang =
     [nl] @ ''```filtered-'' @ lang @ [nl] @ ''[code filtered]'' @ [nl] @ ''```'' @ [nl]"

text \<open>The tracker part of \<open>processDeltaEvent\<close>: the new tracker and what becomes of the delta.\<close>

definition track_delta :: "deltaTracker \<Rightarrow> string \<Rightarrow> deltaTracker \<times> delta_verdict" where
  "track_delta tracker deltaText =
     (let fullText = dt_buf tracker @ deltaText;
          newFenceCount = countFences fullText;
          t1 = tracker\<lparr>dt_buf := fullText\<rparr>
      in if newFenceCount > dt_fenceCount tracker then
           let wasEven = (dt_fenceCount tracker mod 2 = 0);
               t2 = t1\<lparr>dt_fenceCount := newFenceCount\<rparr>
           in if wasEven then (t2\<lparr>dt_suppressing := True\<rparr>, Suppress)
              else (t2\<lparr>dt_suppressing := False\<rparr>,
                    Replace (filtered_delta (extractFenceLanguage fullText)))
         else if dt_suppressing tracker then (t1, Suppress)
         else (t1, PassThrough))"

section \<open>Events\<close>

record SSEEvent =
  ev_ID :: string
  ev_Event :: string
  ev_Data :: string

definition zero_event :: SSEEvent where
  "zero_event = \<lparr>ev_ID = [], ev_Event = [], ev_Data = []\<rparr>"

record sseProcessResult =
  sr_Event :: string
  sr_Data :: string
  sr_Summary :: "AuditSummary option"

definition data_result :: "string \<Rightarrow> sseProcessResult" where
  "data_result d = \<lparr>sr_Event = [], sr_Data = d, sr_Summary = None\<rparr>"

type_synonym trackers = "string \<rightharpoonup> deltaTracker"

definition processDeltaEvent ::
  "json_codec \<Rightarrow> string \<Rightarrow> FilterRules \<Rightarrow> trackers \<Rightarrow> sseProcessResult list \<times> trackers" where
  "processDeltaEvent codec data rules trackers =
     (case decode_map codec data of
        None \<Rightarrow> ([data_result data], trackers)
      | Some (_, envelope) \<Rightarrow>
          (case as_obj (jget envelope ''properties'') of
             None \<Rightarrow> ([data_result data], trackers)
           | Some props \<Rightarrow>
               if as_str (jget props ''field'') \<noteq> ''text'' then ([data_result data], trackers)
               else
                 let partID = as_str (jget props ''partID'')
                 in if partID = [] then ([data_result data], trackers)
                    else
                      let deltaText = as_str (jget props ''delta'');
                          tracker = (case trackers partID of None \<Rightarrow> zero_tracker | Some t \<Rightarrow> t)
                      in (case track_delta tracker deltaText of (tracker', verdict) \<Rightarrow>
                            ((case verdict of
                                Suppress \<Rightarrow> []
                              | PassThrough \<Rightarrow> [data_result data]
                              | Replace filtered \<Rightarrow>
                                  let props' = jset props ''delta'' (JStr filtered);
                                      envelope' = jset envelope ''properties'' (JObj props');
                                      result = (case marshal codec (JObj envelope') of
                                                  None \<Rightarrow> [] | Some r \<Rightarrow> r)
                                  in [\<lparr>sr_Event = [], sr_Data = result,
                                       sr_Summary = Some (zero_summary\<lparr>as_Filtered := True,
                                         as_CodeBlocksTotal := 1, as_CodeBlocksFiltered := 1\<rparr>)\<rparr>]),
                             trackers(partID \<mapsto> tracker')))))"

definition processPartUpdatedEvent ::
  "json_codec \<Rightarrow> string \<Rightarrow> FilterRules \<Rightarrow> sseProcessResult" where
  "processPartUpdatedEvent codec data rules =
     (case decode_map codec data of
        None \<Rightarrow> data_result data
      | Some (_, envelope) \<Rightarrow>
          (case as_obj (jget envelope ''properties'') of
             None \<Rightarrow> data_result data
           | Some properties \<Rightarrow>
               (case as_obj (jget properties ''part'') of
                  None \<Rightarrow> data_result data
                | Some part \<Rightarrow>
                    (case FilterPart codec part rules of (filtered, actions) \<Rightarrow>
                       let summary = foldl count_action zero_summary actions;
                           properties' = jset properties ''part'' (JObj filtered);
                           envelope' = jset envelope ''properties'' (JObj properties')
                       in (case marshal codec (JObj envelope') of
                             None \<Rightarrow> data_result data
                           | Some result \<Rightarrow>
                               \<lparr>sr_Event = [], sr_Data = result, sr_Summary = Some summary\<rparr>)))))"

definition event_name :: "json_codec \<Rightarrow> SSEEvent \<Rightarrow> string" where
  "event_name codec event =
     (if ev_Event event = [] then
        (case peek_type codec (ev_Data event) of
           Some t \<Rightarrow> if t \<noteq> [] then t else ''message''
         | None \<Rightarrow> ''message'')
      else ev_Event event)"

definition processSSEEventWithTrackers ::
  "json_codec \<Rightarrow> SSEEvent \<Rightarrow> FilterRules \<Rightarrow> trackers \<Rightarrow> sseProcessResult list \<times> trackers" where
  "processSSEEventWithTrackers codec event rules trackers =
     (let passed = \<lparr>sr_Event = ev_Event event, sr_Data = ev_Data event, sr_Summary = None\<rparr>
      in if ev_Data event = [] then ([passed], trackers)
         else
           let eventName = event_name codec event
           in if eventName = ''message.part.updated''
              then ([processPartUpdatedEvent codec (ev_Data event) rules], trackers)
              else if eventName = ''message.part.delta''
              then processDeltaEvent codec (ev_Data event) rules trackers
              else ([passed], trackers))"

definition processSSEEvent ::
  "json_codec \<Rightarrow> SSEEvent \<Rightarrow> FilterRules \<Rightarrow> sseProcessResult" where
  "processSSEEvent codec event rules =
     (let passed = \<lparr>sr_Event = ev_Event event, sr_Data = ev_Data event, sr_Summary = None\<rparr>
      in if ev_Data event = [] then passed
         else if event_name codec event = ''message.part.updated''
         then processPartUpdatedEvent codec (ev_Data event) rules
         else passed)"

section \<open>The stream\<close>

definition write_try :: "(string list \<Rightarrow> bool) \<Rightarrow> string \<Rightarrow> string list \<Rightarrow> string list" where
  "write_try wfail chunk out = (if wfail out then out else out @ [chunk])"

definition event_chunk :: "string \<Rightarrow> string" where
  "event_chunk event = ''event: '' @ event @ [nl]"

definition data_chunk :: "string \<Rightarrow> string" where
  "data_chunk line = ''data: '' @ line @ [nl]"

definition writeSSEEvent ::
  "(string list \<Rightarrow> bool) \<Rightarrow> sseProcessResult \<Rightarrow> string list \<Rightarrow> string list" where
  "writeSSEEvent wfail result out =
     (let out1 = (if sr_Event result \<noteq> []
                  then write_try wfail (event_chunk (sr_Event result)) out else out)
      in if sr_Data result \<noteq> []
         then fold (\<lambda>line. write_try wfail (data_chunk line))
                (split_on nl (sr_Data result)) out1
         else out1)"

record sse_state =
  st_event :: SSEEvent
  st_trackers :: trackers
  st_out :: "string list"
  st_audit :: "AuditSummary list"

definition sse_init :: sse_state where
  "sse_init = \<lparr>st_event = zero_event, st_trackers = Map.empty, st_out = [], st_audit = []\<rparr>"

text \<open>
  One line: the flag tells whether the loop goes on (\<open>False\<close>: the function returned the write
  error).
\<close>

definition sse_line ::
  "json_codec \<Rightarrow> FilterRules \<Rightarrow> (string list \<Rightarrow> bool) \<Rightarrow> bool \<Rightarrow> string \<Rightarrow> sse_state \<Rightarrow> bool \<times> sse_state"
where
  "sse_line codec rules wfail callback line st =
     (let event = st_event st
      in if line = [] then
           let st1 =
             (if ev_Data event \<noteq> [] then
                (case processSSEEventWithTrackers codec event rules (st_trackers st) of
                   (results, trackers') \<Rightarrow>
                     st\<lparr>st_trackers := trackers',
                        st_out := fold (writeSSEEvent wfail) results (st_out st),
                        st_audit := st_audit st @
                          (if callback then List.map_filter sr_Summary results else [])\<rparr>)
              else st)
           in if wfail (st_out st1) then (False, st1)
              else (True, st1\<lparr>st_out := st_out st1 @ [[nl]], st_event := zero_event\<rparr>)
         else if has_prefix line ''id:''
         then (True, st\<lparr>st_event := event\<lparr>ev_ID := trim_space (trim_prefix line ''id:'')\<rparr>\<rparr>)
         else if has_prefix line ''event:''
         then (True, st\<lparr>st_event := event\<lparr>ev_Event := trim_space (trim_prefix line ''event:'')\<rparr>\<rparr>)
         else if has_prefix line ''data:'' then
           let d = drop 5 line;
               data = (if has_prefix d '' '' then drop 1 d else d)
           in (True, st\<lparr>st_event := event\<lparr>ev_Data :=
                 (if ev_Data event = [] then data else ev_Data event @ [nl] @ data)\<rparr>\<rparr>)
         else if has_prefix line '':'' then
           (if wfail (st_out st) then (False, st)
            else (True, st\<lparr>st_out := st_out st @ [line @ [nl]]\<rparr>))
         else (True, st))"

fun sse_loop ::
  "json_codec \<Rightarrow> FilterRules \<Rightarrow> (string list \<Rightarrow> bool) \<Rightarrow> bool \<Rightarrow> string list \<Rightarrow> sse_state \<Rightarrow> bool \<times> sse_state"
where
  "sse_loop codec rules wfail callback [] st = (True, st)"
| "sse_loop codec rules wfail callback (line # lines) st =
     (case sse_line codec rules wfail callback line st of
        (False, st') \<Rightarrow> (False, st')
      | (True, st') \<Rightarrow> sse_loop codec rules wfail callback lines st')"

datatype sse_error = WriteError | ScanError

definition FilterSSEStream ::
  "json_codec \<Rightarrow> FilterRules \<Rightarrow> (string list \<Rightarrow> bool) \<Rightarrow> bool \<Rightarrow> string list \<Rightarrow> bool \<Rightarrow>
   sse_error option \<times> sse_state" where
  "FilterSSEStream codec rules wfail callback lines scanErr =
     (case sse_loop codec rules wfail callback lines sse_init of
        (False, st) \<Rightarrow> (Some WriteError, st)
      | (True, st) \<Rightarrow> (if scanErr then Some ScanError else None, st))"

section \<open>Counting fences\<close>

lemma index_of_append:
  "index_of s p = Some i \<Longrightarrow> index_of (s @ t) p = Some i"
proof (induction s p arbitrary: i rule: index_of.induct)
  case (1 p)
  then show ?case by (cases t) (auto split: if_splits)
next
  case (2 c s p)
  have hp: "has_prefix (c # s) p \<Longrightarrow> has_prefix (c # s @ t) p"
    using has_prefix_appendI[of "c # s" p t] by simp
  show ?case
  proof (cases "has_prefix (c # s) p")
    case True
    with hp "2.prems" show ?thesis by simp
  next
    case False
    with "2.prems" obtain j where j: "index_of s p = Some j" "i = Suc j" by auto
    then have "length p \<le> length s" using index_of_Some[OF j(1)] by simp
    then have "\<not> has_prefix (c # s @ t) p"
      using False by (cases p) (auto simp: has_prefix_def)
    with "2.IH"[OF False j(1)] j show ?thesis by simp
  qed
qed

lemma countFences_mono: "countFences s \<le> countFences (s @ t)"
proof (induction s rule: countFences.induct)
  case (1 s)
  show ?case
  proof (cases "index_of s fence")
    case None
    then show ?thesis by (simp add: countFences.simps[of s])
  next
    case (Some idx)
    then have "idx + 3 \<le> length s" using index_of_Some[OF Some] by simp
    then have "drop (idx + 3) (s @ t) = drop (idx + 3) s @ t" by simp
    with 1[OF Some] Some index_of_append[OF Some, of t] show ?thesis
      by (simp add: countFences.simps[of s] countFences.simps[of "s @ t"])
  qed
qed

section \<open>The tracker\<close>

fun run_tracker :: "deltaTracker \<Rightarrow> string list \<Rightarrow> deltaTracker \<times> delta_verdict list" where
  "run_tracker t [] = (t, [])"
| "run_tracker t (d # ds) =
     (case track_delta t d of (t', v) \<Rightarrow>
        case run_tracker t' ds of (t'', vs) \<Rightarrow> (t'', v # vs))"

text \<open>The tracker's counter is the fence count of the text seen so far.\<close>

definition counts_fences :: "deltaTracker \<Rightarrow> bool" where
  "counts_fences t \<longleftrightarrow> dt_fenceCount t = countFences (dt_buf t)"

lemma track_delta_counts:
  "counts_fences t \<Longrightarrow> counts_fences (fst (track_delta t d))"
  using countFences_mono[of "dt_buf t" d]
  by (auto simp: counts_fences_def track_delta_def Let_def)

lemma track_delta_buf [simp]: "dt_buf (fst (track_delta t d)) = dt_buf t @ d"
  by (simp add: track_delta_def Let_def)

lemma zero_tracker_counts: "counts_fences zero_tracker"
  by (simp add: counts_fences_def zero_tracker_def countFences.simps fence_def)

definition in_sync :: "deltaTracker \<Rightarrow> bool" where
  "in_sync t \<longleftrightarrow> counts_fences t \<and> dt_suppressing t = odd (dt_fenceCount t)"

lemma track_delta_sync:
  assumes "in_sync t" and "countFences (dt_buf t @ d) \<le> Suc (countFences (dt_buf t))"
  shows "in_sync (fst (track_delta t d))"
proof -
  have c: "counts_fences (fst (track_delta t d))"
    using assms(1) track_delta_counts by (simp add: in_sync_def)
  have m: "countFences (dt_buf t) \<le> countFences (dt_buf t @ d)" by (rule countFences_mono)
  have "dt_suppressing (fst (track_delta t d)) = odd (dt_fenceCount (fst (track_delta t d)))"
  proof (cases "countFences (dt_buf t @ d) = countFences (dt_buf t)")
    case True
    with assms show ?thesis
      by (simp add: in_sync_def counts_fences_def track_delta_def Let_def)
  next
    case False
    with assms m have "countFences (dt_buf t @ d) = Suc (countFences (dt_buf t))" by simp
    with assms show ?thesis
      by (simp add: in_sync_def counts_fences_def track_delta_def Let_def
          flip: even_iff_mod_2_eq_zero)
  qed
  with c show ?thesis by (simp add: in_sync_def)
qed

text \<open>What becomes of a delta after the text \<open>before\<close>: \<open>text\<close> is the whole text with the delta.\<close>

definition delta_answer :: "string \<Rightarrow> string \<Rightarrow> delta_verdict" where
  "delta_answer before whole =
     (if countFences whole = countFences before then (if even (countFences before) then PassThrough else Suppress)
      else if even (countFences before) then Suppress
      else Replace (filtered_delta (extractFenceLanguage whole)))"

lemma track_delta_answer:
  assumes "in_sync t"
  shows "snd (track_delta t d) = delta_answer (dt_buf t) (dt_buf t @ d)"
  using assms countFences_mono[of "dt_buf t" d]
  by (auto simp: in_sync_def counts_fences_def track_delta_def delta_answer_def Let_def even_iff_mod_2_eq_zero)

text \<open>No delta of the list brings more than one new fence.\<close>

fun single_fences :: "string \<Rightarrow> string list \<Rightarrow> bool" where
  "single_fences buf [] = True"
| "single_fences buf (d # ds) =
     (countFences (buf @ d) \<le> Suc (countFences buf) \<and> single_fences (buf @ d) ds)"

lemma run_tracker_answer:
  "in_sync t \<Longrightarrow> single_fences (dt_buf t) ds \<Longrightarrow> i < length ds \<Longrightarrow>
   snd (run_tracker t ds) ! i = delta_answer (dt_buf t @ concat (take i ds)) (dt_buf t @ concat (take (Suc i) ds))"
proof (induction ds arbitrary: t i)
  case (Cons d ds)
  let ?t = "fst (track_delta t d)"
  have sync: "in_sync ?t" using Cons.prems by (auto intro: track_delta_sync)
  show ?case
  proof (cases i)
    case 0
    with Cons.prems track_delta_answer[of t d] show ?thesis
      by (auto split: prod.splits)
  next
    case (Suc j)
    with Cons.prems Cons.IH[OF sync, of j] show ?thesis
      by (auto split: prod.splits)
  qed
qed simp

lemma length_run_tracker: "length (snd (run_tracker t ds)) = length ds"
  by (induction ds arbitrary: t) (simp_all add: case_prod_beta)

section \<open>What the stream writes\<close>

definition plain_chunk :: "string \<Rightarrow> bool" where
  "plain_chunk c \<longleftrightarrow>
     has_prefix c ''event: '' \<or> has_prefix c ''data: '' \<or> has_prefix c '':'' \<or> c = [nl]"

lemma chunks_plain [simp]: "plain_chunk (event_chunk e)" "plain_chunk (data_chunk l)" "plain_chunk [nl]"
  by (simp_all add: plain_chunk_def event_chunk_def data_chunk_def)

lemma comment_plain: "has_prefix l '':'' \<Longrightarrow> plain_chunk (l @ t)"
  by (auto simp: plain_chunk_def intro: has_prefix_appendI)

lemma write_try_plain:
  "list_all plain_chunk out \<Longrightarrow> plain_chunk c \<Longrightarrow> list_all plain_chunk (write_try wfail c out)"
  by (simp add: write_try_def)

lemma fold_write_plain:
  "list_all plain_chunk out \<Longrightarrow>
   list_all plain_chunk (fold (\<lambda>line. write_try wfail (data_chunk line)) ls out)"
  by (induction ls arbitrary: out) (simp_all add: write_try_plain)

lemma writeSSEEvent_plain:
  "list_all plain_chunk out \<Longrightarrow> list_all plain_chunk (writeSSEEvent wfail r out)"
  by (simp add: writeSSEEvent_def Let_def fold_write_plain write_try_plain)

lemma fold_writeSSEEvent_plain:
  "list_all plain_chunk out \<Longrightarrow> list_all plain_chunk (fold (writeSSEEvent wfail) rs out)"
  by (induction rs arbitrary: out) (auto simp: writeSSEEvent_plain)

lemma sse_line_plain:
  assumes "list_all plain_chunk (st_out st)"
  shows "list_all plain_chunk (st_out (snd (sse_line codec rules wfail cb line st)))"
  using assms fold_writeSSEEvent_plain[OF assms, of wfail]
  by (simp add: sse_line_def Let_def comment_plain del: has_prefix_simps split: prod.split)

lemma sse_loop_plain:
  "list_all plain_chunk (st_out st) \<Longrightarrow>
   list_all plain_chunk (st_out (snd (sse_loop codec rules wfail cb lines st)))"
proof (induction lines arbitrary: st)
  case (Cons line lines)
  have "list_all plain_chunk (st_out (snd (sse_line codec rules wfail cb line st)))"
    using Cons.prems by (rule sse_line_plain)
  with Cons.IH show ?case by (auto split: prod.splits bool.splits)
qed simp

text \<open>
  C2. As long as no delta brings more than one new code fence, the fate of every delta follows from the
  parity of the fences received: text outside code blocks is passed on unchanged, the delta that opens a
  block and those inside it are withheld, and the delta that closes a block is replaced by a marker with
  the language label of the text received so far.  The label is the rest of the line after the first
  fence, so code that follows a fence on its line is shown in it.
\<close>

theorem delta_tracker_exact:
  assumes "single_fences [] ds" and "i < length ds"
  shows "snd (run_tracker zero_tracker ds) ! i =
    (let before = countFences (concat (take i ds)); whole = concat (take (Suc i) ds)
     in if countFences whole = before then (if even before then PassThrough else Suppress)
        else if even before then Suppress
        else Replace (filtered_delta (extractFenceLanguage whole)))"
proof -
  have "in_sync zero_tracker"
    using zero_tracker_counts by (simp add: in_sync_def zero_tracker_def)
  moreover have "dt_buf zero_tracker = []" by (simp add: zero_tracker_def)
  ultimately show ?thesis
    using run_tracker_answer[of zero_tracker ds i] assms by (simp add: delta_answer_def Let_def)
qed

theorem delta_tracker_exact_witness:
  "single_fences [] [''hi'', ''```go'', ''x'', ''```''] \<and>
   snd (run_tracker zero_tracker [''hi'', ''```go'', ''x'', ''```'']) ! 2 = Suppress"
proof -
  let ?ds = "[''hi'', ''```go'', ''x'', ''```'']"
  have h: "single_fences [] ?ds" "2 < length ?ds" by code_simp+
  have "(let before = countFences (concat (take 2 ?ds)); whole = concat (take (Suc 2) ?ds)
     in if countFences whole = before then (if even before then PassThrough else Suppress)
        else if even before then Suppress
        else Replace (filtered_delta (extractFenceLanguage whole))) = Suppress" by code_simp
  then show ?thesis using h delta_tracker_exact[OF h] by simp
qed

text \<open>The label of a block without a line break after its fence is its code.\<close>

lemma delta_language_leak:
  "snd (run_tracker zero_tracker [''```'', ''secret'', ''```'']) = [Suppress, Suppress, Replace (filtered_delta ''secret```'')]"
  by code_simp

text \<open>
  A delta that closes one block and opens the next defeats the streaming filter: the tracker
  only looks at the parity before the delta, so it stops suppressing inside the new block and
  every later delta of that block is passed on unchanged.
\<close>

theorem delta_tracker_leak:
  "snd (run_tracker zero_tracker [''```'', ''a```b```'', ''secret'']) =
     [Suppress, Replace (filtered_delta ''a```b```''), PassThrough] \<and>
   odd (countFences (concat [''```'', ''a```b```'', ''secret'']))"
  by code_simp

text \<open>
  The filtered stream consists of event lines, data lines, comments and blank lines only.
  In particular the identifiers of the upstream events, which the filter reads, are never written,
  whatever the input and even if the writer fails.
\<close>

theorem FilterSSEStream_never_writes_ids:
  "list_all (\<lambda>c. (has_prefix c ''event: '' \<or> has_prefix c ''data: '' \<or> has_prefix c '':'' \<or> c = [nl])
                 \<and> \<not> has_prefix c ''id'')
     (st_out (snd (FilterSSEStream codec rules wfail callback lines scanErr)))"
proof -
  have "list_all plain_chunk (st_out (snd (sse_loop codec rules wfail callback lines sse_init)))"
    by (rule sse_loop_plain) (simp add: sse_init_def)
  then have "list_all plain_chunk
      (st_out (snd (FilterSSEStream codec rules wfail callback lines scanErr)))"
    by (auto simp: FilterSSEStream_def split: prod.splits bool.splits)
  then show ?thesis
    by (rule list.pred_mono_strong) (auto simp: plain_chunk_def has_prefix_iff nl_def)
qed

end
