(* ===== verification/Gateway_Store.thy ===== *)
theory Gateway_Store
  imports Prelude
begin

text \<open>
  The gateway directory of the API server (\<^verbatim>\<open>server/internal/gateway/store.go\<close> and
  \<^verbatim>\<open>types.go\<close>): which device gateways are registered, when each was last heard of, and which
  gateway each device is connected to.

  The Go interface \<^verbatim>\<open>Store\<close> is the record \<open>Store\<close> of its operations over a state type; an
  operation returns its result or an error together with the new state.  The locale
  \<open>gateway_store\<close> states what a store promises to its client, the gateway registry, and
  \<open>MemoryStore\<close> (the in-process implementation) is proved to keep the promise.  Its maps are
  association lists, so that the order of a Go map iteration is the order of the list and every
  theorem, which holds for all lists, holds for every order.  The clock is an argument
  (\<open>now\<close>, milliseconds).
\<close>

section \<open>Types\<close>

record GatewayInfo =
  gw_ID :: string
  gw_Endpoint :: string
  gw_InternalURL :: string
  gw_APIBaseURL :: string
  gw_Region :: string
  gw_Capacity :: int
  gw_CurrentConns :: int
  gw_LastHeartbeat :: int

definition GatewayHeartbeatTimeoutMs :: int where
  "GatewayHeartbeatTimeoutMs = 60000"

definition GatewayCleanupIntervalMs :: int where
  "GatewayCleanupIntervalMs = 10000"

datatype store_error = GatewayNotFound string | DeviceNotFound string | StoreFailure

type_synonym 'a res = "store_error + 'a"

text \<open>The interface: one field per method, in the order of the Go declaration.\<close>

record 's Store =
  op_RegisterGateway :: "int \<Rightarrow> GatewayInfo \<Rightarrow> 's \<Rightarrow> unit res \<times> 's"
  op_HeartbeatGateway :: "int \<Rightarrow> string \<Rightarrow> int \<Rightarrow> 's \<Rightarrow> unit res \<times> 's"
  op_ListGateways :: "'s \<Rightarrow> GatewayInfo list res"
  op_GetGateway :: "string \<Rightarrow> 's \<Rightarrow> GatewayInfo res"
  op_RemoveGateway :: "string \<Rightarrow> 's \<Rightarrow> unit res \<times> 's"
  op_RemoveGatewayWithDevices :: "string \<Rightarrow> 's \<Rightarrow> string list res \<times> 's"
  op_BindDevice :: "string \<Rightarrow> string \<Rightarrow> string \<Rightarrow> 's \<Rightarrow> (string \<times> string) res \<times> 's"
  op_UnbindDevice :: "string \<Rightarrow> 's \<Rightarrow> unit res \<times> 's"
  op_GetDeviceGateway :: "string \<Rightarrow> 's \<Rightarrow> string res"
  op_ListDevicesByGateway :: "string \<Rightarrow> 's \<Rightarrow> string list res"
  op_TryLock :: "string \<Rightarrow> int \<Rightarrow> 's \<Rightarrow> bool res \<times> 's"
  op_GetOrInitEpoch :: "int \<Rightarrow> 's \<Rightarrow> int res \<times> 's"

section \<open>The in-memory store\<close>

record MemoryStore =
  ms_gateways :: "(string \<times> GatewayInfo) list"
  ms_heartbeats :: "(string \<times> int) list"
  ms_deviceGateway :: "(string \<times> string) list"
  ms_deviceConnID :: "(string \<times> string) list"
  ms_epoch :: int

definition NewMemoryStore :: MemoryStore where
  "NewMemoryStore = \<lparr>ms_gateways = [], ms_heartbeats = [], ms_deviceGateway = [],
     ms_deviceConnID = [], ms_epoch = 0\<rparr>"

text \<open>A read of a missing key of a string map gives the empty string.\<close>

definition str_at :: "(string \<times> string) list \<Rightarrow> string \<Rightarrow> string" where
  "str_at m k = (case map_of m k of None \<Rightarrow> [] | Some v \<Rightarrow> v)"

definition MemoryStore_RegisterGateway ::
  "int \<Rightarrow> GatewayInfo \<Rightarrow> MemoryStore \<Rightarrow> unit res \<times> MemoryStore" where
  "MemoryStore_RegisterGateway now info s =
     (Inr (), s\<lparr>ms_gateways := AList.update (gw_ID info) info (ms_gateways s),
                ms_heartbeats := AList.update (gw_ID info) now (ms_heartbeats s)\<rparr>)"

definition MemoryStore_HeartbeatGateway ::
  "int \<Rightarrow> string \<Rightarrow> int \<Rightarrow> MemoryStore \<Rightarrow> unit res \<times> MemoryStore" where
  "MemoryStore_HeartbeatGateway now gatewayID currentConns s =
     (case map_of (ms_gateways s) gatewayID of
        None \<Rightarrow> (Inl (GatewayNotFound gatewayID), s)
      | Some gw \<Rightarrow>
          (Inr (), s\<lparr>ms_gateways := AList.update gatewayID
                       (gw\<lparr>gw_CurrentConns := currentConns, gw_LastHeartbeat := now\<rparr>)
                       (ms_gateways s),
                     ms_heartbeats := AList.update gatewayID now (ms_heartbeats s)\<rparr>))"

text \<open>The copy handed out carries the time stamp of the separate heartbeat table.\<close>

definition stamped :: "MemoryStore \<Rightarrow> string \<Rightarrow> GatewayInfo \<Rightarrow> GatewayInfo" where
  "stamped s i gw =
     (case map_of (ms_heartbeats s) i of None \<Rightarrow> gw | Some hb \<Rightarrow> gw\<lparr>gw_LastHeartbeat := hb\<rparr>)"

definition MemoryStore_ListGateways :: "MemoryStore \<Rightarrow> GatewayInfo list res" where
  "MemoryStore_ListGateways s = Inr (map (\<lambda>(i, gw). stamped s i gw) (ms_gateways s))"

definition MemoryStore_GetGateway :: "string \<Rightarrow> MemoryStore \<Rightarrow> GatewayInfo res" where
  "MemoryStore_GetGateway gatewayID s =
     (case map_of (ms_gateways s) gatewayID of
        None \<Rightarrow> Inl (GatewayNotFound gatewayID)
      | Some gw \<Rightarrow> Inr (stamped s gatewayID gw))"

definition MemoryStore_RemoveGateway :: "string \<Rightarrow> MemoryStore \<Rightarrow> unit res \<times> MemoryStore" where
  "MemoryStore_RemoveGateway gatewayID s =
     (Inr (), s\<lparr>ms_gateways := AList.delete gatewayID (ms_gateways s),
                ms_heartbeats := AList.delete gatewayID (ms_heartbeats s)\<rparr>)"

definition MemoryStore_ListDevicesByGateway :: "string \<Rightarrow> MemoryStore \<Rightarrow> string list res" where
  "MemoryStore_ListDevicesByGateway gatewayID s =
     Inr (map fst (filter (\<lambda>(d, g). g = gatewayID) (ms_deviceGateway s)))"

definition MemoryStore_RemoveGatewayWithDevices ::
  "string \<Rightarrow> MemoryStore \<Rightarrow> string list res \<times> MemoryStore" where
  "MemoryStore_RemoveGatewayWithDevices gatewayID s =
     (let deviceIDs = map fst (filter (\<lambda>(d, g). g = gatewayID) (ms_deviceGateway s))
      in (Inr deviceIDs,
          s\<lparr>ms_gateways := AList.delete gatewayID (ms_gateways s),
            ms_heartbeats := AList.delete gatewayID (ms_heartbeats s),
            ms_deviceGateway := filter (\<lambda>(d, g). d \<notin> set deviceIDs) (ms_deviceGateway s),
            ms_deviceConnID := filter (\<lambda>(d, c). d \<notin> set deviceIDs) (ms_deviceConnID s)\<rparr>))"

definition MemoryStore_BindDevice ::
  "string \<Rightarrow> string \<Rightarrow> string \<Rightarrow> MemoryStore \<Rightarrow> (string \<times> string) res \<times> MemoryStore" where
  "MemoryStore_BindDevice deviceID gatewayID connID s =
     (Inr (str_at (ms_deviceGateway s) deviceID, str_at (ms_deviceConnID s) deviceID),
      s\<lparr>ms_deviceGateway := AList.update deviceID gatewayID (ms_deviceGateway s),
        ms_deviceConnID := AList.update deviceID connID (ms_deviceConnID s)\<rparr>)"

definition MemoryStore_UnbindDevice :: "string \<Rightarrow> MemoryStore \<Rightarrow> unit res \<times> MemoryStore" where
  "MemoryStore_UnbindDevice deviceID s =
     (Inr (), s\<lparr>ms_deviceGateway := AList.delete deviceID (ms_deviceGateway s),
                ms_deviceConnID := AList.delete deviceID (ms_deviceConnID s)\<rparr>)"

definition MemoryStore_GetDeviceGateway :: "string \<Rightarrow> MemoryStore \<Rightarrow> string res" where
  "MemoryStore_GetDeviceGateway deviceID s =
     (case map_of (ms_deviceGateway s) deviceID of
        None \<Rightarrow> Inl (DeviceNotFound deviceID)
      | Some gwID \<Rightarrow> Inr gwID)"

definition MemoryStore_TryLock :: "string \<Rightarrow> int \<Rightarrow> MemoryStore \<Rightarrow> bool res \<times> MemoryStore" where
  "MemoryStore_TryLock key ttl s = (Inr True, s)"

definition MemoryStore_GetOrInitEpoch :: "int \<Rightarrow> MemoryStore \<Rightarrow> int res \<times> MemoryStore" where
  "MemoryStore_GetOrInitEpoch initVal s =
     (let s' = (if ms_epoch s = 0 then s\<lparr>ms_epoch := initVal\<rparr> else s)
      in (Inr (ms_epoch s'), s'))"

definition MemoryStore_ops :: "MemoryStore Store" where
  "MemoryStore_ops = \<lparr>
     op_RegisterGateway = MemoryStore_RegisterGateway,
     op_HeartbeatGateway = MemoryStore_HeartbeatGateway,
     op_ListGateways = MemoryStore_ListGateways,
     op_GetGateway = MemoryStore_GetGateway,
     op_RemoveGateway = MemoryStore_RemoveGateway,
     op_RemoveGatewayWithDevices = MemoryStore_RemoveGatewayWithDevices,
     op_BindDevice = MemoryStore_BindDevice,
     op_UnbindDevice = MemoryStore_UnbindDevice,
     op_GetDeviceGateway = MemoryStore_GetDeviceGateway,
     op_ListDevicesByGateway = MemoryStore_ListDevicesByGateway,
     op_TryLock = MemoryStore_TryLock,
     op_GetOrInitEpoch = MemoryStore_GetOrInitEpoch\<rparr>"

section \<open>What a store promises\<close>

text \<open>
  The contract in terms of two views of the state: the registered gateways by identifier and the
  gateway each device is bound to.  An operation may fail; where it succeeds it changes the views
  as the equations say and nothing else, and it always keeps the invariant.
\<close>

locale gateway_store =
  fixes ops :: "'s Store"
    and invar :: "'s \<Rightarrow> bool"
    and gws :: "'s \<Rightarrow> string \<Rightarrow> GatewayInfo option"
    and devs :: "'s \<Rightarrow> string \<Rightarrow> string option"
  assumes list_gws: "invar s \<Longrightarrow> op_ListGateways ops s = Inr xs \<Longrightarrow>
      distinct (map gw_ID xs) \<and> (\<forall>g. g \<in> set xs \<longleftrightarrow> gws s (gw_ID g) = Some g)"
    and gws_id: "invar s \<Longrightarrow> gws s i = Some g \<Longrightarrow> gw_ID g = i"
    and dev_gateway: "invar s \<Longrightarrow> op_GetDeviceGateway ops d s = Inr i \<Longrightarrow> devs s d = Some i"
    and dev_gateway_err: "invar s \<Longrightarrow> op_GetDeviceGateway ops d s = Inl (DeviceNotFound d) \<Longrightarrow>
      devs s d = None"
    and register: "invar s \<Longrightarrow> op_RegisterGateway ops now info s = (Inr (), s') \<Longrightarrow>
      gws s' = (gws s)(gw_ID info \<mapsto> info\<lparr>gw_LastHeartbeat := now\<rparr>) \<and> devs s' = devs s"
    and heartbeat: "invar s \<Longrightarrow> op_HeartbeatGateway ops now i n s = (Inr (), s') \<Longrightarrow>
      (\<exists>g. gws s i = Some g \<and>
         gws s' = (gws s)(i \<mapsto> g\<lparr>gw_CurrentConns := n, gw_LastHeartbeat := now\<rparr>)) \<and> devs s' = devs s"
    and remove_with: "invar s \<Longrightarrow> op_RemoveGatewayWithDevices ops i s = (Inr ds, s') \<Longrightarrow>
      gws s' = (gws s)(i := None) \<and>
      devs s' = (\<lambda>d. if devs s d = Some i then None else devs s d) \<and>
      distinct ds \<and> set ds = {d. devs s d = Some i}"
    and remove_with_err: "invar s \<Longrightarrow> op_RemoveGatewayWithDevices ops i s = (Inl e, s') \<Longrightarrow>
      gws s' = gws s \<and> devs s' = devs s"
    and bind_dev: "invar s \<Longrightarrow> op_BindDevice ops d i c s = (Inr r, s') \<Longrightarrow>
      gws s' = gws s \<and> devs s' = (devs s)(d \<mapsto> i)"
    and unbind_dev: "invar s \<Longrightarrow> op_UnbindDevice ops d s = (Inr (), s') \<Longrightarrow>
      gws s' = gws s \<and> devs s' = (devs s)(d := None)"
    and invar_register: "invar s \<Longrightarrow> invar (snd (op_RegisterGateway ops now info s))"
    and invar_heartbeat: "invar s \<Longrightarrow> invar (snd (op_HeartbeatGateway ops now i n s))"
    and invar_remove_with: "invar s \<Longrightarrow> invar (snd (op_RemoveGatewayWithDevices ops i s))"
    and invar_bind: "invar s \<Longrightarrow> invar (snd (op_BindDevice ops d i c s))"
    and invar_unbind: "invar s \<Longrightarrow> invar (snd (op_UnbindDevice ops d s))"

text \<open>The in-memory store: distinct keys, gateways under their own identifier, and one heartbeat
  and one connection identifier for exactly the registered gateways and bound devices.\<close>

definition ms_inv :: "MemoryStore \<Rightarrow> bool" where
  "ms_inv s \<longleftrightarrow>
     distinct (map fst (ms_gateways s)) \<and> distinct (map fst (ms_deviceGateway s)) \<and>
     (\<forall>(i, g) \<in> set (ms_gateways s). gw_ID g = i) \<and>
     dom (map_of (ms_heartbeats s)) = dom (map_of (ms_gateways s)) \<and>
     dom (map_of (ms_deviceConnID s)) = dom (map_of (ms_deviceGateway s))"

definition ms_gws :: "MemoryStore \<Rightarrow> string \<Rightarrow> GatewayInfo option" where
  "ms_gws s i = map_option (stamped s i) (map_of (ms_gateways s) i)"

definition ms_devs :: "MemoryStore \<Rightarrow> string \<Rightarrow> string option" where
  "ms_devs s = map_of (ms_deviceGateway s)"

lemmas ms_defs = MemoryStore_RegisterGateway_def MemoryStore_HeartbeatGateway_def
  MemoryStore_ListGateways_def MemoryStore_GetGateway_def MemoryStore_RemoveGateway_def
  MemoryStore_RemoveGatewayWithDevices_def MemoryStore_BindDevice_def MemoryStore_UnbindDevice_def
  MemoryStore_GetDeviceGateway_def MemoryStore_ListDevicesByGateway_def MemoryStore_TryLock_def
  MemoryStore_GetOrInitEpoch_def

lemma stamped_ID [simp]: "gw_ID (stamped s i g) = gw_ID g"
  by (simp add: stamped_def split: option.split)

lemma map_of_delete [go_map, simp]: "map_of (AList.delete k al) = (map_of al)(k := None)"
  by (rule delete_conv')

lemma map_of_filter_keys:
  "map_of (filter (\<lambda>(k, v). P k) al) k = (if P k then map_of al k else None)"
  by (induction al) auto

lemma in_set_update:
  "(k, v) \<in> set (AList.update k' v' al) \<Longrightarrow> (k, v) \<in> set al \<or> k = k' \<and> v = v'"
  by (induction al) (auto split: if_splits)

lemma in_set_delete: "x \<in> set (AList.delete k al) \<Longrightarrow> x \<in> set al"
  by (simp add: AList.delete_eq)

lemma distinct_delete [simp]:
  "distinct (map fst al) \<Longrightarrow> distinct (map fst (AList.delete k al))"
  by (simp add: AList.delete_eq distinct_map_filter)

lemma distinct_filter_keys [simp]:
  "distinct (map fst al) \<Longrightarrow> distinct (map fst (filter P al))"
  by (rule distinct_map_filter)

section \<open>The in-memory store keeps the promise\<close>

lemma ms_gws_ID: "ms_inv s \<Longrightarrow> ms_gws s i = Some g \<Longrightarrow> gw_ID g = i"
  by (auto simp: ms_inv_def ms_gws_def dest: map_of_SomeD)

lemma ms_list:
  assumes "ms_inv s"
  shows "distinct (map gw_ID (map (\<lambda>(i, gw). stamped s i gw) (ms_gateways s)))"
    "g \<in> set (map (\<lambda>(i, gw). stamped s i gw) (ms_gateways s)) \<longleftrightarrow> ms_gws s (gw_ID g) = Some g"
proof -
  have ids: "map gw_ID (map (\<lambda>(i, gw). stamped s i gw) (ms_gateways s)) = map fst (ms_gateways s)"
    using assms by (auto simp: ms_inv_def)
  show "distinct (map gw_ID (map (\<lambda>(i, gw). stamped s i gw) (ms_gateways s)))"
    unfolding ids using assms by (simp add: ms_inv_def)
  have look: "map_of (ms_gateways s) i = Some gw \<longleftrightarrow> (i, gw) \<in> set (ms_gateways s)" for i gw
    using assms by (simp add: ms_inv_def)
  have key: "gw_ID gw = i" if "(i, gw) \<in> set (ms_gateways s)" for i gw
    using assms that by (auto simp: ms_inv_def)
  show "g \<in> set (map (\<lambda>(i, gw). stamped s i gw) (ms_gateways s)) \<longleftrightarrow> ms_gws s (gw_ID g) = Some g"
  proof
    assume "g \<in> set (map (\<lambda>(i, gw). stamped s i gw) (ms_gateways s))"
    then obtain i gw where m: "(i, gw) \<in> set (ms_gateways s)" and g: "g = stamped s i gw" by auto
    from key[OF m] g have "gw_ID g = i" by simp
    with m g show "ms_gws s (gw_ID g) = Some g" by (simp add: ms_gws_def look[THEN iffD2, OF m])
  next
    assume "ms_gws s (gw_ID g) = Some g"
    then obtain gw where "(gw_ID g, gw) \<in> set (ms_gateways s)" "g = stamped s (gw_ID g) gw"
      using look by (auto simp: ms_gws_def)
    then show "g \<in> set (map (\<lambda>(i, gw). stamped s i gw) (ms_gateways s))"
      by (force simp: image_iff)
  qed
qed

lemma stamped_cong:
  "map_of (ms_heartbeats s) i = map_of (ms_heartbeats t) i \<Longrightarrow> stamped s i = stamped t i"
  by (simp add: stamped_def fun_eq_iff)

lemma ms_gws_cong:
  "map_of (ms_heartbeats s) i = map_of (ms_heartbeats t) i \<Longrightarrow>
   map_of (ms_gateways s) i = map_of (ms_gateways t) i \<Longrightarrow> ms_gws s i = ms_gws t i"
  using stamped_cong[of s i t] by (simp add: ms_gws_def)

lemma ms_register:
  "ms_gws (snd (MemoryStore_RegisterGateway now info s)) =
     (ms_gws s)(gw_ID info \<mapsto> info\<lparr>gw_LastHeartbeat := now\<rparr>)"
proof (rule ext)
  fix i
  show "ms_gws (snd (MemoryStore_RegisterGateway now info s)) i =
     ((ms_gws s)(gw_ID info \<mapsto> info\<lparr>gw_LastHeartbeat := now\<rparr>)) i"
  proof (cases "i = gw_ID info")
    case True
    then show ?thesis
      by (simp add: ms_gws_def ms_defs map_of_update) (simp add: stamped_def map_of_update)
  next
    case False
    then have "ms_gws (snd (MemoryStore_RegisterGateway now info s)) i = ms_gws s i"
      by (intro ms_gws_cong) (simp_all add: ms_defs map_of_update)
    with False show ?thesis by simp
  qed
qed

lemma ms_heartbeat:
  assumes "map_of (ms_gateways s) i = Some g"
  shows "ms_gws (snd (MemoryStore_HeartbeatGateway now i n s)) =
     (ms_gws s)(i \<mapsto> (stamped s i g)\<lparr>gw_CurrentConns := n, gw_LastHeartbeat := now\<rparr>)"
proof (rule ext)
  fix j
  show "ms_gws (snd (MemoryStore_HeartbeatGateway now i n s)) j =
     ((ms_gws s)(i \<mapsto> (stamped s i g)\<lparr>gw_CurrentConns := n, gw_LastHeartbeat := now\<rparr>)) j"
  proof (cases "j = i")
    case True
    with assms show ?thesis
      by (simp add: ms_gws_def ms_defs map_of_update)
         (simp add: stamped_def map_of_update split: option.split)
  next
    case False
    with assms have "ms_gws (snd (MemoryStore_HeartbeatGateway now i n s)) j = ms_gws s j"
      by (intro ms_gws_cong) (simp_all add: ms_defs map_of_update)
    with False show ?thesis by simp
  qed
qed

lemma ms_remove_gws:
  "ms_gws (snd (MemoryStore_RemoveGatewayWithDevices i s)) = (ms_gws s)(i := None)"
proof (rule ext)
  fix j
  show "ms_gws (snd (MemoryStore_RemoveGatewayWithDevices i s)) j = ((ms_gws s)(i := None)) j"
  proof (cases "j = i")
    case True
    then show ?thesis by (simp add: ms_gws_def ms_defs Let_def)
  next
    case False
    then have "ms_gws (snd (MemoryStore_RemoveGatewayWithDevices i s)) j = ms_gws s j"
      by (intro ms_gws_cong) (simp_all add: ms_defs Let_def)
    with False show ?thesis by simp
  qed
qed

lemma fst_filter_map_of:
  "distinct (map fst al) \<Longrightarrow>
   set (map fst (filter (\<lambda>(d, g). g = i) al)) = {d. map_of al d = Some i}"
  by (induction al) (auto simp: rev_image_eqI)

lemma ms_bound_devices:
  "ms_inv s \<Longrightarrow> set (map fst (filter (\<lambda>(d, g). g = i) (ms_deviceGateway s))) =
     {d. ms_devs s d = Some i}"
  by (simp only: ms_inv_def ms_devs_def fst_filter_map_of)

lemma ms_remove_devs:
  "ms_inv s \<Longrightarrow> ms_devs (snd (MemoryStore_RemoveGatewayWithDevices i s)) =
     (\<lambda>d. if ms_devs s d = Some i then None else ms_devs s d)"
  by (simp only: MemoryStore_RemoveGatewayWithDevices_def Let_def ms_bound_devices)
     (simp add: fun_eq_iff ms_devs_def map_of_filter_keys)

lemma ms_inv_register: "ms_inv s \<Longrightarrow> ms_inv (snd (MemoryStore_RegisterGateway now info s))"
  by (auto simp: ms_inv_def ms_defs map_of_update dest!: in_set_update)

lemma ms_inv_heartbeat: "ms_inv s \<Longrightarrow> ms_inv (snd (MemoryStore_HeartbeatGateway now i n s))"
proof (cases "map_of (ms_gateways s) i")
  case (Some g)
  assume inv: "ms_inv s"
  then have "gw_ID g = i" using Some by (auto simp: ms_inv_def dest: map_of_SomeD)
  with inv Some show ?thesis
    by (auto simp: ms_inv_def ms_defs map_of_update dest!: in_set_update)
qed (simp add: ms_defs)

lemma dom_filter_keys: "dom (map_of (filter (\<lambda>(k, v). k \<notin> D) al)) = dom (map_of al) - D"
  by (auto simp: map_of_filter_keys split: if_splits)

lemma ms_inv_drop:
  "ms_inv s \<Longrightarrow>
   ms_inv (s\<lparr>ms_gateways := AList.delete i (ms_gateways s),
            ms_heartbeats := AList.delete i (ms_heartbeats s),
            ms_deviceGateway := filter (\<lambda>(d, g). d \<notin> D) (ms_deviceGateway s),
            ms_deviceConnID := filter (\<lambda>(d, c). d \<notin> D) (ms_deviceConnID s)\<rparr>)"
  by (simp add: ms_inv_def dom_filter_keys) (auto dest!: in_set_delete)

lemma ms_inv_remove: "ms_inv s \<Longrightarrow> ms_inv (snd (MemoryStore_RemoveGatewayWithDevices i s))"
  unfolding MemoryStore_RemoveGatewayWithDevices_def Let_def snd_conv by (rule ms_inv_drop)

lemma ms_inv_bind: "ms_inv s \<Longrightarrow> ms_inv (snd (MemoryStore_BindDevice d i c s))"
  by (auto simp: ms_inv_def ms_defs map_of_update)

lemma ms_inv_unbind: "ms_inv s \<Longrightarrow> ms_inv (snd (MemoryStore_UnbindDevice d s))"
  by (auto simp: ms_inv_def ms_defs)

lemma ms_inv_remove_only: "ms_inv s \<Longrightarrow> ms_inv (snd (MemoryStore_RemoveGateway i s))"
  by (auto simp: ms_inv_def ms_defs dest!: in_set_delete)

lemma ms_inv_epoch: "ms_inv s \<Longrightarrow> ms_inv (snd (MemoryStore_GetOrInitEpoch v s))"
  by (auto simp: ms_inv_def ms_defs Let_def)

lemma ms_inv_new: "ms_inv NewMemoryStore"
  by (simp add: ms_inv_def NewMemoryStore_def)

interpretation mem: gateway_store MemoryStore_ops ms_inv ms_gws ms_devs
proof (unfold_locales, goal_cases)
  case (1 s xs)
  then show ?case
    using ms_list[OF 1(1)] by (simp add: MemoryStore_ops_def MemoryStore_ListGateways_def)
next
  case (2 s i g)
  then show ?case by (rule ms_gws_ID)
next
  case (3 s d i)
  then show ?case
    by (simp add: MemoryStore_ops_def ms_defs ms_devs_def split: option.splits)
next
  case (4 s d)
  then show ?case
    by (simp add: MemoryStore_ops_def ms_defs ms_devs_def split: option.splits)
next
  case (5 s now info s')
  then show ?case
    using ms_register[of now info s]
    by (auto simp: MemoryStore_ops_def MemoryStore_RegisterGateway_def ms_devs_def)
next
  case (6 s now i n s')
  then show ?case
    using ms_heartbeat[of s i _ now n]
    by (auto simp: MemoryStore_ops_def MemoryStore_HeartbeatGateway_def ms_devs_def ms_gws_def
        split: option.splits)
next
  case (7 s i ds s')
  then have "ds = map fst (filter (\<lambda>(d, g). g = i) (ms_deviceGateway s))"
    "s' = snd (MemoryStore_RemoveGatewayWithDevices i s)"
    by (auto simp: MemoryStore_ops_def MemoryStore_RemoveGatewayWithDevices_def Let_def)
  then show ?case
    using 7(1) ms_bound_devices[OF 7(1), of i]
    by (simp add: ms_remove_gws ms_remove_devs ms_inv_def)
next
  case (8 s i e s')
  then show ?case by (simp add: MemoryStore_ops_def ms_defs Let_def)
next
  case (9 s d i c r s')
  then have s': "s' = snd (MemoryStore_BindDevice d i c s)"
    by (auto simp: MemoryStore_ops_def ms_defs)
  moreover have "ms_gws s' j = ms_gws s j" for j
    unfolding s' by (intro ms_gws_cong) (simp_all add: ms_defs)
  ultimately show ?case by (simp add: fun_eq_iff ms_defs ms_devs_def map_of_update)
next
  case (10 s d s')
  then have s': "s' = snd (MemoryStore_UnbindDevice d s)"
    by (auto simp: MemoryStore_ops_def ms_defs)
  moreover have "ms_gws s' j = ms_gws s j" for j
    unfolding s' by (intro ms_gws_cong) (simp_all add: ms_defs)
  ultimately show ?case by (simp add: fun_eq_iff ms_defs ms_devs_def)
qed (simp_all add: MemoryStore_ops_def ms_inv_register ms_inv_heartbeat ms_inv_remove
      ms_inv_bind ms_inv_unbind)

end
