(* ===== verification/Gateway_Registry.thy ===== *)
theory Gateway_Registry
  imports Gateway_Store
begin

text \<open>
  The gateway registry of the API server (\<^verbatim>\<open>server/internal/gateway/registry.go\<close>): allocation of
  a gateway for a device, device bindings, liveness, and the periodic removal of gateways that
  stopped sending heartbeats.

  The registry works on any store, so its functions take the interface record \<open>ops\<close>.  Its state
  is the store, the epoch and the log of the calls of the \<^verbatim>\<open>onDevicesOffline\<close> callback.  The
  client lemmas are proved once, in the locale of the store contract (and in
  \<open>reliable_store\<close> where they need that the store answers), and read off for the in-memory store.
\<close>

section \<open>The registry\<close>

datatype registry_error =
    StoreErr store_error
  | NoGatewayAvailable
  | DeviceNotConnected
  | GatewayMissing string

record 's GatewayRegistry =
  reg_store :: 's
  reg_epoch :: int
  reg_callback :: bool
  reg_offline :: "string list list"

definition NewGatewayRegistry :: "'s Store \<Rightarrow> int \<Rightarrow> bool \<Rightarrow> 's \<Rightarrow> 's GatewayRegistry" where
  "NewGatewayRegistry ops now callback s =
     (case op_GetOrInitEpoch ops now s of
        (Inr epoch, s') \<Rightarrow> \<lparr>reg_store = s', reg_epoch = epoch, reg_callback = callback, reg_offline = []\<rparr>
      | (Inl _, s') \<Rightarrow> \<lparr>reg_store = s', reg_epoch = now, reg_callback = callback, reg_offline = []\<rparr>)"

definition Epoch :: "'s GatewayRegistry \<Rightarrow> int" where
  "Epoch r = reg_epoch r"

definition Register :: "'s Store \<Rightarrow> int \<Rightarrow> GatewayInfo \<Rightarrow> 's GatewayRegistry \<Rightarrow>
  unit res \<times> 's GatewayRegistry" where
  "Register ops now info r =
     (case op_RegisterGateway ops now info (reg_store r) of (res, s') \<Rightarrow> (res, r\<lparr>reg_store := s'\<rparr>))"

definition Heartbeat :: "'s Store \<Rightarrow> int \<Rightarrow> string \<Rightarrow> int \<Rightarrow> 's GatewayRegistry \<Rightarrow>
  unit res \<times> 's GatewayRegistry" where
  "Heartbeat ops now gatewayID currentConns r =
     (case op_HeartbeatGateway ops now gatewayID currentConns (reg_store r) of
        (res, s') \<Rightarrow> (res, r\<lparr>reg_store := s'\<rparr>))"

definition timed_out :: "int \<Rightarrow> GatewayInfo \<Rightarrow> bool" where
  "timed_out now gw \<longleftrightarrow> now - gw_LastHeartbeat gw > GatewayHeartbeatTimeoutMs"

definition at_capacity :: "GatewayInfo \<Rightarrow> bool" where
  "at_capacity gw \<longleftrightarrow> gw_Capacity gw > 0 \<and> gw_CurrentConns gw \<ge> gw_Capacity gw"

fun least_loaded :: "GatewayInfo \<Rightarrow> GatewayInfo list \<Rightarrow> GatewayInfo" where
  "least_loaded best [] = best"
| "least_loaded best (gw # rest) =
     least_loaded (if gw_CurrentConns gw < gw_CurrentConns best then gw else best) rest"

definition Allocate :: "'s Store \<Rightarrow> int \<Rightarrow> string \<Rightarrow> 's GatewayRegistry \<Rightarrow>
  registry_error + GatewayInfo" where
  "Allocate ops now region r =
     (case op_ListGateways ops (reg_store r) of
        Inl e \<Rightarrow> Inl (StoreErr e)
      | Inr gateways \<Rightarrow>
          let candidates = filter (\<lambda>gw. \<not> timed_out now gw \<and> \<not> at_capacity gw) gateways
          in if candidates = [] then Inl NoGatewayAvailable
             else
               let sameRegion = filter (\<lambda>gw. gw_Region gw = region) candidates;
                   pool = (if sameRegion \<noteq> [] then sameRegion else candidates)
               in (case pool of
                     [] \<Rightarrow> Inl NoGatewayAvailable
                   | best # rest \<Rightarrow> Inr (least_loaded best rest)))"

definition BindDevice :: "'s Store \<Rightarrow> string \<Rightarrow> string \<Rightarrow> string \<Rightarrow> 's GatewayRegistry \<Rightarrow>
  (string \<times> string) \<times> 's GatewayRegistry" where
  "BindDevice ops deviceID gatewayID connID r =
     (case op_BindDevice ops deviceID gatewayID connID (reg_store r) of
        (Inl _, s') \<Rightarrow> (([], []), r\<lparr>reg_store := s'\<rparr>)
      | (Inr old, s') \<Rightarrow> (old, r\<lparr>reg_store := s'\<rparr>))"

definition GetGatewayInfo :: "'s Store \<Rightarrow> string \<Rightarrow> 's GatewayRegistry \<Rightarrow> GatewayInfo option" where
  "GetGatewayInfo ops gatewayID r =
     (case op_GetGateway ops gatewayID (reg_store r) of Inl _ \<Rightarrow> None | Inr gw \<Rightarrow> Some gw)"

definition UnbindDevice :: "'s Store \<Rightarrow> string \<Rightarrow> 's GatewayRegistry \<Rightarrow> 's GatewayRegistry" where
  "UnbindDevice ops deviceID r = r\<lparr>reg_store := snd (op_UnbindDevice ops deviceID (reg_store r))\<rparr>"

definition GetDeviceGatewayID :: "'s Store \<Rightarrow> string \<Rightarrow> 's GatewayRegistry \<Rightarrow> string" where
  "GetDeviceGatewayID ops deviceID r =
     (case op_GetDeviceGateway ops deviceID (reg_store r) of Inl _ \<Rightarrow> [] | Inr gwID \<Rightarrow> gwID)"

definition notifyOffline :: "string list \<Rightarrow> 's GatewayRegistry \<Rightarrow> 's GatewayRegistry" where
  "notifyOffline deviceIDs r =
     (if deviceIDs = [] \<or> \<not> reg_callback r then r
      else r\<lparr>reg_offline := reg_offline r @ [deviceIDs]\<rparr>)"

definition Deregister :: "'s Store \<Rightarrow> string \<Rightarrow> 's GatewayRegistry \<Rightarrow>
  unit res \<times> 's GatewayRegistry" where
  "Deregister ops gatewayID r =
     (case op_RemoveGatewayWithDevices ops gatewayID (reg_store r) of
        (Inl e, s') \<Rightarrow> (Inl e, r\<lparr>reg_store := s'\<rparr>)
      | (Inr deviceIDs, s') \<Rightarrow> (Inr (), notifyOffline deviceIDs (r\<lparr>reg_store := s'\<rparr>)))"

definition ListLiveGateways :: "'s Store \<Rightarrow> int \<Rightarrow> 's GatewayRegistry \<Rightarrow> GatewayInfo list res" where
  "ListLiveGateways ops now r =
     (case op_ListGateways ops (reg_store r) of
        Inl e \<Rightarrow> Inl e
      | Inr gateways \<Rightarrow>
          Inr (filter (\<lambda>gw. now - gw_LastHeartbeat gw \<le> GatewayHeartbeatTimeoutMs) gateways))"

definition GetDeviceGateway :: "'s Store \<Rightarrow> string \<Rightarrow> 's GatewayRegistry \<Rightarrow>
  registry_error + GatewayInfo" where
  "GetDeviceGateway ops deviceID r =
     (case op_GetDeviceGateway ops deviceID (reg_store r) of
        Inl _ \<Rightarrow> Inl DeviceNotConnected
      | Inr gwID \<Rightarrow>
          (case op_ListGateways ops (reg_store r) of
             Inl e \<Rightarrow> Inl (StoreErr e)
           | Inr gateways \<Rightarrow>
               (case find (\<lambda>gw. gw_ID gw = gwID) gateways of
                  Some gw \<Rightarrow> Inr gw
                | None \<Rightarrow> Inl (GatewayMissing gwID))))"

definition IsDeviceBound :: "'s Store \<Rightarrow> int \<Rightarrow> string \<Rightarrow> 's GatewayRegistry \<Rightarrow> bool" where
  "IsDeviceBound ops now deviceID r =
     (case op_GetDeviceGateway ops deviceID (reg_store r) of
        Inl _ \<Rightarrow> False
      | Inr gwID \<Rightarrow>
          (case op_ListGateways ops (reg_store r) of
             Inl _ \<Rightarrow> False
           | Inr gateways \<Rightarrow>
               list_ex (\<lambda>gw. gw_ID gw = gwID \<and>
                 now - gw_LastHeartbeat gw \<le> GatewayHeartbeatTimeoutMs) gateways))"

definition cleanup_one :: "'s Store \<Rightarrow> int \<Rightarrow> GatewayInfo \<Rightarrow> 's GatewayRegistry \<Rightarrow> 's GatewayRegistry"
where
  "cleanup_one ops now gw r =
     (if timed_out now gw then
        (case op_RemoveGatewayWithDevices ops (gw_ID gw) (reg_store r) of
           (Inl _, s') \<Rightarrow> r\<lparr>reg_store := s'\<rparr>
         | (Inr deviceIDs, s') \<Rightarrow> notifyOffline deviceIDs (r\<lparr>reg_store := s'\<rparr>))
      else r)"

definition doCleanup :: "'s Store \<Rightarrow> int \<Rightarrow> 's GatewayRegistry \<Rightarrow> 's GatewayRegistry" where
  "doCleanup ops now r =
     (case op_ListGateways ops (reg_store r) of
        Inl _ \<Rightarrow> r
      | Inr gateways \<Rightarrow> fold (cleanup_one ops now) gateways r)"

text \<open>One tick of the cleanup goroutine.\<close>

definition startCleanup_tick :: "'s Store \<Rightarrow> int \<Rightarrow> 's GatewayRegistry \<Rightarrow> 's GatewayRegistry" where
  "startCleanup_tick ops now r =
     (case op_TryLock ops ''gateway:cleanup:lock'' 15000 (reg_store r) of
        (res, s') \<Rightarrow>
          let r' = r\<lparr>reg_store := s'\<rparr>
          in if res = Inr True then doCleanup ops now r' else r')"

section \<open>Allocation\<close>

lemma least_loaded_in: "least_loaded b xs \<in> insert b (set xs)"
  by (induction xs arbitrary: b) (auto split: if_splits)

lemma least_loaded_least:
  "g \<in> insert b (set xs) \<Longrightarrow> gw_CurrentConns (least_loaded b xs) \<le> gw_CurrentConns g"
proof (induction xs arbitrary: b g)
  case (Cons x xs)
  let ?b = "if gw_CurrentConns x < gw_CurrentConns b then x else b"
  have "gw_CurrentConns (least_loaded ?b xs) \<le> gw_CurrentConns ?b"
    by (rule Cons.IH) simp
  moreover have "gw_CurrentConns (least_loaded ?b xs) \<le> gw_CurrentConns g" if "g \<in> set xs"
    using that by (intro Cons.IH) simp
  ultimately show ?case using Cons.prems by (auto split: if_splits)
qed simp

definition eligible :: "int \<Rightarrow> GatewayInfo \<Rightarrow> bool" where
  "eligible now gw \<longleftrightarrow> \<not> timed_out now gw \<and> \<not> at_capacity gw"

text \<open>The candidates an allocation in a region may choose from.\<close>

definition allocation_pool :: "int \<Rightarrow> string \<Rightarrow> GatewayInfo set \<Rightarrow> GatewayInfo set" where
  "allocation_pool now region G =
     (let live = {g \<in> G. eligible now g}; here = {g \<in> live. gw_Region g = region}
      in if here \<noteq> {} then here else live)"

lemma Allocate_pool:
  assumes "op_ListGateways ops (reg_store r) = Inr xs"
  shows "case Allocate ops now region r of
      Inl e \<Rightarrow> e = NoGatewayAvailable \<and> allocation_pool now region (set xs) = {}
    | Inr g \<Rightarrow> g \<in> allocation_pool now region (set xs) \<and>
        (\<forall>g' \<in> allocation_pool now region (set xs). gw_CurrentConns g \<le> gw_CurrentConns g')"
proof -
  let ?c = "filter (eligible now) xs"
  let ?s = "filter (\<lambda>gw. gw_Region gw = region) ?c"
  let ?p = "if ?s \<noteq> [] then ?s else ?c"
  have c: "filter (\<lambda>gw. \<not> timed_out now gw \<and> \<not> at_capacity gw) xs = ?c"
    by (simp add: eligible_def[abs_def])
  have "({g \<in> set ?c. gw_Region g = region} \<noteq> {}) = (?s \<noteq> [])"
    by (auto simp: filter_empty_conv)
  then have pool: "allocation_pool now region (set xs) = set ?p"
    by (auto simp: allocation_pool_def Let_def)
  show ?thesis
  proof (cases ?p)
    case Nil
    then have "?c = []" by (auto split: if_splits)
    with assms c pool show ?thesis by (simp add: Allocate_def)
  next
    case (Cons b rest)
    have "set ?p \<subseteq> set ?c" by auto
    moreover have "b \<in> set ?p" unfolding Cons by simp
    ultimately have "b \<in> set ?c" by (rule subsetD)
    then have ne: "?c \<noteq> []" by (metis empty_iff empty_set)
    have "Allocate ops now region r = Inr (least_loaded b rest)"
      unfolding Allocate_def assms sum.case Let_def c Cons using ne by simp
    moreover have "set ?p = insert b (set rest)" using Cons by simp
    ultimately show ?thesis
      using least_loaded_in[of b rest] least_loaded_least[of _ b rest] by (simp add: pool)
  qed
qed

section \<open>Client lemmas over the store contract\<close>

context gateway_store begin

lemma Allocate_gws:
  assumes "invar (reg_store r)" and "op_ListGateways ops (reg_store r) = Inr xs"
  shows "case Allocate ops now region r of
      Inl e \<Rightarrow> e = NoGatewayAvailable \<and> allocation_pool now region (ran (gws (reg_store r))) = {}
    | Inr g \<Rightarrow> g \<in> allocation_pool now region (ran (gws (reg_store r))) \<and>
        (\<forall>g' \<in> allocation_pool now region (ran (gws (reg_store r))).
           gw_CurrentConns g \<le> gw_CurrentConns g')"
proof -
  have "g \<in> set xs \<longleftrightarrow> g \<in> ran (gws (reg_store r))" for g
    using list_gws[OF assms] gws_id[OF assms(1)] by (auto simp: ran_def)
  then have ran: "ran (gws (reg_store r)) = set xs" by blast
  show ?thesis unfolding ran by (rule Allocate_pool[OF assms(2)])
qed

lemma IsDeviceBound_gws:
  assumes "invar (reg_store r)" and "op_ListGateways ops (reg_store r) = Inr xs"
    and "op_GetDeviceGateway ops d (reg_store r) = Inr i"
  shows "IsDeviceBound ops now d r \<longleftrightarrow>
    (\<exists>g. gws (reg_store r) i = Some g \<and> \<not> timed_out now g)"
proof -
  have mem: "g \<in> set xs \<and> gw_ID g = i \<longleftrightarrow> gws (reg_store r) i = Some g" for g
    using list_gws[OF assms(1,2)] gws_id[OF assms(1)] by blast
  have "IsDeviceBound ops now d r \<longleftrightarrow>
      (\<exists>g. (g \<in> set xs \<and> gw_ID g = i) \<and> \<not> timed_out now g)"
    unfolding IsDeviceBound_def assms(2,3)
    by (auto simp: list_ex_iff timed_out_def not_less)
  then show ?thesis unfolding mem .
qed

end

locale reliable_store = gateway_store +
  assumes list_ok: "\<exists>xs. op_ListGateways ops s = Inr xs"
    and remove_ok: "\<exists>ds s'. op_RemoveGatewayWithDevices ops i s = (Inr ds, s')"
begin

lemma cleanup_fold:
  assumes "invar (reg_store r)"
  shows "let r' = fold (cleanup_one ops now) xs r; D = gw_ID ` {g \<in> set xs. timed_out now g} in
     invar (reg_store r') \<and>
     gws (reg_store r') = (\<lambda>i. if i \<in> D then None else gws (reg_store r) i) \<and>
     devs (reg_store r') = (\<lambda>d. if devs (reg_store r) d \<in> Some ` D then None else devs (reg_store r) d) \<and>
     reg_callback r' = reg_callback r \<and>
     (\<exists>calls. reg_offline r' = reg_offline r @ calls \<and>
        (if reg_callback r
         then distinct (concat calls) \<and> set (concat calls) = {d. devs (reg_store r) d \<in> Some ` D}
         else calls = []))"
  using assms
proof (induction xs arbitrary: r)
  case (Cons g xs)
  show ?case
  proof (cases "timed_out now g")
    case False
    then have "{h \<in> set (g # xs). timed_out now h} = {h \<in> set xs. timed_out now h}"
      and "fold (cleanup_one ops now) (g # xs) r = fold (cleanup_one ops now) xs r"
      by (auto simp: cleanup_one_def)
    then show ?thesis using Cons.IH[OF Cons.prems] by (simp only:)
  next
    case True
    obtain ds s' where rm: "op_RemoveGatewayWithDevices ops (gw_ID g) (reg_store r) = (Inr ds, s')"
      using remove_ok by blast
    note w = remove_with[OF Cons.prems rm]
    define r1 where "r1 = notifyOffline ds (r\<lparr>reg_store := s'\<rparr>)"
    have r1: "cleanup_one ops now g r = r1" using True rm by (simp add: cleanup_one_def r1_def)
    have st: "reg_store r1 = s'" "reg_callback r1 = reg_callback r"
      by (simp_all add: r1_def notifyOffline_def)
    have inv1: "invar (reg_store r1)"
      using invar_remove_with[OF Cons.prems, of "gw_ID g"] rm st by simp
    let ?D = "gw_ID ` {g \<in> set xs. timed_out now g}"
    let ?r' = "fold (cleanup_one ops now) xs r1"
    have D: "gw_ID ` {h \<in> set (g # xs). timed_out now h} = insert (gw_ID g) ?D" using True by auto
    from Cons.IH[OF inv1] obtain calls where
      IH: "invar (reg_store ?r')"
        "gws (reg_store ?r') = (\<lambda>i. if i \<in> ?D then None else gws s' i)"
        "devs (reg_store ?r') = (\<lambda>d. if devs s' d \<in> Some ` ?D then None else devs s' d)"
        "reg_callback ?r' = reg_callback r"
        "reg_offline ?r' = reg_offline r1 @ calls"
        "if reg_callback r
         then distinct (concat calls) \<and> set (concat calls) = {d. devs s' d \<in> Some ` ?D}
         else calls = []"
      unfolding Let_def st by blast
    let ?new = "if ds = [] \<or> \<not> reg_callback r then [] else [ds]"
    have off: "reg_offline r1 = reg_offline r @ ?new" by (simp add: r1_def notifyOffline_def)
    have cc: "concat (?new @ calls) = ds @ concat calls" if "reg_callback r"
      using that by simp
    have "if reg_callback r
          then distinct (concat (?new @ calls)) \<and>
               set (concat (?new @ calls)) = {d. devs (reg_store r) d \<in> Some ` insert (gw_ID g) ?D}
          else ?new @ calls = []"
      using IH(6) w cc by (auto split: if_splits)
    moreover have "gws (reg_store ?r') =
        (\<lambda>i. if i \<in> insert (gw_ID g) ?D then None else gws (reg_store r) i)"
      using IH(2) w by (auto simp: fun_eq_iff)
    moreover have "devs (reg_store ?r') = (\<lambda>d. if devs (reg_store r) d \<in> Some ` insert (gw_ID g) ?D
        then None else devs (reg_store r) d)"
      using IH(3) w by (auto simp: fun_eq_iff)
    ultimately show ?thesis
      using IH(1,4,5) off unfolding Let_def D fold_simps(2) comp_def r1
      by (intro conjI) (auto intro!: exI[of _ "?new @ calls"])
  qed
qed simp

lemma doCleanup_spec:
  assumes "invar (reg_store r)"
  shows "let r' = doCleanup ops now r;
             dead = (\<lambda>i. \<exists>g. gws (reg_store r) i = Some g \<and> timed_out now g) in
     invar (reg_store r') \<and>
     gws (reg_store r') = (\<lambda>i. if dead i then None else gws (reg_store r) i) \<and>
     devs (reg_store r') = (\<lambda>d. case devs (reg_store r) d of None \<Rightarrow> None
                                | Some i \<Rightarrow> if dead i then None else Some i) \<and>
     (\<exists>calls. reg_offline r' = reg_offline r @ calls \<and>
        (if reg_callback r
         then distinct (concat calls) \<and>
              set (concat calls) = {d. \<exists>i. devs (reg_store r) d = Some i \<and> dead i}
         else calls = []))"
proof -
  obtain xs where xs: "op_ListGateways ops (reg_store r) = Inr xs" using list_ok by blast
  let ?D = "gw_ID ` {g \<in> set xs. timed_out now g}"
  have D: "i \<in> ?D \<longleftrightarrow> (\<exists>g. gws (reg_store r) i = Some g \<and> timed_out now g)" for i
    using list_gws[OF assms xs] gws_id[OF assms] by (auto simp: image_iff)
  have S: "o' \<in> Some ` ?D \<longleftrightarrow> (\<exists>i. o' = Some i \<and> i \<in> ?D)" for o' by auto
  have "doCleanup ops now r = fold (cleanup_one ops now) xs r" using xs by (simp add: doCleanup_def)
  with cleanup_fold[OF assms, of now xs] show ?thesis
    unfolding Let_def S D by (auto simp: fun_eq_iff split: option.splits)
qed

end

interpretation mem_reliable: reliable_store MemoryStore_ops ms_inv ms_gws ms_devs
  by unfold_locales (simp_all add: MemoryStore_ops_def ms_defs Let_def)

section \<open>The registry over the in-memory store\<close>

text \<open>
  C3. Allocation on any well-formed in-memory store never fails but for the lack of an eligible
  gateway: it answers a registered gateway whose heartbeat has not timed out and which is below its
  capacity, in the requested region whenever such a gateway exists there, and with the fewest
  connections among these.  It answers \<^verbatim>\<open>no gateway available\<close> exactly when no gateway is eligible.
\<close>

theorem Allocate_correct:
  assumes "ms_inv (reg_store r)"
  shows "case Allocate MemoryStore_ops now region r of
      Inl e \<Rightarrow> e = NoGatewayAvailable \<and> (\<forall>i g. ms_gws (reg_store r) i = Some g \<longrightarrow> timed_out now g \<or> at_capacity g)
    | Inr g \<Rightarrow> ms_gws (reg_store r) (gw_ID g) = Some g \<and> \<not> timed_out now g \<and> \<not> at_capacity g \<and>
        (\<forall>i g'. ms_gws (reg_store r) i = Some g' \<and> \<not> timed_out now g' \<and> \<not> at_capacity g' \<longrightarrow>
           (gw_Region g' = region \<longrightarrow> gw_Region g = region) \<and>
           (gw_Region g' = region \<or> gw_Region g \<noteq> region \<longrightarrow> gw_CurrentConns g \<le> gw_CurrentConns g'))"
proof -
  obtain xs where xs: "op_ListGateways MemoryStore_ops (reg_store r) = Inr xs"
    using mem_reliable.list_ok by blast
  note A = mem.Allocate_gws[OF assms xs, of now region]
  have id: "gw_ID g = i" if "ms_gws (reg_store r) i = Some g" for i g
    using ms_gws_ID[OF assms that] .
  show ?thesis
  proof (cases "Allocate MemoryStore_ops now region r")
    case (Inl e)
    with A show ?thesis
      by (auto simp: allocation_pool_def Let_def eligible_def ran_def split: if_splits)
  next
    case (Inr g)
    with A have g: "g \<in> allocation_pool now region (ran (ms_gws (reg_store r)))"
      and least: "\<And>g'. g' \<in> allocation_pool now region (ran (ms_gws (reg_store r))) \<Longrightarrow>
        gw_CurrentConns g \<le> gw_CurrentConns g'" by auto
    from g have "g \<in> ran (ms_gws (reg_store r))" and el: "eligible now g"
      by (auto simp: allocation_pool_def Let_def split: if_splits)
    then have gg: "ms_gws (reg_store r) (gw_ID g) = Some g" using id by (auto simp: ran_def)
    have "(gw_Region g' = region \<longrightarrow> gw_Region g = region) \<and>
        (gw_Region g' = region \<or> gw_Region g \<noteq> region \<longrightarrow> gw_CurrentConns g \<le> gw_CurrentConns g')"
      if "ms_gws (reg_store r) i = Some g'" "eligible now g'" for i g'
    proof -
      have live: "g' \<in> {g \<in> ran (ms_gws (reg_store r)). eligible now g}"
        using that by (auto simp: ran_def)
      then show ?thesis
        using g least[of g'] by (auto simp: allocation_pool_def Let_def split: if_splits)
    qed
    with Inr gg el show ?thesis by (auto simp: eligible_def)
  qed
qed

definition gw_example :: "string \<Rightarrow> string \<Rightarrow> int \<Rightarrow> int \<Rightarrow> GatewayInfo" where
  "gw_example i region capacity conns =
     \<lparr>gw_ID = i, gw_Endpoint = ''wss://e'', gw_InternalURL = ''http://e:8081'', gw_APIBaseURL = [], gw_Region = region,
      gw_Capacity = capacity, gw_CurrentConns = conns, gw_LastHeartbeat = 0\<rparr>"

definition reg_example :: "MemoryStore GatewayRegistry" where
  "reg_example =
     (let r0 = NewGatewayRegistry MemoryStore_ops 1000 True NewMemoryStore;
          r1 = snd (Register MemoryStore_ops 1000 (gw_example ''a'' ''eu'' 10 4) r0);
          r2 = snd (Register MemoryStore_ops 9000 (gw_example ''b'' ''us'' 0 7) r1);
          r3 = snd (BindDevice MemoryStore_ops ''d1'' ''a'' ''c1'' r2)
      in snd (BindDevice MemoryStore_ops ''d2'' ''b'' ''c2'' r3))"

lemma reg_example_inv: "ms_inv (reg_store reg_example)"
  by (simp add: reg_example_def NewGatewayRegistry_def Register_def BindDevice_def gw_example_def
      MemoryStore_ops_def ms_defs NewMemoryStore_def ms_inv_def Let_def insert_commute)

lemma reg_example_gws:
  "ms_gws (reg_store reg_example) =
     [''a'' \<mapsto> (gw_example ''a'' ''eu'' 10 4)\<lparr>gw_LastHeartbeat := 1000\<rparr>,
      ''b'' \<mapsto> (gw_example ''b'' ''us'' 0 7)\<lparr>gw_LastHeartbeat := 9000\<rparr>]"
  by (rule ext)
    (simp add: reg_example_def NewGatewayRegistry_def Register_def BindDevice_def gw_example_def
      MemoryStore_ops_def ms_defs NewMemoryStore_def ms_gws_def stamped_def Let_def)

theorem Allocate_correct_witness:
  "ms_inv (reg_store reg_example) \<and>
   (case Allocate MemoryStore_ops 62000 ''eu'' reg_example of
      Inl e \<Rightarrow> False
    | Inr g \<Rightarrow> ms_gws (reg_store reg_example) (gw_ID g) = Some g \<and> \<not> timed_out 62000 g)"
proof -
  have "\<exists>g. ms_gws (reg_store reg_example) ''b'' = Some g \<and> \<not> timed_out 62000 g \<and> \<not> at_capacity g"
    by (simp add: reg_example_gws gw_example_def timed_out_def at_capacity_def
        GatewayHeartbeatTimeoutMs_def)
  then show ?thesis
    using Allocate_correct[OF reg_example_inv, of 62000 "''eu''"] reg_example_inv
    by (cases "Allocate MemoryStore_ops 62000 ''eu'' reg_example") (simp_all, blast)
qed

text \<open>
  One run of the cleanup on any well-formed in-memory store removes exactly the gateways whose
  last heartbeat is more than 60 seconds old, clears the binding of exactly the devices bound to one
  of them and keeps every other binding; and it hands each of these devices to the offline callback
  exactly once (no call is made when no callback is set).
\<close>

theorem doCleanup_correct:
  assumes "ms_inv (reg_store r)"
  shows "let r' = doCleanup MemoryStore_ops now r;
             dead = (\<lambda>i. \<exists>g. ms_gws (reg_store r) i = Some g \<and> timed_out now g) in
     ms_inv (reg_store r') \<and>
     ms_gws (reg_store r') = (\<lambda>i. if dead i then None else ms_gws (reg_store r) i) \<and>
     ms_devs (reg_store r') = (\<lambda>d. case ms_devs (reg_store r) d of None \<Rightarrow> None
                                   | Some i \<Rightarrow> if dead i then None else Some i) \<and>
     (\<exists>calls. reg_offline r' = reg_offline r @ calls \<and>
        (if reg_callback r
         then distinct (concat calls) \<and>
              set (concat calls) = {d. \<exists>i. ms_devs (reg_store r) d = Some i \<and> dead i}
         else calls = []))"
  by (rule mem_reliable.doCleanup_spec[OF assms])

theorem doCleanup_correct_witness:
  "ms_inv (reg_store reg_example) \<and>
   ms_gws (reg_store (doCleanup MemoryStore_ops 62000 reg_example)) ''a'' = None \<and>
   ms_gws (reg_store (doCleanup MemoryStore_ops 62000 reg_example)) ''b'' \<noteq> None"
  using doCleanup_correct[OF reg_example_inv, of 62000] reg_example_inv
  by (simp add: Let_def reg_example_gws gw_example_def timed_out_def
      GatewayHeartbeatTimeoutMs_def)

text \<open>The device is bound exactly when the directory maps it to a gateway that is alive.\<close>

lemma IsDeviceBound_mem:
  assumes "ms_inv (reg_store r)"
  shows "IsDeviceBound MemoryStore_ops now d r \<longleftrightarrow>
    (\<exists>i g. ms_devs (reg_store r) d = Some i \<and> ms_gws (reg_store r) i = Some g \<and> \<not> timed_out now g)"
proof (cases "ms_devs (reg_store r) d")
  case None
  then show ?thesis by (simp add: IsDeviceBound_def MemoryStore_ops_def ms_defs ms_devs_def)
next
  case (Some i)
  obtain xs where xs: "op_ListGateways MemoryStore_ops (reg_store r) = Inr xs"
    using mem_reliable.list_ok by blast
  have "op_GetDeviceGateway MemoryStore_ops d (reg_store r) = Inr i"
    using Some by (simp add: MemoryStore_ops_def ms_defs ms_devs_def)
  from mem.IsDeviceBound_gws[OF assms xs this] Some show ?thesis by simp
qed

section \<open>Histories of the registry\<close>

text \<open>The calls the handlers and the cleanup goroutine make on a registry, each an atomic step (the
  store's lock serialises them), at any times and in any order.\<close>

inductive registry_step :: "MemoryStore GatewayRegistry \<Rightarrow> MemoryStore GatewayRegistry \<Rightarrow> bool" where
  st_register: "registry_step r (snd (Register MemoryStore_ops now info r))"
| st_heartbeat: "registry_step r (snd (Heartbeat MemoryStore_ops now i n r))"
| st_bind: "registry_step r (snd (BindDevice MemoryStore_ops d i c r))"
| st_unbind: "registry_step r (UnbindDevice MemoryStore_ops d r)"
| st_deregister: "registry_step r (snd (Deregister MemoryStore_ops i r))"
| st_cleanup: "registry_step r (startCleanup_tick MemoryStore_ops now r)"

inductive registry_reachable :: "MemoryStore GatewayRegistry \<Rightarrow> bool" where
  rr_new: "registry_reachable (NewGatewayRegistry MemoryStore_ops now cb NewMemoryStore)"
| rr_step: "registry_reachable r \<Longrightarrow> registry_step r r' \<Longrightarrow> registry_reachable r'"

inductive_cases registry_stepE: "registry_step r r'"

lemma notifyOffline_store [simp]: "reg_store (notifyOffline ds r) = reg_store r"
  by (simp add: notifyOffline_def)

lemma registry_step_inv:
  assumes "registry_step r r'" and "ms_inv (reg_store r)"
  shows "ms_inv (reg_store r')"
  using assms
proof (cases rule: registry_step.cases)
  case (st_register now info)
  with assms show ?thesis
    by (simp add: Register_def mem.invar_register split: prod.split)
       (metis mem.invar_register snd_conv)
next
  case (st_heartbeat now i n)
  with assms show ?thesis
    by (simp add: Heartbeat_def split: prod.split) (metis mem.invar_heartbeat snd_conv)
next
  case (st_bind d i c)
  with assms show ?thesis
    by (simp add: BindDevice_def split: prod.split sum.split) (metis mem.invar_bind snd_conv)
next
  case (st_unbind d)
  with assms show ?thesis by (simp add: UnbindDevice_def mem.invar_unbind)
next
  case (st_deregister i)
  with assms show ?thesis
    by (simp add: Deregister_def split: prod.split sum.split) (metis mem.invar_remove_with snd_conv)
next
  case (st_cleanup now)
  have "startCleanup_tick MemoryStore_ops now r = doCleanup MemoryStore_ops now r"
    by (simp add: startCleanup_tick_def MemoryStore_ops_def MemoryStore_TryLock_def Let_def)
  with st_cleanup mem_reliable.doCleanup_spec[OF assms(2), of now] show ?thesis
    by (simp add: Let_def)
qed

lemma registry_reachable_inv: "registry_reachable r \<Longrightarrow> ms_inv (reg_store r)"
proof (induction rule: registry_reachable.induct)
  case (rr_new now cb)
  then show ?case
    using ms_inv_epoch[OF ms_inv_new, of now]
    by (simp add: NewGatewayRegistry_def MemoryStore_ops_def MemoryStore_GetOrInitEpoch_def Let_def)
next
  case (rr_step r r')
  then show ?case by (metis registry_step_inv)
qed

text \<open>
  In every state a registry over the in-memory store can reach, by registrations, heartbeats,
  bindings, releases, deregistrations and cleanup ticks in any order, a device counts as bound
  exactly when it is mapped to a registered gateway whose heartbeat is at most 60 seconds old; and
  the next cleanup tick leaves that answer unchanged for every device.
\<close>

theorem IsDeviceBound_reachable:
  assumes "registry_reachable r"
  shows "(IsDeviceBound MemoryStore_ops now d r \<longleftrightarrow>
      (\<exists>i g. ms_devs (reg_store r) d = Some i \<and> ms_gws (reg_store r) i = Some g \<and>
         now - gw_LastHeartbeat g \<le> 60000)) \<and>
    IsDeviceBound MemoryStore_ops now d (startCleanup_tick MemoryStore_ops now r) =
      IsDeviceBound MemoryStore_ops now d r"
proof -
  note inv = registry_reachable_inv[OF assms]
  have tick: "startCleanup_tick MemoryStore_ops now r = doCleanup MemoryStore_ops now r"
    by (simp add: startCleanup_tick_def MemoryStore_ops_def MemoryStore_TryLock_def Let_def)
  note C = mem_reliable.doCleanup_spec[OF inv, of now, unfolded Let_def]
  have "IsDeviceBound MemoryStore_ops now d (doCleanup MemoryStore_ops now r) \<longleftrightarrow>
      IsDeviceBound MemoryStore_ops now d r"
    using C unfolding IsDeviceBound_mem[OF inv] IsDeviceBound_mem[OF C[THEN conjunct1]]
    by (auto split: option.splits if_splits)
  moreover have "\<not> timed_out now g \<longleftrightarrow> now - gw_LastHeartbeat g \<le> 60000" for g
    by (auto simp: timed_out_def GatewayHeartbeatTimeoutMs_def)
  ultimately show ?thesis by (simp add: IsDeviceBound_mem[OF inv] tick)
qed

lemma reg_example_reachable: "registry_reachable reg_example"
  unfolding reg_example_def Let_def
  by (rule rr_step[OF rr_step[OF rr_step[OF rr_step[OF rr_new st_register] st_register] st_bind] st_bind])

theorem IsDeviceBound_reachable_witness:
  "registry_reachable reg_example \<and> \<not> IsDeviceBound MemoryStore_ops 62000 ''d3'' reg_example"
  using IsDeviceBound_reachable[OF reg_example_reachable, of 62000 "''d3''"] reg_example_reachable
  by (simp add: reg_example_def NewGatewayRegistry_def Register_def BindDevice_def gw_example_def
      MemoryStore_ops_def ms_defs NewMemoryStore_def ms_devs_def Let_def)

end
