(* ===== verification/Cloud_Events.thy ===== *)
theory Cloud_Events
  imports Gateway_Registry
begin

text \<open>
  The event stream from devices to the browsers of their users (\<^verbatim>\<open>server/internal/cloud\<close>:
  \<^verbatim>\<open>connection_manager.go\<close>, \<^verbatim>\<open>event_router.go\<close>, \<^verbatim>\<open>types.go\<close>): the table of server-sent-event connections with
  its limits, the subscriptions to sessions, and the router that batches device events and sends
  user commands to the gateway of a device.

  The Go maps are association lists with distinct keys.  A connection carries the contents of its
  buffered channel and whether its \<^verbatim>\<open>Done\<close> channel is closed; the identifier of a new connection and the clock are
  arguments.
\<close>

section \<open>Types\<close>

datatype cloud_event = Event (et_Type: string) (et_Properties: "(string \<times> propval) list option")
  and propval = PStr string | PInt int | PEvents "cloud_event list" | POther string

definition EventHeartbeat :: string where "EventHeartbeat = ''heartbeat''"

definition EventMessagePartUpdated :: string where "EventMessagePartUpdated = ''message.part.updated''"

definition EventMessagePartDelta :: string where "EventMessagePartDelta = ''message.part.delta''"

definition EventSessionAbort :: string where "EventSessionAbort = ''session.abort''"

definition EventSessionMessage :: string where "EventSessionMessage = ''session.message''"

definition EventTeamTaskDispatch :: string where "EventTeamTaskDispatch = ''team.task.dispatch''"

definition EventBatch :: string where "EventBatch = ''batch''"

definition MaxConnectionsPerUser :: nat where "MaxConnectionsPerUser = 5"

definition MaxSubscriptionsPerUser :: nat where "MaxSubscriptionsPerUser = 50"

definition ConnectionTimeoutMs :: int where "ConnectionTimeoutMs = 60000"

definition SendChannelCapacity :: nat where "SendChannelCapacity = 64"

record SSEConnection =
  sse_ID :: string
  sse_UserID :: string
  sse_WorkspaceID :: string
  sse_Send :: "cloud_event list"
  sse_LastActivity :: int

datatype cloud_error = ErrConnectionLimitExceeded | ErrSubscriptionLimitExceeded | ErrConnectionNotFound

record ConnectionManager =
  cm_connections :: "(string \<times> SSEConnection) list"
  cm_userConnections :: "(string \<times> string list) list"
  cm_sessionSubscriptions :: "(string \<times> string list) list"
  cm_done :: "string list"

definition NewConnectionManager :: ConnectionManager where
  "NewConnectionManager = \<lparr>cm_connections = [], cm_userConnections = [], cm_sessionSubscriptions = [],
     cm_done = []\<rparr>"

text \<open>The set stored at a key of a map of sets (empty when there is none).\<close>

definition at_key :: "(string \<times> string list) list \<Rightarrow> string \<Rightarrow> string list" where
  "at_key m k = (case map_of m k of None \<Rightarrow> [] | Some l \<Rightarrow> l)"

text \<open>Deleting an element from the set at a key, and the key with its last element.\<close>

definition remove_at :: "string \<Rightarrow> string \<Rightarrow> (string \<times> string list) list \<Rightarrow> (string \<times> string list) list" where
  "remove_at k x m =
     (case map_of m k of
        None \<Rightarrow> m
      | Some l \<Rightarrow> let l' = removeAll x l in if l' = [] then AList.delete k m else AList.update k l' m)"

section \<open>The connection manager\<close>

definition newConn :: "string \<Rightarrow> int \<Rightarrow> string \<Rightarrow> string \<Rightarrow> SSEConnection" where
  "newConn newID now userID workspaceID =
     \<lparr>sse_ID = newID, sse_UserID = userID, sse_WorkspaceID = workspaceID, sse_Send = [],
      sse_LastActivity = now\<rparr>"

definition RegisterUserConnection ::
  "string \<Rightarrow> int \<Rightarrow> string \<Rightarrow> string \<Rightarrow> ConnectionManager \<Rightarrow>
   (cloud_error + SSEConnection) \<times> ConnectionManager" where
  "RegisterUserConnection newID now userID workspaceID m =
     (if map_of (cm_userConnections m) userID \<noteq> None \<and>
         length (at_key (cm_userConnections m) userID) \<ge> MaxConnectionsPerUser
      then (Inl ErrConnectionLimitExceeded, m)
      else
        let conn = newConn newID now userID workspaceID
        in (Inr conn,
            m\<lparr>cm_connections := AList.update newID conn (cm_connections m),
              cm_userConnections := AList.update userID
                (List.insert newID (at_key (cm_userConnections m) userID)) (cm_userConnections m)\<rparr>))"

definition SubscribeToSession ::
  "string \<Rightarrow> string \<Rightarrow> ConnectionManager \<Rightarrow> (cloud_error + unit) \<times> ConnectionManager" where
  "SubscribeToSession sessionID connID m =
     (case map_of (cm_connections m) connID of
        None \<Rightarrow> (Inl ErrConnectionNotFound, m)
      | Some conn \<Rightarrow>
          let userSubCount = length (filter
                (\<lambda>sub. case map_of (cm_connections m) sub of
                         None \<Rightarrow> False | Some c \<Rightarrow> sse_UserID c = sse_UserID conn)
                (at_key (cm_sessionSubscriptions m) sessionID))
          in if map_of (cm_sessionSubscriptions m) sessionID \<noteq> None \<and> userSubCount \<ge> MaxSubscriptionsPerUser
             then (Inl ErrSubscriptionLimitExceeded, m)
             else (Inr (), m\<lparr>cm_sessionSubscriptions := AList.update sessionID
                    (List.insert connID (at_key (cm_sessionSubscriptions m) sessionID))
                    (cm_sessionSubscriptions m)\<rparr>))"

definition UnsubscribeFromSession :: "string \<Rightarrow> string \<Rightarrow> ConnectionManager \<Rightarrow> ConnectionManager" where
  "UnsubscribeFromSession sessionID connID m =
     m\<lparr>cm_sessionSubscriptions := remove_at sessionID connID (cm_sessionSubscriptions m)\<rparr>"

definition closeConnLocked :: "SSEConnection \<Rightarrow> ConnectionManager \<Rightarrow> ConnectionManager" where
  "closeConnLocked conn m =
     m\<lparr>cm_connections := AList.delete (sse_ID conn) (cm_connections m),
       cm_userConnections := remove_at (sse_UserID conn) (sse_ID conn) (cm_userConnections m),
       cm_sessionSubscriptions :=
         filter (\<lambda>(s, l). l \<noteq> [])
           (map (\<lambda>(s, l). (s, removeAll (sse_ID conn) l)) (cm_sessionSubscriptions m)),
       cm_done := List.insert (sse_ID conn) (cm_done m)\<rparr>"

definition CloseConnection :: "string \<Rightarrow> ConnectionManager \<Rightarrow> ConnectionManager" where
  "CloseConnection connID m =
     (case map_of (cm_connections m) connID of None \<Rightarrow> m | Some conn \<Rightarrow> closeConnLocked conn m)"

definition send_event :: "int \<Rightarrow> cloud_event \<Rightarrow> SSEConnection \<Rightarrow> SSEConnection" where
  "send_event now event conn =
     (if length (sse_Send conn) < SendChannelCapacity
      then conn\<lparr>sse_Send := sse_Send conn @ [event], sse_LastActivity := now\<rparr>
      else conn)"

definition RouteEvent :: "int \<Rightarrow> cloud_event \<Rightarrow> string list \<Rightarrow> ConnectionManager \<Rightarrow> ConnectionManager" where
  "RouteEvent now event targetConnIDs m =
     fold (\<lambda>connID m. case map_of (cm_connections m) connID of
             None \<Rightarrow> m
           | Some conn \<Rightarrow>
               m\<lparr>cm_connections := AList.update connID (send_event now event conn) (cm_connections m)\<rparr>)
       targetConnIDs m"

definition FindUserConnsBySession :: "string \<Rightarrow> ConnectionManager \<Rightarrow> string list" where
  "FindUserConnsBySession sessionID m =
     filter (\<lambda>connID. map_of (cm_connections m) connID \<noteq> None) (at_key (cm_sessionSubscriptions m) sessionID)"

definition GetConn :: "string \<Rightarrow> ConnectionManager \<Rightarrow> SSEConnection option" where
  "GetConn connID m = map_of (cm_connections m) connID"

definition Stats :: "ConnectionManager \<Rightarrow> nat \<times> nat \<times> nat" where
  "Stats m = (length (cm_connections m), length (cm_userConnections m), length (cm_sessionSubscriptions m))"

text \<open>One tick of the heartbeat and one of the cleanup goroutine.\<close>

definition heartbeat_tick :: "int \<Rightarrow> ConnectionManager \<Rightarrow> ConnectionManager" where
  "heartbeat_tick now m =
     m\<lparr>cm_connections := map (\<lambda>(i, conn).
         (i, send_event now (Event EventHeartbeat (Some [(''timestamp'', PInt now)])) conn)) (cm_connections m)\<rparr>"

definition cleanup_tick :: "int \<Rightarrow> ConnectionManager \<Rightarrow> ConnectionManager" where
  "cleanup_tick now m =
     fold CloseConnection
       (map fst (filter (\<lambda>(i, conn). now - sse_LastActivity conn > ConnectionTimeoutMs) (cm_connections m))) m"

section \<open>The event router\<close>

record EventRouter =
  er_manager :: ConnectionManager
  er_batchQueue :: "(string \<times> cloud_event list) list"
  er_staleDeltas :: "string set"

definition str_prop :: "(string \<times> propval) list option \<Rightarrow> string \<Rightarrow> string" where
  "str_prop props k =
     (case props of None \<Rightarrow> [] | Some ps \<Rightarrow> (case map_of ps k of Some (PStr v) \<Rightarrow> v | _ \<Rightarrow> []))"

definition delta_key :: "string \<Rightarrow> string \<Rightarrow> string \<Rightarrow> string" where
  "delta_key sessionID msgID partID = sessionID @ '':'' @ msgID @ '':'' @ partID"

definition enqueue_event :: "cloud_event \<Rightarrow> string \<Rightarrow> (string \<times> cloud_event list) list \<Rightarrow> (string \<times> cloud_event list) list" where
  "enqueue_event event connID q =
     AList.update connID ((case map_of q connID of None \<Rightarrow> [] | Some es \<Rightarrow> es) @ [event]) q"

definition RouteDeviceEvent :: "string \<Rightarrow> cloud_event \<Rightarrow> EventRouter \<Rightarrow> EventRouter" where
  "RouteDeviceEvent sessionID event r =
     (let msgID = str_prop (et_Properties event) ''messageID'';
          partID = str_prop (et_Properties event) ''partID'';
          stale = (if et_Type event = EventMessagePartUpdated \<and> et_Properties event \<noteq> None \<and>
                      msgID \<noteq> [] \<and> partID \<noteq> []
                   then insert (delta_key sessionID msgID partID) (er_staleDeltas r)
                   else er_staleDeltas r);
          targets = (if has_prefix (et_Type event) ''session.'' \<or> has_prefix (et_Type event) ''message.''
                     then FindUserConnsBySession sessionID (er_manager r) else [])
      in r\<lparr>er_staleDeltas := stale, er_batchQueue := fold (enqueue_event event) targets (er_batchQueue r)\<rparr>)"

definition is_stale :: "string set \<Rightarrow> cloud_event \<Rightarrow> bool" where
  "is_stale stale e \<longleftrightarrow>
     et_Type e = EventMessagePartDelta \<and> et_Properties e \<noteq> None \<and>
     delta_key (str_prop (et_Properties e) ''sessionID'') (str_prop (et_Properties e) ''messageID'')
       (str_prop (et_Properties e) ''partID'') \<in> stale"

definition batch_of :: "cloud_event list \<Rightarrow> cloud_event" where
  "batch_of filtered =
     (case filtered of [e] \<Rightarrow> e | _ \<Rightarrow> Event EventBatch (Some [(''events'', PEvents filtered)]))"

definition flush :: "int \<Rightarrow> EventRouter \<Rightarrow> EventRouter" where
  "flush now r =
     \<lparr>er_manager =
        fold (\<lambda>(connID, events) m.
                let filtered = filter (\<lambda>e. \<not> is_stale (er_staleDeltas r) e) events
                in if filtered = [] then m else RouteEvent now (batch_of filtered) [connID] m)
          (er_batchQueue r) (er_manager r),
      er_batchQueue = [], er_staleDeltas = {}\<rparr>"

definition eventTypeToPath :: "string \<Rightarrow> (string \<times> propval) list option \<Rightarrow> string" where
  "eventTypeToPath eventType props =
     (let sessionID = str_prop props ''sessionID''
      in if eventType = EventSessionAbort then
           (if sessionID \<noteq> [] then ''/api/session/'' @ sessionID @ ''/abort'' else [])
         else if eventType = EventSessionMessage then
           (if sessionID \<noteq> [] then ''/api/session/'' @ sessionID @ ''/message'' else [])
         else if eventType = EventTeamTaskDispatch then ''/api/v1/teamworker/tasks/dispatch''
         else [])"

datatype 'e command_error =
    CmdDeviceNotConnected
  | CmdUnsupported string
  | CmdMarshal
  | CmdRequest
  | CmdProxy 'e

definition RouteUserCommand ::
  "'s Store \<Rightarrow> ((string \<times> propval) list option \<Rightarrow> string option) \<Rightarrow> (string \<Rightarrow> bool) \<Rightarrow>
   (string \<Rightarrow> string \<Rightarrow> string \<Rightarrow> string \<Rightarrow> 'e + unit) \<Rightarrow> 's GatewayRegistry \<Rightarrow> string \<Rightarrow> cloud_event \<Rightarrow>
   'e command_error + unit" where
  "RouteUserCommand ops marshal request_ok ProxyRequest reg deviceID event =
     (case GetDeviceGateway ops deviceID reg of
        Inl _ \<Rightarrow> Inl CmdDeviceNotConnected
      | Inr gw \<Rightarrow>
          let path = eventTypeToPath (et_Type event) (et_Properties event)
          in if path = [] then Inl (CmdUnsupported (et_Type event))
             else case marshal (et_Properties event) of
               None \<Rightarrow> Inl CmdMarshal
             | Some body \<Rightarrow>
                 if \<not> request_ok (''http://placeholder'' @ path) then Inl CmdRequest
                 else (case ProxyRequest (gw_InternalURL gw) deviceID path body of
                         Inl e \<Rightarrow> Inl (CmdProxy e) | Inr u \<Rightarrow> Inr ()))"

section \<open>The tables as functions\<close>

text \<open>
  The three tables read as functions: the live connections, the connections of a user and the
  subscribers of a session.  Each operation is described by what it does to them.
\<close>

definition conns :: "ConnectionManager \<Rightarrow> string \<Rightarrow> SSEConnection option" where
  "conns m = map_of (cm_connections m)"

definition user_conns :: "ConnectionManager \<Rightarrow> string \<Rightarrow> string list" where
  "user_conns m = at_key (cm_userConnections m)"

definition subs :: "ConnectionManager \<Rightarrow> string \<Rightarrow> string list" where
  "subs m = at_key (cm_sessionSubscriptions m)"

lemmas view_defs = conns_def user_conns_def subs_def

lemma at_key_update: "at_key (AList.update k l m) = (at_key m)(k := l)"
  by (rule ext) (simp add: at_key_def map_of_update)

lemma at_key_remove_at: "at_key (remove_at k x m) = (at_key m)(k := removeAll x (at_key m k))"
  by (rule ext) (simp add: at_key_def remove_at_def Let_def map_of_update split: option.split)

lemma at_key_remove_all:
  "distinct (map fst m) \<Longrightarrow>
   at_key (filter (\<lambda>(s, l). l \<noteq> []) (map (\<lambda>(s, l). (s, removeAll x l)) m)) s = removeAll x (at_key m s)"
proof (induction m)
  case (Cons a m)
  obtain k l where a: "a = (k, l)" by force
  have "at_key m s = []" "at_key (filter (\<lambda>(s, l). l \<noteq> []) (map (\<lambda>(s, l). (s, removeAll x l)) m)) s = []"
    if "s = k" using Cons a that by (simp_all add: at_key_def map_of_eq_None_iff[THEN iffD2])
  with Cons a show ?case by (auto simp: at_key_def)
qed (simp add: at_key_def)

lemma distinct_remove_at: "distinct (map fst m) \<Longrightarrow> distinct (map fst (remove_at k x m))"
  by (simp add: remove_at_def Let_def split: option.split)

lemma distinct_remove_all:
  "distinct (map fst m) \<Longrightarrow>
   distinct (map fst (filter (\<lambda>(s, l). l \<noteq> []) (map (\<lambda>(s, l). (s, f l)) m)))"
  by (rule distinct_map_filter) (simp add: comp_def case_prod_beta)

lemma Register_refused:
  "length (user_conns m u) \<ge> MaxConnectionsPerUser \<Longrightarrow>
   RegisterUserConnection i now u w m = (Inl ErrConnectionLimitExceeded, m)"
  by (auto simp: RegisterUserConnection_def user_conns_def at_key_def MaxConnectionsPerUser_def split: option.splits)

lemma Register_accepted:
  assumes "length (user_conns m u) < MaxConnectionsPerUser"
  obtains m' where "RegisterUserConnection i now u w m = (Inr (newConn i now u w), m')"
    "conns m' = (conns m)(i \<mapsto> newConn i now u w)"
    "user_conns m' = (user_conns m)(u := List.insert i (user_conns m u))" "subs m' = subs m"
    "distinct (map fst (cm_connections m)) \<longrightarrow> distinct (map fst (cm_connections m'))"
    "cm_sessionSubscriptions m' = cm_sessionSubscriptions m"
  using assms
  by (auto simp: RegisterUserConnection_def view_defs Let_def map_of_update at_key_update)

lemma subs_Unsubscribe:
  "subs (UnsubscribeFromSession s i m) = (subs m)(s := removeAll i (subs m s))"
  "conns (UnsubscribeFromSession s i m) = conns m" "user_conns (UnsubscribeFromSession s i m) = user_conns m"
  by (simp_all add: UnsubscribeFromSession_def view_defs at_key_remove_at)

lemma views_close:
  "conns (closeConnLocked c m) = (conns m)(sse_ID c := None)"
  "user_conns (closeConnLocked c m) = (user_conns m)(sse_UserID c := removeAll (sse_ID c) (user_conns m (sse_UserID c)))"
  "distinct (map fst (cm_sessionSubscriptions m)) \<Longrightarrow>
     subs (closeConnLocked c m) = (\<lambda>s. removeAll (sse_ID c) (subs m s))"
  by (simp_all add: closeConnLocked_def view_defs at_key_remove_at at_key_remove_all fun_eq_iff)

text \<open>An event changes the channel and the activity time of a connection, not its identity.\<close>

lemma send_event_same [simp]:
  "sse_ID (send_event now e c) = sse_ID c" "sse_UserID (send_event now e c) = sse_UserID c"
  by (simp_all add: send_event_def)

definition deliver_to :: "int \<Rightarrow> cloud_event \<Rightarrow> string \<Rightarrow> ConnectionManager \<Rightarrow> ConnectionManager" where
  "deliver_to now event connID m = RouteEvent now event [connID] m"

lemma RouteEvent_Cons: "RouteEvent now e (i # is) m = RouteEvent now e is (deliver_to now e i m)"
  by (simp add: RouteEvent_def deliver_to_def)

lemma RouteEvent_Nil [simp]: "RouteEvent now e [] m = m"
  by (simp add: RouteEvent_def)

lemma deliver_to_views:
  "conns (deliver_to now e i m) = (\<lambda>j. if j = i then map_option (send_event now e) (conns m i) else conns m j)"
  "user_conns (deliver_to now e i m) = user_conns m" "subs (deliver_to now e i m) = subs m"
  "cm_sessionSubscriptions (deliver_to now e i m) = cm_sessionSubscriptions m"
  "distinct (map fst (cm_connections m)) \<Longrightarrow> distinct (map fst (cm_connections (deliver_to now e i m)))"
  by (auto simp: deliver_to_def RouteEvent_def view_defs map_of_update fun_eq_iff split: option.split)

lemma heartbeat_views:
  "conns (heartbeat_tick now m) = map_option (send_event now (Event EventHeartbeat (Some [(''timestamp'', PInt now)]))) \<circ> conns m"
  "user_conns (heartbeat_tick now m) = user_conns m" "subs (heartbeat_tick now m) = subs m"
  by (simp_all add: heartbeat_tick_def view_defs map_of_map)

section \<open>The tables stay consistent\<close>

text \<open>Every connection is filed under its identifier; a user's entry lists exactly the user's live
  connections, without duplicates and within the limit; subscribers are live connections, listed once.\<close>

definition ids_ok :: "ConnectionManager \<Rightarrow> bool" where
  "ids_ok m \<longleftrightarrow> (\<forall>i c. conns m i = Some c \<longrightarrow> sse_ID c = i)"

definition users_ok :: "ConnectionManager \<Rightarrow> bool" where
  "users_ok m \<longleftrightarrow> (\<forall>u. set (user_conns m u) = {i. \<exists>c. conns m i = Some c \<and> sse_UserID c = u} \<and>
     distinct (user_conns m u) \<and> length (user_conns m u) \<le> MaxConnectionsPerUser)"

definition subs_ok :: "ConnectionManager \<Rightarrow> bool" where
  "subs_ok m \<longleftrightarrow> (\<forall>s. set (subs m s) \<subseteq> dom (conns m) \<and> distinct (subs m s))"

definition keys_ok :: "ConnectionManager \<Rightarrow> bool" where
  "keys_ok m \<longleftrightarrow> distinct (map fst (cm_connections m)) \<and> distinct (map fst (cm_sessionSubscriptions m))"

definition cm_inv :: "ConnectionManager \<Rightarrow> bool" where
  "cm_inv m \<longleftrightarrow> keys_ok m \<and> ids_ok m \<and> users_ok m \<and> subs_ok m"

lemma user_entry:
  assumes "users_ok m" and "conns m i = Some c"
  shows "i \<in> set (user_conns m u) \<longleftrightarrow> u = sse_UserID c"
  using assms by (auto simp: users_ok_def)

lemma cm_inv_Register:
  assumes inv: "cm_inv m" and fresh: "conns m i = None"
  shows "cm_inv (snd (RegisterUserConnection i now u w m))"
proof (cases "length (user_conns m u) < MaxConnectionsPerUser")
  case False
  then show ?thesis using inv by (simp add: Register_refused)
next
  case True
  obtain m' where r: "RegisterUserConnection i now u w m = (Inr (newConn i now u w), m')"
    and v: "conns m' = (conns m)(i \<mapsto> newConn i now u w)"
    "user_conns m' = (user_conns m)(u := List.insert i (user_conns m u))" "subs m' = subs m"
    and k: "distinct (map fst (cm_connections m)) \<longrightarrow> distinct (map fst (cm_connections m'))"
      "cm_sessionSubscriptions m' = cm_sessionSubscriptions m" 
    by (rule Register_accepted[OF True, where i = i and now = now and w = w])
  have new: "i \<notin> set (user_conns m x)" for x using inv fresh by (auto simp: cm_inv_def users_ok_def)
  have "keys_ok m'" using inv k by (simp add: cm_inv_def keys_ok_def)
  moreover have "ids_ok m'" using inv v(1) by (simp add: cm_inv_def ids_ok_def newConn_def)
  moreover have "subs_ok m'" using inv v(1,3) by (auto simp: cm_inv_def subs_ok_def)
  moreover have "users_ok m'"
    unfolding users_ok_def
  proof (intro allI conjI)
    fix x
    have old: "set (user_conns m x) = {i. \<exists>c. conns m i = Some c \<and> sse_UserID c = x}"
      "distinct (user_conns m x)" "length (user_conns m x) \<le> MaxConnectionsPerUser"
      using inv by (auto simp: cm_inv_def users_ok_def)
    show "set (user_conns m' x) = {i. \<exists>c. conns m' i = Some c \<and> sse_UserID c = x}"
      using old(1) fresh by (auto simp: v newConn_def)
    show "distinct (user_conns m' x)" using old(2) by (auto simp: v)
    show "length (user_conns m' x) \<le> MaxConnectionsPerUser" using old(3) True new by (auto simp: v)
  qed
  ultimately show ?thesis by (simp add: r cm_inv_def)
qed

lemma cm_inv_subs:
  assumes "cm_inv m" and "conns m' = conns m" and "user_conns m' = user_conns m"
    and "cm_connections m' = cm_connections m" and "distinct (map fst (cm_sessionSubscriptions m'))" and "subs_ok m'"
  shows "cm_inv m'"
  using assms by (simp add: cm_inv_def keys_ok_def ids_ok_def users_ok_def)

text \<open>A user has at most five connections, each listed once, so the limit of 50 subscriptions of one
  user to one session cannot be reached.\<close>

lemma user_subscriptions_le:
  assumes "cm_inv m"
  shows "length (filter (\<lambda>i. case conns m i of None \<Rightarrow> False | Some c \<Rightarrow> sse_UserID c = u) (subs m s)) \<le>
    MaxConnectionsPerUser"
proof -
  let ?l = "filter (\<lambda>i. case conns m i of None \<Rightarrow> False | Some c \<Rightarrow> sse_UserID c = u) (subs m s)"
  have "distinct ?l" using assms by (simp add: cm_inv_def subs_ok_def)
  moreover have "set ?l \<subseteq> set (user_conns m u)"
    using assms by (auto simp: cm_inv_def users_ok_def split: option.splits)
  ultimately have "length ?l \<le> length (user_conns m u)"
    by (metis card_mono distinct_card List.finite_set card_length le_trans)
  then show ?thesis using assms by (auto simp: cm_inv_def users_ok_def intro: le_trans)
qed

lemma Subscribe_result:
  assumes "cm_inv m"
  shows "SubscribeToSession s i m =
    (if conns m i = None then (Inl ErrConnectionNotFound, m)
     else (Inr (), m\<lparr>cm_sessionSubscriptions := AList.update s (List.insert i (subs m s)) (cm_sessionSubscriptions m)\<rparr>))"
proof (cases "conns m i")
  case (Some c)
  have "\<not> length (filter (\<lambda>i. case conns m i of None \<Rightarrow> False | Some d \<Rightarrow> sse_UserID d = sse_UserID c) (subs m s)) \<ge>
      MaxSubscriptionsPerUser"
    using user_subscriptions_le[OF assms, where u = "sse_UserID c" and s = s]
    by (simp add: MaxSubscriptionsPerUser_def MaxConnectionsPerUser_def)
  with Some show ?thesis by (simp add: SubscribeToSession_def view_defs Let_def)
qed (simp add: SubscribeToSession_def view_defs)

lemma cm_inv_Subscribe:
  assumes inv: "cm_inv m"
  shows "cm_inv (snd (SubscribeToSession s i m))"
proof (cases "conns m i = None")
  case False
  let ?m = "m\<lparr>cm_sessionSubscriptions := AList.update s (List.insert i (subs m s)) (cm_sessionSubscriptions m)\<rparr>"
  have v: "conns ?m = conns m" "user_conns ?m = user_conns m" "subs ?m = (subs m)(s := List.insert i (subs m s))"
    by (simp_all add: view_defs at_key_update)
  have "subs_ok ?m" using inv False by (auto simp: subs_ok_def v cm_inv_def)
  moreover have "distinct (map fst (cm_sessionSubscriptions ?m))"
    using inv by (simp add: cm_inv_def keys_ok_def)
  ultimately have "cm_inv ?m" using cm_inv_subs[OF inv v(1,2)] by simp
  then show ?thesis using False by (auto simp: Subscribe_result[OF inv])
qed (simp add: Subscribe_result[OF inv] inv)

lemma cm_inv_Unsubscribe:
  assumes inv: "cm_inv m"
  shows "cm_inv (UnsubscribeFromSession s i m)"
proof (rule cm_inv_subs[OF inv subs_Unsubscribe(2,3)])
  show "cm_connections (UnsubscribeFromSession s i m) = cm_connections m"
    "distinct (map fst (cm_sessionSubscriptions (UnsubscribeFromSession s i m)))"
    using inv by (simp_all add: UnsubscribeFromSession_def cm_inv_def keys_ok_def distinct_remove_at)
  show "subs_ok (UnsubscribeFromSession s i m)"
    using inv by (auto simp: subs_ok_def subs_Unsubscribe cm_inv_def distinct_removeAll)
qed

lemma cm_inv_Close:
  assumes inv: "cm_inv m"
  shows "cm_inv (CloseConnection i m)"
proof (cases "conns m i")
  case None
  then show ?thesis using inv by (simp add: CloseConnection_def conns_def)
next
  case (Some c)
  have i: "sse_ID c = i" using inv Some by (simp add: cm_inv_def ids_ok_def)
  have d: "distinct (map fst (cm_connections m))" "distinct (map fst (cm_sessionSubscriptions m))"
    using inv by (simp_all add: cm_inv_def keys_ok_def)
  note v = views_close(1,2)[of c m] views_close(3)[OF d(2), of c]
  have "keys_ok (closeConnLocked c m)"
    using d by (simp add: keys_ok_def closeConnLocked_def distinct_remove_all)
  moreover have "ids_ok (closeConnLocked c m)" using inv by (simp add: cm_inv_def ids_ok_def v)
  moreover have "subs_ok (closeConnLocked c m)"
    using inv by (auto simp: subs_ok_def v i cm_inv_def distinct_removeAll)
  moreover have "users_ok (closeConnLocked c m)"
    unfolding users_ok_def
  proof (intro allI conjI)
    fix x
    have old: "set (user_conns m x) = {i. \<exists>c. conns m i = Some c \<and> sse_UserID c = x}"
      "distinct (user_conns m x)" "length (user_conns m x) \<le> MaxConnectionsPerUser"
      using inv by (auto simp: cm_inv_def users_ok_def)
    show "set (user_conns (closeConnLocked c m) x) =
        {i. \<exists>d. conns (closeConnLocked c m) i = Some d \<and> sse_UserID d = x}"
      using old(1) Some by (auto simp: v i)
    show "distinct (user_conns (closeConnLocked c m) x)" using old(2) by (auto simp: v distinct_removeAll)
    show "length (user_conns (closeConnLocked c m) x) \<le> MaxConnectionsPerUser"
      using old(3) le_trans[OF length_removeAll_less_eq] by (auto simp: v)
  qed
  ultimately show ?thesis using Some by (simp add: CloseConnection_def conns_def cm_inv_def)
qed

text \<open>Operations that only change what connections hold.\<close>

lemma cm_inv_content:
  assumes inv: "cm_inv m" and k: "keys_ok m'" and v: "user_conns m' = user_conns m" "subs m' = subs m"
    and c: "\<And>i. map_option sse_ID (conns m' i) = map_option sse_ID (conns m i)"
      "\<And>i. map_option sse_UserID (conns m' i) = map_option sse_UserID (conns m i)"
  shows "cm_inv m'"
proof -
  have dom: "dom (conns m') = dom (conns m)" using c(1) by (auto simp: dom_def) (metis option.map_disc_iff not_None_eq)+
  have "ids_ok m'" using inv c(1) unfolding cm_inv_def ids_ok_def by (metis (no_types, lifting) map_option_eq_Some)
  moreover have "{i. \<exists>d. conns m' i = Some d \<and> sse_UserID d = u} = {i. \<exists>d. conns m i = Some d \<and> sse_UserID d = u}" for u
    using c(2) by (metis (no_types, lifting) map_option_eq_Some)
  then have "users_ok m'" using inv by (simp add: cm_inv_def users_ok_def v)
  moreover have "subs_ok m'" using inv by (simp add: cm_inv_def subs_ok_def v dom)
  ultimately show ?thesis using k by (simp add: cm_inv_def)
qed

lemma cm_inv_deliver_to: "cm_inv m \<Longrightarrow> cm_inv (deliver_to now e i m)"
  by (rule cm_inv_content) (auto simp: deliver_to_views cm_inv_def keys_ok_def option.map_comp comp_def)

lemma cm_inv_RouteEvent: "cm_inv m \<Longrightarrow> cm_inv (RouteEvent now e is m)"
  by (induction "is" arbitrary: m) (simp_all add: RouteEvent_Cons cm_inv_deliver_to)

lemma cm_inv_heartbeat: "cm_inv m \<Longrightarrow> cm_inv (heartbeat_tick now m)"
proof (rule cm_inv_content)
  assume "cm_inv m"
  then show "keys_ok (heartbeat_tick now m)"
    by (simp add: cm_inv_def keys_ok_def heartbeat_tick_def comp_def case_prod_beta)
qed (auto simp: heartbeat_views option.map_comp comp_def)

lemma cm_inv_cleanup: "cm_inv m \<Longrightarrow> cm_inv (cleanup_tick now m)"
proof -
  have "cm_inv m \<Longrightarrow> cm_inv (fold CloseConnection is m)" for "is"
    by (induction "is" arbitrary: m) (simp_all add: cm_inv_Close)
  then show "cm_inv m \<Longrightarrow> cm_inv (cleanup_tick now m)" by (simp add: cleanup_tick_def)
qed

section \<open>The router\<close>

definition queue_of :: "EventRouter \<Rightarrow> string \<Rightarrow> cloud_event list" where
  "queue_of r i = (case map_of (er_batchQueue r) i of None \<Rightarrow> [] | Some es \<Rightarrow> es)"

text \<open>The events a session's subscribers get at all, and the mark a part update leaves.\<close>

definition routed :: "cloud_event \<Rightarrow> bool" where
  "routed e \<longleftrightarrow> has_prefix (et_Type e) ''session.'' \<or> has_prefix (et_Type e) ''message.''"

definition update_key :: "string \<Rightarrow> cloud_event \<Rightarrow> string set" where
  "update_key s e =
     (if et_Type e = EventMessagePartUpdated \<and> et_Properties e \<noteq> None \<and>
         str_prop (et_Properties e) ''messageID'' \<noteq> [] \<and> str_prop (et_Properties e) ''partID'' \<noteq> []
      then {delta_key s (str_prop (et_Properties e) ''messageID'') (str_prop (et_Properties e) ''partID'')}
      else {})"

lemma queue_enqueue:
  "distinct is \<Longrightarrow>
   (case map_of (fold (enqueue_event e) is q) i of None \<Rightarrow> [] | Some es \<Rightarrow> es) =
     (case map_of q i of None \<Rightarrow> [] | Some es \<Rightarrow> es) @ (if i \<in> set is then [e] else [])"
  by (induction "is" arbitrary: q) (auto simp: enqueue_event_def map_of_update split: option.split)

lemma distinct_enqueue: "distinct (map fst q) \<Longrightarrow> distinct (map fst (fold (enqueue_event e) is q))"
  by (induction "is" arbitrary: q) (simp_all add: enqueue_event_def)

lemma subscribers:
  assumes "cm_inv m"
  shows "FindUserConnsBySession s m = subs m s"
proof -
  have "conns m i \<noteq> None" if "i \<in> set (subs m s)" for i
    using assms that by (auto simp: cm_inv_def subs_ok_def)
  then show ?thesis by (simp add: FindUserConnsBySession_def view_defs filter_id_conv)
qed

lemma RouteDeviceEvent_effect:
  assumes "cm_inv (er_manager r)"
  shows "er_manager (RouteDeviceEvent s e r) = er_manager r"
    "er_staleDeltas (RouteDeviceEvent s e r) = update_key s e \<union> er_staleDeltas r"
    "queue_of (RouteDeviceEvent s e r) i =
       queue_of r i @ (if routed e \<and> i \<in> set (subs (er_manager r) s) then [e] else [])"
proof -
  have d: "distinct (subs (er_manager r) s)" using assms by (simp add: cm_inv_def subs_ok_def)
  show "er_manager (RouteDeviceEvent s e r) = er_manager r"
    "er_staleDeltas (RouteDeviceEvent s e r) = update_key s e \<union> er_staleDeltas r"
    by (auto simp: RouteDeviceEvent_def Let_def update_key_def)
  show "queue_of (RouteDeviceEvent s e r) i =
       queue_of r i @ (if routed e \<and> i \<in> set (subs (er_manager r) s) then [e] else [])"
    using queue_enqueue[OF d, of e "er_batchQueue r" i]
    by (simp add: RouteDeviceEvent_def Let_def queue_of_def routed_def subscribers[OF assms])
qed

lemma RouteDeviceEvents_effect:
  assumes "cm_inv (er_manager r)"
  shows "er_manager (fold (RouteDeviceEvent s) es r) = er_manager r \<and>
    er_staleDeltas (fold (RouteDeviceEvent s) es r) = (\<Union>e \<in> set es. update_key s e) \<union> er_staleDeltas r \<and>
    queue_of (fold (RouteDeviceEvent s) es r) i =
      queue_of r i @ (if i \<in> set (subs (er_manager r) s) then filter routed es else [])"
  using assms
proof (induction es arbitrary: r)
  case (Cons e es)
  note E = RouteDeviceEvent_effect[OF Cons.prems, of s e]
  from Cons.IH[of "RouteDeviceEvent s e r"] Cons.prems show ?case by (auto simp: E)
qed simp

text \<open>A flush hands each queue, less the stale deltas, to its connection.\<close>

definition flushed :: "int \<Rightarrow> string set \<Rightarrow> cloud_event list \<Rightarrow> SSEConnection \<Rightarrow> SSEConnection" where
  "flushed now stale es c =
     (let out = filter (\<lambda>e. \<not> is_stale stale e) es
      in if out = [] then c else send_event now (batch_of out) c)"

lemma flushed_Nil [simp]: "flushed now stale [] c = c"
  by (simp add: flushed_def)

lemma flush_queue:
  assumes "distinct (map fst q)"
  shows "conns (fold (\<lambda>(i, es) m. let out = filter (\<lambda>e. \<not> is_stale stale e) es
             in if out = [] then m else RouteEvent now (batch_of out) [i] m) q m) j =
    map_option (flushed now stale (case map_of q j of None \<Rightarrow> [] | Some es \<Rightarrow> es)) (conns m j)"
  using assms
proof (induction q arbitrary: m)
  case Nil
  then show ?case by (simp add: option.map_ident[unfolded id_def] map_option_cong)
next
  case (Cons a q)
  obtain k es where a: "a = (k, es)" by force
  let ?out = "filter (\<lambda>e. \<not> is_stale stale e) es"
  let ?m = "if ?out = [] then m else RouteEvent now (batch_of ?out) [k] m"
  have m: "conns ?m j = (if j = k then map_option (flushed now stale es) (conns m k) else conns m j)"
    by (cases "conns m k") (simp_all add: deliver_to_views flushed_def Let_def flip: deliver_to_def)
  have k: "map_of q k = None" using Cons.prems a by (simp add: map_of_eq_None_iff)
  have "conns (fold (\<lambda>(i, es) m. let out = filter (\<lambda>e. \<not> is_stale stale e) es
             in if out = [] then m else RouteEvent now (batch_of out) [i] m) (a # q) m) j =
    map_option (flushed now stale (case map_of q j of None \<Rightarrow> [] | Some es \<Rightarrow> es)) (conns ?m j)"
    using Cons.IH[of ?m] Cons.prems by (simp add: a Let_def)
  then show ?case using k by (simp add: m a option.map_comp comp_def option.map_ident)
qed

lemma flush_effect:
  assumes "distinct (map fst (er_batchQueue r))"
  shows "conns (er_manager (flush now r)) i =
    map_option (flushed now (er_staleDeltas r) (queue_of r i)) (conns (er_manager r) i)"
  using flush_queue[OF assms] by (simp add: flush_def queue_of_def)

lemma cm_inv_flush: "cm_inv (er_manager r) \<Longrightarrow> cm_inv (er_manager (flush now r))"
proof -
  have "cm_inv m \<Longrightarrow> cm_inv (fold (\<lambda>(i, es) m. let out = filter (\<lambda>e. \<not> is_stale stale e) es
             in if out = [] then m else RouteEvent now (batch_of out) [i] m) q m)" for q m stale
    by (induction q arbitrary: m) (auto simp: Let_def cm_inv_RouteEvent)
  then show "cm_inv (er_manager r) \<Longrightarrow> cm_inv (er_manager (flush now r))" by (simp add: flush_def)
qed

section \<open>Histories of the event service\<close>

text \<open>
  A history interleaves the calls of the handlers, the ticks of the three background goroutines and
  the browsers reading their channels.  The identifier of a new connection is fresh.
\<close>

definition consume :: "string \<Rightarrow> ConnectionManager \<Rightarrow> ConnectionManager" where
  "consume i m = (case conns m i of None \<Rightarrow> m
     | Some c \<Rightarrow> m\<lparr>cm_connections := AList.update i (c\<lparr>sse_Send := drop 1 (sse_Send c)\<rparr>) (cm_connections m)\<rparr>)"

inductive manager_step :: "ConnectionManager \<Rightarrow> ConnectionManager \<Rightarrow> bool" where
  ms_register: "conns m i = None \<Longrightarrow> manager_step m (snd (RegisterUserConnection i now u w m))"
| ms_subscribe: "manager_step m (snd (SubscribeToSession s i m))"
| ms_unsubscribe: "manager_step m (UnsubscribeFromSession s i m)"
| ms_close: "manager_step m (CloseConnection i m)"
| ms_heartbeat: "manager_step m (heartbeat_tick now m)"
| ms_cleanup: "manager_step m (cleanup_tick now m)"
| ms_consume: "manager_step m (consume i m)"

inductive router_reachable :: "EventRouter \<Rightarrow> bool" where
  ro_new: "router_reachable \<lparr>er_manager = NewConnectionManager, er_batchQueue = [], er_staleDeltas = {}\<rparr>"
| ro_manager: "router_reachable r \<Longrightarrow> manager_step (er_manager r) m \<Longrightarrow> router_reachable (r\<lparr>er_manager := m\<rparr>)"
| ro_event: "router_reachable r \<Longrightarrow> router_reachable (RouteDeviceEvent s e r)"
| ro_flush: "router_reachable r \<Longrightarrow> router_reachable (flush now r)"

definition channels_ok :: "ConnectionManager \<Rightarrow> bool" where
  "channels_ok m \<longleftrightarrow> (\<forall>i c. conns m i = Some c \<longrightarrow> length (sse_Send c) \<le> SendChannelCapacity)"

lemma consume_views:
  "conns (consume i m) = (\<lambda>j. if j = i then map_option (\<lambda>c. c\<lparr>sse_Send := drop 1 (sse_Send c)\<rparr>) (conns m i) else conns m j)"
  "user_conns (consume i m) = user_conns m" "subs (consume i m) = subs m"
  "cm_sessionSubscriptions (consume i m) = cm_sessionSubscriptions m"
  "distinct (map fst (cm_connections m)) \<Longrightarrow> distinct (map fst (cm_connections (consume i m)))"
  by (auto simp: consume_def view_defs map_of_update fun_eq_iff split: option.split)

lemma send_event_channel: "length (sse_Send c) \<le> SendChannelCapacity \<Longrightarrow>
    length (sse_Send (send_event now e c)) \<le> SendChannelCapacity"
  by (simp add: send_event_def)

lemma channels_ok_close: "channels_ok m \<Longrightarrow> channels_ok (CloseConnection i m)"
  by (auto simp: CloseConnection_def channels_ok_def views_close split: option.split)

lemma channels_ok_closes: "channels_ok m \<Longrightarrow> channels_ok (fold CloseConnection is m)"
  by (induction "is" arbitrary: m) (simp_all add: channels_ok_close)

lemma manager_step_inv:
  assumes "manager_step m m'" and "cm_inv m" and "channels_ok m"
  shows "cm_inv m' \<and> channels_ok m'"
  using assms(1)
proof cases
  case (ms_register i now u w)
  have "channels_ok m'"
  proof (cases "length (user_conns m u) < MaxConnectionsPerUser")
    case True
    obtain m1 where "RegisterUserConnection i now u w m = (Inr (newConn i now u w), m1)"
      "conns m1 = (conns m)(i \<mapsto> newConn i now u w)"
      by (rule Register_accepted[OF True, where i = i and now = now and w = w])
    then show ?thesis using assms(3) ms_register(1) by (simp add: channels_ok_def newConn_def)
  qed (use assms(3) ms_register(1) in \<open>simp add: Register_refused\<close>)
  with ms_register cm_inv_Register[OF assms(2)] show ?thesis by simp
next
  case (ms_subscribe s i)
  with assms cm_inv_Subscribe[OF assms(2)] show ?thesis
    by (auto simp: Subscribe_result channels_ok_def conns_def)
next
  case (ms_unsubscribe s i)
  with assms cm_inv_Unsubscribe[OF assms(2)] show ?thesis by (simp add: channels_ok_def subs_Unsubscribe)
next
  case (ms_close i)
  with assms show ?thesis by (simp add: cm_inv_Close channels_ok_close)
next
  case (ms_heartbeat now)
  with assms show ?thesis by (auto simp: cm_inv_heartbeat channels_ok_def heartbeat_views send_event_channel)
next
  case (ms_cleanup now)
  with assms show ?thesis by (simp add: cm_inv_cleanup) (simp add: cleanup_tick_def channels_ok_closes)
next
  case (ms_consume i)
  have "cm_inv (consume i m)"
    by (rule cm_inv_content[OF assms(2)])
       (use assms(2) in \<open>auto simp: consume_views cm_inv_def keys_ok_def option.map_comp comp_def\<close>)
  moreover have "channels_ok (consume i m)"
    using assms(3) by (auto simp: channels_ok_def consume_views split: if_splits) (meson diff_le_self le_trans)
  ultimately show ?thesis using ms_consume by simp
qed

lemma router_reachable_inv:
  assumes "router_reachable r"
  shows "cm_inv (er_manager r) \<and> channels_ok (er_manager r) \<and> distinct (map fst (er_batchQueue r))"
  using assms
proof induction
  case ro_new
  then show ?case
    by (simp add: NewConnectionManager_def cm_inv_def keys_ok_def ids_ok_def users_ok_def subs_ok_def
        channels_ok_def view_defs at_key_def)
next
  case (ro_manager r m)
  then show ?case using manager_step_inv by simp
next
  case (ro_event r s e)
  then have "distinct (map fst (er_batchQueue (RouteDeviceEvent s e r)))"
    by (simp add: RouteDeviceEvent_def Let_def distinct_enqueue)
  with ro_event show ?case by (simp add: RouteDeviceEvent_effect)
next
  case (ro_flush r now)
  have "channels_ok (er_manager (flush now r))"
    using ro_flush by (auto simp: channels_ok_def flush_effect flushed_def Let_def send_event_channel)
  then show ?case using ro_flush cm_inv_flush by (simp add: flush_def)
qed

section \<open>Correctness of the event service\<close>

lemma Close_gone:
  assumes "cm_inv m"
  shows "conns (CloseConnection i m) i = None"
proof (cases "conns m i")
  case (Some c)
  then have "sse_ID c = i" using assms by (simp add: cm_inv_def ids_ok_def)
  with Some show ?thesis by (simp add: CloseConnection_def views_close flip: conns_def)
qed (simp add: CloseConnection_def conns_def)

text \<open>
  In every state the event service can reach, no user has more than five live connections, every
  subscriber of a session is a live connection and no channel holds more than 64 events.  A
  subscription succeeds exactly for a live connection: the limit of 50 subscriptions per user,
  which is counted within one session, is never reached.  A closed connection is in none of the tables.
\<close>

theorem event_service_limits:
  assumes "router_reachable r"
  shows "let m = er_manager r in
    card {i. \<exists>c. conns m i = Some c \<and> sse_UserID c = u} \<le> 5 \<and>
    set (subs m s) \<subseteq> dom (conns m) \<and>
    (\<forall>i c. conns m i = Some c \<longrightarrow> length (sse_Send c) \<le> 64) \<and>
    fst (SubscribeToSession s i m) = (if conns m i = None then Inl ErrConnectionNotFound else Inr ()) \<and>
    (conns (CloseConnection i m) i = None \<and> i \<notin> set (user_conns (CloseConnection i m) u) \<and>
     i \<notin> set (subs (CloseConnection i m) s))"
proof -
  let ?m = "er_manager r" and ?c = "CloseConnection i (er_manager r)"
  note inv = router_reachable_inv[OF assms]
  then have m: "cm_inv ?m" and ch: "channels_ok ?m" by simp_all
  have "card (set (user_conns ?m u)) \<le> 5"
    using m by (metis MaxConnectionsPerUser_def card_length cm_inv_def le_trans users_ok_def)
  then have 1: "card {i. \<exists>c. conns ?m i = Some c \<and> sse_UserID c = u} \<le> 5"
    using m by (simp add: cm_inv_def users_ok_def)
  have 2: "set (subs ?m s) \<subseteq> dom (conns ?m)" using m by (simp add: cm_inv_def subs_ok_def)
  have 3: "\<forall>i c. conns ?m i = Some c \<longrightarrow> length (sse_Send c) \<le> 64"
    using ch by (simp add: channels_ok_def SendChannelCapacity_def)
  have c: "cm_inv ?c" and gone: "conns ?c i = None" using m by (simp_all add: cm_inv_Close Close_gone)
  have 4: "i \<notin> set (user_conns ?c u)" using c gone by (simp add: cm_inv_def users_ok_def)
  have "set (subs ?c s) \<subseteq> dom (conns ?c)" using c by (simp add: cm_inv_def subs_ok_def)
  with gone have 5: "i \<notin> set (subs ?c s)" by blast
  show ?thesis using 1 2 3 4 5 gone by (simp add: Let_def Subscribe_result[OF m])
qed

text \<open>Two browsers, one subscribed to a session.\<close>

definition cloud_example :: EventRouter where
  "cloud_example = \<lparr>er_manager = snd (SubscribeToSession ''s'' ''c1''
       (snd (RegisterUserConnection ''c2'' 0 ''u'' ''w'' (snd (RegisterUserConnection ''c1'' 0 ''u'' ''w'' NewConnectionManager))))),
     er_batchQueue = [], er_staleDeltas = {}\<rparr>"

lemma cloud_example_reachable: "router_reachable cloud_example"
proof -
  let ?m1 = "snd (RegisterUserConnection ''c1'' 0 ''u'' ''w'' NewConnectionManager)"
  have "conns NewConnectionManager ''c1'' = None" "conns ?m1 ''c2'' = None"
    by (simp_all add: conns_def NewConnectionManager_def RegisterUserConnection_def Let_def)
  note steps = ms_register[OF this(1), where now = 0 and u = "''u''" and w = "''w''"]
    ms_register[OF this(2), where now = 0 and u = "''u''" and w = "''w''"]
  have "router_reachable \<lparr>er_manager = ?m1, er_batchQueue = [], er_staleDeltas = {}\<rparr>"
    using ro_manager[OF ro_new, simplified, OF steps(1)] by simp
  from ro_manager[OF this, simplified, OF steps(2)]
  show ?thesis unfolding cloud_example_def
    using ro_manager[OF _ ms_subscribe[where s = "''s''" and i = "''c1''"]] by fastforce
qed

lemma cloud_example_views:
  "conns (er_manager cloud_example) ''c1'' = Some (newConn ''c1'' 0 ''u'' ''w'')"
  "conns (er_manager cloud_example) ''c2'' = Some (newConn ''c2'' 0 ''u'' ''w'')"
  "subs (er_manager cloud_example) ''s'' = [''c1'']"
  by (simp_all add: cloud_example_def RegisterUserConnection_def SubscribeToSession_def NewConnectionManager_def
      view_defs at_key_def Let_def newConn_def MaxConnectionsPerUser_def)

theorem event_service_limits_witness:
  "router_reachable cloud_example \<and> fst (SubscribeToSession ''t'' ''c2'' (er_manager cloud_example)) = Inr () \<and>
   ''c1'' \<notin> set (subs (CloseConnection ''c1'' (er_manager cloud_example)) ''s'')"
  using event_service_limits[OF cloud_example_reachable, where u = "''u''" and s = "''t''" and i = "''c2''"]
    event_service_limits[OF cloud_example_reachable, where u = "''u''" and s = "''s''" and i = "''c1''"]
    cloud_example_reachable
  by (simp add: Let_def cloud_example_views)

text \<open>
  One batching window, from the events of a device to the browsers: a live connection gets one
  message when it is subscribed to the session and something is left to send, namely the
  session and message events of the window in their order, less the deltas of every part that was updated in the
  same window (a single event is sent as it is, several as one batch; a full channel drops the
  message).  All other connections are untouched.
\<close>

theorem event_window:
  assumes "router_reachable r" and "er_batchQueue r = []" and "er_staleDeltas r = {}"
  shows "let out = filter (\<lambda>e. routed e \<and> \<not> is_stale (\<Union>u \<in> set es. update_key s u) e) es in
    conns (er_manager (flush now (fold (RouteDeviceEvent s) es r))) i =
      map_option (\<lambda>c. if i \<in> set (subs (er_manager r) s) \<and> out \<noteq> [] then send_event now (batch_of out) c else c)
        (conns (er_manager r) i)"
proof -
  note inv = router_reachable_inv[OF assms(1)]
  let ?r = "fold (RouteDeviceEvent s) es r"
  have "router_reachable ?r" using assms(1) by (induction es arbitrary: r) (simp_all add: ro_event)
  then have d: "distinct (map fst (er_batchQueue ?r))" using router_reachable_inv by blast
  have E: "er_manager ?r = er_manager r" "er_staleDeltas ?r = (\<Union>u \<in> set es. update_key s u)"
    "queue_of ?r i = (if i \<in> set (subs (er_manager r) s) then filter routed es else [])"
    using RouteDeviceEvents_effect[where r = r and s = s and es = es and i = i] inv assms(2,3)
    by (simp_all add: queue_of_def)
  have "filter (\<lambda>e. \<not> P e) (filter routed es) = filter (\<lambda>e. routed e \<and> \<not> P e) es" for P
    by (induction es) auto
  then show ?thesis using flush_effect[OF d, where now = now and i = i]
    by (cases "conns (er_manager r) i") (simp_all add: E flushed_def Let_def)
qed

definition delta_example :: cloud_event where
  "delta_example = Event EventMessagePartDelta
     (Some [(''sessionID'', PStr ''s''), (''messageID'', PStr ''m''), (''partID'', PStr ''p''), (''delta'', PStr ''more'')])"

definition update_example :: cloud_event where
  "update_example = Event EventMessagePartUpdated (Some [(''messageID'', PStr ''m''), (''partID'', PStr ''p'')])"

lemma example_window:
  "update_key ''s'' update_example = {''s:m:p''}" "update_key ''s'' delta_example = {}"
  "routed update_example" "routed delta_example" "is_stale {''s:m:p''} delta_example"
  "\<not> is_stale {''s:m:p''} update_example"
  by (simp_all add: update_key_def update_example_def delta_example_def routed_def is_stale_def str_prop_def
      delta_key_def EventMessagePartUpdated_def EventMessagePartDelta_def has_prefix_def)

theorem event_window_witness:
  "router_reachable cloud_example \<and>
   conns (er_manager (flush 7 (fold (RouteDeviceEvent ''s'') [update_example, delta_example] cloud_example))) ''c1'' =
     Some (send_event 7 update_example (newConn ''c1'' 0 ''u'' ''w'')) \<and>
   conns (er_manager (flush 7 (fold (RouteDeviceEvent ''s'') [update_example, delta_example] cloud_example))) ''c2'' =
     Some (newConn ''c2'' 0 ''u'' ''w'')"
  using event_window[OF cloud_example_reachable, where es = "[update_example, delta_example]" and s = "''s''" and
      now = 7 and i = "''c1''"]
    event_window[OF cloud_example_reachable, where es = "[update_example, delta_example]" and s = "''s''" and
      now = 7 and i = "''c2''"]
    cloud_example_reachable
  by (simp add: Let_def cloud_example_views example_window batch_of_def)
     (simp add: cloud_example_def)

section \<open>Commands to devices\<close>

lemma GetDeviceGateway_mem:
  assumes "ms_inv (reg_store reg)"
  shows "case ms_devs (reg_store reg) d of
      None \<Rightarrow> GetDeviceGateway MemoryStore_ops d reg = Inl DeviceNotConnected
    | Some i \<Rightarrow> (case ms_gws (reg_store reg) i of
        None \<Rightarrow> GetDeviceGateway MemoryStore_ops d reg = Inl (GatewayMissing i)
      | Some g \<Rightarrow> GetDeviceGateway MemoryStore_ops d reg = Inr g)"
proof (cases "ms_devs (reg_store reg) d")
  case None
  then show ?thesis by (simp add: GetDeviceGateway_def MemoryStore_ops_def ms_defs ms_devs_def)
next
  case (Some i)
  obtain xs where xs: "op_ListGateways MemoryStore_ops (reg_store reg) = Inr xs"
    using mem_reliable.list_ok by blast
  have dev: "op_GetDeviceGateway MemoryStore_ops d (reg_store reg) = Inr i"
    using Some by (simp add: MemoryStore_ops_def ms_defs ms_devs_def)
  note L = mem.list_gws[OF assms xs]
  show ?thesis
  proof (cases "find (\<lambda>g. gw_ID g = i) xs")
    case None
    then have no: "g \<notin> set xs" if "gw_ID g = i" for g using that by (auto simp: find_None_iff)
    have "ms_gws (reg_store reg) i = None"
    proof (rule ccontr)
      assume "ms_gws (reg_store reg) i \<noteq> None"
      then obtain g where g: "ms_gws (reg_store reg) i = Some g" by blast
      with mem.gws_id[OF assms g] L no show False by blast
    qed
    then show ?thesis using Some None by (simp add: GetDeviceGateway_def dev xs)
  next
    case found: (Some g)
    then have "g \<in> set xs" "gw_ID g = i" by (auto simp: find_Some_iff)
    then have "ms_gws (reg_store reg) i = Some g" using L by auto
    then show ?thesis using Some found by (simp add: GetDeviceGateway_def dev xs)
  qed
qed

text \<open>
  A user command reaches the right gateway.  In every reachable state of the registry, a command
  with a known path is handed to the client with the internal address of the gateway its device is
  bound to, and the client's answer is passed on; it is refused as not connected exactly when the device has no
  binding or its gateway is no longer registered; a session command without session is refused
  as unsupported.
\<close>

theorem RouteUserCommand_routes:
  assumes "registry_reachable reg" and "marshal (et_Properties ev) = Some body" and "\<And>u. request_ok u"
  shows "RouteUserCommand MemoryStore_ops marshal request_ok ProxyRequest reg d ev =
    (let path = eventTypeToPath (et_Type ev) (et_Properties ev) in
     case Option.bind (ms_devs (reg_store reg) d) (ms_gws (reg_store reg)) of
       None \<Rightarrow> Inl CmdDeviceNotConnected
     | Some g \<Rightarrow> if path = [] then Inl (CmdUnsupported (et_Type ev))
         else (case ProxyRequest (gw_InternalURL g) d path body of Inl e \<Rightarrow> Inl (CmdProxy e) | Inr u \<Rightarrow> Inr ()))"
  using GetDeviceGateway_mem[OF registry_reachable_inv[OF assms(1)], where d = d] assms(2,3)
  by (auto simp: RouteUserCommand_def Let_def split: option.splits)

lemma reg_example_devs: "ms_devs (reg_store reg_example) = [''d1'' \<mapsto> ''a'', ''d2'' \<mapsto> ''b'']"
  by (rule ext) (simp add: reg_example_def NewGatewayRegistry_def Register_def BindDevice_def gw_example_def
      MemoryStore_ops_def ms_defs NewMemoryStore_def ms_devs_def Let_def)

theorem RouteUserCommand_routes_witness:
  "registry_reachable reg_example \<and>
   RouteUserCommand MemoryStore_ops (\<lambda>_. Some ''{}'') (\<lambda>_. True)
     (\<lambda>url dev path body. Inl (url, dev, path)) reg_example ''d1''
     (Event EventSessionAbort (Some [(''sessionID'', PStr ''s'')])) =
   Inl (CmdProxy (''http://e:8081'', ''d1'', ''/api/session/s/abort''))"
  using RouteUserCommand_routes[OF reg_example_reachable, where marshal = "\<lambda>_. Some ''{}''" and request_ok = "\<lambda>_. True" and
      ProxyRequest = "\<lambda>url dev path body. Inl (url, dev, path)" and d = "''d1''" and
      ev = "Event EventSessionAbort (Some [(''sessionID'', PStr ''s'')])" and body = "''{}''"] reg_example_reachable
  by (simp add: reg_example_devs reg_example_gws gw_example_def eventTypeToPath_def str_prop_def Let_def)

end
