(* ===== verification/Net_Addr.thy ===== *)
theory Net_Addr
  imports Prelude "HOL-Library.Word"
begin

unbundle bit_operations_syntax

text \<open>
  What the URL guards use of Go's standard library: \<^verbatim>\<open>net.ParseIP\<close> with the address forms of
  package \<^verbatim>\<open>netip\<close>, the class predicates of \<^verbatim>\<open>net.IP\<close>, and \<^verbatim>\<open>strconv.ParseUint\<close> in base 0.

  A \<^verbatim>\<open>net.IP\<close> is the list of its sixteen bytes; an IPv4 address is held in the mapped form
  \<^verbatim>\<open>::ffff:a.b.c.d\<close>, as \<^verbatim>\<open>net.ParseIP\<close> returns it.  The library lemmas give the round trip of dotted
  decimal addresses and that nothing else parses as an IPv4 address.
\<close>

type_synonym ip = "8 word list"

section \<open>Parsing addresses\<close>

text \<open>\<^verbatim>\<open>netip.parseIPv4Fields\<close>: the loop state is the value and the number of digits of the current
  octet and the octets already stored.\<close>

fun v4_fields :: "nat \<Rightarrow> nat \<Rightarrow> 8 word list \<Rightarrow> string \<Rightarrow> 8 word list option" where
  "v4_fields val dig fs [] = (if length fs < 3 then None else Some (fs @ [of_nat val]))"
| "v4_fields val dig fs (c # cs) =
     (if is_digit c then
        (if dig = 1 \<and> val = 0 then None
         else let v = val * 10 + (of_char c - 48)
              in if v > 255 then None else v4_fields v (Suc dig) fs cs)
      else if c = CHR ''.'' then
        (if dig = 0 \<or> cs = [] \<or> length fs = 3 then None
         else v4_fields 0 0 (fs @ [of_nat val]) cs)
      else None)"

definition parseIPv4 :: "string \<Rightarrow> 8 word list option" where
  "parseIPv4 s = v4_fields 0 0 [] s"

definition hex_val :: "char \<Rightarrow> nat option" where
  "hex_val c =
     (let n = of_char c :: nat
      in if 48 \<le> n \<and> n \<le> 57 then Some (n - 48)
         else if 97 \<le> n \<and> n \<le> 102 then Some (n - 87)
         else if 65 \<le> n \<and> n \<le> 70 then Some (n - 55)
         else None)"

text \<open>One group of hexadecimal digits: its value and the rest of the string, or \<open>None\<close> when it has
  more than four digits.\<close>

fun hex_group :: "nat \<Rightarrow> nat \<Rightarrow> string \<Rightarrow> (nat \<times> nat \<times> string) option" where
  "hex_group off acc [] = Some (off, acc, [])"
| "hex_group off acc (c # cs) =
     (case hex_val c of
        None \<Rightarrow> Some (off, acc, c # cs)
      | Some d \<Rightarrow> if off > 3 then None else hex_group (Suc off) (acc * 16 + d) cs)"

text \<open>The loop of \<^verbatim>\<open>netip.parseIPv6\<close> over the groups: \<open>n\<close> groups of room are left, \<open>bs\<close> are the bytes
  stored so far and \<open>el\<close> the place of the ellipsis.  The result is the bytes, the ellipsis and the
  unread rest.\<close>

fun v6_groups :: "nat \<Rightarrow> 8 word list \<Rightarrow> nat option \<Rightarrow> string \<Rightarrow>
    (8 word list \<times> nat option \<times> string) option" where
  "v6_groups 0 bs el s = Some (bs, el, s)"
| "v6_groups (Suc n) bs el s =
     (case hex_group 0 0 s of
        None \<Rightarrow> None
      | Some (off, acc, rest) \<Rightarrow>
          if off = 0 then None
          else if rest \<noteq> [] \<and> hd rest = CHR ''.'' then
            (if el = None \<and> length bs \<noteq> 12 \<or> length bs + 4 > 16 then None
             else case parseIPv4 s of None \<Rightarrow> None | Some fs \<Rightarrow> Some (bs @ fs, el, []))
          else
            (let bs' = bs @ [of_nat (acc div 256), of_nat acc]
             in case rest of
                  [] \<Rightarrow> Some (bs', el, [])
                | c # t \<Rightarrow>
                    if c \<noteq> CHR '':'' \<or> t = [] then None
                    else if hd t = CHR '':'' then
                      (if el \<noteq> None then None
                       else if tl t = [] then Some (bs', Some (length bs'), [])
                       else v6_groups n bs' (Some (length bs')) (tl t))
                    else v6_groups n bs' el t))"

definition parseIPv6 :: "string \<Rightarrow> ip option" where
  "parseIPv6 s =
     (let lead = has_prefix s ''::''; t = (if lead then drop 2 s else s)
      in if lead \<and> t = [] then Some (replicate 16 0)
         else case v6_groups 8 [] (if lead then Some 0 else None) t of
           None \<Rightarrow> None
         | Some (bs, el, rest) \<Rightarrow>
             if rest \<noteq> [] then None
             else if length bs < 16 then
               (case el of
                  None \<Rightarrow> None
                | Some e \<Rightarrow> Some (take e bs @ replicate (16 - length bs) 0 @ drop e bs))
             else if el \<noteq> None then None
             else Some bs)"

definition v4_mapped :: "8 word list \<Rightarrow> ip" where
  "v4_mapped fs = replicate 10 0 @ [0xff, 0xff] @ fs"

text \<open>\<^verbatim>\<open>net.ParseIP\<close>: the first of the bytes \<^verbatim>\<open>.\<close>, \<^verbatim>\<open>:\<close> and \<^verbatim>\<open>%\<close> decides the form; an address with a
  zone is refused.\<close>

definition ParseIP :: "string \<Rightarrow> ip option" where
  "ParseIP s =
     (case find (\<lambda>c. c \<in> {CHR ''.'', CHR '':'', CHR ''%''}) s of
        None \<Rightarrow> None
      | Some c \<Rightarrow>
          if c = CHR ''.'' then map_option v4_mapped (parseIPv4 s)
          else if c = CHR '':'' then (if CHR ''%'' \<in> set s then None else parseIPv6 s)
          else None)"

section \<open>Address classes\<close>

definition To4 :: "ip \<Rightarrow> 8 word list option" where
  "To4 a = (if length a = 4 then Some a
            else if length a = 16 \<and> take 12 a = replicate 10 0 @ [0xff, 0xff] then Some (drop 12 a)
            else None)"

text \<open>\<^verbatim>\<open>IP.Equal\<close>: an IPv4 address and its form mapped into IPv6 are equal.\<close>

definition ip_Equal :: "ip \<Rightarrow> ip \<Rightarrow> bool" where
  "ip_Equal a b \<longleftrightarrow>
     (if length a = length b then a = b
      else if length a = 4 \<and> length b = 16 then b = v4_mapped a
      else if length a = 16 \<and> length b = 4 then a = v4_mapped b
      else False)"

definition IsUnspecified :: "ip \<Rightarrow> bool" where
  "IsUnspecified a \<longleftrightarrow> ip_Equal a (v4_mapped [0, 0, 0, 0]) \<or> ip_Equal a (replicate 16 0)"

definition IsLoopback :: "ip \<Rightarrow> bool" where
  "IsLoopback a = (case To4 a of Some q \<Rightarrow> q ! 0 = 127 | None \<Rightarrow> a = replicate 15 0 @ [1])"

definition IsPrivate :: "ip \<Rightarrow> bool" where
  "IsPrivate a =
     (case To4 a of
        Some q \<Rightarrow> q ! 0 = 10 \<or> q ! 0 = 172 \<and> q ! 1 AND 0xf0 = 16 \<or> q ! 0 = 192 \<and> q ! 1 = 168
      | None \<Rightarrow> length a = 16 \<and> a ! 0 AND 0xfe = 0xfc)"

definition IsInterfaceLocalMulticast :: "ip \<Rightarrow> bool" where
  "IsInterfaceLocalMulticast a \<longleftrightarrow> length a = 16 \<and> a ! 0 = 0xff \<and> a ! 1 AND 0x0f = 0x01"

definition IsLinkLocalMulticast :: "ip \<Rightarrow> bool" where
  "IsLinkLocalMulticast a =
     (case To4 a of
        Some q \<Rightarrow> q ! 0 = 224 \<and> q ! 1 = 0 \<and> q ! 2 = 0
      | None \<Rightarrow> length a = 16 \<and> a ! 0 = 0xff \<and> a ! 1 AND 0x0f = 0x02)"

definition IsLinkLocalUnicast :: "ip \<Rightarrow> bool" where
  "IsLinkLocalUnicast a =
     (case To4 a of
        Some q \<Rightarrow> q ! 0 = 169 \<and> q ! 1 = 254
      | None \<Rightarrow> length a = 16 \<and> a ! 0 = 0xfe \<and> a ! 1 AND 0xc0 = 0x80)"

definition IPv4 :: "8 word \<Rightarrow> 8 word \<Rightarrow> 8 word \<Rightarrow> 8 word \<Rightarrow> ip" where
  "IPv4 a b c d = v4_mapped [a, b, c, d]"

lemmas ip_class_defs = IsUnspecified_def IsLoopback_def IsPrivate_def IsInterfaceLocalMulticast_def
  IsLinkLocalMulticast_def IsLinkLocalUnicast_def

lemma To4_mapped [simp]: "length fs = 4 \<Longrightarrow> To4 (v4_mapped fs) = Some fs"
  by (simp add: To4_def v4_mapped_def)

lemma v4_mapped_inj [simp]: "v4_mapped fs = v4_mapped gs \<longleftrightarrow> fs = gs"
  by (simp add: v4_mapped_def)

lemma length_v4_mapped [simp]: "length (v4_mapped fs) = 12 + length fs"
  by (simp add: v4_mapped_def)

lemma v4_mapped_nonzero [simp]: "v4_mapped fs \<noteq> replicate n 0"
proof
  assume e: "v4_mapped fs = replicate n 0"
  have "0xff \<in> set (v4_mapped fs)" by (simp add: v4_mapped_def)
  then show False unfolding e by (auto split: if_splits)
qed

lemma ip_Equal_To4:
  assumes "length fs = 4"
  shows "ip_Equal a (v4_mapped fs) \<longleftrightarrow> To4 a = Some fs"
proof (cases "length a = 16")
  case True
  have m: "v4_mapped fs = (replicate 10 0 @ [0xff, 0xff]) @ fs" by (simp add: v4_mapped_def)
  have "a = v4_mapped fs \<longleftrightarrow> take 12 a = replicate 10 0 @ [0xff, 0xff] \<and> drop 12 a = fs"
  proof
    assume "take 12 a = replicate 10 0 @ [0xff, 0xff] \<and> drop 12 a = fs"
    then show "a = v4_mapped fs" unfolding m using append_take_drop_id[of 12 a] by metis
  qed (simp add: v4_mapped_def)
  then show ?thesis using True assms by (simp add: ip_Equal_def To4_def)
next
  case False
  then show ?thesis using assms by (auto simp: ip_Equal_def To4_def)
qed

lemma ip_Equal_zero: "ip_Equal a (replicate 16 0) \<longleftrightarrow> a = replicate 16 0"
  using v4_mapped_nonzero[of a 16, symmetric] by (auto simp: ip_Equal_def)

lemma IsUnspecified_iff: "IsUnspecified a \<longleftrightarrow> To4 a = Some [0, 0, 0, 0] \<or> a = replicate 16 0"
  unfolding IsUnspecified_def ip_Equal_zero by (simp add: ip_Equal_To4)

section \<open>Dotted decimal addresses\<close>

definition dotted :: "8 word list \<Rightarrow> string" where
  "dotted fs = join_with ''.'' (map (\<lambda>b. dec_string (unat b)) fs)"

lemma dot_no_digit [simp]: "\<not> is_digit CHR ''.''"
  by (simp add: is_digit_def)

text \<open>The digits of an octet, read from an empty field.\<close>

lemma v4_dec:
  "n < 256 \<Longrightarrow> v4_fields 0 0 fs (dec_string n @ r) = v4_fields n (length (dec_string n)) fs r"
proof (induction n arbitrary: r rule: dec_string.induct)
  case (1 n)
  show ?case
  proof (cases "n < 10")
    case True
    then show ?thesis by (simp add: dec_string_digit digit_char_val)
  next
    case False
    then have "dec_string n = dec_string (n div 10) @ [digit_char (n mod 10)]"
      by (subst dec_string.simps) simp
    moreover have "n div 10 \<noteq> 0" using False by simp
    moreover have "n div 10 * 10 + n mod 10 = n" by simp
    ultimately show ?thesis
      using 1 False digit_char_val[of "n mod 10"] by simp
  qed
qed

lemma v4_fields_dotted:
  "length fs + length gs = 4 \<Longrightarrow> gs \<noteq> [] \<Longrightarrow> v4_fields 0 0 fs (dotted gs) = Some (fs @ gs)"
proof (induction gs arbitrary: fs)
  case (Cons g gs)
  have g: "unat g < 256" using unsigned_less[of g] by simp
  show ?case
  proof (cases gs)
    case Nil
    with Cons.prems g v4_dec[of "unat g" fs "[]"] show ?thesis by (simp add: dotted_def)
  next
    case (Cons h hs)
    have "dotted (g # gs) = dec_string (unat g) @ CHR ''.'' # dotted gs"
      by (simp add: dotted_def Cons)
    moreover have "dotted gs \<noteq> []"
      unfolding dotted_def Cons by (cases hs) simp_all
    ultimately show ?thesis
      using Cons.IH[of "fs @ [g]"] Cons.prems Cons g by (simp add: v4_dec)
  qed
qed simp

lemma ParseIP_dotted: "length fs = 4 \<Longrightarrow> ParseIP (dotted fs) = Some (v4_mapped fs)"
proof -
  assume len: "length fs = 4"
  then obtain a gs where fs: "fs = a # gs" "gs \<noteq> []"
    by (cases fs; cases "tl fs") auto
  obtain b hs where "gs = b # hs" using fs by (cases gs) auto
  with fs have d: "dotted fs = dec_string (unat a) @ CHR ''.'' # dotted gs"
    by (simp add: dotted_def)
  have "find (\<lambda>c. c \<in> {CHR ''.'', CHR '':'', CHR ''%''}) (x @ CHR ''.'' # y) = Some CHR ''.''"
    if "\<forall>c \<in> set x. is_digit c" for x y
    using that by (induction x) (auto simp: is_digit_def)
  with d dec_string_digits have
    "find (\<lambda>c. c \<in> {CHR ''.'', CHR '':'', CHR ''%''}) (dotted fs) = Some CHR ''.''" by simp
  moreover have "v4_fields 0 0 [] (dotted fs) = Some fs"
    using v4_fields_dotted[of "[]" fs] len by force
  ultimately show ?thesis by (simp add: ParseIP_def parseIPv4_def)
qed

text \<open>Conversely, an accepted IPv4 string is the dotted decimal form of its octets.\<close>

lemma v4_fields_dec:
  "v4_fields val dig fs s = Some res \<Longrightarrow> val < 256 \<Longrightarrow> (dig = 0 \<longrightarrow> val = 0) \<Longrightarrow> length fs \<le> 3 \<Longrightarrow>
   (dig = 0 \<longrightarrow> s \<noteq> []) \<Longrightarrow> (1 < dig \<longrightarrow> val \<noteq> 0) \<Longrightarrow>
   \<exists>gs. res = fs @ gs \<and> length res = 4 \<and>
     (if dig = 0 then [] else dec_string val) @ s = dotted gs"
proof (induction val dig fs s rule: v4_fields.induct)
  case (1 val dig fs)
  then have "length fs = 3" "res = fs @ [of_nat val]" by (auto split: if_splits)
  moreover have "unat (of_nat val :: 8 word) = val" using 1(2) by (simp add: unat_of_nat)
  ultimately show ?case using 1(5) by (auto simp: dotted_def intro!: exI[of _ "[of_nat val]"])
next
  case (2 val dig fs c cs)
  show ?case
  proof (cases "is_digit c")
    case True
    define d where "d = (of_char c :: nat) - 48"
    have d: "d < 10" "c = digit_char d"
      using True digit_char_of[OF True] by (auto simp: d_def is_digit_def)
    have g: "\<not> (dig = 1 \<and> val = 0)" "\<not> val * 10 + d > 255"
      and rec: "v4_fields (val * 10 + d) (Suc dig) fs cs = Some res"
      using "2.prems"(1) True by (auto simp: Let_def d_def split: if_splits)
    have pos: "1 < Suc dig \<longrightarrow> val * 10 + d \<noteq> 0" using g(1) "2.prems"(3,6) by auto
    have "\<exists>gs. res = fs @ gs \<and> length res = 4 \<and>
        (if Suc dig = 0 then [] else dec_string (val * 10 + d)) @ cs = dotted gs"
      using "2.IH"(1)[OF True g(1) refl] g(2) rec "2.prems"(4) pos by (simp add: d_def)
    moreover have "dec_string (val * 10 + d) = (if dig = 0 then [] else dec_string val) @ [c]"
    proof (cases "dig = 0")
      case True
      then show ?thesis using "2.prems"(3) d by (simp add: dec_string_digit)
    next
      case False
      then have "0 < val" using g(1) "2.prems"(6) by (cases "dig = 1") auto
      then show ?thesis using False d by (simp add: dec_string_step)
    qed
    ultimately show ?thesis by simp
  next
    case False
    with "2.prems"(1) have c: "c = CHR ''.''" and g: "\<not> (dig = 0 \<or> cs = [] \<or> length fs = 3)"
      and rec: "v4_fields 0 0 (fs @ [of_nat val]) cs = Some res"
      by (auto split: if_splits)
    from "2.IH"(2)[OF False c g rec] g "2.prems"(4) obtain gs where
      gs: "res = (fs @ [of_nat val]) @ gs" "length res = 4" "cs = dotted gs" by auto
    have u: "unat (of_nat val :: 8 word) = val" using "2.prems"(2) by (simp add: unat_of_nat)
    obtain h hs where "gs = h # hs" using gs g by (cases gs) (auto simp: dotted_def)
    then have "dec_string val @ c # cs = dotted (of_nat val # gs)"
      using gs c u by (simp add: dotted_def)
    with gs g show ?thesis by (intro exI[of _ "of_nat val # gs"]) simp
  qed
qed

lemma ParseIP_no_colon:
  assumes "ParseIP s = Some a" and "CHR '':'' \<notin> set s"
  shows "\<exists>fs. length fs = 4 \<and> s = dotted fs \<and> a = v4_mapped fs"
proof -
  obtain c where c: "find (\<lambda>c. c \<in> {CHR ''.'', CHR '':'', CHR ''%''}) s = Some c"
    using assms(1) by (auto simp: ParseIP_def split: option.splits)
  then have "c \<in> set s" unfolding find_Some_iff by (metis nth_mem)
  with assms(2) have "c \<noteq> CHR '':''" by blast
  with c assms(1) obtain fs where fs: "v4_fields 0 0 [] s = Some fs" "a = v4_mapped fs"
    by (auto simp: ParseIP_def parseIPv4_def split: if_splits)
  have "s \<noteq> []" using fs(1) by auto
  then show ?thesis using v4_fields_dec[OF fs(1)] fs(2) by auto
qed

section \<open>Numbers in base 0\<close>

definition digit_val :: "char \<Rightarrow> nat option" where
  "digit_val c =
     (let n = of_char (lower_char c) :: nat
      in if 48 \<le> n \<and> n \<le> 57 then Some (n - 48)
         else if 97 \<le> n \<and> n \<le> 122 then Some (n - 87)
         else None)"

fun parse_digits :: "nat \<Rightarrow> nat \<Rightarrow> string \<Rightarrow> nat option" where
  "parse_digits base n [] = Some n"
| "parse_digits base n (c # cs) =
     (case digit_val c of
        None \<Rightarrow> None
      | Some d \<Rightarrow>
          if d \<ge> base then None
          else let n1 = n * base + d
               in if n1 > 2 ^ 32 - 1 then None else parse_digits base n1 cs)"

text \<open>\<^verbatim>\<open>strconv.ParseUint(s, 0, 32)\<close> on a string without underscores (which base 0 would also allow
  between digits; the callers exclude the byte).\<close>

definition ParseUint0 :: "string \<Rightarrow> nat option" where
  "ParseUint0 s =
     (case s of
        [] \<Rightarrow> None
      | c # t \<Rightarrow>
          if c \<noteq> CHR ''0'' then parse_digits 10 0 s
          else if length s \<ge> 3 \<and> lower_char (hd t) = CHR ''b'' then parse_digits 2 0 (tl t)
          else if length s \<ge> 3 \<and> lower_char (hd t) = CHR ''o'' then parse_digits 8 0 (tl t)
          else if length s \<ge> 3 \<and> lower_char (hd t) = CHR ''x'' then parse_digits 16 0 (tl t)
          else parse_digits 8 0 t)"

lemma parse_digits_bound: "parse_digits base n s = Some m \<Longrightarrow> n < 2 ^ 32 \<Longrightarrow> m < 2 ^ 32"
  by (induction s arbitrary: n) (auto simp: Let_def split: option.splits if_splits)

lemma parse_digits_bound0: "parse_digits base 0 s = Some m \<Longrightarrow> m < 2 ^ 32"
  using parse_digits_bound[of base 0 s m] by simp

lemma ParseUint0_bound: "ParseUint0 s = Some n \<Longrightarrow> n < 2 ^ 32"
  unfolding ParseUint0_def
  by (cases s) (simp_all only: list.case split: if_splits,
      auto dest: parse_digits_bound0 simp del: parse_digits.simps)

lemma digit_val_char: "d < 10 \<Longrightarrow> digit_val (digit_char d) = Some d"
  by (simp add: digit_val_def digit_char_val lower_char_def)

lemma parse_digits_append:
  "parse_digits base n (s @ t) =
     (case parse_digits base n s of None \<Rightarrow> None | Some m \<Rightarrow> parse_digits base m t)"
  by (induction s arbitrary: n) (auto simp: Let_def split: option.splits)

lemma parse_dec_string: "n < 2 ^ 32 \<Longrightarrow> parse_digits 10 0 (dec_string n) = Some n"
proof (induction n rule: dec_string.induct)
  case (1 n)
  show ?case
  proof (cases "n < 10")
    case True
    then show ?thesis by (simp add: dec_string_digit digit_val_char)
  next
    case False
    then have "dec_string n = dec_string (n div 10) @ [digit_char (n mod 10)]"
      by (subst dec_string.simps) simp
    with 1 False show ?thesis
      by (simp add: parse_digits_append digit_val_char)
  qed
qed

lemma hd_dec_string: "0 < n \<Longrightarrow> hd (dec_string n) \<noteq> CHR ''0''"
proof (induction n rule: dec_string.induct)
  case (1 n)
  show ?case
  proof (cases "n < 10")
    case True
    with 1(2) show ?thesis
      using digit_char_val(1)[of n] by (auto simp: dec_string_digit)
  next
    case False
    then have "dec_string n = dec_string (n div 10) @ [digit_char (n mod 10)]"
      by (subst dec_string.simps) simp
    with 1 False show ?thesis by simp
  qed
qed

text \<open>The decimal form of a 32-bit number reads back as the number.\<close>

lemma ParseUint0_dec: "n < 2 ^ 32 \<Longrightarrow> ParseUint0 (dec_string n) = Some n"
proof (cases "n = 0")
  case True
  have "digit_char 0 = CHR ''0''" by (simp add: digit_char_def, code_simp)
  with True show ?thesis by (simp add: dec_string_digit ParseUint0_def)
next
  case False
  assume "n < 2 ^ 32"
  with False hd_dec_string[of n] parse_dec_string[of n] show ?thesis
    by (cases "dec_string n") (auto simp: ParseUint0_def)
qed

end
