(* ===== verification/Url_Guard.thy ===== *)
theory Url_Guard
  imports Net_Addr
begin

unbundle bit_operations_syntax

text \<open>
  The guards against server-side request forgery: which addresses the API server may contact on
  behalf of a stored or user-supplied URL.

  \<^item> \<^verbatim>\<open>server/internal/gateway/internal_url.go\<close>: URLs of the device gateways;
  \<^item> \<^verbatim>\<open>server/internal/services/git_service.go\<close>: repository URLs of the sync flow;
  \<^item> \<^verbatim>\<open>server/internal/safetch/safetch.go\<close>: the hardened HTTP client.

  \<^verbatim>\<open>url.Parse\<close>, \<^verbatim>\<open>net.LookupPort\<close>, the DNS resolver and the dialer are arguments of the functions that
  call them; no theorem assumes anything of them, so the theorems hold for every parser, resolver
  and network.  The reference definition of the address a host denotes is \<open>inet_aton\<close>.
\<close>

section \<open>Gateway URLs\<close>

record URL =
  u_Scheme :: string
  u_Hostname :: string
  u_Port :: string

datatype url_error =
    UrlRequired
  | UrlInvalid
  | UrlNotAbsolute
  | UrlScheme
  | UrlNoHost
  | UrlHostNotAllowed string
  | UrlPort string
  | UrlUnresolved
  | UrlNonPublic ip

definition isBlockedInternalIP :: "ip \<Rightarrow> bool" where
  "isBlockedInternalIP a \<longleftrightarrow>
     IsLinkLocalUnicast a \<or> IsLinkLocalMulticast a \<or> IsInterfaceLocalMulticast a \<or> IsUnspecified a \<or>
     ip_Equal a (IPv4 169 254 169 254)"

definition ipv4_char :: "char \<Rightarrow> bool" where
  "ipv4_char c \<longleftrightarrow>
     (let n = of_char c :: nat
      in 48 \<le> n \<and> n \<le> 57 \<or> c = CHR ''.'' \<or> c = CHR ''x'' \<or> c = CHR ''X'' \<or>
         c = CHR ''o'' \<or> c = CHR ''O'' \<or> c = CHR ''b'' \<or> c = CHR ''B'' \<or>
         97 \<le> n \<and> n \<le> 102 \<or> 65 \<le> n \<and> n \<le> 70)"

definition parse_part :: "string \<Rightarrow> 32 word option" where
  "parse_part p = (if p = [] then None else map_option of_nat (ParseUint0 p))"

fun assemble :: "32 word list \<Rightarrow> 32 word option" where
  "assemble [a] = Some a"
| "assemble [a, b] = (if a > 0xff \<or> b > 0xffffff then None else Some (push_bit 24 a OR b))"
| "assemble [a, b, c] =
     (if a > 0xff \<or> b > 0xff \<or> c > 0xffff then None
      else Some ((push_bit 24 a OR push_bit 16 b) OR c))"
| "assemble [a, b, c, d] =
     (if list_ex (\<lambda>v. v > 0xff) [a, b, c, d] then None
      else Some (((push_bit 24 a OR push_bit 16 b) OR push_bit 8 c) OR d))"
| "assemble _ = Some 0"

definition print_ipv4 :: "32 word \<Rightarrow> string" where
  "print_ipv4 w =
     dotted [ucast (drop_bit 24 w), ucast (drop_bit 16 w), ucast (drop_bit 8 w), ucast w]"

definition canonicalizeInternalIPv4Host :: "string \<Rightarrow> string" where
  "canonicalizeInternalIPv4Host host =
     (if \<not> list_all ipv4_char host then []
      else let parts = split_on (CHR ''.'') host
           in if length parts = 0 \<or> length parts > 4 then []
              else case those (map parse_part parts) of
                None \<Rightarrow> []
              | Some vals \<Rightarrow>
                  (case assemble vals of None \<Rightarrow> [] | Some w \<Rightarrow> print_ipv4 w))"

definition localhost_names :: "string list" where
  "localhost_names = [''localhost'', ''ip6-localhost'', ''ip6-loopback'']"

definition dot_localhost :: string where
  "dot_localhost = ''.localhost''"

definition isBlockedInternalHost :: "string \<Rightarrow> bool" where
  "isBlockedInternalHost host =
     (let lower = to_lower host
      in if lower \<in> set localhost_names then True
         else if has_suffix lower dot_localhost then True
         else if (case ParseIP host of Some a \<Rightarrow> isBlockedInternalIP a | None \<Rightarrow> False) then True
         else
           (let canon = canonicalizeInternalIPv4Host host
            in canon \<noteq> [] \<and>
               (case ParseIP canon of Some a \<Rightarrow> isBlockedInternalIP a | None \<Rightarrow> False)))"

definition ValidateInternalGatewayURL ::
  "(string \<Rightarrow> URL option) \<Rightarrow> (string \<Rightarrow> int option) \<Rightarrow> string \<Rightarrow> url_error + unit" where
  "ValidateInternalGatewayURL url_Parse LookupPort raw =
     (if raw = [] then Inl UrlRequired
      else case url_Parse raw of
        None \<Rightarrow> Inl UrlInvalid
      | Some u \<Rightarrow>
          if u_Scheme u = [] then Inl UrlNotAbsolute
          else if to_lower (u_Scheme u) \<noteq> ''http'' \<and> to_lower (u_Scheme u) \<noteq> ''https'' then Inl UrlScheme
          else if u_Hostname u = [] then Inl UrlNoHost
          else if isBlockedInternalHost (u_Hostname u) then Inl (UrlHostNotAllowed (u_Hostname u))
          else if u_Port u \<noteq> [] then
            (case LookupPort (u_Port u) of
               None \<Rightarrow> Inl (UrlPort (u_Port u))
             | Some p \<Rightarrow> if p \<le> 0 \<or> p > 65535 then Inl (UrlPort (u_Port u)) else Inr ())
          else Inr ())"

section \<open>Repository URLs\<close>

definition isBlockedGitIP :: "ip \<Rightarrow> bool" where
  "isBlockedGitIP a \<longleftrightarrow>
     IsLoopback a \<or> IsLinkLocalUnicast a \<or> IsLinkLocalMulticast a \<or> IsInterfaceLocalMulticast a \<or>
     IsUnspecified a \<or> ip_Equal a (IPv4 169 254 169 254)"

definition canonicalizeIPv4Host :: "string \<Rightarrow> string" where
  "canonicalizeIPv4Host host =
     (if list_ex (\<lambda>c. \<not> ipv4_char c) host then []
      else let parts = split_on (CHR ''.'') host
           in if length parts = 0 \<or> length parts > 4 then []
              else case those (map parse_part parts) of
                None \<Rightarrow> []
              | Some vals \<Rightarrow>
                  (case assemble vals of None \<Rightarrow> [] | Some w \<Rightarrow> print_ipv4 w))"

definition isBlockedGitHost :: "string \<Rightarrow> bool" where
  "isBlockedGitHost host =
     (let lower = to_lower host
      in if lower \<in> set localhost_names then True
         else if has_suffix lower dot_localhost then True
         else case ParseIP host of
           Some a \<Rightarrow> isBlockedGitIP a
         | None \<Rightarrow>
             (let canon = canonicalizeIPv4Host host
              in if canon \<noteq> [] then
                   (case ParseIP canon of Some a \<Rightarrow> isBlockedGitIP a | None \<Rightarrow> False)
                 else False))"

definition isSCPLike :: "string \<Rightarrow> bool" where
  "isSCPLike raw =
     (if contains raw ''://'' then False
      else case index_of raw ''@'' of
        None \<Rightarrow> False
      | Some at \<Rightarrow>
          (case index_of (drop (Suc at) raw) '':'' of None \<Rightarrow> False | Some colon \<Rightarrow> colon > 0))"

definition scpHost :: "string \<Rightarrow> string" where
  "scpHost raw =
     (case index_of raw ''@'' of
        None \<Rightarrow> []
      | Some at \<Rightarrow>
          let rest = drop (Suc at) raw
          in case index_of rest '':'' of None \<Rightarrow> [] | Some colon \<Rightarrow> take colon rest)"

definition ValidateExternalRepoURL :: "(string \<Rightarrow> URL option) \<Rightarrow> string \<Rightarrow> url_error + unit" where
  "ValidateExternalRepoURL url_Parse raw =
     (if raw = [] then Inl UrlRequired
      else if isSCPLike raw then
        (let host = scpHost raw
         in if host = [] then Inl UrlNoHost
            else if isBlockedGitHost host then Inl (UrlHostNotAllowed host)
            else Inr ())
      else case url_Parse raw of
        None \<Rightarrow> Inl UrlInvalid
      | Some u \<Rightarrow>
          if u_Scheme u = [] then Inl UrlNotAbsolute
          else if to_lower (u_Scheme u) \<notin> {''http'', ''https'', ''git'', ''ssh''} then Inl UrlScheme
          else if u_Hostname u = [] then Inl UrlNoHost
          else if isBlockedGitHost (u_Hostname u) then Inl (UrlHostNotAllowed (u_Hostname u))
          else Inr ())"

section \<open>The hardened client\<close>

definition IsPublicIP :: "ip \<Rightarrow> bool" where
  "IsPublicIP a =
     (if a = [] then False
      else if IsLoopback a \<or> IsLinkLocalUnicast a \<or> IsLinkLocalMulticast a \<or>
              IsInterfaceLocalMulticast a \<or> IsPrivate a \<or> IsUnspecified a then False
      else True)"

definition isBlockedHostLiteral :: "string \<Rightarrow> bool" where
  "isBlockedHostLiteral host =
     (let lower = to_lower host
      in if lower \<in> set localhost_names then True
         else if has_suffix lower dot_localhost then True
         else case ParseIP host of Some a \<Rightarrow> \<not> IsPublicIP a | None \<Rightarrow> False)"

definition ValidateURL ::
  "(string \<Rightarrow> URL option) \<Rightarrow> (string \<Rightarrow> ip list option) \<Rightarrow> string \<Rightarrow> url_error + unit" where
  "ValidateURL url_Parse LookupIP raw =
     (if raw = [] then Inl UrlRequired
      else case url_Parse raw of
        None \<Rightarrow> Inl UrlInvalid
      | Some u \<Rightarrow>
          if u_Scheme u = [] then Inl UrlNotAbsolute
          else if to_lower (u_Scheme u) \<noteq> ''http'' \<and> to_lower (u_Scheme u) \<noteq> ''https'' then Inl UrlScheme
          else if u_Hostname u = [] then Inl UrlNoHost
          else if isBlockedHostLiteral (u_Hostname u) then Inl (UrlHostNotAllowed (u_Hostname u))
          else case LookupIP (u_Hostname u) of
            None \<Rightarrow> Inl UrlUnresolved
          | Some ips \<Rightarrow>
              (case find (\<lambda>a. \<not> IsPublicIP a) ips of
                 Some a \<Rightarrow> Inl (UrlNonPublic a)
               | None \<Rightarrow> Inr ()))"

record Options =
  opt_Timeout :: int
  opt_MaxRedirects :: int

definition effective_options :: "Options \<Rightarrow> Options" where
  "effective_options opts =
     \<lparr>opt_Timeout = (if opt_Timeout opts = 0 then 30000000000 else opt_Timeout opts),
      opt_MaxRedirects = (if opt_MaxRedirects opts = 0 then 3 else opt_MaxRedirects opts)\<rparr>"

datatype 'e dial_error =
    BadAddress
  | CannotResolve
  | DialBlocked ip
  | NoReachable
  | DialFailed 'e

text \<open>The dialing loop, with the list of the addresses it tries.\<close>

fun dial_loop :: "(ip \<Rightarrow> 'e + 'c) \<Rightarrow> 'e dial_error \<Rightarrow> ip list \<Rightarrow> ('e dial_error + 'c) \<times> ip list" where
  "dial_loop dial lastErr [] = (Inl lastErr, [])"
| "dial_loop dial lastErr (a # rest) =
     (case dial a of
        Inr conn \<Rightarrow> (Inr conn, [a])
      | Inl e \<Rightarrow> (case dial_loop dial (DialFailed e) rest of (res, tried) \<Rightarrow> (res, a # tried)))"

definition DialContext ::
  "(string \<Rightarrow> (string \<times> string) option) \<Rightarrow> (string \<Rightarrow> ip list option) \<Rightarrow>
   (string \<Rightarrow> ip \<Rightarrow> 'e + 'c) \<Rightarrow> string \<Rightarrow> ('e dial_error + 'c) \<times> ip list" where
  "DialContext SplitHostPort LookupIPAddr dial addr =
     (case SplitHostPort addr of
        None \<Rightarrow> (Inl BadAddress, [])
      | Some (host, port) \<Rightarrow>
          (case LookupIPAddr host of
             None \<Rightarrow> (Inl CannotResolve, [])
           | Some ips \<Rightarrow>
               (case find (\<lambda>a. \<not> IsPublicIP a) ips of
                  Some a \<Rightarrow> (Inl (DialBlocked a), [])
                | None \<Rightarrow> dial_loop (dial port) NoReachable ips)))"

datatype redirect_verdict = UseLastResponse | TooManyRedirects | RedirectRefused url_error | FollowRedirect

definition CheckRedirect ::
  "Options \<Rightarrow> (string \<Rightarrow> url_error + unit) \<Rightarrow> string list \<Rightarrow> string \<Rightarrow> redirect_verdict" where
  "CheckRedirect opts validate via target =
     (let maxRedirects = opt_MaxRedirects (effective_options opts)
      in if maxRedirects < 0 then UseLastResponse
         else if int (length via) \<ge> maxRedirects then TooManyRedirects
         else case validate target of Inl e \<Rightarrow> RedirectRefused e | Inr _ \<Rightarrow> FollowRedirect)"

text \<open>The requests an \<^verbatim>\<open>http.Client\<close> makes when the servers answer with the given redirect targets:
  \<open>via\<close> are the requests made so far, the first one included, as the client passes them to
  \<^verbatim>\<open>CheckRedirect\<close>.\<close>

fun follow :: "(string list \<Rightarrow> string \<Rightarrow> redirect_verdict) \<Rightarrow> string list \<Rightarrow> string list \<Rightarrow> string list" where
  "follow chk via [] = via"
| "follow chk via (t # ts) = (if chk via t = FollowRedirect then follow chk (via @ [t]) ts else via)"

section \<open>The address a host denotes\<close>

text \<open>The reference: the parts are numbers in base 0; all but the last are one byte each and the last
  fills the remaining bytes.\<close>

definition aton_value :: "nat list \<Rightarrow> nat option" where
  "aton_value vs =
     (let k = 5 - length vs
      in if vs \<noteq> [] \<and> length vs \<le> 4 \<and> (\<forall>v \<in> set (butlast vs). v < 256) \<and> last vs < 256 ^ k
         then Some (foldl (\<lambda>a v. a * 256 + v) 0 (butlast vs) * 256 ^ k + last vs)
         else None)"

definition inet_aton :: "string \<Rightarrow> nat option" where
  "inet_aton host =
     (if list_all ipv4_char host
      then Option.bind (those (map ParseUint0 (split_on (CHR ''.'') host))) aton_value
      else None)"

definition octets :: "nat \<Rightarrow> 8 word list" where
  "octets n = map of_nat [n div 2 ^ 24, n div 2 ^ 16 mod 256, n div 2 ^ 8 mod 256, n mod 256]"

lemma or_push_nat: "b < 2 ^ k \<Longrightarrow> push_bit k a OR b = a * 2 ^ k + (b :: nat)"
proof -
  assume "b < 2 ^ k"
  then have "take_bit k b = b" by (simp add: take_bit_nat_eq_self)
  then have hi: "\<not> bit b n" if "k \<le> n" for n
    using that by (metis bit_take_bit_iff leD)
  have "\<not> bit (push_bit k a) n \<or> \<not> bit b n" for n
    using hi[of n] by (cases "k \<le> n") (simp_all add: bit_push_bit_iff)
  then have "push_bit k a + b = push_bit k a OR b" by (rule disjunctive_add)
  then show ?thesis by (simp add: push_bit_eq_mult)
qed

lemma or_shift_word:
  "b < 2 ^ k \<Longrightarrow> push_bit k (of_nat a) OR of_nat b = (of_nat (a * 2 ^ k + b) :: 32 word)"
  by (simp only: or_push_nat[symmetric] of_nat_or_eq push_bit_of_nat)

lemma or_shift_push:
  "b < 2 ^ k \<Longrightarrow> push_bit (m + k) (of_nat a) OR push_bit m (of_nat b) =
     push_bit m (of_nat (a * 2 ^ k + b) :: 32 word)"
  using or_shift_word[of b k a] by (metis push_bit_or push_bit_push_bit)

lemma of_nat_gt:
  "v < 2 ^ 32 \<Longrightarrow> m < 2 ^ 32 \<Longrightarrow> (of_nat v :: 32 word) > of_nat m \<longleftrightarrow> v > m"
  by (simp add: word_less_nat_alt unat_of_nat)

lemma assemble_value:
  assumes "\<forall>v \<in> set vs. v < 2 ^ 32" and "vs \<noteq> []" and "length vs \<le> 4"
  shows "assemble (map of_nat vs) = map_option of_nat (aton_value vs)"
proof -
  have gt: "(0xff :: 32 word) < of_nat v \<longleftrightarrow> \<not> v < 256" "(0xffff :: 32 word) < of_nat v \<longleftrightarrow> \<not> v < 65536"
    "(0xffffff :: 32 word) < of_nat v \<longleftrightarrow> \<not> v < 16777216" if "v \<in> set vs" for v
    using assms(1) that of_nat_gt[of v 255] of_nat_gt[of v 65535] of_nat_gt[of v 16777215] by auto
  consider (1) a where "vs = [a]" | (2) a b where "vs = [a, b]" | (3) a b c where "vs = [a, b, c]"
    | (4) a b c d where "vs = [a, b, c, d]"
    using assms(2,3) by (cases vs; cases "tl vs"; cases "tl (tl vs)"; cases "tl (tl (tl vs))") auto
  then show ?thesis
  proof cases
    case 1
    with assms(1) show ?thesis by (simp add: aton_value_def)
  next
    case 2
    then show ?thesis
      using gt or_shift_word[of b 24 a] by (auto simp: aton_value_def)
  next
    case 3
    then show ?thesis
      using gt or_shift_push[of b 8 16 a] or_shift_word[of c 16 "a * 256 + b"]
      by (auto simp: aton_value_def)
  next
    case 4
    then show ?thesis
      using gt or_shift_push[of b 8 16 a] or_shift_push[of c 8 8 "a * 256 + b"]
        or_shift_word[of d 8 "(a * 256 + b) * 256 + c"]
      by (auto simp: aton_value_def)
  qed
qed

lemma aton_value_bound: "aton_value vs = Some n \<Longrightarrow> n < 2 ^ 32"
proof -
  assume a: "aton_value vs = Some n"
  then have ne: "vs \<noteq> []" "length vs \<le> 4" by (auto simp: aton_value_def Let_def split: if_splits)
  consider (1) a where "vs = [a]" | (2) a b where "vs = [a, b]" | (3) a b c where "vs = [a, b, c]"
    | (4) a b c d where "vs = [a, b, c, d]"
    using ne by (cases vs; cases "tl vs"; cases "tl (tl vs)"; cases "tl (tl (tl vs))") auto
  then show ?thesis
    using a by cases (auto simp: aton_value_def split: if_splits)
qed

lemma print_ipv4_of_nat: "n < 2 ^ 32 \<Longrightarrow> print_ipv4 (of_nat n) = dotted (octets n)"
proof -
  assume n: "n < 2 ^ 32"
  then have u: "unat (of_nat n :: 32 word) = n" by (simp add: unat_of_nat)
  have b: "(of_nat (m mod 256) :: 8 word) = of_nat m" for m
    by (rule word_unat_eq_iff[THEN iffD2]) (simp add: unat_of_nat)
  have "ucast (drop_bit k (of_nat n :: 32 word)) = (of_nat (n div 2 ^ k) :: 8 word)" for k
    using u by (metis drop_bit_eq_div of_nat_unat unat_drop_bit_eq)
  moreover have "ucast (of_nat n :: 32 word) = (of_nat n :: 8 word)"
    using u by (metis of_nat_unat)
  ultimately show ?thesis by (simp add: print_ipv4_def octets_def b)
qed

lemma those_map_option: "those (map (\<lambda>x. map_option f (g x)) xs) = map_option (map f) (those (map g xs))"
  by (induction xs) (auto simp: option.map_comp comp_def split: option.split)

lemma those_length: "those xs = Some ys \<Longrightarrow> length ys = length xs"
  by (induction xs arbitrary: ys) (auto split: option.splits)

lemma those_elem: "those xs = Some ys \<Longrightarrow> y \<in> set ys \<Longrightarrow> Some y \<in> set xs"
  by (induction xs arbitrary: ys) (auto split: option.splits)

lemma parse_part_alt: "parse_part p = map_option of_nat (ParseUint0 p)"
  by (simp add: parse_part_def ParseUint0_def)

lemma canonicalize_aton:
  "canonicalizeInternalIPv4Host host =
     (case inet_aton host of None \<Rightarrow> [] | Some n \<Rightarrow> dotted (octets n))"
proof (cases "list_all ipv4_char host")
  case True
  let ?ps = "split_on (CHR ''.'') host"
  show ?thesis
  proof (cases "those (map ParseUint0 ?ps)")
    case None
    then show ?thesis
      using True by (simp add: canonicalizeInternalIPv4Host_def inet_aton_def parse_part_alt[abs_def]
          those_map_option Let_def)
  next
    case (Some vs)
    have "v < 2 ^ 32" if v: "v \<in> set vs" for v
    proof -
      obtain x where "ParseUint0 x = Some v" using those_elem[OF Some v] by (metis imageE set_map)
      then show ?thesis by (rule ParseUint0_bound)
    qed
    then have vs: "\<forall>v \<in> set vs. v < 2 ^ 32" "length vs = length ?ps"
      using those_length[OF Some] by simp_all
    then have ne: "vs \<noteq> []" by (metis length_0_conv split_on_ne)
    show ?thesis
    proof (cases "length vs \<le> 4")
      case False
      then have "aton_value vs = None" by (simp add: aton_value_def Let_def)
      with False True Some vs(2) show ?thesis
        by (simp add: canonicalizeInternalIPv4Host_def inet_aton_def Let_def)
    next
      case len: True
      have "canonicalizeInternalIPv4Host host =
          (case assemble (map of_nat vs) of None \<Rightarrow> [] | Some w \<Rightarrow> print_ipv4 w)"
        using True Some len vs(2)
        by (simp add: canonicalizeInternalIPv4Host_def parse_part_alt[abs_def] those_map_option Let_def)
      with assemble_value[OF vs(1) ne len] True Some show ?thesis
        by (cases "aton_value vs")
           (auto simp: inet_aton_def print_ipv4_of_nat dest: aton_value_bound)
    qed
  qed
next
  case False
  then show ?thesis by (simp add: canonicalizeInternalIPv4Host_def inet_aton_def)
qed

lemma canonicalize_copies: "canonicalizeIPv4Host = canonicalizeInternalIPv4Host"
proof
  fix host
  have "list_ex (\<lambda>c. \<not> ipv4_char c) host \<longleftrightarrow> \<not> list_all ipv4_char host"
    by (induction host) auto
  then show "canonicalizeIPv4Host host = canonicalizeInternalIPv4Host host"
    by (simp only: canonicalizeIPv4Host_def canonicalizeInternalIPv4Host_def)
qed

section \<open>Hosts that denote IPv4 addresses\<close>

definition fields_value :: "8 word list \<Rightarrow> nat" where
  "fields_value fs = foldl (\<lambda>a b. a * 256 + unat b) 0 fs"

lemma digit_ipv4_char: "is_digit c \<Longrightarrow> ipv4_char c"
  by (simp add: ipv4_char_def is_digit_def Let_def)

lemma dot_ipv4_char: "ipv4_char CHR ''.''"
  by (simp add: ipv4_char_def)

lemma dotted_4: "dotted [a, b, c, d] = dec_string (unat a) @ CHR ''.'' # dec_string (unat b) @
    CHR ''.'' # dec_string (unat c) @ CHR ''.'' # dec_string (unat d)"
  by (simp add: dotted_def)

lemma dot_notin_dec: "CHR ''.'' \<notin> set (dec_string n)"
  using dec_string_digits[of n] dot_no_digit by blast

lemma unat_8_lt: "unat (a :: 8 word) < 256"
  using unsigned_less[of a] by simp

lemma inet_aton_dotted:
  "inet_aton (dotted [a, b, c, d]) = Some (fields_value [a, b, c, d])"
proof -
  have "list_all ipv4_char (dec_string n)" for n
    using dec_string_digits[of n] digit_ipv4_char by (auto simp: list_all_iff)
  then have chars: "list_all ipv4_char (dotted [a, b, c, d])"
    by (simp add: dotted_4 dot_ipv4_char)
  have parts: "split_on (CHR ''.'') (dotted [a, b, c, d]) =
      [dec_string (unat a), dec_string (unat b), dec_string (unat c), dec_string (unat d)]"
    unfolding dotted_4 by (simp add: split_on_append split_on_fixed dot_notin_dec)
  have num: "ParseUint0 (dec_string (unat x)) = Some (unat x)" for x :: "8 word"
    using unat_8_lt[of x] by (simp add: ParseUint0_dec)
  show ?thesis
    using unat_8_lt
    by (simp add: inet_aton_def chars parts num aton_value_def fields_value_def)
qed

lemma octets_fields: "octets (fields_value [a, b, c, d]) = [a, b, c, d]"
proof -
  let ?n = "fields_value [a, b, c, d]"
  have lt: "unat a < 256" "unat b < 256" "unat c < 256" "unat d < 256" by (rule unat_8_lt)+
  have n: "?n = ((unat a * 256 + unat b) * 256 + unat c) * 256 + unat d"
    by (simp add: fields_value_def)
  have s: "(x * 256 + y) div 256 = x" "(x * 256 + y) mod 256 = y" if "y < 256" for x y :: nat
    using that by simp_all
  have 1: "?n div 256 = (unat a * 256 + unat b) * 256 + unat c" "?n mod 256 = unat d"
    unfolding n by (rule s[OF lt(4)])+
  have 2: "?n div 2 ^ 16 = unat a * 256 + unat b"
    using s(1)[OF lt(3), of "unat a * 256 + unat b"] div_mult2_eq[of ?n 256 256] 1(1) by simp
  then have 3: "?n div 2 ^ 24 = unat a"
    using s(1)[OF lt(2), of "unat a"] div_mult2_eq[of ?n 65536 256] by simp
  have "?n div 2 ^ 8 mod 256 = unat c"
    using 1(1) s(2)[OF lt(3), of "unat a * 256 + unat b"] by simp
  moreover have "?n div 2 ^ 16 mod 256 = unat b" unfolding 2 by (rule s(2)[OF lt(2)])
  moreover note 1(2) 3
  ultimately have "?n div 2 ^ 24 = unat a" "?n div 2 ^ 16 mod 256 = unat b"
    "?n div 2 ^ 8 mod 256 = unat c" "?n mod 256 = unat d" by blast+
  then show ?thesis by (simp add: octets_def)
qed

lemma octets_length [simp]: "length (octets n) = 4"
  by (simp add: octets_def)

lemma dotted_octets_ne: "dotted (octets n) \<noteq> []"
  by (simp add: dotted_def octets_def)

lemma ParseIP_aton:
  assumes "inet_aton host = Some n"
  shows "ParseIP (dotted (octets n)) = Some (v4_mapped (octets n))"
    and "ParseIP host = None \<or> ParseIP host = Some (v4_mapped (octets n))"
proof -
  show "ParseIP (dotted (octets n)) = Some (v4_mapped (octets n))" by (simp add: ParseIP_dotted)
  show "ParseIP host = None \<or> ParseIP host = Some (v4_mapped (octets n))"
  proof (cases "ParseIP host")
    case (Some x)
    have "list_all ipv4_char host" using assms by (auto simp: inet_aton_def split: if_splits)
    moreover have "\<not> ipv4_char CHR '':''" by (simp add: ipv4_char_def)
    ultimately have "CHR '':'' \<notin> set host" by (auto simp: list_all_iff)
    from ParseIP_no_colon[OF Some this] obtain fs where
      fs: "length fs = 4" "host = dotted fs" "x = v4_mapped fs" by blast
    then obtain a b c d where "fs = [a, b, c, d]"
      by (auto simp: numeral_eq_Suc length_Suc_conv)
    with fs assms inet_aton_dotted octets_fields have "octets n = fs" by (metis option.inject)
    with fs Some show ?thesis by simp
  qed simp
qed

lemma aton_no_alias:
  assumes "inet_aton host = Some n"
  shows "to_lower host \<notin> set localhost_names" and "\<not> has_suffix (to_lower host) dot_localhost"
proof -
  have all: "list_all ipv4_char host" using assms by (auto simp: inet_aton_def split: if_splits)
  have "lower_char c \<noteq> CHR ''l''" if "ipv4_char c" for c
  proof
    assume "lower_char c = CHR ''l''"
    then have "(of_char (lower_char c) :: nat) = 108" by simp
    then have "(of_char c :: nat) = 108 \<or> (of_char c :: nat) = 76"
      by (auto simp: lower_char_def Let_def split: if_splits)
    with that show False by (auto simp: ipv4_char_def Let_def)
  qed
  then have no_l: "CHR ''l'' \<notin> set (to_lower host)"
    using all by (simp add: to_lower_def list_all_iff image_iff) metis
  then show "to_lower host \<notin> set localhost_names" by (auto simp: localhost_names_def)
  show "\<not> has_suffix (to_lower host) dot_localhost"
    using no_l by (auto simp: has_suffix_iff dot_localhost_def)
qed

text \<open>The two guards on a host that denotes an address look at that address only.\<close>

lemma isBlockedInternalHost_aton:
  assumes "inet_aton host = Some n"
  shows "isBlockedInternalHost host = isBlockedInternalIP (v4_mapped (octets n))"
  using ParseIP_aton[OF assms] aton_no_alias[OF assms]
    canonicalize_aton[of host] dotted_octets_ne[of n] assms
  by (auto simp: isBlockedInternalHost_def Let_def)

lemma isBlockedGitHost_aton:
  assumes "inet_aton host = Some n"
  shows "isBlockedGitHost host = isBlockedGitIP (v4_mapped (octets n))"
  using ParseIP_aton[OF assms] aton_no_alias[OF assms]
    canonicalize_aton[of host] dotted_octets_ne[of n] assms
  by (auto simp: isBlockedGitHost_def canonicalize_copies Let_def)

lemma inet_aton_bound: "inet_aton host = Some n \<Longrightarrow> n < 2 ^ 32"
  by (auto simp: inet_aton_def bind_eq_Some_conv dest: aton_value_bound split: if_splits)

text \<open>The address classes of an IPv4 address, as ranges of its 32-bit value.\<close>

lemma octet_eq: "k < 256 \<Longrightarrow> v < 256 \<Longrightarrow> (of_nat v :: 8 word) = of_nat k \<longleftrightarrow> v = k"
  by (simp add: word_unat_eq_iff unat_of_nat)

lemma octet_literals:
  assumes "v < 256"
  shows "(of_nat v :: 8 word) = 127 \<longleftrightarrow> v = 127" "(of_nat v :: 8 word) = 169 \<longleftrightarrow> v = 169"
    "(of_nat v :: 8 word) = 254 \<longleftrightarrow> v = 254" "(of_nat v :: 8 word) = 224 \<longleftrightarrow> v = 224"
    "(of_nat v :: 8 word) = 0 \<longleftrightarrow> v = 0"
  using assms octet_eq[of 127 v] octet_eq[of 169 v] octet_eq[of 254 v] octet_eq[of 224 v]
    octet_eq[of 0 v] by simp_all

lemma pos256:
  fixes b e :: nat
  assumes "b < 256" and "e < 256"
  shows "a * 256 + b = c * 256 + e \<longleftrightarrow> a = c \<and> b = e"
proof
  assume eq: "a * 256 + b = c * 256 + e"
  then have "(a * 256 + b) mod 256 = (c * 256 + e) mod 256" by (rule arg_cong)
  with assms have "b = e" by simp
  with eq show "a = c \<and> b = e" by simp
qed simp

lemma octet_split:
  fixes n :: nat
  obtains a b c d where "n div 2 ^ 24 = a" "n div 2 ^ 16 mod 256 = b" "n div 2 ^ 8 mod 256 = c"
    "n mod 256 = d" "n div 2 ^ 16 = a * 256 + b" "n div 2 ^ 8 = (a * 256 + b) * 256 + c"
    "n = ((a * 256 + b) * 256 + c) * 256 + d" "b < 256" "c < 256" "d < 256"
proof
  have 8: "n = n div 2 ^ 8 * 256 + n mod 256" by simp
  have "n div 2 ^ 8 = n div 2 ^ 8 div 256 * 256 + n div 2 ^ 8 mod 256" by simp
  then have 16: "n div 2 ^ 8 = n div 2 ^ 16 * 256 + n div 2 ^ 8 mod 256"
    by (simp add: div_mult2_eq[symmetric])
  have "n div 2 ^ 16 = n div 2 ^ 16 div 256 * 256 + n div 2 ^ 16 mod 256" by simp
  then show 24: "n div 2 ^ 16 = n div 2 ^ 24 * 256 + n div 2 ^ 16 mod 256"
    by (simp add: div_mult2_eq[symmetric])
  show "n div 2 ^ 8 = (n div 2 ^ 24 * 256 + n div 2 ^ 16 mod 256) * 256 + n div 2 ^ 8 mod 256"
    using 16 unfolding 24[symmetric] .
  then show "n = ((n div 2 ^ 24 * 256 + n div 2 ^ 16 mod 256) * 256 + n div 2 ^ 8 mod 256) * 256 + n mod 256"
    using 8 by (metis 16 24)
qed simp_all

lemma zero_neq_numeral_8: "(0xff :: 8 word) \<noteq> 0"
  by simp

lemma v4_classes:
  assumes n: "n < 2 ^ 32"
  shows "IsLinkLocalUnicast (v4_mapped (octets n)) \<longleftrightarrow> n div 2 ^ 16 = 0xA9FE"
    and "IsLinkLocalMulticast (v4_mapped (octets n)) \<longleftrightarrow> n div 2 ^ 8 = 0xE00000"
    and "\<not> IsInterfaceLocalMulticast (v4_mapped (octets n))"
    and "IsUnspecified (v4_mapped (octets n)) \<longleftrightarrow> n = 0"
    and "IsLoopback (v4_mapped (octets n)) \<longleftrightarrow> n div 2 ^ 24 = 127"
    and "ip_Equal (v4_mapped (octets n)) (IPv4 169 254 169 254) \<longrightarrow> n div 2 ^ 16 = 0xA9FE"
proof -
  obtain a b c d where s: "n div 2 ^ 24 = a" "n div 2 ^ 16 mod 256 = b" "n div 2 ^ 8 mod 256 = c"
    "n mod 256 = d" "n div 2 ^ 16 = a * 256 + b" "n div 2 ^ 8 = (a * 256 + b) * 256 + c"
    "n = ((a * 256 + b) * 256 + c) * 256 + d" "b < 256" "c < 256" "d < 256"
    by (rule octet_split)
  have a: "a < 256" using n s(1) by auto
  have o: "octets n = [of_nat a, of_nat b, of_nat c, of_nat d]" using s(1-4) by (simp add: octets_def)
  note l = octet_literals[OF a] octet_literals[OF s(8)] octet_literals[OF s(9)] octet_literals[OF s(10)]
  show "IsLinkLocalUnicast (v4_mapped (octets n)) \<longleftrightarrow> n div 2 ^ 16 = 0xA9FE"
    using pos256[OF s(8), of 254 a 169] unfolding IsLinkLocalUnicast_def s(5) by (simp add: o l)
  show "IsLinkLocalMulticast (v4_mapped (octets n)) \<longleftrightarrow> n div 2 ^ 8 = 0xE00000"
    using pos256[OF s(9), of 0 "a * 256 + b" "224 * 256"] pos256[OF s(8), of 0 a 224]
    unfolding IsLinkLocalMulticast_def s(6) by (simp add: o l)
  show "\<not> IsInterfaceLocalMulticast (v4_mapped (octets n))"
    by (simp add: IsInterfaceLocalMulticast_def v4_mapped_def nth_append)
  have "v4_mapped x ! 10 = 0xff" "replicate 16 (0 :: 8 word) ! 10 = 0" for x
    by (simp_all add: v4_mapped_def nth_append)
  then have "v4_mapped x \<noteq> replicate 16 0" for x by (metis zero_neq_numeral_8)
  moreover have "n = 0 \<longleftrightarrow> a = 0 \<and> b = 0 \<and> c = 0 \<and> d = 0" using s(7) by simp
  ultimately show "IsUnspecified (v4_mapped (octets n)) \<longleftrightarrow> n = 0"
    unfolding IsUnspecified_iff by (simp add: o l)
  show "IsLoopback (v4_mapped (octets n)) \<longleftrightarrow> n div 2 ^ 24 = 127"
    unfolding IsLoopback_def s(1) by (simp add: o l)
  show "ip_Equal (v4_mapped (octets n)) (IPv4 169 254 169 254) \<longrightarrow> n div 2 ^ 16 = 0xA9FE"
    unfolding IPv4_def s(5) by (simp add: o l ip_Equal_To4)
qed

section \<open>The guarantees\<close>

text \<open>
  C4. The canonical form of a gateway host is the dotted decimal form of the 32-bit address the
  host denotes under the \<^verbatim>\<open>inet_aton\<close> rules (one to four numbers in decimal, octal, hexadecimal or
  binary, the last one filling the remaining bytes), and the empty string exactly when it denotes none.
\<close>

theorem canonicalizeInternalIPv4Host_correct:
  "canonicalizeInternalIPv4Host host =
     (case inet_aton host of None \<Rightarrow> [] | Some n \<Rightarrow> dotted (octets n))"
  by (rule canonicalize_aton)

text \<open>
  A host that denotes an IPv4 address in any of the \<^verbatim>\<open>inet_aton\<close> forms is refused as a gateway host
  exactly when the address is link-local (169.254.0.0/16, which includes the cloud metadata
  service), link-local multicast (224.0.0.0/24) or 0.0.0.0; loopback and private addresses stay
  allowed, in every form.
\<close>

theorem isBlockedInternalHost_ipv4:
  assumes "inet_aton host = Some n"
  shows "isBlockedInternalHost host \<longleftrightarrow> n div 2 ^ 16 = 0xA9FE \<or> n div 2 ^ 8 = 0xE00000 \<or> n = 0"
  using v4_classes[OF inet_aton_bound[OF assms]]
  by (auto simp: isBlockedInternalHost_aton[OF assms] isBlockedInternalIP_def)

theorem isBlockedInternalHost_ipv4_witness:
  "inet_aton ''0xa9.0xfe.43518'' = Some 0xA9FEA9FE \<and> isBlockedInternalHost ''0xa9.0xfe.43518''"
proof -
  have "inet_aton ''0xa9.0xfe.43518'' = Some 0xA9FEA9FE"
    by (simp add: inet_aton_def ipv4_char_def ParseUint0_def digit_val_def lower_char_def aton_value_def)
  then show ?thesis using isBlockedInternalHost_ipv4[of "''0xa9.0xfe.43518''" "0xA9FEA9FE"] by simp
qed

text \<open>
  A repository URL that passes validation, whether in the form \<^verbatim>\<open>user@host:path\<close> or as an absolute
  URL and for every URL parser, has a non-empty host that is none of the localhost aliases and no
  encoding of a loopback, link-local, link-local multicast or unspecified IPv4 address; an absolute
  one has the scheme http, https, git or ssh.
\<close>

theorem ValidateExternalRepoURL_safe:
  assumes "ValidateExternalRepoURL url_Parse raw = Inr ()"
  shows "\<exists>host. (if isSCPLike raw then host = scpHost raw
      else \<exists>u. url_Parse raw = Some u \<and> host = u_Hostname u \<and>
             to_lower (u_Scheme u) \<in> {''http'', ''https'', ''git'', ''ssh''}) \<and>
    host \<noteq> [] \<and> to_lower host \<notin> set localhost_names \<and> \<not> has_suffix (to_lower host) dot_localhost \<and>
    (\<forall>n. inet_aton host = Some n \<longrightarrow>
       n div 2 ^ 24 \<noteq> 127 \<and> n div 2 ^ 16 \<noteq> 0xA9FE \<and> n div 2 ^ 8 \<noteq> 0xE00000 \<and> n \<noteq> 0)"
proof -
  define host where "host = (if isSCPLike raw then scpHost raw else u_Hostname (the (url_Parse raw)))"
  have ok: "host \<noteq> []" "\<not> isBlockedGitHost host"
    and form: "if isSCPLike raw then host = scpHost raw
      else \<exists>u. url_Parse raw = Some u \<and> host = u_Hostname u \<and>
             to_lower (u_Scheme u) \<in> {''http'', ''https'', ''git'', ''ssh''}"
    using assms unfolding ValidateExternalRepoURL_def host_def
    by (auto simp: Let_def split: if_splits option.splits)
  have names: "to_lower host \<notin> set localhost_names" "\<not> has_suffix (to_lower host) dot_localhost"
    using ok(2) unfolding isBlockedGitHost_def Let_def by (simp_all split: if_split_asm)
  have addr: "n div 2 ^ 24 \<noteq> 127 \<and> n div 2 ^ 16 \<noteq> 0xA9FE \<and> n div 2 ^ 8 \<noteq> 0xE00000 \<and> n \<noteq> 0"
    if "inet_aton host = Some n" for n
    using ok(2) v4_classes[OF inet_aton_bound[OF that]]
    by (auto simp: isBlockedGitHost_aton[OF that] isBlockedGitIP_def)
  show ?thesis
    by (rule exI[of _ host]) (use form ok(1) names addr in blast)
qed

theorem ValidateExternalRepoURL_safe_witness:
  "ValidateExternalRepoURL (\<lambda>_. None) ''git@git.acme.io:a/b'' = Inr () \<and>
   to_lower (scpHost ''git@git.acme.io:a/b'') \<notin> set localhost_names"
proof -
  have v: "ValidateExternalRepoURL (\<lambda>_. None) ''git@git.acme.io:a/b'' = Inr ()" by code_simp
  have s: "isSCPLike ''git@git.acme.io:a/b''" by code_simp
  show ?thesis using ValidateExternalRepoURL_safe[OF v] v s by auto
qed

text \<open>
  The alias check compares the host as written, so the fully qualified form \<^verbatim>\<open>localhost.\<close>, which
  resolvers treat as the same name, passes: a repository URL on it is accepted.
\<close>

theorem ValidateExternalRepoURL_trailing_dot:
  "ValidateExternalRepoURL url_Parse ''git@localhost.:a/b'' = Inr () \<and>
   ValidateExternalRepoURL url_Parse ''git@localhost:a/b'' = Inl (UrlHostNotAllowed ''localhost'')"
proof -
  have "isSCPLike ''git@localhost.:a/b''" "scpHost ''git@localhost.:a/b'' = ''localhost.''"
    "\<not> isBlockedGitHost ''localhost.''" "isSCPLike ''git@localhost:a/b''"
    "scpHost ''git@localhost:a/b'' = ''localhost''" "isBlockedGitHost ''localhost''"
    by code_simp+
  then show ?thesis by (simp add: ValidateExternalRepoURL_def Let_def)
qed

lemma dial_loop_tried:
  "dial_loop dial e ips = (res, tried) \<Longrightarrow>
   (\<exists>rest. ips = tried @ rest) \<and>
   (case res of
      Inr c \<Rightarrow> tried \<noteq> [] \<and> dial (last tried) = Inr c \<and> (\<forall>a \<in> set (butlast tried). \<exists>e. dial a = Inl e)
    | Inl e' \<Rightarrow> tried = ips \<and> (\<forall>a \<in> set ips. \<exists>e. dial a = Inl e))"
proof (induction ips arbitrary: e res tried)
  case (Cons a ips)
  show ?case
  proof (cases "dial a")
    case (Inr c)
    with Cons.prems show ?thesis by auto
  next
    case (Inl x)
    obtain res' tried' where r: "dial_loop dial (DialFailed x) ips = (res', tried')" by force
    with Cons.prems Inl have "res = res'" "tried = a # tried'" by auto
    with Cons.IH[OF r] Inl show ?thesis by (cases res') auto
  qed
qed simp

text \<open>
  C5. The hardened client dials public addresses only, for every resolver and every network: each
  address it tries is one the resolver returned for that very dial and is public, nothing is tried
  when the resolver returns any other address, and it gives up only after every address failed.
\<close>

theorem DialContext_public:
  "case DialContext SplitHostPort LookupIPAddr dial addr of (res, tried) \<Rightarrow>
     (tried \<noteq> [] \<longrightarrow> (\<exists>host port ips. SplitHostPort addr = Some (host, port) \<and> LookupIPAddr host = Some ips \<and>
        (\<forall>a \<in> set ips. IsPublicIP a) \<and> (\<exists>rest. ips = tried @ rest) \<and>
        (case res of Inr c \<Rightarrow> dial port (last tried) = Inr c
                   | Inl _ \<Rightarrow> tried = ips \<and> (\<forall>a \<in> set ips. \<exists>e. dial port a = Inl e)))) \<and>
     (tried = [] \<longrightarrow> (\<exists>e. res = Inl e))"
proof -
  obtain res tried where r: "DialContext SplitHostPort LookupIPAddr dial addr = (res, tried)" by force
  show ?thesis
  proof (cases "\<exists>host port ips. SplitHostPort addr = Some (host, port) \<and> LookupIPAddr host = Some ips \<and>
      find (\<lambda>a. \<not> IsPublicIP a) ips = None")
    case True
    then obtain host port ips where h: "SplitHostPort addr = Some (host, port)"
      "LookupIPAddr host = Some ips" "find (\<lambda>a. \<not> IsPublicIP a) ips = None" by blast
    then have "dial_loop (dial port) NoReachable ips = (res, tried)"
      using r by (simp add: DialContext_def)
    note d = dial_loop_tried[OF this]
    have "\<forall>a \<in> set ips. IsPublicIP a" using h(3) by (simp add: find_None_iff)
    with h(1,2) d r show ?thesis by (auto split: sum.splits)
  next
    case False
    then have "tried = [] \<and> (\<exists>e. res = Inl e)"
      using r by (auto simp: DialContext_def split: option.splits prod.splits)
    with r show ?thesis by simp
  qed
qed

lemma four_bytes_not_v6: "[a, b, c, d] \<noteq> replicate 16 (0 :: 8 word)"
  by (auto dest: arg_cong [where f = length])

theorem DialContext_public_witness:
  "let dial = (\<lambda>p (a :: ip). if a = [1, 1, 1, 1] then Inl ''refused'' else Inr (a, p));
       d = DialContext (\<lambda>_. Some (''h'', ''443'')) (\<lambda>_. Some [[1, 1, 1, 1], [8, 8, 8, 8]]) dial
   in (case d ''h:443'' of (res, tried) \<Rightarrow>
        (\<forall>a \<in> set tried. IsPublicIP a) \<and> tried = [[1, 1, 1, 1], [8, 8, 8, 8]] \<and>
        res = Inr ([8, 8, 8, 8], ''443''))"
  using DialContext_public [where SplitHostPort = "\<lambda>_. Some (''h'', ''443'')" and addr = "''h:443''"
      and LookupIPAddr = "\<lambda>_. Some [[1, 1, 1, 1], [8, 8, 8, 8]]"
      and dial = "\<lambda>p (a :: ip). if a = [1, 1, 1, 1] then Inl ''refused'' else Inr (a, p)"]
  by (simp add: DialContext_def IsPublicIP_def IsLoopback_def IsPrivate_def IsUnspecified_iff
      IsLinkLocalUnicast_def IsLinkLocalMulticast_def IsInterfaceLocalMulticast_def To4_def
      v4_mapped_def four_bytes_not_v6)

lemma CheckRedirect_follow:
  "CheckRedirect opts validate via t = FollowRedirect \<longleftrightarrow>
     int (length via) < opt_MaxRedirects (effective_options opts) \<and> validate t = Inr ()"
  by (cases "validate t") (simp_all add: CheckRedirect_def Let_def)

lemma follow_take:
  "follow (CheckRedirect opts validate) via ts =
     via @ take (min (nat (opt_MaxRedirects (effective_options opts) - int (length via)))
                     (length (takeWhile (\<lambda>t. validate t = Inr ()) ts))) ts"
proof (induction ts arbitrary: via)
  case (Cons t ts)
  let ?m = "opt_MaxRedirects (effective_options opts)"
  show ?case
  proof (cases "int (length via) < ?m \<and> validate t = Inr ()")
    case True
    then have "nat (?m - int (length via)) = Suc (nat (?m - int (length (via @ [t]))))" by simp arith
    with True Cons.IH[of "via @ [t]"] show ?thesis by (simp add: CheckRedirect_follow)
  next
    case False
    then have "nat (?m - int (length via)) = 0 \<or> validate t \<noteq> Inr ()" by auto
    with False show ?thesis by (auto simp: CheckRedirect_follow)
  qed
qed simp

text \<open>
  Along a chain of redirects the hardened client follows a target only if the target itself
  passes validation, it stops at the first one that does not, and with \<^verbatim>\<open>MaxRedirects = m\<close> it follows
  at most \<open>m - 1\<close> redirects (two with the default of three): the list of earlier requests that
  \<^verbatim>\<open>CheckRedirect\<close> compares with the limit contains the original request.
\<close>

theorem follow_redirects:
  "follow (CheckRedirect opts (ValidateURL url_Parse LookupIP)) [u] ts =
     u # take (min (nat (opt_MaxRedirects (effective_options opts) - 1))
                   (length (takeWhile (\<lambda>t. ValidateURL url_Parse LookupIP t = Inr ()) ts))) ts"
  using follow_take[of opts "ValidateURL url_Parse LookupIP" "[u]" ts] by simp

end
