(* ===== verification/Team_Scheduler.thy ===== *)
theory Team_Scheduler
  imports Prelude "HOL-Library.Multiset" "HOL-Library.Product_Lexorder"
begin

text \<open>
  The task scheduler of the team sessions (\<^verbatim>\<open>server/internal/team/scheduler.go\<close>, with the structs of
  \<^verbatim>\<open>models.go\<close> and the status constants of \<^verbatim>\<open>types.go\<close>).

  Two things are arguments.  The floating-point operations are the record \<open>fl_ops\<close> over an
  arbitrary linearly ordered type, so no theorem depends on rounding.  The call of \<^verbatim>\<open>sort.Slice\<close> is a
  function \<open>sorter\<close>, which is not stable and of which only the documented contract
  \<open>sorts_candidates\<close> is assumed: a permutation of its argument in an order the comparison allows.

  The loads and the repositories in use are Go maps that the two passes update: they are the state
  \<open>sched_state\<close>.  A read of a missing load gives the zero value.
\<close>

section \<open>Data\<close>

record TeamSessionMember =
  tm_ID :: string
  tm_SessionID :: string
  tm_UserID :: string
  tm_MachineID :: string
  tm_Role :: string
  tm_Status :: string

record TeamTask =
  tt_ID :: string
  tt_SessionID :: string
  tt_Description :: string
  tt_RepoAffinity :: "string list"
  tt_FileHints :: "string list"
  tt_Dependencies :: "string list"
  tt_AssignedMemberID :: "string option"
  tt_Status :: string
  tt_Priority :: int
  tt_RetryCount :: int
  tt_MaxRetries :: int
  tt_ErrorMessage :: string

record TeamRepoAffinity =
  ra_MemberID :: string
  ra_RepoRemoteURL :: string
  ra_RepoLocalPath :: string
  ra_CurrentBranch :: string
  ra_HasUncommittedChanges :: bool

definition TaskStatusPending :: string where
  "TaskStatusPending = ''pending''"

definition TaskStatusAssigned :: string where
  "TaskStatusAssigned = ''assigned''"

record MemberLoadInfo =
  ld_RunningCount :: int
  ld_AssignedCount :: int
  ld_CompletedCount :: int
  ld_FailedCount :: int
  ld_ActiveRepoURLs :: "string set"

definition zero_load :: MemberLoadInfo where
  "zero_load = \<lparr>ld_RunningCount = 0, ld_AssignedCount = 0, ld_CompletedCount = 0, ld_FailedCount = 0,
     ld_ActiveRepoURLs = {}\<rparr>"

record SchedulingContext =
  sc_Members :: "TeamSessionMember list"
  sc_RepoAffinities :: "TeamRepoAffinity list"
  sc_RunningTasks :: "TeamTask list"
  sc_MemberLoad :: "string \<Rightarrow> MemberLoadInfo option"

record 'f CandidateScore =
  cs_MemberID :: string
  cs_MachineID :: string
  cs_PriorityTier :: int
  cs_RepoCoverage :: 'f
  cs_QueueLength :: int
  cs_SuccessRate :: 'f
  cs_DirtyRepo :: bool
  cs_IsIdle :: bool
  cs_CompositeScore :: 'f

text \<open>The floating-point values: the quotient of two integers, the constants 0.5 and 1.0, and the
  weighted sum of queue length, success rate and coverage.\<close>

record 'f fl_ops =
  fl_div :: "int \<Rightarrow> int \<Rightarrow> 'f"
  fl_half :: 'f
  fl_one :: 'f
  fl_composite :: "int \<Rightarrow> 'f \<Rightarrow> 'f \<Rightarrow> 'f"

section \<open>Scoring\<close>

definition P1 :: int where "P1 = 1"

definition P2 :: int where "P2 = 2"

definition P3 :: int where "P3 = 3"

definition P4 :: int where "P4 = 4"

definition P5 :: int where "P5 = 5"

definition computePriorityTier :: "bool \<Rightarrow> bool \<Rightarrow> bool \<Rightarrow> bool \<Rightarrow> int" where
  "computePriorityTier hasAll hasSome dirtyOnTarget isIdle =
     (if \<not> isIdle then 0
      else if hasAll \<and> \<not> dirtyOnTarget then P1
      else if hasAll \<and> dirtyOnTarget then P2
      else if hasSome \<and> \<not> hasAll then P3
      else P4)"

type_synonym repo_map = "string \<Rightarrow> TeamRepoAffinity option"

definition computeRepoCoverage :: "string list \<Rightarrow> repo_map \<Rightarrow> bool \<times> bool \<times> bool" where
  "computeRepoCoverage targetRepos memberRepos =
     (if targetRepos = [] then (True, True, False)
      else
        let matched = length (filter (\<lambda>url. memberRepos url \<noteq> None) targetRepos);
            dirtyOnTarget = list_ex (\<lambda>url. case memberRepos url of
                              Some affinity \<Rightarrow> ra_HasUncommittedChanges affinity | None \<Rightarrow> False) targetRepos
        in (matched = length targetRepos, matched > 0, dirtyOnTarget))"

definition computeCoverageFraction :: "'f fl_ops \<Rightarrow> string list \<Rightarrow> repo_map \<Rightarrow> 'f" where
  "computeCoverageFraction fl targetRepos memberRepos =
     (if targetRepos = [] then fl_one fl
      else fl_div fl (int (length (filter (\<lambda>url. memberRepos url \<noteq> None) targetRepos)))
             (int (length targetRepos)))"

definition computeSuccessRate :: "'f fl_ops \<Rightarrow> int \<Rightarrow> int \<Rightarrow> 'f" where
  "computeSuccessRate fl completed failed =
     (let total = completed + failed
      in if total = 0 then fl_half fl else fl_div fl completed total)"

definition hasRunningSameRepoTask :: "string list \<Rightarrow> string set \<Rightarrow> bool" where
  "hasRunningSameRepoTask targetRepos runningRepos = list_ex (\<lambda>url. url \<in> runningRepos) targetRepos"

definition buildMemberRepoMap :: "TeamRepoAffinity list \<Rightarrow> string \<Rightarrow> repo_map" where
  "buildMemberRepoMap affinities =
     fold (\<lambda>a m. m(ra_MemberID a := (m (ra_MemberID a))(ra_RepoRemoteURL a \<mapsto> a))) affinities
       (\<lambda>_. Map.empty)"

definition buildRunningTaskRepoMap :: "TeamTask list \<Rightarrow> string \<Rightarrow> string set" where
  "buildRunningTaskRepoMap running =
     fold (\<lambda>t m. case tt_AssignedMemberID t of
                   None \<Rightarrow> m
                 | Some memberID \<Rightarrow> m(memberID := m memberID \<union> set (tt_RepoAffinity t))) running
       (\<lambda>_. {})"

definition load_of :: "(string \<Rightarrow> MemberLoadInfo option) \<Rightarrow> string \<Rightarrow> MemberLoadInfo" where
  "load_of memberLoad m = (case memberLoad m of None \<Rightarrow> zero_load | Some load \<Rightarrow> load)"

definition queue_len :: "MemberLoadInfo \<Rightarrow> int" where
  "queue_len load = ld_RunningCount load + ld_AssignedCount load"

definition is_idle :: "MemberLoadInfo \<Rightarrow> bool" where
  "is_idle load \<longleftrightarrow> ld_RunningCount load = 0 \<and> ld_AssignedCount load = 0"

record sched_state =
  ss_load :: "string \<Rightarrow> MemberLoadInfo option"
  ss_running :: "string \<Rightarrow> string set"

definition score_member ::
  "'f fl_ops \<Rightarrow> (string \<Rightarrow> repo_map) \<Rightarrow> sched_state \<Rightarrow> TeamTask \<Rightarrow> TeamSessionMember \<Rightarrow>
   'f CandidateScore option" where
  "score_member fl memberRepos st task member =
     (let load = load_of (ss_load st) (tm_ID member);
          isIdle = is_idle load;
          repos = memberRepos (tm_ID member)
      in case computeRepoCoverage (tt_RepoAffinity task) repos of (hasAll, hasSome, dirtyOnTarget) \<Rightarrow>
        let tier = computePriorityTier hasAll hasSome dirtyOnTarget isIdle
        in if tier = 0 then None
           else
             let sameRepoRunning = hasRunningSameRepoTask (tt_RepoAffinity task) (ss_running st (tm_ID member));
                 effectiveTier = (if sameRepoRunning \<and> tier \<ge> P3 then P2 else tier);
                 coverage = computeCoverageFraction fl (tt_RepoAffinity task) repos;
                 successRate = computeSuccessRate fl (ld_CompletedCount load) (ld_FailedCount load);
                 queueLen = ld_RunningCount load + ld_AssignedCount load
             in Some \<lparr>cs_MemberID = tm_ID member, cs_MachineID = tm_MachineID member,
                      cs_PriorityTier = effectiveTier, cs_RepoCoverage = coverage,
                      cs_QueueLength = queueLen, cs_SuccessRate = successRate,
                      cs_DirtyRepo = dirtyOnTarget, cs_IsIdle = isIdle,
                      cs_CompositeScore = fl_composite fl queueLen successRate coverage\<rparr>)"

definition scoreCandidates ::
  "'f fl_ops \<Rightarrow> SchedulingContext \<Rightarrow> (string \<Rightarrow> repo_map) \<Rightarrow> sched_state \<Rightarrow> TeamTask \<Rightarrow>
   'f CandidateScore list" where
  "scoreCandidates fl ctx memberRepos st task =
     List.map_filter (score_member fl memberRepos st task) (sc_Members ctx)"

definition candidate_less :: "('f :: linorder) CandidateScore \<Rightarrow> 'f CandidateScore \<Rightarrow> bool" where
  "candidate_less a b =
     (if cs_PriorityTier a \<noteq> cs_PriorityTier b then cs_PriorityTier a < cs_PriorityTier b
      else cs_CompositeScore a > cs_CompositeScore b)"

section \<open>Assignment\<close>

definition has_assignee :: "TeamTask \<Rightarrow> bool" where
  "has_assignee task \<longleftrightarrow> tt_AssignedMemberID task \<noteq> None \<and> tt_AssignedMemberID task \<noteq> Some []"

definition assign_to :: "string \<Rightarrow> TeamTask \<Rightarrow> TeamTask" where
  "assign_to m task = task\<lparr>tt_AssignedMemberID := Some m, tt_Status := TaskStatusAssigned\<rparr>"

text \<open>The body of the first loop of \<^verbatim>\<open>ScheduleTasks\<close>.\<close>

definition affinity_step ::
  "('f :: linorder) fl_ops \<Rightarrow> ('f CandidateScore list \<Rightarrow> 'f CandidateScore list) \<Rightarrow> SchedulingContext \<Rightarrow>
   (string \<Rightarrow> repo_map) \<Rightarrow> TeamTask \<Rightarrow> sched_state \<Rightarrow> TeamTask \<times> sched_state" where
  "affinity_step fl sorter ctx memberRepos task st =
     (if has_assignee task then (task, st)
      else if tt_RepoAffinity task = [] then (task, st)
      else
        (let candidates = scoreCandidates fl ctx memberRepos st task
         in if candidates = [] then (task, st)
            else
              (let assignedID = cs_MemberID (hd (sorter candidates));
                   load = load_of (ss_load st) assignedID;
                   load' = load\<lparr>ld_AssignedCount := ld_AssignedCount load + 1,
                                ld_ActiveRepoURLs := ld_ActiveRepoURLs load \<union> set (tt_RepoAffinity task)\<rparr>
               in (assign_to assignedID task,
                   \<lparr>ss_load = (ss_load st)(assignedID \<mapsto> load'),
                    ss_running = (ss_running st)(assignedID :=
                      ss_running st assignedID \<union> set (tt_RepoAffinity task))\<rparr>))))"

text \<open>The search loop of \<^verbatim>\<open>assignToLeastLoadedIdleMember\<close>: the best member so far with its queue
  length (\<open>None\<close> before the first one: the empty string and \<^verbatim>\<open>math.MaxInt\<close>).\<close>

fun least_loaded_member ::
  "(string \<Rightarrow> MemberLoadInfo option) \<Rightarrow> (string \<times> int) option \<Rightarrow> TeamSessionMember list \<Rightarrow>
   (string \<times> int) option" where
  "least_loaded_member memberLoad best [] = best"
| "least_loaded_member memberLoad best (member # rest) =
     (let queueLen = queue_len (load_of memberLoad (tm_ID member))
      in if queueLen \<ge> 2 then least_loaded_member memberLoad best rest
         else if (case best of None \<Rightarrow> True | Some (_, bestQueueLen) \<Rightarrow> queueLen < bestQueueLen)
         then least_loaded_member memberLoad (Some (tm_ID member, queueLen)) rest
         else least_loaded_member memberLoad best rest)"

definition assignToLeastLoadedIdleMember ::
  "SchedulingContext \<Rightarrow> TeamTask \<Rightarrow> sched_state \<Rightarrow> TeamTask \<times> sched_state" where
  "assignToLeastLoadedIdleMember ctx task st =
     (case least_loaded_member (ss_load st) None (sc_Members ctx) of
        None \<Rightarrow> (task, st)
      | Some (bestMemberID, _) \<Rightarrow>
          if bestMemberID = [] then (task, st)
          else
            let load = load_of (ss_load st) bestMemberID
            in (assign_to bestMemberID task,
                st\<lparr>ss_load := (ss_load st)(bestMemberID \<mapsto>
                     load\<lparr>ld_AssignedCount := ld_AssignedCount load + 1\<rparr>)\<rparr>))"

text \<open>The body of the second loop.\<close>

definition fallback_step :: "SchedulingContext \<Rightarrow> TeamTask \<Rightarrow> sched_state \<Rightarrow> TeamTask \<times> sched_state" where
  "fallback_step ctx task st =
     (if \<not> has_assignee task \<and> tt_Status task = TaskStatusPending
      then assignToLeastLoadedIdleMember ctx task st
      else (task, st))"

fun each_task :: "(TeamTask \<Rightarrow> 's \<Rightarrow> TeamTask \<times> 's) \<Rightarrow> TeamTask list \<Rightarrow> 's \<Rightarrow> TeamTask list \<times> 's" where
  "each_task f [] st = ([], st)"
| "each_task f (t # ts) st =
     (let (t', st') = f t st; (ts', st'') = each_task f ts st' in (t' # ts', st''))"

definition ScheduleTasks_st ::
  "('f :: linorder) fl_ops \<Rightarrow> ('f CandidateScore list \<Rightarrow> 'f CandidateScore list) \<Rightarrow> SchedulingContext \<Rightarrow>
   TeamTask list \<Rightarrow> TeamTask list \<times> sched_state" where
  "ScheduleTasks_st fl sorter ctx tasks =
     (let memberRepos = buildMemberRepoMap (sc_RepoAffinities ctx);
          st0 = \<lparr>ss_load = sc_MemberLoad ctx, ss_running = buildRunningTaskRepoMap (sc_RunningTasks ctx)\<rparr>
      in if sc_Members ctx = [] \<or> tasks = [] then (tasks, st0)
         else
           let (tasks1, st1) = each_task (affinity_step fl sorter ctx memberRepos) tasks st0
           in each_task (fallback_step ctx) tasks1 st1)"

definition ScheduleTasks ::
  "('f :: linorder) fl_ops \<Rightarrow> ('f CandidateScore list \<Rightarrow> 'f CandidateScore list) \<Rightarrow> SchedulingContext \<Rightarrow>
   TeamTask list \<Rightarrow> TeamTask list" where
  "ScheduleTasks fl sorter ctx tasks = fst (ScheduleTasks_st fl sorter ctx tasks)"

text \<open>The contract of \<^verbatim>\<open>sort.Slice\<close> for the comparison of candidates.\<close>

definition sorts_candidates :: "(('f :: linorder) CandidateScore list \<Rightarrow> 'f CandidateScore list) \<Rightarrow> bool" where
  "sorts_candidates sorter \<longleftrightarrow>
     (\<forall>xs. mset (sorter xs) = mset xs \<and> sorted_wrt (\<lambda>a b. \<not> candidate_less b a) (sorter xs))"

section \<open>The loops\<close>

lemma each_task_rel:
  assumes "\<And>t st. I st \<Longrightarrow> R t (fst (f t st)) \<and> I (snd (f t st))" and "I st"
  shows "list_all2 R ts (fst (each_task f ts st)) \<and> I (snd (each_task f ts st))"
  using assms(2)
proof (induction ts arbitrary: st)
  case (Cons t ts)
  obtain t' st' where f: "f t st = (t', st')" by force
  with assms(1)[OF Cons.prems, of t] have "R t t'" "I st'" by auto
  with Cons.IH[of st'] f show ?case by (auto split: prod.splits)
qed simp

definition assigned_from :: "TeamSessionMember list \<Rightarrow> TeamTask \<Rightarrow> TeamTask \<Rightarrow> bool" where
  "assigned_from members t t' \<longleftrightarrow>
     t' = t \<or> \<not> has_assignee t \<and> (\<exists>m \<in> set members. t' = assign_to (tm_ID m) t)"

lemma score_member_Some:
  "score_member fl mr st task m = Some c \<Longrightarrow>
   cs_MemberID c = tm_ID m \<and> is_idle (load_of (ss_load st) (tm_ID m))"
  by (auto simp: score_member_def Let_def computePriorityTier_def split: prod.splits if_splits)

lemma score_member_None:
  "score_member fl mr st task m = None \<longleftrightarrow> \<not> is_idle (load_of (ss_load st) (tm_ID m))"
  by (auto simp: score_member_def Let_def computePriorityTier_def P1_def P2_def P3_def P4_def
      split: prod.splits)

lemma set_scoreCandidates:
  "c \<in> set (scoreCandidates fl ctx mr st task) \<longleftrightarrow>
   (\<exists>m \<in> set (sc_Members ctx). score_member fl mr st task m = Some c)"
  by (auto simp: scoreCandidates_def map_filter_def image_iff)

lemma scoreCandidates_Nil:
  "scoreCandidates fl ctx mr st task = [] \<longleftrightarrow>
   (\<forall>m \<in> set (sc_Members ctx). \<not> is_idle (load_of (ss_load st) (tm_ID m)))"
proof -
  have "scoreCandidates fl ctx mr st task = [] \<longleftrightarrow>
      (\<forall>m \<in> set (sc_Members ctx). score_member fl mr st task m = None)"
    by (auto simp: scoreCandidates_def map_filter_def filter_empty_conv)
  then show ?thesis by (simp add: score_member_None)
qed

lemma sorted_hd_best:
  assumes "sorts_candidates sorter" and "xs \<noteq> []"
  shows "hd (sorter xs) \<in> set xs" and "x \<in> set xs \<Longrightarrow> \<not> candidate_less x (hd (sorter xs))"
proof -
  have m: "mset (sorter xs) = mset xs" and s: "sorted_wrt (\<lambda>a b. \<not> candidate_less b a) (sorter xs)"
    using assms(1) by (auto simp: sorts_candidates_def)
  then have set: "set (sorter xs) = set xs" by (metis set_mset_mset)
  with assms(2) obtain y ys where y: "sorter xs = y # ys" by (cases "sorter xs") auto
  with set show "hd (sorter xs) \<in> set xs" by auto
  show "\<not> candidate_less x (hd (sorter xs))" if x: "x \<in> set xs"
  proof (cases "x = y")
    case True
    then show ?thesis unfolding y by (simp add: candidate_less_def)
  next
    case False
    with x set y have "x \<in> set ys" by auto
    with s y show ?thesis by simp
  qed
qed

lemma least_loaded_member_spec:
  assumes "least_loaded_member ml best ms = Some (i, q)"
  shows "best = Some (i, q) \<or> (\<exists>m \<in> set ms. i = tm_ID m \<and> q = queue_len (load_of ml i) \<and> q < 2)"
  using assms
proof (induction ms arbitrary: best)
  case (Cons m ms)
  let ?q = "queue_len (load_of ml (tm_ID m))"
  from Cons.prems have "least_loaded_member ml best ms = Some (i, q) \<or>
      ?q < 2 \<and> least_loaded_member ml (Some (tm_ID m, ?q)) ms = Some (i, q)"
    by (simp add: Let_def split: if_splits)
  then show ?case
  proof
    assume "least_loaded_member ml best ms = Some (i, q)"
    from Cons.IH[OF this] show ?thesis by auto
  next
    assume a: "?q < 2 \<and> least_loaded_member ml (Some (tm_ID m, ?q)) ms = Some (i, q)"
    from Cons.IH[OF a[THEN conjunct2]] a show ?thesis by auto
  qed
qed simp

lemma least_loaded_member_min:
  assumes "least_loaded_member ml best ms = res"
  shows "(\<forall>m \<in> set ms. queue_len (load_of ml (tm_ID m)) < 2 \<longrightarrow>
      (\<exists>i q. res = Some (i, q) \<and> q \<le> queue_len (load_of ml (tm_ID m)))) \<and>
    (\<forall>i0 q0. best = Some (i0, q0) \<longrightarrow> (\<exists>i q. res = Some (i, q) \<and> q \<le> q0))"
  using assms
proof (induction ms arbitrary: best)
  case (Cons m ms)
  let ?q = "queue_len (load_of ml (tm_ID m))"
  show ?case
  proof (cases "?q \<ge> 2")
    case True
    with Cons show ?thesis by (auto simp: Let_def)
  next
    case small: False
    show ?thesis
    proof (cases "case best of None \<Rightarrow> True | Some (_, bq) \<Rightarrow> ?q < bq")
      case True
      with small Cons.prems have "least_loaded_member ml (Some (tm_ID m, ?q)) ms = res"
        by (simp add: Let_def)
      from Cons.IH[OF this] True show ?thesis by (fastforce split: option.splits)
    next
      case False
      with small Cons.prems have "least_loaded_member ml best ms = res" by (simp add: Let_def)
      from Cons.IH[OF this] False show ?thesis by (fastforce split: option.splits)
    qed
  qed
qed simp

section \<open>What one step does\<close>

definition queue :: "sched_state \<Rightarrow> string \<Rightarrow> int" where
  "queue st m = queue_len (load_of (ss_load st) m)"

text \<open>A step leaves the task and the queues alone, or gives an unassigned task to a member with fewer
  than two tasks and counts it there.\<close>

definition step_ok :: "TeamSessionMember list \<Rightarrow> TeamTask \<Rightarrow> sched_state \<Rightarrow> TeamTask \<Rightarrow> sched_state \<Rightarrow> bool"
where
  "step_ok members t st t' st' \<longleftrightarrow>
     t' = t \<and> queue st' = queue st \<or>
     \<not> has_assignee t \<and> (\<exists>m \<in> set members. t' = assign_to (tm_ID m) t \<and> queue st (tm_ID m) < 2 \<and>
        queue st' = (queue st)(tm_ID m := queue st (tm_ID m) + 1))"

lemma load_of_update: "load_of (ml(i \<mapsto> l)) = (load_of ml)(i := l)"
  by (auto simp: load_of_def fun_eq_iff)

lemma affinity_step_cases:
  fixes fl :: "('f :: linorder) fl_ops"
  assumes "sorts_candidates sorter"
  obtains (keep) "affinity_step fl sorter ctx mr t st = (t, st)"
      "has_assignee t \<or> tt_RepoAffinity t = [] \<or>
       (\<forall>m \<in> set (sc_Members ctx). \<not> is_idle (load_of (ss_load st) (tm_ID m)))"
    | (give) m c st' where "\<not> has_assignee t" "tt_RepoAffinity t \<noteq> []" "m \<in> set (sc_Members ctx)"
      "score_member fl mr st t m = Some c"
      "\<And>c'. c' \<in> set (scoreCandidates fl ctx mr st t) \<Longrightarrow> \<not> candidate_less c' c"
      "affinity_step fl sorter ctx mr t st = (assign_to (tm_ID m) t, st')"
      "queue st' = (queue st)(tm_ID m := queue st (tm_ID m) + 1)"
proof (cases "has_assignee t \<or> tt_RepoAffinity t = [] \<or> scoreCandidates fl ctx mr st t = []")
  case True
  then have "affinity_step fl sorter ctx mr t st = (t, st)" by (auto simp: affinity_step_def)
  with True keep show ?thesis by (simp add: scoreCandidates_Nil)
next
  case False
  let ?cs = "scoreCandidates fl ctx mr st t"
  let ?c = "hd (sorter ?cs)"
  have c: "?c \<in> set ?cs" and best: "\<And>c'. c' \<in> set ?cs \<Longrightarrow> \<not> candidate_less c' ?c"
    using sorted_hd_best[OF assms, of ?cs] False by auto
  from c obtain m where m: "m \<in> set (sc_Members ctx)" "score_member fl mr st t m = Some ?c"
    by (auto simp: set_scoreCandidates)
  then have id: "cs_MemberID ?c = tm_ID m" using score_member_Some by blast
  obtain st' where st': "affinity_step fl sorter ctx mr t st = (assign_to (tm_ID m) t, st')"
    using False by (simp add: affinity_step_def Let_def id)
  then have "queue st' = (queue st)(tm_ID m := queue st (tm_ID m) + 1)"
    using False by (auto simp: affinity_step_def Let_def id queue_def queue_len_def load_of_update fun_eq_iff)
  with False m best st' give show ?thesis by blast
qed

lemma affinity_step_ok:
  assumes "sorts_candidates sorter"
  shows "step_ok (sc_Members ctx) t st (fst (affinity_step fl sorter ctx mr t st))
           (snd (affinity_step fl sorter ctx mr t st))"
proof (rule affinity_step_cases[OF assms, of fl ctx mr t st])
  fix m c st'
  assume a: "\<not> has_assignee t" "m \<in> set (sc_Members ctx)" "score_member fl mr st t m = Some c"
    "affinity_step fl sorter ctx mr t st = (assign_to (tm_ID m) t, st')"
    "queue st' = (queue st)(tm_ID m := queue st (tm_ID m) + 1)"
  then have "queue st (tm_ID m) < 2"
    using score_member_Some[OF a(3)] by (simp add: is_idle_def queue_def queue_len_def)
  with a show ?thesis by (auto simp: step_ok_def)
qed (simp add: step_ok_def)

lemma fallback_step_cases:
  obtains (keep) "fallback_step ctx t st = (t, st)"
      "has_assignee t \<or> tt_Status t \<noteq> TaskStatusPending \<or>
       (\<exists>m \<in> set (sc_Members ctx). tm_ID m = []) \<or> (\<forall>m \<in> set (sc_Members ctx). 2 \<le> queue st (tm_ID m))"
    | (give) m st' where "\<not> has_assignee t" "tt_Status t = TaskStatusPending" "m \<in> set (sc_Members ctx)"
      "tm_ID m \<noteq> []" "queue st (tm_ID m) < 2"
      "\<And>m'. m' \<in> set (sc_Members ctx) \<Longrightarrow> queue st (tm_ID m) \<le> queue st (tm_ID m')"
      "fallback_step ctx t st = (assign_to (tm_ID m) t, st')"
      "queue st' = (queue st)(tm_ID m := queue st (tm_ID m) + 1)"
proof (cases "has_assignee t \<or> tt_Status t \<noteq> TaskStatusPending")
  case True
  then have "fallback_step ctx t st = (t, st)" by (auto simp: fallback_step_def)
  with True keep show ?thesis by blast
next
  case go: False
  then have f: "fallback_step ctx t st = assignToLeastLoadedIdleMember ctx t st"
    by (simp add: fallback_step_def)
  note mn = least_loaded_member_min[OF refl, where ml = "ss_load st" and best = None and ms = "sc_Members ctx"]
  show ?thesis
  proof (cases "least_loaded_member (ss_load st) None (sc_Members ctx)")
    case None
    with mn have "\<forall>m \<in> set (sc_Members ctx). 2 \<le> queue st (tm_ID m)" by (auto simp: queue_def)
    moreover from None have "fallback_step ctx t st = (t, st)"
      by (simp add: f assignToLeastLoadedIdleMember_def)
    ultimately show ?thesis using keep by blast
  next
    case (Some p)
    obtain i q where p: "p = (i, q)" by force
    from least_loaded_member_spec[OF Some[unfolded p]] obtain m where
      m: "m \<in> set (sc_Members ctx)" "i = tm_ID m" "q = queue st i" "q < 2" by (auto simp: queue_def)
    show ?thesis
    proof (cases "i = []")
      case True
      with Some p have "fallback_step ctx t st = (t, st)"
        by (simp add: f assignToLeastLoadedIdleMember_def)
      moreover have "\<exists>m \<in> set (sc_Members ctx). tm_ID m = []" using True m by auto
      ultimately show ?thesis using keep by blast
    next
      case False
      obtain st' where st': "fallback_step ctx t st = (assign_to (tm_ID m) t, st')"
        using False Some p m(2) by (simp add: f assignToLeastLoadedIdleMember_def Let_def)
      then have "queue st' = (queue st)(tm_ID m := queue st (tm_ID m) + 1)"
        using False Some p m(2)
        by (auto simp: f assignToLeastLoadedIdleMember_def Let_def queue_def queue_len_def load_of_update
            fun_eq_iff)
      moreover have "queue st (tm_ID m) \<le> queue st (tm_ID m')" if "m' \<in> set (sc_Members ctx)" for m'
      proof (cases "queue st (tm_ID m') < 2")
        case True
        with mn that Some p have "q \<le> queue st (tm_ID m')" by (auto simp: queue_def)
        with m show ?thesis by simp
      next
        case False
        with m show ?thesis by simp
      qed
      ultimately show ?thesis using give[OF _ _ m(1) _ _ _ st'] go False m by auto
    qed
  qed
qed

lemma fallback_step_ok:
  "step_ok (sc_Members ctx) t st (fst (fallback_step ctx t st)) (snd (fallback_step ctx t st))"
  by (rule fallback_step_cases[of ctx t st]) (auto simp: step_ok_def)

section \<open>What a run does\<close>

definition newly :: "string \<Rightarrow> TeamTask \<Rightarrow> TeamTask \<Rightarrow> int" where
  "newly x t t' = (if \<not> has_assignee t \<and> tt_AssignedMemberID t' = Some x then 1 else 0)"

lemma newly_same: "x \<noteq> [] \<Longrightarrow> newly x t t = 0"
  by (auto simp: newly_def has_assignee_def)

lemma newly_assign: "\<not> has_assignee t \<Longrightarrow> newly x t (assign_to m t) = (if x = m then 1 else 0)"
  by (auto simp: newly_def assign_to_def)

lemma each_task_queue:
  assumes step: "\<And>t st. step_ok ms t st (fst (f t st)) (snd (f t st))"
  shows "case each_task f ts st of (ts', st') \<Rightarrow>
     list_all2 (assigned_from ms) ts ts' \<and> length ts' = length ts \<and>
     (\<forall>x. queue st x \<le> queue st' x \<and> queue st' x \<le> max 2 (queue st x)) \<and>
     (\<forall>x. x \<noteq> [] \<longrightarrow> queue st' x = queue st x + sum_list (map2 (newly x) ts ts'))"
proof (induction ts arbitrary: st)
  case (Cons t ts)
  obtain t' st1 where f: "f t st = (t', st1)" by force
  obtain ts' st2 where e: "each_task f ts st1 = (ts', st2)" by force
  from step[of t st] f have ok: "step_ok ms t st t' st1" by simp
  then have one: "assigned_from ms t t'" "queue st x \<le> queue st1 x" "queue st1 x \<le> max 2 (queue st x)"
    and new: "x \<noteq> [] \<Longrightarrow> queue st1 x = queue st x + newly x t t'" for x
    by (auto simp: step_ok_def assigned_from_def newly_same newly_assign)
  from Cons.IH[of st1] e have IH: "list_all2 (assigned_from ms) ts ts'" "length ts' = length ts"
    "\<And>x. queue st1 x \<le> queue st2 x" "\<And>x. queue st2 x \<le> max 2 (queue st1 x)"
    "\<And>x. x \<noteq> [] \<Longrightarrow> queue st2 x = queue st1 x + sum_list (map2 (newly x) ts ts')" by auto
  have "queue st x \<le> queue st2 x" "queue st2 x \<le> max 2 (queue st x)" for x
    using one(2,3)[of x] IH(3,4)[of x] by linarith+
  with f e IH one(1) new show ?case by auto
qed simp

text \<open>The second pass touches pending tasks only, so its effect on a task adds to that of the first.\<close>

lemma each_task_pending:
  "list_all2 (\<lambda>t t'. t' = t \<or> \<not> has_assignee t \<and> tt_Status t = TaskStatusPending)
     ts (fst (each_task (fallback_step ctx) ts st))"
proof (induction ts arbitrary: st)
  case (Cons t ts)
  have "fst (fallback_step ctx t st) = t \<or> \<not> has_assignee t \<and> tt_Status t = TaskStatusPending"
    by (rule fallback_step_cases[of ctx t st]) auto
  moreover have "fst (each_task (fallback_step ctx) (t # ts) st) =
      fst (fallback_step ctx t st) # fst (each_task (fallback_step ctx) ts (snd (fallback_step ctx t st)))"
    by (simp add: case_prod_beta)
  ultimately show ?case using Cons.IH by simp
qed simp

lemma two_passes:
  assumes "list_all2 (assigned_from ms) ts ts1" "list_all2 (assigned_from ms) ts1 ts2"
    "list_all2 (\<lambda>t t'. t' = t \<or> \<not> has_assignee t \<and> tt_Status t = TaskStatusPending) ts1 ts2"
  shows "list_all2 (assigned_from ms) ts ts2 \<and>
    (\<forall>x. x \<noteq> [] \<longrightarrow> sum_list (map2 (newly x) ts ts1) + sum_list (map2 (newly x) ts1 ts2) =
       sum_list (map2 (newly x) ts ts2))"
  using assms
proof (induction ts arbitrary: ts1 ts2)
  case (Cons t ts)
  obtain t1 us1 where 1: "ts1 = t1 # us1" using Cons.prems(1) by (cases ts1) auto
  obtain t2 us2 where 2: "ts2 = t2 # us2" using Cons.prems(2) 1 by (cases ts2) auto
  have r: "assigned_from ms t t1" "assigned_from ms t1 t2"
    "t2 = t1 \<or> \<not> has_assignee t1 \<and> tt_Status t1 = TaskStatusPending"
    using Cons.prems 1 2 by auto
  have "t1 = t \<or> t2 = t1"
    using r(1,3) by (auto simp: assigned_from_def assign_to_def TaskStatusAssigned_def TaskStatusPending_def)
  then have "assigned_from ms t t2" "x \<noteq> [] \<Longrightarrow> newly x t t1 + newly x t1 t2 = newly x t t2" for x
    using r by (auto simp: newly_same)
  with Cons.IH[of us1 us2] Cons.prems 1 2 show ?case by (auto simp: algebra_simps)
qed auto

lemma ScheduleTasks_all:
  assumes "sorts_candidates sorter"
  shows "case ScheduleTasks_st fl sorter ctx tasks of (ts', st') \<Rightarrow>
     list_all2 (assigned_from (sc_Members ctx)) tasks ts' \<and>
     (\<forall>x. queue st' x \<le> max 2 (queue_len (load_of (sc_MemberLoad ctx) x))) \<and>
     (\<forall>x. x \<noteq> [] \<longrightarrow> queue st' x =
        queue_len (load_of (sc_MemberLoad ctx) x) + sum_list (map2 (newly x) tasks ts'))"
proof (cases "sc_Members ctx = [] \<or> tasks = []")
  case True
  have "list_all2 (assigned_from (sc_Members ctx)) tasks tasks"
    by (auto simp: assigned_from_def intro: list_all2_refl)
  moreover have "sum_list (map2 (newly x) tasks tasks) = 0" if "x \<noteq> []" for x
    using newly_same[OF that] by (induction tasks) auto
  ultimately show ?thesis using True by (auto simp: ScheduleTasks_st_def Let_def queue_def)
next
  case False
  let ?mr = "buildMemberRepoMap (sc_RepoAffinities ctx)"
  let ?st0 = "\<lparr>ss_load = sc_MemberLoad ctx, ss_running = buildRunningTaskRepoMap (sc_RunningTasks ctx)\<rparr>"
  obtain ts1 st1 where 1: "each_task (affinity_step fl sorter ctx ?mr) tasks ?st0 = (ts1, st1)" by force
  obtain ts2 st2 where 2: "each_task (fallback_step ctx) ts1 st1 = (ts2, st2)" by force
  have run: "ScheduleTasks_st fl sorter ctx tasks = (ts2, st2)"
    using False 1 2 by (simp add: ScheduleTasks_st_def Let_def)
  have q0: "queue ?st0 x = queue_len (load_of (sc_MemberLoad ctx) x)" for x by (simp add: queue_def)
  note A = each_task_queue[where f = "affinity_step fl sorter ctx ?mr" and ms = "sc_Members ctx" and
      ts = tasks and st = ?st0, OF affinity_step_ok[OF assms], unfolded 1 prod.case q0]
  note B = each_task_queue[where f = "fallback_step ctx" and ms = "sc_Members ctx" and ts = ts1 and st = st1,
      OF fallback_step_ok, unfolded 2 prod.case]
  have C: "list_all2 (assigned_from (sc_Members ctx)) tasks ts2 \<and>
    (\<forall>x. x \<noteq> [] \<longrightarrow> sum_list (map2 (newly x) tasks ts1) + sum_list (map2 (newly x) ts1 ts2) =
       sum_list (map2 (newly x) tasks ts2))"
    using two_passes[of "sc_Members ctx" tasks ts1 ts2] A B each_task_pending[of ts1 ctx st1] 2 by simp
  have "queue st2 x \<le> max 2 (queue_len (load_of (sc_MemberLoad ctx) x))" for x
  proof -
    have "queue st1 x \<le> max 2 (queue_len (load_of (sc_MemberLoad ctx) x))"
      "queue st2 x \<le> max 2 (queue st1 x)" using A B by blast+
    then show ?thesis by linarith
  qed
  moreover have "queue st2 x = queue_len (load_of (sc_MemberLoad ctx) x) + sum_list (map2 (newly x) tasks ts2)"
    if "x \<noteq> []" for x
  proof -
    have "queue st1 x = queue_len (load_of (sc_MemberLoad ctx) x) + sum_list (map2 (newly x) tasks ts1)"
      "queue st2 x = queue st1 x + sum_list (map2 (newly x) ts1 ts2)"
      "sum_list (map2 (newly x) tasks ts1) + sum_list (map2 (newly x) ts1 ts2) =
       sum_list (map2 (newly x) tasks ts2)" using A B C that by blast+
    then show ?thesis by linarith
  qed
  ultimately show ?thesis using C by (simp add: run)
qed

section \<open>Correctness of the scheduler\<close>

text \<open>A concrete instance of the two arguments, for the examples: scores in percent, and a sort on the
  pair of tier and negated score.\<close>

definition fl_percent :: "int fl_ops" where
  "fl_percent = \<lparr>fl_div = (\<lambda>a b. 100 * a div b), fl_half = 50, fl_one = 100,
     fl_composite = (\<lambda>q s c. 400 - 40 * q + 4 * s + 2 * c)\<rparr>"

definition key_sorter :: "int CandidateScore list \<Rightarrow> int CandidateScore list" where
  "key_sorter = sort_key (\<lambda>c. (cs_PriorityTier c, - cs_CompositeScore c))"

lemma key_sorter_sorts: "sorts_candidates key_sorter"
  unfolding sorts_candidates_def
proof (intro allI conjI)
  fix xs :: "int CandidateScore list"
  let ?k = "\<lambda>c :: int CandidateScore. (cs_PriorityTier c, - cs_CompositeScore c)"
  show "mset (key_sorter xs) = mset xs" by (simp add: key_sorter_def)
  have "sorted (map ?k (key_sorter xs))" by (simp add: key_sorter_def)
  then have "sorted_wrt (\<lambda>a b. ?k a \<le> ?k b) (key_sorter xs)" by (simp add: sorted_map)
  then show "sorted_wrt (\<lambda>a b. \<not> candidate_less b a) (key_sorter xs)"
    by (rule sorted_wrt_mono_rel[rotated]) (auto simp: candidate_less_def less_eq_prod_def)
qed

text \<open>
  A scheduling pass keeps every task and its order; it changes a task only when nobody was
  assigned to it, and then only by assigning it to a member of the context and setting its status
  to assigned.  Explicit assignments are never touched.
\<close>

theorem ScheduleTasks_assigns:
  assumes "sorts_candidates sorter"
  shows "length (ScheduleTasks fl sorter ctx tasks) = length tasks \<and>
    (\<forall>i < length tasks.
       ScheduleTasks fl sorter ctx tasks ! i = tasks ! i \<or>
       \<not> has_assignee (tasks ! i) \<and> (\<exists>m \<in> set (sc_Members ctx).
          ScheduleTasks fl sorter ctx tasks ! i =
            (tasks ! i)\<lparr>tt_AssignedMemberID := Some (tm_ID m), tt_Status := TaskStatusAssigned\<rparr>))"
proof -
  have l: "list_all2 (assigned_from (sc_Members ctx)) tasks (ScheduleTasks fl sorter ctx tasks)"
    using ScheduleTasks_all[OF assms, where fl = fl and ctx = ctx and tasks = tasks] by (auto simp: ScheduleTasks_def)
  then have "length (ScheduleTasks fl sorter ctx tasks) = length tasks" by (metis list_all2_lengthD)
  moreover have "assigned_from (sc_Members ctx) (tasks ! i) (ScheduleTasks fl sorter ctx tasks ! i)"
    if "i < length tasks" for i
    using l that by (simp add: list_all2_conv_all_nth)
  ultimately show ?thesis by (auto simp: assigned_from_def assign_to_def)
qed

definition member_example :: "string \<Rightarrow> TeamSessionMember" where
  "member_example i = \<lparr>tm_ID = i, tm_SessionID = ''s'', tm_UserID = ''u'', tm_MachineID = i,
     tm_Role = ''teammate'', tm_Status = ''online''\<rparr>"

definition task_example :: "string \<Rightarrow> string list \<Rightarrow> TeamTask" where
  "task_example i repos = \<lparr>tt_ID = i, tt_SessionID = ''s'', tt_Description = [], tt_RepoAffinity = repos,
     tt_FileHints = [], tt_Dependencies = [], tt_AssignedMemberID = None, tt_Status = TaskStatusPending,
     tt_Priority = 5, tt_RetryCount = 0, tt_MaxRetries = 3, tt_ErrorMessage = []\<rparr>"

definition ctx_example :: SchedulingContext where
  "ctx_example = \<lparr>sc_Members = [member_example ''m'', member_example ''n''], sc_RepoAffinities = [],
     sc_RunningTasks = [], sc_MemberLoad = Map.empty\<rparr>"

theorem ScheduleTasks_assigns_witness:
  "sorts_candidates key_sorter \<and>
   length (ScheduleTasks fl_percent key_sorter ctx_example [task_example ''t'' [''r'']]) = 1"
  using ScheduleTasks_assigns[OF key_sorter_sorts, where fl = fl_percent and ctx = ctx_example and
      tasks = "[task_example ''t'' [''r'']]"]
    key_sorter_sorts by simp

text \<open>
  C6. The load accounting of a pass is exact: the final queue of a member is its queue at the start
  plus the number of tasks the pass gave to it; and nobody is driven above two tasks (a member
  that started higher keeps its queue).
\<close>

theorem ScheduleTasks_load:
  assumes "sorts_candidates sorter" and "m \<noteq> []"
  shows "case ScheduleTasks_st fl sorter ctx tasks of (tasks', st') \<Rightarrow>
     queue_len (load_of (ss_load st') m) =
       queue_len (load_of (sc_MemberLoad ctx) m) +
       int (length (filter (\<lambda>(t, t'). \<not> has_assignee t \<and> tt_AssignedMemberID t' = Some m) (zip tasks tasks'))) \<and>
     queue_len (load_of (ss_load st') m) \<le> max 2 (queue_len (load_of (sc_MemberLoad ctx) m))"
proof -
  have "sum_list (map (\<lambda>(t, t'). newly m t t') ps) =
      int (length (filter (\<lambda>(t, t'). \<not> has_assignee t \<and> tt_AssignedMemberID t' = Some m) ps))" for ps
    by (induction ps) (auto simp: newly_def split: if_splits)
  with ScheduleTasks_all[OF assms(1), where fl = fl and ctx = ctx and tasks = tasks] assms(2) show ?thesis
    by (auto simp: queue_def)
qed

theorem ScheduleTasks_load_witness:
  "sorts_candidates key_sorter \<and> ''m'' \<noteq> [] \<and>
   (case ScheduleTasks_st fl_percent key_sorter ctx_example [task_example ''t'' [''r'']] of
      (tasks', st') \<Rightarrow> queue_len (load_of (ss_load st') ''m'') \<le> 2)"
  using ScheduleTasks_load[OF key_sorter_sorts, where m = "''m''" and fl = fl_percent and
      ctx = ctx_example and tasks = "[task_example ''t'' [''r'']]"] key_sorter_sorts
  by (auto simp: ctx_example_def load_of_def zero_load_def queue_len_def split: prod.splits)

text \<open>The tier of an idle member, declaratively: 1 when it has every repository of the task and none of
  them has uncommitted changes, 2 when it has all of them and some are dirty, 2 when it is recorded
  as working on one of them, 3 when it has some of them, 4 otherwise.\<close>

definition spec_tier :: "repo_map \<Rightarrow> string set \<Rightarrow> string list \<Rightarrow> int" where
  "spec_tier repos busy urls =
     (if \<forall>u \<in> set urls. repos u \<noteq> None then
        (if \<exists>u \<in> set urls. \<exists>a. repos u = Some a \<and> ra_HasUncommittedChanges a then 2 else 1)
      else if set urls \<inter> busy \<noteq> {} then 2
      else if \<exists>u \<in> set urls. repos u \<noteq> None then 3
      else 4)"

definition spec_score :: "'f fl_ops \<Rightarrow> repo_map \<Rightarrow> MemberLoadInfo \<Rightarrow> string list \<Rightarrow> 'f" where
  "spec_score fl repos load urls =
     fl_composite fl 0 (computeSuccessRate fl (ld_CompletedCount load) (ld_FailedCount load))
       (computeCoverageFraction fl urls repos)"

lemma computeRepoCoverage_spec:
  "urls \<noteq> [] \<Longrightarrow> computeRepoCoverage urls repos =
     (\<forall>u \<in> set urls. repos u \<noteq> None, \<exists>u \<in> set urls. repos u \<noteq> None,
      \<exists>u \<in> set urls. \<exists>a. repos u = Some a \<and> ra_HasUncommittedChanges a)"
proof -
  assume ne: "urls \<noteq> []"
  let ?f = "filter (\<lambda>url. repos url \<noteq> None) urls"
  have "length ?f = length urls \<longleftrightarrow> (\<forall>u \<in> set urls. repos u \<noteq> None)"
    by (metis (mono_tags, lifting) filter_True length_filter_less less_irrefl)
  moreover have "length ?f > 0 \<longleftrightarrow> (\<exists>u \<in> set urls. repos u \<noteq> None)"
    unfolding length_greater_0_conv filter_empty_conv by blast
  moreover have "list_ex (\<lambda>url. case repos url of Some a \<Rightarrow> ra_HasUncommittedChanges a | None \<Rightarrow> False) urls
      \<longleftrightarrow> (\<exists>u \<in> set urls. \<exists>a. repos u = Some a \<and> ra_HasUncommittedChanges a)"
    by (auto simp: list_ex_iff split: option.splits)
  ultimately show ?thesis using ne unfolding computeRepoCoverage_def Let_def by simp
qed

lemma score_member_spec:
  assumes "score_member fl mr st t m = Some c" and "tt_RepoAffinity t \<noteq> []"
  shows "cs_PriorityTier c = spec_tier (mr (tm_ID m)) (ss_running st (tm_ID m)) (tt_RepoAffinity t)"
    and "cs_CompositeScore c =
      spec_score fl (mr (tm_ID m)) (load_of (ss_load st) (tm_ID m)) (tt_RepoAffinity t)"
proof -
  have idle: "is_idle (load_of (ss_load st) (tm_ID m))" using score_member_Some[OF assms(1)] by simp
  then have q: "ld_RunningCount (load_of (ss_load st) (tm_ID m)) +
      ld_AssignedCount (load_of (ss_load st) (tm_ID m)) = 0" by (simp add: is_idle_def)
  show "cs_CompositeScore c =
      spec_score fl (mr (tm_ID m)) (load_of (ss_load st) (tm_ID m)) (tt_RepoAffinity t)"
    using assms(1) q by (auto simp: score_member_def Let_def spec_score_def split: prod.splits if_splits)
  have same: "hasRunningSameRepoTask (tt_RepoAffinity t) b \<longleftrightarrow> set (tt_RepoAffinity t) \<inter> b \<noteq> {}" for b
    by (auto simp: hasRunningSameRepoTask_def list_ex_iff)
  show "cs_PriorityTier c = spec_tier (mr (tm_ID m)) (ss_running st (tm_ID m)) (tt_RepoAffinity t)"
    using assms(1) idle unfolding score_member_def computeRepoCoverage_spec[OF assms(2)] Let_def same
    by (auto simp: computePriorityTier_def spec_tier_def P1_def P2_def P3_def P4_def split: if_splits)
qed

text \<open>
  For an unassigned task with repositories, the first pass chooses among the members that are
  idle at that moment: it assigns the task exactly when there is one, and no idle member has a
  lower tier than the chosen one, or the same tier and a higher score.
\<close>

theorem affinity_step_optimal:
  assumes "sorts_candidates sorter" and "\<not> has_assignee t" and "tt_RepoAffinity t \<noteq> []"
  shows "let idle = (\<lambda>m. is_idle (load_of (ss_load st) (tm_ID m)));
             tier = (\<lambda>m. spec_tier (mr (tm_ID m)) (ss_running st (tm_ID m)) (tt_RepoAffinity t));
             score = (\<lambda>m. spec_score fl (mr (tm_ID m)) (load_of (ss_load st) (tm_ID m)) (tt_RepoAffinity t));
             t' = fst (affinity_step fl sorter ctx mr t st)
    in if \<exists>m \<in> set (sc_Members ctx). idle m
       then \<exists>m \<in> set (sc_Members ctx). idle m \<and> t' = assign_to (tm_ID m) t \<and>
              (\<forall>m' \<in> set (sc_Members ctx). idle m' \<longrightarrow>
                 tier m < tier m' \<or> tier m = tier m' \<and> score m' \<le> score m)
       else t' = t"
proof (rule affinity_step_cases[OF assms(1), of fl ctx mr t st])
  assume "affinity_step fl sorter ctx mr t st = (t, st)"
    "has_assignee t \<or> tt_RepoAffinity t = [] \<or>
     (\<forall>m \<in> set (sc_Members ctx). \<not> is_idle (load_of (ss_load st) (tm_ID m)))"
  with assms show ?thesis by (auto simp: Let_def)
next
  fix m c st'
  assume a: "m \<in> set (sc_Members ctx)" "score_member fl mr st t m = Some c"
    "\<And>c'. c' \<in> set (scoreCandidates fl ctx mr st t) \<Longrightarrow> \<not> candidate_less c' c"
    "affinity_step fl sorter ctx mr t st = (assign_to (tm_ID m) t, st')"
  let ?tier = "\<lambda>m. spec_tier (mr (tm_ID m)) (ss_running st (tm_ID m)) (tt_RepoAffinity t)"
  let ?score = "\<lambda>m. spec_score fl (mr (tm_ID m)) (load_of (ss_load st) (tm_ID m)) (tt_RepoAffinity t)"
  have idle: "is_idle (load_of (ss_load st) (tm_ID m))" using score_member_Some[OF a(2)] by simp
  have "?tier m < ?tier m' \<or> ?tier m = ?tier m' \<and> ?score m' \<le> ?score m"
    if m': "m' \<in> set (sc_Members ctx)" "is_idle (load_of (ss_load st) (tm_ID m'))" for m'
  proof -
    obtain c' where c': "score_member fl mr st t m' = Some c'"
      using m'(2) score_member_None[of fl mr st t m'] by auto
    then have "\<not> candidate_less c' c" using a(3) m'(1) by (auto simp: set_scoreCandidates)
    then show ?thesis
      unfolding candidate_less_def score_member_spec[OF a(2) assms(3)] score_member_spec[OF c' assms(3)]
      by (auto split: if_splits)
  qed
  with a(1,4) idle show ?thesis by (auto simp: Let_def)
qed

theorem affinity_step_optimal_witness:
  "sorts_candidates key_sorter \<and> \<not> has_assignee (task_example ''t'' [''r'']) \<and>
   tt_RepoAffinity (task_example ''t'' [''r'']) \<noteq> [] \<and>
   (\<exists>m \<in> set (sc_Members ctx_example).
      fst (affinity_step fl_percent key_sorter ctx_example (\<lambda>_. Map.empty) (task_example ''t'' [''r''])
        \<lparr>ss_load = Map.empty, ss_running = \<lambda>_. {}\<rparr>) = assign_to (tm_ID m) (task_example ''t'' [''r'']))"
proof -
  have t: "\<not> has_assignee (task_example ''t'' [''r''])" "tt_RepoAffinity (task_example ''t'' [''r'']) \<noteq> []"
    by (simp_all add: task_example_def has_assignee_def)
  have "\<exists>m \<in> set (sc_Members ctx_example). is_idle (load_of Map.empty (tm_ID m))"
    by (auto simp: ctx_example_def load_of_def is_idle_def zero_load_def)
  then show ?thesis
    using affinity_step_optimal[OF key_sorter_sorts t, where fl = fl_percent and ctx = ctx_example and
        mr = "\<lambda>_. Map.empty" and st = "\<lparr>ss_load = Map.empty, ss_running = \<lambda>_. {}\<rparr>"]
      key_sorter_sorts t by (auto simp: Let_def)
qed

text \<open>
  A member with work in its queue is never a candidate of the first pass, whatever it is
  working on; and when the repositories recorded as in use belong to busy members only, which every
  step preserves, the same-repository rule changes no tier at all.
\<close>

theorem same_repo_boost_unused:
  assumes "sorts_candidates sorter"
    and "\<forall>i. ss_running st i \<noteq> {} \<longrightarrow> \<not> is_idle (load_of (ss_load st) i)"
    and "\<forall>i l. ss_load st i = Some l \<longrightarrow> 0 \<le> ld_RunningCount l \<and> 0 \<le> ld_AssignedCount l"
  shows "(case computeRepoCoverage (tt_RepoAffinity t) (mr (tm_ID m)) of (hasAll, hasSome, dirty) \<Rightarrow>
      (case score_member fl mr st t m of
         None \<Rightarrow> \<not> is_idle (load_of (ss_load st) (tm_ID m))
       | Some c \<Rightarrow> cs_PriorityTier c = computePriorityTier hasAll hasSome dirty True)) \<and>
    (\<forall>i. ss_running (snd (affinity_step fl sorter ctx mr t st)) i \<noteq> {} \<longrightarrow>
       \<not> is_idle (load_of (ss_load (snd (affinity_step fl sorter ctx mr t st))) i))"
proof (intro conjI allI impI)
  obtain hasAll hasSome dirty where cov:
    "computeRepoCoverage (tt_RepoAffinity t) (mr (tm_ID m)) = (hasAll, hasSome, dirty)"
    using prod_cases3 by blast
  show "case computeRepoCoverage (tt_RepoAffinity t) (mr (tm_ID m)) of (hasAll, hasSome, dirty) \<Rightarrow>
      (case score_member fl mr st t m of
         None \<Rightarrow> \<not> is_idle (load_of (ss_load st) (tm_ID m))
       | Some c \<Rightarrow> cs_PriorityTier c = computePriorityTier hasAll hasSome dirty True)"
  proof (cases "score_member fl mr st t m")
    case None
    then show ?thesis using score_member_None[of fl mr st t m] by (simp add: cov)
  next
    case (Some c)
    then have idle: "is_idle (load_of (ss_load st) (tm_ID m))" using score_member_Some by blast
    then have "ss_running st (tm_ID m) = {}" using assms(2) by blast
    then have "\<not> hasRunningSameRepoTask (tt_RepoAffinity t) (ss_running st (tm_ID m))"
      by (simp add: hasRunningSameRepoTask_def list_ex_iff)
    with Some idle show ?thesis
      by (auto simp: score_member_def Let_def cov split: if_splits)
  qed
next
  fix i
  assume i: "ss_running (snd (affinity_step fl sorter ctx mr t st)) i \<noteq> {}"
  have nn: "0 \<le> ld_RunningCount (load_of (ss_load st) j)" "0 \<le> ld_AssignedCount (load_of (ss_load st) j)" for j
    using assms(3) by (auto simp: load_of_def zero_load_def split: option.splits)
  show "\<not> is_idle (load_of (ss_load (snd (affinity_step fl sorter ctx mr t st))) i)"
    using i assms(2) nn[of i]
    by (auto simp: affinity_step_def Let_def load_of_update is_idle_def split: if_splits)
qed

definition busy_example :: sched_state where
  "busy_example = \<lparr>ss_load = [''m'' \<mapsto> zero_load\<lparr>ld_RunningCount := 1\<rparr>],
     ss_running = (\<lambda>i. if i = ''m'' then {''r''} else {})\<rparr>"

theorem same_repo_boost_unused_witness:
  "score_member fl_percent (\<lambda>_. Map.empty) busy_example (task_example ''t'' [''r'']) (member_example ''m'') = None \<and>
   \<not> is_idle (load_of (ss_load (snd (affinity_step fl_percent key_sorter ctx_example (\<lambda>_. Map.empty)
       (task_example ''t'' [''r'']) busy_example))) ''m'')"
proof -
  have run: "ss_running (snd (affinity_step fl_percent key_sorter ctx_example (\<lambda>_. Map.empty)
       (task_example ''t'' [''r'']) busy_example)) ''m'' \<noteq> {}" by code_simp
  have none: "score_member fl_percent (\<lambda>_. Map.empty) busy_example (task_example ''t'' [''r'']) (member_example ''m'') = None"
    by code_simp
  from run none show ?thesis
    using same_repo_boost_unused[OF key_sorter_sorts, where fl = fl_percent and ctx = ctx_example and
      mr = "\<lambda>_. Map.empty" and st = busy_example and m = "member_example ''m''" and
      t = "task_example ''t'' [''r'']"]
    by (simp add: busy_example_def is_idle_def load_of_def zero_load_def)
qed

end
