(* ===== verification/Team_Hub.thy ===== *)
theory Team_Hub
  imports Team_Scheduler
begin

text \<open>
  The hub of the team sessions (\<^verbatim>\<open>server/internal/team/hub.go\<close>, \<^verbatim>\<open>types.go\<close>), the choice of a
  decomposition target (\<^verbatim>\<open>decompose.go\<close>), the scheduling context and the connection set-up
  (\<^verbatim>\<open>handlers.go\<close>): WebSocket connections of the machines of a session, routing, the offline
  backlog and the replay log in Redis, and the leader lock with its fencing token.

  Redis and the JSON codec are arguments: the record \<open>redis_ops\<close> has one field per command the hub
  issues (\<open>None\<close> in place of an error or a nil reply), and what Redis documents of them is stated by
  \<open>redis_lists\<close> and \<open>redis_locks\<close> for the theorems that need it.  The connection table holds
  each connection with the contents of its buffered send channel.  The sets of connections of a session are
  lists, so that the order of a broadcast is the order of the list.
\<close>

section \<open>Data\<close>

record 'p CloudEvent =
  ev_EventID :: string
  ev_Type :: string
  ev_SessionID :: string
  ev_Timestamp :: int
  ev_Payload :: 'p

record WSConnection =
  ws_ID :: string
  ws_UserID :: string
  ws_MachineID :: string
  ws_SessionID :: string
  ws_Send :: "string list"

definition DefaultSendChannelCapacity :: nat where
  "DefaultSendChannelCapacity = 256"

definition DefaultEventLogMaxLen :: int where
  "DefaultEventLogMaxLen = 200"

definition DefaultLeaderLockTTLSec :: int where
  "DefaultLeaderLockTTLSec = 30"

definition DefaultEventBacklogTTLMin :: int where
  "DefaultEventBacklogTTLMin = 60"

record 'r redis_ops =
  rd_SetNX :: "string \<Rightarrow> string \<Rightarrow> int \<Rightarrow> 'r \<Rightarrow> bool \<times> 'r"
  rd_Get :: "string \<Rightarrow> 'r \<Rightarrow> string option"
  rd_GetInt :: "string \<Rightarrow> 'r \<Rightarrow> int option"
  rd_SetInt :: "string \<Rightarrow> int \<Rightarrow> int \<Rightarrow> 'r \<Rightarrow> 'r"
  rd_Expire :: "string \<Rightarrow> int \<Rightarrow> 'r \<Rightarrow> 'r"
  rd_Del :: "string \<Rightarrow> 'r \<Rightarrow> 'r"
  rd_Incr :: "string \<Rightarrow> 'r \<Rightarrow> int option \<times> 'r"
  rd_RPush :: "string \<Rightarrow> string \<Rightarrow> 'r \<Rightarrow> 'r"
  rd_LTrim :: "string \<Rightarrow> int \<Rightarrow> int \<Rightarrow> 'r \<Rightarrow> 'r"
  rd_LRange :: "string \<Rightarrow> 'r \<Rightarrow> string list option"

record 'p event_codec =
  ec_marshal :: "'p CloudEvent \<Rightarrow> string option"
  ec_unmarshal :: "string \<Rightarrow> 'p CloudEvent option"

record ('p, 'r) Hub =
  hb_conns :: "string \<Rightarrow> WSConnection option"
  hb_sessionConns :: "string \<Rightarrow> string list option"
  hb_machineConns :: "string \<Rightarrow> string option"
  hb_redis :: "'r option"
  hb_exploreChans :: "string \<Rightarrow> 'p CloudEvent list option"
  hb_decomposeChans :: "string \<Rightarrow> 'p CloudEvent list option"
  hb_leaderExpiredSent :: "string set"

definition NewHub :: "'r option \<Rightarrow> ('p, 'r) Hub" where
  "NewHub rc = \<lparr>hb_conns = Map.empty, hb_sessionConns = Map.empty, hb_machineConns = Map.empty,
     hb_redis = rc, hb_exploreChans = Map.empty, hb_decomposeChans = Map.empty,
     hb_leaderExpiredSent = {}\<rparr>"

definition session_key :: "string \<Rightarrow> string \<Rightarrow> string" where
  "session_key sessionID rest = ''team:session:'' @ sessionID @ rest"

definition redisKeyLeaderLock :: "string \<Rightarrow> string" where
  "redisKeyLeaderLock sessionID = session_key sessionID '':leader_lock''"

definition redisKeyFencingToken :: "string \<Rightarrow> string" where
  "redisKeyFencingToken sessionID = session_key sessionID '':fencing_token''"

definition redisKeyPresence :: "string \<Rightarrow> string \<Rightarrow> string" where
  "redisKeyPresence sessionID machineID = session_key sessionID ('':presence:'' @ machineID)"

definition redisKeyBacklog :: "string \<Rightarrow> string \<Rightarrow> string" where
  "redisKeyBacklog sessionID machineID = session_key sessionID ('':backlog:'' @ machineID)"

definition redisKeyEventLog :: "string \<Rightarrow> string" where
  "redisKeyEventLog sessionID = session_key sessionID '':events''"

definition machineKey :: "string \<Rightarrow> string \<Rightarrow> string" where
  "machineKey sessionID machineID = sessionID @ '':'' @ machineID"

section \<open>Connections\<close>

definition Register :: "WSConnection \<Rightarrow> ('p, 'r) Hub \<Rightarrow> ('p, 'r) Hub" where
  "Register conn h =
     (let subs = (case hb_sessionConns h (ws_SessionID conn) of None \<Rightarrow> [] | Some subs \<Rightarrow> subs)
      in h\<lparr>hb_conns := (hb_conns h)(ws_ID conn \<mapsto> conn),
           hb_sessionConns := (hb_sessionConns h)(ws_SessionID conn \<mapsto> List.insert (ws_ID conn) subs),
           hb_machineConns := (hb_machineConns h)
             (machineKey (ws_SessionID conn) (ws_MachineID conn) \<mapsto> ws_ID conn)\<rparr>)"

definition Unregister :: "WSConnection \<Rightarrow> ('p, 'r) Hub \<Rightarrow> ('p, 'r) Hub" where
  "Unregister conn h =
     (let key = machineKey (ws_SessionID conn) (ws_MachineID conn)
      in h\<lparr>hb_conns := (hb_conns h)(ws_ID conn := None),
           hb_sessionConns :=
             (case hb_sessionConns h (ws_SessionID conn) of
                None \<Rightarrow> hb_sessionConns h
              | Some subs \<Rightarrow>
                  let subs' = removeAll (ws_ID conn) subs
                  in (hb_sessionConns h)(ws_SessionID conn := (if subs' = [] then None else Some subs'))),
           hb_machineConns :=
             (if hb_machineConns h key = Some (ws_ID conn) then (hb_machineConns h)(key := None)
              else hb_machineConns h)\<rparr>)"

definition on_redis :: "('r \<Rightarrow> 'r) \<Rightarrow> ('p, 'r) Hub \<Rightarrow> ('p, 'r) Hub" where
  "on_redis f h = h\<lparr>hb_redis := map_option f (hb_redis h)\<rparr>"

definition appendBacklog ::
  "'r redis_ops \<Rightarrow> 'p event_codec \<Rightarrow> string \<Rightarrow> string \<Rightarrow> 'p CloudEvent \<Rightarrow> ('p, 'r) Hub \<Rightarrow> ('p, 'r) Hub" where
  "appendBacklog ops cd sessionID machineID evt h =
     (if hb_redis h = None then h
      else let key = redisKeyBacklog sessionID machineID
           in case ec_marshal cd evt of
                None \<Rightarrow> h
              | Some raw \<Rightarrow>
                  on_redis (rd_Expire ops key (DefaultEventBacklogTTLMin * 60) \<circ> rd_RPush ops key raw) h)"

definition appendEventLog ::
  "'r redis_ops \<Rightarrow> 'p event_codec \<Rightarrow> string \<Rightarrow> 'p CloudEvent \<Rightarrow> ('p, 'r) Hub \<Rightarrow> ('p, 'r) Hub" where
  "appendEventLog ops cd sessionID evt h =
     (if hb_redis h = None then h
      else let key = redisKeyEventLog sessionID
           in case ec_marshal cd evt of
                None \<Rightarrow> h
              | Some raw \<Rightarrow>
                  on_redis (rd_Expire ops key (DefaultEventBacklogTTLMin * 60) \<circ>
                    rd_LTrim ops key 0 (DefaultEventLogMaxLen - 1) \<circ> rd_RPush ops key raw) h)"

text \<open>A non-blocking send on a buffered channel.\<close>

definition try_send :: "nat \<Rightarrow> 'a \<Rightarrow> 'a list \<Rightarrow> 'a list" where
  "try_send cap x buf = (if length buf < cap then buf @ [x] else buf)"

definition deliver ::
  "'r redis_ops \<Rightarrow> 'p event_codec \<Rightarrow> WSConnection \<Rightarrow> 'p CloudEvent \<Rightarrow> ('p, 'r) Hub \<Rightarrow> ('p, 'r) Hub" where
  "deliver ops cd conn evt h =
     (case ec_marshal cd evt of
        None \<Rightarrow> h
      | Some raw \<Rightarrow>
          appendEventLog ops cd (ws_SessionID conn) evt
            (h\<lparr>hb_conns := (hb_conns h)(ws_ID conn := map_option
                (\<lambda>c. c\<lparr>ws_Send := try_send DefaultSendChannelCapacity raw (ws_Send c)\<rparr>)
                (hb_conns h (ws_ID conn)))\<rparr>))"

definition Send ::
  "'r redis_ops \<Rightarrow> 'p event_codec \<Rightarrow> string \<Rightarrow> 'p CloudEvent \<Rightarrow> ('p, 'r) Hub \<Rightarrow> ('p, 'r) Hub" where
  "Send ops cd connID evt h =
     (case hb_conns h connID of None \<Rightarrow> h | Some conn \<Rightarrow> deliver ops cd conn evt h)"

definition machine_conn :: "('p, 'r) Hub \<Rightarrow> string \<Rightarrow> string \<Rightarrow> WSConnection option" where
  "machine_conn h sessionID machineID =
     (case hb_machineConns h (machineKey sessionID machineID) of
        None \<Rightarrow> None | Some connID \<Rightarrow> hb_conns h connID)"

definition SendToMachine ::
  "'r redis_ops \<Rightarrow> 'p event_codec \<Rightarrow> string \<Rightarrow> string \<Rightarrow> 'p CloudEvent \<Rightarrow> ('p, 'r) Hub \<Rightarrow> ('p, 'r) Hub" where
  "SendToMachine ops cd sessionID machineID evt h =
     (case machine_conn h sessionID machineID of
        Some conn \<Rightarrow> deliver ops cd conn evt h
      | None \<Rightarrow> appendBacklog ops cd sessionID machineID evt h)"

definition session_targets :: "('p, 'r) Hub \<Rightarrow> string \<Rightarrow> WSConnection list" where
  "session_targets h sessionID =
     List.map_filter (hb_conns h) (case hb_sessionConns h sessionID of None \<Rightarrow> [] | Some subs \<Rightarrow> subs)"

definition Broadcast ::
  "'r redis_ops \<Rightarrow> 'p event_codec \<Rightarrow> string \<Rightarrow> 'p CloudEvent \<Rightarrow> ('p, 'r) Hub \<Rightarrow> ('p, 'r) Hub" where
  "Broadcast ops cd sessionID evt h =
     fold (\<lambda>conn. deliver ops cd conn evt) (session_targets h sessionID) h"

definition DrainBacklog ::
  "'r redis_ops \<Rightarrow> 'p event_codec \<Rightarrow> string \<Rightarrow> string \<Rightarrow> ('p, 'r) Hub \<Rightarrow> 'p CloudEvent list \<times> ('p, 'r) Hub" where
  "DrainBacklog ops cd sessionID machineID h =
     (case hb_redis h of
        None \<Rightarrow> ([], h)
      | Some r \<Rightarrow>
          let key = redisKeyBacklog sessionID machineID
          in case rd_LRange ops key r of
               None \<Rightarrow> ([], h)
             | Some raws \<Rightarrow>
                 if raws = [] then ([], h)
                 else (List.map_filter (ec_unmarshal cd) raws, on_redis (rd_Del ops key) h))"

definition ReplayEvents ::
  "'r redis_ops \<Rightarrow> 'p event_codec \<Rightarrow> string \<Rightarrow> string \<Rightarrow> ('p, 'r) Hub \<Rightarrow> 'p CloudEvent list" where
  "ReplayEvents ops cd sessionID lastEventID h =
     (case hb_redis h of
        None \<Rightarrow> []
      | Some r \<Rightarrow>
          if lastEventID = [] then []
          else case rd_LRange ops (redisKeyEventLog sessionID) r of
            None \<Rightarrow> []
          | Some raws \<Rightarrow>
              let hit = (\<lambda>raw. case ec_unmarshal cd raw of
                           None \<Rightarrow> False | Some evt \<Rightarrow> ev_EventID evt = lastEventID)
              in if list_ex hit raws
                 then List.map_filter (ec_unmarshal cd) (tl (dropWhile (\<lambda>raw. \<not> hit raw) raws))
                 else List.map_filter (ec_unmarshal cd) raws)"

definition IsMachineOnline :: "string \<Rightarrow> string \<Rightarrow> ('p, 'r) Hub \<Rightarrow> bool" where
  "IsMachineOnline sessionID machineID h \<longleftrightarrow> hb_machineConns h (machineKey sessionID machineID) \<noteq> None"

definition MarkPresence :: "'r redis_ops \<Rightarrow> int \<Rightarrow> string \<Rightarrow> string \<Rightarrow> ('p, 'r) Hub \<Rightarrow> ('p, 'r) Hub" where
  "MarkPresence ops now sessionID machineID h =
     on_redis (rd_SetInt ops (redisKeyPresence sessionID machineID) now (DefaultLeaderLockTTLSec * 3)) h"

definition SessionConnCount :: "string \<Rightarrow> ('p, 'r) Hub \<Rightarrow> nat" where
  "SessionConnCount sessionID h =
     (case hb_sessionConns h sessionID of None \<Rightarrow> 0 | Some subs \<Rightarrow> length subs)"

section \<open>Leadership\<close>

definition ResetLeaderExpiredSent :: "string \<Rightarrow> ('p, 'r) Hub \<Rightarrow> ('p, 'r) Hub" where
  "ResetLeaderExpiredSent sessionID h =
     h\<lparr>hb_leaderExpiredSent := hb_leaderExpiredSent h - {sessionID}\<rparr>"

definition TryAcquireLeader ::
  "'r redis_ops \<Rightarrow> int \<Rightarrow> string \<Rightarrow> string \<Rightarrow> ('p, 'r) Hub \<Rightarrow> (int \<times> bool) \<times> ('p, 'r) Hub" where
  "TryAcquireLeader ops now sessionID machineID h =
     (case hb_redis h of
        None \<Rightarrow> ((now, True), ResetLeaderExpiredSent sessionID h)
      | Some r \<Rightarrow>
          (case rd_SetNX ops (redisKeyLeaderLock sessionID) machineID DefaultLeaderLockTTLSec r of
             (ok, r') \<Rightarrow>
               if \<not> ok then ((0, False), h\<lparr>hb_redis := Some r'\<rparr>)
               else case rd_Incr ops (redisKeyFencingToken sessionID) r' of
                 (None, r'') \<Rightarrow> ((0, False), h\<lparr>hb_redis := Some r''\<rparr>)
               | (Some token, r'') \<Rightarrow>
                   ((token, True), ResetLeaderExpiredSent sessionID (h\<lparr>hb_redis := Some r''\<rparr>))))"

definition RenewLeader ::
  "'r redis_ops \<Rightarrow> string \<Rightarrow> string \<Rightarrow> ('p, 'r) Hub \<Rightarrow> bool \<times> ('p, 'r) Hub" where
  "RenewLeader ops sessionID machineID h =
     (case hb_redis h of
        None \<Rightarrow> (True, h)
      | Some r \<Rightarrow>
          let lockKey = redisKeyLeaderLock sessionID
          in if rd_Get ops lockKey r \<noteq> Some machineID then (False, h)
             else (True, on_redis (rd_Expire ops lockKey DefaultLeaderLockTTLSec) h))"

definition ReleaseLeader :: "'r redis_ops \<Rightarrow> string \<Rightarrow> string \<Rightarrow> ('p, 'r) Hub \<Rightarrow> ('p, 'r) Hub" where
  "ReleaseLeader ops sessionID machineID h =
     (case hb_redis h of
        None \<Rightarrow> h
      | Some r \<Rightarrow>
          let lockKey = redisKeyLeaderLock sessionID
          in if rd_Get ops lockKey r = Some machineID then on_redis (rd_Del ops lockKey) h else h)"

definition GetLeaderMachineID :: "'r redis_ops \<Rightarrow> string \<Rightarrow> ('p, 'r) Hub \<Rightarrow> string" where
  "GetLeaderMachineID ops sessionID h =
     (case hb_redis h of
        None \<Rightarrow> []
      | Some r \<Rightarrow> (case rd_Get ops (redisKeyLeaderLock sessionID) r of None \<Rightarrow> [] | Some val \<Rightarrow> val))"

definition ValidateFencingToken :: "'r redis_ops \<Rightarrow> string \<Rightarrow> int \<Rightarrow> ('p, 'r) Hub \<Rightarrow> bool" where
  "ValidateFencingToken ops sessionID token h =
     (case hb_redis h of
        None \<Rightarrow> True
      | Some r \<Rightarrow>
          (case rd_GetInt ops (redisKeyFencingToken sessionID) r of
             None \<Rightarrow> True
           | Some current \<Rightarrow> token \<ge> current))"

definition lock_prefix :: string where
  "lock_prefix = ''team:session:''"

definition lock_suffix :: string where
  "lock_suffix = '':leader_lock''"

definition extractSessionFromLockKey :: "string \<Rightarrow> string" where
  "extractSessionFromLockKey key =
     (if length key \<le> length lock_prefix + length lock_suffix then []
      else if take (length lock_prefix) key \<noteq> lock_prefix \<or>
              drop (length key - length lock_suffix) key \<noteq> lock_suffix then []
      else drop (length lock_prefix) (take (length key - length lock_suffix) key))"

text \<open>The handling of one expiry notification by the watcher; the event is built by the caller.\<close>

definition watchLeaderExpiry_msg ::
  "'r redis_ops \<Rightarrow> 'p event_codec \<Rightarrow> (string \<Rightarrow> 'p CloudEvent) \<Rightarrow> string \<Rightarrow> ('p, 'r) Hub \<Rightarrow> ('p, 'r) Hub" where
  "watchLeaderExpiry_msg ops cd mk_event key h =
     (let sessionID = extractSessionFromLockKey key
      in if sessionID = [] then h
         else if sessionID \<in> hb_leaderExpiredSent h then h
         else Broadcast ops cd sessionID (mk_event sessionID)
                (h\<lparr>hb_leaderExpiredSent := insert sessionID (hb_leaderExpiredSent h)\<rparr>))"

section \<open>Request channels\<close>

definition RegisterExplore :: "string \<Rightarrow> ('p, 'r) Hub \<Rightarrow> ('p, 'r) Hub" where
  "RegisterExplore requestID h = h\<lparr>hb_exploreChans := (hb_exploreChans h)(requestID \<mapsto> [])\<rparr>"

definition DeliverExplore :: "string \<Rightarrow> 'p CloudEvent \<Rightarrow> ('p, 'r) Hub \<Rightarrow> ('p, 'r) Hub" where
  "DeliverExplore requestID evt h =
     (case hb_exploreChans h requestID of
        None \<Rightarrow> h
      | Some ch \<Rightarrow> h\<lparr>hb_exploreChans := (hb_exploreChans h)(requestID \<mapsto> try_send 1 evt ch)\<rparr>)"

definition CancelExplore :: "string \<Rightarrow> ('p, 'r) Hub \<Rightarrow> ('p, 'r) Hub" where
  "CancelExplore requestID h = h\<lparr>hb_exploreChans := (hb_exploreChans h)(requestID := None)\<rparr>"

definition RegisterDecompose :: "string \<Rightarrow> ('p, 'r) Hub \<Rightarrow> ('p, 'r) Hub" where
  "RegisterDecompose requestID h = h\<lparr>hb_decomposeChans := (hb_decomposeChans h)(requestID \<mapsto> [])\<rparr>"

definition DeliverDecompose :: "string \<Rightarrow> 'p CloudEvent \<Rightarrow> ('p, 'r) Hub \<Rightarrow> ('p, 'r) Hub" where
  "DeliverDecompose requestID evt h =
     (case hb_decomposeChans h requestID of
        None \<Rightarrow> h
      | Some ch \<Rightarrow> h\<lparr>hb_decomposeChans := (hb_decomposeChans h)(requestID \<mapsto> try_send 1 evt ch)\<rparr>)"

definition CancelDecompose :: "string \<Rightarrow> ('p, 'r) Hub \<Rightarrow> ('p, 'r) Hub" where
  "CancelDecompose requestID h = h\<lparr>hb_decomposeChans := (hb_decomposeChans h)(requestID := None)\<rparr>"

section \<open>Clients of the hub\<close>

text \<open>\<^verbatim>\<open>pickDecomposeTarget\<close>: the loop over the members, with the leader's member identifier seen so
  far; \<open>Inl\<close> is the identifier left when no teammate was chosen.\<close>

fun pick_teammate ::
  "('p, 'r) Hub \<Rightarrow> string \<Rightarrow> string \<Rightarrow> string \<Rightarrow> TeamSessionMember list \<Rightarrow> string + (string \<times> string)" where
  "pick_teammate h sessionID leader leaderMemberID [] = Inl leaderMemberID"
| "pick_teammate h sessionID leader leaderMemberID (m # ms) =
     (if tm_Status m \<noteq> ''online'' then pick_teammate h sessionID leader leaderMemberID ms
      else if \<not> IsMachineOnline sessionID (tm_MachineID m) h then pick_teammate h sessionID leader leaderMemberID ms
      else if leader \<noteq> [] \<and> tm_MachineID m = leader then pick_teammate h sessionID leader (tm_ID m) ms
      else Inr (tm_ID m, tm_MachineID m))"

definition pickDecomposeTarget ::
  "'r redis_ops \<Rightarrow> TeamSessionMember list option \<Rightarrow> string \<Rightarrow> ('p, 'r) Hub \<Rightarrow> (string \<times> string) option" where
  "pickDecomposeTarget ops listed sessionID h =
     (let leader = GetLeaderMachineID ops sessionID h
      in case listed of
           None \<Rightarrow> None
         | Some members \<Rightarrow>
             if members = [] then None
             else case pick_teammate h sessionID leader [] members of
               Inr target \<Rightarrow> Some target
             | Inl leaderMemberID \<Rightarrow>
                 if leader \<noteq> [] \<and> IsMachineOnline sessionID leader h then Some (leaderMemberID, leader)
                 else None)"

text \<open>\<^verbatim>\<open>buildSchedulingContext\<close> from the results of its four queries.\<close>

definition buildSchedulingContext ::
  "('p, 'r) Hub \<Rightarrow> string \<Rightarrow> TeamSessionMember list option \<Rightarrow> TeamRepoAffinity list option \<Rightarrow>
   TeamTask list option \<Rightarrow> (string \<Rightarrow> MemberLoadInfo option) option \<Rightarrow> SchedulingContext option" where
  "buildSchedulingContext h sessionID members affinities running memberLoad =
     (case (members, affinities, running, memberLoad) of
        (Some ms, Some as, Some rs, Some ld) \<Rightarrow>
          Some \<lparr>sc_Members = filter (\<lambda>m. IsMachineOnline sessionID (tm_MachineID m) h) ms,
                sc_RepoAffinities = as, sc_RunningTasks = rs, sc_MemberLoad = ld\<rparr>
      | _ \<Rightarrow> None)"

text \<open>The connection set-up of \<^verbatim>\<open>ServeWS\<close> from the registration up to the start of the write pump.  The drained
  backlog is sent with blocking sends, and nothing receives yet, so a full channel blocks for ever
  (\<open>None\<close>); the replay uses non-blocking sends, and the status event at the end goes to every connection
  of the session, the new one included.  The connection is registered before its backlog is read:
  \<open>others k\<close> are the events that other goroutines deliver to it before step \<open>k\<close>.  The row of the member
  that is marked online is not part of the hub.\<close>

definition delivered ::
  "'r redis_ops \<Rightarrow> 'p event_codec \<Rightarrow> WSConnection \<Rightarrow> 'p CloudEvent list \<Rightarrow> ('p, 'r) Hub \<Rightarrow> ('p, 'r) Hub" where
  "delivered ops cd conn evts h = fold (deliver ops cd conn) evts h"

definition on_channel :: "string \<Rightarrow> (string list \<Rightarrow> string list) \<Rightarrow> ('p, 'r) Hub \<Rightarrow> ('p, 'r) Hub" where
  "on_channel connID f h =
     h\<lparr>hb_conns := (hb_conns h)(connID := map_option (\<lambda>c. c\<lparr>ws_Send := f (ws_Send c)\<rparr>) (hb_conns h connID))\<rparr>"

definition channel :: "string \<Rightarrow> ('p, 'r) Hub \<Rightarrow> string list" where
  "channel connID h = (case hb_conns h connID of None \<Rightarrow> [] | Some c \<Rightarrow> ws_Send c)"

fun send_backlog ::
  "'r redis_ops \<Rightarrow> 'p event_codec \<Rightarrow> (nat \<Rightarrow> 'p CloudEvent list) \<Rightarrow> nat \<Rightarrow> WSConnection \<Rightarrow> 'p CloudEvent list \<Rightarrow>
   ('p, 'r) Hub \<Rightarrow> ('p, 'r) Hub option" where
  "send_backlog ops cd others k conn [] h = Some h"
| "send_backlog ops cd others k conn (evt # evts) h =
     (let h1 = delivered ops cd conn (others k) h
      in case ec_marshal cd evt of
           None \<Rightarrow> send_backlog ops cd others (Suc k) conn evts h1
         | Some data \<Rightarrow>
             if length (channel (ws_ID conn) h1) < DefaultSendChannelCapacity
             then send_backlog ops cd others (Suc k) conn evts (on_channel (ws_ID conn) (\<lambda>b. b @ [data]) h1)
             else None)"

fun send_replay ::
  "'r redis_ops \<Rightarrow> 'p event_codec \<Rightarrow> (nat \<Rightarrow> 'p CloudEvent list) \<Rightarrow> nat \<Rightarrow> WSConnection \<Rightarrow> 'p CloudEvent list \<Rightarrow>
   ('p, 'r) Hub \<Rightarrow> ('p, 'r) Hub" where
  "send_replay ops cd others k conn [] h = h"
| "send_replay ops cd others k conn (evt # evts) h =
     (let h1 = delivered ops cd conn (others k) h
      in case ec_marshal cd evt of
           None \<Rightarrow> send_replay ops cd others (Suc k) conn evts h1
         | Some data \<Rightarrow>
             send_replay ops cd others (Suc k) conn evts
               (on_channel (ws_ID conn) (try_send DefaultSendChannelCapacity data) h1))"

definition ServeWS_setup ::
  "'r redis_ops \<Rightarrow> 'p event_codec \<Rightarrow> int \<Rightarrow> (nat \<Rightarrow> 'p CloudEvent list) \<Rightarrow> 'p CloudEvent \<Rightarrow> WSConnection \<Rightarrow> string \<Rightarrow>
   ('p, 'r) Hub \<Rightarrow> ('p, 'r) Hub option" where
  "ServeWS_setup ops cd now others status conn lastEventID h =
     (let s = ws_SessionID conn; m = ws_MachineID conn;
          h1 = MarkPresence ops now s m (Register (conn\<lparr>ws_Send := []\<rparr>) h)
      in case DrainBacklog ops cd s m (delivered ops cd conn (others 0) h1) of (backlog, h2) \<Rightarrow>
        (case send_backlog ops cd others 1 conn backlog h2 of
           None \<Rightarrow> None
         | Some h3 \<Rightarrow>
             let k = Suc (length backlog);
                 replayed = (if lastEventID \<noteq> [] then ReplayEvents ops cd s lastEventID h3 else []);
                 h4 = send_replay ops cd others k conn replayed h3
             in Some (Broadcast ops cd s status (delivered ops cd conn (others (k + length replayed)) h4))))"

section \<open>The connection tables\<close>

definition hub_inv :: "('p, 'r) Hub \<Rightarrow> bool" where
  "hub_inv h \<longleftrightarrow>
     (\<forall>i c. hb_conns h i = Some c \<longrightarrow> ws_ID c = i \<and> CHR '':'' \<notin> set (ws_SessionID c)) \<and>
     (\<forall>s l. hb_sessionConns h s = Some l \<longrightarrow> l \<noteq> [] \<and> distinct l) \<and>
     (\<forall>s i. (\<exists>l. hb_sessionConns h s = Some l \<and> i \<in> set l) \<longleftrightarrow>
            (\<exists>c. hb_conns h i = Some c \<and> ws_SessionID c = s)) \<and>
     (\<forall>k i. hb_machineConns h k = Some i \<longrightarrow>
        (\<exists>c. hb_conns h i = Some c \<and> machineKey (ws_SessionID c) (ws_MachineID c) = k))"

lemma hub_invD:
  assumes "hub_inv h"
  shows "hb_conns h i = Some c \<Longrightarrow> ws_ID c = i"
    and "hb_conns h i = Some c \<Longrightarrow> CHR '':'' \<notin> set (ws_SessionID c)"
    and "hb_sessionConns h s = Some l \<Longrightarrow> l \<noteq> [] \<and> distinct l"
    and "(\<exists>l. hb_sessionConns h s = Some l \<and> i \<in> set l) \<longleftrightarrow>
      (\<exists>c. hb_conns h i = Some c \<and> ws_SessionID c = s)"
    and "hb_machineConns h k = Some i \<Longrightarrow>
      \<exists>c. hb_conns h i = Some c \<and> machineKey (ws_SessionID c) (ws_MachineID c) = k"
  using assms unfolding hub_inv_def by blast+

lemma hub_inv_new: "hub_inv (NewHub rc)"
  by (simp add: hub_inv_def NewHub_def)

lemma hub_inv_Register:
  assumes inv: "hub_inv h" and fresh: "hb_conns h (ws_ID conn) = None"
    and uuid: "CHR '':'' \<notin> set (ws_SessionID conn)"
  shows "hub_inv (Register conn h)"
proof -
  let ?h = "Register conn h"
  let ?old = "case hb_sessionConns h (ws_SessionID conn) of None \<Rightarrow> [] | Some subs \<Rightarrow> subs"
  have conns: "hb_conns ?h = (hb_conns h)(ws_ID conn \<mapsto> conn)"
    and sess: "hb_sessionConns ?h =
      (hb_sessionConns h)(ws_SessionID conn \<mapsto> List.insert (ws_ID conn) ?old)"
    and mach: "hb_machineConns ?h =
      (hb_machineConns h)(machineKey (ws_SessionID conn) (ws_MachineID conn) \<mapsto> ws_ID conn)"
    by (simp_all add: Register_def Let_def)
  have old: "i \<in> set ?old \<longleftrightarrow> (\<exists>c. hb_conns h i = Some c \<and> ws_SessionID c = ws_SessionID conn)" for i
    using hub_invD(4)[OF inv, of "ws_SessionID conn" i] by (auto split: option.splits)
  have "distinct ?old" using hub_invD(3)[OF inv] by (auto split: option.split)
  then have d: "distinct (List.insert (ws_ID conn) ?old)" by (rule distinct_insert[THEN iffD2])
  have ne: "List.insert (ws_ID conn) xs \<noteq> []" for xs by (metis empty_iff insertI1 set_empty List.set_insert)
  show ?thesis
    unfolding hub_inv_def conns sess mach
  proof (intro conjI allI impI)
    fix s i
    show "(\<exists>l. ((hb_sessionConns h)(ws_SessionID conn \<mapsto> List.insert (ws_ID conn) ?old)) s = Some l \<and> i \<in> set l)
      \<longleftrightarrow> (\<exists>c. ((hb_conns h)(ws_ID conn \<mapsto> conn)) i = Some c \<and> ws_SessionID c = s)"
      using old[of i] fresh hub_invD(4)[OF inv, of s i] by auto
  next
    fix s l
    assume "((hb_sessionConns h)(ws_SessionID conn \<mapsto> List.insert (ws_ID conn) ?old)) s = Some l"
    then show "l \<noteq> []" "distinct l"
      using hub_invD(3)[OF inv, of s l] d ne by (auto simp del: distinct_insert split: if_split_asm)
  next
    fix k i
    assume "((hb_machineConns h)(machineKey (ws_SessionID conn) (ws_MachineID conn) \<mapsto> ws_ID conn)) k = Some i"
    then show "\<exists>c. ((hb_conns h)(ws_ID conn \<mapsto> conn)) i = Some c \<and>
        machineKey (ws_SessionID c) (ws_MachineID c) = k"
      using hub_invD(5)[OF inv, of k i] fresh by (auto split: if_splits)
  qed (use hub_invD(1,2)[OF inv] uuid in \<open>auto split: if_splits\<close>)
qed

lemma hub_inv_Unregister:
  assumes inv: "hub_inv h" and c0: "hb_conns h (ws_ID conn) = Some c0"
    and same: "ws_SessionID c0 = ws_SessionID conn" "ws_MachineID c0 = ws_MachineID conn"
  shows "hub_inv (Unregister conn h)"
proof -
  let ?h = "Unregister conn h"
  let ?k = "machineKey (ws_SessionID conn) (ws_MachineID conn)"
  obtain subs where subs: "hb_sessionConns h (ws_SessionID conn) = Some subs" "ws_ID conn \<in> set subs"
    using hub_invD(4)[OF inv, of "ws_SessionID conn" "ws_ID conn"] c0 same by auto
  let ?subs = "removeAll (ws_ID conn) subs"
  have conns: "hb_conns ?h = (hb_conns h)(ws_ID conn := None)"
    and sess: "hb_sessionConns ?h =
      (hb_sessionConns h)(ws_SessionID conn := (if ?subs = [] then None else Some ?subs))"
    and mach: "hb_machineConns ?h = (if hb_machineConns h ?k = Some (ws_ID conn)
      then (hb_machineConns h)(?k := None) else hb_machineConns h)"
    using subs(1) by (simp_all add: Unregister_def Let_def)
  have in_sess: "(\<exists>l. hb_sessionConns ?h s = Some l \<and> i \<in> set l) \<longleftrightarrow>
      (\<exists>l. hb_sessionConns h s = Some l \<and> i \<in> set l) \<and> \<not> (s = ws_SessionID conn \<and> i = ws_ID conn)" for s i
  proof (cases "s = ws_SessionID conn")
    case True
    have "(\<exists>l. (if ?subs = [] then None else Some ?subs) = Some l \<and> i \<in> set l) \<longleftrightarrow> i \<in> set ?subs"
      by (metis empty_iff empty_set option.distinct(1) option.inject)
    with True subs(1) show ?thesis unfolding sess by simp
  qed (simp add: sess)
  show ?thesis
    unfolding hub_inv_def
  proof (intro conjI allI impI)
    fix s i
    show "(\<exists>l. hb_sessionConns ?h s = Some l \<and> i \<in> set l) \<longleftrightarrow>
        (\<exists>c. hb_conns ?h i = Some c \<and> ws_SessionID c = s)"
      unfolding in_sess hub_invD(4)[OF inv] conns using c0 same by auto
  next
    fix s l
    assume "hb_sessionConns ?h s = Some l"
    then show "l \<noteq> []" "distinct l"
      unfolding sess using hub_invD(3)[OF inv] subs(1) by (auto simp: distinct_removeAll split: if_splits)
  next
    fix k i
    assume k: "hb_machineConns ?h k = Some i"
    then have old: "hb_machineConns h k = Some i" unfolding mach by (auto split: if_splits)
    then obtain c where c: "hb_conns h i = Some c" "machineKey (ws_SessionID c) (ws_MachineID c) = k"
      using hub_invD(5)[OF inv] by blast
    have "i \<noteq> ws_ID conn"
    proof
      assume i: "i = ws_ID conn"
      with c c0 same have "k = ?k" by simp
      with i old k show False unfolding mach by simp
    qed
    with c show "\<exists>c. hb_conns ?h i = Some c \<and> machineKey (ws_SessionID c) (ws_MachineID c) = k"
      unfolding conns by auto
  qed (use hub_invD(1,2)[OF inv] conns in \<open>auto split: if_splits\<close>)
qed

definition pushed :: "string \<Rightarrow> WSConnection \<Rightarrow> WSConnection" where
  "pushed raw c = c\<lparr>ws_Send := try_send DefaultSendChannelCapacity raw (ws_Send c)\<rparr>"

lemma pushed_sel [simp]:
  "ws_ID (pushed raw c) = ws_ID c" "ws_SessionID (pushed raw c) = ws_SessionID c"
  "ws_MachineID (pushed raw c) = ws_MachineID c"
  by (simp_all add: pushed_def)

lemma on_redis_sel [simp]:
  "hb_conns (on_redis f h) = hb_conns h" "hb_sessionConns (on_redis f h) = hb_sessionConns h"
  "hb_machineConns (on_redis f h) = hb_machineConns h" "hb_redis (on_redis f h) = map_option f (hb_redis h)"
  by (simp_all add: on_redis_def)

lemma append_tables [simp]:
  "hb_conns (appendEventLog ops cd s evt h) = hb_conns h"
  "hb_sessionConns (appendEventLog ops cd s evt h) = hb_sessionConns h"
  "hb_machineConns (appendEventLog ops cd s evt h) = hb_machineConns h"
  "hb_conns (appendBacklog ops cd s m evt h) = hb_conns h"
  "hb_sessionConns (appendBacklog ops cd s m evt h) = hb_sessionConns h"
  "hb_machineConns (appendBacklog ops cd s m evt h) = hb_machineConns h"
  by (simp_all add: appendEventLog_def appendBacklog_def Let_def split: option.split)

lemma deliver_tables:
  assumes "ec_marshal cd evt = Some raw"
  shows "hb_conns (deliver ops cd conn evt h) =
      (hb_conns h)(ws_ID conn := map_option (pushed raw) (hb_conns h (ws_ID conn)))"
    and "hb_sessionConns (deliver ops cd conn evt h) = hb_sessionConns h"
    and "hb_machineConns (deliver ops cd conn evt h) = hb_machineConns h"
  using assms by (simp_all add: deliver_def pushed_def[abs_def])

lemma deliver_unencodable: "ec_marshal cd evt = None \<Longrightarrow> deliver ops cd conn evt h = h"
  by (simp add: deliver_def)

text \<open>Only send channels change: the tables stay consistent.\<close>

lemma hub_inv_cong:
  assumes "hub_inv h" and "hb_sessionConns h' = hb_sessionConns h" and "hb_machineConns h' = hb_machineConns h"
    and "\<And>i. map_option (\<lambda>c. (ws_ID c, ws_SessionID c, ws_MachineID c)) (hb_conns h' i) =
      map_option (\<lambda>c. (ws_ID c, ws_SessionID c, ws_MachineID c)) (hb_conns h i)"
  shows "hub_inv h'"
proof -
  have c: "(\<exists>c. hb_conns h' i = Some c \<and> P (ws_ID c) (ws_SessionID c) (ws_MachineID c)) \<longleftrightarrow>
      (\<exists>c. hb_conns h i = Some c \<and> P (ws_ID c) (ws_SessionID c) (ws_MachineID c))" for i P
    using assms(4)[of i] by (cases "hb_conns h i"; cases "hb_conns h' i") auto
  have 1: "ws_ID c = i \<and> CHR '':'' \<notin> set (ws_SessionID c)" if "hb_conns h' i = Some c" for i c
    using assms(4)[of i] that hub_invD(1,2)[OF assms(1), of i] by (cases "hb_conns h i") auto
  have 2: "(\<exists>l. hb_sessionConns h s = Some l \<and> i \<in> set l) \<longleftrightarrow>
      (\<exists>c. hb_conns h' i = Some c \<and> ws_SessionID c = s)" for s i
    using c[of i "\<lambda>_ x _. x = s"] hub_invD(4)[OF assms(1), of s i] by simp
  have 3: "\<exists>c. hb_conns h' i = Some c \<and> machineKey (ws_SessionID c) (ws_MachineID c) = k"
    if "hb_machineConns h k = Some i" for k i
    using c[of i "\<lambda>_ x y. machineKey x y = k"] hub_invD(5)[OF assms(1) that] by simp
  show ?thesis
    unfolding hub_inv_def assms(2,3) using 1 2 3 hub_invD(3)[OF assms(1)] by blast
qed

lemma hub_inv_deliver: "hub_inv h \<Longrightarrow> hub_inv (deliver ops cd conn evt h)"
proof (cases "ec_marshal cd evt")
  case (Some raw)
  assume "hub_inv h"
  then show ?thesis
    by (rule hub_inv_cong) (simp_all add: deliver_tables[OF Some] option.map_comp comp_def)
qed (simp add: deliver_unencodable)

lemma fold_deliver_conns:
  assumes "ec_marshal cd evt = Some raw" and "distinct (map ws_ID cs)"
  shows "hb_conns (fold (\<lambda>c. deliver ops cd c evt) cs h) i =
      (if i \<in> ws_ID ` set cs then map_option (pushed raw) (hb_conns h i) else hb_conns h i)"
  using assms(2)
  by (induction cs arbitrary: h) (auto simp: deliver_tables[OF assms(1)])

lemma fold_deliver_other:
  "hb_sessionConns (fold (\<lambda>c. deliver ops cd c evt) cs h) = hb_sessionConns h \<and>
   hb_machineConns (fold (\<lambda>c. deliver ops cd c evt) cs h) = hb_machineConns h"
proof (induction cs arbitrary: h)
  case (Cons c cs)
  then show ?case
    by (cases "ec_marshal cd evt") (simp_all add: deliver_unencodable deliver_tables)
qed simp

lemma session_targets_set:
  assumes "hub_inv h"
  shows "distinct (map ws_ID (session_targets h s))"
    and "ws_ID ` set (session_targets h s) = {i. \<exists>c. hb_conns h i = Some c \<and> ws_SessionID c = s}"
proof -
  let ?l = "case hb_sessionConns h s of None \<Rightarrow> [] | Some subs \<Rightarrow> subs"
  have l: "i \<in> set ?l \<longleftrightarrow> (\<exists>c. hb_conns h i = Some c \<and> ws_SessionID c = s)" for i
    using hub_invD(4)[OF assms, of s i] by (auto split: option.splits)
  have "map ws_ID (List.map_filter (hb_conns h) xs) = xs"
    if "\<forall>i \<in> set xs. \<exists>c. hb_conns h i = Some c \<and> ws_SessionID c = s" for xs
    using that hub_invD(1)[OF assms] by (induction xs) (auto simp: map_filter_def)
  then have ids: "map ws_ID (session_targets h s) = ?l"
    using l by (simp add: session_targets_def)
  have "distinct ?l" using hub_invD(3)[OF assms] by (auto split: option.split)
  then show "distinct (map ws_ID (session_targets h s))" by (simp only: ids)
  have "ws_ID ` set (session_targets h s) = set ?l" unfolding ids[symmetric] by (rule set_map[symmetric])
  also have "\<dots> = {i. \<exists>c. hb_conns h i = Some c \<and> ws_SessionID c = s}" using l by blast
  finally show "ws_ID ` set (session_targets h s) = {i. \<exists>c. hb_conns h i = Some c \<and> ws_SessionID c = s}" .
qed

lemma Broadcast_conns:
  assumes "hub_inv h" and "ec_marshal cd evt = Some raw"
  shows "hb_conns (Broadcast ops cd s evt h) i =
      map_option (\<lambda>c. if ws_SessionID c = s then pushed raw c else c) (hb_conns h i)"
  unfolding Broadcast_def fold_deliver_conns[OF assms(2) session_targets_set(1)[OF assms(1)]]
    session_targets_set(2)[OF assms(1)]
  by (cases "hb_conns h i") auto

lemma hub_inv_fold_deliver: "hub_inv h \<Longrightarrow> hub_inv (fold (\<lambda>c. deliver ops cd c evt) cs h)"
  by (induction cs arbitrary: h) (simp_all add: hub_inv_deliver)

lemma hub_inv_same:
  "hub_inv h \<Longrightarrow> hb_conns h' = hb_conns h \<Longrightarrow> hb_sessionConns h' = hb_sessionConns h \<Longrightarrow>
   hb_machineConns h' = hb_machineConns h \<Longrightarrow> hub_inv h'"
  by (simp add: hub_inv_def)

section \<open>Histories of the hub\<close>

text \<open>The calls the handlers make.  A connection gets a fresh identifier (a new UUID) and the identifier
  of an existing session (a UUID, so it has no colon); a connection is unregistered once, by its own
  read pump.\<close>

inductive hub_step :: "'r redis_ops \<Rightarrow> 'p event_codec \<Rightarrow> ('p, 'r) Hub \<Rightarrow> ('p, 'r) Hub \<Rightarrow> bool"
  for ops :: "'r redis_ops" and cd :: "'p event_codec" where
  hs_register: "hb_conns h (ws_ID c) = None \<Longrightarrow> CHR '':'' \<notin> set (ws_SessionID c) \<Longrightarrow>
     hub_step ops cd h (Register c h)"
| hs_unregister: "hb_conns h (ws_ID c) = Some c0 \<Longrightarrow> ws_SessionID c0 = ws_SessionID c \<Longrightarrow>
     ws_MachineID c0 = ws_MachineID c \<Longrightarrow> hub_step ops cd h (Unregister c h)"
| hs_send: "hub_step ops cd h (Send ops cd i evt h)"
| hs_send_machine: "hub_step ops cd h (SendToMachine ops cd s m evt h)"
| hs_broadcast: "hub_step ops cd h (Broadcast ops cd s evt h)"
| hs_drain: "hub_step ops cd h (snd (DrainBacklog ops cd s m h))"
| hs_acquire: "hub_step ops cd h (snd (TryAcquireLeader ops now s m h))"
| hs_renew: "hub_step ops cd h (snd (RenewLeader ops s m h))"
| hs_release: "hub_step ops cd h (ReleaseLeader ops s m h)"
| hs_presence: "hub_step ops cd h (MarkPresence ops now s m h)"
| hs_expiry: "hub_step ops cd h (watchLeaderExpiry_msg ops cd mk key h)"
| hs_redis: "hub_step ops cd h (h\<lparr>hb_redis := r\<rparr>)"

inductive hub_reachable :: "'r redis_ops \<Rightarrow> 'p event_codec \<Rightarrow> ('p, 'r) Hub \<Rightarrow> bool"
  for ops :: "'r redis_ops" and cd :: "'p event_codec" where
  hr_new: "hub_reachable ops cd (NewHub rc)"
| hr_step: "hub_reachable ops cd h \<Longrightarrow> hub_step ops cd h h' \<Longrightarrow> hub_reachable ops cd h'"

lemma leader_tables [simp]:
  "hb_conns (snd (TryAcquireLeader ops now s m h)) = hb_conns h"
  "hb_sessionConns (snd (TryAcquireLeader ops now s m h)) = hb_sessionConns h"
  "hb_machineConns (snd (TryAcquireLeader ops now s m h)) = hb_machineConns h"
  by (simp_all add: TryAcquireLeader_def ResetLeaderExpiredSent_def split: option.split prod.split)

lemma hub_step_inv: "hub_step ops cd h h' \<Longrightarrow> hub_inv h \<Longrightarrow> hub_inv h'"
proof (induction rule: hub_step.induct)
  case (hs_register h c)
  then show ?case by (simp add: hub_inv_Register)
next
  case (hs_unregister h c c0)
  then show ?case by (simp add: hub_inv_Unregister)
next
  case (hs_send h i evt)
  then show ?case by (simp add: Send_def hub_inv_deliver split: option.split)
next
  case (hs_send_machine h s m evt)
  have "hub_inv (appendBacklog ops cd s m evt h)"
    by (rule hub_inv_same[OF hs_send_machine]) simp_all
  with hs_send_machine show ?case
    by (simp add: SendToMachine_def hub_inv_deliver split: option.split)
next
  case (hs_broadcast h s evt)
  then show ?case by (simp add: Broadcast_def hub_inv_fold_deliver)
next
  case (hs_drain h s m)
  then show ?case
    by (rule hub_inv_same) (simp_all add: DrainBacklog_def Let_def split: option.split)
next
  case (hs_acquire h now s m)
  then show ?case by (rule hub_inv_same) simp_all
next
  case (hs_renew h s m)
  then show ?case by (rule hub_inv_same) (simp_all add: RenewLeader_def Let_def split: option.split)
next
  case (hs_release h s m)
  then show ?case by (rule hub_inv_same) (simp_all add: ReleaseLeader_def Let_def split: option.split)
next
  case (hs_presence h now s m)
  then show ?case by (rule hub_inv_same) (simp_all add: MarkPresence_def)
next
  case (hs_expiry h mk key)
  have "hub_inv (h\<lparr>hb_leaderExpiredSent := X\<rparr>)" for X
    by (rule hub_inv_same[OF hs_expiry]) simp_all
  with hs_expiry show ?case
    by (simp add: watchLeaderExpiry_msg_def Let_def Broadcast_def hub_inv_fold_deliver)
next
  case (hs_redis h r)
  then show ?case by (rule hub_inv_same) simp_all
qed

lemma hub_reachable_inv: "hub_reachable ops cd h \<Longrightarrow> hub_inv h"
  by (induction rule: hub_reachable.induct) (auto intro: hub_inv_new hub_step_inv)

lemma append_sep_inj:
  "x \<notin> set s \<Longrightarrow> x \<notin> set t \<Longrightarrow> s @ x # m = t @ x # n \<longleftrightarrow> s = t \<and> m = n"
proof (induction s arbitrary: t)
  case Nil
  then show ?case by (cases t) auto
next
  case (Cons a s)
  then show ?case by (cases t) auto
qed

lemma machineKey_inj:
  "CHR '':'' \<notin> set s \<Longrightarrow> CHR '':'' \<notin> set t \<Longrightarrow> machineKey s m = machineKey t n \<longleftrightarrow> s = t \<and> m = n"
  using append_sep_inj[of "CHR '':''" s t m n] by (simp add: machineKey_def)

text \<open>
  In every state the hub can reach, an event for a machine of a session goes to a live connection
  of that machine in that session and to no other connection: when the hub reports the machine as
  online there is such a connection, its send channel gets the event (or stays as it was when it
  holds 256 messages) and every other connection is untouched; when the machine is offline no connection
  changes.
\<close>

theorem SendToMachine_routes:
  assumes "hub_reachable ops cd h" and "CHR '':'' \<notin> set s" and "ec_marshal cd evt = Some raw"
  shows "if IsMachineOnline s m h
    then \<exists>i c. hb_conns h i = Some c \<and> ws_SessionID c = s \<and> ws_MachineID c = m \<and>
      hb_conns (SendToMachine ops cd s m evt h) = (hb_conns h)
        (i \<mapsto> c\<lparr>ws_Send := (if length (ws_Send c) < 256 then ws_Send c @ [raw] else ws_Send c)\<rparr>)
    else SendToMachine ops cd s m evt h = appendBacklog ops cd s m evt h \<and>
      hb_conns (SendToMachine ops cd s m evt h) = hb_conns h"
proof (cases "hb_machineConns h (machineKey s m)")
  case None
  then have "SendToMachine ops cd s m evt h = appendBacklog ops cd s m evt h"
    by (simp add: SendToMachine_def machine_conn_def)
  with None show ?thesis by (simp add: IsMachineOnline_def)
next
  case (Some i)
  note inv = hub_reachable_inv[OF assms(1)]
  obtain c where c: "hb_conns h i = Some c" "machineKey (ws_SessionID c) (ws_MachineID c) = machineKey s m"
    using hub_invD(5)[OF inv Some] by blast
  with hub_invD(2)[OF inv c(1)] assms(2) have sm: "ws_SessionID c = s" "ws_MachineID c = m"
    using machineKey_inj by blast+
  have "SendToMachine ops cd s m evt h = deliver ops cd c evt h"
    using Some c(1) by (simp add: SendToMachine_def machine_conn_def)
  then have "hb_conns (SendToMachine ops cd s m evt h) = (hb_conns h)(i \<mapsto> pushed raw c)"
    using deliver_tables(1)[OF assms(3), of ops c h] hub_invD(1)[OF inv c(1)] c(1) by simp
  then show ?thesis
    using Some c(1) sm
    by (auto simp: IsMachineOnline_def pushed_def try_send_def DefaultSendChannelCapacity_def)
qed

definition codec_example :: "string event_codec" where
  "codec_example = \<lparr>ec_marshal = (\<lambda>e. Some (ev_EventID e)),
     ec_unmarshal = (\<lambda>raw. Some \<lparr>ev_EventID = raw, ev_Type = [], ev_SessionID = ''s'', ev_Timestamp = 0,
       ev_Payload = []\<rparr>)\<rparr>"

definition event_example :: "string \<Rightarrow> string CloudEvent" where
  "event_example i = \<lparr>ev_EventID = i, ev_Type = [], ev_SessionID = ''s'', ev_Timestamp = 0, ev_Payload = []\<rparr>"

definition conn_example :: "string \<Rightarrow> string \<Rightarrow> WSConnection" where
  "conn_example i m = \<lparr>ws_ID = i, ws_UserID = ''u'', ws_MachineID = m, ws_SessionID = ''s'', ws_Send = []\<rparr>"

text \<open>An in-process Redis, for the examples.\<close>

record mini_redis =
  mr_str :: "string \<Rightarrow> string option"
  mr_num :: "string \<Rightarrow> int option"
  mr_list :: "string \<Rightarrow> string list"

definition mini_ops :: "mini_redis redis_ops" where
  "mini_ops = \<lparr>
     rd_SetNX = (\<lambda>k v t r. if mr_str r k = None then (True, r\<lparr>mr_str := (mr_str r)(k \<mapsto> v)\<rparr>) else (False, r)),
     rd_Get = (\<lambda>k r. mr_str r k),
     rd_GetInt = (\<lambda>k r. mr_num r k),
     rd_SetInt = (\<lambda>k v t r. r\<lparr>mr_num := (mr_num r)(k \<mapsto> v)\<rparr>),
     rd_Expire = (\<lambda>k t r. r),
     rd_Del = (\<lambda>k r. r\<lparr>mr_str := (mr_str r)(k := None), mr_num := (mr_num r)(k := None),
       mr_list := (mr_list r)(k := [])\<rparr>),
     rd_Incr = (\<lambda>k r. let n = (case mr_num r k of None \<Rightarrow> 1 | Some c \<Rightarrow> c + 1)
       in (Some n, r\<lparr>mr_num := (mr_num r)(k \<mapsto> n)\<rparr>)),
     rd_RPush = (\<lambda>k v r. r\<lparr>mr_list := (mr_list r)(k := mr_list r k @ [v])\<rparr>),
     rd_LTrim = (\<lambda>k a b r. r\<lparr>mr_list := (mr_list r)(k := take (nat (b + 1) - nat a) (drop (nat a) (mr_list r k)))\<rparr>),
     rd_LRange = (\<lambda>k r. Some (mr_list r k))\<rparr>"

definition mini_empty :: mini_redis where
  "mini_empty = \<lparr>mr_str = Map.empty, mr_num = Map.empty, mr_list = \<lambda>_. []\<rparr>"

definition hub_example :: "(string, mini_redis) Hub" where
  "hub_example = Register (conn_example ''c1'' ''m1'') (NewHub (Some mini_empty))"

lemma hub_example_reachable: "hub_reachable mini_ops codec_example hub_example"
  unfolding hub_example_def
  by (rule hr_step[OF hr_new hs_register]) (simp_all add: NewHub_def conn_example_def)

theorem SendToMachine_routes_witness:
  "hub_reachable mini_ops codec_example hub_example \<and> CHR '':'' \<notin> set ''s'' \<and>
   ec_marshal codec_example (event_example ''e'') = Some ''e'' \<and> IsMachineOnline ''s'' ''m1'' hub_example \<and>
   (\<exists>i c. hb_conns hub_example i = Some c \<and> ws_MachineID c = ''m1'')"
proof -
  have e: "ec_marshal codec_example (event_example ''e'') = Some ''e''"
    by (simp add: codec_example_def event_example_def)
  have o: "IsMachineOnline ''s'' ''m1'' hub_example"
    by (simp add: IsMachineOnline_def hub_example_def Register_def conn_example_def Let_def)
  show ?thesis
    using SendToMachine_routes[OF hub_example_reachable _ e, of "''s''" "''m1''"] e o hub_example_reachable
    by auto
qed

text \<open>
  A broadcast in a reachable state puts the event once into the send channel of every connection
  of the session (a full channel is left alone) and touches no connection of another session.
\<close>

theorem Broadcast_exact:
  assumes "hub_reachable ops cd h" and "ec_marshal cd evt = Some raw"
  shows "hb_conns (Broadcast ops cd s evt h) i =
    (case hb_conns h i of
       None \<Rightarrow> None
     | Some c \<Rightarrow> Some (if ws_SessionID c = s \<and> length (ws_Send c) < 256
                      then c\<lparr>ws_Send := ws_Send c @ [raw]\<rparr> else c))"
  using Broadcast_conns[OF hub_reachable_inv[OF assms(1)] assms(2), of ops s i]
  by (auto simp: pushed_def try_send_def DefaultSendChannelCapacity_def split: option.split)

theorem Broadcast_exact_witness:
  "hub_reachable mini_ops codec_example hub_example \<and>
   map_option ws_Send (hb_conns (Broadcast mini_ops codec_example ''s'' (event_example ''e'') hub_example) ''c1'') =
     Some [''e'']"
proof -
  have e: "ec_marshal codec_example (event_example ''e'') = Some ''e''"
    by (simp add: codec_example_def event_example_def)
  have c: "hb_conns hub_example ''c1'' = Some (conn_example ''c1'' ''m1'')"
    by (simp add: hub_example_def Register_def conn_example_def Let_def)
  show ?thesis
    using Broadcast_exact[OF hub_example_reachable e, of "''s''" "''c1''"] hub_example_reachable
    by (simp add: c) (simp add: conn_example_def)
qed

section \<open>The replay log\<close>

text \<open>What Redis documents of its list commands, for a view of the state that gives the list at a key.\<close>

definition redis_lists :: "'r redis_ops \<Rightarrow> ('r \<Rightarrow> string \<Rightarrow> string list) \<Rightarrow> bool" where
  "redis_lists ops lv \<longleftrightarrow>
     (\<forall>k v r. lv (rd_RPush ops k v r) = (lv r)(k := lv r k @ [v])) \<and>
     (\<forall>k n r. 0 \<le> n \<longrightarrow> lv (rd_LTrim ops k 0 n r) = (lv r)(k := take (nat n + 1) (lv r k))) \<and>
     (\<forall>k t r. 0 < t \<longrightarrow> lv (rd_Expire ops k t r) = lv r) \<and>
     (\<forall>k n t r k'. k' \<noteq> k \<longrightarrow> lv (rd_SetInt ops k n t r) k' = lv r k') \<and>
     (\<forall>k r. lv (rd_Del ops k r) = (lv r)(k := [])) \<and>
     (\<forall>k r. rd_LRange ops k r = Some (lv r k))"

definition codec_ok :: "'p event_codec \<Rightarrow> 'p CloudEvent \<Rightarrow> bool" where
  "codec_ok cd e \<longleftrightarrow> (\<exists>raw. ec_marshal cd e = Some raw \<and> ec_unmarshal cd raw = Some e)"

lemma mini_lists: "redis_lists mini_ops mr_list"
  by (simp add: redis_lists_def mini_ops_def nat_add_distrib)

lemma deliver_log:
  assumes "redis_lists ops lv" and "hb_redis h = Some r" and "ec_marshal cd e = Some raw"
  shows "\<exists>r'. hb_redis (deliver ops cd c e h) = Some r' \<and>
    lv r' (redisKeyEventLog (ws_SessionID c)) = take 200 (lv r (redisKeyEventLog (ws_SessionID c)) @ [raw])"
  using assms
  by (auto simp: deliver_def appendEventLog_def Let_def redis_lists_def DefaultEventBacklogTTLMin_def
      DefaultEventLogMaxLen_def)

lemma take_append_take: "take n (take n xs @ ys) = take n (xs @ ys)"
  by (cases "length xs \<le> n") auto

lemma deliver_all_log:
  assumes "redis_lists ops lv" and "hb_redis h = Some r" and "\<forall>e \<in> set evs. ec_marshal cd e = Some (enc e)"
    and "length (lv r (redisKeyEventLog (ws_SessionID c))) \<le> 200"
  shows "\<exists>r'. hb_redis (fold (deliver ops cd c) evs h) = Some r' \<and>
    lv r' (redisKeyEventLog (ws_SessionID c)) =
      take 200 (lv r (redisKeyEventLog (ws_SessionID c)) @ map enc evs)"
  using assms(2-4)
proof (induction evs arbitrary: h r)
  case (Cons e evs)
  let ?k = "redisKeyEventLog (ws_SessionID c)"
  from deliver_log[OF assms(1) Cons.prems(1), of cd e "enc e" c] Cons.prems(2) obtain r1 where
    r1: "hb_redis (deliver ops cd c e h) = Some r1" "lv r1 ?k = take 200 (lv r ?k @ [enc e])" by auto
  have "length (lv r1 ?k) \<le> 200" by (simp add: r1(2))
  from Cons.IH[OF r1(1) _ this] Cons.prems(2) obtain r' where
    "hb_redis (fold (deliver ops cd c) evs (deliver ops cd c e h)) = Some r'"
    "lv r' ?k = take 200 (lv r1 ?k @ map enc evs)" by auto
  then show ?case unfolding r1(2) take_append_take by simp
qed simp

lemma map_filter_decode:
  "\<forall>e \<in> set evs. dec (enc e) = Some e \<Longrightarrow> List.map_filter dec (map enc evs) = evs"
  by (induction evs) (auto simp: map_filter_def)

lemma dropWhile_first:
  "\<not> (\<exists>x \<in> set xs. P x) \<Longrightarrow> P y \<Longrightarrow> tl (dropWhile (\<lambda>x. \<not> P x) (xs @ y # ys)) = ys"
  by (induction xs) auto

lemma ReplayEvents_log:
  assumes "redis_lists ops lv" and "hb_redis h = Some r"
    and "lv r (redisKeyEventLog s) = map enc evs" and "\<forall>e \<in> set evs. ec_unmarshal cd (enc e) = Some e"
    and "i \<noteq> []"
  shows "ReplayEvents ops cd s i h =
    (if i \<in> ev_EventID ` set evs then tl (dropWhile (\<lambda>e. ev_EventID e \<noteq> i) evs) else evs)"
proof -
  let ?hit = "\<lambda>raw. case ec_unmarshal cd raw of None \<Rightarrow> False | Some evt \<Rightarrow> ev_EventID evt = i"
  have hit: "?hit (enc e) \<longleftrightarrow> ev_EventID e = i" if "e \<in> set evs" for e using assms(4) that by simp
  have ex: "list_ex ?hit (map enc evs) \<longleftrightarrow> i \<in> ev_EventID ` set evs"
    using hit by (auto simp: list_ex_iff)
  have dw: "dropWhile (\<lambda>raw. \<not> ?hit raw) (map enc evs) = map enc (dropWhile (\<lambda>e. ev_EventID e \<noteq> i) evs)"
    using hit by (induction evs) auto
  have sub: "\<forall>e \<in> set (tl (dropWhile (\<lambda>e. ev_EventID e \<noteq> i) evs)). ec_unmarshal cd (enc e) = Some e"
  proof
    fix e
    assume "e \<in> set (tl (dropWhile (\<lambda>e. ev_EventID e \<noteq> i) evs))"
    then have "e \<in> set (dropWhile (\<lambda>e. ev_EventID e \<noteq> i) evs)"
      by (cases "dropWhile (\<lambda>e. ev_EventID e \<noteq> i) evs") auto
    with assms(4) show "ec_unmarshal cd (enc e) = Some e" by (meson set_dropWhileD)
  qed
  have "rd_LRange ops (redisKeyEventLog s) r = Some (map enc evs)"
    using assms(1,3) by (simp add: redis_lists_def)
  then show ?thesis
    using assms(2,4,5) ex dw sub by (simp add: ReplayEvents_def Let_def map_tl[symmetric] map_filter_decode)
qed

text \<open>
  The replay after a reconnect.  When a list of events with distinct identifiers has been
  delivered to a session with an empty log, a client that last saw the event at position \<open>i\<close> gets the
  events after it, but only among the first 200: the log keeps its oldest entries (it appends at the
  right end and trims to the positions 0 to 199).  Events after the 200th are never replayed, and a
  client that last saw one of them gets the 200 oldest events again.
\<close>

theorem ReplayEvents_oldest:
  assumes "redis_lists ops lv" and "hb_redis h = Some r"
    and "lv r (redisKeyEventLog (ws_SessionID c)) = []" and "\<forall>e \<in> set evs. codec_ok cd e"
    and "distinct (map ev_EventID evs)" and "i < length evs" and "ev_EventID (evs ! i) \<noteq> []"
  shows "ReplayEvents ops cd (ws_SessionID c) (ev_EventID (evs ! i)) (fold (deliver ops cd c) evs h) =
    (if i < 200 then drop (Suc i) (take 200 evs) else take 200 evs)"
proof -
  obtain enc where enc: "\<forall>e \<in> set evs. ec_marshal cd e = Some (enc e) \<and> ec_unmarshal cd (enc e) = Some e"
    using assms(4) unfolding codec_ok_def by (metis (no_types))
  then have enc_m: "\<forall>e \<in> set evs. ec_marshal cd e = Some (enc e)" by blast
  obtain r' where r': "hb_redis (fold (deliver ops cd c) evs h) = Some r'"
    "lv r' (redisKeyEventLog (ws_SessionID c)) = map enc (take 200 evs)"
    using deliver_all_log[OF assms(1,2) enc_m, of c] assms(3) by (auto simp: take_map)
  have "\<forall>e \<in> set (take 200 evs). ec_unmarshal cd (enc e) = Some e" using enc by (meson in_set_takeD)
  note rep = ReplayEvents_log[OF assms(1) r'(1,2) this assms(7)]
  have inj: "ev_EventID (evs ! j) = ev_EventID (evs ! k) \<longleftrightarrow> j = k"
    if "j < length evs" "k < length evs" for j k
    using assms(5) that by (metis length_map nth_eq_iff_index_eq nth_map)
  show ?thesis
  proof (cases "i < 200")
    case True
    let ?t = "take 200 evs"
    have i: "i < length ?t" "?t ! i = evs ! i" using True assms(6) by auto
    have split: "?t = take i ?t @ ?t ! i # drop (Suc i) ?t" by (rule id_take_nth_drop[OF i(1)])
    have "\<not> (\<exists>e \<in> set (take i ?t). ev_EventID e = ev_EventID (evs ! i))"
    proof
      assume "\<exists>e \<in> set (take i ?t). ev_EventID e = ev_EventID (evs ! i)"
      then obtain j where "j < i" "ev_EventID (evs ! j) = ev_EventID (evs ! i)"
        using i(1) by (auto simp: in_set_conv_nth)
      with inj[of j i] assms(6) show False by simp
    qed
    from dropWhile_first[OF this, of "evs ! i" "drop (Suc i) ?t"]
    have "tl (dropWhile (\<lambda>e. ev_EventID e \<noteq> ev_EventID (evs ! i)) ?t) = drop (Suc i) ?t"
      using split i(2) by simp
    moreover have "ev_EventID (evs ! i) \<in> ev_EventID ` set ?t" using i by (metis image_eqI nth_mem)
    ultimately show ?thesis using rep True by simp
  next
    case False
    have "ev_EventID (evs ! i) \<notin> ev_EventID ` set (take 200 evs)"
    proof
      assume "ev_EventID (evs ! i) \<in> ev_EventID ` set (take 200 evs)"
      then obtain j where "j < 200" "j < length evs" "ev_EventID (evs ! i) = ev_EventID (evs ! j)"
        by (auto simp: in_set_conv_nth)
      with inj[of i j] assms(6) False show False by simp
    qed
    with rep False show ?thesis by simp
  qed
qed

lemma codec_example_ok: "codec_ok codec_example (event_example i)"
  by (simp add: codec_ok_def codec_example_def event_example_def)

theorem ReplayEvents_oldest_witness:
  "redis_lists mini_ops mr_list \<and> hb_redis hub_example = Some mini_empty \<and>
   ReplayEvents mini_ops codec_example ''s'' ''a''
     (fold (deliver mini_ops codec_example (conn_example ''c1'' ''m1'')) [event_example ''a'', event_example ''b'']
        hub_example) = [event_example ''b'']"
proof -
  have h: "hb_redis hub_example = Some mini_empty"
    by (simp add: hub_example_def Register_def NewHub_def Let_def)
  have "mr_list mini_empty (redisKeyEventLog (ws_SessionID (conn_example ''c1'' ''m1''))) = []"
    by (simp add: mini_empty_def)
  from ReplayEvents_oldest[OF mini_lists h this, of "[event_example ''a'', event_example ''b'']" codec_example 0]
  show ?thesis using mini_lists h codec_example_ok
    by (simp add: event_example_def conn_example_def)
qed

section \<open>The leader lock\<close>

text \<open>What Redis documents of the commands on the lock and the counter, for views that give the string
  and the integer at a key: \<^verbatim>\<open>SET NX\<close> succeeds exactly on a missing key, \<^verbatim>\<open>INCR\<close> counts up (from a missing
  key to 1) or fails without effect, and a command leaves other keys alone.\<close>

definition redis_locks ::
  "'r redis_ops \<Rightarrow> ('r \<Rightarrow> string \<Rightarrow> string option) \<Rightarrow> ('r \<Rightarrow> string \<Rightarrow> int option) \<Rightarrow> bool" where
  "redis_locks ops str num \<longleftrightarrow>
     (\<forall>k v t r b r'. rd_SetNX ops k v t r = (b, r') \<longrightarrow>
        b = (str r k = None) \<and> str r' k = (if b then Some v else str r k) \<and>
        (\<forall>k'. k' \<noteq> k \<longrightarrow> str r' k' = str r k' \<and> num r' k' = num r k')) \<and>
     (\<forall>k r n r'. rd_Incr ops k r = (Some n, r') \<longrightarrow>
        n = (case num r k of None \<Rightarrow> 1 | Some c \<Rightarrow> c + 1) \<and> num r' k = Some n \<and>
        (\<forall>k'. k' \<noteq> k \<longrightarrow> str r' k' = str r k' \<and> num r' k' = num r k')) \<and>
     (\<forall>k r r'. rd_Incr ops k r = (None, r') \<longrightarrow> str r' = str r \<and> num r' = num r) \<and>
     (\<forall>k r. rd_Get ops k r = str r k) \<and> (\<forall>k r. rd_GetInt ops k r = num r k)"

lemma mini_locks: "redis_locks mini_ops mr_str mr_num"
  by (auto simp: redis_locks_def mini_ops_def Let_def split: if_splits)

lemma lock_not_token: "redisKeyLeaderLock s \<noteq> redisKeyFencingToken t"
proof
  assume "redisKeyLeaderLock s = redisKeyFencingToken t"
  then have "last (redisKeyLeaderLock s) = last (redisKeyFencingToken t)" by simp
  then show False by (simp add: redisKeyLeaderLock_def redisKeyFencingToken_def session_key_def)
qed

text \<open>
  C7. Fencing.  With Redis, an election succeeds only when the session has no leader; then the
  machine is the leader and its token is one more than the last one, so that every earlier token
  of the session is refused and the new one accepted.  While a leader holds the lock, an election
  of any machine fails and changes neither the leader nor the token.
\<close>

theorem TryAcquireLeader_fencing:
  assumes "redis_locks ops str num" and "hb_redis h = Some r"
    and "TryAcquireLeader ops now s m h = ((token, elected), h')"
  shows "if elected
    then str r (redisKeyLeaderLock s) = None \<and> GetLeaderMachineID ops s h' = m \<and>
      token = (case num r (redisKeyFencingToken s) of None \<Rightarrow> 1 | Some c \<Rightarrow> c + 1) \<and>
      (\<forall>t. ValidateFencingToken ops s t h' \<longleftrightarrow> token \<le> t)
    else token = 0 \<and>
      (str r (redisKeyLeaderLock s) \<noteq> None \<longrightarrow>
         GetLeaderMachineID ops s h' = GetLeaderMachineID ops s h \<and>
         (\<forall>t. ValidateFencingToken ops s t h' = ValidateFencingToken ops s t h))"
proof -
  let ?l = "redisKeyLeaderLock s" and ?f = "redisKeyFencingToken s"
  obtain ok r1 where nx: "rd_SetNX ops ?l m DefaultLeaderLockTTLSec r = (ok, r1)" by force
  have 1: "ok = (str r ?l = None)" "str r1 ?l = (if ok then Some m else str r ?l)" "num r1 ?f = num r ?f"
    using assms(1) nx lock_not_token[of s s] unfolding redis_locks_def by metis+
  have get: "rd_Get ops k x = str x k" "rd_GetInt ops k x = num x k" for k x
    using assms(1) by (simp_all add: redis_locks_def)
  show ?thesis
  proof (cases ok)
    case False
    then have "\<not> elected" "token = 0" "hb_redis h' = Some r1"
      using assms(2,3) nx by (auto simp: TryAcquireLeader_def)
    with 1 False assms(2) show ?thesis
      by (simp add: GetLeaderMachineID_def ValidateFencingToken_def get)
  next
    case True
    obtain n r2 where inc: "rd_Incr ops ?f r1 = (n, r2)" by force
    show ?thesis
    proof (cases n)
      case None
      then have "\<not> elected" "token = 0"
        using True assms(2,3) nx inc by (auto simp: TryAcquireLeader_def)
      with True 1(1) show ?thesis by simp
    next
      case (Some k)
      then have res: "elected" "token = k" "hb_redis h' = Some r2"
        using True assms(2,3) nx inc by (auto simp: TryAcquireLeader_def ResetLeaderExpiredSent_def)
      have 2: "k = (case num r1 ?f of None \<Rightarrow> 1 | Some c \<Rightarrow> c + 1)" "num r2 ?f = Some k" "str r2 ?l = str r1 ?l"
        using assms(1) inc Some lock_not_token[of s s] unfolding redis_locks_def by metis+
      with 1 True res show ?thesis
        by (simp add: GetLeaderMachineID_def ValidateFencingToken_def get)
    qed
  qed
qed

theorem TryAcquireLeader_fencing_witness:
  "redis_locks mini_ops mr_str mr_num \<and> hb_redis hub_example = Some mini_empty \<and>
   (\<exists>h'. TryAcquireLeader mini_ops 0 ''s'' ''m1'' hub_example = ((1, True), h') \<and>
      GetLeaderMachineID mini_ops ''s'' h' = ''m1'' \<and> \<not> ValidateFencingToken mini_ops ''s'' 0 h')"
proof -
  have h: "hb_redis hub_example = Some mini_empty"
    by (simp add: hub_example_def Register_def NewHub_def Let_def)
  obtain h' where a: "TryAcquireLeader mini_ops 0 ''s'' ''m1'' hub_example = ((1, True), h')"
    using h by (auto simp: TryAcquireLeader_def mini_ops_def mini_empty_def)
  show ?thesis using TryAcquireLeader_fencing[OF mini_locks h a] a h mini_locks by auto
qed

section \<open>Connection set-up\<close>

text \<open>While nothing receives, messages are only appended to the channel of a connection, and it never holds more
  than its capacity.\<close>

definition chan_ext :: "string \<Rightarrow> ('p, 'r) Hub \<Rightarrow> ('p, 'r) Hub \<Rightarrow> bool" where
  "chan_ext i h h' \<longleftrightarrow> (hb_conns h i \<noteq> None \<longrightarrow> hb_conns h' i \<noteq> None) \<and> prefix (channel i h) (channel i h') \<and>
     (length (channel i h) \<le> DefaultSendChannelCapacity \<longrightarrow> length (channel i h') \<le> DefaultSendChannelCapacity)"

lemma chan_ext_refl [simp]: "chan_ext i h h"
  by (simp add: chan_ext_def)

lemma chan_ext_trans: "chan_ext i h h1 \<Longrightarrow> chan_ext i h1 h2 \<Longrightarrow> chan_ext i h h2"
  unfolding chan_ext_def by (metis prefix_order.trans)

lemma on_channel_sel [simp]:
  "hb_conns h i \<noteq> None \<Longrightarrow> channel i (on_channel i f h) = f (channel i h)" "hb_redis (on_channel i f h) = hb_redis h"
  "(hb_conns (on_channel j f h) i = None) = (hb_conns h i = None)"
  by (auto simp: on_channel_def channel_def)

lemma try_send_ext [simp]: "prefix b (try_send cap x b)" "length b \<le> cap \<Longrightarrow> length (try_send cap x b) \<le> cap"
  by (simp_all add: try_send_def)

lemma deliver_ext: "chan_ext i h (deliver ops cd conn e h)"
proof (cases "ec_marshal cd e")
  case (Some raw)
  then show ?thesis
    by (cases "hb_conns h i") (auto simp: chan_ext_def channel_def deliver_tables pushed_def)
qed (simp add: deliver_unencodable)

lemma fold_deliver_ext: "chan_ext i h (fold (\<lambda>c. deliver ops cd (f c) (g c)) xs h)"
  by (induction xs arbitrary: h) (auto intro: chan_ext_trans[OF deliver_ext])

lemma delivered_ext: "chan_ext i h (delivered ops cd conn evts h)"
  unfolding delivered_def using fold_deliver_ext[of i h ops cd "\<lambda>_. conn" "\<lambda>e. e" evts] by simp

lemma Broadcast_ext: "chan_ext i h (Broadcast ops cd s e h)"
  unfolding Broadcast_def using fold_deliver_ext[of i h ops cd "\<lambda>c. c" "\<lambda>_. e"] by simp

lemma send_replay_ext: "hb_conns h (ws_ID conn) \<noteq> None \<Longrightarrow> chan_ext (ws_ID conn) h (send_replay ops cd others k conn evts h)"
proof (induction evts arbitrary: k h)
  case (Cons e evts)
  let ?i = "ws_ID conn" and ?h1 = "delivered ops cd conn (others k) h"
  have 1: "chan_ext ?i h ?h1" by (rule delivered_ext)
  have in1: "hb_conns ?h1 ?i \<noteq> None" using 1 Cons.prems by (simp add: chan_ext_def)
  have 2: "chan_ext ?i ?h1 (on_channel ?i (try_send DefaultSendChannelCapacity d) ?h1)" for d
    using in1 by (simp add: chan_ext_def)
  show ?case
    using Cons.IH[of ?h1 "Suc k"] Cons.IH[of "on_channel ?i (try_send DefaultSendChannelCapacity _) ?h1" "Suc k"] in1
      chan_ext_trans[OF 1] chan_ext_trans[OF chan_ext_trans[OF 1 2]]
    by (auto simp: Let_def split: option.split)
qed simp

text \<open>The blocking sends put the whole backlog into the channel, in order, or block.\<close>

lemma send_backlog_effect:
  assumes "hb_conns h (ws_ID conn) \<noteq> None" "\<forall>e \<in> set evs. ec_marshal cd e = Some (enc e)"
    "length (channel (ws_ID conn) h) \<le> DefaultSendChannelCapacity" "send_backlog ops cd others k conn evs h = Some h'"
  shows "hb_conns h' (ws_ID conn) \<noteq> None \<and> length (channel (ws_ID conn) h') \<le> DefaultSendChannelCapacity \<and>
    (\<exists>b. channel (ws_ID conn) h' = channel (ws_ID conn) h @ b \<and> subseq (map enc evs) b)"
  using assms
proof (induction evs arbitrary: k h)
  case (Cons e evs)
  let ?i = "ws_ID conn" and ?h1 = "delivered ops cd conn (others k) h"
  let ?h2 = "on_channel ?i (\<lambda>b. b @ [enc e]) ?h1"
  have 1: "chan_ext ?i h ?h1" by (rule delivered_ext)
  have room: "length (channel ?i ?h1) < DefaultSendChannelCapacity" and rest: "send_backlog ops cd others (Suc k) conn evs ?h2 = Some h'"
    using Cons.prems(2,4) by (auto simp: Let_def split: if_splits)
  have in1: "hb_conns ?h1 ?i \<noteq> None" using 1 Cons.prems(1) by (simp add: chan_ext_def)
  have IH: "hb_conns h' ?i \<noteq> None \<and> length (channel ?i h') \<le> DefaultSendChannelCapacity \<and>
    (\<exists>b. channel ?i h' = channel ?i ?h2 @ b \<and> subseq (map enc evs) b)"
    by (rule Cons.IH[OF _ _ _ rest]) (use in1 room Cons.prems(2) in simp_all)
  then obtain b where b: "channel ?i h' = channel ?i ?h2 @ b" "subseq (map enc evs) b" by blast
  obtain x where x: "channel ?i ?h1 = channel ?i h @ x" using 1 by (auto simp: chan_ext_def elim: prefixE)
  have "channel ?i h' = channel ?i h @ (x @ enc e # b)" using b(1) x in1 by simp
  moreover have "subseq (map enc (e # evs)) (x @ enc e # b)" using b(2) by (simp add: list_emb_append2)
  ultimately show ?case using IH by blast
qed simp

lemma send_backlog_alone:
  assumes "hb_conns h (ws_ID conn) \<noteq> None" "\<forall>e \<in> set evs. ec_marshal cd e = Some (enc e)" "others = (\<lambda>_. [])"
    "length (channel (ws_ID conn) h) + length evs \<le> DefaultSendChannelCapacity"
  shows "\<exists>h'. send_backlog ops cd others k conn evs h = Some h' \<and> hb_conns h' (ws_ID conn) \<noteq> None \<and> channel (ws_ID conn) h' = channel (ws_ID conn) h @ map enc evs"
  using assms
proof (induction evs arbitrary: k h)
  case (Cons e evs)
  let ?h2 = "on_channel (ws_ID conn) (\<lambda>b. b @ [enc e]) h"
  have "\<exists>h'. send_backlog ops cd others (Suc k) conn evs ?h2 = Some h' \<and> hb_conns h' (ws_ID conn) \<noteq> None \<and>
      channel (ws_ID conn) h' = channel (ws_ID conn) ?h2 @ map enc evs"
    by (rule Cons.IH) (use Cons.prems in simp_all)
  then show ?case using Cons.prems by (auto simp: delivered_def Let_def)
qed simp

lemma presence_not_backlog: "redisKeyPresence s m \<noteq> redisKeyBacklog s n"
  by (simp add: redisKeyPresence_def redisKeyBacklog_def session_key_def)

lemma events_not_backlog: "redisKeyEventLog s \<noteq> redisKeyBacklog s n"
  by (simp add: redisKeyEventLog_def redisKeyBacklog_def session_key_def)

lemma delivered_backlog:
  assumes "redis_lists ops lv" "hb_redis h = Some r"
  shows "\<exists>r'. hb_redis (delivered ops cd conn evts h) = Some r' \<and>
    lv r' (redisKeyBacklog (ws_SessionID conn) m) = lv r (redisKeyBacklog (ws_SessionID conn) m)"
  using assms(2)
proof (induction evts arbitrary: h r)
  case (Cons e evts)
  have "\<exists>r1. hb_redis (deliver ops cd conn e h) = Some r1 \<and>
      lv r1 (redisKeyBacklog (ws_SessionID conn) m) = lv r (redisKeyBacklog (ws_SessionID conn) m)"
    using assms(1) Cons.prems events_not_backlog[of "ws_SessionID conn" m]
    by (auto simp: deliver_def appendEventLog_def on_redis_def Let_def redis_lists_def DefaultEventBacklogTTLMin_def DefaultEventLogMaxLen_def
        split: option.split)
  then obtain r1 where "hb_redis (deliver ops cd conn e h) = Some r1"
      "lv r1 (redisKeyBacklog (ws_SessionID conn) m) = lv r (redisKeyBacklog (ws_SessionID conn) m)" by blast
  then show ?case using Cons.IH[of "deliver ops cd conn e h" r1] by (simp add: delivered_def)
qed (simp add: delivered_def)

lemma setup_drains:
  assumes "redis_lists ops lv" and "hb_redis h = Some r" and "\<forall>e \<in> set evs. codec_ok cd e"
    and "lv r (redisKeyBacklog (ws_SessionID c) (ws_MachineID c)) = map (the \<circ> ec_marshal cd) evs"
  obtains h2 where "DrainBacklog ops cd (ws_SessionID c) (ws_MachineID c)
      (delivered ops cd c early (MarkPresence ops now (ws_SessionID c) (ws_MachineID c) (Register (c\<lparr>ws_Send := []\<rparr>) h))) = (evs, h2)"
    "hb_conns h2 (ws_ID c) \<noteq> None" "length (channel (ws_ID c) h2) \<le> DefaultSendChannelCapacity" "early = [] \<Longrightarrow> channel (ws_ID c) h2 = []"
proof -
  let ?s = "ws_SessionID c" and ?m = "ws_MachineID c" and ?enc = "the \<circ> ec_marshal cd"
  let ?h0 = "MarkPresence ops now ?s ?m (Register (c\<lparr>ws_Send := []\<rparr>) h)"
  let ?h1 = "delivered ops cd c early ?h0"
  have dec: "\<forall>e \<in> set evs. ec_unmarshal cd (?enc e) = Some e" using assms(3) by (auto simp: codec_ok_def)
  obtain r0 where r0: "hb_redis ?h0 = Some r0" "lv r0 (redisKeyBacklog ?s ?m) = map ?enc evs"
    using assms(1,2,4) presence_not_backlog[of ?s ?m ?m]
    by (simp add: MarkPresence_def Register_def Let_def redis_lists_def on_redis_def)
  obtain r1 where r1: "hb_redis ?h1 = Some r1" "lv r1 (redisKeyBacklog ?s ?m) = map ?enc evs"
    using delivered_backlog[OF assms(1) r0(1), of cd c early ?m] r0(2) by auto
  have "rd_LRange ops (redisKeyBacklog ?s ?m) r1 = Some (map ?enc evs)"
    using assms(1) r1(2) by (simp add: redis_lists_def)
  then have d: "fst (DrainBacklog ops cd ?s ?m ?h1) = evs"
    using r1(1) map_filter_decode[of evs "ec_unmarshal cd" ?enc, OF dec] by (auto simp: DrainBacklog_def Let_def)
  have same: "hb_conns (snd (DrainBacklog ops cd ?s ?m ?h1)) = hb_conns ?h1"
    by (simp add: DrainBacklog_def Let_def on_redis_def split: option.split)
  have c0: "hb_conns ?h0 (ws_ID c) = Some (c\<lparr>ws_Send := []\<rparr>)" by (simp add: MarkPresence_def on_redis_def Register_def Let_def)
  have ext: "chan_ext (ws_ID c) ?h0 ?h1" by (rule delivered_ext)
  show ?thesis
  proof (rule that)
    show "DrainBacklog ops cd ?s ?m ?h1 = (evs, snd (DrainBacklog ops cd ?s ?m ?h1))" using d by (metis prod.collapse)
  qed (use same c0 ext in \<open>simp_all add: chan_ext_def channel_def delivered_def DefaultSendChannelCapacity_def\<close>)
qed

text \<open>
  C8. The set-up of a connection sends the stored backlog with blocking sends before anything reads
  the connection's channel of 256 messages.  Whatever other goroutines deliver to the connection
  meanwhile, a backlog of more than 256 messages blocks it for ever, and when the set-up finishes the
  channel holds the backlog in order, possibly among other messages, and at most 256 of them.  When
  nothing else is delivered, it finishes exactly if the backlog has at most 256 messages, and the
  channel starts with the backlog.
\<close>

theorem ServeWS_setup_backlog:
  assumes "redis_lists ops lv" and "hb_redis h = Some r" and "\<forall>e \<in> set evs. codec_ok cd e"
    and "lv r (redisKeyBacklog (ws_SessionID c) (ws_MachineID c)) = map (the \<circ> ec_marshal cd) evs"
  shows "(case ServeWS_setup ops cd now others status c lastEventID h of
       None \<Rightarrow> (\<forall>k. others k = []) \<longrightarrow> 256 < length evs
     | Some h' \<Rightarrow> length evs \<le> 256 \<and> length (channel (ws_ID c) h') \<le> 256 \<and>
         subseq (map (the \<circ> ec_marshal cd) evs) (channel (ws_ID c) h') \<and>
         ((\<forall>k. others k = []) \<longrightarrow> prefix (map (the \<circ> ec_marshal cd) evs) (channel (ws_ID c) h')))"
proof -
  let ?s = "ws_SessionID c" and ?m = "ws_MachineID c" and ?i = "ws_ID c" and ?enc = "the \<circ> ec_marshal cd"
  have enc: "\<forall>e \<in> set evs. ec_marshal cd e = Some (?enc e)" using assms(3) by (auto simp: codec_ok_def)
  obtain h2 where d: "DrainBacklog ops cd ?s ?m (delivered ops cd c (others 0) (MarkPresence ops now ?s ?m (Register (c\<lparr>ws_Send := []\<rparr>) h))) = (evs, h2)"
    and h2: "hb_conns h2 ?i \<noteq> None" "length (channel ?i h2) \<le> DefaultSendChannelCapacity" "others 0 = [] \<Longrightarrow> channel ?i h2 = []"
    using setup_drains[OF assms, where early = "others 0" and now = now] by blast
  have alone: "\<exists>h'. send_backlog ops cd others 1 c evs h2 = Some h' \<and> channel ?i h' = map ?enc evs"
    if "\<forall>k. others k = []" "length evs \<le> 256"
  proof -
    have o: "others = (\<lambda>_. [])" using that(1) by auto
    have "channel ?i h2 = []" using h2(3) that(1) by blast
    then show ?thesis using send_backlog_alone[OF h2(1) enc o, of ops 1] that(2) by (fastforce simp: DefaultSendChannelCapacity_def)
  qed
  show ?thesis
  proof (cases "send_backlog ops cd others 1 c evs h2")
    case None
    have "256 < length evs" if "\<forall>k. others k = []" using alone[OF that] None by (cases "length evs \<le> 256") auto
    then show ?thesis using None d by (simp add: ServeWS_setup_def Let_def)
  next
    case (Some h3)
    obtain b where b: "hb_conns h3 ?i \<noteq> None" "length (channel ?i h3) \<le> DefaultSendChannelCapacity"
        "channel ?i h3 = channel ?i h2 @ b" "subseq (map ?enc evs) b"
      using send_backlog_effect[OF h2(1) enc h2(2) Some] by blast
    have sub: "subseq (map ?enc evs) (channel ?i h3)" unfolding b(3) using b(4) by (simp add: list_emb_append2)
    obtain h' where h': "ServeWS_setup ops cd now others status c lastEventID h = Some h'" and ext: "chan_ext ?i h3 h'"
      using d Some chan_ext_trans[OF chan_ext_trans[OF send_replay_ext[OF b(1)] delivered_ext] Broadcast_ext]
      by (simp add: ServeWS_setup_def Let_def)
    have len: "length evs \<le> 256" using list_emb_length[OF sub] b(2) by (simp add: DefaultSendChannelCapacity_def)
    have pre: "prefix (channel ?i h3) (channel ?i h')" "length (channel ?i h') \<le> 256"
      using ext b(2) by (simp_all add: chan_ext_def DefaultSendChannelCapacity_def)
    have "subseq (map ?enc evs) (channel ?i h')" using subseq_order.trans[OF sub prefix_imp_subseq[OF pre(1)]] .
    moreover have "prefix (map ?enc evs) (channel ?i h')" if o: "\<forall>k. others k = []"
      using alone[OF o len] Some pre(1) by auto
    ultimately show ?thesis using h' len pre(2) by simp
  qed
qed

theorem ServeWS_setup_backlog_witness:
  "redis_lists mini_ops mr_list \<and>
   ServeWS_setup mini_ops codec_example 0 (\<lambda>_. []) (event_example ''o'') (conn_example ''c2'' ''m2'') []
     (NewHub (Some (mini_empty\<lparr>mr_list := \<lambda>k. map (the \<circ> ec_marshal codec_example)
        (replicate 257 (event_example ''e''))\<rparr>))) = None"
  using ServeWS_setup_backlog[OF mini_lists, where evs = "replicate 257 (event_example ''e'')" and
      cd = codec_example and c = "conn_example ''c2'' ''m2''" and now = 0 and others = "\<lambda>_. []" and
      status = "event_example ''o''" and lastEventID = "[]" and
      h = "NewHub (Some (mini_empty\<lparr>mr_list := \<lambda>k. map (the \<circ> ec_marshal codec_example)
        (replicate 257 (event_example ''e''))\<rparr>))"] mini_lists codec_example_ok
  by (auto simp: NewHub_def split: option.splits)

end
