(* ===== verification/Team_Tasks.thy ===== *)
theory Team_Tasks
  imports Team_Hub
begin

text \<open>
  The tasks of a team session (\<^verbatim>\<open>server/internal/team\<close>: the task part of \<^verbatim>\<open>store.go\<close>, \<^verbatim>\<open>decompose.go\<close> and the handlers
  of \<^verbatim>\<open>handlers.go\<close> that create, assign, claim, retry, complete and interrupt tasks).

  The tables \<^verbatim>\<open>team_tasks\<close>, \<^verbatim>\<open>team_session_members\<close> and \<^verbatim>\<open>team_repo_affinities\<close> are lists of rows in the order of their
  insertion.  A handler returns the changed tables and the messages it sends, in order; \<open>emit\<close> hands
  these to the hub of \<^verbatim>\<open>Team_Hub\<close>.  The database is assumed to execute the statements; what a
  handler reads from the hub (connected machines, fencing tokens) is the hub's state at the
  call.  New identifiers and times are arguments.
\<close>

section \<open>Tables\<close>

definition TaskStatusClaimed :: string where "TaskStatusClaimed = ''claimed''"

definition TaskStatusRunning :: string where "TaskStatusRunning = ''running''"

definition TaskStatusCompleted :: string where "TaskStatusCompleted = ''completed''"

definition TaskStatusFailed :: string where "TaskStatusFailed = ''failed''"

definition TaskStatusInterrupted :: string where "TaskStatusInterrupted = ''interrupted''"

lemmas status_defs = TaskStatusPending_def TaskStatusAssigned_def TaskStatusClaimed_def TaskStatusRunning_def
  TaskStatusCompleted_def TaskStatusFailed_def TaskStatusInterrupted_def

record task_row =
  tr_task :: TeamTask
  tr_CreatedAt :: int
  tr_ClaimedAt :: "int option"
  tr_StartedAt :: "int option"
  tr_CompletedAt :: "int option"
  tr_Result :: "string option"

record team_db =
  td_tasks :: "task_row list"
  td_members :: "TeamSessionMember list"
  td_repos :: "(string \<times> TeamRepoAffinity) list"

abbreviation row_id :: "task_row \<Rightarrow> string" where
  "row_id r \<equiv> tt_ID (tr_task r)"

abbreviation row_status :: "task_row \<Rightarrow> string" where
  "row_status r \<equiv> tt_Status (tr_task r)"

section \<open>The store\<close>

definition GetMember :: "string \<Rightarrow> team_db \<Rightarrow> TeamSessionMember option" where
  "GetMember i db = find (\<lambda>m. tm_ID m = i) (td_members db)"

definition GetMemberByMachine :: "string \<Rightarrow> string \<Rightarrow> team_db \<Rightarrow> TeamSessionMember option" where
  "GetMemberByMachine sessionID machineID db =
     find (\<lambda>m. tm_SessionID m = sessionID \<and> tm_MachineID m = machineID) (td_members db)"

definition ListMembers :: "string \<Rightarrow> team_db \<Rightarrow> TeamSessionMember list" where
  "ListMembers sessionID db = filter (\<lambda>m. tm_SessionID m = sessionID) (td_members db)"

definition ListAllRepoAffinities :: "string \<Rightarrow> team_db \<Rightarrow> TeamRepoAffinity list" where
  "ListAllRepoAffinities sessionID db = map snd (filter (\<lambda>(s, a). s = sessionID) (td_repos db))"

definition GetTask :: "string \<Rightarrow> team_db \<Rightarrow> TeamTask option" where
  "GetTask i db = map_option tr_task (find (\<lambda>r. row_id r = i) (td_tasks db))"

definition order_tasks :: "task_row list \<Rightarrow> TeamTask list" where
  "order_tasks rows = map tr_task (sort_key (\<lambda>r. (- tt_Priority (tr_task r), tr_CreatedAt r)) rows)"

definition ListTasks :: "string \<Rightarrow> team_db \<Rightarrow> TeamTask list" where
  "ListTasks sessionID db = order_tasks (filter (\<lambda>r. tt_SessionID (tr_task r) = sessionID) (td_tasks db))"

definition ListPendingTasks :: "string \<Rightarrow> team_db \<Rightarrow> TeamTask list" where
  "ListPendingTasks sessionID db =
     order_tasks (filter (\<lambda>r. tt_SessionID (tr_task r) = sessionID \<and> row_status r = TaskStatusPending) (td_tasks db))"

text \<open>\<^verbatim>\<open>UpdateTask\<close>: the columns to set are given by a function on rows.\<close>

definition UpdateTask :: "string \<Rightarrow> (task_row \<Rightarrow> task_row) \<Rightarrow> team_db \<Rightarrow> team_db" where
  "UpdateTask i f db = db\<lparr>td_tasks := map (\<lambda>r. if row_id r = i then f r else r) (td_tasks db)\<rparr>"

definition set_status :: "string \<Rightarrow> task_row \<Rightarrow> task_row" where
  "set_status s r = r\<lparr>tr_task := (tr_task r)\<lparr>tt_Status := s\<rparr>\<rparr>"

definition CreateTasks :: "int \<Rightarrow> TeamTask list \<Rightarrow> team_db \<Rightarrow> team_db option" where
  "CreateTasks now tasks db =
     (if \<not> distinct (map tt_ID tasks) \<or> list_ex (\<lambda>t. list_ex (\<lambda>r. row_id r = tt_ID t) (td_tasks db)) tasks then None
      else Some (db\<lparr>td_tasks := td_tasks db @ map (\<lambda>t. \<lparr>tr_task = t, tr_CreatedAt = now, tr_ClaimedAt = None,
             tr_StartedAt = None, tr_CompletedAt = None, tr_Result = None\<rparr>) tasks\<rparr>))"

definition retry_row :: "task_row \<Rightarrow> task_row" where
  "retry_row r = r\<lparr>tr_task := (tr_task r)\<lparr>tt_RetryCount := tt_RetryCount (tr_task r) + 1,
       tt_Status := TaskStatusAssigned, tt_ErrorMessage := []\<rparr>, tr_ClaimedAt := None, tr_StartedAt := None\<rparr>"

definition RetryTask :: "string \<Rightarrow> team_db \<Rightarrow> TeamTask option \<times> team_db" where
  "RetryTask taskID db =
     (case GetTask taskID db of
        None \<Rightarrow> (None, db)
      | Some task \<Rightarrow>
          if tt_RetryCount task \<ge> tt_MaxRetries task then (None, db)
          else (Some (task\<lparr>tt_RetryCount := tt_RetryCount task + 1, tt_Status := TaskStatusAssigned\<rparr>),
                UpdateTask taskID retry_row db))"

definition claimable :: "string \<Rightarrow> bool" where
  "claimable s \<longleftrightarrow> s = TaskStatusPending \<or> s = TaskStatusAssigned"

definition claim_row :: "int \<Rightarrow> string \<Rightarrow> task_row \<Rightarrow> task_row" where
  "claim_row now memberID r = r\<lparr>tr_task := (tr_task r)\<lparr>tt_AssignedMemberID := Some memberID, tt_Status := TaskStatusClaimed\<rparr>,
     tr_ClaimedAt := Some now\<rparr>"

definition ClaimTask :: "int \<Rightarrow> string \<Rightarrow> string \<Rightarrow> team_db \<Rightarrow> bool \<times> team_db" where
  "ClaimTask now taskID memberID db =
     (list_ex (\<lambda>r. row_id r = taskID \<and> claimable (row_status r)) (td_tasks db),
      db\<lparr>td_tasks := map (\<lambda>r. if row_id r = taskID \<and> claimable (row_status r)
          then claim_row now memberID r else r) (td_tasks db)\<rparr>)"

definition blockedCount :: "string list \<Rightarrow> team_db \<Rightarrow> nat" where
  "blockedCount deps db = length (filter (\<lambda>r. row_id r \<in> set deps \<and> row_status r \<noteq> TaskStatusCompleted) (td_tasks db))"

definition unlock_step :: "TeamTask \<Rightarrow> TeamTask list \<times> team_db \<Rightarrow> TeamTask list \<times> team_db" where
  "unlock_step task st =
     (case st of (unlocked, db) \<Rightarrow>
        if \<not> claimable (tt_Status task) then (unlocked, db)
        else if tt_Dependencies task = [] then (unlocked, db)
        else if blockedCount (tt_Dependencies task) db > 0 then (unlocked, db)
        else (unlocked @ [task\<lparr>tt_Status := TaskStatusPending\<rparr>],
              UpdateTask (tt_ID task) (set_status TaskStatusPending) db))"

definition UnlockDependentTasks :: "string \<Rightarrow> string \<Rightarrow> team_db \<Rightarrow> TeamTask list \<times> team_db" where
  "UnlockDependentTasks sessionID completedTaskID db =
     (let candidates = map tr_task (filter (\<lambda>r. tt_SessionID (tr_task r) = sessionID \<and>
            completedTaskID \<in> set (tt_Dependencies (tr_task r))) (td_tasks db))
      in fold unlock_step candidates ([], db))"

text \<open>The load of the members, from the counts of their tasks by status.\<close>

definition member_rows :: "string \<Rightarrow> string \<Rightarrow> team_db \<Rightarrow> task_row list" where
  "member_rows sessionID m db =
     filter (\<lambda>r. tt_SessionID (tr_task r) = sessionID \<and> tt_AssignedMemberID (tr_task r) = Some m) (td_tasks db)"

definition count_status :: "string list \<Rightarrow> task_row list \<Rightarrow> int" where
  "count_status ss rows = int (length (filter (\<lambda>r. row_status r \<in> set ss) rows))"

definition GetMemberLoadInfo :: "string \<Rightarrow> team_db \<Rightarrow> string \<Rightarrow> MemberLoadInfo option" where
  "GetMemberLoadInfo sessionID db m =
     (let rows = member_rows sessionID m db
      in if rows = [] then None
         else Some \<lparr>ld_RunningCount = count_status [TaskStatusRunning, TaskStatusClaimed] rows,
                    ld_AssignedCount = count_status [TaskStatusAssigned] rows,
                    ld_CompletedCount = count_status [TaskStatusCompleted] rows,
                    ld_FailedCount = count_status [TaskStatusFailed] rows,
                    ld_ActiveRepoURLs = set (concat (map (tt_RepoAffinity \<circ> tr_task) (filter
                      (\<lambda>r. row_status r \<in> {TaskStatusRunning, TaskStatusAssigned, TaskStatusClaimed}) rows)))\<rparr>)"

definition GetRunningAssignedTasks :: "string \<Rightarrow> team_db \<Rightarrow> TeamTask list" where
  "GetRunningAssignedTasks sessionID db =
     map tr_task (filter (\<lambda>r. tt_SessionID (tr_task r) = sessionID \<and>
       row_status r \<in> {TaskStatusRunning, TaskStatusAssigned, TaskStatusClaimed}) (td_tasks db))"

definition GetSessionTargetRepos :: "string \<Rightarrow> team_db \<Rightarrow> string list" where
  "GetSessionTargetRepos sessionID db =
     remdups (concat (map (tt_RepoAffinity \<circ> tr_task) (filter (\<lambda>r. tt_SessionID (tr_task r) = sessionID) (td_tasks db))))"

record SessionProgress =
  sp_TotalTasks :: int
  sp_CompletedTasks :: int
  sp_FailedTasks :: int
  sp_RunningTasks :: int
  sp_PendingTasks :: int

text \<open>The aggregate counts of \<^verbatim>\<open>GetProgress\<close>.\<close>

definition progress_counts :: "string \<Rightarrow> team_db \<Rightarrow> SessionProgress" where
  "progress_counts sessionID db =
     (let rows = filter (\<lambda>r. tt_SessionID (tr_task r) = sessionID) (td_tasks db)
      in \<lparr>sp_TotalTasks = int (length rows), sp_CompletedTasks = count_status [TaskStatusCompleted] rows,
          sp_FailedTasks = count_status [TaskStatusFailed] rows, sp_RunningTasks = count_status [TaskStatusRunning] rows,
          sp_PendingTasks = count_status [TaskStatusPending, TaskStatusAssigned] rows\<rparr>)"

section \<open>Plans\<close>

record DecomposeResultItem =
  dr_TaskID :: string
  dr_Description :: string
  dr_RepoAffinity :: "string list"
  dr_FileHints :: "string list"
  dr_Dependencies :: "string list"
  dr_Priority :: int

definition toTeamTask :: "string \<Rightarrow> string \<Rightarrow> DecomposeResultItem \<Rightarrow> TeamTask" where
  "toTeamTask newID sessionID item =
     \<lparr>tt_ID = newID, tt_SessionID = sessionID, tt_Description = dr_Description item,
      tt_RepoAffinity = dr_RepoAffinity item, tt_FileHints = dr_FileHints item,
      tt_Dependencies = dr_Dependencies item, tt_AssignedMemberID = None, tt_Status = TaskStatusPending,
      tt_Priority = (if dr_Priority item = 0 then 5 else dr_Priority item), tt_RetryCount = 0, tt_MaxRetries = 3,
      tt_ErrorMessage = []\<rparr>"

definition buildFallbackTasks :: "string \<Rightarrow> string \<Rightarrow> string \<Rightarrow> TeamTask list" where
  "buildFallbackTasks newID prompt sessionID =
     [\<lparr>tt_ID = newID, tt_SessionID = sessionID, tt_Description = prompt, tt_RepoAffinity = [], tt_FileHints = [],
       tt_Dependencies = [], tt_AssignedMemberID = None, tt_Status = TaskStatusPending, tt_Priority = 5,
       tt_RetryCount = 0, tt_MaxRetries = 3, tt_ErrorMessage = []\<rparr>]"

text \<open>The items of a decomposition result with the fresh identifiers of their tasks; items without a
  description are skipped, and an empty plan falls back to the prompt.\<close>

definition decompose_tasks :: "string \<Rightarrow> string \<Rightarrow> string \<Rightarrow> (string \<times> DecomposeResultItem) list \<Rightarrow> TeamTask list" where
  "decompose_tasks fallbackID prompt sessionID items =
     (let tasks = map (\<lambda>(newID, item). toTeamTask newID sessionID item) (filter (\<lambda>(_, item). dr_Description item \<noteq> []) items)
      in if tasks = [] then buildFallbackTasks fallbackID prompt sessionID else tasks)"

definition prepare_task :: "string \<Rightarrow> string \<times> TeamTask \<Rightarrow> TeamTask" where
  "prepare_task sessionID x =
     (case x of (newID, t) \<Rightarrow>
        t\<lparr>tt_ID := (if tt_ID t = [] then newID else tt_ID t), tt_SessionID := sessionID, tt_Status := TaskStatusPending,
          tt_Priority := (if tt_Priority t = 0 then 5 else tt_Priority t),
          tt_MaxRetries := (if tt_MaxRetries t = 0 then 3 else tt_MaxRetries t)\<rparr>)"

text \<open>The messages of a handler: a task sent to a machine, and an event broadcast for a task.\<close>

datatype team_out = Dispatch string TeamTask | Notify string string

definition notifyAssignedMachines :: "team_db \<Rightarrow> TeamTask list \<Rightarrow> team_out list" where
  "notifyAssignedMachines db tasks =
     concat (map (\<lambda>task. case tt_AssignedMemberID task of
         None \<Rightarrow> []
       | Some mid \<Rightarrow> (case GetMember mid db of None \<Rightarrow> [] | Some member \<Rightarrow> [Dispatch (tm_MachineID member) task])) tasks)"

definition schedule ::
  "('f :: linorder) fl_ops \<Rightarrow> ('f CandidateScore list \<Rightarrow> 'f CandidateScore list) \<Rightarrow> ('p, 'r) Hub \<Rightarrow> string \<Rightarrow>
   team_db \<Rightarrow> TeamTask list \<Rightarrow> TeamTask list" where
  "schedule fl sorter h sessionID db tasks =
     (case buildSchedulingContext h sessionID (Some (ListMembers sessionID db)) (Some (ListAllRepoAffinities sessionID db))
             (Some (GetRunningAssignedTasks sessionID db)) (Some (GetMemberLoadInfo sessionID db)) of
        None \<Rightarrow> tasks
      | Some ctx \<Rightarrow> ScheduleTasks fl sorter ctx tasks)"

datatype plan_result = PlanBadRequest | PlanStaleLeader | PlanNotStored | PlanCreated "TeamTask list"

definition SubmitTaskPlan ::
  "'r redis_ops \<Rightarrow> ('f :: linorder) fl_ops \<Rightarrow> ('f CandidateScore list \<Rightarrow> 'f CandidateScore list) \<Rightarrow> ('p, 'r) Hub \<Rightarrow>
   int \<Rightarrow> int \<Rightarrow> string \<Rightarrow> (string \<times> TeamTask) list \<Rightarrow> team_db \<Rightarrow> plan_result \<times> team_db \<times> team_out list" where
  "SubmitTaskPlan ops fl sorter h now fencingToken sessionID submitted db =
     (if submitted = [] then (PlanBadRequest, db, [])
      else if \<not> ValidateFencingToken ops sessionID fencingToken h then (PlanStaleLeader, db, [])
      else
        let tasks = schedule fl sorter h sessionID db (map (prepare_task sessionID) submitted)
        in case CreateTasks now tasks db of
             None \<Rightarrow> (PlanNotStored, db, [])
           | Some db' \<Rightarrow> (PlanCreated tasks, db', notifyAssignedMachines db' tasks))"

section \<open>Handlers\<close>

definition assigned_row :: "TeamTask \<Rightarrow> task_row \<Rightarrow> task_row" where
  "assigned_row task r = r\<lparr>tr_task := (tr_task r)\<lparr>tt_AssignedMemberID := tt_AssignedMemberID task,
     tt_Status := TaskStatusAssigned\<rparr>\<rparr>"

definition freshly :: "TeamTask \<Rightarrow> bool" where
  "freshly t \<longleftrightarrow> tt_AssignedMemberID t \<noteq> None \<and> tt_Status t = TaskStatusAssigned"

definition assignPendingTasksIfPossible ::
  "('f :: linorder) fl_ops \<Rightarrow> ('f CandidateScore list \<Rightarrow> 'f CandidateScore list) \<Rightarrow> ('p, 'r) Hub \<Rightarrow> string \<Rightarrow>
   team_db \<Rightarrow> team_db \<times> team_out list" where
  "assignPendingTasksIfPossible fl sorter h sessionID db =
     (let pending = ListPendingTasks sessionID db
      in if pending = [] then (db, [])
         else
           let scheduled = schedule fl sorter h sessionID db pending;
               assigned = filter freshly scheduled;
               db' = fold (\<lambda>t. UpdateTask (tt_ID t) (assigned_row t)) assigned db
           in (db', notifyAssignedMachines db' assigned))"

definition notifyUnlockedTasks :: "string \<Rightarrow> string \<Rightarrow> team_db \<Rightarrow> team_db \<times> team_out list" where
  "notifyUnlockedTasks sessionID completedTaskID db =
     (case UnlockDependentTasks sessionID completedTaskID db of (unlocked, db') \<Rightarrow>
        (db', notifyAssignedMachines db' unlocked))"

definition handle_TaskProgress :: "string \<Rightarrow> team_db \<Rightarrow> team_db \<times> team_out list" where
  "handle_TaskProgress taskID db =
     (if taskID \<noteq> [] then UpdateTask taskID (set_status TaskStatusRunning) db else db, [Notify ''task.progress'' taskID])"

definition complete_row :: "int \<Rightarrow> string \<Rightarrow> task_row \<Rightarrow> task_row" where
  "complete_row now result r = (set_status TaskStatusCompleted r)\<lparr>tr_CompletedAt := Some now, tr_Result := Some result\<rparr>"

definition handle_TaskComplete :: "int \<Rightarrow> string \<Rightarrow> string \<Rightarrow> string \<Rightarrow> team_db \<Rightarrow> team_db \<times> team_out list" where
  "handle_TaskComplete now result sessionID taskID db =
     (if taskID \<noteq> [] then
        let db1 = UpdateTask taskID (complete_row now result) db
        in case notifyUnlockedTasks sessionID taskID db1 of (db2, outs) \<Rightarrow> (db2, outs @ [Notify ''task.complete'' taskID])
      else (db, [Notify ''task.complete'' taskID]))"

definition fail_row :: "string \<Rightarrow> task_row \<Rightarrow> task_row" where
  "fail_row errMsg r = r\<lparr>tr_task := (tr_task r)\<lparr>tt_Status := TaskStatusFailed, tt_ErrorMessage := errMsg\<rparr>\<rparr>"

definition handle_TaskFail :: "string \<Rightarrow> string \<Rightarrow> team_db \<Rightarrow> team_db \<times> team_out list" where
  "handle_TaskFail errMsg taskID db =
     (if taskID \<noteq> [] then
        (case RetryTask taskID db of
           (Some retried, db') \<Rightarrow> (db', notifyAssignedMachines db' [retried] @ [Notify ''task.fail'' taskID])
         | (None, db') \<Rightarrow> (UpdateTask taskID (fail_row errMsg) db', [Notify ''task.fail'' taskID]))
      else (db, [Notify ''task.fail'' taskID]))"

definition handle_TaskClaim :: "int \<Rightarrow> string \<Rightarrow> string \<Rightarrow> string \<Rightarrow> team_db \<Rightarrow> team_db \<times> team_out list" where
  "handle_TaskClaim now sessionID machineID taskID db =
     (if taskID \<noteq> [] then
        (case GetMemberByMachine sessionID machineID db of
           None \<Rightarrow> (db, []) | Some member \<Rightarrow> (snd (ClaimTask now taskID (tm_ID member) db), []))
      else (db, []))"

definition in_flight :: "TeamTask \<Rightarrow> bool" where
  "in_flight t \<longleftrightarrow> tt_Status t = TaskStatusRunning \<or> tt_Status t = TaskStatusClaimed \<or> tt_Status t = TaskStatusAssigned"

definition interrupt_step :: "string \<Rightarrow> TeamTask \<Rightarrow> team_db \<times> team_out list \<Rightarrow> team_db \<times> team_out list" where
  "interrupt_step memberID t st =
     (case st of (db, outs) \<Rightarrow>
        if tt_AssignedMemberID t \<noteq> Some memberID then (db, outs)
        else if \<not> in_flight t then (db, outs)
        else (UpdateTask (tt_ID t) (set_status TaskStatusInterrupted) db, outs @ [Notify ''task.interrupted'' (tt_ID t)]))"

definition interruptTasksForMember :: "string \<Rightarrow> string \<Rightarrow> team_db \<Rightarrow> team_db \<times> team_out list" where
  "interruptTasksForMember sessionID machineID db =
     (case GetMemberByMachine sessionID machineID db of
        None \<Rightarrow> (db, [])
      | Some member \<Rightarrow> fold (interrupt_step (tm_ID member)) (ListTasks sessionID db) (db, []))"

definition release_row :: "task_row \<Rightarrow> task_row" where
  "release_row r = r\<lparr>tr_task := (tr_task r)\<lparr>tt_Status := TaskStatusPending, tt_AssignedMemberID := None\<rparr>\<rparr>"

definition must_reset :: "('p, 'r) Hub \<Rightarrow> string \<Rightarrow> team_db \<Rightarrow> TeamTask \<Rightarrow> bool" where
  "must_reset h sessionID db t \<longleftrightarrow> in_flight t \<and>
     (case tt_AssignedMemberID t of
        None \<Rightarrow> True
      | Some mid \<Rightarrow> (case GetMember mid db of
          None \<Rightarrow> False
        | Some member \<Rightarrow> tm_MachineID member \<noteq> [] \<and> \<not> IsMachineOnline sessionID (tm_MachineID member) h))"

definition reconcile_step :: "('p, 'r) Hub \<Rightarrow> string \<Rightarrow> TeamTask \<Rightarrow> team_db \<times> team_out list \<times> bool \<Rightarrow> team_db \<times> team_out list \<times> bool" where
  "reconcile_step h sessionID t st =
     (case st of (db, outs, reset) \<Rightarrow>
        if must_reset h sessionID db t
        then (UpdateTask (tt_ID t) release_row db, outs @ [Notify ''task.interrupted'' (tt_ID t)], True)
        else (db, outs, reset))"

definition reconcileTasksOnLeaderChange ::
  "('f :: linorder) fl_ops \<Rightarrow> ('f CandidateScore list \<Rightarrow> 'f CandidateScore list) \<Rightarrow> ('p, 'r) Hub \<Rightarrow> string \<Rightarrow>
   team_db \<Rightarrow> team_db \<times> team_out list" where
  "reconcileTasksOnLeaderChange fl sorter h sessionID db =
     (case fold (reconcile_step h sessionID) (ListTasks sessionID db) (db, [], False) of (db', outs, reset) \<Rightarrow>
        if reset then (case assignPendingTasksIfPossible fl sorter h sessionID db' of (db'', outs') \<Rightarrow> (db'', outs @ outs'))
        else (db', outs))"

definition emit :: "'r redis_ops \<Rightarrow> 'p event_codec \<Rightarrow> (team_out \<Rightarrow> 'p CloudEvent) \<Rightarrow> string \<Rightarrow> team_out list \<Rightarrow>
  ('p, 'r) Hub \<Rightarrow> ('p, 'r) Hub" where
  "emit ops cd mkEvent sessionID outs h =
     fold (\<lambda>out h. case out of
         Dispatch machineID task \<Rightarrow> SendToMachine ops cd sessionID machineID (mkEvent out) h
       | Notify kind taskID \<Rightarrow> Broadcast ops cd sessionID (mkEvent out) h) outs h"

section \<open>Rows by identifier\<close>

definition row_of :: "string \<Rightarrow> team_db \<Rightarrow> task_row option" where
  "row_of i db = find (\<lambda>r. row_id r = i) (td_tasks db)"

definition tasks_unique :: "team_db \<Rightarrow> bool" where
  "tasks_unique db \<longleftrightarrow> distinct (map row_id (td_tasks db))"

lemma row_of_id: "row_of i db = Some r \<Longrightarrow> row_id r = i \<and> r \<in> set (td_tasks db)"
  by (auto simp: row_of_def find_Some_iff)

lemma row_of_unique: "tasks_unique db \<Longrightarrow> r \<in> set (td_tasks db) \<Longrightarrow> row_of (row_id r) db = Some r"
  by (auto simp: row_of_def tasks_unique_def find_Some_iff in_set_conv_nth distinct_conv_nth)

lemma find_map_id:
  "(\<And>r. row_id (f r) = row_id r) \<Longrightarrow>
   find (\<lambda>r. row_id r = j) (map f rows) = map_option f (find (\<lambda>r. row_id r = j) rows)"
  by (induction rows) auto

lemma map_option_cong_id: "(\<And>r. x = Some r \<Longrightarrow> f r = r) \<Longrightarrow> map_option f x = x"
  by (cases x) auto

lemma row_of_UpdateTask [simp]:
  assumes "\<And>r. row_id (f r) = row_id r"
  shows "row_of j (UpdateTask i f db) = (if j = i then map_option f (row_of j db) else row_of j db)"
proof -
  have "row_of j (UpdateTask i f db) = map_option (\<lambda>r. if row_id r = i then f r else r) (row_of j db)"
    unfolding row_of_def UpdateTask_def using assms by (simp add: find_map_id)
  also have "\<dots> = (if j = i then map_option f (row_of j db) else row_of j db)"
    by (cases "row_of j db") (auto dest: row_of_id)
  finally show ?thesis .
qed

lemma UpdateTask_members [simp]: "td_members (UpdateTask i f db) = td_members db"
  by (simp add: UpdateTask_def)

lemma GetMember_UpdateTask [simp]: "GetMember m (UpdateTask i f db) = GetMember m db"
  by (simp add: GetMember_def)

lemma UpdateTask_unique [simp]:
  "(\<And>r. row_id (f r) = row_id r) \<Longrightarrow> tasks_unique (UpdateTask i f db) = tasks_unique db"
  by (simp add: tasks_unique_def UpdateTask_def o_def if_distrib cong: if_cong)

lemma UpdateTask_absent:
  assumes "row_of i db = None"
  shows "UpdateTask i f db = db"
proof -
  have "map (\<lambda>r. if row_id r = i then f r else r) (td_tasks db) = td_tasks db"
    using assms by (auto simp: row_of_def find_None_iff intro!: map_idI)
  then show ?thesis by (simp add: UpdateTask_def)
qed

lemma row_updates_id [simp]:
  "row_id (set_status s r) = row_id r" "row_id (retry_row r) = row_id r" "row_id (fail_row e r) = row_id r"
  "row_id (assigned_row t r) = row_id r" "row_id (release_row r) = row_id r"
  by (simp_all add: set_status_def retry_row_def fail_row_def assigned_row_def release_row_def)

lemma GetTask_row: "GetTask i db = map_option tr_task (row_of i db)"
  by (simp add: GetTask_def row_of_def)

section \<open>Claiming\<close>

lemma claim_row_id [simp]: "row_id (claim_row now m r) = row_id r"
  by (simp add: claim_row_def)

lemma ClaimTask_eq:
  assumes "tasks_unique db"
  shows "ClaimTask now i m db =
    (case row_of i db of
       None \<Rightarrow> (False, db)
     | Some r \<Rightarrow> if claimable (row_status r) then (True, UpdateTask i (claim_row now m) db) else (False, db))"
proof (cases "row_of i db")
  case None
  then have n: "\<forall>r \<in> set (td_tasks db). row_id r \<noteq> i" by (auto simp: row_of_def find_None_iff)
  then have "map (\<lambda>r. if row_id r = i \<and> claimable (row_status r) then f r else r) (td_tasks db) = td_tasks db" for f
    by (intro map_idI) auto
  then show ?thesis using None n by (auto simp: ClaimTask_def list_ex_iff)
next
  case (Some r)
  have u: "r' = r" if "r' \<in> set (td_tasks db)" "row_id r' = i" for r'
    using row_of_unique[OF assms that(1)] that(2) Some by simp
  have "list_ex (\<lambda>r. row_id r = i \<and> claimable (row_status r)) (td_tasks db) \<longleftrightarrow> claimable (row_status r)"
    using u row_of_id[OF Some] by (auto simp: list_ex_iff)
  moreover have "map (\<lambda>r. if row_id r = i \<and> claimable (row_status r) then claim_row now m r else r) (td_tasks db) =
    (if claimable (row_status r) then map (\<lambda>r. if row_id r = i then claim_row now m r else r) (td_tasks db) else td_tasks db)"
    using u by (auto intro!: map_idI)
  ultimately show ?thesis using Some
    by (simp add: ClaimTask_def UpdateTask_def)
qed

fun run_claims :: "string \<Rightarrow> (int \<times> string) list \<Rightarrow> team_db \<Rightarrow> bool list \<times> team_db" where
  "run_claims i [] db = ([], db)"
| "run_claims i ((now, m) # cs) db =
     (case ClaimTask now i m db of (ok, db1) \<Rightarrow> (case run_claims i cs db1 of (oks, db2) \<Rightarrow> (ok # oks, db2)))"

lemma run_claims_lost:
  assumes "tasks_unique db" "row_of i db = Some r" "\<not> claimable (row_status r)"
  shows "run_claims i cs db = (replicate (length cs) False, db)"
  using assms by (induction cs) (auto simp: ClaimTask_eq)

text \<open>
  A task is claimed at most once: however many machines claim a waiting task, the first claim
  succeeds and every later one is refused; the task belongs to the first claimant and nothing
  else in the tables changes.
\<close>

theorem ClaimTask_exclusive:
  assumes "tasks_unique db" and "row_of i db = Some r" and "claimable (row_status r)"
  shows "run_claims i ((now, m) # cs) db = (True # replicate (length cs) False, UpdateTask i (claim_row now m) db)"
proof -
  have "\<not> claimable (row_status (claim_row now m r))" by (simp add: claim_row_def claimable_def status_defs)
  then show ?thesis using assms by (simp add: ClaimTask_eq run_claims_lost)
qed

section \<open>Retries\<close>

definition fail_db :: "string \<Rightarrow> string \<Rightarrow> team_db \<Rightarrow> team_db" where
  "fail_db errMsg i db = fst (handle_TaskFail errMsg i db)"

definition retry_budget :: "task_row \<Rightarrow> int" where
  "retry_budget r = tt_MaxRetries (tr_task r) - tt_RetryCount (tr_task r)"

lemma retry_budget_retry [simp]: "retry_budget (retry_row r) = retry_budget r - 1"
  by (simp add: retry_budget_def retry_row_def)

lemma retry_budget_fail [simp]: "retry_budget (fail_row e r) = retry_budget r"
  by (simp add: retry_budget_def fail_row_def)

lemma fail_row_of:
  assumes "i \<noteq> []" "row_of i db = Some r"
  shows "row_of i (fail_db e i db) = Some (if retry_budget r > 0 then retry_row r else fail_row e r)"
  using assms by (simp add: fail_db_def handle_TaskFail_def RetryTask_def GetTask_row retry_budget_def)

lemma fail_db_members [simp]: "GetMember m (fail_db e i db) = GetMember m db"
  by (simp add: fail_db_def handle_TaskFail_def RetryTask_def split: option.splits)

lemma fail_iter_members [simp]: "GetMember m ((fail_db e i ^^ n) db) = GetMember m db"
  by (induction n) auto

lemma retry_iter:
  "retry_budget ((retry_row ^^ n) r) = retry_budget r - int n"
  "tt_RetryCount (tr_task ((retry_row ^^ n) r)) = tt_RetryCount (tr_task r) + int n"
  "tt_AssignedMemberID (tr_task ((retry_row ^^ n) r)) = tt_AssignedMemberID (tr_task r)"
  by (induction n) (simp_all, simp_all add: retry_row_def)

lemma fail_iter:
  assumes "i \<noteq> []" "row_of i db = Some r" "0 \<le> retry_budget r"
  shows "row_of i ((fail_db e i ^^ n) db) =
    Some (if int n \<le> retry_budget r then (retry_row ^^ n) r else fail_row e ((retry_row ^^ nat (retry_budget r)) r))"
proof (induction n)
  case (Suc n)
  have ff: "fail_row e (fail_row e x) = fail_row e x" for x by (simp add: fail_row_def)
  consider "int (Suc n) \<le> retry_budget r" | "int n = retry_budget r" | "retry_budget r < int n" by linarith
  then show ?case
  proof cases
    case 1 then show ?thesis using fail_row_of[OF assms(1) Suc.IH, of e] by (simp add: retry_iter)
  next
    case 2 then have "nat (retry_budget r) = n" by simp
    then show ?thesis using 2 fail_row_of[OF assms(1) Suc.IH, of e] by (simp add: retry_iter)
  next
    case 3 then show ?thesis using fail_row_of[OF assms(1) Suc.IH, of e] assms(3) by (simp add: retry_iter ff)
  qed
qed (use assms in auto)

text \<open>
  A failing task is retried as often as its budget allows and never more: after the n-th
  failure report it is assigned again with n more retries on its counter while the budget
  \<^verbatim>\<open>MaxRetries - RetryCount\<close> lasts, and failed with the reported error from then on; it is sent to the machine of
  its member again exactly while the budget lasts.
\<close>

theorem retries_bounded:
  assumes "i \<noteq> []" and "row_of i db = Some r" and "0 \<le> retry_budget r" and "0 < n"
  shows "(\<exists>r'. row_of i ((fail_db e i ^^ n) db) = Some r' \<and>
      tt_RetryCount (tr_task r') = tt_RetryCount (tr_task r) + min (int n) (retry_budget r) \<and>
      (if int n \<le> retry_budget r then row_status r' = TaskStatusAssigned
       else row_status r' = TaskStatusFailed \<and> tt_ErrorMessage (tr_task r') = e)) \<and>
    ((\<exists>machine t. Dispatch machine t \<in> set (snd (handle_TaskFail e i ((fail_db e i ^^ k) db)))) \<longleftrightarrow>
      int k < retry_budget r \<and> (\<exists>m. tt_AssignedMemberID (tr_task r) = Some m \<and> GetMember m db \<noteq> None))"
proof (intro conjI)
  have s: "row_status ((retry_row ^^ n) r) = TaskStatusAssigned" using assms(4) by (cases n) (auto simp: retry_row_def)
  show "\<exists>r'. row_of i ((fail_db e i ^^ n) db) = Some r' \<and>
      tt_RetryCount (tr_task r') = tt_RetryCount (tr_task r) + min (int n) (retry_budget r) \<and>
      (if int n \<le> retry_budget r then row_status r' = TaskStatusAssigned
       else row_status r' = TaskStatusFailed \<and> tt_ErrorMessage (tr_task r') = e)"
    using assms(3) s by (auto simp: fail_iter[OF assms(1-3)] retry_iter fail_row_def)
  obtain r' where r': "row_of i ((fail_db e i ^^ k) db) = Some r'"
      "tt_AssignedMemberID (tr_task r') = tt_AssignedMemberID (tr_task r)" "0 < retry_budget r' \<longleftrightarrow> int k < retry_budget r"
  proof
    show "row_of i ((fail_db e i ^^ k) db) = Some (if int k \<le> retry_budget r then (retry_row ^^ k) r
        else fail_row e ((retry_row ^^ nat (retry_budget r)) r))" by (rule fail_iter[OF assms(1-3)])
  qed (use assms(3) in \<open>auto simp: retry_iter, auto simp: retry_iter fail_row_def\<close>)
  show "(\<exists>machine t. Dispatch machine t \<in> set (snd (handle_TaskFail e i ((fail_db e i ^^ k) db)))) \<longleftrightarrow>
      int k < retry_budget r \<and> (\<exists>m. tt_AssignedMemberID (tr_task r) = Some m \<and> GetMember m db \<noteq> None)"
    using r' assms(1)
    by (cases "tt_AssignedMemberID (tr_task r)"; cases "GetMember (the (tt_AssignedMemberID (tr_task r))) db")
      (auto simp: handle_TaskFail_def RetryTask_def GetTask_row notifyAssignedMachines_def retry_budget_def)
qed

section \<open>Assigning the waiting tasks\<close>

definition waiting :: "string \<Rightarrow> task_row \<Rightarrow> bool" where
  "waiting sessionID r \<longleftrightarrow> tt_SessionID (tr_task r) = sessionID \<and> row_status r = TaskStatusPending"

definition active_row :: "string \<Rightarrow> string \<Rightarrow> task_row \<Rightarrow> bool" where
  "active_row sessionID m r \<longleftrightarrow> tt_SessionID (tr_task r) = sessionID \<and> tt_AssignedMemberID (tr_task r) = Some m \<and>
     in_flight (tr_task r)"

definition active_load :: "string \<Rightarrow> string \<Rightarrow> team_db \<Rightarrow> int" where
  "active_load sessionID m db = int (length (filter (active_row sessionID m) (td_tasks db)))"

definition online_members :: "('p, 'r) Hub \<Rightarrow> string \<Rightarrow> team_db \<Rightarrow> TeamSessionMember list" where
  "online_members h sessionID db = filter (\<lambda>m. IsMachineOnline sessionID (tm_MachineID m) h) (ListMembers sessionID db)"

lemma length_filter_disjoint:
  assumes "\<forall>x \<in> set xs. P x = (Q x \<or> R x) \<and> \<not> (Q x \<and> R x)"
  shows "length (filter P xs) = length (filter Q xs) + length (filter R xs)"
  using assms by (induction xs) auto

lemma GetMemberLoadInfo_exact: "queue_len (load_of (GetMemberLoadInfo sid db) m) = active_load sid m db"
proof -
  let ?rows = "member_rows sid m db"
  have "length (filter (active_row sid m) (td_tasks db)) =
      length (filter (\<lambda>r. in_flight (tr_task r)) ?rows)"
    unfolding member_rows_def filter_filter by (rule arg_cong[where f = length], rule filter_cong) (auto simp: active_row_def)
  also have "\<dots> = length (filter (\<lambda>r. row_status r \<in> set [TaskStatusRunning, TaskStatusClaimed]) ?rows) +
      length (filter (\<lambda>r. row_status r \<in> set [TaskStatusAssigned]) ?rows)"
    by (rule length_filter_disjoint) (auto simp: in_flight_def status_defs)
  finally show ?thesis
    by (simp add: active_load_def load_of_def GetMemberLoadInfo_def Let_def queue_len_def zero_load_def count_status_def)
qed

lemma fold_UpdateTask:
  assumes "distinct (map tt_ID ts)" and "\<And>t r. row_id (g t r) = row_id r"
  shows "fold (\<lambda>t. UpdateTask (tt_ID t) (g t)) ts db =
    db\<lparr>td_tasks := map (\<lambda>r. case find (\<lambda>t. tt_ID t = row_id r) ts of None \<Rightarrow> r | Some t \<Rightarrow> g t r) (td_tasks db)\<rparr>"
  using assms(1)
proof (induction ts arbitrary: db)
  case (Cons t ts)
  have "tt_ID t \<notin> tt_ID ` set ts" using Cons.prems by simp
  then have "find (\<lambda>t'. tt_ID t' = tt_ID t) ts = None" unfolding find_None_iff by (metis image_eqI)
  then show ?case using Cons by (auto simp: UpdateTask_def assms(2) intro!: map_cong)
qed simp

lemma distinct_map_sort [simp]: "distinct (map f (sort_key k xs)) = distinct (map f xs)"
proof -
  have "mset (map f (sort_key k xs)) = mset (map f xs)" by simp
  then show ?thesis by (rule mset_eq_imp_distinct_iff)
qed

lemma set_ListPendingTasks: "set (ListPendingTasks sid db) = tr_task ` {r \<in> set (td_tasks db). waiting sid r}"
  by (auto simp: ListPendingTasks_def order_tasks_def waiting_def)

lemma distinct_ListPendingTasks: "tasks_unique db \<Longrightarrow> distinct (map tt_ID (ListPendingTasks sid db))"
proof -
  assume u: "tasks_unique db"
  let ?ws = "filter (\<lambda>r. tt_SessionID (tr_task r) = sid \<and> row_status r = TaskStatusPending) (td_tasks db)"
  have "map tt_ID (ListPendingTasks sid db) = map row_id (sort_key (\<lambda>r. (- tt_Priority (tr_task r), tr_CreatedAt r)) ?ws)"
    by (simp add: ListPendingTasks_def order_tasks_def)
  moreover have "distinct (map row_id ?ws)" using u unfolding tasks_unique_def by (rule distinct_map_filter)
  ultimately show ?thesis by simp
qed

lemma schedule_spec:
  assumes "sorts_candidates sorter"
  shows "list_all2 (assigned_from (online_members h sid db)) tasks (schedule fl sorter h sid db tasks)"
    and "m \<noteq> [] \<Longrightarrow> active_load sid m db + sum_list (map2 (newly m) tasks (schedule fl sorter h sid db tasks))
           \<le> max 2 (active_load sid m db)"
proof -
  let ?ctx = "\<lparr>sc_Members = online_members h sid db, sc_RepoAffinities = ListAllRepoAffinities sid db,
    sc_RunningTasks = GetRunningAssignedTasks sid db, sc_MemberLoad = GetMemberLoadInfo sid db\<rparr>"
  obtain ts' st' where run: "ScheduleTasks_st fl sorter ?ctx tasks = (ts', st')" by force
  have s: "schedule fl sorter h sid db tasks = ts'"
    using run by (simp add: schedule_def buildSchedulingContext_def online_members_def ScheduleTasks_def)
  have a: "list_all2 (assigned_from (online_members h sid db)) tasks ts'"
    "\<forall>x. queue st' x \<le> max 2 (active_load sid x db)"
    "\<forall>x. x \<noteq> [] \<longrightarrow> queue st' x = active_load sid x db + sum_list (map2 (newly x) tasks ts')"
    using ScheduleTasks_all[OF assms, where fl = fl and ctx = ?ctx and tasks = tasks]
    unfolding run by (simp_all add: GetMemberLoadInfo_exact)
  show "list_all2 (assigned_from (online_members h sid db)) tasks (schedule fl sorter h sid db tasks)"
    using a(1) s by simp
  show "active_load sid m db + sum_list (map2 (newly m) tasks (schedule fl sorter h sid db tasks))
           \<le> max 2 (active_load sid m db)" if "m \<noteq> []"
    using that by (metis a(2,3) s)
qed

lemma freshly_newly:
  assumes "list_all2 (assigned_from ms) ts ts'" and "\<forall>t \<in> set ts. tt_Status t = TaskStatusPending" and "m \<noteq> []"
  shows "sum_list (map2 (newly m) ts ts') =
    int (length (filter (\<lambda>t. tt_AssignedMemberID t = Some m) (filter freshly ts')))"
  using assms
proof (induction ts ts' rule: list_all2_induct)
  case (Cons t ts t' ts')
  have "newly m t t' = (if freshly t' \<and> tt_AssignedMemberID t' = Some m then 1 else 0)"
    using Cons.hyps(1) Cons.prems
    by (auto simp: assigned_from_def newly_def freshly_def has_assignee_def assign_to_def status_defs split: option.splits)
  then show ?case using Cons by auto
qed simp

lemma freshly_from:
  assumes "list_all2 (assigned_from ms) ts ts'" and "\<forall>t \<in> set ts. tt_Status t = TaskStatusPending"
    and "t' \<in> set (filter freshly ts')"
  shows "\<exists>t \<in> set ts. \<exists>m \<in> set ms. \<not> has_assignee t \<and> t' = assign_to (tm_ID m) t"
  using assms
  by (induction ts ts' rule: list_all2_induct) (auto simp: assigned_from_def freshly_def status_defs split: if_splits)

lemma assigned_from_ids: "list_all2 (assigned_from ms) ts ts' \<Longrightarrow> map tt_ID ts' = map tt_ID ts"
  by (induction ts ts' rule: list_all2_induct) (auto simp: assigned_from_def assign_to_def)

lemma count_by_id:
  assumes "distinct (map row_id rows)" "distinct (map tt_ID ts)" "tt_ID ` set ts \<subseteq> row_id ` set rows"
  shows "length (filter (\<lambda>r. \<exists>t \<in> set ts. tt_ID t = row_id r \<and> P t) rows) = length (filter P ts)"
proof -
  let ?Q = "\<lambda>r. \<exists>t \<in> set ts. tt_ID t = row_id r \<and> P t"
  have "length (filter ?Q rows) = card (row_id ` set (filter ?Q rows))"
    using distinct_card[OF distinct_map_filter[OF assms(1), of ?Q]] by simp
  also have "row_id ` set (filter ?Q rows) = tt_ID ` set (filter P ts)" using assms(3) by force
  also have "card \<dots> = length (filter P ts)" using distinct_card[OF distinct_map_filter[OF assms(2), of P]] by simp
  finally show ?thesis .
qed

text \<open>What one row becomes when the waiting tasks are assigned.\<close>

definition assigned_to :: "('p, 'r) Hub \<Rightarrow> string \<Rightarrow> team_db \<Rightarrow> team_out list \<Rightarrow> task_row \<Rightarrow> task_row \<Rightarrow> bool" where
  "assigned_to h sid db outs r r' \<longleftrightarrow>
     waiting sid r \<and> \<not> has_assignee (tr_task r) \<and>
     (\<exists>mem \<in> set (td_members db). tm_SessionID mem = sid \<and> IsMachineOnline sid (tm_MachineID mem) h \<and>
        r' = r\<lparr>tr_task := assign_to (tm_ID mem) (tr_task r)\<rparr> \<and>
        (\<exists>mem'. GetMember (tm_ID mem) db = Some mem' \<and> Dispatch (tm_MachineID mem') (tr_task r') \<in> set outs))"

definition dispatched_to :: "string \<Rightarrow> team_out list \<Rightarrow> nat" where
  "dispatched_to m outs = length (filter (\<lambda>out. case out of Dispatch _ t \<Rightarrow> tt_AssignedMemberID t = Some m | _ \<Rightarrow> False) outs)"

lemma GetMember_known: "mem \<in> set (td_members db) \<Longrightarrow> \<exists>mem'. GetMember (tm_ID mem) db = Some mem'"
  by (cases "GetMember (tm_ID mem) db") (auto simp: GetMember_def find_None_iff)

lemma notifyAssignedMachines_known:
  assumes "\<forall>t \<in> set ts. \<exists>mem \<in> set (td_members db). tt_AssignedMemberID t = Some (tm_ID mem)"
  shows "dispatched_to m (notifyAssignedMachines db ts) = length (filter (\<lambda>t. tt_AssignedMemberID t = Some m) ts)"
    and "\<forall>t \<in> set ts. \<forall>mem'. GetMember (the (tt_AssignedMemberID t)) db = Some mem' \<longrightarrow>
          Dispatch (tm_MachineID mem') t \<in> set (notifyAssignedMachines db ts)"
  using assms
  by (induction ts) (auto simp: notifyAssignedMachines_def dispatched_to_def dest!: GetMember_known)

lemma GetMember_tasks [simp]: "GetMember m (db\<lparr>td_tasks := rows\<rparr>) = GetMember m db"
  by (simp add: GetMember_def)

lemma notifyAssignedMachines_tasks [simp]: "notifyAssignedMachines (db\<lparr>td_tasks := rows\<rparr>) ts = notifyAssignedMachines db ts"
  by (simp add: notifyAssignedMachines_def cong: option.case_cong)

definition newly_assigned ::
  "('f :: linorder) fl_ops \<Rightarrow> ('f CandidateScore list \<Rightarrow> 'f CandidateScore list) \<Rightarrow> ('p, 'r) Hub \<Rightarrow> string \<Rightarrow>
   team_db \<Rightarrow> TeamTask list" where
  "newly_assigned fl sorter h sid db = filter freshly (schedule fl sorter h sid db (ListPendingTasks sid db))"

definition apply_assignment :: "TeamTask list \<Rightarrow> task_row \<Rightarrow> task_row" where
  "apply_assignment ts r = (case find (\<lambda>t. tt_ID t = row_id r) ts of None \<Rightarrow> r | Some t \<Rightarrow> assigned_row t r)"

lemma pending_status: "\<forall>t \<in> set (ListPendingTasks sid db). tt_Status t = TaskStatusPending"
  by (auto simp: set_ListPendingTasks waiting_def)

lemma newly_assigned_ids:
  assumes "sorts_candidates sorter" "tasks_unique db"
  shows "distinct (map tt_ID (newly_assigned fl sorter h sid db))"
  unfolding newly_assigned_def
  using distinct_ListPendingTasks[OF assms(2), of sid] assigned_from_ids[OF schedule_spec(1)[OF assms(1)]]
    distinct_map_filter by metis

lemma newly_assigned_origin:
  assumes "sorts_candidates sorter" and "t \<in> set (newly_assigned fl sorter h sid db)"
  shows "\<exists>r \<in> set (td_tasks db). \<exists>mem \<in> set (online_members h sid db).
      waiting sid r \<and> \<not> has_assignee (tr_task r) \<and> t = assign_to (tm_ID mem) (tr_task r)"
  using freshly_from[OF schedule_spec(1)[OF assms(1)] pending_status] assms(2)
  by (fastforce simp: newly_assigned_def set_ListPendingTasks)

lemma newly_assigned_known:
  assumes "sorts_candidates sorter"
  shows "\<forall>t \<in> set (newly_assigned fl sorter h sid db). \<exists>mem \<in> set (td_members db). tt_AssignedMemberID t = Some (tm_ID mem)"
  using newly_assigned_origin[OF assms] by (fastforce simp: assign_to_def online_members_def ListMembers_def)

lemma assignPending_eq:
  assumes "sorts_candidates sorter" "tasks_unique db"
  shows "assignPendingTasksIfPossible fl sorter h sid db =
    (db\<lparr>td_tasks := map (apply_assignment (newly_assigned fl sorter h sid db)) (td_tasks db)\<rparr>,
     notifyAssignedMachines db (newly_assigned fl sorter h sid db))"
proof (cases "ListPendingTasks sid db = []")
  case True
  then have n: "newly_assigned fl sorter h sid db = []"
    using schedule_spec(1)[OF assms(1), where tasks = "[]" and h = h and sid = sid and db = db and fl = fl]
    by (simp add: newly_assigned_def)
  have "map (apply_assignment []) rows = rows" for rows by (simp add: apply_assignment_def[abs_def])
  then show ?thesis using True n by (simp add: assignPendingTasksIfPossible_def notifyAssignedMachines_def)
next
  case False
  then show ?thesis
    using fold_UpdateTask[OF newly_assigned_ids[OF assms], of assigned_row fl h sid db]
    by (simp add: assignPendingTasksIfPossible_def Let_def newly_assigned_def apply_assignment_def[abs_def])
qed

lemma newly_assigned_found:
  assumes "sorts_candidates sorter" and u: "tasks_unique db" and "r \<in> set (td_tasks db)"
    and "find (\<lambda>t. tt_ID t = row_id r) (newly_assigned fl sorter h sid db) = Some t"
  obtains mem where "mem \<in> set (online_members h sid db)" "waiting sid r" "\<not> has_assignee (tr_task r)"
    "t = assign_to (tm_ID mem) (tr_task r)" "t \<in> set (newly_assigned fl sorter h sid db)"
proof -
  have t: "t \<in> set (newly_assigned fl sorter h sid db)" "tt_ID t = row_id r" using assms(4) by (auto simp: find_Some_iff)
  obtain r0 mem where o: "r0 \<in> set (td_tasks db)" "mem \<in> set (online_members h sid db)" "waiting sid r0"
    "\<not> has_assignee (tr_task r0)" "t = assign_to (tm_ID mem) (tr_task r0)"
    using newly_assigned_origin[OF assms(1) t(1)] by blast
  have "row_id r0 = row_id r" using t(2) o(5) by (simp add: assign_to_def)
  then have "r0 = r" using row_of_unique[OF u o(1)] row_of_unique[OF u assms(3)] by (metis option.inject)
  then show ?thesis using o t(1) that by blast
qed

lemma assignPending_rows:
  assumes "sorts_candidates sorter" "tasks_unique db"
    and run: "assignPendingTasksIfPossible fl sorter h sid db = (db', outs)"
  shows "list_all2 (\<lambda>r r'. r' = r \<or> assigned_to h sid db outs r r') (td_tasks db) (td_tasks db')"
proof -
  let ?ts = "newly_assigned fl sorter h sid db"
  let ?F = "apply_assignment ?ts"
  have eq: "db' = db\<lparr>td_tasks := map ?F (td_tasks db)\<rparr>" "outs = notifyAssignedMachines db ?ts"
    using run assignPending_eq[OF assms(1,2)] by (metis Pair_inject)+
  have "?F r = r \<or> assigned_to h sid db outs r (?F r)" if r: "r \<in> set (td_tasks db)" for r
  proof (cases "find (\<lambda>t. tt_ID t = row_id r) ?ts")
    case (Some t)
    obtain mem where f: "mem \<in> set (online_members h sid db)" "waiting sid r" "\<not> has_assignee (tr_task r)"
      "t = assign_to (tm_ID mem) (tr_task r)" "t \<in> set ?ts" using newly_assigned_found[OF assms(1,2) r Some] .
    have "?F r = r\<lparr>tr_task := t\<rparr>" using Some f(4) by (simp add: apply_assignment_def assigned_row_def assign_to_def)
    moreover obtain mem' where "GetMember (tm_ID mem) db = Some mem'"
      using f(1) GetMember_known by (force simp: online_members_def ListMembers_def)
    moreover have "Dispatch (tm_MachineID mem') t \<in> set outs"
      using bspec[OF notifyAssignedMachines_known(2)[OF newly_assigned_known[OF assms(1)]] f(5)] f(4) calculation(2)
      by (simp add: eq(2) assign_to_def)
    ultimately show ?thesis using f(1-4) by (auto simp: assigned_to_def online_members_def ListMembers_def)
  qed (simp add: apply_assignment_def)
  then show ?thesis by (simp add: eq(1) list_all2_map2 list_all2_same)
qed

lemma apply_assignment_active:
  fixes fl :: "('f :: linorder) fl_ops" and h :: "('p, 'r) Hub" and sid m :: string
  assumes "sorts_candidates sorter" "tasks_unique db" "r \<in> set (td_tasks db)"
  defines "ts \<equiv> newly_assigned fl sorter h sid db"
  defines "Q \<equiv> \<exists>t \<in> set ts. tt_ID t = row_id r \<and> tt_AssignedMemberID t = Some m"
  shows "active_row sid m (apply_assignment ts r) = (active_row sid m r \<or> Q) \<and> \<not> (active_row sid m r \<and> Q)"
proof (cases "find (\<lambda>t. tt_ID t = row_id r) ts")
  case None
  then have "\<not> Q" by (auto simp: Q_def find_None_iff)
  then show ?thesis using None by (simp add: apply_assignment_def)
next
  case (Some t)
  have t: "t \<in> set ts" "tt_ID t = row_id r" using Some by (auto simp: find_Some_iff)
  have "t' = t" if "t' \<in> set ts" "tt_ID t' = row_id r" for t'
    using newly_assigned_ids[OF assms(1,2), of fl h sid, folded ts_def] t that
    unfolding distinct_map inj_on_def by metis
  then have "Q \<longleftrightarrow> tt_AssignedMemberID t = Some m" using t unfolding Q_def by metis
  moreover have "waiting sid r" using newly_assigned_found[OF assms(1-3) Some[unfolded ts_def]] by blast
  ultimately show ?thesis using Some
    by (auto simp: apply_assignment_def active_row_def waiting_def in_flight_def assigned_row_def status_defs)
qed

lemma assignPending_load:
  assumes "sorts_candidates sorter" "tasks_unique db" "m \<noteq> []"
    and run: "assignPendingTasksIfPossible fl sorter h sid db = (db', outs)"
  shows "active_load sid m db' = active_load sid m db + int (dispatched_to m outs) \<and>
    active_load sid m db' \<le> max 2 (active_load sid m db)"
proof -
  let ?ts = "newly_assigned fl sorter h sid db"
  let ?n = "length (filter (\<lambda>t. tt_AssignedMemberID t = Some m) ?ts)"
  let ?Q = "\<lambda>r. \<exists>t \<in> set ?ts. tt_ID t = row_id r \<and> tt_AssignedMemberID t = Some m"
  have eq: "db' = db\<lparr>td_tasks := map (apply_assignment ?ts) (td_tasks db)\<rparr>" "outs = notifyAssignedMachines db ?ts"
    using run assignPending_eq[OF assms(1,2)] by (metis Pair_inject)+
  have "length (filter (active_row sid m) (td_tasks db')) =
      length (filter (\<lambda>r. active_row sid m (apply_assignment ?ts r)) (td_tasks db))"
    by (simp add: eq filter_map o_def)
  also have "\<dots> = length (filter (active_row sid m) (td_tasks db)) + length (filter ?Q (td_tasks db))"
    by (rule length_filter_disjoint) (use apply_assignment_active[OF assms(1,2)] in blast)
  also have "length (filter ?Q (td_tasks db)) = ?n"
    using assms(2) newly_assigned_ids[OF assms(1,2)] newly_assigned_origin[OF assms(1)]
    by (intro count_by_id) (fastforce simp: tasks_unique_def assign_to_def)+
  finally have "active_load sid m db' = active_load sid m db + int ?n" by (simp add: active_load_def)
  moreover have "dispatched_to m outs = ?n"
    unfolding eq by (rule notifyAssignedMachines_known(1)[OF newly_assigned_known[OF assms(1)]])
  moreover have "active_load sid m db + int ?n \<le> max 2 (active_load sid m db)"
    using schedule_spec(2)[OF assms(1,3), of sid db "ListPendingTasks sid db" fl h]
      freshly_newly[OF schedule_spec(1)[OF assms(1), where h = h and sid = sid and db = db and fl = fl and
          tasks = "ListPendingTasks sid db"] pending_status assms(3)]
    by (simp add: newly_assigned_def)
  ultimately show ?thesis by simp
qed

text \<open>
  C39. Assigning the waiting tasks of a session is exact: a row changes only if it was pending in
  that session without an assignee, and then it is assigned to a member of the session whose
  machine is connected and sent to that member's machine; the load of every member, as the
  table shows it, grows by exactly the number of tasks sent to it and never beyond two tasks
  (or what it had before).
\<close>

theorem assignPendingTasks_correct:
  assumes "sorts_candidates sorter" and "tasks_unique db"
    and "assignPendingTasksIfPossible fl sorter h sid db = (db', outs)" and "m \<noteq> []"
  shows "list_all2 (\<lambda>r r'. r' = r \<or> assigned_to h sid db outs r r') (td_tasks db) (td_tasks db') \<and>
    active_load sid m db' = active_load sid m db + int (dispatched_to m outs) \<and>
    active_load sid m db' \<le> max 2 (active_load sid m db)"
  using assignPending_rows[OF assms(1-3)] assignPending_load[OF assms(1,2,4,3)] by blast

section \<open>Interruption and leader change\<close>

lemma fold_filter_update:
  "fold (\<lambda>t db. if P t then UpdateTask (tt_ID t) f db else db) ts db =
   fold (\<lambda>t. UpdateTask (tt_ID t) f) (filter P ts) db"
  by (induction ts arbitrary: db) auto

lemma distinct_ListTasks: "tasks_unique db \<Longrightarrow> distinct (map tt_ID (ListTasks sid db))"
proof -
  assume u: "tasks_unique db"
  let ?ws = "filter (\<lambda>r. tt_SessionID (tr_task r) = sid) (td_tasks db)"
  have "map tt_ID (ListTasks sid db) = map row_id (sort_key (\<lambda>r. (- tt_Priority (tr_task r), tr_CreatedAt r)) ?ws)"
    by (simp add: ListTasks_def order_tasks_def)
  moreover have "distinct (map row_id ?ws)" using u unfolding tasks_unique_def by (rule distinct_map_filter)
  ultimately show ?thesis by simp
qed

lemma set_ListTasks: "set (ListTasks sid db) = tr_task ` {r \<in> set (td_tasks db). tt_SessionID (tr_task r) = sid}"
  by (auto simp: ListTasks_def order_tasks_def)

lemma update_selected:
  assumes u: "tasks_unique db" and f: "\<And>r. row_id (f r) = row_id r"
    and d: "distinct (map tt_ID ts)" and s: "set ts = tr_task ` {r \<in> set (td_tasks db). S r}"
  shows "fold (\<lambda>t. UpdateTask (tt_ID t) f) (filter P ts) db =
    db\<lparr>td_tasks := map (\<lambda>r. if S r \<and> P (tr_task r) then f r else r) (td_tasks db)\<rparr>"
proof -
  have "(case find (\<lambda>t. tt_ID t = row_id r) (filter P ts) of None \<Rightarrow> r | Some t \<Rightarrow> f r) =
      (if S r \<and> P (tr_task r) then f r else r)" if r: "r \<in> set (td_tasks db)" for r
  proof -
    have "(\<exists>t \<in> set (filter P ts). tt_ID t = row_id r) \<longleftrightarrow> S r \<and> P (tr_task r)"
    proof
      assume "\<exists>t \<in> set (filter P ts). tt_ID t = row_id r"
      then obtain r0 where r0: "r0 \<in> set (td_tasks db)" "S r0" "P (tr_task r0)" "row_id r0 = row_id r" using s by auto
      then have "r0 = r" using row_of_unique[OF u r0(1)] row_of_unique[OF u r] by (metis option.inject)
      then show "S r \<and> P (tr_task r)" using r0 by simp
    qed (use r s in auto)
    then show ?thesis
      by (cases "find (\<lambda>t. tt_ID t = row_id r) (filter P ts)") (auto dest: find_SomeD iffD1[OF find_None_iff])
  qed
  then show ?thesis
    using fold_UpdateTask[OF distinct_map_filter[OF d, of P], where g = "\<lambda>t. f" and db = db] f
    by (simp cong: map_cong)
qed

lemma reconcile_fold:
  "fold (reconcile_step h sid) ts (db, outs, reset) =
   (fold (\<lambda>t. UpdateTask (tt_ID t) release_row) (filter (must_reset h sid db) ts) db,
    outs @ map (\<lambda>t. Notify ''task.interrupted'' (tt_ID t)) (filter (must_reset h sid db) ts),
    reset \<or> (\<exists>t \<in> set ts. must_reset h sid db t))"
proof (induction ts arbitrary: db outs reset)
  case (Cons t ts)
  have m: "must_reset h sid (UpdateTask i f db) = must_reset h sid db" for i f
    by (auto simp: must_reset_def fun_eq_iff split: option.splits)
  show ?case using Cons by (auto simp: reconcile_step_def m)
qed simp

definition released :: "('p, 'r) Hub \<Rightarrow> string \<Rightarrow> team_db \<Rightarrow> task_row \<Rightarrow> task_row" where
  "released h sid db r =
     (if tt_SessionID (tr_task r) = sid \<and> must_reset h sid db (tr_task r) then release_row r else r)"

lemma reconcile_eq:
  assumes "tasks_unique db"
  shows "reconcileTasksOnLeaderChange fl sorter h sid db =
    (let db1 = db\<lparr>td_tasks := map (released h sid db) (td_tasks db)\<rparr>;
         outs = map (\<lambda>t. Notify ''task.interrupted'' (tt_ID t)) (filter (must_reset h sid db) (ListTasks sid db))
     in if \<exists>t \<in> set (ListTasks sid db). must_reset h sid db t
        then (case assignPendingTasksIfPossible fl sorter h sid db1 of (db2, outs') \<Rightarrow> (db2, outs @ outs'))
        else (db1, outs))"
  using update_selected[OF assms _ distinct_ListTasks[OF assms] set_ListTasks, where f = release_row]
  by (simp add: reconcileTasksOnLeaderChange_def reconcile_fold Let_def released_def[abs_def])

lemma released_unique: "tasks_unique db \<Longrightarrow> tasks_unique (db\<lparr>td_tasks := map (released h sid db) (td_tasks db)\<rparr>)"
  by (simp add: tasks_unique_def o_def released_def if_distrib cong: if_cong)

lemma released_load: "active_load sid m (db\<lparr>td_tasks := map (released h sid db) (td_tasks db)\<rparr>) \<le> active_load sid m db"
proof -
  have "length (filter (active_row sid m) (map (released h sid db) rows)) \<le> length (filter (active_row sid m) rows)" for rows
    by (induction rows) (auto simp: released_def release_row_def active_row_def)
  then show ?thesis by (simp add: active_load_def)
qed

lemma assigned_to_members: "td_members db' = td_members db \<Longrightarrow> assigned_to h sid db' outs r r' = assigned_to h sid db outs r r'"
  by (simp add: assigned_to_def GetMember_def)

lemma assigned_to_outs: "assigned_to h sid db outs r r' \<Longrightarrow> set outs \<subseteq> set outs' \<Longrightarrow> assigned_to h sid db outs' r r'"
  unfolding assigned_to_def by blast

text \<open>What the reconciliation does to each row, and the messages it sends.\<close>

lemma reconcile_rows:
  assumes "sorts_candidates sorter" and "tasks_unique db" and run: "reconcileTasksOnLeaderChange fl sorter h sid db = (db', outs)"
  shows "list_all2 (\<lambda>r r'. if tt_SessionID (tr_task r) = sid \<and> must_reset h sid db (tr_task r)
       then Notify ''task.interrupted'' (row_id r) \<in> set outs \<and> (r' = release_row r \<or> assigned_to h sid db outs (release_row r) r')
       else r' = r \<or> assigned_to h sid db outs r r') (td_tasks db) (td_tasks db')"
    and "m \<noteq> [] \<Longrightarrow> active_load sid m db' \<le> max 2 (active_load sid m db)"
proof -
  let ?rows = "map (released h sid db) (td_tasks db)"
  let ?db1 = "db\<lparr>td_tasks := ?rows\<rparr>"
  let ?notes = "map (\<lambda>t. Notify ''task.interrupted'' (tt_ID t)) (filter (must_reset h sid db) (ListTasks sid db))"
  have u1: "tasks_unique ?db1" using released_unique[OF assms(2)] .
  obtain outs1 where outs1: "set outs1 \<subseteq> set outs" "set ?notes \<subseteq> set outs"
      "db' = ?db1 \<or> assignPendingTasksIfPossible fl sorter h sid ?db1 = (db', outs1)"
  proof (cases "\<exists>t \<in> set (ListTasks sid db). must_reset h sid db t")
    case True
    obtain db2 outs2 where a: "assignPendingTasksIfPossible fl sorter h sid ?db1 = (db2, outs2)" by fastforce
    have "(db', outs) = (db2, ?notes @ outs2)"
      using run unfolding reconcile_eq[OF assms(2), of fl sorter h sid] Let_def if_P[OF True] a prod.case by (rule sym)
    then show ?thesis using that[of outs2] a by (simp only: prod.inject set_append) blast
  next
    case False
    have "(db', outs) = (?db1, ?notes)"
      using run unfolding reconcile_eq[OF assms(2), of fl sorter h sid] Let_def if_not_P[OF False] by (rule sym)
    then show ?thesis using that[of "[]"] by (simp only: prod.inject list.set(1)) blast
  qed
  have "list_all2 (\<lambda>r r'. r' = r \<or> assigned_to h sid ?db1 outs1 r r') ?rows (td_tasks db')"
    using outs1(3) assignPending_rows[OF assms(1) u1] by (auto simp: list_all2_same)
  moreover have mem: "assigned_to h sid db outs r r'" if "assigned_to h sid ?db1 outs1 r r'" for r r'
    using assigned_to_outs[OF that outs1(1)] assigned_to_members[of ?db1 db h sid outs r r'] by simp
  ultimately have step: "list_all2 (\<lambda>r r'. r' = released h sid db r \<or> assigned_to h sid db outs (released h sid db r) r') (td_tasks db) (td_tasks db')"
    unfolding list_all2_map1 by (elim list_all2_mono) (use mem in blast)
  have announced: "Notify ''task.interrupted'' (row_id r) \<in> set outs"
    if "r \<in> set (td_tasks db)" "tt_SessionID (tr_task r) = sid" "must_reset h sid db (tr_task r)" for r
    using outs1(2) that set_ListTasks[of sid db] by auto
  show "list_all2 (\<lambda>r r'. if tt_SessionID (tr_task r) = sid \<and> must_reset h sid db (tr_task r)
       then Notify ''task.interrupted'' (row_id r) \<in> set outs \<and> (r' = release_row r \<or> assigned_to h sid db outs (release_row r) r')
       else r' = r \<or> assigned_to h sid db outs r r') (td_tasks db) (td_tasks db')"
    by (rule list.rel_mono_strong[OF step]) (use announced in \<open>auto simp: released_def split: if_splits\<close>)
  show "active_load sid m db' \<le> max 2 (active_load sid m db)" if "m \<noteq> []"
    using outs1(3) assignPending_load[OF assms(1) u1 that] released_load[where sid = sid and m = m and db = db and h = h] by fastforce
qed

text \<open>A task in flight after the reconciliation: on a connected machine, or skipped because its member has no machine or no row.\<close>

definition placed :: "('p, 'r) Hub \<Rightarrow> string \<Rightarrow> team_db \<Rightarrow> task_row \<Rightarrow> bool" where
  "placed h sid db r' \<longleftrightarrow> (\<exists>mid. tt_AssignedMemberID (tr_task r') = Some mid \<and>
     (case GetMember mid db of
        None \<Rightarrow> r' \<in> set (td_tasks db)
      | Some mem \<Rightarrow> IsMachineOnline sid (tm_MachineID mem) h \<or> tm_MachineID mem = [] \<and> r' \<in> set (td_tasks db)))"

lemma assigned_placed:
  assumes "distinct (map tm_ID (td_members db))" "assigned_to h sid db outs r r'"
  shows "placed h sid db r'"
proof -
  obtain mem where m: "mem \<in> set (td_members db)" "IsMachineOnline sid (tm_MachineID mem) h"
    "tt_AssignedMemberID (tr_task r') = Some (tm_ID mem)" using assms(2) by (auto simp: assigned_to_def assign_to_def)
  have "GetMember (tm_ID mem) db = Some mem"
    using GetMember_known[OF m(1)] m(1) assms(1) by (auto simp: GetMember_def distinct_map inj_on_def dest: find_SomeD)
  then show ?thesis using m(2,3) by (simp add: placed_def)
qed

lemma kept_placed: "r \<in> set (td_tasks db) \<Longrightarrow> in_flight (tr_task r) \<Longrightarrow> \<not> must_reset h sid db (tr_task r) \<Longrightarrow> placed h sid db r"
  by (auto simp: placed_def must_reset_def split: option.splits)

text \<open>
  C40. The reconciliation of the tasks of a session after a change of leader is exact, on a database that works and that no other request
  changes meanwhile.  A task in flight that has no assignee, or whose
  assignee is a member of the session table with a machine that is not connected, is announced as interrupted and becomes a waiting task, or is
  assigned at once to a connected member and sent to it; every other row stays as it is, except that waiting tasks may be assigned as well;
  and no member is given more than two tasks (or what it had).  So afterwards every task in flight has an assignee, and the machine of that
  member is connected, or the row was skipped because the member has no machine or was removed: such a task stays with the removed member
  (lemma \<open>removed_member_keeps_task\<close> below).
\<close>

theorem reconcile_lost_machines:
  assumes "sorts_candidates sorter" and "tasks_unique db" and "distinct (map tm_ID (td_members db))"
    and "reconcileTasksOnLeaderChange fl sorter h sid db = (db', outs)"
  shows "list_all2 (\<lambda>r r'. if tt_SessionID (tr_task r) = sid \<and> must_reset h sid db (tr_task r)
       then Notify ''task.interrupted'' (row_id r) \<in> set outs \<and> (r' = release_row r \<or> assigned_to h sid db outs (release_row r) r')
       else r' = r \<or> assigned_to h sid db outs r r') (td_tasks db) (td_tasks db') \<and>
    (\<forall>m. m \<noteq> [] \<longrightarrow> active_load sid m db' \<le> max 2 (active_load sid m db)) \<and>
    (\<forall>r' \<in> set (td_tasks db'). tt_SessionID (tr_task r') = sid \<and> in_flight (tr_task r') \<longrightarrow>
       (\<exists>mid. tt_AssignedMemberID (tr_task r') = Some mid \<and>
          (case GetMember mid db of
             None \<Rightarrow> r' \<in> set (td_tasks db)
           | Some mem \<Rightarrow> IsMachineOnline sid (tm_MachineID mem) h \<or> tm_MachineID mem = [] \<and> r' \<in> set (td_tasks db))))"
proof -
  note rows = reconcile_rows(1)[OF assms(1,2,4)]
  have "placed h sid db r'" if r': "r' \<in> set (td_tasks db')" "tt_SessionID (tr_task r') = sid" "in_flight (tr_task r')" for r'
  proof -
    obtain r where r: "r \<in> set (td_tasks db)" "if tt_SessionID (tr_task r) = sid \<and> must_reset h sid db (tr_task r)
       then Notify ''task.interrupted'' (row_id r) \<in> set outs \<and> (r' = release_row r \<or> assigned_to h sid db outs (release_row r) r')
       else r' = r \<or> assigned_to h sid db outs r r'" using list_all2_in_set2[OF rows r'(1)] by blast
    have "\<not> in_flight (tr_task (release_row r))" by (simp add: release_row_def in_flight_def status_defs)
    then show ?thesis using r r'(2,3) assigned_placed[OF assms(3)] kept_placed[of r db h sid] by (auto split: if_splits)
  qed
  then show ?thesis using rows reconcile_rows(2)[OF assms(1,2,4)] unfolding placed_def by blast
qed

section \<open>Completion and dependencies\<close>

lemma blockedCount_update:
  assumes "\<forall>r \<in> set (td_tasks db). row_id r = i \<longrightarrow> row_status r \<noteq> TaskStatusCompleted"
  shows "blockedCount deps (UpdateTask i (set_status TaskStatusPending) db) = blockedCount deps db"
proof -
  have "filter ((\<lambda>r. row_id r \<in> set deps \<and> row_status r \<noteq> TaskStatusCompleted) \<circ>
        (\<lambda>r. if row_id r = i then set_status TaskStatusPending r else r)) (td_tasks db) =
      filter (\<lambda>r. row_id r \<in> set deps \<and> row_status r \<noteq> TaskStatusCompleted) (td_tasks db)"
    using assms by (intro filter_cong) (auto simp: set_status_def status_defs)
  then show ?thesis by (simp add: blockedCount_def UpdateTask_def filter_map)
qed

definition ready :: "team_db \<Rightarrow> TeamTask \<Rightarrow> bool" where
  "ready db t \<longleftrightarrow> claimable (tt_Status t) \<and> tt_Dependencies t \<noteq> [] \<and> blockedCount (tt_Dependencies t) db = 0"

lemma unlock_fold:
  assumes "distinct (map tt_ID ts)" and "\<forall>t \<in> set ts. \<forall>r \<in> set (td_tasks db). row_id r = tt_ID t \<longrightarrow> tr_task r = t"
  shows "fold unlock_step ts (unlocked, db) =
    (unlocked @ map (\<lambda>t. t\<lparr>tt_Status := TaskStatusPending\<rparr>) (filter (ready db) ts),
     fold (\<lambda>t. UpdateTask (tt_ID t) (set_status TaskStatusPending)) (filter (ready db) ts) db)"
  using assms
proof (induction ts arbitrary: unlocked db)
  case (Cons t ts)
  let ?db = "UpdateTask (tt_ID t) (set_status TaskStatusPending) db"
  show ?case
  proof (cases "ready db t")
    case True
    have "\<forall>r \<in> set (td_tasks db). row_id r = tt_ID t \<longrightarrow> row_status r \<noteq> TaskStatusCompleted"
      using True Cons.prems(2) by (auto simp: ready_def claimable_def status_defs)
    then have "ready ?db = ready db" by (simp add: ready_def fun_eq_iff blockedCount_update)
    moreover have "\<forall>t' \<in> set ts. \<forall>r \<in> set (td_tasks ?db). row_id r = tt_ID t' \<longrightarrow> tr_task r = t'"
    proof (intro ballI impI)
      fix t' r assume a: "t' \<in> set ts" "r \<in> set (td_tasks ?db)" "row_id r = tt_ID t'"
      have "tt_ID t' \<noteq> tt_ID t" using Cons.prems(1) a(1) by (auto simp: image_iff)
      then have "r \<in> set (td_tasks db)" using a(2,3) by (auto simp: UpdateTask_def split: if_splits)
      then show "tr_task r = t'" using Cons.prems(2) a(1,3) by simp
    qed
    ultimately show ?thesis using True Cons.IH[of ?db] Cons.prems(1)
      by (simp add: unlock_step_def ready_def[of db t])
  next
    case False
    then show ?thesis using Cons by (auto simp: unlock_step_def ready_def)
  qed
qed simp

lemma complete_row_id [simp]: "row_id (complete_row now result r) = row_id r"
  by (simp add: complete_row_def set_status_def)

definition dependent :: "string \<Rightarrow> string \<Rightarrow> task_row \<Rightarrow> bool" where
  "dependent sid i r \<longleftrightarrow> tt_SessionID (tr_task r) = sid \<and> i \<in> set (tt_Dependencies (tr_task r))"

text \<open>All dependencies of the task that exist in the table are completed.\<close>

definition deps_done :: "team_db \<Rightarrow> TeamTask \<Rightarrow> bool" where
  "deps_done db t \<longleftrightarrow> (\<forall>r \<in> set (td_tasks db). row_id r \<in> set (tt_Dependencies t) \<longrightarrow> row_status r = TaskStatusCompleted)"

lemma blockedCount_zero: "blockedCount (tt_Dependencies t) db = 0 \<longleftrightarrow> deps_done db t"
  by (auto simp: blockedCount_def deps_done_def filter_empty_conv)

lemma UnlockDependentTasks_eq:
  assumes "tasks_unique db"
  shows "UnlockDependentTasks sid i db =
    (map (\<lambda>r. (tr_task r)\<lparr>tt_Status := TaskStatusPending\<rparr>)
       (filter (\<lambda>r. dependent sid i r \<and> claimable (row_status r) \<and> deps_done db (tr_task r)) (td_tasks db)),
     db\<lparr>td_tasks := map (\<lambda>r. if dependent sid i r \<and> claimable (row_status r) \<and> deps_done db (tr_task r)
          then set_status TaskStatusPending r else r) (td_tasks db)\<rparr>)"
proof -
  let ?cs = "filter (dependent sid i) (td_tasks db)"
  have d: "distinct (map tt_ID (map tr_task ?cs))"
    using distinct_map_filter[OF assms[unfolded tasks_unique_def]] by (simp add: o_def)
  have own: "\<forall>t \<in> set (map tr_task ?cs). \<forall>r \<in> set (td_tasks db). row_id r = tt_ID t \<longrightarrow> tr_task r = t"
  proof clarsimp
    fix r0 r assume "r0 \<in> set (td_tasks db)" "r \<in> set (td_tasks db)" "row_id r = row_id r0"
    then have "r = r0" using row_of_unique[OF assms] by (metis option.inject)
    then show "tr_task r = tr_task r0" by simp
  qed
  have ready: "dependent sid i r \<and> ready db (tr_task r) \<longleftrightarrow>
      dependent sid i r \<and> claimable (row_status r) \<and> deps_done db (tr_task r)" for r
    by (auto simp: ready_def dependent_def blockedCount_zero)
  have "UnlockDependentTasks sid i db = fold unlock_step (map tr_task ?cs) ([], db)"
    by (simp add: UnlockDependentTasks_def dependent_def[abs_def])
  also have "\<dots> = (map (\<lambda>r. (tr_task r)\<lparr>tt_Status := TaskStatusPending\<rparr>) (filter (\<lambda>r. dependent sid i r \<and> ready db (tr_task r)) (td_tasks db)),
     db\<lparr>td_tasks := map (\<lambda>r. if dependent sid i r \<and> ready db (tr_task r) then set_status TaskStatusPending r else r) (td_tasks db)\<rparr>)"
    using update_selected[OF assms _ d, where S = "dependent sid i" and f = "set_status TaskStatusPending" and P = "ready db"]
    by (auto simp: unlock_fold[OF d own] filter_map o_def conj_commute)
  finally show ?thesis unfolding ready .
qed

definition freed :: "int \<Rightarrow> string \<Rightarrow> string \<Rightarrow> string \<Rightarrow> team_db \<Rightarrow> task_row \<Rightarrow> bool" where
  "freed now result sid i db r \<longleftrightarrow> row_id r \<noteq> i \<and> dependent sid i r \<and> claimable (row_status r) \<and>
     deps_done (UpdateTask i (complete_row now result) db) (tr_task r)"

text \<open>
  Completing a task releases exactly the tasks that waited for it: with the task marked
  completed, a row becomes pending if and only if it belongs to the session, depends on the
  completed task, has not been started and all its dependencies that exist are completed; these
  tasks, in table order, are sent to the machines of their members, if they have one, and the
  completion is broadcast last.
\<close>

theorem handle_TaskComplete_unlocks:
  assumes "tasks_unique db" and "i \<noteq> []"
  shows "handle_TaskComplete now result sid i db =
    (db\<lparr>td_tasks := map (\<lambda>r. if row_id r = i then complete_row now result r
                            else if freed now result sid i db r then set_status TaskStatusPending r else r) (td_tasks db)\<rparr>,
     notifyAssignedMachines db (map (\<lambda>r. (tr_task r)\<lparr>tt_Status := TaskStatusPending\<rparr>)
       (filter (freed now result sid i db) (td_tasks db))) @ [Notify ''task.complete'' i])"
proof -
  let ?c = "\<lambda>r. if row_id r = i then complete_row now result r else r"
  let ?db1 = "UpdateTask i (complete_row now result) db"
  let ?free = "\<lambda>r. dependent sid i r \<and> claimable (row_status r) \<and> deps_done ?db1 (tr_task r)"
  have u1: "tasks_unique ?db1" using assms(1) by simp
  have rows1: "td_tasks ?db1 = map ?c (td_tasks db)" by (simp add: UpdateTask_def)
  have fc: "?free (?c r) = freed now result sid i db r" for r
    by (simp add: freed_def complete_row_def set_status_def claimable_def status_defs)
  have 1: "map (\<lambda>r. (tr_task r)\<lparr>tt_Status := TaskStatusPending\<rparr>) (filter ?free (td_tasks ?db1)) =
      map (\<lambda>r. (tr_task r)\<lparr>tt_Status := TaskStatusPending\<rparr>) (filter (freed now result sid i db) (td_tasks db))"
    unfolding rows1 filter_map o_def fc map_map by (auto simp: freed_def)
  have 2: "map (\<lambda>r. if ?free r then set_status TaskStatusPending r else r) (td_tasks ?db1) =
      map (\<lambda>r. if row_id r = i then complete_row now result r
               else if freed now result sid i db r then set_status TaskStatusPending r else r) (td_tasks db)"
    unfolding rows1 map_map o_def fc by (auto simp: freed_def)
  have 3: "?db1\<lparr>td_tasks := rows\<rparr> = db\<lparr>td_tasks := rows\<rparr>" for rows by (simp add: UpdateTask_def)
  show ?thesis using assms(2)
    by (simp add: handle_TaskComplete_def notifyUnlockedTasks_def UnlockDependentTasks_eq[OF u1] 1 2 3)
qed

section \<open>An example session\<close>

text \<open>Machine \<^verbatim>\<open>m1\<close> is connected, \<^verbatim>\<open>m2\<close> is not; task \<^verbatim>\<open>b\<close> runs on \<^verbatim>\<open>m2\<close>, \<^verbatim>\<open>a\<close> waits without an assignee and \<^verbatim>\<open>c\<close> waits for
  \<^verbatim>\<open>b\<close>.\<close>

definition row_example :: "TeamTask \<Rightarrow> task_row" where
  "row_example t = \<lparr>tr_task = t, tr_CreatedAt = 0, tr_ClaimedAt = None, tr_StartedAt = None, tr_CompletedAt = None,
     tr_Result = None\<rparr>"

definition team_example :: team_db where
  "team_example = \<lparr>td_tasks = map row_example
     [task_example ''a'' [],
      (task_example ''b'' [])\<lparr>tt_AssignedMemberID := Some ''m2'', tt_Status := TaskStatusRunning\<rparr>,
      (task_example ''c'' [])\<lparr>tt_Dependencies := [''b''], tt_AssignedMemberID := Some ''m1'', tt_Status := TaskStatusAssigned\<rparr>],
     td_members = [member_example ''m1'', member_example ''m2''], td_repos = []\<rparr>"

lemmas team_example_defs = team_example_def row_example_def task_example_def member_example_def

lemma team_example_unique: "tasks_unique team_example"
  by (simp add: tasks_unique_def team_example_defs)

lemma team_example_rows:
  "row_of ''a'' team_example = Some (row_example (task_example ''a'' []))"
  "row_of ''b'' team_example = Some (row_example ((task_example ''b'' [])\<lparr>tt_AssignedMemberID := Some ''m2'', tt_Status := TaskStatusRunning\<rparr>))"
  by (simp_all add: row_of_def team_example_defs)

theorem ClaimTask_exclusive_witness:
  "fst (run_claims ''a'' [(1, ''m1''), (2, ''m2''), (3, ''m1'')] team_example) = [True, False, False]"
  using ClaimTask_exclusive[OF team_example_unique team_example_rows(1), where now = 1 and m = "''m1''" and
      cs = "[(2, ''m2''), (3, ''m1'')]"]
  by (simp add: row_example_def task_example_def claimable_def)

theorem retries_bounded_witness:
  "(\<exists>r'. row_of ''b'' ((fail_db ''boom'' ''b'' ^^ 4) team_example) = Some r' \<and> tt_RetryCount (tr_task r') = 3 \<and>
     row_status r' = TaskStatusFailed \<and> tt_ErrorMessage (tr_task r') = ''boom'') \<and>
   (\<exists>machine t. Dispatch machine t \<in> set (snd (handle_TaskFail ''boom'' ''b'' ((fail_db ''boom'' ''b'' ^^ 2) team_example))))"
  using retries_bounded[OF _ team_example_rows(2), where n = 4 and k = 2 and e = "''boom''"]
  by (simp add: retry_budget_def row_example_def task_example_def GetMember_def team_example_def member_example_def)

theorem assignPendingTasks_correct_witness:
  "tasks_unique team_example \<and>
   (case assignPendingTasksIfPossible fl_percent key_sorter hub_example ''s'' team_example of (db', outs) \<Rightarrow>
      active_load ''s'' ''m1'' db' = active_load ''s'' ''m1'' team_example + int (dispatched_to ''m1'' outs) \<and>
      active_load ''s'' ''m1'' db' \<le> max 2 (active_load ''s'' ''m1'' team_example))"
proof -
  obtain db' outs where run: "assignPendingTasksIfPossible fl_percent key_sorter hub_example ''s'' team_example = (db', outs)"
    by force
  show ?thesis
    using assignPendingTasks_correct[OF key_sorter_sorts team_example_unique run, where m = "''m1''"] team_example_unique
    by (simp add: run)
qed

theorem reconcile_lost_machines_witness:
  "distinct (map tm_ID (td_members team_example)) \<and>
   length (td_tasks (fst (reconcileTasksOnLeaderChange fl_percent key_sorter hub_example ''s'' team_example))) = 3"
proof -
  obtain db' outs where run: "reconcileTasksOnLeaderChange fl_percent key_sorter hub_example ''s'' team_example = (db', outs)"
    by force
  have d: "distinct (map tm_ID (td_members team_example))" by (simp add: team_example_defs)
  have "length (td_tasks team_example) = length (td_tasks db')"
    using reconcile_lost_machines[OF key_sorter_sorts team_example_unique d run] by (blast dest: list_all2_lengthD)
  then show ?thesis using d run by (simp add: team_example_def)
qed

text \<open>The running task of a member whose row was deleted is skipped and stays running.\<close>

lemma removed_member_keeps_task:
  "map row_status (td_tasks (fst (reconcileTasksOnLeaderChange fl_percent key_sorter hub_example ''s'' (team_example\<lparr>td_members := []\<rparr>)))) =
   map row_status (td_tasks team_example) \<and> TaskStatusRunning \<in> row_status ` set (td_tasks team_example)"
  by code_simp

theorem handle_TaskComplete_unlocks_witness:
  "snd (handle_TaskComplete 9 ''ok'' ''s'' ''b'' team_example) =
   [Dispatch ''m1'' ((task_example ''c'' [])\<lparr>tt_Dependencies := [''b''], tt_AssignedMemberID := Some ''m1''\<rparr>),
    Notify ''task.complete'' ''b'']"
  using handle_TaskComplete_unlocks[OF team_example_unique, where i = "''b''" and now = 9 and result = "''ok''" and sid = "''s''"]
  by (simp add: freed_def dependent_def claimable_def deps_done_def UpdateTask_def complete_row_def set_status_def
      notifyAssignedMachines_def GetMember_def team_example_defs status_defs)

end
