(* ===== verification/Outbox.thy ===== *)
theory Outbox
  imports Prelude "HOL-Library.Word"
begin

unbundle bit_operations_syntax

text \<open>
  The event outbox of the user service (\<^verbatim>\<open>cs-user/internal/eventbus/outbox.go\<close>, \<^verbatim>\<open>adapter.go\<close>,
  \<^verbatim>\<open>cs-user/internal/models/user_event.go\<close>): events are rows of a table, written when a user is
  created, and a worker delivers the pending ones to the API server with retries.

  The table \<^verbatim>\<open>user_events\<close> is a list of rows in any order.  The environment of a sweep is the record
  \<open>outbox_env\<close>: the answer of the consumer to a POST, whether a request can be built, whether an
  update of the table succeeds and how many rows are handled before the context is cancelled.  Times are
  nanoseconds; the clock is read once per sweep.  A \<^verbatim>\<open>time.Duration\<close> is a signed 64-bit integer, and the
  backoff is computed on 64-bit words as in Go.  The requests made are kept in a ghost log.
\<close>

section \<open>Rows and configuration\<close>

datatype event_status = Pending | Delivered | Failed

record UserEvent =
  ue_EventID :: string
  ue_EventType :: string
  ue_SubjectID :: string
  ue_TenantID :: string
  ue_Payload :: string
  ue_Status :: event_status
  ue_Attempts :: int
  ue_LastError :: "string option"
  ue_AvailableAt :: int
  ue_DeliveredAt :: "int option"
  ue_CreatedAt :: int

record Config =
  cf_TargetURL :: string
  cf_PollInterval :: int
  cf_BatchSize :: int
  cf_MaxAttempts :: int
  cf_BackoffBase :: int
  cf_BackoffMax :: int
  cf_HTTPTimeout :: int

definition second :: int where
  "second = 1000000000"

definition applyDefaults :: "Config \<Rightarrow> Config" where
  "applyDefaults c = c\<lparr>
     cf_PollInterval := (if cf_PollInterval c \<le> 0 then second else cf_PollInterval c),
     cf_BatchSize := (if cf_BatchSize c \<le> 0 then 50 else cf_BatchSize c),
     cf_BackoffBase := (if cf_BackoffBase c \<le> 0 then 2 * second else cf_BackoffBase c),
     cf_BackoffMax := (if cf_BackoffMax c \<le> 0 then 300 * second else cf_BackoffMax c),
     cf_HTTPTimeout := (if cf_HTTPTimeout c \<le> 0 then 5 * second else cf_HTTPTimeout c)\<rparr>"

record UserPayload =
  up_SubjectID :: string
  up_TenantID :: string
  up_ShortID :: string
  up_Username :: string
  up_DisplayName :: "string option"
  up_Email :: "string option"

record EventPayload =
  ep_EventID :: string
  ep_EventType :: string
  ep_SubjectID :: string
  ep_TenantID :: string
  ep_OccurredAt :: int
  ep_User :: UserPayload

record OutboxState =
  ob_rows :: "UserEvent list"
  ob_closed :: bool
  ob_posts :: "(UserEvent \<times> int option) list"
  ob_failures :: "string list"

record outbox_env =
  en_build_ok :: bool
  en_post :: "UserEvent \<Rightarrow> int option"
  en_db_ok :: "string \<Rightarrow> bool"
  en_alive :: nat

datatype outbox_error = ErrOutboxClosed | ErrInvalidEvent | ErrMarshal | ErrInsert

section \<open>Writing\<close>

definition event_payload ::
  "string \<Rightarrow> int \<Rightarrow> string \<Rightarrow> string \<Rightarrow> string \<Rightarrow> UserPayload \<Rightarrow> EventPayload" where
  "event_payload newID now eventType subjectID tenant user =
     (let u1 = (if up_SubjectID user = [] then user\<lparr>up_SubjectID := subjectID\<rparr> else user);
          u2 = (if up_TenantID u1 = [] then u1\<lparr>up_TenantID := tenant\<rparr> else u1)
      in \<lparr>ep_EventID = newID, ep_EventType = eventType, ep_SubjectID = subjectID,
          ep_TenantID = tenant, ep_OccurredAt = now, ep_User = u2\<rparr>)"

definition event_row :: "string \<Rightarrow> int \<Rightarrow> string \<Rightarrow> string \<Rightarrow> string \<Rightarrow> string \<Rightarrow> UserEvent" where
  "event_row newID now eventType subjectID tenant body =
     \<lparr>ue_EventID = newID, ue_EventType = eventType, ue_SubjectID = subjectID, ue_TenantID = tenant,
      ue_Payload = body, ue_Status = Pending, ue_Attempts = 0, ue_LastError = None,
      ue_AvailableAt = now, ue_DeliveredAt = None, ue_CreatedAt = now\<rparr>"

definition Enqueue ::
  "(EventPayload \<Rightarrow> string option) \<Rightarrow> bool \<Rightarrow> string \<Rightarrow> int \<Rightarrow> string \<Rightarrow> string \<Rightarrow> string \<Rightarrow> UserPayload \<Rightarrow>
   OutboxState \<Rightarrow> (outbox_error + unit) \<times> OutboxState" where
  "Enqueue marshal insert_ok newID now eventType subjectID tenantID user st =
     (if ob_closed st then (Inl ErrOutboxClosed, st)
      else if eventType = [] \<or> subjectID = [] then (Inl ErrInvalidEvent, st)
      else
        let tenant = (if tenantID = [] then ''default'' else tenantID)
        in case marshal (event_payload newID now eventType subjectID tenant user) of
             None \<Rightarrow> (Inl ErrMarshal, st)
           | Some body \<Rightarrow>
               if \<not> insert_ok then (Inl ErrInsert, st)
               else if newID \<in> ue_EventID ` set (ob_rows st) then (Inr (), st)
               else (Inr (), st\<lparr>ob_rows := ob_rows st @
                      [event_row newID now eventType subjectID tenant body]\<rparr>))"

record UserRow =
  ur_SubjectID :: string
  ur_TenantID :: string
  ur_ShortID :: string
  ur_Username :: string
  ur_DisplayName :: "string option"
  ur_Email :: "string option"

definition PublishUserCreated ::
  "(EventPayload \<Rightarrow> string option) \<Rightarrow> bool \<Rightarrow> string \<Rightarrow> int \<Rightarrow> UserRow option \<Rightarrow> OutboxState \<Rightarrow>
   (outbox_error + unit) \<times> OutboxState" where
  "PublishUserCreated marshal insert_ok newID now u st =
     (case u of
        None \<Rightarrow> (Inr (), st)
      | Some u \<Rightarrow>
          let tenantID = (if ur_TenantID u = [] then ''default'' else ur_TenantID u)
          in Enqueue marshal insert_ok newID now ''user.created'' (ur_SubjectID u) tenantID
               \<lparr>up_SubjectID = ur_SubjectID u, up_TenantID = tenantID, up_ShortID = ur_ShortID u,
                up_Username = ur_Username u, up_DisplayName = ur_DisplayName u, up_Email = ur_Email u\<rparr> st)"

definition Close :: "OutboxState \<Rightarrow> OutboxState" where
  "Close st = st\<lparr>ob_closed := True\<rparr>"

definition PendingCount :: "OutboxState \<Rightarrow> nat" where
  "PendingCount st = length (filter (\<lambda>r. ue_Status r = Pending) (ob_rows st))"

section \<open>Delivering\<close>

definition update_row :: "outbox_env \<Rightarrow> string \<Rightarrow> (UserEvent \<Rightarrow> UserEvent) \<Rightarrow> OutboxState \<Rightarrow> OutboxState" where
  "update_row env eventID f st =
     (if en_db_ok env eventID
      then st\<lparr>ob_rows := map (\<lambda>r. if ue_EventID r = eventID then f r else r) (ob_rows st)\<rparr>
      else st)"

definition markDelivered :: "outbox_env \<Rightarrow> int \<Rightarrow> UserEvent \<Rightarrow> OutboxState \<Rightarrow> OutboxState" where
  "markDelivered env now row =
     update_row env (ue_EventID row)
       (\<lambda>r. r\<lparr>ue_Status := Delivered, ue_DeliveredAt := Some now, ue_LastError := None\<rparr>)"

text \<open>The backoff on 64-bit words: \<^verbatim>\<open>BackoffBase << uint(attempts-1)\<close>, a shift by 64 or more giving zero,
  compared with the ceiling as signed integers.\<close>

definition backoff_of :: "Config \<Rightarrow> int \<Rightarrow> int" where
  "backoff_of cfg attempts =
     (let n = unat (word_of_int (attempts - 1) :: 64 word);
          b = sint (push_bit n (word_of_int (cf_BackoffBase cfg) :: 64 word))
      in if b > cf_BackoffMax cfg then cf_BackoffMax cfg else b)"

definition markFailure ::
  "Config \<Rightarrow> outbox_env \<Rightarrow> int \<Rightarrow> UserEvent \<Rightarrow> string \<Rightarrow> OutboxState \<Rightarrow> OutboxState" where
  "markFailure cfg env now row reason =
     (let attempts = ue_Attempts row + 1;
          status = (if cf_MaxAttempts cfg > 0 \<and> attempts \<ge> cf_MaxAttempts cfg then Failed else Pending);
          available = now + backoff_of cfg attempts
      in update_row env (ue_EventID row)
           (\<lambda>r. r\<lparr>ue_Attempts := attempts, ue_LastError := Some reason, ue_Status := status,
                  ue_AvailableAt := available\<rparr>))"

definition markAvailableBackoff ::
  "Config \<Rightarrow> outbox_env \<Rightarrow> int \<Rightarrow> UserEvent \<Rightarrow> string \<Rightarrow> OutboxState \<Rightarrow> OutboxState" where
  "markAvailableBackoff cfg env now row reason =
     update_row env (ue_EventID row)
       (\<lambda>r. r\<lparr>ue_AvailableAt := now + cf_BackoffMax cfg, ue_LastError := Some reason\<rparr>)"

text \<open>\<open>ob_posts\<close> and \<open>ob_failures\<close> record what happened and are not read by the code: the requests with their answers, and
  the events whose delivery failed, once for each failure.\<close>

definition log_failure :: "UserEvent \<Rightarrow> OutboxState \<Rightarrow> OutboxState" where
  "log_failure row st = st\<lparr>ob_failures := ob_failures st @ [ue_EventID row]\<rparr>"

definition accepted :: "int option \<Rightarrow> bool" where
  "accepted resp = (case resp of None \<Rightarrow> False | Some code \<Rightarrow> 200 \<le> code \<and> code < 300)"

definition deliver :: "Config \<Rightarrow> outbox_env \<Rightarrow> int \<Rightarrow> UserEvent \<Rightarrow> OutboxState \<Rightarrow> OutboxState" where
  "deliver cfg env now row st =
     (if cf_TargetURL cfg = [] then markAvailableBackoff cfg env now row ''target URL not configured'' st
      else if \<not> en_build_ok env then markFailure cfg env now row ''build request'' (log_failure row st)
      else
        let resp = en_post env row; st1 = st\<lparr>ob_posts := ob_posts st @ [(row, resp)]\<rparr>
        in if accepted resp then markDelivered env now row st1
           else markFailure cfg env now row (if resp = None then ''http'' else ''consumer returned status'') (log_failure row st1))"

definition due :: "Config \<Rightarrow> int \<Rightarrow> OutboxState \<Rightarrow> UserEvent list" where
  "due cfg now st =
     take (nat (cf_BatchSize cfg))
       (sort_key ue_CreatedAt (filter (\<lambda>r. ue_Status r = Pending \<and> ue_AvailableAt r \<le> now) (ob_rows st)))"

definition drainOnce :: "Config \<Rightarrow> outbox_env \<Rightarrow> int \<Rightarrow> OutboxState \<Rightarrow> OutboxState" where
  "drainOnce cfg env now st = fold (deliver cfg env now) (take (en_alive env) (due cfg now st)) st"

section \<open>Event identifiers\<close>

definition hex_digit :: "nat \<Rightarrow> char" where
  "hex_digit d = (if d < 10 then char_of (48 + d) else char_of (87 + d))"

definition hex_bytes :: "8 word list \<Rightarrow> string" where
  "hex_bytes bs = concat (map (\<lambda>b. [hex_digit (unat b div 16), hex_digit (unat b mod 16)]) bs)"

definition uuidV4 :: "8 word list \<Rightarrow> string" where
  "uuidV4 raw =
     (let b = raw[6 := (raw ! 6 AND 0x0f) OR 0x40, 8 := (raw ! 8 AND 0x3f) OR 0x80]
      in hex_bytes (take 4 b) @ ''-'' @ hex_bytes (take 2 (drop 4 b)) @ ''-'' @
         hex_bytes (take 2 (drop 6 b)) @ ''-'' @ hex_bytes (take 2 (drop 8 b)) @ ''-'' @
         hex_bytes (take 6 (drop 10 b)))"

definition newEventID :: "8 word list \<Rightarrow> string" where
  "newEventID raw = to_lower (uuidV4 raw)"

section \<open>One sweep\<close>

text \<open>What handling a row does to it.\<close>

definition handled :: "Config \<Rightarrow> outbox_env \<Rightarrow> int \<Rightarrow> UserEvent \<Rightarrow> UserEvent \<Rightarrow> UserEvent" where
  "handled cfg env now row r =
     (if \<not> en_db_ok env (ue_EventID row) then r
      else if cf_TargetURL cfg = [] then
        r\<lparr>ue_AvailableAt := now + cf_BackoffMax cfg, ue_LastError := Some ''target URL not configured''\<rparr>
      else if en_build_ok env \<and> accepted (en_post env row) then
        r\<lparr>ue_Status := Delivered, ue_DeliveredAt := Some now, ue_LastError := None\<rparr>
      else
        r\<lparr>ue_Attempts := ue_Attempts row + 1,
          ue_LastError := Some (if \<not> en_build_ok env then ''build request''
            else if en_post env row = None then ''http'' else ''consumer returned status''),
          ue_Status := (if cf_MaxAttempts cfg > 0 \<and> ue_Attempts row + 1 \<ge> cf_MaxAttempts cfg
                        then Failed else Pending),
          ue_AvailableAt := now + backoff_of cfg (ue_Attempts row + 1)\<rparr>)"

lemma handled_sel [simp]:
  "ue_EventID (handled cfg env now row r) = ue_EventID r"
  "ue_EventType (handled cfg env now row r) = ue_EventType r"
  "ue_SubjectID (handled cfg env now row r) = ue_SubjectID r"
  "ue_Payload (handled cfg env now row r) = ue_Payload r"
  "ue_CreatedAt (handled cfg env now row r) = ue_CreatedAt r"
  by (simp_all add: handled_def)

lemma deliver_rows:
  "ob_rows (deliver cfg env now h st) =
     map (\<lambda>r. if ue_EventID r = ue_EventID h then handled cfg env now h r else r) (ob_rows st)"
proof (cases "en_db_ok env (ue_EventID h)")
  case True
  then show ?thesis
    by (auto simp: deliver_def handled_def markAvailableBackoff_def markFailure_def markDelivered_def
        update_row_def log_failure_def Let_def)
next
  case False
  then have id: "(\<lambda>r. if ue_EventID r = ue_EventID h then handled cfg env now h r else r) = (\<lambda>r. r)"
    by (auto simp: handled_def)
  show ?thesis
    unfolding id using False
    by (simp add: deliver_def markAvailableBackoff_def markFailure_def markDelivered_def
        update_row_def log_failure_def Let_def)
qed

definition posts_of :: "Config \<Rightarrow> outbox_env \<Rightarrow> UserEvent list \<Rightarrow> (UserEvent \<times> int option) list" where
  "posts_of cfg env hs =
     (if cf_TargetURL cfg = [] \<or> \<not> en_build_ok env then [] else map (\<lambda>r. (r, en_post env r)) hs)"

lemma deliver_posts: "ob_posts (deliver cfg env now h st) = ob_posts st @ posts_of cfg env [h]"
  by (auto simp: deliver_def posts_of_def markAvailableBackoff_def markFailure_def markDelivered_def
      update_row_def log_failure_def Let_def)

lemma fold_deliver_posts: "ob_posts (fold (deliver cfg env now) hs st) = ob_posts st @ posts_of cfg env hs"
  by (induction hs arbitrary: st) (auto simp: deliver_posts posts_of_def)

definition fails :: "Config \<Rightarrow> outbox_env \<Rightarrow> UserEvent \<Rightarrow> bool" where
  "fails cfg env h \<longleftrightarrow> cf_TargetURL cfg \<noteq> [] \<and> \<not> (en_build_ok env \<and> accepted (en_post env h))"

lemma fold_deliver_failures:
  "ob_failures (fold (deliver cfg env now) hs st) = ob_failures st @ map ue_EventID (filter (fails cfg env) hs)"
proof (induction hs arbitrary: st)
  case (Cons h hs)
  have "ob_failures (deliver cfg env now h st) = ob_failures st @ (if fails cfg env h then [ue_EventID h] else [])"
    by (simp add: deliver_def fails_def markAvailableBackoff_def markFailure_def markDelivered_def update_row_def log_failure_def Let_def)
  then show ?case using Cons.IH by simp
qed simp

lemma fold_deliver_rows:
  "ob_rows (fold (deliver cfg env now) hs st) =
     map (fold (\<lambda>h r. if ue_EventID r = ue_EventID h then handled cfg env now h r else r) hs) (ob_rows st)"
  by (induction hs arbitrary: st) (simp_all add: deliver_rows comp_def)

lemma fold_handled:
  "distinct (map ue_EventID hs) \<Longrightarrow>
   fold (\<lambda>h r. if ue_EventID r = ue_EventID h then handled cfg env now h r else r) hs r =
     (case find (\<lambda>h. ue_EventID h = ue_EventID r) hs of None \<Rightarrow> r | Some h \<Rightarrow> handled cfg env now h r)"
proof (induction hs arbitrary: r)
  case (Cons h hs)
  show ?case
  proof (cases "ue_EventID h = ue_EventID r")
    case True
    with Cons.prems have "find (\<lambda>x. ue_EventID x = ue_EventID r) hs = None"
      unfolding find_None_iff by (metis distinct.simps(2) image_eqI list.simps(9) set_map)
    with True Cons.IH[of "handled cfg env now h r"] Cons.prems show ?thesis by simp
  next
    case False
    with Cons show ?thesis by (auto dest: sym)
  qed
qed simp

lemma due_subset: "set (due cfg now st) \<subseteq> {r \<in> set (ob_rows st). ue_Status r = Pending \<and> ue_AvailableAt r \<le> now}"
  by (auto simp: due_def dest: in_set_takeD)

lemma due_sorted: "sorted (map ue_CreatedAt (due cfg now st))"
  by (simp add: due_def take_map[symmetric] sorted_wrt_take)

lemma distinct_due:
  assumes "distinct (map ue_EventID (ob_rows st))"
  shows "distinct (map ue_EventID (take k (due cfg now st)))"
proof -
  let ?f = "filter (\<lambda>r. ue_Status r = Pending \<and> ue_AvailableAt r \<le> now) (ob_rows st)"
  have "distinct (map ue_EventID ?f)" using assms by (rule distinct_map_filter)
  then have "distinct ?f" "inj_on ue_EventID (set ?f)" by (auto simp: distinct_map)
  then have "distinct (map ue_EventID (sort_key ue_CreatedAt ?f))" by (simp add: distinct_map)
  then show ?thesis by (simp add: due_def take_map[symmetric])
qed

lemma drainOnce_rows:
  assumes "distinct (map ue_EventID (ob_rows st))"
  shows "ob_rows (drainOnce cfg env now st) =
    map (\<lambda>r. if r \<in> set (take (en_alive env) (due cfg now st)) then handled cfg env now r r else r) (ob_rows st)"
  unfolding drainOnce_def fold_deliver_rows
proof (rule map_cong[OF refl])
  fix r
  assume r: "r \<in> set (ob_rows st)"
  let ?hs = "take (en_alive env) (due cfg now st)"
  have sub: "set ?hs \<subseteq> set (ob_rows st)" using due_subset by (fastforce dest: in_set_takeD)
  have same: "h = r" if "h \<in> set ?hs" "ue_EventID h = ue_EventID r" for h
    using assms r sub that by (metis eq_key_imp_eq_value distinct_map inj_on_eq_iff subsetD)
  have "find (\<lambda>h. ue_EventID h = ue_EventID r) ?hs = (if r \<in> set ?hs then Some r else None)"
  proof (cases "find (\<lambda>h. ue_EventID h = ue_EventID r) ?hs")
    case None
    then show ?thesis by (auto simp: find_None_iff)
  next
    case (Some h)
    then have "h \<in> set ?hs" "ue_EventID h = ue_EventID r" by (auto simp: find_Some_iff in_set_conv_nth)
    with same Some show ?thesis by auto
  qed
  then show "fold (\<lambda>h r. if ue_EventID r = ue_EventID h then handled cfg env now h r else r) ?hs r =
      (if r \<in> set ?hs then handled cfg env now r r else r)"
    unfolding fold_handled[OF distinct_due[OF assms]] by simp
qed

section \<open>Histories\<close>

inductive outbox_step :: "Config \<Rightarrow> OutboxState \<Rightarrow> OutboxState \<Rightarrow> bool" for cfg where
  os_enqueue: "outbox_step cfg st (snd (Enqueue marshal ok newID now ty subj ten user st))"
| os_drain: "outbox_step cfg st (drainOnce cfg env now st)"
| os_close: "outbox_step cfg st (Close st)"

definition outbox_init :: OutboxState where
  "outbox_init = \<lparr>ob_rows = [], ob_closed = False, ob_posts = [], ob_failures = []\<rparr>"

inductive outbox_steps :: "Config \<Rightarrow> OutboxState \<Rightarrow> OutboxState \<Rightarrow> bool" for cfg where
  os_refl: "outbox_steps cfg st st"
| os_trans: "outbox_steps cfg st st' \<Longrightarrow> outbox_step cfg st' st'' \<Longrightarrow> outbox_steps cfg st st''"

definition outbox_inv :: "Config \<Rightarrow> OutboxState \<Rightarrow> bool" where
  "outbox_inv cfg st \<longleftrightarrow>
     distinct (map ue_EventID (ob_rows st)) \<and>
     (\<forall>r \<in> set (ob_rows st). 0 \<le> ue_Attempts r \<and>
        (ue_Status r = Delivered \<longrightarrow> (\<exists>h resp. (h, resp) \<in> set (ob_posts st) \<and> ue_EventID h = ue_EventID r \<and>
           ue_Payload h = ue_Payload r \<and> accepted resp)) \<and>
        (ue_Status r = Failed \<longrightarrow> 0 < cf_MaxAttempts cfg \<and> cf_MaxAttempts cfg \<le> ue_Attempts r))"

text \<open>The attempts of a row never exceed the failures of its delivery.\<close>

definition failures_of :: "string \<Rightarrow> OutboxState \<Rightarrow> nat" where
  "failures_of eventID st = length (filter (\<lambda>i. i = eventID) (ob_failures st))"

definition attempts_counted :: "OutboxState \<Rightarrow> bool" where
  "attempts_counted st \<longleftrightarrow> (\<forall>r \<in> set (ob_rows st). ue_Attempts r \<le> int (failures_of (ue_EventID r) st))"

text \<open>How a row may evolve: its content is fixed, and it no longer changes once it is delivered or
  has failed.\<close>

definition evolves :: "UserEvent \<Rightarrow> UserEvent \<Rightarrow> bool" where
  "evolves r r' \<longleftrightarrow> ue_EventID r' = ue_EventID r \<and> ue_EventType r' = ue_EventType r \<and>
     ue_SubjectID r' = ue_SubjectID r \<and> ue_Payload r' = ue_Payload r \<and> ue_CreatedAt r' = ue_CreatedAt r \<and>
     (ue_Status r \<noteq> Pending \<longrightarrow> r' = r)"

lemma Enqueue_cases:
  obtains (same) "snd (Enqueue marshal ok newID now ty subj ten user st) = st"
    | (new) row where "snd (Enqueue marshal ok newID now ty subj ten user st) = st\<lparr>ob_rows := ob_rows st @ [row]\<rparr>"
      "ue_EventID row \<notin> ue_EventID ` set (ob_rows st)" "ue_Status row = Pending" "ue_Attempts row = 0"
proof -
  let ?t = "if ten = [] then ''default'' else ten"
  let ?p = "event_payload newID now ty subj ?t user"
  show ?thesis
  proof (cases "ob_closed st \<or> ty = [] \<or> subj = [] \<or> marshal ?p = None \<or> \<not> ok \<or>
      newID \<in> ue_EventID ` set (ob_rows st)")
    case True
    then have "snd (Enqueue marshal ok newID now ty subj ten user st) = st"
      unfolding Enqueue_def Let_def by (auto split: option.split)
    then show ?thesis by (rule same)
  next
    case False
    then obtain body where body: "marshal ?p = Some body" by auto
    with False have "snd (Enqueue marshal ok newID now ty subj ten user st) =
        st\<lparr>ob_rows := ob_rows st @ [event_row newID now ty subj ?t body]\<rparr>"
      unfolding Enqueue_def Let_def by simp
    with False show ?thesis by (intro new[of "event_row newID now ty subj ?t body"]) (simp_all add: event_row_def)
  qed
qed

lemma drainOnce_inv:
  assumes "outbox_inv cfg st"
  shows "outbox_inv cfg (drainOnce cfg env now st)"
proof -
  have d: "distinct (map ue_EventID (ob_rows st))" using assms by (simp add: outbox_inv_def)
  let ?hs = "take (en_alive env) (due cfg now st)"
  let ?g = "\<lambda>r. if r \<in> set ?hs then handled cfg env now r r else r"
  note rows = drainOnce_rows[OF d, of cfg env now]
  have posts: "ob_posts (drainOnce cfg env now st) = ob_posts st @ posts_of cfg env ?hs"
    by (simp add: drainOnce_def fold_deliver_posts)
  have "map ue_EventID (map ?g (ob_rows st)) = map ue_EventID (ob_rows st)" by simp
  then have ids: "distinct (map ue_EventID (ob_rows (drainOnce cfg env now st)))"
    unfolding rows using d by (simp only:)
  have "0 \<le> ue_Attempts (?g r) \<and>
        (ue_Status (?g r) = Delivered \<longrightarrow> (\<exists>h resp. (h, resp) \<in> set (ob_posts st @ posts_of cfg env ?hs) \<and>
           ue_EventID h = ue_EventID (?g r) \<and> ue_Payload h = ue_Payload (?g r) \<and> accepted resp)) \<and>
        (ue_Status (?g r) = Failed \<longrightarrow> 0 < cf_MaxAttempts cfg \<and> cf_MaxAttempts cfg \<le> ue_Attempts (?g r))"
    if r: "r \<in> set (ob_rows st)" for r
  proof -
    have old: "0 \<le> ue_Attempts r" "ue_Status r = Delivered \<Longrightarrow> \<exists>h resp. (h, resp) \<in> set (ob_posts st) \<and>
        ue_EventID h = ue_EventID r \<and> ue_Payload h = ue_Payload r \<and> accepted resp"
      "ue_Status r = Failed \<Longrightarrow> 0 < cf_MaxAttempts cfg \<and> cf_MaxAttempts cfg \<le> ue_Attempts r"
      using assms r unfolding outbox_inv_def by blast+
    show ?thesis
    proof (cases "r \<in> set ?hs")
      case False
      then show ?thesis using old by auto
    next
      case True
      then have pend: "ue_Status r = Pending" using due_subset by (blast dest: in_set_takeD)
      have post: "(r, en_post env r) \<in> set (posts_of cfg env ?hs)"
        if "cf_TargetURL cfg \<noteq> []" "en_build_ok env"
        using True that by (auto simp: posts_of_def)
      have att: "0 \<le> ue_Attempts (handled cfg env now r r)" using old(1) by (simp add: handled_def)
      have del: "\<exists>h resp. (h, resp) \<in> set (ob_posts st @ posts_of cfg env ?hs) \<and>
           ue_EventID h = ue_EventID r \<and> ue_Payload h = ue_Payload r \<and> accepted resp"
        if "ue_Status (handled cfg env now r r) = Delivered"
      proof -
        have "cf_TargetURL cfg \<noteq> []" "en_build_ok env" "accepted (en_post env r)"
          using that pend by (auto simp: handled_def split: if_splits)
        with post show ?thesis by auto
      qed
      have fail: "0 < cf_MaxAttempts cfg \<and> cf_MaxAttempts cfg \<le> ue_Attempts (handled cfg env now r r)"
        if "ue_Status (handled cfg env now r r) = Failed"
        using that pend by (auto simp: handled_def split: if_splits)
      show ?thesis using True att del fail by auto
    qed
  qed
  note new = this
  show ?thesis
    unfolding outbox_inv_def posts
  proof (rule conjI[OF ids], rule ballI)
    fix r'
    assume "r' \<in> set (ob_rows (drainOnce cfg env now st))"
    then obtain r where r: "r \<in> set (ob_rows st)" "r' = ?g r" unfolding rows by auto
    show "0 \<le> ue_Attempts r' \<and>
        (ue_Status r' = Delivered \<longrightarrow> (\<exists>h resp. (h, resp) \<in> set (ob_posts st @ posts_of cfg env ?hs) \<and>
           ue_EventID h = ue_EventID r' \<and> ue_Payload h = ue_Payload r' \<and> accepted resp)) \<and>
        (ue_Status r' = Failed \<longrightarrow> 0 < cf_MaxAttempts cfg \<and> cf_MaxAttempts cfg \<le> ue_Attempts r')"
      unfolding r(2) by (rule new[OF r(1)])
  qed
qed

lemma outbox_step_inv: "outbox_step cfg st st' \<Longrightarrow> outbox_inv cfg st \<Longrightarrow> outbox_inv cfg st'"
proof (induction rule: outbox_step.induct)
  case (os_enqueue st marshal ok newID now ty subj ten user)
  show ?case
  proof (rule Enqueue_cases[of marshal ok newID now ty subj ten user st])
    fix row
    assume "snd (Enqueue marshal ok newID now ty subj ten user st) = st\<lparr>ob_rows := ob_rows st @ [row]\<rparr>"
      "ue_EventID row \<notin> ue_EventID ` set (ob_rows st)" "ue_Status row = Pending" "ue_Attempts row = 0"
    with os_enqueue show ?thesis by (auto simp: outbox_inv_def)
  qed (use os_enqueue in simp)
next
  case (os_drain st env now)
  then show ?case by (rule drainOnce_inv)
next
  case (os_close st)
  then show ?case by (simp add: outbox_inv_def Close_def)
qed

lemma drainOnce_counted:
  assumes d: "distinct (map ue_EventID (ob_rows st))" and c: "attempts_counted st"
  shows "attempts_counted (drainOnce cfg env now st)"
  unfolding attempts_counted_def
proof
  fix x
  assume "x \<in> set (ob_rows (drainOnce cfg env now st))"
  let ?hs = "take (en_alive env) (due cfg now st)"
  let ?g = "\<lambda>r. if r \<in> set ?hs then handled cfg env now r r else r"
  obtain r where r: "r \<in> set (ob_rows st)" "x = ?g r"
    using \<open>x \<in> _\<close> unfolding drainOnce_rows[OF d] by auto
  have log: "failures_of i (drainOnce cfg env now st) =
      failures_of i st + length (filter (\<lambda>j. j = i) (map ue_EventID (filter (fails cfg env) ?hs)))" for i
    by (simp add: failures_of_def drainOnce_def fold_deliver_failures)
  have old: "ue_Attempts r \<le> int (failures_of (ue_EventID r) st)" using c r(1) by (simp add: attempts_counted_def)
  show "ue_Attempts x \<le> int (failures_of (ue_EventID x) (drainOnce cfg env now st))"
  proof (cases "r \<in> set ?hs \<and> fails cfg env r")
    case True
    then have "ue_EventID r \<in> set (filter (\<lambda>j. j = ue_EventID r) (map ue_EventID (filter (fails cfg env) ?hs)))" by auto
    then have "1 \<le> length (filter (\<lambda>j. j = ue_EventID r) (map ue_EventID (filter (fails cfg env) ?hs)))"
      by (metis One_nat_def Suc_leI length_pos_if_in_set)
    moreover have "ue_Attempts x \<le> ue_Attempts r + 1" using r(2) by (simp add: handled_def)
    moreover have i: "ue_EventID x = ue_EventID r" using r(2) by simp
    ultimately show ?thesis using old unfolding log i by linarith
  next
    case False
    then have "ue_Attempts x = ue_Attempts r" using r(2) by (auto simp: handled_def fails_def)
    moreover have i: "ue_EventID x = ue_EventID r" using r(2) by simp
    ultimately show ?thesis using old unfolding log i by linarith
  qed
qed

lemma outbox_step_counted: "outbox_step cfg st st' \<Longrightarrow> outbox_inv cfg st \<Longrightarrow> attempts_counted st \<Longrightarrow> attempts_counted st'"
proof (induction rule: outbox_step.induct)
  case (os_enqueue st marshal ok newID now ty subj ten user)
  show ?case
    by (rule Enqueue_cases[of marshal ok newID now ty subj ten user st])
      (use os_enqueue in \<open>auto simp: attempts_counted_def failures_of_def\<close>)
next
  case (os_drain st env now)
  then show ?case by (intro drainOnce_counted) (simp_all add: outbox_inv_def)
next
  case (os_close st)
  then show ?case by (simp add: attempts_counted_def failures_of_def Close_def)
qed

lemma outbox_steps_counted:
  "outbox_steps cfg st st' \<Longrightarrow> outbox_inv cfg st \<Longrightarrow> attempts_counted st \<Longrightarrow> outbox_inv cfg st' \<and> attempts_counted st'"
  by (induction rule: outbox_steps.induct) (auto intro: outbox_step_inv outbox_step_counted)

lemma evolves_refl: "evolves r r"
  by (simp add: evolves_def)

lemma outbox_step_evolves:
  assumes "outbox_step cfg st st'" and "outbox_inv cfg st" and "r \<in> set (ob_rows st)"
  shows "\<exists>r' \<in> set (ob_rows st'). evolves r r'"
  using assms
proof (induction rule: outbox_step.induct)
  case (os_enqueue st marshal ok newID now ty subj ten user)
  then show ?case
    by (metis (no_types, lifting) Enqueue_cases OutboxState.select_convs(1) OutboxState.surjective
        OutboxState.update_convs(1) UnI1 evolves_refl set_append)
next
  case (os_drain st env now)
  let ?hs = "take (en_alive env) (due cfg now st)"
  have "evolves r (if r \<in> set ?hs then handled cfg env now r r else r)"
    using due_subset by (fastforce simp: evolves_def dest: in_set_takeD)
  moreover have "ob_rows (drainOnce cfg env now st) =
      map (\<lambda>r. if r \<in> set ?hs then handled cfg env now r r else r) (ob_rows st)"
    using os_drain(1) by (intro drainOnce_rows) (simp add: outbox_inv_def)
  ultimately show ?case using os_drain(2) by (metis (no_types, lifting) image_eqI set_map)
next
  case (os_close st)
  then show ?case using evolves_refl by (auto simp: Close_def)
qed

lemma evolves_trans: "evolves a b \<Longrightarrow> evolves b c \<Longrightarrow> evolves a c"
  unfolding evolves_def by metis

lemma outbox_steps_inv:
  "outbox_steps cfg st st' \<Longrightarrow> outbox_inv cfg st \<Longrightarrow>
   outbox_inv cfg st' \<and> (\<forall>r \<in> set (ob_rows st). \<exists>r' \<in> set (ob_rows st'). evolves r r')"
proof (induction rule: outbox_steps.induct)
  case (os_refl st)
  then show ?case using evolves_refl by blast
next
  case (os_trans st st' st'')
  then show ?case by (meson evolves_trans outbox_step_evolves outbox_step_inv)
qed

section \<open>Guarantees\<close>

lemma outbox_inv_init: "outbox_inv cfg outbox_init"
  by (simp add: outbox_inv_def outbox_init_def)

text \<open>
  C9. At-least-once delivery, along every history of enqueues, sweeps (with any answers of the
  consumer, failing updates and cancellations) and a close: no event row is ever lost or altered in its content; a row
  is marked delivered only after the consumer accepted (2xx) a request with that event and
  payload; it is given up only with a limit on the attempts, and only after at least that many of its deliveries failed; and a row
  that is delivered or has failed never changes again.
\<close>

theorem outbox_at_least_once:
  assumes "outbox_steps cfg outbox_init st" and "outbox_steps cfg st st'" and "r \<in> set (ob_rows st)"
  shows "(\<exists>r' \<in> set (ob_rows st'). ue_EventID r' = ue_EventID r \<and> ue_Payload r' = ue_Payload r \<and>
       (ue_Status r \<noteq> Pending \<longrightarrow> r' = r)) \<and>
    (ue_Status r = Delivered \<longrightarrow> (\<exists>h code. (h, Some code) \<in> set (ob_posts st) \<and> ue_EventID h = ue_EventID r \<and>
       ue_Payload h = ue_Payload r \<and> 200 \<le> code \<and> code < 300)) \<and>
    (ue_Status r = Failed \<longrightarrow> 0 < cf_MaxAttempts cfg \<and> cf_MaxAttempts cfg \<le> int (failures_of (ue_EventID r) st))"
proof -
  have inv: "outbox_inv cfg st" and "attempts_counted st"
    using outbox_steps_counted[OF assms(1) outbox_inv_init] by (simp_all add: attempts_counted_def outbox_init_def)
  then have c: "ue_Attempts r \<le> int (failures_of (ue_EventID r) st)" using assms(3) by (simp add: attempts_counted_def)
  from inv have d: "ue_Status r = Delivered \<longrightarrow> (\<exists>h resp. (h, resp) \<in> set (ob_posts st) \<and>
      ue_EventID h = ue_EventID r \<and> ue_Payload h = ue_Payload r \<and> accepted resp)"
    and f: "ue_Status r = Failed \<longrightarrow> 0 < cf_MaxAttempts cfg \<and> cf_MaxAttempts cfg \<le> ue_Attempts r"
    using assms(3) unfolding outbox_inv_def by blast+
  have acc: "accepted resp \<longleftrightarrow> (\<exists>code. resp = Some code \<and> 200 \<le> code \<and> code < 300)" for resp
    by (auto simp: accepted_def split: option.split)
  from outbox_steps_inv[OF assms(2) inv] assms(3) obtain r' where "r' \<in> set (ob_rows st')" "evolves r r'" by blast
  then have e: "\<exists>r' \<in> set (ob_rows st'). ue_EventID r' = ue_EventID r \<and> ue_Payload r' = ue_Payload r \<and>
       (ue_Status r \<noteq> Pending \<longrightarrow> r' = r)" unfolding evolves_def by blast
  have g: "ue_Status r = Failed \<longrightarrow> 0 < cf_MaxAttempts cfg \<and> cf_MaxAttempts cfg \<le> int (failures_of (ue_EventID r) st)"
    using f c by auto
  show ?thesis using d e g unfolding acc by blast
qed

definition cfg_example :: Config where
  "cfg_example = applyDefaults \<lparr>cf_TargetURL = ''u'', cf_PollInterval = 0, cf_BatchSize = 0, cf_MaxAttempts = 0,
     cf_BackoffBase = 0, cf_BackoffMax = 0, cf_HTTPTimeout = 0\<rparr>"

definition row_example :: "string \<Rightarrow> int \<Rightarrow> UserEvent" where
  "row_example i t = event_row i t ''user.created'' ''subj'' ''default'' ''{}''"

definition user_example :: UserPayload where
  "user_example = \<lparr>up_SubjectID = ''subj'', up_TenantID = ''default'', up_ShortID = [], up_Username = [],
     up_DisplayName = None, up_Email = None\<rparr>"

definition st_example :: OutboxState where
  "st_example = snd (Enqueue (\<lambda>p. Some ''{}'') True ''e1'' 1 ''user.created'' ''subj'' ''default'' user_example outbox_init)"

lemma st_example_rows: "ob_rows st_example = [row_example ''e1'' 1]"
  by (simp add: st_example_def Enqueue_def outbox_init_def Let_def row_example_def)

theorem outbox_at_least_once_witness:
  "outbox_steps cfg_example outbox_init st_example \<and> outbox_steps cfg_example st_example (Close st_example) \<and>
   (\<exists>r' \<in> set (ob_rows (Close st_example)). ue_EventID r' = ''e1'')"
proof -
  have 1: "outbox_steps cfg_example outbox_init st_example"
    unfolding st_example_def by (rule os_trans[OF os_refl os_enqueue])
  have 2: "outbox_steps cfg_example st_example (Close st_example)"
    by (rule os_trans[OF os_refl os_close])
  have 3: "row_example ''e1'' 1 \<in> set (ob_rows st_example)" by (simp add: st_example_rows)
  have 4: "ue_EventID (row_example ''e1'' 1) = ''e1''" by (simp add: row_example_def event_row_def)
  show ?thesis using outbox_at_least_once[OF 1 2 3] 1 2 unfolding 4 by blast
qed

text \<open>
  One sweep, exactly: it handles the oldest due rows (pending, available, at most the batch
  size, in the order of their creation), each once: one request per handled row in that order (none
  without a target), and each handled row becomes what its answer says while all other rows stay as they are.
\<close>

theorem drainOnce_exact:
  assumes "distinct (map ue_EventID (ob_rows st))"
  shows "let hs = take (en_alive env) (due cfg now st) in
    ob_rows (drainOnce cfg env now st) =
      map (\<lambda>r. if r \<in> set hs then handled cfg env now r r else r) (ob_rows st) \<and>
    ob_posts (drainOnce cfg env now st) = ob_posts st @
      (if cf_TargetURL cfg = [] \<or> \<not> en_build_ok env then [] else map (\<lambda>r. (r, en_post env r)) hs) \<and>
    sorted (map ue_CreatedAt hs) \<and> length hs \<le> nat (cf_BatchSize cfg) \<and>
    (\<forall>r \<in> set hs. r \<in> set (ob_rows st) \<and> ue_Status r = Pending \<and> ue_AvailableAt r \<le> now)"
proof -
  let ?hs = "take (en_alive env) (due cfg now st)"
  have "sorted (map ue_CreatedAt ?hs)"
    using due_sorted[of cfg now st] by (simp add: take_map[symmetric] sorted_wrt_take)
  moreover have "length ?hs \<le> nat (cf_BatchSize cfg)" by (simp add: due_def)
  moreover have "\<forall>r \<in> set ?hs. r \<in> set (ob_rows st) \<and> ue_Status r = Pending \<and> ue_AvailableAt r \<le> now"
    using due_subset by (blast dest: in_set_takeD)
  moreover have "ob_posts (drainOnce cfg env now st) = ob_posts st @ posts_of cfg env ?hs"
    by (simp add: drainOnce_def fold_deliver_posts)
  ultimately show ?thesis using drainOnce_rows[OF assms] by (simp add: Let_def posts_of_def)
qed

definition env_ok :: outbox_env where
  "env_ok = \<lparr>en_build_ok = True, en_post = \<lambda>r. Some 204, en_db_ok = \<lambda>_. True, en_alive = 50\<rparr>"

theorem drainOnce_exact_witness:
  "distinct (map ue_EventID (ob_rows st_example)) \<and>
   ob_posts (drainOnce cfg_example env_ok 5 st_example) = [(row_example ''e1'' 1, Some 204)]"
proof -
  have d: "distinct (map ue_EventID (ob_rows st_example))" by (simp add: st_example_rows)
  have p: "ob_posts st_example = []" by (simp add: st_example_def Enqueue_def outbox_init_def Let_def)
  have u: "due cfg_example 5 st_example = [row_example ''e1'' 1]"
    by (simp add: due_def st_example_rows cfg_example_def applyDefaults_def row_example_def event_row_def)
  show ?thesis
    using drainOnce_exact[OF d, of env_ok cfg_example 5] d
    by (simp add: Let_def u p) (simp add: env_ok_def cfg_example_def applyDefaults_def)
qed

section \<open>Backoff\<close>

lemma unat_small: "0 \<le> k \<Longrightarrow> k < 2 ^ 64 \<Longrightarrow> unat (word_of_int k :: 64 word) = nat k"
  by (simp add: unat_eq_nat_uint uint_word_of_int)

lemma sint_shift:
  assumes "- (2 ^ 63) \<le> b * 2 ^ n" and "b * 2 ^ n < 2 ^ 63"
  shows "sint (push_bit n (word_of_int b :: 64 word)) = b * 2 ^ n"
proof -
  have "push_bit n (word_of_int b :: 64 word) = word_of_int (b * 2 ^ n)"
    by (simp add: push_bit_eq_mult)
  then show ?thesis
    using assms by (simp add: sint_sbintrunc' signed_take_bit_int_eq_self del: of_int_mult)
qed

text \<open>
  As long as it fits a signed 64-bit duration, the backoff after the \<open>n\<close>-th failure is the base
  doubled \<open>n - 1\<close> times, capped by the ceiling.
\<close>

theorem backoff_exponential:
  assumes "1 \<le> n" and "n \<le> 63" and "0 < cf_BackoffBase cfg" and "cf_BackoffBase cfg * 2 ^ (nat n - 1) < 2 ^ 63"
  shows "backoff_of cfg n = min (cf_BackoffMax cfg) (cf_BackoffBase cfg * 2 ^ (nat n - 1))"
proof -
  have "unat (word_of_int (n - 1) :: 64 word) = nat (n - 1)"
    using assms(1,2) by (intro unat_small) simp_all
  then have "unat (word_of_int (n - 1) :: 64 word) = nat n - 1" using assms(1) by simp
  moreover have "- (2 ^ 63) \<le> cf_BackoffBase cfg * 2 ^ (nat n - 1)"
    using assms(3) by (smt (verit) zero_less_mult_iff zero_less_power)
  ultimately show ?thesis
    using sint_shift[of "cf_BackoffBase cfg" "nat n - 1"] assms(4)
    by (simp add: backoff_of_def Let_def min_def)
qed

theorem backoff_exponential_witness:
  "backoff_of cfg_example 3 = 8000000000"
  using backoff_exponential[of 3 cfg_example]
  by (simp add: cfg_example_def applyDefaults_def second_def)

lemma pow_div_word: "64 \<le> n \<Longrightarrow> (2 :: 64 word) ^ n = 0"
  by (simp add: exp_eq_zero_iff)

text \<open>
  With the default configuration, which sets no limit on the attempts, the shift overflows: after
  the 34th failure the backoff is negative and from the 55th on it is zero, so a row that keeps
  failing is due again at once and is sent on every poll instead of every five minutes.
\<close>

theorem backoff_overflow:
  "cf_MaxAttempts cfg_example = 0 \<and> cf_BackoffMax cfg_example = 300 * second \<and>
   backoff_of cfg_example 34 < 0 \<and> (\<forall>n \<ge> 55. n < 2 ^ 63 \<longrightarrow> backoff_of cfg_example n = 0)"
proof (intro conjI allI impI)
  show "cf_MaxAttempts cfg_example = 0" "cf_BackoffMax cfg_example = 300 * second"
    by (simp_all add: cfg_example_def applyDefaults_def)
  have b: "cf_BackoffBase cfg_example = 2000000000" "cf_BackoffMax cfg_example = 300000000000"
    by (simp_all add: cfg_example_def applyDefaults_def second_def)
  show "backoff_of cfg_example 34 < 0"
    by (simp add: backoff_of_def b Let_def push_bit_eq_mult)
  fix n :: int
  assume n: "55 \<le> n" "n < 2 ^ 63"
  then have "unat (word_of_int (n - 1) :: 64 word) = nat (n - 1)"
    by (intro unat_small) simp_all
  moreover have "push_bit (nat (n - 1)) (2000000000 :: 64 word) = 0"
  proof -
    have "(2000000000 :: 64 word) = 1953125 * 2 ^ 10" by simp
    then have "push_bit (nat (n - 1)) (2000000000 :: 64 word) = 1953125 * 2 ^ (10 + nat (n - 1))"
      by (simp only: push_bit_eq_mult power_add mult.assoc)
    then show ?thesis using n(1) pow_div_word[of "10 + nat (n - 1)"] by simp
  qed
  ultimately show "backoff_of cfg_example n = 0"
    by (simp add: backoff_of_def b Let_def)
qed

theorem backoff_overflow_witness:
  "(55 :: int) \<le> 55 \<and> (55 :: int) < 2 ^ 63 \<and> backoff_of cfg_example 55 = 0"
  using backoff_overflow by simp

definition st_two :: OutboxState where
  "st_two = snd (Enqueue (\<lambda>p. Some ''{}'') True ''e2'' 2 ''user.created'' ''subj'' ''default'' user_example st_example)"

definition env_first_fails :: outbox_env where
  "env_first_fails = env_ok\<lparr>en_post := \<lambda>r. if ue_EventID r = ''e1'' then Some 503 else Some 204\<rparr>"

text \<open>
  Events of one subject can reach the consumer out of order: when the first of two events is refused
  once, the same sweep goes on to deliver the second, and the first is delivered by a later sweep.
\<close>

theorem outbox_reorders:
  "let st1 = drainOnce cfg_example env_first_fails 10 st_two;
       st2 = drainOnce cfg_example env_ok (3 * second) st1 in
   map (\<lambda>r. (ue_EventID r, ue_SubjectID r, ue_CreatedAt r)) (ob_rows st_two) =
     [(''e1'', ''subj'', 1), (''e2'', ''subj'', 2)] \<and>
   map (\<lambda>(h, resp). (ue_EventID h, resp)) (ob_posts st2) =
     [(''e1'', Some 503), (''e2'', Some 204), (''e1'', Some 204)]"
proof -
  define r1 where "r1 = row_example ''e1'' 1"
  define r2 where "r2 = row_example ''e2'' 2"
  note rd = r1_def r2_def row_example_def event_row_def
  have two: "st_two = \<lparr>ob_rows = [r1, r2], ob_closed = False, ob_posts = [], ob_failures = []\<rparr>"
    by (simp add: st_two_def st_example_def Enqueue_def outbox_init_def Let_def rd)
  have c: "cf_TargetURL cfg_example = ''u''" "cf_BatchSize cfg_example = 50" "cf_MaxAttempts cfg_example = 0"
    by (simp_all add: cfg_example_def applyDefaults_def)
  have b: "backoff_of cfg_example 1 = 2 * second"
    by (simp add: backoff_of_def cfg_example_def applyDefaults_def second_def Let_def)
  define r1' where "r1' = r1\<lparr>ue_Attempts := 1, ue_LastError := Some ''consumer returned status'',
    ue_Status := Pending, ue_AvailableAt := 10 + 2 * second\<rparr>"
  define r2' where "r2' = r2\<lparr>ue_Status := Delivered, ue_DeliveredAt := Some 10, ue_LastError := None\<rparr>"
  have due1: "due cfg_example 10 st_two = [r1, r2]" by (simp add: due_def two c rd)
  have st1: "drainOnce cfg_example env_first_fails 10 st_two =
      \<lparr>ob_rows = [r1', r2'], ob_closed = False, ob_posts = [(r1, Some 503), (r2, Some 204)], ob_failures = [''e1'']\<rparr>"
    by (simp add: drainOnce_def due1 env_first_fails_def env_ok_def)
       (simp add: deliver_def accepted_def markFailure_def markDelivered_def update_row_def log_failure_def Let_def two c rd
         r1'_def r2'_def b)
  have due2: "due cfg_example (3 * second)
      \<lparr>ob_rows = [r1', r2'], ob_closed = False, ob_posts = [(r1, Some 503), (r2, Some 204)], ob_failures = [''e1'']\<rparr> = [r1']"
    by (simp add: due_def c r1'_def r2'_def rd second_def)
  have p: "ob_posts (drainOnce cfg_example env_ok (3 * second)
      \<lparr>ob_rows = [r1', r2'], ob_closed = False, ob_posts = [(r1, Some 503), (r2, Some 204)], ob_failures = [''e1'']\<rparr>) =
      [(r1, Some 503), (r2, Some 204), (r1', Some 204)]"
    by (simp add: drainOnce_def due2 fold_deliver_posts env_ok_def posts_of_def c deliver_posts)
  show ?thesis unfolding Let_def st1 p unfolding two by (simp add: r1'_def rd)
qed

end
