(* ===== verification/System_Role.thy ===== *)
theory System_Role
  imports Prelude
begin

text \<open>
  System roles (\<^verbatim>\<open>server/internal/systemrole\<close>: \<^verbatim>\<open>types.go\<close>, \<^verbatim>\<open>service.go\<close>, with the row type of
  \<^verbatim>\<open>models.UserSystemRole\<close>): the two roles, their expansion and capabilities, and the service that
  grants and revokes them on the table \<^verbatim>\<open>user_system_roles\<close>.

  The table is the list of its rows in the order of insertion.  A deleted row stays in the table with its
  \<^verbatim>\<open>deleted_at\<close> set, and its unique index on user and role covers deleted rows too.  The argument \<open>dbok\<close>
  of an operation says for each of its statements, numbered in the order of the code, whether the
  database executes it; identifiers and times are arguments.
\<close>

section \<open>Roles and capabilities\<close>

definition SystemRolePlatformAdmin :: string where
  "SystemRolePlatformAdmin = ''platform_admin''"

definition SystemRoleBusinessAdmin :: string where
  "SystemRoleBusinessAdmin = ''business_admin''"

definition CanManageSystemRoles :: string where "CanManageSystemRoles = ''CanManageSystemRoles''"

definition CanManageSystemSettings :: string where "CanManageSystemSettings = ''CanManageSystemSettings''"

definition CanManageSystemChannels :: string where "CanManageSystemChannels = ''CanManageSystemChannels''"

definition CanViewGlobalBusinessData :: string where
  "CanViewGlobalBusinessData = ''CanViewGlobalBusinessData''"

definition CanAccessBusinessDashboard :: string where
  "CanAccessBusinessDashboard = ''CanAccessBusinessDashboard''"

definition IsValidRole :: "string \<Rightarrow> bool" where
  "IsValidRole role \<longleftrightarrow> role = SystemRolePlatformAdmin \<or> role = SystemRoleBusinessAdmin"

text \<open>The set built by the first loop of \<open>ExpandRoles\<close>, as a list.\<close>

definition expand_set :: "string list \<Rightarrow> string list" where
  "expand_set roles = concat (map (\<lambda>role.
     if role = [] then [] else if role = SystemRolePlatformAdmin then [role, SystemRoleBusinessAdmin] else [role]) roles)"

definition ExpandRoles :: "string list \<Rightarrow> string list" where
  "ExpandRoles roles = filter (\<lambda>role. role \<in> set (expand_set roles)) [SystemRolePlatformAdmin, SystemRoleBusinessAdmin]"

definition CapabilitiesForRoles :: "string list \<Rightarrow> string list" where
  "CapabilitiesForRoles roles =
     (let roleSet = ExpandRoles roles;
          capSet = (if SystemRolePlatformAdmin \<in> set roleSet
                    then [CanManageSystemRoles, CanManageSystemSettings, CanManageSystemChannels,
                          CanViewGlobalBusinessData, CanAccessBusinessDashboard] else []) @
                   (if SystemRoleBusinessAdmin \<in> set roleSet
                    then [CanViewGlobalBusinessData, CanAccessBusinessDashboard] else [])
      in filter (\<lambda>c. c \<in> set capSet) [CanManageSystemRoles, CanManageSystemSettings, CanManageSystemChannels,
           CanViewGlobalBusinessData, CanAccessBusinessDashboard])"

section \<open>The table and the service\<close>

record UserSystemRole =
  sr_ID :: string
  sr_UserID :: string
  sr_Role :: string
  sr_GrantedBy :: "string option"
  sr_CreatedAt :: int
  sr_deleted :: bool

datatype role_error =
    ErrInvalidSystemRole
  | ErrSystemRoleUserNotFound
  | ErrCannotRevokeLastPlatformAdmin
  | RoleDBError
  | RoleUniqueViolation

text \<open>The users (in the order of their creation) and the rows of the role table.\<close>

record role_db =
  rdb_users :: "string list"
  rdb_roles :: "UserSystemRole list"

definition active :: "role_db \<Rightarrow> UserSystemRole list" where
  "active db = filter (\<lambda>r. \<not> sr_deleted r) (rdb_roles db)"

definition ListRoles :: "(nat \<Rightarrow> bool) \<Rightarrow> string \<Rightarrow> role_db \<Rightarrow> role_error + string list" where
  "ListRoles dbok userID db =
     (if \<not> dbok 0 then Inl RoleDBError
      else Inr (map sr_Role (sort_key sr_CreatedAt (filter (\<lambda>r. sr_UserID r = userID) (active db)))))"

definition GetExpandedRoles :: "(nat \<Rightarrow> bool) \<Rightarrow> string \<Rightarrow> role_db \<Rightarrow> role_error + string list" where
  "GetExpandedRoles dbok userID db =
     (case ListRoles dbok userID db of Inl e \<Rightarrow> Inl e | Inr roles \<Rightarrow> Inr (ExpandRoles roles))"

definition GetCapabilities :: "(nat \<Rightarrow> bool) \<Rightarrow> string \<Rightarrow> role_db \<Rightarrow> role_error + string list" where
  "GetCapabilities dbok userID db =
     (case ListRoles dbok userID db of Inl e \<Rightarrow> Inl e | Inr roles \<Rightarrow> Inr (CapabilitiesForRoles roles))"

definition HasRole :: "(nat \<Rightarrow> bool) \<Rightarrow> string \<Rightarrow> string \<Rightarrow> role_db \<Rightarrow> role_error + bool" where
  "HasRole dbok userID role db =
     (case GetExpandedRoles dbok userID db of Inl e \<Rightarrow> Inl e | Inr roles \<Rightarrow> Inr (role \<in> set roles))"

definition HasAnyRole :: "(nat \<Rightarrow> bool) \<Rightarrow> string \<Rightarrow> string list \<Rightarrow> role_db \<Rightarrow> role_error + bool" where
  "HasAnyRole dbok userID roles db =
     (case GetExpandedRoles dbok userID db of
        Inl e \<Rightarrow> Inl e
      | Inr expanded \<Rightarrow> Inr (list_ex (\<lambda>role. role \<in> set expanded) roles))"

text \<open>An insert fails on the primary key or on the unique pair of user and role, deleted rows included.\<close>

definition insert_role :: "UserSystemRole \<Rightarrow> role_db \<Rightarrow> (role_error + unit) \<times> role_db" where
  "insert_role grant db =
     (if list_ex (\<lambda>r. sr_ID r = sr_ID grant \<or> sr_UserID r = sr_UserID grant \<and> sr_Role r = sr_Role grant) (rdb_roles db)
      then (Inl RoleUniqueViolation, db)
      else (Inr (), db\<lparr>rdb_roles := rdb_roles db @ [grant]\<rparr>))"

definition GrantRole ::
  "(nat \<Rightarrow> bool) \<Rightarrow> string \<Rightarrow> int \<Rightarrow> string \<Rightarrow> string \<Rightarrow> string \<Rightarrow> role_db \<Rightarrow> (role_error + unit) \<times> role_db" where
  "GrantRole dbok newID now userID role operatorID db =
     (if \<not> IsValidRole role then (Inl ErrInvalidSystemRole, db)
      else if \<not> dbok 0 then (Inl RoleDBError, db)
      else if userID \<notin> set (rdb_users db) then (Inl ErrSystemRoleUserNotFound, db)
      else if \<not> dbok 1 then (Inl RoleDBError, db)
      else if list_ex (\<lambda>r. sr_UserID r = userID \<and> sr_Role r = role) (active db) then (Inr (), db)
      else if \<not> dbok 2 then (Inl RoleDBError, db)
      else insert_role \<lparr>sr_ID = newID, sr_UserID = userID, sr_Role = role,
             sr_GrantedBy = (if operatorID \<noteq> [] then Some operatorID else None),
             sr_CreatedAt = now, sr_deleted = False\<rparr> db)"

text \<open>
  The transaction of \<open>RevokeRole\<close> in two parts: what it reads and decides, and what it writes.
  \<open>Inr None\<close> says there is nothing to delete.
\<close>

definition revoke_check ::
  "(nat \<Rightarrow> bool) \<Rightarrow> string \<Rightarrow> string \<Rightarrow> role_db \<Rightarrow> role_error + UserSystemRole option" where
  "revoke_check dbok userID role db =
     (if \<not> dbok 0 then Inl RoleDBError
      else case find (\<lambda>r. sr_UserID r = userID \<and> sr_Role r = role) (active db) of
        None \<Rightarrow> Inr None
      | Some grant \<Rightarrow>
          if role = SystemRolePlatformAdmin then
            (if \<not> dbok 1 then Inl RoleDBError
             else if length (filter (\<lambda>r. sr_Role r = SystemRolePlatformAdmin) (active db)) \<le> 1
             then Inl ErrCannotRevokeLastPlatformAdmin
             else Inr (Some grant))
          else Inr (Some grant))"

definition delete_role :: "UserSystemRole \<Rightarrow> role_db \<Rightarrow> role_db" where
  "delete_role grant db =
     db\<lparr>rdb_roles := map (\<lambda>r. if sr_ID r = sr_ID grant \<and> \<not> sr_deleted r then r\<lparr>sr_deleted := True\<rparr> else r) (rdb_roles db)\<rparr>"

definition RevokeRole ::
  "(nat \<Rightarrow> bool) \<Rightarrow> string \<Rightarrow> string \<Rightarrow> string \<Rightarrow> role_db \<Rightarrow> (role_error + unit) \<times> role_db" where
  "RevokeRole dbok userID role operatorID db =
     (if \<not> IsValidRole role then (Inl ErrInvalidSystemRole, db)
      else case revoke_check dbok userID role db of
        Inl e \<Rightarrow> (Inl e, db)
      | Inr None \<Rightarrow> (Inr (), db)
      | Inr (Some grant) \<Rightarrow>
          if \<not> dbok 2 then (Inl RoleDBError, db) else (Inr (), delete_role grant db))"

definition ListUsersByRole :: "(nat \<Rightarrow> bool) \<Rightarrow> string \<Rightarrow> role_db \<Rightarrow> role_error + string list" where
  "ListUsersByRole dbok role db =
     (if \<not> IsValidRole role then Inl ErrInvalidSystemRole
      else if \<not> dbok 0 then Inl RoleDBError
      else
        let roles = (if role = SystemRoleBusinessAdmin then [SystemRoleBusinessAdmin, SystemRolePlatformAdmin] else [role])
        in Inr (filter (\<lambda>u. list_ex (\<lambda>r. sr_UserID r = u \<and> sr_Role r \<in> set roles) (active db)) (rdb_users db)))"

section \<open>What the roles mean\<close>

lemma roles_differ [simp]: "SystemRolePlatformAdmin \<noteq> SystemRoleBusinessAdmin" "SystemRoleBusinessAdmin \<noteq> SystemRolePlatformAdmin"
  by (simp_all add: SystemRolePlatformAdmin_def SystemRoleBusinessAdmin_def)

lemma in_expand_set:
  "SystemRolePlatformAdmin \<in> set (expand_set roles) \<longleftrightarrow> SystemRolePlatformAdmin \<in> set roles"
  "SystemRoleBusinessAdmin \<in> set (expand_set roles) \<longleftrightarrow>
     SystemRolePlatformAdmin \<in> set roles \<or> SystemRoleBusinessAdmin \<in> set roles"
  by (induction roles) (auto simp: expand_set_def SystemRolePlatformAdmin_def SystemRoleBusinessAdmin_def)

lemma ExpandRoles_eq:
  "ExpandRoles roles =
     (if SystemRolePlatformAdmin \<in> set roles then [SystemRolePlatformAdmin, SystemRoleBusinessAdmin]
      else if SystemRoleBusinessAdmin \<in> set roles then [SystemRoleBusinessAdmin] else [])"
  by (simp add: ExpandRoles_def in_expand_set)

lemma ExpandRoles_idem: "ExpandRoles (ExpandRoles roles) = ExpandRoles roles"
  by (simp add: ExpandRoles_eq)

definition holds :: "role_db \<Rightarrow> string \<Rightarrow> string \<Rightarrow> bool" where
  "holds db u role \<longleftrightarrow> (\<exists>r \<in> set (active db). sr_UserID r = u \<and> sr_Role r = role)"

definition role_list :: "role_db \<Rightarrow> string \<Rightarrow> string list" where
  "role_list db u = map sr_Role (sort_key sr_CreatedAt (filter (\<lambda>r. sr_UserID r = u) (active db)))"

lemma ListRoles_ok: "dbok 0 \<Longrightarrow> ListRoles dbok u db = Inr (role_list db u)"
  by (simp add: ListRoles_def role_list_def)

lemma role_list_holds: "role \<in> set (role_list db u) \<longleftrightarrow> holds db u role"
  by (auto simp: role_list_def holds_def)

lemma HasRole_holds:
  assumes "dbok 0" and "IsValidRole role"
  shows "HasRole dbok u role db = Inr (holds db u role \<or>
    role = SystemRoleBusinessAdmin \<and> holds db u SystemRolePlatformAdmin)"
  using assms
  by (auto simp: HasRole_def GetExpandedRoles_def IsValidRole_def ExpandRoles_eq ListRoles_ok role_list_holds)

section \<open>Histories of the table\<close>

text \<open>The unique indexes, and the number of active platform administrators.\<close>

definition roles_unique :: "role_db \<Rightarrow> bool" where
  "roles_unique db \<longleftrightarrow> distinct (map sr_ID (rdb_roles db)) \<and> distinct (map (\<lambda>r. (sr_UserID r, sr_Role r)) (rdb_roles db))"

definition admin_count :: "role_db \<Rightarrow> nat" where
  "admin_count db = length (filter (\<lambda>r. sr_Role r = SystemRolePlatformAdmin) (active db))"

inductive role_step :: "role_db \<Rightarrow> role_db \<Rightarrow> bool" where
  rs_grant: "role_step db (snd (GrantRole dbok newID now u role op db))"
| rs_revoke: "role_step db (snd (RevokeRole dbok u role op db))"

inductive role_steps :: "role_db \<Rightarrow> role_db \<Rightarrow> bool" where
  rss_refl: "role_steps db db"
| rss_step: "role_steps db db' \<Longrightarrow> role_step db' db'' \<Longrightarrow> role_steps db db''"

lemma GrantRole_cases:
  obtains "snd (GrantRole dbok newID now u role op db) = db"
  | grant where "snd (GrantRole dbok newID now u role op db) = db\<lparr>rdb_roles := rdb_roles db @ [grant]\<rparr>"
      "sr_ID grant \<notin> sr_ID ` set (rdb_roles db)" "\<not> sr_deleted grant"
      "(sr_UserID grant, sr_Role grant) \<notin> (\<lambda>r. (sr_UserID r, sr_Role r)) ` set (rdb_roles db)"
proof -
  define g where "g = \<lparr>sr_ID = newID, sr_UserID = u, sr_Role = role,
             sr_GrantedBy = (if op \<noteq> [] then Some op else None), sr_CreatedAt = now, sr_deleted = False\<rparr>"
  have "snd (GrantRole dbok newID now u role op db) \<in> {db, snd (insert_role g db)}"
    by (simp add: GrantRole_def g_def)
  moreover have "\<not> sr_deleted g" by (simp add: g_def)
  moreover have "snd (insert_role g db) = db \<or>
      snd (insert_role g db) = db\<lparr>rdb_roles := rdb_roles db @ [g]\<rparr> \<and> sr_ID g \<notin> sr_ID ` set (rdb_roles db) \<and>
      (sr_UserID g, sr_Role g) \<notin> (\<lambda>r. (sr_UserID r, sr_Role r)) ` set (rdb_roles db)"
    by (auto simp: insert_role_def list_ex_iff)
  ultimately show ?thesis using that by auto
qed

lemma revoke_checkD:
  assumes "revoke_check dbok u role db = Inr (Some g)"
  shows "g \<in> set (active db)" "sr_UserID g = u" "sr_Role g = role"
    "role = SystemRolePlatformAdmin \<longrightarrow> 1 < admin_count db"
proof -
  from assms have f: "find (\<lambda>r. sr_UserID r = u \<and> sr_Role r = role) (active db) = Some g"
    and c: "role = SystemRolePlatformAdmin \<longrightarrow> \<not> length (filter (\<lambda>r. sr_Role r = SystemRolePlatformAdmin) (active db)) \<le> 1"
    by (auto simp: revoke_check_def split: if_splits option.splits)
  from f show "g \<in> set (active db)" "sr_UserID g = u" "sr_Role g = role"
    by (auto simp: find_Some_iff)
  from c show "role = SystemRolePlatformAdmin \<longrightarrow> 1 < admin_count db" by (auto simp: admin_count_def)
qed

lemma RevokeRole_cases:
  obtains "snd (RevokeRole dbok u role op db) = db"
  | grant where "snd (RevokeRole dbok u role op db) = delete_role grant db" "grant \<in> set (active db)"
      "sr_UserID grant = u" "sr_Role grant = role" "role = SystemRolePlatformAdmin \<longrightarrow> 1 < admin_count db"
proof (cases "revoke_check dbok u role db")
  case (Inr gopt)
  show ?thesis
  proof (cases gopt)
    case (Some g)
    note d = revoke_checkD[OF Inr[unfolded Some]]
    have "snd (RevokeRole dbok u role op db) \<in> {db, delete_role g db}"
      using Inr Some by (simp add: RevokeRole_def)
    then show ?thesis using that d by blast
  qed (use Inr that(1) in \<open>simp add: RevokeRole_def\<close>)
qed (use that(1) in \<open>simp add: RevokeRole_def\<close>)

lemma delete_role_keeps:
  "map sr_ID (rdb_roles (delete_role g db)) = map sr_ID (rdb_roles db)"
  "map (\<lambda>r. (sr_UserID r, sr_Role r)) (rdb_roles (delete_role g db)) = map (\<lambda>r. (sr_UserID r, sr_Role r)) (rdb_roles db)"
  by (simp_all add: delete_role_def comp_def if_distrib)

lemma active_delete:
  assumes "roles_unique db" and "g \<in> set (active db)"
  shows "active (delete_role g db) = filter (\<lambda>r. r \<noteq> g) (active db)"
proof -
  have inj: "inj_on sr_ID (set (rdb_roles db))" using assms(1) by (simp add: roles_unique_def distinct_map)
  have g: "g \<in> set (rdb_roles db)" using assms(2) by (simp add: active_def)
  have eq: "(sr_ID r = sr_ID g) = (r = g)" if "r \<in> set (rdb_roles db)" for r
    using inj_on_eq_iff[OF inj that g] .
  have "\<not> sr_deleted g" using assms(2) by (simp add: active_def)
  then have "map (\<lambda>r. if sr_ID r = sr_ID g \<and> \<not> sr_deleted r then r\<lparr>sr_deleted := True\<rparr> else r) (rdb_roles db) =
      map (\<lambda>r. if r = g then g\<lparr>sr_deleted := True\<rparr> else r) (rdb_roles db)"
    by (intro map_cong refl) (simp add: eq)
  moreover have "filter (\<lambda>r. \<not> sr_deleted r) (map (\<lambda>r. if r = g then g\<lparr>sr_deleted := True\<rparr> else r) xs) =
      filter (\<lambda>r. r \<noteq> g) (filter (\<lambda>r. \<not> sr_deleted r) xs)" for xs
    by (induction xs) auto
  moreover have "rdb_roles (delete_role g db) =
      map (\<lambda>r. if sr_ID r = sr_ID g \<and> \<not> sr_deleted r then r\<lparr>sr_deleted := True\<rparr> else r) (rdb_roles db)"
    by (simp add: delete_role_def)
  ultimately show ?thesis by (simp only: active_def)
qed

lemma length_filter_remove: "distinct xs \<Longrightarrow> length (filter P xs) \<le> Suc (length (filter P (filter (\<lambda>x. x \<noteq> g) xs)))"
proof (induction xs)
  case (Cons x xs)
  have "filter P (filter (\<lambda>y. y \<noteq> x) xs) = filter P xs"
    using Cons.prems by (intro arg_cong[where f = "filter P"]) (auto simp: filter_id_conv)
  with Cons show ?case by (cases "x = g") auto
qed simp

lemma filter_remove_other: "\<not> P g \<Longrightarrow> filter P (filter (\<lambda>x. x \<noteq> g) xs) = filter P xs"
  by (induction xs) auto

lemma admin_count_delete:
  assumes "roles_unique db" and "g \<in> set (active db)"
  shows "admin_count db \<le> Suc (admin_count (delete_role g db))"
    "sr_Role g \<noteq> SystemRolePlatformAdmin \<Longrightarrow> admin_count (delete_role g db) = admin_count db"
proof -
  have d: "distinct (active db)" using assms(1) by (auto simp: roles_unique_def active_def distinct_map)
  show "admin_count db \<le> Suc (admin_count (delete_role g db))"
    unfolding admin_count_def active_delete[OF assms] by (rule length_filter_remove[OF d])
  show "admin_count (delete_role g db) = admin_count db" if "sr_Role g \<noteq> SystemRolePlatformAdmin"
    unfolding admin_count_def active_delete[OF assms] using that by (subst filter_remove_other) simp_all
qed

lemma role_step_inv:
  assumes "role_step db db'" and "roles_unique db" and "0 < admin_count db"
  shows "roles_unique db' \<and> 0 < admin_count db' \<and> rdb_users db' = rdb_users db"
  using assms(1)
proof cases
  case (rs_grant dbok newID now u role op)
  show ?thesis
  proof (rule GrantRole_cases[where dbok = dbok and newID = newID and now = now and u = u and role = role and op = op and db = db])
    assume "snd (GrantRole dbok newID now u role op db) = db"
    then show ?thesis using rs_grant assms by simp
  next
    fix g
    assume "snd (GrantRole dbok newID now u role op db) = db\<lparr>rdb_roles := rdb_roles db @ [g]\<rparr>"
      "sr_ID g \<notin> sr_ID ` set (rdb_roles db)" "\<not> sr_deleted g"
      "(sr_UserID g, sr_Role g) \<notin> (\<lambda>r. (sr_UserID r, sr_Role r)) ` set (rdb_roles db)"
    then show ?thesis using rs_grant assms by (simp add: roles_unique_def admin_count_def active_def)
  qed
next
  case (rs_revoke dbok u role op)
  show ?thesis
  proof (rule RevokeRole_cases[where dbok = dbok and u = u and role = role and op = op and db = db])
    assume "snd (RevokeRole dbok u role op db) = db"
    then show ?thesis using rs_revoke assms by simp
  next
    fix g
    assume g: "snd (RevokeRole dbok u role op db) = delete_role g db" "g \<in> set (active db)"
      "sr_UserID g = u" "sr_Role g = role" "role = SystemRolePlatformAdmin \<longrightarrow> 1 < admin_count db"
    have "roles_unique (delete_role g db)" using assms(2) by (simp add: roles_unique_def delete_role_keeps)
    moreover have "0 < admin_count (delete_role g db)"
      using g(4,5) admin_count_delete[OF assms(2) g(2)] assms(3) by (cases "role = SystemRolePlatformAdmin") auto
    ultimately show ?thesis using rs_revoke g(1) by (simp add: delete_role_def)
  qed
qed

lemma role_steps_inv:
  "role_steps db db' \<Longrightarrow> roles_unique db \<Longrightarrow> 0 < admin_count db \<Longrightarrow> roles_unique db' \<and> 0 < admin_count db'"
  by (induction rule: role_steps.induct) (use role_step_inv in blast)+

section \<open>Correctness of the role service\<close>

text \<open>
  C17. The platform always keeps an administrator: along every history of grants and revocations,
  with any failures of the database, once there is an active platform administrator there always is
  one, and no user ever holds the same role twice.  (Each operation is a serial transaction here.)
\<close>

theorem last_admin_kept:
  assumes "roles_unique db" and "0 < admin_count db" and "role_steps db db'"
  shows "(\<exists>u. holds db' u SystemRolePlatformAdmin) \<and>
    distinct (map (\<lambda>r. (sr_UserID r, sr_Role r)) (active db'))"
proof -
  have inv: "roles_unique db'" "0 < admin_count db'" using role_steps_inv[OF assms(3,1,2)] by simp_all
  from inv(2) obtain r where "r \<in> set (active db')" "sr_Role r = SystemRolePlatformAdmin"
    by (auto simp: admin_count_def filter_empty_conv)
  then have "holds db' (sr_UserID r) SystemRolePlatformAdmin" by (auto simp: holds_def)
  moreover have "distinct (map (\<lambda>r. (sr_UserID r, sr_Role r)) (active db'))"
    using inv(1) by (simp add: roles_unique_def active_def distinct_map_filter)
  ultimately show ?thesis by blast
qed

definition admin_row :: "string \<Rightarrow> UserSystemRole" where
  "admin_row u = \<lparr>sr_ID = u, sr_UserID = u, sr_Role = SystemRolePlatformAdmin, sr_GrantedBy = None,
     sr_CreatedAt = 0, sr_deleted = False\<rparr>"

definition two_admins :: role_db where
  "two_admins = \<lparr>rdb_users = [''a'', ''b''], rdb_roles = [admin_row ''a'', admin_row ''b'']\<rparr>"

definition always :: "nat \<Rightarrow> bool" where
  "always n = True"

lemmas role_eval = two_admins_def admin_row_def always_def active_def RevokeRole_def revoke_check_def IsValidRole_def
  delete_role_def GrantRole_def insert_role_def holds_def

theorem last_admin_kept_witness:
  "let db1 = snd (RevokeRole always ''a'' SystemRolePlatformAdmin ''x'' two_admins);
       db2 = snd (RevokeRole always ''b'' SystemRolePlatformAdmin ''x'' db1)
   in roles_unique two_admins \<and> 0 < admin_count two_admins \<and> (\<exists>u. holds db2 u SystemRolePlatformAdmin)"
proof -
  have inv: "roles_unique two_admins" "0 < admin_count two_admins"
    by (simp_all add: roles_unique_def admin_count_def role_eval)
  then show ?thesis
    using last_admin_kept[OF inv rss_step[OF rss_step[OF rss_refl rs_revoke] rs_revoke]] by (simp add: Let_def)
qed

text \<open>
  The guard of the last administrator does not survive concurrency: when two revocations run in
  overlapping transactions that both read before either writes (which the default isolation level
  of the database allows), both pass the check and no platform administrator is left.
\<close>

theorem concurrent_revocations:
  "\<exists>g1 g2. revoke_check always ''a'' SystemRolePlatformAdmin two_admins = Inr (Some g1) \<and>
     revoke_check always ''b'' SystemRolePlatformAdmin two_admins = Inr (Some g2) \<and>
     (\<nexists>u. holds (delete_role g2 (delete_role g1 two_admins)) u SystemRolePlatformAdmin)"
  by (simp add: role_eval)

text \<open>
  A role that was revoked cannot be granted again: the revoked row stays in the table and keeps
  its place in the unique index, while the check for an existing grant looks at active rows
  only, so the insert fails and the user stays without the role.
\<close>

theorem revoked_role_is_lost:
  assumes "holds db u role" and "IsValidRole role" and "u \<in> set (rdb_users db)" and "roles_unique db"
    and "RevokeRole always u role op db = (Inr (), db')"
  shows "GrantRole always newID now u role op' db' = (Inl RoleUniqueViolation, db') \<and> \<not> holds db' u role"
proof -
  have "find (\<lambda>r. sr_UserID r = u \<and> sr_Role r = role) (active db) \<noteq> None"
    using assms(1) by (auto simp: holds_def find_None_iff)
  with assms(2,5) obtain g where c: "revoke_check always u role db = Inr (Some g)" and db': "db' = delete_role g db"
    by (auto simp: RevokeRole_def always_def revoke_check_def split: if_splits option.splits)
  note g = revoke_checkD[OF c]
  have pair: "r = g" if "r \<in> set (rdb_roles db)" "sr_UserID r = u" "sr_Role r = role" for r
  proof -
    have "inj_on (\<lambda>r. (sr_UserID r, sr_Role r)) (set (rdb_roles db))"
      using assms(4) by (simp add: roles_unique_def distinct_map)
    moreover have "g \<in> set (rdb_roles db)" using g(1) by (simp add: active_def)
    ultimately show ?thesis using that g(2,3) by (auto dest: inj_onD)
  qed
  have "(u, role) \<in> set (map (\<lambda>r. (sr_UserID r, sr_Role r)) (rdb_roles db'))"
    using g(1-3) by (force simp: db' delete_role_keeps active_def)
  then have ex: "\<exists>r \<in> set (rdb_roles db'). sr_UserID r = u \<and> sr_Role r = role" by auto
  have no: "\<not> holds db' u role"
    using pair by (auto simp: holds_def db' active_delete[OF assms(4) g(1)]) (auto simp: active_def)
  have "rdb_users db' = rdb_users db" by (simp add: db' delete_role_def)
  with ex no assms(2,3) show ?thesis
    by (auto simp: GrantRole_def insert_role_def list_ex_iff holds_def always_def)
qed

theorem revoked_role_is_lost_witness:
  "let db' = snd (RevokeRole always ''a'' SystemRolePlatformAdmin ''x'' two_admins)
   in GrantRole always ''new'' 9 ''a'' SystemRolePlatformAdmin ''x'' db' = (Inl RoleUniqueViolation, db')"
proof -
  have "RevokeRole always ''a'' SystemRolePlatformAdmin ''x'' two_admins =
      (Inr (), snd (RevokeRole always ''a'' SystemRolePlatformAdmin ''x'' two_admins))" by (simp add: role_eval)
  from revoked_role_is_lost[OF _ _ _ _ this, where newID = "''new''" and now = 9 and op' = "''x''"]
  show ?thesis by (simp add: Let_def) (simp add: roles_unique_def role_eval)
qed

text \<open>
  The two readings of the role hierarchy agree: a user is listed for a role exactly when the
  role check says that the user has it, for every state of the table; and an unknown role is
  refused by the one and held by nobody according to the other.
\<close>

theorem ListUsersByRole_HasRole:
  "(case ListUsersByRole always role db of
      Inl e \<Rightarrow> e = ErrInvalidSystemRole \<and> \<not> IsValidRole role
    | Inr us \<Rightarrow> us = filter (\<lambda>u. HasRole always u role db = Inr True) (rdb_users db)) \<and>
   (if IsValidRole role then True else HasRole always u role db = Inr False)"
proof (cases "IsValidRole role")
  case True
  have "HasRole always u role db = Inr True \<longleftrightarrow>
      list_ex (\<lambda>r. sr_UserID r = u \<and> sr_Role r \<in> set (if role = SystemRoleBusinessAdmin
          then [SystemRoleBusinessAdmin, SystemRolePlatformAdmin] else [role])) (active db)" for u
    by (auto simp: HasRole_holds[where dbok = always, OF _ True] always_def holds_def list_ex_iff)
  then show ?thesis using True by (simp add: ListUsersByRole_def always_def)
next
  case False
  then show ?thesis
    by (auto simp: ListUsersByRole_def HasRole_def GetExpandedRoles_def ListRoles_ok always_def ExpandRoles_eq IsValidRole_def)
qed

end
