(* ===== verification/Authz.thy ===== *)
theory Authz
  imports System_Role
begin

text \<open>
  Authorization (\<^verbatim>\<open>server/internal/authz\<close>: \<^verbatim>\<open>service.go\<close>, \<^verbatim>\<open>registry.go\<close>, \<^verbatim>\<open>grants.go\<close>, \<^verbatim>\<open>scope.go\<close>): the registry of
  resources with the roles allowed on them, the fine-grained grants to users and departments, and
  the department scope of the metrics dashboard.

  The tables \<^verbatim>\<open>resource_permissions\<close>, \<^verbatim>\<open>permission_grants\<close> and \<^verbatim>\<open>users\<close> are lists of rows.  The sources of
  roles and of departments are interfaces of the code and records of functions here; a failed call is
  \<open>Inl\<close> or \<open>None\<close>.  As in \<^verbatim>\<open>System_Role\<close>, \<open>dbok\<close> says which statements of an operation the database
  executes.
\<close>

section \<open>Data\<close>

datatype authz_error =
    ErrResourcePermissionNotFound
  | ErrInvalidResourceRole
  | ErrInvalidSubjectType
  | ErrGrantNotFound
  | MissingArguments
  | NoDepartmentProvider
  | DepartmentLookupFailed
  | RoleLookupFailed
  | EmptyToken
  | ParseTokenFailed
  | AuthzDBError

record ResourcePermission =
  rp_ResourceCode :: string
  rp_ResourceType :: string
  rp_AllowedRoles :: "string list"

definition PermissionSubjectUser :: string where "PermissionSubjectUser = ''user''"

definition PermissionSubjectDepartment :: string where "PermissionSubjectDepartment = ''department''"

record PermissionGrant =
  pg_ID :: string
  pg_PermissionCode :: string
  pg_SubjectType :: string
  pg_SubjectID :: string
  pg_DeptPath :: string
  pg_GrantedBy :: string
  pg_CreatedAt :: int

record authz_db =
  adb_perms :: "ResourcePermission list"
  adb_grants :: "PermissionGrant list"
  adb_universalIDs :: "(string \<times> string option) list"

record DepartmentInfo =
  di_DeptID :: string
  di_DeptPath :: string

record DepartmentProvider =
  dp_GetUserDepartments :: "string \<Rightarrow> DepartmentInfo list option"
  dp_GetDepartmentPath :: "string \<Rightarrow> string option"

record RoleProvider =
  ro_ListRoles :: "string \<Rightarrow> string list option"
  ro_GetExpandedRoles :: "string \<Rightarrow> string list option"

type_synonym ResourceRegistry = "(string \<times> string list) list"

record Service =
  sv_db :: authz_db
  sv_roleProvider :: RoleProvider
  sv_capabilityProvider :: "(string list \<Rightarrow> string list) option"
  sv_deptProvider :: "DepartmentProvider option"
  sv_menuRegistry :: ResourceRegistry
  sv_apiRegistry :: ResourceRegistry

record PermissionResult =
  pr_Menus :: "string list"
  pr_APIs :: "string list"
  pr_Capabilities :: "string list"

definition ScopeAllPermission :: string where "ScopeAllPermission = ''kanban.scope.all''"

definition ScopeDeptPermission :: string where "ScopeDeptPermission = ''kanban.scope.dept''"

definition KanbanMenuCode :: string where "KanbanMenuCode = ''kanban''"

definition AllowedRoles :: "ResourceRegistry \<Rightarrow> string \<Rightarrow> string list option" where
  "AllowedRoles r code = map_of r code"

definition IsOpenToAll :: "ResourceRegistry \<Rightarrow> string \<Rightarrow> bool" where
  "IsOpenToAll r code \<longleftrightarrow> map_of r code = Some []"

definition hasAny :: "string list \<Rightarrow> string list \<Rightarrow> bool" where
  "hasAny have want = list_ex (\<lambda>w. w \<in> set have) want"

section \<open>The registry of resources\<close>

definition registry_of :: "string \<Rightarrow> ResourcePermission list \<Rightarrow> ResourceRegistry" where
  "registry_of kind perms =
     fold (\<lambda>p m. if rp_ResourceType p = kind then AList.update (rp_ResourceCode p) (rp_AllowedRoles p) m else m) perms []"

definition loadRegistry :: "bool \<Rightarrow> Service \<Rightarrow> (authz_error + unit) \<times> Service" where
  "loadRegistry ok s =
     (if \<not> ok then (Inl AuthzDBError, s)
      else (Inr (), s\<lparr>sv_menuRegistry := registry_of ''menu'' (adb_perms (sv_db s)),
                     sv_apiRegistry := registry_of ''api'' (adb_perms (sv_db s))\<rparr>))"

definition ReloadRegistry :: "bool \<Rightarrow> Service \<Rightarrow> (authz_error + unit) \<times> Service" where
  "ReloadRegistry ok s = loadRegistry ok s"

definition NewService ::
  "bool \<Rightarrow> authz_db \<Rightarrow> RoleProvider \<Rightarrow> (string list \<Rightarrow> string list) option \<Rightarrow> authz_error + Service" where
  "NewService ok db roleProvider capabilityProvider =
     (case loadRegistry ok \<lparr>sv_db = db, sv_roleProvider = roleProvider, sv_capabilityProvider = capabilityProvider,
             sv_deptProvider = None, sv_menuRegistry = [], sv_apiRegistry = []\<rparr> of
        (Inl e, _) \<Rightarrow> Inl e | (Inr _, s) \<Rightarrow> Inr s)"

definition UpdateResourcePermission ::
  "(nat \<Rightarrow> bool) \<Rightarrow> string \<Rightarrow> string list \<Rightarrow> Service \<Rightarrow> (authz_error + unit) \<times> Service" where
  "UpdateResourcePermission dbok code allowedRoles s =
     (if \<not> list_all IsValidRole allowedRoles then (Inl ErrInvalidResourceRole, s)
      else if \<not> dbok 0 then (Inl AuthzDBError, s)
      else if \<not> list_ex (\<lambda>p. rp_ResourceCode p = code) (adb_perms (sv_db s))
      then (Inl ErrResourcePermissionNotFound, s)
      else
        let perms = map (\<lambda>p. if rp_ResourceCode p = code then p\<lparr>rp_AllowedRoles := allowedRoles\<rparr> else p) (adb_perms (sv_db s))
        in loadRegistry (dbok 1) (s\<lparr>sv_db := (sv_db s)\<lparr>adb_perms := perms\<rparr>\<rparr>))"

section \<open>Grants\<close>

definition pathHasPrefix :: "string \<Rightarrow> string \<Rightarrow> bool" where
  "pathHasPrefix userPath grantPath =
     (if grantPath = [] \<or> userPath = [] then False
      else if userPath = grantPath then True
      else has_prefix userPath (grantPath @ ''/''))"

definition universalIDFor :: "bool \<Rightarrow> string \<Rightarrow> Service \<Rightarrow> string option" where
  "universalIDFor ok subjectID s =
     (if \<not> ok then None
      else case map_of (adb_universalIDs (sv_db s)) subjectID of None \<Rightarrow> None | Some uid \<Rightarrow> uid)"

definition is_grant :: "string \<Rightarrow> string \<Rightarrow> string \<Rightarrow> PermissionGrant \<Rightarrow> bool" where
  "is_grant code kind subject g \<longleftrightarrow>
     pg_PermissionCode g = code \<and> pg_SubjectType g = kind \<and> pg_SubjectID g = subject"

definition GrantPermission ::
  "(nat \<Rightarrow> bool) \<Rightarrow> string \<Rightarrow> int \<Rightarrow> string \<Rightarrow> string \<Rightarrow> string \<Rightarrow> string \<Rightarrow> string \<Rightarrow> Service \<Rightarrow>
   (authz_error + PermissionGrant) \<times> Service" where
  "GrantPermission dbok newID now permissionCode0 subjectType subjectID0 deptPath grantedBy s =
     (let permissionCode = trim_space permissionCode0; subjectID = trim_space subjectID0
      in if permissionCode = [] \<or> subjectID = [] then (Inl MissingArguments, s)
         else if subjectType \<noteq> PermissionSubjectUser \<and> subjectType \<noteq> PermissionSubjectDepartment
         then (Inl ErrInvalidSubjectType, s)
         else if \<not> dbok 0 then (Inl AuthzDBError, s)
         else case find (is_grant permissionCode subjectType subjectID) (adb_grants (sv_db s)) of
           Some existing \<Rightarrow>
             if deptPath \<noteq> [] \<and> deptPath \<noteq> pg_DeptPath existing then
               (if \<not> dbok 1 then (Inl AuthzDBError, s)
                else (Inr (existing\<lparr>pg_DeptPath := deptPath\<rparr>),
                  s\<lparr>sv_db := (sv_db s)\<lparr>adb_grants := map (\<lambda>g. if pg_ID g = pg_ID existing
                       then g\<lparr>pg_DeptPath := deptPath\<rparr> else g) (adb_grants (sv_db s))\<rparr>\<rparr>))
             else (Inr existing, s)
         | None \<Rightarrow>
             if \<not> dbok 2 then (Inl AuthzDBError, s)
             else
               let grant = \<lparr>pg_ID = newID, pg_PermissionCode = permissionCode, pg_SubjectType = subjectType,
                     pg_SubjectID = subjectID, pg_DeptPath = deptPath, pg_GrantedBy = grantedBy, pg_CreatedAt = now\<rparr>
               in (Inr grant, s\<lparr>sv_db := (sv_db s)\<lparr>adb_grants := adb_grants (sv_db s) @ [grant]\<rparr>\<rparr>))"

definition ResolveDepartmentPath :: "string \<Rightarrow> Service \<Rightarrow> authz_error + string" where
  "ResolveDepartmentPath deptID s =
     (case sv_deptProvider s of
        None \<Rightarrow> Inl NoDepartmentProvider
      | Some p \<Rightarrow> (case dp_GetDepartmentPath p deptID of None \<Rightarrow> Inl DepartmentLookupFailed | Some path \<Rightarrow> Inr path))"

text \<open>The parser of \<^verbatim>\<open>google/uuid\<close> is an argument; only whether it accepts matters.\<close>

definition RevokePermission ::
  "(string \<Rightarrow> bool) \<Rightarrow> bool \<Rightarrow> string \<Rightarrow> Service \<Rightarrow> (authz_error + unit) \<times> Service" where
  "RevokePermission uuid_ok ok i s =
     (if \<not> uuid_ok (trim_space i) then (Inl ErrGrantNotFound, s)
      else if \<not> ok then (Inl AuthzDBError, s)
      else if \<not> list_ex (\<lambda>g. pg_ID g = i) (adb_grants (sv_db s)) then (Inl ErrGrantNotFound, s)
      else (Inr (), s\<lparr>sv_db := (sv_db s)\<lparr>adb_grants := filter (\<lambda>g. pg_ID g \<noteq> i) (adb_grants (sv_db s))\<rparr>\<rparr>))"

definition ListGrants :: "bool \<Rightarrow> string \<Rightarrow> Service \<Rightarrow> authz_error + PermissionGrant list" where
  "ListGrants ok permissionCode s =
     (if \<not> ok then Inl AuthzDBError
      else Inr (sort_key (\<lambda>g. - pg_CreatedAt g)
        (if trim_space permissionCode \<noteq> []
         then filter (\<lambda>g. pg_PermissionCode g = trim_space permissionCode) (adb_grants (sv_db s))
         else adb_grants (sv_db s))))"

definition CheckGrant :: "(nat \<Rightarrow> bool) \<Rightarrow> string \<Rightarrow> string \<Rightarrow> Service \<Rightarrow> authz_error + bool" where
  "CheckGrant dbok userID0 permissionCode0 s =
     (let permissionCode = trim_space permissionCode0; userID = trim_space userID0
      in if permissionCode = [] \<or> userID = [] then Inr False
         else if \<not> dbok 0 then Inl AuthzDBError
         else if list_ex (is_grant permissionCode PermissionSubjectUser userID) (adb_grants (sv_db s)) then Inr True
         else if \<not> dbok 1 then Inl AuthzDBError
         else
           let deptGrants = filter (\<lambda>g. pg_PermissionCode g = permissionCode \<and>
                 pg_SubjectType g = PermissionSubjectDepartment) (adb_grants (sv_db s))
           in if deptGrants = [] then Inr False
              else case sv_deptProvider s of
                None \<Rightarrow> Inr False
              | Some provider \<Rightarrow>
                  (case universalIDFor (dbok 2) userID s of
                     None \<Rightarrow> Inr False
                   | Some universalID \<Rightarrow>
                       if universalID = [] then Inr False
                       else case dp_GetUserDepartments provider universalID of
                         None \<Rightarrow> Inr False
                       | Some userDepts \<Rightarrow>
                           Inr (list_ex (\<lambda>g. pg_DeptPath g \<noteq> [] \<and>
                             list_ex (\<lambda>ud. pathHasPrefix (di_DeptPath ud) (pg_DeptPath g)) userDepts) deptGrants)))"

definition HasPermission :: "(nat \<Rightarrow> bool) \<Rightarrow> string \<Rightarrow> string \<Rightarrow> Service \<Rightarrow> authz_error + bool" where
  "HasPermission dbok userID resourceCode s =
     (case (case AllowedRoles (sv_menuRegistry s) resourceCode of
              None \<Rightarrow> AllowedRoles (sv_apiRegistry s) resourceCode | Some allowed \<Rightarrow> Some allowed) of
        None \<Rightarrow> Inr False
      | Some allowed \<Rightarrow>
          if allowed = [] then Inr True
          else case ro_GetExpandedRoles (sv_roleProvider s) userID of
            None \<Rightarrow> Inl RoleLookupFailed
          | Some roles \<Rightarrow> if hasAny roles allowed then Inr True else CheckGrant dbok userID resourceCode s)"

section \<open>The scope of the dashboard\<close>

record UserScope =
  us_UserID :: string
  us_UniversalID :: string
  us_DeptPaths :: "string list"
  us_VisibleDeptPrefixes :: "string list"
  us_AllAccess :: bool

definition appendUnique :: "string list \<Rightarrow> string \<Rightarrow> string list" where
  "appendUnique xs v = (if v \<in> set xs then xs else xs @ [v])"

definition hasAllAccess :: "bool \<Rightarrow> string \<Rightarrow> string list \<Rightarrow> Service \<Rightarrow> authz_error + bool" where
  "hasAllAccess ok userID expandedRoles s =
     (if list_ex (\<lambda>r. r = SystemRolePlatformAdmin \<or> r = SystemRoleBusinessAdmin) expandedRoles then Inr True
      else if \<not> ok then Inl AuthzDBError
      else Inr (list_ex (is_grant ScopeAllPermission PermissionSubjectUser userID) (adb_grants (sv_db s))))"

text \<open>The prefixes one grant of the scope opens for a user (the body of the loop of
  \<open>extraVisibleDeptPrefixes\<close>).\<close>

definition grant_prefix :: "string \<Rightarrow> string list \<Rightarrow> PermissionGrant \<Rightarrow> string list" where
  "grant_prefix userID userDeptPaths g =
     (if pg_DeptPath g = [] then []
      else if pg_SubjectType g = PermissionSubjectUser
      then (if pg_SubjectID g = userID then [pg_DeptPath g] else [])
      else if pg_SubjectType g = PermissionSubjectDepartment
      then (if list_ex (\<lambda>ud. pathHasPrefix ud (pg_DeptPath g)) userDeptPaths then [pg_DeptPath g] else [])
      else [])"

definition extraVisibleDeptPrefixes :: "bool \<Rightarrow> string \<Rightarrow> string list \<Rightarrow> Service \<Rightarrow> authz_error + string list" where
  "extraVisibleDeptPrefixes ok userID userDeptPaths s =
     (if \<not> ok then Inl AuthzDBError
      else Inr (concat (map (grant_prefix userID userDeptPaths)
             (filter (\<lambda>g. pg_PermissionCode g = ScopeDeptPermission) (adb_grants (sv_db s))))))"

definition add_paths :: "DepartmentInfo list \<Rightarrow> string list" where
  "add_paths userDepts = fold (\<lambda>d paths. if di_DeptPath d \<noteq> [] then appendUnique paths (di_DeptPath d) else paths) userDepts []"

definition ResolveUserScope :: "(nat \<Rightarrow> bool) \<Rightarrow> string \<Rightarrow> Service \<Rightarrow> authz_error + UserScope" where
  "ResolveUserScope dbok userID0 s =
     (let userID = trim_space userID0;
          scope = \<lparr>us_UserID = userID, us_UniversalID = [], us_DeptPaths = [], us_VisibleDeptPrefixes = [],
                   us_AllAccess = False\<rparr>
      in if userID = [] then Inr scope
         else
           let scope1 = (case universalIDFor (dbok 0) userID s of
                           None \<Rightarrow> scope | Some uid \<Rightarrow> scope\<lparr>us_UniversalID := uid\<rparr>)
           in case ro_GetExpandedRoles (sv_roleProvider s) userID of
             None \<Rightarrow> Inl RoleLookupFailed
           | Some expandedRoles \<Rightarrow>
               (case hasAllAccess (dbok 1) userID expandedRoles s of
                  Inl e \<Rightarrow> Inl e
                | Inr True \<Rightarrow> Inr (scope1\<lparr>us_AllAccess := True\<rparr>)
                | Inr False \<Rightarrow>
                    let paths = (case sv_deptProvider s of
                                   None \<Rightarrow> []
                                 | Some p \<Rightarrow> if us_UniversalID scope1 = [] then []
                                     else case dp_GetUserDepartments p (us_UniversalID scope1) of
                                       None \<Rightarrow> [] | Some userDepts \<Rightarrow> add_paths userDepts)
                    in case extraVisibleDeptPrefixes (dbok 2) userID paths s of
                      Inl e \<Rightarrow> Inl e
                    | Inr extra \<Rightarrow> Inr (scope1\<lparr>us_DeptPaths := paths,
                        us_VisibleDeptPrefixes := fold (\<lambda>p ps. appendUnique ps p) extra paths\<rparr>)))"

definition ownDeptPaths :: "bool \<Rightarrow> string \<Rightarrow> Service \<Rightarrow> string list" where
  "ownDeptPaths ok userID s =
     (case sv_deptProvider s of
        None \<Rightarrow> []
      | Some p \<Rightarrow>
          (case universalIDFor ok userID s of
             None \<Rightarrow> []
           | Some universalID \<Rightarrow>
               if universalID = [] then []
               else case dp_GetUserDepartments p universalID of None \<Rightarrow> [] | Some userDepts \<Rightarrow> add_paths userDepts))"

definition hasKanbanMenuAccess :: "(nat \<Rightarrow> bool) \<Rightarrow> string \<Rightarrow> string list \<Rightarrow> Service \<Rightarrow> authz_error + bool" where
  "hasKanbanMenuAccess dbok userID0 expandedRoles s =
     (let userID = trim_space userID0
      in if userID = [] then Inr False
         else case hasAllAccess (dbok 0) userID expandedRoles s of
           Inl e \<Rightarrow> Inl e
         | Inr True \<Rightarrow> Inr True
         | Inr False \<Rightarrow>
             if \<not> dbok 1 then Inl AuthzDBError
             else
               let grants = filter (\<lambda>g. pg_PermissionCode g = ScopeDeptPermission) (adb_grants (sv_db s));
                   direct = list_ex (\<lambda>g. pg_DeptPath g \<noteq> [] \<and> pg_SubjectType g = PermissionSubjectUser \<and> pg_SubjectID g = userID) grants;
                   hasDeptSubjectGrant = list_ex (\<lambda>g. pg_DeptPath g \<noteq> [] \<and> pg_SubjectType g = PermissionSubjectDepartment) grants
               in if direct then Inr True
                  else if \<not> hasDeptSubjectGrant then Inr False
                  else
                    let userDeptPaths = ownDeptPaths (dbok 2) userID s
                    in Inr (list_ex (\<lambda>g. pg_SubjectType g = PermissionSubjectDepartment \<and> pg_DeptPath g \<noteq> [] \<and>
                         list_ex (\<lambda>ud. pathHasPrefix ud (pg_DeptPath g)) userDeptPaths) grants))"

definition HasKanbanMenuAccess :: "(nat \<Rightarrow> bool) \<Rightarrow> string \<Rightarrow> Service \<Rightarrow> authz_error + bool" where
  "HasKanbanMenuAccess dbok userID s =
     (case ro_GetExpandedRoles (sv_roleProvider s) userID of
        None \<Rightarrow> Inl RoleLookupFailed | Some roles \<Rightarrow> hasKanbanMenuAccess dbok userID roles s)"

section \<open>The permission snapshot and the verification of tokens\<close>

definition visible :: "string list \<Rightarrow> ResourceRegistry \<Rightarrow> string list" where
  "visible expanded r = map fst (filter (\<lambda>(code, allowed). allowed = [] \<or> hasAny expanded allowed) r)"

definition GetUserPermissions :: "(nat \<Rightarrow> bool) \<Rightarrow> string \<Rightarrow> Service \<Rightarrow> authz_error + PermissionResult" where
  "GetUserPermissions dbok userID s =
     (case ro_ListRoles (sv_roleProvider s) userID of
        None \<Rightarrow> Inl RoleLookupFailed
      | Some roles \<Rightarrow>
          (case ro_GetExpandedRoles (sv_roleProvider s) userID of
             None \<Rightarrow> Inl RoleLookupFailed
           | Some expanded \<Rightarrow>
               let caps = (case sv_capabilityProvider s of None \<Rightarrow> [] | Some f \<Rightarrow> f roles);
                   menus = visible expanded (sv_menuRegistry s);
                   menus' = (if hasAny menus [KanbanMenuCode] then menus
                             else case hasKanbanMenuAccess dbok userID expanded s of
                               Inr True \<Rightarrow> menus @ [KanbanMenuCode] | _ \<Rightarrow> menus)
               in Inr \<lparr>pr_Menus = menus', pr_APIs = visible expanded (sv_apiRegistry s), pr_Capabilities = caps\<rparr>))"

record UserInfo =
  ui_Sub :: string
  ui_claims :: "(string \<times> string) list"

text \<open>The token parser and the optional subject resolver are arguments (a failed resolution is \<open>None\<close>).\<close>

definition VerifyTokenWithUser ::
  "(nat \<Rightarrow> bool) \<Rightarrow> (string \<Rightarrow> UserInfo option) \<Rightarrow> (UserInfo \<Rightarrow> string option) option \<Rightarrow> string \<Rightarrow> string \<Rightarrow> Service \<Rightarrow>
   (authz_error + bool \<times> PermissionResult option) \<times> string" where
  "VerifyTokenWithUser dbok ParseToken resolver token0 resourceCode s =
     (let token = trim_prefix token0 ''Bearer ''
      in if token = [] then (Inl EmptyToken, [])
         else case ParseToken token of
           None \<Rightarrow> (Inl ParseTokenFailed, [])
         | Some userInfo \<Rightarrow>
             let userID = (case resolver of
                             None \<Rightarrow> ui_Sub userInfo
                           | Some f \<Rightarrow> (case f userInfo of
                               Some resolvedID \<Rightarrow> if resolvedID \<noteq> [] then resolvedID else ui_Sub userInfo
                             | None \<Rightarrow> ui_Sub userInfo))
             in (case HasPermission dbok userID resourceCode s of
                   Inl e \<Rightarrow> (Inl e, userID)
                 | Inr False \<Rightarrow> (Inr (False, None), userID)
                 | Inr True \<Rightarrow>
                     (case GetUserPermissions (\<lambda>n. dbok (n + 3)) userID s of
                        Inl e \<Rightarrow> (Inl e, userID)
                      | Inr perms \<Rightarrow> (Inr (True, Some perms), userID))))"

definition VerifyToken ::
  "(nat \<Rightarrow> bool) \<Rightarrow> (string \<Rightarrow> UserInfo option) \<Rightarrow> (UserInfo \<Rightarrow> string option) option \<Rightarrow> string \<Rightarrow> string \<Rightarrow> Service \<Rightarrow>
   authz_error + bool \<times> PermissionResult option" where
  "VerifyToken dbok ParseToken resolver token resourceCode s =
     fst (VerifyTokenWithUser dbok ParseToken resolver token resourceCode s)"

datatype gate = Unauthorized | InternalError | Forbidden | Next

definition RequirePermission :: "(nat \<Rightarrow> bool) \<Rightarrow> string \<Rightarrow> string \<Rightarrow> Service \<Rightarrow> gate" where
  "RequirePermission dbok userID resourceCode s =
     (if userID = [] then Unauthorized
      else case HasPermission dbok userID resourceCode s of
        Inl _ \<Rightarrow> InternalError | Inr allowed \<Rightarrow> if allowed then Next else Forbidden)"

fun any_permission :: "(nat \<Rightarrow> bool) \<Rightarrow> string \<Rightarrow> string list \<Rightarrow> Service \<Rightarrow> gate" where
  "any_permission dbok userID [] s = Forbidden"
| "any_permission dbok userID (code # codes) s =
     (case HasPermission dbok userID code s of
        Inl _ \<Rightarrow> InternalError
      | Inr allowed \<Rightarrow> if allowed then Next else any_permission (\<lambda>n. dbok (n + 3)) userID codes s)"

definition RequireAnyPermission :: "(nat \<Rightarrow> bool) \<Rightarrow> string \<Rightarrow> string list \<Rightarrow> Service \<Rightarrow> gate" where
  "RequireAnyPermission dbok userID resourceCodes s =
     (if userID = [] then Unauthorized else any_permission dbok userID resourceCodes s)"

section \<open>Department paths\<close>

text \<open>
  A department path is at or below another one when its components start with the components of
  the other; comparing strings with a separator at the end decides exactly this.
\<close>

definition at_or_below :: "string \<Rightarrow> string \<Rightarrow> bool" where
  "at_or_below path root \<longleftrightarrow> path \<noteq> [] \<and> root \<noteq> [] \<and> prefix (split_on (CHR ''/'') root) (split_on (CHR ''/'') path)"

lemma split_on_sep: "split_on d (x @ d # y) = split_on d x @ split_on d y"
  by (induction x) (auto split: list.split)

lemma join_append: "xs \<noteq> [] \<Longrightarrow> ys \<noteq> [] \<Longrightarrow> join_with [d] (xs @ ys) = join_with [d] xs @ d # join_with [d] ys"
proof (induction xs)
  case (Cons x xs)
  then show ?case by (cases xs; cases ys) auto
qed simp

lemma pathHasPrefix_iff: "pathHasPrefix path root \<longleftrightarrow> at_or_below path root"
proof (cases "path = [] \<or> root = []")
  case False
  let ?s = "split_on (CHR ''/'')"
  have "prefix (?s root) (?s path) \<longleftrightarrow> path = root \<or> has_prefix path (root @ ''/'')"
  proof
    assume "prefix (?s root) (?s path)"
    then obtain zs where zs: "?s path = ?s root @ zs" by (auto simp: prefix_def)
    then have "path = join_with ''/'' (?s root @ zs)" by (metis join_split)
    then show "path = root \<or> has_prefix path (root @ ''/'')"
      by (cases "zs = []") (auto simp: join_append has_prefix_iff)
  next
    assume "path = root \<or> has_prefix path (root @ ''/'')"
    then show "prefix (?s root) (?s path)" by (auto simp: has_prefix_iff split_on_sep)
  qed
  with False show ?thesis by (auto simp: pathHasPrefix_def at_or_below_def)
qed (auto simp: pathHasPrefix_def at_or_below_def)

section \<open>Who is allowed what\<close>

text \<open>The departments of a user as far as they can be resolved.\<close>

definition depts_of :: "Service \<Rightarrow> string \<Rightarrow> DepartmentInfo list" where
  "depts_of s u =
     (case sv_deptProvider s of
        None \<Rightarrow> []
      | Some p \<Rightarrow> (case universalIDFor True u s of
          None \<Rightarrow> []
        | Some uid \<Rightarrow> if uid = [] then []
            else case dp_GetUserDepartments p uid of None \<Rightarrow> [] | Some ds \<Rightarrow> ds))"

definition granted :: "Service \<Rightarrow> string \<Rightarrow> string \<Rightarrow> bool" where
  "granted s u code \<longleftrightarrow> u \<noteq> [] \<and> code \<noteq> [] \<and>
     (\<exists>g \<in> set (adb_grants (sv_db s)). pg_PermissionCode g = code \<and>
        (pg_SubjectType g = PermissionSubjectUser \<and> pg_SubjectID g = u \<or>
         pg_SubjectType g = PermissionSubjectDepartment \<and>
           (\<exists>d \<in> set (depts_of s u). at_or_below (di_DeptPath d) (pg_DeptPath g))))"

definition allowed_on :: "Service \<Rightarrow> string \<Rightarrow> string list option" where
  "allowed_on s code =
     (case map_of (sv_menuRegistry s) code of None \<Rightarrow> map_of (sv_apiRegistry s) code | Some allowed \<Rightarrow> Some allowed)"

lemma list_ex_dept_grants:
  "list_ex (\<lambda>g. pg_DeptPath g \<noteq> [] \<and> list_ex (\<lambda>ud. pathHasPrefix (di_DeptPath ud) (pg_DeptPath g)) ds)
     (filter (\<lambda>g. pg_PermissionCode g = code \<and> pg_SubjectType g = PermissionSubjectDepartment) gs) \<longleftrightarrow>
   (\<exists>g \<in> set gs. pg_PermissionCode g = code \<and> pg_SubjectType g = PermissionSubjectDepartment \<and>
      (\<exists>d \<in> set ds. at_or_below (di_DeptPath d) (pg_DeptPath g)))"
  by (auto simp: list_ex_iff pathHasPrefix_iff at_or_below_def)

lemma subject_types_differ [simp]:
  "PermissionSubjectUser \<noteq> PermissionSubjectDepartment" "PermissionSubjectDepartment \<noteq> PermissionSubjectUser"
  by (simp_all add: PermissionSubjectUser_def PermissionSubjectDepartment_def)

lemma CheckGrant_granted: "CheckGrant always u code s = Inr (granted s (trim_space u) (trim_space code))"
proof -
  let ?u = "trim_space u" and ?c = "trim_space code" and ?gs = "adb_grants (sv_db s)"
  let ?dg = "filter (\<lambda>g. pg_PermissionCode g = ?c \<and> pg_SubjectType g = PermissionSubjectDepartment) ?gs"
  consider "?c = [] \<or> ?u = []" | "?c \<noteq> []" "?u \<noteq> []" "list_ex (is_grant ?c PermissionSubjectUser ?u) ?gs"
    | "?c \<noteq> []" "?u \<noteq> []" "\<not> list_ex (is_grant ?c PermissionSubjectUser ?u) ?gs" by blast
  then show ?thesis
  proof cases
    case 1
    then show ?thesis by (auto simp: CheckGrant_def granted_def)
  next
    case 2
    then have "granted s ?u ?c" by (auto simp: granted_def list_ex_iff is_grant_def)
    with 2 show ?thesis by (simp add: CheckGrant_def always_def)
  next
    case 3
    then have no: "\<not> (\<exists>g \<in> set ?gs. pg_PermissionCode g = ?c \<and> pg_SubjectType g = PermissionSubjectUser \<and> pg_SubjectID g = ?u)"
      by (auto simp: list_ex_iff is_grant_def)
    have g: "granted s ?u ?c \<longleftrightarrow> list_ex (\<lambda>g. pg_DeptPath g \<noteq> [] \<and>
        list_ex (\<lambda>ud. pathHasPrefix (di_DeptPath ud) (pg_DeptPath g)) (depts_of s ?u)) ?dg"
      unfolding list_ex_dept_grants using 3(1,2) no by (auto simp: granted_def)
    have nil: "\<not> list_ex (\<lambda>g. False) xs" for xs :: "PermissionGrant list" by (simp add: list_ex_iff)
    have "CheckGrant always u code s = Inr (list_ex (\<lambda>g. pg_DeptPath g \<noteq> [] \<and>
        list_ex (\<lambda>ud. pathHasPrefix (di_DeptPath ud) (pg_DeptPath g)) (depts_of s ?u)) ?dg)"
      using 3 nil unfolding CheckGrant_def depts_of_def
      by (simp add: Let_def always_def split: option.split)
    with g show ?thesis by simp
  qed
qed

text \<open>
  C10. The permission check decides exactly what the two mechanisms allow.  With a working database and role source,
  a user may use a resource when it is registered (as menu or API) and open to
  everyone, or one of the user's roles is allowed on it, or the resource was granted to the user or to a
  department at or above one of the user's departments, compared by path components.  Everything else, unknown resources included, is denied.
\<close>

theorem HasPermission_correct:
  assumes "ro_GetExpandedRoles (sv_roleProvider s) u = Some roles"
  shows "HasPermission always u code s = Inr (case allowed_on s code of
      None \<Rightarrow> False
    | Some allowed \<Rightarrow> allowed = [] \<or> set roles \<inter> set allowed \<noteq> {} \<or> granted s (trim_space u) (trim_space code))"
proof -
  have "hasAny roles allowed \<longleftrightarrow> set roles \<inter> set allowed \<noteq> {}" for allowed
    by (auto simp: hasAny_def list_ex_iff)
  then show ?thesis using assms
    by (auto simp: HasPermission_def allowed_on_def AllowedRoles_def CheckGrant_granted split: option.split)
qed

lemma CheckGrant_fail_closed: "CheckGrant dbok u code s = Inr True \<Longrightarrow> CheckGrant always u code s = Inr True"
  by (auto simp: CheckGrant_def Let_def always_def universalIDFor_def split: if_splits option.splits)

text \<open>
  C11. Failures never widen access: whatever statements of the database fail and whatever the
  role and department sources answer, a permission that is given is also given when the database
  works; so a failure can only deny.
\<close>

theorem HasPermission_fail_closed:
  assumes "HasPermission dbok u code s = Inr True"
  shows "HasPermission always u code s = Inr True"
  using assms by (auto simp: HasPermission_def CheckGrant_fail_closed split: if_splits option.splits)

section \<open>The scope and the menu entry\<close>

lemma set_appendUnique [simp]: "set (appendUnique xs v) = insert v (set xs)"
  by (auto simp: appendUnique_def)

lemma distinct_appendUnique [simp]: "distinct (appendUnique xs v) = distinct xs"
  by (auto simp: appendUnique_def)

lemma fold_appendUnique:
  "set (fold (\<lambda>p ps. appendUnique ps p) ys xs) = set xs \<union> set ys"
  "distinct (fold (\<lambda>p ps. appendUnique ps p) ys xs) = distinct xs"
  by (induction ys arbitrary: xs) auto

lemma add_paths_fold:
  "set (fold (\<lambda>d paths. if di_DeptPath d \<noteq> [] then appendUnique paths (di_DeptPath d) else paths) ds xs) =
     set xs \<union> (di_DeptPath ` set ds - {[]})"
  "distinct (fold (\<lambda>d paths. if di_DeptPath d \<noteq> [] then appendUnique paths (di_DeptPath d) else paths) ds xs) = distinct xs"
  by (induction ds arbitrary: xs) auto

lemma set_add_paths: "set (add_paths ds) = di_DeptPath ` set ds - {[]}" "distinct (add_paths ds)"
  by (simp_all add: add_paths_def add_paths_fold)

definition all_access :: "Service \<Rightarrow> string \<Rightarrow> string list \<Rightarrow> bool" where
  "all_access s u roles \<longleftrightarrow> SystemRolePlatformAdmin \<in> set roles \<or> SystemRoleBusinessAdmin \<in> set roles \<or>
     (\<exists>g \<in> set (adb_grants (sv_db s)). is_grant ScopeAllPermission PermissionSubjectUser u g)"

lemma hasAllAccess_iff: "hasAllAccess True u roles s = Inr (all_access s u roles)"
  by (auto simp: hasAllAccess_def all_access_def list_ex_iff)

text \<open>The extra subtrees a user may see, as a set.\<close>

definition extra_prefixes :: "Service \<Rightarrow> string \<Rightarrow> string set" where
  "extra_prefixes s u = {pg_DeptPath g |g. g \<in> set (adb_grants (sv_db s)) \<and> pg_PermissionCode g = ScopeDeptPermission \<and>
     pg_DeptPath g \<noteq> [] \<and>
     (pg_SubjectType g = PermissionSubjectUser \<and> pg_SubjectID g = u \<or>
      pg_SubjectType g = PermissionSubjectDepartment \<and>
        (\<exists>d \<in> set (depts_of s u). at_or_below (di_DeptPath d) (pg_DeptPath g)))}"

lemma ownDeptPaths_eq: "ownDeptPaths True u s = add_paths (depts_of s u)"
  by (auto simp: ownDeptPaths_def depts_of_def add_paths_def split: option.split)

lemma list_ex_own_paths:
  "list_ex (\<lambda>ud. pathHasPrefix ud p) (add_paths ds) \<longleftrightarrow> (\<exists>d \<in> set ds. at_or_below (di_DeptPath d) p)"
  by (auto simp: list_ex_iff pathHasPrefix_iff set_add_paths at_or_below_def)

lemma in_grant_prefix:
  "p \<in> set (grant_prefix u (add_paths (depts_of s u)) g) \<longleftrightarrow> p = pg_DeptPath g \<and> pg_DeptPath g \<noteq> [] \<and>
     (pg_SubjectType g = PermissionSubjectUser \<and> pg_SubjectID g = u \<or>
      pg_SubjectType g = PermissionSubjectDepartment \<and>
        (\<exists>d \<in> set (depts_of s u). at_or_below (di_DeptPath d) (pg_DeptPath g)))"
  by (auto simp: grant_prefix_def list_ex_own_paths)

lemma extra_set:
  assumes "extraVisibleDeptPrefixes True u (add_paths (depts_of s u)) s = Inr extra"
  shows "set extra = extra_prefixes s u"
proof (rule set_eqI)
  fix p
  have "p \<in> set extra \<longleftrightarrow> (\<exists>g \<in> set (adb_grants (sv_db s)). pg_PermissionCode g = ScopeDeptPermission \<and>
      p \<in> set (grant_prefix u (add_paths (depts_of s u)) g))"
    using assms by (auto simp: extraVisibleDeptPrefixes_def)
  then show "p \<in> set extra \<longleftrightarrow> p \<in> extra_prefixes s u"
    unfolding in_grant_prefix extra_prefixes_def mem_Collect_eq by blast
qed

text \<open>
  The dashboard scope of a user: everything for an administrator or a holder of the see-all grant, and
  otherwise exactly the user's own departments and the subtrees opened by a grant that applies to the user,
  each once.  Nothing is visible by default when the departments cannot be resolved.
\<close>

theorem ResolveUserScope_correct:
  assumes "trim_space u \<noteq> []" and "ro_GetExpandedRoles (sv_roleProvider s) (trim_space u) = Some roles"
  shows "\<exists>scope. ResolveUserScope always u s = Inr scope \<and> us_UserID scope = trim_space u \<and>
    us_AllAccess scope = all_access s (trim_space u) roles \<and>
    (if us_AllAccess scope then us_VisibleDeptPrefixes scope = []
     else set (us_VisibleDeptPrefixes scope) =
            (di_DeptPath ` set (depts_of s (trim_space u)) - {[]}) \<union> extra_prefixes s (trim_space u) \<and>
          distinct (us_VisibleDeptPrefixes scope))"
proof -
  let ?u = "trim_space u"
  define paths where "paths = (case sv_deptProvider s of None \<Rightarrow> []
      | Some p \<Rightarrow> (case universalIDFor True ?u s of None \<Rightarrow> [] | Some uid \<Rightarrow> if uid = [] then []
          else case dp_GetUserDepartments p uid of None \<Rightarrow> [] | Some userDepts \<Rightarrow> add_paths userDepts))"
  have p: "paths = add_paths (depts_of s ?u)"
    unfolding paths_def ownDeptPaths_eq[symmetric] ownDeptPaths_def ..
  obtain extra where e: "extraVisibleDeptPrefixes True ?u paths s = Inr extra"
    by (simp add: extraVisibleDeptPrefixes_def)
  note ex = extra_set[OF e[unfolded p]]
  show ?thesis
  proof (cases "all_access s ?u roles")
    case True
    then show ?thesis using assms
      by (simp add: ResolveUserScope_def Let_def always_def hasAllAccess_iff split: option.split)
  next
    case False
    have "ResolveUserScope always u s = Inr \<lparr>us_UserID = ?u,
        us_UniversalID = (case universalIDFor True ?u s of None \<Rightarrow> [] | Some uid \<Rightarrow> uid), us_DeptPaths = paths,
        us_VisibleDeptPrefixes = fold (\<lambda>p ps. appendUnique ps p) extra paths, us_AllAccess = False\<rparr>"
      using assms False e
      by (auto simp: ResolveUserScope_def Let_def always_def hasAllAccess_iff paths_def split: option.splits)
    then show ?thesis using False by (simp add: fold_appendUnique p set_add_paths ex)
  qed
qed

text \<open>
  The menu entry of the dashboard is shown to exactly those who see more than their own
  departments: the short cut that reads the grants once and asks for the departments only when it has to
  answers the same as the full resolution of the scope.
\<close>

theorem hasKanbanMenuAccess_correct:
  "hasKanbanMenuAccess always u roles s =
     Inr (trim_space u \<noteq> [] \<and> (all_access s (trim_space u) roles \<or> extra_prefixes s (trim_space u) \<noteq> {}))"
proof (cases "trim_space u = [] \<or> all_access s (trim_space u) roles")
  case True
  then show ?thesis by (auto simp: hasKanbanMenuAccess_def Let_def always_def hasAllAccess_iff)
next
  case False
  let ?gs = "filter (\<lambda>g. pg_PermissionCode g = ScopeDeptPermission) (adb_grants (sv_db s))"
  have ne: "extra_prefixes s (trim_space u) \<noteq> {} \<longleftrightarrow>
      (\<exists>g \<in> set ?gs. pg_DeptPath g \<noteq> [] \<and> pg_SubjectType g = PermissionSubjectUser \<and> pg_SubjectID g = trim_space u) \<or>
      (\<exists>g \<in> set ?gs. pg_SubjectType g = PermissionSubjectDepartment \<and> pg_DeptPath g \<noteq> [] \<and>
         (\<exists>d \<in> set (depts_of s (trim_space u)). at_or_below (di_DeptPath d) (pg_DeptPath g)))"
    by (auto simp: extra_prefixes_def)
  have "hasKanbanMenuAccess always u roles s = Inr
     ((\<exists>g \<in> set ?gs. pg_DeptPath g \<noteq> [] \<and> pg_SubjectType g = PermissionSubjectUser \<and> pg_SubjectID g = trim_space u) \<or>
      (\<exists>g \<in> set ?gs. pg_SubjectType g = PermissionSubjectDepartment \<and> pg_DeptPath g \<noteq> [] \<and>
         list_ex (\<lambda>ud. pathHasPrefix ud (pg_DeptPath g)) (ownDeptPaths True (trim_space u) s)))"
    using False by (auto simp: hasKanbanMenuAccess_def Let_def always_def hasAllAccess_iff list_ex_iff)
  then show ?thesis unfolding ownDeptPaths_eq list_ex_own_paths using ne False by simp
qed

section \<open>The registry follows the table\<close>

definition registry_loaded :: "Service \<Rightarrow> bool" where
  "registry_loaded s \<longleftrightarrow> sv_menuRegistry s = registry_of ''menu'' (adb_perms (sv_db s)) \<and>
     sv_apiRegistry s = registry_of ''api'' (adb_perms (sv_db s))"

definition codes_unique :: "Service \<Rightarrow> bool" where
  "codes_unique s \<longleftrightarrow> distinct (map rp_ResourceCode (adb_perms (sv_db s))) \<and>
     (\<forall>p \<in> set (adb_perms (sv_db s)). rp_ResourceType p \<in> {''menu'', ''api''})"

lemma registry_fold:
  "distinct (map rp_ResourceCode ps) \<Longrightarrow> (\<And>p. p \<in> set ps \<Longrightarrow> rp_ResourceCode p \<notin> dom (map_of m)) \<Longrightarrow>
   map_of (fold (\<lambda>p m. if rp_ResourceType p = kind then AList.update (rp_ResourceCode p) (rp_AllowedRoles p) m else m) ps m) c =
     (case find (\<lambda>p. rp_ResourceCode p = c) ps of
        None \<Rightarrow> map_of m c
      | Some p \<Rightarrow> if rp_ResourceType p = kind then Some (rp_AllowedRoles p) else map_of m c)"
proof (induction ps arbitrary: m)
  case (Cons p ps)
  let ?m = "if rp_ResourceType p = kind then AList.update (rp_ResourceCode p) (rp_AllowedRoles p) m else m"
  have fresh: "rp_ResourceCode q \<notin> dom (map_of ?m)" if "q \<in> set ps" for q
  proof -
    have "rp_ResourceCode q \<in> rp_ResourceCode ` set ps" using that by simp
    then have "rp_ResourceCode q \<noteq> rp_ResourceCode p" using Cons.prems(1) by auto
    then show ?thesis using Cons.prems(2)[of q] that by (simp add: map_of_update)
  qed
  have none: "find (\<lambda>q. rp_ResourceCode q = rp_ResourceCode p) ps = None"
    using Cons.prems(1) by (auto simp: find_None_iff) (metis image_eqI)
  have "distinct (map rp_ResourceCode ps)" using Cons.prems(1) by simp
  note IH = Cons.IH[OF this fresh]
  show ?case
  proof (cases "rp_ResourceCode p = c")
    case True
    then show ?thesis using IH none by (simp add: map_of_update)
  next
    case False
    then show ?thesis using IH by (simp add: map_of_update split: option.split)
  qed
qed simp

lemma registry_of_find:
  assumes "distinct (map rp_ResourceCode ps)"
  shows "map_of (registry_of kind ps) c = (case find (\<lambda>p. rp_ResourceCode p = c) ps of None \<Rightarrow> None
    | Some p \<Rightarrow> if rp_ResourceType p = kind then Some (rp_AllowedRoles p) else None)"
  unfolding registry_of_def by (subst registry_fold[OF assms]) (auto split: option.split)

lemma allowed_on_find:
  assumes "registry_loaded s" and "codes_unique s"
  shows "allowed_on s c = map_option rp_AllowedRoles (find (\<lambda>p. rp_ResourceCode p = c) (adb_perms (sv_db s)))"
proof (cases "find (\<lambda>p. rp_ResourceCode p = c) (adb_perms (sv_db s))")
  case (Some p)
  then have "rp_ResourceType p \<in> {''menu'', ''api''}" using assms(2) by (auto simp: codes_unique_def find_Some_iff)
  with Some assms show ?thesis
    by (auto simp: allowed_on_def registry_loaded_def codes_unique_def registry_of_find)
qed (use assms in \<open>simp add: allowed_on_def registry_loaded_def codes_unique_def registry_of_find\<close>)

lemma find_map_code:
  assumes "\<And>p. rp_ResourceCode (f p) = rp_ResourceCode p"
  shows "find (\<lambda>p. rp_ResourceCode p = c) (map f ps) = map_option f (find (\<lambda>p. rp_ResourceCode p = c) ps)"
  using assms by (induction ps) auto

text \<open>
  An administrator's change of a resource takes effect at once: when the update succeeds, the roles
  allowed on that resource are the new ones in the registry every check reads, those of all other
  resources are unchanged, and only known roles can be set; the registry again mirrors the table.
\<close>

theorem UpdateResourcePermission_effective:
  assumes "registry_loaded s" and "codes_unique s"
    and "UpdateResourcePermission dbok code roles s = (Inr (), s')"
  shows "allowed_on s' = (allowed_on s)(code \<mapsto> roles) \<and> list_all IsValidRole roles \<and>
    registry_loaded s' \<and> codes_unique s' \<and> adb_grants (sv_db s') = adb_grants (sv_db s)"
proof -
  let ?f = "\<lambda>p. if rp_ResourceCode p = code then p\<lparr>rp_AllowedRoles := roles\<rparr> else p"
  from assms(3) have v: "list_all IsValidRole roles"
    and k: "list_ex (\<lambda>p. rp_ResourceCode p = code) (adb_perms (sv_db s))"
    and l: "loadRegistry (dbok 1) (s\<lparr>sv_db := (sv_db s)\<lparr>adb_perms := map ?f (adb_perms (sv_db s))\<rparr>\<rparr>) = (Inr (), s')"
    by (auto simp: UpdateResourcePermission_def Let_def split: if_splits)
  from l have perms: "adb_perms (sv_db s') = map ?f (adb_perms (sv_db s))"
    and grants: "adb_grants (sv_db s') = adb_grants (sv_db s)" and loaded: "registry_loaded s'"
    by (auto simp: loadRegistry_def registry_loaded_def split: if_splits)
  have codes: "rp_ResourceCode \<circ> ?f = rp_ResourceCode" by (rule ext) simp
  have unique: "codes_unique s'"
    unfolding codes_unique_def perms map_map codes using assms(2) by (auto simp: codes_unique_def)
  have "allowed_on s' c = ((allowed_on s)(code \<mapsto> roles)) c" for c
  proof -
    let ?q = "find (\<lambda>p. rp_ResourceCode p = c) (adb_perms (sv_db s))"
    have q': "find (\<lambda>p. rp_ResourceCode p = c) (adb_perms (sv_db s')) = map_option ?f ?q"
      unfolding perms by (rule find_map_code) simp
    note A = allowed_on_find[OF assms(1,2), of c] allowed_on_find[OF loaded unique, of c, unfolded q']
    show ?thesis
    proof (cases ?q)
      case None
      then have "c \<noteq> code" using k by (auto simp: find_None_iff list_ex_iff)
      with None A show ?thesis by simp
    next
      case (Some p)
      then have "rp_ResourceCode p = c" by (auto simp: find_Some_iff)
      with Some A show ?thesis by simp
    qed
  qed
  with v loaded unique grants show ?thesis by blast
qed

section \<open>Granting and revoking\<close>

definition grants_unique :: "Service \<Rightarrow> bool" where
  "grants_unique s \<longleftrightarrow> distinct (map pg_ID (adb_grants (sv_db s))) \<and>
     distinct (map (\<lambda>g. (pg_PermissionCode g, pg_SubjectType g, pg_SubjectID g)) (adb_grants (sv_db s)))"

lemma grants_unique_triple:
  assumes "grants_unique s" "g \<in> set (adb_grants (sv_db s))" "h \<in> set (adb_grants (sv_db s))"
    "is_grant c k i g" "is_grant c k i h"
  shows "g = h"
proof -
  have "inj_on (\<lambda>g. (pg_PermissionCode g, pg_SubjectType g, pg_SubjectID g)) (set (adb_grants (sv_db s)))"
    using assms(1) by (simp add: grants_unique_def distinct_map)
  then show ?thesis using assms(2-5) by (auto simp: is_grant_def dest: inj_onD)
qed

lemma filter_same_id:
  assumes "distinct (map pg_ID gs)" and "g \<in> set gs" and "\<And>h. h \<in> set gs \<Longrightarrow> P h \<longleftrightarrow> h = g"
  shows "filter (\<lambda>h. pg_ID h \<noteq> pg_ID g) gs = filter (\<lambda>h. \<not> P h) gs"
proof (rule filter_cong[OF refl])
  fix h assume h: "h \<in> set gs"
  have "inj_on pg_ID (set gs)" using assms(1) by (simp add: distinct_map)
  from inj_on_eq_iff[OF this h assms(2)] assms(3)[OF h] show "(pg_ID h \<noteq> pg_ID g) = (\<not> P h)" by simp
qed

text \<open>
  Granting and revoking are inverse.  A successful grant to a user is seen by the next check,
  whatever spaces surround the arguments, and keeps the table unique per permission and subject; the
  grant it returns can be revoked by its identifier, and this leaves the grants exactly as they were without the
  user's grant, so that it is gone.
\<close>

theorem GrantPermission_roundtrip:
  assumes "grants_unique s" and "newID \<notin> pg_ID ` set (adb_grants (sv_db s))"
    and "GrantPermission dbok newID now code PermissionSubjectUser u path by_user s = (Inr g, s')"
    and "uuid_ok (trim_space (pg_ID g))"
  shows "CheckGrant always u code s' = Inr True \<and> grants_unique s' \<and>
    (\<exists>s''. RevokePermission uuid_ok True (pg_ID g) s' = (Inr (), s'') \<and>
       adb_grants (sv_db s'') =
         filter (\<lambda>h. \<not> is_grant (trim_space code) PermissionSubjectUser (trim_space u) h) (adb_grants (sv_db s)))"
proof -
  let ?c = "trim_space code" and ?u = "trim_space u" and ?gs = "adb_grants (sv_db s)"
  let ?is = "is_grant ?c PermissionSubjectUser ?u"
  from assms(3) have ne: "?c \<noteq> []" "?u \<noteq> []" by (auto simp: GrantPermission_def Let_def split: if_splits)
  have revoke: "\<exists>s''. RevokePermission uuid_ok True (pg_ID g) s' = (Inr (), s'') \<and>
      adb_grants (sv_db s'') = filter (\<lambda>h. pg_ID h \<noteq> pg_ID g) (adb_grants (sv_db s'))"
    if "g \<in> set (adb_grants (sv_db s'))"
    using assms(4) that by (auto simp: RevokePermission_def list_ex_iff)
  have check: "CheckGrant always u code s' = Inr True" if "g \<in> set (adb_grants (sv_db s'))" "?is g"
    using that ne by (auto simp: CheckGrant_granted granted_def is_grant_def)
  show ?thesis
  proof (cases "find ?is ?gs")
    case None
    define n where "n = \<lparr>pg_ID = newID, pg_PermissionCode = ?c, pg_SubjectType = PermissionSubjectUser,
        pg_SubjectID = ?u, pg_DeptPath = path, pg_GrantedBy = by_user, pg_CreatedAt = now\<rparr>"
    have no: "\<forall>h \<in> set ?gs. \<not> ?is h" using None by (auto simp: find_None_iff)
    from None assms(3) have g: "g = n" and s': "adb_grants (sv_db s') = ?gs @ [n]"
      by (auto simp: GrantPermission_def Let_def n_def split: if_splits)
    have n: "pg_ID n = newID" "?is n" by (simp_all add: n_def is_grant_def)
    have "(?c, PermissionSubjectUser, ?u) \<notin> (\<lambda>g. (pg_PermissionCode g, pg_SubjectType g, pg_SubjectID g)) ` set ?gs"
    proof
      assume "(?c, PermissionSubjectUser, ?u) \<in> (\<lambda>g. (pg_PermissionCode g, pg_SubjectType g, pg_SubjectID g)) ` set ?gs"
      then obtain h where "h \<in> set ?gs" "pg_PermissionCode h = ?c" "pg_SubjectType h = PermissionSubjectUser"
        "pg_SubjectID h = ?u" by auto
      with no show False by (simp add: is_grant_def)
    qed
    then have "grants_unique s'" using assms(1,2) by (simp add: grants_unique_def s' n_def)
    moreover have "filter (\<lambda>h. pg_ID h \<noteq> pg_ID g) (adb_grants (sv_db s')) = filter (\<lambda>h. \<not> ?is h) ?gs"
    proof -
      have "filter (\<lambda>h. \<not> ?is h) ?gs = ?gs" using no by (simp add: filter_id_conv)
      moreover have "filter (\<lambda>h. pg_ID h \<noteq> newID) ?gs = ?gs" using assms(2) by (auto simp: filter_id_conv)
      ultimately show ?thesis by (simp add: s' g n)
    qed
    ultimately show ?thesis using revoke check n by (auto simp: s' g)
  next
    case (Some e)
    then have e: "e \<in> set ?gs" "?is e" by (auto simp: find_Some_iff)
    define upd where "upd = (\<lambda>h :: PermissionGrant. if pg_ID h = pg_ID e then h\<lparr>pg_DeptPath := pg_DeptPath g\<rparr> else h)"
    have keep: "pg_ID (upd h) = pg_ID h" "is_grant c k i (upd h) = is_grant c k i h"
      "(pg_PermissionCode (upd h), pg_SubjectType (upd h), pg_SubjectID (upd h)) =
         (pg_PermissionCode h, pg_SubjectType h, pg_SubjectID h)" for h c k i
      by (simp_all add: upd_def is_grant_def)
    have only: "?is h \<longleftrightarrow> h = e" if "h \<in> set ?gs" for h
      using grants_unique_triple[OF assms(1) that e(1) _ e(2)] e(2) by blast
    have inj: "inj_on pg_ID (set ?gs)" using assms(1) by (simp add: grants_unique_def distinct_map)
    from Some assms(3) have g: "g = upd e \<and> adb_grants (sv_db s') = map upd ?gs"
    proof (cases "path \<noteq> [] \<and> path \<noteq> pg_DeptPath e")
      case True
      with Some assms(3) show ?thesis
        by (auto simp: GrantPermission_def Let_def upd_def split: if_splits)
    next
      case False
      with Some assms(3) have "g = e" "s' = s" by (auto simp: GrantPermission_def Let_def split: if_splits)
      moreover have "map upd ?gs = ?gs"
        using inj_on_eq_iff[OF inj _ e(1)] \<open>g = e\<close> by (intro map_idI) (auto simp: upd_def)
      ultimately show ?thesis by (simp add: upd_def)
    qed
    have "grants_unique s'" using assms(1) by (simp add: grants_unique_def g comp_def keep)
    moreover have "filter (\<lambda>h. pg_ID h \<noteq> pg_ID g) (adb_grants (sv_db s')) = filter (\<lambda>h. \<not> ?is h) ?gs"
    proof -
      have "filter (\<lambda>h. pg_ID h \<noteq> pg_ID e) (map upd gs) = filter (\<lambda>h. pg_ID h \<noteq> pg_ID e) gs" for gs
        by (induction gs) (auto simp: upd_def)
      then show ?thesis
        using filter_same_id[where P = ?is, OF _ e(1) only] assms(1) by (simp add: g keep grants_unique_def)
    qed
    ultimately show ?thesis using revoke check e by (auto simp: g keep)
  qed
qed

section \<open>The source of roles\<close>

text \<open>What the service relies on from its role source: the expanded roles are the expansion of the listed ones.\<close>

locale role_source =
  fixes provider :: RoleProvider
  assumes expanded: "ro_ListRoles provider u = Some rs \<Longrightarrow> ro_GetExpandedRoles provider u = Some es \<Longrightarrow>
    set es = set (ExpandRoles rs)"
begin

lemma admin_all_access:
  assumes "ro_ListRoles provider u = Some rs" and "ro_GetExpandedRoles provider u = Some es"
    and "SystemRolePlatformAdmin \<in> set rs \<or> SystemRoleBusinessAdmin \<in> set rs"
  shows "hasAllAccess ok v es s = Inr True"
proof -
  have "SystemRoleBusinessAdmin \<in> set es" using expanded[OF assms(1,2)] assms(3) by (auto simp: ExpandRoles_eq)
  then show ?thesis by (auto simp: hasAllAccess_def list_ex_iff)
qed

lemma platform_admin_permission:
  assumes "ro_ListRoles provider u = Some rs" and "ro_GetExpandedRoles provider u = Some es"
    and "SystemRolePlatformAdmin \<in> set rs" and "sv_roleProvider s = provider"
    and "allowed_on s code = Some allowed" and "list_all IsValidRole allowed"
  shows "HasPermission dbok u code s = Inr True"
proof -
  have "set es = {SystemRolePlatformAdmin, SystemRoleBusinessAdmin}"
    using expanded[OF assms(1,2)] assms(3) by (auto simp: ExpandRoles_eq)
  then have "allowed = [] \<or> hasAny es allowed"
    using assms(6) by (cases allowed) (auto simp: hasAny_def IsValidRole_def)
  then show ?thesis using assms(2,4,5)
    by (auto simp: HasPermission_def allowed_on_def AllowedRoles_def split: option.splits)
qed

end

definition SystemRole_provider :: "(nat \<Rightarrow> bool) \<Rightarrow> role_db \<Rightarrow> RoleProvider" where
  "SystemRole_provider dbok db =
     \<lparr>ro_ListRoles = (\<lambda>u. case ListRoles dbok u db of Inl _ \<Rightarrow> None | Inr rs \<Rightarrow> Some rs),
      ro_GetExpandedRoles = (\<lambda>u. case GetExpandedRoles dbok u db of Inl _ \<Rightarrow> None | Inr rs \<Rightarrow> Some rs)\<rparr>"

interpretation system_roles: role_source "SystemRole_provider dbok db" for dbok db
  by unfold_locales (auto simp: SystemRole_provider_def GetExpandedRoles_def split: sum.splits)

lemma SystemRole_provider_ok:
  "ro_ListRoles (SystemRole_provider always db) u = Some (role_list db u)"
  "ro_GetExpandedRoles (SystemRole_provider always db) u = Some (ExpandRoles (role_list db u))"
  by (simp_all add: SystemRole_provider_def GetExpandedRoles_def ListRoles_ok always_def)

text \<open>
  Platform administrators are never locked out: over the table of system roles, a user with an active
  platform administrator role passes the check of every registered resource, whatever roles the
  resource asks for (all of them known ones), even when the grants cannot be read; and sees every
  department.
\<close>

theorem platform_admin_never_locked_out:
  assumes "holds db u SystemRolePlatformAdmin" and "sv_roleProvider s = SystemRole_provider always db"
    and "allowed_on s code = Some allowed" and "list_all IsValidRole allowed"
  shows "HasPermission dbok u code s = Inr True \<and>
    hasAllAccess ok u (ExpandRoles (role_list db u)) s = Inr True"
proof -
  have r: "SystemRolePlatformAdmin \<in> set (role_list db u)" using assms(1) by (simp add: role_list_holds)
  show ?thesis
    using system_roles.platform_admin_permission[OF SystemRole_provider_ok r assms(2-4)]
      system_roles.admin_all_access[OF SystemRole_provider_ok, of db u ok u s] r by blast
qed

section \<open>The snapshot\<close>

lemma in_visible:
  assumes "distinct (map fst r)"
  shows "c \<in> set (visible expanded r) \<longleftrightarrow>
    (\<exists>allowed. map_of r c = Some allowed \<and> (allowed = [] \<or> hasAny expanded allowed))"
  using assms by (auto simp: visible_def image_iff)

lemma distinct_registry_of: "distinct (map fst (registry_of kind ps))"
proof -
  have "distinct (map fst m) \<Longrightarrow> distinct (map fst (fold (\<lambda>p m. if rp_ResourceType p = kind
      then AList.update (rp_ResourceCode p) (rp_AllowedRoles p) m else m) ps m))" for m
    by (induction ps arbitrary: m) auto
  then show ?thesis by (simp add: registry_of_def)
qed

text \<open>
  The permission snapshot shown to a client never promises too much: every API in it and every menu but the
  dashboard entry passes the permission check, and the dashboard entry is there exactly when its
  role or a grant of the scope gives it.
\<close>

theorem GetUserPermissions_sound:
  assumes "registry_loaded s" and "codes_unique s" and "GetUserPermissions always u s = Inr res"
  shows "(\<forall>c \<in> set (pr_Menus res) \<union> set (pr_APIs res). c \<noteq> KanbanMenuCode \<longrightarrow> HasPermission dbok u c s = Inr True) \<and>
    (\<exists>roles. ro_GetExpandedRoles (sv_roleProvider s) u = Some roles \<and>
       (KanbanMenuCode \<in> set (pr_Menus res) \<longleftrightarrow>
          KanbanMenuCode \<in> set (visible roles (sv_menuRegistry s)) \<or> hasKanbanMenuAccess always u roles s = Inr True))"
proof -
  have d: "distinct (map fst (sv_menuRegistry s))" "distinct (map fst (sv_apiRegistry s))"
    using assms(1) by (simp_all add: registry_loaded_def distinct_registry_of)
  from assms(3) obtain roles where roles: "ro_GetExpandedRoles (sv_roleProvider s) u = Some roles"
    and apis: "pr_APIs res = visible roles (sv_apiRegistry s)"
    and menus: "pr_Menus res = (if hasAny (visible roles (sv_menuRegistry s)) [KanbanMenuCode]
        then visible roles (sv_menuRegistry s)
        else case hasKanbanMenuAccess always u roles s of
          Inr True \<Rightarrow> visible roles (sv_menuRegistry s) @ [KanbanMenuCode] | _ \<Rightarrow> visible roles (sv_menuRegistry s))"
    by (auto simp: GetUserPermissions_def Let_def split: option.splits)
  have ok: "HasPermission dbok u c s = Inr True"
    if "allowed_on s c = Some allowed" "allowed = [] \<or> hasAny roles allowed" for c allowed
    using that roles by (auto simp: HasPermission_def allowed_on_def AllowedRoles_def split: option.splits)
  have menu: "HasPermission dbok u c s = Inr True" if "c \<in> set (visible roles (sv_menuRegistry s))" for c
    using that ok by (auto simp: in_visible[OF d(1)] allowed_on_def)
  have api: "HasPermission dbok u c s = Inr True" if "c \<in> set (visible roles (sv_apiRegistry s))" for c
  proof -
    from that obtain allowed where a: "map_of (sv_apiRegistry s) c = Some allowed" "allowed = [] \<or> hasAny roles allowed"
      by (auto simp: in_visible[OF d(2)])
    then have "map_of (sv_menuRegistry s) c = None"
      using assms(1,2) by (auto simp: registry_loaded_def codes_unique_def registry_of_find split: option.splits if_splits)
    then show ?thesis using ok a by (simp add: allowed_on_def)
  qed
  have "set (pr_Menus res) \<subseteq> insert KanbanMenuCode (set (visible roles (sv_menuRegistry s)))"
    by (auto simp: menus split: sum.splits bool.splits if_splits)
  then have 1: "\<forall>c \<in> set (pr_Menus res) \<union> set (pr_APIs res). c \<noteq> KanbanMenuCode \<longrightarrow> HasPermission dbok u c s = Inr True"
    using menu api by (auto simp: apis)
  have "KanbanMenuCode \<in> set (pr_Menus res) \<longleftrightarrow>
      KanbanMenuCode \<in> set (visible roles (sv_menuRegistry s)) \<or> hasKanbanMenuAccess always u roles s = Inr True"
    by (auto simp: menus hasAny_def split: sum.splits bool.splits if_splits)
  with 1 roles show ?thesis by blast
qed

section \<open>An example\<close>

text \<open>A member of \<^verbatim>\<open>/A/B/C\<close>, a menu granted to the department \<^verbatim>\<open>/A/B\<close> and a subtree opened to the same
  department; the platform administrators are those of \<open>two_admins\<close>.\<close>

definition dept_example :: DepartmentProvider where
  "dept_example = \<lparr>dp_GetUserDepartments = (\<lambda>i. if i = ''uid'' then Some [\<lparr>di_DeptID = ''d'', di_DeptPath = ''/A/B/C''\<rparr>] else None),
     dp_GetDepartmentPath = (\<lambda>_. None)\<rparr>"

definition grant_example :: "string \<Rightarrow> string \<Rightarrow> PermissionGrant" where
  "grant_example i code = \<lparr>pg_ID = i, pg_PermissionCode = code, pg_SubjectType = PermissionSubjectDepartment,
     pg_SubjectID = ''dept'', pg_DeptPath = ''/A/B'', pg_GrantedBy = ''a'', pg_CreatedAt = 0\<rparr>"

definition az_example :: Service where
  "az_example = snd (loadRegistry True \<lparr>
     sv_db = \<lparr>adb_perms = [\<lparr>rp_ResourceCode = ''reports'', rp_ResourceType = ''menu'', rp_AllowedRoles = [SystemRoleBusinessAdmin]\<rparr>,
                \<lparr>rp_ResourceCode = ''api.open'', rp_ResourceType = ''api'', rp_AllowedRoles = []\<rparr>],
             adb_grants = [grant_example ''g1'' ''reports'', grant_example ''g2'' ScopeDeptPermission],
             adb_universalIDs = [(''u'', Some ''uid'')]\<rparr>,
     sv_roleProvider = SystemRole_provider always two_admins, sv_capabilityProvider = None,
     sv_deptProvider = Some dept_example, sv_menuRegistry = [], sv_apiRegistry = []\<rparr>)"

lemma az_example_simps:
  "sv_roleProvider az_example = SystemRole_provider always two_admins"
  "sv_menuRegistry az_example = [(''reports'', [SystemRoleBusinessAdmin])]" "sv_apiRegistry az_example = [(''api.open'', [])]"
  "adb_grants (sv_db az_example) = [grant_example ''g1'' ''reports'', grant_example ''g2'' ScopeDeptPermission]"
  "depts_of az_example ''u'' = [\<lparr>di_DeptID = ''d'', di_DeptPath = ''/A/B/C''\<rparr>]"
  "role_list two_admins ''u'' = []" "holds two_admins ''a'' SystemRolePlatformAdmin"
  by (simp_all add: az_example_def loadRegistry_def registry_of_def depts_of_def universalIDFor_def dept_example_def
      role_list_def role_eval)

lemma az_example_loaded: "registry_loaded az_example" "codes_unique az_example" "grants_unique az_example"
  by (simp_all add: az_example_def loadRegistry_def registry_loaded_def codes_unique_def grants_unique_def
      grant_example_def ScopeDeptPermission_def)

lemma example_path: "at_or_below ''/A/B/C'' ''/A/B''"
  by (simp add: at_or_below_def)

lemma example_extra: "extra_prefixes az_example ''u'' = {''/A/B''}"
proof
  show "extra_prefixes az_example ''u'' \<subseteq> {''/A/B''}"
    by (auto simp: extra_prefixes_def az_example_simps grant_example_def)
  have "grant_example ''g2'' ScopeDeptPermission \<in> set (adb_grants (sv_db az_example))" by (simp add: az_example_simps)
  then show "{''/A/B''} \<subseteq> extra_prefixes az_example ''u''"
    unfolding extra_prefixes_def using example_path
    by (auto simp: az_example_simps(5) grant_example_def intro!: exI[of _ "grant_example ''g2'' ScopeDeptPermission"])
qed

lemma trim_example [simp]: "trim_space ''u'' = ''u''" "trim_space ''reports'' = ''reports''" "trim_space '' u '' = ''u''"
  "trim_space ''n'' = ''n''"
  by code_simp+

theorem HasPermission_correct_witness: "HasPermission always ''u'' ''reports'' az_example = Inr True"
  using HasPermission_correct[of az_example "''u''" "[]" "''reports''"] example_path
  by (simp add: az_example_simps SystemRole_provider_ok ExpandRoles_eq allowed_on_def granted_def grant_example_def)

theorem HasPermission_fail_closed_witness:
  "let broken = (\<lambda>n. n = 0) in HasPermission broken ''a'' ''reports'' az_example = Inr True \<and>
     HasPermission always ''a'' ''reports'' az_example = Inr True \<and>
     HasPermission broken ''u'' ''reports'' az_example = Inl AuthzDBError"
proof -
  have a: "HasPermission (\<lambda>n. n = 0) ''a'' ''reports'' az_example = Inr True"
    by (simp add: HasPermission_def AllowedRoles_def az_example_simps SystemRole_provider_ok ExpandRoles_eq
        role_list_holds hasAny_def)
  moreover have "HasPermission (\<lambda>n. n = 0) ''u'' ''reports'' az_example = Inl AuthzDBError"
    by (simp add: HasPermission_def AllowedRoles_def az_example_simps SystemRole_provider_ok ExpandRoles_eq
        hasAny_def CheckGrant_def is_grant_def grant_example_def)
  ultimately show ?thesis using HasPermission_fail_closed[OF a] by (simp add: Let_def)
qed

theorem ResolveUserScope_correct_witness:
  "\<exists>scope. ResolveUserScope always '' u '' az_example = Inr scope \<and> \<not> us_AllAccess scope \<and>
     set (us_VisibleDeptPrefixes scope) = {''/A/B/C'', ''/A/B''}"
proof -
  have "\<not> all_access az_example ''u'' []"
    by (simp add: all_access_def az_example_simps is_grant_def grant_example_def)
  then show ?thesis
    using ResolveUserScope_correct[of "'' u ''" az_example "[]"]
    by (auto simp: az_example_simps SystemRole_provider_ok ExpandRoles_eq example_extra)
qed

theorem hasKanbanMenuAccess_correct_witness: "hasKanbanMenuAccess always '' u '' [] az_example = Inr True"
  using hasKanbanMenuAccess_correct[of "'' u ''" "[]" az_example] by (simp add: example_extra)

theorem UpdateResourcePermission_effective_witness:
  "let s' = snd (UpdateResourcePermission always ''reports'' [SystemRolePlatformAdmin] az_example)
   in registry_loaded az_example \<and> allowed_on s' ''reports'' = Some [SystemRolePlatformAdmin] \<and>
      allowed_on s' ''api.open'' = Some []"
proof -
  have "UpdateResourcePermission always ''reports'' [SystemRolePlatformAdmin] az_example =
      (Inr (), snd (UpdateResourcePermission always ''reports'' [SystemRolePlatformAdmin] az_example))"
    by (simp add: UpdateResourcePermission_def IsValidRole_def always_def az_example_def loadRegistry_def Let_def)
  from UpdateResourcePermission_effective[OF az_example_loaded(1,2) this] az_example_loaded(1)
  show ?thesis by (simp add: Let_def allowed_on_def[of az_example] az_example_simps)
qed

theorem GrantPermission_roundtrip_witness:
  "let (res, s') = GrantPermission always ''n'' 1 ''reports'' PermissionSubjectUser '' u '' [] ''a'' az_example
   in CheckGrant always ''u'' ''reports'' s' = Inr True \<and>
      adb_grants (sv_db (snd (RevokePermission (\<lambda>_. True) True ''n'' s'))) = adb_grants (sv_db az_example)"
proof -
  obtain g s' where r: "GrantPermission always ''n'' 1 ''reports'' PermissionSubjectUser '' u '' [] ''a'' az_example = (Inr g, s')"
      "pg_ID g = ''n''"
    by (auto simp: GrantPermission_def Let_def always_def az_example_simps is_grant_def grant_example_def)
  have f: "''n'' \<notin> pg_ID ` set (adb_grants (sv_db az_example))" by (simp add: az_example_simps grant_example_def)
  from GrantPermission_roundtrip[OF az_example_loaded(3) f r(1), where uuid_ok = "\<lambda>_. True"] r
  show ?thesis by (auto simp: CheckGrant_granted az_example_simps is_grant_def grant_example_def)
qed

theorem platform_admin_never_locked_out_witness:
  "HasPermission (\<lambda>_. False) ''a'' ''reports'' az_example = Inr True"
  using platform_admin_never_locked_out[of two_admins "''a''" az_example "''reports''" "[SystemRoleBusinessAdmin]" "\<lambda>_. False"]
  by (simp add: az_example_simps allowed_on_def IsValidRole_def)

theorem GetUserPermissions_sound_witness:
  "\<exists>res. GetUserPermissions always ''u'' az_example = Inr res \<and> pr_APIs res = [''api.open''] \<and>
     HasPermission (\<lambda>_. False) ''u'' ''api.open'' az_example = Inr True \<and> KanbanMenuCode \<in> set (pr_Menus res)"
proof -
  obtain res where r: "GetUserPermissions always ''u'' az_example = Inr res"
    by (simp add: GetUserPermissions_def az_example_simps SystemRole_provider_ok Let_def)
  then have a: "pr_APIs res = [''api.open'']"
    by (auto simp: GetUserPermissions_def az_example_simps SystemRole_provider_ok Let_def visible_def)
  have k: "hasKanbanMenuAccess always ''u'' [] az_example = Inr True"
    using example_path by (auto simp: hasKanbanMenuAccess_def Let_def always_def hasAllAccess_def list_ex_iff
        az_example_simps is_grant_def grant_example_def ScopeDeptPermission_def ownDeptPaths_eq pathHasPrefix_iff
        set_add_paths)
  from GetUserPermissions_sound[OF az_example_loaded(1,2) r, where dbok = "\<lambda>_. False"] r a k show ?thesis
    by (auto simp: az_example_simps SystemRole_provider_ok ExpandRoles_eq KanbanMenuCode_def)
qed

end
