(* ===== verification/Db_Query.thy ===== *)
theory Db_Query
  imports Prelude "HOL-Library.List_Lexorder" "HOL-Library.Char_ord"
begin

text \<open>
  Queries of one row, as the services that keep their state in a table use it.  A table is the list of its rows;
  \<^verbatim>\<open>First\<close> of gorm orders the matches by their primary key, a string, and returns the first one.
\<close>

text \<open>\<^verbatim>\<open>First\<close>: the match with the smallest key.\<close>

definition First :: "('a \<Rightarrow> string) \<Rightarrow> ('a \<Rightarrow> bool) \<Rightarrow> 'a list \<Rightarrow> 'a option" where
  "First key P rows = find P (sort_key key rows)"

lemma First_SomeD: "First key P rows = Some r \<Longrightarrow> r \<in> set rows \<and> P r"
  unfolding First_def by (auto dest: find_SomeD)

lemma First_None: "First key P rows = None \<longleftrightarrow> (\<forall>r \<in> set rows. \<not> P r)"
  unfolding First_def by (simp add: find_None_iff) blast

lemma First_unique:
  assumes "r \<in> set rows" "P r" "\<forall>r' \<in> set rows. P r' \<longrightarrow> r' = r"
  shows "First key P rows = Some r"
proof (cases "First key P rows")
  case None
  then show ?thesis using assms(1,2) unfolding First_None by blast
next
  case (Some r')
  then show ?thesis using First_SomeD[OF Some] assms(3) by simp
qed

text \<open>The first match of a sorted list is the least one.\<close>

lemma find_split: "find P xs = Some j \<Longrightarrow> \<exists>as bs. xs = as @ j # bs \<and> (\<forall>x \<in> set as. \<not> P x)"
proof (induction xs)
  case (Cons x xs)
  show ?case
  proof (cases "P x")
    case True
    then show ?thesis using Cons.prems by (intro exI[of _ "[]"] exI[of _ xs]) simp
  next
    case False
    then obtain as bs where "xs = as @ j # bs" "\<forall>x \<in> set as. \<not> P x" using Cons by auto
    then show ?thesis using False by (intro exI[of _ "x # as"] exI[of _ bs]) simp
  qed
qed simp

lemma sorted_find_least:
  assumes "find P (sort_key f (sort_key g js)) = Some j" "k \<in> set js" "P k"
  shows "f j < f k \<or> f j = f k \<and> g j \<le> g k"
proof -
  let ?xs = "sort_key f (sort_key g js)"
  obtain as bs where xs: "?xs = as @ j # bs" and as: "\<forall>x \<in> set as. \<not> P x" using find_split[OF assms(1)] by blast
  have "k \<in> set ?xs" using assms(2) by simp
  then have k: "k \<in> set (j # bs)" unfolding xs using as assms(3) by auto
  have "sorted (map f (as @ j # bs))" by (metis sorted_sort_key xs)
  then have le: "f j \<le> f k" using k by (auto simp: sorted_append)
  have "filter (\<lambda>y. f y = f j) (as @ j # bs) = filter (\<lambda>y. f y = f j) (sort_key g js)" by (metis sort_key_stable xs)
  then have "sorted (map g (filter (\<lambda>y. f y = f j) (as @ j # bs)))" by (simp only:) (simp add: sorted_filter)
  then have "sorted (map g (j # filter (\<lambda>y. f y = f j) bs))" by (simp add: sorted_append)
  then have "f j = f k \<Longrightarrow> g j \<le> g k" using k by auto
  then show ?thesis using le by auto
qed

lemma find_least:
  assumes "find P (sort_key f rows) = Some r" "q \<in> set rows" "P q"
  shows "f r \<le> f q"
proof -
  obtain as bs where xs: "sort_key f rows = as @ r # bs" and as: "\<forall>x \<in> set as. \<not> P x" using find_split[OF assms(1)] by blast
  have "q \<in> set (sort_key f rows)" using assms(2) by simp
  then have "q \<in> set (r # bs)" unfolding xs using as assms(3) by auto
  moreover have "sorted (map f (as @ r # bs))" by (metis sorted_sort_key xs)
  ultimately show ?thesis by (auto simp: sorted_append)
qed

end
