(* ===== verification/Project_Service.thy ===== *)
theory Project_Service
  imports Db_Query
begin

text \<open>
  Projects, their members, invitations and bound repositories
  (\<^verbatim>\<open>server/internal/project/service.go\<close>).

  The four tables are lists of rows.  A soft-deleted row stays in its table and still counts for the
  unique indexes, which cover all rows.  \<^verbatim>\<open>First\<close> takes the matching row with the smallest primary key.
  Argument \<open>dbok\<close> says which statement of an operation the database executes, in the order of the source;
  a failed statement or a violated index changes nothing.  New identifiers, the clock and
  \<^verbatim>\<open>url.Parse\<close> are arguments.  An operation is followed by the next one; the notifications that
  \<^verbatim>\<open>CreateInvitation\<close> sends do not touch the tables and are left out.
\<close>

section \<open>Tables\<close>

definition RoleAdmin :: string where "RoleAdmin = ''admin''"

definition RoleMember :: string where "RoleMember = ''member''"

definition InvitationPending :: string where "InvitationPending = ''pending''"

definition InvitationAccepted :: string where "InvitationAccepted = ''accepted''"

definition InvitationRejected :: string where "InvitationRejected = ''rejected''"

definition InvitationCancelled :: string where "InvitationCancelled = ''cancelled''"

lemmas invitation_status_defs = InvitationPending_def InvitationAccepted_def InvitationRejected_def InvitationCancelled_def

datatype project_error =
    ErrNameRequired
  | ErrProjectNotFound
  | ErrInvitationNotFound
  | ErrNotMember
  | ErrPermissionDenied
  | ErrProjectNameExists
  | ErrCannotInviteSelf
  | ErrUserAlreadyInProject
  | ErrInvitationAlreadyExists
  | ErrInvitationExpired
  | ErrInvitationHandled
  | ErrOnlyInviterCanCancel
  | ErrInvalidRole
  | ErrProjectArchived
  | ErrCannotRemoveLastAdmin
  | ErrProjectAlreadyArchived
  | ErrProjectNotArchived
  | ErrRepositoryAlreadyBound
  | ErrRepositoryBindingNotFound
  | ErrInvalidRepoURL
  | DatabaseError

record Project =
  pj_ID :: string
  pj_Name :: string
  pj_Description :: string
  pj_CreatorID :: string
  pj_EnabledAt :: "int option"
  pj_ArchivedAt :: "int option"
  pj_CreatedAt :: int
  pj_deleted :: bool

record ProjectMember =
  pm_ID :: string
  pm_ProjectID :: string
  pm_UserID :: string
  pm_Role :: string
  pm_PinnedAt :: "int option"
  pm_JoinedAt :: int
  pm_deleted :: bool

record ProjectInvitation =
  pi_ID :: string
  pi_ProjectID :: string
  pi_InviterID :: string
  pi_InviteeID :: string
  pi_Role :: string
  pi_Status :: string
  pi_Message :: string
  pi_RespondedAt :: "int option"
  pi_ExpiresAt :: "int option"
  pi_CreatedAt :: int

record ProjectRepository =
  pr_ID :: string
  pr_ProjectID :: string
  pr_GitRepoURL :: string
  pr_DisplayName :: string
  pr_Source :: string
  pr_BoundByUserID :: string
  pr_CreatedAt :: int
  pr_deleted :: bool

record project_db =
  pd_projects :: "Project list"
  pd_members :: "ProjectMember list"
  pd_invitations :: "ProjectInvitation list"
  pd_repositories :: "ProjectRepository list"

type_synonym 'a outcome = "(project_error + 'a) \<times> project_db"

definition isValidRole :: "string \<Rightarrow> bool" where
  "isValidRole role \<longleftrightarrow> role = RoleAdmin \<or> role = RoleMember"

definition member_row :: "string \<Rightarrow> string \<Rightarrow> ProjectMember \<Rightarrow> bool" where
  "member_row projectID userID m \<longleftrightarrow> pm_ProjectID m = projectID \<and> pm_UserID m = userID \<and> \<not> pm_deleted m"

definition GetMember :: "bool \<Rightarrow> string \<Rightarrow> string \<Rightarrow> project_db \<Rightarrow> project_error + ProjectMember" where
  "GetMember ok projectID userID db =
     (if \<not> ok then Inl DatabaseError
      else case First pm_ID (member_row projectID userID) (pd_members db) of
        None \<Rightarrow> Inl ErrNotMember | Some m \<Rightarrow> Inr m)"

definition checkPermission :: "bool \<Rightarrow> string \<Rightarrow> string \<Rightarrow> string \<Rightarrow> project_db \<Rightarrow> project_error option" where
  "checkPermission ok projectID userID requiredRole db =
     (case GetMember ok projectID userID db of
        Inl e \<Rightarrow> Some e
      | Inr member \<Rightarrow> if requiredRole = RoleAdmin \<and> pm_Role member \<noteq> RoleAdmin then Some ErrPermissionDenied else None)"

definition GetProject :: "bool \<Rightarrow> string \<Rightarrow> project_db \<Rightarrow> project_error + Project" where
  "GetProject ok projectID db =
     (if \<not> ok then Inl DatabaseError
      else case First pj_ID (\<lambda>p. pj_ID p = projectID \<and> \<not> pj_deleted p) (pd_projects db) of
        None \<Rightarrow> Inl ErrProjectNotFound | Some p \<Rightarrow> Inr p)"

text \<open>Inserts, with the primary keys and the unique indexes of the tables.\<close>

definition insert_project :: "Project \<Rightarrow> project_db \<Rightarrow> project_db option" where
  "insert_project p db =
     (if list_ex (\<lambda>q. pj_ID q = pj_ID p \<or> pj_CreatorID q = pj_CreatorID p \<and> pj_Name q = pj_Name p) (pd_projects db)
      then None else Some (db\<lparr>pd_projects := pd_projects db @ [p]\<rparr>))"

definition insert_member :: "ProjectMember \<Rightarrow> project_db \<Rightarrow> project_db option" where
  "insert_member m db =
     (if list_ex (\<lambda>q. pm_ID q = pm_ID m \<or> pm_ProjectID q = pm_ProjectID m \<and> pm_UserID q = pm_UserID m) (pd_members db)
      then None else Some (db\<lparr>pd_members := pd_members db @ [m]\<rparr>))"

definition insert_invitation :: "ProjectInvitation \<Rightarrow> project_db \<Rightarrow> project_db option" where
  "insert_invitation i db =
     (if list_ex (\<lambda>q. pi_ID q = pi_ID i) (pd_invitations db)
      then None else Some (db\<lparr>pd_invitations := pd_invitations db @ [i]\<rparr>))"

definition insert_repository :: "ProjectRepository \<Rightarrow> project_db \<Rightarrow> project_db option" where
  "insert_repository r db =
     (if list_ex (\<lambda>q. pr_ID q = pr_ID r \<or> pr_ProjectID q = pr_ProjectID r \<and> pr_GitRepoURL q = pr_GitRepoURL r) (pd_repositories db)
      then None else Some (db\<lparr>pd_repositories := pd_repositories db @ [r]\<rparr>))"

text \<open>Updates of the live rows of a table.\<close>

definition update_project :: "string \<Rightarrow> (Project \<Rightarrow> Project) \<Rightarrow> project_db \<Rightarrow> project_db" where
  "update_project projectID f db =
     db\<lparr>pd_projects := map (\<lambda>p. if pj_ID p = projectID \<and> \<not> pj_deleted p then f p else p) (pd_projects db)\<rparr>"

definition update_member :: "string \<Rightarrow> string \<Rightarrow> (ProjectMember \<Rightarrow> ProjectMember) \<Rightarrow> project_db \<Rightarrow> project_db" where
  "update_member projectID userID f db =
     db\<lparr>pd_members := map (\<lambda>m. if member_row projectID userID m then f m else m) (pd_members db)\<rparr>"

definition update_invitation :: "string \<Rightarrow> (ProjectInvitation \<Rightarrow> ProjectInvitation) \<Rightarrow> project_db \<Rightarrow> project_db" where
  "update_invitation invitationID f db =
     db\<lparr>pd_invitations := map (\<lambda>i. if pi_ID i = invitationID then f i else i) (pd_invitations db)\<rparr>"

text \<open>A statement that may fail.\<close>

definition exec :: "bool \<Rightarrow> project_db \<Rightarrow> project_db \<Rightarrow> unit outcome" where
  "exec ok db db' = (if ok then (Inr (), db') else (Inl DatabaseError, db))"

section \<open>Projects\<close>

definition CreateProject ::
  "(nat \<Rightarrow> bool) \<Rightarrow> string \<Rightarrow> string \<Rightarrow> int \<Rightarrow> string \<Rightarrow> string \<Rightarrow> string \<Rightarrow> int option \<Rightarrow> project_db \<Rightarrow> Project outcome" where
  "CreateProject dbok newID memberID now creatorID name description enabledAt db =
     (if name = [] then (Inl ErrNameRequired, db)
      else if \<not> dbok 0 then (Inl DatabaseError, db)
      else if First pj_ID (\<lambda>p. pj_CreatorID p = creatorID \<and> pj_Name p = name \<and> \<not> pj_deleted p) (pd_projects db) \<noteq> None
      then (Inl ErrProjectNameExists, db)
      else
        let project = \<lparr>pj_ID = newID, pj_Name = name, pj_Description = description, pj_CreatorID = creatorID,
              pj_EnabledAt = enabledAt, pj_ArchivedAt = None, pj_CreatedAt = now, pj_deleted = False\<rparr>;
            member = \<lparr>pm_ID = memberID, pm_ProjectID = newID, pm_UserID = creatorID, pm_Role = RoleAdmin,
              pm_PinnedAt = None, pm_JoinedAt = now, pm_deleted = False\<rparr>
        in if \<not> dbok 1 then (Inl DatabaseError, db)
           else case insert_project project db of
             None \<Rightarrow> (Inl DatabaseError, db)
           | Some db1 \<Rightarrow>
               if \<not> dbok 2 then (Inl DatabaseError, db)
               else case insert_member member db1 of
                 None \<Rightarrow> (Inl DatabaseError, db)
               | Some db2 \<Rightarrow> (Inr project, db2))"

definition GetProjectForUser :: "(nat \<Rightarrow> bool) \<Rightarrow> string \<Rightarrow> string \<Rightarrow> project_db \<Rightarrow> project_error + Project \<times> bool" where
  "GetProjectForUser dbok projectID userID db =
     (case checkPermission (dbok 0) projectID userID RoleMember db of
        Some e \<Rightarrow> Inl e
      | None \<Rightarrow>
          if \<not> dbok 1 then Inl DatabaseError
          else case (First pj_ID (\<lambda>p. pj_ID p = projectID \<and> \<not> pj_deleted p) (pd_projects db),
                     find (member_row projectID userID) (pd_members db)) of
            (Some p, Some m) \<Rightarrow> Inr (p, pm_PinnedAt m \<noteq> None)
          | _ \<Rightarrow> Inl ErrProjectNotFound)"

definition GetProjectBasicInfoForUser :: "(nat \<Rightarrow> bool) \<Rightarrow> int \<Rightarrow> string \<Rightarrow> string \<Rightarrow> project_db \<Rightarrow> project_error + Project" where
  "GetProjectBasicInfoForUser dbok now projectID userID db =
     (case GetProjectForUser dbok projectID userID db of
        Inr (p, _) \<Rightarrow> Inr p
      | Inl e \<Rightarrow>
          if e \<noteq> ErrPermissionDenied \<and> e \<noteq> ErrNotMember \<and> e \<noteq> ErrProjectNotFound then Inl e
          else if \<not> dbok 2 then Inl DatabaseError
          else if list_ex (\<lambda>i. pi_ProjectID i = projectID \<and> pi_InviteeID i = userID \<and> pi_Status i = InvitationPending \<and>
                    (case pi_ExpiresAt i of None \<Rightarrow> True | Some t \<Rightarrow> now \<le> t)) (pd_invitations db)
          then GetProject (dbok 3) projectID db
          else Inl ErrPermissionDenied)"

definition ListProjects :: "bool \<Rightarrow> string \<Rightarrow> bool \<Rightarrow> bool \<Rightarrow> project_db \<Rightarrow> project_error + (Project \<times> bool) list" where
  "ListProjects ok userID includeArchived pinnedOnly db =
     (if \<not> ok then Inl DatabaseError
      else Inr (rev (sort_key (\<lambda>(p, _). pj_CreatedAt p)
        [(p, pm_PinnedAt m \<noteq> None). m \<leftarrow> pd_members db, p \<leftarrow> pd_projects db,
           pm_UserID m = userID \<and> \<not> pm_deleted m \<and> pj_ID p = pm_ProjectID m \<and> \<not> pj_deleted p \<and>
           (includeArchived \<or> pj_ArchivedAt p = None) \<and> (pinnedOnly \<longrightarrow> pm_PinnedAt m \<noteq> None)])))"

definition SetProjectPin :: "(nat \<Rightarrow> bool) \<Rightarrow> int \<Rightarrow> string \<Rightarrow> string \<Rightarrow> bool \<Rightarrow> project_db \<Rightarrow> unit outcome" where
  "SetProjectPin dbok now projectID userID pinned db =
     (case GetProject (dbok 0) projectID db of
        Inl e \<Rightarrow> (Inl e, db)
      | Inr project \<Rightarrow>
          if pj_ArchivedAt project \<noteq> None then (Inl ErrProjectArchived, db)
          else case checkPermission (dbok 1) projectID userID RoleMember db of
            Some e \<Rightarrow> (Inl e, db)
          | None \<Rightarrow> exec (dbok 2) db
              (update_member projectID userID (\<lambda>m. m\<lparr>pm_PinnedAt := (if pinned then Some now else None)\<rparr>) db))"

text \<open>The columns of an update; a column that is not given keeps its value.\<close>

record project_updates =
  up_Name :: "string option"
  up_Description :: "string option"
  up_EnabledAt :: "int option"

definition apply_updates :: "project_updates \<Rightarrow> Project \<Rightarrow> Project" where
  "apply_updates u p =
     p\<lparr>pj_Name := (case up_Name u of None \<Rightarrow> pj_Name p | Some n \<Rightarrow> n),
       pj_Description := (case up_Description u of None \<Rightarrow> pj_Description p | Some d \<Rightarrow> d),
       pj_EnabledAt := (case up_EnabledAt u of None \<Rightarrow> pj_EnabledAt p | Some t \<Rightarrow> Some t)\<rparr>"

definition project_index_ok :: "project_db \<Rightarrow> bool" where
  "project_index_ok db \<longleftrightarrow> distinct (map (\<lambda>p. (pj_CreatorID p, pj_Name p)) (pd_projects db))"

text \<open>The checks that the operations on an unarchived project share: the caller is an
  administrator, the project exists and is not archived.\<close>

definition admin_on_open ::
  "(nat \<Rightarrow> bool) \<Rightarrow> string \<Rightarrow> string \<Rightarrow> project_db \<Rightarrow> project_error + Project" where
  "admin_on_open dbok projectID userID db =
     (case checkPermission (dbok 0) projectID userID RoleAdmin db of
        Some e \<Rightarrow> Inl e
      | None \<Rightarrow> (case GetProject (dbok 1) projectID db of
          Inl e \<Rightarrow> Inl e
        | Inr project \<Rightarrow> if pj_ArchivedAt project \<noteq> None then Inl ErrProjectArchived else Inr project))"

definition UpdateProject :: "(nat \<Rightarrow> bool) \<Rightarrow> string \<Rightarrow> string \<Rightarrow> project_updates \<Rightarrow> project_db \<Rightarrow> unit outcome" where
  "UpdateProject dbok projectID userID updates db =
     (case admin_on_open dbok projectID userID db of
        Inl e \<Rightarrow> (Inl e, db)
      | Inr project \<Rightarrow>
          if (case up_Name updates of
                None \<Rightarrow> False
              | Some name \<Rightarrow> name \<noteq> [] \<and> name \<noteq> pj_Name project \<and> dbok 2 \<and>
                  First pj_ID (\<lambda>p. pj_CreatorID p = pj_CreatorID project \<and> pj_Name p = name \<and> pj_ID p \<noteq> projectID \<and>
                      \<not> pj_deleted p) (pd_projects db) \<noteq> None)
          then (Inl ErrProjectNameExists, db)
          else let db' = update_project projectID (apply_updates updates) db
               in exec (dbok 3 \<and> project_index_ok db') db db')"

definition DeleteProject :: "(nat \<Rightarrow> bool) \<Rightarrow> string \<Rightarrow> string \<Rightarrow> project_db \<Rightarrow> unit outcome" where
  "DeleteProject dbok projectID userID db =
     (case checkPermission (dbok 0) projectID userID RoleAdmin db of
        Some e \<Rightarrow> (Inl e, db)
      | None \<Rightarrow> exec (dbok 1) db (update_project projectID (\<lambda>p. p\<lparr>pj_deleted := True\<rparr>) db))"

definition admin_on_project ::
  "(nat \<Rightarrow> bool) \<Rightarrow> string \<Rightarrow> string \<Rightarrow> project_db \<Rightarrow> project_error + Project" where
  "admin_on_project dbok projectID userID db =
     (case checkPermission (dbok 0) projectID userID RoleAdmin db of
        Some e \<Rightarrow> Inl e | None \<Rightarrow> GetProject (dbok 1) projectID db)"

definition ArchiveProject :: "(nat \<Rightarrow> bool) \<Rightarrow> int \<Rightarrow> string \<Rightarrow> string \<Rightarrow> project_db \<Rightarrow> unit outcome" where
  "ArchiveProject dbok now projectID userID db =
     (case admin_on_project dbok projectID userID db of
        Inl e \<Rightarrow> (Inl e, db)
      | Inr project \<Rightarrow>
          if pj_ArchivedAt project \<noteq> None then (Inl ErrProjectAlreadyArchived, db)
          else exec (dbok 2) db (update_project projectID (\<lambda>p. p\<lparr>pj_ArchivedAt := Some now\<rparr>) db))"

definition UnarchiveProject :: "(nat \<Rightarrow> bool) \<Rightarrow> string \<Rightarrow> string \<Rightarrow> project_db \<Rightarrow> unit outcome" where
  "UnarchiveProject dbok projectID userID db =
     (case admin_on_project dbok projectID userID db of
        Inl e \<Rightarrow> (Inl e, db)
      | Inr project \<Rightarrow>
          if pj_ArchivedAt project = None then (Inl ErrProjectNotArchived, db)
          else exec (dbok 2) db (update_project projectID (\<lambda>p. p\<lparr>pj_ArchivedAt := None\<rparr>) db))"

definition UpdateProjectArchiveTime :: "(nat \<Rightarrow> bool) \<Rightarrow> string \<Rightarrow> string \<Rightarrow> int \<Rightarrow> project_db \<Rightarrow> unit outcome" where
  "UpdateProjectArchiveTime dbok projectID userID archivedAt db =
     (case admin_on_project dbok projectID userID db of
        Inl e \<Rightarrow> (Inl e, db)
      | Inr project \<Rightarrow>
          if pj_ArchivedAt project = None then (Inl ErrProjectNotArchived, db)
          else exec (dbok 2) db (update_project projectID (\<lambda>p. p\<lparr>pj_ArchivedAt := Some archivedAt\<rparr>) db))"

section \<open>Members\<close>

definition ListMembers :: "bool \<Rightarrow> string \<Rightarrow> project_db \<Rightarrow> project_error + ProjectMember list" where
  "ListMembers ok projectID db =
     (if \<not> ok then Inl DatabaseError
      else Inr (sort_key pm_JoinedAt (filter (\<lambda>m. pm_ProjectID m = projectID \<and> \<not> pm_deleted m) (pd_members db))))"

definition adminCount :: "string \<Rightarrow> project_db \<Rightarrow> nat" where
  "adminCount projectID db =
     length (filter (\<lambda>m. pm_ProjectID m = projectID \<and> pm_Role m = RoleAdmin \<and> \<not> pm_deleted m) (pd_members db))"

definition RemoveMember :: "(nat \<Rightarrow> bool) \<Rightarrow> string \<Rightarrow> string \<Rightarrow> string \<Rightarrow> project_db \<Rightarrow> unit outcome" where
  "RemoveMember dbok projectID operatorID targetUserID db =
     (case admin_on_open dbok projectID operatorID db of
        Inl e \<Rightarrow> (Inl e, db)
      | Inr project \<Rightarrow> (case GetMember (dbok 2) projectID targetUserID db of
          Inl e \<Rightarrow> (Inl e, db)
        | Inr target \<Rightarrow>
            if pm_Role target = RoleAdmin \<and> \<not> dbok 3 then (Inl DatabaseError, db)
            else if pm_Role target = RoleAdmin \<and> adminCount projectID db \<le> 1 then (Inl ErrCannotRemoveLastAdmin, db)
            else exec (dbok 4) db (update_member projectID targetUserID (\<lambda>m. m\<lparr>pm_deleted := True\<rparr>) db)))"

definition UpdateMemberRole :: "(nat \<Rightarrow> bool) \<Rightarrow> string \<Rightarrow> string \<Rightarrow> string \<Rightarrow> string \<Rightarrow> project_db \<Rightarrow> unit outcome" where
  "UpdateMemberRole dbok projectID operatorID targetUserID newRole db =
     (if \<not> isValidRole newRole then (Inl ErrInvalidRole, db)
      else case admin_on_open dbok projectID operatorID db of
        Inl e \<Rightarrow> (Inl e, db)
      | Inr project \<Rightarrow> (case GetMember (dbok 2) projectID targetUserID db of
          Inl e \<Rightarrow> (Inl e, db)
        | Inr target \<Rightarrow>
            if pm_Role target = RoleAdmin \<and> newRole \<noteq> RoleAdmin \<and> \<not> dbok 3 then (Inl DatabaseError, db)
            else if pm_Role target = RoleAdmin \<and> newRole \<noteq> RoleAdmin \<and> adminCount projectID db \<le> 1
            then (Inl ErrCannotRemoveLastAdmin, db)
            else exec (dbok 4) db (update_member projectID targetUserID (\<lambda>m. m\<lparr>pm_Role := newRole\<rparr>) db)))"

definition IsProjectAdmin :: "bool \<Rightarrow> string \<Rightarrow> string \<Rightarrow> project_db \<Rightarrow> project_error + bool" where
  "IsProjectAdmin ok projectID userID db =
     (case GetMember ok projectID userID db of
        Inl e \<Rightarrow> if e = ErrNotMember then Inr False else Inl e
      | Inr member \<Rightarrow> Inr (pm_Role member = RoleAdmin))"

definition IsProjectMember :: "bool \<Rightarrow> string \<Rightarrow> string \<Rightarrow> project_db \<Rightarrow> project_error + bool" where
  "IsProjectMember ok projectID userID db =
     (case GetMember ok projectID userID db of
        Inl e \<Rightarrow> if e = ErrNotMember then Inr False else Inl e
      | Inr member \<Rightarrow> Inr True)"

section \<open>Invitations\<close>

definition week :: int where "week = 7 * 24 * 3600 * 10 ^ 9"

definition CreateInvitation ::
  "(nat \<Rightarrow> bool) \<Rightarrow> string \<Rightarrow> int \<Rightarrow> string \<Rightarrow> string \<Rightarrow> string \<Rightarrow> string \<Rightarrow> string \<Rightarrow> project_db \<Rightarrow>
   ProjectInvitation outcome" where
  "CreateInvitation dbok newID now projectID inviterID inviteeID role0 message db =
     (let role = (if role0 = [] then RoleMember else role0)
      in if \<not> isValidRole role then (Inl ErrInvalidRole, db)
         else if inviterID = inviteeID then (Inl ErrCannotInviteSelf, db)
         else case admin_on_open dbok projectID inviterID db of
           Inl e \<Rightarrow> (Inl e, db)
         | Inr project \<Rightarrow> (case GetMember (dbok 2) projectID inviteeID db of
             Inr _ \<Rightarrow> (Inl ErrUserAlreadyInProject, db)
           | Inl e \<Rightarrow>
               if e \<noteq> ErrNotMember then (Inl e, db)
               else if dbok 3 \<and> (case First pi_ID (\<lambda>i. pi_ProjectID i = projectID \<and> pi_InviteeID i = inviteeID \<and>
                         pi_Status i = InvitationPending) (pd_invitations db) of
                       None \<Rightarrow> False
                     | Some pending \<Rightarrow> (case pi_ExpiresAt pending of None \<Rightarrow> True | Some t \<Rightarrow> now < t))
               then (Inl ErrInvitationAlreadyExists, db)
               else
                 let invitation = \<lparr>pi_ID = newID, pi_ProjectID = projectID, pi_InviterID = inviterID,
                       pi_InviteeID = inviteeID, pi_Role = role, pi_Status = InvitationPending, pi_Message = message,
                       pi_RespondedAt = None, pi_ExpiresAt = Some (now + week), pi_CreatedAt = now\<rparr>
                 in if \<not> dbok 4 then (Inl DatabaseError, db)
                    else case insert_invitation invitation db of
                      None \<Rightarrow> (Inl DatabaseError, db)
                    | Some db' \<Rightarrow> (Inr invitation, db')))"

definition GetInvitation :: "bool \<Rightarrow> string \<Rightarrow> project_db \<Rightarrow> project_error + ProjectInvitation" where
  "GetInvitation ok invitationID db =
     (if \<not> ok then Inl DatabaseError
      else case First pi_ID (\<lambda>i. pi_ID i = invitationID) (pd_invitations db) of
        None \<Rightarrow> Inl ErrInvitationNotFound | Some i \<Rightarrow> Inr i)"

definition RespondInvitation ::
  "(nat \<Rightarrow> bool) \<Rightarrow> string \<Rightarrow> int \<Rightarrow> string \<Rightarrow> string \<Rightarrow> bool \<Rightarrow> project_db \<Rightarrow> unit outcome" where
  "RespondInvitation dbok memberID now invitationID userID accept db =
     (case GetInvitation (dbok 0) invitationID db of
        Inl e \<Rightarrow> (Inl e, db)
      | Inr invitation \<Rightarrow>
          if pi_InviteeID invitation \<noteq> userID then (Inl ErrPermissionDenied, db)
          else if pi_Status invitation \<noteq> InvitationPending then (Inl ErrInvitationHandled, db)
          else if (case pi_ExpiresAt invitation of None \<Rightarrow> False | Some t \<Rightarrow> t < now) then (Inl ErrInvitationExpired, db)
          else
            let status = (if accept then InvitationAccepted else InvitationRejected);
                db1 = update_invitation (pi_ID invitation) (\<lambda>i. i\<lparr>pi_Status := status, pi_RespondedAt := Some now\<rparr>) db
            in if \<not> dbok 1 then (Inl DatabaseError, db)
               else if \<not> accept then (Inr (), db1)
               else if \<not> dbok 2 then (Inl DatabaseError, db)
               else case insert_member \<lparr>pm_ID = memberID, pm_ProjectID = pi_ProjectID invitation, pm_UserID = userID,
                      pm_Role = pi_Role invitation, pm_PinnedAt = None, pm_JoinedAt = now, pm_deleted = False\<rparr> db1 of
                 None \<Rightarrow> (Inl DatabaseError, db)
               | Some db2 \<Rightarrow> (Inr (), db2))"

definition list_invitations :: "(ProjectInvitation \<Rightarrow> bool) \<Rightarrow> project_db \<Rightarrow> (ProjectInvitation \<times> string) list" where
  "list_invitations P db =
     rev (sort_key (\<lambda>(i, _). pi_CreatedAt i)
       [(i, pj_Name p). i \<leftarrow> pd_invitations db, p \<leftarrow> pd_projects db,
          P i \<and> pj_ID p = pi_ProjectID i \<and> \<not> pj_deleted p])"

definition ListInvitations :: "bool \<Rightarrow> string \<Rightarrow> project_db \<Rightarrow> project_error + (ProjectInvitation \<times> string) list" where
  "ListInvitations ok projectID db =
     (if \<not> ok then Inl DatabaseError else Inr (list_invitations (\<lambda>i. pi_ProjectID i = projectID) db))"

definition expire_invitations :: "int \<Rightarrow> project_db \<Rightarrow> project_db" where
  "expire_invitations now db =
     db\<lparr>pd_invitations := map (\<lambda>i. if pi_Status i = InvitationPending \<and> (case pi_ExpiresAt i of None \<Rightarrow> False | Some t \<Rightarrow> t < now)
          then i\<lparr>pi_Status := InvitationCancelled\<rparr> else i) (pd_invitations db)\<rparr>"

definition ListMyInvitations :: "(nat \<Rightarrow> bool) \<Rightarrow> int \<Rightarrow> string \<Rightarrow> project_db \<Rightarrow> (ProjectInvitation \<times> string) list outcome" where
  "ListMyInvitations dbok now userID db =
     (let db1 = (if dbok 0 then expire_invitations now db else db)
      in if \<not> dbok 1 then (Inl DatabaseError, db1)
         else (Inr (list_invitations (\<lambda>i. pi_InviteeID i = userID) db1), db1))"

definition CancelInvitation :: "(nat \<Rightarrow> bool) \<Rightarrow> string \<Rightarrow> string \<Rightarrow> project_db \<Rightarrow> unit outcome" where
  "CancelInvitation dbok invitationID operatorID db =
     (case GetInvitation (dbok 0) invitationID db of
        Inl e \<Rightarrow> (Inl e, db)
      | Inr invitation \<Rightarrow>
          if pi_InviterID invitation \<noteq> operatorID then (Inl ErrOnlyInviterCanCancel, db)
          else if pi_Status invitation \<noteq> InvitationPending then (Inl ErrInvitationHandled, db)
          else exec (dbok 1) db (update_invitation invitationID (\<lambda>i. i\<lparr>pi_Status := InvitationCancelled\<rparr>) db))"

section \<open>Repositories\<close>

text \<open>\<^verbatim>\<open>path.Clean\<close>, by the elements between the slashes.\<close>

definition clean_step :: "bool \<Rightarrow> string \<Rightarrow> string list \<Rightarrow> string list" where
  "clean_step rooted seg out =
     (if seg = [] \<or> seg = ''.'' then out
      else if seg = ''..'' then
        (if out \<noteq> [] \<and> last out \<noteq> ''..'' then butlast out else if rooted then out else out @ [seg])
      else out @ [seg])"

definition path_Clean :: "string \<Rightarrow> string" where
  "path_Clean p =
     (let rooted = has_prefix p ''/'';
          segs = fold (clean_step rooted) (split_on CHR ''/'' p) []
      in if rooted then ''/'' @ join_with ''/'' segs
         else if segs = [] then ''.'' else join_with ''/'' segs)"

record repo_URL =
  ru_Scheme :: string
  ru_Host :: string
  ru_Path :: string

text \<open>\<^verbatim>\<open>SplitN(s, ":", 2)\<close> with both parts non-empty.\<close>

definition scp_parts :: "string \<Rightarrow> (string \<times> string) option" where
  "scp_parts s =
     (case index_of s '':'' of
        None \<Rightarrow> None
      | Some n \<Rightarrow> if take n s = [] \<or> drop (n + 1) s = [] then None else Some (take n s, drop (n + 1) s))"

definition clean_repo_path :: "string \<Rightarrow> string" where
  "clean_repo_path p = path_Clean (trim_suffix (trim_suffix p ''.git'') ''/'')"

definition normalizeGitRepoURL :: "(string \<Rightarrow> repo_URL option) \<Rightarrow> string \<Rightarrow> string option" where
  "normalizeGitRepoURL url_Parse raw =
     (let trimmed = trim_space raw
      in if trimmed = [] then None
         else
           case (if has_prefix trimmed ''git@''
                 then map_option (\<lambda>(host, p). ''https://'' @ host @ ''/'' @ p) (scp_parts (trim_prefix trimmed ''git@''))
                 else Some trimmed) of
             None \<Rightarrow> None
           | Some u \<Rightarrow>
               (case url_Parse u of
                  None \<Rightarrow> None
                | Some parsed0 \<Rightarrow>
                    (case (if ru_Host parsed0 = [] \<and> ru_Scheme parsed0 = [] then url_Parse (''https://'' @ u) else Some parsed0) of
                       None \<Rightarrow> None
                     | Some parsed \<Rightarrow>
                         if ru_Host parsed = [] then None
                         else
                           let repoPath = clean_repo_path (ru_Path parsed)
                           in if repoPath = ''.'' \<or> repoPath = ''/'' \<or> repoPath = [] then None
                              else Some (''https://'' @ to_lower (ru_Host parsed) @
                                to_lower (if has_prefix repoPath ''/'' then repoPath else ''/'' @ repoPath)))))"

definition ListRepositories :: "(nat \<Rightarrow> bool) \<Rightarrow> string \<Rightarrow> string \<Rightarrow> project_db \<Rightarrow> project_error + ProjectRepository list" where
  "ListRepositories dbok projectID userID db =
     (case checkPermission (dbok 0) projectID userID RoleMember db of
        Some e \<Rightarrow> Inl e
      | None \<Rightarrow> if \<not> dbok 1 then Inl DatabaseError
          else Inr (sort_key pr_CreatedAt (filter (\<lambda>r. pr_ProjectID r = projectID \<and> \<not> pr_deleted r) (pd_repositories db))))"

definition BindRepository ::
  "(nat \<Rightarrow> bool) \<Rightarrow> (string \<Rightarrow> repo_URL option) \<Rightarrow> string \<Rightarrow> int \<Rightarrow> string \<Rightarrow> string \<Rightarrow> string \<Rightarrow> string \<Rightarrow> project_db \<Rightarrow>
   ProjectRepository outcome" where
  "BindRepository dbok url_Parse newID now projectID operatorID gitRepoURL displayName db =
     (case admin_on_open dbok projectID operatorID db of
        Inl e \<Rightarrow> (Inl e, db)
      | Inr project \<Rightarrow> (case normalizeGitRepoURL url_Parse gitRepoURL of
          None \<Rightarrow> (Inl ErrInvalidRepoURL, db)
        | Some normalizedRepo \<Rightarrow>
            if \<not> dbok 2 then (Inl DatabaseError, db)
            else if First pr_ID (\<lambda>r. pr_ProjectID r = projectID \<and> pr_GitRepoURL r = normalizedRepo \<and> \<not> pr_deleted r)
                   (pd_repositories db) \<noteq> None
            then (Inl ErrRepositoryAlreadyBound, db)
            else
              let repository = \<lparr>pr_ID = newID, pr_ProjectID = projectID, pr_GitRepoURL = normalizedRepo,
                    pr_DisplayName = displayName, pr_Source = ''manual'', pr_BoundByUserID = operatorID,
                    pr_CreatedAt = now, pr_deleted = False\<rparr>
              in if \<not> dbok 3 then (Inl DatabaseError, db)
                 else case insert_repository repository db of
                   None \<Rightarrow> (Inl DatabaseError, db)
                 | Some db' \<Rightarrow> (Inr repository, db')))"

definition bound_row :: "string \<Rightarrow> string \<Rightarrow> ProjectRepository \<Rightarrow> bool" where
  "bound_row projectID bindingID r \<longleftrightarrow> pr_ProjectID r = projectID \<and> pr_ID r = bindingID \<and> \<not> pr_deleted r"

definition UnbindRepository :: "(nat \<Rightarrow> bool) \<Rightarrow> string \<Rightarrow> string \<Rightarrow> string \<Rightarrow> project_db \<Rightarrow> unit outcome" where
  "UnbindRepository dbok projectID repoBindingID operatorID db =
     (case admin_on_open dbok projectID operatorID db of
        Inl e \<Rightarrow> (Inl e, db)
      | Inr project \<Rightarrow>
          if \<not> dbok 2 then (Inl DatabaseError, db)
          else if \<not> list_ex (bound_row projectID repoBindingID) (pd_repositories db) then (Inl ErrRepositoryBindingNotFound, db)
          else (Inr (), db\<lparr>pd_repositories := map (\<lambda>r. if bound_row projectID repoBindingID r then r\<lparr>pr_deleted := True\<rparr> else r)
                 (pd_repositories db)\<rparr>))"

section \<open>Reading the tables\<close>

definition members_unique :: "project_db \<Rightarrow> bool" where
  "members_unique db \<longleftrightarrow> distinct (map (\<lambda>m. (pm_ProjectID m, pm_UserID m)) (pd_members db))"

text \<open>The role a user has in a project.\<close>

definition role_of :: "string \<Rightarrow> string \<Rightarrow> project_db \<Rightarrow> string option" where
  "role_of p u db = map_option pm_Role (First pm_ID (member_row p u) (pd_members db))"

definition is_admin :: "string \<Rightarrow> string \<Rightarrow> project_db \<Rightarrow> bool" where
  "is_admin p u db \<longleftrightarrow> role_of p u db = Some RoleAdmin"

definition admin_row :: "string \<Rightarrow> ProjectMember \<Rightarrow> bool" where
  "admin_row p m \<longleftrightarrow> pm_ProjectID m = p \<and> pm_Role m = RoleAdmin \<and> \<not> pm_deleted m"

lemma members_unique_eq:
  assumes "members_unique db" "m \<in> set (pd_members db)" "m' \<in> set (pd_members db)"
    "pm_ProjectID m = pm_ProjectID m'" "pm_UserID m = pm_UserID m'"
  shows "m = m'"
  using assms by (auto simp: members_unique_def distinct_map inj_on_def)

lemma First_member:
  assumes "members_unique db"
  shows "First pm_ID (member_row p u) (pd_members db) = Some m \<longleftrightarrow> m \<in> set (pd_members db) \<and> member_row p u m"
proof
  assume m: "m \<in> set (pd_members db) \<and> member_row p u m"
  show "First pm_ID (member_row p u) (pd_members db) = Some m"
  proof (rule First_unique)
    show "\<forall>m' \<in> set (pd_members db). member_row p u m' \<longrightarrow> m' = m"
      using m members_unique_eq[OF assms] unfolding member_row_def by metis
  qed (use m in auto)
qed (auto dest: First_SomeD)

lemma role_of_iff:
  assumes "members_unique db"
  shows "role_of p u db = Some r \<longleftrightarrow> (\<exists>m \<in> set (pd_members db). member_row p u m \<and> pm_Role m = r)"
  using First_member[OF assms] by (fastforce simp: role_of_def)

lemma role_of_None: "role_of p u db = None \<longleftrightarrow> (\<forall>m \<in> set (pd_members db). \<not> member_row p u m)"
  by (simp add: role_of_def First_None)

lemma GetMember_role: "GetMember ok p u db = Inr m \<Longrightarrow> role_of p u db = Some (pm_Role m)"
  by (auto simp: GetMember_def role_of_def split: if_splits option.splits)

lemma checkPermission_admin: "checkPermission ok p u RoleAdmin db = None \<Longrightarrow> is_admin p u db"
  by (auto simp: checkPermission_def is_admin_def dest: GetMember_role split: sum.splits if_splits)

lemma admin_on_open_admin: "admin_on_open dbok p u db = Inr pj \<Longrightarrow> is_admin p u db"
  by (auto simp: admin_on_open_def dest: checkPermission_admin split: option.splits sum.splits if_splits)

lemma admin_on_project_admin: "admin_on_project dbok p u db = Inr pj \<Longrightarrow> is_admin p u db"
  by (auto simp: admin_on_project_def dest: checkPermission_admin split: option.splits)

lemma adminCount_rows: "adminCount p db = length (filter (admin_row p) (pd_members db))"
  by (simp add: adminCount_def admin_row_def[abs_def])

section \<open>Steps\<close>

inductive project_step :: "string \<Rightarrow> project_db \<Rightarrow> project_db \<Rightarrow> bool" where
  create: "project_step a db (snd (CreateProject dbok newID memberID now a name desc enabledAt db))"
| pin: "project_step a db (snd (SetProjectPin dbok now p a pinned db))"
| update: "project_step a db (snd (UpdateProject dbok p a ups db))"
| delete: "project_step a db (snd (DeleteProject dbok p a db))"
| archive: "project_step a db (snd (ArchiveProject dbok now p a db))"
| unarchive: "project_step a db (snd (UnarchiveProject dbok p a db))"
| archive_time: "project_step a db (snd (UpdateProjectArchiveTime dbok p a t db))"
| remove: "project_step a db (snd (RemoveMember dbok p a target db))"
| role: "project_step a db (snd (UpdateMemberRole dbok p a target newRole db))"
| invite: "project_step a db (snd (CreateInvitation dbok newID now p a invitee r msg db))"
| respond: "project_step a db (snd (RespondInvitation dbok memberID now i a accept db))"
| list_mine: "project_step a db (snd (ListMyInvitations dbok now a db))"
| cancel: "project_step a db (snd (CancelInvitation dbok i a db))"
| bind: "project_step a db (snd (BindRepository dbok url_Parse newID now p a url name db))"
| unbind: "project_step a db (snd (UnbindRepository dbok p bindingID a db))"

definition empty_projects :: project_db where
  "empty_projects = \<lparr>pd_projects = [], pd_members = [], pd_invitations = [], pd_repositories = []\<rparr>"

inductive project_reachable :: "project_db \<Rightarrow> bool" where
  empty: "project_reachable empty_projects"
| step: "project_reachable db \<Longrightarrow> project_step a db db' \<Longrightarrow> project_reachable db'"

text \<open>What a step can do to the table of members.\<close>

definition fresh_member :: "ProjectMember \<Rightarrow> project_db \<Rightarrow> bool" where
  "fresh_member m db \<longleftrightarrow> (\<forall>q \<in> set (pd_members db). pm_ProjectID q = pm_ProjectID m \<longrightarrow> pm_UserID q \<noteq> pm_UserID m) \<and> \<not> pm_deleted m"

inductive member_change :: "string \<Rightarrow> project_db \<Rightarrow> project_db \<Rightarrow> bool" for a db db' where
  same: "pd_members db' = pd_members db \<Longrightarrow> member_change a db db'"
| pinned: "pd_members db' = map (\<lambda>m. if member_row p a m then m\<lparr>pm_PinnedAt := t\<rparr> else m) (pd_members db) \<Longrightarrow>
    member_change a db db'"
| created: "pd_members db' = pd_members db @ [m] \<Longrightarrow> fresh_member m db \<Longrightarrow> pm_UserID m = a \<Longrightarrow> pm_Role m = RoleAdmin \<Longrightarrow>
    (\<forall>q \<in> set (pd_projects db). pj_ID q \<noteq> pm_ProjectID m) \<Longrightarrow> member_change a db db'"
| accepted: "pd_members db' = pd_members db @ [m] \<Longrightarrow> fresh_member m db \<Longrightarrow> pm_UserID m = a \<Longrightarrow>
    i \<in> set (pd_invitations db) \<Longrightarrow> pi_InviteeID i = a \<Longrightarrow> pi_Status i = InvitationPending \<Longrightarrow>
    pi_ProjectID i = pm_ProjectID m \<Longrightarrow> pi_Role i = pm_Role m \<Longrightarrow> member_change a db db'"
| removed: "pd_members db' = map (\<lambda>m. if member_row p target m then m\<lparr>pm_deleted := True\<rparr> else m) (pd_members db) \<Longrightarrow>
    is_admin p a db \<Longrightarrow> (role_of p target db = Some RoleAdmin \<longrightarrow> 1 < adminCount p db) \<Longrightarrow> member_change a db db'"
| regraded: "pd_members db' = map (\<lambda>m. if member_row p target m then m\<lparr>pm_Role := newRole\<rparr> else m) (pd_members db) \<Longrightarrow>
    is_admin p a db \<Longrightarrow> isValidRole newRole \<Longrightarrow>
    (role_of p target db = Some RoleAdmin \<and> newRole \<noteq> RoleAdmin \<longrightarrow> 1 < adminCount p db) \<Longrightarrow> member_change a db db'"

lemma insert_member_Some:
  "insert_member m db = Some db' \<Longrightarrow> \<not> pm_deleted m \<Longrightarrow> db' = db\<lparr>pd_members := pd_members db @ [m]\<rparr> \<and> fresh_member m db"
  by (auto simp: insert_member_def fresh_member_def list_ex_iff split: if_splits)

lemma insert_project_Some:
  "insert_project p db = Some db' \<Longrightarrow> db' = db\<lparr>pd_projects := pd_projects db @ [p]\<rparr> \<and> (\<forall>q \<in> set (pd_projects db). pj_ID q \<noteq> pj_ID p)"
  by (auto simp: insert_project_def list_ex_iff split: if_splits)

lemma exec_cases: "snd (exec ok db db') = db \<or> snd (exec ok db db') = db' \<and> ok"
  by (simp add: exec_def)

lemma members_update [simp]:
  "pd_members (update_project p f db) = pd_members db"
  "pd_members (update_invitation i g db) = pd_members db"
  "pd_members (expire_invitations now db) = pd_members db"
  by (simp_all add: update_project_def update_invitation_def expire_invitations_def)

lemma members_insert_invitation: "insert_invitation i db = Some db' \<Longrightarrow> pd_members db' = pd_members db"
  by (auto simp: insert_invitation_def split: if_splits)

lemma members_insert_repository: "insert_repository i db = Some db' \<Longrightarrow> pd_members db' = pd_members db"
  by (auto simp: insert_repository_def split: if_splits)

text \<open>Operations that leave the members alone.\<close>

lemma same_members:
  "pd_members (snd (UpdateProject dbok p a ups db)) = pd_members db"
  "pd_members (snd (DeleteProject dbok p a db)) = pd_members db"
  "pd_members (snd (ArchiveProject dbok now p a db)) = pd_members db"
  "pd_members (snd (UnarchiveProject dbok p a db)) = pd_members db"
  "pd_members (snd (UpdateProjectArchiveTime dbok p a t db)) = pd_members db"
  "pd_members (snd (CreateInvitation dbok newID now p a invitee r msg db)) = pd_members db"
  "pd_members (snd (ListMyInvitations dbok now a db)) = pd_members db"
  "pd_members (snd (CancelInvitation dbok i a db)) = pd_members db"
  "pd_members (snd (BindRepository dbok url_Parse newID now p a url name db)) = pd_members db"
  "pd_members (snd (UnbindRepository dbok p bindingID a db)) = pd_members db"
  by (auto simp: UpdateProject_def DeleteProject_def ArchiveProject_def UnarchiveProject_def UpdateProjectArchiveTime_def
      CreateInvitation_def ListMyInvitations_def CancelInvitation_def BindRepository_def UnbindRepository_def exec_def Let_def
      dest: members_insert_invitation members_insert_repository split: sum.split option.split)

lemma SetProjectPin_change: "member_change a db (snd (SetProjectPin dbok now p a pinned db))"
proof (cases "pd_members (snd (SetProjectPin dbok now p a pinned db)) = pd_members db")
  case False
  then show ?thesis
    by (intro pinned[where p = p and t = "if pinned then Some now else None"])
      (auto simp: SetProjectPin_def exec_def update_member_def split: sum.splits option.splits if_splits)
qed (rule same)

lemma CreateProject_change: "member_change a db (snd (CreateProject dbok newID memberID now a name desc enabledAt db))"
proof (cases "pd_members (snd (CreateProject dbok newID memberID now a name desc enabledAt db)) = pd_members db")
  case False
  let ?m = "\<lparr>pm_ID = memberID, pm_ProjectID = newID, pm_UserID = a, pm_Role = RoleAdmin, pm_PinnedAt = None, pm_JoinedAt = now,
     pm_deleted = False\<rparr>"
  show ?thesis using False
    by (intro created[where m = ?m])
      (auto simp: CreateProject_def Let_def fresh_member_def insert_member_def insert_project_def list_ex_iff split: option.splits if_splits)
qed (rule same)

lemma GetInvitation_found: "GetInvitation ok i db = Inr iv \<Longrightarrow> iv \<in> set (pd_invitations db) \<and> pi_ID iv = i"
  by (auto simp: GetInvitation_def dest: First_SomeD split: if_splits option.splits)

lemma RespondInvitation_change: "member_change a db (snd (RespondInvitation dbok memberID now i a accept db))"
proof (cases "pd_members (snd (RespondInvitation dbok memberID now i a accept db)) = pd_members db")
  case False
  then obtain iv where iv: "GetInvitation (dbok 0) i db = Inr iv"
    by (auto simp: RespondInvitation_def split: sum.splits)
  let ?m = "\<lparr>pm_ID = memberID, pm_ProjectID = pi_ProjectID iv, pm_UserID = a, pm_Role = pi_Role iv, pm_PinnedAt = None,
     pm_JoinedAt = now, pm_deleted = False\<rparr>"
  show ?thesis using False GetInvitation_found[OF iv]
    by (intro accepted[where m = ?m and i = iv])
      (auto simp: RespondInvitation_def iv Let_def fresh_member_def insert_member_def list_ex_iff split: option.splits if_splits)
qed (rule same)

lemma RemoveMember_change: "member_change a db (snd (RemoveMember dbok p a target db))"
proof (cases "pd_members (snd (RemoveMember dbok p a target db)) = pd_members db")
  case False
  then obtain pj m where o: "admin_on_open dbok p a db = Inr pj" "GetMember (dbok 2) p target db = Inr m"
    by (auto simp: RemoveMember_def split: sum.splits)
  show ?thesis using False admin_on_open_admin[OF o(1)] GetMember_role[OF o(2)]
    by (intro removed[where p = p and target = target])
      (auto simp: RemoveMember_def o exec_def update_member_def split: if_splits)
qed (rule same)

lemma UpdateMemberRole_change: "member_change a db (snd (UpdateMemberRole dbok p a target newRole db))"
proof (cases "pd_members (snd (UpdateMemberRole dbok p a target newRole db)) = pd_members db")
  case False
  then obtain pj m where o: "admin_on_open dbok p a db = Inr pj" "GetMember (dbok 2) p target db = Inr m"
    by (auto simp: UpdateMemberRole_def split: sum.splits if_splits)
  show ?thesis using False admin_on_open_admin[OF o(1)] GetMember_role[OF o(2)]
    by (intro regraded[where p = p and target = target and newRole = newRole])
      (auto simp: UpdateMemberRole_def o exec_def update_member_def split: if_splits)
qed (rule same)

lemma project_step_change: "project_step a db db' \<Longrightarrow> member_change a db db'"
  by (induction rule: project_step.induct)
    (rule CreateProject_change SetProjectPin_change RemoveMember_change UpdateMemberRole_change RespondInvitation_change
       same same_members)+

section \<open>Administrators\<close>

lemma map_update_keys:
  assumes "\<And>m. (pm_ProjectID (f m), pm_UserID (f m)) = (pm_ProjectID m, pm_UserID m)"
  shows "map (\<lambda>m. (pm_ProjectID m, pm_UserID m)) (map (\<lambda>m. if P m then f m else m) ms) = map (\<lambda>m. (pm_ProjectID m, pm_UserID m)) ms"
  using assms by (simp add: if_distrib cong: if_cong)

lemma member_change_unique:
  assumes "member_change a db db'" "members_unique db"
  shows "members_unique db'"
  using assms
  by cases (auto simp: members_unique_def fresh_member_def map_update_keys simp del: map_map)

lemma another_admin:
  assumes "members_unique db" "1 < adminCount p db"
  shows "\<exists>m \<in> set (pd_members db). admin_row p m \<and> pm_UserID m \<noteq> u"
proof -
  obtain x y rest where xy: "filter (admin_row p) (pd_members db) = x # y # rest"
    using assms(2) unfolding adminCount_rows by (cases "filter (admin_row p) (pd_members db)"; cases "tl (filter (admin_row p) (pd_members db))") auto
  have "distinct (map (\<lambda>m. (pm_ProjectID m, pm_UserID m)) (filter (admin_row p) (pd_members db)))"
    using assms(1) unfolding members_unique_def by (rule distinct_map_filter)
  then have d: "(pm_ProjectID x, pm_UserID x) \<noteq> (pm_ProjectID y, pm_UserID y)" using xy by simp
  have "x \<in> set (filter (admin_row p) (pd_members db))" "y \<in> set (filter (admin_row p) (pd_members db))"
    unfolding xy by simp_all
  then have r: "x \<in> set (pd_members db)" "y \<in> set (pd_members db)" "admin_row p x" "admin_row p y" by simp_all
  then have "pm_UserID x \<noteq> pm_UserID y" using d by (auto simp: admin_row_def)
  then show ?thesis using r by metis
qed

definition has_admin :: "string \<Rightarrow> project_db \<Rightarrow> bool" where
  "has_admin p db \<longleftrightarrow> (\<exists>m \<in> set (pd_members db). admin_row p m)"

lemma member_change_admin:
  assumes "member_change a db db'" "members_unique db" "has_admin q db"
  shows "has_admin q db'"
proof -
  obtain m0 where m0: "m0 \<in> set (pd_members db)" "admin_row q m0" using assms(3) by (auto simp: has_admin_def)
  have survive: "has_admin q db'"
    if "pd_members db' = map (\<lambda>m. if member_row p t m then f m else m) (pd_members db)"
      "m \<in> set (pd_members db)" "admin_row q (if member_row p t m then f m else m)" for p t f m
  proof -
    have "(if member_row p t m then f m else m) \<in> set (pd_members db')" unfolding that(1) set_map using that(2) by (rule imageI)
    then show ?thesis using that(3) unfolding has_admin_def by blast
  qed
  from assms(1) show ?thesis
  proof cases
    case same then show ?thesis using m0 by (auto simp: has_admin_def)
  next
    case (pinned p t) then show ?thesis using m0 by (intro survive[of p a "\<lambda>m. m\<lparr>pm_PinnedAt := t\<rparr>" m0]) (auto simp: admin_row_def)
  next
    case (created m) then show ?thesis using m0 by (auto simp: has_admin_def)
  next
    case (accepted m i) then show ?thesis using m0 by (auto simp: has_admin_def)
  next
    case (removed p t)
    show ?thesis
    proof (cases "member_row p t m0")
      case True
      then have "role_of p t db = Some RoleAdmin" "q = p"
        using m0 role_of_iff[OF assms(2)] by (auto simp: admin_row_def member_row_def)
      then obtain m where "m \<in> set (pd_members db)" "admin_row q m" "pm_UserID m \<noteq> t"
        using another_admin[OF assms(2)] removed(3) by blast
      then show ?thesis using removed(1) by (intro survive) (auto simp: member_row_def)
    next
      case False
      then show ?thesis using m0 removed(1) by (intro survive[of p t "\<lambda>m. m\<lparr>pm_deleted := True\<rparr>" m0]) auto
    qed
  next
    case (regraded p t r)
    show ?thesis
    proof (cases "member_row p t m0 \<and> r \<noteq> RoleAdmin")
      case True
      then have "role_of p t db = Some RoleAdmin" "q = p"
        using m0 role_of_iff[OF assms(2)] by (auto simp: admin_row_def member_row_def)
      then obtain m where "m \<in> set (pd_members db)" "admin_row q m" "pm_UserID m \<noteq> t"
        using another_admin[OF assms(2)] regraded(4) True by blast
      then show ?thesis using regraded(1) by (intro survive) (auto simp: member_row_def)
    next
      case False
      then show ?thesis using m0 regraded(1) by (intro survive[of p t "\<lambda>m. m\<lparr>pm_Role := r\<rparr>" m0]) (auto simp: admin_row_def)
    qed
  qed
qed

lemma live_update_project:
  assumes "p' \<in> set (pd_projects (update_project i f db))" "\<not> pj_deleted p'" "\<And>p. pj_ID (f p) = pj_ID p"
  shows "\<exists>p \<in> set (pd_projects db). pj_ID p = pj_ID p' \<and> \<not> pj_deleted p"
  using assms by (auto simp: update_project_def split: if_splits)

lemma projects_same [simp]:
  "pd_projects (update_member p u f db) = pd_projects db"
  "pd_projects (update_invitation i g db) = pd_projects db"
  "pd_projects (expire_invitations now db) = pd_projects db"
  by (simp_all add: update_member_def update_invitation_def expire_invitations_def)

lemma same_projects:
  "pd_projects (snd (SetProjectPin dbok now p a pinned db)) = pd_projects db"
  "pd_projects (snd (RemoveMember dbok p a target db)) = pd_projects db"
  "pd_projects (snd (UpdateMemberRole dbok p a target newRole db)) = pd_projects db"
  "pd_projects (snd (CreateInvitation dbok newID now p a invitee r msg db)) = pd_projects db"
  "pd_projects (snd (RespondInvitation dbok memberID now i a accept db)) = pd_projects db"
  "pd_projects (snd (ListMyInvitations dbok now a db)) = pd_projects db"
  "pd_projects (snd (CancelInvitation dbok i a db)) = pd_projects db"
  "pd_projects (snd (BindRepository dbok url_Parse newID now p a url name db)) = pd_projects db"
  "pd_projects (snd (UnbindRepository dbok p bindingID a db)) = pd_projects db"
  by (auto simp: SetProjectPin_def RemoveMember_def UpdateMemberRole_def CreateInvitation_def RespondInvitation_def
      ListMyInvitations_def CancelInvitation_def BindRepository_def UnbindRepository_def exec_def Let_def
      insert_member_def insert_invitation_def insert_repository_def split: sum.split option.split)

lemma CreateProject_projects:
  assumes "p' \<in> set (pd_projects (snd (CreateProject dbok newID memberID now a name desc enabledAt db)))" "p' \<notin> set (pd_projects db)"
  shows "has_admin (pj_ID p') (snd (CreateProject dbok newID memberID now a name desc enabledAt db))"
  using assms
  by (auto simp: CreateProject_def Let_def insert_project_def insert_member_def has_admin_def admin_row_def split: option.splits if_splits)

lemma apply_updates_id: "pj_ID (apply_updates u p) = pj_ID p"
  by (simp add: apply_updates_def)

lemma project_step_projects:
  assumes "project_step a db db'" "p' \<in> set (pd_projects db')" "\<not> pj_deleted p'"
  shows "(\<exists>p \<in> set (pd_projects db). pj_ID p = pj_ID p' \<and> \<not> pj_deleted p) \<or> has_admin (pj_ID p') db'"
  using assms
proof (induction rule: project_step.induct)
  case (create a db dbok newID memberID now name desc enabledAt)
  then show ?case using CreateProject_projects by blast
next
  case (update a db dbok p ups)
  then show ?case
    by (auto simp: UpdateProject_def exec_def Let_def apply_updates_id dest!: live_update_project split: sum.splits if_splits)
next
  case (delete a db dbok p)
  then show ?case by (auto simp: DeleteProject_def exec_def dest!: live_update_project split: option.splits if_splits)
next
  case (archive a db dbok now p)
  then show ?case by (auto simp: ArchiveProject_def exec_def dest!: live_update_project split: sum.splits if_splits)
next
  case (unarchive a db dbok p)
  then show ?case by (auto simp: UnarchiveProject_def exec_def dest!: live_update_project split: sum.splits if_splits)
next
  case (archive_time a db dbok p t)
  then show ?case by (auto simp: UpdateProjectArchiveTime_def exec_def dest!: live_update_project split: sum.splits if_splits)
qed (auto simp: same_projects)

lemma reachable_members_unique: "project_reachable db \<Longrightarrow> members_unique db"
proof (induction rule: project_reachable.induct)
  case empty show ?case by (simp add: members_unique_def empty_projects_def)
qed (blast dest: project_step_change member_change_unique)

lemma reachable_has_admin:
  "project_reachable db \<Longrightarrow> \<forall>p \<in> set (pd_projects db). \<not> pj_deleted p \<longrightarrow> has_admin (pj_ID p) db"
proof (induction rule: project_reachable.induct)
  case (step db a db')
  have "has_admin q db'" if "has_admin q db" for q
    using member_change_admin[OF project_step_change[OF step.hyps(2)] reachable_members_unique[OF step.hyps(1)] that] .
  then show ?case using project_step_projects[OF step.hyps(2)] step.IH by metis
qed (simp add: empty_projects_def)

text \<open>
  C18. No project is orphaned: after any sequence of operations by any users, whatever statements
  of the database fail, a project that is not deleted has an administrator, and no user has two
  memberships in a project.
\<close>

theorem every_project_has_admin:
  assumes "project_reachable db"
  shows "members_unique db \<and> (\<forall>p \<in> set (pd_projects db). \<not> pj_deleted p \<longrightarrow> (\<exists>u. is_admin (pj_ID p) u db))"
proof -
  have u: "members_unique db" by (rule reachable_members_unique[OF assms])
  have "\<exists>u. is_admin p u db" if "has_admin p db" for p
    using that role_of_iff[OF u] by (fastforce simp: has_admin_def is_admin_def admin_row_def member_row_def)
  then show ?thesis using u reachable_has_admin[OF assms] by blast
qed

lemma role_of_map_other:
  assumes "pd_members db' = map (\<lambda>m. if member_row q t m then f m else m) (pd_members db)"
    and "\<And>m. pm_ProjectID (f m) = pm_ProjectID m" "\<And>m. pm_UserID (f m) = pm_UserID m" "(p, u) \<noteq> (q, t)"
    and "members_unique db" "members_unique db'"
  shows "role_of p u db' = role_of p u db"
proof -
  have "(\<exists>m' \<in> set (pd_members db'). member_row p u m' \<and> pm_Role m' = r) \<longleftrightarrow>
      (\<exists>m \<in> set (pd_members db). member_row p u m \<and> pm_Role m = r)" for r
    unfolding assms(1) using assms(2-4) by (auto simp: member_row_def)
  then have "role_of p u db' = Some r \<longleftrightarrow> role_of p u db = Some r" for r
    using role_of_iff[OF assms(5)] role_of_iff[OF assms(6)] by simp
  then show ?thesis by (metis not_None_eq)
qed

lemma role_of_append:
  assumes "pd_members db' = pd_members db @ [m]" "fresh_member m db" "members_unique db" "members_unique db'"
  shows "role_of p u db' = (if p = pm_ProjectID m \<and> u = pm_UserID m then Some (pm_Role m) else role_of p u db)"
    and "role_of (pm_ProjectID m) (pm_UserID m) db = None"
proof -
  show n: "role_of (pm_ProjectID m) (pm_UserID m) db = None"
    using assms(2) by (auto simp: role_of_None fresh_member_def member_row_def)
  have "role_of p u db' = Some r \<longleftrightarrow> (if p = pm_ProjectID m \<and> u = pm_UserID m then Some (pm_Role m) else role_of p u db) = Some r" for r
    using n assms(2) unfolding role_of_iff[OF assms(4)] assms(1)
    by (auto simp: role_of_iff[OF assms(3)] role_of_None fresh_member_def member_row_def)
  then show "role_of p u db' = (if p = pm_ProjectID m \<and> u = pm_UserID m then Some (pm_Role m) else role_of p u db)"
    by (metis not_None_eq)
qed

lemma role_of_pinned:
  assumes "pd_members db' = map (\<lambda>m. if member_row q t m then m\<lparr>pm_PinnedAt := x\<rparr> else m) (pd_members db)"
    and "members_unique db" "members_unique db'"
  shows "role_of p u db' = role_of p u db"
proof -
  define g where "g = (\<lambda>m. if member_row q t m then m\<lparr>pm_PinnedAt := x\<rparr> else m)"
  have g: "member_row p u (g m) = member_row p u m" "pm_Role (g m) = pm_Role m" for m
    by (simp_all add: g_def member_row_def)
  have "role_of p u db' = Some r \<longleftrightarrow> role_of p u db = Some r" for r
    unfolding role_of_iff[OF assms(2)] role_of_iff[OF assms(3)] assms(1)[folded g_def] by (simp add: g)
  then show ?thesis by (metis not_None_eq)
qed

text \<open>
  C19. Nobody raises his own rights: when one step by user \<open>a\<close> changes what role \<open>u\<close> has in project \<open>p\<close>, then
  \<open>a\<close> is an administrator of \<open>p\<close>, or \<open>a\<close> is \<open>u\<close>, had no role there, and either accepted a pending invitation and
  got the role it names, or created the project.
\<close>

theorem role_change_authorised:
  assumes "project_reachable db" and "project_step a db db'" and "role_of p u db' \<noteq> role_of p u db"
  shows "is_admin p a db \<or>
    a = u \<and> role_of p u db = None \<and>
      ((\<exists>i \<in> set (pd_invitations db). pi_ProjectID i = p \<and> pi_InviteeID i = u \<and> pi_Status i = InvitationPending \<and>
          role_of p u db' = Some (pi_Role i)) \<or>
       role_of p u db' = Some RoleAdmin \<and> (\<forall>q \<in> set (pd_projects db). pj_ID q \<noteq> p))"
proof -
  have u: "members_unique db" "members_unique db'"
    using reachable_members_unique assms(1,2) project_reachable.step by blast+
  from project_step_change[OF assms(2)] show ?thesis
  proof cases
    case same then show ?thesis using assms(3) by (simp add: role_of_def)
  next
    case (pinned q t) then show ?thesis using role_of_pinned[OF _ u] assms(3) by blast
  next
    case (created m)
    then show ?thesis using role_of_append[OF created(1,2) u] assms(3) by (auto split: if_splits)
  next
    case (accepted m i)
    then show ?thesis using role_of_append[OF accepted(1,2) u] assms(3) by (auto split: if_splits)
  next
    case (removed q t)
    then have "(p, u) = (q, t)" using role_of_map_other[OF removed(1) _ _ _ u] assms(3) by fastforce
    then show ?thesis using removed(2) by simp
  next
    case (regraded q t r)
    then have "(p, u) = (q, t)" using role_of_map_other[OF regraded(1) _ _ _ u] assms(3) by fastforce
    then show ?thesis using regraded(2) by simp
  qed
qed

section \<open>The life of an invitation\<close>

definition invitations_unique :: "project_db \<Rightarrow> bool" where
  "invitations_unique db \<longleftrightarrow> distinct (map pi_ID (pd_invitations db))"

text \<open>What a step by \<open>a\<close> may do to an existing invitation, and which invitations it may add.\<close>

definition invitation_next :: "string \<Rightarrow> project_db \<Rightarrow> ProjectInvitation \<Rightarrow> ProjectInvitation \<Rightarrow> bool" where
  "invitation_next a db' i i' \<longleftrightarrow>
     i' = i \<or>
     pi_Status i = InvitationPending \<and> i' = i\<lparr>pi_Status := pi_Status i', pi_RespondedAt := pi_RespondedAt i'\<rparr> \<and>
     (pi_Status i' = InvitationCancelled \<or>
      pi_InviteeID i = a \<and> pi_Status i' = InvitationRejected \<or>
      pi_InviteeID i = a \<and> pi_Status i' = InvitationAccepted \<and>
        (\<exists>m \<in> set (pd_members db'). member_row (pi_ProjectID i) a m \<and> pm_Role m = pi_Role i))"

definition invitation_new :: "string \<Rightarrow> project_db \<Rightarrow> ProjectInvitation \<Rightarrow> bool" where
  "invitation_new a db i \<longleftrightarrow> pi_Status i = InvitationPending \<and> pi_InviterID i = a \<and> is_admin (pi_ProjectID i) a db \<and>
     role_of (pi_ProjectID i) (pi_InviteeID i) db = None \<and> isValidRole (pi_Role i) \<and> (\<forall>j \<in> set (pd_invitations db). pi_ID j \<noteq> pi_ID i)"

definition invitations_change :: "string \<Rightarrow> project_db \<Rightarrow> project_db \<Rightarrow> bool" where
  "invitations_change a db db' \<longleftrightarrow>
     (\<exists>olds news. pd_invitations db' = olds @ news \<and> list_all2 (invitation_next a db') (pd_invitations db) olds \<and>
        (news = [] \<or> (\<exists>i. news = [i] \<and> invitation_new a db i)))"

lemma invitation_next_refl [simp]: "invitation_next a db' i i"
  by (simp add: invitation_next_def)

lemma invitations_same: "pd_invitations db' = pd_invitations db \<Longrightarrow> invitations_change a db db'"
  unfolding invitations_change_def by (intro exI[of _ "pd_invitations db"] exI[of _ "[]"]) (simp add: list_all2_same)

lemma invitations_map:
  assumes "pd_invitations db' = map f (pd_invitations db)" "\<forall>i \<in> set (pd_invitations db). invitation_next a db' i (f i)"
  shows "invitations_change a db db'"
  unfolding invitations_change_def using assms
  by (intro exI[of _ "pd_invitations db'"] exI[of _ "[]"]) (simp add: list_all2_map2 list_all2_same)

lemma same_invitations:
  "pd_invitations (snd (CreateProject dbok newID memberID now a name desc enabledAt db)) = pd_invitations db"
  "pd_invitations (snd (SetProjectPin dbok now p a pinned db)) = pd_invitations db"
  "pd_invitations (snd (UpdateProject dbok p a ups db)) = pd_invitations db"
  "pd_invitations (snd (DeleteProject dbok p a db)) = pd_invitations db"
  "pd_invitations (snd (ArchiveProject dbok now p a db)) = pd_invitations db"
  "pd_invitations (snd (UnarchiveProject dbok p a db)) = pd_invitations db"
  "pd_invitations (snd (UpdateProjectArchiveTime dbok p a t db)) = pd_invitations db"
  "pd_invitations (snd (RemoveMember dbok p a target db)) = pd_invitations db"
  "pd_invitations (snd (UpdateMemberRole dbok p a target newRole db)) = pd_invitations db"
  "pd_invitations (snd (BindRepository dbok url_Parse newID now p a url nm db)) = pd_invitations db"
  "pd_invitations (snd (UnbindRepository dbok p bindingID a db)) = pd_invitations db"
  by (auto simp: CreateProject_def SetProjectPin_def UpdateProject_def DeleteProject_def ArchiveProject_def UnarchiveProject_def
      UpdateProjectArchiveTime_def RemoveMember_def UpdateMemberRole_def BindRepository_def UnbindRepository_def exec_def Let_def
      update_project_def update_member_def insert_project_def insert_member_def insert_repository_def
      split: sum.split option.split)

lemma CreateInvitation_change: "invitations_change a db (snd (CreateInvitation dbok newID now p a invitee r msg db))"
proof (cases "pd_invitations (snd (CreateInvitation dbok newID now p a invitee r msg db)) = pd_invitations db")
  case False
  let ?i = "\<lparr>pi_ID = newID, pi_ProjectID = p, pi_InviterID = a, pi_InviteeID = invitee,
     pi_Role = (if r = [] then RoleMember else r), pi_Status = InvitationPending, pi_Message = msg,
     pi_RespondedAt = None, pi_ExpiresAt = Some (now + week), pi_CreatedAt = now\<rparr>"
  obtain pj where o: "admin_on_open dbok p a db = Inr pj"
    using False by (auto simp: CreateInvitation_def Let_def split: sum.splits if_splits)
  have "GetMember (dbok 2) p invitee db = Inl ErrNotMember"
    using False by (auto simp: CreateInvitation_def Let_def split: sum.splits if_splits)
  then have n: "role_of p invitee db = None" by (auto simp: GetMember_def role_of_def split: if_splits option.splits)
  have "pd_invitations (snd (CreateInvitation dbok newID now p a invitee r msg db)) = pd_invitations db @ [?i] \<and>
      invitation_new a db ?i"
    using False admin_on_open_admin[OF o] n
    by (auto simp: CreateInvitation_def o Let_def insert_invitation_def invitation_new_def list_ex_iff
        split: sum.splits if_splits option.splits)
  then show ?thesis unfolding invitations_change_def
    by (intro exI[of _ "pd_invitations db"] exI[of _ "[?i]"]) (simp add: list_all2_same)
qed (rule invitations_same)

lemma ListMyInvitations_change: "invitations_change a db (snd (ListMyInvitations dbok now a db))"
proof (cases "dbok 0")
  case True
  then show ?thesis
    by (intro invitations_map[where f = "\<lambda>i. if pi_Status i = InvitationPending \<and>
          (case pi_ExpiresAt i of None \<Rightarrow> False | Some t \<Rightarrow> t < now) then i\<lparr>pi_Status := InvitationCancelled\<rparr> else i"])
      (auto simp: ListMyInvitations_def Let_def expire_invitations_def invitation_next_def)
qed (auto intro: invitations_same simp: ListMyInvitations_def)

lemma CancelInvitation_change:
  assumes "invitations_unique db"
  shows "invitations_change a db (snd (CancelInvitation dbok i a db))"
proof (cases "pd_invitations (snd (CancelInvitation dbok i a db)) = pd_invitations db")
  case False
  then obtain iv where iv: "GetInvitation (dbok 0) i db = Inr iv" "pi_Status iv = InvitationPending"
    by (auto simp: CancelInvitation_def split: sum.splits if_splits)
  have only: "j = iv" if "j \<in> set (pd_invitations db)" "pi_ID j = i" for j
    using assms that GetInvitation_found[OF iv(1)] by (auto simp: invitations_unique_def distinct_map inj_on_def)
  show ?thesis using False iv only
    by (intro invitations_map[where f = "\<lambda>j. if pi_ID j = i then j\<lparr>pi_Status := InvitationCancelled\<rparr> else j"])
      (auto simp: CancelInvitation_def exec_def update_invitation_def invitation_next_def split: if_splits)
qed (rule invitations_same)

lemma RespondInvitation_invitations:
  assumes "invitations_unique db"
  shows "invitations_change a db (snd (RespondInvitation dbok memberID now i a accept db))" (is "invitations_change a db ?db'")
proof (cases "pd_invitations ?db' = pd_invitations db")
  case False
  then obtain iv where iv: "GetInvitation (dbok 0) i db = Inr iv"
    by (auto simp: RespondInvitation_def split: sum.splits)
  have found: "iv \<in> set (pd_invitations db)" "pi_ID iv = i" using GetInvitation_found[OF iv] by auto
  have only: "j = iv" if "j \<in> set (pd_invitations db)" "pi_ID j = i" for j
    using assms that found by (auto simp: invitations_unique_def distinct_map inj_on_def)
  let ?f = "\<lambda>j. if pi_ID j = i then j\<lparr>pi_Status := (if accept then InvitationAccepted else InvitationRejected),
      pi_RespondedAt := Some now\<rparr> else j"
  have eff: "pi_InviteeID iv = a \<and> pi_Status iv = InvitationPending \<and> pd_invitations ?db' = map ?f (pd_invitations db) \<and>
      (accept \<longrightarrow> (\<exists>m \<in> set (pd_members ?db'). member_row (pi_ProjectID iv) a m \<and> pm_Role m = pi_Role iv))"
    using False found(2)
    by (auto simp: RespondInvitation_def iv Let_def update_invitation_def insert_member_def member_row_def
        split: if_splits option.splits)
  show ?thesis
  proof (rule invitations_map)
    show "pd_invitations ?db' = map ?f (pd_invitations db)" using eff by blast
    show "\<forall>j \<in> set (pd_invitations db). invitation_next a ?db' j (?f j)"
      using eff only unfolding invitation_next_def by (cases accept) auto
  qed
qed (rule invitations_same)

lemma project_step_invitations:
  assumes "project_step a db db'" "invitations_unique db"
  shows "invitations_change a db db'"
  using assms
  by (induction rule: project_step.induct)
    (auto intro: invitations_same CreateInvitation_change ListMyInvitations_change CancelInvitation_change
       RespondInvitation_invitations simp: same_invitations)

lemma invitation_next_id: "invitation_next a db' i i' \<Longrightarrow> pi_ID i' = pi_ID i"
  unfolding invitation_next_def
  by (erule disjE, simp, elim conjE, drule arg_cong[where f = pi_ID], simp)

lemma reachable_invitations_unique: "project_reachable db \<Longrightarrow> invitations_unique db"
proof (induction rule: project_reachable.induct)
  case (step db a db')
  obtain olds news where c: "pd_invitations db' = olds @ news" "list_all2 (invitation_next a db') (pd_invitations db) olds"
    "news = [] \<or> (\<exists>i. news = [i] \<and> invitation_new a db i)"
    using project_step_invitations[OF step.hyps(2) step.IH] unfolding invitations_change_def by blast
  have ids: "map pi_ID olds = map pi_ID (pd_invitations db)"
    using c(2) by (induction rule: list_all2_induct) (auto dest: invitation_next_id)
  then have "set (map pi_ID olds) = set (map pi_ID (pd_invitations db))" by simp
  then show ?case using step.IH c(3) ids
    by (auto simp: invitations_unique_def c(1) invitation_new_def)
qed (simp add: invitations_unique_def empty_projects_def)

text \<open>
  An invitation is made by an administrator for somebody who is not a member, and is answered
  at most once: in a step by user \<open>a\<close> an invitation stays as it is, or it was pending and is now
  cancelled, or \<open>a\<close> is its invitee and rejected it, or accepted it and is now a member with the role it
  names; only its status and the time of the answer change.
\<close>

theorem invitation_lifecycle:
  assumes "project_reachable db" and "project_step a db db'"
  shows "\<exists>olds news. pd_invitations db' = olds @ news \<and>
    list_all2 (\<lambda>i i'. i' = i \<or>
      pi_Status i = InvitationPending \<and> i' = i\<lparr>pi_Status := pi_Status i', pi_RespondedAt := pi_RespondedAt i'\<rparr> \<and>
      (pi_Status i' = InvitationCancelled \<or> pi_InviteeID i = a \<and> pi_Status i' = InvitationRejected \<or>
       pi_InviteeID i = a \<and> pi_Status i' = InvitationAccepted \<and> role_of (pi_ProjectID i) a db' = Some (pi_Role i)))
      (pd_invitations db) olds \<and>
    length news \<le> 1 \<and>
    (\<forall>i \<in> set news. pi_Status i = InvitationPending \<and> pi_InviterID i = a \<and> is_admin (pi_ProjectID i) a db \<and>
       role_of (pi_ProjectID i) (pi_InviteeID i) db = None \<and> isValidRole (pi_Role i))"
proof -
  have u: "members_unique db'"
    using reachable_members_unique project_reachable.step[OF assms] by blast
  obtain olds news where c: "pd_invitations db' = olds @ news" "list_all2 (invitation_next a db') (pd_invitations db) olds"
    "news = [] \<or> (\<exists>i. news = [i] \<and> invitation_new a db i)"
    using project_step_invitations[OF assms(2) reachable_invitations_unique[OF assms(1)]]
    unfolding invitations_change_def by blast
  show ?thesis
  proof (intro exI conjI)
    show "pd_invitations db' = olds @ news" by (rule c(1))
    show "list_all2 (\<lambda>i i'. i' = i \<or>
      pi_Status i = InvitationPending \<and> i' = i\<lparr>pi_Status := pi_Status i', pi_RespondedAt := pi_RespondedAt i'\<rparr> \<and>
      (pi_Status i' = InvitationCancelled \<or> pi_InviteeID i = a \<and> pi_Status i' = InvitationRejected \<or>
       pi_InviteeID i = a \<and> pi_Status i' = InvitationAccepted \<and> role_of (pi_ProjectID i) a db' = Some (pi_Role i)))
      (pd_invitations db) olds"
      using c(2) unfolding invitation_next_def role_of_iff[OF u] .
  qed (use c(3) in \<open>auto simp: invitation_new_def\<close>)
qed

text \<open>
  A user who was removed cannot come back: the removed row still occupies the unique index, so
  accepting a new invitation fails.
\<close>

theorem removed_member_cannot_return:
  assumes "m \<in> set (pd_members db)" and "pm_ProjectID m = pi_ProjectID iv" and "pm_UserID m = u"
    and "GetInvitation True i db = Inr iv"
  shows "\<exists>e. RespondInvitation (\<lambda>_. True) memberID now i u True db = (Inl e, db)"
  using assms by (auto simp: RespondInvitation_def Let_def update_invitation_def insert_member_def list_ex_iff)

section \<open>Repository addresses\<close>

definition plain_seg :: "string \<Rightarrow> bool" where
  "plain_seg s \<longleftrightarrow> s \<noteq> [] \<and> s \<noteq> ''.'' \<and> s \<noteq> ''..'' \<and> CHR ''/'' \<notin> set s"

lemma clean_plain: "\<forall>s \<in> set segs. plain_seg s \<Longrightarrow> fold (clean_step r) segs out = out @ segs"
  by (induction segs arbitrary: out) (auto simp: clean_step_def plain_seg_def)

lemma path_Clean_plain:
  assumes "\<forall>s \<in> set segs. plain_seg s" "segs \<noteq> []"
  shows "path_Clean (''/'' @ join_with ''/'' segs) = ''/'' @ join_with ''/'' segs"
proof -
  have "split_on CHR ''/'' (join_with [CHR ''/''] segs) = segs"
    using assms by (intro split_join) (auto simp: plain_seg_def)
  then have "split_on CHR ''/'' (''/'' @ join_with ''/'' segs) = [] # segs" by simp
  then show ?thesis using clean_plain[OF assms(1), of True "[]"]
    by (simp add: path_Clean_def Let_def clean_step_def)
qed

lemma join_with_snoc: "join_with d (xs @ [x]) = (if xs = [] then x else join_with d xs @ d @ x)"
  by (induction d xs rule: join_with.induct) auto

lemma join_last_append: "segs \<noteq> [] \<Longrightarrow> join_with d (butlast segs @ [last segs @ x]) = join_with d segs @ x"
  by (subst (3) append_butlast_last_id[symmetric]) (simp_all add: join_with_snoc del: append_butlast_last_id)

lemma last_join: "segs \<noteq> [] \<Longrightarrow> last segs \<noteq> [] \<Longrightarrow> last (join_with d segs) = last (last segs) \<and> join_with d segs \<noteq> []"
  by (subst (1 3) append_butlast_last_id[symmetric]) (simp_all add: join_with_snoc del: append_butlast_last_id)

lemma trim_suffix_none: "s \<noteq> [] \<Longrightarrow> p \<noteq> [] \<Longrightarrow> last s \<noteq> last p \<Longrightarrow> trim_suffix s p = s"
  by (auto simp: trim_suffix_def has_suffix_iff)

text \<open>The cleaned path for the spellings of a repository path.\<close>

lemma clean_repo_path_forms:
  assumes "\<forall>s \<in> set segs. plain_seg s" "segs \<noteq> []"
  defines "p \<equiv> ''/'' @ join_with ''/'' segs"
  shows "\<not> has_suffix p ''.git'' \<Longrightarrow> clean_repo_path p = p"
    and "clean_repo_path (p @ ''.git'') = p"
    and "clean_repo_path (p @ ''/'') = p"
    and "clean_repo_path (p @ ''.git/'') = p @ ''.git''"
proof -
  have l: "last segs \<in> set segs" using assms(2) by simp
  then have ls: "last segs \<noteq> []" "CHR ''/'' \<notin> set (last segs)" using assms(1) by (auto simp: plain_seg_def)
  have "last p = last (last segs)" using last_join[OF assms(2) ls(1), of "''/''"] by (simp add: p_def)
  then have np: "last p \<noteq> CHR ''/''" using ls by (metis last_in_set)
  have p: "p \<noteq> []" by (simp add: p_def)
  have t: "trim_suffix p ''/'' = p" using p np by (intro trim_suffix_none) auto
  have c: "path_Clean p = p" unfolding p_def by (rule path_Clean_plain[OF assms(1,2)])
  show "clean_repo_path p = p" if "\<not> has_suffix p ''.git''" using that t c by (simp add: clean_repo_path_def trim_suffix_def[of p "''.git''"])
  show "clean_repo_path (p @ ''.git'') = p" using t c by (simp add: clean_repo_path_def)
  have "trim_suffix (p @ ''/'') ''.git'' = p @ ''/''" by (rule trim_suffix_none) auto
  then show "clean_repo_path (p @ ''/'') = p" using c by (simp add: clean_repo_path_def)
  let ?segs = "butlast segs @ [last segs @ ''.git'']"
  have "\<forall>s \<in> set ?segs. plain_seg s" using assms(1) ls by (auto simp: plain_seg_def dest: in_set_butlastD)
  then have g: "path_Clean (p @ ''.git'') = p @ ''.git''"
    using path_Clean_plain[of ?segs] join_last_append[OF assms(2), of "''/''" "''.git''"] by (simp add: p_def)
  have "trim_suffix (p @ ''.git/'') ''.git'' = (p @ ''.git'') @ ''/''" by (subst trim_suffix_none) auto
  then show "clean_repo_path (p @ ''.git/'') = p @ ''.git''"
    unfolding clean_repo_path_def using g by (simp only: trim_suffix_append)
qed

text \<open>What is used of \<^verbatim>\<open>url.Parse\<close>: an address with scheme, a host of letters, digits, dots and
  hyphens and a path of such characters, underscores and slashes is split there.\<close>

definition host_letters :: string where
  "host_letters = ''abcdefghijklmnopqrstuvwxyzABCDEFGHIJKLMNOPQRSTUVWXYZ0123456789.-''"

definition host_char :: "char \<Rightarrow> bool" where
  "host_char c \<longleftrightarrow> c \<in> set host_letters"

definition path_char :: "char \<Rightarrow> bool" where
  "path_char c \<longleftrightarrow> c \<in> set (host_letters @ ''_/'')"

definition parses_https :: "(string \<Rightarrow> repo_URL option) \<Rightarrow> bool" where
  "parses_https url_Parse \<longleftrightarrow>
     (\<forall>h q. h \<noteq> [] \<and> list_all host_char h \<and> list_all path_char q \<longrightarrow>
        url_Parse (''https://'' @ h @ ''/'' @ q) = Some \<lparr>ru_Scheme = ''https'', ru_Host = h, ru_Path = ''/'' @ q\<rparr>)"

lemma plain_letters: "list_all plain_char (host_letters @ ''_/'')"
  by code_simp

lemma path_char_plain: "path_char c \<Longrightarrow> plain_char c"
  using plain_letters unfolding list_all_iff path_char_def by blast

lemma letter_facts:
  "plain_char CHR ''g''" "plain_char CHR ''h''" "\<not> host_char CHR '':''" "\<not> host_char CHR ''/''" "list_all path_char ''.git/''"
  by code_simp+

lemma index_of_colon: "CHR '':'' \<notin> set h \<Longrightarrow> index_of (h @ '':'' @ r) '':'' = Some (length h)"
  by (induction h) auto

lemma normalize_https:
  assumes "parses_https url_Parse" "h \<noteq> []" "list_all host_char h" "list_all path_char q" "q \<noteq> []"
    and "clean_repo_path (''/'' @ q) = ''/'' @ q'" "q' \<noteq> []"
  shows "normalizeGitRepoURL url_Parse (''https://'' @ h @ ''/'' @ q) = Some (''https://'' @ to_lower h @ to_lower (''/'' @ q'))"
proof -
  let ?u = "''https://'' @ h @ ''/'' @ q"
  have "plain_char (last q)" using assms(4,5) path_char_plain by (simp add: list_all_iff)
  then have t: "trim_space ?u = ?u"
    using trim_space_plain[OF letter_facts(2), of "last q" "''ttps://'' @ h @ ''/'' @ q"] assms(5) by simp
  have "\<not> has_prefix ?u ''git@''" by simp
  then show ?thesis using t assms
    by (simp add: normalizeGitRepoURL_def Let_def parses_https_def)
qed

lemma normalize_scp:
  assumes "h \<noteq> []" "list_all host_char h" "list_all path_char q" "q \<noteq> []"
  shows "normalizeGitRepoURL url_Parse (''git@'' @ h @ '':'' @ q) = normalizeGitRepoURL url_Parse (''https://'' @ h @ ''/'' @ q)"
proof -
  have c: "CHR '':'' \<notin> set h" using letter_facts(3) assms(2) unfolding list_all_iff by blast
  have p: "plain_char CHR ''g''" "plain_char CHR ''h''" "plain_char (last q)"
    using letter_facts assms(3,4) path_char_plain by (simp_all add: list_all_iff)
  have t: "trim_space (''git@'' @ h @ '':'' @ q) = ''git@'' @ h @ '':'' @ q" "trim_space (''https://'' @ h @ ''/'' @ q) = ''https://'' @ h @ ''/'' @ q"
    using trim_space_plain[OF p(1,3), of "''it@'' @ h @ '':'' @ q"] trim_space_plain[OF p(2,3), of "''ttps://'' @ h @ ''/'' @ q"] assms(4)
    by simp_all
  have "scp_parts (h @ '':'' @ q) = Some (h, q)"
    using index_of_colon[OF c, of q] assms(1,4) by (simp add: scp_parts_def)
  then have s: "scp_parts (trim_prefix (''git@'' @ h @ '':'' @ q) ''git@'') = Some (h, q)" by (simp only: trim_prefix_append)
  have hp: "has_prefix (''git@'' @ h @ '':'' @ q) ''git@''" "\<not> has_prefix (''https://'' @ h @ ''/'' @ q) ''git@''" by simp_all
  show ?thesis unfolding normalizeGitRepoURL_def Let_def t s if_P[OF hp(1)] if_not_P[OF hp(2)] by simp
qed

text \<open>
  The spellings of a repository address fall together: for a host and a path of ordinary
  elements, the scp form \<^verbatim>\<open>git@host:path.git\<close>, the https form with and without \<^verbatim>\<open>.git\<close> and the https form with
  a trailing slash all give the same lower-case https address, so a project binds them once.
  The form \<^verbatim>\<open>.git/\<close> does not: its suffix is kept, and the same repository can be bound a second time.
\<close>

theorem normalizeGitRepoURL_forms:
  assumes "parses_https url_Parse" and "h \<noteq> []" and "list_all host_char h"
    and "segs \<noteq> []" and "\<forall>s \<in> set segs. plain_seg s" and "list_all path_char (join_with ''/'' segs)"
    and "\<not> has_suffix (''/'' @ join_with ''/'' segs) ''.git''"
  defines "q \<equiv> join_with ''/'' segs"
  defines "address \<equiv> Some (''https://'' @ to_lower h @ to_lower (''/'' @ q))"
  shows "normalizeGitRepoURL url_Parse (''git@'' @ h @ '':'' @ q @ ''.git'') = address \<and>
    normalizeGitRepoURL url_Parse (''https://'' @ h @ ''/'' @ q @ ''.git'') = address \<and>
    normalizeGitRepoURL url_Parse (''https://'' @ h @ ''/'' @ q) = address \<and>
    normalizeGitRepoURL url_Parse (''https://'' @ h @ ''/'' @ q @ ''/'') = address \<and>
    normalizeGitRepoURL url_Parse (''https://'' @ h @ ''/'' @ q @ ''.git/'') \<noteq> address"
proof -
  have q: "q \<noteq> []" using last_join[OF assms(4), of "''/''"] assms(4,5) by (auto simp: q_def plain_seg_def)
  have pc: "list_all path_char q" "list_all path_char (q @ ''.git'')" "list_all path_char (q @ ''/'')" "list_all path_char (q @ ''.git/'')"
    using assms(6) letter_facts(5) by (simp_all add: q_def)
  note forms = clean_repo_path_forms[OF assms(5,4), folded q_def, unfolded append_assoc]
  note https = normalize_https[OF assms(1-3)]
  have 1: "normalizeGitRepoURL url_Parse (''https://'' @ h @ ''/'' @ q @ ''.git'') = address"
    unfolding address_def using forms(2) q pc(2) by (intro https) auto
  have 2: "normalizeGitRepoURL url_Parse (''https://'' @ h @ ''/'' @ q) = address"
    unfolding address_def using forms(1)[OF assms(7)[folded q_def]] q pc(1) by (intro https) auto
  have 3: "normalizeGitRepoURL url_Parse (''https://'' @ h @ ''/'' @ q @ ''/'') = address"
    unfolding address_def using forms(3) q pc(3) by (intro https) auto
  have "normalizeGitRepoURL url_Parse (''https://'' @ h @ ''/'' @ q @ ''.git/'') = Some (''https://'' @ to_lower h @ to_lower (''/'' @ q @ ''.git''))"
    using forms(4) q pc(4) by (intro https) auto
  then have 4: "normalizeGitRepoURL url_Parse (''https://'' @ h @ ''/'' @ q @ ''.git/'') \<noteq> address"
    by (simp add: address_def to_lower_def)
  have 5: "normalizeGitRepoURL url_Parse (''git@'' @ h @ '':'' @ q @ ''.git'') = address"
    using normalize_scp[OF assms(2,3) pc(2)] 1 by simp
  show ?thesis using 1 2 3 4 5 by blast
qed

section \<open>An example\<close>

definition project_example :: project_db where
  "project_example = snd (CreateProject (\<lambda>_. True) ''p'' ''m'' 0 ''u'' ''demo'' [] None empty_projects)"

definition invited_example :: project_db where
  "invited_example = snd (CreateInvitation (\<lambda>_. True) ''i'' 1 ''p'' ''u'' ''v'' [] [] project_example)"

lemma project_example_step: "project_step ''u'' empty_projects project_example"
  unfolding project_example_def by (rule project_step.create)

lemma project_example_reachable: "project_reachable project_example"
  using project_reachable.step[OF project_reachable.empty project_example_step] .

lemma project_example_eq:
  "project_example = \<lparr>pd_projects = [\<lparr>pj_ID = ''p'', pj_Name = ''demo'', pj_Description = [], pj_CreatorID = ''u'', pj_EnabledAt = None,
       pj_ArchivedAt = None, pj_CreatedAt = 0, pj_deleted = False\<rparr>],
     pd_members = [\<lparr>pm_ID = ''m'', pm_ProjectID = ''p'', pm_UserID = ''u'', pm_Role = RoleAdmin, pm_PinnedAt = None, pm_JoinedAt = 0,
       pm_deleted = False\<rparr>], pd_invitations = [], pd_repositories = []\<rparr>"
  by (simp add: project_example_def CreateProject_def empty_projects_def First_def insert_project_def insert_member_def Let_def)

theorem every_project_has_admin_witness: "project_reachable project_example \<and> (\<exists>u. is_admin ''p'' u project_example)"
  using every_project_has_admin[OF project_example_reachable] project_example_reachable by (simp add: project_example_eq)

theorem role_change_authorised_witness:
  "role_of ''p'' ''u'' project_example = Some RoleAdmin \<and> role_of ''p'' ''u'' empty_projects = None"
proof -
  have r: "role_of ''p'' ''u'' project_example = Some RoleAdmin" "\<not> is_admin ''p'' ''u'' empty_projects"
    by (simp_all add: project_example_eq role_of_def First_def member_row_def is_admin_def empty_projects_def)
  then show ?thesis
    using role_change_authorised[OF project_reachable.empty project_example_step, where p = "''p''" and u = "''u''"]
    by (auto simp: is_admin_def)
qed

theorem invitation_lifecycle_witness:
  "pd_invitations project_example = [] \<and> length (pd_invitations invited_example) \<le> 1"
proof -
  have "project_step ''u'' project_example invited_example" unfolding invited_example_def by (rule project_step.invite)
  then show ?thesis using invitation_lifecycle[OF project_example_reachable, of "''u''" invited_example]
    by (auto simp: project_example_eq)
qed

definition parse_example :: "string \<Rightarrow> repo_URL option" where
  "parse_example s =
     (if has_prefix s ''https://''
      then Some \<lparr>ru_Scheme = ''https'', ru_Host = takeWhile (\<lambda>c. c \<noteq> CHR ''/'') (drop 8 s), ru_Path = dropWhile (\<lambda>c. c \<noteq> CHR ''/'') (drop 8 s)\<rparr>
      else None)"

lemma parse_example_ok: "parses_https parse_example"
  unfolding parses_https_def
proof (intro allI impI)
  fix h q assume a: "h \<noteq> [] \<and> list_all host_char h \<and> list_all path_char q"
  have "\<forall>c \<in> set h. c \<noteq> CHR ''/''" using a letter_facts(4) unfolding list_all_iff by blast
  then have "takeWhile (\<lambda>c. c \<noteq> CHR ''/'') (h @ ''/'' @ q) = h" "dropWhile (\<lambda>c. c \<noteq> CHR ''/'') (h @ ''/'' @ q) = ''/'' @ q"
    by (simp_all add: takeWhile_append2 dropWhile_append2)
  then show "parse_example (''https://'' @ h @ ''/'' @ q) = Some \<lparr>ru_Scheme = ''https'', ru_Host = h, ru_Path = ''/'' @ q\<rparr>"
    by (simp add: parse_example_def)
qed

lemma address_example:
  "to_lower ''Host'' = ''host''" "to_lower ''/Org/repo'' = ''/org/repo''" "list_all host_char ''Host''" "list_all path_char ''Org/repo''"
  by code_simp+

theorem normalizeGitRepoURL_forms_witness:
  "normalizeGitRepoURL parse_example ''git@Host:Org/repo.git'' = Some ''https://host/org/repo''"
  using normalizeGitRepoURL_forms[OF parse_example_ok, where h = "''Host''" and segs = "[''Org'', ''repo'']"] address_example
  by (simp add: plain_seg_def has_suffix_def)

end
