(* ===== verification/Tenant_Service.thy ===== *)
theory Tenant_Service
  imports Db_Query
begin

text \<open>
  Tenants of the user service (\<^verbatim>\<open>cs-user/internal/tenant/resolver.go\<close>, \<^verbatim>\<open>admin.go\<close> and the request middleware
  \<^verbatim>\<open>cs-user/internal/middleware/tenant.go\<close>).

  The table \<^verbatim>\<open>tenants\<close> is a list of rows with primary key \<^verbatim>\<open>tenant_id\<close> and a unique index on \<^verbatim>\<open>slug\<close>.  Argument
  \<open>dbok\<close> says which statement of an operation the database executes.  The JSON decoder and
  \<^verbatim>\<open>net.SplitHostPort\<close> are arguments; new identifiers and the clock too.  A service without a database, which
  every operation refuses at once, is not modelled.
\<close>

section \<open>The table\<close>

definition StatusActive :: string where "StatusActive = ''active''"

definition StatusSuspended :: string where "StatusSuspended = ''suspended''"

definition StatusDeleted :: string where "StatusDeleted = ''deleted''"

lemmas tenant_status_defs = StatusActive_def StatusSuspended_def StatusDeleted_def

definition EditionFree :: string where "EditionFree = ''free''"

definition EditionTeam :: string where "EditionTeam = ''team''"

definition EditionEnterprise :: string where "EditionEnterprise = ''enterprise''"

definition EditionOnPremise :: string where "EditionOnPremise = ''on_premise''"

datatype tenant_error =
    ErrTenantNotFound
  | ErrAmbiguousTenant
  | ErrSlugTaken
  | ErrEmailDomainConflict
  | ErrInvalidStateTransition
  | ErrInvalidSlug
  | ErrInvalidEdition
  | ErrInvalidDisplayName
  | TenantDBError

record Tenant =
  tn_TenantID :: string
  tn_Slug :: string
  tn_DisplayName :: string
  tn_Status :: string
  tn_Edition :: string
  tn_EmailDomains :: string
  tn_Features :: string
  tn_Limits :: string
  tn_Settings :: string
  tn_DeletionRequestedAt :: "int option"
  tn_CreatedAt :: int

type_synonym json_decoder = "string \<Rightarrow> string list option"

section \<open>Resolution\<close>

definition normalizeEmailDomain :: "string \<Rightarrow> string" where
  "normalizeEmailDomain d = to_lower (trim_space d)"

definition ParseEmailDomains :: "json_decoder \<Rightarrow> Tenant \<Rightarrow> string list" where
  "ParseEmailDomains unmarshal t =
     (let raw = trim_space (tn_EmailDomains t)
      in if raw = [] then []
         else if raw = ''[]'' then []
         else case unmarshal raw of None \<Rightarrow> [] | Some out \<Rightarrow> map normalizeEmailDomain out)"

definition domainFromEmail :: "string \<Rightarrow> string" where
  "domainFromEmail email0 =
     (let email = to_lower (trim_space email0)
      in case last_index email ''@'' of
           None \<Rightarrow> []
         | Some n \<Rightarrow> if n = 0 \<or> n = length email - 1 then [] else drop (n + 1) email)"

definition matches_slug :: "string \<Rightarrow> Tenant \<Rightarrow> bool" where
  "matches_slug slug t \<longleftrightarrow> tn_TenantID t = slug \<or> tn_Slug t = slug"

definition ResolveBySlug :: "bool \<Rightarrow> string \<Rightarrow> Tenant list \<Rightarrow> tenant_error + Tenant" where
  "ResolveBySlug ok slug0 db =
     (let slug = trim_space slug0
      in if slug = [] then Inl ErrTenantNotFound
         else if \<not> ok then Inl TenantDBError
         else case First tn_TenantID (\<lambda>t. matches_slug slug t \<and> tn_Status t = StatusActive) db of
           None \<Rightarrow> Inl ErrTenantNotFound | Some t \<Rightarrow> Inr t)"

definition domain_matches :: "json_decoder \<Rightarrow> string \<Rightarrow> Tenant list \<Rightarrow> Tenant list" where
  "domain_matches unmarshal domain db =
     filter (\<lambda>t. tn_Status t = StatusActive \<and> domain \<in> set (ParseEmailDomains unmarshal t)) db"

definition ResolveByEmailDomain :: "json_decoder \<Rightarrow> bool \<Rightarrow> string \<Rightarrow> Tenant list \<Rightarrow> tenant_error + Tenant" where
  "ResolveByEmailDomain unmarshal ok domain0 db =
     (let domain = normalizeEmailDomain domain0
      in if domain = [] then Inl ErrTenantNotFound
         else if \<not> ok then Inl TenantDBError
         else case domain_matches unmarshal domain db of
           [] \<Rightarrow> Inl ErrTenantNotFound
         | [t] \<Rightarrow> Inr t
         | _ \<Rightarrow> Inl ErrAmbiguousTenant)"

definition ResolveByEmail :: "json_decoder \<Rightarrow> bool \<Rightarrow> string \<Rightarrow> Tenant list \<Rightarrow> tenant_error + Tenant" where
  "ResolveByEmail unmarshal ok email db =
     (let domain = domainFromEmail email
      in if domain = [] then Inl ErrTenantNotFound else ResolveByEmailDomain unmarshal ok domain db)"

definition ListByEmailDomain :: "json_decoder \<Rightarrow> bool \<Rightarrow> string \<Rightarrow> Tenant list \<Rightarrow> tenant_error + Tenant list" where
  "ListByEmailDomain unmarshal ok email db =
     (let domain = domainFromEmail email
      in if domain = [] then Inr []
         else if \<not> ok then Inl TenantDBError
         else Inr (domain_matches unmarshal domain db))"

text \<open>\<open>split\<close> is the host of \<^verbatim>\<open>net.SplitHostPort\<close>, if that succeeds.\<close>

definition strip_port :: "(string \<Rightarrow> string option) \<Rightarrow> string \<Rightarrow> string" where
  "strip_port split h = (case split h of Some a \<Rightarrow> a | None \<Rightarrow> h)"

definition last_label :: "string \<Rightarrow> string" where
  "last_label head = (case last_index head ''.'' of None \<Rightarrow> head | Some n \<Rightarrow> drop (n + 1) head)"

fun slug_loop :: "(string \<Rightarrow> string option) \<Rightarrow> string \<Rightarrow> string list \<Rightarrow> string" where
  "slug_loop split host [] = []"
| "slug_loop split host (apex0 # apexDomains) =
     (let apex1 = to_lower (trim_space apex0)
      in if apex1 = [] then slug_loop split host apexDomains
         else
           let apex = trim_suffix (strip_port split apex1) ''.''
           in if host = apex then []
              else if \<not> has_suffix host (''.'' @ apex) then slug_loop split host apexDomains
              else last_label (trim_suffix host (''.'' @ apex)))"

definition canonical_host :: "(string \<Rightarrow> string option) \<Rightarrow> string \<Rightarrow> string" where
  "canonical_host split host = trim_suffix (to_lower (strip_port split host)) ''.''"

definition slugFromHost :: "(string \<Rightarrow> string option) \<Rightarrow> string \<Rightarrow> string list \<Rightarrow> string" where
  "slugFromHost split host0 apexDomains =
     (let host = trim_space host0
      in if host = [] then [] else slug_loop split (canonical_host split host) apexDomains)"

definition ResolveFromHost ::
  "(string \<Rightarrow> string option) \<Rightarrow> bool \<Rightarrow> string \<Rightarrow> string list \<Rightarrow> Tenant list \<Rightarrow> tenant_error + Tenant" where
  "ResolveFromHost split ok host apexDomains db =
     (let slug = slugFromHost split host apexDomains
      in if slug = [] then Inl ErrTenantNotFound else ResolveBySlug ok slug db)"

section \<open>The request middleware\<close>

definition DefaultTenantSlug :: string where "DefaultTenantSlug = ''default''"

record tenant_signals =
  ts_header :: string
  ts_cookie :: "string option"
  ts_host :: string

text \<open>One layer: a hit, or a miss with the hard error to record, if any.\<close>

definition hard_error :: "tenant_error + Tenant \<Rightarrow> tenant_error option" where
  "hard_error r = (case r of Inl e \<Rightarrow> if e = ErrTenantNotFound then None else Some e | Inr _ \<Rightarrow> None)"

definition later_error :: "tenant_error option \<Rightarrow> tenant_error option \<Rightarrow> tenant_error option" where
  "later_error e1 e2 = (case e2 of Some e \<Rightarrow> Some e | None \<Rightarrow> e1)"

definition resolveTenantFromSignals ::
  "(string \<Rightarrow> string option) \<Rightarrow> (nat \<Rightarrow> bool) \<Rightarrow> tenant_signals \<Rightarrow> string list \<Rightarrow> Tenant list \<Rightarrow>
   Tenant option \<times> tenant_error option" where
  "resolveTenantFromSignals split dbok sig apexDomains db =
     (let r1 = (if ts_header sig \<noteq> [] then ResolveBySlug (dbok 0) (ts_header sig) db else Inl ErrTenantNotFound)
      in case r1 of Inr t \<Rightarrow> (Some t, None)
      | Inl _ \<Rightarrow>
          let e1 = hard_error r1;
              r2 = (case ts_cookie sig of
                      Some raw \<Rightarrow> if raw \<noteq> [] then ResolveBySlug (dbok 1) raw db else Inl ErrTenantNotFound
                    | None \<Rightarrow> Inl ErrTenantNotFound)
          in (case r2 of Inr t \<Rightarrow> (Some t, e1)
             | Inl _ \<Rightarrow>
                 let e2 = later_error e1 (hard_error r2);
                     r3 = (if apexDomains \<noteq> [] then ResolveFromHost split (dbok 2) (ts_host sig) apexDomains db
                           else Inl ErrTenantNotFound)
                 in (case r3 of Inr t \<Rightarrow> (Some t, e2)
                    | Inl e \<Rightarrow> (None, later_error e2 (if e = ErrAmbiguousTenant then None else hard_error r3)))))"

definition ResolveTenant ::
  "(string \<Rightarrow> string option) \<Rightarrow> (nat \<Rightarrow> bool) \<Rightarrow> tenant_signals \<Rightarrow> string list \<Rightarrow> Tenant list \<Rightarrow>
   Tenant option \<times> tenant_error option" where
  "ResolveTenant split dbok sig apexDomains db =
     (case resolveTenantFromSignals split dbok sig apexDomains db of
        (Some t, _) \<Rightarrow> (Some t, None)
      | (None, e) \<Rightarrow>
          (case ResolveBySlug (dbok 3) DefaultTenantSlug db of
             Inl err \<Rightarrow> (None, Some err)
           | Inr t \<Rightarrow> (Some t, e)))"

text \<open>
  The tenant in the context of a request: \<open>None\<close> if no value is stored, \<open>Some None\<close> for a stored nil pointer.
\<close>

type_synonym tenant_ctx = "Tenant option option"

definition DefaultTenantID :: string where "DefaultTenantID = ''default''"

definition WithTenant :: "Tenant option \<Rightarrow> tenant_ctx" where
  "WithTenant t = Some t"

definition FromContext :: "tenant_ctx \<Rightarrow> Tenant option" where
  "FromContext ctx = (case ctx of None \<Rightarrow> None | Some t \<Rightarrow> t)"

definition HasTenant :: "tenant_ctx \<Rightarrow> bool" where
  "HasTenant ctx \<longleftrightarrow> ctx \<noteq> None"

definition IDFromContext :: "tenant_ctx \<Rightarrow> string" where
  "IDFromContext ctx =
     (case FromContext ctx of
        None \<Rightarrow> DefaultTenantID
      | Some t \<Rightarrow> if tn_TenantID t \<noteq> [] then tn_TenantID t else DefaultTenantID)"

definition Scope :: "('a \<Rightarrow> string) \<Rightarrow> tenant_ctx \<Rightarrow> 'a list \<Rightarrow> 'a list" where
  "Scope tenant_id ctx rows = filter (\<lambda>r. tenant_id r = IDFromContext ctx) rows"

section \<open>Administration\<close>

definition slug_char :: "char \<Rightarrow> bool" where
  "slug_char c \<longleftrightarrow> CHR ''a'' \<le> c \<and> c \<le> CHR ''z'' \<or> CHR ''0'' \<le> c \<and> c \<le> CHR ''9'' \<or> c = CHR ''-''"

definition slugPattern :: "string \<Rightarrow> bool" where
  "slugPattern s \<longleftrightarrow> 3 \<le> length s \<and> length s \<le> 32 \<and> list_all slug_char s"

definition isValidEdition :: "string \<Rightarrow> bool" where
  "isValidEdition e \<longleftrightarrow> e \<in> {EditionFree, EditionTeam, EditionEnterprise, EditionOnPremise}"

fun normalize_loop :: "string list \<Rightarrow> string list \<Rightarrow> string list" where
  "normalize_loop out [] = out"
| "normalize_loop out (d0 # ds) =
     (let d = normalizeEmailDomain d0
      in if d = [] \<or> d \<in> set out then normalize_loop out ds else normalize_loop (out @ [d]) ds)"

definition normalizeDomains :: "string list \<Rightarrow> string list" where
  "normalizeDomains ds = normalize_loop [] ds"

definition escape_char :: "char \<Rightarrow> string" where
  "escape_char c = (if c = CHR 0x22 then [CHR 0x5C, CHR 0x22] else if c = CHR 0x5C then [CHR 0x5C, CHR 0x5C] else [c])"

definition quote_domain :: "string \<Rightarrow> string" where
  "quote_domain d = [CHR 0x22] @ concat (map escape_char d) @ [CHR 0x22]"

definition encodeDomains :: "string list \<Rightarrow> string" where
  "encodeDomains ds = (if ds = [] then ''[]'' else ''['' @ join_with '','' (map quote_domain ds) @ '']'')"

definition defaultIfEmpty :: "string \<Rightarrow> string \<Rightarrow> string" where
  "defaultIfEmpty s fallback = (if trim_space s = [] then fallback else s)"

definition findByIDOrSlug :: "bool \<Rightarrow> string \<Rightarrow> Tenant list \<Rightarrow> tenant_error + Tenant" where
  "findByIDOrSlug ok idOrSlug0 db =
     (let idOrSlug = trim_space idOrSlug0
      in if idOrSlug = [] then Inl ErrTenantNotFound
         else if \<not> ok then Inl TenantDBError
         else case First tn_TenantID (matches_slug idOrSlug) db of
           None \<Rightarrow> Inl ErrTenantNotFound | Some t \<Rightarrow> Inr t)"

definition checkDomainOverlap :: "json_decoder \<Rightarrow> bool \<Rightarrow> string list \<Rightarrow> string \<Rightarrow> Tenant list \<Rightarrow> tenant_error option" where
  "checkDomainOverlap unmarshal ok domains excludeTenantID db =
     (if domains = [] then None
      else if \<not> ok then Some TenantDBError
      else if list_ex (\<lambda>t. (excludeTenantID = [] \<or> tn_TenantID t \<noteq> excludeTenantID) \<and>
                 list_ex (\<lambda>d. d \<in> set domains) (ParseEmailDomains unmarshal t)) db
      then Some ErrEmailDomainConflict
      else None)"

record CreateParams =
  cp_Slug :: string
  cp_DisplayName :: string
  cp_Edition :: string
  cp_EmailDomains :: "string list"
  cp_Features :: string
  cp_Limits :: string
  cp_Settings :: string

definition CreateTenant ::
  "json_decoder \<Rightarrow> (nat \<Rightarrow> bool) \<Rightarrow> string \<Rightarrow> int \<Rightarrow> CreateParams \<Rightarrow> Tenant list \<Rightarrow> (tenant_error + Tenant) \<times> Tenant list" where
  "CreateTenant unmarshal dbok newID now p db =
     (let slug = trim_space (cp_Slug p); displayName = trim_space (cp_DisplayName p);
          edition = (if trim_space (cp_Edition p) = [] then EditionTeam else trim_space (cp_Edition p));
          domains = normalizeDomains (cp_EmailDomains p)
      in if \<not> slugPattern slug then (Inl ErrInvalidSlug, db)
         else if displayName = [] then (Inl ErrInvalidDisplayName, db)
         else if \<not> isValidEdition edition then (Inl ErrInvalidEdition, db)
         else case checkDomainOverlap unmarshal (dbok 0) domains [] db of
           Some e \<Rightarrow> (Inl e, db)
         | None \<Rightarrow>
             let tn = \<lparr>tn_TenantID = newID, tn_Slug = slug, tn_DisplayName = displayName, tn_Status = StatusActive,
                   tn_Edition = edition, tn_EmailDomains = encodeDomains domains,
                   tn_Features = defaultIfEmpty (cp_Features p) ''{}'', tn_Limits = defaultIfEmpty (cp_Limits p) ''{}'',
                   tn_Settings = defaultIfEmpty (cp_Settings p) ''{}'', tn_DeletionRequestedAt = None, tn_CreatedAt = now\<rparr>
             in if \<not> dbok 1 then (Inl TenantDBError, db)
                else if list_ex (\<lambda>t. tn_TenantID t = newID \<or> tn_Slug t = slug) db
                then (case findByIDOrSlug (dbok 2) slug db of
                        Inr _ \<Rightarrow> (Inl ErrSlugTaken, db) | Inl _ \<Rightarrow> (Inl TenantDBError, db))
                else (Inr tn, db @ [tn]))"

record ListResult =
  lr_Tenants :: "Tenant list"
  lr_Total :: nat
  lr_Limit :: int
  lr_Offset :: int

definition ListTenants :: "(nat \<Rightarrow> bool) \<Rightarrow> int \<Rightarrow> int \<Rightarrow> string \<Rightarrow> Tenant list \<Rightarrow> tenant_error + ListResult" where
  "ListTenants dbok limit0 offset0 status0 db =
     (let limit = (if limit0 \<le> 0 \<or> 500 < limit0 then 100 else limit0);
          offset = (if offset0 < 0 then 0 else offset0);
          status = trim_space status0;
          rows = filter (\<lambda>t. status = [] \<or> tn_Status t = status) db
      in if \<not> dbok 0 \<or> \<not> dbok 1 then Inl TenantDBError
         else Inr \<lparr>lr_Tenants = take (nat limit) (drop (nat offset) (rev (sort_key tn_CreatedAt rows))),
                   lr_Total = length rows, lr_Limit = limit, lr_Offset = offset\<rparr>)"

definition GetTenant :: "bool \<Rightarrow> string \<Rightarrow> Tenant list \<Rightarrow> tenant_error + Tenant" where
  "GetTenant ok idOrSlug db = findByIDOrSlug ok idOrSlug db"

definition update_tenant :: "string \<Rightarrow> (Tenant \<Rightarrow> Tenant) \<Rightarrow> Tenant list \<Rightarrow> Tenant list" where
  "update_tenant tenantID f db = map (\<lambda>t. if tn_TenantID t = tenantID then f t else t) db"

record UpdateParams =
  up_DisplayName :: "string option"
  up_Edition :: "string option"
  up_EmailDomains :: "string list option"
  up_Features :: "string option"
  up_Limits :: "string option"
  up_Settings :: "string option"

definition set_opt :: "'a option \<Rightarrow> ('a \<Rightarrow> 'b) \<Rightarrow> 'b \<Rightarrow> 'b" where
  "set_opt x f old = (case x of None \<Rightarrow> old | Some v \<Rightarrow> f v)"

definition apply_params :: "UpdateParams \<Rightarrow> Tenant \<Rightarrow> Tenant" where
  "apply_params p t =
     t\<lparr>tn_DisplayName := set_opt (up_DisplayName p) trim_space (tn_DisplayName t),
       tn_Edition := set_opt (up_Edition p) trim_space (tn_Edition t),
       tn_EmailDomains := set_opt (up_EmailDomains p) (encodeDomains \<circ> normalizeDomains) (tn_EmailDomains t),
       tn_Features := set_opt (up_Features p) (\<lambda>s. defaultIfEmpty s ''{}'') (tn_Features t),
       tn_Limits := set_opt (up_Limits p) (\<lambda>s. defaultIfEmpty s ''{}'') (tn_Limits t),
       tn_Settings := set_opt (up_Settings p) (\<lambda>s. defaultIfEmpty s ''{}'') (tn_Settings t)\<rparr>"

text \<open>The answer of a changing operation: the row, read again after the change.\<close>

definition reread :: "bool \<Rightarrow> string \<Rightarrow> Tenant list \<Rightarrow> (tenant_error + Tenant) \<times> Tenant list" where
  "reread ok tenantID db = (findByIDOrSlug ok tenantID db, db)"

definition UpdateTenant ::
  "json_decoder \<Rightarrow> (nat \<Rightarrow> bool) \<Rightarrow> string \<Rightarrow> UpdateParams \<Rightarrow> Tenant list \<Rightarrow> (tenant_error + Tenant) \<times> Tenant list" where
  "UpdateTenant unmarshal dbok idOrSlug p db =
     (case findByIDOrSlug (dbok 0) idOrSlug db of
        Inl e \<Rightarrow> (Inl e, db)
      | Inr tn \<Rightarrow>
          if (case up_DisplayName p of None \<Rightarrow> False | Some d \<Rightarrow> trim_space d = []) then (Inl ErrInvalidDisplayName, db)
          else if (case up_Edition p of None \<Rightarrow> False | Some e \<Rightarrow> \<not> isValidEdition (trim_space e)) then (Inl ErrInvalidEdition, db)
          else case (case up_EmailDomains p of None \<Rightarrow> None
                     | Some ds \<Rightarrow> checkDomainOverlap unmarshal (dbok 1) (normalizeDomains ds) (tn_TenantID tn) db) of
            Some e \<Rightarrow> (Inl e, db)
          | None \<Rightarrow>
              if p = \<lparr>up_DisplayName = None, up_Edition = None, up_EmailDomains = None, up_Features = None,
                      up_Limits = None, up_Settings = None\<rparr> then (Inr tn, db)
              else if \<not> dbok 2 then (Inl TenantDBError, db)
              else reread (dbok 3) (tn_TenantID tn) (update_tenant (tn_TenantID tn) (apply_params p) db))"

definition SuspendTenant :: "(nat \<Rightarrow> bool) \<Rightarrow> string \<Rightarrow> Tenant list \<Rightarrow> (tenant_error + Tenant) \<times> Tenant list" where
  "SuspendTenant dbok idOrSlug db =
     (case findByIDOrSlug (dbok 0) idOrSlug db of
        Inl e \<Rightarrow> (Inl e, db)
      | Inr tn \<Rightarrow>
          if tn_Status tn \<noteq> StatusActive then (Inl ErrInvalidStateTransition, db)
          else if \<not> dbok 1 then (Inl TenantDBError, db)
          else reread (dbok 2) (tn_TenantID tn) (update_tenant (tn_TenantID tn) (\<lambda>t. t\<lparr>tn_Status := StatusSuspended\<rparr>) db))"

definition RestoreTenant :: "(nat \<Rightarrow> bool) \<Rightarrow> string \<Rightarrow> Tenant list \<Rightarrow> (tenant_error + Tenant) \<times> Tenant list" where
  "RestoreTenant dbok idOrSlug db =
     (case findByIDOrSlug (dbok 0) idOrSlug db of
        Inl e \<Rightarrow> (Inl e, db)
      | Inr tn \<Rightarrow>
          if tn_Status tn \<noteq> StatusSuspended then (Inl ErrInvalidStateTransition, db)
          else if \<not> dbok 1 then (Inl TenantDBError, db)
          else reread (dbok 2) (tn_TenantID tn) (update_tenant (tn_TenantID tn) (\<lambda>t. t\<lparr>tn_Status := StatusActive\<rparr>) db))"

definition RequestDeletion :: "(nat \<Rightarrow> bool) \<Rightarrow> int \<Rightarrow> string \<Rightarrow> Tenant list \<Rightarrow> (tenant_error + Tenant) \<times> Tenant list" where
  "RequestDeletion dbok now idOrSlug db =
     (case findByIDOrSlug (dbok 0) idOrSlug db of
        Inl e \<Rightarrow> (Inl e, db)
      | Inr tn \<Rightarrow>
          if tn_Status tn = StatusDeleted then (Inl ErrInvalidStateTransition, db)
          else if \<not> dbok 1 then (Inl TenantDBError, db)
          else reread (dbok 2) (tn_TenantID tn) (update_tenant (tn_TenantID tn)
                 (\<lambda>t. t\<lparr>tn_Status := StatusDeleted, tn_DeletionRequestedAt := Some now\<rparr>) db))"

section \<open>Normal forms of domains\<close>

lemma normalizeEmailDomain_idem [simp]: "normalizeEmailDomain (normalizeEmailDomain d) = normalizeEmailDomain d"
  by (simp add: normalizeEmailDomain_def trim_space_lower to_lower_idem)

definition normal_domains :: "string list \<Rightarrow> bool" where
  "normal_domains ds \<longleftrightarrow> distinct ds \<and> (\<forall>d \<in> set ds. d \<noteq> [] \<and> normalizeEmailDomain d = d)"

lemma normal_domains_snoc:
  "normal_domains out \<Longrightarrow> d \<noteq> [] \<Longrightarrow> d \<notin> set out \<Longrightarrow> normalizeEmailDomain d = d \<Longrightarrow> normal_domains (out @ [d])"
  by (simp add: normal_domains_def)

lemma normalize_loop_normal: "normal_domains out \<Longrightarrow> normal_domains (normalize_loop out ds)"
proof (induction out ds rule: normalize_loop.induct)
  case (2 out d0 ds)
  then show ?case
    by (cases "normalizeEmailDomain d0 = [] \<or> normalizeEmailDomain d0 \<in> set out") (simp_all add: Let_def normal_domains_snoc)
qed simp

lemma normalizeDomains_normal: "normal_domains (normalizeDomains ds)"
  unfolding normalizeDomains_def by (rule normalize_loop_normal) (simp add: normal_domains_def)

section \<open>The stored list of domains\<close>

text \<open>JSON arrays of strings in printable ASCII (RFC 8259), with the two escapes the encoder uses.\<close>

definition ascii_text :: "string \<Rightarrow> bool" where
  "ascii_text s \<longleftrightarrow> list_all (\<lambda>c. 32 \<le> (of_char c :: nat) \<and> of_char c < (127 :: nat)) s"

inductive json_chars :: "string \<Rightarrow> string \<Rightarrow> bool" where
  nil: "json_chars [] []"
| plain: "ascii_text [c] \<Longrightarrow> c \<noteq> CHR 0x22 \<Longrightarrow> c \<noteq> CHR 0x5C \<Longrightarrow> json_chars t v \<Longrightarrow> json_chars (c # t) (c # v)"
| escaped: "c = CHR 0x22 \<or> c = CHR 0x5C \<Longrightarrow> json_chars t v \<Longrightarrow> json_chars (CHR 0x5C # c # t) (c # v)"

inductive json_items :: "string \<Rightarrow> string list \<Rightarrow> bool" where
  one: "json_chars t v \<Longrightarrow> json_items ([CHR 0x22] @ t @ [CHR 0x22]) [v]"
| more: "json_chars t v \<Longrightarrow> json_items r vs \<Longrightarrow> json_items ([CHR 0x22] @ t @ [CHR 0x22] @ '','' @ r) (v # vs)"

definition decodes_json :: "json_decoder \<Rightarrow> bool" where
  "decodes_json unmarshal \<longleftrightarrow> (\<forall>r vs. json_items r vs \<longrightarrow> unmarshal (''['' @ r @ '']'') = Some vs)"

lemma json_chars_escape: "ascii_text d \<Longrightarrow> json_chars (concat (map escape_char d)) d"
  by (induction d) (auto simp: escape_char_def ascii_text_def intro: json_chars.intros)

lemma json_items_quote: "ds \<noteq> [] \<Longrightarrow> \<forall>d \<in> set ds. ascii_text d \<Longrightarrow> json_items (join_with '','' (map quote_domain ds)) ds"
proof (induction ds rule: list_nonempty_induct)
  case (single d)
  then show ?case using json_items.one[OF json_chars_escape[of d]] by (simp add: quote_domain_def)
next
  case (cons d ds)
  then obtain e es where ds: "ds = e # es" by (cases ds) auto
  show ?case using json_items.more[OF json_chars_escape[of d], of "join_with '','' (map quote_domain ds)" ds] cons
    by (simp add: ds quote_domain_def[of d])
qed

lemma brackets_plain: "plain_char CHR ''[''" "plain_char CHR '']''"
  by code_simp+

lemma trim_brackets: "trim_space (''['' @ s @ '']'') = ''['' @ s @ '']''"
  using trim_space_plain[OF brackets_plain, of "s @ '']''"] by simp

text \<open>What is stored is what is read.\<close>

lemma ParseEmailDomains_encode:
  assumes "decodes_json unmarshal" "normal_domains ds" "\<forall>d \<in> set ds. ascii_text d" "tn_EmailDomains t = encodeDomains ds"
  shows "ParseEmailDomains unmarshal t = ds"
proof (cases "ds = []")
  case True
  then show ?thesis using assms(4) trim_brackets[of "[]"] by (simp add: ParseEmailDomains_def Let_def encodeDomains_def)
next
  case False
  let ?r = "join_with '','' (map quote_domain ds)"
  have i: "json_items ?r ds" using json_items_quote[OF False assms(3)] .
  have e: "tn_EmailDomains t = ''['' @ ?r @ '']''" using assms(4) False by (simp add: encodeDomains_def)
  have ne: "?r \<noteq> []" using i by cases auto
  have "unmarshal (''['' @ ?r @ '']'') = Some ds" using assms(1) i unfolding decodes_json_def by blast
  moreover have "map normalizeEmailDomain ds = ds" using assms(2) by (intro map_idI) (auto simp: normal_domains_def)
  ultimately show ?thesis unfolding ParseEmailDomains_def Let_def e trim_brackets using ne by simp
qed

section \<open>Reachable tables\<close>

text \<open>The row the migration inserts.\<close>

definition default_tenant :: Tenant where
  "default_tenant = \<lparr>tn_TenantID = ''default'', tn_Slug = ''default'', tn_DisplayName = ''Default Tenant'', tn_Status = StatusActive,
     tn_Edition = EditionEnterprise, tn_EmailDomains = ''[]'', tn_Features = ''{}'', tn_Limits = ''{}'', tn_Settings = ''{}'',
     tn_DeletionRequestedAt = None, tn_CreatedAt = 0\<rparr>"

text \<open>
  The operations, one after the other, at any time; fresh identifiers have the form of \<^verbatim>\<open>uuid.NewString\<close>.  \<open>given\<close> are the domains in
  the request, and in \<open>tenant_reachable\<close> those of all requests so far.
\<close>

definition uuid_text :: "string \<Rightarrow> bool" where
  "uuid_text s \<longleftrightarrow> length s = 36 \<and> list_all slug_char s"

definition domains_given :: "UpdateParams \<Rightarrow> string set" where
  "domains_given q = (case up_EmailDomains q of None \<Rightarrow> {} | Some ds \<Rightarrow> set ds)"

inductive tenant_step :: "json_decoder \<Rightarrow> string set \<Rightarrow> int \<Rightarrow> Tenant list \<Rightarrow> Tenant list \<Rightarrow> bool" for unmarshal where
  create: "uuid_text newID \<Longrightarrow>
    tenant_step unmarshal (set (cp_EmailDomains p)) now db (snd (CreateTenant unmarshal dbok newID now p db))"
| update: "tenant_step unmarshal (domains_given q) now db (snd (UpdateTenant unmarshal dbok i q db))"
| suspend: "tenant_step unmarshal {} now db (snd (SuspendTenant dbok i db))"
| restore: "tenant_step unmarshal {} now db (snd (RestoreTenant dbok i db))"
| delete: "tenant_step unmarshal {} now db (snd (RequestDeletion dbok now i db))"

inductive tenant_reachable :: "json_decoder \<Rightarrow> string set \<Rightarrow> Tenant list \<Rightarrow> bool" for unmarshal where
  boot: "tenant_reachable unmarshal {} [default_tenant]"
| step: "tenant_reachable unmarshal given db \<Longrightarrow> tenant_step unmarshal new now db db' \<Longrightarrow> tenant_reachable unmarshal (given \<union> new) db'"

text \<open>What a step can do: append one tenant, or change one row.\<close>

definition next_status :: "int \<Rightarrow> Tenant \<Rightarrow> Tenant \<Rightarrow> bool" where
  "next_status now t t' \<longleftrightarrow>
     tn_Status t' = tn_Status t \<and> tn_DeletionRequestedAt t' = tn_DeletionRequestedAt t \<or>
     tn_Status t = StatusActive \<and> tn_Status t' = StatusSuspended \<and> tn_DeletionRequestedAt t' = tn_DeletionRequestedAt t \<or>
     tn_Status t = StatusSuspended \<and> tn_Status t' = StatusActive \<and> tn_DeletionRequestedAt t' = tn_DeletionRequestedAt t \<or>
     tn_Status t \<noteq> StatusDeleted \<and> tn_Status t' = StatusDeleted \<and> tn_DeletionRequestedAt t' = Some now"

definition claims :: "json_decoder \<Rightarrow> Tenant \<Rightarrow> string set" where
  "claims unmarshal t = set (ParseEmailDomains unmarshal t)"

definition fields_ok :: "Tenant \<Rightarrow> bool" where
  "fields_ok t \<longleftrightarrow> slugPattern (tn_Slug t) \<and> tn_DisplayName t \<noteq> [] \<and> isValidEdition (tn_Edition t) \<and>
     tn_Status t \<in> {StatusActive, StatusSuspended, StatusDeleted}"

text \<open>\<open>plain\<close> says that the domains of the request are printable.\<close>

inductive tenant_change :: "json_decoder \<Rightarrow> bool \<Rightarrow> int \<Rightarrow> Tenant list \<Rightarrow> Tenant list \<Rightarrow> bool" for unmarshal plain now db db' where
  same: "db' = db \<Longrightarrow> tenant_change unmarshal plain now db db'"
| created: "db' = db @ [t] \<Longrightarrow> uuid_text (tn_TenantID t) \<Longrightarrow> fields_ok t \<Longrightarrow> tn_Status t = StatusActive \<Longrightarrow> tn_DeletionRequestedAt t = None \<Longrightarrow>
    (\<forall>t' \<in> set db. tn_TenantID t' \<noteq> tn_TenantID t \<and> tn_Slug t' \<noteq> tn_Slug t \<and> (plain \<longrightarrow> claims unmarshal t' \<inter> claims unmarshal t = {})) \<Longrightarrow>
    tenant_change unmarshal plain now db db'"
| changed: "db' = update_tenant (tn_TenantID t) f db \<Longrightarrow> t \<in> set db \<Longrightarrow> tn_TenantID (f t) = tn_TenantID t \<Longrightarrow>
    tn_Slug (f t) = tn_Slug t \<Longrightarrow> next_status now t (f t) \<Longrightarrow> (fields_ok t \<longrightarrow> fields_ok (f t)) \<Longrightarrow>
    plain \<longrightarrow> claims unmarshal (f t) = claims unmarshal t \<or>
      (\<forall>t' \<in> set db. tn_TenantID t' \<noteq> tn_TenantID t \<longrightarrow> claims unmarshal t' \<inter> claims unmarshal (f t) = {}) \<Longrightarrow>
    tenant_change unmarshal plain now db db'"

lemma claims_cong: "tn_EmailDomains t = tn_EmailDomains t' \<Longrightarrow> claims unmarshal t = claims unmarshal t'"
  by (simp add: claims_def ParseEmailDomains_def)

lemma find_found: "findByIDOrSlug ok i db = Inr t \<Longrightarrow> t \<in> set db"
  by (auto simp: findByIDOrSlug_def Let_def dest: First_SomeD split: if_splits option.splits)

lemma status_change:
  assumes "findByIDOrSlug ok i db = Inr t" "next_status now t (f t)" "tn_Status (f t) \<in> {StatusActive, StatusSuspended, StatusDeleted}"
    and f: "\<And>t. tn_TenantID (f t) = tn_TenantID t \<and> tn_Slug (f t) = tn_Slug t \<and> tn_DisplayName (f t) = tn_DisplayName t \<and>
      tn_Edition (f t) = tn_Edition t \<and> tn_EmailDomains (f t) = tn_EmailDomains t"
  shows "tenant_change unmarshal plain now db (update_tenant (tn_TenantID t) f db)"
proof (rule changed[where t = t and f = f])
  show "plain \<longrightarrow> claims unmarshal (f t) = claims unmarshal t \<or>
      (\<forall>t' \<in> set db. tn_TenantID t' \<noteq> tn_TenantID t \<longrightarrow> claims unmarshal t' \<inter> claims unmarshal (f t) = {})"
    using claims_cong[of "f t" t unmarshal] f by simp
  show "fields_ok t \<longrightarrow> fields_ok (f t)" using f[of t] assms(3) by (simp add: fields_ok_def)
qed (use assms f find_found in auto)

text \<open>The shape the three changes of status share: look the tenant up, check its status, update, read again.\<close>

locale tenant_transition =
  fixes now :: int and allowed :: "string \<Rightarrow> bool" and change :: "Tenant \<Rightarrow> Tenant"
    and transition :: "(nat \<Rightarrow> bool) \<Rightarrow> string \<Rightarrow> Tenant list \<Rightarrow> (tenant_error + Tenant) \<times> Tenant list"
  assumes transition: "transition dbok i db =
      (case findByIDOrSlug (dbok 0) i db of
         Inl e \<Rightarrow> (Inl e, db)
       | Inr tn \<Rightarrow>
           if \<not> allowed (tn_Status tn) then (Inl ErrInvalidStateTransition, db)
           else if \<not> dbok 1 then (Inl TenantDBError, db)
           else reread (dbok 2) (tn_TenantID tn) (update_tenant (tn_TenantID tn) change db))"
    and along: "allowed (tn_Status t) \<Longrightarrow> next_status now t (change t)"
    and status: "tn_Status (change t) \<in> {StatusActive, StatusSuspended, StatusDeleted}"
    and keeps: "tn_TenantID (change t) = tn_TenantID t \<and> tn_Slug (change t) = tn_Slug t \<and> tn_DisplayName (change t) = tn_DisplayName t \<and>
      tn_Edition (change t) = tn_Edition t \<and> tn_EmailDomains (change t) = tn_EmailDomains t"
begin

lemma transition_change: "tenant_change unmarshal plain now db (snd (transition dbok i db))"
proof (cases "findByIDOrSlug (dbok 0) i db")
  case (Inr t)
  then show ?thesis
    using status_change[OF Inr, where f = change, OF along status keeps] same[of db db unmarshal plain now]
    by (simp add: transition reread_def)
qed (simp add: transition same)

lemma transition_done:
  assumes "findByIDOrSlug True i db = Inr t" "allowed (tn_Status t)"
    and "\<forall>t' \<in> set db. matches_slug (tn_TenantID t) t' \<longrightarrow> t' = t"
    and "trim_space (tn_TenantID t) = tn_TenantID t" "tn_TenantID t \<noteq> []"
  shows "transition (\<lambda>_. True) i db = (Inr (change t), update_tenant (tn_TenantID t) change db)"
proof -
  let ?db = "update_tenant (tn_TenantID t) change db"
  have t: "t \<in> set db" using find_found[OF assms(1)] .
  have "First tn_TenantID (matches_slug (tn_TenantID t)) ?db = Some (change t)"
  proof (rule First_unique)
    show "change t \<in> set ?db" using t by (force simp: update_tenant_def)
    show "matches_slug (tn_TenantID t) (change t)" using keeps[of t] by (simp add: matches_slug_def)
    show "\<forall>r \<in> set ?db. matches_slug (tn_TenantID t) r \<longrightarrow> r = change t"
      using assms(3) keeps by (auto simp: update_tenant_def matches_slug_def)
  qed
  then show ?thesis using assms by (simp add: transition reread_def findByIDOrSlug_def)
qed

end

interpretation suspend: tenant_transition now "\<lambda>s. s = StatusActive" "\<lambda>t. t\<lparr>tn_Status := StatusSuspended\<rparr>" SuspendTenant for now
  by unfold_locales (simp_all add: SuspendTenant_def next_status_def)

interpretation restore: tenant_transition now "\<lambda>s. s = StatusSuspended" "\<lambda>t. t\<lparr>tn_Status := StatusActive\<rparr>" RestoreTenant for now
  by unfold_locales (simp_all add: RestoreTenant_def next_status_def)

interpretation delete: tenant_transition now "\<lambda>s. s \<noteq> StatusDeleted"
    "\<lambda>t. t\<lparr>tn_Status := StatusDeleted, tn_DeletionRequestedAt := Some now\<rparr>" "\<lambda>dbok. RequestDeletion dbok now" for now
  by unfold_locales (simp_all add: RequestDeletion_def next_status_def split: sum.split)

lemma ascii_lower: "ascii_text s \<Longrightarrow> ascii_text (to_lower s)"
  by (induction s) (auto simp: ascii_text_def to_lower_def lower_char_def Let_def)

lemma ascii_normalize: "ascii_text d \<Longrightarrow> ascii_text (normalizeEmailDomain d)"
proof -
  assume "ascii_text d"
  moreover obtain a b where "d = a @ trim_space d @ b" using trim_space_infix by blast
  ultimately have "ascii_text (trim_space d)" unfolding ascii_text_def by (metis list_all_append)
  then show ?thesis unfolding normalizeEmailDomain_def by (rule ascii_lower)
qed

lemma ascii_normalize_loop:
  "\<forall>d \<in> set out. ascii_text d \<Longrightarrow> \<forall>d \<in> set ds. ascii_text d \<Longrightarrow> d \<in> set (normalize_loop out ds) \<Longrightarrow> ascii_text d"
  by (induction out ds rule: normalize_loop.induct) (auto simp: Let_def ascii_normalize split: if_splits)

lemma claims_encode:
  assumes "decodes_json unmarshal" "\<forall>d \<in> set ds. ascii_text d" "tn_EmailDomains t = encodeDomains (normalizeDomains ds)"
  shows "claims unmarshal t = set (normalizeDomains ds)"
proof -
  have "\<forall>d \<in> set (normalizeDomains ds). ascii_text d"
    using ascii_normalize_loop[of "[]" ds] assms(2) by (auto simp: normalizeDomains_def)
  then show ?thesis
    using ParseEmailDomains_encode[OF assms(1) normalizeDomains_normal _ assms(3)] by (simp add: claims_def)
qed

lemma overlap_None:
  assumes "checkDomainOverlap unmarshal ok domains i db = None" "t \<in> set db" "tn_TenantID t \<noteq> i \<or> i = []"
  shows "claims unmarshal t \<inter> set domains = {}"
  using assms by (auto simp: checkDomainOverlap_def claims_def list_ex_iff split: if_splits)


lemma created_claims:
  assumes "decodes_json unmarshal" "\<forall>d \<in> set ds. ascii_text d" "tn_EmailDomains t = encodeDomains (normalizeDomains ds)"
    and "checkDomainOverlap unmarshal ok (normalizeDomains ds) i db = None" "t' \<in> set db" "tn_TenantID t' \<noteq> i \<or> i = []"
  shows "claims unmarshal t' \<inter> claims unmarshal t = {}"
  using overlap_None[OF assms(4-6)] claims_encode[OF assms(1-3)] by simp

lemma CreateTenant_cases:
  obtains (refused) e where "CreateTenant unmarshal dbok newID now p db = (Inl e, db)"
  | (created) t where "CreateTenant unmarshal dbok newID now p db = (Inr t, db @ [t])" "tn_TenantID t = newID"
      "fields_ok t" "tn_Status t = StatusActive" "tn_DeletionRequestedAt t = None"
      "tn_EmailDomains t = encodeDomains (normalizeDomains (cp_EmailDomains p))"
      "checkDomainOverlap unmarshal (dbok 0) (normalizeDomains (cp_EmailDomains p)) [] db = None"
      "\<forall>t' \<in> set db. tn_TenantID t' \<noteq> newID \<and> tn_Slug t' \<noteq> tn_Slug t"
proof (cases "\<exists>e. CreateTenant unmarshal dbok newID now p db = (Inl e, db)")
  case False
  note no = False[unfolded CreateTenant_def Let_def]
  let ?slug = "trim_space (cp_Slug p)"
  let ?t = "\<lparr>tn_TenantID = newID, tn_Slug = ?slug, tn_DisplayName = trim_space (cp_DisplayName p), tn_Status = StatusActive,
    tn_Edition = (if trim_space (cp_Edition p) = [] then EditionTeam else trim_space (cp_Edition p)),
    tn_EmailDomains = encodeDomains (normalizeDomains (cp_EmailDomains p)),
    tn_Features = defaultIfEmpty (cp_Features p) ''{}'', tn_Limits = defaultIfEmpty (cp_Limits p) ''{}'',
    tn_Settings = defaultIfEmpty (cp_Settings p) ''{}'', tn_DeletionRequestedAt = None, tn_CreatedAt = now\<rparr>"
  have g: "slugPattern ?slug" "trim_space (cp_DisplayName p) \<noteq> []"
      "isValidEdition (if trim_space (cp_Edition p) = [] then EditionTeam else trim_space (cp_Edition p))"
      "checkDomainOverlap unmarshal (dbok 0) (normalizeDomains (cp_EmailDomains p)) [] db = None" "dbok 1"
      "\<not> list_ex (\<lambda>t. tn_TenantID t = newID \<or> tn_Slug t = ?slug) db"
    using no by (auto split: if_splits option.splits sum.splits)
  have "CreateTenant unmarshal dbok newID now p db = (Inr ?t, db @ [?t])"
    unfolding CreateTenant_def Let_def using g by simp
  then show ?thesis by (rule created) (use g in \<open>auto simp: fields_ok_def list_ex_iff\<close>)
qed (use refused in blast)

lemma CreateTenant_change:
  assumes "decodes_json unmarshal" "uuid_text newID"
  shows "tenant_change unmarshal (\<forall>d \<in> set (cp_EmailDomains p). ascii_text d) now db (snd (CreateTenant unmarshal dbok newID now p db))"
proof (cases unmarshal dbok newID now p db rule: CreateTenant_cases)
  case (created t)
  have "claims unmarshal t' \<inter> claims unmarshal t = {}" if "t' \<in> set db" "\<forall>d \<in> set (cp_EmailDomains p). ascii_text d" for t'
    using created_claims[OF assms(1) that(2) created(6,7) that(1)] by simp
  then show ?thesis using created assms(2) by (intro tenant_change.created[where t = t]) auto
qed (simp add: same)

lemma apply_params_fields:
  assumes "fields_ok t" "\<not> (case up_DisplayName p of None \<Rightarrow> False | Some d \<Rightarrow> trim_space d = [])"
    and "\<not> (case up_Edition p of None \<Rightarrow> False | Some e \<Rightarrow> \<not> isValidEdition (trim_space e))"
  shows "fields_ok (apply_params p t)"
  using assms by (auto simp: fields_ok_def apply_params_def set_opt_def split: option.splits)

lemma UpdateTenant_change:
  assumes "decodes_json unmarshal"
  shows "tenant_change unmarshal (\<forall>d \<in> domains_given p. ascii_text d) now db (snd (UpdateTenant unmarshal dbok i p db))"
proof (cases "snd (UpdateTenant unmarshal dbok i p db) = db")
  case False
  note no = False[unfolded UpdateTenant_def]
  obtain t where t: "findByIDOrSlug (dbok 0) i db = Inr t"
    using no by (cases "findByIDOrSlug (dbok 0) i db") auto
  let ?check = "case up_EmailDomains p of None \<Rightarrow> None
    | Some ds \<Rightarrow> checkDomainOverlap unmarshal (dbok 1) (normalizeDomains ds) (tn_TenantID t) db"
  have g: "\<not> (case up_DisplayName p of None \<Rightarrow> False | Some d \<Rightarrow> trim_space d = [])"
      "\<not> (case up_Edition p of None \<Rightarrow> False | Some e \<Rightarrow> \<not> isValidEdition (trim_space e))" "?check = None"
    using no unfolding t by (simp_all split: if_splits option.splits)
  have r: "snd (UpdateTenant unmarshal dbok i p db) = update_tenant (tn_TenantID t) (apply_params p) db"
    using no False unfolding UpdateTenant_def t using g by (simp add: reread_def split: if_splits)
  show ?thesis unfolding r
  proof (rule changed[where t = t and f = "apply_params p"])
    show "(\<forall>d \<in> domains_given p. ascii_text d) \<longrightarrow> claims unmarshal (apply_params p t) = claims unmarshal t \<or>
      (\<forall>t' \<in> set db. tn_TenantID t' \<noteq> tn_TenantID t \<longrightarrow> claims unmarshal t' \<inter> claims unmarshal (apply_params p t) = {})"
    proof (cases "up_EmailDomains p")
      case None
      then have "claims unmarshal (apply_params p t) = claims unmarshal t"
        by (intro claims_cong) (simp add: apply_params_def set_opt_def)
      then show ?thesis by simp
    next
      case (Some ds)
      have "tn_EmailDomains (apply_params p t) = encodeDomains (normalizeDomains ds)"
        using Some by (simp add: apply_params_def set_opt_def)
      then show ?thesis using created_claims[OF assms, of ds "apply_params p t"] g(3) Some by (simp add: domains_given_def)
    qed
    show "fields_ok t \<longrightarrow> fields_ok (apply_params p t)" using apply_params_fields g(1,2) by blast
  qed (use t find_found in \<open>auto simp: apply_params_def next_status_def\<close>)
qed (simp add: same)

lemma tenant_step_change:
  assumes "decodes_json unmarshal" "tenant_step unmarshal new now db db'"
  shows "tenant_change unmarshal (\<forall>d \<in> new. ascii_text d) now db db'"
  using assms(2)
proof cases
  case (create newID p dbok)
  then show ?thesis using CreateTenant_change[OF assms(1)] by blast
next
  case (update q dbok i)
  then show ?thesis using UpdateTenant_change[OF assms(1)] by blast
qed (use suspend.transition_change restore.transition_change delete.transition_change in blast)+

section \<open>Invariants of the table\<close>

lemma slug_char_plain: "slug_char c \<Longrightarrow> plain_char c"
proof -
  assume "slug_char c"
  then have "45 \<le> (of_char c :: nat) \<and> of_char c < (123 :: nat)"
    by (auto simp: slug_char_def less_eq_char_def)
  moreover have "list_all (\<lambda>p. \<not> (45 \<le> (of_char (hd p) :: nat) \<and> of_char (hd p) < (123 :: nat)) \<and>
      \<not> (45 \<le> (of_char (last p) :: nat) \<and> of_char (last p) < (123 :: nat))) space_runes"
    by code_simp
  ultimately show ?thesis by (auto simp: plain_char_def list_all_iff)
qed

lemma slug_text_trim: "list_all slug_char s \<Longrightarrow> trim_space s = s"
proof (cases s)
  case (Cons c r)
  assume "list_all slug_char s"
  then have "slug_char c" "slug_char (last (c # r))" using Cons by (auto simp: list_all_iff)
  then show ?thesis using trim_space_plain[OF slug_char_plain slug_char_plain refl] Cons by simp
qed simp

text \<open>An identifier is a UUID, which is no slug, or the slug of its own row.\<close>

definition key_ok :: "Tenant \<Rightarrow> bool" where
  "key_ok t \<longleftrightarrow> uuid_text (tn_TenantID t) \<or> tn_TenantID t = tn_Slug t"

definition tenants_ok :: "Tenant list \<Rightarrow> bool" where
  "tenants_ok db \<longleftrightarrow> distinct (map tn_TenantID db) \<and> distinct (map tn_Slug db) \<and> list_all fields_ok db \<and> list_all key_ok db"

definition claims_disjoint :: "json_decoder \<Rightarrow> Tenant list \<Rightarrow> bool" where
  "claims_disjoint unmarshal db \<longleftrightarrow>
     (\<forall>t \<in> set db. \<forall>t' \<in> set db. tn_TenantID t \<noteq> tn_TenantID t' \<longrightarrow> claims unmarshal t \<inter> claims unmarshal t' = {})"

lemma tenants_okD:
  assumes "tenants_ok db" "t \<in> set db" "t' \<in> set db"
  shows "tn_TenantID t = tn_TenantID t' \<Longrightarrow> t = t'" "tn_Slug t = tn_Slug t' \<Longrightarrow> t = t'" "fields_ok t" "key_ok t"
  using assms by (auto simp: tenants_ok_def list_all_iff distinct_map inj_on_def)

lemma changed_row:
  assumes "tenants_ok db" "t \<in> set db" "u \<in> set db"
  shows "(if tn_TenantID u = tn_TenantID t then f u else u) = (if u = t then f t else u)"
  using tenants_okD(1)[OF assms(1,3,2)] by auto

lemma update_tenant_row:
  "tenants_ok db \<Longrightarrow> t \<in> set db \<Longrightarrow> update_tenant (tn_TenantID t) f db = map (\<lambda>u. if u = t then f t else u) db"
  unfolding update_tenant_def by (rule map_cong) (simp_all add: changed_row)

lemma tenants_ok_step: "tenant_change unmarshal plain now db db' \<Longrightarrow> tenants_ok db \<Longrightarrow> tenants_ok db'"
proof (induction rule: tenant_change.cases)
  case (created t)
  then show ?case by (auto simp: tenants_ok_def key_ok_def)
next
  case (changed t f)
  have r: "db' = map (\<lambda>u. if u = t then f t else u) db" using update_tenant_row changed by simp
  have "map tn_TenantID db' = map tn_TenantID db" "map tn_Slug db' = map tn_Slug db"
    unfolding r using changed by auto
  moreover have "list_all fields_ok db'" "list_all key_ok db'"
    unfolding r using changed tenants_okD(3,4)[OF \<open>tenants_ok db\<close>] by (auto simp: list_all_iff key_ok_def)
  ultimately show ?case using changed by (simp add: tenants_ok_def)
qed simp

lemma claims_disjoint_step:
  "tenant_change unmarshal plain now db db' \<Longrightarrow> plain \<Longrightarrow> tenants_ok db \<Longrightarrow> claims_disjoint unmarshal db \<Longrightarrow> claims_disjoint unmarshal db'"
proof (induction rule: tenant_change.cases)
  case (created t)
  then show ?case unfolding claims_disjoint_def by (auto simp: Int_commute)
next
  case (changed t f)
  have r: "db' = map (\<lambda>u. if u = t then f t else u) db" using update_tenant_row changed by simp
  have "claims unmarshal u \<inter> claims unmarshal (f t) = {}" if "u \<in> set db" "tn_TenantID u \<noteq> tn_TenantID t" for u
    using changed that unfolding claims_disjoint_def by metis
  then show ?case unfolding r using \<open>tn_TenantID (f t) = tn_TenantID t\<close> \<open>claims_disjoint unmarshal db\<close>
    unfolding claims_disjoint_def disjoint_iff by (auto split: if_splits)
qed simp

lemma default_tenant_ok: "tenants_ok [default_tenant]"
  by code_simp

lemma tenant_reachable_ok: "tenant_reachable unmarshal given db \<Longrightarrow> decodes_json unmarshal \<Longrightarrow> tenants_ok db"
proof (induction rule: tenant_reachable.induct)
  case boot
  then show ?case using default_tenant_ok by simp
next
  case (step given db new now db')
  then show ?case using tenant_step_change tenants_ok_step by blast
qed

lemma tenant_reachable_claims:
  "tenant_reachable unmarshal given db \<Longrightarrow> decodes_json unmarshal \<Longrightarrow> \<forall>d \<in> given. ascii_text d \<Longrightarrow> claims_disjoint unmarshal db"
proof (induction rule: tenant_reachable.induct)
  case boot
  then show ?case by (simp add: claims_disjoint_def)
next
  case (step given db new now db')
  have "\<forall>d \<in> new. ascii_text d" using step.prems(2) by blast
  moreover have "claims_disjoint unmarshal db" using step by blast
  ultimately show ?case
    using claims_disjoint_step[OF tenant_step_change[OF step.prems(1) step.hyps(2)]] tenant_reachable_ok[OF step.hyps(1) step.prems(1)] by blast
qed

text \<open>A key names one row.\<close>

lemma matches_unique:
  assumes "tenants_ok db" "t \<in> set db" "t' \<in> set db" "matches_slug k t" "matches_slug k t'"
  shows "t' = t"
proof -
  have clash: "u = u'" if "u \<in> set db" "u' \<in> set db" "tn_TenantID u = tn_Slug u'" for u u'
  proof -
    have "slugPattern (tn_Slug u')" using tenants_okD(3)[OF assms(1) that(2,1)] by (simp add: fields_ok_def)
    then have "\<not> uuid_text (tn_TenantID u)" using that(3) by (auto simp: slugPattern_def uuid_text_def)
    then have "tn_Slug u = tn_Slug u'" using tenants_okD(4)[OF assms(1) that(1,2)] that(3) by (simp add: key_ok_def)
    then show ?thesis using tenants_okD(2)[OF assms(1) that(1,2)] by simp
  qed
  show ?thesis using assms(4,5) clash[OF assms(2,3)] clash[OF assms(3,2)] tenants_okD(1,2)[OF assms(1,3,2)]
    by (auto simp: matches_slug_def)
qed

lemma key_trim:
  assumes "tenants_ok db" "t \<in> set db" "k = tn_TenantID t \<or> k = tn_Slug t"
  shows "trim_space k = k" "k \<noteq> []"
proof -
  have "list_all slug_char (tn_Slug t) \<and> tn_Slug t \<noteq> []"
    using tenants_okD(3)[OF assms(1,2,2)] by (auto simp: fields_ok_def slugPattern_def)
  moreover have "list_all slug_char (tn_TenantID t) \<and> tn_TenantID t \<noteq> []"
    using tenants_okD(4)[OF assms(1,2,2)] calculation by (auto simp: key_ok_def uuid_text_def)
  ultimately show "trim_space k = k" "k \<noteq> []" using assms(3) slug_text_trim by auto
qed

lemma findByIDOrSlug_key:
  assumes "tenants_ok db" "t \<in> set db" "k = tn_TenantID t \<or> k = tn_Slug t"
  shows "findByIDOrSlug True k db = Inr t"
proof -
  have "First tn_TenantID (matches_slug k) db = Some t"
    using assms(2,3) matches_unique[OF assms(1,2)] by (intro First_unique) (auto simp: matches_slug_def)
  then show ?thesis using key_trim[OF assms] by (simp add: findByIDOrSlug_def)
qed

section \<open>Properties\<close>

lemma domain_matches_claim:
  assumes "tenants_ok db" "claims_disjoint unmarshal db" "t \<in> set db" "tn_Status t = StatusActive" "d \<in> claims unmarshal t"
  shows "domain_matches unmarshal d db = [t]"
proof -
  have "tn_Status u = StatusActive \<and> d \<in> set (ParseEmailDomains unmarshal u) \<longleftrightarrow> u = t" if u: "u \<in> set db" for u
  proof
    assume a: "tn_Status u = StatusActive \<and> d \<in> set (ParseEmailDomains unmarshal u)"
    then have "d \<in> claims unmarshal u \<inter> claims unmarshal t" using assms(5) by (simp add: claims_def)
    then have "tn_TenantID u = tn_TenantID t" using assms(2,3) u unfolding claims_disjoint_def by blast
    then show "u = t" using tenants_okD(1)[OF assms(1) u assms(3)] by simp
  next
    assume "u = t"
    then show "tn_Status u = StatusActive \<and> d \<in> set (ParseEmailDomains unmarshal u)" using assms(4,5) by (simp add: claims_def)
  qed
  then have "domain_matches unmarshal d db = filter (\<lambda>u. u = t) db"
    unfolding domain_matches_def by (rule filter_cong[OF refl])
  also have "\<dots> = [t]"
  proof -
    have "distinct db" using assms(1) by (simp add: tenants_ok_def distinct_map)
    then show ?thesis using assms(3) by (induction db) (auto simp: filter_empty_conv)
  qed
  finally show ?thesis .
qed

lemma claimed_resolves:
  assumes "tenants_ok db" "claims_disjoint unmarshal db" "t \<in> set db" "tn_Status t = StatusActive"
    and "normalizeEmailDomain d \<in> claims unmarshal t" "normalizeEmailDomain d \<noteq> []"
  shows "ResolveByEmailDomain unmarshal True d db = Inr t"
  using domain_matches_claim[OF assms(1-5)] assms(6) by (simp add: ResolveByEmailDomain_def)

lemma unambiguous:
  assumes "tenants_ok db" "claims_disjoint unmarshal db"
  shows "ResolveByEmailDomain unmarshal ok d db \<noteq> Inl ErrAmbiguousTenant"
proof (cases "domain_matches unmarshal (normalizeEmailDomain d) db")
  case (Cons t ts)
  then have "t \<in> set (domain_matches unmarshal (normalizeEmailDomain d) db)" by simp
  then have "domain_matches unmarshal (normalizeEmailDomain d) db = [t]"
    using domain_matches_claim[OF assms] by (simp add: domain_matches_def claims_def)
  then show ?thesis by (simp add: ResolveByEmailDomain_def Let_def)
qed (simp add: ResolveByEmailDomain_def Let_def)

lemma change_rows:
  assumes "tenant_change unmarshal plain now db db'" "tenants_ok db"
  shows "t \<in> set db \<Longrightarrow> \<exists>t' \<in> set db'. tn_TenantID t' = tn_TenantID t \<and> tn_Slug t' = tn_Slug t \<and> next_status now t t'"
    and "t' \<in> set db' \<Longrightarrow>
      (\<exists>t \<in> set db. tn_TenantID t' = tn_TenantID t \<and> tn_Slug t' = tn_Slug t \<and> next_status now t t') \<or>
      tn_Status t' = StatusActive \<and> tn_DeletionRequestedAt t' = None \<and> tn_TenantID t' \<notin> tn_TenantID ` set db \<and> tn_Slug t' \<notin> tn_Slug ` set db"
proof -
  have refl: "next_status now t t" for t by (simp add: next_status_def)
  show "\<exists>t' \<in> set db'. tn_TenantID t' = tn_TenantID t \<and> tn_Slug t' = tn_Slug t \<and> next_status now t t'" if "t \<in> set db"
    using assms(1)
  proof cases
    case (changed u f)
    then show ?thesis using update_tenant_row[OF assms(2), of u f] refl that by (intro bexI[of _ "if t = u then f u else t"]) auto
  qed (use refl that in auto)
  show "(\<exists>t \<in> set db. tn_TenantID t' = tn_TenantID t \<and> tn_Slug t' = tn_Slug t \<and> next_status now t t') \<or>
      tn_Status t' = StatusActive \<and> tn_DeletionRequestedAt t' = None \<and> tn_TenantID t' \<notin> tn_TenantID ` set db \<and> tn_Slug t' \<notin> tn_Slug ` set db"
    if "t' \<in> set db'"
    using assms(1)
  proof cases
    case same
    then show ?thesis using that refl by blast
  next
    case (created u)
    then show ?thesis using that refl by auto
  next
    case (changed u f)
    then have "t' \<in> (\<lambda>x. if x = u then f u else x) ` set db" using update_tenant_row[OF assms(2), of u f] that by simp
    then show ?thesis using changed refl by (auto split: if_splits)
  qed
qed

lemma normalize_loop_set: "set (normalize_loop out ds) = set out \<union> (normalizeEmailDomain ` set ds - {[]})"
  by (induction out ds rule: normalize_loop.induct) (auto simp: Let_def)

lemma normalizeDomains_set: "set (normalizeDomains ds) = normalizeEmailDomain ` set ds - {[]}"
  by (simp add: normalizeDomains_def normalize_loop_set)

lemma ResolveBySlug_slug:
  assumes "tenants_ok db" "t \<in> set db" "tn_Status t = StatusActive"
  shows "ResolveBySlug True (tn_Slug t) db = Inr t"
proof -
  have "First tn_TenantID (\<lambda>u. matches_slug (tn_Slug t) u \<and> tn_Status u = StatusActive) db = Some t"
    using assms(2,3) matches_unique[OF assms(1,2)] by (intro First_unique) (auto simp: matches_slug_def)
  then show ?thesis using key_trim[OF assms(1,2)] by (simp add: ResolveBySlug_def)
qed

text \<open>
  C20. A domain of e-mail is never ambiguous, as long as the requests of administrators do not overlap in time and the
  domains they give are printable ASCII: no domain is claimed by two tenants, whatever their status, so that the login by
  e-mail never reports an ambiguous tenant, and a domain that an active tenant claims resolves to that tenant.
\<close>

theorem email_domain_unambiguous:
  assumes "decodes_json unmarshal" "tenant_reachable unmarshal given db" "\<forall>d \<in> given. ascii_text d"
  shows "(\<forall>t \<in> set db. \<forall>t' \<in> set db. t \<noteq> t' \<longrightarrow> set (ParseEmailDomains unmarshal t) \<inter> set (ParseEmailDomains unmarshal t') = {}) \<and>
    ResolveByEmailDomain unmarshal ok d db \<noteq> Inl ErrAmbiguousTenant \<and>
    (\<forall>t \<in> set db. tn_Status t = StatusActive \<and> normalizeEmailDomain d \<noteq> [] \<and>
       normalizeEmailDomain d \<in> set (ParseEmailDomains unmarshal t) \<longrightarrow> ResolveByEmailDomain unmarshal True d db = Inr t)"
proof -
  note ok = tenant_reachable_ok[OF assms(2,1)] tenant_reachable_claims[OF assms(2,1,3)]
  have "tn_TenantID t \<noteq> tn_TenantID t'" if "t \<in> set db" "t' \<in> set db" "t \<noteq> t'" for t t'
    using tenants_okD(1)[OF ok(1) that(1,2)] that(3) by blast
  then have "\<forall>t \<in> set db. \<forall>t' \<in> set db. t \<noteq> t' \<longrightarrow> claims unmarshal t \<inter> claims unmarshal t' = {}"
    using ok(2) unfolding claims_disjoint_def by blast
  then show ?thesis using claimed_resolves[OF ok] unambiguous[OF ok] by (simp add: claims_def)
qed

text \<open>
  C22. Every table that the operations reach is well formed: identifiers and slugs are unique, every slug has the documented
  form, every name is non-empty, and edition and status are ones of the declared constants.
\<close>

theorem tenants_well_formed:
  assumes "decodes_json unmarshal" "tenant_reachable unmarshal given db"
  shows "distinct (map tn_TenantID db) \<and> distinct (map tn_Slug db) \<and> list_all fields_ok db"
  using tenant_reachable_ok[OF assms(2,1)] by (simp add: tenants_ok_def)

text \<open>
  C21. The life of a tenant.  An operation keeps every tenant with its identifier and slug and moves its status only
  along the documented diagram: active and suspended into each other and both into deleted, which is final and carries the
  time of the request that deletes it.  Every other row is a new tenant: active, with an identifier and a slug that no row had.
\<close>

theorem tenant_lifecycle:
  assumes "decodes_json unmarshal" "tenant_reachable unmarshal given db" "tenant_step unmarshal new now db db'"
  shows "(\<forall>t \<in> set db. \<exists>t' \<in> set db'. tn_TenantID t' = tn_TenantID t \<and> tn_Slug t' = tn_Slug t \<and> next_status now t t') \<and>
    (\<forall>t' \<in> set db'. (\<exists>t \<in> set db. tn_TenantID t' = tn_TenantID t \<and> tn_Slug t' = tn_Slug t \<and> next_status now t t') \<or>
       tn_Status t' = StatusActive \<and> tn_DeletionRequestedAt t' = None \<and> tn_TenantID t' \<notin> tn_TenantID ` set db \<and> tn_Slug t' \<notin> tn_Slug ` set db)"
  using change_rows[OF tenant_step_change[OF assms(1,3)] tenant_reachable_ok[OF assms(2,1)]] by blast

text \<open>
  A tenant that is created is found: under its identifier, by its slug, and by any e-mail domain it was created with.
\<close>

theorem CreateTenant_resolves:
  assumes "decodes_json unmarshal" "tenant_reachable unmarshal given db" "\<forall>d \<in> given. ascii_text d" "uuid_text newID"
    and "\<forall>d \<in> set (cp_EmailDomains p). ascii_text d" "CreateTenant unmarshal dbok newID now p db = (Inr t, db')"
  shows "GetTenant True newID db' = Inr t \<and> ResolveBySlug True (tn_Slug t) db' = Inr t \<and>
    (\<forall>d \<in> set (cp_EmailDomains p). normalizeEmailDomain d \<noteq> [] \<longrightarrow> ResolveByEmailDomain unmarshal True d db' = Inr t)"
  using assms(6)
proof (cases unmarshal dbok newID now p db rule: CreateTenant_cases)
  case (created u)
  then have t: "u = t" "db' = db @ [t]" using assms(6) by auto
  have r: "tenant_reachable unmarshal (given \<union> set (cp_EmailDomains p)) db'"
    using tenant_reachable.step[OF assms(2) tenant_step.create[OF assms(4), of unmarshal p now db dbok]] assms(6) by simp
  have ok: "tenants_ok db'" "claims_disjoint unmarshal db'"
    using tenant_reachable_ok[OF r assms(1)] tenant_reachable_claims[OF r assms(1)] assms(3,5) by auto
  have in_db: "t \<in> set db'" using t by simp
  have "claims unmarshal t = set (normalizeDomains (cp_EmailDomains p))"
    using claims_encode[OF assms(1,5)] created(6) t by simp
  then show ?thesis
    using findByIDOrSlug_key[OF ok(1) in_db] ResolveBySlug_slug[OF ok(1) in_db] claimed_resolves[OF ok in_db] created t
    by (auto simp: GetTenant_def normalizeDomains_set)
qed (use assms(6) in simp)

lemma last_label_split: "\<exists>pre. head = pre @ last_label head \<and> (pre = [] \<or> last pre = CHR ''.'') \<and> CHR ''.'' \<notin> set (last_label head)"
proof (cases "last_index head ''.''")
  case None
  then show ?thesis using last_index_char[where s = head and c = "CHR ''.''"] by (auto simp: last_label_def)
next
  case (Some n)
  then show ?thesis using last_index_char[where s = head and c = "CHR ''.''"]
    by (intro exI[of _ "take n head @ ''.''"]) (simp add: last_label_def)
qed

text \<open>
  The tenant of a host name.  A slug that is read from a host is the whole label in front of one of the configured apex
  domains: it has no dot, and the host is the apex with this label and, if anything, further labels before it.
  So the host of another deployment that only ends in the same letters gives no slug.
\<close>

theorem slugFromHost_sound:
  assumes "slugFromHost split host apexDomains \<noteq> []"
  shows "CHR ''.'' \<notin> set (slugFromHost split host apexDomains) \<and>
    (\<exists>apex \<in> set apexDomains. \<exists>pre. (pre = [] \<or> last pre = CHR ''.'') \<and>
       canonical_host split (trim_space host) =
         pre @ slugFromHost split host apexDomains @ ''.'' @ trim_suffix (strip_port split (to_lower (trim_space apex))) ''.'')"
proof -
  let ?h = "canonical_host split (trim_space host)"
  have "slug_loop split ?h as \<noteq> [] \<Longrightarrow> CHR ''.'' \<notin> set (slug_loop split ?h as) \<and>
    (\<exists>apex \<in> set as. \<exists>pre. (pre = [] \<or> last pre = CHR ''.'') \<and>
       ?h = pre @ slug_loop split ?h as @ ''.'' @ trim_suffix (strip_port split (to_lower (trim_space apex))) ''.'')" for as
  proof (induction as)
    case (Cons a as)
    let ?apex = "trim_suffix (strip_port split (to_lower (trim_space a))) ''.''"
    show ?case
    proof (cases "to_lower (trim_space a) \<noteq> [] \<and> ?h \<noteq> ?apex \<and> has_suffix ?h (''.'' @ ?apex)")
      case True
      then obtain head where h: "?h = head @ ''.'' @ ?apex" by (auto simp: has_suffix_iff)
      then have "slug_loop split ?h (a # as) = last_label head"
        using True trim_suffix_append[of head "''.'' @ ?apex"] by (simp add: Let_def)
      then show ?thesis using last_label_split[of head] h by auto
    next
      case False
      then show ?thesis using Cons by (auto simp: Let_def)
    qed
  qed simp
  then show ?thesis using assms by (auto simp: slugFromHost_def Let_def split: if_splits)
qed

text \<open>The first of some keys that names an active tenant.\<close>

primrec first_named :: "Tenant list \<Rightarrow> string list \<Rightarrow> Tenant option" where
  "first_named db [] = None"
| "first_named db (k # ks) = (case ResolveBySlug True k db of Inr t \<Rightarrow> Some t | Inl _ \<Rightarrow> first_named db ks)"

lemma ResolveBySlug_blank: "ResolveBySlug ok [] db = Inl ErrTenantNotFound"
  by (simp add: ResolveBySlug_def)

lemma slugFromHost_no_apex: "slugFromHost split host [] = []"
  by (simp add: slugFromHost_def Let_def)

lemma hard_error_ResolveBySlug: "ResolveBySlug True k db = Inl e \<Longrightarrow> e = ErrTenantNotFound"
  by (auto simp: ResolveBySlug_def Let_def split: if_splits option.splits)

text \<open>
  While the database answers, the layers of the middleware are a search for the first signal that names an active tenant,
  in the order header, cookie, host, default, and an error is recorded only if none does.
\<close>

theorem ResolveTenant_first:
  "ResolveTenant split (\<lambda>_. True) sig apexDomains db =
     (let r = first_named db [ts_header sig, case ts_cookie sig of None \<Rightarrow> [] | Some k \<Rightarrow> k,
                slugFromHost split (ts_host sig) apexDomains, DefaultTenantSlug]
      in (r, if r = None then Some ErrTenantNotFound else None))"
proof -
  let ?cookie = "case ts_cookie sig of None \<Rightarrow> [] | Some k \<Rightarrow> k" and ?host = "slugFromHost split (ts_host sig) apexDomains"
  have c: "(case ts_cookie sig of Some raw \<Rightarrow> if raw \<noteq> [] then ResolveBySlug True raw db else Inl ErrTenantNotFound
      | None \<Rightarrow> Inl ErrTenantNotFound) = ResolveBySlug True ?cookie db"
    by (simp add: ResolveBySlug_blank split: option.split)
  have h: "(if ts_header sig \<noteq> [] then ResolveBySlug True (ts_header sig) db else Inl ErrTenantNotFound) =
      ResolveBySlug True (ts_header sig) db"
    by (simp add: ResolveBySlug_blank)
  have s: "(if apexDomains \<noteq> [] then ResolveFromHost split True (ts_host sig) apexDomains db else Inl ErrTenantNotFound) =
      ResolveBySlug True ?host db"
    by (simp add: ResolveFromHost_def Let_def ResolveBySlug_blank slugFromHost_no_apex)
  have e: "hard_error (ResolveBySlug True k db) = None" for k
    by (cases "ResolveBySlug True k db") (auto simp: hard_error_def dest: hard_error_ResolveBySlug)
  show ?thesis
    unfolding ResolveTenant_def resolveTenantFromSignals_def c h s e
    by (simp add: Let_def later_error_def split: sum.split) (auto simp: hard_error_def dest!: hard_error_ResolveBySlug)
qed

text \<open>A suspension that is lifted leaves no trace.\<close>

lemma Suspend_Restore:
  assumes "tenants_ok db" "t \<in> set db" "tn_Status t = StatusActive"
  shows "snd (RestoreTenant (\<lambda>_. True) (tn_Slug t) (snd (SuspendTenant (\<lambda>_. True) (tn_Slug t) db))) = db"
proof -
  let ?s = "t\<lparr>tn_Status := StatusSuspended\<rparr>"
  let ?db = "update_tenant (tn_TenantID t) (\<lambda>t. t\<lparr>tn_Status := StatusSuspended\<rparr>) db"
  have k: "trim_space (tn_TenantID t) = tn_TenantID t" "tn_TenantID t \<noteq> []" using key_trim[OF assms(1,2)] by auto
  have s: "SuspendTenant (\<lambda>_. True) (tn_Slug t) db = (Inr ?s, ?db)"
    using matches_unique[OF assms(1,2)] k assms(3)
    by (intro suspend.transition_done) (auto simp: findByIDOrSlug_key[OF assms(1,2)] matches_slug_def)
  have ok: "tenants_ok ?db"
    using tenants_ok_step[OF suspend.transition_change[where dbok = "\<lambda>_. True" and i = "tn_Slug t"] assms(1)] s by simp
  have in_db: "?s \<in> set ?db" using assms(2) by (force simp: update_tenant_def)
  have "RestoreTenant (\<lambda>_. True) (tn_Slug t) ?db =
      (Inr (?s\<lparr>tn_Status := StatusActive\<rparr>), update_tenant (tn_TenantID ?s) (\<lambda>t. t\<lparr>tn_Status := StatusActive\<rparr>) ?db)"
    using matches_unique[OF ok in_db] k
    by (intro restore.transition_done) (auto simp: findByIDOrSlug_key[OF ok in_db] matches_slug_def)
  moreover have "t\<lparr>tn_Status := StatusActive\<rparr> = t" using assms(3) by (cases t) simp
  then have "update_tenant (tn_TenantID ?s) (\<lambda>t. t\<lparr>tn_Status := StatusActive\<rparr>) ?db = db"
    using tenants_okD(1)[OF assms(1) _ assms(2)] unfolding update_tenant_def by (auto intro!: map_idI) metis
  ultimately show ?thesis using s by simp
qed

text \<open>
  The tenant that scopes the queries of a request is the one the middleware pinned.  A request without one works on the default
  tenant, and a context marked with the nil tenant still claims to have one.
\<close>

lemma request_scope: "IDFromContext (WithTenant (Some t)) = (if tn_TenantID t = [] then DefaultTenantID else tn_TenantID t)"
  by (simp add: IDFromContext_def FromContext_def WithTenant_def)

lemma HasTenant_nil: "HasTenant (WithTenant None)" "FromContext (WithTenant None) = None"
  by (simp_all add: HasTenant_def FromContext_def WithTenant_def)

section \<open>Instances\<close>

text \<open>A decoder of arrays of strings, with the two escapes of the encoder.\<close>

fun json_string :: "string \<Rightarrow> (string \<times> string) option" where
  "json_string [] = None"
| "json_string (c # s) =
     (if c = CHR 0x22 then Some ([], s)
      else if c = CHR 0x5C
      then (case s of [] \<Rightarrow> None | e # r \<Rightarrow> if e = CHR 0x22 \<or> e = CHR 0x5C then map_option (apfst (Cons e)) (json_string r) else None)
      else map_option (apfst (Cons c)) (json_string s))"

fun json_strings :: "nat \<Rightarrow> string \<Rightarrow> string list option" where
  "json_strings 0 s = None"
| "json_strings (Suc n) s =
     (if has_prefix s [CHR 0x22]
      then case json_string (tl s) of
        None \<Rightarrow> None
      | Some (v, r) \<Rightarrow> if r = '']'' then Some [v]
                      else if has_prefix r '','' then map_option (Cons v) (json_strings n (tl r)) else None
      else None)"

definition strict_unmarshal :: json_decoder where
  "strict_unmarshal s = (if has_prefix s ''['' then json_strings (length s) (tl s) else None)"

lemma json_string_chars: "json_chars t v \<Longrightarrow> json_string (t @ CHR 0x22 # r) = Some (v, r)"
  by (induction rule: json_chars.induct) auto

lemma json_strings_items: "json_items r vs \<Longrightarrow> length r < n \<Longrightarrow> json_strings n (r @ '']'') = Some vs"
proof (induction arbitrary: n rule: json_items.induct)
  case (one t v)
  then show ?case using json_string_chars[of t v "'']''"] by (cases n) (simp_all add: has_prefix_def)
next
  case (more t v r vs)
  then show ?case using json_string_chars[of t v "'','' @ r @ '']''"] by (cases n) (simp_all add: has_prefix_def)
qed

lemma strict_decodes: "decodes_json strict_unmarshal"
  by (auto simp: decodes_json_def strict_unmarshal_def has_prefix_def json_strings_items simp del: json_strings.simps)

definition acme_id :: string where "acme_id = ''0b0e7a3e-4a3b-4c58-9f5c-3d1f8f3a9c01''"

definition acme_params :: CreateParams where
  "acme_params = \<lparr>cp_Slug = ''acme'', cp_DisplayName = ''Acme'', cp_Edition = [], cp_EmailDomains = [''Acme.com'', ''acme.de''],
     cp_Features = [], cp_Limits = [], cp_Settings = []\<rparr>"

definition acme :: Tenant where
  "acme = \<lparr>tn_TenantID = acme_id, tn_Slug = ''acme'', tn_DisplayName = ''Acme'', tn_Status = StatusActive,
     tn_Edition = EditionTeam, tn_EmailDomains = ''['' @ quote_domain ''acme.com'' @ '','' @ quote_domain ''acme.de'' @ '']'',
     tn_Features = ''{}'', tn_Limits = ''{}'', tn_Settings = ''{}'', tn_DeletionRequestedAt = None, tn_CreatedAt = 7\<rparr>"

lemma acme_id_uuid: "uuid_text acme_id"
  by code_simp

lemma acme_ascii: "\<forall>d \<in> set (cp_EmailDomains acme_params). ascii_text d"
  by code_simp

lemma acme_created:
  "CreateTenant strict_unmarshal (\<lambda>_. True) acme_id 7 acme_params [default_tenant] = (Inr acme, [default_tenant, acme])"
  by code_simp

lemma acme_step: "tenant_step strict_unmarshal {''Acme.com'', ''acme.de''} 7 [default_tenant] [default_tenant, acme]"
  using tenant_step.create[OF acme_id_uuid, of strict_unmarshal acme_params 7 "[default_tenant]" "\<lambda>_. True"]
  unfolding acme_created by (simp add: acme_params_def)

lemma acme_reachable: "tenant_reachable strict_unmarshal {''Acme.com'', ''acme.de''} [default_tenant, acme]"
  using tenant_reachable.step[OF tenant_reachable.boot acme_step] by simp

theorem email_domain_unambiguous_witness:
  "ResolveByEmailDomain strict_unmarshal True '' ACME.com'' [default_tenant, acme] = Inr acme"
proof -
  have "acme \<in> set [default_tenant, acme] \<and> tn_Status acme = StatusActive \<and> normalizeEmailDomain '' ACME.com'' \<noteq> [] \<and>
      normalizeEmailDomain '' ACME.com'' \<in> set (ParseEmailDomains strict_unmarshal acme)"
    by code_simp
  moreover have "\<forall>d \<in> {''Acme.com'', ''acme.de''}. ascii_text d" by code_simp
  ultimately show ?thesis
    using email_domain_unambiguous[OF strict_decodes acme_reachable, of True "'' ACME.com''"] by blast
qed

text \<open>Two requests that overlap both pass the check and claim the same domain.\<close>

definition twin_id :: string where "twin_id = ''1b0e7a3e-4a3b-4c58-9f5c-3d1f8f3a9c02''"

lemma overlapping_creates:
  "case CreateTenant strict_unmarshal (\<lambda>_. True) twin_id 7 (acme_params\<lparr>cp_Slug := ''twin''\<rparr>) [default_tenant] of
     (Inr twin, _) \<Rightarrow> ResolveByEmailDomain strict_unmarshal True ''acme.com'' [default_tenant, acme, twin] = Inl ErrAmbiguousTenant
   | _ \<Rightarrow> False"
  by code_simp

theorem tenants_well_formed_witness: "list_all fields_ok [default_tenant, acme]"
  using tenants_well_formed[OF strict_decodes acme_reachable] by blast

lemma acme_id_new: "acme_id \<noteq> tn_TenantID default_tenant" "tn_TenantID acme = acme_id"
  by code_simp+

theorem tenant_lifecycle_witness: "tn_Status acme = StatusActive \<and> tn_DeletionRequestedAt acme = None"
proof -
  have "acme_id \<noteq> tn_TenantID default_tenant" "tn_TenantID acme = acme_id" by (fact acme_id_new)+
  then show ?thesis using tenant_lifecycle[OF strict_decodes tenant_reachable.boot acme_step] by simp
qed

theorem CreateTenant_resolves_witness: "ResolveByEmailDomain strict_unmarshal True ''Acme.com'' [default_tenant, acme] = Inr acme"
proof -
  have "''Acme.com'' \<in> set (cp_EmailDomains acme_params) \<and> normalizeEmailDomain ''Acme.com'' \<noteq> []" by code_simp
  then show ?thesis
    using CreateTenant_resolves[OF strict_decodes tenant_reachable.boot _ acme_id_uuid acme_ascii acme_created] by blast
qed

definition host_of_port :: "string \<Rightarrow> string option" where
  "host_of_port s = (case last_index s '':'' of None \<Rightarrow> None | Some n \<Rightarrow> Some (take n s))"

theorem slugFromHost_sound_witness:
  "slugFromHost host_of_port ''login.Acme.cs.example.com:8443'' [''other.org'', ''cs.example.com:8443''] = ''acme'' \<and>
   (\<exists>apex \<in> {''other.org'', ''cs.example.com:8443''}. \<exists>pre.
      canonical_host host_of_port (trim_space ''login.Acme.cs.example.com:8443'') =
        pre @ ''acme'' @ ''.'' @ trim_suffix (strip_port host_of_port (to_lower (trim_space apex))) ''.'')"
proof -
  have s: "slugFromHost host_of_port ''login.Acme.cs.example.com:8443'' [''other.org'', ''cs.example.com:8443''] = ''acme''"
    by code_simp
  show ?thesis
    using slugFromHost_sound[of host_of_port "''login.Acme.cs.example.com:8443''" "[''other.org'', ''cs.example.com:8443'']"]
    unfolding s by (simp only: list.set refl) blast
qed
end
