(* ===== verification/Job_Queue.thy ===== *)
theory Job_Queue
  imports Db_Query "HOL-Library.Word"
begin

text \<open>
  The two queues of background jobs: synchronisation of registries (\<^verbatim>\<open>services/job_service.go\<close>, \<^verbatim>\<open>worker/worker.go\<close>) and security
  scans (\<^verbatim>\<open>services/scan_job_service.go\<close>, \<^verbatim>\<open>worker/scan_worker.go\<close>).

  A table is the list of its rows.  A worker selects and locks a row (\<^verbatim>\<open>FOR UPDATE SKIP LOCKED\<close>), marks it as running and
  commits, runs the job and writes the outcome; between these steps other workers and requests interleave.  Both pools do the
  same on different rows: the locale \<open>job_rows\<close> says what a queue relies on, and the properties are proved once in it.  The
  services that do the work, the clock and new identifiers are arguments.
\<close>

section \<open>Rows\<close>

record SyncJob =
  sj_ID :: string
  sj_RegistryID :: string
  sj_TriggerType :: string
  sj_TriggerUser :: string
  sj_Priority :: int
  sj_Status :: string
  sj_DryRun :: bool
  sj_RetryCount :: int
  sj_MaxAttempts :: int
  sj_LastError :: string
  sj_ScheduledAt :: int
  sj_StartedAt :: "int option"
  sj_FinishedAt :: "int option"
  sj_SyncLogID :: "string option"
  sj_CreatedAt :: int

record ScanJob =
  sc_ID :: string
  sc_ItemID :: string
  sc_ItemRevision :: int
  sc_TriggerType :: string
  sc_TriggerUser :: string
  sc_Priority :: int
  sc_Status :: string
  sc_RetryCount :: int
  sc_MaxAttempts :: int
  sc_LastError :: string
  sc_ScheduledAt :: int
  sc_StartedAt :: "int option"
  sc_FinishedAt :: "int option"
  sc_ScanResultID :: "string option"
  sc_CreatedAt :: int

datatype job_error = ErrJobAlreadyQueued | ErrScanJobAlreadyQueued | JobNotPending | JobDBError

definition pending :: string where "pending = ''pending''"

definition running :: string where "running = ''running''"

definition success :: string where "success = ''success''"

definition failed :: string where "failed = ''failed''"

definition cancelled :: string where "cancelled = ''cancelled''"

lemmas job_status_defs = pending_def running_def success_def failed_def cancelled_def

definition second :: int where "second = 1000000000"

text \<open>An update of the rows with a given identifier.\<close>

definition update_job :: "('j \<Rightarrow> string) \<Rightarrow> string \<Rightarrow> ('j \<Rightarrow> 'j) \<Rightarrow> 'j list \<Rightarrow> 'j list" where
  "update_job ident i f rows = map (\<lambda>j. if ident j = i then f j else j) rows"

section \<open>Synchronisation jobs\<close>

record EnqueueOptions =
  eo_Priority :: int
  eo_ScheduledAt :: "int option"
  eo_DryRun :: bool
  eo_MaxAttempts :: int

definition active_sync :: "string \<Rightarrow> SyncJob list \<Rightarrow> nat" where
  "active_sync registryID rows = length (filter (\<lambda>j. sj_RegistryID j = registryID \<and> sj_Status j \<in> {pending, running}) rows)"

definition new_sync_job :: "string \<Rightarrow> int \<Rightarrow> string \<Rightarrow> string \<Rightarrow> string \<Rightarrow> EnqueueOptions \<Rightarrow> SyncJob" where
  "new_sync_job newID now registryID triggerType triggerUser opts =
     \<lparr>sj_ID = newID, sj_RegistryID = registryID, sj_TriggerType = triggerType, sj_TriggerUser = triggerUser,
      sj_Priority = (if eo_Priority opts = 0 then 5 else eo_Priority opts), sj_Status = pending, sj_DryRun = eo_DryRun opts,
      sj_RetryCount = 0, sj_MaxAttempts = (if eo_MaxAttempts opts = 0 then 3 else eo_MaxAttempts opts), sj_LastError = [],
      sj_ScheduledAt = (case eo_ScheduledAt opts of None \<Rightarrow> now | Some t \<Rightarrow> t), sj_StartedAt = None, sj_FinishedAt = None,
      sj_SyncLogID = None, sj_CreatedAt = now\<rparr>"

text \<open>A count that fails is ignored and leaves the counter at zero.\<close>

definition Enqueue ::
  "(nat \<Rightarrow> bool) \<Rightarrow> string \<Rightarrow> int \<Rightarrow> string \<Rightarrow> string \<Rightarrow> string \<Rightarrow> EnqueueOptions \<Rightarrow> SyncJob list \<Rightarrow>
   (job_error + SyncJob option) \<times> SyncJob list" where
  "Enqueue dbok newID now registryID triggerType triggerUser opts rows =
     (let count = (if dbok 0 then active_sync registryID rows else 0)
      in if 0 < count
         then (if triggerType = ''scheduled'' then (Inr None, rows) else (Inl ErrJobAlreadyQueued, rows))
         else
           let job = new_sync_job newID now registryID triggerType triggerUser opts
           in if \<not> dbok 1 then (Inl JobDBError, rows) else (Inr (Some job), rows @ [job]))"

definition cancel_sync :: "SyncJob \<Rightarrow> SyncJob" where
  "cancel_sync j = j\<lparr>sj_Status := cancelled\<rparr>"

definition Cancel :: "bool \<Rightarrow> string \<Rightarrow> SyncJob list \<Rightarrow> (job_error + unit) \<times> SyncJob list" where
  "Cancel ok jobID rows =
     (if \<not> ok then (Inl JobDBError, rows)
      else if list_ex (\<lambda>j. sj_ID j = jobID \<and> sj_Status j = pending) rows
      then (Inr (), map (\<lambda>j. if sj_ID j = jobID \<and> sj_Status j = pending then cancel_sync j else j) rows)
      else (Inl JobNotPending, rows))"

definition CancelByRegistry :: "bool \<Rightarrow> string \<Rightarrow> SyncJob list \<Rightarrow> (job_error + unit) \<times> SyncJob list" where
  "CancelByRegistry ok registryID rows =
     (if \<not> ok then (Inl JobDBError, rows)
      else (Inr (), map (\<lambda>j. if sj_RegistryID j = registryID \<and> sj_Status j = pending then cancel_sync j else j) rows))"

definition GetPendingCount :: "bool \<Rightarrow> string \<Rightarrow> SyncJob list \<Rightarrow> job_error + nat" where
  "GetPendingCount ok registryID rows = (if ok then Inr (active_sync registryID rows) else Inl JobDBError)"

text \<open>Rows that other transactions have locked are skipped.\<close>

definition due_sync :: "int \<Rightarrow> string list \<Rightarrow> SyncJob \<Rightarrow> bool" where
  "due_sync now locked j \<longleftrightarrow> sj_Status j = pending \<and> sj_ScheduledAt j \<le> now \<and> sj_ID j \<notin> set locked"

definition select_sync :: "int \<Rightarrow> string list \<Rightarrow> SyncJob list \<Rightarrow> SyncJob option" where
  "select_sync now locked rows =
     find (due_sync now locked) (sort_key sj_Priority (sort_key sj_ScheduledAt rows))"

definition start_sync :: "int \<Rightarrow> SyncJob \<Rightarrow> SyncJob" where
  "start_sync now j = j\<lparr>sj_Status := running, sj_StartedAt := Some now\<rparr>"

text \<open>
  \<^verbatim>\<open>time.Duration(math.Pow(10, n)) * 3 * time.Second\<close> at 64 bits.  Powers below \<open>2 ^ 63\<close> are exact; larger ones are outside the
  range of the conversion, which yields the smallest integer on amd64.
\<close>

definition pow_duration :: "nat \<Rightarrow> int \<Rightarrow> 64 word" where
  "pow_duration b n = (if (int b) ^ nat n < 2 ^ 63 then word_of_int (int b ^ nat n) else word_of_int (- (2 ^ 63)))"

definition sync_backoff :: "int \<Rightarrow> int" where
  "sync_backoff n = sint (pow_duration 10 n * 3 * word_of_int second)"

text \<open>The outcome of a run: the message of the error, or the identifier of the log if there is a result.\<close>

type_synonym outcome = "string + string option"

definition sync_updates :: "int \<Rightarrow> SyncJob \<Rightarrow> outcome \<Rightarrow> SyncJob \<Rightarrow> SyncJob" where
  "sync_updates now job r row =
     (case r of
        Inl err \<Rightarrow>
          if sj_RetryCount job + 1 < sj_MaxAttempts job
          then row\<lparr>sj_FinishedAt := Some now, sj_Status := pending, sj_RetryCount := sj_RetryCount job + 1,
                   sj_ScheduledAt := now + sync_backoff (sj_RetryCount job + 1), sj_LastError := err\<rparr>
          else row\<lparr>sj_FinishedAt := Some now, sj_Status := failed, sj_LastError := err\<rparr>
      | Inr None \<Rightarrow> row\<lparr>sj_FinishedAt := Some now, sj_Status := success\<rparr>
      | Inr (Some logID) \<Rightarrow> row\<lparr>sj_FinishedAt := Some now, sj_Status := success, sj_SyncLogID := Some logID\<rparr>)"

definition finalizeJob :: "bool \<Rightarrow> int \<Rightarrow> SyncJob \<Rightarrow> outcome \<Rightarrow> SyncJob list \<Rightarrow> SyncJob list" where
  "finalizeJob ok now job r rows = (if ok then update_job sj_ID (sj_ID job) (sync_updates now job r) rows else rows)"

text \<open>
  One tick of a worker on a table nobody else touches.  \<open>sync\<close> is \<^verbatim>\<open>SyncRegistry\<close>, called with the registry, the trigger, its user and
  the flag of the payload; the answer says whether a job was run.
\<close>

type_synonym sync_fun = "string \<Rightarrow> string \<Rightarrow> string \<Rightarrow> bool \<Rightarrow> outcome"

definition processOne :: "sync_fun \<Rightarrow> (nat \<Rightarrow> bool) \<Rightarrow> int \<Rightarrow> int \<Rightarrow> SyncJob list \<Rightarrow> SyncJob option \<times> SyncJob list" where
  "processOne sync dbok now later rows =
     (if \<not> dbok 0 then (None, rows)
      else case select_sync now [] rows of
        None \<Rightarrow> (None, rows)
      | Some job \<Rightarrow>
          if sj_ID job = [] \<or> \<not> dbok 1 then (None, rows)
          else
            let rows' = update_job sj_ID (sj_ID job) (start_sync now) rows;
                r = sync (sj_RegistryID job) (sj_TriggerType job) (sj_TriggerUser job) (sj_DryRun job)
            in (Some job, finalizeJob (dbok 2) later (start_sync now job) r rows'))"

section \<open>Scan jobs\<close>

record ScanEnqueueOptions =
  so_Priority :: int
  so_ScheduledAt :: "int option"
  so_MaxAttempts :: int

text \<open>\<open>env\<close> is the value of the environment variable, \<open>scans\<close> the item and revision of the stored scans.\<close>

definition shortCircuitEnabled :: "string \<Rightarrow> bool" where
  "shortCircuitEnabled env \<longleftrightarrow> to_lower (trim_space env) \<noteq> ''true''"

definition isShortCircuitTrigger :: "string \<Rightarrow> bool" where
  "isShortCircuitTrigger triggerType \<longleftrightarrow> triggerType \<in> {''sync'', ''create'', ''update''}"

definition active_scan :: "string \<Rightarrow> ScanJob list \<Rightarrow> nat" where
  "active_scan itemID rows = length (filter (\<lambda>j. sc_ItemID j = itemID \<and> sc_Status j \<in> {pending, running}) rows)"

definition new_scan_job :: "string \<Rightarrow> int \<Rightarrow> string \<Rightarrow> int \<Rightarrow> string \<Rightarrow> string \<Rightarrow> ScanEnqueueOptions \<Rightarrow> ScanJob" where
  "new_scan_job newID now itemID itemRevision triggerType triggerUser opts =
     \<lparr>sc_ID = newID, sc_ItemID = itemID, sc_ItemRevision = itemRevision, sc_TriggerType = triggerType, sc_TriggerUser = triggerUser,
      sc_Priority = (if so_Priority opts = 0 then 5 else so_Priority opts), sc_Status = pending, sc_RetryCount = 0,
      sc_MaxAttempts = (if so_MaxAttempts opts = 0 then 2 else so_MaxAttempts opts), sc_LastError = [],
      sc_ScheduledAt = (case so_ScheduledAt opts of None \<Rightarrow> now | Some t \<Rightarrow> t), sc_StartedAt = None, sc_FinishedAt = None,
      sc_ScanResultID = None, sc_CreatedAt = now\<rparr>"

definition scan_Enqueue ::
  "string \<Rightarrow> (string \<times> int) list \<Rightarrow> (nat \<Rightarrow> bool) \<Rightarrow> string \<Rightarrow> int \<Rightarrow> string \<Rightarrow> int \<Rightarrow> string \<Rightarrow> string \<Rightarrow> ScanEnqueueOptions \<Rightarrow>
   ScanJob list \<Rightarrow> (job_error + ScanJob option) \<times> ScanJob list" where
  "scan_Enqueue env scans dbok newID now itemID itemRevision triggerType triggerUser opts rows =
     (if shortCircuitEnabled env \<and> isShortCircuitTrigger triggerType \<and> dbok 0 \<and> (itemID, itemRevision) \<in> set scans
      then (Inr None, rows)
      else
        let count = (if dbok 1 then active_scan itemID rows else 0)
        in if 0 < count
           then (if triggerType = ''create'' \<or> triggerType = ''update'' \<or> triggerType = ''sync'' then (Inr None, rows)
                 else (Inl ErrScanJobAlreadyQueued, rows))
           else
             let job = new_scan_job newID now itemID itemRevision triggerType triggerUser opts
             in if \<not> dbok 2 then (Inl JobDBError, rows) else (Inr (Some job), rows @ [job]))"

definition cancel_scan :: "ScanJob \<Rightarrow> ScanJob" where
  "cancel_scan j = j\<lparr>sc_Status := cancelled\<rparr>"

definition scan_Cancel :: "bool \<Rightarrow> string \<Rightarrow> ScanJob list \<Rightarrow> (job_error + unit) \<times> ScanJob list" where
  "scan_Cancel ok jobID rows =
     (if \<not> ok then (Inl JobDBError, rows)
      else if list_ex (\<lambda>j. sc_ID j = jobID \<and> sc_Status j = pending) rows
      then (Inr (), map (\<lambda>j. if sc_ID j = jobID \<and> sc_Status j = pending then cancel_scan j else j) rows)
      else (Inl JobNotPending, rows))"

definition GetActiveCount :: "bool \<Rightarrow> string \<Rightarrow> ScanJob list \<Rightarrow> job_error + nat" where
  "GetActiveCount ok itemID rows = (if ok then Inr (active_scan itemID rows) else Inl JobDBError)"

definition due_scan :: "int \<Rightarrow> string list \<Rightarrow> ScanJob \<Rightarrow> bool" where
  "due_scan now locked j \<longleftrightarrow> sc_Status j = pending \<and> sc_ScheduledAt j \<le> now \<and> sc_ID j \<notin> set locked"

definition select_scan :: "int \<Rightarrow> string list \<Rightarrow> ScanJob list \<Rightarrow> ScanJob option" where
  "select_scan now locked rows =
     find (due_scan now locked) (sort_key sc_Priority (sort_key sc_ScheduledAt rows))"

definition start_scan :: "int \<Rightarrow> ScanJob \<Rightarrow> ScanJob" where
  "start_scan now j = j\<lparr>sc_Status := running, sc_StartedAt := Some now\<rparr>"

definition scan_backoff :: "int \<Rightarrow> int" where
  "scan_backoff n = sint (pow_duration 2 n * word_of_int (60 * second))"

definition scan_updates :: "int \<Rightarrow> ScanJob \<Rightarrow> outcome \<Rightarrow> ScanJob \<Rightarrow> ScanJob" where
  "scan_updates now job r row =
     (case r of
        Inl err \<Rightarrow>
          if sc_RetryCount job + 1 < sc_MaxAttempts job
          then row\<lparr>sc_FinishedAt := Some now, sc_Status := pending, sc_RetryCount := sc_RetryCount job + 1,
                   sc_ScheduledAt := now + scan_backoff (sc_RetryCount job + 1), sc_LastError := err\<rparr>
          else row\<lparr>sc_FinishedAt := Some now, sc_Status := failed, sc_LastError := err\<rparr>
      | Inr None \<Rightarrow> row\<lparr>sc_FinishedAt := Some now, sc_Status := success\<rparr>
      | Inr (Some scanID) \<Rightarrow> row\<lparr>sc_FinishedAt := Some now, sc_Status := success, sc_ScanResultID := Some scanID\<rparr>)"

definition scan_finalizeJob :: "bool \<Rightarrow> int \<Rightarrow> ScanJob \<Rightarrow> outcome \<Rightarrow> ScanJob list \<Rightarrow> ScanJob list" where
  "scan_finalizeJob ok now job r rows = (if ok then update_job sc_ID (sc_ID job) (scan_updates now job r) rows else rows)"

type_synonym scan_fun = "string \<Rightarrow> int \<Rightarrow> string \<Rightarrow> outcome"

definition scan_processOne :: "scan_fun \<Rightarrow> (nat \<Rightarrow> bool) \<Rightarrow> int \<Rightarrow> int \<Rightarrow> ScanJob list \<Rightarrow> ScanJob option \<times> ScanJob list" where
  "scan_processOne scan dbok now later rows =
     (if \<not> dbok 0 then (None, rows)
      else case select_scan now [] rows of
        None \<Rightarrow> (None, rows)
      | Some job \<Rightarrow>
          if sc_ID job = [] \<or> \<not> dbok 1 then (None, rows)
          else
            let rows' = update_job sc_ID (sc_ID job) (start_scan now) rows;
                r = scan (sc_ItemID job) (sc_ItemRevision job) (sc_TriggerType job)
            in (Some job, scan_finalizeJob (dbok 2) later (start_scan now job) r rows'))"

section \<open>A pool of workers\<close>

text \<open>
  A worker is idle, has a row locked in an open transaction, or runs a job of which it has a copy.  \<open>runs\<close> are the identifiers of
  the jobs that were started, in this order.
\<close>

datatype 'j worker = Idle | Selected 'j | Executing 'j

record 'j pool =
  rows :: "'j list"
  workers :: "'j worker list"
  runs :: "string list"

text \<open>What a pool uses of its table.\<close>

record 'j row_ops =
  ident :: "'j \<Rightarrow> string"
  status :: "'j \<Rightarrow> string"
  retryCount :: "'j \<Rightarrow> int"
  maxAttempts :: "'j \<Rightarrow> int"
  select :: "int \<Rightarrow> string list \<Rightarrow> 'j list \<Rightarrow> 'j option"
  start :: "int \<Rightarrow> 'j \<Rightarrow> 'j"
  updates :: "int \<Rightarrow> 'j \<Rightarrow> outcome \<Rightarrow> 'j \<Rightarrow> 'j"
  cancel :: "'j \<Rightarrow> 'j"

definition sync_ops :: "SyncJob row_ops" where
  "sync_ops = \<lparr>ident = sj_ID, status = sj_Status, retryCount = sj_RetryCount, maxAttempts = sj_MaxAttempts,
     select = select_sync, start = start_sync, updates = sync_updates, cancel = cancel_sync\<rparr>"

definition scan_ops :: "ScanJob row_ops" where
  "scan_ops = \<lparr>ident = sc_ID, status = sc_Status, retryCount = sc_RetryCount, maxAttempts = sc_MaxAttempts,
     select = select_scan, start = start_scan, updates = scan_updates, cancel = cancel_scan\<rparr>"

primrec locked_by :: "('j \<Rightarrow> string) \<Rightarrow> 'j worker \<Rightarrow> string list" where
  "locked_by i Idle = []"
| "locked_by i (Selected j) = [i j]"
| "locked_by i (Executing j) = []"

primrec held_by :: "('j \<Rightarrow> string) \<Rightarrow> 'j worker \<Rightarrow> string option" where
  "held_by i Idle = None"
| "held_by i (Selected j) = Some (i j)"
| "held_by i (Executing j) = Some (i j)"

definition locked :: "'j row_ops \<Rightarrow> 'j pool \<Rightarrow> string list" where
  "locked ops s = concat (map (locked_by (ident ops)) (workers s))"

text \<open>
  The rows that go with a registry or an item when it is deleted, whatever their state: \<^verbatim>\<open>DeleteRepository\<close> and
  \<^verbatim>\<open>RemoveRepoRegistry\<close> of \<^verbatim>\<open>handlers.go\<close> and \<^verbatim>\<open>cascadeDelete\<close> of \<^verbatim>\<open>itemdelete.go\<close>.
\<close>

definition delete_sync_jobs :: "bool \<Rightarrow> string list \<Rightarrow> SyncJob list \<Rightarrow> SyncJob list" where
  "delete_sync_jobs ok registryIDs js = (if ok then filter (\<lambda>j. sj_RegistryID j \<notin> set registryIDs) js else js)"

definition delete_scan_jobs :: "bool \<Rightarrow> string list \<Rightarrow> ScanJob list \<Rightarrow> ScanJob list" where
  "delete_scan_jobs ok itemIDs js = (if ok then filter (\<lambda>j. sc_ItemID j \<notin> set itemIDs) js else js)"

text \<open>
  The requests that change the table: given the identifiers of the jobs that were started so far, the locked rows, the table before and
  after.  An update or a deletion waits for the lock of a row it changes, so a request runs while none of these is locked.  Identifiers
  are fresh.
\<close>

inductive sync_request :: "string list \<Rightarrow> string list \<Rightarrow> SyncJob list \<Rightarrow> SyncJob list \<Rightarrow> bool" where
  enqueue: "newID \<noteq> [] \<Longrightarrow> newID \<notin> sj_ID ` set js \<union> set used \<Longrightarrow> js' = snd (Enqueue dbok newID now r t u opts js) \<Longrightarrow>
    sync_request used ls js js'"
| cancel: "jobID \<notin> set ls \<Longrightarrow> js' = snd (Cancel ok jobID js) \<Longrightarrow> sync_request used ls js js'"
| cancel_registry: "\<forall>j \<in> set js. sj_RegistryID j = r \<longrightarrow> sj_ID j \<notin> set ls \<Longrightarrow> js' = snd (CancelByRegistry ok r js) \<Longrightarrow>
    sync_request used ls js js'"
| delete_registries: "\<forall>j \<in> set js. sj_RegistryID j \<in> set rs \<longrightarrow> sj_ID j \<notin> set ls \<Longrightarrow> js' = delete_sync_jobs ok rs js \<Longrightarrow>
    sync_request used ls js js'"

inductive scan_request :: "string list \<Rightarrow> string list \<Rightarrow> ScanJob list \<Rightarrow> ScanJob list \<Rightarrow> bool" where
  enqueue: "newID \<noteq> [] \<Longrightarrow> newID \<notin> sc_ID ` set js \<union> set used \<Longrightarrow> js' = snd (scan_Enqueue env scans dbok newID now i v t u opts js) \<Longrightarrow>
    scan_request used ls js js'"
| cancel: "jobID \<notin> set ls \<Longrightarrow> js' = snd (scan_Cancel ok jobID js) \<Longrightarrow> scan_request used ls js js'"
| delete_items: "\<forall>j \<in> set js. sc_ItemID j \<in> set items \<longrightarrow> sc_ID j \<notin> set ls \<Longrightarrow> js' = delete_scan_jobs ok items js \<Longrightarrow>
    scan_request used ls js js'"

text \<open>
  The steps of the pool: the pieces of \<^verbatim>\<open>processOne\<close> of each worker, interleaved.  A transaction may be rolled back, the last update
  may fail, and a worker may die at any time.
\<close>

inductive pool_step :: "'j row_ops \<Rightarrow> (string list \<Rightarrow> string list \<Rightarrow> 'j list \<Rightarrow> 'j list \<Rightarrow> bool) \<Rightarrow> 'j pool \<Rightarrow> 'j pool \<Rightarrow> bool"
  for ops request s where
  request: "request (runs s) (locked ops s) (rows s) js \<Longrightarrow> pool_step ops request s (s\<lparr>rows := js\<rparr>)"
| pick: "w < length (workers s) \<Longrightarrow> workers s ! w = Idle \<Longrightarrow> select ops now (locked ops s) (rows s) = Some j \<Longrightarrow>
    pool_step ops request s (s\<lparr>workers := (workers s)[w := Selected j]\<rparr>)"
| launch: "w < length (workers s) \<Longrightarrow> workers s ! w = Selected j \<Longrightarrow>
    pool_step ops request s
      (s\<lparr>rows := update_job (ident ops) (ident ops j) (start ops now) (rows s), workers := (workers s)[w := Executing (start ops now j)],
         runs := runs s @ [ident ops j]\<rparr>)"
| finish: "w < length (workers s) \<Longrightarrow> workers s ! w = Executing j \<Longrightarrow>
    pool_step ops request s
      (s\<lparr>rows := update_job (ident ops) (ident ops j) (updates ops now j r) (rows s), workers := (workers s)[w := Idle]\<rparr>)"
| die: "w < length (workers s) \<Longrightarrow> pool_step ops request s (s\<lparr>workers := (workers s)[w := Idle]\<rparr>)"

inductive pool_reachable :: "'j row_ops \<Rightarrow> (string list \<Rightarrow> string list \<Rightarrow> 'j list \<Rightarrow> 'j list \<Rightarrow> bool) \<Rightarrow> 'j pool \<Rightarrow> bool"
  for ops request where
  boot: "pool_reachable ops request \<lparr>rows = [], workers = replicate n Idle, runs = []\<rparr>"
| step: "pool_reachable ops request s \<Longrightarrow> pool_step ops request s s' \<Longrightarrow> pool_reachable ops request s'"

section \<open>The contract of a queue\<close>

definition ended :: "string \<Rightarrow> bool" where
  "ended st \<longleftrightarrow> st \<in> {success, failed, cancelled}"

text \<open>The runs a row accounts for.\<close>

definition run_count :: "'j row_ops \<Rightarrow> 'j \<Rightarrow> int" where
  "run_count ops j = retryCount ops j + (if status ops j \<in> {running, success, failed} then 1 else 0)"

definition attempts_ok :: "'j row_ops \<Rightarrow> 'j \<Rightarrow> bool" where
  "attempts_ok ops j \<longleftrightarrow> 0 \<le> retryCount ops j \<and> (retryCount ops j = 0 \<or> retryCount ops j < maxAttempts ops j)"

inductive request_effect :: "'j row_ops \<Rightarrow> string list \<Rightarrow> string list \<Rightarrow> 'j list \<Rightarrow> 'j list \<Rightarrow> bool" for ops used ls js js' where
  none: "js' = js \<Longrightarrow> request_effect ops used ls js js'"
| added: "js' = js @ [j] \<Longrightarrow> ident ops j \<notin> ident ops ` set js \<union> set used \<Longrightarrow> status ops j = pending \<Longrightarrow> retryCount ops j = 0 \<Longrightarrow>
    request_effect ops used ls js js'"
| cancelled: "js' = map (\<lambda>j. if P j then cancel ops j else j) js \<Longrightarrow>
    (\<forall>j \<in> set js. P j \<longrightarrow> status ops j = pending \<and> ident ops j \<notin> set ls) \<Longrightarrow> request_effect ops used ls js js'"
| deleted: "js' = filter (\<lambda>j. \<not> P j) js \<Longrightarrow> (\<forall>j \<in> set js. P j \<longrightarrow> ident ops j \<notin> set ls) \<Longrightarrow> request_effect ops used ls js js'"

text \<open>A worker has the current row, or runs a job whose row was deleted meanwhile.\<close>

definition worker_ok :: "'j row_ops \<Rightarrow> 'j list \<Rightarrow> 'j worker \<Rightarrow> bool" where
  "worker_ok ops js w = (case w of Idle \<Rightarrow> True | Selected j \<Rightarrow> j \<in> set js \<and> status ops j = pending
     | Executing j \<Rightarrow> status ops j = running \<and> (j \<in> set js \<or> ident ops j \<notin> ident ops ` set js))"

definition exclusive :: "'j row_ops \<Rightarrow> 'j worker list \<Rightarrow> bool" where
  "exclusive ops ws \<longleftrightarrow> (\<forall>w < length ws. \<forall>v < length ws. w \<noteq> v \<longrightarrow> held_by (ident ops) (ws ! w) \<noteq> None \<longrightarrow>
     held_by (ident ops) (ws ! v) \<noteq> held_by (ident ops) (ws ! w))"

definition accounted :: "'j row_ops \<Rightarrow> 'j pool \<Rightarrow> bool" where
  "accounted ops s \<longleftrightarrow> (\<forall>j \<in> set (rows s). int (count_list (runs s) (ident ops j)) = run_count ops j \<and> attempts_ok ops j)"

definition started :: "'j row_ops \<Rightarrow> 'j pool \<Rightarrow> bool" where
  "started ops s \<longleftrightarrow> (\<forall>w \<in> set (workers s). \<forall>j. w = Executing j \<longrightarrow> ident ops j \<in> set (runs s))"

definition settled_row :: "'j row_ops \<Rightarrow> 'j \<Rightarrow> 'j pool \<Rightarrow> bool" where
  "settled_row ops j s \<longleftrightarrow> (j \<in> set (rows s) \<or> ident ops j \<notin> ident ops ` set (rows s)) \<and> ident ops j \<in> set (runs s) \<and>
     (\<forall>w \<in> set (workers s). held_by (ident ops) w \<noteq> Some (ident ops j))"

definition pool_inv :: "'j row_ops \<Rightarrow> 'j pool \<Rightarrow> bool" where
  "pool_inv ops s \<longleftrightarrow> distinct (map (ident ops) (rows s)) \<and> list_all (worker_ok ops (rows s)) (workers s) \<and>
     exclusive ops (workers s) \<and> accounted ops s \<and> started ops s"

lemma update_job_row:
  assumes "distinct (map key js)" "j \<in> set js"
  shows "update_job key (key j) f js = map (\<lambda>r. if r = j then f j else r) js"
proof -
  have "(if key r = key j then f r else r) = (if r = j then f j else r)" if "r \<in> set js" for r
    using assms that by (auto simp: distinct_map inj_on_def)
  then show ?thesis unfolding update_job_def by (rule map_cong[OF refl])
qed

lemma update_job_absent: "i \<notin> key ` set js \<Longrightarrow> update_job key i f js = js"
  by (auto simp: update_job_def intro!: map_idI)

lemma update_job_other:
  assumes "i \<noteq> key j" "\<And>x. key (f x) = key x" "j \<in> set js \<or> key j \<notin> key ` set js"
  shows "j \<in> set (update_job key i f js) \<or> key j \<notin> key ` set (update_job key i f js)"
proof -
  have "map key (update_job key i f js) = map key js" using assms(2) by (simp add: update_job_def)
  then have "key ` set (update_job key i f js) = key ` set js" by (metis list.set_map)
  moreover have "j \<in> set (update_job key i f js)" if "j \<in> set js" using that assms(1) by (force simp: update_job_def)
  ultimately show ?thesis using assms(3) by blast
qed

lemma exclusive_update:
  assumes "exclusive ops ws" "w < length ws" "held_by (ident ops) x \<in> {None, Some i}"
    and "\<forall>v < length ws. v \<noteq> w \<longrightarrow> held_by (ident ops) (ws ! v) \<noteq> Some i"
  shows "exclusive ops (ws[w := x])"
  unfolding exclusive_def
proof (intro allI impI)
  fix v u
  assume *: "v < length (ws[w := x])" "u < length (ws[w := x])" "v \<noteq> u" "held_by (ident ops) (ws[w := x] ! v) \<noteq> None"
  show "held_by (ident ops) (ws[w := x] ! u) \<noteq> held_by (ident ops) (ws[w := x] ! v)"
  proof (cases "u = w \<or> v = w")
    case True
    then show ?thesis using * assms(2-4) by (auto simp: nth_list_update split: if_splits)
  next
    case False
    then show ?thesis using * assms(1) by (simp add: exclusive_def)
  qed
qed

lemma exclusive_other:
  "exclusive ops ws \<Longrightarrow> w < length ws \<Longrightarrow> held_by (ident ops) (ws ! w) = Some i \<Longrightarrow>
   \<forall>v < length ws. v \<noteq> w \<longrightarrow> held_by (ident ops) (ws ! v) \<noteq> Some i"
  unfolding exclusive_def by (metis option.distinct(1))

text \<open>A worker is right about its row as long as that row stays.\<close>

lemma worker_ok_mono:
  "worker_ok ops js w \<Longrightarrow> (\<And>j. held_by (ident ops) w = Some (ident ops j) \<Longrightarrow> j \<in> set js \<Longrightarrow> j \<in> set js') \<Longrightarrow>
   ident ops ` set js' \<subseteq> ident ops ` set js \<Longrightarrow> worker_ok ops js' w"
  by (cases w) (auto simp: worker_ok_def)

lemma workers_ok_replace:
  assumes "list_all (worker_ok ops js) ws" "\<forall>v < length ws. v \<noteq> w \<longrightarrow> held_by (ident ops) (ws ! v) \<noteq> Some (ident ops j)"
    and i: "ident ops j' = ident ops j"
    and "worker_ok ops (map (\<lambda>r. if r = j then j' else r) js) x"
  shows "list_all (worker_ok ops (map (\<lambda>r. if r = j then j' else r) js)) (ws[w := x])"
  unfolding list_all_length
proof (intro allI impI)
  fix v assume v: "v < length (ws[w := x])"
  show "worker_ok ops (map (\<lambda>r. if r = j then j' else r) js) (ws[w := x] ! v)"
  proof (cases "v = w")
    case False
    have "worker_ok ops (map (\<lambda>r. if r = j then j' else r) js) (ws ! v)"
    proof (rule worker_ok_mono)
      show "worker_ok ops js (ws ! v)" using assms(1) v by (simp add: list_all_length)
      fix k assume "held_by (ident ops) (ws ! v) = Some (ident ops k)" "k \<in> set js"
      moreover have "k \<noteq> j" using assms(2) False v calculation(1) by auto
      ultimately show "k \<in> set (map (\<lambda>r. if r = j then j' else r) js)" by force
    next
      show "ident ops ` set (map (\<lambda>r. if r = j then j' else r) js) \<subseteq> ident ops ` set js" by (auto simp: i split: if_splits)
    qed
    then show ?thesis using False by simp
  qed (use assms(4) v in simp)
qed

lemma in_replace: "j \<in> set js \<Longrightarrow> j' \<in> set (map (\<lambda>r. if r = j then j' else r) js)"
  by force

lemma ids_replace: "key j' = key j \<Longrightarrow> map key (map (\<lambda>r. if r = j then j' else r) js) = map key js"
  by simp

locale job_rows =
  fixes ops :: "'j row_ops" and request :: "string list \<Rightarrow> string list \<Rightarrow> 'j list \<Rightarrow> 'j list \<Rightarrow> bool"
  assumes select_law: "select ops now ls js = Some j \<Longrightarrow> j \<in> set js \<and> status ops j = pending \<and> ident ops j \<notin> set ls"
    and start_law: "ident ops (start ops now j) = ident ops j \<and> status ops (start ops now j) = running \<and>
      retryCount ops (start ops now j) = retryCount ops j \<and> maxAttempts ops (start ops now j) = maxAttempts ops j"
    and updates_law: "ident ops (updates ops now k r j) = ident ops j \<and> maxAttempts ops (updates ops now k r j) = maxAttempts ops j \<and>
      (if isl r \<and> retryCount ops k + 1 < maxAttempts ops k
       then status ops (updates ops now k r j) = pending \<and> retryCount ops (updates ops now k r j) = retryCount ops k + 1
       else status ops (updates ops now k r j) = (if isl r then failed else success) \<and>
            retryCount ops (updates ops now k r j) = retryCount ops j)"
    and cancel_law: "ident ops (cancel ops j) = ident ops j \<and> status ops (cancel ops j) = cancelled \<and>
      retryCount ops (cancel ops j) = retryCount ops j \<and> maxAttempts ops (cancel ops j) = maxAttempts ops j"
    and request_law: "request used ls js js' \<Longrightarrow> request_effect ops used ls js js'"
begin

lemma accounted_request:
  assumes "accounted ops s" "request_effect ops (runs s) ls (rows s) js"
  shows "accounted ops (s\<lparr>rows := js\<rparr>)"
  using assms(2)
proof cases
  case (added j)
  then have "count_list (runs s) (ident ops j) = 0" by (simp add: count_list_0_iff)
  then show ?thesis using assms(1) added by (auto simp: accounted_def run_count_def attempts_ok_def job_status_defs)
next
  case (cancelled P)
  have "run_count ops (cancel ops j) = run_count ops j" "attempts_ok ops (cancel ops j) = attempts_ok ops j"
    if "j \<in> set (rows s)" "P j" for j
    using cancel_law[of j] cancelled(2) that by (simp_all add: run_count_def attempts_ok_def job_status_defs)
  then show ?thesis using assms(1) unfolding accounted_def pool.simps by (auto simp: cancelled(1) cancel_law)
qed (use assms(1) in \<open>auto simp: accounted_def\<close>)

lemma request_ids:
  assumes "request_effect ops used ls js js'"
  shows "(distinct (map (ident ops) js) \<longrightarrow> distinct (map (ident ops) js')) \<and> ident ops ` set js' \<inter> set used \<subseteq> ident ops ` set js"
  using assms
proof cases
  case (cancelled P)
  then have eq: "map (ident ops) js' = map (ident ops) js" by (simp add: cancel_law)
  then have "ident ops ` set js' = ident ops ` set js" by (metis list.set_map)
  then show ?thesis using eq by auto
qed (auto simp: distinct_map_filter)

lemma request_keeps:
  assumes "request_effect ops used ls js js'" "distinct (map (ident ops) js)" "ident ops j \<in> set used" "status ops j \<noteq> pending"
    and "j \<in> set js \<or> ident ops j \<notin> ident ops ` set js"
  shows "j \<in> set js' \<or> ident ops j \<notin> ident ops ` set js'"
proof (cases "j \<in> set js")
  case True
  from assms(1) show ?thesis
  proof cases
    case (deleted P)
    have "k = j" if "k \<in> set js" "ident ops k = ident ops j" for k using assms(2) True that by (auto simp: distinct_map inj_on_def)
    then show ?thesis using deleted(1) True by auto
  qed (use True assms(4) in \<open>auto intro!: image_eqI[where x = j]\<close>)
next
  case False
  then show ?thesis using request_ids[OF assms(1)] assms(3,5) by blast
qed

lemma pool_inv_request:
  assumes "pool_inv ops s" "request_effect ops (runs s) (locked ops s) (rows s) js"
  shows "pool_inv ops (s\<lparr>rows := js\<rparr>)"
proof -
  have d: "distinct (map (ident ops) js)" using request_ids[OF assms(2)] assms(1) by (simp add: pool_inv_def)
  have "worker_ok ops js w" if w: "w \<in> set (workers s)" for w
  proof (cases w)
    case (Selected j)
    then have j: "j \<in> set (rows s)" "status ops j = pending" "ident ops j \<in> set (locked ops s)"
      using assms(1) w by (force simp: pool_inv_def list_all_iff worker_ok_def locked_def)+
    from assms(2) have "j \<in> set js"
      by cases (use j in \<open>auto intro!: image_eqI[where x = j]\<close>)
    then show ?thesis using Selected j by (simp add: worker_ok_def)
  next
    case (Executing j)
    then have j: "status ops j = running" "j \<in> set (rows s) \<or> ident ops j \<notin> ident ops ` set (rows s)" "ident ops j \<in> set (runs s)"
      using assms(1) w by (force simp: pool_inv_def list_all_iff worker_ok_def started_def)+
    have "distinct (map (ident ops) (rows s))" "status ops j \<noteq> pending" using assms(1) j(1) by (simp_all add: pool_inv_def job_status_defs)
    then show ?thesis using request_keeps[OF assms(2) _ j(3) _ j(2)] Executing j(1) by (simp add: worker_ok_def)
  qed (simp add: worker_ok_def)
  then show ?thesis using d assms accounted_request by (simp add: pool_inv_def list_all_iff started_def)
qed

text \<open>A step of a worker that replaces the row it holds.\<close>

lemma pool_inv_replace:
  assumes "pool_inv ops s" "w < length (workers s)" "held_by (ident ops) (workers s ! w) = Some (ident ops j)" "j \<in> set (rows s)"
    and f: "ident ops (f j) = ident ops j" and x: "x = Idle \<or> x = Executing (f j) \<and> status ops (f j) = running"
    and rs: "rs = [] \<and> x = Idle \<or> rs = [ident ops j]" and c: "run_count ops (f j) = run_count ops j + int (length rs)"
    and ok: "attempts_ok ops (f j)"
  shows "pool_inv ops (s\<lparr>rows := update_job (ident ops) (ident ops j) f (rows s), workers := (workers s)[w := x], runs := runs s @ rs\<rparr>)"
proof -
  let ?js = "map (\<lambda>r. if r = j then f j else r) (rows s)"
  have inv: "distinct (map (ident ops) (rows s))" "list_all (worker_ok ops (rows s)) (workers s)" "exclusive ops (workers s)"
    "accounted ops s" "started ops s" using assms(1) by (auto simp: pool_inv_def)
  have u: "update_job (ident ops) (ident ops j) f (rows s) = ?js" by (rule update_job_row[OF inv(1) assms(4)])
  have others: "\<forall>v < length (workers s). v \<noteq> w \<longrightarrow> held_by (ident ops) (workers s ! v) \<noteq> Some (ident ops j)"
    by (rule exclusive_other[OF inv(3) assms(2,3)])
  have "worker_ok ops ?js x" using x in_replace[OF assms(4), of "f j"] by (auto simp: worker_ok_def)
  then have "list_all (worker_ok ops ?js) ((workers s)[w := x])" by (rule workers_ok_replace[OF inv(2) others f])
  moreover have "exclusive ops ((workers s)[w := x])"
    by (rule exclusive_update[OF inv(3) assms(2) _ others]) (use x f in auto)
  moreover have "distinct (map (ident ops) ?js)" unfolding ids_replace[where key = "ident ops", OF f] by (rule inv(1))
  moreover let ?t = "s\<lparr>rows := ?js, workers := (workers s)[w := x], runs := runs s @ rs\<rparr>"
  have "accounted ops ?t"
  proof -
    have other: "ident ops k \<noteq> ident ops j" if "k \<in> set (rows s)" "k \<noteq> j" for k
      using inv(1) assms(4) that by (auto simp: distinct_map inj_on_def)
    have "int (count_list (runs s @ rs) (ident ops k)) = run_count ops k \<and> attempts_ok ops k" if "k \<in> set ?js" for k
    proof (cases "k = f j")
      case True
      then show ?thesis using inv(4) assms(4) f c ok rs by (auto simp: accounted_def)
    next
      case False
      then have "k \<in> set (rows s)" "k \<noteq> j" using that by auto
      then show ?thesis using inv(4) rs other[of k] by (auto simp: accounted_def)
    qed
    moreover have "rows ?t = ?js" "runs ?t = runs s @ rs" by simp_all
    ultimately show ?thesis unfolding accounted_def by metis
  qed
  moreover have "started ops ?t"
    using inv(5) x rs f by (auto simp: started_def dest!: set_update_subset_insert[THEN subsetD])
  ultimately show ?thesis unfolding u by (simp add: pool_inv_def)
qed

lemma pool_inv_idle:
  assumes "pool_inv ops s" "w < length (workers s)"
  shows "pool_inv ops (s\<lparr>workers := (workers s)[w := Idle]\<rparr>)"
proof -
  have "list_all (worker_ok ops (rows s)) ((workers s)[w := Idle])" "started ops (s\<lparr>workers := (workers s)[w := Idle]\<rparr>)"
    using assms by (auto simp: pool_inv_def started_def list_all_iff worker_ok_def dest!: set_update_subset_insert[THEN subsetD])
  moreover have "exclusive ops ((workers s)[w := Idle])"
    using assms by (auto simp: pool_inv_def exclusive_def nth_list_update split: if_splits)
  ultimately show ?thesis using assms by (simp add: pool_inv_def accounted_def)
qed

lemma pool_inv_step: "pool_step ops request s s' \<Longrightarrow> pool_inv ops s \<Longrightarrow> pool_inv ops s'"
proof (induction rule: pool_step.cases)
  case (request js)
  then show ?case using pool_inv_request request_law by simp
next
  case (pick w now j)
  note j = select_law[OF pick(4)]
  have "held_by (ident ops) (workers s ! v) \<noteq> Some (ident ops j)" if "v < length (workers s)" for v
  proof (cases "workers s ! v")
    case (Selected k)
    then have "ident ops k \<in> set (locked ops s)" using that nth_mem[OF that] by (force simp: locked_def)
    then show ?thesis using j Selected by auto
  next
    case (Executing k)
    then have "k \<in> set (rows s) \<or> ident ops k \<notin> ident ops ` set (rows s)" "status ops k = running"
      using pick(5) that by (auto simp: pool_inv_def list_all_length worker_ok_def split: worker.splits)
    then show ?thesis using j pick(5) Executing by (auto simp: pool_inv_def distinct_map inj_on_def job_status_defs)
  qed simp
  then have "exclusive ops ((workers s)[w := Selected j])"
    using pick(2,5) by (intro exclusive_update[where i = "ident ops j"]) (auto simp: pool_inv_def)
  moreover have "list_all (worker_ok ops (rows s)) ((workers s)[w := Selected j])"
    using pick(5) j by (auto simp: pool_inv_def list_all_iff worker_ok_def dest!: set_update_subset_insert[THEN subsetD])
  moreover have "started ops (s\<lparr>workers := (workers s)[w := Selected j]\<rparr>)"
    using pick(5) by (auto simp: pool_inv_def started_def dest!: set_update_subset_insert[THEN subsetD])
  ultimately show ?case using pick(1,5) by (simp add: pool_inv_def accounted_def)
next
  case (launch w j now)
  then have "j \<in> set (rows s)" "status ops j = pending"
    by (auto simp: pool_inv_def list_all_length worker_ok_def split: worker.splits)
  moreover have "attempts_ok ops (start ops now j)"
    using launch(4) calculation(1) start_law[of now j] by (auto simp: pool_inv_def accounted_def attempts_ok_def)
  moreover have "run_count ops (start ops now j) = run_count ops j + 1"
    using calculation(2) start_law[of now j] by (simp add: run_count_def job_status_defs)
  ultimately show ?case unfolding launch(1)
    using pool_inv_replace[OF launch(4,2), of j "start ops now" "Executing (start ops now j)" "[ident ops j]"] launch(3) start_law[of now j]
    by simp
next
  case (finish w j now r)
  then have j: "j \<in> set (rows s) \<or> ident ops j \<notin> ident ops ` set (rows s)" "status ops j = running"
    by (auto simp: pool_inv_def list_all_length worker_ok_def split: worker.splits)
  show ?case
  proof (cases "j \<in> set (rows s)")
    case True
    then have "attempts_ok ops j" using finish(4) by (auto simp: pool_inv_def accounted_def)
    then have "run_count ops (updates ops now j r j) = run_count ops j" "attempts_ok ops (updates ops now j r j)"
      using j(2) updates_law[of now j r j] by (auto simp: run_count_def attempts_ok_def job_status_defs split: if_splits)
    then show ?thesis unfolding finish(1)
      using pool_inv_replace[OF finish(4,2), of j "updates ops now j r" Idle "[]"] finish(3) True updates_law[of now j r j] by simp
  next
    case False
    then have "update_job (ident ops) (ident ops j) (updates ops now j r) (rows s) = rows s"
      using j(1) by (simp add: update_job_absent)
    then show ?thesis using finish(1) pool_inv_idle[OF finish(4,2)] by simp
  qed
next
  case (die w)
  then show ?case using pool_inv_idle by simp
qed

lemma pool_reachable_inv: "pool_reachable ops request s \<Longrightarrow> pool_inv ops s"
proof (induction rule: pool_reachable.induct)
  case (boot n)
  show ?case by (simp add: pool_inv_def exclusive_def accounted_def started_def worker_ok_def list_all_iff)
qed (rule pool_inv_step)

text \<open>A row that was started, that no worker holds and that is not pending never changes again; it can only be deleted.\<close>

lemma settled_row_stays:
  assumes "pool_step ops request s s'" "pool_inv ops s" "status ops j \<noteq> pending" "settled_row ops j s"
  shows "settled_row ops j s'"
  using assms(1)
proof cases
  case (request js)
  have "distinct (map (ident ops) (rows s))" using assms(2) by (simp add: pool_inv_def)
  then show ?thesis using request(1) request_keeps[OF request_law[OF request(2)] _ _ assms(3)] assms(4) by (simp add: settled_row_def)
next
  case (pick w now k)
  have k: "k \<in> set (rows s)" "status ops k = pending" using select_law[OF pick(4)] by simp_all
  have "ident ops k \<noteq> ident ops j"
  proof
    assume "ident ops k = ident ops j"
    moreover from this have "j \<in> set (rows s)" using assms(4) imageI[OF k(1), of "ident ops"] by (simp add: settled_row_def)
    ultimately have "k = j" using assms(2) k(1) by (auto simp: pool_inv_def distinct_map inj_on_def)
    then show False using k(2) assms(3) by simp
  qed
  then show ?thesis using pick(1) assms(4) by (auto simp: settled_row_def dest!: set_update_subset_insert[THEN subsetD])
next
  case (launch w k now)
  then have "ident ops k \<noteq> ident ops j" using assms(4) nth_mem[OF launch(2)] by (fastforce simp: settled_row_def)
  moreover from this have "\<forall>v \<in> set ((workers s)[w := Executing (start ops now k)]). held_by (ident ops) v \<noteq> Some (ident ops j)"
    using assms(4) start_law[of now k] by (auto simp: settled_row_def dest!: set_update_subset_insert[THEN subsetD])
  ultimately show ?thesis using launch(1) assms(4) update_job_other[of "ident ops k" "ident ops" j "start ops now" "rows s"] start_law
    by (simp add: settled_row_def)
next
  case (finish w k now r)
  then have "ident ops k \<noteq> ident ops j" using assms(4) nth_mem[OF finish(2)] by (fastforce simp: settled_row_def)
  moreover have "\<forall>v \<in> set ((workers s)[w := Idle]). held_by (ident ops) v \<noteq> Some (ident ops j)"
    using assms(4) by (auto simp: settled_row_def dest!: set_update_subset_insert[THEN subsetD])
  ultimately show ?thesis using finish(1) assms(4) update_job_other[of "ident ops k" "ident ops" j "updates ops now k r" "rows s"] updates_law
    by (simp add: settled_row_def)
next
  case (die w)
  then show ?thesis using assms(4) by (auto simp: settled_row_def dest!: set_update_subset_insert[THEN subsetD])
qed

lemma settled_row_stays_star:
  assumes "(pool_step ops request)\<^sup>*\<^sup>* s s'" "pool_inv ops s" "status ops j \<noteq> pending" "settled_row ops j s"
  shows "settled_row ops j s' \<and> pool_inv ops s'"
  using assms(1)
proof (induction rule: rtranclp_induct)
  case (step s' s'')
  then show ?case using settled_row_stays[OF step(2), of j] pool_inv_step[OF step(2)] assms(3) by blast
qed (use assms in simp)

text \<open>No worker holds a row that has ended, and a row that is or was run counts as started.\<close>

lemma held_row:
  assumes "pool_inv ops s" "w \<in> set (workers s)" "held_by (ident ops) w = Some (ident ops j)" "j \<in> set (rows s)"
  shows "status ops j = pending \<or> status ops j = running"
proof -
  have "worker_ok ops (rows s) w" "distinct (map (ident ops) (rows s))" using assms(1,2) by (auto simp: pool_inv_def list_all_iff)
  then show ?thesis using assms(3,4) by (cases w) (auto simp: worker_ok_def distinct_map inj_on_def)
qed

lemma started_row:
  assumes "pool_inv ops s" "j \<in> set (rows s)" "status ops j \<in> {running, success, failed}"
  shows "ident ops j \<in> set (runs s)"
proof -
  have "int (count_list (runs s) (ident ops j)) = retryCount ops j + 1" "0 \<le> retryCount ops j"
    using assms by (auto simp: pool_inv_def accounted_def run_count_def attempts_ok_def)
  then have "count_list (runs s) (ident ops j) \<noteq> 0" by linarith
  then show ?thesis by (simp add: count_list_0_iff)
qed

lemma ended_row_stays:
  assumes "(pool_step ops request)\<^sup>*\<^sup>* s s'" "pool_reachable ops request s" "j \<in> set (rows s)" "status ops j \<in> {success, failed}"
  shows "j \<in> set (rows s') \<or> ident ops j \<notin> ident ops ` set (rows s')"
proof -
  note inv = pool_reachable_inv[OF assms(2)]
  have st: "status ops j \<noteq> pending" "status ops j \<noteq> running" using assms(4) by (auto simp: job_status_defs)
  have "ident ops j \<in> set (runs s)" using started_row[OF inv assms(3)] assms(4) by blast
  then have "settled_row ops j s" using assms(3) held_row[OF inv] st unfolding settled_row_def by blast
  then show ?thesis using settled_row_stays_star[OF assms(1) inv st(1)] by (simp add: settled_row_def)
qed

lemma runs_bound:
  assumes "pool_reachable ops request s" "j \<in> set (rows s)"
  shows "int (count_list (runs s) (ident ops j)) \<le> max 1 (maxAttempts ops j)"
proof -
  have "int (count_list (runs s) (ident ops j)) = run_count ops j" "attempts_ok ops j"
    using pool_reachable_inv[OF assms(1)] assms(2) by (auto simp: pool_inv_def accounted_def)
  then show ?thesis by (auto simp: run_count_def attempts_ok_def)
qed

end

text \<open>What the requests do to the table.\<close>

lemma Enqueue_rows: "snd (Enqueue dbok newID now r t u opts js) \<in> {js, js @ [new_sync_job newID now r t u opts]}"
  by (simp add: Enqueue_def Let_def)

lemma Cancel_rows: "snd (Cancel ok jobID js) \<in> {js, map (\<lambda>j. if sj_ID j = jobID \<and> sj_Status j = pending then cancel_sync j else j) js}"
  by (simp add: Cancel_def)

lemma scan_Enqueue_rows:
  "snd (scan_Enqueue env scans dbok newID now i v t u opts js) \<in> {js, js @ [new_scan_job newID now i v t u opts]}"
  by (simp add: scan_Enqueue_def Let_def)

lemma scan_Cancel_rows:
  "snd (scan_Cancel ok jobID js) \<in> {js, map (\<lambda>j. if sc_ID j = jobID \<and> sc_Status j = pending then cancel_scan j else j) js}"
  by (simp add: scan_Cancel_def)

lemma sync_request_effect:
  assumes "sync_request used ls js js'"
  shows "request_effect sync_ops used ls js js'"
  using assms
proof cases
  case (enqueue newID dbok now r t u opts)
  let ?j = "new_sync_job newID now r t u opts"
  from enqueue Enqueue_rows[of dbok newID now r t u opts js] consider "js' = js" | "js' = js @ [?j]" by auto
  then show ?thesis
  proof cases
    case 2
    then show ?thesis by (rule request_effect.added) (use enqueue in \<open>simp_all add: sync_ops_def new_sync_job_def\<close>)
  qed (rule request_effect.none)
next
  case (cancel jobID ok)
  let ?P = "\<lambda>j. sj_ID j = jobID \<and> sj_Status j = pending"
  from cancel Cancel_rows[of ok jobID js] consider "js' = js" | "js' = map (\<lambda>j. if ?P j then cancel_sync j else j) js" by auto
  then show ?thesis
  proof cases
    case 2
    then show ?thesis using cancel(1) by (intro request_effect.cancelled[where P = ?P]) (simp_all add: sync_ops_def)
  qed (rule request_effect.none)
next
  case (cancel_registry r ok)
  let ?P = "\<lambda>j. sj_RegistryID j = r \<and> sj_Status j = pending"
  from cancel_registry consider "js' = js" | "js' = map (\<lambda>j. if ?P j then cancel_sync j else j) js"
    by (auto simp: CancelByRegistry_def split: if_splits)
  then show ?thesis
  proof cases
    case 2
    then show ?thesis using cancel_registry(1) by (intro request_effect.cancelled[where P = ?P]) (simp_all add: sync_ops_def)
  qed (rule request_effect.none)
next
  case (delete_registries rs ok)
  let ?P = "\<lambda>j. sj_RegistryID j \<in> set rs"
  from delete_registries consider "js' = js" | "js' = filter (\<lambda>j. \<not> ?P j) js" by (auto simp: delete_sync_jobs_def split: if_splits)
  then show ?thesis
  proof cases
    case 2
    then show ?thesis using delete_registries(1) by (intro request_effect.deleted[where P = ?P]) (simp_all add: sync_ops_def)
  qed (rule request_effect.none)
qed

lemma scan_request_effect:
  assumes "scan_request used ls js js'"
  shows "request_effect scan_ops used ls js js'"
  using assms
proof cases
  case (enqueue newID env scans dbok now i v t u opts)
  let ?j = "new_scan_job newID now i v t u opts"
  from enqueue scan_Enqueue_rows[of env scans dbok newID now i v t u opts js] consider "js' = js" | "js' = js @ [?j]" by auto
  then show ?thesis
  proof cases
    case 2
    then show ?thesis by (rule request_effect.added) (use enqueue in \<open>simp_all add: scan_ops_def new_scan_job_def\<close>)
  qed (rule request_effect.none)
next
  case (cancel jobID ok)
  let ?P = "\<lambda>j. sc_ID j = jobID \<and> sc_Status j = pending"
  from cancel scan_Cancel_rows[of ok jobID js] consider "js' = js" | "js' = map (\<lambda>j. if ?P j then cancel_scan j else j) js" by auto
  then show ?thesis
  proof cases
    case 2
    then show ?thesis using cancel(1) by (intro request_effect.cancelled[where P = ?P]) (simp_all add: scan_ops_def)
  qed (rule request_effect.none)
next
  case (delete_items items ok)
  let ?P = "\<lambda>j. sc_ItemID j \<in> set items"
  from delete_items consider "js' = js" | "js' = filter (\<lambda>j. \<not> ?P j) js" by (auto simp: delete_scan_jobs_def split: if_splits)
  then show ?thesis
  proof cases
    case 2
    then show ?thesis using delete_items(1) by (intro request_effect.deleted[where P = ?P]) (simp_all add: scan_ops_def)
  qed (rule request_effect.none)
qed

interpretation sync_queue: job_rows sync_ops sync_request
  by unfold_locales
    (auto simp: sync_ops_def select_sync_def due_sync_def start_sync_def sync_updates_def cancel_sync_def
      dest: find_SomeD sync_request_effect[unfolded sync_ops_def] split: sum.split option.split)

interpretation scan_queue: job_rows scan_ops scan_request
  by unfold_locales
    (auto simp: scan_ops_def select_scan_def due_scan_def start_scan_def scan_updates_def cancel_scan_def
      dest: find_SomeD scan_request_effect[unfolded scan_ops_def] split: sum.split option.split)

section \<open>Properties\<close>

text \<open>
  C35. In both queues a job is run by at most one worker at a time, whatever workers and requests interleave, the deletion of registries,
  repositories and items with their jobs included: two workers never have the same job selected or running, and what a worker has is the
  current row, pending while it is selected and running while it is run, unless the row of a job that is being run was deleted meanwhile.
\<close>

theorem jobs_exclusive:
  shows "(pool_reachable sync_ops sync_request s \<longrightarrow> exclusive sync_ops (workers s) \<and>
      (\<forall>w \<in> set (workers s). case w of Idle \<Rightarrow> True | Selected j \<Rightarrow> j \<in> set (rows s) \<and> sj_Status j = pending
         | Executing j \<Rightarrow> sj_Status j = running \<and> (j \<in> set (rows s) \<or> sj_ID j \<notin> sj_ID ` set (rows s)))) \<and>
    (pool_reachable scan_ops scan_request t \<longrightarrow> exclusive scan_ops (workers t) \<and>
      (\<forall>w \<in> set (workers t). case w of Idle \<Rightarrow> True | Selected j \<Rightarrow> j \<in> set (rows t) \<and> sc_Status j = pending
         | Executing j \<Rightarrow> sc_Status j = running \<and> (j \<in> set (rows t) \<or> sc_ID j \<notin> sc_ID ` set (rows t))))"
proof -
  have "(\<forall>w \<in> set (workers s). worker_ok sync_ops (rows s) w) \<longleftrightarrow>
      (\<forall>w \<in> set (workers s). case w of Idle \<Rightarrow> True | Selected j \<Rightarrow> j \<in> set (rows s) \<and> sj_Status j = pending
         | Executing j \<Rightarrow> sj_Status j = running \<and> (j \<in> set (rows s) \<or> sj_ID j \<notin> sj_ID ` set (rows s)))"
    by (simp add: worker_ok_def sync_ops_def cong: worker.case_cong)
  moreover have "(\<forall>w \<in> set (workers t). worker_ok scan_ops (rows t) w) \<longleftrightarrow>
      (\<forall>w \<in> set (workers t). case w of Idle \<Rightarrow> True | Selected j \<Rightarrow> j \<in> set (rows t) \<and> sc_Status j = pending
         | Executing j \<Rightarrow> sc_Status j = running \<and> (j \<in> set (rows t) \<or> sc_ID j \<notin> sc_ID ` set (rows t)))"
    by (simp add: worker_ok_def scan_ops_def cong: worker.case_cong)
  ultimately show ?thesis
    using sync_queue.pool_reachable_inv[of s] scan_queue.pool_reachable_inv[of t] unfolding pool_inv_def list_all_iff by blast
qed

text \<open>
  A job is started at most as often as its limit of attempts says, and at least once is allowed: over any
  sequence of failures, retries and crashes.
\<close>

theorem job_attempts_bounded:
  shows "(pool_reachable sync_ops sync_request s \<and> j \<in> set (rows s) \<longrightarrow>
      int (count_list (runs s) (sj_ID j)) \<le> max 1 (sj_MaxAttempts j)) \<and>
    (pool_reachable scan_ops scan_request t \<and> k \<in> set (rows t) \<longrightarrow>
      int (count_list (runs t) (sc_ID k)) \<le> max 1 (sc_MaxAttempts k))"
  using sync_queue.runs_bound[of s j] scan_queue.runs_bound[of t k] by (simp add: sync_ops_def scan_ops_def)

text \<open>
  A job that has ended, successfully or with its attempts used up, is never touched again, except that its row may be deleted.
\<close>

lemma ended_jobs_final:
  shows "(pool_reachable sync_ops sync_request s \<and> (pool_step sync_ops sync_request)\<^sup>*\<^sup>* s s' \<and> j \<in> set (rows s) \<and> sj_Status j \<in> {success, failed} \<longrightarrow>
      j \<in> set (rows s') \<or> sj_ID j \<notin> sj_ID ` set (rows s')) \<and>
    (pool_reachable scan_ops scan_request t \<and> (pool_step scan_ops scan_request)\<^sup>*\<^sup>* t t' \<and> k \<in> set (rows t) \<and> sc_Status k \<in> {success, failed} \<longrightarrow>
      k \<in> set (rows t') \<or> sc_ID k \<notin> sc_ID ` set (rows t'))"
  using sync_queue.ended_row_stays[of s s' j] scan_queue.ended_row_stays[of t t' k] by (simp add: sync_ops_def scan_ops_def)

text \<open>
  A job whose worker died while it was running, or whose last update failed, stays running until its registry is deleted: nothing
  takes it up again, and every later request to synchronise its registry is turned away while the database answers.
\<close>

theorem orphaned_job_blocks:
  assumes "pool_reachable sync_ops sync_request s" "j \<in> set (rows s)" "sj_Status j = running"
    and "\<forall>w \<in> set (workers s). held_by sj_ID w \<noteq> Some (sj_ID j)" "(pool_step sync_ops sync_request)\<^sup>*\<^sup>* s s'"
  shows "sj_ID j \<notin> sj_ID ` set (rows s') \<or> j \<in> set (rows s') \<and>
    fst (Enqueue (\<lambda>_. True) newID now (sj_RegistryID j) triggerType triggerUser opts (rows s')) \<in> {Inl ErrJobAlreadyQueued, Inr None}"
proof -
  note inv = sync_queue.pool_reachable_inv[OF assms(1)]
  have st: "status sync_ops j = running" "status sync_ops j \<noteq> pending" using assms(3) by (simp_all add: sync_ops_def job_status_defs)
  have "ident sync_ops j \<in> set (runs s)" by (rule sync_queue.started_row[OF inv assms(2)]) (simp add: st(1))
  then have "settled_row sync_ops j s" using assms(2,4) by (simp add: settled_row_def sync_ops_def)
  then have "j \<in> set (rows s') \<or> sj_ID j \<notin> sj_ID ` set (rows s')"
    using sync_queue.settled_row_stays_star[OF assms(5) inv st(2)] by (simp add: settled_row_def sync_ops_def)
  moreover have "0 < active_sync (sj_RegistryID j) (rows s')" if "j \<in> set (rows s')"
    using assms(3) that by (auto simp: active_sync_def filter_empty_conv)
  ultimately show ?thesis by (auto simp: Enqueue_def)
qed

text \<open>The row a worker selects is the most urgent one: of the smallest priority, and of these the one scheduled first.\<close>

lemma select_sync_first:
  assumes "select_sync now ls js = Some j" "k \<in> set js" "due_sync now ls k"
  shows "sj_Priority j < sj_Priority k \<or> sj_Priority j = sj_Priority k \<and> sj_ScheduledAt j \<le> sj_ScheduledAt k"
  using sorted_find_least[OF assms(1)[unfolded select_sync_def] assms(2,3)] .

lemma select_sync_None: "select_sync now ls js = None \<longleftrightarrow> (\<forall>j \<in> set js. \<not> due_sync now ls j)"
  by (auto simp: select_sync_def find_None_iff)

text \<open>Up to the ninth retry the backoff is what it is meant to be; then it overflows.\<close>

lemma sync_backoff_exact: "1 \<le> n \<Longrightarrow> n \<le> 9 \<Longrightarrow> sync_backoff n = 3 * 10 ^ nat n * second"
proof -
  assume "1 \<le> n" "n \<le> 9"
  then have "n \<in> {1, 2, 3, 4, 5, 6, 7, 8, 9}" by auto
  moreover have "list_all (\<lambda>n. sync_backoff n = 3 * 10 ^ nat n * second) [1, 2, 3, 4, 5, 6, 7, 8, 9]" by code_simp
  ultimately show ?thesis by auto
qed

lemma sync_backoff_overflow: "sync_backoff 10 < 0"
  by code_simp

text \<open>
  The ticks of one worker: each has the statements that work, the time of its query and the time at which the job that it runs is done.
\<close>

type_synonym tick = "(nat \<Rightarrow> bool) \<times> int \<times> int"

fun ticks :: "sync_fun \<Rightarrow> tick list \<Rightarrow> SyncJob list \<Rightarrow> SyncJob list" where
  "ticks sync [] js = js"
| "ticks sync ((dbok, now, later) # ts) js = ticks sync ts (snd (processOne sync dbok now later js))"

definition takes :: "tick \<Rightarrow> bool" where
  "takes t \<longleftrightarrow> fst t 0 \<and> fst t 1"

text \<open>The runs that may still be spent on a job, and on the jobs other than a given one.\<close>

definition attempts_left :: "SyncJob \<Rightarrow> nat" where
  "attempts_left j = (if sj_Status j = pending then nat (max 1 (sj_MaxAttempts j - sj_RetryCount j)) else 0)"

definition others_left :: "SyncJob \<Rightarrow> SyncJob list \<Rightarrow> nat" where
  "others_left j js = sum_list (map attempts_left (filter (\<lambda>r. r \<noteq> j) js))"

text \<open>The row of a job after its run: with the outcome of \<^verbatim>\<open>SyncRegistry\<close>, or still running if the last update failed.\<close>

definition row_after :: "sync_fun \<Rightarrow> bool \<Rightarrow> int \<Rightarrow> int \<Rightarrow> SyncJob \<Rightarrow> SyncJob" where
  "row_after sync ok now later j =
     (if ok then sync_updates later (start_sync now j) (sync (sj_RegistryID j) (sj_TriggerType j) (sj_TriggerUser j) (sj_DryRun j)) (start_sync now j)
      else start_sync now j)"

lemma row_after_ID: "sj_ID (row_after sync ok now later j) = sj_ID j"
  by (simp add: row_after_def start_sync_def sync_updates_def split: sum.split option.split)

lemma row_after_left: "sj_Status j = pending \<Longrightarrow> attempts_left (row_after sync ok now later j) < attempts_left j"
  by (auto simp: row_after_def attempts_left_def start_sync_def sync_updates_def job_status_defs split: sum.split option.split)

lemma processOne_run:
  assumes "distinct (map sj_ID js)" "select_sync now [] js = Some j" "sj_ID j \<noteq> []" "dbok 0" "dbok 1"
  shows "processOne sync dbok now later js = (Some j, map (\<lambda>r. if r = j then row_after sync (dbok 2) now later j else r) js)"
proof -
  have j: "j \<in> set js" using assms(2) by (auto simp: select_sync_def dest: find_SomeD)
  let ?r = "sync (sj_RegistryID j) (sj_TriggerType j) (sj_TriggerUser j) (sj_DryRun j)"
  have ids: "sj_ID (start_sync now k) = sj_ID k" for k by (simp add: start_sync_def)
  have "finalizeJob (dbok 2) later (start_sync now j) ?r (update_job sj_ID (sj_ID j) (start_sync now) js) =
      update_job sj_ID (sj_ID j) (\<lambda>k. if dbok 2 then sync_updates later (start_sync now j) ?r (start_sync now k) else start_sync now k) js"
    by (simp add: finalizeJob_def update_job_def ids o_def cong: if_cong)
  also have "\<dots> = map (\<lambda>r. if r = j then row_after sync (dbok 2) now later j else r) js"
    unfolding update_job_row[OF assms(1) j] by (simp add: row_after_def)
  finally show ?thesis using assms by (simp add: processOne_def Let_def)
qed

lemma sum_list_replace:
  assumes "(f k' :: nat) < f k"
  shows "sum_list (map f (map (\<lambda>r. if r = k then k' else r) xs)) \<le> sum_list (map f xs)"
    and "k \<in> set xs \<Longrightarrow> sum_list (map f (map (\<lambda>r. if r = k then k' else r) xs)) < sum_list (map f xs)"
proof -
  show le: "sum_list (map f (map (\<lambda>r. if r = k then k' else r) xs)) \<le> sum_list (map f xs)" for xs
    using assms by (induction xs) auto
  show "k \<in> set xs \<Longrightarrow> sum_list (map f (map (\<lambda>r. if r = k then k' else r) xs)) < sum_list (map f xs)"
  proof (induction xs)
    case (Cons a xs)
    then show ?case using assms le[of xs] by (cases "a = k") (auto simp del: map_map)
  qed simp
qed

lemma others_left_run:
  assumes "distinct (map sj_ID js)" "j \<in> set js" "k \<in> set js" "k \<noteq> j" "sj_Status k = pending"
  shows "others_left j (map (\<lambda>r. if r = k then row_after sync ok now later k else r) js) < others_left j js"
proof -
  let ?k = "row_after sync ok now later k"
  have "sj_ID j \<noteq> sj_ID k" using assms by (auto simp: distinct_map inj_on_def)
  then have "?k \<noteq> j" using row_after_ID by metis
  then have "filter (\<lambda>r. r \<noteq> j) (map (\<lambda>r. if r = k then ?k else r) js) = map (\<lambda>r. if r = k then ?k else r) (filter (\<lambda>r. r \<noteq> j) js)"
    using assms(4) by (auto simp: filter_map o_def intro!: arg_cong[where f = "map _"] filter_cong)
  then show ?thesis unfolding others_left_def
    using sum_list_replace(2)[of attempts_left ?k k "filter (\<lambda>r. r \<noteq> j) js", OF row_after_left[OF assms(5)]] assms(3,4) by simp
qed

text \<open>
  C36. No due job starves in the synchronisation queue.  Take one worker and a table that no request changes meanwhile; the ticks of the
  worker come at any times, and in each of them any statement may fail.  A pending job that is due at every tick is run after at most as
  many ticks whose transaction works as there are runs left for the other jobs, however urgent these are and however often they fail and are
  retried, and one more: \<^verbatim>\<open>SyncRegistry\<close> is called for it and its outcome is written into the row, unless the last update fails.
\<close>

theorem due_job_runs:
  assumes "distinct (map sj_ID js)" "\<forall>k \<in> set js. sj_ID k \<noteq> []" "j \<in> set js" "sj_Status j = pending"
    and "\<forall>(dbok, now, later) \<in> set ts. sj_ScheduledAt j \<le> now" "others_left j js < length (filter takes ts)"
  shows "\<exists>us dbok now later vs. ts = us @ (dbok, now, later) # vs \<and>
    fst (processOne sync dbok now later (ticks sync us js)) = Some j \<and>
    (if dbok 2 then sync_updates later (start_sync now j) (sync (sj_RegistryID j) (sj_TriggerType j) (sj_TriggerUser j) (sj_DryRun j)) (start_sync now j)
     else start_sync now j) \<in> set (ticks sync (us @ [(dbok, now, later)]) js)"
  using assms
proof (induction ts arbitrary: js)
  case (Cons t ts)
  obtain dbok now later where t: "t = (dbok, now, later)" by (cases t) auto
  have next_tick: ?case if n: "snd (processOne sync dbok now later js) = js'" "distinct (map sj_ID js')" "\<forall>k \<in> set js'. sj_ID k \<noteq> []" "j \<in> set js'"
    "others_left j js' < length (filter takes ts)" for js'
  proof -
    obtain us dbok' now' later' vs where *: "ts = us @ (dbok', now', later') # vs"
      "fst (processOne sync dbok' now' later' (ticks sync us js')) = Some j"
      "(if dbok' 2 then sync_updates later' (start_sync now' j) (sync (sj_RegistryID j) (sj_TriggerType j) (sj_TriggerUser j) (sj_DryRun j)) (start_sync now' j)
        else start_sync now' j) \<in> set (ticks sync (us @ [(dbok', now', later')]) js')"
      using Cons.IH[OF n(2,3,4) Cons.prems(4) _ n(5)] Cons.prems(5) by auto
    show ?thesis using * n(1)
      by (intro exI[of _ "t # us"] exI[of _ dbok'] exI[of _ now'] exI[of _ later'] exI[of _ vs]) (simp add: t)
  qed
  show ?case
  proof (cases "takes t")
    case False
    then have "snd (processOne sync dbok now later js) = js" by (auto simp: t takes_def processOne_def split: option.split)
    then show ?thesis using next_tick[of js] Cons.prems False by simp
  next
    case takes: True
    have "due_sync now [] j" using Cons.prems(4,5) by (simp add: t due_sync_def)
    then obtain k where k: "select_sync now [] js = Some k" using select_sync_None[of now "[]" js] Cons.prems(3) by (cases "select_sync now [] js") auto
    then have kd: "k \<in> set js" "sj_Status k = pending" by (auto simp: select_sync_def due_sync_def dest: find_SomeD)
    let ?k = "row_after sync (dbok 2) now later k"
    have p: "processOne sync dbok now later js = (Some k, map (\<lambda>r. if r = k then ?k else r) js)"
      by (rule processOne_run[OF Cons.prems(1) k]) (use takes Cons.prems(2) kd(1) in \<open>auto simp: t takes_def\<close>)
    show ?thesis
    proof (cases "k = j")
      case True
      have "?k \<in> set (map (\<lambda>r. if r = k then ?k else r) js)" using kd(1) by force
      then show ?thesis using p True by (intro exI[of _ "[]"] exI[of _ dbok] exI[of _ now] exI[of _ later] exI[of _ ts]) (simp add: t row_after_def)
    next
      case False
      have "distinct (map sj_ID (map (\<lambda>r. if r = k then ?k else r) js))" unfolding ids_replace[where key = sj_ID, OF row_after_ID] by (rule Cons.prems(1))
      moreover have "j \<in> set (map (\<lambda>r. if r = k then ?k else r) js)" using Cons.prems(3) False by force
      moreover have "\<forall>r \<in> set (map (\<lambda>r. if r = k then ?k else r) js). sj_ID r \<noteq> []" using Cons.prems(2) kd(1) by (auto simp: row_after_ID)
      moreover have "others_left j (map (\<lambda>r. if r = k then ?k else r) js) < length (filter takes ts)"
        using others_left_run[OF Cons.prems(1,3) kd(1) False kd(2), of sync "dbok 2" now later] Cons.prems(6) takes by simp
      moreover have "snd (processOne sync dbok now later js) = map (\<lambda>r. if r = k then ?k else r) js" unfolding p by simp
      ultimately show ?thesis by (intro next_tick)
    qed
  qed
qed simp

section \<open>Instances\<close>

definition opts0 :: EnqueueOptions where
  "opts0 = \<lparr>eo_Priority = 1, eo_ScheduledAt = None, eo_DryRun = False, eo_MaxAttempts = 0\<rparr>"

definition job1 :: SyncJob where
  "job1 = new_sync_job ''j1'' 10 ''r1'' ''manual'' ''u1'' opts0"

definition job1r :: SyncJob where
  "job1r = start_sync 11 job1"

definition pool1 :: "SyncJob pool" where "pool1 = \<lparr>rows = [job1], workers = [Idle, Idle], runs = []\<rparr>"

definition pool2 :: "SyncJob pool" where "pool2 = \<lparr>rows = [job1], workers = [Selected job1, Idle], runs = []\<rparr>"

definition pool3 :: "SyncJob pool" where "pool3 = \<lparr>rows = [job1r], workers = [Executing job1r, Idle], runs = [''j1'']\<rparr>"

definition pool4 :: "SyncJob pool" where "pool4 = \<lparr>rows = [job1r], workers = [Idle, Idle], runs = [''j1'']\<rparr>"

lemmas pool_defs = pool1_def pool2_def pool3_def pool4_def

lemma job1_facts:
  "sj_ID job1 = ''j1''" "sj_ID job1r = ''j1''" "sj_Status job1r = running" "sj_RegistryID job1r = ''r1''"
  "sj_MaxAttempts job1r = 3"
  by code_simp+

lemma pool1_reachable: "pool_reachable sync_ops sync_request pool1"
proof -
  let ?p = "\<lparr>rows = [], workers = replicate 2 Idle, runs = []\<rparr> :: SyncJob pool"
  have "sync_request used ls [] [job1]" if "''j1'' \<notin> set used" for used ls
    by (rule sync_request.enqueue[of "''j1''" _ _ _ "\<lambda>_. True" 10 "''r1''" "''manual''" "''u1''" opts0])
      (use that in \<open>simp_all add: Enqueue_def Let_def active_sync_def job1_def\<close>)
  then have "pool_step sync_ops sync_request ?p (?p\<lparr>rows := [job1]\<rparr>)" by (intro pool_step.request) simp
  then have "pool_reachable sync_ops sync_request (?p\<lparr>rows := [job1]\<rparr>)" by (rule pool_reachable.step[OF pool_reachable.boot])
  then show ?thesis by (simp add: pool1_def numeral_2_eq_2)
qed

lemma pool2_reachable: "pool_reachable sync_ops sync_request pool2"
proof -
  have "select sync_ops 11 (locked sync_ops pool1) (rows pool1) = Some job1" by code_simp
  then have "pool_step sync_ops sync_request pool1 (pool1\<lparr>workers := (workers pool1)[0 := Selected job1]\<rparr>)"
    by (intro pool_step.pick) (simp_all add: pool_defs)
  then show ?thesis using pool_reachable.step[OF pool1_reachable] by (simp add: pool_defs)
qed

lemma pool3_reachable: "pool_reachable sync_ops sync_request pool3"
proof -
  have "pool_step sync_ops sync_request pool2
      (pool2\<lparr>rows := update_job (ident sync_ops) (ident sync_ops job1) (start sync_ops 11) (rows pool2),
        workers := (workers pool2)[0 := Executing (start sync_ops 11 job1)], runs := runs pool2 @ [ident sync_ops job1]\<rparr>)"
    by (rule pool_step.launch) (simp_all add: pool_defs)
  then show ?thesis using pool_reachable.step[OF pool2_reachable] by (simp add: pool_defs sync_ops_def update_job_def job1r_def job1_facts)
qed

lemma pool3_die: "pool_step sync_ops sync_request pool3 pool4"
  using pool_step.die[of 0 pool3 sync_ops sync_request] by (simp add: pool_defs)

theorem jobs_exclusive_witness: "exclusive sync_ops (workers pool3) \<and> workers pool3 \<noteq> [Idle, Idle]"
  using jobs_exclusive[of pool3] pool3_reachable by (simp add: pool3_def)

theorem job_attempts_bounded_witness: "int (count_list (runs pool3) ''j1'') \<le> 3"
  using job_attempts_bounded[of pool3 job1r] pool3_reachable job1_facts by (simp add: pool3_def)

theorem orphaned_job_blocks_witness:
  "fst (Enqueue (\<lambda>_. True) ''j2'' 99 ''r1'' ''manual'' ''u2'' opts0 (rows pool4)) \<in> {Inl ErrJobAlreadyQueued, Inr None}"
  using orphaned_job_blocks[OF pool_reachable.step[OF pool3_reachable pool3_die], of job1r pool4 "''j2''" 99 "''manual''" "''u2''" opts0]
  by (simp add: pool4_def job1_facts)

text \<open>A job behind a more urgent one that fails and is due again at once.\<close>

definition urgent_job :: SyncJob where
  "urgent_job = (new_sync_job ''j0'' 0 ''r0'' ''manual'' ''u0'' opts0)\<lparr>sj_Priority := 0, sj_MaxAttempts := 2\<rparr>"

definition three_ticks :: "tick list" where
  "three_ticks = [(\<lambda>_. True, 20, 21), (\<lambda>_. True, 40000000000, 40000000001), (\<lambda>_. True, 40000000002, 40000000003)]"

theorem due_job_runs_witness:
  "\<exists>us dbok now later vs. three_ticks = us @ (dbok, now, later) # vs \<and>
     fst (processOne (\<lambda>_ _ _ _. Inl ''clone failed'') dbok now later (ticks (\<lambda>_ _ _ _. Inl ''clone failed'') us [urgent_job, job1])) = Some job1"
proof -
  have "distinct (map sj_ID [urgent_job, job1])" "\<forall>k \<in> set [urgent_job, job1]. sj_ID k \<noteq> []" "sj_Status job1 = pending"
    "others_left job1 [urgent_job, job1] < length (filter takes three_ticks)" by code_simp+
  moreover have "\<forall>(dbok, now, later) \<in> set three_ticks. sj_ScheduledAt job1 \<le> now"
    by (simp add: three_ticks_def job1_def new_sync_job_def opts0_def)
  ultimately show ?thesis using due_job_runs[of "[urgent_job, job1]" job1 three_ticks "\<lambda>_ _ _ _. Inl ''clone failed''"] by fastforce
qed

end
