(* ===== verification/Dispatcher.thy ===== *)
theory Dispatcher
  imports Json_Data Db_Query Gateway_Registry "HOL-Library.Multiset"
begin

text \<open>
  Deferred notifications (\<^verbatim>\<open>server/internal/dispatcher\<close>): the dispatch of device events, the backlog of debounced events in
  the database, and the managers that ask the device whether an event is still open, through the gateway registry
  (\<^verbatim>\<open>gateway/session_proxy.go\<close>).

  What is sent is a list of effects: batches for the AI handler, notifications and replies to permission requests.  The JSON
  codec of a payload, the HTTP client, the answer of the AI handler and the clock are arguments; \<open>dbok\<close> says which statements
  the database executes.
\<close>

section \<open>Requests to a device\<close>

datatype proxy_error = NotConnected | BadRequest | ProxyFailed | DeviceStatus nat | InvalidResponse

text \<open>
  \<open>proxy\<close> is the HTTP request through the gateway at an internal address: the status and the body of the answer, if any.  \<open>well_formed\<close>
  says whether \<^verbatim>\<open>http.NewRequest\<close> accepts the method and path.  An answer without a body leaves the result empty.
\<close>

record device_request =
  dr_DeviceID :: string
  dr_Directory :: string
  dr_Method :: string
  dr_Path :: string
  dr_Body :: string

record device_client =
  well_formed :: "string \<Rightarrow> string \<Rightarrow> bool"
  proxy :: "string \<Rightarrow> device_request \<Rightarrow> (nat \<times> string) option"
  decode :: "string \<Rightarrow> json option"

definition ProxyDeviceSessionRequest ::
  "'s Store \<Rightarrow> device_client \<Rightarrow> 's GatewayRegistry \<Rightarrow> string \<Rightarrow> device_request \<Rightarrow> proxy_error + json option" where
  "ProxyDeviceSessionRequest ops client registry userID req =
     (case GetDeviceGateway ops (dr_DeviceID req) registry of
        Inl _ \<Rightarrow> Inl NotConnected
      | Inr gw \<Rightarrow>
          if \<not> well_formed client (dr_Method req) (dr_Path req) then Inl BadRequest
          else case proxy client (gw_InternalURL gw) req of
            None \<Rightarrow> Inl ProxyFailed
          | Some (statusCode, body) \<Rightarrow>
              if 400 \<le> statusCode then Inl (DeviceStatus statusCode)
              else if body = [] then Inr None
              else case decode client body of None \<Rightarrow> Inl InvalidResponse | Some v \<Rightarrow> Inr (Some v))"

section \<open>Events and their managers\<close>

record DispatchInput =
  di_UserID :: string
  di_WorkspaceID :: string
  di_EventType :: string
  di_SessionID :: string
  di_DeviceID :: string
  di_Path :: string
  di_SessionURL :: string
  di_ActionData :: "jobj option"

text \<open>
  The decoding of an array of structs with a field \<^verbatim>\<open>id\<close>: keys match in any case, null leaves the field as it is, another type is an error.
\<close>

fun entry_id :: "string \<Rightarrow> jobj \<Rightarrow> string option" where
  "entry_id i [] = Some i"
| "entry_id i ((k, v) # m) =
     (if to_lower k = ''id''
      then (case v of JStr s \<Rightarrow> entry_id s m | JNull \<Rightarrow> entry_id i m | _ \<Rightarrow> None)
      else entry_id i m)"

fun entry_ids :: "json list \<Rightarrow> string list option" where
  "entry_ids [] = Some []"
| "entry_ids (v # vs) =
     (case (case v of JObj m \<Rightarrow> entry_id [] m | JNull \<Rightarrow> Some [] | _ \<Rightarrow> None) of
        None \<Rightarrow> None
      | Some i \<Rightarrow> map_option (\<lambda>is. if i \<noteq> [] then i # is else is) (entry_ids vs))"

definition decodeIDs :: "json \<Rightarrow> string list option" where
  "decodeIDs v = (case v of JArr vs \<Rightarrow> entry_ids vs | JNull \<Rightarrow> Some [] | _ \<Rightarrow> None)"

definition parseIDList :: "json option \<Rightarrow> string \<Rightarrow> string list option" where
  "parseIDList raw wrapperKey =
     (case raw of
        None \<Rightarrow> Some []
      | Some (JObj wrapped) \<Rightarrow>
          (case map_of wrapped wrapperKey of Some v \<Rightarrow> decodeIDs v | None \<Rightarrow> decodeIDs (JObj wrapped))
      | Some v \<Rightarrow> decodeIDs v)"

definition data_id :: "jobj \<Rightarrow> string" where
  "data_id m = as_str (jget m ''id'')"

fun batch_ids :: "json list \<Rightarrow> string list" where
  "batch_ids [] = []"
| "batch_ids (JObj m # vs) = (if data_id m \<noteq> [] then data_id m # batch_ids vs else batch_ids vs)"
| "batch_ids (_ # vs) = batch_ids vs"

definition extractPermissionIDs :: "DispatchInput \<Rightarrow> string list" where
  "extractPermissionIDs input =
     (case di_ActionData input of
        None \<Rightarrow> []
      | Some m \<Rightarrow>
          if data_id m \<noteq> [] then [data_id m]
          else (case jget m ''permissions'' of JArr perms \<Rightarrow> batch_ids perms | _ \<Rightarrow> []))"

text \<open>\<open>fetch\<close> is the request to the device, with the path as its argument.  No manager answers with an error once it is configured.\<close>

type_synonym fetcher = "DispatchInput \<Rightarrow> string \<Rightarrow> proxy_error + json option"

definition PermissionManager_IsStillPending :: "fetcher \<Rightarrow> DispatchInput \<Rightarrow> bool" where
  "PermissionManager_IsStillPending fetch input =
     (let ids = extractPermissionIDs input
      in if ids = [] then True
         else case fetch input ''/api/v1/permissions'' of
           Inl _ \<Rightarrow> True
         | Inr raw \<Rightarrow>
             (case parseIDList raw ''permissions'' of
                None \<Rightarrow> True
              | Some pendingIDs \<Rightarrow> list_ex (\<lambda>i. i \<in> set pendingIDs) ids))"

definition QuestionManager_IsStillPending :: "fetcher \<Rightarrow> DispatchInput \<Rightarrow> bool" where
  "QuestionManager_IsStillPending fetch input =
     (let i = (case di_ActionData input of None \<Rightarrow> [] | Some m \<Rightarrow> data_id m)
      in if i = [] then True
         else case fetch input ''/api/v1/questions'' of
           Inl _ \<Rightarrow> True
         | Inr raw \<Rightarrow>
             (case parseIDList raw ''questions'' of
                None \<Rightarrow> True
              | Some pendingIDs \<Rightarrow> i \<in> set pendingIDs))"

definition device_fetcher :: "'s Store \<Rightarrow> device_client \<Rightarrow> 's GatewayRegistry \<Rightarrow> fetcher" where
  "device_fetcher ops client registry input path =
     ProxyDeviceSessionRequest ops client registry (di_UserID input)
       \<lparr>dr_DeviceID = di_DeviceID input, dr_Directory = di_Path input, dr_Method = ''GET'', dr_Path = path, dr_Body = []\<rparr>"

text \<open>An event manager: an error, or whether the event is still pending.\<close>

type_synonym managers = "string \<Rightarrow> (DispatchInput \<Rightarrow> string + bool) option"

section \<open>The backlog\<close>

record Dispatcher =
  dp_debounceWindow :: int
  dp_debounceMaxCap :: int
  dp_pollInterval :: int

definition dp_second :: int where "dp_second = 1000000000"

definition defaultDebounceWindow :: int where "defaultDebounceWindow = 30 * dp_second"

definition defaultDebounceMaxCap :: int where "defaultDebounceMaxCap = 60 * dp_second"

definition defaultPollInterval :: int where "defaultPollInterval = 1 * dp_second"

definition NewDispatcherWithPolling :: "int \<Rightarrow> int \<Rightarrow> int \<Rightarrow> Dispatcher" where
  "NewDispatcherWithPolling window0 maxCap0 poll0 =
     (let window = (if window0 \<le> 0 then defaultDebounceWindow else window0);
          maxCap1 = (if maxCap0 \<le> 0 then defaultDebounceMaxCap else maxCap0);
          maxCap = (if maxCap1 < window then window else maxCap1);
          poll = (if poll0 \<le> 0 then defaultPollInterval else poll0)
      in \<lparr>dp_debounceWindow = window, dp_debounceMaxCap = maxCap, dp_pollInterval = poll\<rparr>)"

definition NewDispatcherWithDebounce :: "int \<Rightarrow> int \<Rightarrow> Dispatcher" where
  "NewDispatcherWithDebounce window maxCap = NewDispatcherWithPolling window maxCap defaultPollInterval"

definition NewDispatcher :: Dispatcher where
  "NewDispatcher = NewDispatcherWithDebounce defaultDebounceWindow defaultDebounceMaxCap"

record DeferredNotification =
  dn_ID :: nat
  dn_UserID :: string
  dn_FireAt :: int
  dn_FirstSeen :: int
  dn_Payload :: string

text \<open>The table, with the next value of its counter.\<close>

record backlog =
  bl_rows :: "DeferredNotification list"
  bl_next :: nat

record payload_codec =
  encode_input :: "DispatchInput \<Rightarrow> string option"
  decode_input :: "string \<Rightarrow> DispatchInput option"

definition user_rows :: "string \<Rightarrow> DeferredNotification list \<Rightarrow> DeferredNotification list" where
  "user_rows userID rows = filter (\<lambda>r. dn_UserID r = userID) rows"

definition other_rows :: "string \<Rightarrow> DeferredNotification list \<Rightarrow> DeferredNotification list" where
  "other_rows userID rows = filter (\<lambda>r. dn_UserID r \<noteq> userID) rows"

definition rearmUserFireAt :: "Dispatcher \<Rightarrow> string \<Rightarrow> int \<Rightarrow> DeferredNotification list \<Rightarrow> DeferredNotification list option" where
  "rearmUserFireAt d userID now rows =
     (case find (\<lambda>r. dn_UserID r = userID) (sort_key dn_FirstSeen rows) of
        None \<Rightarrow> None
      | Some oldest \<Rightarrow>
          let fireAt0 = now + dp_debounceWindow d;
              capAt = dn_FirstSeen oldest + dp_debounceMaxCap d;
              fireAt = (if capAt < fireAt0 then capAt else fireAt0)
          in Some (map (\<lambda>r. if dn_UserID r = userID then r\<lparr>dn_FireAt := fireAt\<rparr> else r) rows))"

definition startDeferredNotification ::
  "payload_codec \<Rightarrow> Dispatcher \<Rightarrow> (nat \<Rightarrow> bool) \<Rightarrow> int \<Rightarrow> DispatchInput \<Rightarrow> backlog \<Rightarrow> backlog" where
  "startDeferredNotification codec d dbok now input b =
     (case encode_input codec input of
        None \<Rightarrow> b
      | Some payload \<Rightarrow>
          let entry = \<lparr>dn_ID = bl_next b, dn_UserID = di_UserID input, dn_FireAt = now + dp_debounceWindow d,
                       dn_FirstSeen = now, dn_Payload = payload\<rparr>
          in if \<not> dbok 0 then b
             else if \<not> dbok 1 \<or> \<not> dbok 2 then b\<lparr>bl_next := bl_next b + 1\<rparr>
             else case rearmUserFireAt d (di_UserID input) now (bl_rows b @ [entry]) of
               None \<Rightarrow> b\<lparr>bl_next := bl_next b + 1\<rparr>
             | Some rows \<Rightarrow> b\<lparr>bl_rows := rows, bl_next := bl_next b + 1\<rparr>)"

definition loadPendingUsers :: "int \<Rightarrow> backlog \<Rightarrow> string list" where
  "loadPendingUsers now b = remdups (map dn_UserID (filter (\<lambda>r. dn_FireAt r \<le> now) (bl_rows b)))"

text \<open>The two statements of the drain.\<close>

definition drain_select :: "string \<Rightarrow> backlog \<Rightarrow> DeferredNotification list" where
  "drain_select userID b = sort_key dn_ID (user_rows userID (bl_rows b))"

definition drain_delete :: "string \<Rightarrow> backlog \<Rightarrow> backlog" where
  "drain_delete userID b = b\<lparr>bl_rows := other_rows userID (bl_rows b)\<rparr>"

definition drainUserBacklog :: "(nat \<Rightarrow> bool) \<Rightarrow> string \<Rightarrow> backlog \<Rightarrow> DeferredNotification list option \<times> backlog" where
  "drainUserBacklog dbok userID b =
     (if \<not> dbok 0 then (None, b)
      else if drain_select userID b = [] then (Some [], b)
      else if \<not> dbok 1 then (None, b)
      else (Some (drain_select userID b), drain_delete userID b))"

definition cancelUserBacklog :: "bool \<Rightarrow> string \<Rightarrow> backlog \<Rightarrow> backlog" where
  "cancelUserBacklog ok userID b = (if ok then drain_delete userID b else b)"

definition CancelDeferredNotification :: "bool \<Rightarrow> string \<Rightarrow> backlog \<Rightarrow> backlog" where
  "CancelDeferredNotification ok userID b = (if userID = [] then b else cancelUserBacklog ok userID b)"

section \<open>Firing\<close>

datatype dispatch_effect =
    AIBatch "DispatchInput list"
  | Notify DispatchInput
  | Approve string string string

text \<open>\<open>svc\<close>: a notification service is configured; \<open>ai\<close>: the AI handler, if registered, with its answer.\<close>

definition dispatchNotification :: "bool \<Rightarrow> DispatchInput \<Rightarrow> dispatch_effect list" where
  "dispatchNotification svc input = (if svc then [Notify input] else [])"

definition invokeAIHandler :: "bool \<Rightarrow> (DispatchInput list \<Rightarrow> bool) option \<Rightarrow> DispatchInput list \<Rightarrow> dispatch_effect list" where
  "invokeAIHandler svc ai inputs =
     (if inputs = [] then []
      else case ai of
        None \<Rightarrow> concat (map (dispatchNotification svc) inputs)
      | Some h \<Rightarrow> AIBatch inputs # (if h inputs then [] else concat (map (dispatchNotification svc) inputs)))"

definition still_pending :: "managers \<Rightarrow> DispatchInput \<Rightarrow> bool" where
  "still_pending eventManagers input =
     (case eventManagers (di_EventType input) of
        None \<Rightarrow> True
      | Some mgr \<Rightarrow> (case mgr input of Inl _ \<Rightarrow> True | Inr still \<Rightarrow> still))"

fun survivors :: "payload_codec \<Rightarrow> managers \<Rightarrow> DeferredNotification list \<Rightarrow> DispatchInput list" where
  "survivors codec eventManagers [] = []"
| "survivors codec eventManagers (e # es) =
     (case decode_input codec (dn_Payload e) of
        None \<Rightarrow> survivors codec eventManagers es
      | Some input \<Rightarrow>
          if still_pending eventManagers input then input # survivors codec eventManagers es
          else survivors codec eventManagers es)"

definition fireDeferredNotification ::
  "payload_codec \<Rightarrow> managers \<Rightarrow> bool \<Rightarrow> (DispatchInput list \<Rightarrow> bool) option \<Rightarrow> (nat \<Rightarrow> bool) \<Rightarrow> string \<Rightarrow> backlog \<Rightarrow>
   dispatch_effect list \<times> backlog" where
  "fireDeferredNotification codec eventManagers svc ai dbok userID b =
     (case drainUserBacklog dbok userID b of
        (None, b') \<Rightarrow> ([], b')
      | (Some entries, b') \<Rightarrow> (invokeAIHandler svc ai (survivors codec eventManagers entries), b'))"

fun fire_users ::
  "payload_codec \<Rightarrow> managers \<Rightarrow> bool \<Rightarrow> (DispatchInput list \<Rightarrow> bool) option \<Rightarrow> (nat \<Rightarrow> bool) \<Rightarrow> string list \<Rightarrow> backlog \<Rightarrow>
   dispatch_effect list \<times> backlog" where
  "fire_users codec eventManagers svc ai dbok [] b = ([], b)"
| "fire_users codec eventManagers svc ai dbok (u # us) b =
     (let (es, b') = fireDeferredNotification codec eventManagers svc ai dbok u b;
          (es', b'') = fire_users codec eventManagers svc ai dbok us b'
      in (es @ es', b''))"

text \<open>One wake-up of the polling loop.\<close>

definition pollDeferredTimers ::
  "payload_codec \<Rightarrow> managers \<Rightarrow> bool \<Rightarrow> (DispatchInput list \<Rightarrow> bool) option \<Rightarrow> bool \<Rightarrow> (nat \<Rightarrow> bool) \<Rightarrow> int \<Rightarrow> backlog \<Rightarrow>
   dispatch_effect list \<times> backlog" where
  "pollDeferredTimers codec eventManagers svc ai ok dbok now b =
     (if ok then fire_users codec eventManagers svc ai dbok (loadPendingUsers now b) b else ([], b))"

section \<open>Dispatch\<close>

record device_row = dv_ID :: string  dv_DeviceID :: string  dv_Deleted :: bool

record workspace_row =
  wk_ID :: string
  wk_UserID :: string
  wk_DeviceID :: string
  wk_Settings :: "jobj option"
  wk_Deleted :: bool

record directory_row = wd_WorkspaceID :: string  wd_Path :: string  wd_Deleted :: bool

record workspace_db =
  wb_devices :: "device_row list"
  wb_workspaces :: "workspace_row list"
  wb_directories :: "directory_row list"

definition slashes :: "string \<Rightarrow> string" where
  "slashes p = map (\<lambda>c. if c = CHR 0x5C then CHR ''/'' else c) p"

definition isAutoAccept :: "(nat \<Rightarrow> bool) \<Rightarrow> workspace_db \<Rightarrow> DispatchInput \<Rightarrow> bool" where
  "isAutoAccept dbok w input =
     (if di_Path input = [] \<or> di_DeviceID input = [] then False
      else if \<not> dbok 0 then False
      else case First dv_ID (\<lambda>v. dv_DeviceID v = di_DeviceID input \<and> \<not> dv_Deleted v) (wb_devices w) of
        None \<Rightarrow> False
      | Some dev \<Rightarrow>
          if \<not> dbok 1 then False
          else case First wk_ID (\<lambda>k. wk_UserID k = di_UserID input \<and> wk_DeviceID k = dv_ID dev \<and> \<not> wk_Deleted k \<and>
              list_ex (\<lambda>r. wd_WorkspaceID r = wk_ID k \<and> slashes (wd_Path r) = slashes (di_Path input) \<and> \<not> wd_Deleted r)
                (wb_directories w)) (wb_workspaces w) of
            None \<Rightarrow> False
          | Some ws \<Rightarrow>
              (case wk_Settings ws of
                 None \<Rightarrow> False
               | Some settings \<Rightarrow> (case map_of settings ''autoAccept'' of Some (JBool v) \<Rightarrow> v | _ \<Rightarrow> False)))"

text \<open>\<open>gw\<close>: the gateway client and registry are configured.\<close>

definition autoApprovePermission :: "bool \<Rightarrow> DispatchInput \<Rightarrow> dispatch_effect list" where
  "autoApprovePermission gw input =
     (if \<not> gw then []
      else case di_ActionData input of
        None \<Rightarrow> []
      | Some m \<Rightarrow> if data_id m = [] then [] else [Approve (di_DeviceID input) (di_Path input) (data_id m)])"

definition batchApprovePermissions :: "bool \<Rightarrow> DispatchInput \<Rightarrow> dispatch_effect list" where
  "batchApprovePermissions gw input =
     (if \<not> gw then []
      else case di_ActionData input of
        None \<Rightarrow> []
      | Some m \<Rightarrow>
          (case jget m ''permissions'' of
             JArr perms \<Rightarrow> map (Approve (di_DeviceID input) (di_Path input)) (batch_ids perms)
           | _ \<Rightarrow> []))"

definition isDeferrable :: "string \<Rightarrow> bool" where
  "isDeferrable eventType \<longleftrightarrow> eventType = ''permission'' \<or> eventType = ''permission_batch'' \<or> eventType = ''question''"

record dispatch_env =
  ev_store :: bool
  ev_svc :: bool
  ev_gw :: bool
  ev_dbok :: "nat \<Rightarrow> bool"
  ev_now :: int

definition Dispatch ::
  "payload_codec \<Rightarrow> Dispatcher \<Rightarrow> dispatch_env \<Rightarrow> workspace_db \<Rightarrow> DispatchInput \<Rightarrow> backlog \<Rightarrow> dispatch_effect list \<times> backlog" where
  "Dispatch codec d env w input b =
     (if \<not> ev_store env then ([], b)
      else if (di_EventType input = ''permission'' \<or> di_EventType input = ''permission_batch'') \<and> isAutoAccept (ev_dbok env) w input
      then (if di_EventType input = ''permission'' then autoApprovePermission (ev_gw env) input
            else batchApprovePermissions (ev_gw env) input, b)
      else if isDeferrable (di_EventType input)
      then ([], startDeferredNotification codec d (\<lambda>n. ev_dbok env (n + 2)) (ev_now env) input b)
      else (dispatchNotification (ev_svc env) input, b))"

section \<open>The answer of a device\<close>

text \<open>An answer that lists the open requests: bare or wrapped, each request an object with its identifier.\<close>

definition lists_open :: "json \<Rightarrow> string \<Rightarrow> string list \<Rightarrow> bool" where
  "lists_open v key ids \<longleftrightarrow> (\<exists>ms. (v = JArr (map JObj ms) \<or> (\<exists>m. v = JObj m \<and> map_of m key = Some (JArr (map JObj ms)))) \<and>
     list_all2 (\<lambda>m i. entry_id [] m = Some i \<and> i \<noteq> []) ms ids)"

lemma entry_ids_objects: "list_all2 (\<lambda>m i. entry_id [] m = Some i \<and> i \<noteq> []) ms ids \<Longrightarrow> entry_ids (map JObj ms) = Some ids"
  by (induction rule: list_all2_induct) auto

lemma parse_open: "lists_open v key ids \<Longrightarrow> parseIDList (Some v) key = Some ids"
  by (auto simp: lists_open_def parseIDList_def decodeIDs_def entry_ids_objects)

lemma permission_pending_iff:
  assumes "fetch input ''/api/v1/permissions'' = Inr (Some v)" "lists_open v ''permissions'' open_ids" "extractPermissionIDs input \<noteq> []"
  shows "PermissionManager_IsStillPending fetch input \<longleftrightarrow> set (extractPermissionIDs input) \<inter> set open_ids \<noteq> {}"
  using assms parse_open[OF assms(2)] by (auto simp: PermissionManager_IsStillPending_def list_ex_iff)

lemma permission_resolved:
  "\<not> PermissionManager_IsStillPending fetch input \<longleftrightarrow>
   (\<exists>raw ids. fetch input ''/api/v1/permissions'' = Inr raw \<and> parseIDList raw ''permissions'' = Some ids \<and>
      extractPermissionIDs input \<noteq> [] \<and> set (extractPermissionIDs input) \<inter> set ids = {})"
  by (auto simp: PermissionManager_IsStillPending_def Let_def list_ex_iff split: sum.splits option.splits)

lemma question_resolved:
  assumes "\<not> QuestionManager_IsStillPending fetch input"
  obtains raw ids m where "fetch input ''/api/v1/questions'' = Inr raw" "parseIDList raw ''questions'' = Some ids"
    "di_ActionData input = Some m" "data_id m \<noteq> []" "data_id m \<notin> set ids"
  using assms by (auto simp: QuestionManager_IsStillPending_def Let_def split: if_splits sum.splits option.splits)

text \<open>The answer of a device: the gateway is known, the request is made and succeeds, and the body is empty or is decoded.\<close>

definition answered :: "'s Store \<Rightarrow> device_client \<Rightarrow> 's GatewayRegistry \<Rightarrow> DispatchInput \<Rightarrow> string \<Rightarrow> json option \<Rightarrow> bool" where
  "answered ops client registry input path raw \<longleftrightarrow>
     (\<exists>gw statusCode body. GetDeviceGateway ops (di_DeviceID input) registry = Inr gw \<and> well_formed client ''GET'' path \<and>
        proxy client (gw_InternalURL gw)
          \<lparr>dr_DeviceID = di_DeviceID input, dr_Directory = di_Path input, dr_Method = ''GET'', dr_Path = path, dr_Body = []\<rparr> = Some (statusCode, body) \<and>
        statusCode < 400 \<and> (body = [] \<and> raw = None \<or> body \<noteq> [] \<and> (\<exists>v. decode client body = Some v \<and> raw = Some v)))"

lemma fetched: "device_fetcher ops client registry input path = Inr raw \<longleftrightarrow> answered ops client registry input path raw"
  by (auto simp: device_fetcher_def ProxyDeviceSessionRequest_def answered_def split: sum.splits if_splits option.splits prod.splits)

lemma ex_body:
  "(\<exists>raw. (\<exists>gw st body. A gw \<and> B \<and> C gw st body \<and> D st \<and> R body raw) \<and> P raw) \<longleftrightarrow>
   (\<exists>gw st body. A gw \<and> B \<and> C gw st body \<and> D st \<and> (\<exists>raw. R body raw \<and> P raw))"
  by blast

lemma answered_with:
  "(\<exists>raw. answered ops client registry input path raw \<and> P raw) \<longleftrightarrow>
   (\<exists>gw statusCode body. GetDeviceGateway ops (di_DeviceID input) registry = Inr gw \<and> well_formed client ''GET'' path \<and>
      proxy client (gw_InternalURL gw)
        \<lparr>dr_DeviceID = di_DeviceID input, dr_Directory = di_Path input, dr_Method = ''GET'', dr_Path = path, dr_Body = []\<rparr> = Some (statusCode, body) \<and>
      statusCode < 400 \<and> (if body = [] then P None else \<exists>v. decode client body = Some v \<and> P (Some v)))"
proof -
  have "(\<exists>raw. (body = [] \<and> raw = None \<or> body \<noteq> [] \<and> (\<exists>v. decode client body = Some v \<and> raw = Some v)) \<and> P raw) \<longleftrightarrow>
      (if body = [] then P None else \<exists>v. decode client body = Some v \<and> P (Some v))" for body by auto
  then show ?thesis unfolding answered_def ex_body by (simp only:)
qed

section \<open>Histories\<close>

text \<open>
  The backlog under whole transactions, one after the other, with the clock and, as a history, the identifiers of the rows created, drained and cancelled.
\<close>

record dispatch_sys =
  sy_backlog :: backlog
  sy_clock :: int
  sy_created :: "nat list"
  sy_drained :: "nat list"
  sy_cancelled :: "nat list"

definition new_ids :: "backlog \<Rightarrow> backlog \<Rightarrow> nat list" where
  "new_ids b b' = (if length (bl_rows b') = length (bl_rows b) then [] else [bl_next b])"

inductive sys_step :: "payload_codec \<Rightarrow> Dispatcher \<Rightarrow> dispatch_sys \<Rightarrow> dispatch_sys \<Rightarrow> bool" for codec d s where
  start: "sy_clock s \<le> now \<Longrightarrow> b' = startDeferredNotification codec d dbok now input (sy_backlog s) \<Longrightarrow>
    sys_step codec d s (s\<lparr>sy_backlog := b', sy_clock := now, sy_created := sy_created s @ new_ids (sy_backlog s) b'\<rparr>)"
| drain: "drainUserBacklog dbok u (sy_backlog s) = (Some entries, b') \<Longrightarrow>
    sys_step codec d s (s\<lparr>sy_backlog := b', sy_drained := sy_drained s @ map dn_ID entries\<rparr>)"
| cancel: "CancelDeferredNotification True u (sy_backlog s) = b' \<Longrightarrow>
    sys_step codec d s (s\<lparr>sy_backlog := b', sy_cancelled := sy_cancelled s @
      (if u = [] then [] else map dn_ID (user_rows u (bl_rows (sy_backlog s))))\<rparr>)"

inductive sys_reachable :: "payload_codec \<Rightarrow> Dispatcher \<Rightarrow> dispatch_sys \<Rightarrow> bool" for codec d where
  boot: "sys_reachable codec d \<lparr>sy_backlog = \<lparr>bl_rows = [], bl_next = n\<rparr>, sy_clock = t, sy_created = [], sy_drained = [], sy_cancelled = []\<rparr>"
| step: "sys_reachable codec d s \<Longrightarrow> sys_step codec d s s' \<Longrightarrow> sys_reachable codec d s'"

text \<open>When the rows of a user fire: after a window of silence, but at the latest the cap after the first one.\<close>

definition armed :: "Dispatcher \<Rightarrow> string \<Rightarrow> DeferredNotification list \<Rightarrow> bool" where
  "armed d u rows \<longleftrightarrow> (\<forall>r \<in> set (user_rows u rows).
     dn_FireAt r = min (Max (dn_FirstSeen ` set (user_rows u rows)) + dp_debounceWindow d)
                       (Min (dn_FirstSeen ` set (user_rows u rows)) + dp_debounceMaxCap d))"

definition backlog_ok :: "backlog \<Rightarrow> int \<Rightarrow> bool" where
  "backlog_ok b t \<longleftrightarrow> distinct (map dn_ID (bl_rows b)) \<and> (\<forall>r \<in> set (bl_rows b). dn_ID r < bl_next b \<and> dn_FirstSeen r \<le> t)"

definition sys_inv :: "Dispatcher \<Rightarrow> dispatch_sys \<Rightarrow> bool" where
  "sys_inv d s \<longleftrightarrow> backlog_ok (sy_backlog s) (sy_clock s) \<and> (\<forall>u. armed d u (bl_rows (sy_backlog s))) \<and>
     mset (sy_created s) = mset (map dn_ID (bl_rows (sy_backlog s))) + mset (sy_drained s) + mset (sy_cancelled s)"

definition rearm :: "string \<Rightarrow> int \<Rightarrow> DeferredNotification \<Rightarrow> DeferredNotification" where
  "rearm u t r = (if dn_UserID r = u then r\<lparr>dn_FireAt := t\<rparr> else r)"

lemma rearm_keeps [simp]: "dn_ID (rearm u t r) = dn_ID r" "dn_UserID (rearm u t r) = dn_UserID r" "dn_FirstSeen (rearm u t r) = dn_FirstSeen r"
    "dn_Payload (rearm u t r) = dn_Payload r"
  by (simp_all add: rearm_def)

lemma rearm_other: "dn_UserID r \<noteq> u \<Longrightarrow> rearm u t r = r"
  by (simp add: rearm_def)

lemma user_rows_rearm: "user_rows v (map (rearm u t) rows) = map (rearm u t) (user_rows v rows)"
  by (simp add: user_rows_def filter_map o_def)

text \<open>The oldest row of a user.\<close>

lemma oldest_min:
  assumes "find (\<lambda>r. dn_UserID r = u) (sort_key dn_FirstSeen rows) = Some r"
  shows "r \<in> set (user_rows u rows)" "dn_FirstSeen r = Min (dn_FirstSeen ` set (user_rows u rows))"
proof -
  show r: "r \<in> set (user_rows u rows)" using find_SomeD[OF assms] by (auto simp: user_rows_def)
  have "dn_FirstSeen r \<le> dn_FirstSeen q" if "q \<in> set (user_rows u rows)" for q
    using find_least[OF assms, of q] that by (simp add: user_rows_def)
  then show "dn_FirstSeen r = Min (dn_FirstSeen ` set (user_rows u rows))"
    using r by (intro Min_eqI[symmetric]) auto
qed

lemma rearm_rows:
  assumes "r \<in> set rows" "dn_UserID r = u"
  shows "rearmUserFireAt d u now rows =
    Some (map (rearm u (min (now + dp_debounceWindow d) (Min (dn_FirstSeen ` set (user_rows u rows)) + dp_debounceMaxCap d))) rows)"
proof -
  obtain q where q: "find (\<lambda>r. dn_UserID r = u) (sort_key dn_FirstSeen rows) = Some q"
    using assms by (cases "find (\<lambda>r. dn_UserID r = u) (sort_key dn_FirstSeen rows)") (auto simp: find_None_iff)
  show ?thesis using oldest_min(2)[OF q] by (simp add: rearmUserFireAt_def q rearm_def[abs_def] min_def Let_def cong: if_cong)
qed

definition new_entry :: "Dispatcher \<Rightarrow> int \<Rightarrow> DispatchInput \<Rightarrow> string \<Rightarrow> backlog \<Rightarrow> DeferredNotification" where
  "new_entry d now input payload b = \<lparr>dn_ID = bl_next b, dn_UserID = di_UserID input, dn_FireAt = now + dp_debounceWindow d,
     dn_FirstSeen = now, dn_Payload = payload\<rparr>"

definition fire_time :: "Dispatcher \<Rightarrow> int \<Rightarrow> string \<Rightarrow> DeferredNotification list \<Rightarrow> int" where
  "fire_time d now u rows = min (now + dp_debounceWindow d) (Min (dn_FirstSeen ` set (user_rows u rows)) + dp_debounceMaxCap d)"

lemma start_cases:
  obtains (kept) n where "startDeferredNotification codec d dbok now input b = b\<lparr>bl_next := n\<rparr>" "bl_next b \<le> n"
  | (added) payload rows where "encode_input codec input = Some payload" "rows = bl_rows b @ [new_entry d now input payload b]"
      "startDeferredNotification codec d dbok now input b =
         b\<lparr>bl_rows := map (rearm (di_UserID input) (fire_time d now (di_UserID input) rows)) rows, bl_next := bl_next b + 1\<rparr>"
proof (cases "\<exists>payload. encode_input codec input = Some payload \<and> dbok 0 \<and> dbok 1 \<and> dbok 2")
  case True
  then obtain payload where p: "encode_input codec input = Some payload" "dbok 0" "dbok 1" "dbok 2" by blast
  let ?rows = "bl_rows b @ [new_entry d now input payload b]"
  have "rearmUserFireAt d (di_UserID input) now ?rows =
      Some (map (rearm (di_UserID input) (fire_time d now (di_UserID input) ?rows)) ?rows)"
    unfolding fire_time_def by (rule rearm_rows[of "new_entry d now input payload b"]) (simp_all add: new_entry_def)
  then show ?thesis using p added[OF p(1) refl]
    by (simp add: startDeferredNotification_def new_entry_def Let_def numeral_2_eq_2)
next
  case False
  then have "startDeferredNotification codec d dbok now input b \<in> {b\<lparr>bl_next := bl_next b\<rparr>, b\<lparr>bl_next := bl_next b + 1\<rparr>}"
    by (auto simp: startDeferredNotification_def Let_def numeral_2_eq_2 split: option.split)
  then consider "startDeferredNotification codec d dbok now input b = b\<lparr>bl_next := bl_next b\<rparr>"
    | "startDeferredNotification codec d dbok now input b = b\<lparr>bl_next := bl_next b + 1\<rparr>" by blast
  then show ?thesis by cases (rule kept, assumption, simp)+
qed

lemma armed_start:
  assumes "\<forall>r \<in> set rows0. dn_FirstSeen r \<le> now" "armed d v rows0" "dn_FirstSeen e = now" "rows = rows0 @ [e]" "dn_UserID e = u"
  shows "armed d v (map (rearm u (fire_time d now u rows)) rows)"
proof (cases "v = u")
  case True
  have "\<forall>r \<in> set rows. dn_FirstSeen r \<le> now" using assms(1,3,4) by auto
  moreover have "e \<in> set (user_rows u rows)" using assms(4,5) by (simp add: user_rows_def)
  ultimately have m: "Max (dn_FirstSeen ` set (user_rows u rows)) = now"
    using assms(3) by (intro Max_eqI) (auto simp: user_rows_def)
  have "dn_FireAt (rearm u t r) = t" if "r \<in> set (user_rows u rows)" for r t using that by (simp add: rearm_def user_rows_def)
  then show ?thesis unfolding armed_def True user_rows_rearm using m by (auto simp: image_image fire_time_def)
next
  case False
  have "map (rearm u t) (user_rows v rows) = user_rows v rows0" for t
    using False assms(4,5) by (auto simp: user_rows_def rearm_def intro!: map_idI)
  then show ?thesis using assms(2) unfolding armed_def user_rows_rearm by simp
qed

lemma user_other_rows: "user_rows v (other_rows u rows) = (if v = u then [] else user_rows v rows)"
  by (auto simp: user_rows_def other_rows_def filter_empty_conv intro!: filter_cong)

lemma mset_split_user: "mset (map f rows) = mset (map f (other_rows u rows)) + mset (map f (user_rows u rows))"
  by (induction rows) (auto simp: user_rows_def other_rows_def)

lemma backlog_ok_delete: "backlog_ok b t \<Longrightarrow> backlog_ok (drain_delete u b) t"
  by (auto simp: backlog_ok_def drain_delete_def other_rows_def distinct_map_filter)

lemma armed_delete: "armed d v (bl_rows b) \<Longrightarrow> armed d v (bl_rows (drain_delete u b))"
  by (simp add: armed_def drain_delete_def user_other_rows)

lemma sys_inv_delete:
  assumes "sys_inv d s" "mset is = mset (map dn_ID (user_rows u (bl_rows (sy_backlog s))))"
  shows "sys_inv d (s\<lparr>sy_backlog := drain_delete u (sy_backlog s), sy_drained := sy_drained s @ is\<rparr>)"
    and "sys_inv d (s\<lparr>sy_backlog := drain_delete u (sy_backlog s), sy_cancelled := sy_cancelled s @ is\<rparr>)"
  using assms mset_split_user[of dn_ID "bl_rows (sy_backlog s)" u] backlog_ok_delete armed_delete
  by (auto simp: sys_inv_def drain_delete_def simp del: mset_map)

lemma drain_ids: "mset (map dn_ID (drain_select u b)) = mset (map dn_ID (user_rows u (bl_rows b)))"
  by (simp add: drain_select_def)

lemma sys_inv_start:
  assumes "sys_inv d s" "sy_clock s \<le> now" "b' = startDeferredNotification codec d dbok now input (sy_backlog s)"
  shows "sys_inv d (s\<lparr>sy_backlog := b', sy_clock := now, sy_created := sy_created s @ new_ids (sy_backlog s) b'\<rparr>)"
proof (cases codec d dbok now input "sy_backlog s" rule: start_cases)
  case (kept n)
  then show ?thesis using assms by (fastforce simp: sys_inv_def backlog_ok_def new_ids_def)
next
  case (added payload rows)
  let ?b = "sy_backlog s" and ?e = "new_entry d now input payload (sy_backlog s)"
  have le: "\<forall>r \<in> set (bl_rows ?b). dn_FirstSeen r \<le> now" using assms(1,2) by (force simp: sys_inv_def backlog_ok_def)
  have "armed d v (bl_rows b')" for v
    using armed_start[OF le, of d v ?e rows "di_UserID input"] assms(1,3) added by (simp add: sys_inv_def new_entry_def)
  moreover have ids: "map dn_ID (bl_rows b') = map dn_ID (bl_rows ?b) @ [bl_next ?b]"
    using assms(3) added by (simp add: new_entry_def)
  moreover have "backlog_ok b' now"
    unfolding backlog_ok_def ids using assms(1,3) added le by (force simp: sys_inv_def backlog_ok_def new_entry_def)
  moreover have "new_ids ?b b' = [bl_next ?b]" using assms(3) added by (simp add: new_ids_def)
  ultimately show ?thesis using assms(1) by (simp add: sys_inv_def del: mset_map)
qed

lemma sys_inv_step: "sys_step codec d s s' \<Longrightarrow> sys_inv d s \<Longrightarrow> sys_inv d s'"
proof (induction rule: sys_step.cases)
  case (start now b' dbok input)
  then show ?case using sys_inv_start by blast
next
  case (drain dbok u entries b')
  then show ?case
    using sys_inv_delete(1)[of d s "map dn_ID entries" u] drain_ids[of u "sy_backlog s"]
    by (auto simp: drainUserBacklog_def split: if_splits)
next
  case (cancel u b')
  then show ?case
    using sys_inv_delete(2)[of d s "map dn_ID (user_rows u (bl_rows (sy_backlog s)))" u]
    by (auto simp: CancelDeferredNotification_def cancelUserBacklog_def)
qed

lemma sys_reachable_inv: "sys_reachable codec d s \<Longrightarrow> sys_inv d s"
proof (induction rule: sys_reachable.induct)
  case (boot n t)
  show ?case by (simp add: sys_inv_def backlog_ok_def armed_def user_rows_def)
qed (rule sys_inv_step)

section \<open>Properties\<close>

lemma fire_at:
  assumes "sys_inv d s" "r \<in> set (bl_rows (sy_backlog s))"
  shows "dn_FireAt r = min (Max (dn_FirstSeen ` set (user_rows (dn_UserID r) (bl_rows (sy_backlog s)))) + dp_debounceWindow d)
    (Min (dn_FirstSeen ` set (user_rows (dn_UserID r) (bl_rows (sy_backlog s)))) + dp_debounceMaxCap d)"
proof -
  have "armed d (dn_UserID r) (bl_rows (sy_backlog s))" using assms(1) by (simp add: sys_inv_def)
  moreover have "r \<in> set (user_rows (dn_UserID r) (bl_rows (sy_backlog s)))" using assms(2) by (simp add: user_rows_def)
  ultimately show ?thesis unfolding armed_def by blast
qed

lemma fire_by_cap:
  assumes "sys_inv d s" "r \<in> set (bl_rows (sy_backlog s))"
  shows "dn_FireAt r \<le> dn_FirstSeen r + dp_debounceMaxCap d"
proof -
  have "Min (dn_FirstSeen ` set (user_rows (dn_UserID r) (bl_rows (sy_backlog s)))) \<le> dn_FirstSeen r"
    using assms(2) by (intro Min_le) (auto simp: user_rows_def)
  then show ?thesis unfolding fire_at[OF assms] by simp
qed

text \<open>
  C37. The debounce of notifications, for transactions that run one after the other.  In every history of events, firings and replies whose
  transactions do not overlap, with any statements failing, all waiting events of a user share one fire time: a window after the last event,
  but no later than the cap after the first, so that no event waits longer than the cap.  Every event that entered the backlog is still in
  it, was drained for firing or was cancelled by a reply, exactly one of these and exactly once.  The code takes no row locks, and
  overlapping transactions can break both parts: an event that arrives between the two statements of a drain is lost (theorem
  \<open>drain_race_loses_event\<close> below), and two events that arrive at once do not see each other (lemma \<open>concurrent_inserts_differ\<close>).
\<close>

theorem deferral_invariant:
  assumes "sys_reachable codec d s"
  shows "(\<forall>r \<in> set (bl_rows (sy_backlog s)).
      dn_FireAt r = min (Max (dn_FirstSeen ` set (user_rows (dn_UserID r) (bl_rows (sy_backlog s)))) + dp_debounceWindow d)
                        (Min (dn_FirstSeen ` set (user_rows (dn_UserID r) (bl_rows (sy_backlog s)))) + dp_debounceMaxCap d) \<and>
      dn_FireAt r \<le> dn_FirstSeen r + dp_debounceMaxCap d) \<and>
    mset (sy_created s) = mset (map dn_ID (bl_rows (sy_backlog s))) + mset (sy_drained s) + mset (sy_cancelled s)"
  using sys_reachable_inv[OF assms] fire_at[of d s] fire_by_cap[of d s] by (simp add: sys_inv_def)

text \<open>The inputs that reach the user with some effects: in a batch for the AI handler or as a notification.\<close>

definition delivered :: "dispatch_effect list \<Rightarrow> DispatchInput set" where
  "delivered es = (\<Union>e \<in> set es. case e of AIBatch is \<Rightarrow> set is | Notify i \<Rightarrow> {i} | Approve _ _ _ \<Rightarrow> {})"

lemma delivered_append [simp]: "delivered (es @ es') = delivered es \<union> delivered es'"
  by (simp add: delivered_def)

lemma delivered_notify: "delivered (concat (map (dispatchNotification True) is)) = set is"
  by (induction "is") (auto simp: delivered_def dispatchNotification_def)

lemma invoke_delivers: "delivered (invokeAIHandler True ai is) = set is"
proof (cases "is = []")
  case False
  then show ?thesis
    using delivered_notify[of "is"] by (auto simp: invokeAIHandler_def delivered_def split: option.split)
qed (simp add: invokeAIHandler_def delivered_def)

lemma survivors_set:
  "set (survivors codec mgrs es) = {input. still_pending mgrs input \<and> (\<exists>e \<in> set es. decode_input codec (dn_Payload e) = Some input)}"
  by (induction es) (auto split: option.splits)

lemma fire_ok:
  "fireDeferredNotification codec mgrs svc ai (\<lambda>_. True) u b = (invokeAIHandler svc ai (survivors codec mgrs (drain_select u b)), drain_delete u b)"
proof (cases "drain_select u b = []")
  case True
  then have "user_rows u (bl_rows b) = []" by (metis drain_select_def length_0_conv length_sort)
  then have "other_rows u (bl_rows b) = bl_rows b" by (auto simp: user_rows_def other_rows_def filter_empty_conv filter_id_conv)
  then show ?thesis using True by (simp add: fireDeferredNotification_def drainUserBacklog_def drain_delete_def)
qed (simp add: fireDeferredNotification_def drainUserBacklog_def)

lemma drain_select_other: "v \<noteq> u \<Longrightarrow> drain_select v (drain_delete u b) = drain_select v b"
  by (simp add: drain_select_def drain_delete_def user_other_rows)

lemma fire_users_correct:
  assumes "distinct us"
  shows "delivered (fst (fire_users codec mgrs True ai (\<lambda>_. True) us b)) = (\<Union>u \<in> set us. set (survivors codec mgrs (drain_select u b)))"
    and "bl_rows (snd (fire_users codec mgrs True ai (\<lambda>_. True) us b)) = filter (\<lambda>r. dn_UserID r \<notin> set us) (bl_rows b)"
  using assms
proof (induction us arbitrary: b)
  case (Cons u us)
  have r: "fire_users codec mgrs True ai (\<lambda>_. True) (u # us) b =
      (invokeAIHandler True ai (survivors codec mgrs (drain_select u b)) @ fst (fire_users codec mgrs True ai (\<lambda>_. True) us (drain_delete u b)),
       snd (fire_users codec mgrs True ai (\<lambda>_. True) us (drain_delete u b)))" for b
    by (simp add: fire_ok case_prod_beta)
  {
    case (1 b)
    have "drain_select v (drain_delete u b) = drain_select v b" if "v \<in> set us" for v
      using 1 that by (intro drain_select_other) auto
    then show ?case unfolding r using Cons.IH(1)[of "drain_delete u b"] 1 by (simp add: invoke_delivers)
  next
    case (2 b)
    then show ?case unfolding r using Cons.IH(2)[of "drain_delete u b"] by (simp add: drain_delete_def other_rows_def conj_commute)
  }
qed (simp_all add: delivered_def)

text \<open>
  Every deferred event is delivered in time.  A wake-up of the polling loop at which the cap of an event has passed takes the
  event out of the backlog and delivers it, to the AI handler or as a notification, unless its manager says it is resolved; and
  nothing is delivered that is not pending.
\<close>

theorem poll_delivers:
  assumes "sys_reachable codec d s" "r \<in> set (bl_rows (sy_backlog s))" "dn_FirstSeen r + dp_debounceMaxCap d \<le> now"
    and "decode_input codec (dn_Payload r) = Some input"
    and "pollDeferredTimers codec mgrs True ai True (\<lambda>_. True) now (sy_backlog s) = (effects, b')"
  shows "r \<notin> set (bl_rows b') \<and> (still_pending mgrs input \<longrightarrow> input \<in> delivered effects) \<and>
    (\<forall>i \<in> delivered effects. still_pending mgrs i)"
proof -
  let ?us = "loadPendingUsers now (sy_backlog s)" and ?u = "dn_UserID r"
  have inv: "sys_inv d s" using sys_reachable_inv[OF assms(1)] .
  have ur: "r \<in> set (user_rows ?u (bl_rows (sy_backlog s)))" using assms(2) by (simp add: user_rows_def)
  have "dn_FireAt r \<le> now" using fire_by_cap[OF inv assms(2)] assms(3) by simp
  then have u: "?u \<in> set ?us" using assms(2) by (auto simp: loadPendingUsers_def)
  have p: "fire_users codec mgrs True ai (\<lambda>_. True) ?us (sy_backlog s) = (effects, b')"
    using assms(5) by (simp add: pollDeferredTimers_def)
  have "distinct ?us" by (simp add: loadPendingUsers_def)
  from fire_users_correct[OF this, of codec mgrs ai "sy_backlog s"]
  have d: "delivered effects = (\<Union>u \<in> set ?us. set (survivors codec mgrs (drain_select u (sy_backlog s))))"
    and rows: "bl_rows b' = filter (\<lambda>r. dn_UserID r \<notin> set ?us) (bl_rows (sy_backlog s))"
    unfolding p by simp_all
  have "r \<in> set (drain_select ?u (sy_backlog s))" using ur by (simp add: drain_select_def)
  then have "still_pending mgrs input \<longrightarrow> input \<in> delivered effects" unfolding d using u assms(4) by (auto simp: survivors_set)
  then show ?thesis using u rows d by (auto simp: survivors_set)
qed

text \<open>
  C38. A notification of a permission request is suppressed exactly on the word of the device.  The manager of the permission events
  reports an event as resolved if and only if the event names permissions, its device is connected, the request is made and answered
  without an error status, and the answer is either empty or a body that decodes to a list which names none of these permissions (null
  and an empty body count as an empty list).  So a device that is away, a failed request, an error status, a body that cannot be decoded and
  a body that is not such a list leave the event pending.
\<close>

theorem suppressed_only_if_resolved:
  assumes "mgrs (di_EventType input) = Some (\<lambda>i. Inr (PermissionManager_IsStillPending (device_fetcher ops client registry) i))"
  shows "\<not> still_pending mgrs input \<longleftrightarrow>
    extractPermissionIDs input \<noteq> [] \<and>
    (\<exists>gw statusCode body. GetDeviceGateway ops (di_DeviceID input) registry = Inr gw \<and> well_formed client ''GET'' ''/api/v1/permissions'' \<and>
      proxy client (gw_InternalURL gw) \<lparr>dr_DeviceID = di_DeviceID input, dr_Directory = di_Path input, dr_Method = ''GET'',
        dr_Path = ''/api/v1/permissions'', dr_Body = []\<rparr> = Some (statusCode, body) \<and> statusCode < 400 \<and>
      (body = [] \<or> (\<exists>v ids. decode client body = Some v \<and> parseIDList (Some v) ''permissions'' = Some ids \<and>
         set (extractPermissionIDs input) \<inter> set ids = {})))"
proof -
  let ?P = "\<lambda>raw. \<exists>ids. parseIDList raw ''permissions'' = Some ids \<and> set (extractPermissionIDs input) \<inter> set ids = {}"
  have "\<not> still_pending mgrs input \<longleftrightarrow>
      extractPermissionIDs input \<noteq> [] \<and> (\<exists>raw. answered ops client registry input ''/api/v1/permissions'' raw \<and> ?P raw)"
    using assms permission_resolved[of "device_fetcher ops client registry" input] by (auto simp: still_pending_def fetched)
  moreover have "?P None" by (simp add: parseIDList_def)
  moreover have "(if body = [] then True else Q) \<longleftrightarrow> (body = [] \<or> Q)" for body :: string and Q by simp
  ultimately show ?thesis unfolding answered_with by (simp cong: if_cong)
qed

text \<open>
  The drain is not atomic at the isolation level of the database.  If another process adds an event of the same user
  between the two statements of a drain, the deletion removes it although the selection has not seen it: the event is
  neither fired nor left in the backlog.
\<close>

theorem drain_race_loses_event:
  assumes "encode_input codec input = Some payload" "entries = drain_select (di_UserID input) b" "\<forall>r \<in> set (bl_rows b). dn_ID r < bl_next b"
    and "b' = startDeferredNotification codec d (\<lambda>_. True) now input b" "b'' = drain_delete (di_UserID input) b'"
  shows "bl_next b \<in> dn_ID ` set (bl_rows b') \<and> bl_next b \<notin> dn_ID ` set entries \<and> bl_next b \<notin> dn_ID ` set (bl_rows b'')"
proof (cases codec d "\<lambda>_ :: nat. True" now input b rule: start_cases)
  case (added payload' rows)
  have "bl_rows b' = map (rearm (di_UserID input) (fire_time d now (di_UserID input) rows)) rows" using added assms(4) by simp
  moreover have "\<forall>r \<in> set (bl_rows b). dn_ID r \<noteq> bl_next b" using assms(3) by auto
  ultimately show ?thesis using added(2) assms(2,5)
    by (auto simp: new_entry_def drain_select_def drain_delete_def other_rows_def user_rows_def)
next
  case (kept n)
  let ?rows = "bl_rows b @ [new_entry d now input payload b]"
  have "rearmUserFireAt d (di_UserID input) now ?rows \<noteq> None"
    using rearm_rows[of "new_entry d now input payload b" ?rows "di_UserID input" d now] by (simp add: new_entry_def)
  then have "length (bl_rows (startDeferredNotification codec d (\<lambda>_. True) now input b)) = length (bl_rows b) + 1"
    using assms(1) by (auto simp: startDeferredNotification_def Let_def new_entry_def rearmUserFireAt_def split: option.splits)
  then show ?thesis using kept(1) by simp
qed

section \<open>Instances\<close>

definition ask :: "string \<Rightarrow> DispatchInput" where
  "ask i = \<lparr>di_UserID = ''u1'', di_WorkspaceID = [], di_EventType = ''permission'', di_SessionID = ''s1'', di_DeviceID = ''d1'',
     di_Path = ''/repo'', di_SessionURL = [], di_ActionData = Some [(''id'', JStr i)]\<rparr>"

text \<open>Payloads that carry the identifier of the permission only.\<close>

definition id_codec :: payload_codec where
  "id_codec = \<lparr>encode_input = (\<lambda>i. map_option data_id (di_ActionData i)), decode_input = (\<lambda>s. Some (ask s))\<rparr>"

definition boot_sys :: dispatch_sys where
  "boot_sys = \<lparr>sy_backlog = \<lparr>bl_rows = [], bl_next = 1\<rparr>, sy_clock = 0, sy_created = [], sy_drained = [], sy_cancelled = []\<rparr>"

definition arrive :: "int \<Rightarrow> string \<Rightarrow> dispatch_sys \<Rightarrow> dispatch_sys" where
  "arrive now i s =
     (let b' = startDeferredNotification id_codec NewDispatcher (\<lambda>_. True) now (ask i) (sy_backlog s)
      in s\<lparr>sy_backlog := b', sy_clock := now, sy_created := sy_created s @ new_ids (sy_backlog s) b'\<rparr>)"

definition two_asks :: dispatch_sys where
  "two_asks = arrive (50 * dp_second) ''p2'' (arrive (10 * dp_second) ''p1'' boot_sys)"

lemma arrive_reachable: "sys_reachable id_codec NewDispatcher s \<Longrightarrow> sy_clock s \<le> now \<Longrightarrow> sys_reachable id_codec NewDispatcher (arrive now i s)"
  unfolding arrive_def Let_def by (rule sys_reachable.step) (auto intro: sys_step.start)

lemma two_asks_reachable: "sys_reachable id_codec NewDispatcher two_asks"
proof -
  have "sys_reachable id_codec NewDispatcher boot_sys" unfolding boot_sys_def by (rule sys_reachable.boot)
  then show ?thesis unfolding two_asks_def by (intro arrive_reachable) (simp_all add: boot_sys_def arrive_def Let_def dp_second_def)
qed

text \<open>The first request waits for sixty seconds, the second one for twenty.\<close>

definition row2 :: DeferredNotification where
  "row2 = \<lparr>dn_ID = 2, dn_UserID = ''u1'', dn_FireAt = 70 * dp_second, dn_FirstSeen = 50 * dp_second, dn_Payload = ''p2''\<rparr>"

lemma row2_in: "row2 \<in> set (bl_rows (sy_backlog two_asks))"
  by code_simp

theorem deferral_invariant_witness: "dn_FireAt row2 \<le> dn_FirstSeen row2 + dp_debounceMaxCap NewDispatcher"
  using deferral_invariant[OF two_asks_reachable] row2_in by blast

theorem poll_delivers_witness:
  "ask ''p2'' \<in> delivered (fst (pollDeferredTimers id_codec (\<lambda>_. None) True None True (\<lambda>_. True) (110 * dp_second) (sy_backlog two_asks)))"
proof -
  let ?p = "pollDeferredTimers id_codec (\<lambda>_. None) True None True (\<lambda>_. True) (110 * dp_second) (sy_backlog two_asks)"
  have "dn_FirstSeen row2 + dp_debounceMaxCap NewDispatcher \<le> 110 * dp_second" by code_simp
  moreover have "decode_input id_codec (dn_Payload row2) = Some (ask ''p2'')" by (simp add: id_codec_def row2_def)
  moreover have "?p = (fst ?p, snd ?p)" by simp
  ultimately have "still_pending (\<lambda>_. None) (ask ''p2'') \<longrightarrow> ask ''p2'' \<in> delivered (fst ?p)"
    using poll_delivers[OF two_asks_reachable row2_in] by blast
  then show ?thesis by (simp add: still_pending_def)
qed

text \<open>A device that has one other request open.\<close>

definition client1 :: device_client where
  "client1 = \<lparr>well_formed = (\<lambda>_ _. True), proxy = (\<lambda>_ _. Some (200, ''[p9]'')),
     decode = (\<lambda>_. Some (JArr [JObj [(''id'', JStr ''p9'')]]))\<rparr>"

definition mgrs1 :: managers where
  "mgrs1 t = Some (\<lambda>i. Inr (PermissionManager_IsStillPending (device_fetcher MemoryStore_ops client1 reg_example) i))"

theorem suppressed_only_if_resolved_witness:
  "\<not> still_pending mgrs1 (ask ''p1'') \<and> (\<exists>gw. GetDeviceGateway MemoryStore_ops (di_DeviceID (ask ''p1'')) reg_example = Inr gw)"
proof -
  have "\<not> still_pending mgrs1 (ask ''p1'')" by code_simp
  then show ?thesis using suppressed_only_if_resolved[of mgrs1 "ask ''p1''" MemoryStore_ops client1 reg_example] by (auto simp: mgrs1_def)
qed

text \<open>
  Two transactions that add events of one user at the same time: each re-arms the rows it sees, which are its own, and the two rows wait
  for different times.
\<close>

lemma concurrent_inserts_differ:
  "(let b = sy_backlog boot_sys;
        first_pod = startDeferredNotification id_codec NewDispatcher (\<lambda>_. True) 0 (ask ''p1'') b;
        other_pod = startDeferredNotification id_codec NewDispatcher (\<lambda>_. True) (10 * dp_second) (ask ''p2'') (b\<lparr>bl_next := bl_next b + 1\<rparr>)
    in map dn_FireAt (bl_rows first_pod @ bl_rows other_pod) = [30 * dp_second, 40 * dp_second])"
  by code_simp

theorem drain_race_loses_event_witness:
  "1 \<notin> dn_ID ` set (bl_rows (drain_delete ''u1''
     (startDeferredNotification id_codec NewDispatcher (\<lambda>_. True) 0 (ask ''p1'') (sy_backlog boot_sys))))"
  using drain_race_loses_event[of id_codec "ask ''p1''" "''p1''" _ "sy_backlog boot_sys" _ NewDispatcher 0]
  by (simp add: id_codec_def ask_def boot_sys_def data_id_def jget_def as_str_def)

end
