(* ===== verification/Device_Service.thy ===== *)
theory Device_Service
  imports Db_Query
begin

text \<open>
  The registration of devices (\<^verbatim>\<open>server/internal/services/device_service.go\<close>): the table of devices with its soft deletes and its two
  unique indexes, the recovery of devices under a new fingerprint, tokens, and the cache of ownership checks that the device proxy asks
  on every request.

  \<open>ok n\<close> says whether the \<open>n\<close>-th statement of an operation succeeds.  New identifiers, tokens and the time are arguments; a token is
  \<open>None\<close> when the random source fails.
\<close>

section \<open>State\<close>

record Device =
  dv_ID :: string
  dv_DeviceID :: string
  dv_DisplayName :: string
  dv_Platform :: string
  dv_Version :: string
  dv_UserID :: string
  dv_Status :: string
  dv_Label :: string
  dv_Description :: string
  dv_Token :: string
  dv_TokenRotatedAt :: "int option"
  dv_LastConnectedAt :: "int option"
  dv_LastSeenAt :: "int option"
  dv_CreatedAt :: int
  dv_UpdatedAt :: int
  dv_DeletedAt :: "int option"

record DeviceMigration =
  dm_ID :: string
  dm_OldDeviceID :: string
  dm_NewDeviceID :: string
  dm_UserID :: string
  dm_CreatedAt :: int

record ownershipEntry =
  oe_valid :: bool
  oe_expires :: int

record device_state =
  ds_devices :: "Device list"
  ds_migrations :: "DeviceMigration list"
  ds_users :: "string list"
  ds_cache :: "(string \<times> ownershipEntry) list"

record RegisterDeviceRequest =
  rq_DeviceID :: string
  rq_LegacyDeviceID :: string
  rq_DisplayName :: string
  rq_Platform :: string
  rq_Version :: string
  rq_ConfirmRecovery :: bool
  rq_ForceNew :: bool

record UpdateDeviceRequest =
  uq_DisplayName :: string
  uq_Description :: "string option"
  uq_Label :: "string option"

datatype device_error =
    ErrDeviceAlreadyRegistered
  | ErrDeviceOwnedByCaller
  | ErrDeviceNotFound
  | RecoveryError string string string "int option"
  | TokenError
  | DeviceDBError

text \<open>What one call gets from outside: the identifiers of new rows, the token and the time.\<close>

record device_env =
  ev_ID :: string
  ev_migrationID :: string
  ev_token :: "string option"
  ev_now :: int

text \<open>The durations are in nanoseconds.\<close>

definition ownershipCacheTTL :: int where "ownershipCacheTTL = 30 * 1000000000"

type_synonym register_result = "Device option \<times> string \<times> device_error option"

section \<open>The table\<close>

text \<open>Queries and updates leave soft-deleted rows out unless they are unscoped.\<close>

definition live :: "Device \<Rightarrow> bool" where "live d \<longleftrightarrow> dv_DeletedAt d = None"

definition live_device :: "string \<Rightarrow> Device list \<Rightarrow> Device option" where
  "live_device deviceID = First dv_ID (\<lambda>d. live d \<and> dv_DeviceID d = deviceID)"

definition deleted_device :: "string \<Rightarrow> Device list \<Rightarrow> Device option" where
  "deleted_device deviceID = First dv_ID (\<lambda>d. \<not> live d \<and> dv_DeviceID d = deviceID)"

text \<open>The primary key and the unique indexes on the device and on the token, which deleted rows keep as well.\<close>

definition unique_rows :: "Device list \<Rightarrow> bool" where
  "unique_rows rows \<longleftrightarrow> distinct (map dv_ID rows) \<and> distinct (map dv_DeviceID rows) \<and> distinct (map dv_Token rows)"

definition Create :: "bool \<Rightarrow> Device \<Rightarrow> Device list \<Rightarrow> Device list option" where
  "Create ok d rows = (if ok \<and> unique_rows (rows @ [d]) then Some (rows @ [d]) else None)"

definition Updates :: "bool \<Rightarrow> (Device \<Rightarrow> bool) \<Rightarrow> (Device \<Rightarrow> Device) \<Rightarrow> Device list \<Rightarrow> Device list option" where
  "Updates ok P f rows = (let rows' = map (\<lambda>d. if P d then f d else d) rows in if ok \<and> unique_rows rows' then Some rows' else None)"

definition userExists :: "bool \<Rightarrow> string \<Rightarrow> device_state \<Rightarrow> bool" where
  "userExists ok userID s \<longleftrightarrow> (if ok then 0 < length (filter (\<lambda>u. u = userID) (ds_users s)) else False)"

definition cache_key :: "string \<Rightarrow> string \<Rightarrow> string" where
  "cache_key deviceID userID = deviceID @ '':'' @ userID"

definition cache_Delete :: "string \<Rightarrow> string \<Rightarrow> device_state \<Rightarrow> device_state" where
  "cache_Delete deviceID userID s = s\<lparr>ds_cache := AList.delete (cache_key deviceID userID) (ds_cache s)\<rparr>"

section \<open>Registration\<close>

definition lookupMigratedDeviceID :: "bool \<Rightarrow> string \<Rightarrow> string \<Rightarrow> device_state \<Rightarrow> string" where
  "lookupMigratedDeviceID ok oldDeviceID userID s =
     (if \<not> ok then []
      else case find (\<lambda>m. dm_OldDeviceID m = oldDeviceID \<and> dm_UserID m = userID)
                  (sort_key (\<lambda>m. - dm_CreatedAt m) (sort_key dm_ID (ds_migrations s))) of
        None \<Rightarrow> []
      | Some m \<Rightarrow> dm_NewDeviceID m)"

definition recordMigration :: "bool \<Rightarrow> device_env \<Rightarrow> string \<Rightarrow> string \<Rightarrow> string \<Rightarrow> device_state \<Rightarrow> device_state" where
  "recordMigration ok env oldDeviceID newDeviceID userID s =
     (if ok \<and> ev_migrationID env \<notin> dm_ID ` set (ds_migrations s)
      then s\<lparr>ds_migrations := ds_migrations s @
              [\<lparr>dm_ID = ev_migrationID env, dm_OldDeviceID = oldDeviceID, dm_NewDeviceID = newDeviceID, dm_UserID = userID,
                dm_CreatedAt = ev_now env\<rparr>]\<rparr>
      else cache_Delete oldDeviceID userID s)"

definition UpdateLegacyFingerprint :: "(nat \<Rightarrow> bool) \<Rightarrow> device_env \<Rightarrow> string \<Rightarrow> string \<Rightarrow> string \<Rightarrow> device_state \<Rightarrow> device_state" where
  "UpdateLegacyFingerprint ok env deviceID userID legacyDeviceID s =
     (if legacyDeviceID = [] \<or> legacyDeviceID = deviceID then s
      else if ok 0 \<and> filter (\<lambda>m. dm_OldDeviceID m = legacyDeviceID \<and> dm_NewDeviceID m = deviceID \<and> dm_UserID m = userID) (ds_migrations s) \<noteq> []
      then s
      else recordMigration (ok 1) env legacyDeviceID deviceID userID s)"

definition new_device :: "device_env \<Rightarrow> string \<Rightarrow> string \<Rightarrow> RegisterDeviceRequest \<Rightarrow> Device" where
  "new_device env token userID req =
     \<lparr>dv_ID = ev_ID env, dv_DeviceID = rq_DeviceID req, dv_DisplayName = rq_DisplayName req, dv_Platform = rq_Platform req,
      dv_Version = rq_Version req, dv_UserID = userID, dv_Status = ''offline'', dv_Label = [], dv_Description = [], dv_Token = token,
      dv_TokenRotatedAt = None, dv_LastConnectedAt = None, dv_LastSeenAt = None, dv_CreatedAt = ev_now env, dv_UpdatedAt = ev_now env,
      dv_DeletedAt = None\<rparr>"

text \<open>The columns that every recovery of a row writes.\<close>

definition refreshed :: "device_env \<Rightarrow> string \<Rightarrow> RegisterDeviceRequest \<Rightarrow> Device \<Rightarrow> Device" where
  "refreshed env token req d =
     d\<lparr>dv_DisplayName := rq_DisplayName req, dv_Platform := rq_Platform req, dv_Version := rq_Version req, dv_Token := token,
       dv_TokenRotatedAt := None, dv_Status := ''offline'', dv_UpdatedAt := ev_now env\<rparr>"

definition reload :: "bool \<Rightarrow> string \<Rightarrow> Device \<Rightarrow> Device list \<Rightarrow> Device" where
  "reload ok deviceID d rows =
     (if \<not> ok then d
      else case First dv_ID (\<lambda>r. live r \<and> dv_DeviceID r = deviceID \<and> dv_ID r = dv_ID d) rows of None \<Rightarrow> d | Some r \<Rightarrow> r)"

text \<open>An update of a struct writes the new values into the struct as well, so the cache entry that is dropped is that of the new owner.\<close>

definition restoreSoftDeletedDevice ::
  "(nat \<Rightarrow> bool) \<Rightarrow> device_env \<Rightarrow> Device \<Rightarrow> string \<Rightarrow> RegisterDeviceRequest \<Rightarrow> bool \<Rightarrow> device_state \<Rightarrow> register_result \<times> device_state" where
  "restoreSoftDeletedDevice ok env softDeleted userID req isLegacyMigration s =
     (case ev_token env of
        None \<Rightarrow> ((None, [], Some TokenError), s)
      | Some token \<Rightarrow>
          let f = (\<lambda>d. (refreshed env token req d)\<lparr>dv_UserID := userID, dv_DeletedAt := None,
                     dv_DeviceID := (if isLegacyMigration then rq_DeviceID req else dv_DeviceID d)\<rparr>)
          in case Updates (ok 7) (\<lambda>d. dv_ID d = dv_ID softDeleted) f (ds_devices s) of
               None \<Rightarrow> ((None, [], Some DeviceDBError), s)
             | Some rows \<Rightarrow>
                 ((Some (reload (ok 9) (rq_DeviceID req) (f softDeleted) rows), token, None),
                  cache_Delete (dv_DeviceID (f softDeleted)) (dv_UserID (f softDeleted)) (s\<lparr>ds_devices := rows\<rparr>)))"

definition migrateDeviceID ::
  "(nat \<Rightarrow> bool) \<Rightarrow> device_env \<Rightarrow> Device \<Rightarrow> string \<Rightarrow> RegisterDeviceRequest \<Rightarrow> device_state \<Rightarrow> register_result \<times> device_state" where
  "migrateDeviceID ok env existing userID req s =
     (case ev_token env of
        None \<Rightarrow> ((None, [], Some TokenError), s)
      | Some token \<Rightarrow>
          let lookupID = dv_DeviceID existing
          in case Updates (ok 7) (\<lambda>d. live d \<and> dv_DeviceID d = lookupID)
                    (\<lambda>d. (refreshed env token req d)\<lparr>dv_DeviceID := rq_DeviceID req\<rparr>) (ds_devices s) of
               None \<Rightarrow> ((None, [], Some DeviceDBError), s)
             | Some rows \<Rightarrow>
                 ((Some (reload (ok 9) (rq_DeviceID req) existing rows), token, None),
                  cache_Delete lookupID userID
                    (recordMigration (ok 8) env (rq_LegacyDeviceID req) (rq_DeviceID req) userID (s\<lparr>ds_devices := rows\<rparr>))))"

definition rebindDevice ::
  "(nat \<Rightarrow> bool) \<Rightarrow> device_env \<Rightarrow> Device \<Rightarrow> string \<Rightarrow> RegisterDeviceRequest \<Rightarrow> bool \<Rightarrow> device_state \<Rightarrow> register_result \<times> device_state" where
  "rebindDevice ok env existing userID req isLegacyMigration s =
     (case ev_token env of
        None \<Rightarrow> ((None, [], Some TokenError), s)
      | Some token \<Rightarrow>
          let lookupID = dv_DeviceID existing
          in case Updates (ok 7) (\<lambda>d. live d \<and> dv_DeviceID d = lookupID)
                    (\<lambda>d. (refreshed env token req d)\<lparr>dv_UserID := userID,
                         dv_DeviceID := (if isLegacyMigration then rq_DeviceID req else dv_DeviceID d)\<rparr>) (ds_devices s) of
               None \<Rightarrow> ((None, [], Some DeviceDBError), s)
             | Some rows \<Rightarrow>
                 let s1 = s\<lparr>ds_devices := rows\<rparr>;
                     s2 = (if isLegacyMigration then recordMigration (ok 8) env lookupID (rq_DeviceID req) userID s1 else s1)
                 in ((Some (reload (ok 9) (rq_DeviceID req) existing rows), token, None), cache_Delete lookupID (dv_UserID existing) s2))"

text \<open>The creation of a row, which ends the registration and the conflict over a legacy fingerprint alike.\<close>

definition createDeviceFromLegacyConflict ::
  "(nat \<Rightarrow> bool) \<Rightarrow> device_env \<Rightarrow> string \<Rightarrow> RegisterDeviceRequest \<Rightarrow> device_state \<Rightarrow> register_result \<times> device_state" where
  "createDeviceFromLegacyConflict ok env userID req s =
     (case ev_token env of
        None \<Rightarrow> ((None, [], Some TokenError), s)
      | Some token \<Rightarrow>
          let device = new_device env token userID req
          in case Create (ok 7) device (ds_devices s) of
               None \<Rightarrow> ((None, [], Some DeviceDBError), s)
             | Some rows \<Rightarrow>
                 let s1 = s\<lparr>ds_devices := rows\<rparr>
                 in ((Some device, token, None),
                     if rq_LegacyDeviceID req \<noteq> [] \<and> rq_LegacyDeviceID req \<noteq> rq_DeviceID req
                     then recordMigration (ok 8) env (rq_LegacyDeviceID req) (rq_DeviceID req) userID s1 else s1))"

definition handleExistingDevice ::
  "(nat \<Rightarrow> bool) \<Rightarrow> device_env \<Rightarrow> Device \<Rightarrow> string \<Rightarrow> RegisterDeviceRequest \<Rightarrow> bool \<Rightarrow> device_state \<Rightarrow> register_result \<times> device_state" where
  "handleExistingDevice ok env existing userID req isLegacyMigration s =
     (if dv_UserID existing = userID then
        if isLegacyMigration then migrateDeviceID ok env existing userID req s
        else ((Some existing, dv_Token existing, Some ErrDeviceOwnedByCaller), s)
      else if \<not> userExists (ok 6) (dv_UserID existing) s then rebindDevice ok env existing userID req isLegacyMigration s
      else if isLegacyMigration \<and> rq_DeviceID req \<noteq> dv_DeviceID existing then createDeviceFromLegacyConflict ok env userID req s
      else ((None, [], Some ErrDeviceAlreadyRegistered), s))"

text \<open>\<open>None\<close> is the answer that the legacy fingerprint leads to nothing.\<close>

definition migrateFromLegacyDeviceID ::
  "(nat \<Rightarrow> bool) \<Rightarrow> device_env \<Rightarrow> string \<Rightarrow> RegisterDeviceRequest \<Rightarrow> device_state \<Rightarrow> register_result \<times> device_state" where
  "migrateFromLegacyDeviceID ok env userID req s =
     (if \<not> ok 2 then ((None, [], Some DeviceDBError), s)
      else case live_device (rq_LegacyDeviceID req) (ds_devices s) of
        Some existing \<Rightarrow> handleExistingDevice ok env existing userID req True s
      | None \<Rightarrow>
          (case (if ok 3 then deleted_device (rq_LegacyDeviceID req) (ds_devices s) else None) of
             Some softDeleted \<Rightarrow> restoreSoftDeletedDevice ok env softDeleted userID req True s
           | None \<Rightarrow>
               let migratedID = lookupMigratedDeviceID (ok 4) (rq_LegacyDeviceID req) userID s
               in case (if migratedID \<noteq> [] \<and> ok 5 then live_device migratedID (ds_devices s) else None) of
                    None \<Rightarrow> ((None, [], None), s)
                  | Some migrated \<Rightarrow>
                      if rq_ConfirmRecovery req then handleExistingDevice ok env migrated userID req True s
                      else if rq_ForceNew req then ((None, [], None), s)
                      else ((None, [], Some (RecoveryError (dv_DeviceID migrated) (dv_DisplayName migrated) (dv_Platform migrated)
                               (dv_LastConnectedAt migrated))), s)))"

definition RegisterDevice ::
  "(nat \<Rightarrow> bool) \<Rightarrow> device_env \<Rightarrow> string \<Rightarrow> RegisterDeviceRequest \<Rightarrow> device_state \<Rightarrow> register_result \<times> device_state" where
  "RegisterDevice ok env userID req s =
     (if \<not> ok 0 then ((None, [], Some DeviceDBError), s)
      else case live_device (rq_DeviceID req) (ds_devices s) of
        Some existing \<Rightarrow> handleExistingDevice ok env existing userID req False s
      | None \<Rightarrow>
          (case (if ok 1 then deleted_device (rq_DeviceID req) (ds_devices s) else None) of
             Some softDeleted \<Rightarrow> restoreSoftDeletedDevice ok env softDeleted userID req False s
           | None \<Rightarrow>
               (case (if rq_LegacyDeviceID req \<noteq> [] \<and> rq_LegacyDeviceID req \<noteq> rq_DeviceID req \<and> \<not> rq_ForceNew req
                      then migrateFromLegacyDeviceID ok env userID req s else ((None, [], None), s)) of
                  ((None, _, None), s') \<Rightarrow> createDeviceFromLegacyConflict ok env userID req s'
                | (r, s') \<Rightarrow> (r, s'))))"

section \<open>The other operations\<close>

definition GetDevice :: "bool \<Rightarrow> string \<Rightarrow> string \<Rightarrow> device_state \<Rightarrow> device_error + Device" where
  "GetDevice ok deviceID userID s =
     (if \<not> ok then Inl DeviceDBError
      else case First dv_ID (\<lambda>d. live d \<and> dv_DeviceID d = deviceID \<and> dv_UserID d = userID) (ds_devices s) of
        None \<Rightarrow> Inl ErrDeviceNotFound
      | Some d \<Rightarrow> Inr d)"

definition GetDeviceByID :: "bool \<Rightarrow> string \<Rightarrow> string \<Rightarrow> device_state \<Rightarrow> device_error + Device" where
  "GetDeviceByID ok uuid userID s =
     (if \<not> ok then Inl DeviceDBError
      else case First dv_ID (\<lambda>d. live d \<and> dv_ID d = uuid \<and> dv_UserID d = userID) (ds_devices s) of
        None \<Rightarrow> Inl ErrDeviceNotFound
      | Some d \<Rightarrow> Inr d)"

definition ListDevices :: "bool \<Rightarrow> string \<Rightarrow> device_state \<Rightarrow> device_error + Device list" where
  "ListDevices ok userID s = (if ok then Inr (filter (\<lambda>d. live d \<and> dv_UserID d = userID) (ds_devices s)) else Inl DeviceDBError)"

definition apply_device_updates :: "UpdateDeviceRequest \<Rightarrow> int \<Rightarrow> Device \<Rightarrow> Device" where
  "apply_device_updates req now d =
     d\<lparr>dv_DisplayName := (if uq_DisplayName req \<noteq> [] then uq_DisplayName req else dv_DisplayName d),
       dv_Description := (case uq_Description req of None \<Rightarrow> dv_Description d | Some x \<Rightarrow> x),
       dv_Label := (case uq_Label req of None \<Rightarrow> dv_Label d | Some x \<Rightarrow> x), dv_UpdatedAt := now\<rparr>"

definition UpdateDevice ::
  "(nat \<Rightarrow> bool) \<Rightarrow> int \<Rightarrow> string \<Rightarrow> string \<Rightarrow> UpdateDeviceRequest \<Rightarrow> device_state \<Rightarrow> (device_error + Device) \<times> device_state" where
  "UpdateDevice ok now deviceID userID req s =
     (case GetDevice (ok 0) deviceID userID s of
        Inl e \<Rightarrow> (Inl e, s)
      | Inr device \<Rightarrow>
          if uq_DisplayName req = [] \<and> uq_Description req = None \<and> uq_Label req = None then (Inr device, s)
          else case Updates (ok 1) (\<lambda>d. live d \<and> dv_ID d = dv_ID device) (apply_device_updates req now) (ds_devices s) of
            None \<Rightarrow> (Inl DeviceDBError, s)
          | Some rows \<Rightarrow> (Inr (apply_device_updates req now device), s\<lparr>ds_devices := rows\<rparr>))"

text \<open>A deletion drops the entry of the cache first and then marks the row.\<close>

definition delete_row :: "bool \<Rightarrow> int \<Rightarrow> Device \<Rightarrow> device_state \<Rightarrow> device_error option \<times> device_state" where
  "delete_row ok now device s =
     (case Updates ok (\<lambda>d. live d \<and> dv_ID d = dv_ID device) (\<lambda>d. d\<lparr>dv_DeletedAt := Some now\<rparr>) (ds_devices s) of
        None \<Rightarrow> (Some DeviceDBError, s)
      | Some rows \<Rightarrow> (None, s\<lparr>ds_devices := rows\<rparr>))"

definition DeleteDevice :: "(nat \<Rightarrow> bool) \<Rightarrow> int \<Rightarrow> string \<Rightarrow> string \<Rightarrow> device_state \<Rightarrow> device_error option \<times> device_state" where
  "DeleteDevice ok now deviceID userID s =
     (case GetDevice (ok 0) deviceID userID s of
        Inl e \<Rightarrow> (Some e, s)
      | Inr device \<Rightarrow>
          let s1 = cache_Delete deviceID userID s
          in delete_row (ok 1) now device s1)"

definition RotateToken :: "(nat \<Rightarrow> bool) \<Rightarrow> device_env \<Rightarrow> string \<Rightarrow> string \<Rightarrow> device_state \<Rightarrow> (device_error + string \<times> int) \<times> device_state" where
  "RotateToken ok env deviceID userID s =
     (case GetDevice (ok 0) deviceID userID s of
        Inl e \<Rightarrow> (Inl e, s)
      | Inr device \<Rightarrow>
          (case ev_token env of
             None \<Rightarrow> (Inl TokenError, s)
           | Some token \<Rightarrow>
               (case Updates (ok 1) (\<lambda>d. live d \<and> dv_ID d = dv_ID device)
                       (\<lambda>d. d\<lparr>dv_Token := token, dv_TokenRotatedAt := Some (ev_now env), dv_UpdatedAt := ev_now env\<rparr>) (ds_devices s) of
                  None \<Rightarrow> (Inl DeviceDBError, s)
                | Some rows \<Rightarrow> (Inr (token, ev_now env), s\<lparr>ds_devices := rows\<rparr>))))"

text \<open>A hit answers with the two identifiers only.\<close>

definition minimal_device :: "string \<Rightarrow> string \<Rightarrow> Device" where
  "minimal_device deviceID userID =
     \<lparr>dv_ID = [], dv_DeviceID = deviceID, dv_DisplayName = [], dv_Platform = [], dv_Version = [], dv_UserID = userID, dv_Status = [],
      dv_Label = [], dv_Description = [], dv_Token = [], dv_TokenRotatedAt = None, dv_LastConnectedAt = None, dv_LastSeenAt = None,
      dv_CreatedAt = 0, dv_UpdatedAt = 0, dv_DeletedAt = None\<rparr>"

definition cache_Store :: "string \<Rightarrow> string \<Rightarrow> bool \<Rightarrow> int \<Rightarrow> device_state \<Rightarrow> device_state" where
  "cache_Store deviceID userID valid now s =
     s\<lparr>ds_cache := AList.update (cache_key deviceID userID) \<lparr>oe_valid = valid, oe_expires = now + ownershipCacheTTL\<rparr> (ds_cache s)\<rparr>"

definition verify_miss :: "bool \<Rightarrow> int \<Rightarrow> string \<Rightarrow> string \<Rightarrow> device_state \<Rightarrow> (device_error + Device) \<times> device_state" where
  "verify_miss ok now deviceID userID s =
     (case GetDevice ok deviceID userID s of
        Inl e \<Rightarrow> (Inl e, cache_Store deviceID userID False now s)
      | Inr device \<Rightarrow> (Inr device, cache_Store deviceID userID True now s))"

definition VerifyDeviceOwnership :: "bool \<Rightarrow> int \<Rightarrow> string \<Rightarrow> string \<Rightarrow> device_state \<Rightarrow> (device_error + Device) \<times> device_state" where
  "VerifyDeviceOwnership ok now deviceID userID s =
     (case map_of (ds_cache s) (cache_key deviceID userID) of
        None \<Rightarrow> verify_miss ok now deviceID userID s
      | Some entry \<Rightarrow>
          if now < oe_expires entry
          then (if oe_valid entry then Inr (minimal_device deviceID userID) else Inl ErrDeviceNotFound, s)
          else verify_miss ok now deviceID userID (cache_Delete deviceID userID s))"

definition VerifyDeviceToken :: "bool \<Rightarrow> string \<Rightarrow> device_state \<Rightarrow> device_error + Device" where
  "VerifyDeviceToken ok token s =
     (if \<not> ok then Inl DeviceDBError
      else case First dv_ID (\<lambda>d. live d \<and> dv_Token d = token) (ds_devices s) of None \<Rightarrow> Inl ErrDeviceNotFound | Some d \<Rightarrow> Inr d)"

text \<open>The updates of one column by the device connection; a failed update leaves the table.\<close>

definition update_live :: "bool \<Rightarrow> string \<Rightarrow> (Device \<Rightarrow> Device) \<Rightarrow> device_state \<Rightarrow> device_error option \<times> device_state" where
  "update_live ok deviceID f s =
     (case Updates ok (\<lambda>d. live d \<and> dv_DeviceID d = deviceID) f (ds_devices s) of
        None \<Rightarrow> (Some DeviceDBError, s)
      | Some rows \<Rightarrow> (None, s\<lparr>ds_devices := rows\<rparr>))"

definition SetOnline :: "bool \<Rightarrow> int \<Rightarrow> string \<Rightarrow> device_state \<Rightarrow> device_error option \<times> device_state" where
  "SetOnline ok now deviceID = update_live ok deviceID (\<lambda>d. d\<lparr>dv_Status := ''online'', dv_LastConnectedAt := Some now, dv_UpdatedAt := now\<rparr>)"

definition SetOffline :: "bool \<Rightarrow> int \<Rightarrow> string \<Rightarrow> device_state \<Rightarrow> device_error option \<times> device_state" where
  "SetOffline ok now deviceID = update_live ok deviceID (\<lambda>d. d\<lparr>dv_Status := ''offline'', dv_UpdatedAt := now\<rparr>)"

definition UpdateLastSeen :: "bool \<Rightarrow> int \<Rightarrow> string \<Rightarrow> device_state \<Rightarrow> device_error option \<times> device_state" where
  "UpdateLastSeen ok now deviceID = update_live ok deviceID (\<lambda>d. d\<lparr>dv_LastSeenAt := Some now, dv_UpdatedAt := now\<rparr>)"

definition UpdateVersion :: "bool \<Rightarrow> int \<Rightarrow> string \<Rightarrow> string \<Rightarrow> device_state \<Rightarrow> device_error option \<times> device_state" where
  "UpdateVersion ok now deviceID version = update_live ok deviceID (\<lambda>d. d\<lparr>dv_Version := version, dv_UpdatedAt := now\<rparr>)"

text \<open>The loop over the devices that were online when it started; statement \<open>Suc i\<close> is the update of the \<open>i\<close>-th of them.\<close>

fun mark_stale :: "(nat \<Rightarrow> bool) \<Rightarrow> int \<Rightarrow> (string \<Rightarrow> bool) \<Rightarrow> nat \<Rightarrow> Device list \<Rightarrow> nat \<Rightarrow> device_state \<Rightarrow> nat \<times> device_state" where
  "mark_stale ok now checkBound i [] n s = (n, s)"
| "mark_stale ok now checkBound i (d # ds) n s =
     (if checkBound (dv_DeviceID d) then mark_stale ok now checkBound (Suc i) ds n s
      else case SetOffline (ok (Suc i)) now (dv_DeviceID d) s of
        (Some _, s') \<Rightarrow> mark_stale ok now checkBound (Suc i) ds n s'
      | (None, s') \<Rightarrow> mark_stale ok now checkBound (Suc i) ds (Suc n) s')"

definition MarkStaleDevicesOffline :: "(nat \<Rightarrow> bool) \<Rightarrow> int \<Rightarrow> (string \<Rightarrow> bool) \<Rightarrow> device_state \<Rightarrow> (device_error + nat) \<times> device_state" where
  "MarkStaleDevicesOffline ok now checkBound s =
     (if \<not> ok 0 then (Inl DeviceDBError, s)
      else apfst Inr (mark_stale ok now checkBound 0 (filter (\<lambda>d. live d \<and> dv_Status d = ''online'') (ds_devices s)) 0 s))"

section \<open>Rows\<close>

definition owns :: "string \<Rightarrow> string \<Rightarrow> Device list \<Rightarrow> bool" where
  "owns d u rows \<longleftrightarrow> (\<exists>r \<in> set rows. live r \<and> dv_DeviceID r = d \<and> dv_UserID r = u)"

lemma live_deviceD: "live_device d rows = Some r \<Longrightarrow> r \<in> set rows \<and> live r \<and> dv_DeviceID r = d"
  unfolding live_device_def by (drule First_SomeD) simp

lemma deleted_deviceD: "deleted_device d rows = Some r \<Longrightarrow> r \<in> set rows \<and> \<not> live r \<and> dv_DeviceID r = d"
  unfolding deleted_device_def by (drule First_SomeD) simp

lemma GetDeviceD: "GetDevice ok d u s = Inr r \<Longrightarrow> r \<in> set (ds_devices s) \<and> live r \<and> dv_DeviceID r = d \<and> dv_UserID r = u"
  unfolding GetDevice_def by (auto split: if_splits option.splits dest: First_SomeD)

lemma UpdatesD: "Updates ok P f rows = Some rows' \<Longrightarrow> rows' = map (\<lambda>d. if P d then f d else d) rows \<and> unique_rows rows' \<and> ok"
  by (auto simp: Updates_def Let_def split: if_splits)

lemma CreateD: "Create ok d rows = Some rows' \<Longrightarrow> rows' = rows @ [d] \<and> unique_rows rows' \<and> ok"
  by (auto simp: Create_def split: if_splits)

lemma unique_rowsD:
  assumes "unique_rows rows" "r \<in> set rows" "q \<in> set rows"
  shows "dv_ID r = dv_ID q \<Longrightarrow> r = q" "dv_DeviceID r = dv_DeviceID q \<Longrightarrow> r = q" "dv_Token r = dv_Token q \<Longrightarrow> r = q"
  using assms by (auto simp: unique_rows_def distinct_map inj_on_def)

text \<open>The condition on the device identifier selects the row that was read.\<close>

lemma map_only_row:
  assumes "unique_rows rows" "r \<in> set rows" "P r" "\<And>q. q \<in> set rows \<Longrightarrow> P q \<Longrightarrow> dv_ID q = dv_ID r \<or> dv_DeviceID q = dv_DeviceID r"
  shows "map (\<lambda>d. if P d then f d else d) rows = map (\<lambda>d. if d = r then f r else d) rows"
  using assms unique_rowsD[OF assms(1) _ assms(2)] by (intro map_cong refl if_cong) blast+

lemma Updates_row:
  assumes "Updates ok P f rows = Some rows'" "unique_rows rows" "r \<in> set rows" "P r"
    "\<And>q. P q \<Longrightarrow> dv_ID q = dv_ID r \<or> dv_DeviceID q = dv_DeviceID r"
  shows "rows' = map (\<lambda>d. if d = r then f r else d) rows" "unique_rows rows'"
proof -
  have "map (\<lambda>d. if P d then f d else d) rows = map (\<lambda>d. if d = r then f r else d) rows"
    using assms(5) by (intro map_only_row[where P = P, OF assms(2-4)])
  then show "rows' = map (\<lambda>d. if d = r then f r else d) rows" using UpdatesD[OF assms(1)] by simp
  show "unique_rows rows'" using UpdatesD[OF assms(1)] by blast
qed

lemma owns_map_row:
  assumes "r \<in> set rows"
  shows "owns d u rows \<Longrightarrow> owns d u (map (\<lambda>q. if q = r then f q else q) rows) \<or> live r \<and> dv_DeviceID r = d \<and> dv_UserID r = u"
proof -
  assume "owns d u rows"
  then obtain q where q: "q \<in> set rows" "live q" "dv_DeviceID q = d" "dv_UserID q = u" by (auto simp: owns_def)
  show ?thesis
  proof (cases "q = r")
    case False
    then have "q \<in> set (map (\<lambda>q. if q = r then f q else q) rows)" using q(1) by force
    then show ?thesis using q unfolding owns_def by blast
  qed (use q in simp)
qed

section \<open>What a registration does\<close>

definition sub_cache :: "device_state \<Rightarrow> device_state \<Rightarrow> bool" where
  "sub_cache s' s \<longleftrightarrow> (\<forall>k e. map_of (ds_cache s') k = Some e \<longrightarrow> map_of (ds_cache s) k = Some e)"

lemma sub_cache_refl [simp]: "sub_cache s s" "sub_cache (s\<lparr>ds_devices := rows\<rparr>) s"
  by (simp_all add: sub_cache_def)

lemma sub_cache_Delete: "sub_cache s' s \<Longrightarrow> sub_cache (cache_Delete d u s') s"
  by (auto simp: sub_cache_def cache_Delete_def delete_conv' split: if_splits)

lemma cache_Delete_gone: "map_of (ds_cache (cache_Delete d u s)) (cache_key d u) = None"
  by (simp add: cache_Delete_def delete_conv')

lemma sub_cache_record: "sub_cache s' s \<Longrightarrow> sub_cache (recordMigration ok env a b u s') s"
  by (simp add: recordMigration_def sub_cache_Delete) (simp add: sub_cache_def)

lemma frame_simps [simp]:
  "ds_devices (cache_Delete d u s) = ds_devices s" "ds_users (cache_Delete d u s) = ds_users s"
  "ds_devices (recordMigration ok env a b u s) = ds_devices s" "ds_users (recordMigration ok env a b u s) = ds_users s"
  by (simp_all add: cache_Delete_def recordMigration_def)

text \<open>The rows a user may take: deleted ones, his own, and those of users the table of users does not know.\<close>

definition takeable :: "(nat \<Rightarrow> bool) \<Rightarrow> string \<Rightarrow> device_state \<Rightarrow> Device \<Rightarrow> bool" where
  "takeable ok userID s r \<longleftrightarrow> \<not> live r \<or> dv_UserID r = userID \<or> \<not> userExists (ok 6) (dv_UserID r) s"

definition kept :: "register_result \<times> device_state \<Rightarrow> device_state \<Rightarrow> bool" where
  "kept out s \<longleftrightarrow> snd out = s \<and> snd (snd (fst out)) \<noteq> None"

definition created :: "device_env \<Rightarrow> string \<Rightarrow> RegisterDeviceRequest \<Rightarrow> device_state \<Rightarrow> register_result \<times> device_state \<Rightarrow> bool" where
  "created env userID req s out \<longleftrightarrow>
     (\<exists>token. ev_token env = Some token \<and> ds_devices (snd out) = ds_devices s @ [new_device env token userID req]
        \<and> fst out = (Some (new_device env token userID req), token, None))"

definition rewritten ::
  "(nat \<Rightarrow> bool) \<Rightarrow> device_env \<Rightarrow> string \<Rightarrow> RegisterDeviceRequest \<Rightarrow> device_state \<Rightarrow> register_result \<times> device_state \<Rightarrow> bool" where
  "rewritten ok env userID req s out \<longleftrightarrow>
     (\<exists>r token r'. r \<in> set (ds_devices s) \<and> takeable ok userID s r \<and> ev_token env = Some token
        \<and> ds_devices (snd out) = map (\<lambda>q. if q = r then r' else q) (ds_devices s)
        \<and> live r' \<and> dv_DeviceID r' = rq_DeviceID req \<and> dv_UserID r' = userID \<and> dv_Token r' = token
        \<and> (live r \<longrightarrow> map_of (ds_cache (snd out)) (cache_key (dv_DeviceID r) (dv_UserID r)) = None)
        \<and> fst (fst out) \<noteq> None \<and> snd (fst out) = (token, None))"

definition reg_effect ::
  "(nat \<Rightarrow> bool) \<Rightarrow> device_env \<Rightarrow> string \<Rightarrow> RegisterDeviceRequest \<Rightarrow> device_state \<Rightarrow> register_result \<times> device_state \<Rightarrow> bool" where
  "reg_effect ok env userID req s out \<longleftrightarrow>
     kept out s
     \<or> ds_users (snd out) = ds_users s \<and> sub_cache (snd out) s \<and> unique_rows (ds_devices (snd out))
        \<and> (created env userID req s out \<or> rewritten ok env userID req s out)"

lemma create_effect: "reg_effect ok env userID req s (createDeviceFromLegacyConflict ok env userID req s)"
proof (cases "ev_token env")
  case (Some token)
  show ?thesis
  proof (cases "Create (ok 7) (new_device env token userID req) (ds_devices s)")
    case None
    then show ?thesis using Some by (simp add: reg_effect_def kept_def createDeviceFromLegacyConflict_def Let_def)
  next
    case (Some rows)
    then have "rows = ds_devices s @ [new_device env token userID req]" "unique_rows rows" using CreateD by blast+
    with Some \<open>ev_token env = Some token\<close> show ?thesis
      by (simp add: reg_effect_def created_def createDeviceFromLegacyConflict_def Let_def sub_cache_record)
  qed
qed (simp add: reg_effect_def kept_def createDeviceFromLegacyConflict_def)

lemma restore_effect:
  assumes u: "unique_rows (ds_devices s)" and r: "r \<in> set (ds_devices s)" "\<not> live r" and l: "l \<or> dv_DeviceID r = rq_DeviceID req"
  shows "reg_effect ok env userID req s (restoreSoftDeletedDevice ok env r userID req l s)"
proof (cases "ev_token env")
  case token: (Some token)
  let ?f = "\<lambda>d. (refreshed env token req d)\<lparr>dv_UserID := userID, dv_DeletedAt := None,
                     dv_DeviceID := (if l then rq_DeviceID req else dv_DeviceID d)\<rparr>"
  show ?thesis
  proof (cases "Updates (ok 7) (\<lambda>d. dv_ID d = dv_ID r) ?f (ds_devices s)")
    case None
    then show ?thesis using token by (simp add: reg_effect_def kept_def restoreSoftDeletedDevice_def Let_def)
  next
    case (Some rows)
    have rows: "rows = map (\<lambda>d. if d = r then ?f r else d) (ds_devices s)" "unique_rows rows"
      by (rule Updates_row[OF Some u r(1)]; use r in simp)+
    have "rewritten ok env userID req s (restoreSoftDeletedDevice ok env r userID req l s)"
      unfolding rewritten_def using r l token Some rows
      by (intro exI[of _ r] exI[of _ token] exI[of _ "?f r"])
        (auto simp: restoreSoftDeletedDevice_def Let_def takeable_def refreshed_def live_def)
    then show ?thesis using token Some rows
      by (simp add: reg_effect_def restoreSoftDeletedDevice_def Let_def sub_cache_Delete)
  qed
qed (simp add: reg_effect_def kept_def restoreSoftDeletedDevice_def)

lemma migrate_effect:
  assumes u: "unique_rows (ds_devices s)" and r: "r \<in> set (ds_devices s)" "live r" "dv_UserID r = userID"
  shows "reg_effect ok env userID req s (migrateDeviceID ok env r userID req s)"
proof (cases "ev_token env")
  case token: (Some token)
  let ?f = "\<lambda>d. (refreshed env token req d)\<lparr>dv_DeviceID := rq_DeviceID req\<rparr>"
  show ?thesis
  proof (cases "Updates (ok 7) (\<lambda>d. live d \<and> dv_DeviceID d = dv_DeviceID r) ?f (ds_devices s)")
    case None
    then show ?thesis using token by (simp add: reg_effect_def kept_def migrateDeviceID_def Let_def)
  next
    case (Some rows)
    have rows: "rows = map (\<lambda>d. if d = r then ?f r else d) (ds_devices s)" "unique_rows rows"
      by (rule Updates_row[OF Some u r(1)]; use r in simp)+
    have "rewritten ok env userID req s (migrateDeviceID ok env r userID req s)"
      unfolding rewritten_def using r token Some rows
      by (intro exI[of _ r] exI[of _ token] exI[of _ "?f r"])
        (auto simp: migrateDeviceID_def Let_def takeable_def refreshed_def live_def cache_Delete_gone)
    then show ?thesis using token Some rows
      by (simp add: reg_effect_def migrateDeviceID_def Let_def sub_cache_Delete sub_cache_record)
  qed
qed (simp add: reg_effect_def kept_def migrateDeviceID_def)

lemma rebind_effect:
  assumes u: "unique_rows (ds_devices s)" and r: "r \<in> set (ds_devices s)" "live r" "\<not> userExists (ok 6) (dv_UserID r) s"
    and l: "l \<or> dv_DeviceID r = rq_DeviceID req"
  shows "reg_effect ok env userID req s (rebindDevice ok env r userID req l s)"
proof (cases "ev_token env")
  case token: (Some token)
  let ?f = "\<lambda>d. (refreshed env token req d)\<lparr>dv_UserID := userID, dv_DeviceID := (if l then rq_DeviceID req else dv_DeviceID d)\<rparr>"
  show ?thesis
  proof (cases "Updates (ok 7) (\<lambda>d. live d \<and> dv_DeviceID d = dv_DeviceID r) ?f (ds_devices s)")
    case None
    then show ?thesis using token by (simp add: reg_effect_def kept_def rebindDevice_def Let_def)
  next
    case (Some rows)
    have rows: "rows = map (\<lambda>d. if d = r then ?f r else d) (ds_devices s)" "unique_rows rows"
      by (rule Updates_row[OF Some u r(1)]; use r in simp)+
    have "rewritten ok env userID req s (rebindDevice ok env r userID req l s)"
      unfolding rewritten_def using r l token Some rows
      by (intro exI[of _ r] exI[of _ token] exI[of _ "?f r"])
        (auto simp: rebindDevice_def Let_def takeable_def refreshed_def live_def cache_Delete_gone)
    then show ?thesis using token Some rows
      by (simp add: reg_effect_def rebindDevice_def Let_def sub_cache_Delete sub_cache_record)
  qed
qed (simp add: reg_effect_def kept_def rebindDevice_def)

lemma handle_effect:
  assumes u: "unique_rows (ds_devices s)" and r: "r \<in> set (ds_devices s)" "live r" and l: "l \<or> dv_DeviceID r = rq_DeviceID req"
  shows "reg_effect ok env userID req s (handleExistingDevice ok env r userID req l s)"
proof -
  note effects = migrate_effect[OF u r] rebind_effect[OF u r _ l] create_effect
  show ?thesis
    unfolding handleExistingDevice_def using effects by (auto simp: reg_effect_def[of _ _ _ _ _ "(_, s)"] kept_def)
qed

lemma legacy_effect:
  assumes u: "unique_rows (ds_devices s)"
  shows "reg_effect ok env userID req s (migrateFromLegacyDeviceID ok env userID req s) \<or>
    migrateFromLegacyDeviceID ok env userID req s = ((None, [], None), s)"
proof -
  have k: "reg_effect ok env userID req s ((a, b, Some e), s)" for a b e by (simp add: reg_effect_def kept_def)
  have h: "reg_effect ok env userID req s (handleExistingDevice ok env r userID req True s)" if "live_device d (ds_devices s) = Some r" for d r
    using handle_effect[OF u] live_deviceD[OF that] by blast
  have r: "reg_effect ok env userID req s (restoreSoftDeletedDevice ok env r userID req True s)"
    if "deleted_device d (ds_devices s) = Some r" for d r
    using restore_effect[OF u] deleted_deviceD[OF that] by blast
  show ?thesis
    unfolding migrateFromLegacyDeviceID_def Let_def using k h r by (auto split: option.splits)
qed

lemma RegisterDevice_effect:
  assumes u: "unique_rows (ds_devices s)"
  shows "reg_effect ok env userID req s (RegisterDevice ok env userID req s)"
proof (cases "ok 0")
  case True
  show ?thesis
  proof (cases "live_device (rq_DeviceID req) (ds_devices s)")
    case (Some r)
    then show ?thesis using True handle_effect[OF u, of r False] live_deviceD[OF Some] by (simp add: RegisterDevice_def)
  next
    case none: None
    show ?thesis
    proof (cases "if ok 1 then deleted_device (rq_DeviceID req) (ds_devices s) else None")
      case (Some r)
      then have "deleted_device (rq_DeviceID req) (ds_devices s) = Some r" by (simp split: if_splits)
      from deleted_deviceD[OF this] show ?thesis using True none Some restore_effect[OF u, of r False] by (simp add: RegisterDevice_def)
    next
      case None
      let ?m = "if rq_LegacyDeviceID req \<noteq> [] \<and> rq_LegacyDeviceID req \<noteq> rq_DeviceID req \<and> \<not> rq_ForceNew req
                then migrateFromLegacyDeviceID ok env userID req s else ((None, [], None), s)"
      have eq: "RegisterDevice ok env userID req s =
          (case ?m of ((None, _, None), s') \<Rightarrow> createDeviceFromLegacyConflict ok env userID req s' | (r, s') \<Rightarrow> (r, s'))"
        using True none None by (simp add: RegisterDevice_def)
      consider "?m = ((None, [], None), s)" | "reg_effect ok env userID req s ?m" 
        using legacy_effect[OF u, of ok env userID req]
        by (cases "rq_LegacyDeviceID req \<noteq> [] \<and> rq_LegacyDeviceID req \<noteq> rq_DeviceID req \<and> \<not> rq_ForceNew req") auto
      then show ?thesis
      proof cases
        case 1
        show ?thesis unfolding eq 1 using create_effect by simp
      next
        case 2
        then have "fst (fst ?m) \<noteq> None \<or> snd (snd (fst ?m)) \<noteq> None"
          by (auto simp: reg_effect_def kept_def created_def rewritten_def)
        then have "(case ?m of ((None, _, None), s') \<Rightarrow> createDeviceFromLegacyConflict ok env userID req s' | (r, s') \<Rightarrow> (r, s')) = ?m"
          by (auto split: prod.split option.split)
        then show ?thesis using 2 unfolding eq by simp
      qed
    qed
  qed
qed (simp add: reg_effect_def kept_def RegisterDevice_def)

section \<open>The ownership cache\<close>

definition colon_free :: "string \<Rightarrow> bool" where "colon_free u \<longleftrightarrow> CHR '':'' \<notin> set u"

lemma cache_key_inject:
  assumes "colon_free u" "colon_free v" "cache_key d u = cache_key e v"
  shows "d = e \<and> u = v"
proof -
  have key: "split_on (CHR '':'') (rev (cache_key d u)) = rev u # split_on (CHR '':'') (rev d)" if "colon_free u" for d u
    using that split_on_append[of "CHR '':''" "rev u" "rev d"] by (simp add: cache_key_def colon_free_def)
  have "u = v" using key[OF assms(1), of d] key[OF assms(2), of e] assms(3) by simp
  then show ?thesis using assms(3) by (simp add: cache_key_def)
qed

text \<open>
  The rows are unique and belong to well-formed users, and a positive entry of the cache is true of the table.
\<close>

definition dev_inv :: "device_state \<Rightarrow> bool" where
  "dev_inv s \<longleftrightarrow> unique_rows (ds_devices s) \<and> (\<forall>r \<in> set (ds_devices s). colon_free (dv_UserID r))
     \<and> (\<forall>k e. map_of (ds_cache s) k = Some e \<and> oe_valid e \<longrightarrow>
          (\<exists>d u. k = cache_key d u \<and> colon_free u \<and> owns d u (ds_devices s)))"

lemma dev_inv_unique: "dev_inv s \<Longrightarrow> unique_rows (ds_devices s)"
  by (simp add: dev_inv_def)

text \<open>A step that loses the ownership of at most one pair, whose entry it drops, keeps the invariant.\<close>

lemma dev_inv_step:
  assumes i: "dev_inv s" and u: "unique_rows (ds_devices s')" "\<forall>r \<in> set (ds_devices s'). colon_free (dv_UserID r)"
    and c: "sub_cache s' s" and v: "colon_free v"
    and o: "\<And>d u. owns d u (ds_devices s) \<Longrightarrow> owns d u (ds_devices s') \<or> d = e \<and> u = v \<and> map_of (ds_cache s') (cache_key e v) = None"
  shows "dev_inv s'"
proof -
  have "\<exists>d u. k = cache_key d u \<and> colon_free u \<and> owns d u (ds_devices s')" if k: "map_of (ds_cache s') k = Some x" "oe_valid x" for k x
  proof -
    have "map_of (ds_cache s) k = Some x" using c k(1) by (simp add: sub_cache_def)
    then obtain d u where du: "k = cache_key d u" "colon_free u" "owns d u (ds_devices s)" using i k(2) unfolding dev_inv_def by blast
    then show ?thesis using o[OF du(3)] k(1) by auto
  qed
  then show ?thesis using u by (auto simp: dev_inv_def)
qed

lemma register_inv:
  assumes i: "dev_inv s" and u: "colon_free userID"
  shows "dev_inv (snd (RegisterDevice ok env userID req s))"
proof -
  let ?out = "RegisterDevice ok env userID req s"
  note e = RegisterDevice_effect[OF dev_inv_unique[OF i], of ok env userID req]
  have rows: "\<forall>r \<in> set (ds_devices s). colon_free (dv_UserID r)" using i by (simp add: dev_inv_def)
  consider "kept ?out s"
    | "created env userID req s ?out" "sub_cache (snd ?out) s" "unique_rows (ds_devices (snd ?out))"
    | "rewritten ok env userID req s ?out" "sub_cache (snd ?out) s" "unique_rows (ds_devices (snd ?out))"
    using e unfolding reg_effect_def by blast
  then show ?thesis
  proof cases
    case 1
    then show ?thesis using i by (simp add: kept_def)
  next
    case 2
    then obtain token where d: "ds_devices (snd ?out) = ds_devices s @ [new_device env token userID req]" by (auto simp: created_def)
    show ?thesis by (rule dev_inv_step[OF i 2(3) _ 2(2) u]) (use rows u in \<open>auto simp: d new_device_def owns_def\<close>)
  next
    case 3
    then obtain r r' where r: "r \<in> set (ds_devices s)" "ds_devices (snd ?out) = map (\<lambda>q. if q = r then r' else q) (ds_devices s)"
      "dv_UserID r' = userID" "live r \<longrightarrow> map_of (ds_cache (snd ?out)) (cache_key (dv_DeviceID r) (dv_UserID r)) = None"
      by (auto simp: rewritten_def)
    show ?thesis
    proof (rule dev_inv_step[OF i 3(3) _ 3(2), of "dv_UserID r" "dv_DeviceID r"])
      show "colon_free (dv_UserID r)" using rows r(1) by blast
      show "\<forall>q \<in> set (ds_devices (snd ?out)). colon_free (dv_UserID q)" unfolding r(2) using rows r(3) u by auto
      show "owns d v (ds_devices (snd ?out)) \<or>
          d = dv_DeviceID r \<and> v = dv_UserID r \<and> map_of (ds_cache (snd ?out)) (cache_key (dv_DeviceID r) (dv_UserID r)) = None"
        if "owns d v (ds_devices s)" for d v
        using owns_map_row[OF r(1) that, of "\<lambda>_. r'"] r(2,4) by auto
    qed
  qed
qed

text \<open>An update of columns other than the owner, the device and the mark of deletion.\<close>

lemma dev_inv_update:
  assumes i: "dev_inv s" and upd: "Updates ok P f (ds_devices s) = Some rows"
    and f: "\<And>d. dv_DeviceID (f d) = dv_DeviceID d \<and> dv_UserID (f d) = dv_UserID d \<and> dv_DeletedAt (f d) = dv_DeletedAt d"
  shows "dev_inv (s\<lparr>ds_devices := rows\<rparr>)"
proof -
  have rows: "rows = map (\<lambda>d. if P d then f d else d) (ds_devices s)" "unique_rows rows" using UpdatesD[OF upd] by auto
  have "owns d u rows" if "owns d u (ds_devices s)" for d u
  proof -
    obtain r where r: "r \<in> set (ds_devices s)" "live r" "dv_DeviceID r = d" "dv_UserID r = u" using \<open>owns d u (ds_devices s)\<close> by (auto simp: owns_def)
    let ?r = "if P r then f r else r"
    have "?r \<in> set rows" unfolding rows(1) set_map using r(1) by (rule imageI)
    moreover have "live ?r" "dv_DeviceID ?r = d" "dv_UserID ?r = u" using r f[of r] by (auto simp: live_def)
    ultimately show ?thesis unfolding owns_def by blast
  qed
  then show ?thesis
    by (intro dev_inv_step[OF i, where v = "[]" and e = "[]"]) (use rows i f in \<open>auto simp: colon_free_def dev_inv_def\<close>)
qed

lemma delete_inv:
  assumes i: "dev_inv s"
  shows "dev_inv (snd (DeleteDevice ok now d u s))"
proof (cases "GetDevice (ok 0) d u s")
  case (Inl e)
  then show ?thesis using i by (simp add: DeleteDevice_def)
next
  case (Inr r)
  note r = GetDeviceD[OF Inr]
  have cu: "colon_free u" using r i by (auto simp: dev_inv_def)
  have s1: "dev_inv (cache_Delete d u s)"
    by (rule dev_inv_step[OF i, where v = u and e = d]) (use i cu in \<open>auto simp: dev_inv_def sub_cache_Delete\<close>)
  show ?thesis
  proof (cases "Updates (ok 1) (\<lambda>d. live d \<and> dv_ID d = dv_ID r) (\<lambda>d. d\<lparr>dv_DeletedAt := Some now\<rparr>) (ds_devices s)")
    case None
    then show ?thesis using Inr s1 by (simp add: DeleteDevice_def delete_row_def Let_def)
  next
    case (Some rows)
    have rows: "rows = map (\<lambda>d. if d = r then r\<lparr>dv_DeletedAt := Some now\<rparr> else d) (ds_devices s)" "unique_rows rows"
      by (rule Updates_row[where r = r, OF Some dev_inv_unique[OF i]]; use r in simp)+
    have eq: "snd (DeleteDevice ok now d u s) = (cache_Delete d u s)\<lparr>ds_devices := rows\<rparr>" using Inr Some by (simp add: DeleteDevice_def delete_row_def Let_def)
    show ?thesis unfolding eq
    proof (rule dev_inv_step[OF i, where v = u and e = d])
      show "owns d' u' (ds_devices ((cache_Delete d u s)\<lparr>ds_devices := rows\<rparr>)) \<or>
          d' = d \<and> u' = u \<and> map_of (ds_cache ((cache_Delete d u s)\<lparr>ds_devices := rows\<rparr>)) (cache_key d u) = None"
        if "owns d' u' (ds_devices s)" for d' u'
        using owns_map_row[of r, OF _ that, of "\<lambda>_. r\<lparr>dv_DeletedAt := Some now\<rparr>"] r rows(1) cache_Delete_gone[of d u s] by auto
      show "\<forall>q \<in> set (ds_devices ((cache_Delete d u s)\<lparr>ds_devices := rows\<rparr>)). colon_free (dv_UserID q)"
        using i r by (auto simp: rows(1) dev_inv_def)
    qed (use rows cu in \<open>auto simp: sub_cache_Delete sub_cache_def cache_Delete_def delete_conv'\<close>)
  qed
qed

lemma update_live_inv:
  assumes "dev_inv s" "\<And>d. dv_DeviceID (f d) = dv_DeviceID d \<and> dv_UserID (f d) = dv_UserID d \<and> dv_DeletedAt (f d) = dv_DeletedAt d"
  shows "dev_inv (snd (update_live ok deviceID f s))"
  using assms by (auto simp: update_live_def split: option.split intro: dev_inv_update)

lemmas column_updates = SetOnline_def SetOffline_def UpdateLastSeen_def UpdateVersion_def

lemma column_updates_inv:
  assumes "dev_inv s"
  shows "dev_inv (snd (SetOnline ok now d s))" "dev_inv (snd (SetOffline ok now d s))" "dev_inv (snd (UpdateLastSeen ok now d s))"
    "dev_inv (snd (UpdateVersion ok now d v s))"
  unfolding column_updates by (rule update_live_inv[OF assms]; simp)+

lemma update_device_inv: "dev_inv s \<Longrightarrow> dev_inv (snd (UpdateDevice ok now d u req s))"
  by (auto simp: UpdateDevice_def apply_device_updates_def split: sum.split option.split intro: dev_inv_update)

lemma rotate_inv: "dev_inv s \<Longrightarrow> dev_inv (snd (RotateToken ok env d u s))"
  by (auto simp: RotateToken_def split: sum.split option.split intro: dev_inv_update)

lemma mark_stale_inv: "dev_inv s \<Longrightarrow> dev_inv (snd (mark_stale ok now checkBound i ds n s))"
proof (induction ds arbitrary: i n s)
  case (Cons d ds)
  have "dev_inv (snd (SetOffline (ok (Suc i)) now (dv_DeviceID d) s))" using Cons.prems by (rule column_updates_inv)
  then show ?case using Cons by (auto split: prod.split option.split)
qed simp

lemma fingerprint_inv: "dev_inv s \<Longrightarrow> dev_inv (UpdateLegacyFingerprint ok env d u l s)"
proof -
  assume i: "dev_inv s"
  have "dev_inv (recordMigration ok' env l d u s)" for ok'
    by (rule dev_inv_step[OF i, where v = "[]" and e = "[]"]) (use i in \<open>auto simp: sub_cache_record dev_inv_def colon_free_def\<close>)
  then show ?thesis using i by (simp add: UpdateLegacyFingerprint_def)
qed

lemma store_inv:
  assumes i: "dev_inv s" and u: "colon_free u" and o: "valid \<Longrightarrow> owns d u (ds_devices s)"
  shows "dev_inv (cache_Store d u valid now s)"
  using assms by (auto simp: dev_inv_def cache_Store_def map_of_update)

lemma miss_inv: "dev_inv s \<Longrightarrow> colon_free u \<Longrightarrow> dev_inv (snd (verify_miss ok now d u s))"
proof (cases "GetDevice ok d u s")
  case (Inr r)
  then have "owns d u (ds_devices s)" using GetDeviceD[OF Inr] by (auto simp: owns_def)
  then show "dev_inv s \<Longrightarrow> colon_free u \<Longrightarrow> ?thesis" using Inr by (simp add: verify_miss_def store_inv)
qed (simp add: verify_miss_def store_inv)

lemma cache_Delete_inv: "dev_inv s \<Longrightarrow> dev_inv (cache_Delete d u s)"
  by (rule dev_inv_step[where v = "[]" and e = "[]"]) (auto simp: sub_cache_Delete dev_inv_def colon_free_def)

lemma verify_inv: "dev_inv s \<Longrightarrow> colon_free u \<Longrightarrow> dev_inv (snd (VerifyDeviceOwnership ok now d u s))"
  by (auto simp: VerifyDeviceOwnership_def miss_inv cache_Delete_inv split: option.split)

lemma miss_sound: "fst (verify_miss ok now d u s) = Inr r \<Longrightarrow> owns d u (ds_devices s)"
  by (auto simp: verify_miss_def owns_def dest: GetDeviceD split: sum.splits)

lemma verify_sound:
  assumes i: "dev_inv s" and u: "colon_free u" and v: "fst (VerifyDeviceOwnership ok now d u s) = Inr r"
  shows "owns d u (ds_devices s)"
proof (cases "map_of (ds_cache s) (cache_key d u)")
  case None
  then show ?thesis using v miss_sound by (simp add: VerifyDeviceOwnership_def)
next
  case (Some e)
  show ?thesis
  proof (cases "now < oe_expires e")
    case True
    then have "oe_valid e" using v Some by (auto simp: VerifyDeviceOwnership_def split: if_splits)
    then obtain d' u' where "cache_key d u = cache_key d' u'" "colon_free u'" "owns d' u' (ds_devices s)"
      using i Some unfolding dev_inv_def by blast
    then show ?thesis using cache_key_inject[OF u] by blast
  next
    case False
    then have "fst (verify_miss ok now d u (cache_Delete d u s)) = Inr r" using v Some by (simp add: VerifyDeviceOwnership_def)
    from miss_sound[OF this] show ?thesis by simp
  qed
qed

section \<open>Histories\<close>

text \<open>The operations of the service in any order, by any users, with any failures; the table of users changes on its own.\<close>

inductive dev_step :: "device_state \<Rightarrow> device_state \<Rightarrow> bool" where
  register: "colon_free u \<Longrightarrow> dev_step s (snd (RegisterDevice ok env u req s))"
| fingerprint: "dev_step s (UpdateLegacyFingerprint ok env d u l s)"
| update: "dev_step s (snd (UpdateDevice ok now d u ureq s))"
| delete: "dev_step s (snd (DeleteDevice ok now d u s))"
| rotate: "dev_step s (snd (RotateToken ok env d u s))"
| verify: "colon_free u \<Longrightarrow> dev_step s (snd (VerifyDeviceOwnership b now d u s))"
| online: "dev_step s (snd (SetOnline b now d s))"
| offline: "dev_step s (snd (SetOffline b now d s))"
| seen: "dev_step s (snd (UpdateLastSeen b now d s))"
| version: "dev_step s (snd (UpdateVersion b now d v s))"
| stale: "dev_step s (snd (MarkStaleDevicesOffline ok now checkBound s))"
| users: "dev_step s (s\<lparr>ds_users := us\<rparr>)"

inductive dev_reach :: "device_state \<Rightarrow> bool" where
  start: "dev_reach \<lparr>ds_devices = [], ds_migrations = [], ds_users = us, ds_cache = []\<rparr>"
| step: "dev_reach s \<Longrightarrow> dev_step s s' \<Longrightarrow> dev_reach s'"

lemma step_inv: "dev_step s s' \<Longrightarrow> dev_inv s \<Longrightarrow> dev_inv s'"
proof (induction rule: dev_step.induct)
  case (stale s ok now checkBound)
  then show ?case by (simp add: MarkStaleDevicesOffline_def mark_stale_inv)
next
  case (users s us)
  then show ?case by (simp add: dev_inv_def)
qed (simp_all add: register_inv fingerprint_inv update_device_inv delete_inv rotate_inv verify_inv column_updates_inv)

lemma reach_inv: "dev_reach s \<Longrightarrow> dev_inv s"
proof (induction rule: dev_reach.induct)
  case (start us)
  show ?case by (simp add: dev_inv_def unique_rows_def)
next
  case (step s s')
  then show ?case by (blast intro: step_inv)
qed

section \<open>Overlapping operations\<close>

text \<open>
  No lock is held between the statements of an operation, nor between its statements and the cache.  A check that misses the cache asks
  the table at one moment and stores the answer at a later one; every other operation only changes the tables and drops entries of the
  cache, one statement or one entry at a time.  The queries that were answered and the answers that were stored are kept with their times.
\<close>

record ownership_query =
  oq_device :: string
  oq_user :: string
  oq_found :: bool
  oq_at :: int
  oq_rows :: "Device list"

record overlap =
  ov_now :: int
  ov_state :: device_state
  ov_queries :: "ownership_query list"
  ov_stores :: "(ownership_query \<times> int) list"

definition ownership_query :: "bool \<Rightarrow> string \<Rightarrow> string \<Rightarrow> overlap \<Rightarrow> ownership_query" where
  "ownership_query ok d u x =
     \<lparr>oq_device = d, oq_user = u, oq_found = (case GetDevice ok d u (ov_state x) of Inl _ \<Rightarrow> False | Inr _ \<Rightarrow> True),
      oq_at = ov_now x, oq_rows = ds_devices (ov_state x)\<rparr>"

inductive ov_step :: "overlap \<Rightarrow> overlap \<Rightarrow> bool" where
  clock: "ov_now x \<le> t \<Longrightarrow> ov_step x (x\<lparr>ov_now := t\<rparr>)"
| query: "colon_free u \<Longrightarrow> ov_step x (x\<lparr>ov_queries := ownership_query ok d u x # ov_queries x\<rparr>)"
| store: "q \<in> set (ov_queries x) \<Longrightarrow>
    ov_step x (x\<lparr>ov_state := cache_Store (oq_device q) (oq_user q) (oq_found q) (ov_now x) (ov_state x), ov_stores := (q, ov_now x) # ov_stores x\<rparr>)"
| other: "sub_cache s (ov_state x) \<Longrightarrow> ov_step x (x\<lparr>ov_state := s\<rparr>)"

inductive ov_reach :: "overlap \<Rightarrow> bool" where
  start: "ds_cache s = [] \<Longrightarrow> ov_reach \<lparr>ov_now = t, ov_state = s, ov_queries = [], ov_stores = []\<rparr>"
| step: "ov_reach x \<Longrightarrow> ov_step x y \<Longrightarrow> ov_reach y"

text \<open>The operations of the service, whole, are among these steps: a check that misses is a query and a store, the others gain no entry.\<close>

lemma verify_miss_overlap: "snd (verify_miss ok (ov_now x) d u (ov_state x)) =
    cache_Store d u (oq_found (ownership_query ok d u x)) (ov_now x) (ov_state x)"
  by (simp add: verify_miss_def ownership_query_def split: sum.split)

lemma operations_overlap:
  "sub_cache (snd (DeleteDevice ok now d u s)) s" "sub_cache (snd (UpdateDevice ok now d u ureq s)) s" "sub_cache (snd (RotateToken ok env d u s)) s"
  "sub_cache (UpdateLegacyFingerprint ok env d u l s) s"
  "unique_rows (ds_devices s) \<Longrightarrow> sub_cache (snd (RegisterDevice ok env u req s)) s"
proof -
  have drop: "sub_cache ((cache_Delete d u s)\<lparr>ds_devices := rows\<rparr>) s" for rows
    using sub_cache_Delete[of s s d u] by (simp add: sub_cache_def)
  show "sub_cache (snd (DeleteDevice ok now d u s)) s"
    by (auto simp: DeleteDevice_def delete_row_def Let_def drop sub_cache_Delete split: sum.split option.split)
  show "sub_cache (snd (RegisterDevice ok env u req s)) s" if "unique_rows (ds_devices s)"
    using RegisterDevice_effect[OF that, of ok env u req] by (auto simp: reg_effect_def kept_def)
qed (auto simp: UpdateDevice_def RotateToken_def UpdateLegacyFingerprint_def sub_cache_record split: sum.split option.split)

definition ov_inv :: "overlap \<Rightarrow> bool" where
  "ov_inv x \<longleftrightarrow>
     (\<forall>q \<in> set (ov_queries x). colon_free (oq_user q) \<and> oq_at q \<le> ov_now x \<and> (oq_found q \<longrightarrow> owns (oq_device q) (oq_user q) (oq_rows q)))
   \<and> (\<forall>(q, t) \<in> set (ov_stores x). q \<in> set (ov_queries x) \<and> oq_at q \<le> t \<and> t \<le> ov_now x)
   \<and> (\<forall>k e. map_of (ds_cache (ov_state x)) k = Some e \<and> oe_valid e \<longrightarrow>
        (\<exists>(q, t) \<in> set (ov_stores x). k = cache_key (oq_device q) (oq_user q) \<and> oq_found q \<and> oe_expires e = t + ownershipCacheTTL))"

lemma ov_step_inv: "ov_step x y \<Longrightarrow> ov_inv x \<Longrightarrow> ov_inv y"
proof (induction rule: ov_step.induct)
  case (clock x t)
  then show ?case unfolding ov_inv_def by fastforce
next
  case (query u x ok d)
  have "oq_found (ownership_query ok d u x) \<longrightarrow> owns d u (ds_devices (ov_state x))"
    by (auto simp: ownership_query_def owns_def dest: GetDeviceD split: sum.splits)
  then have "colon_free (oq_user (ownership_query ok d u x)) \<and> oq_at (ownership_query ok d u x) \<le> ov_now x \<and>
      (oq_found (ownership_query ok d u x) \<longrightarrow> owns (oq_device (ownership_query ok d u x)) (oq_user (ownership_query ok d u x)) (oq_rows (ownership_query ok d u x)))"
    using query(1) by (simp add: ownership_query_def)
  then show ?case using query(2) unfolding ov_inv_def by fastforce
next
  case (store q x)
  have "\<exists>(p, t) \<in> set ((q, ov_now x) # ov_stores x). k = cache_key (oq_device p) (oq_user p) \<and> oq_found p \<and> oe_expires e = t + ownershipCacheTTL"
    if k: "map_of (ds_cache (cache_Store (oq_device q) (oq_user q) (oq_found q) (ov_now x) (ov_state x))) k = Some e" "oe_valid e" for k e
  proof (cases "k = cache_key (oq_device q) (oq_user q)")
    case True
    then have "e = \<lparr>oe_valid = oq_found q, oe_expires = ov_now x + ownershipCacheTTL\<rparr>" using k(1) by (simp add: cache_Store_def map_of_update)
    then show ?thesis using True k(2) by auto
  next
    case False
    then have "map_of (ds_cache (ov_state x)) k = Some e" using k(1) by (simp add: cache_Store_def map_of_update)
    then show ?thesis using store(2) k(2) unfolding ov_inv_def by fastforce
  qed
  then show ?case using store unfolding ov_inv_def by auto
next
  case (other s x)
  then show ?case unfolding ov_inv_def sub_cache_def by fastforce
qed

lemma ov_reach_inv: "ov_reach x \<Longrightarrow> ov_inv x"
proof (induction rule: ov_reach.induct)
  case (start s t)
  then show ?case by (simp add: ov_inv_def)
next
  case (step x y)
  then show ?case by (blast intro: ov_step_inv)
qed

text \<open>A positive answer is true now, or a check saw it to be true and stored it within the time to live.\<close>

definition stored_answer :: "string \<Rightarrow> string \<Rightarrow> overlap \<Rightarrow> bool" where
  "stored_answer d u x \<longleftrightarrow> (\<exists>(q, t) \<in> set (ov_stores x). oq_device q = d \<and> oq_user q = u \<and> owns d u (oq_rows q) \<and> oq_at q \<le> t \<and> t \<le> ov_now x
     \<and> ov_now x < t + ownershipCacheTTL)"

lemma verify_overlap:
  assumes i: "ov_inv x" and u: "colon_free u" and v: "fst (VerifyDeviceOwnership ok (ov_now x) d u (ov_state x)) = Inr r"
  shows "owns d u (ds_devices (ov_state x)) \<or> stored_answer d u x"
proof (cases "map_of (ds_cache (ov_state x)) (cache_key d u)")
  case None
  then show ?thesis using v miss_sound by (simp add: VerifyDeviceOwnership_def)
next
  case (Some e)
  show ?thesis
  proof (cases "ov_now x < oe_expires e")
    case True
    then have "oe_valid e" using v Some by (auto simp: VerifyDeviceOwnership_def split: if_splits)
    then obtain q t where q: "(q, t) \<in> set (ov_stores x)" "cache_key d u = cache_key (oq_device q) (oq_user q)" "oq_found q"
        "oe_expires e = t + ownershipCacheTTL"
      using i Some unfolding ov_inv_def by blast
    have p: "q \<in> set (ov_queries x)" "oq_at q \<le> t" "t \<le> ov_now x" using i q(1) unfolding ov_inv_def by auto
    then have "colon_free (oq_user q)" "owns (oq_device q) (oq_user q) (oq_rows q)" using i q(3) unfolding ov_inv_def by auto
    moreover from this(1) have "d = oq_device q" "u = oq_user q" using cache_key_inject[OF u _ q(2)] by blast+
    ultimately show ?thesis using q p True unfolding stored_answer_def by auto
  next
    case False
    then have "fst (verify_miss ok (ov_now x) d u (cache_Delete d u (ov_state x))) = Inr r" using v Some by (simp add: VerifyDeviceOwnership_def)
    from miss_sound[OF this] show ?thesis by simp
  qed
qed

section \<open>The loop over stale devices\<close>

definition off :: "int \<Rightarrow> Device \<Rightarrow> Device" where
  "off now d = d\<lparr>dv_Status := ''offline'', dv_UpdatedAt := now\<rparr>"

definition off_where :: "int \<Rightarrow> string set \<Rightarrow> Device list \<Rightarrow> Device list" where
  "off_where now D rows = map (\<lambda>d. if live d \<and> dv_DeviceID d \<in> D then off now d else d) rows"

lemma off_simps [simp]:
  "dv_ID (off now d) = dv_ID d" "dv_DeviceID (off now d) = dv_DeviceID d" "dv_Token (off now d) = dv_Token d" "live (off now d) = live d"
  "off now (off now d) = off now d"
  by (simp_all add: off_def live_def)

lemma off_where_keys:
  "map dv_ID (off_where now D rows) = map dv_ID rows" "map dv_DeviceID (off_where now D rows) = map dv_DeviceID rows"
  "map dv_Token (off_where now D rows) = map dv_Token rows"
  by (induction rows) (auto simp: off_where_def)

lemma off_where_twice: "off_where now D (off_where now E rows) = off_where now (E \<union> D) rows"
  by (induction rows) (auto simp: off_where_def)

lemma SetOffline_ok:
  assumes "unique_rows (ds_devices s)"
  shows "SetOffline True now d s = (None, s\<lparr>ds_devices := off_where now {d} (ds_devices s)\<rparr>)"
proof -
  have "off_where now {d} (ds_devices s) =
      map (\<lambda>r. if live r \<and> dv_DeviceID r = d then r\<lparr>dv_Status := ''offline'', dv_UpdatedAt := now\<rparr> else r) (ds_devices s)"
    by (simp add: off_where_def off_def)
  then show ?thesis using assms
    by (simp add: SetOffline_def update_live_def Updates_def Let_def unique_rows_def flip: off_where_keys(1-3)[of now "{d}" "ds_devices s"])
qed

lemma mark_stale_rows:
  assumes "\<And>i. ok i" "unique_rows (ds_devices s)"
  shows "mark_stale ok now checkBound i ds n s =
    (n + length (filter (\<lambda>d. \<not> checkBound (dv_DeviceID d)) ds),
     s\<lparr>ds_devices := off_where now (dv_DeviceID ` set (filter (\<lambda>d. \<not> checkBound (dv_DeviceID d)) ds)) (ds_devices s)\<rparr>)"
  using assms(2)
proof (induction ds arbitrary: i n s)
  case Nil
  have "off_where now {} rows = rows" for rows by (simp add: off_where_def)
  then show ?case by simp
next
  case (Cons d ds)
  show ?case
  proof (cases "checkBound (dv_DeviceID d)")
    case True
    then show ?thesis using Cons.IH[OF Cons.prems] by simp
  next
    case False
    let ?s = "s\<lparr>ds_devices := off_where now {dv_DeviceID d} (ds_devices s)\<rparr>"
    have "unique_rows (ds_devices ?s)" using Cons.prems by (simp add: unique_rows_def off_where_keys)
    from Cons.IH[OF this] show ?thesis using False assms(1) SetOffline_ok[OF Cons.prems] by (simp add: off_where_twice)
  qed
qed

lemma stale_rows:
  assumes u: "unique_rows rows"
  shows "off_where now (dv_DeviceID ` set (filter (\<lambda>d. \<not> checkBound (dv_DeviceID d)) (filter (\<lambda>d. live d \<and> dv_Status d = ''online'') rows))) rows =
    map (\<lambda>d. if live d \<and> dv_Status d = ''online'' \<and> \<not> checkBound (dv_DeviceID d) then off now d else d) rows"
  unfolding off_where_def
proof (intro map_cong refl if_cong)
  fix d
  assume "d \<in> set rows"
  then show "(live d \<and> dv_DeviceID d \<in> dv_DeviceID ` set (filter (\<lambda>d. \<not> checkBound (dv_DeviceID d)) (filter (\<lambda>d. live d \<and> dv_Status d = ''online'') rows))) =
      (live d \<and> dv_Status d = ''online'' \<and> \<not> checkBound (dv_DeviceID d))"
    using unique_rowsD(2)[OF u] by auto
qed

section \<open>A small table\<close>

definition demo_req :: "string \<Rightarrow> string \<Rightarrow> RegisterDeviceRequest" where
  "demo_req d l = \<lparr>rq_DeviceID = d, rq_LegacyDeviceID = l, rq_DisplayName = ''pc'', rq_Platform = ''linux'', rq_Version = ''1'',
     rq_ConfirmRecovery = False, rq_ForceNew = False\<rparr>"

definition demo_env :: "string \<Rightarrow> int \<Rightarrow> device_env" where
  "demo_env x now = \<lparr>ev_ID = ''id'' @ x, ev_migrationID = ''m'' @ x, ev_token = Some (''t'' @ x), ev_now = now\<rparr>"

definition demo_start :: device_state where
  "demo_start = \<lparr>ds_devices = [], ds_migrations = [], ds_users = [''ann'', ''bob''], ds_cache = []\<rparr>"

definition demo_ann :: device_state where
  "demo_ann = snd (RegisterDevice (\<lambda>_. True) (demo_env ''1'' 1) ''ann'' (demo_req ''d'' []) demo_start)"

definition demo_checked :: device_state where
  "demo_checked = snd (VerifyDeviceOwnership True 2 ''d'' ''ann'' demo_ann)"

definition demo_moved :: "register_result \<times> device_state" where
  "demo_moved = RegisterDevice (\<lambda>_. True) (demo_env ''2'' 3) ''ann'' (demo_req ''e'' ''d'') demo_checked"

definition demo_bob :: "register_result \<times> device_state" where
  "demo_bob = RegisterDevice (\<lambda>_. True) (demo_env ''3'' 4) ''bob'' (demo_req ''f'' ''e'') (snd demo_moved)"

lemma demo_reach_ann: "dev_reach demo_checked"
  unfolding demo_checked_def demo_ann_def
  by (intro dev_reach.step[OF _ dev_step.verify] dev_reach.step[OF _ dev_step.register])
    (simp_all add: demo_start_def dev_reach.start colon_free_def)

lemma demo_reach_moved: "dev_reach (snd demo_moved)"
  unfolding demo_moved_def by (intro dev_reach.step[OF demo_reach_ann dev_step.register]) (simp add: colon_free_def)

section \<open>What can go wrong\<close>

text \<open>The existence of the owner is decided by a count whose error is ignored: if it fails, the device of a user who exists is handed over.\<close>

lemma takeover_on_failed_count:
  "(let s' = snd (RegisterDevice (\<lambda>n. n \<noteq> 6) (demo_env ''9'' 5) ''bob'' (demo_req ''d'' []) demo_ann)
    in ''ann'' \<in> set (ds_users demo_ann) \<and> owns ''d'' ''ann'' (ds_devices demo_ann) \<and> \<not> owns ''d'' ''ann'' (ds_devices s') \<and> owns ''d'' ''bob'' (ds_devices s'))"
  by code_simp

text \<open>A registration does not drop the negative entry of its owner: his device is refused until the entry expires.\<close>

lemma refused_after_registration:
  "(let s1 = snd (VerifyDeviceOwnership True 1 ''d'' ''ann'' demo_start);
        s2 = snd (RegisterDevice (\<lambda>_. True) (demo_env ''1'' 2) ''ann'' (demo_req ''d'' []) s1)
    in owns ''d'' ''ann'' (ds_devices s2) \<and> fst (VerifyDeviceOwnership True 3 ''d'' ''ann'' s2) = Inl ErrDeviceNotFound)"
  by code_simp

text \<open>A failed query is remembered like a refusal.\<close>

lemma refused_after_failed_query:
  "(let s1 = snd (VerifyDeviceOwnership False 2 ''d'' ''ann'' demo_ann)
    in owns ''d'' ''ann'' (ds_devices s1) \<and> fst (VerifyDeviceOwnership True 3 ''d'' ''ann'' s1) = Inl ErrDeviceNotFound)"
  by code_simp

text \<open>
  A check that falls between the two halves of a deletion stores the ownership again: the deleted device passes the check until the entry
  expires.
\<close>

lemma deleted_device_passes:
  "(let s1 = cache_Delete ''d'' ''ann'' demo_checked;
        s2 = snd (VerifyDeviceOwnership True 3 ''d'' ''ann'' s1);
        s3 = snd (delete_row True 4 (hd (ds_devices s2)) s2)
    in fst (DeleteDevice (\<lambda>_. True) 4 ''d'' ''ann'' demo_checked) = None \<and> \<not> owns ''d'' ''ann'' (ds_devices s3)
       \<and> fst (VerifyDeviceOwnership True 5 ''d'' ''ann'' s3) = Inr (minimal_device ''d'' ''ann''))"
  by code_simp

text \<open>The start of the service, a query for the device of \<open>demo_ann\<close>, its answer stored a second later, and then the row gone.\<close>

definition demo_overlap :: overlap where
  "demo_overlap =
     (let x = \<lparr>ov_now = 1, ov_state = demo_ann, ov_queries = [], ov_stores = []\<rparr>;
          q = ownership_query True ''d'' ''ann'' x
      in \<lparr>ov_now = 2, ov_state = (cache_Store ''d'' ''ann'' True 2 demo_ann)\<lparr>ds_devices := []\<rparr>, ov_queries = [q], ov_stores = [(q, 2)]\<rparr>)"

lemma demo_overlap_reach: "ov_reach demo_overlap"
proof -
  let ?x = "\<lparr>ov_now = 1, ov_state = demo_ann, ov_queries = [], ov_stores = []\<rparr>"
  let ?q = "ownership_query True ''d'' ''ann'' ?x"
  have "ds_cache demo_ann = []" by code_simp
  then have "ov_reach ?x" by (rule ov_reach.start)
  moreover have "colon_free ''ann''" by code_simp
  ultimately have "ov_reach (?x\<lparr>ov_queries := [?q]\<rparr>)" using ov_reach.step[OF _ ov_step.query, of ?x "''ann''" True "''d''"] by simp
  from ov_reach.step[OF this ov_step.clock, of 2] have "ov_reach (?x\<lparr>ov_queries := [?q], ov_now := 2\<rparr>)" by simp
  from ov_reach.step[OF this ov_step.store, of ?q]
  have "ov_reach (?x\<lparr>ov_queries := [?q], ov_now := 2, ov_state := cache_Store (oq_device ?q) (oq_user ?q) (oq_found ?q) 2 demo_ann, ov_stores := [(?q, 2)]\<rparr>)"
    by simp
  moreover have "oq_device ?q = ''d''" "oq_user ?q = ''ann''" "oq_found ?q" by code_simp+
  ultimately have "ov_reach (?x\<lparr>ov_queries := [?q], ov_now := 2, ov_state := cache_Store ''d'' ''ann'' True 2 demo_ann, ov_stores := [(?q, 2)]\<rparr>)"
    by simp
  from ov_reach.step[OF this ov_step.other, of "(cache_Store ''d'' ''ann'' True 2 demo_ann)\<lparr>ds_devices := []\<rparr>"] show ?thesis
    by (simp add: demo_overlap_def Let_def)
qed

section \<open>Properties\<close>

text \<open>
  C32. The ownership check is sound, for user identifiers without a colon, the separator of the keys of the cache.  When the operations do
  not overlap, whatever was registered, moved to a new fingerprint, handed over, deleted, checked and cached before, and whatever statements
  failed, a user for whom the check succeeds, from the cache or from the table, owns the device at that moment.  When the statements of
  operations interleave in any way, a user for whom it succeeds owns the device at that moment, or a check whose query saw that he owned it
  stored this answer less than 30 seconds ago.
\<close>

theorem VerifyDeviceOwnership_sound:
  assumes "colon_free u"
  shows "(dev_reach s \<and> fst (VerifyDeviceOwnership ok now d u s) = Inr r \<longrightarrow> owns d u (ds_devices s)) \<and>
    (ov_reach x \<and> fst (VerifyDeviceOwnership ok (ov_now x) d u (ov_state x)) = Inr r \<longrightarrow>
      owns d u (ds_devices (ov_state x)) \<or>
      (\<exists>(q, t) \<in> set (ov_stores x). oq_device q = d \<and> oq_user q = u \<and> owns d u (oq_rows q) \<and> oq_at q \<le> t \<and> t \<le> ov_now x
         \<and> ov_now x < t + ownershipCacheTTL))"
  using verify_sound[OF reach_inv assms] verify_overlap[OF ov_reach_inv assms] unfolding stored_answer_def by blast

theorem VerifyDeviceOwnership_sound_witness:
  "owns ''d'' ''ann'' (ds_devices demo_checked)
    \<and> map_of (ds_cache demo_checked) (cache_key ''d'' ''ann'') \<noteq> None
    \<and> fst (VerifyDeviceOwnership True 4 ''d'' ''ann'' (snd demo_moved)) = Inl ErrDeviceNotFound
    \<and> \<not> owns ''d'' ''ann'' (ds_devices (ov_state demo_overlap))
    \<and> (\<exists>(q, t) \<in> set (ov_stores demo_overlap). owns ''d'' ''ann'' (oq_rows q) \<and> ov_now demo_overlap < t + ownershipCacheTTL)"
proof -
  have u: "colon_free ''ann''" by code_simp
  have "fst (VerifyDeviceOwnership True 3 ''d'' ''ann'' demo_checked) = Inr (minimal_device ''d'' ''ann'')" by code_simp
  then have own: "owns ''d'' ''ann'' (ds_devices demo_checked)" using VerifyDeviceOwnership_sound[OF u] demo_reach_ann by blast
  have n: "ov_now demo_overlap = 2" "\<not> owns ''d'' ''ann'' (ds_devices (ov_state demo_overlap))" by code_simp+
  have "fst (VerifyDeviceOwnership True 2 ''d'' ''ann'' (ov_state demo_overlap)) = Inr (minimal_device ''d'' ''ann'')" by code_simp
  then have "\<exists>(q, t) \<in> set (ov_stores demo_overlap). owns ''d'' ''ann'' (oq_rows q) \<and> ov_now demo_overlap < t + ownershipCacheTTL"
    using conjunct2[OF VerifyDeviceOwnership_sound[OF u, where x = demo_overlap and ok = True and d = "''d''" and r = "minimal_device ''d'' ''ann''"]]
      demo_overlap_reach n by fastforce
  moreover have "map_of (ds_cache demo_checked) (cache_key ''d'' ''ann'') \<noteq> None" by code_simp
  moreover have "fst (VerifyDeviceOwnership True 4 ''d'' ''ann'' (snd demo_moved)) = Inl ErrDeviceNotFound" by code_simp
  ultimately show ?thesis using own n(2) by blast
qed

text \<open>
  C33. Nobody loses a device to another one.  When a user registers a device, under any fingerprint, legacy fingerprint and recovery
  choice, every device in use that belongs to another user whom the table of users knows keeps its row as it is, as long as the query
  for that user is answered.
\<close>

theorem RegisterDevice_protects:
  assumes reach: "dev_reach s" and ok: "ok 6" and r: "r \<in> set (ds_devices s)" "live r" "dv_UserID r \<noteq> u" "dv_UserID r \<in> set (ds_users s)"
  shows "r \<in> set (ds_devices (snd (RegisterDevice ok env u req s)))"
proof -
  have e: "userExists (ok 6) (dv_UserID r) s" using ok r(4) by (auto simp: userExists_def filter_empty_conv)
  have "reg_effect ok env u req s (RegisterDevice ok env u req s)"
    using RegisterDevice_effect dev_inv_unique[OF reach_inv[OF reach]] by blast
  then show ?thesis
    using r e by (auto simp: reg_effect_def kept_def created_def rewritten_def takeable_def)
qed

theorem RegisterDevice_protects_witness:
  "hd (ds_devices (snd demo_moved)) \<in> set (ds_devices (snd demo_bob)) \<and> length (ds_devices (snd demo_bob)) = 2"
proof -
  have r: "hd (ds_devices (snd demo_moved)) \<in> set (ds_devices (snd demo_moved))" "live (hd (ds_devices (snd demo_moved)))"
    "dv_UserID (hd (ds_devices (snd demo_moved))) \<noteq> ''bob''"
    "dv_UserID (hd (ds_devices (snd demo_moved))) \<in> set (ds_users (snd demo_moved))" by code_simp+
  have "length (ds_devices (snd demo_bob)) = 2" by code_simp
  then show ?thesis
    using RegisterDevice_protects[OF demo_reach_moved _ r, where ok = "\<lambda>_. True" and env = "demo_env ''3'' 4" and req = "demo_req ''f'' ''e''"]
    unfolding demo_bob_def by simp
qed

text \<open>
  A registration that succeeds is effective: the token it returns, on whatever way the device was created, restored, moved or handed
  over, authenticates exactly the device that was asked for, in use, offline and owned by the caller.
\<close>

theorem RegisterDevice_roundtrip:
  assumes reach: "dev_reach s" and reg: "RegisterDevice ok env u req s = ((Some d, token, None), s')"
  shows "\<exists>r. VerifyDeviceToken True token s' = Inr r \<and> GetDevice True (rq_DeviceID req) u s' = Inr r
    \<and> dv_DeviceID r = rq_DeviceID req \<and> dv_UserID r = u \<and> dv_Token r = token \<and> live r"
proof -
  have "reg_effect ok env u req s ((Some d, token, None), s')"
    using RegisterDevice_effect[OF dev_inv_unique[OF reach_inv[OF reach]], of ok env u req] reg by simp
  then have e: "unique_rows (ds_devices s')" "created env u req s ((Some d, token, None), s') \<or> rewritten ok env u req s ((Some d, token, None), s')"
    by (auto simp: reg_effect_def kept_def)
  have "\<exists>r \<in> set (ds_devices s'). live r \<and> dv_DeviceID r = rq_DeviceID req \<and> dv_UserID r = u \<and> dv_Token r = token"
    using e(2)
  proof
    assume "created env u req s ((Some d, token, None), s')"
    then show ?thesis by (auto simp: created_def new_device_def live_def)
  next
    assume "rewritten ok env u req s ((Some d, token, None), s')"
    then show ?thesis by (auto simp: rewritten_def)
  qed
  then obtain r where r: "r \<in> set (ds_devices s')" "live r" "dv_DeviceID r = rq_DeviceID req" "dv_UserID r = u" "dv_Token r = token" by blast
  have "First dv_ID (\<lambda>d. live d \<and> dv_Token d = token) (ds_devices s') = Some r"
    using r unique_rowsD(3)[OF e(1)] by (intro First_unique) auto
  moreover have "First dv_ID (\<lambda>d. live d \<and> dv_DeviceID d = rq_DeviceID req \<and> dv_UserID d = u) (ds_devices s') = Some r"
    using r unique_rowsD(2)[OF e(1)] by (intro First_unique) auto
  ultimately show ?thesis using r by (auto simp: VerifyDeviceToken_def GetDevice_def)
qed

theorem RegisterDevice_roundtrip_witness:
  "\<exists>r. VerifyDeviceToken True ''t2'' (snd demo_moved) = Inr r \<and> GetDevice True ''e'' ''ann'' (snd demo_moved) = Inr r
    \<and> VerifyDeviceToken True ''t1'' (snd demo_moved) = Inl ErrDeviceNotFound"
proof -
  have "fst demo_moved = (Some (the (fst (fst demo_moved))), ''t2'', None)" by code_simp
  then have "RegisterDevice (\<lambda>_. True) (demo_env ''2'' 3) ''ann'' (demo_req ''e'' ''d'') demo_checked =
      ((Some (the (fst (fst demo_moved))), ''t2'', None), snd demo_moved)" by (metis demo_moved_def prod.collapse)
  from RegisterDevice_roundtrip[OF demo_reach_ann this] obtain r where
    "VerifyDeviceToken True ''t2'' (snd demo_moved) = Inr r" "GetDevice True ''e'' ''ann'' (snd demo_moved) = Inr r"
    by (auto simp: demo_req_def)
  moreover have "VerifyDeviceToken True ''t1'' (snd demo_moved) = Inl ErrDeviceNotFound" by code_simp
  ultimately show ?thesis by blast
qed

text \<open>
  The check for stale devices is exact: with a working database it counts and marks those devices in use that are online and that the
  registry of gateways does not know, and changes nothing else.
\<close>

theorem MarkStaleDevicesOffline_exact:
  assumes "dev_reach s" and "\<And>n. ok n"
  shows "MarkStaleDevicesOffline ok now checkBound s =
    (Inr (length (filter (\<lambda>d. live d \<and> dv_Status d = ''online'' \<and> \<not> checkBound (dv_DeviceID d)) (ds_devices s))),
     s\<lparr>ds_devices := map (\<lambda>d. if live d \<and> dv_Status d = ''online'' \<and> \<not> checkBound (dv_DeviceID d)
       then d\<lparr>dv_Status := ''offline'', dv_UpdatedAt := now\<rparr> else d) (ds_devices s)\<rparr>)"
proof -
  have u: "unique_rows (ds_devices s)" using dev_inv_unique[OF reach_inv[OF assms(1)]] .
  show ?thesis
    using stale_rows[OF u, of now checkBound] assms(2)
    by (simp add: MarkStaleDevicesOffline_def mark_stale_rows[OF assms(2) u] off_def conj_ac del: filter_filter set_filter)
      (simp add: conj_ac)
qed

end
