(* ===== verification/Workspace_Service.thy ===== *)
theory Workspace_Service
  imports Device_Service
begin

text \<open>
  Workspaces and their directories (\<^verbatim>\<open>server/internal/services/workspace_service.go\<close>, \<^verbatim>\<open>pathutil/workspace_path.go\<close>), over the
  devices of \<^verbatim>\<open>Device_Service\<close>.

  \<open>ok n\<close> says whether the \<open>n\<close>-th statement of an operation succeeds; a transaction that fails leaves the tables.  New identifiers, the
  time and the JSON text of settings are arguments.  Whether the dialect of the database gives an \<^verbatim>\<open>UPDATE\<close> the order and the limit
  it was asked for is the argument \<open>limited\<close>; PostgreSQL does not.
\<close>

section \<open>Paths\<close>

text \<open>\<^verbatim>\<open>filepath.Clean\<close> on a system with slashes: the components with \<^verbatim>\<open>.\<close> and \<^verbatim>\<open>..\<close> resolved, on a stack.\<close>

definition clean_step :: "bool \<Rightarrow> string \<Rightarrow> string list \<Rightarrow> string list" where
  "clean_step rooted c st =
     (if c = [] \<or> c = ''.'' then st
      else if c = ''..'' then
        (case st of
           [] \<Rightarrow> if rooted then [] else [c]
         | t0 # rest \<Rightarrow> if t0 = ''..'' then c # st else rest)
      else c # st)"

definition Clean :: "string \<Rightarrow> string" where
  "Clean path =
     (if path = [] then ''.''
      else
        let rooted = (hd path = CHR ''/'');
            out = (if rooted then ''/'' else []) @ join_with ''/'' (rev (fold (clean_step rooted) (split_on (CHR ''/'') path) []))
        in if out = [] then ''.'' else out)"

definition to_slash :: "string \<Rightarrow> string" where
  "to_slash p = map (\<lambda>c. if c = CHR 0x5C then CHR ''/'' else c) p"

definition NormalizeWorkspacePath :: "string \<Rightarrow> string" where
  "NormalizeWorkspacePath p0 =
     (let p1 = trim_space p0
      in if p1 = [] then []
         else
           let p = to_slash (Clean (to_slash p1))
           in if p = ''/'' then p
              else if length p = 3 \<and> p ! 1 = CHR '':'' \<and> p ! 2 = CHR ''/'' then p
              else trim_suffix p ''/'')"

section \<open>State\<close>

record Workspace =
  ws_ID :: string
  ws_Name :: string
  ws_Description :: string
  ws_UserID :: string
  ws_DeviceID :: string
  ws_IsDefault :: bool
  ws_Status :: string
  ws_Settings :: string
  ws_CreatedAt :: int
  ws_UpdatedAt :: int
  ws_DeletedAt :: "int option"

record WorkspaceDirectory =
  wd_ID :: string
  wd_WorkspaceID :: string
  wd_Name :: string
  wd_Path :: string
  wd_IsDefault :: bool
  wd_OrderIndex :: int
  wd_Settings :: string
  wd_CreatedAt :: int
  wd_UpdatedAt :: int
  wd_DeletedAt :: "int option"

record ws_state =
  st_workspaces :: "Workspace list"
  st_directories :: "WorkspaceDirectory list"

record WorkspaceWithDeviceStatus =
  wx_Workspace :: Workspace
  wx_Directories :: "WorkspaceDirectory list"
  wx_DeviceStatus :: string
  wx_DeviceUniqueID :: string

text \<open>Settings are a nil map or a map, of which the encoder gives the text or an error.\<close>

type_synonym settings = "string option option"

record CreateDirectoryRequest =
  cd_Name :: string
  cd_Path :: string
  cd_IsDefault :: bool
  cd_Settings :: settings

record CreateWorkspaceRequest =
  cw_Name :: string
  cw_Description :: string
  cw_DeviceID :: string
  cw_Directories :: "CreateDirectoryRequest list"
  cw_Settings :: settings

record UpdateWorkspaceRequest =
  uw_Name :: string
  uw_Description :: string
  uw_DeviceID :: string
  uw_Settings :: settings
  uw_Status :: string

datatype workspace_error =
    ErrWorkspaceNotFound
  | ErrWorkspaceNameExists
  | ErrWorkspaceDirectoryRequired
  | ErrWorkspaceDirectoryNotFound
  | DeviceError device_error
  | DuplicatePath nat
  | NoDeviceBound
  | NoDirectories
  | WorkspaceDBError

definition toDatatypesJSON :: "settings \<Rightarrow> string" where
  "toDatatypesJSON m = (case m of Some (Some b) \<Rightarrow> b | _ \<Rightarrow> ''{}'')"

section \<open>The tables\<close>

definition ws_live :: "Workspace \<Rightarrow> bool" where "ws_live w \<longleftrightarrow> ws_DeletedAt w = None"

definition wd_live :: "WorkspaceDirectory \<Rightarrow> bool" where "wd_live d \<longleftrightarrow> wd_DeletedAt d = None"

text \<open>The primary key and the partial unique index on the names of a user.\<close>

definition unique_ws :: "Workspace list \<Rightarrow> bool" where
  "unique_ws rows \<longleftrightarrow> distinct (map ws_ID rows) \<and> distinct (map (\<lambda>w. (ws_UserID w, ws_Name w)) (filter ws_live rows))"

definition user_ws :: "string \<Rightarrow> Workspace list \<Rightarrow> Workspace list" where
  "user_ws userID rows = filter (\<lambda>w. ws_live w \<and> ws_UserID w = userID) rows"

definition first_ws :: "(Workspace \<Rightarrow> bool) \<Rightarrow> ws_state \<Rightarrow> Workspace option" where
  "first_ws P s = First ws_ID (\<lambda>w. ws_live w \<and> P w) (st_workspaces s)"

definition sorted_dirs :: "string \<Rightarrow> ws_state \<Rightarrow> WorkspaceDirectory list" where
  "sorted_dirs workspaceID s = sort_key wd_OrderIndex (filter (\<lambda>d. wd_live d \<and> wd_WorkspaceID d = workspaceID) (st_directories s))"

definition update_ws :: "(Workspace \<Rightarrow> bool) \<Rightarrow> (Workspace \<Rightarrow> Workspace) \<Rightarrow> ws_state \<Rightarrow> ws_state" where
  "update_ws P f s = s\<lparr>st_workspaces := map (\<lambda>w. if ws_live w \<and> P w then f w else w) (st_workspaces s)\<rparr>"

definition update_wd :: "(WorkspaceDirectory \<Rightarrow> bool) \<Rightarrow> (WorkspaceDirectory \<Rightarrow> WorkspaceDirectory) \<Rightarrow> ws_state \<Rightarrow> ws_state" where
  "update_wd P f s = s\<lparr>st_directories := map (\<lambda>d. if wd_live d \<and> P d then f d else d) (st_directories s)\<rparr>"

definition set_ws_default :: "bool \<Rightarrow> int \<Rightarrow> Workspace \<Rightarrow> Workspace" where
  "set_ws_default b now w = w\<lparr>ws_IsDefault := b, ws_UpdatedAt := now\<rparr>"

definition set_wd_default :: "bool \<Rightarrow> int \<Rightarrow> WorkspaceDirectory \<Rightarrow> WorkspaceDirectory" where
  "set_wd_default b now d = d\<lparr>wd_IsDefault := b, wd_UpdatedAt := now\<rparr>"

section \<open>Reading\<close>

text \<open>A workspace with its directories in their order; \<open>P\<close> is the condition of the query.\<close>

definition load_workspace :: "(nat \<Rightarrow> bool) \<Rightarrow> (Workspace \<Rightarrow> bool) \<Rightarrow> ws_state \<Rightarrow> workspace_error + Workspace \<times> WorkspaceDirectory list" where
  "load_workspace ok P s =
     (if \<not> ok 0 then Inl WorkspaceDBError
      else case first_ws P s of
        None \<Rightarrow> Inl ErrWorkspaceNotFound
      | Some w \<Rightarrow> if \<not> ok 1 \<or> \<not> ok 2 then Inl WorkspaceDBError else Inr (w, sorted_dirs (ws_ID w) s))"

definition getWorkspaceModel :: "(nat \<Rightarrow> bool) \<Rightarrow> string \<Rightarrow> string \<Rightarrow> ws_state \<Rightarrow> workspace_error + Workspace \<times> WorkspaceDirectory list" where
  "getWorkspaceModel ok workspaceID userID = load_workspace ok (\<lambda>w. ws_ID w = workspaceID \<and> ws_UserID w = userID)"

text \<open>The device of a workspace; the service of devices is optional.\<close>

definition with_status :: "bool \<Rightarrow> device_state option \<Rightarrow> string \<Rightarrow> Workspace \<times> WorkspaceDirectory list \<Rightarrow> WorkspaceWithDeviceStatus" where
  "with_status ok devs userID wds =
     (let w = fst wds;
          found = (case devs of
             None \<Rightarrow> None
           | Some ds \<Rightarrow> if ws_DeviceID w = [] then None
                        else case GetDeviceByID ok (ws_DeviceID w) userID ds of Inl _ \<Rightarrow> None | Inr d \<Rightarrow> Some d)
      in \<lparr>wx_Workspace = w, wx_Directories = snd wds,
          wx_DeviceStatus = (case found of None \<Rightarrow> [] | Some d \<Rightarrow> dv_Status d),
          wx_DeviceUniqueID = (case found of None \<Rightarrow> [] | Some d \<Rightarrow> dv_DeviceID d)\<rparr>)"

definition GetWorkspace ::
  "(nat \<Rightarrow> bool) \<Rightarrow> device_state option \<Rightarrow> string \<Rightarrow> string \<Rightarrow> ws_state \<Rightarrow> workspace_error + WorkspaceWithDeviceStatus" where
  "GetWorkspace ok devs workspaceID userID s = map_sum id (with_status (ok 3) devs userID) (getWorkspaceModel ok workspaceID userID s)"

definition GetDefaultWorkspace ::
  "(nat \<Rightarrow> bool) \<Rightarrow> device_state option \<Rightarrow> string \<Rightarrow> ws_state \<Rightarrow> workspace_error + WorkspaceWithDeviceStatus" where
  "GetDefaultWorkspace ok devs userID s =
     map_sum id (with_status (ok 3) devs userID) (load_workspace ok (\<lambda>w. ws_UserID w = userID \<and> ws_IsDefault w) s)"

definition GetWorkspaceByDevice ::
  "(nat \<Rightarrow> bool) \<Rightarrow> device_state option \<Rightarrow> string \<Rightarrow> string \<Rightarrow> ws_state \<Rightarrow> workspace_error + WorkspaceWithDeviceStatus" where
  "GetWorkspaceByDevice ok devs deviceID userID s =
     map_sum id (with_status (ok 3) devs userID) (load_workspace ok (\<lambda>w. ws_DeviceID w = deviceID \<and> ws_UserID w = userID) s)"

text \<open>Statements \<open>2 * i + 1\<close> and \<open>2 * i + 2\<close> read the directories and the device of the \<open>i\<close>-th workspace.\<close>

fun list_loop :: "(nat \<Rightarrow> bool) \<Rightarrow> device_state option \<Rightarrow> string \<Rightarrow> nat \<Rightarrow> Workspace list \<Rightarrow> ws_state \<Rightarrow>
    workspace_error + WorkspaceWithDeviceStatus list" where
  "list_loop ok devs userID i [] s = Inr []"
| "list_loop ok devs userID i (w # ws) s =
     (if \<not> ok (2 * i + 1) then Inl WorkspaceDBError
      else map_sum id (Cons (with_status (ok (2 * i + 2)) devs userID (w, sorted_dirs (ws_ID w) s))) (list_loop ok devs userID (Suc i) ws s))"

definition ListWorkspaces ::
  "(nat \<Rightarrow> bool) \<Rightarrow> device_state option \<Rightarrow> string \<Rightarrow> ws_state \<Rightarrow> workspace_error + WorkspaceWithDeviceStatus list" where
  "ListWorkspaces ok devs userID s =
     (if \<not> ok 0 then Inl WorkspaceDBError
      else list_loop ok devs userID 0
             (sort_key (\<lambda>w. if ws_IsDefault w then 0 else 1 :: nat) (sort_key (\<lambda>w. - ws_CreatedAt w) (user_ws userID (st_workspaces s)))) s)"

definition ResolveWorkspaceForGateway :: "(nat \<Rightarrow> bool) \<Rightarrow> string \<Rightarrow> string \<Rightarrow> ws_state \<Rightarrow> workspace_error + string \<times> string" where
  "ResolveWorkspaceForGateway ok workspaceID userID s =
     (if \<not> ok 0 then Inl WorkspaceDBError
      else case first_ws (\<lambda>w. ws_ID w = workspaceID \<and> ws_UserID w = userID) s of
        None \<Rightarrow> Inl ErrWorkspaceNotFound
      | Some w \<Rightarrow>
          if ws_DeviceID w = [] then Inl NoDeviceBound
          else if \<not> ok 1 then Inl WorkspaceDBError
          else case First wd_ID (\<lambda>d. wd_live d \<and> wd_WorkspaceID d = workspaceID \<and> wd_IsDefault d) (st_directories s) of
            Some d \<Rightarrow> Inr (ws_DeviceID w, wd_Path d)
          | None \<Rightarrow>
              if \<not> ok 2 then Inl NoDirectories
              else case find (\<lambda>d. wd_live d \<and> wd_WorkspaceID d = workspaceID) (sort_key wd_OrderIndex (sort_key wd_ID (st_directories s))) of
                Some d \<Rightarrow> Inr (ws_DeviceID w, wd_Path d)
              | None \<Rightarrow> Inl NoDirectories)"

definition ListWorkspaceDevices :: "(nat \<Rightarrow> bool) \<Rightarrow> string \<Rightarrow> string \<Rightarrow> device_state \<Rightarrow> ws_state \<Rightarrow> workspace_error + Device list \<times> nat" where
  "ListWorkspaceDevices ok workspaceID userID devs s =
     (if \<not> ok 0 then Inl WorkspaceDBError
      else case first_ws (\<lambda>w. ws_ID w = workspaceID \<and> ws_UserID w = userID) s of
        None \<Rightarrow> Inr ([], 0)
      | Some w \<Rightarrow>
          if ws_DeviceID w = [] then Inr ([], 0)
          else case GetDeviceByID (ok 1) (ws_DeviceID w) userID devs of
            Inl ErrDeviceNotFound \<Rightarrow> Inr ([], 0)
          | Inl _ \<Rightarrow> Inl WorkspaceDBError
          | Inr d \<Rightarrow> Inr ([d], 1))"

section \<open>Writing\<close>

text \<open>The identifiers of new rows and the time.\<close>

record ws_env =
  we_ID :: string
  we_dirID :: "nat \<Rightarrow> string"
  we_now :: int

text \<open>The check of the requested paths, before they are normalised: the position of the first repetition.\<close>

fun duplicate_path :: "nat \<Rightarrow> string list \<Rightarrow> CreateDirectoryRequest list \<Rightarrow> nat option" where
  "duplicate_path i seen [] = None"
| "duplicate_path i seen (d # ds) =
     (if cd_Path d \<in> set seen then Some (i + 1) else duplicate_path (i + 1) (cd_Path d # seen) ds)"

definition new_dir :: "ws_env \<Rightarrow> string \<Rightarrow> int \<Rightarrow> nat \<Rightarrow> CreateDirectoryRequest \<Rightarrow> WorkspaceDirectory" where
  "new_dir env workspaceID order i req =
     \<lparr>wd_ID = we_dirID env i, wd_WorkspaceID = workspaceID, wd_Name = cd_Name req, wd_Path = NormalizeWorkspacePath (cd_Path req),
      wd_IsDefault = cd_IsDefault req, wd_OrderIndex = order, wd_Settings = toDatatypesJSON (cd_Settings req),
      wd_CreatedAt = we_now env, wd_UpdatedAt = we_now env, wd_DeletedAt = None\<rparr>"

fun new_dirs :: "ws_env \<Rightarrow> string \<Rightarrow> nat \<Rightarrow> CreateDirectoryRequest list \<Rightarrow> WorkspaceDirectory list" where
  "new_dirs env workspaceID i [] = []"
| "new_dirs env workspaceID i (r # rs) = new_dir env workspaceID (int i) i r # new_dirs env workspaceID (Suc i) rs"

definition new_workspace :: "ws_env \<Rightarrow> string \<Rightarrow> bool \<Rightarrow> CreateWorkspaceRequest \<Rightarrow> Workspace" where
  "new_workspace env userID isDefault req =
     \<lparr>ws_ID = we_ID env, ws_Name = cw_Name req, ws_Description = cw_Description req, ws_UserID = userID, ws_DeviceID = cw_DeviceID req,
      ws_IsDefault = isDefault, ws_Status = ''active'', ws_Settings = toDatatypesJSON (cw_Settings req), ws_CreatedAt = we_now env,
      ws_UpdatedAt = we_now env, ws_DeletedAt = None\<rparr>"

text \<open>Without a default among the requested directories the first one becomes it.\<close>

definition default_first :: "CreateDirectoryRequest list \<Rightarrow> WorkspaceDirectory list \<Rightarrow> WorkspaceDirectory list" where
  "default_first reqs dirs =
     (if list_ex cd_IsDefault reqs then dirs
      else map (\<lambda>d. if wd_OrderIndex d = 0 then d\<lparr>wd_IsDefault := True\<rparr> else d) dirs)"

definition verify_device :: "bool \<Rightarrow> device_state option \<Rightarrow> string \<Rightarrow> string \<Rightarrow> device_error option" where
  "verify_device ok devs deviceID userID =
     (case devs of
        None \<Rightarrow> None
      | Some ds \<Rightarrow> if deviceID = [] then None else case GetDeviceByID ok deviceID userID ds of Inl e \<Rightarrow> Some e | Inr _ \<Rightarrow> None)"

text \<open>The transaction: the count, the workspace, a statement per directory, the default and the commit; all of it or nothing.\<close>

definition CreateWorkspace ::
  "(nat \<Rightarrow> bool) \<Rightarrow> ws_env \<Rightarrow> device_state option \<Rightarrow> string \<Rightarrow> CreateWorkspaceRequest \<Rightarrow> ws_state \<Rightarrow>
   (workspace_error + WorkspaceWithDeviceStatus) \<times> ws_state" where
  "CreateWorkspace ok env devs userID req s =
     (if \<not> ok 0 then (Inl WorkspaceDBError, s)
      else if first_ws (\<lambda>w. ws_UserID w = userID \<and> ws_Name w = cw_Name req) s \<noteq> None then (Inl ErrWorkspaceNameExists, s)
      else case verify_device (ok 1) devs (cw_DeviceID req) userID of
        Some e \<Rightarrow> (Inl (DeviceError e), s)
      | None \<Rightarrow>
          (case duplicate_path 0 [] (cw_Directories req) of
             Some i \<Rightarrow> (Inl (DuplicatePath i), s)
           | None \<Rightarrow>
               let w = new_workspace env userID (user_ws userID (st_workspaces s) = []) req;
                   dirs = default_first (cw_Directories req) (new_dirs env (we_ID env) 0 (cw_Directories req))
               in if \<not> ok 2 \<or> \<not> ok 3 then (Inl WorkspaceDBError, s)
                  else if we_ID env \<in> ws_ID ` set (st_workspaces s) \<or> \<not> unique_ws (st_workspaces s @ [w]) then (Inl ErrWorkspaceNameExists, s)
                  else if \<not> list_all (\<lambda>i. ok (10 + i)) [0..<length (cw_Directories req)]
                          \<or> \<not> distinct (map wd_ID (st_directories s @ dirs))
                          \<or> \<not> list_ex cd_IsDefault (cw_Directories req) \<and> cw_Directories req \<noteq> [] \<and> \<not> ok 4
                          \<or> \<not> ok 5 then (Inl WorkspaceDBError, s)
                  else (Inr (with_status (ok 6) devs userID (w, dirs)),
                        s\<lparr>st_workspaces := st_workspaces s @ [w], st_directories := st_directories s @ dirs\<rparr>)))"

definition apply_ws_updates :: "UpdateWorkspaceRequest \<Rightarrow> int \<Rightarrow> Workspace \<Rightarrow> Workspace" where
  "apply_ws_updates req now w =
     w\<lparr>ws_Name := (if uw_Name req \<noteq> [] then uw_Name req else ws_Name w),
       ws_Description := (if uw_Description req \<noteq> [] then uw_Description req else ws_Description w),
       ws_DeviceID := (if uw_DeviceID req \<noteq> [] then uw_DeviceID req else ws_DeviceID w),
       ws_Status := (if uw_Status req \<noteq> [] then uw_Status req else ws_Status w),
       ws_Settings := (case uw_Settings req of None \<Rightarrow> ws_Settings w | Some b \<Rightarrow> (case b of None \<Rightarrow> ws_Settings w | Some t \<Rightarrow> t)),
       ws_UpdatedAt := now\<rparr>"

definition UpdateWorkspace ::
  "(nat \<Rightarrow> bool) \<Rightarrow> int \<Rightarrow> device_state option \<Rightarrow> string \<Rightarrow> string \<Rightarrow> UpdateWorkspaceRequest \<Rightarrow> ws_state \<Rightarrow>
   (workspace_error + WorkspaceWithDeviceStatus) \<times> ws_state" where
  "UpdateWorkspace ok now devs workspaceID userID req s =
     (case getWorkspaceModel ok workspaceID userID s of
        Inl e \<Rightarrow> (Inl e, s)
      | Inr (w, _) \<Rightarrow>
          let renamed = (uw_Name req \<noteq> [] \<and> uw_Name req \<noteq> ws_Name w)
          in if renamed \<and> \<not> ok 3 then (Inl WorkspaceDBError, s)
             else if renamed \<and> first_ws (\<lambda>v. ws_UserID v = userID \<and> ws_Name v = uw_Name req \<and> ws_ID v \<noteq> workspaceID) s \<noteq> None
             then (Inl ErrWorkspaceNameExists, s)
             else if \<not> renamed \<and> uw_Description req = [] \<and> uw_DeviceID req = [] \<and> uw_Status req = [] \<and> uw_Settings req = None
             then (GetWorkspace (\<lambda>n. ok (10 + n)) devs workspaceID userID s, s)
             else
               let s' = update_ws (\<lambda>v. ws_ID v = ws_ID w) (apply_ws_updates req now) s
               in if \<not> ok 4 \<or> uw_Settings req = Some None \<or> \<not> unique_ws (st_workspaces s') then (Inl WorkspaceDBError, s)
                  else (GetWorkspace (\<lambda>n. ok (10 + n)) devs workspaceID userID s', s'))"

definition SetDefaultWorkspace :: "(nat \<Rightarrow> bool) \<Rightarrow> int \<Rightarrow> string \<Rightarrow> string \<Rightarrow> ws_state \<Rightarrow> workspace_error option \<times> ws_state" where
  "SetDefaultWorkspace ok now workspaceID userID s =
     (if \<not> ok 0 \<or> \<not> ok 1 then (Some WorkspaceDBError, s)
      else if filter (\<lambda>w. ws_live w \<and> ws_ID w = workspaceID \<and> ws_UserID w = userID) (st_workspaces s) = [] then (Some ErrWorkspaceNotFound, s)
      else if \<not> ok 2 then (Some WorkspaceDBError, s)
      else (None,
            update_ws (\<lambda>w. ws_ID w = workspaceID \<and> ws_UserID w = userID) (set_ws_default True now)
              (update_ws (\<lambda>w. ws_UserID w = userID) (set_ws_default False now) s)))"

definition delete_workspace_rows :: "int \<Rightarrow> string \<Rightarrow> ws_state \<Rightarrow> ws_state" where
  "delete_workspace_rows now workspaceID s =
     update_ws (\<lambda>w. ws_ID w = workspaceID) (\<lambda>w. w\<lparr>ws_DeletedAt := Some now\<rparr>)
       (update_wd (\<lambda>d. wd_WorkspaceID d = workspaceID) (\<lambda>d. d\<lparr>wd_DeletedAt := Some now\<rparr>) s)"

definition DeleteWorkspace :: "(nat \<Rightarrow> bool) \<Rightarrow> int \<Rightarrow> string \<Rightarrow> string \<Rightarrow> ws_state \<Rightarrow> workspace_error option \<times> ws_state" where
  "DeleteWorkspace ok now workspaceID userID s =
     (case getWorkspaceModel ok workspaceID userID s of
        Inl e \<Rightarrow> (Some e, s)
      | Inr (w, _) \<Rightarrow>
          let other = (if ws_IsDefault w \<and> ok 3
                       then find (\<lambda>v. ws_ID v \<noteq> workspaceID) (sort_key ws_CreatedAt (user_ws userID (st_workspaces s))) else None);
              moved = (case other of None \<Rightarrow> (None, s) | Some v \<Rightarrow> SetDefaultWorkspace (\<lambda>n. ok (10 + n)) now (ws_ID v) userID s)
          in case moved of
               (Some e, s') \<Rightarrow> (Some e, s')
             | (None, s') \<Rightarrow> if \<not> ok 4 then (Some WorkspaceDBError, s') else (None, delete_workspace_rows now workspaceID s'))"

section \<open>Directories\<close>

definition maxOrder :: "WorkspaceDirectory list \<Rightarrow> int" where
  "maxOrder dirs = fold (\<lambda>d m. if wd_OrderIndex d > m then wd_OrderIndex d else m) dirs 0"

definition AddDirectory ::
  "(nat \<Rightarrow> bool) \<Rightarrow> ws_env \<Rightarrow> string \<Rightarrow> string \<Rightarrow> CreateDirectoryRequest \<Rightarrow> ws_state \<Rightarrow> (workspace_error + WorkspaceDirectory) \<times> ws_state" where
  "AddDirectory ok env workspaceID userID req s =
     (case getWorkspaceModel ok workspaceID userID s of
        Inl e \<Rightarrow> (Inl e, s)
      | Inr (w, dirs) \<Rightarrow>
          let d = new_dir env workspaceID (maxOrder dirs + 1) 0 req
          in if cd_IsDefault req \<and> \<not> ok 3 then (Inl WorkspaceDBError, s)
             else
               let s1 = (if cd_IsDefault req then update_wd (\<lambda>d. wd_WorkspaceID d = workspaceID) (set_wd_default False (we_now env)) s else s)
               in if \<not> ok 4 \<or> wd_ID d \<in> wd_ID ` set (st_directories s) then (Inl WorkspaceDBError, s1)
                  else (Inr d, s1\<lparr>st_directories := st_directories s1 @ [d]\<rparr>))"

definition find_dir :: "string \<Rightarrow> string \<Rightarrow> ws_state \<Rightarrow> WorkspaceDirectory option" where
  "find_dir directoryID workspaceID s =
     First wd_ID (\<lambda>d. wd_live d \<and> wd_ID d = directoryID \<and> wd_WorkspaceID d = workspaceID) (st_directories s)"

definition apply_wd_updates :: "CreateDirectoryRequest \<Rightarrow> int \<Rightarrow> WorkspaceDirectory \<Rightarrow> WorkspaceDirectory" where
  "apply_wd_updates req now d =
     d\<lparr>wd_Name := (if cd_Name req \<noteq> [] then cd_Name req else wd_Name d),
       wd_Path := (if cd_Path req \<noteq> [] then NormalizeWorkspacePath (cd_Path req) else wd_Path d),
       wd_Settings := (case cd_Settings req of None \<Rightarrow> wd_Settings d | Some b \<Rightarrow> (case b of None \<Rightarrow> wd_Settings d | Some t \<Rightarrow> t)),
       wd_IsDefault := cd_IsDefault req, wd_UpdatedAt := now\<rparr>"

text \<open>The request has the fields of the request of a new directory.\<close>

definition UpdateDirectory ::
  "(nat \<Rightarrow> bool) \<Rightarrow> int \<Rightarrow> string \<Rightarrow> string \<Rightarrow> string \<Rightarrow> CreateDirectoryRequest \<Rightarrow> ws_state \<Rightarrow>
   (workspace_error + WorkspaceDirectory) \<times> ws_state" where
  "UpdateDirectory ok now workspaceID directoryID userID req s =
     (case getWorkspaceModel ok workspaceID userID s of
        Inl e \<Rightarrow> (Inl e, s)
      | Inr _ \<Rightarrow>
          if \<not> ok 3 then (Inl WorkspaceDBError, s)
          else case find_dir directoryID workspaceID s of
            None \<Rightarrow> (Inl ErrWorkspaceDirectoryNotFound, s)
          | Some d \<Rightarrow>
              let raised = (cd_IsDefault req \<and> \<not> wd_IsDefault d)
              in if raised \<and> \<not> ok 4 then (Inl WorkspaceDBError, s)
                 else
                   let s1 = (if raised then update_wd (\<lambda>e. wd_WorkspaceID e = workspaceID \<and> wd_ID e \<noteq> directoryID) (set_wd_default False now) s else s)
                   in if cd_Name req = [] \<and> cd_Path req = [] \<and> cd_Settings req = None \<and> cd_IsDefault req = wd_IsDefault d then (Inr d, s1)
                      else if \<not> ok 5 \<or> cd_Settings req = Some None then (Inl WorkspaceDBError, s1)
                      else (Inr (apply_wd_updates req now d), update_wd (\<lambda>e. wd_ID e = wd_ID d) (apply_wd_updates req now) s1))"

text \<open>The rows that the promotion of a new default reaches: the first one, or all of them where the limit is not part of the statement.\<close>

definition promoted :: "bool \<Rightarrow> string \<Rightarrow> string \<Rightarrow> ws_state \<Rightarrow> string list" where
  "promoted limited workspaceID directoryID s =
     (let ids = map wd_ID (filter (\<lambda>d. wd_ID d \<noteq> directoryID) (sorted_dirs workspaceID s)) in if limited then take 1 ids else ids)"

definition DeleteDirectory ::
  "bool \<Rightarrow> (nat \<Rightarrow> bool) \<Rightarrow> int \<Rightarrow> string \<Rightarrow> string \<Rightarrow> string \<Rightarrow> ws_state \<Rightarrow> workspace_error option \<times> ws_state" where
  "DeleteDirectory limited ok now workspaceID directoryID userID s =
     (case getWorkspaceModel ok workspaceID userID s of
        Inl e \<Rightarrow> (Some e, s)
      | Inr (w, dirs) \<Rightarrow>
          if length dirs \<le> 1 then (Some ErrWorkspaceDirectoryRequired, s)
          else if \<not> ok 3 then (Some WorkspaceDBError, s)
          else case find_dir directoryID workspaceID s of
            None \<Rightarrow> (Some ErrWorkspaceDirectoryNotFound, s)
          | Some d \<Rightarrow>
              if wd_IsDefault d \<and> \<not> ok 4 then (Some WorkspaceDBError, s)
              else
                let s1 = (if wd_IsDefault d
                          then update_wd (\<lambda>e. wd_ID e \<in> set (promoted limited workspaceID directoryID s)) (set_wd_default True now) s else s)
                in if \<not> ok 5 then (Some WorkspaceDBError, s1)
                   else (None, update_wd (\<lambda>e. wd_ID e = wd_ID d) (\<lambda>e. e\<lparr>wd_DeletedAt := Some now\<rparr>) s1))"

fun reorder :: "int \<Rightarrow> string \<Rightarrow> nat \<Rightarrow> string list \<Rightarrow> ws_state \<Rightarrow> ws_state" where
  "reorder now workspaceID i [] s = s"
| "reorder now workspaceID i (dirID # ids) s =
     reorder now workspaceID (Suc i) ids
       (update_wd (\<lambda>d. wd_ID d = dirID \<and> wd_WorkspaceID d = workspaceID) (\<lambda>d. d\<lparr>wd_OrderIndex := int i, wd_UpdatedAt := now\<rparr>) s)"

definition ReorderDirectories :: "(nat \<Rightarrow> bool) \<Rightarrow> int \<Rightarrow> string \<Rightarrow> string \<Rightarrow> string list \<Rightarrow> ws_state \<Rightarrow> workspace_error option \<times> ws_state" where
  "ReorderDirectories ok now workspaceID userID directoryIDs s =
     (case getWorkspaceModel ok workspaceID userID s of
        Inl e \<Rightarrow> (Some e, s)
      | Inr _ \<Rightarrow>
          if \<not> list_all (\<lambda>i. ok (10 + i)) [0..<length directoryIDs] \<or> \<not> ok 3 then (Some WorkspaceDBError, s)
          else (None, reorder now workspaceID 0 directoryIDs s))"

section \<open>The invariant\<close>

text \<open>
  Identifiers and the names of a user are unique, a user has at most one default workspace, and every workspace has a directory.
\<close>

definition one_default :: "ws_state \<Rightarrow> bool" where
  "one_default s \<longleftrightarrow> (\<forall>v \<in> set (st_workspaces s). \<forall>w \<in> set (st_workspaces s).
     ws_live v \<and> ws_live w \<and> ws_IsDefault v \<and> ws_IsDefault w \<and> ws_UserID v = ws_UserID w \<longrightarrow> v = w)"

definition has_dir :: "ws_state \<Rightarrow> string \<Rightarrow> bool" where
  "has_dir s wid \<longleftrightarrow> (\<exists>d \<in> set (st_directories s). wd_live d \<and> wd_WorkspaceID d = wid)"

definition ws_inv :: "ws_state \<Rightarrow> bool" where
  "ws_inv s \<longleftrightarrow> unique_ws (st_workspaces s) \<and> distinct (map wd_ID (st_directories s)) \<and> one_default s
     \<and> (\<forall>w \<in> set (st_workspaces s). ws_live w \<longrightarrow> has_dir s (ws_ID w))"

definition has_default :: "ws_state \<Rightarrow> bool" where
  "has_default s \<longleftrightarrow> (\<forall>w \<in> set (st_workspaces s). ws_live w \<longrightarrow>
     (\<exists>v \<in> set (st_workspaces s). ws_live v \<and> ws_IsDefault v \<and> ws_UserID v = ws_UserID w))"

text \<open>The rows of other users: their workspaces, and the directories of these.\<close>

definition foreign :: "string \<Rightarrow> ws_state \<Rightarrow> string set" where
  "foreign u s = ws_ID ` {w \<in> set (st_workspaces s). ws_UserID w \<noteq> u}"

definition untouched :: "string \<Rightarrow> ws_state \<Rightarrow> ws_state \<Rightarrow> bool" where
  "untouched u s s' \<longleftrightarrow> filter (\<lambda>w. ws_UserID w \<noteq> u) (st_workspaces s') = filter (\<lambda>w. ws_UserID w \<noteq> u) (st_workspaces s)
     \<and> filter (\<lambda>d. wd_WorkspaceID d \<in> foreign u s) (st_directories s') = filter (\<lambda>d. wd_WorkspaceID d \<in> foreign u s) (st_directories s)"

lemma untouched_refl [simp]: "untouched u s s"
  by (simp add: untouched_def)

lemma foreign_untouched: "untouched u s s' \<Longrightarrow> foreign u s' = foreign u s"
proof -
  assume "untouched u s s'"
  then have "set (filter (\<lambda>w. ws_UserID w \<noteq> u) (st_workspaces s')) = set (filter (\<lambda>w. ws_UserID w \<noteq> u) (st_workspaces s))"
    by (simp only: untouched_def)
  then show ?thesis by (simp add: foreign_def)
qed

lemma untouched_trans: "untouched u s t \<Longrightarrow> untouched u t r \<Longrightarrow> untouched u s r"
  using foreign_untouched[of u s t] by (simp add: untouched_def)

lemma unique_wsD: "unique_ws rows \<Longrightarrow> v \<in> set rows \<Longrightarrow> w \<in> set rows \<Longrightarrow> ws_ID v = ws_ID w \<Longrightarrow> v = w"
  by (auto simp: unique_ws_def distinct_map inj_on_def)

lemma unique_wdD: "ws_inv s \<Longrightarrow> d \<in> set (st_directories s) \<Longrightarrow> e \<in> set (st_directories s) \<Longrightarrow> wd_ID d = wd_ID e \<Longrightarrow> d = e"
  by (auto simp: ws_inv_def distinct_map inj_on_def)

lemma first_wsD: "first_ws P s = Some w \<Longrightarrow> w \<in> set (st_workspaces s) \<and> ws_live w \<and> P w"
  unfolding first_ws_def by (drule First_SomeD) simp

lemma modelD:
  "getWorkspaceModel ok wid u s = Inr (w, dirs) \<Longrightarrow>
     w \<in> set (st_workspaces s) \<and> ws_live w \<and> ws_ID w = wid \<and> ws_UserID w = u \<and> dirs = sorted_dirs wid s"
  by (auto simp: getWorkspaceModel_def load_workspace_def split: if_splits option.splits dest: first_wsD)

lemma owned_not_foreign: "ws_inv s \<Longrightarrow> w \<in> set (st_workspaces s) \<Longrightarrow> ws_UserID w = u \<Longrightarrow> ws_ID w \<notin> foreign u s"
  unfolding ws_inv_def foreign_def using unique_wsD by fastforce

lemma find_dirD: "find_dir did wid s = Some d \<Longrightarrow> d \<in> set (st_directories s) \<and> wd_live d \<and> wd_ID d = did \<and> wd_WorkspaceID d = wid"
  unfolding find_dir_def by (drule First_SomeD) simp

section \<open>Updates of directories\<close>

text \<open>Updates that keep identifiers, workspaces and deletion keep everything that the invariant says.\<close>

definition dir_keys :: "ws_state \<Rightarrow> (string \<times> string \<times> int option) list" where
  "dir_keys s = map (\<lambda>d. (wd_ID d, wd_WorkspaceID d, wd_DeletedAt d)) (st_directories s)"

definition keeps_dir :: "(WorkspaceDirectory \<Rightarrow> WorkspaceDirectory) \<Rightarrow> bool" where
  "keeps_dir f \<longleftrightarrow> (\<forall>d. wd_ID (f d) = wd_ID d \<and> wd_WorkspaceID (f d) = wd_WorkspaceID d \<and> wd_DeletedAt (f d) = wd_DeletedAt d)"

lemma keeps_dir_simps [simp]:
  "keeps_dir (set_wd_default b now)" "keeps_dir (apply_wd_updates req now)" "keeps_dir (\<lambda>d. d\<lparr>wd_OrderIndex := i, wd_UpdatedAt := now\<rparr>)"
  by (simp_all add: keeps_dir_def set_wd_default_def apply_wd_updates_def)

lemma has_dir_keys: "has_dir s wid \<longleftrightarrow> (\<exists>i. (i, wid, None) \<in> set (dir_keys s))"
  unfolding has_dir_def dir_keys_def wd_live_def by force

lemma distinct_keys: "distinct (map wd_ID (st_directories s)) \<longleftrightarrow> distinct (map fst (dir_keys s))"
  by (simp add: dir_keys_def comp_def)

lemma update_wd_workspaces [simp]: "st_workspaces (update_wd P f s) = st_workspaces s"
  by (simp add: update_wd_def)

lemma update_wd_keys: "keeps_dir f \<Longrightarrow> dir_keys (update_wd P f s) = dir_keys s"
  by (simp add: dir_keys_def update_wd_def keeps_dir_def)

lemma inv_cong: "st_workspaces s' = st_workspaces s \<Longrightarrow> dir_keys s' = dir_keys s \<Longrightarrow> ws_inv s' = ws_inv s"
  by (simp add: ws_inv_def one_default_def has_dir_keys distinct_keys)

lemma default_cong: "st_workspaces s' = st_workspaces s \<Longrightarrow> has_default s' = has_default s"
  by (simp add: has_default_def)

lemma update_wd_inv: "keeps_dir f \<Longrightarrow> ws_inv (update_wd P f s) = ws_inv s"
  by (intro inv_cong) (simp_all add: update_wd_keys)

lemma update_wd_untouched:
  assumes "\<And>d. wd_WorkspaceID (f d) = wd_WorkspaceID d" "\<And>d. d \<in> set (st_directories s) \<Longrightarrow> wd_live d \<Longrightarrow> P d \<Longrightarrow> wd_WorkspaceID d \<notin> foreign u s"
  shows "untouched u s (update_wd P f s)"
proof -
  have "filter (\<lambda>d. wd_WorkspaceID d \<in> F) (map (\<lambda>d. if wd_live d \<and> P d then f d else d) ds) = filter (\<lambda>d. wd_WorkspaceID d \<in> F) ds"
    if "\<forall>d \<in> set ds. wd_live d \<and> P d \<longrightarrow> wd_WorkspaceID d \<notin> F" for F ds
    using that assms(1) by (induction ds) auto
  then show ?thesis using assms(2) by (simp add: untouched_def update_wd_def)
qed

lemma keeps_untouched:
  assumes "keeps_dir f" "ws_inv s" "w \<in> set (st_workspaces s)" "ws_UserID w = u"
    "\<And>d. d \<in> set (st_directories s) \<Longrightarrow> P d \<Longrightarrow> wd_WorkspaceID d = ws_ID w"
  shows "untouched u s (update_wd P f s)"
  using assms owned_not_foreign[OF assms(2-4)] by (intro update_wd_untouched) (auto simp: keeps_dir_def)

text \<open>What a step by a user keeps.\<close>

definition step_ok :: "string \<Rightarrow> ws_state \<Rightarrow> ws_state \<Rightarrow> bool" where
  "step_ok u s s' \<longleftrightarrow> ws_inv s' \<and> untouched u s s' \<and> (has_default s \<longrightarrow> has_default s')"

lemma step_ok_refl: "ws_inv s \<Longrightarrow> step_ok u s s"
  by (simp add: step_ok_def)

lemma step_ok_trans: "step_ok u s t \<Longrightarrow> step_ok u t r \<Longrightarrow> step_ok u s r"
  unfolding step_ok_def using untouched_trans by blast

lemma update_wd_ok:
  assumes "keeps_dir f" "ws_inv s" "w \<in> set (st_workspaces s)" "ws_UserID w = u"
    "\<And>d. d \<in> set (st_directories s) \<Longrightarrow> P d \<Longrightarrow> wd_WorkspaceID d = ws_ID w"
  shows "step_ok u s (update_wd P f s)"
  using assms keeps_untouched[OF assms] by (simp add: step_ok_def update_wd_inv default_cong[of "update_wd P f s" s])

lemma set_sorted_dirs: "d \<in> set (sorted_dirs wid s) \<longleftrightarrow> d \<in> set (st_directories s) \<and> wd_live d \<and> wd_WorkspaceID d = wid"
  by (auto simp: sorted_dirs_def)

lemma append_dir_ok:
  assumes i: "ws_inv s" and w: "w \<in> set (st_workspaces s)" "ws_UserID w = u" and d: "wd_WorkspaceID d = ws_ID w" "wd_ID d \<notin> fst ` set (dir_keys s)"
  shows "step_ok u s (s\<lparr>st_directories := st_directories s @ [d]\<rparr>)"
proof -
  let ?s = "s\<lparr>st_directories := st_directories s @ [d]\<rparr>"
  have k: "dir_keys ?s = dir_keys s @ [(wd_ID d, wd_WorkspaceID d, wd_DeletedAt d)]" by (simp add: dir_keys_def)
  have "distinct (map wd_ID (st_directories ?s))" using i d(2) unfolding distinct_keys k by (simp add: ws_inv_def distinct_keys)
  moreover have "has_dir ?s v" if "has_dir s v" for v using that by (auto simp: has_dir_def)
  ultimately have "ws_inv ?s" using i by (simp add: ws_inv_def one_default_def)
  moreover have "untouched u s ?s" using owned_not_foreign[OF i w] d(1) by (simp add: untouched_def)
  ultimately show ?thesis by (simp add: step_ok_def has_default_def)
qed

lemma add_ok:
  assumes i: "ws_inv s"
  shows "step_ok u s (snd (AddDirectory ok env wid u req s))"
proof (cases "getWorkspaceModel ok wid u s")
  case (Inr wd)
  then obtain w dirs where m: "getWorkspaceModel ok wid u s = Inr (w, dirs)" by (cases wd) auto
  note w = modelD[OF m]
  define s1 where "s1 = (if cd_IsDefault req then update_wd (\<lambda>d. wd_WorkspaceID d = wid) (set_wd_default False (we_now env)) s else s)"
  let ?d = "new_dir env wid (maxOrder dirs + 1) 0 req"
  have "step_ok u s (update_wd (\<lambda>d. wd_WorkspaceID d = wid) (set_wd_default False (we_now env)) s)"
    using w by (intro update_wd_ok[where w = w, OF _ i]) auto
  then have s1: "step_ok u s s1" using step_ok_refl[OF i] by (simp add: s1_def)
  have keys: "dir_keys s1 = dir_keys s" "st_workspaces s1 = st_workspaces s" by (simp_all add: s1_def update_wd_keys)
  have "fst ` set (dir_keys s) = wd_ID ` set (st_directories s)" by (simp add: dir_keys_def image_image)
  then have "step_ok u s1 (s1\<lparr>st_directories := st_directories s1 @ [?d]\<rparr>)" if "wd_ID ?d \<notin> wd_ID ` set (st_directories s)"
    using that s1 w keys by (intro append_dir_ok[where w = w]) (auto simp: step_ok_def new_dir_def)
  then show ?thesis using m s1 step_ok_refl[OF i] step_ok_trans[OF s1] by (simp add: AddDirectory_def Let_def flip: s1_def)
qed (simp add: AddDirectory_def step_ok_refl[OF i])

lemma update_directory_ok:
  assumes i: "ws_inv s"
  shows "step_ok u s (snd (UpdateDirectory ok now wid did u req s))"
proof (cases "\<exists>x d. getWorkspaceModel ok wid u s = Inr x \<and> ok 3 \<and> find_dir did wid s = Some d")
  case True
  then obtain w dirs d where m: "getWorkspaceModel ok wid u s = Inr (w, dirs)" "ok 3" "find_dir did wid s = Some d" by force
  note w = modelD[OF m(1)]
  note d = find_dirD[OF m(3)]
  define s1 where "s1 = (if cd_IsDefault req \<and> \<not> wd_IsDefault d
    then update_wd (\<lambda>e. wd_WorkspaceID e = wid \<and> wd_ID e \<noteq> did) (set_wd_default False now) s else s)"
  have keys: "dir_keys s1 = dir_keys s" "st_workspaces s1 = st_workspaces s" by (simp_all add: s1_def update_wd_keys)
  have "step_ok u s (update_wd (\<lambda>e. wd_WorkspaceID e = wid \<and> wd_ID e \<noteq> did) (set_wd_default False now) s)"
    using w by (intro update_wd_ok[where w = w, OF _ i]) auto
  then have s1: "step_ok u s s1" using step_ok_refl[OF i] by (simp add: s1_def)
  have "wd_WorkspaceID e = ws_ID w" if "e \<in> set (st_directories s1)" "wd_ID e = wd_ID d" for e
  proof -
    have "(wd_ID e, wd_WorkspaceID e, wd_DeletedAt e) \<in> set (dir_keys s1)" using that(1) by (auto simp: dir_keys_def)
    then have "(wd_ID e, wd_WorkspaceID e, wd_DeletedAt e) \<in> set (dir_keys s)" by (simp add: keys)
    then obtain e' where "e' \<in> set (st_directories s)" "wd_ID e' = wd_ID e" "wd_WorkspaceID e' = wd_WorkspaceID e" by (auto simp: dir_keys_def)
    then show ?thesis using unique_wdD[OF i, of e' d] d w that(2) by simp
  qed
  moreover have "ws_inv s1" "w \<in> set (st_workspaces s1)" using s1 w keys by (simp_all add: step_ok_def)
  ultimately have "step_ok u s1 (update_wd (\<lambda>e. wd_ID e = wd_ID d) (apply_wd_updates req now) s1)"
    using w by (intro update_wd_ok[where w = w]) auto
  then show ?thesis using m s1 step_ok_refl[OF i] step_ok_trans[OF s1] by (simp add: UpdateDirectory_def Let_def flip: s1_def)
next
  case False
  then show ?thesis using step_ok_refl[OF i] by (auto simp: UpdateDirectory_def split: sum.split option.split)
qed

lemma reorder_ok:
  assumes "ws_inv s" "w \<in> set (st_workspaces s)" "ws_UserID w = u" "ws_ID w = wid"
  shows "step_ok u s (reorder now wid k ids s)"
  using assms(1,2)
proof (induction ids arbitrary: k s)
  case (Cons i ids)
  let ?s = "update_wd (\<lambda>d. wd_ID d = i \<and> wd_WorkspaceID d = wid) (\<lambda>d. d\<lparr>wd_OrderIndex := int k, wd_UpdatedAt := now\<rparr>) s"
  have s: "step_ok u s ?s" using Cons.prems assms(3,4) by (intro update_wd_ok[where w = w]) auto
  then have "step_ok u ?s (reorder now wid (Suc k) ids ?s)" using Cons.IH[of ?s "Suc k"] Cons.prems(2) by (simp add: step_ok_def)
  then show ?case using step_ok_trans[OF s] by simp
qed (simp add: step_ok_refl)

lemma delete_dir_ok:
  assumes i: "ws_inv s" and w: "w \<in> set (st_workspaces s)" "ws_UserID w = u" and d: "(did, ws_ID w, x) \<in> set (dir_keys s)"
    and other: "(j, ws_ID w, None) \<in> set (dir_keys s)" "j \<noteq> did"
  shows "step_ok u s (update_wd (\<lambda>e. wd_ID e = did) (\<lambda>e. e\<lparr>wd_DeletedAt := Some now\<rparr>) s)"
proof -
  let ?s = "update_wd (\<lambda>e. wd_ID e = did) (\<lambda>e. e\<lparr>wd_DeletedAt := Some now\<rparr>) s"
  have k: "dir_keys ?s = map (\<lambda>(i, v, x). (i, v, if x = None \<and> i = did then Some now else x)) (dir_keys s)"
    by (simp add: dir_keys_def update_wd_def wd_live_def)
  have dist: "distinct (map fst (dir_keys s))" using i by (simp add: ws_inv_def distinct_keys)
  then have own: "v = ws_ID w" if "(did, v, y) \<in> set (dir_keys s)" for v y
    using that d by (auto dest: eq_key_imp_eq_value)
  have "map fst (dir_keys ?s) = map fst (dir_keys s)" unfolding k by (simp add: case_prod_beta comp_def)
  moreover have "has_dir ?s v" if "has_dir s v" for v
  proof (cases "v = ws_ID w")
    case True
    have "(j, ws_ID w, None) \<in> set (dir_keys ?s)" unfolding k using other by force
    then show ?thesis using True by (auto simp: has_dir_keys)
  next
    case False
    obtain l where l: "(l, v, None) \<in> set (dir_keys s)" using \<open>has_dir s v\<close> by (auto simp: has_dir_keys)
    then have "l \<noteq> did" using own False by blast
    then have "(l, v, None) \<in> set (dir_keys ?s)" unfolding k using l by force
    then show ?thesis by (auto simp: has_dir_keys)
  qed
  ultimately have "ws_inv ?s" using i dist by (simp add: ws_inv_def one_default_def distinct_keys)
  moreover have "untouched u s ?s"
  proof (rule update_wd_untouched)
    show "wd_WorkspaceID e \<notin> foreign u s" if "e \<in> set (st_directories s)" "wd_ID e = did" for e
    proof -
      have "(did, wd_WorkspaceID e, wd_DeletedAt e) \<in> set (dir_keys s)" using that by (auto simp: dir_keys_def)
      from own[OF this] show ?thesis using owned_not_foreign[OF i w] by simp
    qed
  qed simp
  ultimately show ?thesis by (simp add: step_ok_def default_cong[of ?s s])
qed

lemma delete_directory_ok:
  assumes i: "ws_inv s"
  shows "step_ok u s (snd (DeleteDirectory limited ok now wid did u s))"
proof (cases "\<exists>x d. getWorkspaceModel ok wid u s = Inr x \<and> \<not> length (snd x) \<le> 1 \<and> ok 3 \<and> find_dir did wid s = Some d")
  case True
  then obtain w dirs d where m: "getWorkspaceModel ok wid u s = Inr (w, dirs)" "\<not> length dirs \<le> 1" "ok 3" "find_dir did wid s = Some d" by force
  note w = modelD[OF m(1)]
  note d = find_dirD[OF m(4)]
  define s1 where "s1 = (if wd_IsDefault d
    then update_wd (\<lambda>e. wd_ID e \<in> set (promoted limited wid did s)) (set_wd_default True now) s else s)"
  have keys: "dir_keys s1 = dir_keys s" "st_workspaces s1 = st_workspaces s" by (simp_all add: s1_def update_wd_keys)
  have "wd_WorkspaceID e = ws_ID w" if "e \<in> set (st_directories s)" "wd_ID e \<in> set (promoted limited wid did s)" for e
  proof -
    have "set (promoted limited wid did s) \<subseteq> wd_ID ` set (sorted_dirs wid s)"
      by (auto simp: promoted_def Let_def dest!: in_set_takeD)
    with that(2) obtain e' where "e' \<in> set (sorted_dirs wid s)" "wd_ID e = wd_ID e'" by blast
    then show ?thesis using unique_wdD[OF i that(1), of e'] w by (simp add: set_sorted_dirs)
  qed
  then have "step_ok u s (update_wd (\<lambda>e. wd_ID e \<in> set (promoted limited wid did s)) (set_wd_default True now) s)"
    using w by (intro update_wd_ok[where w = w, OF _ i]) auto
  then have s1: "step_ok u s s1" using step_ok_refl[OF i] by (simp add: s1_def)
  obtain e where e: "e \<in> set dirs" "wd_ID e \<noteq> did"
  proof -
    have "distinct (map wd_ID (st_directories s))" using i by (simp add: ws_inv_def)
    then have "distinct (map wd_ID (filter P (st_directories s)))" for P by (rule distinct_map_filter)
    then have "distinct (map wd_ID dirs)" using w by (simp add: sorted_dirs_def distinct_map)
    then have "card (wd_ID ` set dirs) = length dirs" by (metis distinct_card length_map list.set_map)
    moreover have "card (wd_ID ` set dirs) \<le> 1" if "wd_ID ` set dirs \<subseteq> {did}" using card_mono[OF _ that] by simp
    ultimately show ?thesis using m(2) that by force
  qed
  have "(did, ws_ID w, None) \<in> set (dir_keys s1)" "(wd_ID e, ws_ID w, None) \<in> set (dir_keys s1)"
    using d e(1) w unfolding keys by (auto simp: dir_keys_def wd_live_def set_sorted_dirs image_iff)
  then have "step_ok u s1 (update_wd (\<lambda>e. wd_ID e = did) (\<lambda>e. e\<lparr>wd_DeletedAt := Some now\<rparr>) s1)"
    using s1 w keys(2) e(2) by (intro delete_dir_ok[where w = w]) (auto simp: step_ok_def)
  then show ?thesis using m d s1 step_ok_refl[OF i] step_ok_trans[OF s1] by (simp add: DeleteDirectory_def Let_def flip: s1_def)
next
  case False
  then show ?thesis using step_ok_refl[OF i] by (auto simp: DeleteDirectory_def split: sum.split option.split prod.split)
qed

section \<open>Updates of workspaces\<close>

lemma new_dirs_keys: "d \<in> set (new_dirs env wid k reqs) \<Longrightarrow> wd_WorkspaceID d = wid \<and> wd_live d"
  by (induction reqs arbitrary: k) (auto simp: new_dir_def wd_live_def)

lemma default_first_keys:
  "d \<in> set (default_first reqs dirs) \<Longrightarrow> (\<And>e. e \<in> set dirs \<Longrightarrow> wd_WorkspaceID e = wid \<and> wd_live e) \<Longrightarrow> wd_WorkspaceID d = wid \<and> wd_live d"
  by (force simp: default_first_def wd_live_def split: if_splits)

lemma create_ok:
  assumes i: "ws_inv s" and req: "cw_Directories req \<noteq> []"
  shows "step_ok u s (snd (CreateWorkspace ok env devs u req s))"
proof -
  define w where "w = new_workspace env u (user_ws u (st_workspaces s) = []) req"
  define dirs where "dirs = default_first (cw_Directories req) (new_dirs env (we_ID env) 0 (cw_Directories req))"
  define s' where "s' = s\<lparr>st_workspaces := st_workspaces s @ [w], st_directories := st_directories s @ dirs\<rparr>"
  have w: "ws_UserID w = u" "ws_ID w = we_ID env" "ws_live w" "ws_IsDefault w \<longleftrightarrow> user_ws u (st_workspaces s) = []"
    by (simp_all add: w_def new_workspace_def ws_live_def)
  have dirs: "wd_WorkspaceID d = we_ID env \<and> wd_live d" if "d \<in> set dirs" for d
    using that unfolding dirs_def by (rule default_first_keys) (rule new_dirs_keys)
  have ne: "dirs \<noteq> []" using req unfolding dirs_def by (cases "cw_Directories req") (auto simp: default_first_def)
  have no_user: "\<not> (ws_live v \<and> ws_UserID v = u)" if "ws_IsDefault w" "v \<in> set (st_workspaces s)" for v
    using that w(4) by (auto simp: user_ws_def filter_empty_conv)
  have ok: "step_ok u s s'" if fresh: "we_ID env \<notin> ws_ID ` set (st_workspaces s)" "unique_ws (st_workspaces s @ [w])"
    "distinct (map wd_ID (st_directories s @ dirs))"
  proof -
    have old: "v = v'" if "v \<in> set (st_workspaces s)" "v' \<in> set (st_workspaces s)" "ws_live v \<and> ws_live v' \<and> ws_IsDefault v \<and> ws_IsDefault v' \<and> ws_UserID v = ws_UserID v'" for v v'
      using i that by (simp add: ws_inv_def one_default_def)
    have new: False if "v \<in> set (st_workspaces s)" "ws_live v" "ws_IsDefault w" "ws_UserID v = ws_UserID w" for v
      using no_user[OF that(3,1)] that w(1) by simp
    have "one_default s'" unfolding one_default_def
    proof (intro ballI impI)
      fix v v'
      assume v: "v \<in> set (st_workspaces s')" "v' \<in> set (st_workspaces s')"
        "ws_live v \<and> ws_live v' \<and> ws_IsDefault v \<and> ws_IsDefault v' \<and> ws_UserID v = ws_UserID v'"
      then have "v \<in> set (st_workspaces s) \<or> v = w" "v' \<in> set (st_workspaces s) \<or> v' = w" by (auto simp: s'_def)
      then show "v = v'" using v(3) old[of v v'] new[of v] new[of v'] by metis
    qed
    moreover have "has_dir s' (ws_ID v)" if "v \<in> set (st_workspaces s')" "ws_live v" for v
      using that i dirs ne w(2) unfolding ws_inv_def has_dir_def s'_def by (cases dirs) auto
    ultimately have "ws_inv s'" using fresh by (simp add: ws_inv_def s'_def)
    moreover have "untouched u s s'"
    proof -
      have "we_ID env \<notin> foreign u s" using fresh(1) by (auto simp: foreign_def)
      then have "filter (\<lambda>d. wd_WorkspaceID d \<in> foreign u s) dirs = []" using dirs by (auto simp: filter_empty_conv)
      then show ?thesis using w(1) by (simp add: untouched_def s'_def)
    qed
    moreover have "has_default s'" if h: "has_default s"
    proof (cases "ws_IsDefault w")
      case True
      then show ?thesis using that w no_user by (auto simp: has_default_def s'_def)
    next
      case False
      then obtain v where "v \<in> set (st_workspaces s)" "ws_live v" "ws_UserID v = u" using w(4) by (auto simp: user_ws_def filter_empty_conv)
      then obtain v' where "v' \<in> set (st_workspaces s)" "ws_live v'" "ws_IsDefault v'" "ws_UserID v' = u" using h by (auto simp: has_default_def)
      then show ?thesis using h w by (auto simp: has_default_def s'_def)
    qed
    ultimately show ?thesis by (simp add: step_ok_def)
  qed
  show ?thesis unfolding CreateWorkspace_def Let_def
    using ok step_ok_refl[OF i] by (simp add: w_def[symmetric] dirs_def[symmetric] s'_def[symmetric] split: option.split)
qed

lemma update_ws_directories [simp]: "st_directories (update_ws P f s) = st_directories s"
  by (simp add: update_ws_def)

lemma has_dir_update_ws [simp]: "has_dir (update_ws P f s) = has_dir s"
  by (simp add: has_dir_def fun_eq_iff)

text \<open>An update by a function that keeps identifiers and owners and reaches only workspaces of the user.\<close>

lemma update_ws_untouched:
  assumes "\<And>w. ws_UserID (f w) = ws_UserID w" "\<And>w. w \<in> set (st_workspaces s) \<Longrightarrow> ws_live w \<Longrightarrow> P w \<Longrightarrow> ws_UserID w = u"
  shows "untouched u s (update_ws P f s)"
proof -
  have "filter (\<lambda>w. ws_UserID w \<noteq> u) (map (\<lambda>w. if ws_live w \<and> P w then f w else w) ws) = filter (\<lambda>w. ws_UserID w \<noteq> u) ws"
    if "\<forall>w \<in> set ws. ws_live w \<and> P w \<longrightarrow> ws_UserID w = u" for ws
    using that assms(1) by (induction ws) auto
  then show ?thesis using assms(2) by (simp add: untouched_def update_ws_def)
qed

lemma ws_map_ok:
  assumes i: "ws_inv s" and u: "unique_ws (map g (st_workspaces s))"
    and g: "\<And>w. ws_ID (g w) = ws_ID w \<and> ws_UserID (g w) = ws_UserID w \<and> ws_IsDefault (g w) = ws_IsDefault w \<and> ws_DeletedAt (g w) = ws_DeletedAt w"
    and s': "st_workspaces s' = map g (st_workspaces s)" "st_directories s' = st_directories s"
  shows "ws_inv s'" "has_default s \<Longrightarrow> has_default s'"
proof -
  have l: "ws_live (g w) = ws_live w" for w using g[of w] by (simp add: ws_live_def)
  have "one_default s'" using i g l unfolding ws_inv_def one_default_def s' by auto
  moreover have "has_dir s' = has_dir s" by (simp add: has_dir_def fun_eq_iff s')
  ultimately show "ws_inv s'" using i u g l by (simp add: ws_inv_def s')
  show "has_default s'" if "has_default s" using that g l unfolding has_default_def s' by fastforce
qed

lemma update_workspace_ok:
  assumes i: "ws_inv s"
  shows "step_ok u s (snd (UpdateWorkspace ok now devs wid u req s))"
proof (cases "getWorkspaceModel ok wid u s")
  case (Inr wd)
  then obtain w dirs where m: "getWorkspaceModel ok wid u s = Inr (w, dirs)" by (cases wd) auto
  note w = modelD[OF m]
  let ?s = "update_ws (\<lambda>v. ws_ID v = ws_ID w) (apply_ws_updates req now) s"
  let ?g = "\<lambda>v. if ws_live v \<and> ws_ID v = ws_ID w then apply_ws_updates req now v else v"
  have "step_ok u s ?s" if q: "unique_ws (st_workspaces ?s)"
  proof -
    have rows: "st_workspaces ?s = map ?g (st_workspaces s)" by (simp add: update_ws_def)
    have "ws_inv ?s" "has_default s \<Longrightarrow> has_default ?s"
      using ws_map_ok[OF i _ _ rows] q[unfolded rows] by (simp_all add: apply_ws_updates_def)
    moreover have "untouched u s ?s"
      by (rule update_ws_untouched) (use w i unique_wsD in \<open>auto simp: apply_ws_updates_def ws_inv_def\<close>)
    ultimately show ?thesis by (simp add: step_ok_def)
  qed
  then show ?thesis using m step_ok_refl[OF i] by (simp add: UpdateWorkspace_def Let_def)
qed (simp add: UpdateWorkspace_def step_ok_refl[OF i])

text \<open>The two updates of the transaction as one.\<close>

definition default_map :: "int \<Rightarrow> string \<Rightarrow> string \<Rightarrow> Workspace \<Rightarrow> Workspace" where
  "default_map now wid u w = (if ws_live w \<and> ws_UserID w = u then set_ws_default (ws_ID w = wid) now w else w)"

lemma set_default_rows:
  "st_workspaces (update_ws (\<lambda>w. ws_ID w = wid \<and> ws_UserID w = u) (set_ws_default True now)
     (update_ws (\<lambda>w. ws_UserID w = u) (set_ws_default False now) s)) = map (default_map now wid u) (st_workspaces s)"
  by (auto simp: update_ws_def default_map_def set_ws_default_def ws_live_def)

lemma default_map_simps [simp]:
  "ws_ID (default_map now wid u w) = ws_ID w" "ws_UserID (default_map now wid u w) = ws_UserID w" "ws_Name (default_map now wid u w) = ws_Name w"
  "ws_live (default_map now wid u w) = ws_live w"
  by (simp_all add: default_map_def set_ws_default_def ws_live_def)

lemma default_map_default:
  "ws_live w \<Longrightarrow> ws_IsDefault (default_map now wid u w) \<longleftrightarrow> (if ws_UserID w = u then ws_ID w = wid else ws_IsDefault w)"
  by (simp add: default_map_def set_ws_default_def)

lemma default_map_unique: "unique_ws (map (default_map now wid u) rows) = unique_ws rows"
proof -
  have "filter ws_live (map (default_map now wid u) rows) = map (default_map now wid u) (filter ws_live rows)" by (simp add: filter_map comp_def)
  then show ?thesis by (simp add: unique_ws_def comp_def)
qed

lemma set_default_ok:
  assumes i: "ws_inv s"
  shows "step_ok u s (snd (SetDefaultWorkspace ok now wid u s))"
proof (cases "fst (SetDefaultWorkspace ok now wid u s) = None")
  case True
  let ?s = "update_ws (\<lambda>w. ws_ID w = wid \<and> ws_UserID w = u) (set_ws_default True now) (update_ws (\<lambda>w. ws_UserID w = u) (set_ws_default False now) s)"
  have eq: "SetDefaultWorkspace ok now wid u s = (None, ?s)" using True by (auto simp: SetDefaultWorkspace_def split: if_splits)
  obtain t where t: "t \<in> set (st_workspaces s)" "ws_live t" "ws_ID t = wid" "ws_UserID t = u"
    using True by (auto simp: SetDefaultWorkspace_def filter_empty_conv split: if_splits)
  have rows: "st_workspaces ?s = map (default_map now wid u) (st_workspaces s)" by (rule set_default_rows)
  have same: "v = w" if "v \<in> set (st_workspaces s)" "w \<in> set (st_workspaces s)" "ws_ID v = ws_ID w" for v w
    using unique_wsD i that by (auto simp: ws_inv_def)
  have "default_map now wid u v = default_map now wid u w"
    if vw: "v \<in> set (st_workspaces s)" "w \<in> set (st_workspaces s)" "ws_live v" "ws_live w" "ws_UserID v = ws_UserID w"
      "ws_IsDefault (default_map now wid u v)" "ws_IsDefault (default_map now wid u w)" for v w
  proof -
    have "v = w" using vw same i by (cases "ws_UserID v = u") (auto simp: default_map_default ws_inv_def one_default_def)
    then show ?thesis by simp
  qed
  then have "one_default ?s" unfolding one_default_def rows by auto
  then have "ws_inv ?s" using i unfolding ws_inv_def rows by (auto simp: default_map_unique)
  moreover have "untouched u s ?s"
    by (rule untouched_trans[OF update_ws_untouched update_ws_untouched]) (auto simp: set_ws_default_def)
  moreover have "has_default ?s" if h: "has_default s"
  proof -
    have "\<exists>v \<in> set (st_workspaces s). ws_live v \<and> ws_IsDefault (default_map now wid u v) \<and> ws_UserID v = ws_UserID w"
      if lw: "w \<in> set (st_workspaces s)" "ws_live w" for w
    proof (cases "ws_UserID w = u")
      case True
      then show ?thesis using t by (intro bexI[of _ t]) (simp_all add: default_map_default)
    next
      case False
      obtain v where "v \<in> set (st_workspaces s)" "ws_live v" "ws_IsDefault v" "ws_UserID v = ws_UserID w"
        using h lw unfolding has_default_def by blast
      then show ?thesis using False by (intro bexI[of _ v]) (simp_all add: default_map_default)
    qed
    then show ?thesis unfolding has_default_def rows by fastforce
  qed
  ultimately show ?thesis by (simp add: step_ok_def eq)
next
  case False
  then have "snd (SetDefaultWorkspace ok now wid u s) = s" by (auto simp: SetDefaultWorkspace_def)
  then show ?thesis using step_ok_refl[OF i] by simp
qed

lemma delete_rows_rows:
  "st_workspaces (delete_workspace_rows now wid s) = map (\<lambda>w. if ws_live w \<and> ws_ID w = wid then w\<lparr>ws_DeletedAt := Some now\<rparr> else w) (st_workspaces s)"
  by (simp add: delete_workspace_rows_def update_ws_def)

lemma delete_rows_live:
  assumes "v \<in> set (st_workspaces (delete_workspace_rows now wid s))" "ws_live v"
  shows "v \<in> set (st_workspaces s) \<and> ws_ID v \<noteq> wid"
proof -
  obtain w where w: "w \<in> set (st_workspaces s)" "v = (if ws_live w \<and> ws_ID w = wid then w\<lparr>ws_DeletedAt := Some now\<rparr> else w)"
    using assms(1) unfolding delete_rows_rows by auto
  then have "\<not> (ws_live w \<and> ws_ID w = wid)" using assms(2) by (auto simp: ws_live_def)
  then show ?thesis using w assms(2) by auto
qed

lemma delete_rows_ok:
  assumes i: "ws_inv s" and w: "w \<in> set (st_workspaces s)" "ws_UserID w = u" "ws_ID w = wid"
  shows "ws_inv (delete_workspace_rows now wid s)" "untouched u s (delete_workspace_rows now wid s)"
proof -
  let ?s1 = "update_wd (\<lambda>d. wd_WorkspaceID d = wid) (\<lambda>d. d\<lparr>wd_DeletedAt := Some now\<rparr>) s"
  let ?g = "\<lambda>w. if ws_live w \<and> ws_ID w = wid then w\<lparr>ws_DeletedAt := Some now\<rparr> else w"
  let ?s = "delete_workspace_rows now wid s"
  have rows: "st_workspaces ?s = map ?g (st_workspaces s)" by (rule delete_rows_rows)
  have dirs: "st_directories ?s = st_directories ?s1" by (simp add: delete_workspace_rows_def)
  have live: "v' \<in> set (st_workspaces s) \<and> ws_ID v' \<noteq> wid" if "v' \<in> set (st_workspaces ?s)" "ws_live v'" for v'
    using delete_rows_live that by blast
  have "filter ws_live (map ?g ws) = filter (\<lambda>w. ws_live w \<and> ws_ID w \<noteq> wid) ws" for ws
    by (induction ws) (auto simp: ws_live_def)
  moreover have "map ws_ID (map ?g ws) = map ws_ID ws" for ws by simp
  moreover have "distinct (map f (filter (\<lambda>w. ws_live w \<and> ws_ID w \<noteq> wid) ws))" if "distinct (map f (filter ws_live ws))" for f :: "Workspace \<Rightarrow> string \<times> string" and ws
    using distinct_map_filter[OF that, of "\<lambda>w. ws_ID w \<noteq> wid"] by (simp add: conj_commute)
  ultimately have "unique_ws (st_workspaces ?s)" using i unfolding rows by (simp add: ws_inv_def unique_ws_def del: map_map)
  moreover have "one_default ?s" using i live by (simp add: ws_inv_def one_default_def)
  moreover have "map wd_ID (st_directories ?s1) = map wd_ID (st_directories s)" by (simp add: update_wd_def)
  moreover have "has_dir ?s v" if "has_dir s v" "v \<noteq> wid" for v
    using that unfolding has_dir_def dirs by (force simp: update_wd_def)
  ultimately show "ws_inv ?s" using i live by (simp add: ws_inv_def dirs)
  have "untouched u s ?s1" using owned_not_foreign[OF i w(1,2)] w(3) by (intro update_wd_untouched) auto
  moreover have "untouched u ?s1 ?s" unfolding delete_workspace_rows_def
    using w i unique_wsD by (intro update_ws_untouched) (auto simp: ws_inv_def)
  ultimately show "untouched u s ?s" by (rule untouched_trans)
qed

lemma delete_rows_default:
  assumes h: "has_default s" and u: "unique_ws (st_workspaces s)" and w: "w \<in> set (st_workspaces s)" "ws_UserID w = u" "ws_ID w = wid"
    and other: "\<And>v. v \<in> set (st_workspaces s) \<Longrightarrow> ws_live v \<Longrightarrow> ws_UserID v = u \<Longrightarrow> ws_ID v \<noteq> wid \<Longrightarrow>
      \<exists>v' \<in> set (st_workspaces s). ws_live v' \<and> ws_IsDefault v' \<and> ws_UserID v' = u \<and> ws_ID v' \<noteq> wid"
  shows "has_default (delete_workspace_rows now wid s)"
proof -
  let ?g = "\<lambda>w. if ws_live w \<and> ws_ID w = wid then w\<lparr>ws_DeletedAt := Some now\<rparr> else w"
  let ?s = "delete_workspace_rows now wid s"
  have rows: "st_workspaces ?s = map ?g (st_workspaces s)" by (rule delete_rows_rows)
  have in': "v \<in> set (st_workspaces ?s)" if "v \<in> set (st_workspaces s)" "ws_ID v \<noteq> wid" for v
    using that unfolding rows by force
  show ?thesis unfolding has_default_def
  proof (intro ballI impI)
    fix v
    assume v: "v \<in> set (st_workspaces ?s)" "ws_live v"
    have v': "v \<in> set (st_workspaces s)" "ws_ID v \<noteq> wid" using delete_rows_live[OF v] by auto
    obtain d where "d \<in> set (st_workspaces s)" "ws_live d" "ws_IsDefault d" "ws_UserID d = ws_UserID v" "ws_ID d \<noteq> wid"
    proof (cases "ws_UserID v = u")
      case True
      then show ?thesis using other[OF v'(1) v(2) True v'(2)] that by auto
    next
      case False
      obtain d where d: "d \<in> set (st_workspaces s)" "ws_live d" "ws_IsDefault d" "ws_UserID d = ws_UserID v"
        using h v'(1) v(2) unfolding has_default_def by blast
      then have "ws_ID d \<noteq> wid" using unique_wsD[OF u d(1) w(1)] w False by auto
      then show ?thesis using that d by blast
    qed
    then show "\<exists>d \<in> set (st_workspaces ?s). ws_live d \<and> ws_IsDefault d \<and> ws_UserID d = ws_UserID v" using in' by blast
  qed
qed

lemma set_default_effect:
  assumes "SetDefaultWorkspace ok now wid u s = (None, s')"
  shows "st_workspaces s' = map (default_map now wid u) (st_workspaces s)"
  using assms set_default_rows by (auto simp: SetDefaultWorkspace_def split: if_splits)

text \<open>The workspace that inherits the default.\<close>

definition heir :: "string \<Rightarrow> string \<Rightarrow> ws_state \<Rightarrow> Workspace option" where
  "heir wid u s = find (\<lambda>v. ws_ID v \<noteq> wid) (sort_key ws_CreatedAt (user_ws u (st_workspaces s)))"

lemma heir_Some: "heir wid u s = Some v \<Longrightarrow> v \<in> set (st_workspaces s) \<and> ws_live v \<and> ws_UserID v = u \<and> ws_ID v \<noteq> wid"
  unfolding heir_def by (drule find_SomeD) (auto simp: user_ws_def)

lemma heir_None: "heir wid u s = None \<Longrightarrow> v \<in> set (st_workspaces s) \<Longrightarrow> ws_live v \<Longrightarrow> ws_UserID v = u \<Longrightarrow> ws_ID v = wid"
  by (auto simp: heir_def find_None_iff user_ws_def)

lemma DeleteWorkspace_cases:
  assumes m: "getWorkspaceModel ok wid u s = Inr (w, dirs)"
  obtains (unmoved) "snd (DeleteWorkspace ok now wid u s) \<in> {s, delete_workspace_rows now wid s}" "\<not> ws_IsDefault w \<or> \<not> ok 3 \<or> heir wid u s = None"
  | (failed) v where "heir wid u s = Some v" "snd (DeleteWorkspace ok now wid u s) = snd (SetDefaultWorkspace (\<lambda>n. ok (10 + n)) now (ws_ID v) u s)"
  | (moved) v s1 where "heir wid u s = Some v" "SetDefaultWorkspace (\<lambda>n. ok (10 + n)) now (ws_ID v) u s = (None, s1)"
      "snd (DeleteWorkspace ok now wid u s) = delete_workspace_rows now wid s1"
proof (cases "if ws_IsDefault w \<and> ok 3 then heir wid u s else None")
  case None
  then have "snd (DeleteWorkspace ok now wid u s) \<in> {s, delete_workspace_rows now wid s}"
    using m by (cases "ws_IsDefault w \<and> ok 3") (auto simp: DeleteWorkspace_def heir_def Let_def)
  then show ?thesis using None unmoved by (auto split: if_splits)
next
  case (Some v)
  then have v: "heir wid u s = Some v" "ws_IsDefault w" "ok 3" by (auto split: if_splits)
  obtain e s1 where s1: "SetDefaultWorkspace (\<lambda>n. ok (10 + n)) now (ws_ID v) u s = (e, s1)" by force
  have eq: "DeleteWorkspace ok now wid u s = (case (e, s1) of
      (Some e, s') \<Rightarrow> (Some e, s')
    | (None, s') \<Rightarrow> if \<not> ok 4 then (Some WorkspaceDBError, s') else (None, delete_workspace_rows now wid s'))"
    using m v s1 by (simp add: DeleteWorkspace_def heir_def Let_def)
  show ?thesis
  proof (cases "e = None \<and> ok 4")
    case True
    then show ?thesis using moved[OF v(1)] s1 eq by simp
  next
    case False
    then have "snd (DeleteWorkspace ok now wid u s) = s1" using eq by (cases e) auto
    then show ?thesis using failed[OF v(1)] s1 by simp
  qed
qed

lemma delete_safe:
  assumes i: "ws_inv s"
  shows "ws_inv (snd (DeleteWorkspace ok now wid u s)) \<and> untouched u s (snd (DeleteWorkspace ok now wid u s))"
proof (cases "getWorkspaceModel ok wid u s")
  case (Inr wd)
  then obtain w dirs where m: "getWorkspaceModel ok wid u s = Inr (w, dirs)" by (cases wd) auto
  note w = modelD[OF m]
  from m show ?thesis
  proof (cases rule: DeleteWorkspace_cases[where now = now])
    case unmoved
    then show ?thesis using i delete_rows_ok[OF i, of w] w by auto
  next
    case (failed v)
    then show ?thesis using set_default_ok[OF i] by (auto simp: step_ok_def)
  next
    case (moved v s1)
    have s1: "step_ok u s s1" using set_default_ok[OF i, of u "\<lambda>n. ok (10 + n)" now "ws_ID v"] moved(2) by simp
    have "default_map now (ws_ID v) u w \<in> set (st_workspaces s1)" using w set_default_effect[OF moved(2)] by simp
    from delete_rows_ok[OF _ this, of u wid now] s1 w
    have "ws_inv (delete_workspace_rows now wid s1)" "untouched u s1 (delete_workspace_rows now wid s1)" by (simp_all add: step_ok_def)
    then show ?thesis using s1 untouched_trans unfolding moved(3) step_ok_def by blast
  qed
qed (simp add: DeleteWorkspace_def i)

lemma delete_default:
  assumes i: "ws_inv s" and h: "has_default s" and ok: "ok 3"
  shows "has_default (snd (DeleteWorkspace ok now wid u s))"
proof (cases "getWorkspaceModel ok wid u s")
  case (Inr wd)
  then obtain w dirs where m: "getWorkspaceModel ok wid u s = Inr (w, dirs)" by (cases wd) auto
  note w = modelD[OF m]
  have q: "unique_ws (st_workspaces s)" using i by (simp add: ws_inv_def)
  from m show ?thesis
  proof (cases rule: DeleteWorkspace_cases[where now = now])
    case unmoved
    have "has_default (delete_workspace_rows now wid s)"
    proof (rule delete_rows_default[OF h q, of w])
      fix v
      assume v: "v \<in> set (st_workspaces s)" "ws_live v" "ws_UserID v = u" "ws_ID v \<noteq> wid"
      then have "heir wid u s \<noteq> None" using heir_None[of wid u s v] by blast
      then have nd: "\<not> ws_IsDefault w" using unmoved(2) ok by auto
      obtain d where d: "d \<in> set (st_workspaces s)" "ws_live d" "ws_IsDefault d" "ws_UserID d = u"
        using h v(1-3) unfolding has_default_def by blast
      then have "ws_ID d \<noteq> wid" using unique_wsD[OF q d(1), of w] w nd by auto
      then show "\<exists>v' \<in> set (st_workspaces s). ws_live v' \<and> ws_IsDefault v' \<and> ws_UserID v' = u \<and> ws_ID v' \<noteq> wid" using d by blast
    qed (use w in auto)
    then show ?thesis using unmoved(1) h by auto
  next
    case (failed v)
    then show ?thesis using set_default_ok[OF i] h by (auto simp: step_ok_def)
  next
    case (moved v s1)
    note v = heir_Some[OF moved(1)]
    have s1: "step_ok u s s1" using set_default_ok[OF i, of u "\<lambda>n. ok (10 + n)" now "ws_ID v"] moved(2) by simp
    note rows = set_default_effect[OF moved(2)]
    let ?d = "default_map now (ws_ID v) u v"
    have d: "?d \<in> set (st_workspaces s1)" "ws_live ?d" "ws_IsDefault ?d" "ws_UserID ?d = u" "ws_ID ?d \<noteq> wid"
      using v rows by (simp_all add: default_map_default)
    show ?thesis unfolding moved(3)
    proof (rule delete_rows_default)
      show "has_default s1" "unique_ws (st_workspaces s1)" using s1 h by (simp_all add: step_ok_def ws_inv_def)
      show "default_map now (ws_ID v) u w \<in> set (st_workspaces s1)" using w rows by simp
      show "\<exists>v' \<in> set (st_workspaces s1). ws_live v' \<and> ws_IsDefault v' \<and> ws_UserID v' = u \<and> ws_ID v' \<noteq> wid" using d by blast
    qed (use w in simp_all)
  qed
qed (simp add: DeleteWorkspace_def h)

section \<open>Histories\<close>

text \<open>
  A step is an operation of a user.  The requests have a directory, as the binding of the request demands; in a careful history the
  search for the heir of a default workspace is answered.
\<close>

inductive ws_step :: "bool \<Rightarrow> string \<Rightarrow> ws_state \<Rightarrow> ws_state \<Rightarrow> bool" for careful u where
  create: "cw_Directories req \<noteq> [] \<Longrightarrow> ws_step careful u s (snd (CreateWorkspace ok env devs u req s))"
| update: "ws_step careful u s (snd (UpdateWorkspace ok now devs wid u ureq s))"
| delete: "careful \<longrightarrow> ok 3 \<Longrightarrow> ws_step careful u s (snd (DeleteWorkspace ok now wid u s))"
| default: "ws_step careful u s (snd (SetDefaultWorkspace ok now wid u s))"
| add: "ws_step careful u s (snd (AddDirectory ok env wid u dreq s))"
| change: "ws_step careful u s (snd (UpdateDirectory ok now wid did u dreq s))"
| remove: "ws_step careful u s (snd (DeleteDirectory limited ok now wid did u s))"
| reorder: "ws_step careful u s (snd (ReorderDirectories ok now wid u ids s))"

inductive ws_reach :: "bool \<Rightarrow> ws_state \<Rightarrow> bool" for careful where
  start: "ws_reach careful \<lparr>st_workspaces = [], st_directories = []\<rparr>"
| step: "ws_reach careful s \<Longrightarrow> ws_step careful u s s' \<Longrightarrow> ws_reach careful s'"

lemma reorder_all_ok: "ws_inv s \<Longrightarrow> step_ok u s (snd (ReorderDirectories ok now wid u ids s))"
proof (cases "getWorkspaceModel ok wid u s")
  case (Inr wd)
  then obtain w dirs where m: "getWorkspaceModel ok wid u s = Inr (w, dirs)" by (cases wd) auto
  assume "ws_inv s"
  then show ?thesis using m modelD[OF m] reorder_ok[of s w u wid] step_ok_refl by (auto simp: ReorderDirectories_def)
qed (simp add: ReorderDirectories_def step_ok_refl)

lemma step_keeps:
  assumes "ws_step careful u s s'" "ws_inv s"
  shows "ws_inv s' \<and> untouched u s s' \<and> (careful \<and> has_default s \<longrightarrow> has_default s')"
proof -
  have "step_ok u s s' \<or> (\<exists>ok now wid. s' = snd (DeleteWorkspace ok now wid u s) \<and> (careful \<longrightarrow> ok 3))"
    using assms(1)
  proof cases
    case (delete ok now wid)
    then show ?thesis by blast
  qed (simp_all add: create_ok update_workspace_ok set_default_ok add_ok update_directory_ok delete_directory_ok reorder_all_ok assms(2))
  then show ?thesis
  proof
    assume "\<exists>ok now wid. s' = snd (DeleteWorkspace ok now wid u s) \<and> (careful \<longrightarrow> ok 3)"
    then obtain ok now wid where s': "s' = snd (DeleteWorkspace ok now wid u s)" "careful \<longrightarrow> ok 3" by blast
    show ?thesis using delete_safe[OF assms(2), of ok now wid u] delete_default[OF assms(2), of ok now wid u] s' by simp
  qed (simp add: step_ok_def)
qed

lemma ws_reach_inv: "ws_reach careful s \<Longrightarrow> ws_inv s \<and> (careful \<longrightarrow> has_default s)"
proof (induction rule: ws_reach.induct)
  case start
  show ?case by (simp add: ws_inv_def one_default_def has_default_def unique_ws_def)
next
  case (step s u s')
  then show ?case using step_keeps[OF step.hyps(2)] by blast
qed

section \<open>Paths in their normal form\<close>

definition plain_component :: "string \<Rightarrow> bool" where
  "plain_component c \<longleftrightarrow> c \<noteq> [] \<and> c \<noteq> ''.'' \<and> CHR ''/'' \<notin> set c"

text \<open>A stack that \<open>Clean\<close> can leave: plain components, and steps up only at the bottom of a relative path.\<close>

fun clean_stack :: "bool \<Rightarrow> string list \<Rightarrow> bool" where
  "clean_stack rooted [] = True"
| "clean_stack rooted (c # st) \<longleftrightarrow> plain_component c \<and> clean_stack rooted st \<and> (c = ''..'' \<longrightarrow> \<not> rooted \<and> list_all (\<lambda>d. d = ''..'') st)"

lemma clean_step_stack: "clean_stack rooted st \<Longrightarrow> CHR ''/'' \<notin> set c \<Longrightarrow> clean_stack rooted (clean_step rooted c st)"
  by (cases st) (auto simp: clean_step_def plain_component_def)

lemma clean_fold_stack:
  "clean_stack rooted st \<Longrightarrow> (\<And>c. c \<in> set cs \<Longrightarrow> CHR ''/'' \<notin> set c) \<Longrightarrow> clean_stack rooted (fold (clean_step rooted) cs st)"
  by (induction cs arbitrary: st) (simp_all add: clean_step_stack)

text \<open>Such a stack is rebuilt from its own components.\<close>

lemma clean_fold_fixed: "clean_stack rooted st \<Longrightarrow> fold (clean_step rooted) (rev st) [] = st"
proof (induction st)
  case (Cons c st)
  then have "fold (clean_step rooted) (rev st) [] = st" by simp
  moreover have "clean_step rooted c st = c # st"
    using Cons.prems by (cases st) (auto simp: clean_step_def plain_component_def)
  ultimately show ?case by simp
qed simp

lemma clean_stack_plain: "clean_stack rooted st \<Longrightarrow> list_all plain_component st"
  by (induction st) auto

lemma split_join_components:
  assumes "list_all plain_component cs" "cs \<noteq> []"
  shows "split_on (CHR ''/'') (join_with ''/'' cs) = cs"
  using assms by (intro split_join) (auto simp: list_all_iff plain_component_def)

lemma clean_step_Nil [simp]: "clean_step rooted [] st = st"
  by (simp add: clean_step_def)

definition clean_form :: "bool \<Rightarrow> string list \<Rightarrow> string" where
  "clean_form rooted st =
     (let out = (if rooted then ''/'' else []) @ join_with ''/'' (rev st) in if out = [] then ''.'' else out)"

lemma Clean_form: "p \<noteq> [] \<Longrightarrow> \<exists>rooted st. clean_stack rooted st \<and> Clean p = clean_form rooted st"
proof -
  assume "p \<noteq> []"
  let ?r = "hd p = CHR ''/''"
  let ?st = "fold (clean_step ?r) (split_on (CHR ''/'') p) []"
  have "clean_stack ?r ?st" by (rule clean_fold_stack) (auto dest: split_on_no_sep)
  moreover have "Clean p = clean_form ?r ?st" using \<open>p \<noteq> []\<close> by (simp add: Clean_def clean_form_def Let_def)
  ultimately show ?thesis by blast
qed

lemma join_last: "xs \<noteq> [] \<Longrightarrow> \<exists>a. join_with d xs = a @ last xs"
proof (induction d xs rule: join_with.induct)
  case (3 d x y xs)
  then obtain a where "join_with d (y # xs) = a @ last (y # xs)" by auto
  then show ?case by (intro exI[of _ "x @ d @ a"]) simp
qed auto

lemma join_hd: "join_with d (x # xs) = x @ (if xs = [] then [] else d @ join_with d xs)"
  by (cases xs) auto

lemma Clean_clean_form: "clean_stack rooted st \<Longrightarrow> Clean (clean_form rooted st) = clean_form rooted st"
proof (cases "st = []")
  case True
  then show ?thesis by (simp add: clean_form_def Clean_def clean_step_def)
next
  case False
  assume c: "clean_stack rooted st"
  let ?j = "join_with ''/'' (rev st)"
  have p: "list_all plain_component (rev st)" using clean_stack_plain[OF c] by simp
  have split: "split_on (CHR ''/'') ?j = rev st" using split_join_components[OF p] False by simp
  obtain x xs where x: "rev st = x # xs" using False by (cases "rev st") auto
  have "plain_component x" using p by (simp add: x)
  then have "x \<noteq> []" "CHR ''/'' \<notin> set x" by (simp_all add: plain_component_def)
  moreover from this have "hd x \<noteq> CHR ''/''" by (metis hd_in_set)
  ultimately have j: "?j \<noteq> []" "hd ?j \<noteq> CHR ''/''" by (simp_all add: x join_hd)
  have fold: "fold (clean_step r) (rev st) [] = st" if "r = rooted" for r using clean_fold_fixed[OF c] that by simp
  show ?thesis
  proof (cases rooted)
    case True
    have "fold (clean_step True) ([] # rev st) [] = st" using fold[of True] True by simp
    then show ?thesis using True split by (simp add: clean_form_def Clean_def Let_def)
  next
    case False
    then show ?thesis using j split fold[of False] by (simp add: clean_form_def Clean_def Let_def)
  qed
qed

lemma clean_form_suffix:
  assumes "clean_stack rooted st" "clean_form rooted st \<noteq> ''/''"
  shows "\<not> has_suffix (clean_form rooted st) ''/''"
proof (cases "st = []")
  case True
  then show ?thesis using assms(2) by (auto simp: clean_form_def has_suffix_iff split: if_splits)
next
  case False
  obtain c st' where st: "st = c # st'" using False by (cases st) auto
  have c: "c \<noteq> []" "last c \<noteq> CHR ''/''" using assms(1) unfolding st by (auto simp: plain_component_def dest: last_in_set)
  obtain a where "join_with ''/'' (rev st) = a @ c" using join_last[of "rev st" "''/''"] False by (auto simp: st last_rev)
  then have "\<exists>b. clean_form rooted st = b @ c" using c(1) by (auto simp: clean_form_def)
  then obtain b where b: "clean_form rooted st = b @ c" ..
  show ?thesis
  proof
    assume "has_suffix (clean_form rooted st) ''/''"
    then obtain r where "b @ c = r @ ''/''" unfolding b has_suffix_iff by blast
    then have "last (b @ c) = CHR ''/''" by simp
    then show False using c by simp
  qed
qed

lemma fold_clean_components: "set (fold (clean_step rooted) cs st) \<subseteq> set cs \<union> set st"
proof (induction cs arbitrary: st)
  case (Cons c cs)
  have "set (clean_step rooted c st) \<subseteq> insert c (set st)" by (cases st) (auto simp: clean_step_def)
  then show ?case using Cons.IH[of "clean_step rooted c st"] by auto
qed simp

lemma split_on_chars: "c \<in> set (split_on d s) \<Longrightarrow> set c \<subseteq> set s"
  by (induction s arbitrary: c) (fastforce split: if_splits list.splits)+

lemma Clean_chars: "set (Clean p) \<subseteq> set p \<union> {CHR ''/'', CHR ''.''}"
proof -
  let ?st = "fold (clean_step (hd p = CHR ''/'')) (split_on (CHR ''/'') p) []"
  have "set c \<subseteq> set p" if "c \<in> set ?st" for c using that fold_clean_components[of _ _ "[]"] split_on_chars by fastforce
  then have "set (join_with ''/'' (rev ?st)) \<subseteq> set p \<union> {CHR ''/''}" using set_join_with[of "''/''" "rev ?st"] by auto
  then show ?thesis by (auto simp: Clean_def Let_def)
qed

lemma to_slash_fixed: "CHR 0x5C \<notin> set p \<Longrightarrow> to_slash p = p"
  unfolding to_slash_def by (rule map_idI) auto

text \<open>The result of a normalisation.\<close>

lemma Normalize_form:
  assumes "trim_space p \<noteq> []"
  shows "\<exists>rooted st. clean_stack rooted st \<and> NormalizeWorkspacePath p = clean_form rooted st \<and> NormalizeWorkspacePath p = Clean (to_slash (trim_space p))
    \<and> CHR 0x5C \<notin> set (NormalizeWorkspacePath p)"
proof -
  let ?p = "to_slash (trim_space p)"
  have "CHR 0x5C \<notin> set ?p" by (auto simp: to_slash_def)
  then have nb: "CHR 0x5C \<notin> set (Clean ?p)" using Clean_chars[of ?p] by auto
  obtain rooted st where c: "clean_stack rooted st" "Clean ?p = clean_form rooted st"
    using Clean_form[of ?p] assms by (auto simp: to_slash_def)
  have "NormalizeWorkspacePath p = Clean ?p"
    using assms clean_form_suffix[OF c(1)] to_slash_fixed[OF nb]
    by (simp add: NormalizeWorkspacePath_def Let_def c(2) trim_suffix_def)
  then show ?thesis using c nb by auto
qed

text \<open>Normalising twice changes nothing but white space at the ends of the result.\<close>

lemma Normalize_idem:
  assumes "trim_space (NormalizeWorkspacePath p) = NormalizeWorkspacePath p"
  shows "NormalizeWorkspacePath (NormalizeWorkspacePath p) = NormalizeWorkspacePath p"
proof (cases "trim_space p = []")
  case False
  let ?q = "NormalizeWorkspacePath p"
  obtain rooted st where q: "clean_stack rooted st" "?q = clean_form rooted st" "CHR 0x5C \<notin> set ?q" using Normalize_form[OF False] by blast
  have "?q \<noteq> []" unfolding q(2) by (auto simp: clean_form_def Let_def)
  then have "NormalizeWorkspacePath ?q = Clean (to_slash ?q)" using Normalize_form[of ?q] assms by auto
  then show ?thesis using q Clean_clean_form to_slash_fixed by metis
qed (simp add: NormalizeWorkspacePath_def)

text \<open>The root of a drive loses its slash before the exception for it is reached.\<close>

lemma drive_root_lost: "NormalizeWorkspacePath [CHR ''C'', CHR '':'', CHR 0x5C] = ''C:''"
  by code_simp

section \<open>Resolution\<close>

lemma resolve_default:
  assumes i: "ws_inv s" and ok: "\<And>n. ok n" and w: "w \<in> set (st_workspaces s)" "ws_live w" "ws_DeviceID w \<noteq> []"
  shows "\<exists>d \<in> set (st_directories s). wd_live d \<and> wd_WorkspaceID d = ws_ID w
    \<and> ResolveWorkspaceForGateway ok (ws_ID w) (ws_UserID w) s = Inr (ws_DeviceID w, wd_Path d)
    \<and> ((\<exists>e \<in> set (st_directories s). wd_live e \<and> wd_WorkspaceID e = ws_ID w \<and> wd_IsDefault e) \<longrightarrow> wd_IsDefault d)"
proof -
  let ?P = "\<lambda>d. wd_live d \<and> wd_WorkspaceID d = ws_ID w"
  have f: "first_ws (\<lambda>v. ws_ID v = ws_ID w \<and> ws_UserID v = ws_UserID w) s = Some w"
    unfolding first_ws_def using w i unique_wsD by (intro First_unique) (auto simp: ws_inv_def)
  show ?thesis
  proof (cases "First wd_ID (\<lambda>d. wd_live d \<and> wd_WorkspaceID d = ws_ID w \<and> wd_IsDefault d) (st_directories s)")
    case (Some d)
    then show ?thesis using First_SomeD[OF Some] ok w(3) f by (intro bexI[of _ d]) (simp_all add: ResolveWorkspaceForGateway_def)
  next
    case None
    then have no: "\<not> (\<exists>e \<in> set (st_directories s). ?P e \<and> wd_IsDefault e)" unfolding First_None by simp
    have "has_dir s (ws_ID w)" using i w by (simp add: ws_inv_def)
    then have "find ?P (sort_key wd_OrderIndex (sort_key wd_ID (st_directories s))) \<noteq> None" by (auto simp: find_None_iff has_dir_def)
    then obtain d where d: "find ?P (sort_key wd_OrderIndex (sort_key wd_ID (st_directories s))) = Some d" by blast
    then show ?thesis using find_SomeD[OF d] ok w(3) f None no by (intro bexI[of _ d]) (auto simp: ResolveWorkspaceForGateway_def)
  qed
qed

section \<open>A small history\<close>

definition demo_dir :: "string \<Rightarrow> bool \<Rightarrow> CreateDirectoryRequest" where
  "demo_dir p b = \<lparr>cd_Name = ''n'', cd_Path = p, cd_IsDefault = b, cd_Settings = None\<rparr>"

definition demo_create :: "string \<Rightarrow> CreateDirectoryRequest list \<Rightarrow> CreateWorkspaceRequest" where
  "demo_create n ds = \<lparr>cw_Name = n, cw_Description = [], cw_DeviceID = ''dev'', cw_Directories = ds, cw_Settings = None\<rparr>"

definition demo_ids :: "string \<Rightarrow> ws_env" where
  "demo_ids x = \<lparr>we_ID = x, we_dirID = (\<lambda>i. x @ dec_string i), we_now = int (length x)\<rparr>"

definition demo_one :: ws_state where
  "demo_one = snd (CreateWorkspace (\<lambda>_. True) (demo_ids ''a'') None ''ann'' (demo_create ''home'' [demo_dir ''/a/'' False, demo_dir ''/b'' False])
     \<lparr>st_workspaces = [], st_directories = []\<rparr>)"

definition demo_two :: ws_state where
  "demo_two = snd (CreateWorkspace (\<lambda>_. True) (demo_ids ''bb'') None ''ann'' (demo_create ''work'' [demo_dir ''/c'' True]) demo_one)"

definition demo_three :: ws_state where
  "demo_three = snd (CreateWorkspace (\<lambda>_. True) (demo_ids ''ccc'') None ''bob'' (demo_create ''home'' [demo_dir ''/d'' True]) demo_two)"

definition demo_deleted :: ws_state where
  "demo_deleted = snd (DeleteWorkspace (\<lambda>_. True) 9 ''a'' ''ann'' demo_three)"

lemma demo_reach_three: "ws_reach True demo_three"
  unfolding demo_three_def demo_two_def demo_one_def
  by (intro ws_reach.step[OF _ ws_step.create] ws_reach.start) (simp_all add: demo_create_def)

lemma demo_reach_deleted: "ws_reach True demo_deleted"
  unfolding demo_deleted_def by (intro ws_reach.step[OF demo_reach_three ws_step.delete]) simp

text \<open>
  The promotion of a new default reaches every other directory where the statement has no limit, and paths that differ only before the
  normalisation are stored twice.
\<close>

lemma promotes_all:
  "(let s = snd (AddDirectory (\<lambda>_. True) (demo_ids ''dddd'') ''a'' ''ann'' (demo_dir ''/e'' False) demo_one);
        s' = snd (DeleteDirectory False (\<lambda>_. True) 9 ''a'' ''a0'' ''ann'' s)
    in map wd_IsDefault (sorted_dirs ''a'' s) = [True, False, False] \<and> map wd_IsDefault (sorted_dirs ''a'' s') = [True, True])"
  by code_simp

lemma same_path_twice:
  "(let s = snd (CreateWorkspace (\<lambda>_. True) (demo_ids ''a'') None ''ann'' (demo_create ''home'' [demo_dir ''/a/'' False, demo_dir ''/a'' False])
       \<lparr>st_workspaces = [], st_directories = []\<rparr>)
    in map wd_Path (sorted_dirs ''a'' s) = [''/a'', ''/a''])"
  by code_simp

text \<open>A workspace is bound to any device by an update, while its creation asks for one of the user.\<close>

lemma bind_foreign_device:
  "(let req = \<lparr>uw_Name = [], uw_Description = [], uw_DeviceID = ''id9'', uw_Settings = None, uw_Status = []\<rparr>;
        devs = Some \<lparr>ds_devices = [], ds_migrations = [], ds_users = [], ds_cache = []\<rparr>;
        s' = snd (UpdateWorkspace (\<lambda>_. True) 9 devs ''a'' ''ann'' req demo_one)
    in ResolveWorkspaceForGateway (\<lambda>_. True) ''a'' ''ann'' s' = Inr (''id9'', ''/a''))"
  by code_simp

section \<open>Properties\<close>

text \<open>
  The default workspace.  After any operations of any users, whatever statements fail, nobody has two default workspaces; and as
  long as the search for the heir of a deleted default is answered, everybody who has a workspace has exactly one, also right after the
  default was deleted.
\<close>

theorem default_workspace_unique:
  assumes "ws_reach careful s" and "w \<in> set (st_workspaces s)" and "ws_live w"
  shows "(\<forall>v \<in> set (st_workspaces s). \<forall>v' \<in> set (st_workspaces s).
      ws_live v \<and> ws_live v' \<and> ws_IsDefault v \<and> ws_IsDefault v' \<and> ws_UserID v = ws_UserID v' \<longrightarrow> v = v')
    \<and> (careful \<longrightarrow> (\<exists>!v. v \<in> set (st_workspaces s) \<and> ws_live v \<and> ws_IsDefault v \<and> ws_UserID v = ws_UserID w))"
proof -
  have i: "one_default s" "careful \<longrightarrow> has_default s" using ws_reach_inv[OF assms(1)] by (simp_all add: ws_inv_def)
  have "\<exists>!v. v \<in> set (st_workspaces s) \<and> ws_live v \<and> ws_IsDefault v \<and> ws_UserID v = ws_UserID w" if c: careful
  proof -
    obtain v where v: "v \<in> set (st_workspaces s)" "ws_live v" "ws_IsDefault v" "ws_UserID v = ws_UserID w"
      using i(2) c assms(2,3) unfolding has_default_def by blast
    show ?thesis
    proof (rule ex1I[of _ v])
      show "q = v" if "q \<in> set (st_workspaces s) \<and> ws_live q \<and> ws_IsDefault q \<and> ws_UserID q = ws_UserID w" for q
        using i(1) v that by (simp add: one_default_def)
    qed (use v in simp)
  qed
  then show ?thesis using i(1) by (simp add: one_default_def)
qed

theorem default_workspace_unique_witness:
  "(\<exists>!v. v \<in> set (st_workspaces demo_deleted) \<and> ws_live v \<and> ws_IsDefault v \<and> ws_UserID v = ''ann'')
    \<and> ws_IsDefault (hd (st_workspaces demo_three)) \<and> ws_ID (hd (st_workspaces demo_three)) = ''a''"
proof -
  have w: "st_workspaces demo_deleted ! 1 \<in> set (st_workspaces demo_deleted)" "ws_live (st_workspaces demo_deleted ! 1)"
    "ws_UserID (st_workspaces demo_deleted ! 1) = ''ann''" by code_simp+
  have "ws_IsDefault (hd (st_workspaces demo_three)) \<and> ws_ID (hd (st_workspaces demo_three)) = ''a''" by code_simp
  then show ?thesis using default_workspace_unique[OF demo_reach_deleted w(1,2)] unfolding w(3) by simp
qed

text \<open>
  C34. Users are isolated.  An operation of a user, successful or not, leaves the workspaces of all other users and the directories of
  these workspaces exactly as they are, whatever identifiers its request names.
\<close>

theorem workspaces_isolated:
  assumes "ws_reach careful s" and "ws_step careful u s s'"
  shows "filter (\<lambda>w. ws_UserID w \<noteq> u) (st_workspaces s') = filter (\<lambda>w. ws_UserID w \<noteq> u) (st_workspaces s)
    \<and> filter (\<lambda>d. wd_WorkspaceID d \<in> foreign u s) (st_directories s') = filter (\<lambda>d. wd_WorkspaceID d \<in> foreign u s) (st_directories s)"
  using step_keeps[OF assms(2)] ws_reach_inv[OF assms(1)] by (simp add: untouched_def)

theorem workspaces_isolated_witness:
  "filter (\<lambda>w. ws_UserID w \<noteq> ''ann'') (st_workspaces demo_deleted) = [st_workspaces demo_three ! 2]
    \<and> filter (\<lambda>d. wd_WorkspaceID d \<in> foreign ''ann'' demo_three) (st_directories demo_deleted) = [st_directories demo_three ! 3]"
proof -
  have s: "ws_step True ''ann'' demo_three demo_deleted" unfolding demo_deleted_def by (rule ws_step.delete) simp
  have "filter (\<lambda>w. ws_UserID w \<noteq> ''ann'') (st_workspaces demo_three) = [st_workspaces demo_three ! 2]"
    "filter (\<lambda>d. wd_WorkspaceID d \<in> foreign ''ann'' demo_three) (st_directories demo_three) = [st_directories demo_three ! 3]" by code_simp+
  then show ?thesis using workspaces_isolated[OF demo_reach_three s] by simp
qed

text \<open>
  A session always finds its directory.  In every state that operations reach, a workspace that is bound to a device resolves, for its
  owner and while the database answers, to that device and to the path of one of its directories, a default one if there is any.
\<close>

theorem ResolveWorkspaceForGateway_total:
  assumes "ws_reach careful s" and "\<And>n. ok n" and "w \<in> set (st_workspaces s)" and "ws_live w" and "ws_DeviceID w \<noteq> []"
  shows "\<exists>d \<in> set (st_directories s). wd_live d \<and> wd_WorkspaceID d = ws_ID w
    \<and> ResolveWorkspaceForGateway ok (ws_ID w) (ws_UserID w) s = Inr (ws_DeviceID w, wd_Path d)
    \<and> ((\<exists>e \<in> set (st_directories s). wd_live e \<and> wd_WorkspaceID e = ws_ID w \<and> wd_IsDefault e) \<longrightarrow> wd_IsDefault d)"
  using resolve_default[of s ok w] ws_reach_inv[OF assms(1)] assms(2-5) by blast

theorem ResolveWorkspaceForGateway_total_witness:
  "\<exists>d \<in> set (st_directories demo_three). wd_WorkspaceID d = ''a'' \<and> ResolveWorkspaceForGateway (\<lambda>_. True) ''a'' ''ann'' demo_three = Inr (''dev'', wd_Path d)"
proof -
  have w: "hd (st_workspaces demo_three) \<in> set (st_workspaces demo_three)" "ws_live (hd (st_workspaces demo_three))"
    "ws_DeviceID (hd (st_workspaces demo_three)) \<noteq> []" "ws_ID (hd (st_workspaces demo_three)) = ''a''"
    "ws_UserID (hd (st_workspaces demo_three)) = ''ann''" "ws_DeviceID (hd (st_workspaces demo_three)) = ''dev''" by code_simp+
  show ?thesis using ResolveWorkspaceForGateway_total[OF demo_reach_three _ w(1-3), where ok = "\<lambda>_. True"] unfolding w(4-6) by blast
qed

end
