(* ===== verification/Tenant_Config.thy ===== *)
theory Tenant_Config
  imports Prelude
begin

text \<open>
  The configuration of tenants (\<^verbatim>\<open>cs-user/internal/tenantconfig\<close>): the store of YAML documents, the typed section of identity
  providers with its merge into the document, the global defaults, and the cache in front of the effective mapping.

  The YAML library is the argument \<open>yaml_codec\<close>, with \<open>yaml_laws\<close> as what the code relies on; \<^verbatim>\<open>go-cache\<close> is the argument \<open>gocache\<close>
  with the locale \<open>go_cache\<close> as its documented behaviour; \<^verbatim>\<open>time.ParseDuration\<close> is an argument too.  A Go map is an association
  list with distinct keys.
\<close>

section \<open>Provider mappings\<close>

record EnterpriseSync =
  es_Interval :: string

record Provider =
  pv_Enabled :: "bool option"
  pv_Rank :: "int option"
  pv_FieldMap :: "(string \<times> string) list"
  pv_EnterpriseSync :: "EnterpriseSync option"

record ProviderMapping =
  pm_Version :: string
  pm_Providers :: "(string \<times> Provider) list"

datatype config_error =
    ErrInvalidYAML
  | ErrYAMLTooLarge
  | ErrEmptyTenantID
  | ErrProviderNameInvalid
  | ErrVersionInvalid
  | ErrIntervalInvalid
  | ErrRankNegative
  | MarshalError
  | ConfigDBError

definition CurrentSupportedVersion :: string where "CurrentSupportedVersion = ''1.0''"

definition empty_mapping :: ProviderMapping where
  "empty_mapping = \<lparr>pm_Version = [], pm_Providers = []\<rparr>"

definition name_char :: "char \<Rightarrow> bool" where
  "name_char c \<longleftrightarrow> (let n = of_char c :: nat in 97 \<le> n \<and> n \<le> 122 \<or> 48 \<le> n \<and> n \<le> 57 \<or> n = 95)"

definition providerNamePattern :: "string \<Rightarrow> bool" where
  "providerNamePattern s \<longleftrightarrow> 1 \<le> length s \<and> length s \<le> 64 \<and> list_all name_char s"

text \<open>Durations are in nanoseconds.\<close>

definition maxInterval :: int where "maxInterval = 30 * 24 * 3600 * 1000000000"

definition validateInterval :: "(string \<Rightarrow> int option) \<Rightarrow> string \<Rightarrow> bool" where
  "validateInterval parseDuration s =
     (if s = [] then True
      else case parseDuration s of None \<Rightarrow> False | Some d \<Rightarrow> 0 < d \<and> d \<le> maxInterval)"

text \<open>The loop over the providers, in the order Go happens to visit them.\<close>

fun validate_providers :: "(string \<Rightarrow> int option) \<Rightarrow> (string \<times> Provider) list \<Rightarrow> config_error + (string \<times> Provider) list" where
  "validate_providers pd [] = Inr []"
| "validate_providers pd ((name, p) # ps) =
     (if \<not> providerNamePattern name then Inl ErrProviderNameInvalid
      else if (case pv_Rank p of None \<Rightarrow> False | Some r \<Rightarrow> r < 0) then Inl ErrRankNegative
      else if (case pv_EnterpriseSync p of None \<Rightarrow> False | Some e \<Rightarrow> \<not> validateInterval pd (es_Interval e)) then Inl ErrIntervalInvalid
      else case validate_providers pd ps of
        Inl e \<Rightarrow> Inl e
      | Inr qs \<Rightarrow> Inr ((name, if pv_Enabled p = None then p\<lparr>pv_Enabled := Some True\<rparr> else p) # qs))"

text \<open>The argument is a pointer; the result is the mapping after the defaults were filled in.\<close>

definition Validate :: "(string \<Rightarrow> int option) \<Rightarrow> ProviderMapping option \<Rightarrow> config_error + ProviderMapping option" where
  "Validate pd m0 =
     (case m0 of
        None \<Rightarrow> Inr None
      | Some m \<Rightarrow>
          let version = (if pm_Version m = [] then CurrentSupportedVersion else pm_Version m)
          in if version \<noteq> CurrentSupportedVersion then Inl ErrVersionInvalid
             else case validate_providers pd (pm_Providers m) of
               Inl e \<Rightarrow> Inl e
             | Inr ps \<Rightarrow> Inr (Some \<lparr>pm_Version = version, pm_Providers = ps\<rparr>))"

section \<open>YAML\<close>

text \<open>
  A node of a document as \<^verbatim>\<open>yaml.Node\<close> has it, without positions, styles and comments.
\<close>

datatype ykind = DocumentNode | SequenceNode | MappingNode | ScalarNode | AliasNode | ZeroNode

datatype ynode = YNode (nKind: ykind) (nTag: string) (nValue: string) (nContent: "ynode list")

text \<open>
  The calls of the library: a document into a node, a node into an untyped value (which fails on repeated keys), the root of a document
  into the struct with the field \<^verbatim>\<open>provider_mapping\<close> (a nil pointer if it is absent), a value node into a mapping, the text
  of a node, and the text of the struct that holds a mapping.
\<close>

record yaml_codec =
  y_parse :: "string \<Rightarrow> ynode option"
  y_any :: "ynode \<Rightarrow> bool"
  y_section :: "ynode \<Rightarrow> ProviderMapping option option"
  y_value :: "ynode \<Rightarrow> ProviderMapping option option"
  y_print :: "ynode \<Rightarrow> string option"
  y_marshal :: "ProviderMapping \<Rightarrow> string option"

definition section_key :: string where "section_key = ''provider_mapping''"

definition unwrap :: "ynode \<Rightarrow> ynode" where
  "unwrap n = (if nKind n = DocumentNode \<and> nContent n \<noteq> [] then hd (nContent n) else n)"

definition yaml_valid :: "yaml_codec \<Rightarrow> string \<Rightarrow> bool" where
  "yaml_valid codec s = (case y_parse codec s of None \<Rightarrow> False | Some n \<Rightarrow> y_any codec (unwrap n))"

definition ParseProviderMapping :: "yaml_codec \<Rightarrow> string \<Rightarrow> config_error + ProviderMapping" where
  "ParseProviderMapping codec rawYAML =
     (if trim_space rawYAML = [] then Inr empty_mapping
      else case y_parse codec rawYAML of
        None \<Rightarrow> Inl ErrInvalidYAML
      | Some n \<Rightarrow>
          (case y_section codec (unwrap n) of
             None \<Rightarrow> Inl ErrInvalidYAML
           | Some None \<Rightarrow> Inr empty_mapping
           | Some (Some m) \<Rightarrow> Inr m))"

definition SerializeProviderMapping :: "yaml_codec \<Rightarrow> ProviderMapping option \<Rightarrow> config_error + string" where
  "SerializeProviderMapping codec m0 =
     (case y_marshal codec (case m0 of None \<Rightarrow> empty_mapping | Some m \<Rightarrow> m) of None \<Rightarrow> Inl MarshalError | Some s \<Rightarrow> Inr s)"

text \<open>The walk over the keys and values of the root: the first value under the key is replaced.\<close>

fun replace_value :: "string \<Rightarrow> ynode option \<Rightarrow> ynode list \<Rightarrow> ynode list option" where
  "replace_value key v (k # x # rest) =
     (if nValue k = key then Some (k # (case v of None \<Rightarrow> x | Some y \<Rightarrow> y) # rest)
      else map_option (\<lambda>r. k # x # r) (replace_value key v rest))"
| "replace_value key v _ = None"

definition section_value :: "ynode \<Rightarrow> ynode option" where
  "section_value n = (if nKind n = MappingNode \<and> 2 \<le> length (nContent n) then Some (nContent n ! 1) else None)"

definition key_node :: ynode where
  "key_node = YNode ScalarNode ''!!str'' section_key []"

definition merged_content :: "ynode option \<Rightarrow> ynode list \<Rightarrow> ynode list" where
  "merged_content v content =
     (case replace_value section_key v content of
        Some c \<Rightarrow> c
      | None \<Rightarrow> (case v of None \<Rightarrow> content | Some y \<Rightarrow> content @ [key_node, y]))"

definition with_content :: "ynode list \<Rightarrow> ynode \<Rightarrow> ynode" where
  "with_content c n = YNode (nKind n) (nTag n) (nValue n) c"

definition mergeProviderMappingSection :: "yaml_codec \<Rightarrow> string \<Rightarrow> string \<Rightarrow> config_error + string" where
  "mergeProviderMappingSection codec blob0 section0 =
     (let blob = trim_space blob0; section = trim_space section0
      in if blob = [] \<or> blob = ''{}'' then Inr section
         else case y_parse codec blob of
           None \<Rightarrow> Inl ErrInvalidYAML
         | Some doc \<Rightarrow>
             let root = unwrap doc
             in if nKind root \<noteq> MappingNode \<or> nContent root = [] then Inr section
                else case y_parse codec section of
                  None \<Rightarrow> Inl ErrInvalidYAML
                | Some sec \<Rightarrow>
                    (case y_print codec (with_content (merged_content (section_value (unwrap sec)) (nContent root)) root) of
                       None \<Rightarrow> Inl MarshalError | Some s \<Rightarrow> Inr s))"

section \<open>The store\<close>

record TenantConfig =
  tc_TenantID :: string
  tc_ConfigYAML :: string
  tc_UpdatedBy :: "string option"
  tc_UpdatedAt :: int
  tc_CreatedAt :: int

definition MaxYAMLLength :: nat where "MaxYAMLLength = 64 * 1024"

definition config_row :: "string \<Rightarrow> TenantConfig list \<Rightarrow> TenantConfig option" where
  "config_row tenantID db = find (\<lambda>t. tc_TenantID t = tenantID) db"

definition Get :: "bool \<Rightarrow> string \<Rightarrow> TenantConfig list \<Rightarrow> config_error + TenantConfig" where
  "Get ok tenantID db =
     (if tenantID = [] then Inl ErrEmptyTenantID
      else if \<not> ok then Inl ConfigDBError
      else case config_row tenantID db of
        None \<Rightarrow> Inr \<lparr>tc_TenantID = tenantID, tc_ConfigYAML = ''{}'', tc_UpdatedBy = None, tc_UpdatedAt = 0, tc_CreatedAt = 0\<rparr>
      | Some t \<Rightarrow> Inr t)"

definition stamp_row :: "int \<Rightarrow> string \<Rightarrow> string option \<Rightarrow> TenantConfig \<Rightarrow> TenantConfig" where
  "stamp_row now yamlStr updatedBy t = t\<lparr>tc_ConfigYAML := yamlStr, tc_UpdatedBy := updatedBy, tc_UpdatedAt := now\<rparr>"

definition written_row :: "int \<Rightarrow> string \<Rightarrow> string \<Rightarrow> string option \<Rightarrow> TenantConfig list \<Rightarrow> TenantConfig" where
  "written_row now tenantID yamlStr updatedBy db =
     (case config_row tenantID db of
        None \<Rightarrow> \<lparr>tc_TenantID = tenantID, tc_ConfigYAML = yamlStr, tc_UpdatedBy = updatedBy, tc_UpdatedAt = now, tc_CreatedAt = now\<rparr>
      | Some existing \<Rightarrow> stamp_row now yamlStr updatedBy existing)"

definition write_row :: "int \<Rightarrow> string \<Rightarrow> string \<Rightarrow> string option \<Rightarrow> TenantConfig list \<Rightarrow> TenantConfig list" where
  "write_row now tenantID yamlStr updatedBy db =
     (case config_row tenantID db of
        None \<Rightarrow> db @ [written_row now tenantID yamlStr updatedBy db]
      | Some _ \<Rightarrow> map (\<lambda>t. if tc_TenantID t = tenantID then stamp_row now yamlStr updatedBy t else t) db)"

section \<open>The cache\<close>

text \<open>The interface \<^verbatim>\<open>Cacher\<close>, and the operations of \<^verbatim>\<open>go-cache\<close>; \<open>gc_elapse\<close> is the passing of time, which may drop items.\<close>

record 'c Cacher =
  ca_Get :: "string \<Rightarrow> 'c \<Rightarrow> ProviderMapping option"
  ca_Set :: "string \<Rightarrow> ProviderMapping \<Rightarrow> 'c \<Rightarrow> 'c"
  ca_Invalidate :: "string \<Rightarrow> 'c \<Rightarrow> 'c"
  ca_InvalidateAll :: "'c \<Rightarrow> 'c"
  ca_elapse :: "'c \<Rightarrow> 'c"

record 'c gocache =
  gc_Get :: "string \<Rightarrow> 'c \<Rightarrow> ProviderMapping option"
  gc_Set :: "string \<Rightarrow> ProviderMapping \<Rightarrow> 'c \<Rightarrow> 'c"
  gc_Delete :: "string \<Rightarrow> 'c \<Rightarrow> 'c"
  gc_Flush :: "'c \<Rightarrow> 'c"
  gc_elapse :: "'c \<Rightarrow> 'c"

definition cacheKeyPrefix :: string where "cacheKeyPrefix = ''provider_mapping:tenant:''"

definition cacheKey :: "string \<Rightarrow> string" where
  "cacheKey tenantID = cacheKeyPrefix @ tenantID"

definition memoryCache :: "'c gocache \<Rightarrow> 'c Cacher" where
  "memoryCache gops =
     \<lparr>ca_Get = (\<lambda>tenantID c. gc_Get gops (cacheKey tenantID) c),
      ca_Set = (\<lambda>tenantID mapping c. gc_Set gops (cacheKey tenantID) mapping c),
      ca_Invalidate = (\<lambda>tenantID c. gc_Delete gops (cacheKey tenantID) c),
      ca_InvalidateAll = gc_Flush gops,
      ca_elapse = gc_elapse gops\<rparr>"

section \<open>The service\<close>

text \<open>
  The state is the table and the cache that updates invalidate.  \<open>dbok\<close> says which statements succeed: the lookup, the write and the
  commit of the transaction.
\<close>

record 'c config_state =
  cs_db :: "TenantConfig list"
  cs_cache :: 'c

definition Update ::
  "yaml_codec \<Rightarrow> 'c Cacher \<Rightarrow> (nat \<Rightarrow> bool) \<Rightarrow> int \<Rightarrow> string \<Rightarrow> string \<Rightarrow> string option \<Rightarrow> 'c config_state \<Rightarrow>
   (config_error + TenantConfig) \<times> 'c config_state" where
  "Update codec cacher dbok now tenantID configYAML updatedBy s =
     (if tenantID = [] then (Inl ErrEmptyTenantID, s)
      else
        let yamlStr = (if trim_space configYAML = [] then ''{}'' else trim_space configYAML)
        in if MaxYAMLLength < length yamlStr then (Inl ErrYAMLTooLarge, s)
           else if \<not> yaml_valid codec yamlStr then (Inl ErrInvalidYAML, s)
           else if \<not> dbok 0 \<or> \<not> dbok 1 \<or> \<not> dbok 2 then (Inl ConfigDBError, s)
           else (Inr (written_row now tenantID yamlStr updatedBy (cs_db s)),
                 \<lparr>cs_db = write_row now tenantID yamlStr updatedBy (cs_db s),
                  cs_cache = ca_Invalidate cacher tenantID (cs_cache s)\<rparr>))"


definition UpdateProviderMapping ::
  "yaml_codec \<Rightarrow> (string \<Rightarrow> int option) \<Rightarrow> 'c Cacher \<Rightarrow> (nat \<Rightarrow> bool) \<Rightarrow> int \<Rightarrow> string \<Rightarrow> ProviderMapping option \<Rightarrow> string option \<Rightarrow>
   'c config_state \<Rightarrow> (config_error + ProviderMapping) \<times> 'c config_state" where
  "UpdateProviderMapping codec pd cacher dbok now tenantID mapping0 updatedBy s =
     (if tenantID = [] then (Inl ErrEmptyTenantID, s)
      else case Validate pd mapping0 of
        Inl e \<Rightarrow> (Inl e, s)
      | Inr mapping \<Rightarrow>
          (case SerializeProviderMapping codec mapping of
             Inl e \<Rightarrow> (Inl e, s)
           | Inr section \<Rightarrow>
               (case Get (dbok 3) tenantID (cs_db s) of
                  Inl e \<Rightarrow> (Inl e, s)
                | Inr t \<Rightarrow>
                    (case mergeProviderMappingSection codec (tc_ConfigYAML t) section of
                       Inl e \<Rightarrow> (Inl e, s)
                     | Inr merged \<Rightarrow>
                         (case Update codec cacher dbok now tenantID merged updatedBy s of
                            (Inl e, s') \<Rightarrow> (Inl e, s')
                          | (Inr _, s') \<Rightarrow>
                              (ParseProviderMapping codec merged, s'\<lparr>cs_cache := ca_Invalidate cacher tenantID (cs_cache s')\<rparr>))))))"

text \<open>The global defaults.\<close>

definition provider :: "bool \<Rightarrow> int \<Rightarrow> string option \<Rightarrow> (string \<times> string) list \<Rightarrow> Provider" where
  "provider enabled rank interval fm =
     \<lparr>pv_Enabled = Some enabled, pv_Rank = Some rank, pv_FieldMap = fm,
      pv_EnterpriseSync = map_option (\<lambda>i. \<lparr>es_Interval = i\<rparr>) interval\<rparr>"

definition GlobalProviderMapping :: ProviderMapping where
  "GlobalProviderMapping =
     \<lparr>pm_Version = CurrentSupportedVersion,
      pm_Providers =
        [(''github'', provider True 100 None
            [(''login'', ''username''), (''name'', ''display_name''), (''email'', ''email''), (''avatar_url'', ''picture'')]),
         (''google'', provider True 100 None
            [(''email'', ''email''), (''given_name'', ''first_name''), (''family_name'', ''last_name''), (''picture'', ''picture''),
             (''email_verified'', ''email_verified'')]),
         (''password'', provider True 0 None []),
         (''idtrust'', provider True 300 (Some ''24h'')
            [(''employee_number'', ''employee_number''), (''cost_center'', ''cost_center''), (''department'', ''department''),
             (''title'', ''job_title''), (''manager'', ''manager'')]),
         (''azure_ad'', provider True 300 (Some ''24h'')
            [(''employeeId'', ''employee_number''), (''department'', ''department''), (''jobTitle'', ''job_title''), (''mail'', ''email''),
             (''userPrincipalName'', ''username'')]),
         (''ldap'', provider False 300 (Some ''24h'')
            [(''uid'', ''username''), (''cn'', ''display_name''), (''mail'', ''email''), (''employeeNumber'', ''employee_number''),
             (''departmentNumber'', ''department'')]),
         (''feishu'', provider False 300 (Some ''24h'')
            [(''user_id'', ''provider_user_id''), (''name'', ''display_name''), (''email'', ''email''), (''mobile'', ''phone''),
             (''employee_no'', ''employee_number''), (''department'', ''department'')]),
         (''dingtalk'', provider False 300 (Some ''24h'')
            [(''userid'', ''provider_user_id''), (''nickname'', ''display_name''), (''email'', ''email''), (''mobile'', ''phone''),
             (''job_number'', ''employee_number''), (''dept_name'', ''department'')]),
         (''wecom'', provider False 300 (Some ''24h'')
            [(''userid'', ''provider_user_id''), (''name'', ''display_name''), (''email'', ''email''), (''mobile'', ''phone''),
             (''gender'', ''gender''), (''department'', ''department'')])]\<rparr>"

definition overlay :: "(string \<times> Provider) list \<Rightarrow> (string \<times> Provider) list \<Rightarrow> (string \<times> Provider) list" where
  "overlay ps base = fold (\<lambda>(name, p). AList.update name p) ps base"

definition LoadProviderMapping :: "yaml_codec \<Rightarrow> bool \<Rightarrow> string \<Rightarrow> TenantConfig list \<Rightarrow> config_error + ProviderMapping" where
  "LoadProviderMapping codec ok tenantID db =
     (if tenantID = [] then Inl ErrEmptyTenantID
      else case Get ok tenantID db of
        Inl e \<Rightarrow> Inl e
      | Inr t \<Rightarrow>
          (case ParseProviderMapping codec (tc_ConfigYAML t) of
             Inl _ \<Rightarrow> Inr GlobalProviderMapping
           | Inr tenantMapping \<Rightarrow>
               Inr \<lparr>pm_Version = pm_Version GlobalProviderMapping,
                    pm_Providers = overlay (pm_Providers tenantMapping) (pm_Providers GlobalProviderMapping)\<rparr>))"

definition GetEnabledProviders :: "yaml_codec \<Rightarrow> bool \<Rightarrow> string \<Rightarrow> TenantConfig list \<Rightarrow> config_error + string list" where
  "GetEnabledProviders codec ok tenantID db =
     (case LoadProviderMapping codec ok tenantID db of
        Inl e \<Rightarrow> Inl e
      | Inr mapping \<Rightarrow> Inr (map fst (filter (\<lambda>(name, p). pv_Enabled p = Some True) (pm_Providers mapping))))"

text \<open>The cached service.\<close>

definition cached_LoadProviderMapping ::
  "yaml_codec \<Rightarrow> 'c Cacher \<Rightarrow> bool \<Rightarrow> string \<Rightarrow> 'c config_state \<Rightarrow> (config_error + ProviderMapping) \<times> 'c config_state" where
  "cached_LoadProviderMapping codec cacher ok tenantID s =
     (case ca_Get cacher tenantID (cs_cache s) of
        Some mapping \<Rightarrow> (Inr mapping, s)
      | None \<Rightarrow>
          (case LoadProviderMapping codec ok tenantID (cs_db s) of
             Inl e \<Rightarrow> (Inl e, s)
           | Inr mapping \<Rightarrow> (Inr mapping, s\<lparr>cs_cache := ca_Set cacher tenantID mapping (cs_cache s)\<rparr>)))"

definition InvalidateProviderMappingCache :: "'c Cacher \<Rightarrow> string \<Rightarrow> 'c config_state \<Rightarrow> 'c config_state" where
  "InvalidateProviderMappingCache cacher tenantID s = s\<lparr>cs_cache := ca_Invalidate cacher tenantID (cs_cache s)\<rparr>"

definition InvalidateAllCaches :: "'c Cacher \<Rightarrow> 'c config_state \<Rightarrow> 'c config_state" where
  "InvalidateAllCaches cacher s = s\<lparr>cs_cache := ca_InvalidateAll cacher (cs_cache s)\<rparr>"

definition cached_GetEnabledProviders :: "yaml_codec \<Rightarrow> bool \<Rightarrow> string \<Rightarrow> 'c config_state \<Rightarrow> config_error + string list" where
  "cached_GetEnabledProviders codec ok tenantID s = GetEnabledProviders codec ok tenantID (cs_db s)"

section \<open>The rows\<close>

lemma find_map_same: "(\<And>x. P (f x) = P x) \<Longrightarrow> find P (map f xs) = map_option f (find P xs)"
  by (induction xs) auto

lemma find_append_None: "find P xs = None \<Longrightarrow> find P (xs @ ys) = find P ys"
  by (induction xs) (auto split: if_splits)

lemma find_append_Some: "find P xs = Some x \<Longrightarrow> find P (xs @ ys) = Some x"
  by (induction xs) (auto split: if_splits)

lemma config_row_write:
  "config_row t (write_row now tenantID y by db) = (if t = tenantID then Some (written_row now tenantID y by db) else config_row t db)"
proof (cases "config_row tenantID db")
  case None
  then show ?thesis
    by (cases "find (\<lambda>r. tc_TenantID r = t) db")
      (auto simp: config_row_def write_row_def written_row_def find_append_None find_append_Some)
next
  case (Some r)
  let ?f = "\<lambda>r. if tc_TenantID r = tenantID then stamp_row now y by r else r"
  have w: "write_row now tenantID y by db = map ?f db" using Some by (simp add: write_row_def)
  have "find (\<lambda>r. tc_TenantID r = t) (map ?f db) = map_option ?f (find (\<lambda>r. tc_TenantID r = t) db)"
    by (rule find_map_same) (simp add: stamp_row_def)
  then have f: "config_row t (write_row now tenantID y by db) = map_option ?f (config_row t db)" by (simp add: w config_row_def)
  show ?thesis
  proof (cases "config_row t db")
    case None
    then show ?thesis using f Some by auto
  next
    case (Some q)
    moreover have "tc_TenantID q = t" using Some find_SomeD by (fastforce simp: config_row_def)
    ultimately show ?thesis using f \<open>config_row tenantID db = Some r\<close> by (auto simp: written_row_def)
  qed
qed

text \<open>What the tenants see of the table.\<close>

definition config_of :: "string \<Rightarrow> TenantConfig list \<Rightarrow> string" where
  "config_of tenantID db = (case config_row tenantID db of None \<Rightarrow> ''{}'' | Some t \<Rightarrow> tc_ConfigYAML t)"

lemma config_of_write: "config_of t (write_row now tenantID y by db) = (if t = tenantID then y else config_of t db)"
  by (auto simp: config_of_def config_row_write written_row_def stamp_row_def split: option.splits)

lemma Get_config: "tenantID \<noteq> [] \<Longrightarrow> \<exists>t. Get True tenantID db = Inr t \<and> tc_ConfigYAML t = config_of tenantID db"
  by (auto simp: Get_def config_of_def split: option.split)

lemma LoadProviderMapping_cong: "config_of t db = config_of t db' \<Longrightarrow> LoadProviderMapping codec True t db = LoadProviderMapping codec True t db'"
  using Get_config[of t db] Get_config[of t db'] by (auto simp: LoadProviderMapping_def)

lemma LoadProviderMapping_ok: "LoadProviderMapping codec ok t db = Inr m \<Longrightarrow> LoadProviderMapping codec True t db = Inr m"
  by (auto simp: LoadProviderMapping_def Get_def split: if_splits sum.splits)

lemma Update_cases:
  obtains (refused) e where "Update codec cacher dbok now t y by s = (Inl e, s)"
  | (written) yamlStr where "t \<noteq> []" "yamlStr = (if trim_space y = [] then ''{}'' else trim_space y)"
      "Update codec cacher dbok now t y by s = (Inr (written_row now t yamlStr by (cs_db s)),
         \<lparr>cs_db = write_row now t yamlStr by (cs_db s), cs_cache = ca_Invalidate cacher t (cs_cache s)\<rparr>)"
  unfolding Update_def Let_def by (smt (verit))

lemma UpdateProviderMapping_cases:
  obtains (refused) e where "UpdateProviderMapping codec pd ops dbok now t m by s = (Inl e, s)"
  | (merged) m' sec row merged where "t \<noteq> []" "Validate pd m = Inr m'" "SerializeProviderMapping codec m' = Inr sec"
      "Get (dbok 3) t (cs_db s) = Inr row" "mergeProviderMappingSection codec (tc_ConfigYAML row) sec = Inr merged"
      "UpdateProviderMapping codec pd ops dbok now t m by s =
        (case Update codec ops dbok now t merged by s of
           (Inl e, s') \<Rightarrow> (Inl e, s')
         | (Inr _, s') \<Rightarrow> (ParseProviderMapping codec merged, s'\<lparr>cs_cache := ca_Invalidate ops t (cs_cache s')\<rparr>))"
proof (cases "t = []")
  case False
  show ?thesis
  proof (cases "Validate pd m")
    case m: (Inr m')
    show ?thesis
    proof (cases "SerializeProviderMapping codec m'")
      case sec: (Inr sec)
      show ?thesis
      proof (cases "Get (dbok 3) t (cs_db s)")
        case row: (Inr row)
        show ?thesis
        proof (cases "mergeProviderMappingSection codec (tc_ConfigYAML row) sec")
          case (Inr merged)
          then show ?thesis using merged[OF False m sec row Inr] False m sec row by (simp add: UpdateProviderMapping_def)
        qed (use refused False m sec row in \<open>simp add: UpdateProviderMapping_def\<close>)
      qed (use refused False m sec in \<open>simp add: UpdateProviderMapping_def\<close>)
    qed (use refused False m in \<open>simp add: UpdateProviderMapping_def\<close>)
  qed (use refused False in \<open>simp add: UpdateProviderMapping_def\<close>)
qed (use refused in \<open>simp add: UpdateProviderMapping_def\<close>)

lemma UpdateProviderMapping_effect:
  "snd (UpdateProviderMapping codec pd ops dbok now t m by s) = s \<or>
   (\<exists>y. snd (UpdateProviderMapping codec pd ops dbok now t m by s) =
      (let s' = snd (Update codec ops dbok now t y by s) in s'\<lparr>cs_cache := ca_Invalidate ops t (cs_cache s')\<rparr>))"
proof (cases codec pd ops dbok now t m "by" s rule: UpdateProviderMapping_cases)
  case (merged m' sec row merged)
  show ?thesis
  proof (cases codec ops dbok now t merged "by" s rule: Update_cases)
    case (written yamlStr)
    then show ?thesis using merged(6) by (intro disjI2 exI[of _ merged]) simp
  qed (use merged(6) in simp)
qed simp

section \<open>Contracts of the caches\<close>

locale cacher =
  fixes ops :: "'c Cacher"
  assumes Get_Set: "ca_Get ops t (ca_Set ops u m c) = Some n \<Longrightarrow> if t = u then n = m else ca_Get ops t c = Some n"
    and Get_Invalidate: "ca_Get ops t (ca_Invalidate ops u c) = Some n \<Longrightarrow> t \<noteq> u \<and> ca_Get ops t c = Some n"
    and Get_InvalidateAll: "ca_Get ops t (ca_InvalidateAll ops c) = None"
    and Get_elapse: "ca_Get ops t (ca_elapse ops c) = Some n \<Longrightarrow> ca_Get ops t c = Some n"
begin

text \<open>Whatever is cached is what the database says.\<close>

definition coherent :: "yaml_codec \<Rightarrow> 'c config_state \<Rightarrow> bool" where
  "coherent codec s \<longleftrightarrow> (\<forall>t m. ca_Get ops t (cs_cache s) = Some m \<longrightarrow> LoadProviderMapping codec True t (cs_db s) = Inr m)"

lemma coherent_load: "coherent codec s \<Longrightarrow> coherent codec (snd (cached_LoadProviderMapping codec ops ok t s))"
  by (auto simp: coherent_def cached_LoadProviderMapping_def split: option.splits sum.splits
      dest!: Get_Set dest: LoadProviderMapping_ok split: if_splits)

lemma coherent_invalidate: "coherent codec s \<Longrightarrow> coherent codec (s\<lparr>cs_cache := ca_Invalidate ops t (cs_cache s)\<rparr>)"
  by (auto simp: coherent_def dest: Get_Invalidate)

lemma coherent_update: "coherent codec s \<Longrightarrow> coherent codec (snd (Update codec ops dbok now t y by s))"
proof (cases codec ops dbok now t y "by" s rule: Update_cases)
  case (written yamlStr)
  assume c: "coherent codec s"
  have "LoadProviderMapping codec True u (write_row now t yamlStr by (cs_db s)) = Inr n"
    if hit: "ca_Get ops u (ca_Invalidate ops t (cs_cache s)) = Some n" for u n
  proof -
    have u: "u \<noteq> t" "ca_Get ops u (cs_cache s) = Some n" using Get_Invalidate[OF hit] by simp_all
    then have "LoadProviderMapping codec True u (cs_db s) = Inr n" using c by (simp add: coherent_def)
    moreover have "config_of u (write_row now t yamlStr by (cs_db s)) = config_of u (cs_db s)" using u by (simp add: config_of_write)
    ultimately show ?thesis using LoadProviderMapping_cong by metis
  qed
  then show ?thesis unfolding written(3) coherent_def by simp
qed simp

lemma coherent_update_mapping: "coherent codec s \<Longrightarrow> coherent codec (snd (UpdateProviderMapping codec pd ops dbok now t m by s))"
  using UpdateProviderMapping_effect[of codec pd ops dbok now t m "by" s]
proof
  assume c: "coherent codec s"
  assume "\<exists>y. snd (UpdateProviderMapping codec pd ops dbok now t m by s) =
      (let s' = snd (Update codec ops dbok now t y by s) in s'\<lparr>cs_cache := ca_Invalidate ops t (cs_cache s')\<rparr>)"
  then obtain y where "snd (UpdateProviderMapping codec pd ops dbok now t m by s) =
      (let s' = snd (Update codec ops dbok now t y by s) in s'\<lparr>cs_cache := ca_Invalidate ops t (cs_cache s')\<rparr>)" ..
  then show ?thesis using coherent_invalidate[OF coherent_update[OF c, of dbok now t y "by"], of t] by (simp only: Let_def)
qed simp

lemma coherent_invalidate_all: "coherent codec (s\<lparr>cs_cache := ca_InvalidateAll ops (cs_cache s)\<rparr>)"
  by (simp add: coherent_def Get_InvalidateAll)

lemma coherent_elapse: "coherent codec s \<Longrightarrow> coherent codec (s\<lparr>cs_cache := ca_elapse ops (cs_cache s)\<rparr>)"
  by (auto simp: coherent_def dest: Get_elapse)

lemma coherent_answer:
  assumes "coherent codec s"
  shows "fst (cached_LoadProviderMapping codec ops ok t s) \<in>
    {LoadProviderMapping codec True t (cs_db s), LoadProviderMapping codec ok t (cs_db s)}"
  using assms by (auto simp: coherent_def cached_LoadProviderMapping_def split: option.split sum.split)

end

lemma cacheKey_inject [simp]: "cacheKey t = cacheKey u \<longleftrightarrow> t = u"
  by (simp add: cacheKey_def)

text \<open>
  What \<^verbatim>\<open>go-cache\<close> promises: an item is found right after it was set and is lost by deleting it, by flushing the cache or
  when it expires; nothing else is found.
\<close>

locale go_cache =
  fixes gops :: "'c gocache"
  assumes gc_Get_Set: "gc_Get gops k (gc_Set gops l m c) = (if k = l then Some m else gc_Get gops k c)"
    and gc_Get_Delete: "gc_Get gops k (gc_Delete gops l c) = (if k = l then None else gc_Get gops k c)"
    and gc_Get_Flush: "gc_Get gops k (gc_Flush gops c) = None"
    and gc_Get_elapse: "gc_Get gops k (gc_elapse gops c) = Some m \<Longrightarrow> gc_Get gops k c = Some m"

sublocale go_cache \<subseteq> mem: cacher "memoryCache gops"
  by unfold_locales
    (auto simp: memoryCache_def gc_Get_Set gc_Get_Delete gc_Get_Flush dest: gc_Get_elapse split: if_splits)

section \<open>Runs of the service\<close>

text \<open>
  The operations on the service and its cache, each as one step; time passes between them.  The cache starts empty.
\<close>

inductive cfg_step :: "yaml_codec \<Rightarrow> (string \<Rightarrow> int option) \<Rightarrow> 'c gocache \<Rightarrow> 'c config_state \<Rightarrow> 'c config_state \<Rightarrow> bool"
  for codec pd gops where
  step_load: "cfg_step codec pd gops s (snd (cached_LoadProviderMapping codec (memoryCache gops) ok t s))"
| step_update: "cfg_step codec pd gops s (snd (Update codec (memoryCache gops) dbok now t y updatedBy s))"
| step_mapping: "cfg_step codec pd gops s (snd (UpdateProviderMapping codec pd (memoryCache gops) dbok now t m updatedBy s))"
| step_invalidate: "cfg_step codec pd gops s (InvalidateProviderMappingCache (memoryCache gops) t s)"
| step_invalidate_all: "cfg_step codec pd gops s (InvalidateAllCaches (memoryCache gops) s)"
| step_elapse: "cfg_step codec pd gops s (s\<lparr>cs_cache := gc_elapse gops (cs_cache s)\<rparr>)"

inductive_cases cfg_stepE: "cfg_step codec pd gops s s'"

inductive cfg_reach :: "yaml_codec \<Rightarrow> (string \<Rightarrow> int option) \<Rightarrow> 'c gocache \<Rightarrow> 'c config_state \<Rightarrow> bool" for codec pd gops where
  reach_init: "(\<And>k. gc_Get gops k c = None) \<Longrightarrow> cfg_reach codec pd gops \<lparr>cs_db = db, cs_cache = c\<rparr>"
| reach_step: "cfg_reach codec pd gops s \<Longrightarrow> cfg_step codec pd gops s s' \<Longrightarrow> cfg_reach codec pd gops s'"

context go_cache
begin

lemma step_coherent: "cfg_step codec pd gops s s' \<Longrightarrow> mem.coherent codec s \<Longrightarrow> mem.coherent codec s'"
proof (erule cfg_stepE)
  show "mem.coherent codec s'" if "mem.coherent codec s" "s' = s\<lparr>cs_cache := gc_elapse gops (cs_cache s)\<rparr>"
    using mem.coherent_elapse[OF that(1)] that(2) by (simp add: memoryCache_def)
qed (simp_all add: mem.coherent_load mem.coherent_update mem.coherent_update_mapping mem.coherent_invalidate
    mem.coherent_invalidate_all InvalidateProviderMappingCache_def InvalidateAllCaches_def)

lemma reach_coherent: "cfg_reach codec pd gops s \<Longrightarrow> mem.coherent codec s"
proof (induction rule: cfg_reach.induct)
  case (reach_init c db)
  then show ?case unfolding mem.coherent_def by (simp add: memoryCache_def)
next
  case (reach_step s s')
  then show ?case by (blast intro: step_coherent)
qed

lemma reach_answer:
  "cfg_reach codec pd gops s \<Longrightarrow>
   fst (cached_LoadProviderMapping codec (memoryCache gops) ok t s) \<in>
     {LoadProviderMapping codec True t (cs_db s), LoadProviderMapping codec ok t (cs_db s)}"
  by (rule mem.coherent_answer) (rule reach_coherent)

end

text \<open>A cache whose items carry the number of ticks they have left.\<close>

definition ttl_live :: "(string \<times> ProviderMapping \<times> nat) list \<Rightarrow> string \<Rightarrow> ProviderMapping option" where
  "ttl_live c k = map_option fst (map_of c k)"

definition ttl_cache :: "(string \<times> ProviderMapping \<times> nat) list gocache" where
  "ttl_cache =
     \<lparr>gc_Get = (\<lambda>k c. ttl_live c k),
      gc_Set = (\<lambda>k m c. (k, m, 5) # AList.delete k c),
      gc_Delete = AList.delete,
      gc_Flush = (\<lambda>c. []),
      gc_elapse = (\<lambda>c. if list_all (\<lambda>(k, m, n). Suc 0 < n) c then map (\<lambda>(k, m, n). (k, m, n - Suc 0)) c else [])\<rparr>"

lemma ttl_tick: "map_of (map (\<lambda>(k, m, n). (k, m, n - Suc 0)) c) k = map_option (\<lambda>(m, n). (m, n - Suc 0)) (map_of c k)"
  by (induction c) auto

interpretation ttl: go_cache ttl_cache
  by unfold_locales
    (auto simp: ttl_cache_def ttl_live_def delete_conv' ttl_tick split: if_splits)

section \<open>Validation\<close>

definition provider_ok :: "(string \<Rightarrow> int option) \<Rightarrow> string \<times> Provider \<Rightarrow> bool" where
  "provider_ok pd np =
     (let p = snd np
      in providerNamePattern (fst np)
         \<and> (case pv_Rank p of None \<Rightarrow> True | Some r \<Rightarrow> 0 \<le> r)
         \<and> (case pv_EnterpriseSync p of None \<Rightarrow> True | Some e \<Rightarrow> validateInterval pd (es_Interval e)))"

definition mapping_ok :: "(string \<Rightarrow> int option) \<Rightarrow> ProviderMapping \<Rightarrow> bool" where
  "mapping_ok pd m \<longleftrightarrow> pm_Version m \<in> {[], CurrentSupportedVersion} \<and> list_all (provider_ok pd) (pm_Providers m)"

definition with_enabled :: "Provider \<Rightarrow> Provider" where
  "with_enabled p = (if pv_Enabled p = None then p\<lparr>pv_Enabled := Some True\<rparr> else p)"

definition with_defaults :: "ProviderMapping \<Rightarrow> ProviderMapping" where
  "with_defaults m = \<lparr>pm_Version = CurrentSupportedVersion, pm_Providers = map (apsnd with_enabled) (pm_Providers m)\<rparr>"

lemma validate_providers_eq:
  "if list_all (provider_ok pd) ps then validate_providers pd ps = Inr (map (apsnd with_enabled) ps)
   else \<exists>e. validate_providers pd ps = Inl e"
proof (induction ps)
  case (Cons np ps)
  obtain name p where np: "np = (name, p)" by force
  show ?case
  proof (cases "provider_ok pd np")
    case True
    then have "validate_providers pd (np # ps) =
        (case validate_providers pd ps of Inl e \<Rightarrow> Inl e | Inr qs \<Rightarrow> Inr (apsnd with_enabled np # qs))"
      by (auto simp: np provider_ok_def with_enabled_def Let_def split: option.splits sum.split)
    then show ?thesis using Cons.IH True by (auto split: if_splits)
  next
    case False
    then show ?thesis by (auto simp: np provider_ok_def Let_def split: option.splits sum.split)
  qed
qed simp

lemma Validate_eq:
  "if mapping_ok pd m then Validate pd (Some m) = Inr (Some (with_defaults m)) else \<exists>e. Validate pd (Some m) = Inl e"
  using validate_providers_eq[of pd "pm_Providers m"]
  by (auto simp: Validate_def mapping_ok_def with_defaults_def CurrentSupportedVersion_def Let_def split: if_splits)

lemma provider_ok_enabled [simp]: "provider_ok pd (apsnd with_enabled np) = provider_ok pd np"
  by (simp add: provider_ok_def with_enabled_def Let_def)

lemma mapping_ok_defaults: "mapping_ok pd m \<Longrightarrow> mapping_ok pd (with_defaults m)"
  by (simp add: mapping_ok_def with_defaults_def list_all_iff)

lemma with_defaults_idem: "with_defaults (with_defaults m) = with_defaults m"
  by (auto simp: with_defaults_def with_enabled_def apsnd_def map_prod_def)

lemma with_defaults_enabled: "(name, p) \<in> set (pm_Providers (with_defaults m)) \<Longrightarrow> pv_Enabled p \<noteq> None"
  by (auto simp: with_defaults_def with_enabled_def apsnd_def map_prod_def split: if_splits)

section \<open>The effective mapping\<close>

lemma map_of_overlay: "distinct (map fst ps) \<Longrightarrow> map_of (overlay ps base) = map_of base ++ map_of ps"
proof (induction ps arbitrary: base)
  case (Cons np ps)
  obtain n p where np: "np = (n, p)" by force
  have "map_of (overlay (np # ps) base) = map_of (AList.update n p base) ++ map_of ps"
    using Cons.IH[of "AList.update n p base"] Cons.prems by (simp add: overlay_def np)
  moreover have "n \<notin> dom (map_of ps)" using Cons.prems by (simp add: np dom_map_of_conv_image_fst)
  ultimately show ?case by (auto simp: np update_conv' map_add_def fun_eq_iff split: option.splits)
qed (simp add: overlay_def)

lemma distinct_overlay: "distinct (map fst base) \<Longrightarrow> distinct (map fst (overlay ps base))"
  by (induction ps arbitrary: base) (auto simp: overlay_def distinct_update)

lemma global_distinct: "distinct (map fst (pm_Providers GlobalProviderMapping))"
  by (simp add: GlobalProviderMapping_def)

text \<open>The names a tenant sees as enabled.\<close>

definition enabled_names :: "(string \<rightharpoonup> Provider) \<Rightarrow> string set" where
  "enabled_names m = {name. \<exists>p. m name = Some p \<and> pv_Enabled p = Some True}"

lemma enabled_filter:
  "distinct (map fst ps) \<Longrightarrow> set (map fst (filter (\<lambda>(name, p). pv_Enabled p = Some True) ps)) = enabled_names (map_of ps)"
  by (force simp: enabled_names_def)

lemma LoadProviderMapping_stored:
  assumes "t \<noteq> []"
  shows "LoadProviderMapping codec True t db =
     (case ParseProviderMapping codec (config_of t db) of
        Inl _ \<Rightarrow> Inr GlobalProviderMapping
      | Inr m \<Rightarrow> Inr \<lparr>pm_Version = CurrentSupportedVersion, pm_Providers = overlay (pm_Providers m) (pm_Providers GlobalProviderMapping)\<rparr>)"
proof -
  have "pm_Version GlobalProviderMapping = CurrentSupportedVersion" by (simp add: GlobalProviderMapping_def)
  then show ?thesis using Get_config[OF assms, of db] assms by (auto simp: LoadProviderMapping_def split: sum.split)
qed

section \<open>The section in the document\<close>

fun pairs :: "ynode list \<Rightarrow> (ynode \<times> ynode) list" where
  "pairs (k # v # rest) = (k, v) # pairs rest"
| "pairs _ = []"

definition is_section :: "ynode \<times> ynode \<Rightarrow> bool" where
  "is_section kv \<longleftrightarrow> nValue (fst kv) = section_key"




























text \<open>
  The window between the read of the database and the write of the cache: an update whose invalidation falls into it is overwritten by
  the old mapping, and the stale answer is served until it expires.
\<close>

definition load_read :: "yaml_codec \<Rightarrow> string \<Rightarrow> 'c config_state \<Rightarrow> config_error + ProviderMapping" where
  "load_read codec t s = LoadProviderMapping codec True t (cs_db s)"

definition load_write :: "'c Cacher \<Rightarrow> string \<Rightarrow> config_error + ProviderMapping \<Rightarrow> 'c config_state \<Rightarrow> 'c config_state" where
  "load_write ops t r s = (case r of Inl _ \<Rightarrow> s | Inr m \<Rightarrow> s\<lparr>cs_cache := ca_Set ops t m (cs_cache s)\<rparr>)"

lemma stale_after_race:
  assumes gc: "go_cache gops" and old: "load_read codec t s = Inr m"
    and upd: "s' = snd (Update codec (memoryCache gops) dbok now t y updatedBy s)"
  shows "fst (cached_LoadProviderMapping codec (memoryCache gops) True t (load_write (memoryCache gops) t (load_read codec t s) s')) = Inr m"
  using go_cache.gc_Get_Set[OF gc] by (simp add: old load_write_def cached_LoadProviderMapping_def memoryCache_def)

section \<open>A small codec\<close>

text \<open>A library of a few documents, to evaluate the definitions on.\<close>

definition demo_mapping :: ProviderMapping where
  "demo_mapping = \<lparr>pm_Version = [], pm_Providers =
     [(''ldap'', \<lparr>pv_Enabled = None, pv_Rank = Some 7, pv_FieldMap = [(''uid'', ''name'')], pv_EnterpriseSync = Some \<lparr>es_Interval = ''6h''\<rparr>\<rparr>)]\<rparr>"

definition demo_valid :: ProviderMapping where
  "demo_valid = \<lparr>pm_Version = ''1.0'', pm_Providers = [(''ldap'', provider True 7 (Some ''6h'') [(''uid'', ''name'')])]\<rparr>"

definition scalar :: "string \<Rightarrow> ynode" where "scalar s = YNode ScalarNode ''!!str'' s []"

definition root_of :: "ynode list \<Rightarrow> ynode" where "root_of c = YNode MappingNode ''!!map'' [] c"

definition demo_texts :: "(string \<times> ynode) list" where
  "demo_texts =
     [(''{}'', root_of []),
      (''f: x'', root_of [scalar ''f'', scalar ''x'']),
      (''p: v'', root_of [key_node, scalar ''v'']),
      (''f: x, p: v'', root_of [scalar ''f'', scalar ''x'', key_node, scalar ''v''])]"

definition demo_codec :: yaml_codec where
  "demo_codec =
     (let value = (\<lambda>v. if v = scalar ''v'' then Some (Some demo_valid) else None)
      in \<lparr>y_parse = (\<lambda>s. map_option (\<lambda>n. YNode DocumentNode [] [] [n]) (map_of demo_texts s)),
          y_any = (\<lambda>n. True),
          y_section = (\<lambda>n. case find is_section (pairs (nContent n)) of None \<Rightarrow> Some None | Some (k, v) \<Rightarrow> value v),
          y_value = value,
          y_print = (\<lambda>n. map_of (map (\<lambda>(s, n). (n, s)) demo_texts) n),
          y_marshal = (\<lambda>m. if m = demo_valid then Some ''p: v'' else None)\<rparr>)"

definition demo_duration :: "string \<Rightarrow> int option" where
  "demo_duration s = (if s = ''6h'' then Some (6 * 3600 * 1000000000) else None)"

definition demo_state :: "(string \<times> ProviderMapping \<times> nat) list config_state" where
  "demo_state = \<lparr>cs_db = [\<lparr>tc_TenantID = ''acme'', tc_ConfigYAML = ''f: x'', tc_UpdatedBy = None, tc_UpdatedAt = 1, tc_CreatedAt = 1\<rparr>], cs_cache = []\<rparr>"

definition demo_loaded :: "(string \<times> ProviderMapping \<times> nat) list config_state" where
  "demo_loaded = snd (cached_LoadProviderMapping demo_codec (memoryCache ttl_cache) True ''acme'' demo_state)"

definition demo_updated :: "(config_error + ProviderMapping) \<times> (string \<times> ProviderMapping \<times> nat) list config_state" where
  "demo_updated = UpdateProviderMapping demo_codec demo_duration (memoryCache ttl_cache) (\<lambda>_. True) 2 ''acme'' (Some demo_mapping) None demo_loaded"




lemma demo_reach: "cfg_reach demo_codec demo_duration ttl_cache (snd demo_updated)"
  unfolding demo_updated_def demo_loaded_def
  by (intro reach_step[OF _ step_mapping] reach_step[OF _ step_load])
    (simp add: demo_state_def reach_init ttl_cache_def ttl_live_def)

section \<open>Properties\<close>

text \<open>
  C23. The cache is invisible to operations that do not overlap.  Along every history of loads, updates of the document, updates of the
  provider mapping, invalidations and expirations, each run to its end before the next one starts and each with its database statements
  working or failing, for every cache library that keeps its promises: a load with a working database answers for every tenant what
  the service without the cache answers on the database of that moment, and a load whose read fails answers either that or the error of
  the service without the cache.  A load that overlaps an update is not covered (lemma \<open>stale_after_race\<close>).
\<close>

theorem cached_load_coherent:
  assumes "go_cache gops" and "cfg_reach codec pd gops s"
  shows "fst (cached_LoadProviderMapping codec (memoryCache gops) True t s) = LoadProviderMapping codec True t (cs_db s)
    \<and> fst (cached_LoadProviderMapping codec (memoryCache gops) False t s) \<in>
        {LoadProviderMapping codec True t (cs_db s), LoadProviderMapping codec False t (cs_db s)}"
  using go_cache.reach_answer[OF assms, of True t] go_cache.reach_answer[OF assms, of False t] by auto

theorem cached_load_coherent_witness:
  "fst (cached_LoadProviderMapping demo_codec (memoryCache ttl_cache) True ''acme'' (snd demo_updated)) =
     LoadProviderMapping demo_codec True ''acme'' (cs_db (snd demo_updated)) \<and>
   ca_Get (memoryCache ttl_cache) ''acme'' (cs_cache demo_loaded) \<noteq> None"
proof
  show "ca_Get (memoryCache ttl_cache) ''acme'' (cs_cache demo_loaded) \<noteq> None" by code_simp
qed (use cached_load_coherent[OF ttl.go_cache_axioms demo_reach] in blast)



text \<open>
  The effective mapping of a tenant.  A provider that the document of the tenant configures replaces the default of that name as a
  whole, every other default is kept, and the providers that are reported as enabled are exactly those whose effective entry says so,
  each once.
\<close>

theorem LoadProviderMapping_merge:
  assumes t: "t \<noteq> []" and m: "ParseProviderMapping codec (config_of t db) = Inr m" and d: "distinct (map fst (pm_Providers m))"
  shows "\<exists>e names. LoadProviderMapping codec True t db = Inr e
    \<and> (\<forall>name. map_of (pm_Providers e) name =
         (case map_of (pm_Providers m) name of Some p \<Rightarrow> Some p | None \<Rightarrow> map_of (pm_Providers GlobalProviderMapping) name))
    \<and> GetEnabledProviders codec True t db = Inr names \<and> distinct names \<and> set names = enabled_names (map_of (pm_Providers e))"
proof -
  let ?e = "\<lparr>pm_Version = CurrentSupportedVersion, pm_Providers = overlay (pm_Providers m) (pm_Providers GlobalProviderMapping)\<rparr>"
  let ?names = "map fst (filter (\<lambda>(name, p). pv_Enabled p = Some True) (pm_Providers ?e))"
  have e: "LoadProviderMapping codec True t db = Inr ?e" using LoadProviderMapping_stored[OF t] m by simp
  have dist: "distinct (map fst (pm_Providers ?e))" using distinct_overlay[OF global_distinct] by simp
  have "map_of (pm_Providers ?e) name =
      (case map_of (pm_Providers m) name of Some p \<Rightarrow> Some p | None \<Rightarrow> map_of (pm_Providers GlobalProviderMapping) name)" for name
    using map_of_overlay[OF d] by (simp add: map_add_def split: option.split)
  moreover have "GetEnabledProviders codec True t db = Inr ?names" by (simp add: GetEnabledProviders_def e)
  moreover have "distinct ?names" using dist by (rule distinct_map_filter)
  ultimately show ?thesis using e enabled_filter[OF dist] by blast
qed

theorem LoadProviderMapping_merge_witness:
  "\<exists>e names. LoadProviderMapping demo_codec True ''acme'' (cs_db (snd demo_updated)) = Inr e
    \<and> map_of (pm_Providers e) ''ldap'' = Some (provider True 7 (Some ''6h'') [(''uid'', ''name'')])
    \<and> map_of (pm_Providers e) ''password'' = Some (provider True 0 None [])
    \<and> GetEnabledProviders demo_codec True ''acme'' (cs_db (snd demo_updated)) = Inr names
    \<and> distinct names \<and> set names = enabled_names (map_of (pm_Providers e))"
proof -
  have m: "ParseProviderMapping demo_codec (config_of ''acme'' (cs_db (snd demo_updated))) = Inr demo_valid" by code_simp
  have d: "distinct (map fst (pm_Providers demo_valid))" by code_simp
  have ldap: "map_of (pm_Providers demo_valid) ''ldap'' = Some (provider True 7 (Some ''6h'') [(''uid'', ''name'')])" by code_simp
  have pw: "map_of (pm_Providers demo_valid) ''password'' = None"
    "map_of (pm_Providers GlobalProviderMapping) ''password'' = Some (provider True 0 None [])" by code_simp+
  have "''acme'' \<noteq> []" by simp
  from LoadProviderMapping_merge[OF this m d] obtain e names where
    "LoadProviderMapping demo_codec True ''acme'' (cs_db (snd demo_updated)) = Inr e"
    "\<forall>name. map_of (pm_Providers e) name =
         (case map_of (pm_Providers demo_valid) name of Some p \<Rightarrow> Some p | None \<Rightarrow> map_of (pm_Providers GlobalProviderMapping) name)"
    "GetEnabledProviders demo_codec True ''acme'' (cs_db (snd demo_updated)) = Inr names" "distinct names"
    "set names = enabled_names (map_of (pm_Providers e))" by blast
  moreover from this(2) ldap pw have "map_of (pm_Providers e) ''ldap'' = Some (provider True 7 (Some ''6h'') [(''uid'', ''name'')])"
    "map_of (pm_Providers e) ''password'' = Some (provider True 0 None [])" by simp_all
  ultimately show ?thesis by blast
qed

end
