(* ===== verification/Employment.thy ===== *)
theory Employment
  imports Json_Data Tenant_Config Db_Query
begin

text \<open>
  The enterprise identity of users (\<^verbatim>\<open>cs-user/internal/user/employment_mapping.go\<close>,
  \<^verbatim>\<open>cs-user/internal/models/employment_identity.go\<close>): a login refreshes the employment row of the user from the claims of
  the identity provider, through the field map in the configuration of the tenant (the store of \<^verbatim>\<open>Tenant_Config\<close>).

  The environment \<open>emp_env\<close> holds the decoder of the YAML section, the parsing of RFC 3339 dates, the truncation of a fractional
  number, the time in nanoseconds, and \<open>ee_fails n\<close>, the message with which the \<open>n\<close>-th statement of an operation fails.
  A violated unique index fails with the message of PostgreSQL.
\<close>

section \<open>Rows and configuration\<close>

record EmploymentIdentity =
  ei_ID :: nat
  ei_TenantID :: string
  ei_UserSubjectID :: string
  ei_Provider :: string
  ei_EnterpriseUID :: "string option"
  ei_DisplayName :: "string option"
  ei_EmployeeNumber :: "string option"
  ei_CostCenter :: "string option"
  ei_OrgPath :: "string option"
  ei_DirectManagerSubjectID :: "string option"
  ei_DirectManagerExternalRef :: "string option"
  ei_JobTitle :: "string option"
  ei_JobLevel :: "string option"
  ei_EmploymentType :: "string option"
  ei_HireDate :: "int option"
  ei_RegularDate :: "int option"
  ei_WorkLocation :: "string option"
  ei_Attributes :: string
  ei_SyncStatus :: string
  ei_LastSyncedAt :: int
  ei_NextSyncDueAt :: int
  ei_RawPayloadHash :: "string option"
  ei_CreatedAt :: int
  ei_UpdatedAt :: int
  ei_DeletedAt :: "int option"

text \<open>The table and the sequence of its primary key.\<close>

record emp_db =
  em_rows :: "EmploymentIdentity list"
  em_seq :: nat

record EmploymentMappingParams =
  mp_TenantID :: string
  mp_UserSubjectID :: string
  mp_Provider :: string
  mp_ExternalClaims :: jobj

type_synonym FieldMapConfig = "(string \<times> string) list"

record ProviderDetectionRule =
  dr_SignupApplication :: string
  dr_Provider :: string

record employmentProvidersConfig =
  pc_Enabled :: "string list"
  pc_FieldMap :: "(string \<times> FieldMapConfig) list"
  pc_ProviderDetection :: "ProviderDetectionRule list"

definition zero_config :: employmentProvidersConfig where
  "zero_config = \<lparr>pc_Enabled = [], pc_FieldMap = [], pc_ProviderDetection = []\<rparr>"

record emp_env =
  ee_unmarshal :: "string \<Rightarrow> employmentProvidersConfig option"
  ee_rfc3339 :: "string \<Rightarrow> int option"
  ee_trunc :: "string \<Rightarrow> int"
  ee_now :: int
  ee_fails :: "nat \<Rightarrow> string option"

definition shift :: "nat \<Rightarrow> emp_env \<Rightarrow> emp_env" where
  "shift k env = env\<lparr>ee_fails := \<lambda>n. ee_fails env (k + n)\<rparr>"

datatype load_error =
    LoadQuery string
  | ParseConfig
  | UnknownColumn string string
  | MatcherRequired
  | ProviderNotEnabled string string
  | DuplicateMatcher string

datatype mapping_error =
    EmptyUserSubjectID
  | LoadConfig load_error
  | ErrEnterpriseMappingDisabled
  | EmpDBError string string

definition emp_defaultTenantID :: string where "emp_defaultTenantID = ''default''"

definition employmentSyncInterval :: int where "employmentSyncInterval = 24 * 3600 * 1000000000"

definition allowedEmploymentColumns :: "string list" where
  "allowedEmploymentColumns =
     [''enterprise_uid'', ''display_name'', ''employee_number'', ''cost_center'', ''org_path'', ''direct_manager_subject_id'',
      ''direct_manager_external_ref'', ''job_title'', ''job_level'', ''employment_type'', ''hire_date'', ''regular_date'',
      ''work_location'']"

definition dateEmploymentColumns :: "string list" where
  "dateEmploymentColumns = [''hire_date'', ''regular_date'']"

definition containsString :: "string list \<Rightarrow> string \<Rightarrow> bool" where
  "containsString v s \<longleftrightarrow> s \<in> set v"

definition stringPtr :: "string \<Rightarrow> string option" where
  "stringPtr s = (if s = [] then None else Some s)"

section \<open>Claims\<close>

text \<open>
  \<^verbatim>\<open>fmt.Sprint\<close> of a decoded value: text as it is, lists in brackets, maps with their keys in order.  Every number of a JSON document is a
  \<^verbatim>\<open>float64\<close>, which is printed by the verb \<^verbatim>\<open>%g\<close> with the fewest digits that identify it: from \<open>10 ^ 6\<close> on as a fraction with an
  exponent of at least two digits.  \<open>JInt\<close> stands here for a whole number of magnitude at most \<open>2 ^ 53\<close>, whose digits are the decimal ones
  without the zeros at the end; the text of any other number is that of its \<open>JFloat\<close>.
\<close>

definition exponent_string :: "string \<Rightarrow> string" where
  "exponent_string ds =
     (let frac = rev (dropWhile (\<lambda>c. c = CHR ''0'') (rev (tl ds))); e = dec_string (length ds - 1)
      in hd ds # (if frac = [] then [] else CHR ''.'' # frac) @ ''e+'' @ (if length e < 2 then CHR ''0'' # e else e))"

definition float_string :: "int \<Rightarrow> string" where
  "float_string i =
     (let ds = dec_string (nat \<bar>i\<bar>)
      in (if i < 0 then ''-'' else []) @ (if length ds \<le> 6 then ds else exponent_string ds))"

fun sprint :: "json \<Rightarrow> string" and sprint_items :: "json list \<Rightarrow> string list" and sprint_fields :: "jobj \<Rightarrow> (string \<times> string) list" where
  "sprint JNull = ''<nil>''"
| "sprint (JBool b) = (if b then ''true'' else ''false'')"
| "sprint (JInt i) = float_string i"
| "sprint (JFloat f) = f"
| "sprint (JStr s) = s"
| "sprint (JArr xs) = ''['' @ join_with '' '' (sprint_items xs) @ '']''"
| "sprint (JObj m) = ''map['' @ join_with '' '' (map (\<lambda>(k, v). k @ '':'' @ v) (sort_key fst (sprint_fields m))) @ '']''"
| "sprint_items [] = []"
| "sprint_items (x # xs) = sprint x # sprint_items xs"
| "sprint_fields [] = []"
| "sprint_fields ((k, v) # m) = (k, sprint v) # sprint_fields m"

definition equal_fold :: "string \<Rightarrow> string \<Rightarrow> bool" where
  "equal_fold a b \<longleftrightarrow> to_lower a = to_lower b"

fun walk_path :: "json \<Rightarrow> string list \<Rightarrow> json option" where
  "walk_path cursor [] = Some cursor"
| "walk_path cursor (seg # segs) =
     (case cursor of
        JObj m \<Rightarrow> (case map_of m seg of None \<Rightarrow> None | Some v \<Rightarrow> walk_path v segs)
      | _ \<Rightarrow> None)"

definition lookupClaimPath :: "jobj \<Rightarrow> string \<Rightarrow> json option" where
  "lookupClaimPath claims field =
     (if CHR ''.'' \<notin> set field then map_of claims field else walk_path (JObj claims) (split_on (CHR ''.'') field))"

definition unix_time :: "int \<Rightarrow> int" where "unix_time n = n * 1000000000"

definition parseClaimDate :: "emp_env \<Rightarrow> json \<Rightarrow> int option" where
  "parseClaimDate env raw =
     (case raw of
        JStr v \<Rightarrow> if v = [] then None else ee_rfc3339 env v
      | JInt n \<Rightarrow> Some (unix_time n)
      | JFloat f \<Rightarrow> Some (unix_time (ee_trunc env f))
      | _ \<Rightarrow> None)"

text \<open>The value of a mapped column: text, or a time for the columns of dates.\<close>

datatype colval = CStr string | CTime int

definition map_field :: "emp_env \<Rightarrow> jobj \<Rightarrow> string \<times> string \<Rightarrow> (string \<times> colval) option" where
  "map_field env claims f =
     (case f of (internalCol, externalField) \<Rightarrow>
        if externalField = [] then None
        else case lookupClaimPath claims externalField of
          None \<Rightarrow> None
        | Some raw \<Rightarrow>
            if raw = JNull then None
            else if internalCol \<in> set dateEmploymentColumns then map_option (\<lambda>t. (internalCol, CTime t)) (parseClaimDate env raw)
            else Some (internalCol, CStr (sprint raw)))"

definition applyFieldMap :: "emp_env \<Rightarrow> FieldMapConfig \<Rightarrow> jobj \<Rightarrow> (string \<times> colval) list" where
  "applyFieldMap env fieldMap claims = (if fieldMap = [] \<or> claims = [] then [] else List.map_filter (map_field env claims) fieldMap)"

section \<open>The configuration of a tenant\<close>

definition rule_matches :: "string \<Rightarrow> ProviderDetectionRule \<Rightarrow> bool" where
  "rule_matches signupApp r \<longleftrightarrow>
     dr_SignupApplication r \<noteq> [] \<and> dr_Provider r \<noteq> [] \<and> equal_fold (trim_space (dr_SignupApplication r)) signupApp"

definition detectProvider :: "ProviderDetectionRule list \<Rightarrow> jobj \<Rightarrow> string" where
  "detectProvider rules external =
     (if rules = [] \<or> external = [] then []
      else case map_of external ''signupApplication'' of
        None \<Rightarrow> []
      | Some raw \<Rightarrow>
          if raw = JNull then []
          else
            let signupApp = to_lower (trim_space (sprint raw))
            in if signupApp = [] then []
               else case find (rule_matches signupApp) rules of
                 None \<Rightarrow> []
               | Some r \<Rightarrow> dr_Provider r)"

text \<open>The checks of a configuration: the columns of the field maps, and the detection rules in their order with the matchers seen.\<close>

definition bad_column :: "(string \<times> FieldMapConfig) list \<Rightarrow> load_error option" where
  "bad_column fm =
     (case List.map_filter (\<lambda>(p, m). map_option (\<lambda>c. UnknownColumn p (fst c)) (find (\<lambda>c. fst c \<notin> set allowedEmploymentColumns) m)) fm of
        [] \<Rightarrow> None
      | e # _ \<Rightarrow> Some e)"

definition matcher_key :: "ProviderDetectionRule \<Rightarrow> string" where
  "matcher_key r = to_lower (trim_space (dr_SignupApplication r))"

fun check_rules :: "string list \<Rightarrow> string list \<Rightarrow> ProviderDetectionRule list \<Rightarrow> load_error option" where
  "check_rules enabled seen [] = None"
| "check_rules enabled seen (r # rs) =
     (if trim_space (dr_SignupApplication r) = [] \<or> trim_space (dr_Provider r) = [] then Some MatcherRequired
      else if \<not> containsString enabled (dr_Provider r) then Some (ProviderNotEnabled (dr_SignupApplication r) (dr_Provider r))
      else if matcher_key r \<in> set seen then Some (DuplicateMatcher (dr_SignupApplication r))
      else check_rules enabled (matcher_key r # seen) rs)"

definition loadEmploymentProvidersConfig :: "emp_env \<Rightarrow> string \<Rightarrow> TenantConfig list \<Rightarrow> load_error + employmentProvidersConfig" where
  "loadEmploymentProvidersConfig env tenantID configs =
     (case ee_fails env 0 of
        Some m \<Rightarrow> Inl (LoadQuery m)
      | None \<Rightarrow>
          (case config_row tenantID configs of
             None \<Rightarrow> Inr zero_config
           | Some tc \<Rightarrow>
               if tc_ConfigYAML tc = [] \<or> tc_ConfigYAML tc = ''{}'' then Inr zero_config
               else case ee_unmarshal env (tc_ConfigYAML tc) of
                 None \<Rightarrow> Inl ParseConfig
               | Some cfg \<Rightarrow>
                   (case bad_column (pc_FieldMap cfg) of
                      Some e \<Rightarrow> Inl e
                    | None \<Rightarrow>
                        (case check_rules (pc_Enabled cfg) [] (pc_ProviderDetection cfg) of
                           Some e \<Rightarrow> Inl e
                         | None \<Rightarrow> Inr cfg))))"

section \<open>Writing the row\<close>

definition ei_live :: "EmploymentIdentity \<Rightarrow> bool" where "ei_live r \<longleftrightarrow> ei_DeletedAt r = None"

text \<open>The primary key and the two partial unique indexes: one live row per user, and an enterprise identifier once per tenant.\<close>

definition unique_emp :: "EmploymentIdentity list \<Rightarrow> bool" where
  "unique_emp rows \<longleftrightarrow>
     distinct (map ei_ID rows) \<and>
     distinct (map ei_UserSubjectID (filter ei_live rows)) \<and>
     distinct (map (\<lambda>r. (ei_TenantID r, ei_EnterpriseUID r)) (filter (\<lambda>r. ei_EnterpriseUID r \<noteq> None) rows))"

definition pg_duplicate :: string where
  "pg_duplicate = ''ERROR: duplicate key value violates unique constraint (SQLSTATE 23505)''"

definition duplicateKeyErrorFragments :: "string list" where
  "duplicateKeyErrorFragments = [''unique constraint'', ''duplicate key'', ''duplicated key'', ''duplicate entry'', ''23505'']"

definition isDuplicateKeyError :: "string option \<Rightarrow> bool" where
  "isDuplicateKeyError err =
     (case err of None \<Rightarrow> False | Some msg \<Rightarrow> list_ex (\<lambda>frag. contains (to_lower msg) frag) duplicateKeyErrorFragments)"

definition set_text :: "string \<Rightarrow> string option \<Rightarrow> EmploymentIdentity \<Rightarrow> EmploymentIdentity" where
  "set_text col v row =
     (if col = ''enterprise_uid'' then row\<lparr>ei_EnterpriseUID := v\<rparr>
      else if col = ''display_name'' then row\<lparr>ei_DisplayName := v\<rparr>
      else if col = ''employee_number'' then row\<lparr>ei_EmployeeNumber := v\<rparr>
      else if col = ''cost_center'' then row\<lparr>ei_CostCenter := v\<rparr>
      else if col = ''org_path'' then row\<lparr>ei_OrgPath := v\<rparr>
      else if col = ''direct_manager_subject_id'' then row\<lparr>ei_DirectManagerSubjectID := v\<rparr>
      else if col = ''direct_manager_external_ref'' then row\<lparr>ei_DirectManagerExternalRef := v\<rparr>
      else if col = ''job_title'' then row\<lparr>ei_JobTitle := v\<rparr>
      else if col = ''job_level'' then row\<lparr>ei_JobLevel := v\<rparr>
      else if col = ''employment_type'' then row\<lparr>ei_EmploymentType := v\<rparr>
      else if col = ''work_location'' then row\<lparr>ei_WorkLocation := v\<rparr>
      else row)"

definition set_date :: "string \<Rightarrow> int \<Rightarrow> EmploymentIdentity \<Rightarrow> EmploymentIdentity" where
  "set_date col t row =
     (if col = ''hire_date'' then row\<lparr>ei_HireDate := Some t\<rparr>
      else if col = ''regular_date'' then row\<lparr>ei_RegularDate := Some t\<rparr>
      else row)"

text \<open>The struct of an insert has NULL for an empty text; the map of an update keeps it.\<close>

definition set_col :: "(string \<Rightarrow> string option) \<Rightarrow> string \<times> colval \<Rightarrow> EmploymentIdentity \<Rightarrow> EmploymentIdentity" where
  "set_col ptr c row = (case snd c of CStr s \<Rightarrow> set_text (fst c) (ptr s) row | CTime t \<Rightarrow> set_date (fst c) t row)"

definition applyMappedToRow :: "(string \<times> colval) list \<Rightarrow> EmploymentIdentity \<Rightarrow> EmploymentIdentity" where
  "applyMappedToRow mapped row = fold (set_col stringPtr) mapped row"

definition emp_updates :: "emp_env \<Rightarrow> string \<Rightarrow> (string \<times> colval) list \<Rightarrow> EmploymentIdentity \<Rightarrow> EmploymentIdentity" where
  "emp_updates env prov mapped row =
     fold (set_col Some) mapped
       (row\<lparr>ei_Provider := prov, ei_SyncStatus := ''fresh'', ei_LastSyncedAt := ee_now env,
            ei_NextSyncDueAt := ee_now env + employmentSyncInterval, ei_UpdatedAt := ee_now env\<rparr>)"

definition new_employment :: "emp_env \<Rightarrow> nat \<Rightarrow> EmploymentMappingParams \<Rightarrow> EmploymentIdentity" where
  "new_employment env n p =
     \<lparr>ei_ID = n, ei_TenantID = mp_TenantID p, ei_UserSubjectID = mp_UserSubjectID p, ei_Provider = mp_Provider p,
      ei_EnterpriseUID = None, ei_DisplayName = None, ei_EmployeeNumber = None, ei_CostCenter = None, ei_OrgPath = None,
      ei_DirectManagerSubjectID = None, ei_DirectManagerExternalRef = None, ei_JobTitle = None, ei_JobLevel = None,
      ei_EmploymentType = None, ei_HireDate = None, ei_RegularDate = None, ei_WorkLocation = None, ei_Attributes = ''{}'',
      ei_SyncStatus = ''fresh'', ei_LastSyncedAt = ee_now env, ei_NextSyncDueAt = ee_now env + employmentSyncInterval,
      ei_RawPayloadHash = None, ei_CreatedAt = ee_now env, ei_UpdatedAt = ee_now env, ei_DeletedAt = None\<rparr>"

definition emp_of_user :: "string \<Rightarrow> emp_db \<Rightarrow> EmploymentIdentity option" where
  "emp_of_user sid db = find (\<lambda>r. ei_live r \<and> ei_UserSubjectID r = sid) (em_rows db)"

definition emp_of_uid :: "string \<Rightarrow> string \<Rightarrow> emp_db \<Rightarrow> EmploymentIdentity option" where
  "emp_of_uid tenantID uid db = find (\<lambda>r. ei_live r \<and> ei_TenantID r = tenantID \<and> ei_EnterpriseUID r = Some uid) (em_rows db)"

text \<open>An update of the live row with an identifier: refused as a whole when it violates an index.\<close>

definition update_emp :: "string option \<Rightarrow> nat \<Rightarrow> (EmploymentIdentity \<Rightarrow> EmploymentIdentity) \<Rightarrow> emp_db \<Rightarrow> string option \<times> emp_db" where
  "update_emp fails i f db =
     (let rows = map (\<lambda>r. if ei_live r \<and> ei_ID r = i then f r else r) (em_rows db)
      in case fails of
           Some m \<Rightarrow> (Some m, db)
         | None \<Rightarrow> if unique_emp rows then (None, db\<lparr>em_rows := rows\<rparr>) else (Some pg_duplicate, db))"

text \<open>The result is the flag \<^verbatim>\<open>handled\<close>, or a message.\<close>

definition reconcileByEnterpriseUID ::
  "emp_env \<Rightarrow> EmploymentMappingParams \<Rightarrow> (string \<times> colval) list \<Rightarrow> emp_db \<Rightarrow> (string + bool) \<times> emp_db" where
  "reconcileByEnterpriseUID env p mapped db =
     (case map_of mapped ''enterprise_uid'' of
        Some (CStr raw) \<Rightarrow>
          let enterpriseUID = trim_space raw
          in if enterpriseUID = [] then (Inr False, db)
             else (case ee_fails env 0 of
               Some m \<Rightarrow> (Inl m, db)
             | None \<Rightarrow>
                 (case emp_of_uid (mp_TenantID p) enterpriseUID db of
                    None \<Rightarrow> (Inr False, db)
                  | Some existing \<Rightarrow>
                      let realign = (ei_UserSubjectID existing \<noteq> mp_UserSubjectID p);
                          updates = (\<lambda>r. let r1 = emp_updates env (mp_Provider p) mapped r
                                         in if realign then r1\<lparr>ei_UserSubjectID := mp_UserSubjectID p\<rparr> else r1)
                      in case (if realign then ee_fails env 1 else None) of
                           Some m \<Rightarrow> (Inl m, db)
                         | None \<Rightarrow>
                             if realign \<and> emp_of_user (mp_UserSubjectID p) db \<noteq> None then
                               (case ee_fails env 2 of
                                  Some m \<Rightarrow> (Inl m, db)
                                | None \<Rightarrow> (Inr True, db\<lparr>em_rows := filter (\<lambda>r. ei_ID r \<noteq> ei_ID existing) (em_rows db)\<rparr>))
                             else
                               (case update_emp (ee_fails env 3) (ei_ID existing) updates db of
                                  (Some m, db') \<Rightarrow> (Inl m, db')
                                | (None, db') \<Rightarrow> (Inr True, db'))))
      | _ \<Rightarrow> (Inr False, db))"

definition upsertEmploymentIdentity ::
  "emp_env \<Rightarrow> EmploymentMappingParams \<Rightarrow> FieldMapConfig \<Rightarrow> emp_db \<Rightarrow> mapping_error option \<times> emp_db" where
  "upsertEmploymentIdentity env p fieldMap db =
     (let mapped = applyFieldMap env fieldMap (mp_ExternalClaims p)
      in case ee_fails env 0 of
           Some m \<Rightarrow> (Some (EmpDBError ''query employment_identity'' m), db)
         | None \<Rightarrow>
             (case emp_of_user (mp_UserSubjectID p) db of
                None \<Rightarrow>
                  let row = applyMappedToRow mapped (new_employment env (em_seq db) p);
                      failed = (case ee_fails env 1 of
                                  Some m \<Rightarrow> Some m
                                | None \<Rightarrow> if unique_emp (em_rows db @ [row]) then None else Some pg_duplicate)
                  in (case failed of
                        None \<Rightarrow> (None, db\<lparr>em_rows := em_rows db @ [row], em_seq := Suc (em_seq db)\<rparr>)
                      | Some m \<Rightarrow>
                          if isDuplicateKeyError (Some m) then
                            (case reconcileByEnterpriseUID (shift 2 env) p mapped db of
                               (Inr True, db') \<Rightarrow> (None, db')
                             | (_, db') \<Rightarrow> (Some (EmpDBError ''create employment_identity'' m), db'))
                          else (Some (EmpDBError ''create employment_identity'' m), db))
              | Some existing \<Rightarrow>
                  (case update_emp (ee_fails env 6) (ei_ID existing) (emp_updates env (mp_Provider p) mapped) db of
                     (Some m, db') \<Rightarrow> (Some (EmpDBError ''update employment_identity'' m), db')
                   | (None, db') \<Rightarrow> (None, db'))))"

definition resolve_provider :: "employmentProvidersConfig \<Rightarrow> EmploymentMappingParams \<Rightarrow> string" where
  "resolve_provider cfg p =
     (let hint = mp_Provider p; detected = detectProvider (pc_ProviderDetection cfg) (mp_ExternalClaims p)
      in if (hint = [] \<or> \<not> containsString (pc_Enabled cfg) hint) \<and> detected \<noteq> [] \<and> containsString (pc_Enabled cfg) detected
         then detected else hint)"

definition fieldmap_of :: "employmentProvidersConfig \<Rightarrow> string \<Rightarrow> FieldMapConfig" where
  "fieldmap_of cfg prov = (case map_of (pc_FieldMap cfg) prov of None \<Rightarrow> [] | Some m \<Rightarrow> m)"

definition ApplyEnterpriseMapping ::
  "emp_env \<Rightarrow> TenantConfig list \<Rightarrow> EmploymentMappingParams \<Rightarrow> emp_db \<Rightarrow> mapping_error option \<times> emp_db" where
  "ApplyEnterpriseMapping env configs p0 db =
     (if mp_UserSubjectID p0 = [] then (Some EmptyUserSubjectID, db)
      else
        let p = (if mp_TenantID p0 = [] then p0\<lparr>mp_TenantID := emp_defaultTenantID\<rparr> else p0)
        in case loadEmploymentProvidersConfig env (mp_TenantID p) configs of
             Inl e \<Rightarrow> (Some (LoadConfig e), db)
           | Inr cfg \<Rightarrow>
               let prov = resolve_provider cfg p
               in if prov = [] \<or> \<not> containsString (pc_Enabled cfg) prov then (Some ErrEnterpriseMappingDisabled, db)
                  else upsertEmploymentIdentity (shift 1 env) (p\<lparr>mp_Provider := prov\<rparr>) (fieldmap_of cfg prov) db)"

section \<open>Reading\<close>

datatype read_error = EmptySubjectID | ReadFailed string

definition GetEmploymentIdentity :: "string option \<Rightarrow> string \<Rightarrow> emp_db \<Rightarrow> read_error + EmploymentIdentity option" where
  "GetEmploymentIdentity fails sid db =
     (if sid = [] then Inl EmptySubjectID
      else case fails of Some m \<Rightarrow> Inl (ReadFailed m) | None \<Rightarrow> Inr (emp_of_user sid db))"

text \<open>The rows of the tenant with the latest synchronisation first; the first row of a user is kept.\<close>

definition GetEmploymentIdentitiesBySubjectIDs ::
  "string option \<Rightarrow> string \<Rightarrow> string list \<Rightarrow> emp_db \<Rightarrow> read_error + (string \<rightharpoonup> EmploymentIdentity)" where
  "GetEmploymentIdentitiesBySubjectIDs fails tenantID subjectIDs db =
     (if subjectIDs = [] then Inr Map.empty
      else case fails of
        Some m \<Rightarrow> Inl (ReadFailed m)
      | None \<Rightarrow>
          Inr (fold (\<lambda>r out. case out (ei_UserSubjectID r) of None \<Rightarrow> out(ei_UserSubjectID r \<mapsto> r) | Some _ \<Rightarrow> out)
                 (sort_key (\<lambda>r. - ei_LastSyncedAt r)
                    (filter (\<lambda>r. ei_live r \<and> ei_TenantID r = tenantID \<and> ei_UserSubjectID r \<in> set subjectIDs) (em_rows db)))
                 Map.empty))"

section \<open>Columns\<close>

text \<open>Reading a column by its name.\<close>

definition get_text :: "string \<Rightarrow> EmploymentIdentity \<Rightarrow> string option" where
  "get_text col row =
     (if col = ''enterprise_uid'' then ei_EnterpriseUID row
      else if col = ''display_name'' then ei_DisplayName row
      else if col = ''employee_number'' then ei_EmployeeNumber row
      else if col = ''cost_center'' then ei_CostCenter row
      else if col = ''org_path'' then ei_OrgPath row
      else if col = ''direct_manager_subject_id'' then ei_DirectManagerSubjectID row
      else if col = ''direct_manager_external_ref'' then ei_DirectManagerExternalRef row
      else if col = ''job_title'' then ei_JobTitle row
      else if col = ''job_level'' then ei_JobLevel row
      else if col = ''employment_type'' then ei_EmploymentType row
      else if col = ''work_location'' then ei_WorkLocation row
      else None)"

definition get_date :: "string \<Rightarrow> EmploymentIdentity \<Rightarrow> int option" where
  "get_date col row =
     (if col = ''hire_date'' then ei_HireDate row else if col = ''regular_date'' then ei_RegularDate row else None)"

definition text_col :: "string \<Rightarrow> bool" where
  "text_col col \<longleftrightarrow> col \<in> set allowedEmploymentColumns \<and> col \<notin> set dateEmploymentColumns"

text \<open>A row holds a value; an inserted row holds NULL for an empty text.\<close>

definition holds :: "EmploymentIdentity \<Rightarrow> string \<times> colval \<Rightarrow> bool" where
  "holds row c =
     (case snd c of
        CStr s \<Rightarrow> get_text (fst c) row = Some s \<or> s = [] \<and> get_text (fst c) row = None
      | CTime t \<Rightarrow> get_date (fst c) row = Some t)"

definition typed :: "string \<times> colval \<Rightarrow> bool" where
  "typed c \<longleftrightarrow> (case snd c of CStr s \<Rightarrow> text_col (fst c) | CTime t \<Rightarrow> fst c \<in> set dateEmploymentColumns)"

lemma text_colE:
  assumes "text_col col"
  shows "col \<in> {''enterprise_uid'', ''display_name'', ''employee_number'', ''cost_center'', ''org_path'', ''direct_manager_subject_id'',
      ''direct_manager_external_ref'', ''job_title'', ''job_level'', ''employment_type'', ''work_location''}"
  using assms by (auto simp: text_col_def allowedEmploymentColumns_def dateEmploymentColumns_def)

lemma get_set_text_same: "text_col col \<Longrightarrow> get_text col (set_text col v row) = v"
  by (drule text_colE, elim insertE) (simp_all add: get_text_def set_text_def)

lemma get_set_text_other: "text_col col \<Longrightarrow> c \<noteq> col \<Longrightarrow> get_text c (set_text col v row) = get_text c row"
  by (drule text_colE, elim insertE) (simp_all add: get_text_def set_text_def cong: if_cong split del: if_split)

lemma get_set_text: "text_col col \<Longrightarrow> get_text c (set_text col v row) = (if c = col then v else get_text c row)"
  by (simp add: get_set_text_same get_set_text_other)

lemma get_set_date: "col \<in> set dateEmploymentColumns \<Longrightarrow> get_date c (set_date col t row) = (if c = col then Some t else get_date c row)"
  by (auto simp: dateEmploymentColumns_def get_date_def set_date_def)

lemma get_text_date [simp]: "get_text c (set_date col t row) = get_text c row"
  by (simp add: get_text_def set_date_def)

lemma get_date_text [simp]: "get_date c (set_text col v row) = get_date c row"
  by (simp add: get_date_def set_text_def)

lemma set_text_kept [simp]:
  "ei_ID (set_text col v row) = ei_ID row" "ei_TenantID (set_text col v row) = ei_TenantID row"
  "ei_UserSubjectID (set_text col v row) = ei_UserSubjectID row" "ei_Provider (set_text col v row) = ei_Provider row"
  "ei_SyncStatus (set_text col v row) = ei_SyncStatus row" "ei_LastSyncedAt (set_text col v row) = ei_LastSyncedAt row"
  "ei_DeletedAt (set_text col v row) = ei_DeletedAt row"
  by (simp_all add: set_text_def)

lemma set_date_kept [simp]:
  "ei_ID (set_date col t row) = ei_ID row" "ei_TenantID (set_date col t row) = ei_TenantID row"
  "ei_UserSubjectID (set_date col t row) = ei_UserSubjectID row" "ei_Provider (set_date col t row) = ei_Provider row"
  "ei_SyncStatus (set_date col t row) = ei_SyncStatus row" "ei_LastSyncedAt (set_date col t row) = ei_LastSyncedAt row"
  "ei_DeletedAt (set_date col t row) = ei_DeletedAt row"
  by (simp_all add: set_date_def)

lemma set_col_kept [simp]:
  "ei_ID (set_col ptr c row) = ei_ID row" "ei_TenantID (set_col ptr c row) = ei_TenantID row"
  "ei_UserSubjectID (set_col ptr c row) = ei_UserSubjectID row" "ei_Provider (set_col ptr c row) = ei_Provider row"
  "ei_SyncStatus (set_col ptr c row) = ei_SyncStatus row" "ei_LastSyncedAt (set_col ptr c row) = ei_LastSyncedAt row"
  "ei_DeletedAt (set_col ptr c row) = ei_DeletedAt row"
  by (simp_all add: set_col_def split: colval.splits)

lemma fold_set_kept [simp]:
  "ei_ID (fold (set_col ptr) cs row) = ei_ID row" "ei_TenantID (fold (set_col ptr) cs row) = ei_TenantID row"
  "ei_UserSubjectID (fold (set_col ptr) cs row) = ei_UserSubjectID row" "ei_Provider (fold (set_col ptr) cs row) = ei_Provider row"
  "ei_SyncStatus (fold (set_col ptr) cs row) = ei_SyncStatus row" "ei_LastSyncedAt (fold (set_col ptr) cs row) = ei_LastSyncedAt row"
  "ei_DeletedAt (fold (set_col ptr) cs row) = ei_DeletedAt row"
  by (induction cs arbitrary: row) simp_all

definition ptr_ok :: "(string \<Rightarrow> string option) \<Rightarrow> bool" where
  "ptr_ok ptr \<longleftrightarrow> (\<forall>s. ptr s = Some s \<or> s = [] \<and> ptr s = None)"

lemma ptr_ok_Some: "ptr_ok Some"
  by (simp add: ptr_ok_def)

lemma ptr_ok_stringPtr: "ptr_ok stringPtr"
  by (simp add: ptr_ok_def stringPtr_def)

lemma holds_set_col: "ptr_ok ptr \<Longrightarrow> typed c \<Longrightarrow> holds (set_col ptr c row) c"
  by (auto simp: ptr_ok_def typed_def holds_def set_col_def get_set_text get_set_date split: colval.splits)

lemma holds_other: "typed c \<Longrightarrow> fst d \<noteq> fst c \<Longrightarrow> holds (set_col ptr c row) d = holds row d"
  by (auto simp: typed_def holds_def set_col_def get_set_text get_set_date split: colval.splits)

lemma fold_holds_other:
  assumes "\<forall>c \<in> set cs. typed c" "fst d \<notin> fst ` set cs"
  shows "holds (fold (set_col ptr) cs row) d = holds row d"
  using assms by (induction cs arbitrary: row) (auto simp: holds_other)

text \<open>Every mapped column is written.\<close>

lemma fold_holds:
  assumes "ptr_ok ptr" "\<forall>c \<in> set cs. typed c" "distinct (map fst cs)" "d \<in> set cs"
  shows "holds (fold (set_col ptr) cs row) d"
  using assms(2-)
proof (induction cs arbitrary: row)
  case (Cons c cs)
  show ?case
  proof (cases "d = c")
    case True
    then have "holds (set_col ptr c row) d" using holds_set_col[OF assms(1)] Cons.prems(1) by simp
    then show ?thesis using True fold_holds_other[of cs d ptr] Cons.prems by simp
  next
    case False
    then show ?thesis using Cons by simp
  qed
qed simp

text \<open>A field map is good if its columns are distinct and among the allowed ones.\<close>

definition fields_ok :: "FieldMapConfig \<Rightarrow> bool" where
  "fields_ok fm \<longleftrightarrow> distinct (map fst fm) \<and> fst ` set fm \<subseteq> set allowedEmploymentColumns"

lemma map_field_col: "map_field env claims f = Some c \<Longrightarrow> fst c = fst f"
  by (auto simp: map_field_def split: prod.splits if_splits option.splits)

lemma map_field_typed: "map_field env claims f = Some c \<Longrightarrow> fst f \<in> set allowedEmploymentColumns \<Longrightarrow> typed c"
  by (auto simp: map_field_def typed_def text_col_def split: prod.splits if_splits option.splits)

lemma map_filter_Cons: "List.map_filter g (x # xs) = (case g x of None \<Rightarrow> List.map_filter g xs | Some y \<Rightarrow> y # List.map_filter g xs)"
  by (simp add: List.map_filter_simps split: option.splits)

lemma map_filter_fields:
  assumes "fields_ok fm"
  shows "distinct (map fst (List.map_filter (map_field env claims) fm))"
    and "fst ` set (List.map_filter (map_field env claims) fm) \<subseteq> fst ` set fm"
    and "\<forall>c \<in> set (List.map_filter (map_field env claims) fm). typed c"
  using assms
proof (induction fm)
  case Nil
  case 1 show ?case by (simp add: List.map_filter_simps)
  case 2 show ?case by (simp add: List.map_filter_simps)
  case 3 show ?case by (simp add: List.map_filter_simps)
next
  case (Cons f fm)
  have ok: "fields_ok fm" if "fields_ok (f # fm)" using that by (simp add: fields_ok_def)
  {
    case 1
    note ih = Cons.IH(1,2)[OF ok[OF 1]]
    show ?case
    proof (cases "map_field env claims f")
      case None
      then show ?thesis using ih by (simp add: map_filter_Cons)
    next
      case (Some c)
      have "fst c \<notin> fst ` set fm" using map_field_col[OF Some] 1 by (simp add: fields_ok_def)
      then have "fst c \<notin> fst ` set (List.map_filter (map_field env claims) fm)" using ih(2) by blast
      then show ?thesis using Some ih(1) by (simp add: map_filter_Cons)
    qed
  next
    case 2
    then show ?case using Cons.IH(2)[OF ok[OF 2]] map_field_col[of env claims f]
      by (auto simp: map_filter_Cons split: option.splits)
  next
    case 3
    then have "fst f \<in> set allowedEmploymentColumns" by (simp add: fields_ok_def)
    then show ?case using Cons.IH(3)[OF ok[OF 3]] map_field_typed[of env claims f]
      by (simp add: map_filter_Cons split: option.splits)
  }
qed

lemma applyFieldMap_typed:
  assumes "fields_ok fm"
  shows "distinct (map fst (applyFieldMap env fm claims))" "\<forall>c \<in> set (applyFieldMap env fm claims). typed c"
  using map_filter_fields(1,3)[OF assms] by (auto simp: applyFieldMap_def)

section \<open>The configuration\<close>

lemma map_filter_Nil_iff: "List.map_filter g xs = [] \<longleftrightarrow> (\<forall>x \<in> set xs. g x = None)"
  by (induction xs) (auto simp: map_filter_Cons List.map_filter_simps split: option.splits)

lemma bad_column_None: "bad_column fm = None \<longleftrightarrow> (\<forall>(p, m) \<in> set fm. fst ` set m \<subseteq> set allowedEmploymentColumns)"
proof -
  have "(case x of (p, m) \<Rightarrow> map_option (\<lambda>c. UnknownColumn p (fst c)) (find (\<lambda>c. fst c \<notin> set allowedEmploymentColumns) m)) = None \<longleftrightarrow>
        (case x of (p, m) \<Rightarrow> fst ` set m \<subseteq> set allowedEmploymentColumns)" for x :: "string \<times> FieldMapConfig"
    by (cases x) (auto simp: find_None_iff)
  moreover have "(case l of [] \<Rightarrow> None | e # _ \<Rightarrow> Some e) = None \<longleftrightarrow> l = []" for l :: "load_error list" by (cases l) simp_all
  ultimately show ?thesis by (simp add: bad_column_def map_filter_Nil_iff)
qed

lemma check_rules_None:
  "check_rules enabled seen rs = None \<longleftrightarrow>
     (\<forall>r \<in> set rs. trim_space (dr_SignupApplication r) \<noteq> [] \<and> trim_space (dr_Provider r) \<noteq> [] \<and> containsString enabled (dr_Provider r)) \<and>
     distinct (map matcher_key rs) \<and> matcher_key ` set rs \<inter> set seen = {}"
  by (induction enabled seen rs rule: check_rules.induct) auto

text \<open>What the checks leave: the columns are known, and a matcher names one enabled provider.\<close>

definition config_ok :: "employmentProvidersConfig \<Rightarrow> bool" where
  "config_ok cfg \<longleftrightarrow>
     (\<forall>(p, m) \<in> set (pc_FieldMap cfg). fst ` set m \<subseteq> set allowedEmploymentColumns) \<and>
     (\<forall>r \<in> set (pc_ProviderDetection cfg). trim_space (dr_SignupApplication r) \<noteq> [] \<and> containsString (pc_Enabled cfg) (dr_Provider r)) \<and>
     distinct (map matcher_key (pc_ProviderDetection cfg))"

lemma load_config_ok: "loadEmploymentProvidersConfig env tenantID configs = Inr cfg \<Longrightarrow> config_ok cfg"
  by (auto simp: loadEmploymentProvidersConfig_def config_ok_def zero_config_def bad_column_None check_rules_None split: option.splits if_splits)

lemma find_perm:
  assumes "set ys = set xs" "\<And>a b. a \<in> set xs \<Longrightarrow> b \<in> set xs \<Longrightarrow> P a \<Longrightarrow> P b \<Longrightarrow> a = b"
  shows "find P ys = find P xs"
proof (cases "find P xs")
  case None
  then have "find P ys = None" using assms(1) by (simp add: find_None_iff)
  then show ?thesis using None by simp
next
  case (Some a)
  note a = find_SomeD[OF Some]
  obtain b where b: "find P ys = Some b" using a assms(1) by (cases "find P ys") (auto simp: find_None_iff)
  then have "b \<in> set xs" "P b" using find_SomeD[OF b] assms(1) by simp_all
  then show ?thesis using assms(2) a b Some by simp
qed

lemma rule_matches_key:
  "rule_matches (to_lower a) r \<longleftrightarrow> dr_SignupApplication r \<noteq> [] \<and> dr_Provider r \<noteq> [] \<and> matcher_key r = to_lower a"
  by (simp add: rule_matches_def equal_fold_def matcher_key_def to_lower_idem)

lemma key_inj: "distinct (map matcher_key rs) \<Longrightarrow> a \<in> set rs \<Longrightarrow> b \<in> set rs \<Longrightarrow> matcher_key a = matcher_key b \<Longrightarrow> a = b"
  by (metis distinct_map inj_onD)

lemma detectProvider_perm:
  assumes "distinct (map matcher_key rs)" "set rs' = set rs"
  shows "detectProvider rs' external = detectProvider rs external"
proof -
  have "find (rule_matches (to_lower a)) rs' = find (rule_matches (to_lower a)) rs" for a
    by (rule find_perm[OF assms(2)]) (use key_inj[OF assms(1)] in \<open>simp add: rule_matches_key\<close>)
  moreover have "rs' = [] \<longleftrightarrow> rs = []" using assms(2) by auto
  ultimately show ?thesis by (simp add: detectProvider_def Let_def split: option.split)
qed

lemma detectProvider_rule:
  assumes "detectProvider rs external \<noteq> []"
  obtains r raw where "r \<in> set rs" "detectProvider rs external = dr_Provider r"
    "map_of external ''signupApplication'' = Some raw" "matcher_key r = to_lower (trim_space (sprint raw))"
proof -
  obtain raw where raw: "map_of external ''signupApplication'' = Some raw" "raw \<noteq> JNull"
    using assms by (auto simp: detectProvider_def split: if_splits option.splits)
  let ?a = "to_lower (trim_space (sprint raw))"
  obtain r where r: "find (rule_matches ?a) rs = Some r"
    using assms raw by (auto simp: detectProvider_def Let_def split: if_splits option.splits)
  then have "detectProvider rs external = dr_Provider r" using assms raw
    by (auto simp: detectProvider_def Let_def split: if_splits)
  then show ?thesis using that[of r raw] find_SomeD[OF r] raw(1) by (simp add: rule_matches_key)
qed

section \<open>The table\<close>

definition emp_ok :: "emp_db \<Rightarrow> bool" where
  "emp_ok db \<longleftrightarrow> unique_emp (em_rows db) \<and> (\<forall>r \<in> set (em_rows db). ei_ID r < em_seq db)"

lemma emp_of_user_SomeD: "emp_of_user sid db = Some r \<Longrightarrow> r \<in> set (em_rows db) \<and> ei_live r \<and> ei_UserSubjectID r = sid"
  unfolding emp_of_user_def by (drule find_SomeD) simp

lemma emp_of_uid_SomeD:
  "emp_of_uid tid uid db = Some r \<Longrightarrow> r \<in> set (em_rows db) \<and> ei_live r \<and> ei_TenantID r = tid \<and> ei_EnterpriseUID r = Some uid"
  unfolding emp_of_uid_def by (drule find_SomeD) simp

lemma emp_of_user_unique:
  assumes "unique_emp (em_rows db)" "r \<in> set (em_rows db)" "ei_live r" "ei_UserSubjectID r = sid"
  shows "emp_of_user sid db = Some r"
proof (cases "emp_of_user sid db")
  case None
  then show ?thesis using assms(2-) by (simp add: emp_of_user_def find_None_iff)
next
  case (Some r')
  have "inj_on ei_UserSubjectID (set (filter ei_live (em_rows db)))" using assms(1) by (simp add: unique_emp_def distinct_map)
  then show ?thesis using Some emp_of_user_SomeD[OF Some] assms(2-) by (simp add: inj_on_def)
qed

lemma id_unique: "unique_emp rows \<Longrightarrow> r \<in> set rows \<Longrightarrow> r' \<in> set rows \<Longrightarrow> ei_ID r = ei_ID r' \<Longrightarrow> r = r'"
  by (rule inj_onD[of ei_ID "set rows"]) (simp_all add: unique_emp_def distinct_map)

text \<open>What a refresh of a row leaves and what it sets.\<close>

lemma emp_updates_kept [simp]:
  "ei_ID (emp_updates env prov mapped r) = ei_ID r" "ei_TenantID (emp_updates env prov mapped r) = ei_TenantID r"
  "ei_UserSubjectID (emp_updates env prov mapped r) = ei_UserSubjectID r" "ei_DeletedAt (emp_updates env prov mapped r) = ei_DeletedAt r"
  "ei_Provider (emp_updates env prov mapped r) = prov" "ei_SyncStatus (emp_updates env prov mapped r) = ''fresh''"
  "ei_LastSyncedAt (emp_updates env prov mapped r) = ee_now env"
  by (simp_all add: emp_updates_def)

lemma holds_subject [simp]: "holds (r\<lparr>ei_UserSubjectID := x\<rparr>) c = holds r c"
proof -
  have "get_text k (r\<lparr>ei_UserSubjectID := x\<rparr>) = get_text k r" "get_date k (r\<lparr>ei_UserSubjectID := x\<rparr>) = get_date k r" for k
    by (simp_all add: get_text_def get_date_def cong: if_cong split del: if_split)
  then show ?thesis by (simp add: holds_def split: colval.split)
qed

lemma update_emp_Some: "update_emp fails i f db = (Some m, db') \<Longrightarrow> db' = db"
  by (auto simp: update_emp_def Let_def split: option.splits if_splits)

lemma update_emp_None:
  assumes "update_emp fails i f db = (None, db')"
  shows "em_rows db' = map (\<lambda>r. if ei_live r \<and> ei_ID r = i then f r else r) (em_rows db)" "em_seq db' = em_seq db"
    "unique_emp (em_rows db')"
  using assms by (auto simp: update_emp_def Let_def split: option.splits if_splits)

text \<open>A row that was synchronised now, from a provider, with the mapped columns.\<close>

definition synced :: "emp_env \<Rightarrow> string \<Rightarrow> string \<Rightarrow> (string \<times> colval) list \<Rightarrow> EmploymentIdentity \<Rightarrow> bool" where
  "synced env sid prov mapped r \<longleftrightarrow>
     ei_live r \<and> ei_UserSubjectID r = sid \<and> ei_Provider r = prov \<and> ei_SyncStatus r = ''fresh'' \<and> ei_LastSyncedAt r = ee_now env \<and>
     (\<forall>c \<in> set mapped. holds r c)"

definition good_map :: "(string \<times> colval) list \<Rightarrow> bool" where
  "good_map mapped \<longleftrightarrow> distinct (map fst mapped) \<and> (\<forall>c \<in> set mapped. typed c)"

lemma synced_updates:
  assumes "good_map mapped" "ei_live r" "ei_UserSubjectID r = sid"
  shows "synced env sid prov mapped (emp_updates env prov mapped r)"
  using assms fold_holds[OF ptr_ok_Some] unfolding synced_def ei_live_def good_map_def
  by (simp add: emp_updates_def)

lemma synced_realigned:
  assumes "good_map mapped" "ei_live r"
  shows "synced env sid prov mapped ((emp_updates env prov mapped r)\<lparr>ei_UserSubjectID := sid\<rparr>)"
  using synced_updates[OF assms refl, of env prov] by (simp add: synced_def ei_live_def)

lemma synced_new:
  assumes "good_map mapped"
  shows "synced env (mp_UserSubjectID p) (mp_Provider p) mapped (applyMappedToRow mapped (new_employment env n p))"
  using assms fold_holds[OF ptr_ok_stringPtr]
  unfolding synced_def ei_live_def applyMappedToRow_def good_map_def by (simp add: new_employment_def)

text \<open>
  The outcome of a write: nothing, a new row at the end of the table, one row refreshed in place, or one row removed; \<open>mine\<close> is the
  condition on the row.
\<close>

inductive emp_change :: "(EmploymentIdentity \<Rightarrow> bool) \<Rightarrow> emp_db \<Rightarrow> emp_db \<Rightarrow> bool" for mine where
  same: "emp_change mine db db"
| added: "unique_emp (em_rows db @ [row]) \<Longrightarrow> ei_ID row = em_seq db \<Longrightarrow>
    emp_change mine db (db\<lparr>em_rows := em_rows db @ [row], em_seq := Suc (em_seq db)\<rparr>)"
| refreshed: "existing \<in> set (em_rows db) \<Longrightarrow> mine existing \<Longrightarrow> \<forall>r. ei_ID (f r) = ei_ID r \<Longrightarrow>
    update_emp fails (ei_ID existing) f db = (None, db') \<Longrightarrow> emp_change mine db db'"

lemma emp_change_ok: "emp_change mine db db' \<Longrightarrow> emp_ok db \<Longrightarrow> emp_ok db'"
proof (induction rule: emp_change.induct)
  case (added db row)
  then show ?case by (auto simp: emp_ok_def less_Suc_eq)
next
  case (refreshed existing db f fails db')
  then show ?case using update_emp_None[OF refreshed(4)] by (auto simp: emp_ok_def)
qed

lemma emp_change_keeps:
  assumes "emp_change mine db db'" "emp_ok db" "r \<in> set (em_rows db)" "\<not> mine r"
  shows "r \<in> set (em_rows db')"
  using assms
proof (induction rule: emp_change.induct)
  case (refreshed existing db f fails db')
  have "ei_ID r \<noteq> ei_ID existing" using id_unique[of "em_rows db" r existing] refreshed by (auto simp: emp_ok_def)
  then show ?case using refreshed(6) unfolding update_emp_None(1)[OF refreshed(4)] by force
qed simp_all

section \<open>Writes\<close>

lemma shift_simps [simp]:
  "ee_now (shift k env) = ee_now env" "ee_rfc3339 (shift k env) = ee_rfc3339 env" "ee_trunc (shift k env) = ee_trunc env"
  "ee_unmarshal (shift k env) = ee_unmarshal env" "ee_fails (shift k env) n = ee_fails env (k + n)"
  by (simp_all add: shift_def)

lemma shift_functions [simp]:
  "emp_updates (shift k env) = emp_updates env" "new_employment (shift k env) = new_employment env"
  "applyFieldMap (shift k env) = applyFieldMap env" "synced (shift k env) = synced env"
proof -
  have "parseClaimDate (shift k env) = parseClaimDate env" by (rule ext) (simp add: parseClaimDate_def split: json.split)
  then have "map_field (shift k env) = map_field env" by (intro ext) (simp only: map_field_def)
  then show "applyFieldMap (shift k env) = applyFieldMap env" by (intro ext) (simp add: applyFieldMap_def)
qed (intro ext, simp add: emp_updates_def new_employment_def synced_def)+

lemma good_applyFieldMap: "fields_ok fm \<Longrightarrow> good_map (applyFieldMap env fm claims)"
  by (simp add: good_map_def applyFieldMap_typed)

text \<open>The rows a write may refresh: the row of the user, and the row with the enterprise identifier in the tenant.\<close>

definition reach :: "EmploymentMappingParams \<Rightarrow> EmploymentIdentity \<Rightarrow> bool" where
  "reach p r \<longleftrightarrow> ei_live r \<and> (ei_UserSubjectID r = mp_UserSubjectID p \<or> ei_TenantID r = mp_TenantID p)"

lemma refreshed_synced:
  assumes "existing \<in> set (em_rows db)" "ei_live existing" "update_emp fails (ei_ID existing) f db = (None, db')"
    "synced env sid prov mapped (f existing)"
  shows "\<exists>r \<in> set (em_rows db'). synced env sid prov mapped r"
  using assms unfolding update_emp_None(1)[OF assms(3)] by force

text \<open>
  The reconciliation after a refused insert, where the user has no row: it refreshes the row with the enterprise identifier, and the
  branch that removes a row is not reached.
\<close>

definition reconcile_updates :: "emp_env \<Rightarrow> EmploymentMappingParams \<Rightarrow> (string \<times> colval) list \<Rightarrow> bool \<Rightarrow> EmploymentIdentity \<Rightarrow> EmploymentIdentity" where
  "reconcile_updates env p mapped realign r =
     (let r1 = emp_updates env (mp_Provider p) mapped r in if realign then r1\<lparr>ei_UserSubjectID := mp_UserSubjectID p\<rparr> else r1)"

lemma reconcile_outcome:
  assumes "emp_of_user (mp_UserSubjectID p) db = None" "reconcileByEnterpriseUID env p mapped db = (res, db')"
  shows "res \<noteq> Inr True \<and> db' = db \<or>
    (\<exists>existing uid. emp_of_uid (mp_TenantID p) uid db = Some existing \<and> res = Inr True \<and>
       update_emp (ee_fails env 3) (ei_ID existing)
         (reconcile_updates env p mapped (ei_UserSubjectID existing \<noteq> mp_UserSubjectID p)) db = (None, db'))"
proof (cases "map_of mapped ''enterprise_uid''")
  case None
  then show ?thesis using assms(2) by (auto simp: reconcileByEnterpriseUID_def)
next
  case (Some v)
  show ?thesis
  proof (cases v)
    case (CTime t)
    then show ?thesis using assms(2) Some by (auto simp: reconcileByEnterpriseUID_def)
  next
    case (CStr raw)
    have eq: "(\<lambda>r. let r1 = emp_updates env (mp_Provider p) mapped r in if b then r1\<lparr>ei_UserSubjectID := mp_UserSubjectID p\<rparr> else r1) =
        reconcile_updates env p mapped b" for b
      by (rule ext) (simp add: reconcile_updates_def)
    show ?thesis
      using assms(2) Some CStr assms(1) unfolding reconcileByEnterpriseUID_def Let_def eq[unfolded Let_def]
      by (auto split: if_splits option.splits prod.splits dest: update_emp_Some)
  qed
qed

lemma reconcile_updates_synced:
  assumes "good_map mapped" "ei_live existing"
  shows "synced env (mp_UserSubjectID p) (mp_Provider p) mapped
    (reconcile_updates env p mapped (ei_UserSubjectID existing \<noteq> mp_UserSubjectID p) existing)"
  using synced_updates[OF assms] synced_realigned[OF assms] by (simp add: reconcile_updates_def Let_def)

lemma reconcile_updates_ID [simp]: "ei_ID (reconcile_updates env p mapped b r) = ei_ID r"
  by (simp add: reconcile_updates_def Let_def)

lemma upsert_outcome:
  assumes "fields_ok fm" "upsertEmploymentIdentity env p fm db = (res, db')"
  shows "emp_change (reach p) db db' \<and>
    (res = None \<longrightarrow> (\<exists>r \<in> set (em_rows db'). synced env (mp_UserSubjectID p) (mp_Provider p) (applyFieldMap env fm (mp_ExternalClaims p)) r))"
proof (cases "ee_fails env 0")
  case (Some m)
  then show ?thesis using assms(2) by (auto simp: upsertEmploymentIdentity_def Let_def intro: emp_change.same)
next
  case None
  let ?mapped = "applyFieldMap env fm (mp_ExternalClaims p)"
  note good = good_applyFieldMap[OF assms(1), of env "mp_ExternalClaims p"]
  show ?thesis
  proof (cases "emp_of_user (mp_UserSubjectID p) db")
    case (Some existing)
    note ex = emp_of_user_SomeD[OF Some]
    obtain m db2 where u: "update_emp (ee_fails env 6) (ei_ID existing) (emp_updates env (mp_Provider p) ?mapped) db = (m, db2)"
      by fastforce
    show ?thesis
    proof (cases m)
      case None
      have r: "(res, db') = (None, db2)" using assms(2) u None Some \<open>ee_fails env 0 = None\<close>
        by (simp add: upsertEmploymentIdentity_def Let_def)
      have "emp_change (reach p) db db2"
        by (rule emp_change.refreshed[of existing _ _ "emp_updates env (mp_Provider p) ?mapped"]) (use ex u None in \<open>simp_all add: reach_def\<close>)
      then show ?thesis using r refreshed_synced[of existing db _ _ db2] u None ex synced_updates[OF good, of existing] by simp
    next
      case (Some e)
      then have "db2 = db" using update_emp_Some u by blast
      then show ?thesis using assms(2) u Some \<open>emp_of_user _ _ = _\<close> \<open>ee_fails env 0 = None\<close>
        by (auto simp: upsertEmploymentIdentity_def Let_def intro: emp_change.same)
    qed
  next
    case None
    let ?row = "applyMappedToRow ?mapped (new_employment env (em_seq db) p)"
    define failed where "failed = (case ee_fails env 1 of Some m \<Rightarrow> Some m | None \<Rightarrow> if unique_emp (em_rows db @ [?row]) then None else Some pg_duplicate)"
    have up: "upsertEmploymentIdentity env p fm db =
      (case failed of
         None \<Rightarrow> (None, db\<lparr>em_rows := em_rows db @ [?row], em_seq := Suc (em_seq db)\<rparr>)
       | Some m \<Rightarrow>
           if isDuplicateKeyError (Some m) then
             (case reconcileByEnterpriseUID (shift 2 env) p ?mapped db of
                (Inr True, db') \<Rightarrow> (None, db')
              | (_, db') \<Rightarrow> (Some (EmpDBError ''create employment_identity'' m), db'))
           else (Some (EmpDBError ''create employment_identity'' m), db))"
      using None \<open>ee_fails env 0 = None\<close> by (simp add: upsertEmploymentIdentity_def Let_def failed_def)
    show ?thesis
    proof (cases failed)
      case None
      then have u: "unique_emp (em_rows db @ [?row])" unfolding failed_def by (auto split: option.splits if_splits)
      have r: "(res, db') = (None, db\<lparr>em_rows := em_rows db @ [?row], em_seq := Suc (em_seq db)\<rparr>)" using up assms(2) None by simp
      have "ei_ID ?row = em_seq db" by (simp add: applyMappedToRow_def new_employment_def)
      then have "emp_change (reach p) db db'" using emp_change.added[OF u] r by simp
      then show ?thesis using r synced_new[OF good] by simp
    next
      case (Some m)
      obtain a db2 where rc: "reconcileByEnterpriseUID (shift 2 env) p ?mapped db = (a, db2)" by fastforce
      note out = reconcile_outcome[OF \<open>emp_of_user _ _ = None\<close> rc]
      show ?thesis
      proof (cases "isDuplicateKeyError (Some m) \<and> a = Inr True")
        case True
        have r: "(res, db') = (None, db2)" using up assms(2) Some rc True by simp
        obtain existing uid where ex: "emp_of_uid (mp_TenantID p) uid db = Some existing" and
            u: "update_emp (ee_fails (shift 2 env) 3) (ei_ID existing)
              (reconcile_updates (shift 2 env) p ?mapped (ei_UserSubjectID existing \<noteq> mp_UserSubjectID p)) db = (None, db2)"
          using out True by blast
        note e = emp_of_uid_SomeD[OF ex]
        have "emp_change (reach p) db db2"
          by (rule emp_change.refreshed[OF _ _ _ u]) (use e in \<open>simp_all add: reach_def\<close>)
        moreover have "\<exists>r \<in> set (em_rows db2). synced env (mp_UserSubjectID p) (mp_Provider p) ?mapped r"
          by (rule refreshed_synced[OF _ _ u]) (use e reconcile_updates_synced[OF good, of existing "shift 2 env" p] in simp_all)
        ultimately show ?thesis using r by simp
      next
        case False
        have "db2 = db" if "a \<noteq> Inr True" using out that by blast
        then have "(res, db') = (Some (EmpDBError ''create employment_identity'' m), db)"
          using up assms(2) Some rc False by (auto split: sum.splits bool.splits if_splits)
        then show ?thesis by (auto intro: emp_change.same)
      qed
    qed
  qed
qed

section \<open>The mapping of a login\<close>

text \<open>The decoded field maps are Go maps.\<close>

definition go_maps :: "emp_env \<Rightarrow> bool" where
  "go_maps env \<longleftrightarrow> (\<forall>y cfg. ee_unmarshal env y = Some cfg \<longrightarrow> (\<forall>(q, m) \<in> set (pc_FieldMap cfg). distinct (map fst m)))"

definition tenant_of :: "EmploymentMappingParams \<Rightarrow> string" where
  "tenant_of p = (if mp_TenantID p = [] then emp_defaultTenantID else mp_TenantID p)"

lemma load_fields_ok:
  assumes "go_maps env" "loadEmploymentProvidersConfig env tid configs = Inr cfg"
  shows "fields_ok (fieldmap_of cfg prov)"
proof (cases "map_of (pc_FieldMap cfg) prov")
  case None
  then show ?thesis by (simp add: fieldmap_of_def fields_ok_def)
next
  case (Some m)
  then have m: "(prov, m) \<in> set (pc_FieldMap cfg)" by (rule map_of_SomeD)
  have "\<forall>(p, m) \<in> set (pc_FieldMap cfg). fst ` set m \<subseteq> set allowedEmploymentColumns"
    using load_config_ok[OF assms(2)] by (simp add: config_ok_def)
  from bspec[OF this m] have "fst ` set m \<subseteq> set allowedEmploymentColumns" by simp
  moreover have "cfg \<noteq> zero_config" using m by (auto simp: zero_config_def)
  then obtain y where "ee_unmarshal env y = Some cfg" using assms(2)
    by (auto simp: loadEmploymentProvidersConfig_def split: option.splits if_splits)
  then have "\<forall>(q, m) \<in> set (pc_FieldMap cfg). distinct (map fst m)" using assms(1) by (simp add: go_maps_def)
  from bspec[OF this m] have "distinct (map fst m)" by simp
  ultimately show ?thesis using Some by (simp add: fieldmap_of_def fields_ok_def)
qed

text \<open>A call either ends before the table is touched, or is a write for an enabled provider.\<close>

lemma Apply_cases:
  assumes "ApplyEnterpriseMapping env configs p db = (res, db')"
  obtains "res \<noteq> None" "db' = db"
  | cfg prov where "loadEmploymentProvidersConfig env (tenant_of p) configs = Inr cfg" "prov \<in> set (pc_Enabled cfg)"
      "upsertEmploymentIdentity (shift 1 env) (p\<lparr>mp_TenantID := tenant_of p, mp_Provider := prov\<rparr>) (fieldmap_of cfg prov) db = (res, db')"
proof -
  define q where "q = (if mp_TenantID p = [] then p\<lparr>mp_TenantID := emp_defaultTenantID\<rparr> else p)"
  have q: "q = p\<lparr>mp_TenantID := tenant_of p\<rparr>" by (simp add: q_def tenant_of_def)
  have A: "ApplyEnterpriseMapping env configs p db =
     (if mp_UserSubjectID p = [] then (Some EmptyUserSubjectID, db)
      else case loadEmploymentProvidersConfig env (mp_TenantID q) configs of
             Inl e \<Rightarrow> (Some (LoadConfig e), db)
           | Inr cfg \<Rightarrow>
               let prov = resolve_provider cfg q
               in if prov = [] \<or> \<not> containsString (pc_Enabled cfg) prov then (Some ErrEnterpriseMappingDisabled, db)
                  else upsertEmploymentIdentity (shift 1 env) (q\<lparr>mp_Provider := prov\<rparr>) (fieldmap_of cfg prov) db)"
    unfolding ApplyEnterpriseMapping_def q_def Let_def by simp
  have t: "mp_TenantID q = tenant_of p" by (simp add: q)
  show thesis
  proof (cases "mp_UserSubjectID p = []")
    case True
    then show thesis using that(1) assms A by auto
  next
    case False
    show thesis
    proof (cases "loadEmploymentProvidersConfig env (tenant_of p) configs")
      case (Inl e)
      then show thesis using that(1) assms A False t by auto
    next
      case (Inr cfg)
      show thesis
      proof (cases "resolve_provider cfg q = [] \<or> \<not> containsString (pc_Enabled cfg) (resolve_provider cfg q)")
        case True
        then show thesis using that(1) assms A False t Inr by (auto simp: Let_def split: if_splits)
      next
        case no: False
        then have u: "upsertEmploymentIdentity (shift 1 env) (q\<lparr>mp_Provider := resolve_provider cfg q\<rparr>) (fieldmap_of cfg (resolve_provider cfg q)) db = (res, db')"
          using assms A False t Inr by (simp add: Let_def)
        show thesis by (rule that(2)[OF Inr, of "resolve_provider cfg q"]) (use no u q in \<open>simp_all add: containsString_def\<close>)
      qed
    qed
  qed
qed

lemma Apply_change:
  assumes "go_maps env" "ApplyEnterpriseMapping env configs p db = (res, db')"
  shows "emp_change (reach (p\<lparr>mp_TenantID := tenant_of p\<rparr>)) db db'"
  using assms(2)
proof (cases rule: Apply_cases)
  case 1
  then show ?thesis by (simp add: emp_change.same)
next
  case (2 cfg prov)
  have "reach (p\<lparr>mp_TenantID := tenant_of p, mp_Provider := prov\<rparr>) = reach (p\<lparr>mp_TenantID := tenant_of p\<rparr>)"
    by (rule ext) (simp add: reach_def)
  then show ?thesis using upsert_outcome[OF load_fields_ok[OF assms(1) 2(1)] 2(3)] by simp
qed

definition cfg_example :: employmentProvidersConfig where
  "cfg_example = \<lparr>pc_Enabled = [''idtrust''], pc_FieldMap = [(''idtrust'', [(''enterprise_uid'', ''UserId''), (''hire_date'', ''hired'')])],
     pc_ProviderDetection = [\<lparr>dr_SignupApplication = ''IDTrust'', dr_Provider = ''idtrust''\<rparr>]\<rparr>"

definition env_example :: emp_env where
  "env_example = \<lparr>ee_unmarshal = (\<lambda>_. Some cfg_example), ee_rfc3339 = (\<lambda>_. None), ee_trunc = (\<lambda>_. 0), ee_now = 7, ee_fails = (\<lambda>_. None)\<rparr>"

definition configs_example :: "TenantConfig list" where
  "configs_example = [\<lparr>tc_TenantID = ''default'', tc_ConfigYAML = ''x'', tc_UpdatedBy = None, tc_UpdatedAt = 0, tc_CreatedAt = 0\<rparr>,
     \<lparr>tc_TenantID = ''acme'', tc_ConfigYAML = ''x'', tc_UpdatedBy = None, tc_UpdatedAt = 0, tc_CreatedAt = 0\<rparr>]"

definition params_example :: "string \<Rightarrow> string \<Rightarrow> EmploymentMappingParams" where
  "params_example tid sid = \<lparr>mp_TenantID = tid, mp_UserSubjectID = sid, mp_Provider = ''github'',
     mp_ExternalClaims = [(''signupApplication'', JStr '' idtrust''), (''UserId'', JInt 42)]\<rparr>"

definition db_empty :: emp_db where "db_empty = \<lparr>em_rows = [], em_seq = 1\<rparr>"

definition row_example :: "nat \<Rightarrow> string \<Rightarrow> string \<Rightarrow> string option \<Rightarrow> EmploymentIdentity" where
  "row_example i tid sid uid = (new_employment env_example i \<lparr>mp_TenantID = tid, mp_UserSubjectID = sid, mp_Provider = ''idtrust'', mp_ExternalClaims = []\<rparr>)
     \<lparr>ei_EnterpriseUID := uid\<rparr>"

lemma env_example_maps: "go_maps env_example"
  by (simp add: go_maps_def env_example_def cfg_example_def)

text \<open>
  C31.  A mapping that reports success leaves the user with exactly the row that \<open>GetEmploymentIdentity\<close> finds: synchronised now, from a
  provider that the configuration of the tenant enables, and holding every column that the field map of that provider extracts from
  the claims -- whether the row was inserted, found by the user, or found by the enterprise identifier and realigned to the user, as the
  statements of \<open>reconcileByEnterpriseUID\<close> and the comments inside it have it (the comment above that function says that the user is
  preserved, lemma \<open>reconcile_moves_row\<close> below).
\<close>

theorem ApplyEnterpriseMapping_correct:
  assumes "go_maps env" "emp_ok db" "ApplyEnterpriseMapping env configs p db = (None, db')"
  shows "\<exists>cfg r. loadEmploymentProvidersConfig env (tenant_of p) configs = Inr cfg \<and>
    emp_of_user (mp_UserSubjectID p) db' = Some r \<and> ei_Provider r \<in> set (pc_Enabled cfg) \<and>
    synced env (mp_UserSubjectID p) (ei_Provider r) (applyFieldMap env (fieldmap_of cfg (ei_Provider r)) (mp_ExternalClaims p)) r"
  using assms(3)
proof (cases rule: Apply_cases)
  case (2 cfg prov)
  then obtain r where r: "r \<in> set (em_rows db')"
      "synced env (mp_UserSubjectID p) prov (applyFieldMap env (fieldmap_of cfg prov) (mp_ExternalClaims p)) r"
    using upsert_outcome[OF load_fields_ok[OF assms(1) 2(1)] 2(3)] by auto
  have "emp_ok db'" by (rule emp_change_ok[OF Apply_change[OF assms(1,3)] assms(2)])
  then have "emp_of_user (mp_UserSubjectID p) db' = Some r"
    by (intro emp_of_user_unique) (use r in \<open>simp_all add: emp_ok_def synced_def\<close>)
  moreover have "ei_Provider r = prov" using r(2) by (simp add: synced_def)
  ultimately show ?thesis using 2(1,2) r(2) by blast
qed simp

theorem ApplyEnterpriseMapping_correct_witness:
  "\<exists>r. emp_of_user ''u1'' (snd (ApplyEnterpriseMapping env_example configs_example (params_example [] ''u1'') db_empty)) = Some r"
proof -
  have ok: "emp_ok db_empty" by (simp add: emp_ok_def db_empty_def unique_emp_def)
  have "fst (ApplyEnterpriseMapping env_example configs_example (params_example [] ''u1'') db_empty) = None" by code_simp
  then obtain db' where db': "ApplyEnterpriseMapping env_example configs_example (params_example [] ''u1'') db_empty = (None, db')"
    by (metis prod.collapse)
  have "\<exists>r. emp_of_user (mp_UserSubjectID (params_example [] ''u1'')) db' = Some r"
    using ApplyEnterpriseMapping_correct[OF env_example_maps ok db'] by blast
  then show ?thesis using db' by (simp add: params_example_def)
qed

text \<open>
  A mapping, whatever its result, keeps the unique indexes and leaves every row that belongs to another user in another tenant as it
  is.
\<close>

theorem ApplyEnterpriseMapping_isolated:
  assumes "go_maps env" "emp_ok db" "ApplyEnterpriseMapping env configs p db = (res, db')"
  shows "emp_ok db' \<and> {r \<in> set (em_rows db). ei_TenantID r \<noteq> tenant_of p \<and> ei_UserSubjectID r \<noteq> mp_UserSubjectID p} \<subseteq> set (em_rows db')"
proof -
  note ch = Apply_change[OF assms(1,3)]
  have "r \<in> set (em_rows db')" if "r \<in> set (em_rows db)" "ei_TenantID r \<noteq> tenant_of p" "ei_UserSubjectID r \<noteq> mp_UserSubjectID p" for r
    by (rule emp_change_keeps[OF ch assms(2) that(1)]) (use that in \<open>simp add: reach_def\<close>)
  then show ?thesis using emp_change_ok[OF ch assms(2)] by blast
qed

theorem ApplyEnterpriseMapping_isolated_witness:
  "\<exists>r. r \<in> set (em_rows (snd (ApplyEnterpriseMapping env_example configs_example (params_example ''acme'' ''u1'')
     \<lparr>em_rows = [row_example 1 ''default'' ''u2'' (Some ''42'')], em_seq = 2\<rparr>))) \<and> ei_TenantID r = ''default''"
proof -
  let ?r = "row_example 1 ''default'' ''u2'' (Some ''42'')" and ?db = "\<lparr>em_rows = [row_example 1 ''default'' ''u2'' (Some ''42'')], em_seq = 2\<rparr>"
  let ?p = "params_example ''acme'' ''u1''"
  have r: "ei_ID ?r = 1" "ei_TenantID ?r = ''default''" "ei_UserSubjectID ?r = ''u2''" by (simp_all add: row_example_def new_employment_def)
  have ok: "emp_ok ?db" by (simp add: emp_ok_def unique_emp_def row_example_def new_employment_def)
  have "?r \<in> set (em_rows (snd (ApplyEnterpriseMapping env_example configs_example ?p ?db)))"
    using ApplyEnterpriseMapping_isolated[OF env_example_maps ok prod.collapse[symmetric], of configs_example ?p] r
    by (auto simp: params_example_def tenant_of_def)
  then show ?thesis using r(2) by blast
qed

text \<open>
  The checks made when the configuration is loaded make the detection of a provider independent of the order of the rules, and what
  it detects is enabled.
\<close>

theorem detection_unambiguous:
  assumes "loadEmploymentProvidersConfig env tid configs = Inr cfg" "set rules = set (pc_ProviderDetection cfg)"
  shows "detectProvider rules external = detectProvider (pc_ProviderDetection cfg) external \<and>
    detectProvider rules external \<in> insert [] (set (pc_Enabled cfg))"
proof -
  note ok = load_config_ok[OF assms(1)]
  have eq: "detectProvider rules external = detectProvider (pc_ProviderDetection cfg) external"
    by (rule detectProvider_perm[OF _ assms(2)]) (use ok in \<open>simp add: config_ok_def\<close>)
  have "detectProvider (pc_ProviderDetection cfg) external \<in> insert [] (set (pc_Enabled cfg))"
  proof (cases "detectProvider (pc_ProviderDetection cfg) external = []")
    case False
    then show ?thesis using ok by (elim detectProvider_rule) (auto simp: config_ok_def containsString_def)
  qed simp
  then show ?thesis using eq by simp
qed

theorem detection_unambiguous_witness:
  "detectProvider (rev (pc_ProviderDetection cfg_example)) (mp_ExternalClaims (params_example [] ''u1'')) =
   detectProvider (pc_ProviderDetection cfg_example) (mp_ExternalClaims (params_example [] ''u1''))"
proof -
  have "loadEmploymentProvidersConfig env_example ''default'' configs_example = Inr cfg_example" by code_simp
  from detection_unambiguous[OF this, of "rev (pc_ProviderDetection cfg_example)" "mp_ExternalClaims (params_example [] ''u1'')"]
  show ?thesis by simp
qed

section \<open>Consequences of the indexes\<close>

text \<open>The row of a user is looked up without its tenant: a login in one tenant rewrites the row that belongs to another.\<close>

lemma refreshes_foreign_tenant:
  "case em_rows (snd (ApplyEnterpriseMapping env_example configs_example (params_example ''acme'' ''u1'')
     \<lparr>em_rows = [row_example 1 ''default'' ''u1'' None], em_seq = 2\<rparr>)) of
     [r] \<Rightarrow> ei_TenantID r = ''default'' \<and> ei_EnterpriseUID r = Some ''42''
   | _ \<Rightarrow> False"
  by code_simp

text \<open>
  The reconciliation runs after a refused insert only: a user with a row whose enterprise identifier belongs to another row fails
  on every login.
\<close>

lemma clash_on_update:
  "fst (ApplyEnterpriseMapping env_example configs_example (params_example ''acme'' ''u1'')
     \<lparr>em_rows = [row_example 1 ''acme'' ''u1'' None, row_example 2 ''acme'' ''u2'' (Some ''42'')], em_seq = 3\<rparr>) =
   Some (EmpDBError ''update employment_identity'' pg_duplicate)"
  by code_simp

text \<open>A row taken over by the enterprise identifier changes its user.\<close>

lemma reconcile_moves_row:
  "map ei_UserSubjectID (em_rows (snd (ApplyEnterpriseMapping env_example configs_example (params_example ''acme'' ''u1'')
     \<lparr>em_rows = [row_example 2 ''acme'' ''u2'' (Some ''42'')], em_seq = 3\<rparr>))) = [''u1'']"
  by code_simp

text \<open>
  A number of seven or more digits is stored with an exponent: an enterprise identifier or an employee number that the provider sends as
  a JSON number and not as text does not compare equal to its digits.
\<close>

lemma digit_chars:
  "map digit_char [0, 1, 2, 3, 4, 5, 6, 7] = ''01234567''" "digit_char (Suc (Suc (Suc (Suc (Suc (Suc 0)))))) = CHR ''6''"
  by code_simp+

lemma number_with_exponent:
  "sprint (JInt 123456) = ''123456'' \<and> sprint (JInt 1234567) = ''1.234567e+06'' \<and> sprint (JInt (-20000000000)) = ''-2e+10''"
  by (simp add: float_string_def exponent_string_def Let_def dec_string.simps digit_chars(1)[simplified] digit_chars(2))

end
