(* ===== verification/User_Identity.thy ===== *)
theory User_Identity
  imports Employment
begin

text \<open>
  The login identities of users (\<^verbatim>\<open>cs-user/internal/user/claims.go\<close>, \<^verbatim>\<open>identity.go\<close> and the operations
  \<^verbatim>\<open>BindIdentityToUser\<close>, \<^verbatim>\<open>TransferIdentityToUser\<close> and \<^verbatim>\<open>UnbindIdentityByProvider\<close> of \<^verbatim>\<open>service.go\<close>;
  \<^verbatim>\<open>cs-user/internal/models/models.go\<close>, \<^verbatim>\<open>jwt_claims.go\<close>).

  Both tables are lists of rows with their deleted ones.  \<open>tid\<close> is the tenant of the request, as \<^verbatim>\<open>tenant.IDFromContext\<close> gives it;
  \<open>ok n\<close> says whether the \<open>n\<close>-th statement of an operation succeeds and statement 0 is the commit of its transaction.  A transaction that
  fails leaves the tables.
\<close>

section \<open>Rows\<close>

record User =
  us_ID :: nat
  us_TenantID :: string
  us_SubjectID :: string
  us_ShortID :: string
  us_Username :: string
  us_DisplayName :: "string option"
  us_Email :: "string option"
  us_Phone :: "string option"
  us_AvatarURL :: "string option"
  us_AuthProvider :: "string option"
  us_ExternalKey :: "string option"
  us_ProviderUserID :: "string option"
  us_IsActive :: bool
  us_Status :: string
  us_ProfileCompletedAt :: "int option"
  us_LastLoginAt :: "int option"
  us_LastSyncAt :: "int option"
  us_CreatedAt :: int
  us_UpdatedAt :: int
  us_DeletedAt :: "int option"

record UserAuthIdentity =
  ai_ID :: nat
  ai_TenantID :: string
  ai_UserSubjectID :: string
  ai_Provider :: string
  ai_Issuer :: "string option"
  ai_ExternalKey :: string
  ai_ExternalSubject :: "string option"
  ai_ExternalUserID :: "string option"
  ai_ProviderUserID :: "string option"
  ai_DisplayName :: "string option"
  ai_Email :: "string option"
  ai_Phone :: "string option"
  ai_AvatarURL :: "string option"
  ai_Organization :: "string option"
  ai_IsPrimary :: bool
  ai_ExplicitlyUnbound :: bool
  ai_LastLoginAt :: "int option"
  ai_CreatedAt :: int
  ai_UpdatedAt :: int
  ai_DeletedAt :: "int option"

record JWTClaims =
  jc_ID :: string
  jc_Sub :: string
  jc_UniversalID :: string
  jc_Name :: string
  jc_PreferredUsername :: string
  jc_Email :: string
  jc_Picture :: string
  jc_Owner :: string
  jc_Provider :: string
  jc_ProviderUserID :: string
  jc_Phone :: string
  jc_ExternalClaims :: jobj

record id_db =
  db_users :: "User list"
  db_identities :: "UserAuthIdentity list"
  db_iseq :: nat

datatype identity_error =
    SubjectRequired
  | NilClaims
  | ExternalKeyRequired
  | ProviderRequired
  | TransferArgsRequired
  | ErrIdentityAlreadyBound
  | ErrExplicitlyUnbound
  | ErrLastIdentity
  | IdentityNotFound
  | UserRowNotFound
  | IdDBError

section \<open>Claims\<close>

definition normalizeJWTClaims :: "JWTClaims \<Rightarrow> JWTClaims" where
  "normalizeJWTClaims c0 =
     (let c1 = (if jc_PreferredUsername c0 = [] then c0\<lparr>jc_PreferredUsername := jc_Name c0\<rparr> else c0);
          c2 = (if jc_Name c1 = [] \<and> jc_PreferredUsername c1 \<noteq> [] then c1\<lparr>jc_Name := jc_PreferredUsername c1\<rparr> else c1)
      in if jc_Name c2 = [] then
           (if jc_Phone c2 \<noteq> [] then c2\<lparr>jc_Name := ''phone_'' @ jc_Phone c2\<rparr>
            else if jc_ProviderUserID c2 \<noteq> [] then c2\<lparr>jc_Name := jc_ProviderUserID c2\<rparr>
            else c2)
         else c2)"

definition extractEnterpriseUID :: "JWTClaims \<Rightarrow> string" where
  "extractEnterpriseUID c =
     (if jc_ExternalClaims c = [] then []
      else case map_of (jc_ExternalClaims c) ''enterprise_uid'' of
        None \<Rightarrow> []
      | Some raw \<Rightarrow> if raw = JNull then [] else trim_space (sprint raw))"

definition buildExternalKey :: "JWTClaims \<Rightarrow> string" where
  "buildExternalKey c =
     (let prov = to_lower (trim_space (jc_Provider c))
      in if jc_UniversalID c \<noteq> [] then
           (if prov \<noteq> [] then ''casdoor:'' @ prov @ '':'' @ jc_UniversalID c else ''casdoor:'' @ jc_UniversalID c)
         else if jc_Sub c \<noteq> [] then
           (if prov \<noteq> [] then ''casdoor-sub:'' @ prov @ '':'' @ jc_Sub c else ''casdoor-sub:'' @ jc_Sub c)
         else if jc_ID c \<noteq> [] then ''casdoor-id:'' @ jc_ID c
         else [])"

definition legacyExternalKey :: "JWTClaims \<Rightarrow> string" where
  "legacyExternalKey c =
     (if jc_UniversalID c \<noteq> [] then ''casdoor:'' @ jc_UniversalID c
      else if jc_Sub c \<noteq> [] then ''casdoor-sub:'' @ jc_Sub c
      else [])"

fun firstNonEmptyString :: "string list \<Rightarrow> string" where
  "firstNonEmptyString [] = []"
| "firstNonEmptyString (v # vs) = (if trim_space v \<noteq> [] then trim_space v else firstNonEmptyString vs)"

definition buildUserAuthIdentity :: "int \<Rightarrow> string \<Rightarrow> JWTClaims \<Rightarrow> UserAuthIdentity" where
  "buildUserAuthIdentity now sid c =
     (let prov = to_lower (trim_space (jc_Provider c))
      in \<lparr>ai_ID = 0, ai_TenantID = [], ai_UserSubjectID = sid, ai_Provider = (if prov = [] then ''casdoor'' else prov), ai_Issuer = None,
          ai_ExternalKey = buildExternalKey c, ai_ExternalSubject = stringPtr (firstNonEmptyString [jc_UniversalID c, jc_Sub c]),
          ai_ExternalUserID = stringPtr (jc_ID c), ai_ProviderUserID = stringPtr (jc_ProviderUserID c),
          ai_DisplayName = stringPtr (jc_PreferredUsername c), ai_Email = stringPtr (jc_Email c), ai_Phone = stringPtr (jc_Phone c),
          ai_AvatarURL = stringPtr (jc_Picture c), ai_Organization = stringPtr (jc_Owner c), ai_IsPrimary = False,
          ai_ExplicitlyUnbound = False, ai_LastLoginAt = Some now, ai_CreatedAt = now, ai_UpdatedAt = now, ai_DeletedAt = None\<rparr>)"

text \<open>The map of changed columns, and its effect on a row.\<close>

definition identity_update :: "string \<Rightarrow> string \<Rightarrow> string option \<Rightarrow> (string \<times> string) list" where
  "identity_update col new old = (if new \<noteq> [] \<and> old \<noteq> Some new then [(col, new)] else [])"

definition buildIdentityUpdates :: "UserAuthIdentity \<Rightarrow> JWTClaims \<Rightarrow> (string \<times> string) list" where
  "buildIdentityUpdates existing c =
     identity_update ''display_name'' (jc_PreferredUsername c) (ai_DisplayName existing) @
     identity_update ''email'' (jc_Email c) (ai_Email existing) @
     identity_update ''phone'' (jc_Phone c) (ai_Phone existing) @
     identity_update ''avatar_url'' (jc_Picture c) (ai_AvatarURL existing) @
     identity_update ''organization'' (jc_Owner c) (ai_Organization existing) @
     identity_update ''provider_user_id'' (jc_ProviderUserID c) (ai_ProviderUserID existing) @
     identity_update ''external_subject'' (jc_UniversalID c) (ai_ExternalSubject existing)"

definition set_identity_col :: "string \<times> string \<Rightarrow> UserAuthIdentity \<Rightarrow> UserAuthIdentity" where
  "set_identity_col cv i =
     (case cv of (col, v) \<Rightarrow>
        if col = ''display_name'' then i\<lparr>ai_DisplayName := Some v\<rparr>
        else if col = ''email'' then i\<lparr>ai_Email := Some v\<rparr>
        else if col = ''phone'' then i\<lparr>ai_Phone := Some v\<rparr>
        else if col = ''avatar_url'' then i\<lparr>ai_AvatarURL := Some v\<rparr>
        else if col = ''organization'' then i\<lparr>ai_Organization := Some v\<rparr>
        else if col = ''provider_user_id'' then i\<lparr>ai_ProviderUserID := Some v\<rparr>
        else if col = ''external_subject'' then i\<lparr>ai_ExternalSubject := Some v\<rparr>
        else i)"

definition set_identity_cols :: "int \<Rightarrow> (string \<times> string) list \<Rightarrow> UserAuthIdentity \<Rightarrow> UserAuthIdentity" where
  "set_identity_cols now cols i = fold set_identity_col cols (i\<lparr>ai_UpdatedAt := now\<rparr>)"

section \<open>The primary identity\<close>

definition providerRank :: "string \<Rightarrow> int" where
  "providerRank prov =
     (let p = to_lower (trim_space prov)
      in if p = ''idtrust'' then 300 else if p = ''github'' then 200 else if p = ''phone'' then 100 else 0)"

definition select_step :: "UserAuthIdentity option \<Rightarrow> UserAuthIdentity option \<Rightarrow> UserAuthIdentity option" where
  "select_step x best =
     (case x of
        None \<Rightarrow> best
      | Some i \<Rightarrow>
          (case best of
             None \<Rightarrow> Some i
           | Some b \<Rightarrow>
               if providerRank (ai_Provider i) > providerRank (ai_Provider b) \<or>
                  providerRank (ai_Provider i) = providerRank (ai_Provider b) \<and> ai_ID i < ai_ID b
               then Some i else best))"

text \<open>A nil pointer in the slice is \<open>None\<close>.\<close>

definition selectBestPrimary :: "UserAuthIdentity option list \<Rightarrow> UserAuthIdentity option" where
  "selectBestPrimary identities = fold select_step identities None"

definition ai_live :: "UserAuthIdentity \<Rightarrow> bool" where "ai_live i \<longleftrightarrow> ai_DeletedAt i = None"

definition us_live :: "User \<Rightarrow> bool" where "us_live u \<longleftrightarrow> us_DeletedAt u = None"

definition user_row :: "string \<Rightarrow> string \<Rightarrow> id_db \<Rightarrow> User option" where
  "user_row tid sid s = find (\<lambda>u. us_live u \<and> us_TenantID u = tid \<and> us_SubjectID u = sid) (db_users s)"

text \<open>The live identities of a user in the tenant, and an update of the live rows that satisfy a condition.\<close>

definition mine :: "string \<Rightarrow> string \<Rightarrow> UserAuthIdentity \<Rightarrow> bool" where
  "mine tid sid i \<longleftrightarrow> ai_live i \<and> ai_TenantID i = tid \<and> ai_UserSubjectID i = sid"

definition ids_of :: "string \<Rightarrow> string \<Rightarrow> id_db \<Rightarrow> UserAuthIdentity list" where
  "ids_of tid sid s = filter (mine tid sid) (db_identities s)"

definition update_ids :: "(UserAuthIdentity \<Rightarrow> bool) \<Rightarrow> (UserAuthIdentity \<Rightarrow> UserAuthIdentity) \<Rightarrow> id_db \<Rightarrow> id_db" where
  "update_ids P f s = s\<lparr>db_identities := map (\<lambda>i. if P i then f i else i) (db_identities s)\<rparr>"

definition set_primary :: "int \<Rightarrow> bool \<Rightarrow> UserAuthIdentity \<Rightarrow> UserAuthIdentity" where
  "set_primary now b i = i\<lparr>ai_IsPrimary := b, ai_UpdatedAt := now\<rparr>"

definition demote_all :: "int \<Rightarrow> string \<Rightarrow> string \<Rightarrow> id_db \<Rightarrow> id_db" where
  "demote_all now tid sid s = update_ids (mine tid sid) (set_primary now False) s"

definition promote :: "int \<Rightarrow> string \<Rightarrow> nat \<Rightarrow> id_db \<Rightarrow> id_db" where
  "promote now tid n s = update_ids (\<lambda>i. ai_live i \<and> ai_TenantID i = tid \<and> ai_ID i = n) (set_primary now True) s"

definition equalStringPtr :: "string option \<Rightarrow> string option \<Rightarrow> bool" where
  "equalStringPtr a b \<longleftrightarrow> a = b"

text \<open>The written columns; \<^verbatim>\<open>external_key\<close> is left out of the statement.\<close>

definition refresh_user :: "int \<Rightarrow> UserAuthIdentity \<Rightarrow> User \<Rightarrow> User" where
  "refresh_user now primary u =
     u\<lparr>us_AuthProvider := stringPtr (ai_Provider primary), us_ProviderUserID := ai_ProviderUserID primary, us_LastSyncAt := Some now,
       us_UpdatedAt := now\<rparr>"

definition refreshUserProfileFromIdentitiesTx :: "(nat \<Rightarrow> bool) \<Rightarrow> int \<Rightarrow> string \<Rightarrow> string \<Rightarrow> id_db \<Rightarrow> identity_error option \<times> id_db" where
  "refreshUserProfileFromIdentitiesTx ok now tid sid s =
     (if \<not> ok 0 then (Some IdDBError, s)
      else case user_row tid sid s of
        None \<Rightarrow> (Some UserRowNotFound, s)
      | Some u \<Rightarrow>
          if \<not> ok 1 then (Some IdDBError, s)
          else
            (case selectBestPrimary (map Some (sort_key (\<lambda>i. if ai_IsPrimary i then 0 else 1 :: nat) (sort_key ai_ID (ids_of tid sid s)))) of
               None \<Rightarrow> (None, s)
             | Some primary \<Rightarrow>
                 if \<not> ai_IsPrimary primary \<and> (\<not> ok 2 \<or> \<not> ok 3) then (Some IdDBError, s)
                 else
                   let s1 = (if ai_IsPrimary primary then s else promote now tid (ai_ID primary) (demote_all now tid sid s));
                       changed = (\<not> equalStringPtr (us_AuthProvider u) (stringPtr (ai_Provider primary)) \<or>
                                  \<not> equalStringPtr (us_ExternalKey u) (stringPtr (ai_ExternalKey primary)) \<or>
                                  \<not> equalStringPtr (us_ProviderUserID u) (ai_ProviderUserID primary))
                   in if \<not> changed then (None, s1)
                      else if \<not> ok 4 then (Some IdDBError, s1)
                      else (None, s1\<lparr>db_users := map (\<lambda>v. if us_live v \<and> us_TenantID v = tid \<and> us_ID v = us_ID u
                                                              then refresh_user now primary v else v) (db_users s1)\<rparr>)))"

section \<open>Binding\<close>

text \<open>The primary key and the unique index on the external key, which covers deleted rows and all tenants.\<close>

definition unique_ids :: "UserAuthIdentity list \<Rightarrow> bool" where
  "unique_ids rows \<longleftrightarrow> distinct (map ai_ID rows) \<and> distinct (map ai_ExternalKey rows)"

definition transaction :: "bool \<Rightarrow> id_db \<Rightarrow> identity_error option \<times> id_db \<Rightarrow> identity_error option \<times> id_db" where
  "transaction commit s r = (if fst r \<noteq> None then (fst r, s) else if \<not> commit then (Some IdDBError, s) else r)"

text \<open>An update of the row with an identifier, deleted or not, followed by the refresh of the user.\<close>

definition restore_row :: "string option \<Rightarrow> UserAuthIdentity \<Rightarrow> UserAuthIdentity" where
  "restore_row owner i =
     i\<lparr>ai_UserSubjectID := (case owner of None \<Rightarrow> ai_UserSubjectID i | Some sid \<Rightarrow> sid), ai_DeletedAt := None, ai_ExplicitlyUnbound := False\<rparr>"

definition update_row_id :: "string \<Rightarrow> nat \<Rightarrow> (UserAuthIdentity \<Rightarrow> UserAuthIdentity) \<Rightarrow> id_db \<Rightarrow> id_db" where
  "update_row_id tid n f s = update_ids (\<lambda>i. ai_TenantID i = tid \<and> ai_ID i = n) f s"

definition find_key :: "string \<Rightarrow> string \<Rightarrow> id_db \<Rightarrow> UserAuthIdentity option" where
  "find_key tid key s = find (\<lambda>i. ai_TenantID i = tid \<and> ai_ExternalKey i = key) (db_identities s)"

definition bind_existing ::
  "(nat \<Rightarrow> bool) \<Rightarrow> int \<Rightarrow> string \<Rightarrow> string \<Rightarrow> JWTClaims \<Rightarrow> bool \<Rightarrow> UserAuthIdentity \<Rightarrow> id_db \<Rightarrow> identity_error option \<times> id_db" where
  "bind_existing ok now tid sid c force existing s =
     (let updates = buildIdentityUpdates existing c
      in if ai_UserSubjectID existing \<noteq> sid then
           (if ai_live existing then (Some ErrIdentityAlreadyBound, s)
            else if \<not> ok 2 then (Some IdDBError, s)
            else refreshUserProfileFromIdentitiesTx (\<lambda>n. ok (10 + n)) now tid sid
                   (update_row_id tid (ai_ID existing) (\<lambda>i. restore_row (Some sid) (set_identity_cols now updates i)) s))
         else if ai_ExplicitlyUnbound existing \<and> \<not> force then (Some ErrExplicitlyUnbound, s)
         else if updates = [] \<and> ai_live existing \<and> \<not> ai_ExplicitlyUnbound existing then
           refreshUserProfileFromIdentitiesTx (\<lambda>n. ok (10 + n)) now tid sid s
         else if \<not> ok 2 then (Some IdDBError, s)
         else refreshUserProfileFromIdentitiesTx (\<lambda>n. ok (10 + n)) now tid sid
                (update_row_id tid (ai_ID existing) (\<lambda>i. restore_row None (set_identity_cols now updates i)) s))"

definition bind_legacy ::
  "(nat \<Rightarrow> bool) \<Rightarrow> int \<Rightarrow> string \<Rightarrow> string \<Rightarrow> JWTClaims \<Rightarrow> bool \<Rightarrow> UserAuthIdentity \<Rightarrow> id_db \<Rightarrow> identity_error option \<times> id_db" where
  "bind_legacy ok now tid sid c force existing s =
     (let updates = buildIdentityUpdates existing c;
          s1 = update_row_id tid (ai_ID existing)
                 (\<lambda>i. (restore_row None (set_identity_cols now updates i))\<lparr>ai_ExternalKey := buildExternalKey c\<rparr>) s
      in if ai_ExplicitlyUnbound existing \<and> \<not> force then (Some ErrExplicitlyUnbound, s)
         else if \<not> ok 4 \<or> \<not> unique_ids (db_identities s1) then (Some IdDBError, s)
         else refreshUserProfileFromIdentitiesTx (\<lambda>n. ok (10 + n)) now tid sid s1)"

text \<open>A failing lookup of the current primary identity counts as its absence.\<close>

definition bind_new :: "(nat \<Rightarrow> bool) \<Rightarrow> int \<Rightarrow> string \<Rightarrow> string \<Rightarrow> JWTClaims \<Rightarrow> id_db \<Rightarrow> identity_error option \<times> id_db" where
  "bind_new ok now tid sid c s =
     (let identity = (buildUserAuthIdentity now sid c)\<lparr>ai_ID := db_iseq s, ai_TenantID := tid\<rparr>;
          current = (if ok 5 then find ai_IsPrimary (ids_of tid sid s) else None);
          higher = (case current of None \<Rightarrow> False | Some p \<Rightarrow> providerRank (ai_Provider identity) > providerRank (ai_Provider p));
          s1 = (if higher then demote_all now tid sid s else s);
          s2 = s1\<lparr>db_identities := db_identities s1 @ [identity\<lparr>ai_IsPrimary := (current = None \<or> higher)\<rparr>], db_iseq := Suc (db_iseq s1)\<rparr>
      in if higher \<and> \<not> ok 6 then (Some IdDBError, s)
         else if \<not> ok 7 \<or> \<not> unique_ids (db_identities s2) then (Some IdDBError, s)
         else refreshUserProfileFromIdentitiesTx (\<lambda>n. ok (10 + n)) now tid sid s2)"

definition bind_tx ::
  "(nat \<Rightarrow> bool) \<Rightarrow> int \<Rightarrow> string \<Rightarrow> string \<Rightarrow> JWTClaims \<Rightarrow> bool \<Rightarrow> id_db \<Rightarrow> identity_error option \<times> id_db" where
  "bind_tx ok now tid sid c force s =
     (if \<not> ok 1 then (Some IdDBError, s)
      else case find_key tid (buildExternalKey c) s of
        Some existing \<Rightarrow> bind_existing ok now tid sid c force existing s
      | None \<Rightarrow>
          let legacy = legacyExternalKey c
          in if legacy \<noteq> [] \<and> legacy \<noteq> buildExternalKey c then
               (if \<not> ok 3 then (Some IdDBError, s)
                else case find (\<lambda>i. ai_TenantID i = tid \<and> ai_ExternalKey i = legacy \<and> ai_UserSubjectID i = sid) (db_identities s) of
                  Some existing \<Rightarrow> bind_legacy ok now tid sid c force existing s
                | None \<Rightarrow> bind_new ok now tid sid c s)
             else bind_new ok now tid sid c s)"

definition BindIdentityToUser ::
  "(nat \<Rightarrow> bool) \<Rightarrow> int \<Rightarrow> string \<Rightarrow> string \<Rightarrow> JWTClaims option \<Rightarrow> bool \<Rightarrow> id_db \<Rightarrow> identity_error option \<times> id_db" where
  "BindIdentityToUser ok now tid sid claims force s =
     (if trim_space sid = [] then (Some SubjectRequired, s)
      else case claims of
        None \<Rightarrow> (Some NilClaims, s)
      | Some c0 \<Rightarrow>
          let c = normalizeJWTClaims c0
          in if buildExternalKey c = [] then (Some ExternalKeyRequired, s)
             else transaction (ok 0) s (bind_tx ok now tid sid c force s))"

section \<open>Transfer and removal\<close>

definition transfer_tx :: "(nat \<Rightarrow> bool) \<Rightarrow> int \<Rightarrow> string \<Rightarrow> string \<Rightarrow> string \<Rightarrow> id_db \<Rightarrow> identity_error option \<times> id_db" where
  "transfer_tx ok now tid target key s =
     (if \<not> ok 1 then (Some IdDBError, s)
      else case find_key tid key s of
        None \<Rightarrow> (Some IdentityNotFound, s)
      | Some identity \<Rightarrow>
          if ai_UserSubjectID identity = target then (None, s)
          else if \<not> ok 2 then (Some IdDBError, s)
          else
            (case refreshUserProfileFromIdentitiesTx (\<lambda>n. ok (10 + n)) now tid target
                    (update_row_id tid (ai_ID identity) (\<lambda>i. (restore_row (Some target) i)\<lparr>ai_UpdatedAt := now\<rparr>) s) of
               (Some e, s1) \<Rightarrow> (Some e, s1)
             | (None, s1) \<Rightarrow> refreshUserProfileFromIdentitiesTx (\<lambda>n. ok (20 + n)) now tid (ai_UserSubjectID identity) s1))"

definition TransferIdentityToUser ::
  "(nat \<Rightarrow> bool) \<Rightarrow> int \<Rightarrow> string \<Rightarrow> string \<Rightarrow> string \<Rightarrow> id_db \<Rightarrow> identity_error option \<times> id_db" where
  "TransferIdentityToUser ok now tid target key s =
     (if target = [] \<or> key = [] then (Some TransferArgsRequired, s)
      else transaction (ok 0) s (transfer_tx ok now tid target key s))"

definition unbind_row :: "int \<Rightarrow> UserAuthIdentity \<Rightarrow> UserAuthIdentity" where
  "unbind_row now i = i\<lparr>ai_ExplicitlyUnbound := True, ai_DeletedAt := Some now, ai_UpdatedAt := now\<rparr>"

text \<open>Statement \<open>20 + k\<close> removes the \<open>k\<close>-th identity of the provider.\<close>

definition unbind_tx :: "(nat \<Rightarrow> bool) \<Rightarrow> int \<Rightarrow> string \<Rightarrow> string \<Rightarrow> string \<Rightarrow> id_db \<Rightarrow> identity_error option \<times> id_db" where
  "unbind_tx ok now tid sid prov s =
     (let matched = filter (\<lambda>i. ai_Provider i = prov) (ids_of tid sid s)
      in if \<not> ok 1 then (Some IdDBError, s)
         else if matched = [] then (Some IdentityNotFound, s)
         else if \<not> ok 2 then (Some IdDBError, s)
         else if length (ids_of tid sid s) \<le> length matched then (Some ErrLastIdentity, s)
         else if \<not> list_all (\<lambda>k. ok (20 + k)) [0..<length matched] then (Some IdDBError, s)
         else
           let s1 = update_ids (\<lambda>i. ai_live i \<and> ai_TenantID i = tid \<and> ai_ID i \<in> set (map ai_ID matched)) (unbind_row now) s;
               hadPrimary = list_ex ai_IsPrimary matched
           in if hadPrimary \<and> \<not> ok 3 then (Some IdDBError, s1)
              else
                (case (if hadPrimary then selectBestPrimary (map Some (ids_of tid sid s1)) else None) of
                   None \<Rightarrow> refreshUserProfileFromIdentitiesTx (\<lambda>n. ok (10 + n)) now tid sid s1
                 | Some best \<Rightarrow>
                     if \<not> ok 4 \<or> \<not> ok 5 then (Some IdDBError, s1)
                     else refreshUserProfileFromIdentitiesTx (\<lambda>n. ok (10 + n)) now tid sid
                            (promote now tid (ai_ID best) (demote_all now tid sid s1))))"

definition UnbindIdentityByProvider ::
  "(nat \<Rightarrow> bool) \<Rightarrow> int \<Rightarrow> string \<Rightarrow> string \<Rightarrow> string \<Rightarrow> id_db \<Rightarrow> identity_error option \<times> id_db" where
  "UnbindIdentityByProvider ok now tid sid prov0 s =
     (let prov = to_lower (trim_space prov0)
      in if prov = [] then (Some ProviderRequired, s)
         else transaction (ok 0) s (unbind_tx ok now tid sid prov s))"

definition ListIdentities :: "bool \<Rightarrow> string \<Rightarrow> string \<Rightarrow> id_db \<Rightarrow> read_error + UserAuthIdentity list" where
  "ListIdentities ok tid sid s =
     (if sid = [] then Inl EmptySubjectID
      else if \<not> ok then Inl (ReadFailed [])
      else Inr (sort_key (\<lambda>i. if ai_IsPrimary i then 0 else 1 :: nat) (sort_key ai_ID (ids_of tid sid s))))"

section \<open>The best identity\<close>

definition rank :: "UserAuthIdentity \<Rightarrow> int" where "rank i = providerRank (ai_Provider i)"

definition is_best :: "UserAuthIdentity list \<Rightarrow> UserAuthIdentity \<Rightarrow> bool" where
  "is_best xs b \<longleftrightarrow> b \<in> set xs \<and> (\<forall>x \<in> set xs. rank x < rank b \<or> rank x = rank b \<and> ai_ID b \<le> ai_ID x)"

lemma select_fold:
  "fold select_step (map Some xs) acc = r \<Longrightarrow>
   (case r of None \<Rightarrow> acc = None \<and> xs = [] | Some b \<Rightarrow> is_best (xs @ (case acc of None \<Rightarrow> [] | Some a \<Rightarrow> [a])) b)"
proof (induction xs arbitrary: acc)
  case Nil
  then show ?case by (auto simp: is_best_def split: option.splits)
next
  case (Cons x xs)
  have "fold select_step (map Some xs) (select_step (Some x) acc) = r" using Cons.prems by simp
  note ih = Cons.IH[OF this]
  have "select_step (Some x) acc \<noteq> None" by (cases acc) (simp_all add: select_step_def)
  then obtain a where a: "select_step (Some x) acc = Some a" by blast
  obtain b where b: "r = Some b" "is_best (xs @ [a]) b" using ih a by (auto split: option.splits)
  have "(case acc of None \<Rightarrow> a = x | Some c \<Rightarrow>
      (a = x \<and> (rank c < rank x \<or> rank c = rank x \<and> ai_ID x < ai_ID c)) \<or> (a = c \<and> (rank x < rank c \<or> rank x = rank c \<and> ai_ID c \<le> ai_ID x)))"
    using a by (auto simp: select_step_def rank_def split: option.splits if_splits)
  then show ?case using b by (auto simp: is_best_def split: option.splits)
qed

lemma selectBestPrimary_Some: "selectBestPrimary (map Some xs) = Some b \<Longrightarrow> is_best xs b"
  unfolding selectBestPrimary_def by (drule select_fold) simp

lemma selectBestPrimary_None: "selectBestPrimary (map Some xs) = None \<Longrightarrow> xs = []"
  unfolding selectBestPrimary_def by (drule select_fold) simp

lemma is_best_ID: "is_best xs a \<Longrightarrow> is_best xs b \<Longrightarrow> ai_ID a = ai_ID b"
  by (fastforce simp: is_best_def)

lemma is_best_set: "set xs = set ys \<Longrightarrow> is_best xs b = is_best ys b"
  by (simp add: is_best_def)

lemma is_best_map:
  assumes "\<And>i. ai_ID (g i) = ai_ID i" "\<And>i. ai_Provider (g i) = ai_Provider i" "is_best (map g xs) b"
  obtains a where "is_best xs a" "b = g a"
proof -
  obtain a where a: "a \<in> set xs" "b = g a" using assms(3) by (auto simp: is_best_def)
  have "is_best xs a" using assms(3) a by (auto simp: is_best_def rank_def assms(1,2))
  then show ?thesis using that a(2) by blast
qed

text \<open>The best identity of a user is marked as primary.\<close>

definition best_primary :: "string \<Rightarrow> string \<Rightarrow> id_db \<Rightarrow> bool" where
  "best_primary tid sid s \<longleftrightarrow> (\<forall>b. is_best (ids_of tid sid s) b \<longrightarrow> ai_IsPrimary b)"

section \<open>Rows under updates\<close>

text \<open>A row after its primary mark was changed.\<close>

definition sim :: "UserAuthIdentity \<Rightarrow> UserAuthIdentity \<Rightarrow> bool" where
  "sim i j \<longleftrightarrow> (\<exists>b t. j = i\<lparr>ai_IsPrimary := b, ai_UpdatedAt := t\<rparr>)"

lemma sim_refl [simp]: "sim i i"
  unfolding sim_def by (rule exI[of _ "ai_IsPrimary i"], rule exI[of _ "ai_UpdatedAt i"]) simp

lemma sim_set_primary [simp]: "sim i (set_primary now b i)"
  unfolding sim_def set_primary_def by blast

lemma sim_fields:
  assumes "sim i j"
  shows "ai_ID j = ai_ID i" "ai_TenantID j = ai_TenantID i" "ai_UserSubjectID j = ai_UserSubjectID i" "ai_Provider j = ai_Provider i"
    "ai_ExternalKey j = ai_ExternalKey i" "ai_DeletedAt j = ai_DeletedAt i" "ai_ExplicitlyUnbound j = ai_ExplicitlyUnbound i"
  using assms unfolding sim_def by auto

lemma sim_trans:
  assumes "sim i j" "sim j k"
  shows "sim i k"
proof -
  obtain b t c u where "j = i\<lparr>ai_IsPrimary := b, ai_UpdatedAt := t\<rparr>" "k = j\<lparr>ai_IsPrimary := c, ai_UpdatedAt := u\<rparr>"
    using assms unfolding sim_def by blast
  then have "k = i\<lparr>ai_IsPrimary := c, ai_UpdatedAt := u\<rparr>" by simp
  then show ?thesis unfolding sim_def by blast
qed

lemma sim_mine: "sim i j \<Longrightarrow> mine tid sid j = mine tid sid i"
  by (simp add: mine_def ai_live_def sim_fields)

text \<open>The tables before and after a refresh: only the primary marks of the user and provider columns of the user's row change.\<close>

definition ids_ok :: "id_db \<Rightarrow> bool" where
  "ids_ok s \<longleftrightarrow> unique_ids (db_identities s) \<and> (\<forall>i \<in> set (db_identities s). ai_ID i < db_iseq s)"

definition same_user :: "User \<Rightarrow> User \<Rightarrow> bool" where
  "same_user u v \<longleftrightarrow> (\<exists>a p l t. v = u\<lparr>us_AuthProvider := a, us_ProviderUserID := p, us_LastSyncAt := l, us_UpdatedAt := t\<rparr>)"

lemma same_user_refl [simp]: "same_user u u"
proof -
  have "u = u\<lparr>us_AuthProvider := us_AuthProvider u, us_ProviderUserID := us_ProviderUserID u, us_LastSyncAt := us_LastSyncAt u,
    us_UpdatedAt := us_UpdatedAt u\<rparr>" by simp
  then show ?thesis unfolding same_user_def by blast
qed

lemma same_user_fields:
  assumes "same_user u v"
  shows "us_ID v = us_ID u" "us_TenantID v = us_TenantID u" "us_SubjectID v = us_SubjectID u" "us_ShortID v = us_ShortID u"
    "us_Username v = us_Username u" "us_ExternalKey v = us_ExternalKey u" "us_DeletedAt v = us_DeletedAt u" "us_Status v = us_Status u"
    "us_IsActive v = us_IsActive u"
  using assms unfolding same_user_def by auto

lemma same_user_trans:
  assumes "same_user u v" "same_user v w"
  shows "same_user u w"
proof -
  obtain a p l t b q m x where
    "v = u\<lparr>us_AuthProvider := a, us_ProviderUserID := p, us_LastSyncAt := l, us_UpdatedAt := t\<rparr>"
    "w = v\<lparr>us_AuthProvider := b, us_ProviderUserID := q, us_LastSyncAt := m, us_UpdatedAt := x\<rparr>"
    using assms unfolding same_user_def by blast
  then have "w = u\<lparr>us_AuthProvider := b, us_ProviderUserID := q, us_LastSyncAt := m, us_UpdatedAt := x\<rparr>" by simp
  then show ?thesis unfolding same_user_def by blast
qed

lemma same_user_refresh: "same_user u (refresh_user now primary u)"
  unfolding same_user_def refresh_user_def by blast

definition users_kept :: "string \<Rightarrow> User list \<Rightarrow> User list \<Rightarrow> bool" where
  "users_kept tid us vs \<longleftrightarrow> (\<exists>h. vs = map h us \<and> (\<forall>u. same_user u (h u)) \<and> (\<forall>u. us_TenantID u \<noteq> tid \<longrightarrow> h u = u))"

lemma users_kept_refl [simp]: "users_kept tid us us"
  unfolding users_kept_def by (rule exI[of _ "\<lambda>u. u"]) simp

lemma users_kept_trans:
  assumes "users_kept tid us vs" "users_kept tid vs ws"
  shows "users_kept tid us ws"
proof -
  obtain h k where "vs = map h us" "\<forall>u. same_user u (h u)" "\<forall>u. us_TenantID u \<noteq> tid \<longrightarrow> h u = u"
    "ws = map k vs" "\<forall>u. same_user u (k u)" "\<forall>u. us_TenantID u \<noteq> tid \<longrightarrow> k u = u"
    using assms unfolding users_kept_def by blast
  then show ?thesis unfolding users_kept_def by (intro exI[of _ "\<lambda>u. k (h u)"]) (auto intro: same_user_trans)
qed

definition remarked :: "(UserAuthIdentity \<Rightarrow> bool) \<Rightarrow> UserAuthIdentity list \<Rightarrow> UserAuthIdentity list \<Rightarrow> bool" where
  "remarked P is js \<longleftrightarrow> (\<exists>g. js = map g is \<and> (\<forall>i. sim i (g i)) \<and> (\<forall>i \<in> set is. \<not> P i \<longrightarrow> g i = i))"

lemma remarked_refl [simp]: "remarked P is is"
  unfolding remarked_def by (rule exI[of _ "\<lambda>i. i"]) simp

lemma remarked_trans:
  assumes "remarked P is js" "remarked P js ks" "\<And>i j. sim i j \<Longrightarrow> P j \<Longrightarrow> P i"
  shows "remarked P is ks"
proof -
  obtain g h where g: "js = map g is" "\<forall>i. sim i (g i)" "\<forall>i \<in> set is. \<not> P i \<longrightarrow> g i = i"
    and h: "ks = map h js" "\<forall>i. sim i (h i)" "\<forall>i \<in> set js. \<not> P i \<longrightarrow> h i = i"
    using assms(1,2) unfolding remarked_def by blast
  have "h (g i) = i" if "i \<in> set is" "\<not> P i" for i using g h that by auto
  then show ?thesis unfolding remarked_def using g h by (intro exI[of _ "\<lambda>i. h (g i)"]) (auto intro: sim_trans)
qed

lemma remarked_update: "(\<forall>i \<in> set (db_identities s). Q i \<longrightarrow> P i) \<Longrightarrow> remarked P (db_identities s) (db_identities (update_ids Q (set_primary now b) s))"
  unfolding remarked_def update_ids_def by (rule exI[of _ "\<lambda>i. if Q i then set_primary now b i else i"]) auto

lemma ids_of_remarked:
  assumes "remarked P (db_identities s) (db_identities s')"
  obtains g where "\<And>tid sid. ids_of tid sid s' = map g (ids_of tid sid s)" "\<And>i. sim i (g i)"
    "\<And>i. i \<in> set (db_identities s) \<Longrightarrow> \<not> P i \<Longrightarrow> g i = i"
proof -
  obtain g where g: "db_identities s' = map g (db_identities s)" "\<forall>i. sim i (g i)" "\<forall>i \<in> set (db_identities s). \<not> P i \<longrightarrow> g i = i"
    using assms unfolding remarked_def by blast
  have "mine tid sid \<circ> g = mine tid sid" for tid sid using g(2) by (intro ext) (simp add: sim_mine)
  then have "ids_of tid sid s' = map g (ids_of tid sid s)" for tid sid by (simp add: ids_of_def g(1) filter_map)
  then show ?thesis using that g(2,3) by blast
qed

text \<open>The identities of every other user are as before.\<close>

lemma ids_of_other:
  assumes "remarked (mine tid sid) (db_identities s) (db_identities s')" "(tid', sid') \<noteq> (tid, sid)"
  shows "ids_of tid' sid' s' = ids_of tid' sid' s"
proof -
  obtain g where g: "\<And>tid sid. ids_of tid sid s' = map g (ids_of tid sid s)" "\<And>i. i \<in> set (db_identities s) \<Longrightarrow> \<not> mine tid sid i \<Longrightarrow> g i = i"
    using ids_of_remarked[OF assms(1)] by metis
  have "map g (ids_of tid' sid' s) = ids_of tid' sid' s"
    by (rule map_idI, rule g(2)) (use assms(2) in \<open>auto simp: ids_of_def mine_def\<close>)
  then show ?thesis using g(1) by simp
qed

lemma remarked_ids_ok:
  assumes "remarked P (db_identities s) (db_identities s')" "db_iseq s' = db_iseq s" "ids_ok s"
  shows "ids_ok s'"
proof -
  obtain g where g: "db_identities s' = map g (db_identities s)" "\<forall>i. sim i (g i)"
    using assms(1) unfolding remarked_def by blast
  have id: "ai_ID (g i) = ai_ID i" "ai_ExternalKey (g i) = ai_ExternalKey i" for i using g(2) by (auto simp: sim_fields)
  then show ?thesis using assms(2,3) g(1) by (simp add: ids_ok_def unique_ids_def o_def)
qed

lemma ids_inj: "unique_ids rows \<Longrightarrow> i \<in> set rows \<Longrightarrow> j \<in> set rows \<Longrightarrow> ai_ID i = ai_ID j \<Longrightarrow> i = j"
  by (rule inj_onD[of ai_ID "set rows"]) (simp_all add: unique_ids_def distinct_map)

lemma promote_remarked:
  assumes "unique_ids (db_identities s)" "b \<in> set (ids_of tid sid s)"
  shows "remarked (mine tid sid) (db_identities s) (db_identities (promote now tid (ai_ID b) s))"
  unfolding promote_def
proof (rule remarked_update, intro ballI impI)
  fix i assume "i \<in> set (db_identities s)" "ai_live i \<and> ai_TenantID i = tid \<and> ai_ID i = ai_ID b"
  then have "i = b" using ids_inj[OF assms(1)] assms(2) by (simp add: ids_of_def)
  then show "mine tid sid i" using assms(2) by (simp add: ids_of_def)
qed

lemma demote_remarked: "remarked (mine tid sid) (db_identities s) (db_identities (demote_all now tid sid s))"
  unfolding demote_all_def by (rule remarked_update) simp

lemma update_ids_simps [simp]:
  "db_users (update_ids P f s) = db_users s" "db_iseq (update_ids P f s) = db_iseq s"
  by (simp_all add: update_ids_def)

lemma mark_simps [simp]:
  "db_users (promote now tid n s) = db_users s" "db_iseq (promote now tid n s) = db_iseq s"
  "db_users (demote_all now tid sid s) = db_users s" "db_iseq (demote_all now tid sid s) = db_iseq s"
  by (simp_all add: promote_def demote_all_def)

text \<open>Demoting every identity of a user and promoting the best one.\<close>

definition remark :: "int \<Rightarrow> string \<Rightarrow> string \<Rightarrow> UserAuthIdentity \<Rightarrow> id_db \<Rightarrow> id_db" where
  "remark now tid sid b s = promote now tid (ai_ID b) (demote_all now tid sid s)"

lemma remark_simps [simp]: "db_users (remark now tid sid b s) = db_users s" "db_iseq (remark now tid sid b s) = db_iseq s"
  by (simp_all add: remark_def)

lemma remark_effect:
  assumes "ids_ok s" "is_best (ids_of tid sid s) b"
  shows "remarked (mine tid sid) (db_identities s) (db_identities (remark now tid sid b s))" "best_primary tid sid (remark now tid sid b s)"
proof -
  let ?g = "\<lambda>i. if ai_live i \<and> ai_TenantID i = tid \<and> ai_ID i = ai_ID b then set_primary now True (if mine tid sid i then set_primary now False i else i)
      else if mine tid sid i then set_primary now False i else i"
  have fields: "ai_live (set_primary now c i) = ai_live i" "ai_TenantID (set_primary now c i) = ai_TenantID i" "ai_ID (set_primary now c i) = ai_ID i"
    for c i by (simp_all add: set_primary_def ai_live_def)
  have rows: "db_identities (remark now tid sid b s) = map ?g (db_identities s)"
    by (simp add: remark_def promote_def demote_all_def update_ids_def fields)
  have b: "b \<in> set (db_identities s)" "mine tid sid b" using assms(2) by (auto simp: is_best_def ids_of_def)
  have sim: "sim i (?g i)" for i using sim_trans[OF sim_set_primary sim_set_primary] by simp
  have out: "?g i = i" if "i \<in> set (db_identities s)" "\<not> mine tid sid i" for i
    using that ids_inj[of "db_identities s" i b] b assms(1) by (auto simp: ids_ok_def)
  show r: "remarked (mine tid sid) (db_identities s) (db_identities (remark now tid sid b s))"
    unfolding remarked_def rows using sim out by blast
  show "best_primary tid sid (remark now tid sid b s)"
    unfolding best_primary_def
  proof (intro allI impI)
    fix x assume x: "is_best (ids_of tid sid (remark now tid sid b s)) x"
    have "mine tid sid \<circ> ?g = mine tid sid" using sim by (intro ext) (simp only: o_apply sim_mine)
    then have "ids_of tid sid (remark now tid sid b s) = map ?g (ids_of tid sid s)" unfolding ids_of_def rows filter_map by simp
    then have "is_best (map ?g (ids_of tid sid s)) x" using x by simp
    then obtain a where a: "is_best (ids_of tid sid s) a" "x = ?g a"
      by (rule is_best_map[rotated 2]) (use sim in \<open>simp_all only: sim_fields\<close>)
    have "ai_ID a = ai_ID b" by (rule is_best_ID[OF a(1) assms(2)])
    moreover have "ai_live a" "ai_TenantID a = tid" using a(1) by (auto simp: is_best_def ids_of_def mine_def)
    ultimately show "ai_IsPrimary x" unfolding a(2) by (simp add: set_primary_def)
  qed
qed

text \<open>A refresh that succeeds leaves the best identity of the user as the primary one.\<close>

lemma refresh_effect:
  assumes "ids_ok s" "refreshUserProfileFromIdentitiesTx ok now tid sid s = (e, s')"
  shows "remarked (mine tid sid) (db_identities s) (db_identities s')" "db_iseq s' = db_iseq s" "users_kept tid (db_users s) (db_users s')"
    "e = None \<Longrightarrow> best_primary tid sid s' \<and> user_row tid sid s \<noteq> None"
proof -
  let ?xs = "sort_key (\<lambda>i. if ai_IsPrimary i then 0 else 1 :: nat) (sort_key ai_ID (ids_of tid sid s))"
  define Q where "Q = (remarked (mine tid sid) (db_identities s) (db_identities s') \<and> db_iseq s' = db_iseq s \<and> users_kept tid (db_users s) (db_users s') \<and>
    (e = None \<longrightarrow> best_primary tid sid s' \<and> user_row tid sid s \<noteq> None))"
  have early: Q if "e \<noteq> None" "s' = s" using that by (auto simp: Q_def)
  have Q
  proof (cases "ok 0 \<and> ok 1 \<and> user_row tid sid s \<noteq> None")
    case False
    then show ?thesis using assms(2) early by (auto simp: refreshUserProfileFromIdentitiesTx_def split: if_splits option.splits)
  next
    case True
    then obtain u where u: "user_row tid sid s = Some u" by blast
    show ?thesis
    proof (cases "selectBestPrimary (map Some ?xs)")
      case None
      then have "s' = s" "e = None" using assms(2) True u by (simp_all add: refreshUserProfileFromIdentitiesTx_def)
      moreover have "ids_of tid sid s = []" using selectBestPrimary_None[OF None] by (metis set_empty set_sort)
      ultimately show ?thesis using u by (simp add: Q_def best_primary_def is_best_def)
    next
      case (Some b)
      have best: "is_best (ids_of tid sid s) b" using selectBestPrimary_Some[OF Some] is_best_set[of ?xs "ids_of tid sid s"] by simp
      define s1 where "s1 = (if ai_IsPrimary b then s else remark now tid sid b s)"
      have s1: "remarked (mine tid sid) (db_identities s) (db_identities s1)" "best_primary tid sid s1" "db_iseq s1 = db_iseq s" "db_users s1 = db_users s"
      proof -
        have "x = b" if "is_best (ids_of tid sid s) x" for x
          using ids_inj[of "db_identities s" x b] is_best_ID[OF that best] that best assms(1) by (auto simp: ids_ok_def is_best_def ids_of_def)
        then show "best_primary tid sid s1" using remark_effect(2)[OF assms(1) best] by (auto simp: s1_def best_primary_def)
        show "remarked (mine tid sid) (db_identities s) (db_identities s1)" using remark_effect(1)[OF assms(1) best] by (simp add: s1_def)
      qed (simp_all add: s1_def)
      have best_users: "best_primary tid sid (s1\<lparr>db_users := us\<rparr>)" for us using s1(2) by (simp add: best_primary_def ids_of_def)
      have k: "users_kept tid (db_users s1) (map (\<lambda>v. if us_live v \<and> us_TenantID v = tid \<and> us_ID v = us_ID u then refresh_user now b v else v) (db_users s1))"
        unfolding users_kept_def by (rule exI, rule conjI[OF refl]) (simp add: same_user_refresh)
      show ?thesis
        using assms(2) True u Some s1 best_users k
        by (auto simp: refreshUserProfileFromIdentitiesTx_def Let_def Q_def s1_def remark_def split: if_splits)
    qed
  qed
  then show "remarked (mine tid sid) (db_identities s) (db_identities s')" "db_iseq s' = db_iseq s" "users_kept tid (db_users s) (db_users s')"
    "e = None \<Longrightarrow> best_primary tid sid s' \<and> user_row tid sid s \<noteq> None" by (simp_all add: Q_def)
qed

section \<open>Operations\<close>

text \<open>
  What an operation on the users \<open>S\<close> of a tenant does when it succeeds: the indexes hold, the best identity of each of these users is
  primary, and the identities of all other users, the rows of the other tenants and the identity of every user are as before.
\<close>

definition foreign :: "string \<Rightarrow> id_db \<Rightarrow> UserAuthIdentity list" where
  "foreign tid s = filter (\<lambda>i. ai_TenantID i \<noteq> tid) (db_identities s)"

definition others_kept :: "string \<Rightarrow> string set \<Rightarrow> id_db \<Rightarrow> id_db \<Rightarrow> bool" where
  "others_kept tid S s s' \<longleftrightarrow> (\<forall>tid' sid'. tid' \<noteq> tid \<or> sid' \<notin> S \<longrightarrow> ids_of tid' sid' s' = ids_of tid' sid' s) \<and> foreign tid s' = foreign tid s"

definition op_ok :: "string \<Rightarrow> string set \<Rightarrow> id_db \<Rightarrow> id_db \<Rightarrow> bool" where
  "op_ok tid S s s' \<longleftrightarrow>
     ids_ok s' \<and> (\<forall>sid \<in> S. best_primary tid sid s') \<and> others_kept tid S s s' \<and> users_kept tid (db_users s) (db_users s')"

lemma others_kept_refl [simp]: "others_kept tid S s s"
  by (simp add: others_kept_def)

lemma others_kept_trans: "others_kept tid S s s1 \<Longrightarrow> others_kept tid T s1 s2 \<Longrightarrow> S \<union> T \<subseteq> U \<Longrightarrow> others_kept tid U s s2"
  unfolding others_kept_def by (metis Un_subset_iff subsetD)

lemma foreign_remarked:
  assumes "remarked (mine tid sid) (db_identities s) (db_identities s')"
  shows "foreign tid s' = foreign tid s"
proof -
  obtain g where g: "db_identities s' = map g (db_identities s)" "\<forall>i. sim i (g i)" "\<forall>i \<in> set (db_identities s). \<not> mine tid sid i \<longrightarrow> g i = i"
    using assms unfolding remarked_def by blast
  have "(\<lambda>i. ai_TenantID (g i) \<noteq> tid) = (\<lambda>i. ai_TenantID i \<noteq> tid)" using g(2) sim_fields(2) by (intro ext) metis
  then have "foreign tid s' = map g (foreign tid s)" by (simp add: foreign_def g(1) filter_map o_def)
  moreover have "map g (foreign tid s) = foreign tid s"
    by (rule map_idI) (use g(3) in \<open>auto simp: foreign_def mine_def\<close>)
  ultimately show ?thesis by simp
qed

lemma remarked_others: "remarked (mine tid sid) (db_identities s) (db_identities s') \<Longrightarrow> others_kept tid {sid} s s'"
  unfolding others_kept_def by (auto intro: ids_of_other foreign_remarked)

lemma refresh_op:
  assumes "ids_ok s1" "others_kept tid {sid} s s1" "db_users s1 = db_users s"
    "refreshUserProfileFromIdentitiesTx ok now tid sid s1 = (None, s')"
  shows "op_ok tid {sid} s s'"
proof -
  note r = refresh_effect[OF assms(1,4)]
  have "others_kept tid {sid} s s'" by (rule others_kept_trans[OF assms(2) remarked_others[OF r(1)]]) simp
  then show ?thesis using remarked_ids_ok[OF r(1,2) assms(1)] r(3,4) assms(3) by (simp add: op_ok_def)
qed

lemma set_identity_cols_kept [simp]:
  "ai_ID (set_identity_cols now cols i) = ai_ID i" "ai_TenantID (set_identity_cols now cols i) = ai_TenantID i"
  "ai_UserSubjectID (set_identity_cols now cols i) = ai_UserSubjectID i" "ai_ExternalKey (set_identity_cols now cols i) = ai_ExternalKey i"
  "ai_Provider (set_identity_cols now cols i) = ai_Provider i" "ai_DeletedAt (set_identity_cols now cols i) = ai_DeletedAt i"
  "ai_IsPrimary (set_identity_cols now cols i) = ai_IsPrimary i"
proof -
  have k: "ai_ID (set_identity_col c i) = ai_ID i" "ai_TenantID (set_identity_col c i) = ai_TenantID i"
    "ai_UserSubjectID (set_identity_col c i) = ai_UserSubjectID i" "ai_ExternalKey (set_identity_col c i) = ai_ExternalKey i"
    "ai_Provider (set_identity_col c i) = ai_Provider i" "ai_DeletedAt (set_identity_col c i) = ai_DeletedAt i"
    "ai_IsPrimary (set_identity_col c i) = ai_IsPrimary i" for c i
    by (simp_all add: set_identity_col_def split: prod.split)
  have "ai_ID (fold set_identity_col cols i) = ai_ID i \<and> ai_TenantID (fold set_identity_col cols i) = ai_TenantID i \<and>
    ai_UserSubjectID (fold set_identity_col cols i) = ai_UserSubjectID i \<and> ai_ExternalKey (fold set_identity_col cols i) = ai_ExternalKey i \<and>
    ai_Provider (fold set_identity_col cols i) = ai_Provider i \<and> ai_DeletedAt (fold set_identity_col cols i) = ai_DeletedAt i \<and>
    ai_IsPrimary (fold set_identity_col cols i) = ai_IsPrimary i" for i
    by (induction cols arbitrary: i) (simp_all add: k)
  then show "ai_ID (set_identity_cols now cols i) = ai_ID i" "ai_TenantID (set_identity_cols now cols i) = ai_TenantID i"
    "ai_UserSubjectID (set_identity_cols now cols i) = ai_UserSubjectID i" "ai_ExternalKey (set_identity_cols now cols i) = ai_ExternalKey i"
    "ai_Provider (set_identity_cols now cols i) = ai_Provider i" "ai_DeletedAt (set_identity_cols now cols i) = ai_DeletedAt i"
    "ai_IsPrimary (set_identity_cols now cols i) = ai_IsPrimary i"
    by (simp_all add: set_identity_cols_def)
qed

lemma restore_row_kept [simp]:
  "ai_ID (restore_row owner i) = ai_ID i" "ai_TenantID (restore_row owner i) = ai_TenantID i"
  "ai_ExternalKey (restore_row owner i) = ai_ExternalKey i" "ai_Provider (restore_row owner i) = ai_Provider i"
  "ai_DeletedAt (restore_row owner i) = None" "ai_IsPrimary (restore_row owner i) = ai_IsPrimary i"
  "ai_UserSubjectID (restore_row owner i) = (case owner of None \<Rightarrow> ai_UserSubjectID i | Some sid \<Rightarrow> sid)"
  by (simp_all add: restore_row_def)

text \<open>An update of one row of the tenant.\<close>

definition row_fun :: "(UserAuthIdentity \<Rightarrow> UserAuthIdentity) \<Rightarrow> bool" where
  "row_fun f \<longleftrightarrow> (\<forall>i. ai_ID (f i) = ai_ID i \<and> ai_TenantID (f i) = ai_TenantID i)"

lemma update_row_id_rows:
  "db_identities (update_row_id tid n f s) = map (\<lambda>i. if ai_TenantID i = tid \<and> ai_ID i = n then f i else i) (db_identities s)"
  "db_users (update_row_id tid n f s) = db_users s" "db_iseq (update_row_id tid n f s) = db_iseq s"
  by (simp_all add: update_row_id_def update_ids_def)

lemma filter_map_id: "(\<And>x. x \<in> set xs \<Longrightarrow> P (g x) = P x) \<Longrightarrow> (\<And>x. x \<in> set xs \<Longrightarrow> P x \<Longrightarrow> g x = x) \<Longrightarrow> filter P (map g xs) = filter P xs"
  by (induction xs) auto

lemma update_row_id_others:
  assumes "unique_ids (db_identities s)" "row_fun f" "e \<in> set (db_identities s)" "ai_TenantID e = tid"
    "ai_live e \<Longrightarrow> ai_UserSubjectID e \<in> S" "ai_live (f e) \<Longrightarrow> ai_UserSubjectID (f e) \<in> S"
  shows "others_kept tid S s (update_row_id tid (ai_ID e) f s)"
proof -
  let ?g = "\<lambda>i. if ai_TenantID i = tid \<and> ai_ID i = ai_ID e then f i else i"
  have g: "?g i = i \<or> i = e \<and> ?g i = f e" if "i \<in> set (db_identities s)" for i
    using ids_inj[OF assms(1) that assms(3)] by auto
  have "ids_of tid' sid' (update_row_id tid (ai_ID e) f s) = ids_of tid' sid' s" if "tid' \<noteq> tid \<or> sid' \<notin> S" for tid' sid'
    unfolding ids_of_def update_row_id_rows
  proof (rule filter_map_id)
    fix i assume i: "i \<in> set (db_identities s)"
    have e: "\<not> mine tid' sid' e" "\<not> mine tid' sid' (f e)" using that assms(2,4-6) by (auto simp: mine_def row_fun_def)
    then show "mine tid' sid' (?g i) = mine tid' sid' i" using g[OF i] by metis
    show "?g i = i" if "mine tid' sid' i" using g[OF i] e that by metis
  qed
  moreover have "foreign tid (update_row_id tid (ai_ID e) f s) = foreign tid s"
    unfolding foreign_def update_row_id_rows by (rule filter_map_id) (use assms(2) in \<open>simp_all add: row_fun_def\<close>)
  ultimately show ?thesis by (simp add: others_kept_def)
qed

lemma update_row_id_ok:
  assumes "ids_ok s" "row_fun f" "\<And>i. ai_ExternalKey (f i) = ai_ExternalKey i"
  shows "ids_ok (update_row_id tid n f s)"
proof -
  let ?g = "\<lambda>i. if ai_TenantID i = tid \<and> ai_ID i = n then f i else i"
  have g: "ai_ID (?g i) = ai_ID i" "ai_ExternalKey (?g i) = ai_ExternalKey i" for i using assms(2,3) by (simp_all add: row_fun_def)
  have "unique_ids (map ?g (db_identities s))" using assms(1) g by (simp add: ids_ok_def unique_ids_def o_def)
  moreover have "\<forall>i \<in> set (map ?g (db_identities s)). ai_ID i < db_iseq s" using assms(1)[unfolded ids_ok_def, THEN conjunct2] g(1) by (simp only: set_map ball_simps)
  ultimately show ?thesis by (simp only: ids_ok_def update_row_id_rows)
qed

lemma find_key_SomeD: "find_key tid key s = Some e \<Longrightarrow> e \<in> set (db_identities s) \<and> ai_TenantID e = tid \<and> ai_ExternalKey e = key"
  unfolding find_key_def by (drule find_SomeD) simp

lemma row_fun_restore: "row_fun (\<lambda>i. restore_row owner (set_identity_cols now cols i))"
  by (simp add: row_fun_def)

lemma bind_existing_op:
  assumes "ids_ok s" "e \<in> set (db_identities s)" "ai_TenantID e = tid" "bind_existing ok now tid sid c force e s = (None, s')"
  shows "op_ok tid {sid} s s'"
proof -
  let ?ref = "refreshUserProfileFromIdentitiesTx (\<lambda>n. ok (10 + n)) now tid sid"
  define cols where "cols = buildIdentityUpdates e c"
  have u: "unique_ids (db_identities s)" using assms(1) by (simp add: ids_ok_def)
  have upd: "op_ok tid {sid} s s'"
    if own: "ai_live e \<Longrightarrow> ai_UserSubjectID e = sid" "owner = Some sid \<or> owner = None \<and> ai_UserSubjectID e = sid"
      and r: "?ref (update_row_id tid (ai_ID e) (\<lambda>i. restore_row owner (set_identity_cols now cols i)) s) = (None, s')" for owner
  proof (rule refresh_op[OF _ _ _ r])
    show "ids_ok (update_row_id tid (ai_ID e) (\<lambda>i. restore_row owner (set_identity_cols now cols i)) s)"
      by (rule update_row_id_ok[OF assms(1) row_fun_restore]) simp
    show "others_kept tid {sid} s (update_row_id tid (ai_ID e) (\<lambda>i. restore_row owner (set_identity_cols now cols i)) s)"
      by (rule update_row_id_others[OF u row_fun_restore assms(2,3)]) (use own in auto)
  qed (simp add: update_row_id_rows)
  show ?thesis
  proof (cases "ai_UserSubjectID e = sid")
    case False
    then have "\<not> ai_live e" "?ref (update_row_id tid (ai_ID e) (\<lambda>i. restore_row (Some sid) (set_identity_cols now cols i)) s) = (None, s')"
      using assms(4) by (auto simp: bind_existing_def Let_def cols_def split: if_splits)
    then show ?thesis using upd[of "Some sid"] by blast
  next
    case True
    then have "?ref s = (None, s') \<or> ?ref (update_row_id tid (ai_ID e) (\<lambda>i. restore_row None (set_identity_cols now cols i)) s) = (None, s')"
      using assms(4) by (auto simp: bind_existing_def Let_def cols_def split: if_splits)
    then show ?thesis using upd[of None] True refresh_op[OF assms(1) others_kept_refl refl] by blast
  qed
qed

text \<open>A binding of a legacy row and of a new row, as a change of the table followed by the refresh of the user.\<close>

lemma bind_legacy_shape:
  assumes "ids_ok s" "e \<in> set (db_identities s)" "ai_TenantID e = tid" "ai_UserSubjectID e = sid" "bind_legacy ok now tid sid c force e s = (None, s')"
  obtains s1 i where "ids_ok s1" "others_kept tid {sid} s s1" "db_users s1 = db_users s" "i \<in> set (db_identities s1)" "mine tid sid i"
    "ai_ExternalKey i = buildExternalKey c" "refreshUserProfileFromIdentitiesTx (\<lambda>n. ok (10 + n)) now tid sid s1 = (None, s')"
proof -
  let ?f = "\<lambda>i. (restore_row None (set_identity_cols now (buildIdentityUpdates e c) i))\<lparr>ai_ExternalKey := buildExternalKey c\<rparr>"
  let ?s1 = "update_row_id tid (ai_ID e) ?f s"
  have r: "unique_ids (db_identities ?s1)" "refreshUserProfileFromIdentitiesTx (\<lambda>n. ok (10 + n)) now tid sid ?s1 = (None, s')"
    using assms(5) by (auto simp: bind_legacy_def Let_def split: if_splits)
  have f: "row_fun ?f" by (simp add: row_fun_def)
  have u: "unique_ids (db_identities s)" and lt: "\<forall>i \<in> set (db_identities s). ai_ID i < db_iseq s" using assms(1) by (auto simp: ids_ok_def)
  have "\<forall>i \<in> set (db_identities ?s1). ai_ID i < db_iseq ?s1" using lt unfolding update_row_id_rows by auto
  then have "ids_ok ?s1" using r(1) by (simp add: ids_ok_def)
  moreover have "others_kept tid {sid} s ?s1" by (rule update_row_id_others[OF u f assms(2,3)]) (use assms(4) in simp_all)
  moreover have "?f e \<in> set (db_identities ?s1)" unfolding update_row_id_rows using assms(2,3) by auto
  moreover have "mine tid sid (?f e)" using assms(3,4) by (simp add: mine_def ai_live_def)
  ultimately show ?thesis using that[of ?s1 "?f e"] r(2) by (simp add: update_row_id_rows(2))
qed

lemma bind_new_shape:
  assumes "ids_ok s" "bind_new ok now tid sid c s = (None, s')"
  obtains s1 i where "ids_ok s1" "others_kept tid {sid} s s1" "db_users s1 = db_users s" "i \<in> set (db_identities s1)" "mine tid sid i"
    "ai_ExternalKey i = buildExternalKey c" "refreshUserProfileFromIdentitiesTx (\<lambda>n. ok (10 + n)) now tid sid s1 = (None, s')"
proof -
  define current where "current = (if ok 5 then find ai_IsPrimary (ids_of tid sid s) else None)"
  define identity where "identity = (buildUserAuthIdentity now sid c)\<lparr>ai_ID := db_iseq s, ai_TenantID := tid\<rparr>"
  define higher where "higher = (case current of None \<Rightarrow> False | Some p \<Rightarrow> providerRank (ai_Provider identity) > providerRank (ai_Provider p))"
  define s1 where "s1 = (if higher then demote_all now tid sid s else s)"
  define x where "x = identity\<lparr>ai_IsPrimary := (current = None \<or> higher)\<rparr>"
  have r: "unique_ids (db_identities s1 @ [x])"
        "refreshUserProfileFromIdentitiesTx (\<lambda>n. ok (10 + n)) now tid sid (s1\<lparr>db_identities := db_identities s1 @ [x], db_iseq := Suc (db_iseq s1)\<rparr>) = (None, s')"
    using assms(2)
    unfolding bind_new_def Let_def current_def[symmetric] identity_def[symmetric] higher_def[symmetric] s1_def[symmetric] x_def[symmetric]
    by (auto split: if_splits)
  have x: "ai_ID x = db_iseq s" "ai_TenantID x = tid" "ai_UserSubjectID x = sid" "ai_DeletedAt x = None" "ai_ExternalKey x = buildExternalKey c"
    by (simp_all add: x_def identity_def buildUserAuthIdentity_def Let_def)
  let ?s2 = "s1\<lparr>db_identities := db_identities s1 @ [x], db_iseq := Suc (db_iseq s1)\<rparr>"
  have m: "remarked (mine tid sid) (db_identities s) (db_identities s1)" "db_iseq s1 = db_iseq s" "db_users s1 = db_users s"
    by (simp_all add: s1_def demote_remarked)
  have "ids_ok s1" by (rule remarked_ids_ok[OF m(1,2) assms(1)])
  then have "ids_ok ?s2" using r(1) x(1) m(2) by (auto simp: ids_ok_def less_Suc_eq)
  moreover have "others_kept tid {sid} s1 ?s2" using x by (auto simp: others_kept_def ids_of_def foreign_def mine_def)
  then have "others_kept tid {sid} s ?s2" by (rule others_kept_trans[OF remarked_others[OF m(1)]]) simp
  ultimately show ?thesis using that[of ?s2 x] r(2) x by (simp add: m(3) mine_def ai_live_def)
qed

lemma bind_legacy_op:
  assumes "ids_ok s" "e \<in> set (db_identities s)" "ai_TenantID e = tid" "ai_UserSubjectID e = sid" "bind_legacy ok now tid sid c force e s = (None, s')"
  shows "op_ok tid {sid} s s'"
  by (rule bind_legacy_shape[OF assms]) (rule refresh_op)

lemma bind_new_op:
  assumes "ids_ok s" "bind_new ok now tid sid c s = (None, s')"
  shows "op_ok tid {sid} s s'"
  by (rule bind_new_shape[OF assms]) (rule refresh_op)

lemma bind_op:
  assumes "ids_ok s" "bind_tx ok now tid sid c force s = (None, s')"
  shows "op_ok tid {sid} s s'"
proof (cases "find_key tid (buildExternalKey c) s")
  case (Some e)
  then have "bind_existing ok now tid sid c force e s = (None, s')" using assms(2) by (simp add: bind_tx_def split: if_splits)
  then show ?thesis using bind_existing_op[OF assms(1)] find_key_SomeD[OF Some] by blast
next
  case None
  let ?P = "\<lambda>i. ai_TenantID i = tid \<and> ai_ExternalKey i = legacyExternalKey c \<and> ai_UserSubjectID i = sid"
  have "bind_new ok now tid sid c s = (None, s') \<or> (\<exists>e. find ?P (db_identities s) = Some e \<and> bind_legacy ok now tid sid c force e s = (None, s'))"
    using assms(2) None by (auto simp: bind_tx_def Let_def split: if_splits option.splits)
  then show ?thesis
  proof
    assume "\<exists>e. find ?P (db_identities s) = Some e \<and> bind_legacy ok now tid sid c force e s = (None, s')"
    then obtain e where e: "find ?P (db_identities s) = Some e" "bind_legacy ok now tid sid c force e s = (None, s')" by blast
    then show ?thesis using find_SomeD[OF e(1)] by (intro bind_legacy_op[OF assms(1) _ _ _ e(2)]) simp_all
  qed (rule bind_new_op[OF assms(1)])
qed

lemma transaction_cases: "transaction commit s r = (e, s') \<Longrightarrow> e \<noteq> None \<and> s' = s \<or> e = None \<and> r = (None, s')"
  by (cases r) (auto simp: transaction_def split: if_splits)

lemma Bind_cases:
  assumes "BindIdentityToUser ok now tid sid claims force s = (e, s')"
  obtains "e \<noteq> None" "s' = s"
  | c where "claims = Some c" "e = None" "bind_tx ok now tid sid (normalizeJWTClaims c) force s = (None, s')"
proof (cases "trim_space sid = []")
  case True
  then show ?thesis using assms that(1) by (auto simp: BindIdentityToUser_def)
next
  case sid: False
  show ?thesis
  proof (cases claims)
    case None
    then show ?thesis using assms that(1) sid by (auto simp: BindIdentityToUser_def)
  next
    case (Some c)
    then have "e \<noteq> None \<and> s' = s \<or> transaction (ok 0) s (bind_tx ok now tid sid (normalizeJWTClaims c) force s) = (e, s')"
      using assms sid by (auto simp: BindIdentityToUser_def Let_def split: if_splits)
    then consider "e \<noteq> None" "s' = s" | "e = None" "bind_tx ok now tid sid (normalizeJWTClaims c) force s = (None, s')"
      using transaction_cases[of "ok 0" s "bind_tx ok now tid sid (normalizeJWTClaims c) force s" e s'] by auto
    then show ?thesis
    proof cases
      case 1
      then show ?thesis by (rule that(1))
    next
      case 2
      then show ?thesis by (rule that(2)[OF Some])
    qed
  qed
qed

lemma transfer_op:
  assumes "ids_ok s" "transfer_tx ok now tid target key s = (None, s')" "s' \<noteq> s"
  shows "\<exists>old. op_ok tid {target, old} s s'"
proof -
  obtain e where e: "find_key tid key s = Some e" "ai_UserSubjectID e \<noteq> target"
    using assms(2,3) by (auto simp: transfer_tx_def split: if_splits option.splits)
  let ?f = "\<lambda>i. (restore_row (Some target) i)\<lparr>ai_UpdatedAt := now\<rparr>" and ?old = "ai_UserSubjectID e"
  let ?s1 = "update_row_id tid (ai_ID e) ?f s"
  obtain s2 where r: "refreshUserProfileFromIdentitiesTx (\<lambda>n. ok (10 + n)) now tid target ?s1 = (None, s2)"
      "refreshUserProfileFromIdentitiesTx (\<lambda>n. ok (20 + n)) now tid ?old s2 = (None, s')"
    using assms(2) e by (auto simp: transfer_tx_def split: if_splits prod.splits option.splits)
  have f: "row_fun ?f" by (simp add: row_fun_def)
  have u: "unique_ids (db_identities s)" using assms(1) by (simp add: ids_ok_def)
  note em = find_key_SomeD[OF e(1)]
  have ok1: "ids_ok ?s1" by (rule update_row_id_ok[OF assms(1) f]) simp
  have k1: "others_kept tid {target, ?old} s ?s1" by (rule update_row_id_others[OF u f]) (use em in simp_all)
  have o2: "op_ok tid {target} ?s1 s2" by (rule refresh_op[OF ok1 others_kept_refl refl r(1)])
  then have ok2: "ids_ok s2" by (simp add: op_ok_def)
  have o3: "op_ok tid {?old} s2 s'" by (rule refresh_op[OF ok2 others_kept_refl refl r(2)])
  have "others_kept tid {target, ?old} s s'"
    by (rule others_kept_trans[OF others_kept_trans[OF k1, of "{target}" s2 "{target, ?old}"], of "{?old}"]) (use o2 o3 in \<open>auto simp: op_ok_def\<close>)
  moreover have "best_primary tid target s'" using o2 o3 e(2) by (simp add: op_ok_def others_kept_def best_primary_def)
  moreover have "users_kept tid (db_users s) (db_users s')"
    using o2 o3 users_kept_trans by (auto simp: op_ok_def update_row_id_rows)
  ultimately have "op_ok tid {target, ?old} s s'" using o3 by (simp add: op_ok_def)
  then show ?thesis ..
qed

text \<open>The identities of the provider are removed; the others stay, in their order.\<close>

lemma ids_of_unbound:
  assumes "unique_ids (db_identities s)" "matched = filter (\<lambda>i. ai_Provider i = prov) (ids_of tid sid s)"
    "s1 = update_ids (\<lambda>i. ai_live i \<and> ai_TenantID i = tid \<and> ai_ID i \<in> set (map ai_ID matched)) (unbind_row now) s"
  shows "ids_of tid sid s1 = filter (\<lambda>i. ai_Provider i \<noteq> prov) (ids_of tid sid s)" "others_kept tid {sid} s s1" "ids_ok s \<Longrightarrow> ids_ok s1"
proof -
  let ?P = "\<lambda>i. ai_live i \<and> ai_TenantID i = tid \<and> ai_ID i \<in> set (map ai_ID matched)"
  let ?g = "\<lambda>i. if ?P i then unbind_row now i else i"
  have rows: "db_identities s1 = map ?g (db_identities s)" using assms(3) by (simp add: update_ids_def)
  have P: "?P i \<longleftrightarrow> mine tid sid i \<and> ai_Provider i = prov" if i: "i \<in> set (db_identities s)" for i
  proof
    assume "?P i"
    then obtain j where j: "j \<in> set matched" "ai_ID i = ai_ID j" by auto
    then have "j \<in> set (db_identities s)" "mine tid sid j \<and> ai_Provider j = prov" by (auto simp: assms(2) ids_of_def)
    then show "mine tid sid i \<and> ai_Provider i = prov" using ids_inj[OF assms(1) i] j(2) by blast
  qed (use i in \<open>auto simp: assms(2) ids_of_def mine_def\<close>)
  have dead: "\<not> mine t u (unbind_row now i)" for t u i by (simp add: mine_def ai_live_def unbind_row_def)
  have "filter (mine tid sid) (map ?g xs) = filter (\<lambda>i. ai_Provider i \<noteq> prov) (filter (mine tid sid) xs)" if "set xs \<subseteq> set (db_identities s)" for xs
    using that
  proof (induction xs)
    case (Cons i xs)
    then show ?case using P[of i] dead[of tid sid i] by (cases "?P i") simp_all
  qed simp
  then show "ids_of tid sid s1 = filter (\<lambda>i. ai_Provider i \<noteq> prov) (ids_of tid sid s)" by (simp only: ids_of_def rows)
  have "ids_of t u s1 = ids_of t u s" if "t \<noteq> tid \<or> u \<notin> {sid}" for t u
    unfolding ids_of_def rows
  proof (rule filter_map_id)
    fix i assume i: "i \<in> set (db_identities s)"
    have n: "\<not> mine t u i" if "?P i" using P[OF i] that \<open>t \<noteq> tid \<or> u \<notin> {sid}\<close> by (auto simp: mine_def)
    then show "mine t u (?g i) = mine t u i" using dead[of t u i] by (cases "?P i") simp_all
    show "?g i = i" if "mine t u i" using n that by auto
  qed
  moreover have "foreign tid s1 = foreign tid s" unfolding foreign_def rows by (rule filter_map_id) (simp_all add: unbind_row_def)
  ultimately show "others_kept tid {sid} s s1" by (simp add: others_kept_def)
  have g: "ai_ID (?g i) = ai_ID i" "ai_ExternalKey (?g i) = ai_ExternalKey i" for i by (simp_all add: unbind_row_def)
  show "ids_ok s1" if "ids_ok s"
  proof -
    have "unique_ids (map ?g (db_identities s))" using assms(1) by (simp only: unique_ids_def map_map o_def g)
    moreover have "\<forall>i \<in> set (map ?g (db_identities s)). ai_ID i < db_iseq s" using that by (auto simp: ids_ok_def unbind_row_def)
    moreover have "db_iseq s1 = db_iseq s" using assms(3) by simp
    ultimately show ?thesis by (simp only: ids_ok_def rows)
  qed
qed

lemma remarked_IDs:
  assumes "remarked P (db_identities s) (db_identities s')"
  shows "map ai_ID (ids_of tid sid s') = map ai_ID (ids_of tid sid s)"
proof -
  obtain g where "\<And>tid sid. ids_of tid sid s' = map g (ids_of tid sid s)" "\<And>i. sim i (g i)" using ids_of_remarked[OF assms] by metis
  then show ?thesis by (simp add: sim_fields)
qed

lemma unbind_op:
  assumes "ids_ok s" "unbind_tx ok now tid sid prov s = (None, s')"
  shows "op_ok tid {sid} s s'"
    "map ai_ID (ids_of tid sid s') = map ai_ID (filter (\<lambda>i. ai_Provider i \<noteq> prov) (ids_of tid sid s))"
    "ids_of tid sid s' \<noteq> []"
proof -
  define matched where "matched = filter (\<lambda>i. ai_Provider i = prov) (ids_of tid sid s)"
  define s1 where "s1 = update_ids (\<lambda>i. ai_live i \<and> ai_TenantID i = tid \<and> ai_ID i \<in> set (map ai_ID matched)) (unbind_row now) s"
  define best where "best = (if list_ex ai_IsPrimary matched then selectBestPrimary (map Some (ids_of tid sid s1)) else None)"
  define s2 where "s2 = (case best of None \<Rightarrow> s1 | Some b \<Rightarrow> remark now tid sid b s1)"
  have len: "length matched < length (ids_of tid sid s)" and
    r: "refreshUserProfileFromIdentitiesTx (\<lambda>n. ok (10 + n)) now tid sid s2 = (None, s')"
    using assms(2) unfolding unbind_tx_def Let_def matched_def[symmetric] s1_def[symmetric] best_def[symmetric] s2_def remark_def
    by (auto split: if_splits option.splits)
  have u: "unique_ids (db_identities s)" using assms(1) by (simp add: ids_ok_def)
  note u1 = ids_of_unbound[OF u matched_def s1_def]
  note ok1 = u1(3)[OF assms(1)]
  have b: "is_best (ids_of tid sid s1) b" if "best = Some b" for b
    using that selectBestPrimary_Some[of "ids_of tid sid s1" b] by (simp add: best_def split: if_splits)
  have s2: "remarked (mine tid sid) (db_identities s1) (db_identities s2)" "db_iseq s2 = db_iseq s1" "db_users s2 = db_users s1"
    using remark_effect(1)[OF ok1 b] by (auto simp: s2_def split: option.splits)
  have ok2: "ids_ok s2" by (rule remarked_ids_ok[OF s2(1,2) ok1])
  have "others_kept tid {sid} s s2" by (rule others_kept_trans[OF u1(2) remarked_others[OF s2(1)]]) simp
  moreover have "db_users s2 = db_users s" by (simp add: s2(3) s1_def)
  ultimately show "op_ok tid {sid} s s'" by (rule refresh_op[OF ok2 _ _ r])
  show ids: "map ai_ID (ids_of tid sid s') = map ai_ID (filter (\<lambda>i. ai_Provider i \<noteq> prov) (ids_of tid sid s))"
    using remarked_IDs[OF refresh_effect(1)[OF ok2 r]] remarked_IDs[OF s2(1)] u1(1) by metis
  have "filter (\<lambda>i. ai_Provider i \<noteq> prov) (ids_of tid sid s) \<noteq> []"
  proof
    assume "filter (\<lambda>i. ai_Provider i \<noteq> prov) (ids_of tid sid s) = []"
    then have "matched = ids_of tid sid s" by (simp add: matched_def filter_empty_conv filter_id_conv)
    then show False using len by simp
  qed
  then show "ids_of tid sid s' \<noteq> []" using ids by auto
qed

text \<open>After a successful binding the identity of the claims is a live one of the user.\<close>

definition bound :: "string \<Rightarrow> string \<Rightarrow> string \<Rightarrow> id_db \<Rightarrow> bool" where
  "bound tid sid key s \<longleftrightarrow> (\<exists>i \<in> set (db_identities s). mine tid sid i \<and> ai_ExternalKey i = key)"

lemma bound_remarked:
  assumes "remarked P (db_identities s) (db_identities s')" "bound tid sid key s"
  shows "bound tid sid key s'"
proof -
  obtain g where g: "db_identities s' = map g (db_identities s)" "\<forall>i. sim i (g i)" using assms(1) unfolding remarked_def by blast
  obtain i where i: "i \<in> set (db_identities s)" "mine tid sid i" "ai_ExternalKey i = key" using assms(2) unfolding bound_def by blast
  have "sim i (g i)" using g(2) by blast
  then have "mine tid sid (g i)" "ai_ExternalKey (g i) = key" using i by (simp_all add: sim_fields sim_mine)
  then show ?thesis unfolding bound_def g(1) using i(1) by auto
qed

lemma bound_update:
  assumes "e \<in> set (db_identities s)" "ai_TenantID e = tid" "mine tid sid (f e)" "ai_ExternalKey (f e) = key"
  shows "bound tid sid key (update_row_id tid (ai_ID e) f s)"
  unfolding bound_def update_row_id_rows using assms by auto

lemma mine_restore: "ai_TenantID e = tid \<Longrightarrow> owner = Some sid \<or> owner = None \<and> ai_UserSubjectID e = sid \<Longrightarrow>
    mine tid sid (restore_row owner (set_identity_cols now cols e))"
  by (auto simp: mine_def ai_live_def)

lemma refresh_bound:
  assumes "ids_ok s1" "refreshUserProfileFromIdentitiesTx ok now tid sid s1 = (None, s')" "bound tid sid key s1"
  shows "bound tid sid key s'"
  by (rule bound_remarked[OF refresh_effect(1)[OF assms(1,2)] assms(3)])

lemma bind_new_binds:
  assumes "ids_ok s" "bind_new ok now tid sid c s = (None, s')"
  shows "bound tid sid (buildExternalKey c) s'"
  by (rule bind_new_shape[OF assms], rule refresh_bound) (auto simp: bound_def)

lemma bind_legacy_binds:
  assumes "ids_ok s" "e \<in> set (db_identities s)" "ai_TenantID e = tid" "ai_UserSubjectID e = sid" "bind_legacy ok now tid sid c force e s = (None, s')"
  shows "bound tid sid (buildExternalKey c) s'"
  by (rule bind_legacy_shape[OF assms], rule refresh_bound) (auto simp: bound_def)

lemma bind_binds:
  assumes "ids_ok s" "bind_tx ok now tid sid c force s = (None, s')"
  shows "bound tid sid (buildExternalKey c) s'"
proof (cases "find_key tid (buildExternalKey c) s")
  case (Some e)
  note e = find_key_SomeD[OF Some]
  let ?ref = "refreshUserProfileFromIdentitiesTx (\<lambda>n. ok (10 + n)) now tid sid"
  define cols where "cols = buildIdentityUpdates e c"
  have b: "bind_existing ok now tid sid c force e s = (None, s')" using assms(2) Some by (simp add: bind_tx_def split: if_splits)
  have upd: ?thesis if own: "owner = Some sid \<or> owner = None \<and> ai_UserSubjectID e = sid"
      and r: "?ref (update_row_id tid (ai_ID e) (\<lambda>i. restore_row owner (set_identity_cols now cols i)) s) = (None, s')" for owner
  proof (rule refresh_bound[OF _ r])
    show "ids_ok (update_row_id tid (ai_ID e) (\<lambda>i. restore_row owner (set_identity_cols now cols i)) s)"
      by (rule update_row_id_ok[OF assms(1) row_fun_restore]) simp
    show "bound tid sid (buildExternalKey c) (update_row_id tid (ai_ID e) (\<lambda>i. restore_row owner (set_identity_cols now cols i)) s)"
      by (rule bound_update) (use e mine_restore[OF _ own] in simp_all)
  qed
  show ?thesis
  proof (cases "ai_UserSubjectID e = sid")
    case False
    then show ?thesis using b upd[of "Some sid"] by (auto simp: bind_existing_def Let_def cols_def split: if_splits)
  next
    case True
    then consider "?ref s = (None, s')" "ai_live e" | "?ref (update_row_id tid (ai_ID e) (\<lambda>i. restore_row None (set_identity_cols now cols i)) s) = (None, s')"
      using b by (auto simp: bind_existing_def Let_def cols_def split: if_splits)
    then show ?thesis
    proof cases
      case 1
      have "bound tid sid (buildExternalKey c) s" using e True 1(2) by (auto simp: bound_def mine_def)
      then show ?thesis by (rule refresh_bound[OF assms(1) 1(1)])
    next
      case 2
      then show ?thesis using upd[of None] True by blast
    qed
  qed
next
  case None
  let ?P = "\<lambda>i. ai_TenantID i = tid \<and> ai_ExternalKey i = legacyExternalKey c \<and> ai_UserSubjectID i = sid"
  consider "bind_new ok now tid sid c s = (None, s')" |
    e where "find ?P (db_identities s) = Some e" "bind_legacy ok now tid sid c force e s = (None, s')"
    using assms(2) None by (auto simp: bind_tx_def Let_def split: if_splits option.splits)
  then show ?thesis
  proof cases
    case 1
    then show ?thesis by (rule bind_new_binds[OF assms(1)])
  next
    case (2 e)
    then show ?thesis using find_SomeD[OF 2(1)] by (intro bind_legacy_binds[OF assms(1) _ _ _ 2(2)]) simp_all
  qed
qed

section \<open>Reachable tables\<close>

text \<open>The operations in any order, with any statements failing; other operations of the service may rewrite the users.\<close>

inductive id_reach :: "id_db \<Rightarrow> bool" where
  init: "id_reach \<lparr>db_users = us, db_identities = [], db_iseq = n\<rparr>"
| users: "id_reach s \<Longrightarrow> id_reach (s\<lparr>db_users := us\<rparr>)"
| bind: "id_reach s \<Longrightarrow> BindIdentityToUser ok now tid sid claims force s = (e, s') \<Longrightarrow> id_reach s'"
| transfer: "id_reach s \<Longrightarrow> TransferIdentityToUser ok now tid target key s = (e, s') \<Longrightarrow> id_reach s'"
| unbind: "id_reach s \<Longrightarrow> UnbindIdentityByProvider ok now tid sid prov s = (e, s') \<Longrightarrow> id_reach s'"

definition id_inv :: "id_db \<Rightarrow> bool" where
  "id_inv s \<longleftrightarrow> ids_ok s \<and> (\<forall>tid sid. best_primary tid sid s)"

lemma op_ok_inv: "op_ok tid S s s' \<Longrightarrow> id_inv s \<Longrightarrow> id_inv s'"
  unfolding id_inv_def op_ok_def others_kept_def best_primary_def by metis

lemma Transfer_cases:
  assumes "TransferIdentityToUser ok now tid target key s = (e, s')"
  shows "s' = s \<or> e = None \<and> transfer_tx ok now tid target key s = (None, s')"
  using assms transaction_cases[of "ok 0" s "transfer_tx ok now tid target key s" e s'] unfolding TransferIdentityToUser_def by (auto split: if_splits)

lemma Unbind_cases:
  assumes "UnbindIdentityByProvider ok now tid sid prov s = (e, s')"
  shows "e \<noteq> None \<and> s' = s \<or> e = None \<and> unbind_tx ok now tid sid (to_lower (trim_space prov)) s = (None, s')"
  using assms transaction_cases[of "ok 0" s "unbind_tx ok now tid sid (to_lower (trim_space prov)) s" e s'] unfolding UnbindIdentityByProvider_def Let_def
  by (auto split: if_splits)

text \<open>One lemma per operation: the invariant is kept and the identities of uninvolved users and of other tenants stay.\<close>

lemma Bind_effect:
  assumes "ids_ok s" "BindIdentityToUser ok now tid sid claims force s = (e, s')"
  shows "s' = s \<or> op_ok tid {sid} s s'"
  using assms(2) by (cases rule: Bind_cases) (use bind_op[OF assms(1)] in auto)

lemma Transfer_effect:
  assumes "ids_ok s" "TransferIdentityToUser ok now tid target key s = (e, s')"
  shows "s' = s \<or> (\<exists>S. op_ok tid S s s')"
  using Transfer_cases[OF assms(2)] transfer_op[OF assms(1)] by blast

lemma Unbind_effect:
  assumes "ids_ok s" "UnbindIdentityByProvider ok now tid sid prov s = (e, s')"
  shows "s' = s \<or> op_ok tid {sid} s s'"
  using Unbind_cases[OF assms(2)] unbind_op(1)[OF assms(1)] by blast

lemma id_inv_ids_ok: "id_inv s \<Longrightarrow> ids_ok s"
  by (simp add: id_inv_def)

lemma id_reach_inv: "id_reach s \<Longrightarrow> id_inv s"
proof (induction rule: id_reach.induct)
  case (init us n)
  show ?case by (simp add: id_inv_def ids_ok_def unique_ids_def best_primary_def is_best_def ids_of_def)
next
  case (users s us)
  then show ?case by (simp add: id_inv_def ids_ok_def best_primary_def ids_of_def)
next
  case (bind s ok now tid sid claims force e s')
  show ?case using Bind_effect[OF id_inv_ids_ok[OF bind.IH] bind.hyps(2)] op_ok_inv[OF _ bind.IH] bind.IH by blast
next
  case (transfer s ok now tid target key e s')
  show ?case using Transfer_effect[OF id_inv_ids_ok[OF transfer.IH] transfer.hyps(2)] op_ok_inv[OF _ transfer.IH] transfer.IH by blast
next
  case (unbind s ok now tid sid prov e s')
  show ?case using Unbind_effect[OF id_inv_ids_ok[OF unbind.IH] unbind.hyps(2)] op_ok_inv[OF _ unbind.IH] unbind.IH by blast
qed

lemma is_best_exists: "xs \<noteq> [] \<Longrightarrow> \<exists>b. is_best xs b"
  using selectBestPrimary_None[of xs] selectBestPrimary_Some[of xs] by (cases "selectBestPrimary (map Some xs)") auto

section \<open>Examples\<close>

definition user_example :: "nat \<Rightarrow> string \<Rightarrow> User" where
  "user_example n sid = \<lparr>us_ID = n, us_TenantID = ''default'', us_SubjectID = sid, us_ShortID = sid, us_Username = sid, us_DisplayName = None,
     us_Email = None, us_Phone = None, us_AvatarURL = None, us_AuthProvider = None, us_ExternalKey = None, us_ProviderUserID = None,
     us_IsActive = True, us_Status = ''active'', us_ProfileCompletedAt = None, us_LastLoginAt = None, us_LastSyncAt = None, us_CreatedAt = 0,
     us_UpdatedAt = 0, us_DeletedAt = None\<rparr>"

definition claims_example :: "string \<Rightarrow> string \<Rightarrow> JWTClaims" where
  "claims_example prov uid = \<lparr>jc_ID = [], jc_Sub = [], jc_UniversalID = uid, jc_Name = uid, jc_PreferredUsername = [], jc_Email = [],
     jc_Picture = [], jc_Owner = [], jc_Provider = prov, jc_ProviderUserID = [], jc_Phone = [], jc_ExternalClaims = []\<rparr>"

definition ids_example :: id_db where
  "ids_example = \<lparr>db_users = [user_example 1 ''u1'', user_example 2 ''u2''], db_identities = [], db_iseq = 1\<rparr>"

definition all_ok :: "nat \<Rightarrow> bool" where "all_ok n = True"

definition bind_example :: "string \<Rightarrow> string \<Rightarrow> string \<Rightarrow> id_db \<Rightarrow> id_db" where
  "bind_example sid prov uid s = snd (BindIdentityToUser all_ok 5 ''default'' sid (Some (claims_example prov uid)) False s)"

definition two_identities :: id_db where
  "two_identities = bind_example ''u1'' ''github'' ''g'' (bind_example ''u1'' ''phone'' ''p'' ids_example)"

lemma two_identities_reach: "id_reach two_identities"
proof -
  have "id_reach ids_example" unfolding ids_example_def by (rule id_reach.init)
  then show ?thesis unfolding two_identities_def bind_example_def by (metis id_reach.bind prod.collapse)
qed

text \<open>
  C29.  Whatever sequence of bindings, transfers and removals was executed, and whichever of their statements failed: a user with
  identities has a primary one of the highest rank, and among those of that rank the oldest.
\<close>

theorem primary_identity_best:
  assumes "id_reach s" "ids_of tid sid s \<noteq> []"
  shows "\<exists>b. selectBestPrimary (map Some (ids_of tid sid s)) = Some b \<and> is_best (ids_of tid sid s) b \<and> ai_IsPrimary b"
proof -
  obtain b where b: "selectBestPrimary (map Some (ids_of tid sid s)) = Some b"
    using selectBestPrimary_None[of "ids_of tid sid s"] assms(2) by (cases "selectBestPrimary (map Some (ids_of tid sid s))") auto
  then have "is_best (ids_of tid sid s) b" by (rule selectBestPrimary_Some)
  then show ?thesis using b id_reach_inv[OF assms(1)] by (auto simp: id_inv_def best_primary_def)
qed

theorem primary_identity_best_witness:
  "\<exists>b. selectBestPrimary (map Some (ids_of ''default'' ''u1'' two_identities)) = Some b \<and> ai_IsPrimary b"
proof -
  have "ids_of ''default'' ''u1'' two_identities \<noteq> []" by code_simp
  from primary_identity_best[OF two_identities_reach this] show ?thesis by blast
qed

text \<open>
  C30.  A binding that succeeds leaves the identity of the claims live and owned by the user; succeeding or not, it changes no identity of
  another user or of another tenant, so it never takes a live identity away.
\<close>

theorem BindIdentityToUser_safe:
  assumes "id_reach s" "BindIdentityToUser ok now tid sid (Some c) force s = (e, s')"
  shows "(e = None \<longrightarrow> bound tid sid (buildExternalKey (normalizeJWTClaims c)) s') \<and>
    (\<forall>tid' sid'. (tid', sid') \<noteq> (tid, sid) \<longrightarrow> ids_of tid' sid' s' = ids_of tid' sid' s) \<and> foreign tid s' = foreign tid s"
proof -
  have ok: "ids_ok s" using id_reach_inv[OF assms(1)] by (simp add: id_inv_def)
  have "e = None \<longrightarrow> bound tid sid (buildExternalKey (normalizeJWTClaims c)) s'"
    using assms(2) by (cases rule: Bind_cases) (use bind_binds[OF ok] in auto)
  then show ?thesis using Bind_effect[OF ok assms(2)] by (auto simp: op_ok_def others_kept_def)
qed

theorem BindIdentityToUser_safe_witness:
  "bound ''default'' ''u2'' ''casdoor:idtrust:7'' (bind_example ''u2'' ''idtrust'' ''7'' two_identities)"
proof -
  let ?b = "BindIdentityToUser all_ok 5 ''default'' ''u2'' (Some (claims_example ''idtrust'' ''7'')) False two_identities"
  have e: "fst ?b = None" "buildExternalKey (normalizeJWTClaims (claims_example ''idtrust'' ''7'')) = ''casdoor:idtrust:7''" by code_simp+
  show ?thesis using BindIdentityToUser_safe[OF two_identities_reach prod.collapse[symmetric, of ?b]] e by (simp add: bind_example_def)
qed

text \<open>
  A removal that succeeds takes away exactly the identities of the provider: the user keeps the others, in their order, and at least
  one of them; no other user is touched.
\<close>

theorem UnbindIdentityByProvider_exact:
  assumes "id_reach s" "UnbindIdentityByProvider ok now tid sid prov s = (None, s')"
  shows "ids_of tid sid s' \<noteq> [] \<and>
    map ai_ID (ids_of tid sid s') = map ai_ID (filter (\<lambda>i. ai_Provider i \<noteq> to_lower (trim_space prov)) (ids_of tid sid s)) \<and>
    (\<forall>tid' sid'. (tid', sid') \<noteq> (tid, sid) \<longrightarrow> ids_of tid' sid' s' = ids_of tid' sid' s)"
proof -
  have ok: "ids_ok s" using id_reach_inv[OF assms(1)] by (simp add: id_inv_def)
  have u: "unbind_tx ok now tid sid (to_lower (trim_space prov)) s = (None, s')" using Unbind_cases[OF assms(2)] by simp
  show ?thesis using unbind_op[OF ok u] by (auto simp: op_ok_def others_kept_def)
qed

theorem UnbindIdentityByProvider_exact_witness:
  "ids_of ''default'' ''u1'' (snd (UnbindIdentityByProvider all_ok 6 ''default'' ''u1'' ''GitHub'' two_identities)) \<noteq> []"
proof -
  let ?u = "UnbindIdentityByProvider all_ok 6 ''default'' ''u1'' ''GitHub'' two_identities"
  have "fst ?u = None" by code_simp
  then have "?u = (None, snd ?u)" by (metis prod.collapse)
  from UnbindIdentityByProvider_exact[OF two_identities_reach this] show ?thesis by blast
qed

section \<open>Consequences\<close>

text \<open>
  A removed identity keeps its mark as primary: binding it again, with the consent of the user, leaves two primary identities.
\<close>

lemma two_primaries:
  "map ai_IsPrimary (ids_of ''default'' ''u1''
     (snd (BindIdentityToUser all_ok 7 ''default'' ''u1'' (Some (claims_example ''github'' ''g'')) True
        (snd (UnbindIdentityByProvider all_ok 6 ''default'' ''u1'' ''github'' two_identities))))) = [True, True]"
  by code_simp

text \<open>Removing the last identity of a user is refused, transferring it is not.\<close>

lemma transfer_orphans:
  "ids_of ''default'' ''u1'' (snd (TransferIdentityToUser all_ok 6 ''default'' ''u2'' ''casdoor:phone:p''
     (bind_example ''u1'' ''phone'' ''p'' ids_example))) = []"
  by code_simp

text \<open>The key of an identity without a provider can be the key of another identity with one.\<close>

lemma external_key_ambiguous:
  "buildExternalKey (claims_example [] ''github:42'') = buildExternalKey (claims_example ''github'' ''42'')"
  by code_simp

text \<open>The refresh leaves the cached key of the user out of its statement: it stays as it was.\<close>

lemma cached_key_not_refreshed: "map us_ExternalKey (db_users two_identities) = [None, None]"
  by code_simp

end
