(* ===== verification/Step_System.thy ===== *)
theory Step_System
  imports Prelude
begin

text \<open>
  Components as systems of steps: the operations keep an invariant of the state, so every sequence of them does, and where each operation
  belongs to a tenant, a sequence of operations of other tenants leaves what a tenant sees as it is.
\<close>

locale stepped =
  fixes step :: "'op \<Rightarrow> 's \<Rightarrow> 's" and good :: "'s \<Rightarrow> bool"
  assumes step_good: "good s \<Longrightarrow> good (step a s)"
begin

lemma run_good: "good s \<Longrightarrow> good (fold step as s)"
  by (induction as arbitrary: s) (simp_all add: step_good)

lemma run_stable:
  assumes "good s" "P s" "\<And>a s. good s \<Longrightarrow> P s \<Longrightarrow> P (step a s)"
  shows "P (fold step as s)"
  using assms(1,2) by (induction as arbitrary: s) (simp_all add: step_good assms(3))

end

locale tenanted = stepped step good for step :: "'op \<Rightarrow> 's \<Rightarrow> 's" and good +
  fixes tenant :: "'op \<Rightarrow> 't" and view :: "'t \<Rightarrow> 's \<Rightarrow> 'v"
  assumes step_view: "good s \<Longrightarrow> tenant a \<noteq> t \<Longrightarrow> view t (step a s) = view t s"
begin

lemma run_view: "good s \<Longrightarrow> \<forall>a \<in> set as. tenant a \<noteq> t \<Longrightarrow> view t (fold step as s) = view t s"
  by (induction as arbitrary: s) (simp_all add: step_good step_view)

end

end
