(* ===== verification/User_Account.thy ===== *)
theory User_Account
  imports User_Identity Outbox Step_System
begin

text \<open>
  The accounts of users (\<^verbatim>\<open>cs-user/internal/user/service.go\<close>, \<^verbatim>\<open>provision.go\<close>, \<^verbatim>\<open>profile.go\<close>, \<^verbatim>\<open>admin_service.go\<close>,
  \<^verbatim>\<open>shortid.go\<close>, \<^verbatim>\<open>username.go\<close>, \<^verbatim>\<open>provider_mapping.go\<close>): login with its search for an existing account, provisioning ahead of the first
  login, registration, profile and status, and the lookups.

  A login binds the identity of the claims through \<^verbatim>\<open>User_Identity\<close>, announces a new user through \<^verbatim>\<open>Outbox\<close> and refreshes the employment
  row through \<^verbatim>\<open>Employment\<close>.  \<open>tid\<close> is the tenant of the request and \<open>ok n\<close> says whether the \<open>n\<close>-th statement succeeds; the identifier of a new
  user, SHA-256, the time and the encoder of events are in \<open>account_env\<close>.  The operator \<^verbatim>\<open>LIKE\<close> of the database is the argument \<open>like\<close>.
\<close>

section \<open>Names\<close>

definition short_alphabet :: string where
  "short_alphabet = ''0123456789abcdefghijklmnopqrstuvwxyzABCDEFGHIJKLMNOPQRSTUVWXYZ''"

definition shortIDMod :: "64 word" where "shortIDMod = 218340105584896"

fun base62 :: "nat \<Rightarrow> 64 word \<Rightarrow> string" where
  "base62 0 n = []"
| "base62 (Suc k) n = base62 k (n div 62) @ [short_alphabet ! unat (n mod 62)]"

definition hash_prefix :: "8 word list \<Rightarrow> 64 word" where
  "hash_prefix bytes = fold (\<lambda>b n. or (push_bit 8 n) (ucast b)) (take 6 bytes) 0"

definition BuildShortID :: "(string \<Rightarrow> 8 word list) \<Rightarrow> string \<Rightarrow> string" where
  "BuildShortID sha256 subjectID =
     ''u-'' @ base62 8 (hash_prefix (sha256 (if subjectID = [] then ''anonymous'' else subjectID)) mod shortIDMod)"

definition alnum_char :: "char \<Rightarrow> bool" where
  "alnum_char c \<longleftrightarrow> (let n = of_char c :: nat in 48 \<le> n \<and> n \<le> 57 \<or> 65 \<le> n \<and> n \<le> 90 \<or> 97 \<le> n \<and> n \<le> 122)"

definition username_char :: "char \<Rightarrow> bool" where
  "username_char c \<longleftrightarrow> alnum_char c \<or> c = CHR ''_'' \<or> c = CHR ''-''"

definition usernamePattern :: "string \<Rightarrow> bool" where
  "usernamePattern s = (case s of [] \<Rightarrow> False | c # cs \<Rightarrow> alnum_char c \<and> list_all username_char cs)"

definition reservedUsernames :: "string list" where
  "reservedUsernames =
     [''admin'', ''root'', ''system'', ''me'', ''api'', ''auth'', ''register'', ''login'', ''logout'', ''settings'', ''help'', ''support'',
      ''sysop'', ''operator'', ''staff'', ''moderator'', ''official'', ''costrict'', ''casdoor'', ''self'', ''null'', ''undefined'', ''none'',
      ''new'', ''edit'', ''delete'', ''create'', ''superuser'', ''superadmin'', ''everyone'']"

datatype account_error =
    NilClaimsError
  | NoIdentifier
  | LookupFailed
  | UpdateFailed
  | CreateFailed
  | BindFailed identity_error
  | ErrUsernameInvalid
  | ErrUsernameReserved
  | ErrUsernameTaken
  | ErrInvalidDisplayName
  | ErrRegistrationAlreadyComplete
  | NoFieldsToUpdate
  | ErrSubjectRequired
  | ErrUserNotFound
  | ErrInvalidUserStatus
  | ErrAdminUserNotFound
  | ErrCannotChangeOwnStatus
  | EmptyEnterpriseProvider
  | EmptyEnterpriseUID
  | ErrEmptyEmployeeNumber
  | MissingUserOfEmployment string
  | ErrEnterpriseUIDCollision
  | ForceWriteFailed mapping_error
  | AccountDBError

definition ValidateUsername :: "string \<Rightarrow> account_error option" where
  "ValidateUsername username =
     (let u = trim_space username
      in if length u < 3 \<or> length u > 32 then Some ErrUsernameInvalid
         else if \<not> usernamePattern u then Some ErrUsernameInvalid
         else if to_lower u \<in> set reservedUsernames then Some ErrUsernameReserved
         else None)"

section \<open>State\<close>

record account_db =
  ac_ids :: id_db
  ac_useq :: nat
  ac_emp :: emp_db
  ac_outbox :: "OutboxState option"

record account_env =
  ae_uuid :: string
  ae_sha256 :: "string \<Rightarrow> 8 word list"
  ae_now :: int
  ae_emp :: emp_env
  ae_marshal :: "EventPayload \<Rightarrow> string option"
  ae_eventID :: string
  ae_event_ok :: bool

definition syncInterval :: int where "syncInterval = 15 * 60 * 1000000000"

text \<open>The unique indexes of the users, which cover deleted rows.\<close>

definition unique_users :: "User list \<Rightarrow> bool" where
  "unique_users rows \<longleftrightarrow>
     distinct (map us_ID rows) \<and> distinct (map us_SubjectID rows) \<and> distinct (map (\<lambda>u. (us_TenantID u, us_Username u)) rows) \<and>
     distinct (List.map_filter us_ExternalKey rows) \<and> distinct (filter (\<lambda>x. x \<noteq> []) (map us_ShortID rows))"

section \<open>Login\<close>

definition lookup_keys :: "JWTClaims \<Rightarrow> string list" where
  "lookup_keys c =
     buildExternalKey c # (if legacyExternalKey c \<noteq> [] \<and> legacyExternalKey c \<noteq> buildExternalKey c then [legacyExternalKey c] else [])"

definition live_identity :: "string \<Rightarrow> string \<Rightarrow> id_db \<Rightarrow> UserAuthIdentity option" where
  "live_identity tid key s = find (\<lambda>i. ai_live i \<and> ai_TenantID i = tid \<and> ai_ExternalKey i = key) (db_identities s)"

definition user_of_key :: "string \<Rightarrow> string \<Rightarrow> id_db \<Rightarrow> User option" where
  "user_of_key tid key s = find (\<lambda>u. us_live u \<and> us_TenantID u = tid \<and> us_ExternalKey u = Some key) (db_users s)"

text \<open>The search by identities: a failing lookup of the user counts as its absence.\<close>

fun login_by_identity :: "(nat \<Rightarrow> bool) \<Rightarrow> nat \<Rightarrow> string \<Rightarrow> string list \<Rightarrow> id_db \<Rightarrow> account_error + User option" where
  "login_by_identity ok n tid [] s = Inr None"
| "login_by_identity ok n tid (key # keys) s =
     (if key = [] then Inr None
      else if \<not> ok n then Inl LookupFailed
      else case live_identity tid key s of
        None \<Rightarrow> login_by_identity ok (n + 2) tid keys s
      | Some i \<Rightarrow>
          (case (if ok (n + 1) then user_row tid (ai_UserSubjectID i) s else None) of
             Some u \<Rightarrow> Inr (Some u)
           | None \<Rightarrow> login_by_identity ok (n + 2) tid keys s))"

fun login_by_key :: "(nat \<Rightarrow> bool) \<Rightarrow> nat \<Rightarrow> string \<Rightarrow> string list \<Rightarrow> id_db \<Rightarrow> account_error + User option" where
  "login_by_key ok n tid [] s = Inr None"
| "login_by_key ok n tid (key # keys) s =
     (if key = [] then Inr None
      else if \<not> ok n then Inl LookupFailed
      else case user_of_key tid key s of
        None \<Rightarrow> login_by_key ok (n + 1) tid keys s
      | Some u \<Rightarrow> Inr (Some u))"

definition login_by_employment :: "(nat \<Rightarrow> bool) \<Rightarrow> string \<Rightarrow> JWTClaims \<Rightarrow> account_db \<Rightarrow> account_error + User option" where
  "login_by_employment ok tid c s =
     (let uid = extractEnterpriseUID c
      in if uid = [] then Inr None
         else if \<not> ok 20 then Inl LookupFailed
         else case emp_of_uid tid uid (ac_emp s) of
           None \<Rightarrow> Inr None
         | Some ei \<Rightarrow> Inr (if ok 21 then user_row tid (ei_UserSubjectID ei) (ac_ids s) else None))"

definition find_account :: "(nat \<Rightarrow> bool) \<Rightarrow> string \<Rightarrow> JWTClaims \<Rightarrow> account_db \<Rightarrow> account_error + User option" where
  "find_account ok tid c s =
     (case login_by_identity ok 0 tid (lookup_keys c) (ac_ids s) of
        Inl e \<Rightarrow> Inl e
      | Inr (Some u) \<Rightarrow> Inr (Some u)
      | Inr None \<Rightarrow>
          (case login_by_key ok 10 tid (lookup_keys c) (ac_ids s) of
             Inl e \<Rightarrow> Inl e
           | Inr (Some u) \<Rightarrow> Inr (Some u)
           | Inr None \<Rightarrow> login_by_employment ok tid c s))"

text \<open>The columns that a login synchronises, and whether the row is written.\<close>

definition login_update :: "JWTClaims \<Rightarrow> User \<Rightarrow> User" where
  "login_update c u =
     u\<lparr>us_IsActive := True,
       us_ExternalKey := (if buildExternalKey c \<noteq> [] then Some (buildExternalKey c) else us_ExternalKey u),
       us_AuthProvider := (if jc_Provider c \<noteq> [] then Some (jc_Provider c) else us_AuthProvider u),
       us_ProviderUserID := (if jc_ProviderUserID c \<noteq> [] then Some (jc_ProviderUserID c) else us_ProviderUserID u)\<rparr>"

definition should_update :: "int \<Rightarrow> JWTClaims \<Rightarrow> User \<Rightarrow> bool" where
  "should_update now c u \<longleftrightarrow>
     (case us_LastSyncAt u of None \<Rightarrow> True | Some t \<Rightarrow> now - t > syncInterval) \<or> us_SubjectID u = [] \<or> \<not> us_IsActive u \<or>
     buildExternalKey c \<noteq> [] \<and> us_ExternalKey u \<noteq> Some (buildExternalKey c) \<or>
     jc_Provider c \<noteq> [] \<and> us_AuthProvider u \<noteq> Some (jc_Provider c) \<or>
     jc_ProviderUserID c \<noteq> [] \<and> us_ProviderUserID u \<noteq> Some (jc_ProviderUserID c)"

definition save_user :: "User \<Rightarrow> id_db \<Rightarrow> id_db" where
  "save_user u s = s\<lparr>db_users := map (\<lambda>v. if us_live v \<and> us_ID v = us_ID u then u else v) (db_users s)\<rparr>"

definition applyEnterpriseMappingOnLogin :: "account_env \<Rightarrow> TenantConfig list \<Rightarrow> string \<Rightarrow> string \<Rightarrow> JWTClaims \<Rightarrow> account_db \<Rightarrow> account_db" where
  "applyEnterpriseMappingOnLogin env configs tid sid c s =
     (if jc_Provider c = [] then s
      else s\<lparr>ac_emp := snd (ApplyEnterpriseMapping (ae_emp env) configs
               \<lparr>mp_TenantID = tid, mp_UserSubjectID = sid, mp_Provider = jc_Provider c, mp_ExternalClaims = jc_ExternalClaims c\<rparr> (ac_emp s))\<rparr>)"

text \<open>The subject identifier is not among the written columns; an empty one would be replaced in the answer only.\<close>

definition login_found ::
  "(nat \<Rightarrow> bool) \<Rightarrow> account_env \<Rightarrow> TenantConfig list \<Rightarrow> string \<Rightarrow> JWTClaims \<Rightarrow> User \<Rightarrow> account_db \<Rightarrow> (account_error + User \<times> bool) \<times> account_db" where
  "login_found ok env configs tid c u s =
     (let answer = (login_update c u)\<lparr>us_SubjectID := (if us_SubjectID u = [] then ''usr_'' @ ae_uuid env else us_SubjectID u)\<rparr>;
          stamped = answer\<lparr>us_LastSyncAt := Some (ae_now env), us_UpdatedAt := ae_now env\<rparr>;
          ids = save_user (stamped\<lparr>us_SubjectID := us_SubjectID u\<rparr>) (ac_ids s)
      in if should_update (ae_now env) c u then
           (if \<not> ok 22 \<or> \<not> unique_users (db_users ids) then (Inl UpdateFailed, s)
            else (Inr (stamped, False), applyEnterpriseMappingOnLogin env configs tid (us_SubjectID stamped) c (s\<lparr>ac_ids := ids\<rparr>)))
         else (Inr (answer, False), applyEnterpriseMappingOnLogin env configs tid (us_SubjectID answer) c s))"

definition new_user :: "account_env \<Rightarrow> string \<Rightarrow> JWTClaims \<Rightarrow> nat \<Rightarrow> User" where
  "new_user env tid c n =
     (let sid = ''usr_'' @ ae_uuid env; now = ae_now env
      in \<lparr>us_ID = n, us_TenantID = tid, us_SubjectID = sid, us_ShortID = BuildShortID (ae_sha256 env) sid, us_Username = jc_Name c,
          us_DisplayName = stringPtr (jc_PreferredUsername c), us_Email = stringPtr (jc_Email c), us_Phone = stringPtr (jc_Phone c),
          us_AvatarURL = stringPtr (jc_Picture c), us_AuthProvider = stringPtr (jc_Provider c), us_ExternalKey = stringPtr (buildExternalKey c),
          us_ProviderUserID = stringPtr (jc_ProviderUserID c), us_IsActive = True, us_Status = ''active'', us_ProfileCompletedAt = None,
          us_LastLoginAt = Some now, us_LastSyncAt = Some now, us_CreatedAt = now, us_UpdatedAt = now, us_DeletedAt = None\<rparr>)"

text \<open>The search for the winner of a race after a refused insert.\<close>

definition race_winner :: "string \<Rightarrow> JWTClaims \<Rightarrow> id_db \<Rightarrow> User option" where
  "race_winner tid c s =
     (let keys = (if buildExternalKey c \<noteq> [] then lookup_keys c else [])
      in find (\<lambda>u. us_live u \<and> us_TenantID u = tid \<and> (keys = [] \<or> (\<exists>k \<in> set keys. us_ExternalKey u = Some k))) (db_users s))"

definition publish_created :: "account_env \<Rightarrow> User \<Rightarrow> OutboxState option \<Rightarrow> OutboxState option" where
  "publish_created env u ob =
     map_option (\<lambda>o1. snd (PublishUserCreated (ae_marshal env) (ae_event_ok env) (ae_eventID env) (ae_now env)
        (Some \<lparr>ur_SubjectID = us_SubjectID u, ur_TenantID = us_TenantID u, ur_ShortID = us_ShortID u, ur_Username = us_Username u,
               ur_DisplayName = us_DisplayName u, ur_Email = us_Email u\<rparr>) o1)) ob"

definition GetUserByID :: "bool \<Rightarrow> string \<Rightarrow> string \<Rightarrow> id_db \<Rightarrow> account_error + User" where
  "GetUserByID ok tid sid s =
     (if sid = [] then Inl ErrSubjectRequired
      else if \<not> ok then Inl AccountDBError
      else case user_row tid sid s of None \<Rightarrow> Inl ErrUserNotFound | Some u \<Rightarrow> Inr u)"

definition login_new ::
  "(nat \<Rightarrow> bool) \<Rightarrow> account_env \<Rightarrow> TenantConfig list \<Rightarrow> string \<Rightarrow> JWTClaims \<Rightarrow> account_db \<Rightarrow> (account_error + User \<times> bool) \<times> account_db" where
  "login_new ok env configs tid c s =
     (let u = new_user env tid c (ac_useq s); ids = (ac_ids s)\<lparr>db_users := db_users (ac_ids s) @ [u]\<rparr>
      in if \<not> ok 23 \<or> \<not> unique_users (db_users ids) then
           (case (if ok 24 then race_winner tid c (ac_ids s) else None) of
              Some existing \<Rightarrow> (Inr (existing, False), s)
            | None \<Rightarrow> (Inl CreateFailed, s))
         else
           (case BindIdentityToUser (\<lambda>n. ok (100 + n)) (ae_now env) tid (us_SubjectID u) (Some c) False ids of
              (e, ids') \<Rightarrow>
                let s1 = s\<lparr>ac_ids := ids', ac_useq := Suc (ac_useq s)\<rparr>
                in if e \<noteq> None \<and> e \<noteq> Some ErrIdentityAlreadyBound then (Inl (BindFailed (the e)), s1)
                   else
                     let s2 = applyEnterpriseMappingOnLogin env configs tid (us_SubjectID u) c
                                (s1\<lparr>ac_outbox := publish_created env u (ac_outbox s1)\<rparr>)
                     in (case GetUserByID (ok 25) tid (us_SubjectID u) (ac_ids s2) of
                           Inr refreshed \<Rightarrow> (Inr (refreshed, True), s2)
                         | Inl _ \<Rightarrow> (Inr (u, True), s2))))"

definition GetOrCreateUser ::
  "(nat \<Rightarrow> bool) \<Rightarrow> account_env \<Rightarrow> TenantConfig list \<Rightarrow> string \<Rightarrow> JWTClaims option \<Rightarrow> account_db \<Rightarrow>
   (account_error + User \<times> bool) \<times> account_db" where
  "GetOrCreateUser ok env configs tid claims s =
     (case claims of
        None \<Rightarrow> (Inl NilClaimsError, s)
      | Some c0 \<Rightarrow>
          let c = normalizeJWTClaims c0
          in if jc_ID c = [] \<and> jc_Sub c = [] \<and> jc_UniversalID c = [] then (Inl NoIdentifier, s)
             else case find_account ok tid c s of
               Inl e \<Rightarrow> (Inl e, s)
             | Inr (Some u) \<Rightarrow> login_found ok env configs tid c u s
             | Inr None \<Rightarrow> login_new ok env configs tid c s)"

section \<open>Lookups\<close>

definition GetUsersByIDs :: "bool \<Rightarrow> string \<Rightarrow> string list \<Rightarrow> id_db \<Rightarrow> account_error + (string \<rightharpoonup> User)" where
  "GetUsersByIDs ok tid subjectIDs s =
     (if subjectIDs = [] then Inr Map.empty
      else if \<not> ok then Inl AccountDBError
      else Inr (fold (\<lambda>u out. out(us_SubjectID u \<mapsto> u))
                  (filter (\<lambda>u. us_live u \<and> us_TenantID u = tid \<and> us_SubjectID u \<in> set subjectIDs) (db_users s)) Map.empty))"

definition name_matches :: "(string \<Rightarrow> string \<Rightarrow> bool) \<Rightarrow> string \<Rightarrow> User \<Rightarrow> bool" where
  "name_matches like keyword u =
     (let pattern = ''%'' @ keyword @ ''%''
      in like (us_Username u) pattern \<or> (case us_DisplayName u of None \<Rightarrow> False | Some d \<Rightarrow> like d pattern) \<or>
         (case us_Email u of None \<Rightarrow> False | Some e \<Rightarrow> like e pattern))"

definition SearchUsers :: "(string \<Rightarrow> string \<Rightarrow> bool) \<Rightarrow> bool \<Rightarrow> string \<Rightarrow> string \<Rightarrow> int \<Rightarrow> id_db \<Rightarrow> account_error + User list" where
  "SearchUsers like ok tid keyword limit s =
     (if \<not> ok then Inl AccountDBError
      else Inr (take (nat (if limit \<le> 0 then 50 else limit))
                  (filter (\<lambda>u. us_live u \<and> us_TenantID u = tid \<and> us_IsActive u \<and> (keyword = [] \<or> name_matches like keyword u)) (db_users s))))"

text \<open>The join with the employment rows, the latest synchronisation first and then by subject.\<close>

definition employed :: "string \<Rightarrow> string \<Rightarrow> account_db \<Rightarrow> (User \<times> EmploymentIdentity) list" where
  "employed tid employeeNumber s =
     filter (\<lambda>(u, e). us_live u \<and> ei_UserSubjectID e = us_SubjectID u \<and> ei_TenantID e = us_TenantID u \<and> us_TenantID u = tid \<and> us_IsActive u \<and> ei_live e \<and>
                      ei_EmployeeNumber e = Some employeeNumber)
       (List.product (db_users (ac_ids s)) (em_rows (ac_emp s)))"

definition SearchUsersByEmployeeNumber :: "bool \<Rightarrow> string \<Rightarrow> string \<Rightarrow> int \<Rightarrow> account_db \<Rightarrow> account_error + User list" where
  "SearchUsersByEmployeeNumber ok tid employeeNumber limit s =
     (if employeeNumber = [] then Inl ErrEmptyEmployeeNumber
      else if \<not> ok then Inl AccountDBError
      else Inr (map fst (take (nat (if limit \<le> 0 then 1 else limit))
                  (sort_key (\<lambda>(u, e). - ei_LastSyncedAt e) (sort_key (\<lambda>(u, e). us_SubjectID u) (employed tid employeeNumber s))))))"

text \<open>The key of an identity over all tenants; the deleted rows of both tables are left out.\<close>

definition GetSubjectIDByExternalKey :: "(nat \<Rightarrow> bool) \<Rightarrow> string \<Rightarrow> id_db \<Rightarrow> account_error + string" where
  "GetSubjectIDByExternalKey ok key s =
     (if key = [] then Inr []
      else if \<not> ok 0 then Inl AccountDBError
      else
        let by_key = (if \<not> ok 2 then Inl AccountDBError
                      else case find (\<lambda>u. us_live u \<and> us_ExternalKey u = Some key) (db_users s) of
                        Some u \<Rightarrow> Inr (us_SubjectID u) | None \<Rightarrow> Inr [])
        in case find (\<lambda>i. ai_live i \<and> ai_ExternalKey i = key) (db_identities s) of
             None \<Rightarrow> by_key
           | Some i \<Rightarrow>
               if \<not> ok 1 then Inl AccountDBError
               else case find (\<lambda>u. us_live u \<and> us_SubjectID u = ai_UserSubjectID i) (db_users s) of
                 Some u \<Rightarrow> Inr (us_SubjectID u) | None \<Rightarrow> by_key)"

definition identity_claims :: "string \<Rightarrow> string \<Rightarrow> JWTClaims" where
  "identity_claims prov uid = \<lparr>jc_ID = [], jc_Sub = [], jc_UniversalID = uid, jc_Name = [], jc_PreferredUsername = [], jc_Email = [],
     jc_Picture = [], jc_Owner = [], jc_Provider = prov, jc_ProviderUserID = [], jc_Phone = [], jc_ExternalClaims = []\<rparr>"

definition GetUserByIdentity :: "(nat \<Rightarrow> bool) \<Rightarrow> string \<Rightarrow> string \<Rightarrow> string \<Rightarrow> id_db \<Rightarrow> account_error + User" where
  "GetUserByIdentity ok tid prov universalID s =
     (if universalID = [] then Inl ErrSubjectRequired
      else
        let c = identity_claims prov universalID; key = buildExternalKey c; legacy = legacyExternalKey c
        in if \<not> ok 0 then Inl AccountDBError
           else case live_identity tid key s of
             Some i \<Rightarrow> GetUserByID (ok 2) tid (ai_UserSubjectID i) s
           | None \<Rightarrow>
               if legacy = [] \<or> legacy = key then Inl ErrUserNotFound
               else if \<not> ok 1 then Inl AccountDBError
               else case live_identity tid legacy s of
                 Some i \<Rightarrow> GetUserByID (ok 2) tid (ai_UserSubjectID i) s
               | None \<Rightarrow> Inl ErrUserNotFound)"

section \<open>Profile and status\<close>

definition DisplayNameMaxLen :: nat where "DisplayNameMaxLen = 191"

definition update_user :: "string \<Rightarrow> string \<Rightarrow> (User \<Rightarrow> User) \<Rightarrow> id_db \<Rightarrow> id_db" where
  "update_user tid sid f s = s\<lparr>db_users := map (\<lambda>u. if us_live u \<and> us_TenantID u = tid \<and> us_SubjectID u = sid then f u else u) (db_users s)\<rparr>"

definition username_taken :: "string \<Rightarrow> string \<Rightarrow> string \<Rightarrow> id_db \<Rightarrow> bool" where
  "username_taken tid username sid s \<longleftrightarrow> list_ex (\<lambda>u. us_live u \<and> us_TenantID u = tid \<and> us_Username u = username \<and> us_SubjectID u \<noteq> sid) (db_users s)"

text \<open>The statement of a profile change and the re-reading of the row, inside one transaction with the commit as statement 0.\<close>

definition write_profile :: "(nat \<Rightarrow> bool) \<Rightarrow> string \<Rightarrow> string \<Rightarrow> (User \<Rightarrow> User) \<Rightarrow> id_db \<Rightarrow> (account_error + User) \<times> id_db" where
  "write_profile ok tid sid f s =
     (let s' = update_user tid sid f s
      in if \<not> ok 3 \<or> \<not> unique_users (db_users s') \<or> \<not> ok 4 \<or> \<not> ok 0 then (Inl AccountDBError, s)
         else case user_row tid sid s' of None \<Rightarrow> (Inl AccountDBError, s) | Some u \<Rightarrow> (Inr u, s'))"

definition complete_user :: "int \<Rightarrow> string \<Rightarrow> string \<Rightarrow> User \<Rightarrow> User" where
  "complete_user now username dn u =
     u\<lparr>us_Username := username, us_ProfileCompletedAt := Some now, us_UpdatedAt := now,
       us_DisplayName := (if dn \<noteq> [] then Some dn else us_DisplayName u)\<rparr>"

definition CompleteRegistration ::
  "(nat \<Rightarrow> bool) \<Rightarrow> int \<Rightarrow> string \<Rightarrow> string \<Rightarrow> string \<Rightarrow> string \<Rightarrow> id_db \<Rightarrow> (account_error + User) \<times> id_db" where
  "CompleteRegistration ok now tid sid0 username displayName s =
     (let sid = trim_space sid0; dn = trim_space displayName
      in if sid = [] then (Inl ErrSubjectRequired, s)
         else case ValidateUsername username of
           Some e \<Rightarrow> (Inl e, s)
         | None \<Rightarrow>
             if length dn > DisplayNameMaxLen then (Inl ErrInvalidDisplayName, s)
             else if \<not> ok 1 then (Inl AccountDBError, s)
             else case user_row tid sid s of
               None \<Rightarrow> (Inl ErrUserNotFound, s)
             | Some u \<Rightarrow>
                 if us_ProfileCompletedAt u \<noteq> None then (Inl ErrRegistrationAlreadyComplete, s)
                 else if \<not> ok 2 then (Inl AccountDBError, s)
                 else if username_taken tid username sid s then (Inl ErrUsernameTaken, s)
                 else write_profile ok tid sid (complete_user now username dn) s)"

definition UpdateProfile :: "(nat \<Rightarrow> bool) \<Rightarrow> int \<Rightarrow> string \<Rightarrow> string \<Rightarrow> string \<Rightarrow> id_db \<Rightarrow> (account_error + User) \<times> id_db" where
  "UpdateProfile ok now tid sid0 displayName s =
     (let sid = trim_space sid0; dn = trim_space displayName
      in if sid = [] then (Inl ErrSubjectRequired, s)
         else if length dn > DisplayNameMaxLen then (Inl ErrInvalidDisplayName, s)
         else if \<not> ok 1 then (Inl AccountDBError, s)
         else case user_row tid sid s of
           None \<Rightarrow> (Inl ErrUserNotFound, s)
         | Some _ \<Rightarrow> write_profile ok tid sid (\<lambda>u. u\<lparr>us_DisplayName := stringPtr dn, us_UpdatedAt := now\<rparr>) s)"

definition IsUsernameAvailable :: "bool \<Rightarrow> string \<Rightarrow> string \<Rightarrow> string \<Rightarrow> id_db \<Rightarrow> account_error + bool" where
  "IsUsernameAvailable ok tid username exclude s =
     (case ValidateUsername username of
        Some e \<Rightarrow> Inl e
      | None \<Rightarrow>
          if \<not> ok then Inl AccountDBError
          else Inr (\<not> list_ex (\<lambda>u. us_live u \<and> us_TenantID u = tid \<and> us_Username u = trim_space username \<and>
                                   (exclude = [] \<or> us_SubjectID u \<noteq> exclude)) (db_users s)))"

definition admin_update_user :: "int \<Rightarrow> string \<Rightarrow> string option \<Rightarrow> User \<Rightarrow> User" where
  "admin_update_user now username displayName u =
     u\<lparr>us_Username := (if username \<noteq> [] then username else us_Username u),
       us_DisplayName := (case displayName of None \<Rightarrow> us_DisplayName u | Some d \<Rightarrow> stringPtr (trim_space d)), us_UpdatedAt := now\<rparr>"

definition AdminUpdateProfile ::
  "(nat \<Rightarrow> bool) \<Rightarrow> int \<Rightarrow> string \<Rightarrow> string \<Rightarrow> string \<Rightarrow> string option \<Rightarrow> id_db \<Rightarrow> (account_error + User) \<times> id_db" where
  "AdminUpdateProfile ok now tid sid0 username displayName s =
     (let sid = trim_space sid0
      in if sid = [] then (Inl ErrSubjectRequired, s)
         else if username = [] \<and> displayName = None then (Inl NoFieldsToUpdate, s)
         else case (if username \<noteq> [] then ValidateUsername username else None) of
           Some e \<Rightarrow> (Inl e, s)
         | None \<Rightarrow>
             if (case displayName of None \<Rightarrow> False | Some d \<Rightarrow> length d > DisplayNameMaxLen) then (Inl ErrInvalidDisplayName, s)
             else if \<not> ok 1 then (Inl AccountDBError, s)
             else case user_row tid sid s of
               None \<Rightarrow> (Inl ErrUserNotFound, s)
             | Some u \<Rightarrow>
                 let renamed = (username \<noteq> [] \<and> username \<noteq> us_Username u)
                 in if renamed \<and> \<not> ok 2 then (Inl AccountDBError, s)
                    else if renamed \<and> username_taken tid username sid s then (Inl ErrUsernameTaken, s)
                    else write_profile ok tid sid (admin_update_user now username displayName) s)"

definition IsValidUserStatus :: "string \<Rightarrow> bool" where
  "IsValidUserStatus status \<longleftrightarrow> status = ''active'' \<or> status = ''disabled'' \<or> status = ''banned''"

record SetUserStatusResult =
  sr_SubjectID :: string
  sr_FromStatus :: string
  sr_ToStatus :: string

definition SetUserStatus ::
  "(nat \<Rightarrow> bool) \<Rightarrow> int \<Rightarrow> string \<Rightarrow> string \<Rightarrow> string \<Rightarrow> string \<Rightarrow> id_db \<Rightarrow> (account_error + SetUserStatusResult) \<times> id_db" where
  "SetUserStatus ok now tid sid status operatorID s =
     (if \<not> IsValidUserStatus status then (Inl ErrInvalidUserStatus, s)
      else if operatorID \<noteq> [] \<and> operatorID = sid then (Inl ErrCannotChangeOwnStatus, s)
      else if \<not> ok 1 then (Inl AccountDBError, s)
      else case user_row tid sid s of
        None \<Rightarrow> (Inl ErrAdminUserNotFound, s)
      | Some u \<Rightarrow>
          if \<not> ok 2 \<or> \<not> ok 0 then (Inl AccountDBError, s)
          else (Inr \<lparr>sr_SubjectID = sid, sr_FromStatus = us_Status u, sr_ToStatus = status\<rparr>,
                update_user tid sid (\<lambda>v. v\<lparr>us_Status := status, us_UpdatedAt := now\<rparr>) s))"

record ListUsersParams =
  lp_Keyword :: string
  lp_Status :: string
  lp_Page :: int
  lp_PageSize :: int

definition ListUsers :: "(string \<Rightarrow> string \<Rightarrow> bool) \<Rightarrow> (nat \<Rightarrow> bool) \<Rightarrow> string \<Rightarrow> ListUsersParams \<Rightarrow> id_db \<Rightarrow> account_error + User list \<times> nat" where
  "ListUsers like ok tid p s =
     (let page = max 1 (lp_Page p);
          pageSize = min 200 (if lp_PageSize p \<le> 0 then 20 else lp_PageSize p);
          rows = filter (\<lambda>u. us_live u \<and> us_TenantID u = tid \<and> (lp_Keyword p = [] \<or> name_matches like (lp_Keyword p) u) \<and>
                             (lp_Status p = [] \<or> us_Status u = lp_Status p)) (db_users s)
      in if \<not> ok 0 \<or> \<not> ok 1 then Inl AccountDBError
         else Inr (take (nat pageSize) (drop (nat ((page - 1) * pageSize)) (sort_key (\<lambda>u. - us_CreatedAt u) rows)), length rows))"

section \<open>Provisioning\<close>

record ProvisionByEnterpriseParams =
  pp_EnterpriseProvider :: string
  pp_EnterpriseUID :: string
  pp_Username :: string
  pp_DisplayName :: string
  pp_Email :: string
  pp_Phone :: string
  pp_EmployeeNumber :: string
  pp_ExternalClaims :: jobj

definition directProvisionFieldMap :: FieldMapConfig where
  "directProvisionFieldMap =
     map (\<lambda>c. (c, c)) [''enterprise_uid'', ''employee_number'', ''display_name'', ''job_title'', ''cost_center'', ''org_path'']"

definition buildProvisionExternalClaims :: "ProvisionByEnterpriseParams \<Rightarrow> jobj" where
  "buildProvisionExternalClaims p =
     (''enterprise_uid'', JStr (pp_EnterpriseUID p)) #
     (if pp_EmployeeNumber p \<noteq> [] then [(''employee_number'', JStr (pp_EmployeeNumber p))] else []) @
     (if pp_DisplayName p \<noteq> [] then [(''display_name'', JStr (pp_DisplayName p))] else []) @
     filter (\<lambda>(k, v). k \<noteq> ''enterprise_uid'' \<and> k \<noteq> ''employee_number'' \<and> k \<noteq> ''display_name'') (pp_ExternalClaims p)"

definition synthetic_claims :: "ProvisionByEnterpriseParams \<Rightarrow> JWTClaims" where
  "synthetic_claims p =
     (let username = trim_space (pp_Username p)
      in \<lparr>jc_ID = [], jc_Sub = [], jc_UniversalID = pp_EnterpriseUID p,
          jc_Name = (if username = [] then ''ext_'' @ pp_EnterpriseUID p else username), jc_PreferredUsername = pp_DisplayName p,
          jc_Email = pp_Email p, jc_Picture = [], jc_Owner = [], jc_Provider = pp_EnterpriseProvider p, jc_ProviderUserID = [],
          jc_Phone = pp_Phone p, jc_ExternalClaims = buildProvisionExternalClaims p\<rparr>)"

definition error_text :: "mapping_error \<Rightarrow> string option" where
  "error_text e = (case e of EmpDBError context m \<Rightarrow> Some (context @ '': '' @ m) | _ \<Rightarrow> None)"

text \<open>Statements 200 to 202 are those of this function; the forced write has the environment \<open>emp2\<close>.\<close>

definition ProvisionByEnterprise ::
  "(nat \<Rightarrow> bool) \<Rightarrow> account_env \<Rightarrow> emp_env \<Rightarrow> TenantConfig list \<Rightarrow> string \<Rightarrow> ProvisionByEnterpriseParams \<Rightarrow> account_db \<Rightarrow>
   (account_error + User \<times> bool) \<times> account_db" where
  "ProvisionByEnterprise ok env emp2 configs tid p s =
     (if trim_space (pp_EnterpriseProvider p) = [] then (Inl EmptyEnterpriseProvider, s)
      else if trim_space (pp_EnterpriseUID p) = [] then (Inl EmptyEnterpriseUID, s)
      else if \<not> ok 200 then (Inl AccountDBError, s)
      else case emp_of_uid tid (pp_EnterpriseUID p) (ac_emp s) of
        Some ei \<Rightarrow>
          if \<not> ok 201 then (Inl AccountDBError, s)
          else (case find (\<lambda>u. us_live u \<and> us_SubjectID u = ei_UserSubjectID ei) (db_users (ac_ids s)) of
                  None \<Rightarrow> (Inl (MissingUserOfEmployment (ei_UserSubjectID ei)), s)
                | Some u \<Rightarrow> (Inr (u, False), s))
      | None \<Rightarrow>
          (case GetOrCreateUser ok env configs tid (Some (synthetic_claims p)) s of
             (Inl e, s1) \<Rightarrow> (Inl e, s1)
           | (Inr (u, isNew), s1) \<Rightarrow>
               (case upsertEmploymentIdentity emp2
                       \<lparr>mp_TenantID = tid, mp_UserSubjectID = us_SubjectID u, mp_Provider = pp_EnterpriseProvider p,
                        mp_ExternalClaims = buildProvisionExternalClaims p\<rparr> directProvisionFieldMap (ac_emp s1) of
                  (Some e, emp') \<Rightarrow>
                    (Inl (if isDuplicateKeyError (error_text e) then ErrEnterpriseUIDCollision else ForceWriteFailed e), s1\<lparr>ac_emp := emp'\<rparr>)
                | (None, emp') \<Rightarrow>
                    (case GetUserByID (ok 202) tid (us_SubjectID u) (ac_ids s1) of
                       Inr refreshed \<Rightarrow> (Inr (refreshed, isNew), s1\<lparr>ac_emp := emp'\<rparr>)
                     | Inl _ \<Rightarrow> (Inr (u, isNew), s1\<lparr>ac_emp := emp'\<rparr>)))))"

section \<open>Suggestions for the registration form\<close>

record ProfileSuggestion =
  ps_Username :: string
  ps_DisplayName :: string

definition pickDisplayName :: "JWTClaims \<Rightarrow> string" where
  "pickDisplayName c = (if jc_Name c \<noteq> [] then jc_Name c else jc_PreferredUsername c)"

definition sanitizeForPrefix :: "string \<Rightarrow> string" where
  "sanitizeForPrefix raw0 =
     (let raw = trim_space raw0; out = filter username_char raw
      in if raw = [] then [] else if out = [] then ''user'' @ dec_string (length raw) else out)"

definition mapGithub :: "JWTClaims \<Rightarrow> ProfileSuggestion" where
  "mapGithub c =
     \<lparr>ps_Username = (if jc_PreferredUsername c \<noteq> [] \<and> ValidateUsername (jc_PreferredUsername c) = None then jc_PreferredUsername c
                     else if trim_space (jc_ProviderUserID c) \<noteq> [] then ''gh_'' @ trim_space (jc_ProviderUserID c) else []),
      ps_DisplayName = pickDisplayName c\<rparr>"

fun idtrust_candidate :: "jobj \<Rightarrow> string list \<Rightarrow> string" where
  "idtrust_candidate m [] = []"
| "idtrust_candidate m (k # ks) =
     (case map_of m k of
        Some (JStr v0) \<Rightarrow>
          let v = trim_space v0 in if v = [] then idtrust_candidate m ks else if ValidateUsername v = None then v else []
      | _ \<Rightarrow> idtrust_candidate m ks)"

definition mapIdTrust :: "JWTClaims \<Rightarrow> ProfileSuggestion" where
  "mapIdTrust c =
     (let v = idtrust_candidate (jc_ExternalClaims c) [''username'', ''login'', ''employee_id'']
      in \<lparr>ps_Username = (if v = [] \<and> jc_UniversalID c \<noteq> [] then ''idt_'' @ jc_UniversalID c else v), ps_DisplayName = pickDisplayName c\<rparr>)"

definition mapPhone :: "JWTClaims \<Rightarrow> ProfileSuggestion" where
  "mapPhone c =
     (let phone = trim_space (jc_Phone c); digits = filter is_digit (dropWhile (\<lambda>x. x = CHR ''+'') phone)
      in \<lparr>ps_Username = (if phone \<noteq> [] \<and> length digits \<ge> 3 then ''p_'' @ digits else []), ps_DisplayName = pickDisplayName c\<rparr>)"

definition mapWecom :: "JWTClaims \<Rightarrow> ProfileSuggestion" where
  "mapWecom c =
     (let fallback = (if trim_space (jc_ProviderUserID c) \<noteq> [] then ''wecom_'' @ sanitizeForPrefix (trim_space (jc_ProviderUserID c)) else [])
      in \<lparr>ps_Username = (case map_of (jc_ExternalClaims c) ''UserId'' of
            Some (JStr v) \<Rightarrow> if v \<noteq> [] then (if ValidateUsername v = None then v else ''wecom_'' @ sanitizeForPrefix v) else fallback
          | _ \<Rightarrow> fallback), ps_DisplayName = pickDisplayName c\<rparr>)"

definition MapProviderToProfile :: "JWTClaims option \<Rightarrow> ProfileSuggestion" where
  "MapProviderToProfile claims =
     (case claims of
        None \<Rightarrow> \<lparr>ps_Username = [], ps_DisplayName = []\<rparr>
      | Some c \<Rightarrow>
          let prov = to_lower (trim_space (jc_Provider c))
          in if prov = ''github'' then mapGithub c
             else if prov = ''idtrust'' then mapIdTrust c
             else if prov = ''phone'' then mapPhone c
             else if prov \<in> set [''wecom'', ''wxwork'', ''wechat_work''] then mapWecom c
             else \<lparr>ps_Username = [], ps_DisplayName = pickDisplayName c\<rparr>)"

section \<open>Finding the account\<close>

text \<open>The account of the claims, as the three lookups find it when they succeed.\<close>

definition key_owner :: "string \<Rightarrow> id_db \<Rightarrow> string \<Rightarrow> User option" where
  "key_owner tid s key = (case live_identity tid key s of None \<Rightarrow> None | Some i \<Rightarrow> user_row tid (ai_UserSubjectID i) s)"

fun first_some :: "('a \<Rightarrow> 'b option) \<Rightarrow> 'a list \<Rightarrow> 'b option" where
  "first_some f [] = None"
| "first_some f (x # xs) = (case f x of None \<Rightarrow> first_some f xs | Some y \<Rightarrow> Some y)"

definition account_of :: "string \<Rightarrow> JWTClaims \<Rightarrow> account_db \<Rightarrow> User option" where
  "account_of tid c s =
     (case first_some (key_owner tid (ac_ids s)) (lookup_keys c) of
        Some u \<Rightarrow> Some u
      | None \<Rightarrow>
          (case first_some (\<lambda>k. user_of_key tid k (ac_ids s)) (lookup_keys c) of
             Some u \<Rightarrow> Some u
           | None \<Rightarrow>
               if extractEnterpriseUID c = [] then None
               else case emp_of_uid tid (extractEnterpriseUID c) (ac_emp s) of
                 None \<Rightarrow> None
               | Some ei \<Rightarrow> user_row tid (ei_UserSubjectID ei) (ac_ids s)))"

lemma login_by_identity_ok:
  "\<forall>k < 2 * length keys. ok (n + k) \<Longrightarrow> [] \<notin> set keys \<Longrightarrow> login_by_identity ok n tid keys s = Inr (first_some (key_owner tid s) keys)"
proof (induction keys arbitrary: n)
  case (Cons key keys)
  have o: "ok n" "ok (n + 1)" using Cons.prems(1) by (auto dest: spec[of _ 0] spec[of _ 1])
  have "\<forall>k < 2 * length keys. ok (n + 2 + k)" using Cons.prems(1) by (auto dest: spec[of _ "_ + 2"] simp: add.commute add.left_commute)
  then have "login_by_identity ok (n + 2) tid keys s = Inr (first_some (key_owner tid s) keys)" using Cons.IH[of "n + 2"] Cons.prems(2) by simp
  note rest = this
  show ?case
  proof (cases "live_identity tid key s")
    case None
    then have "key_owner tid s key = None" by (simp add: key_owner_def)
    then show ?thesis using None o rest Cons.prems(2) by auto
  next
    case (Some i)
    then have "key_owner tid s key = user_row tid (ai_UserSubjectID i) s" by (simp add: key_owner_def)
    then show ?thesis using Some o rest Cons.prems(2) by (auto split: option.split)
  qed
qed simp

lemma login_by_key_ok:
  "\<forall>k < length keys. ok (n + k) \<Longrightarrow> [] \<notin> set keys \<Longrightarrow> login_by_key ok n tid keys s = Inr (first_some (\<lambda>k. user_of_key tid k s) keys)"
proof (induction keys arbitrary: n)
  case (Cons key keys)
  have o: "ok n" using Cons.prems(1) by (auto dest: spec[of _ 0])
  have "\<forall>k < length keys. ok (n + 1 + k)" using Cons.prems(1) by (auto dest: spec[of _ "Suc _"])
  then have "login_by_key ok (n + 1) tid keys s = Inr (first_some (\<lambda>k. user_of_key tid k s) keys)" using Cons.IH[of "n + 1"] Cons.prems(2) by simp
  then show ?case using o Cons.prems(2) by (auto split: option.splits)
qed simp

definition identified :: "JWTClaims \<Rightarrow> bool" where
  "identified c \<longleftrightarrow> jc_ID c \<noteq> [] \<or> jc_Sub c \<noteq> [] \<or> jc_UniversalID c \<noteq> []"

lemma identified_key: "identified c \<Longrightarrow> buildExternalKey c \<noteq> []"
  by (auto simp: identified_def buildExternalKey_def Let_def)

lemma lookup_keys_ok: "identified c \<Longrightarrow> [] \<notin> set (lookup_keys c)" "length (lookup_keys c) \<le> 2"
  using identified_key[of c] by (auto simp: lookup_keys_def)

lemma find_account_ok:
  assumes "identified c" "\<forall>n < 22. ok n"
  shows "find_account ok tid c s = Inr (account_of tid c s)"
proof -
  note k = lookup_keys_ok(1)[OF assms(1)] lookup_keys_ok(2)[of c]
  have "login_by_identity ok 0 tid (lookup_keys c) (ac_ids s) = Inr (first_some (key_owner tid (ac_ids s)) (lookup_keys c))"
    by (rule login_by_identity_ok) (use assms(2) k in auto)
  moreover have "login_by_key ok 10 tid (lookup_keys c) (ac_ids s) = Inr (first_some (\<lambda>k. user_of_key tid k (ac_ids s)) (lookup_keys c))"
    by (rule login_by_key_ok) (use assms(2) k in auto)
  moreover have "ok 20" "ok 21" using assms(2) by simp_all
  ultimately show ?thesis
    by (simp add: find_account_def account_of_def login_by_employment_def Let_def split: option.split)
qed

text \<open>Accounts found belong to the tenant.\<close>

lemma user_row_SomeD: "user_row tid sid s = Some u \<Longrightarrow> u \<in> set (db_users s) \<and> us_live u \<and> us_TenantID u = tid \<and> us_SubjectID u = sid"
  unfolding user_row_def by (drule find_SomeD) simp

lemma user_of_key_SomeD: "user_of_key tid k s = Some u \<Longrightarrow> u \<in> set (db_users s) \<and> us_live u \<and> us_TenantID u = tid \<and> us_ExternalKey u = Some k"
  unfolding user_of_key_def by (drule find_SomeD) simp

lemma first_some_SomeD: "first_some f xs = Some y \<Longrightarrow> \<exists>x \<in> set xs. f x = Some y"
  by (induction xs) (auto split: option.splits)

lemma first_some_None: "first_some f xs = None \<longleftrightarrow> (\<forall>x \<in> set xs. f x = None)"
  by (induction xs) (auto split: option.splits)

definition found_row :: "string \<Rightarrow> User \<Rightarrow> account_db \<Rightarrow> bool" where
  "found_row tid u s \<longleftrightarrow> u \<in> set (db_users (ac_ids s)) \<and> us_live u \<and> us_TenantID u = tid"

lemma key_owner_row: "key_owner tid (ac_ids s) k = Some u \<Longrightarrow> found_row tid u s"
  by (auto simp: key_owner_def found_row_def split: option.splits dest: user_row_SomeD)

lemma by_identity_row: "login_by_identity ok n tid keys (ac_ids s) = Inr (Some u) \<Longrightarrow> found_row tid u s"
  by (induction ok n tid keys "ac_ids s" rule: login_by_identity.induct)
     (auto simp: found_row_def split: if_splits option.splits dest: user_row_SomeD)

lemma by_key_row: "login_by_key ok n tid keys (ac_ids s) = Inr (Some u) \<Longrightarrow> found_row tid u s"
  by (induction ok n tid keys "ac_ids s" rule: login_by_key.induct)
     (auto simp: found_row_def split: if_splits option.splits dest: user_of_key_SomeD)

lemma find_account_row: "find_account ok tid c s = Inr (Some u) \<Longrightarrow> found_row tid u s"
  by (auto simp: find_account_def login_by_employment_def Let_def found_row_def split: sum.splits option.splits if_splits
      dest: by_identity_row by_key_row user_row_SomeD)

section \<open>Login twice\<close>

lemma find_map_on: "(\<forall>x \<in> set xs. P (h x) = P x) \<Longrightarrow> find P (map h xs) = map_option h (find P xs)"
  by (induction xs) auto

text \<open>A rewriting of the rows that keeps what the lookups and the unique indexes read.\<close>

definition key_cols :: "User \<Rightarrow> nat \<times> string \<times> string \<times> string \<times> string \<times> string option \<times> bool" where
  "key_cols u = (us_ID u, us_TenantID u, us_SubjectID u, us_ShortID u, us_Username u, us_ExternalKey u, us_live u)"

lemma map_filter_map_on: "(\<forall>x \<in> set xs. f (h x) = f x) \<Longrightarrow> List.map_filter f (map h xs) = List.map_filter f xs"
  by (induction xs) (auto simp: List.map_filter_def)

lemma unique_users_map:
  assumes "\<forall>u \<in> set us. key_cols (h u) = key_cols u"
  shows "unique_users (map h us) = unique_users us"
proof -
  have "map us_ID (map h us) = map us_ID us" "map us_SubjectID (map h us) = map us_SubjectID us" "map us_ShortID (map h us) = map us_ShortID us"
    "map (\<lambda>u. (us_TenantID u, us_Username u)) (map h us) = map (\<lambda>u. (us_TenantID u, us_Username u)) us"
    using assms by (simp_all add: key_cols_def)
  moreover have "List.map_filter us_ExternalKey (map h us) = List.map_filter us_ExternalKey us"
    by (rule map_filter_map_on) (use assms in \<open>simp add: key_cols_def\<close>)
  ultimately show ?thesis by (simp only: unique_users_def)
qed

lemma unique_users_ID: "unique_users us \<Longrightarrow> u \<in> set us \<Longrightarrow> v \<in> set us \<Longrightarrow> us_ID u = us_ID v \<Longrightarrow> u = v"
  by (auto simp: unique_users_def distinct_map inj_on_def)

lemma unique_users_subject: "unique_users us \<Longrightarrow> u \<in> set us \<Longrightarrow> v \<in> set us \<Longrightarrow> us_SubjectID u = us_SubjectID v \<Longrightarrow> u = v"
  by (auto simp: unique_users_def distinct_map inj_on_def)

lemma map_filter_mem: "x \<in> set xs \<Longrightarrow> f x = Some k \<Longrightarrow> k \<in> set (List.map_filter f xs)"
  by (induction xs) (auto split: option.split)

lemma map_filter_key: "distinct (List.map_filter f xs) \<Longrightarrow> x \<in> set xs \<Longrightarrow> y \<in> set xs \<Longrightarrow> f x = Some k \<Longrightarrow> f y = Some k \<Longrightarrow> x = y"
  by (induction xs) (auto dest: map_filter_mem split: option.splits)

lemma unique_users_key:
  "unique_users us \<Longrightarrow> u \<in> set us \<Longrightarrow> v \<in> set us \<Longrightarrow> us_ExternalKey u = Some k \<Longrightarrow> us_ExternalKey v = Some k \<Longrightarrow> u = v"
  unfolding unique_users_def using map_filter_key[of us_ExternalKey us u v k] by blast

lemma find_unique: "x \<in> set xs \<Longrightarrow> P x \<Longrightarrow> (\<And>y. y \<in> set xs \<Longrightarrow> P y \<Longrightarrow> y = x) \<Longrightarrow> find P xs = Some x"
proof (induction xs)
  case (Cons a xs)
  show ?case
  proof (cases "P a")
    case True
    have "a = x" by (rule Cons.prems(3)) (use True in simp_all)
    then show ?thesis using True by simp
  next
    case False
    then have m: "x \<in> set xs" using Cons.prems(1,2) by (metis set_ConsD)
    have "find P xs = Some x" by (rule Cons.IH[OF m Cons.prems(2)], rule Cons.prems(3)) simp_all
    then show ?thesis using False by simp
  qed
qed simp

text \<open>The account is found under its subject and under its key.\<close>

lemma user_row_of:
  assumes "unique_users (db_users s)" "u \<in> set (db_users s)" "us_live u"
  shows "user_row (us_TenantID u) (us_SubjectID u) s = Some u"
  unfolding user_row_def
proof (rule find_unique[OF assms(2)])
  fix y assume "y \<in> set (db_users s)" "us_live y \<and> us_TenantID y = us_TenantID u \<and> us_SubjectID y = us_SubjectID u"
  then show "y = u" using unique_users_subject[OF assms(1) _ assms(2)] by simp
qed (use assms(3) in simp)

lemma user_of_key_of:
  assumes "unique_users (db_users s)" "u \<in> set (db_users s)" "us_live u" "us_ExternalKey u = Some k"
  shows "user_of_key (us_TenantID u) k s = Some u"
  unfolding user_of_key_def
proof (rule find_unique[OF assms(2)])
  fix y assume "y \<in> set (db_users s)" "us_live y \<and> us_TenantID y = us_TenantID u \<and> us_ExternalKey y = Some k"
  then show "y = u" using unique_users_key[OF assms(1) _ assms(2) _ assms(4)] by simp
qed (use assms(3,4) in simp)

definition acc_ok :: "account_db \<Rightarrow> bool" where
  "acc_ok s \<longleftrightarrow> ids_ok (ac_ids s) \<and> unique_users (db_users (ac_ids s)) \<and> (\<forall>u \<in> set (db_users (ac_ids s)). us_SubjectID u \<noteq> [])"

text \<open>After a successful login the claims lead to the account: through an identity, or past the identities through its key.\<close>

definition settled :: "string \<Rightarrow> JWTClaims \<Rightarrow> string \<Rightarrow> account_db \<Rightarrow> bool" where
  "settled tid c sid s \<longleftrightarrow>
     (\<exists>u. found_row tid u s \<and> us_SubjectID u = sid \<and> us_ExternalKey u = Some (buildExternalKey c) \<and>
          (\<forall>v. first_some (key_owner tid (ac_ids s)) (lookup_keys c) = Some v \<longrightarrow> us_SubjectID v = sid))"

lemma settled_account:
  assumes "acc_ok s" "settled tid c sid s"
  shows "\<exists>u. account_of tid c s = Some u \<and> found_row tid u s \<and> us_SubjectID u = sid \<and> us_ExternalKey u = Some (buildExternalKey c)"
proof -
  obtain u where u: "found_row tid u s" "us_SubjectID u = sid" "us_ExternalKey u = Some (buildExternalKey c)"
      "\<And>v. first_some (key_owner tid (ac_ids s)) (lookup_keys c) = Some v \<Longrightarrow> us_SubjectID v = sid"
    using assms(2) unfolding settled_def by blast
  have uq: "unique_users (db_users (ac_ids s))" using assms(1) by (simp add: acc_ok_def)
  have r: "u \<in> set (db_users (ac_ids s))" "us_live u" "us_TenantID u = tid" using u(1) by (simp_all add: found_row_def)
  have "account_of tid c s = Some u"
  proof (cases "first_some (key_owner tid (ac_ids s)) (lookup_keys c)")
    case None
    have "user_of_key tid (buildExternalKey c) (ac_ids s) = Some u" using user_of_key_of[OF uq r(1,2) u(3)] r(3) by simp
    then show ?thesis using None by (simp add: account_of_def lookup_keys_def)
  next
    case (Some v)
    then obtain k where "key_owner tid (ac_ids s) k = Some v" by (auto dest: first_some_SomeD)
    then have "v \<in> set (db_users (ac_ids s))" using key_owner_row by (auto simp: found_row_def)
    then have "v = u" using unique_users_subject[OF uq _ r(1)] u(2) u(4)[OF Some] by simp
    then show ?thesis using Some by (simp add: account_of_def)
  qed
  then show ?thesis using u(1,2,3) by blast
qed

lemma save_user_rows:
  assumes "unique_users (db_users s)" "u \<in> set (db_users s)" "us_live u" "us_ID w = us_ID u"
  shows "db_users (save_user w s) = map (\<lambda>v. if v = u then w else v) (db_users s)"
proof -
  have "(if us_live v \<and> us_ID v = us_ID w then w else v) = (if v = u then w else v)" if v: "v \<in> set (db_users s)" for v
    using unique_users_ID[OF assms(1) v assms(2)] assms(3,4) by auto
  then show ?thesis unfolding save_user_def by simp
qed

lemma applyOnLogin_ids [simp]: "ac_ids (applyEnterpriseMappingOnLogin env configs tid sid c s) = ac_ids s"
  by (simp add: applyEnterpriseMappingOnLogin_def)

text \<open>The row that a login of a found account writes, and the tables after it.\<close>

definition written :: "account_env \<Rightarrow> JWTClaims \<Rightarrow> User \<Rightarrow> User" where
  "written env c u = (login_update c u)\<lparr>us_LastSyncAt := Some (ae_now env), us_UpdatedAt := ae_now env\<rparr>"

lemma written_cols [simp]:
  "us_ID (written env c u) = us_ID u" "us_TenantID (written env c u) = us_TenantID u" "us_SubjectID (written env c u) = us_SubjectID u"
  "us_ShortID (written env c u) = us_ShortID u" "us_Username (written env c u) = us_Username u" "us_live (written env c u) = us_live u"
  "buildExternalKey c \<noteq> [] \<Longrightarrow> us_ExternalKey (written env c u) = Some (buildExternalKey c)"
  by (simp_all add: written_def login_update_def us_live_def)

lemma login_found_write:
  "us_SubjectID u \<noteq> [] \<Longrightarrow> should_update (ae_now env) c u \<Longrightarrow> login_found ok env configs tid c u s =
     (if \<not> ok 22 \<or> \<not> unique_users (db_users (save_user (written env c u) (ac_ids s))) then (Inl UpdateFailed, s)
      else (Inr (written env c u, False),
            applyEnterpriseMappingOnLogin env configs tid (us_SubjectID u) c (s\<lparr>ac_ids := save_user (written env c u) (ac_ids s)\<rparr>)))"
  by (simp add: login_found_def Let_def written_def login_update_def)

lemma login_found_read:
  "us_SubjectID u \<noteq> [] \<Longrightarrow> \<not> should_update (ae_now env) c u \<Longrightarrow> login_found ok env configs tid c u s =
     (Inr (login_update c u, False), applyEnterpriseMappingOnLogin env configs tid (us_SubjectID u) c s)"
  by (simp add: login_found_def Let_def login_update_def)

text \<open>A settled account logs in.\<close>

lemma settled_login:
  assumes "acc_ok s" "identified c" "settled tid c sid s" "\<forall>n \<le> 22. ok n"
  shows "\<exists>u s'. find_account ok tid c s = Inr (Some u) \<and> us_SubjectID u = sid \<and> us_TenantID u = tid \<and>
    (\<exists>v. login_found ok env configs tid c u s = (Inr (v, False), s') \<and> us_SubjectID v = sid \<and> us_TenantID v = tid)"
proof -
  obtain u where u: "account_of tid c s = Some u" "found_row tid u s" "us_SubjectID u = sid" "us_ExternalKey u = Some (buildExternalKey c)"
    using settled_account[OF assms(1,3)] by blast
  have f: "find_account ok tid c s = Inr (Some u)" using find_account_ok[OF assms(2)] assms(4) u(1) by simp
  have uq: "unique_users (db_users (ac_ids s))" and ne: "us_SubjectID u \<noteq> []" and r: "u \<in> set (db_users (ac_ids s))" "us_live u" "us_TenantID u = tid"
    using assms(1) u(2) by (simp_all add: acc_ok_def found_row_def)
  have "\<exists>v s'. login_found ok env configs tid c u s = (Inr (v, False), s') \<and> us_SubjectID v = sid \<and> us_TenantID v = tid"
  proof (cases "should_update (ae_now env) c u")
    case True
    have "key_cols (written env c u) = key_cols u" using u(4) identified_key[OF assms(2)] by (simp add: key_cols_def)
    then have "unique_users (db_users (save_user (written env c u) (ac_ids s)))"
      using unique_users_map[of "db_users (ac_ids s)" "\<lambda>v. if v = u then written env c u else v"] uq
      by (simp add: save_user_rows[OF uq r(1,2)])
    then show ?thesis using assms(4) u(3) r(3) by (simp add: login_found_write[OF ne True])
  next
    case False
    then show ?thesis using u(3) r(3) by (simp add: login_found_read[OF ne False] login_update_def)
  qed
  then show ?thesis using f u(3) r(3) by blast
qed

lemma key_owner_mapped:
  assumes "unique_users (db_users s)" "u \<in> set (db_users s)" "us_live u" "db_users s' = map (\<lambda>v. if v = u then w else v) (db_users s)"
    "db_identities s' = db_identities s" "us_TenantID w = us_TenantID u" "us_SubjectID w = us_SubjectID u" "us_live w"
  shows "key_owner tid s' k = map_option (\<lambda>v. if v = u then w else v) (key_owner tid s k)"
proof -
  have "user_row tid sid s' = map_option (\<lambda>v. if v = u then w else v) (user_row tid sid s)" for sid
    unfolding user_row_def assms(4) by (rule find_map_on) (use assms(3,6,7,8) in simp)
  moreover have "live_identity tid k s' = live_identity tid k s" by (simp add: live_identity_def assms(5))
  ultimately show ?thesis by (simp add: key_owner_def split: option.split)
qed

lemma first_some_map: "(\<And>k. f k = map_option h (g k)) \<Longrightarrow> first_some f xs = map_option h (first_some g xs)"
  by (induction xs) (auto split: option.split)

lemma found_settles:
  assumes "acc_ok s" "identified c" "account_of tid c s = Some u" "login_found ok env configs tid c u s = (Inr (v, b), s')" "found_row tid u s"
  shows "settled tid c (us_SubjectID v) s' \<and> acc_ok s'"
proof -
  have uq: "unique_users (db_users (ac_ids s))" and ne: "us_SubjectID u \<noteq> []" and io: "ids_ok (ac_ids s)"
    and r: "u \<in> set (db_users (ac_ids s))" "us_live u" "us_TenantID u = tid"
    using assms(1,5) by (simp_all add: acc_ok_def found_row_def)
  have key: "buildExternalKey c \<noteq> []" by (rule identified_key[OF assms(2)])
  have own: "us_SubjectID x = us_SubjectID u" if "first_some (key_owner tid (ac_ids s)) (lookup_keys c) = Some x" for x
    using assms(3) that by (simp add: account_of_def)
  show ?thesis
  proof (cases "should_update (ae_now env) c u")
    case True
    let ?w = "written env c u" and ?h = "\<lambda>x. if x = u then written env c u else x"
    have e: "unique_users (db_users (save_user ?w (ac_ids s)))" "v = ?w" "ac_ids s' = save_user ?w (ac_ids s)"
      using assms(4) by (auto simp: login_found_write[OF ne True] split: if_splits)
    have rows: "db_users (ac_ids s') = map ?h (db_users (ac_ids s))" unfolding e(3) by (rule save_user_rows[OF uq r(1,2)]) simp
    have ids: "db_identities (ac_ids s') = db_identities (ac_ids s)" "db_iseq (ac_ids s') = db_iseq (ac_ids s)" unfolding e(3) by (simp_all add: save_user_def)
    have "key_owner tid (ac_ids s') k = map_option ?h (key_owner tid (ac_ids s) k)" for k
      by (rule key_owner_mapped[OF uq r(1,2) rows ids(1)]) (use r(2) in simp_all)
    note fs = first_some_map[OF this, where xs = "lookup_keys c"]
    have "found_row tid ?w s'" unfolding found_row_def rows using r by force
    moreover have "us_SubjectID x = us_SubjectID u" if x: "first_some (key_owner tid (ac_ids s')) (lookup_keys c) = Some x" for x
      using x own unfolding fs by auto
    ultimately have "settled tid c (us_SubjectID v) s'" using key unfolding settled_def e(2) by (intro exI[of _ ?w]) simp
    moreover have "acc_ok s'"
      unfolding acc_ok_def using io e(1,3) ids assms(1) rows by (auto simp: ids_ok_def acc_ok_def)
    ultimately show ?thesis ..
  next
    case False
    have e: "v = login_update c u" "ac_ids s' = ac_ids s" using assms(4) by (auto simp: login_found_read[OF ne False])
    have "us_ExternalKey u = Some (buildExternalKey c)" using False key by (auto simp: should_update_def)
    then have "settled tid c (us_SubjectID v) s'"
      unfolding settled_def found_row_def e(2) using r own by (intro exI[of _ u]) (simp add: e(1) login_update_def)
    then show ?thesis using assms(1) e(2) by (simp add: acc_ok_def)
  qed
qed

text \<open>A new account.\<close>

lemma normalize_keys [simp]:
  "buildExternalKey (normalizeJWTClaims c) = buildExternalKey c" "legacyExternalKey (normalizeJWTClaims c) = legacyExternalKey c"
  "jc_ID (normalizeJWTClaims c) = jc_ID c" "jc_Sub (normalizeJWTClaims c) = jc_Sub c" "jc_UniversalID (normalizeJWTClaims c) = jc_UniversalID c"
proof -
  have f: "jc_ID (normalizeJWTClaims c) = jc_ID c" "jc_Sub (normalizeJWTClaims c) = jc_Sub c"
    "jc_UniversalID (normalizeJWTClaims c) = jc_UniversalID c" "jc_Provider (normalizeJWTClaims c) = jc_Provider c"
    unfolding normalizeJWTClaims_def Let_def by (simp_all only: if_distrib cong: if_cong) simp_all
  show "jc_ID (normalizeJWTClaims c) = jc_ID c" "jc_Sub (normalizeJWTClaims c) = jc_Sub c"
    "jc_UniversalID (normalizeJWTClaims c) = jc_UniversalID c" by (fact f)+
  show "buildExternalKey (normalizeJWTClaims c) = buildExternalKey c" "legacyExternalKey (normalizeJWTClaims c) = legacyExternalKey c"
    unfolding buildExternalKey_def legacyExternalKey_def f by (rule refl)+
qed

lemma lookup_keys_normalize [simp]: "lookup_keys (normalizeJWTClaims c) = lookup_keys c"
  by (simp add: lookup_keys_def)

lemma new_user_cols [simp]:
  "us_ID (new_user env tid c n) = n" "us_TenantID (new_user env tid c n) = tid" "us_SubjectID (new_user env tid c n) = ''usr_'' @ ae_uuid env"
  "us_live (new_user env tid c n)" "us_ExternalKey (new_user env tid c n) = stringPtr (buildExternalKey c)"
  by (simp_all add: new_user_def Let_def us_live_def)

lemma account_of_None:
  assumes "account_of tid c s = None"
  shows "first_some (key_owner tid (ac_ids s)) (lookup_keys c) = None" "first_some (\<lambda>k. user_of_key tid k (ac_ids s)) (lookup_keys c) = None"
  using assms by (simp_all add: account_of_def split: option.splits)

lemma no_race_winner:
  assumes "account_of tid c s = None" "identified c"
  shows "race_winner tid c (ac_ids s) = None"
proof -
  have "\<forall>k \<in> set (lookup_keys c). user_of_key tid k (ac_ids s) = None"
    using account_of_None(2)[OF assms(1)] by (simp only: first_some_None)
  moreover have "lookup_keys c \<noteq> []" by (simp add: lookup_keys_def)
  ultimately show ?thesis
    using identified_key[OF assms(2)] unfolding race_winner_def Let_def user_of_key_def find_None_iff by simp
qed

lemma key_owner_bound:
  assumes "ids_ok s" "bound tid sid k s" "user_row tid sid s = Some u"
  shows "key_owner tid s k = Some u"
proof -
  obtain i where i: "i \<in> set (db_identities s)" "mine tid sid i" "ai_ExternalKey i = k" using assms(2) unfolding bound_def by blast
  have "live_identity tid k s = Some i"
    unfolding live_identity_def
  proof (rule find_unique[OF i(1)])
    fix j assume "j \<in> set (db_identities s)" "ai_live j \<and> ai_TenantID j = tid \<and> ai_ExternalKey j = k"
    then show "j = i" using assms(1) i(1,3) by (auto simp: ids_ok_def unique_ids_def distinct_map inj_on_def)
  qed (use i in \<open>simp add: mine_def\<close>)
  then show ?thesis using i(2) assms(3) by (simp add: key_owner_def mine_def)
qed

lemma key_owner_appended:
  assumes "db_users s' = db_users s @ [u]" "db_identities s' = db_identities s" "key_owner tid s k = None" "key_owner tid s' k = Some x"
  shows "x = u"
proof -
  obtain i where i: "live_identity tid k s = Some i" "user_row tid (ai_UserSubjectID i) s' = Some x"
    using assms(2,4) by (auto simp: key_owner_def live_identity_def split: option.splits)
  have "user_row tid (ai_UserSubjectID i) s = None" using assms(3) i(1) by (simp add: key_owner_def)
  then show ?thesis using i(2) user_row_SomeD[OF i(2)] assms(1) by (auto simp: user_row_def find_None_iff)
qed

text \<open>The steps of a successful creation.\<close>

lemma login_new_success:
  assumes "account_of tid c s = None" "identified c" "login_new ok env configs tid c s = (Inr (v, b), s')"
  defines "u \<equiv> new_user env tid c (ac_useq s)"
  defines "ids \<equiv> (ac_ids s)\<lparr>db_users := db_users (ac_ids s) @ [u]\<rparr>"
  shows "\<exists>e. unique_users (db_users ids) \<and> BindIdentityToUser (\<lambda>n. ok (100 + n)) (ae_now env) tid (us_SubjectID u) (Some c) False ids = (e, ac_ids s') \<and>
    us_SubjectID v = us_SubjectID u \<and> b"
proof -
  obtain e ids' where B: "BindIdentityToUser (\<lambda>n. ok (100 + n)) (ae_now env) tid (us_SubjectID u) (Some c) False ids = (e, ids')" by fastforce
  have uq: "ok 23" "unique_users (db_users ids)"
    using assms(3) no_race_winner[OF assms(1,2)] unfolding login_new_def Let_def u_def[symmetric] ids_def[symmetric] by (auto split: if_splits)
  have "ac_ids s' = ids' \<and> us_SubjectID v = us_SubjectID u \<and> b"
    using assms(3) uq B unfolding login_new_def Let_def u_def[symmetric] ids_def[symmetric]
    by (auto simp: GetUserByID_def split: if_splits option.splits sum.splits dest: user_row_SomeD)
  then show ?thesis using uq(2) B by blast
qed

lemma new_settles:
  assumes "acc_ok s" "account_of tid c s = None" "identified c" "login_new ok env configs tid c s = (Inr (v, b), s')"
  shows "settled tid c (us_SubjectID v) s' \<and> acc_ok s' \<and> b"
proof -
  let ?u = "new_user env tid c (ac_useq s)"
  let ?ids = "(ac_ids s)\<lparr>db_users := db_users (ac_ids s) @ [?u]\<rparr>"
  obtain e where uq: "unique_users (db_users ?ids)"
    and B: "BindIdentityToUser (\<lambda>n. ok (100 + n)) (ae_now env) tid (us_SubjectID ?u) (Some c) False ?ids = (e, ac_ids s')"
    and v: "us_SubjectID v = us_SubjectID ?u" and b: b
    using login_new_success[OF assms(2,3,4)] by blast
  have key: "buildExternalKey c \<noteq> []" by (rule identified_key[OF assms(3)])
  have io: "ids_ok ?ids" and ne: "\<forall>x \<in> set (db_users ?ids). us_SubjectID x \<noteq> []" using assms(1) by (simp_all add: acc_ok_def ids_ok_def)
  from B have "settled tid c (us_SubjectID ?u) s' \<and> acc_ok s'"
  proof (cases rule: Bind_cases)
    case 1
    have "found_row tid ?u s'" unfolding found_row_def 1(2) by simp
    moreover have "x = ?u" if x: "first_some (key_owner tid (ac_ids s')) (lookup_keys c) = Some x" for x
    proof -
      obtain k where k: "k \<in> set (lookup_keys c)" "key_owner tid ?ids k = Some x" using first_some_SomeD[OF x] 1(2) by auto
      have "key_owner tid (ac_ids s) k = None" using account_of_None(1)[OF assms(2)] k(1) by (simp add: first_some_None)
      then show ?thesis using key_owner_appended[OF _ _ _ k(2)] by simp
    qed
    ultimately have "settled tid c (us_SubjectID ?u) s'" unfolding settled_def using key by (intro exI[of _ ?u]) (auto simp: stringPtr_def)
    then show ?thesis using io uq ne 1(2) by (simp add: acc_ok_def)
  next
    case (2 c1)
    then have t: "bind_tx (\<lambda>n. ok (100 + n)) (ae_now env) tid (us_SubjectID ?u) (normalizeJWTClaims c) False ?ids = (None, ac_ids s')" by simp
    obtain h where h: "db_users (ac_ids s') = map h (db_users ?ids)" "\<forall>u. same_user u (h u)"
      using bind_op[OF io t] unfolding op_ok_def users_kept_def by blast
    have io': "ids_ok (ac_ids s')" using bind_op[OF io t] by (simp add: op_ok_def)
    have kc: "key_cols (h x) = key_cols x" for x using same_user_fields[of x "h x"] h(2) by (simp add: key_cols_def us_live_def)
    have uq': "unique_users (db_users (ac_ids s'))" unfolding h(1) using unique_users_map[of "db_users ?ids" h] kc uq by simp
    have w: "h ?u \<in> set (db_users (ac_ids s'))" "us_live (h ?u)" "us_TenantID (h ?u) = tid" "us_SubjectID (h ?u) = us_SubjectID ?u"
        "us_ExternalKey (h ?u) = Some (buildExternalKey c)"
      using kc[of ?u] key by (simp_all add: h(1) key_cols_def stringPtr_def)
    have "key_owner tid (ac_ids s') (buildExternalKey c) = Some (h ?u)"
      by (rule key_owner_bound[OF io']) (use bind_binds[OF io t] user_row_of[OF uq' w(1,2)] w(3,4) in simp_all)
    then have fs: "first_some (key_owner tid (ac_ids s')) (lookup_keys c) = Some (h ?u)" by (simp add: lookup_keys_def)
    have "settled tid c (us_SubjectID ?u) s'" unfolding settled_def found_row_def fs using w by (intro exI[of _ "h ?u"]) simp
    moreover have "\<forall>x \<in> set (db_users (ac_ids s')). us_SubjectID x \<noteq> []" unfolding h(1) using ne kc by (auto simp: key_cols_def)
    ultimately show ?thesis using io' uq' by (simp add: acc_ok_def)
  qed
  then show ?thesis using v b by simp
qed

lemma login_settles:
  assumes "acc_ok s" "\<forall>n < 22. ok n" "GetOrCreateUser ok env configs tid (Some c) s = (Inr (v, b), s')"
  shows "identified c \<and> settled tid (normalizeJWTClaims c) (us_SubjectID v) s' \<and> acc_ok s'"
proof -
  let ?c = "normalizeJWTClaims c"
  have i: "identified ?c" using assms(3) by (auto simp: GetOrCreateUser_def Let_def identified_def split: if_splits)
  have f: "find_account ok tid ?c s = Inr (account_of tid ?c s)" by (rule find_account_ok[OF i assms(2)])
  have "settled tid ?c (us_SubjectID v) s' \<and> acc_ok s'"
  proof (cases "account_of tid ?c s")
    case None
    then have "login_new ok env configs tid ?c s = (Inr (v, b), s')"
      using assms(3) i f by (auto simp: GetOrCreateUser_def Let_def identified_def split: if_splits)
    then show ?thesis using new_settles[OF assms(1) None i] by blast
  next
    case (Some u)
    then have "login_found ok env configs tid ?c u s = (Inr (v, b), s')" "found_row tid u s"
      using assms(3) i f find_account_row[of ok tid ?c s u] by (auto simp: GetOrCreateUser_def Let_def identified_def split: if_splits)
    then show ?thesis using found_settles[OF assms(1) i Some] by blast
  qed
  then show ?thesis using i by (simp add: identified_def)
qed

section \<open>Sequences of operations\<close>

datatype account_op =
    OpLogin "nat \<Rightarrow> bool" account_env "TenantConfig list" string "JWTClaims option"
  | OpProvision "nat \<Rightarrow> bool" account_env emp_env "TenantConfig list" string ProvisionByEnterpriseParams
  | OpRegister "nat \<Rightarrow> bool" int string string string string
  | OpProfile "nat \<Rightarrow> bool" int string string string
  | OpAdminProfile "nat \<Rightarrow> bool" int string string string "string option"
  | OpStatus "nat \<Rightarrow> bool" int string string string string
  | OpBind "nat \<Rightarrow> bool" int string string "JWTClaims option" bool
  | OpTransfer "nat \<Rightarrow> bool" int string string string
  | OpUnbind "nat \<Rightarrow> bool" int string string string

fun op_tenant :: "account_op \<Rightarrow> string" where
  "op_tenant (OpLogin ok env configs tid claims) = tid"
| "op_tenant (OpProvision ok env emp2 configs tid p) = tid"
| "op_tenant (OpRegister ok now tid sid username displayName) = tid"
| "op_tenant (OpProfile ok now tid sid displayName) = tid"
| "op_tenant (OpAdminProfile ok now tid sid username displayName) = tid"
| "op_tenant (OpStatus ok now tid sid status operatorID) = tid"
| "op_tenant (OpBind ok now tid sid claims force) = tid"
| "op_tenant (OpTransfer ok now tid target key) = tid"
| "op_tenant (OpUnbind ok now tid sid prov) = tid"

definition on_ids :: "(id_db \<Rightarrow> 'r \<times> id_db) \<Rightarrow> account_db \<Rightarrow> account_db" where
  "on_ids f s = s\<lparr>ac_ids := snd (f (ac_ids s))\<rparr>"

fun account_step :: "account_op \<Rightarrow> account_db \<Rightarrow> account_db" where
  "account_step (OpLogin ok env configs tid claims) s = snd (GetOrCreateUser ok env configs tid claims s)"
| "account_step (OpProvision ok env emp2 configs tid p) s = snd (ProvisionByEnterprise ok env emp2 configs tid p s)"
| "account_step (OpRegister ok now tid sid username displayName) s = on_ids (CompleteRegistration ok now tid sid username displayName) s"
| "account_step (OpProfile ok now tid sid displayName) s = on_ids (UpdateProfile ok now tid sid displayName) s"
| "account_step (OpAdminProfile ok now tid sid username displayName) s = on_ids (AdminUpdateProfile ok now tid sid username displayName) s"
| "account_step (OpStatus ok now tid sid status operatorID) s = on_ids (SetUserStatus ok now tid sid status operatorID) s"
| "account_step (OpBind ok now tid sid claims force) s = on_ids (BindIdentityToUser ok now tid sid claims force) s"
| "account_step (OpTransfer ok now tid target key) s = on_ids (TransferIdentityToUser ok now tid target key) s"
| "account_step (OpUnbind ok now tid sid prov) s = on_ids (UnbindIdentityByProvider ok now tid sid prov) s"

definition tenant_view :: "string \<Rightarrow> account_db \<Rightarrow> User list \<times> UserAuthIdentity list" where
  "tenant_view tid s = (filter (\<lambda>u. us_TenantID u = tid) (db_users (ac_ids s)), filter (\<lambda>i. ai_TenantID i = tid) (db_identities (ac_ids s)))"

text \<open>What an operation of a tenant does to the users: rows of others stay, own rows keep their identity and their completion, new rows are its own.\<close>

definition same_account :: "User \<Rightarrow> User \<Rightarrow> bool" where
  "same_account u v \<longleftrightarrow> us_ID v = us_ID u \<and> us_TenantID v = us_TenantID u \<and> us_SubjectID v = us_SubjectID u \<and> us_ShortID v = us_ShortID u \<and>
     us_live v = us_live u \<and> (us_ProfileCompletedAt u \<noteq> None \<longrightarrow> us_ProfileCompletedAt v = us_ProfileCompletedAt u)"

definition users_evolve :: "string \<Rightarrow> User list \<Rightarrow> User list \<Rightarrow> bool" where
  "users_evolve tid us vs \<longleftrightarrow>
     (\<exists>h new. vs = map h us @ new \<and> (\<forall>u \<in> set us. same_account u (h u) \<and> (us_TenantID u \<noteq> tid \<longrightarrow> h u = u)) \<and> (\<forall>x \<in> set new. us_TenantID x = tid))"

definition db_ok :: "id_db \<Rightarrow> bool" where
  "db_ok s \<longleftrightarrow> ids_ok s \<and> unique_users (db_users s) \<and> (\<forall>u \<in> set (db_users s). us_SubjectID u \<noteq> [])"

definition account_effect :: "string \<Rightarrow> id_db \<Rightarrow> id_db \<Rightarrow> bool" where
  "account_effect tid s s' \<longleftrightarrow> db_ok s' \<and> users_evolve tid (db_users s) (db_users s') \<and> foreign tid s' = foreign tid s"

lemma same_account_refl [simp]: "same_account u u"
  by (simp add: same_account_def)

lemma same_account_trans: "same_account u v \<Longrightarrow> same_account v w \<Longrightarrow> same_account u w"
  unfolding same_account_def by (cases "us_ProfileCompletedAt u = None") simp_all

lemma users_evolve_map:
  "(\<And>u. u \<in> set us \<Longrightarrow> same_account u (h u)) \<Longrightarrow> (\<And>u. u \<in> set us \<Longrightarrow> us_TenantID u \<noteq> tid \<Longrightarrow> h u = u) \<Longrightarrow> users_evolve tid us (map h us)"
  unfolding users_evolve_def by (rule exI[of _ h], rule exI[of _ "[]"]) simp

lemma users_evolve_append: "us_TenantID u = tid \<Longrightarrow> users_evolve tid us (us @ [u])"
  unfolding users_evolve_def by (rule exI[of _ "\<lambda>u. u"], rule exI[of _ "[u]"]) simp

lemma users_evolve_refl [simp]: "users_evolve tid us us"
  using users_evolve_map[of us "\<lambda>u. u" tid] by simp

lemma users_evolve_trans:
  assumes "users_evolve tid us vs" "users_evolve tid vs ws"
  shows "users_evolve tid us ws"
proof -
  obtain h new where h: "vs = map h us @ new" "\<And>u. u \<in> set us \<Longrightarrow> same_account u (h u)" "\<And>u. u \<in> set us \<Longrightarrow> us_TenantID u \<noteq> tid \<Longrightarrow> h u = u"
      "\<And>x. x \<in> set new \<Longrightarrow> us_TenantID x = tid" using assms(1) unfolding users_evolve_def by blast
  obtain g more where g: "ws = map g vs @ more" "\<And>u. u \<in> set vs \<Longrightarrow> same_account u (g u)" "\<And>u. u \<in> set vs \<Longrightarrow> us_TenantID u \<noteq> tid \<Longrightarrow> g u = u"
      "\<And>x. x \<in> set more \<Longrightarrow> us_TenantID x = tid" using assms(2) unfolding users_evolve_def by blast
  have m: "h u \<in> set vs" if "u \<in> set us" for u using that h(1) by simp
  have "same_account u (g (h u))" "us_TenantID u \<noteq> tid \<longrightarrow> g (h u) = u" if u: "u \<in> set us" for u
    using same_account_trans[OF h(2)[OF u] g(2)[OF m[OF u]]] h(3)[OF u] g(3)[OF m[OF u]] by auto
  moreover have "us_TenantID x = tid" if "x \<in> set (map g new @ more)" for x
    using that g(4) h(4) g(2) h(1) by (auto simp: same_account_def)
  ultimately show ?thesis unfolding users_evolve_def g(1) h(1)
    by (intro exI[of _ "\<lambda>u. g (h u)"] exI[of _ "map g new @ more"]) simp
qed

lemma users_evolve_others: "users_evolve tid us vs \<Longrightarrow> t \<noteq> tid \<Longrightarrow> filter (\<lambda>u. us_TenantID u = t) vs = filter (\<lambda>u. us_TenantID u = t) us"
proof -
  assume "users_evolve tid us vs" and t: "t \<noteq> tid"
  then obtain h new where h: "vs = map h us @ new" "\<And>u. u \<in> set us \<Longrightarrow> same_account u (h u)" "\<And>u. u \<in> set us \<Longrightarrow> us_TenantID u \<noteq> tid \<Longrightarrow> h u = u"
      "\<And>x. x \<in> set new \<Longrightarrow> us_TenantID x = tid" unfolding users_evolve_def by blast
  have "filter (\<lambda>u. us_TenantID u = t) (map h us) = filter (\<lambda>u. us_TenantID u = t) us"
    by (rule filter_map_id) (use h(2,3) t in \<open>auto simp: same_account_def\<close>)
  moreover have "filter (\<lambda>u. us_TenantID u = t) new = []" using h(4) t by (auto simp: filter_empty_conv)
  ultimately show ?thesis using h(1) by simp
qed

lemma users_evolve_keeps: "users_evolve tid us vs \<Longrightarrow> u \<in> set us \<Longrightarrow> \<exists>v \<in> set vs. same_account u v"
  unfolding users_evolve_def by fastforce

lemma acc_ok_db: "acc_ok s \<longleftrightarrow> db_ok (ac_ids s)"
  by (simp add: acc_ok_def db_ok_def)

lemma effect_refl: "db_ok s \<Longrightarrow> account_effect tid s s"
  by (simp add: account_effect_def)

lemma effect_trans: "account_effect tid s s1 \<Longrightarrow> account_effect tid s1 s2 \<Longrightarrow> account_effect tid s s2"
  unfolding account_effect_def using users_evolve_trans by auto

lemma effect_op:
  assumes "db_ok s" "op_ok tid S s s'"
  shows "account_effect tid s s'"
proof -
  obtain h where h: "db_users s' = map h (db_users s)" "\<And>u. same_user u (h u)" "\<And>u. us_TenantID u \<noteq> tid \<Longrightarrow> h u = u"
    using assms(2) unfolding op_ok_def users_kept_def by blast
  have c: "us_ProfileCompletedAt (h u) = us_ProfileCompletedAt u" for u using h(2)[of u] unfolding same_user_def by auto
  note f = same_user_fields[OF h(2)]
  have "unique_users (db_users s')" unfolding h(1) using unique_users_map[of "db_users s" h] assms(1) f by (simp add: key_cols_def us_live_def db_ok_def)
  moreover have "\<forall>u \<in> set (db_users s'). us_SubjectID u \<noteq> []" using assms(1) f by (simp add: h(1) db_ok_def)
  moreover have "users_evolve tid (db_users s) (db_users s')" unfolding h(1)
    by (rule users_evolve_map) (use f c h(3) in \<open>simp_all add: same_account_def us_live_def\<close>)
  ultimately show ?thesis using assms(2) by (simp add: account_effect_def db_ok_def op_ok_def others_kept_def)
qed

lemma effect_rows:
  assumes "db_ok s" "s' = s\<lparr>db_users := map h (db_users s)\<rparr>" "unique_users (db_users s')"
    "\<And>u. u \<in> set (db_users s) \<Longrightarrow> same_account u (h u)" "\<And>u. u \<in> set (db_users s) \<Longrightarrow> us_TenantID u \<noteq> tid \<Longrightarrow> h u = u"
  shows "account_effect tid s s'"
proof -
  have "\<forall>u \<in> set (db_users s'). us_SubjectID u \<noteq> []" using assms(1,2,4) by (auto simp: db_ok_def same_account_def)
  moreover have "users_evolve tid (db_users s) (db_users s')" unfolding assms(2) using users_evolve_map[OF assms(4,5)] by simp
  moreover have "ids_ok s'" "foreign tid s' = foreign tid s" using assms(1,2) by (simp_all add: db_ok_def ids_ok_def foreign_def)
  ultimately show ?thesis using assms(3) by (simp add: account_effect_def db_ok_def)
qed

lemma update_user_effect:
  assumes "db_ok s" "unique_users (db_users (update_user tid sid f s))"
    "\<And>u. u \<in> set (db_users s) \<Longrightarrow> us_live u \<Longrightarrow> us_TenantID u = tid \<Longrightarrow> us_SubjectID u = sid \<Longrightarrow> same_account u (f u)"
  shows "account_effect tid s (update_user tid sid f s)"
  by (rule effect_rows[OF assms(1) update_user_def[unfolded atomize_eq] assms(2)]) (use assms(3) in auto)

lemma write_profile_effect:
  assumes "db_ok s"
    "\<And>u. u \<in> set (db_users s) \<Longrightarrow> us_live u \<Longrightarrow> us_TenantID u = tid \<Longrightarrow> us_SubjectID u = sid \<Longrightarrow> same_account u (f u)"
  shows "account_effect tid s (snd (write_profile ok tid sid f s))"
  using update_user_effect[OF assms(1) _ assms(2)] effect_refl[OF assms(1)] by (simp add: write_profile_def Let_def split: option.split)

lemma only_row:
  assumes "db_ok s" "user_row tid sid s = Some u" "v \<in> set (db_users s)" "us_SubjectID v = sid"
  shows "v = u"
proof (rule unique_users_subject)
  show "unique_users (db_users s)" using assms(1) by (simp add: db_ok_def)
  show "u \<in> set (db_users s)" "us_SubjectID v = us_SubjectID u" using user_row_SomeD[OF assms(2)] assms(4) by simp_all
qed (rule assms(3))

lemma CompleteRegistration_effect:
  assumes "db_ok s"
  shows "account_effect tid s (snd (CompleteRegistration ok now tid sid username displayName s))"
proof -
  let ?sid = "trim_space sid"
  have "account_effect tid s (snd (write_profile ok tid ?sid (complete_user now username (trim_space displayName)) s))"
    if u: "user_row tid ?sid s = Some u" "us_ProfileCompletedAt u = None" for u
  proof (rule write_profile_effect[OF assms])
    fix v assume "v \<in> set (db_users s)" "us_SubjectID v = ?sid"
    then have "v = u" by (rule only_row[OF assms u(1)])
    then show "same_account v (complete_user now username (trim_space displayName) v)"
      using u(2) by (simp add: same_account_def complete_user_def us_live_def)
  qed
  then show ?thesis using effect_refl[OF assms] by (simp add: CompleteRegistration_def Let_def split: option.split)
qed

lemma UpdateProfile_effect:
  assumes "db_ok s"
  shows "account_effect tid s (snd (UpdateProfile ok now tid sid displayName s))"
proof -
  have "account_effect tid s (snd (write_profile ok tid (trim_space sid) (\<lambda>u. u\<lparr>us_DisplayName := stringPtr (trim_space displayName), us_UpdatedAt := now\<rparr>) s))"
    by (rule write_profile_effect[OF assms]) (simp add: same_account_def us_live_def)
  then show ?thesis using effect_refl[OF assms] by (simp add: UpdateProfile_def Let_def split: option.split)
qed

lemma AdminUpdateProfile_effect:
  assumes "db_ok s"
  shows "account_effect tid s (snd (AdminUpdateProfile ok now tid sid username displayName s))"
proof -
  have "account_effect tid s (snd (write_profile ok tid (trim_space sid) (admin_update_user now username displayName) s))"
    by (rule write_profile_effect[OF assms]) (simp add: same_account_def us_live_def admin_update_user_def)
  then show ?thesis using effect_refl[OF assms] by (auto simp: AdminUpdateProfile_def Let_def split: option.split)
qed

lemma SetUserStatus_effect:
  assumes "db_ok s"
  shows "account_effect tid s (snd (SetUserStatus ok now tid sid status operatorID s))"
proof -
  let ?f = "\<lambda>v. v\<lparr>us_Status := status, us_UpdatedAt := now\<rparr>"
  have "unique_users (db_users (update_user tid sid ?f s))"
    using unique_users_map[of "db_users s" "\<lambda>u. if us_live u \<and> us_TenantID u = tid \<and> us_SubjectID u = sid then ?f u else u"] assms
    by (simp add: update_user_def key_cols_def us_live_def db_ok_def)
  then have "account_effect tid s (update_user tid sid ?f s)"
    by (rule update_user_effect[OF assms]) (simp add: same_account_def us_live_def)
  then show ?thesis using effect_refl[OF assms] by (simp add: SetUserStatus_def split: option.split)
qed

lemma identity_effects:
  assumes "db_ok s"
  shows "account_effect tid s (snd (BindIdentityToUser ok now tid sid claims force s))"
    "account_effect tid s (snd (TransferIdentityToUser ok now tid sid key s))"
    "account_effect tid s (snd (UnbindIdentityByProvider ok now tid sid prov s))"
proof -
  have io: "ids_ok s" using assms by (simp add: db_ok_def)
  show "account_effect tid s (snd (BindIdentityToUser ok now tid sid claims force s))"
    using Bind_effect[OF io prod.collapse[symmetric]] effect_refl[OF assms] effect_op[OF assms] by metis
  show "account_effect tid s (snd (TransferIdentityToUser ok now tid sid key s))"
    using Transfer_effect[OF io prod.collapse[symmetric]] effect_refl[OF assms] effect_op[OF assms] by metis
  show "account_effect tid s (snd (UnbindIdentityByProvider ok now tid sid prov s))"
    using Unbind_effect[OF io prod.collapse[symmetric]] effect_refl[OF assms] effect_op[OF assms] by metis
qed

lemma login_found_effect:
  assumes "db_ok (ac_ids s)" "found_row tid u s"
  shows "account_effect tid (ac_ids s) (ac_ids (snd (login_found ok env configs tid c u s)))"
proof -
  have uq: "unique_users (db_users (ac_ids s))" and ne: "us_SubjectID u \<noteq> []"
    and r: "u \<in> set (db_users (ac_ids s))" "us_live u" "us_TenantID u = tid"
    using assms by (simp_all add: db_ok_def found_row_def)
  show ?thesis
  proof (cases "should_update (ae_now env) c u")
    case True
    have c: "same_account u (written env c u)" by (simp add: same_account_def) (simp add: written_def login_update_def)
    have "account_effect tid (ac_ids s) (save_user (written env c u) (ac_ids s))"
      if "unique_users (db_users (save_user (written env c u) (ac_ids s)))"
    proof (rule effect_rows[OF assms(1) _ that])
      show "save_user (written env c u) (ac_ids s) = (ac_ids s)\<lparr>db_users := map (\<lambda>v. if v = u then written env c u else v) (db_users (ac_ids s))\<rparr>"
        using save_user_rows[OF uq r(1,2), of "written env c u"] by (simp add: save_user_def)
    qed (use c r(3) in auto)
    then show ?thesis using effect_refl[OF assms(1)] by (simp add: login_found_write[OF ne True])
  next
    case False
    then show ?thesis using effect_refl[OF assms(1)] by (simp add: login_found_read[OF ne False])
  qed
qed

lemma login_new_effect:
  assumes "db_ok (ac_ids s)"
  shows "account_effect tid (ac_ids s) (ac_ids (snd (login_new ok env configs tid c s)))"
proof -
  let ?u = "new_user env tid c (ac_useq s)"
  let ?ids = "(ac_ids s)\<lparr>db_users := db_users (ac_ids s) @ [?u]\<rparr>"
  obtain e ids' where B: "BindIdentityToUser (\<lambda>n. ok (100 + n)) (ae_now env) tid (us_SubjectID ?u) (Some c) False ?ids = (e, ids')" by fastforce
  show ?thesis
  proof (cases "\<not> ok 23 \<or> \<not> unique_users (db_users ?ids)")
    case True
    then have "ac_ids (snd (login_new ok env configs tid c s)) = ac_ids s" unfolding login_new_def Let_def by (auto split: option.split)
    then show ?thesis using effect_refl[OF assms] by simp
  next
    case False
    then have "ac_ids (snd (login_new ok env configs tid c s)) = ids'"
      using B unfolding login_new_def Let_def by (simp split: sum.split)
    moreover have a: "account_effect tid (ac_ids s) ?ids"
      using assms False users_evolve_append[of ?u tid] by (simp add: account_effect_def db_ok_def ids_ok_def foreign_def)
    moreover have "account_effect tid ?ids ids'"
      using identity_effects(1)[of ?ids tid] a B unfolding account_effect_def[of tid "ac_ids s"] by (metis snd_conv)
    ultimately show ?thesis using effect_trans by simp
  qed
qed

lemma GetOrCreateUser_effect:
  assumes "db_ok (ac_ids s)"
  shows "account_effect tid (ac_ids s) (ac_ids (snd (GetOrCreateUser ok env configs tid claims s)))"
  using effect_refl[OF assms] login_new_effect[OF assms] login_found_effect[OF assms find_account_row]
  by (simp add: GetOrCreateUser_def Let_def split: option.split sum.split)

lemma Provision_effect:
  assumes "db_ok (ac_ids s)"
  shows "account_effect tid (ac_ids s) (ac_ids (snd (ProvisionByEnterprise ok env emp2 configs tid p s)))"
proof -
  have "ac_ids (snd (ProvisionByEnterprise ok env emp2 configs tid p s)) = ac_ids s \<or>
      ac_ids (snd (ProvisionByEnterprise ok env emp2 configs tid p s)) = ac_ids (snd (GetOrCreateUser ok env configs tid (Some (synthetic_claims p)) s))"
    unfolding ProvisionByEnterprise_def by (simp split: option.split sum.split prod.split)
  then show ?thesis using effect_refl[OF assms] GetOrCreateUser_effect[OF assms] by metis
qed

lemmas account_effects =
  GetOrCreateUser_effect Provision_effect CompleteRegistration_effect UpdateProfile_effect AdminUpdateProfile_effect SetUserStatus_effect identity_effects

lemma account_step_effect: "acc_ok s \<Longrightarrow> account_effect (op_tenant a) (ac_ids s) (ac_ids (account_step a s))"
  by (cases a) (simp_all add: acc_ok_db on_ids_def account_effects)

interpretation accounts: tenanted account_step acc_ok op_tenant tenant_view
proof
  fix s a assume "acc_ok s"
  then show "acc_ok (account_step a s)" using account_step_effect[of s a] by (simp add: account_effect_def acc_ok_db)
next
  fix s a t assume s: "acc_ok s" and t: "op_tenant a \<noteq> t"
  note e = account_step_effect[OF s, of a]
  have "filter (\<lambda>i. ai_TenantID i = t) xs = filter (\<lambda>i. ai_TenantID i = t) (filter (\<lambda>i. ai_TenantID i \<noteq> op_tenant a) xs)" for xs
    using t by (induction xs) auto
  then have "filter (\<lambda>i. ai_TenantID i = t) (db_identities (ac_ids (account_step a s))) = filter (\<lambda>i. ai_TenantID i = t) (db_identities (ac_ids s))"
    using e unfolding account_effect_def foreign_def by metis
  then show "tenant_view t (account_step a s) = tenant_view t s"
    using users_evolve_others[of "op_tenant a" _ _ t] e t by (simp add: tenant_view_def account_effect_def)
qed

section \<open>Short identifiers\<close>

lemma base62_length [simp]: "length (base62 k n) = k"
  by (induction k arbitrary: n) simp_all

lemma short_alphabet_facts: "distinct short_alphabet" "length short_alphabet = 62" "list_all alnum_char short_alphabet"
  by code_simp+

lemma digit_less: "unat (n mod 62 :: 64 word) < 62"
  by (simp add: unat_mod)

lemma div_mod_eq: "a div k = b div k \<Longrightarrow> a mod k = b mod k \<Longrightarrow> a = (b :: nat)"
  by (metis div_mult_mod_eq)

lemma base62_inj: "unat m < 62 ^ k \<Longrightarrow> unat n < 62 ^ k \<Longrightarrow> base62 k m = base62 k n \<Longrightarrow> m = n"
proof (induction k arbitrary: m n)
  case 0
  then show ?case by (simp add: word_unat_eq_iff)
next
  case (Suc k)
  have "base62 k (m div 62) = base62 k (n div 62)" and d: "unat (m mod 62) = unat (n mod 62)"
    using Suc.prems(3) short_alphabet_facts digit_less[of m] digit_less[of n] by (simp_all add: nth_eq_iff_index_eq)
  moreover have "unat (m div 62) < 62 ^ k" "unat (n div 62) < 62 ^ k" using Suc.prems(1,2) by (simp_all add: unat_div less_mult_imp_div_less mult.commute)
  ultimately have "m div 62 = n div 62" using Suc.IH by simp
  then have "unat (m div 62) = unat (n div 62)" by (rule arg_cong)
  then have "unat m div 62 = unat n div 62" by (simp add: unat_div)
  moreover have "unat m mod 62 = unat n mod 62" using d by (simp add: unat_mod)
  ultimately have "unat m = unat n" by (rule div_mod_eq)
  then show ?case by (simp add: word_unat_eq_iff)
qed

lemma base62_chars: "list_all alnum_char (base62 k n)"
proof (induction k arbitrary: n)
  case (Suc k)
  have "alnum_char (short_alphabet ! unat (n mod 62))" using short_alphabet_facts digit_less[of n] by (simp add: list_all_length)
  then show ?case using Suc by simp
qed simp

definition short_hash :: "(string \<Rightarrow> 8 word list) \<Rightarrow> string \<Rightarrow> 64 word" where
  "short_hash sha256 sid = hash_prefix (sha256 (if sid = [] then ''anonymous'' else sid)) mod shortIDMod"

lemma short_hash_less: "unat (short_hash sha256 sid) < 62 ^ 8"
  unfolding short_hash_def shortIDMod_def unat_mod by simp

lemma BuildShortID_hash: "BuildShortID sha256 sid = ''u-'' @ base62 8 (short_hash sha256 sid)"
  by (simp add: BuildShortID_def short_hash_def)

section \<open>Properties\<close>

text \<open>
  C28.  A short identifier has ten characters, is a name by the pattern of user names, and two subjects share one exactly when the first
  48 bits of their hashes agree modulo \<open>62 ^ 8\<close>: the encoding itself merges nothing.
\<close>

theorem BuildShortID_shape:
  "length (BuildShortID sha256 a) = 10 \<and> usernamePattern (BuildShortID sha256 a) \<and>
   (BuildShortID sha256 a = BuildShortID sha256 b) = (short_hash sha256 a = short_hash sha256 b)"
proof (intro conjI)
  show "length (BuildShortID sha256 a) = 10" by (simp add: BuildShortID_hash)
  have "list_all username_char (base62 8 (short_hash sha256 a))" by (rule list.pred_mono_strong[OF base62_chars]) (simp add: username_char_def)
  moreover have "alnum_char (CHR ''u'')" "username_char (CHR ''-'')" by code_simp+
  ultimately show "usernamePattern (BuildShortID sha256 a)" by (simp add: BuildShortID_hash usernamePattern_def)
  show "(BuildShortID sha256 a = BuildShortID sha256 b) = (short_hash sha256 a = short_hash sha256 b)"
    using base62_inj[OF short_hash_less short_hash_less] by (auto simp: BuildShortID_hash)
qed

definition account_env_example :: account_env where
  "account_env_example = \<lparr>ae_uuid = ''7'', ae_sha256 = (\<lambda>_. []), ae_now = 5, ae_emp = env_example, ae_marshal = (\<lambda>_. None), ae_eventID = [], ae_event_ok = False\<rparr>"

definition accounts_example :: account_db where
  "accounts_example = \<lparr>ac_ids = two_identities, ac_useq = 3, ac_emp = db_empty, ac_outbox = None\<rparr>"

lemma accounts_example_ok: "acc_ok accounts_example"
proof -
  have "ids_ok two_identities" using id_reach_inv[OF two_identities_reach] by (simp add: id_inv_def)
  moreover have "unique_users (db_users two_identities)" "\<forall>u \<in> set (db_users two_identities). us_SubjectID u \<noteq> []" by code_simp+
  ultimately show ?thesis by (simp add: acc_ok_def accounts_example_def)
qed

text \<open>What a login looks at is in the view of its tenant.\<close>

lemma find_filter_weaker: "(\<And>x. P x \<Longrightarrow> Q x) \<Longrightarrow> find P xs = find P (filter Q xs)"
  by (induction xs) auto

lemma view_settled:
  assumes "tenant_view tid s' = tenant_view tid s"
  shows "settled tid c sid s' = settled tid c sid s"
proof -
  have v: "filter (\<lambda>u. us_TenantID u = tid) (db_users (ac_ids s')) = filter (\<lambda>u. us_TenantID u = tid) (db_users (ac_ids s))"
    "filter (\<lambda>i. ai_TenantID i = tid) (db_identities (ac_ids s')) = filter (\<lambda>i. ai_TenantID i = tid) (db_identities (ac_ids s))"
    using assms by (simp_all add: tenant_view_def)
  have row: "user_row tid x q = find (\<lambda>u. us_live u \<and> us_TenantID u = tid \<and> us_SubjectID u = x) (filter (\<lambda>u. us_TenantID u = tid) (db_users q))"
    for x q unfolding user_row_def by (rule find_filter_weaker) simp
  have ident: "live_identity tid k q = find (\<lambda>i. ai_live i \<and> ai_TenantID i = tid \<and> ai_ExternalKey i = k) (filter (\<lambda>i. ai_TenantID i = tid) (db_identities q))"
    for k q unfolding live_identity_def by (rule find_filter_weaker) simp
  have "live_identity tid k (ac_ids s') = live_identity tid k (ac_ids s)" for k by (simp only: ident v)
  moreover have "user_row tid x (ac_ids s') = user_row tid x (ac_ids s)" for x by (simp only: row v)
  ultimately have "key_owner tid (ac_ids s') = key_owner tid (ac_ids s)" by (simp add: fun_eq_iff key_owner_def split: option.split)
  moreover have "found_row tid u s' = found_row tid u s" for u using arg_cong[OF v(1), of set] by (auto simp: found_row_def)
  ultimately show ?thesis by (simp add: settled_def)
qed

text \<open>
  C25.  A login that succeeded is repeatable: when its lookups were answered, the next login of the tenant with the same keys, whatever else its claims say and whatever
  sequence of operations other tenants have run in between, finds the same account and does not create a second one.  Operations of the
  same tenant in between, such as the transfer of an identity, may change the account that the keys lead to and are not covered.
\<close>

theorem login_roundtrip:
  assumes "acc_ok s" "\<forall>n < 22. ok n" "GetOrCreateUser ok env configs tid (Some c) s = (Inr (u, isNew), s1)"
    "\<forall>a \<in> set as. op_tenant a \<noteq> tid" "s' = fold account_step as s1"
    "buildExternalKey c2 = buildExternalKey c" "legacyExternalKey c2 = legacyExternalKey c" "\<forall>n \<le> 22. ok2 n"
  shows "\<exists>u2 s2. GetOrCreateUser ok2 env2 configs2 tid (Some c2) s' = (Inr (u2, False), s2) \<and> us_SubjectID u2 = us_SubjectID u \<and> us_TenantID u2 = tid"
proof -
  note l = login_settles[OF assms(1,2,3)]
  have good: "acc_ok s'" using accounts.run_good[of s1 as] l assms(5) by simp
  have "buildExternalKey c2 \<noteq> []" using identified_key l assms(6) by simp
  then have i: "identified (normalizeJWTClaims c2)" by (auto simp: identified_def buildExternalKey_def Let_def split: if_splits)
  have "tenant_view tid s' = tenant_view tid s1" using accounts.run_view[of s1 as tid] l assms(4,5) by simp
  then have "settled tid (normalizeJWTClaims c) (us_SubjectID u) s'" using l view_settled[of tid s' s1] by simp
  moreover have "lookup_keys c2 = lookup_keys c" using assms(6,7) by (simp add: lookup_keys_def)
  ultimately have "settled tid (normalizeJWTClaims c2) (us_SubjectID u) s'" using assms(6) by (simp add: settled_def)
  then show ?thesis
    using settled_login[OF good i _ assms(8), of tid "us_SubjectID u" env2 configs2] i
    by (auto simp: GetOrCreateUser_def Let_def identified_def)
qed

theorem login_roundtrip_witness:
  "\<exists>u2 s2. GetOrCreateUser all_ok account_env_example [] ''default'' (Some (claims_example ''github'' ''new''))
      (account_step (OpRegister all_ok 6 ''acme'' ''u1'' ''alice'' [])
        (snd (GetOrCreateUser all_ok account_env_example [] ''default'' (Some (claims_example ''github'' ''new'')) accounts_example))) = (Inr (u2, False), s2) \<and>
    us_SubjectID u2 = ''usr_7''"
proof -
  let ?r = "GetOrCreateUser all_ok account_env_example [] ''default'' (Some (claims_example ''github'' ''new'')) accounts_example"
  let ?as = "[OpRegister all_ok 6 ''acme'' ''u1'' ''alice'' []]"
  have "case fst ?r of Inl _ \<Rightarrow> False | Inr (u, b) \<Rightarrow> us_SubjectID u = ''usr_7'' \<and> b" by code_simp
  then obtain u s1 where r: "?r = (Inr (u, True), s1)" and u: "us_SubjectID u = ''usr_7''" by (cases ?r) (auto split: sum.splits)
  have ok: "\<forall>n < 22. all_ok n" "\<forall>n \<le> 22. all_ok n" by (simp_all add: all_ok_def)
  have others: "\<forall>a \<in> set ?as. op_tenant a \<noteq> ''default''" by simp
  from login_roundtrip[OF accounts_example_ok ok(1) r others refl refl refl ok(2), of account_env_example "[]"]
  obtain u2 s2 where "GetOrCreateUser all_ok account_env_example [] ''default'' (Some (claims_example ''github'' ''new'')) (fold account_step ?as s1) =
      (Inr (u2, False), s2)" "us_SubjectID u2 = us_SubjectID u" by blast
  moreover have "fold account_step ?as s1 = account_step (OpRegister all_ok 6 ''acme'' ''u1'' ''alice'' []) (snd ?r)" by (simp only: r fold_simps snd_conv)
  ultimately show ?thesis using u by metis
qed

text \<open>
  C26.  Tenants are isolated in the account tables: no sequence of logins, provisionings, registrations, profile and status changes, bindings,
  transfers and removals by other tenants, with any statements failing, changes a user or an identity of a tenant.
\<close>

theorem tenants_isolated:
  assumes "acc_ok s" "\<forall>a \<in> set as. op_tenant a \<noteq> t"
  shows "tenant_view t (fold account_step as s) = tenant_view t s"
  by (rule accounts.run_view[OF assms])

theorem tenants_isolated_witness:
  "tenant_view ''default'' (fold account_step
      [OpLogin all_ok account_env_example [] ''acme'' (Some (claims_example ''github'' ''g'')), OpRegister all_ok 6 ''acme'' ''u1'' ''alice'' [],
       OpUnbind all_ok 7 ''acme'' ''u1'' ''github''] accounts_example) = tenant_view ''default'' accounts_example"
  by (rule tenants_isolated[OF accounts_example_ok]) simp

text \<open>
  C27.  Registration is final: when it succeeds the user has the validated name, no other user of the tenant has that name, and after any
  further operations of any tenants every other attempt to register the user is refused and changes nothing.
\<close>

theorem registration_final:
  assumes "acc_ok s" "CompleteRegistration ok now tid sid username displayName (ac_ids s) = (Inr u, ids)"
  shows "ValidateUsername username = None \<and> us_Username u = username \<and>
    (\<forall>v \<in> set (db_users ids). us_TenantID v = tid \<and> us_Username v = username \<longrightarrow> v = u) \<and>
    (\<exists>e. CompleteRegistration ok2 now2 tid sid username2 displayName2 (ac_ids (fold account_step as (s\<lparr>ac_ids := ids\<rparr>))) =
       (Inl e, ac_ids (fold account_step as (s\<lparr>ac_ids := ids\<rparr>))))"
proof -
  let ?f = "complete_user now username (trim_space displayName)" and ?sid = "trim_space sid"
  have v: "ValidateUsername username = None" and w: "write_profile ok tid ?sid ?f (ac_ids s) = (Inr u, ids)"
    using assms(2) by (auto simp: CompleteRegistration_def Let_def split: if_splits option.splits)
  have ids: "ids = update_user tid ?sid ?f (ac_ids s)" "unique_users (db_users ids)" "user_row tid ?sid ids = Some u"
    using w by (auto simp: write_profile_def Let_def split: if_splits option.splits)
  have ok: "acc_ok (s\<lparr>ac_ids := ids\<rparr>)"
    using CompleteRegistration_effect[of "ac_ids s" tid ok now sid username displayName] assms by (simp add: acc_ok_db account_effect_def)
  note u = user_row_SomeD[OF ids(3)]
  have done_row: "us_Username u = username \<and> us_ProfileCompletedAt u \<noteq> None"
  proof -
    let ?P = "\<lambda>x. us_live x \<and> us_TenantID x = tid \<and> us_SubjectID x = ?sid"
    have "u \<in> ?f ` (set (db_users (ac_ids s)) \<inter> {x. ?P x})" using u unfolding ids(1) update_user_def by simp blast
    then obtain x where "u = ?f x" by (rule imageE)
    then show ?thesis by (simp add: complete_user_def)
  qed
  have unq: "v = u" if "v \<in> set (db_users ids)" "us_TenantID v = tid \<and> us_Username v = username" for v
    using ids(2) that u done_row by (auto simp: unique_users_def distinct_map inj_on_def)
  define P where "P s \<longleftrightarrow> (\<exists>v \<in> set (db_users (ac_ids s)). us_live v \<and> us_TenantID v = tid \<and> us_SubjectID v = ?sid \<and> us_ProfileCompletedAt v \<noteq> None)"
    for s :: account_db
  have "P (fold account_step as (s\<lparr>ac_ids := ids\<rparr>))"
  proof (rule accounts.run_stable[OF ok])
    show "P (s\<lparr>ac_ids := ids\<rparr>)" using u done_row by (auto simp: P_def)
    fix a s assume s: "acc_ok s" and "P s"
    then obtain v where v: "v \<in> set (db_users (ac_ids s))" "us_live v" "us_TenantID v = tid" "us_SubjectID v = ?sid" "us_ProfileCompletedAt v \<noteq> None"
      unfolding P_def by blast
    then obtain x where "x \<in> set (db_users (ac_ids (account_step a s)))" "same_account v x"
      using account_step_effect[OF s, of a] users_evolve_keeps[OF _ v(1)] unfolding account_effect_def by blast
    then show "P (account_step a s)" unfolding P_def using v(2,3,4,5) by (intro bexI[of _ x]) (auto simp: same_account_def)
  qed
  then obtain x where x: "x \<in> set (db_users (ac_ids (fold account_step as (s\<lparr>ac_ids := ids\<rparr>))))" "us_live x" "us_TenantID x = tid" "us_SubjectID x = ?sid"
      "us_ProfileCompletedAt x \<noteq> None" unfolding P_def by blast
  have "user_row tid ?sid (ac_ids (fold account_step as (s\<lparr>ac_ids := ids\<rparr>))) = Some x"
    using user_row_of[OF _ x(1,2)] accounts.run_good[OF ok, of as] x(3,4) by (simp add: acc_ok_def)
  then have "\<exists>e. CompleteRegistration ok2 now2 tid sid username2 displayName2 (ac_ids (fold account_step as (s\<lparr>ac_ids := ids\<rparr>))) =
       (Inl e, ac_ids (fold account_step as (s\<lparr>ac_ids := ids\<rparr>)))"
    using x(5) by (auto simp: CompleteRegistration_def Let_def split: option.split)
  then show ?thesis using v done_row unq by blast
qed

theorem registration_final_witness:
  "\<exists>e. fst (CompleteRegistration all_ok 9 ''default'' ''u1'' ''bob'' []
     (ac_ids (fold account_step [OpAdminProfile all_ok 8 ''default'' ''u1'' ''carol'' None]
       (accounts_example\<lparr>ac_ids := snd (CompleteRegistration all_ok 6 ''default'' ''u1'' ''alice'' [] two_identities)\<rparr>)))) = Inl e"
proof -
  let ?r = "CompleteRegistration all_ok 6 ''default'' ''u1'' ''alice'' [] two_identities"
  have "case fst ?r of Inl _ \<Rightarrow> False | Inr _ \<Rightarrow> True" by code_simp
  then obtain u ids where r: "?r = (Inr u, ids)" by (cases ?r) (auto split: sum.splits)
  then have "CompleteRegistration all_ok 6 ''default'' ''u1'' ''alice'' [] (ac_ids accounts_example) = (Inr u, ids)" by (simp add: accounts_example_def)
  from registration_final[OF accounts_example_ok this, of all_ok 9 "''bob''" "[]" "[OpAdminProfile all_ok 8 ''default'' ''u1'' ''carol'' None]"]
  show ?thesis unfolding r by auto
qed

section \<open>Consequences\<close>

definition login_example :: "(nat \<Rightarrow> bool) \<Rightarrow> JWTClaims \<Rightarrow> account_db \<Rightarrow> (account_error + User \<times> bool) \<times> account_db" where
  "login_example ok c s = GetOrCreateUser ok account_env_example [] ''default'' (Some c) s"

definition created :: account_db where
  "created = snd (login_example all_ok (claims_example ''github'' ''new'') accounts_example)"

text \<open>
  When the binding of a new user fails, the login fails although the user was created, and the next login finds the user by its cached key
  and binds nothing: the identity stays unbound.
\<close>

lemma failed_bind_not_retried:
  "let first_login = login_example (\<lambda>n. n \<noteq> 101) (claims_example ''github'' ''new'') accounts_example;
       second_login = login_example all_ok (claims_example ''github'' ''new'') (snd first_login)
   in fst first_login = Inl (BindFailed IdDBError) \<and> map_sum (\<lambda>e. e) (\<lambda>(u, b). (us_SubjectID u, b)) (fst second_login) = Inr (''usr_7'', False) \<and>
      ids_of ''default'' ''usr_7'' (ac_ids (snd second_login)) = []"
  by code_simp

text \<open>The cached key of a user outlives the removal of its identity: the removed identity still logs in.\<close>

lemma removed_identity_logs_in:
  "let ids1 = bind_example ''usr_7'' ''phone'' ''p7'' (ac_ids created);
       removed = UnbindIdentityByProvider all_ok 6 ''default'' ''usr_7'' ''github'' ids1
   in fst removed = None \<and> live_identity ''default'' ''casdoor:github:new'' (snd removed) = None \<and>
      map_sum (\<lambda>e. e) (\<lambda>(u, b). (us_SubjectID u, b)) (fst (login_example all_ok (claims_example ''github'' ''new'') (created\<lparr>ac_ids := snd removed\<rparr>))) =
        Inr (''usr_7'', False)"
  by code_simp

text \<open>The name in the claims is the user name of a new account: a name that another account of the tenant has makes every login fail.\<close>

lemma name_clash_blocks_login:
  "fst (login_example all_ok (claims_example ''github'' ''u1'') accounts_example) = Inl CreateFailed"
  by code_simp

text \<open>A user name is validated without the space around it and stored with it, so two users can have the same visible name.\<close>

lemma registered_with_space:
  "let named = (\<lambda>sid name ids. snd (CompleteRegistration all_ok 6 ''default'' sid name [] ids))
   in map us_Username (db_users (named ''u2'' '' alice'' (named ''u1'' ''alice'' two_identities))) = [''alice'', '' alice'']"
  by code_simp

text \<open>Completing the registration without a display name keeps the old one.\<close>

lemma empty_display_name_kept: "us_DisplayName (complete_user now username [] u) = us_DisplayName u"
  by (simp add: complete_user_def)

text \<open>The display name that an administrator sets is stored without the space around it.\<close>

lemma admin_display_name_trimmed: "us_DisplayName (admin_update_user now username (Some d) u) = stringPtr (trim_space d)"
  by (simp add: admin_update_user_def)

text \<open>Provisioning answers with the user of the employment row, whatever tenant the user is in.\<close>

lemma provision_foreign_user:
  "map_sum (\<lambda>e. e) (\<lambda>(u, b). (us_TenantID u, us_SubjectID u)) (fst (ProvisionByEnterprise all_ok account_env_example env_example [] ''acme''
     \<lparr>pp_EnterpriseProvider = ''idtrust'', pp_EnterpriseUID = ''42'', pp_Username = [], pp_DisplayName = [], pp_Email = [], pp_Phone = [],
      pp_EmployeeNumber = [], pp_ExternalClaims = []\<rparr>
     (accounts_example\<lparr>ac_emp := \<lparr>em_rows = [Employment.row_example 1 ''acme'' ''u1'' (Some ''42'')], em_seq = 2\<rparr>\<rparr>))) = Inr (''default'', ''u1'')"
  by code_simp

end
