(* ===== verification/Dept_Sync.thy ===== *)
theory Dept_Sync
  imports Prelude "HOL-Library.Word"
begin

text \<open>
  The client of the department service (\<^verbatim>\<open>server/internal/deptsync/client.go\<close>): requests, the unwrapping of answers, the cache with its
  time to live, and the searches in the department tree.

  The transport and \<^verbatim>\<open>encoding/json\<close> are the record \<open>dept_env\<close>: what the service answers to a request (\<open>None\<close> when it fails or its body
  cannot be read) and how a text decodes (\<open>None\<close> when it does not).  One argument \<open>now\<close> is the clock of a call.  A type assertion on a cached
  value that would panic is the error \<open>TypeAssertion\<close>; it never occurs.
\<close>

section \<open>Data\<close>

datatype Dept =
  Dept (dt_DeptID: string) (dt_DeptName: string) (dt_DeptPath: string) (dt_ParentDeptID: string) (dt_DeptLevel: int)
    (dt_ChildDeptCount: int) (dt_LeaderID: string) (dt_OrderNum: int) (dt_Children: "Dept list")

datatype deptNode =
  deptNode (dn_DeptID: string) (dn_DeptName: string) (dn_DeptPath: string) (dn_ParentDeptID: string) (dn_DeptLevel: int)
    (dn_OrderNum: int) (dn_LeaderID: string) (dn_ChildDeptCount: int) (dn_Children: "deptNode list")

fun toDept :: "deptNode \<Rightarrow> Dept" where
  "toDept (deptNode did name path parent level order leader children cs) =
     Dept did name path parent level children leader order (map toDept cs)"

record DeptUser =
  du_UserID :: string
  du_Username :: string
  du_UniversalID :: string
  du_DeptID :: string
  du_DeptName :: string
  du_Position :: string
  du_IsMain :: int
  du_Status :: int

datatype cached = CachedDepts "Dept list" | CachedUsers "DeptUser list"

record cacheEntry =
  ce_value :: cached
  ce_expiresAt :: int

record Client =
  cl_baseURL :: string
  cl_apiKey :: string
  cl_pathPrefix :: string
  cl_authHeader :: string
  cl_timeout :: int
  cl_cacheTTL :: int
  cl_cache :: "string \<rightharpoonup> cacheEntry"

record DeptSyncConfig =
  cf_BaseURL :: string
  cf_APIKey :: string
  cf_PathPrefix :: string
  cf_AuthHeader :: string
  cf_TimeoutSec :: int
  cf_CacheTTLSec :: int

datatype dept_error =
    ErrNotConfigured
  | RequestFailed
  | UpstreamStatus nat
  | DecodeEnvelope
  | UpstreamFailure string string
  | DecodeDepartments
  | DecodeUsers
  | DepartmentNotFound string
  | TypeAssertion

record envelope =
  ev_Code :: string
  ev_Success :: "bool option"
  ev_Message :: string
  ev_Data :: string

record listWrapper =
  lw_List :: string
  lw_Total :: int

record dept_env =
  de_Do :: "string \<Rightarrow> string \<Rightarrow> string \<Rightarrow> (nat \<times> string) option"
  de_envelope :: "string \<Rightarrow> envelope option"
  de_listWrapper :: "string \<Rightarrow> listWrapper option"
  de_deptNodes :: "string \<Rightarrow> deptNode list option"
  de_users :: "string \<Rightarrow> DeptUser list option"

section \<open>Construction\<close>

definition second_ns :: int where "second_ns = 1000000000"

definition defaultPathPrefix :: string where "defaultPathPrefix = ''/costrict-dept-info/api/v1''"

definition defaultAuthHeader :: string where "defaultAuthHeader = ''X-Query-Key''"

definition trim_right_slash :: "string \<Rightarrow> string" where
  "trim_right_slash s = rev (dropWhile (\<lambda>c. c = CHR ''/'') (rev s))"

definition trim_slash :: "string \<Rightarrow> string" where
  "trim_slash s = trim_right_slash (dropWhile (\<lambda>c. c = CHR ''/'') s)"

text \<open>\<^verbatim>\<open>time.Duration(n) * time.Second\<close>, which wraps at 64 bits.\<close>

definition seconds :: "int \<Rightarrow> int" where
  "seconds n = sint (word_of_int n * word_of_int second_ns :: 64 word)"

definition New :: "DeptSyncConfig \<Rightarrow> Client" where
  "New cfg =
     (let timeout = seconds (cf_TimeoutSec cfg); ttl = seconds (cf_CacheTTLSec cfg);
          prefix = trim_slash (trim_space (cf_PathPrefix cfg)); header = trim_space (cf_AuthHeader cfg)
      in \<lparr>cl_baseURL = trim_right_slash (trim_space (cf_BaseURL cfg)), cl_apiKey = trim_space (cf_APIKey cfg),
          cl_pathPrefix = (if prefix = [] then defaultPathPrefix else CHR ''/'' # prefix),
          cl_authHeader = (if header = [] then defaultAuthHeader else header),
          cl_timeout = (if timeout \<le> 0 then 10 * second_ns else timeout), cl_cacheTTL = (if ttl \<le> 0 then 60 * second_ns else ttl),
          cl_cache = Map.empty\<rparr>)"

definition Configured :: "Client \<Rightarrow> bool" where
  "Configured c \<longleftrightarrow> cl_baseURL c \<noteq> [] \<and> cl_apiKey c \<noteq> []"

section \<open>Requests\<close>

definition hex_upper :: "nat \<Rightarrow> char" where
  "hex_upper n = (if n < 10 then char_of (48 + n) else char_of (55 + n))"

definition path_safe :: "char \<Rightarrow> bool" where
  "path_safe c \<longleftrightarrow>
     (let n = of_char c :: nat in 48 \<le> n \<and> n \<le> 57 \<or> 65 \<le> n \<and> n \<le> 90 \<or> 97 \<le> n \<and> n \<le> 122) \<or> c \<in> set ''-_.~$&+=:@''"

text \<open>\<^verbatim>\<open>url.PathEscape\<close>.\<close>

definition PathEscape :: "string \<Rightarrow> string" where
  "PathEscape s =
     concat (map (\<lambda>c. if path_safe c then [c]
                      else [CHR ''%'', hex_upper ((of_char c :: nat) div 16), hex_upper ((of_char c :: nat) mod 16)]) s)"

definition get :: "dept_env \<Rightarrow> string \<Rightarrow> Client \<Rightarrow> dept_error + string" where
  "get env path c =
     (case de_Do env (cl_baseURL c @ cl_pathPrefix c @ path) (cl_authHeader c) (cl_apiKey c) of
        None \<Rightarrow> Inl RequestFailed
      | Some (status, body) \<Rightarrow>
          if status \<noteq> 200 then Inl (UpstreamStatus status)
          else case de_envelope env body of
            None \<Rightarrow> Inl DecodeEnvelope
          | Some e \<Rightarrow>
              if ev_Success e = Some False then Inl (UpstreamFailure (trim_space (ev_Code e)) (ev_Message e))
              else Inr (if ev_Data e = [] then ''null'' else ev_Data e))"

definition unwrapList :: "dept_env \<Rightarrow> string \<Rightarrow> string" where
  "unwrapList env raw =
     (if has_prefix (trim_space raw) ''{'' then
        (case de_listWrapper env raw of None \<Rightarrow> raw | Some lw \<Rightarrow> if lw_List lw \<noteq> [] then lw_List lw else raw)
      else raw)"

definition isNull :: "string \<Rightarrow> bool" where
  "isNull raw \<longleftrightarrow> trim_space raw = [] \<or> trim_space raw = ''null''"

definition decodeDeptList :: "dept_env \<Rightarrow> string \<Rightarrow> dept_error + Dept list" where
  "decodeDeptList env raw =
     (let inner = unwrapList env raw
      in if isNull inner then Inr []
         else case de_deptNodes env inner of None \<Rightarrow> Inl DecodeDepartments | Some nodes \<Rightarrow> Inr (map toDept nodes))"

definition decodeDeptUserList :: "dept_env \<Rightarrow> string \<Rightarrow> dept_error + DeptUser list" where
  "decodeDeptUserList env raw =
     (let inner = unwrapList env raw
      in if isNull inner then Inr []
         else case de_users env inner of None \<Rightarrow> Inl DecodeUsers | Some users \<Rightarrow> Inr users)"

section \<open>Cache\<close>

definition cacheGet :: "int \<Rightarrow> string \<Rightarrow> Client \<Rightarrow> cached option \<times> Client" where
  "cacheGet now key c =
     (case cl_cache c key of
        None \<Rightarrow> (None, c)
      | Some entry \<Rightarrow> if now > ce_expiresAt entry then (None, c\<lparr>cl_cache := (cl_cache c)(key := None)\<rparr>) else (Some (ce_value entry), c))"

definition cacheSet :: "int \<Rightarrow> string \<Rightarrow> cached \<Rightarrow> Client \<Rightarrow> Client" where
  "cacheSet now key v c = c\<lparr>cl_cache := (cl_cache c)(key \<mapsto> \<lparr>ce_value = v, ce_expiresAt = now + cl_cacheTTL c\<rparr>)\<rparr>"

definition InvalidateCache :: "Client \<Rightarrow> Client" where
  "InvalidateCache c = c\<lparr>cl_cache := Map.empty\<rparr>"

text \<open>A cached request: the value of a live entry under the asserted type, or the decoded answer, which is stored.\<close>

definition as_depts :: "cached \<Rightarrow> Dept list option" where
  "as_depts v = (case v of CachedDepts ds \<Rightarrow> Some ds | _ \<Rightarrow> None)"

definition as_users :: "cached \<Rightarrow> DeptUser list option" where
  "as_users v = (case v of CachedUsers us \<Rightarrow> Some us | _ \<Rightarrow> None)"

definition fetch ::
  "(dept_env \<Rightarrow> string \<Rightarrow> dept_error + 'a) \<Rightarrow> ('a \<Rightarrow> cached) \<Rightarrow> (cached \<Rightarrow> 'a option) \<Rightarrow> dept_env \<Rightarrow> int \<Rightarrow> string \<Rightarrow> string \<Rightarrow> Client \<Rightarrow>
   (dept_error + 'a) \<times> Client" where
  "fetch decode store assert env now key path c =
     (if \<not> Configured c then (Inl ErrNotConfigured, c)
      else case cacheGet now key c of
        (Some v, c1) \<Rightarrow> (case assert v of Some x \<Rightarrow> (Inr x, c1) | None \<Rightarrow> (Inl TypeAssertion, c1))
      | (None, c1) \<Rightarrow>
          (case get env path c1 of
             Inl e \<Rightarrow> (Inl e, c1)
           | Inr raw \<Rightarrow> (case decode env raw of Inl e \<Rightarrow> (Inl e, c1) | Inr x \<Rightarrow> (Inr x, cacheSet now key (store x) c1))))"

definition GetTree :: "dept_env \<Rightarrow> int \<Rightarrow> Client \<Rightarrow> (dept_error + Dept list) \<times> Client" where
  "GetTree env now c = fetch decodeDeptList CachedDepts as_depts env now ''tree'' ''/department/tree'' c"

definition GetDeptUsers :: "dept_env \<Rightarrow> int \<Rightarrow> string \<Rightarrow> Client \<Rightarrow> (dept_error + DeptUser list) \<times> Client" where
  "GetDeptUsers env now deptID c = fetch decodeDeptUserList CachedUsers as_users env now (''deptUsers:'' @ deptID) (''/department/'' @ PathEscape deptID @ ''/users'') c"

definition GetDeptUsersTree :: "dept_env \<Rightarrow> int \<Rightarrow> string \<Rightarrow> Client \<Rightarrow> (dept_error + DeptUser list) \<times> Client" where
  "GetDeptUsersTree env now deptID c =
     fetch decodeDeptUserList CachedUsers as_users env now (''deptUsersTree:'' @ deptID) (''/department/'' @ PathEscape deptID @ ''/users?include_children=true'') c"

definition GetUserDepartments :: "dept_env \<Rightarrow> int \<Rightarrow> string \<Rightarrow> Client \<Rightarrow> (dept_error + Dept list) \<times> Client" where
  "GetUserDepartments env now userID c =
     fetch decodeDeptList CachedDepts as_depts env now (''userDepts:'' @ userID) (''/user/'' @ PathEscape userID @ ''/departments?type=universal'') c"

section \<open>The tree\<close>

fun findDeptPath :: "Dept list \<Rightarrow> string \<Rightarrow> string option" where
  "findDeptPath [] deptID = None"
| "findDeptPath (Dept did name path parent level count leader order children # ns) deptID =
     (if did = deptID then Some path
      else case (if children \<noteq> [] then findDeptPath children deptID else None) of
        Some p \<Rightarrow> Some p
      | None \<Rightarrow> findDeptPath ns deptID)"

fun findDeptNode :: "Dept list \<Rightarrow> string \<Rightarrow> Dept option" where
  "findDeptNode [] deptID = None"
| "findDeptNode (Dept did name path parent level count leader order children # ns) deptID =
     (if did = deptID then Some (Dept did name path parent level count leader order children)
      else case (if children \<noteq> [] then findDeptNode children deptID else None) of
        Some n \<Rightarrow> Some n
      | None \<Rightarrow> findDeptNode ns deptID)"

definition strip_children :: "Dept \<Rightarrow> Dept" where
  "strip_children n =
     Dept (dt_DeptID n) (dt_DeptName n) (dt_DeptPath n) (dt_ParentDeptID n) (dt_DeptLevel n) (dt_ChildDeptCount n) (dt_LeaderID n) (dt_OrderNum n) []"

definition stripChildren :: "Dept list \<Rightarrow> Dept list" where
  "stripChildren nodes = map strip_children nodes"

definition GetChildren :: "dept_env \<Rightarrow> int \<Rightarrow> string \<Rightarrow> Client \<Rightarrow> (dept_error + Dept list) \<times> Client" where
  "GetChildren env now parentID0 c =
     (if \<not> Configured c then (Inl ErrNotConfigured, c)
      else case GetTree env now c of
        (Inl e, c1) \<Rightarrow> (Inl e, c1)
      | (Inr tree, c1) \<Rightarrow>
          let parentID = trim_space parentID0
          in if parentID = [] then (Inr (stripChildren tree), c1)
             else case findDeptNode tree parentID of
               None \<Rightarrow> (Inr [], c1)
             | Some node \<Rightarrow> (Inr (stripChildren (dt_Children node)), c1))"

definition GetDepartmentPath :: "dept_env \<Rightarrow> int \<Rightarrow> string \<Rightarrow> Client \<Rightarrow> (dept_error + string) \<times> Client" where
  "GetDepartmentPath env now deptID c =
     (if \<not> Configured c then (Inl ErrNotConfigured, c)
      else case GetTree env now c of
        (Inl e, c1) \<Rightarrow> (Inl e, c1)
      | (Inr tree, c1) \<Rightarrow>
          (case findDeptPath tree deptID of Some path \<Rightarrow> (Inr path, c1) | None \<Rightarrow> (Inl (DepartmentNotFound deptID), c1)))"

definition DepartmentSubtree :: "dept_env \<Rightarrow> int \<Rightarrow> string \<Rightarrow> Client \<Rightarrow> (dept_error + Dept option) \<times> Client" where
  "DepartmentSubtree env now deptID0 c =
     (let deptID = trim_space deptID0
      in if \<not> Configured c then (Inl ErrNotConfigured, c)
         else if deptID = [] then (Inr None, c)
         else case GetTree env now c of
           (Inl e, c1) \<Rightarrow> (Inl e, c1)
         | (Inr tree, c1) \<Rightarrow> (Inr (findDeptNode tree deptID), c1))"

section \<open>Searches\<close>

text \<open>The departments of a tree in the order of the searches.\<close>

fun dept_nodes :: "Dept \<Rightarrow> Dept list" where
  "dept_nodes (Dept did name path parent level count leader order children) =
     Dept did name path parent level count leader order children # concat (map dept_nodes children)"

lemma find_append_list: "find P (xs @ ys) = (case find P xs of Some x \<Rightarrow> Some x | None \<Rightarrow> find P ys)"
  by (induction xs) simp_all

lemma findDeptNode_find: "findDeptNode nodes deptID = find (\<lambda>n. dt_DeptID n = deptID) (concat (map dept_nodes nodes))"
  by (induction nodes deptID rule: findDeptNode.induct) (auto simp: find_append_list split: option.split)

lemma findDeptPath_node: "findDeptPath nodes deptID = map_option dt_DeptPath (findDeptNode nodes deptID)"
  by (induction nodes deptID rule: findDeptPath.induct) (auto split: option.split)

section \<open>Freshness of answers\<close>

text \<open>
  \<open>up t\<close> is what the service answers at time \<open>t\<close>.  Every cached value was decoded from an answer that was valid when it was stored, one
  time to live before its expiry, and has the type of its key.
\<close>

definition answers :: "(dept_env \<Rightarrow> string \<Rightarrow> dept_error + 'a) \<Rightarrow> dept_env \<Rightarrow> string \<Rightarrow> Client \<Rightarrow> 'a \<Rightarrow> bool" where
  "answers decode env path c x \<longleftrightarrow> (\<exists>raw. get env path c = Inr raw \<and> decode env raw = Inr x)"

definition key_answer :: "dept_env \<Rightarrow> string \<Rightarrow> Client \<Rightarrow> cached \<Rightarrow> bool" where
  "key_answer env key c v \<longleftrightarrow>
     (case v of
        CachedDepts ds \<Rightarrow>
          key = ''tree'' \<and> answers decodeDeptList env ''/department/tree'' c ds \<or>
          (\<exists>u. key = ''userDepts:'' @ u \<and> answers decodeDeptList env (''/user/'' @ PathEscape u @ ''/departments?type=universal'') c ds)
      | CachedUsers us \<Rightarrow>
          (\<exists>d. key = ''deptUsers:'' @ d \<and> answers decodeDeptUserList env (''/department/'' @ PathEscape d @ ''/users'') c us \<or>
               key = ''deptUsersTree:'' @ d \<and> answers decodeDeptUserList env (''/department/'' @ PathEscape d @ ''/users?include_children=true'') c us))"

definition cache_good :: "(int \<Rightarrow> dept_env) \<Rightarrow> int \<Rightarrow> Client \<Rightarrow> bool" where
  "cache_good up now c \<longleftrightarrow>
     (\<forall>key entry. cl_cache c key = Some entry \<longrightarrow>
        (\<exists>t \<le> now. ce_expiresAt entry = t + cl_cacheTTL c \<and> key_answer (up t) key c (ce_value entry)))"

definition same_config :: "Client \<Rightarrow> Client \<Rightarrow> bool" where
  "same_config c d \<longleftrightarrow> d\<lparr>cl_cache := Map.empty\<rparr> = c\<lparr>cl_cache := Map.empty\<rparr>"

lemma same_config_refl [simp]: "same_config c c"
  by (simp add: same_config_def)

lemma same_config_cache [simp]: "same_config c (c\<lparr>cl_cache := m\<rparr>)"
  by (simp add: same_config_def)

lemma same_config_trans: "same_config c d \<Longrightarrow> same_config d e \<Longrightarrow> same_config c e"
  by (simp add: same_config_def)

lemma same_config_eqs:
  assumes "same_config c d"
  shows "get env path d = get env path c" "answers decode env path d x = answers decode env path c x"
    "key_answer env key d v = key_answer env key c v" "cl_cacheTTL d = cl_cacheTTL c" "Configured d = Configured c"
proof -
  have f: "cl_baseURL d = cl_baseURL c" "cl_apiKey d = cl_apiKey c" "cl_pathPrefix d = cl_pathPrefix c" "cl_authHeader d = cl_authHeader c"
    "cl_cacheTTL d = cl_cacheTTL c"
    using assms unfolding same_config_def by (metis Client.select_convs Client.surjective Client.update_convs(7))+
  show g: "get env path d = get env path c" for env path by (simp add: get_def f)
  then show a: "answers decode env path d x = answers decode env path c x" for decode :: "dept_env \<Rightarrow> string \<Rightarrow> dept_error + 'b" and env path x by (simp add: answers_def)
  show "key_answer env key d v = key_answer env key c v" unfolding key_answer_def answers_def g ..
  show "cl_cacheTTL d = cl_cacheTTL c" "Configured d = Configured c" by (simp_all add: f Configured_def)
qed

lemma key_answer_cache [simp]: "key_answer env key (c\<lparr>cl_cache := m\<rparr>) v = key_answer env key c v"
  by (rule same_config_eqs(3)) simp

lemma key_answer_depts:
  "answers decodeDeptList env ''/department/tree'' c ds \<Longrightarrow> key_answer env ''tree'' c (CachedDepts ds)"
  "answers decodeDeptList env (''/user/'' @ PathEscape u @ ''/departments?type=universal'') c ds \<Longrightarrow> key_answer env (''userDepts:'' @ u) c (CachedDepts ds)"
  by (simp_all add: key_answer_def)

lemma key_answer_users:
  "answers decodeDeptUserList env (''/department/'' @ PathEscape d @ ''/users'') c us \<Longrightarrow> key_answer env (''deptUsers:'' @ d) c (CachedUsers us)"
  "answers decodeDeptUserList env (''/department/'' @ PathEscape d @ ''/users?include_children=true'') c us \<Longrightarrow> key_answer env (''deptUsersTree:'' @ d) c (CachedUsers us)"
  unfolding key_answer_def by auto

lemma key_types [simp]:
  "\<not> key_answer env ''tree'' c (CachedUsers us)" "\<not> key_answer env (''userDepts:'' @ u) c (CachedUsers us)"
  "\<not> key_answer env (''deptUsers:'' @ d) c (CachedDepts ds)" "\<not> key_answer env (''deptUsersTree:'' @ d) c (CachedDepts ds)"
  by (simp_all add: key_answer_def)

lemma key_answer_tree: "key_answer env ''tree'' c (CachedDepts ds) \<Longrightarrow> answers decodeDeptList env ''/department/tree'' c ds"
  by (simp add: key_answer_def)

lemma key_answer_subtree:
  "key_answer env (''deptUsersTree:'' @ d) c (CachedUsers us) \<Longrightarrow> answers decodeDeptUserList env (''/department/'' @ PathEscape d @ ''/users?include_children=true'') c us"
  by (simp add: key_answer_def)

text \<open>A cached answer is at most one time to live old.\<close>

definition recent :: "(int \<Rightarrow> dept_env) \<Rightarrow> int \<Rightarrow> string \<Rightarrow> Client \<Rightarrow> cached \<Rightarrow> bool" where
  "recent up now key c v \<longleftrightarrow> (\<exists>t. now - cl_cacheTTL c \<le> t \<and> t \<le> now \<and> key_answer (up t) key c v)"

lemma cacheGet_good:
  assumes "cache_good up now c" "cacheGet now key c = (r, c')"
  shows "cache_good up now c' \<and> same_config c c' \<and> (\<forall>v. r = Some v \<longrightarrow> recent up now key c v)"
proof (cases "cl_cache c key")
  case None
  then have "r = None" "c' = c" using assms(2) by (simp_all add: cacheGet_def)
  then show ?thesis using assms(1) by auto
next
  case (Some entry)
  then obtain t where t: "t \<le> now" "ce_expiresAt entry = t + cl_cacheTTL c" "key_answer (up t) key c (ce_value entry)"
    using assms(1) unfolding cache_good_def by blast
  show ?thesis
  proof (cases "now > ce_expiresAt entry")
    case True
    then have "r = None" "c' = c\<lparr>cl_cache := (cl_cache c)(key := None)\<rparr>" using assms(2) Some by (simp_all add: cacheGet_def)
    then show ?thesis using assms(1) by (auto simp: cache_good_def)
  next
    case False
    then have "r = Some (ce_value entry)" "c' = c" using assms(2) Some by (simp_all add: cacheGet_def)
    moreover have "recent up now key c (ce_value entry)" unfolding recent_def using t False by (intro exI[of _ t]) simp
    ultimately show ?thesis using assms(1) by auto
  qed
qed

lemma cacheSet_good: "cache_good up now c \<Longrightarrow> key_answer (up now) key c v \<Longrightarrow> cache_good up now (cacheSet now key v c)"
  by (auto simp: cache_good_def cacheSet_def)

lemma recent_now: "cl_cacheTTL c \<ge> 0 \<Longrightarrow> key_answer (up now) key c v \<Longrightarrow> recent up now key c v"
  unfolding recent_def by (intro exI[of _ now]) simp

definition call_ok :: "(int \<Rightarrow> dept_env) \<Rightarrow> int \<Rightarrow> Client \<Rightarrow> dept_error option \<Rightarrow> Client \<Rightarrow> bool" where
  "call_ok up now c e c' \<longleftrightarrow> cache_good up now c' \<and> same_config c c' \<and> e \<noteq> Some TypeAssertion"

definition failure :: "dept_error + 'a \<Rightarrow> dept_error option" where
  "failure r = (case r of Inl e \<Rightarrow> Some e | Inr _ \<Rightarrow> None)"

lemma no_type_error:
  "get env path c \<noteq> Inl TypeAssertion" "decodeDeptList env raw \<noteq> Inl TypeAssertion" "decodeDeptUserList env raw \<noteq> Inl TypeAssertion"
  by (auto simp: get_def decodeDeptList_def decodeDeptUserList_def Let_def split: option.splits if_splits)

lemma fetch_good:
  assumes g: "cache_good up now c" and ttl: "cl_cacheTTL c \<ge> 0" and f: "fetch decode store assert (up now) now key path c = (r, c')"
    and key: "\<And>x. answers decode (up now) path c x \<Longrightarrow> key_answer (up now) key c (store x)"
    and typed: "\<And>t v. key_answer (up t) key c v \<Longrightarrow> \<exists>x. assert v = Some x \<and> v = store x"
    and decodes: "\<And>raw. decode (up now) raw \<noteq> Inl TypeAssertion"
  shows "call_ok up now c (failure r) c' \<and> (\<forall>x. r = Inr x \<longrightarrow> recent up now key c (store x))"
proof (cases "Configured c")
  case False
  then have "r = Inl ErrNotConfigured" "c' = c" using f by (simp_all add: fetch_def)
  then show ?thesis using g by (simp add: call_ok_def failure_def)
next
  case True
  obtain v c1 where v: "cacheGet now key c = (v, c1)" by fastforce
  have c1: "cache_good up now c1" "same_config c c1" "\<And>x. v = Some x \<Longrightarrow> recent up now key c x" using cacheGet_good[OF g v] by simp_all
  show ?thesis
  proof (cases v)
    case (Some w)
    then obtain x where x: "assert w = Some x" "w = store x" using c1(3)[OF Some] typed unfolding recent_def by blast
    then have "r = Inr x" "c' = c1" using f True v Some by (simp_all add: fetch_def)
    then show ?thesis using c1 Some x by (simp add: call_ok_def failure_def)
  next
    case None
    show ?thesis
    proof (cases "\<exists>x. answers decode (up now) path c1 x")
      case False
      have "\<exists>e. r = Inl e \<and> c' = c1 \<and> e \<noteq> TypeAssertion"
      proof (cases "get (up now) path c1")
        case (Inl e)
        then show ?thesis using f True v None no_type_error(1)[of "up now" path c1] by (auto simp: fetch_def)
      next
        case (Inr raw)
        then obtain e where e: "decode (up now) raw = Inl e" using False by (cases "decode (up now) raw") (auto simp: answers_def)
        then have "r = Inl e" "c' = c1" using f True v None Inr by (simp_all add: fetch_def)
        then show ?thesis using e decodes[of raw] by auto
      qed
      then show ?thesis using c1 by (auto simp: call_ok_def failure_def)
    next
      case True
      then obtain x where x: "answers decode (up now) path c1 x" by blast
      then have r: "r = Inr x" "c' = cacheSet now key (store x) c1"
        using f \<open>Configured c\<close> v None by (auto simp: fetch_def answers_def)
      have ka: "key_answer (up now) key c (store x)" using key x same_config_eqs(2)[OF c1(2), where decode = decode] by simp
      have "cache_good up now c'" unfolding r(2) by (rule cacheSet_good[OF c1(1)]) (use ka same_config_eqs(3)[OF c1(2)] in simp)
      then show ?thesis using r recent_now[where up = up and now = now, OF ttl ka] c1(2) by (simp add: call_ok_def failure_def cacheSet_def same_config_def)
    qed
  qed
qed

text \<open>The calls on one client, in the order of the clock.\<close>

inductive dept_run :: "(int \<Rightarrow> dept_env) \<Rightarrow> int \<Rightarrow> Client \<Rightarrow> bool" for up where
  start: "dept_run up now (New cfg)"
| wait: "dept_run up now c \<Longrightarrow> now \<le> now' \<Longrightarrow> dept_run up now' c"
| tree: "dept_run up now c \<Longrightarrow> GetTree (up now) now c = (r, c') \<Longrightarrow> dept_run up now c'"
| children: "dept_run up now c \<Longrightarrow> GetChildren (up now) now d c = (r, c') \<Longrightarrow> dept_run up now c'"
| path: "dept_run up now c \<Longrightarrow> GetDepartmentPath (up now) now d c = (p, c') \<Longrightarrow> dept_run up now c'"
| subtree: "dept_run up now c \<Longrightarrow> DepartmentSubtree (up now) now d c = (n, c') \<Longrightarrow> dept_run up now c'"
| users: "dept_run up now c \<Longrightarrow> GetDeptUsers (up now) now d c = (us, c') \<Longrightarrow> dept_run up now c'"
| users_tree: "dept_run up now c \<Longrightarrow> GetDeptUsersTree (up now) now d c = (us, c') \<Longrightarrow> dept_run up now c'"
| user_depts: "dept_run up now c \<Longrightarrow> GetUserDepartments (up now) now u c = (r, c') \<Longrightarrow> dept_run up now c'"
| invalidate: "dept_run up now c \<Longrightarrow> dept_run up now (InvalidateCache c)"

lemma as_depts_typed: "(\<And>us. \<not> key_answer env key c (CachedUsers us)) \<Longrightarrow> key_answer env key c v \<Longrightarrow> \<exists>x. as_depts v = Some x \<and> v = CachedDepts x"
  by (cases v) (simp_all add: as_depts_def)

lemma as_users_typed: "(\<And>ds. \<not> key_answer env key c (CachedDepts ds)) \<Longrightarrow> key_answer env key c v \<Longrightarrow> \<exists>x. as_users v = Some x \<and> v = CachedUsers x"
  by (cases v) (simp_all add: as_users_def)

definition client_good :: "(int \<Rightarrow> dept_env) \<Rightarrow> int \<Rightarrow> Client \<Rightarrow> bool" where
  "client_good up now c \<longleftrightarrow> cache_good up now c \<and> cl_cacheTTL c \<ge> 0"

lemma GetTree_good:
  assumes "client_good up now c" "GetTree (up now) now c = (r, c')"
  shows "call_ok up now c (failure r) c' \<and> (\<forall>ds. r = Inr ds \<longrightarrow> recent up now ''tree'' c (CachedDepts ds))"
  by (rule fetch_good[where up = up and now = now, OF _ _ assms(2)[unfolded GetTree_def]]) (use assms(1) key_answer_depts(1) as_depts_typed[OF key_types(1)] no_type_error(2) in \<open>simp_all add: client_good_def\<close>)

lemma GetUserDepartments_good:
  assumes "client_good up now c" "GetUserDepartments (up now) now u c = (r, c')"
  shows "call_ok up now c (failure r) c' \<and> (\<forall>ds. r = Inr ds \<longrightarrow> recent up now (''userDepts:'' @ u) c (CachedDepts ds))"
  by (rule fetch_good[where up = up and now = now, OF _ _ assms(2)[unfolded GetUserDepartments_def]]) (use assms(1) key_answer_depts(2) as_depts_typed[OF key_types(2)] no_type_error(2) in \<open>simp_all add: client_good_def\<close>)

lemma GetDeptUsers_good:
  assumes "client_good up now c" "GetDeptUsers (up now) now d c = (r, c')"
  shows "call_ok up now c (failure r) c' \<and> (\<forall>us. r = Inr us \<longrightarrow> recent up now (''deptUsers:'' @ d) c (CachedUsers us))"
  by (rule fetch_good[where up = up and now = now, OF _ _ assms(2)[unfolded GetDeptUsers_def]]) (use assms(1) key_answer_users(1) as_users_typed[OF key_types(3)] no_type_error(3) in \<open>simp_all add: client_good_def\<close>)

lemma GetDeptUsersTree_good:
  assumes "client_good up now c" "GetDeptUsersTree (up now) now d c = (r, c')"
  shows "call_ok up now c (failure r) c' \<and> (\<forall>us. r = Inr us \<longrightarrow> recent up now (''deptUsersTree:'' @ d) c (CachedUsers us))"
  by (rule fetch_good[where up = up and now = now, OF _ _ assms(2)[unfolded GetDeptUsersTree_def]]) (use assms(1) key_answer_users(2) as_users_typed[OF key_types(4)] no_type_error(3) in \<open>simp_all add: client_good_def\<close>)

text \<open>The searches change the client as the request for the tree does.\<close>

lemma search_client:
  "GetChildren env now d c = (r, c') \<Longrightarrow> c' = c \<or> c' = snd (GetTree env now c)"
  "GetDepartmentPath env now d c = (p, c') \<Longrightarrow> c' = c \<or> c' = snd (GetTree env now c)"
  "DepartmentSubtree env now d c = (n, c') \<Longrightarrow> c' = c \<or> c' = snd (GetTree env now c)"
  by (auto simp: GetChildren_def GetDepartmentPath_def DepartmentSubtree_def Let_def split: if_splits prod.splits sum.splits option.splits)

lemma call_ok_good: "call_ok up now c e c' \<Longrightarrow> client_good up now c \<Longrightarrow> client_good up now c'"
  by (auto simp: call_ok_def client_good_def dest: same_config_eqs(4))

lemma cache_good_later: "cache_good up now c \<Longrightarrow> now \<le> now' \<Longrightarrow> cache_good up now' c"
  unfolding cache_good_def by (meson order_trans)

lemma snd_GetTree_good: "client_good up now c \<Longrightarrow> client_good up now (snd (GetTree (up now) now c))"
  using GetTree_good[of up now c, OF _ prod.collapse[symmetric]] call_ok_good by blast

lemma dept_run_good: "dept_run up now c \<Longrightarrow> client_good up now c"
proof (induction rule: dept_run.induct)
  case (start now cfg)
  then show ?case by (simp add: client_good_def cache_good_def New_def Let_def second_ns_def)
next
  case (wait now c now')
  then show ?case using cache_good_later[of up now c now'] by (simp add: client_good_def)
next
  case (children now c d r c')
  then show ?case using search_client(1) snd_GetTree_good by metis
next
  case (path now c d p c')
  then show ?case using search_client(2) snd_GetTree_good by metis
next
  case (subtree now c d n c')
  then show ?case using search_client(3) snd_GetTree_good by metis
next
  case (tree now c r c')
  show ?case using call_ok_good[OF conjunct1[OF GetTree_good[OF tree.IH tree.hyps(2)]] tree.IH] .
next
  case (users now c d us c')
  show ?case using call_ok_good[OF conjunct1[OF GetDeptUsers_good[OF users.IH users.hyps(2)]] users.IH] .
next
  case (users_tree now c d us c')
  show ?case using call_ok_good[OF conjunct1[OF GetDeptUsersTree_good[OF users_tree.IH users_tree.hyps(2)]] users_tree.IH] .
next
  case (user_depts now c u r c')
  show ?case using call_ok_good[OF conjunct1[OF GetUserDepartments_good[OF user_depts.IH user_depts.hyps(2)]] user_depts.IH] .
next
  case (invalidate now c)
  then show ?case by (simp add: client_good_def cache_good_def InvalidateCache_def)
qed

section \<open>Property\<close>

definition config_example :: DeptSyncConfig where
  "config_example = \<lparr>cf_BaseURL = ''http://d/'', cf_APIKey = ''k'', cf_PathPrefix = [], cf_AuthHeader = [], cf_TimeoutSec = 0, cf_CacheTTLSec = 0\<rparr>"

definition dept_env_example :: "int \<Rightarrow> dept_env" where
  "dept_env_example t = \<lparr>de_Do = (\<lambda>_ _ _. Some (200, ''x'')), de_envelope = (\<lambda>_. Some \<lparr>ev_Code = [], ev_Success = None, ev_Message = [], ev_Data = ''[]''\<rparr>),
     de_listWrapper = (\<lambda>_. None), de_deptNodes = (\<lambda>_. Some [deptNode ''d'' ''D'' ''/D'' [] 1 0 [] 0 []]), de_users = (\<lambda>_. Some [])\<rparr>"

text \<open>
  C16.  Whatever calls were made before, the tree and the members of a subtree that the client answers were the answer of the service at a
  time at most one time to live ago, and no call panics on the type of a cached value.  The clock is read once per call: the time that a
  request to the service takes is not counted.
\<close>

theorem dept_answers_fresh:
  assumes "dept_run up now c"
  shows "(\<forall>tree. fst (GetTree (up now) now c) = Inr tree \<longrightarrow>
       (\<exists>t. now - cl_cacheTTL c \<le> t \<and> t \<le> now \<and> answers decodeDeptList (up t) ''/department/tree'' c tree)) \<and>
    (\<forall>members. fst (GetDeptUsersTree (up now) now d c) = Inr members \<longrightarrow>
       (\<exists>t. now - cl_cacheTTL c \<le> t \<and> t \<le> now \<and>
          answers decodeDeptUserList (up t) (''/department/'' @ PathEscape d @ ''/users?include_children=true'') c members)) \<and>
    fst (GetTree (up now) now c) \<noteq> Inl TypeAssertion \<and> fst (GetDeptUsersTree (up now) now d c) \<noteq> Inl TypeAssertion \<and>
    fst (GetDeptUsers (up now) now d c) \<noteq> Inl TypeAssertion \<and> fst (GetUserDepartments (up now) now u c) \<noteq> Inl TypeAssertion"
proof -
  note g = dept_run_good[OF assms]
  note gs = GetTree_good[OF g prod.collapse[symmetric]] GetDeptUsersTree_good[OF g prod.collapse[symmetric], of d]
    GetDeptUsers_good[OF g prod.collapse[symmetric], of d] GetUserDepartments_good[OF g prod.collapse[symmetric], of u]
  have "\<exists>t. now - cl_cacheTTL c \<le> t \<and> t \<le> now \<and> answers decodeDeptList (up t) ''/department/tree'' c tree"
    if "fst (GetTree (up now) now c) = Inr tree" for tree
    using gs(1) that key_answer_tree unfolding recent_def by blast
  moreover have "\<exists>t. now - cl_cacheTTL c \<le> t \<and> t \<le> now \<and>
      answers decodeDeptUserList (up t) (''/department/'' @ PathEscape d @ ''/users?include_children=true'') c members"
    if "fst (GetDeptUsersTree (up now) now d c) = Inr members" for members
    using gs(2) that key_answer_subtree unfolding recent_def by blast
  ultimately show ?thesis using gs by (auto simp: call_ok_def failure_def)
qed

theorem dept_answers_fresh_witness:
  "\<exists>t. answers decodeDeptList (dept_env_example t) ''/department/tree'' (New config_example) [Dept ''d'' ''D'' ''/D'' [] 1 0 [] 0 []]"
proof -
  have "fst (GetTree (dept_env_example 5) 5 (New config_example)) = Inr [Dept ''d'' ''D'' ''/D'' [] 1 0 [] 0 []]" by code_simp
  then show ?thesis using dept_answers_fresh[OF dept_run.start, of dept_env_example 5 config_example] by blast
qed

end
