(* ===== verification/Distribution.thy ===== *)
theory Distribution
  imports Authz Dept_Sync Step_System
begin

text \<open>
  The distribution of items to users and departments (\<^verbatim>\<open>server/internal/services/distribution_service.go\<close>, its handlers in
  \<^verbatim>\<open>handlers/distribution.go\<close>) with the favourites it manages (\<^verbatim>\<open>services/behavior_service.go\<close>).

  A distribution has a receipt per recipient and marks the item as a favourite of each; a readonly distribution makes it a required one.  Who
  may distribute where follows from the department tree, through the interface \<open>deptMemberResolver\<close>, which \<open>client_resolver\<close> implements on the
  client of \<^verbatim>\<open>Dept_Sync\<close>; the resolver of a request answers each question once.  \<open>ok n\<close> says whether the \<open>n\<close>-th statement of an operation
  succeeds (0 is the commit), \<open>newID\<close> are the fresh identifiers.  The services for behaviour and notifications are optional; a notification is
  the pair of its recipient and its event, its text is left out.
\<close>

section \<open>State\<close>

record ItemDistribution =
  ds_ID :: string
  ds_ItemID :: string
  ds_DistributorID :: string
  ds_PermissionMode :: string
  ds_Status :: string
  ds_ScopeType :: string
  ds_TargetID :: string
  ds_Message :: string
  ds_RevokedAt :: "int option"
  ds_ExpiresAt :: "int option"
  ds_CreatedAt :: int
  ds_UpdatedAt :: int

record ItemDistributionReceipt =
  rc_ID :: string
  rc_DistributionID :: string
  rc_UserID :: string
  rc_ReceiptStatus :: string
  rc_CreatedAt :: int
  rc_UpdatedAt :: int

record ItemFavorite =
  fv_ID :: string
  fv_ItemID :: string
  fv_UserID :: string
  fv_CreatedAt :: int

record CapabilityItem =
  it_ID :: string
  it_Name :: string
  it_FavoriteCount :: int

record server_user =
  su_SubjectID :: string
  su_Username :: string
  su_DisplayName :: "string option"
  su_Email :: "string option"
  su_AvatarURL :: "string option"
  su_UniversalID :: "string option"
  su_IsActive :: bool
  su_live :: bool

record dist_db =
  db_dists :: "ItemDistribution list"
  db_receipts :: "ItemDistributionReceipt list"
  db_favs :: "ItemFavorite list"
  db_items :: "CapabilityItem list"
  db_subjects :: "server_user list"

record deptMemberResolver =
  dr_GetDeptUsersTree :: "string \<Rightarrow> dept_error + DeptUser list"
  dr_GetDepartmentPath :: "string \<Rightarrow> dept_error + string"
  dr_GetUserDepartments :: "string \<Rightarrow> dept_error + Dept list"
  dr_DepartmentSubtree :: "string \<Rightarrow> dept_error + Dept option"
  dr_Configured :: bool

definition client_resolver :: "dept_env \<Rightarrow> int \<Rightarrow> Client \<Rightarrow> deptMemberResolver" where
  "client_resolver env now c =
     \<lparr>dr_GetDeptUsersTree = (\<lambda>d. fst (GetDeptUsersTree env now d c)), dr_GetDepartmentPath = (\<lambda>d. fst (Dept_Sync.GetDepartmentPath env now d c)),
      dr_GetUserDepartments = (\<lambda>u. fst (Dept_Sync.GetUserDepartments env now u c)), dr_DepartmentSubtree = (\<lambda>d. fst (DepartmentSubtree env now d c)),
      dr_Configured = Configured c\<rparr>"

record dist_service =
  sv_deptSync :: "deptMemberResolver option"
  sv_behavior :: bool
  sv_notification :: bool

record DistributionTarget =
  tg_ScopeType :: string
  tg_TargetID :: string

record DistributeItemRequest =
  rq_Targets :: "DistributionTarget list"
  rq_PermissionMode :: string
  rq_Message :: string
  rq_ExpiresAt :: "int option"

datatype dist_error =
    ErrNotDistributor
  | ErrDistributionNotFound
  | ErrInvalidPermissionMode
  | ErrCannotDistribute
  | ErrUnsupportedScope
  | ErrTargetOutOfScope
  | ErrSkillRequired
  | ReceiptNotFound
  | UnsupportedScopeType string
  | DeptSyncError dept_error
  | DistributeTargetFailed string string dist_error
  | DistDBError

text \<open>The primary keys and unique indexes.\<close>

definition unique_receipts :: "ItemDistributionReceipt list \<Rightarrow> bool" where
  "unique_receipts rows \<longleftrightarrow> distinct (map rc_ID rows) \<and> distinct (map (\<lambda>r. (rc_DistributionID r, rc_UserID r)) rows)"

definition unique_favs :: "ItemFavorite list \<Rightarrow> bool" where
  "unique_favs rows \<longleftrightarrow> distinct (map fv_ID rows) \<and> distinct (map (\<lambda>f. (fv_ItemID f, fv_UserID f)) rows)"

section \<open>Favourites\<close>

definition favorite_count :: "string \<Rightarrow> dist_db \<Rightarrow> int" where
  "favorite_count item s = (case find (\<lambda>i. it_ID i = item) (db_items s) of None \<Rightarrow> 0 | Some i \<Rightarrow> it_FavoriteCount i)"

definition update_count :: "string \<Rightarrow> (int \<Rightarrow> int) \<Rightarrow> dist_db \<Rightarrow> dist_db" where
  "update_count item f s =
     s\<lparr>db_items := map (\<lambda>i. if it_ID i = item then i\<lparr>it_FavoriteCount := f (it_FavoriteCount i)\<rparr> else i) (db_items s)\<rparr>"

definition is_favorite :: "string \<Rightarrow> string \<Rightarrow> ItemFavorite \<Rightarrow> bool" where
  "is_favorite item user f \<longleftrightarrow> fv_ItemID f = item \<and> fv_UserID f = user"

definition favoriteItemTx :: "(nat \<Rightarrow> bool) \<Rightarrow> string \<Rightarrow> int \<Rightarrow> string \<Rightarrow> string \<Rightarrow> dist_db \<Rightarrow> (dist_error + int \<times> bool) \<times> dist_db" where
  "favoriteItemTx ok newID now item user s =
     (let fav = \<lparr>fv_ID = newID, fv_ItemID = item, fv_UserID = user, fv_CreatedAt = now\<rparr>;
          created = \<not> list_ex (is_favorite item user) (db_favs s);
          s1 = s\<lparr>db_favs := db_favs s @ [fav]\<rparr>;
          s2 = (if created then update_count item (\<lambda>n. n + 1) s1 else s)
      in if \<not> ok 1 then (Inl DistDBError, s)
         else if created \<and> (\<not> ok 2 \<or> \<not> unique_favs (db_favs s1) \<or> \<not> ok 3) then (Inl DistDBError, s)
         else if \<not> ok 4 then (Inl DistDBError, s)
         else (Inr (favorite_count item s2, created), s2))"

text \<open>An active readonly distribution that the user has not dismissed.\<close>

definition required :: "string \<Rightarrow> string \<Rightarrow> dist_db \<Rightarrow> bool" where
  "required item user s \<longleftrightarrow>
     list_ex (\<lambda>r. rc_UserID r = user \<and> rc_ReceiptStatus r \<noteq> ''dismissed'' \<and>
        list_ex (\<lambda>d. ds_ID d = rc_DistributionID r \<and> ds_ItemID d = item \<and> ds_Status d = ''active'' \<and> ds_PermissionMode d = ''readonly'') (db_dists s))
       (db_receipts s)"

definition unfavoriteItemTx :: "(nat \<Rightarrow> bool) \<Rightarrow> string \<Rightarrow> string \<Rightarrow> dist_db \<Rightarrow> (dist_error + int \<times> bool) \<times> dist_db" where
  "unfavoriteItemTx ok item user s =
     (let removed = list_ex (is_favorite item user) (db_favs s);
          s1 = s\<lparr>db_favs := filter (\<lambda>f. \<not> is_favorite item user f) (db_favs s)\<rparr>;
          s2 = (if removed then update_count item (\<lambda>n. if n > 0 then n - 1 else 0) s1 else s1)
      in if \<not> ok 1 then (Inl DistDBError, s)
         else if required item user s then (Inl ErrSkillRequired, s)
         else if \<not> ok 2 \<or> removed \<and> \<not> ok 3 \<or> \<not> ok 4 then (Inl DistDBError, s)
         else (Inr (favorite_count item s2, removed), s2))"

definition in_tx :: "(nat \<Rightarrow> bool) \<Rightarrow> (dist_error + 'a) \<times> dist_db \<Rightarrow> dist_db \<Rightarrow> (dist_error + 'a) \<times> dist_db" where
  "in_tx ok r s =
     (if \<not> ok 5 then (Inl DistDBError, s)
      else case r of (Inl e, _) \<Rightarrow> (Inl e, s) | (Inr x, s') \<Rightarrow> if ok 0 then (Inr x, s') else (Inl DistDBError, s))"

definition FavoriteItem :: "(nat \<Rightarrow> bool) \<Rightarrow> string \<Rightarrow> int \<Rightarrow> string \<Rightarrow> string \<Rightarrow> dist_db \<Rightarrow> (dist_error + int \<times> bool) \<times> dist_db" where
  "FavoriteItem ok newID now item user s = in_tx ok (favoriteItemTx ok newID now item user s) s"

definition UnfavoriteItem :: "(nat \<Rightarrow> bool) \<Rightarrow> string \<Rightarrow> string \<Rightarrow> dist_db \<Rightarrow> (dist_error + int \<times> bool) \<times> dist_db" where
  "UnfavoriteItem ok item user s = in_tx ok (unfavoriteItemTx ok item user s) s"

section \<open>Reach of an operator\<close>

definition dist_universalIDFor :: "bool \<Rightarrow> string \<Rightarrow> dist_db \<Rightarrow> string" where
  "dist_universalIDFor ok subjectID0 s =
     (let subjectID = trim_space subjectID0
      in if subjectID = [] then []
         else case (if ok then find (\<lambda>u. su_live u \<and> su_SubjectID u = subjectID) (db_subjects s) else None) of
           None \<Rightarrow> []
         | Some u \<Rightarrow> (case su_UniversalID u of None \<Rightarrow> [] | Some uid \<Rightarrow> uid))"

text \<open>The subtrees of the non-leaf departments of the operator, each path once.\<close>

fun led_loop :: "deptMemberResolver \<Rightarrow> Dept list \<Rightarrow> string list \<Rightarrow> dept_error + Dept list" where
  "led_loop r [] seen = Inr []"
| "led_loop r (d # ds) seen =
     (if dt_DeptID d = [] then led_loop r ds seen
      else case dr_DepartmentSubtree r (dt_DeptID d) of
        Inl e \<Rightarrow> Inl e
      | Inr None \<Rightarrow> led_loop r ds seen
      | Inr (Some node) \<Rightarrow>
          if dt_Children node = [] \<or> dt_DeptPath node \<in> set seen then led_loop r ds seen
          else (case led_loop r ds (dt_DeptPath node # seen) of Inl e \<Rightarrow> Inl e | Inr rest \<Rightarrow> Inr (node # rest)))"

definition ledDepartmentsFor :: "bool \<Rightarrow> dist_service \<Rightarrow> string \<Rightarrow> dist_db \<Rightarrow> dept_error + Dept list" where
  "ledDepartmentsFor ok svc operator s =
     (case sv_deptSync svc of
        None \<Rightarrow> Inr []
      | Some r \<Rightarrow>
          if \<not> dr_Configured r then Inr []
          else let universalID = dist_universalIDFor ok operator s
            in if universalID = [] then Inr []
               else case dr_GetUserDepartments r universalID of Inl e \<Rightarrow> Inl e | Inr myDepts \<Rightarrow> led_loop r myDepts [])"

definition dedupeStrings :: "string list \<Rightarrow> string list" where
  "dedupeStrings xs = fold (\<lambda>x out. if x \<in> set out then out else out @ [x]) xs []"

definition resolveDistributionScope :: "bool \<Rightarrow> dist_service \<Rightarrow> string \<Rightarrow> bool \<Rightarrow> dist_db \<Rightarrow> bool \<times> string list" where
  "resolveDistributionScope ok svc operator isPlatformAdmin s =
     (if isPlatformAdmin then (True, [])
      else case ledDepartmentsFor ok svc operator s of
        Inl _ \<Rightarrow> (False, [])
      | Inr led \<Rightarrow> (False, dedupeStrings (filter (\<lambda>p. p \<noteq> []) (map dt_DeptPath led))))"

definition CanDistribute :: "bool \<Rightarrow> dist_service \<Rightarrow> string \<Rightarrow> bool \<Rightarrow> dist_db \<Rightarrow> bool" where
  "CanDistribute ok svc operator isPlatformAdmin s =
     (isPlatformAdmin \<or> (case resolveDistributionScope ok svc operator False s of (unlimited, managed) \<Rightarrow> unlimited \<or> managed \<noteq> []))"

record DistributionAuthority =
  da_Unlimited :: bool
  da_Departments :: "Dept list"

definition ResolveDistributionAuthority :: "bool \<Rightarrow> dist_service \<Rightarrow> string \<Rightarrow> bool \<Rightarrow> dist_db \<Rightarrow> DistributionAuthority" where
  "ResolveDistributionAuthority ok svc operator isPlatformAdmin s =
     (if isPlatformAdmin then \<lparr>da_Unlimited = True, da_Departments = []\<rparr>
      else \<lparr>da_Unlimited = False, da_Departments = (case ledDepartmentsFor ok svc operator s of Inl _ \<Rightarrow> [] | Inr led \<Rightarrow> led)\<rparr>)"

record EligibleDistributionUser =
  eu_ID :: string
  eu_Name :: string
  eu_DisplayName :: "string option"
  eu_AvatarURL :: "string option"

definition eligibleUserFromModel :: "server_user \<Rightarrow> EligibleDistributionUser" where
  "eligibleUserFromModel u = \<lparr>eu_ID = su_SubjectID u, eu_Name = su_Username u, eu_DisplayName = su_DisplayName u, eu_AvatarURL = su_AvatarURL u\<rparr>"

text \<open>The members of the departments, in their order; the first failure stops.\<close>

fun members_loop :: "deptMemberResolver \<Rightarrow> Dept list \<Rightarrow> dept_error + string list" where
  "members_loop r [] = Inr []"
| "members_loop r (d # ds) =
     (case dr_GetDeptUsersTree r (dt_DeptID d) of
        Inl e \<Rightarrow> Inl e
      | Inr members \<Rightarrow>
          (case members_loop r ds of Inl e \<Rightarrow> Inl e | Inr rest \<Rightarrow> Inr (filter (\<lambda>u. u \<noteq> []) (map du_UniversalID members) @ rest)))"

definition matches_keyword :: "(string \<Rightarrow> string \<Rightarrow> bool) \<Rightarrow> string \<Rightarrow> server_user \<Rightarrow> bool" where
  "matches_keyword like keyword u =
     (let pattern = ''%'' @ keyword @ ''%''
      in keyword = [] \<or> like (su_Username u) pattern \<or> (case su_DisplayName u of None \<Rightarrow> False | Some d \<Rightarrow> like d pattern) \<or>
         (case su_Email u of None \<Rightarrow> False | Some e \<Rightarrow> like e pattern))"

definition ListEligibleUsers ::
  "(string \<Rightarrow> string \<Rightarrow> bool) \<Rightarrow> (nat \<Rightarrow> bool) \<Rightarrow> dist_service \<Rightarrow> string \<Rightarrow> bool \<Rightarrow> string \<Rightarrow> int \<Rightarrow> dist_db \<Rightarrow>
   dist_error + EligibleDistributionUser list" where
  "ListEligibleUsers like ok svc operator isPlatformAdmin keyword0 limit s =
     (let keyword = trim_space keyword0; n = nat (if limit \<le> 0 then 20 else limit);
          query = (\<lambda>P. if \<not> ok 2 then Inl DistDBError
                       else Inr (map eligibleUserFromModel (take n
                              (filter (\<lambda>u. su_live u \<and> su_IsActive u \<and> su_SubjectID u \<noteq> [] \<and> matches_keyword like keyword u \<and> P u) (db_subjects s)))))
      in if isPlatformAdmin then query (\<lambda>_. True)
         else case sv_deptSync svc of
           None \<Rightarrow> Inr []
         | Some r \<Rightarrow>
             if \<not> dr_Configured r then Inr []
             else case ledDepartmentsFor (ok 1) svc operator s of
               Inl e \<Rightarrow> Inl (DeptSyncError e)
             | Inr [] \<Rightarrow> Inr []
             | Inr departments \<Rightarrow>
                 (case members_loop r departments of
                    Inl e \<Rightarrow> Inl (DeptSyncError e)
                  | Inr uids \<Rightarrow>
                      if dedupeStrings uids = [] then Inr []
                      else query (\<lambda>u. case su_UniversalID u of None \<Rightarrow> False | Some uid \<Rightarrow> uid \<in> set (dedupeStrings uids))))"

definition anyPrefixMatch :: "string \<Rightarrow> string list \<Rightarrow> bool" where
  "anyPrefixMatch path managed \<longleftrightarrow> path \<noteq> [] \<and> list_ex (\<lambda>p. p \<noteq> [] \<and> (path = p \<or> has_prefix path (p @ ''/''))) managed"

definition validateDistributionTargets :: "DistributionTarget list \<Rightarrow> dist_error option" where
  "validateDistributionTargets targets =
     (if list_all (\<lambda>t. tg_ScopeType t = ''user'' \<or> tg_ScopeType t = ''department'') targets then None else Some ErrUnsupportedScope)"

definition userWithinPrefixes :: "bool \<Rightarrow> deptMemberResolver \<Rightarrow> string \<Rightarrow> string list \<Rightarrow> dist_db \<Rightarrow> dept_error + bool" where
  "userWithinPrefixes ok r target managed s =
     (let universalID = dist_universalIDFor ok target s
      in if universalID = [] then Inr False
         else case dr_GetUserDepartments r universalID of
           Inl e \<Rightarrow> Inl e
         | Inr depts \<Rightarrow> Inr (list_ex (\<lambda>d. anyPrefixMatch (dt_DeptPath d) managed) depts))"

definition target_in_scope :: "bool \<Rightarrow> deptMemberResolver \<Rightarrow> string list \<Rightarrow> dist_db \<Rightarrow> DistributionTarget \<Rightarrow> bool" where
  "target_in_scope ok r managed s t =
     (if tg_ScopeType t = ''department'' then
        (case dr_GetDepartmentPath r (tg_TargetID t) of Inl _ \<Rightarrow> False | Inr path \<Rightarrow> anyPrefixMatch path managed)
      else userWithinPrefixes ok r (tg_TargetID t) managed s = Inr True)"

text \<open>The loop over the targets; the lookup of the \<open>k\<close>-th one is statement \<open>10 + k\<close>.\<close>

fun authorize_loop :: "(nat \<Rightarrow> bool) \<Rightarrow> nat \<Rightarrow> deptMemberResolver \<Rightarrow> string list \<Rightarrow> dist_db \<Rightarrow> DistributionTarget list \<Rightarrow> dist_error option" where
  "authorize_loop ok k r managed s [] = None"
| "authorize_loop ok k r managed s (t # ts) =
     (if tg_ScopeType t \<noteq> ''department'' \<and> tg_ScopeType t \<noteq> ''user'' then Some ErrUnsupportedScope
      else if \<not> target_in_scope (ok (10 + k)) r managed s t then Some ErrTargetOutOfScope
      else authorize_loop ok (Suc k) r managed s ts)"

definition AuthorizeTargets :: "(nat \<Rightarrow> bool) \<Rightarrow> dist_service \<Rightarrow> string \<Rightarrow> bool \<Rightarrow> DistributionTarget list \<Rightarrow> dist_db \<Rightarrow> dist_error option" where
  "AuthorizeTargets ok svc operator isPlatformAdmin targets s =
     (case validateDistributionTargets targets of
        Some e \<Rightarrow> Some e
      | None \<Rightarrow>
          (case resolveDistributionScope (ok 1) svc operator isPlatformAdmin s of
             (unlimited, managed) \<Rightarrow>
               if unlimited then None
               else if managed = [] then Some ErrCannotDistribute
               else case sv_deptSync svc of
                 None \<Rightarrow> Some ErrCannotDistribute
               | Some r \<Rightarrow> authorize_loop ok 0 r managed s targets))"

section \<open>Distribution\<close>

definition resolveRecipients :: "bool \<Rightarrow> dist_service \<Rightarrow> DistributionTarget \<Rightarrow> dist_db \<Rightarrow> dist_error + string list" where
  "resolveRecipients ok svc t s =
     (if tg_ScopeType t = ''user'' then Inr [tg_TargetID t]
      else if tg_ScopeType t = ''department'' then
        (case sv_deptSync svc of
           None \<Rightarrow> Inr []
         | Some r \<Rightarrow>
             if \<not> dr_Configured r then Inr []
             else case dr_GetDeptUsersTree r (tg_TargetID t) of
               Inl e \<Rightarrow> Inl (DeptSyncError e)
             | Inr members \<Rightarrow>
                 let uids = dedupeStrings (filter (\<lambda>u. u \<noteq> []) (map du_UniversalID members))
                 in if uids = [] then Inr []
                    else if \<not> ok then Inl DistDBError
                    else Inr (dedupeStrings (map su_SubjectID
                           (filter (\<lambda>u. su_live u \<and> (case su_UniversalID u of None \<Rightarrow> False | Some uid \<Rightarrow> uid \<in> set uids) \<and> su_SubjectID u \<noteq> [])
                              (db_subjects s)))))
      else if tg_ScopeType t = ''role'' then Inr []
      else Inl (UnsupportedScopeType (tg_ScopeType t)))"

text \<open>The receipts, statement \<open>100 + k\<close> each; a violated index is skipped.\<close>

fun create_receipts :: "(nat \<Rightarrow> bool) \<Rightarrow> (nat \<Rightarrow> string) \<Rightarrow> int \<Rightarrow> nat \<Rightarrow> string \<Rightarrow> string list \<Rightarrow> dist_db \<Rightarrow> dist_error option \<times> dist_db" where
  "create_receipts ok newID now k distID [] s = (None, s)"
| "create_receipts ok newID now k distID (u # us) s =
     (let receipt = \<lparr>rc_ID = newID (Suc (2 * k)), rc_DistributionID = distID, rc_UserID = u, rc_ReceiptStatus = ''unread'', rc_CreatedAt = now, rc_UpdatedAt = now\<rparr>;
          s1 = s\<lparr>db_receipts := db_receipts s @ [receipt]\<rparr>
      in if \<not> ok (100 + k) then (Some DistDBError, s)
         else create_receipts ok newID now (Suc k) distID us (if unique_receipts (db_receipts s1) then s1 else s))"

text \<open>The favourites after the commit, each in a transaction of its own whose failure is ignored.\<close>

fun favorite_each :: "(nat \<Rightarrow> nat \<Rightarrow> bool) \<Rightarrow> (nat \<Rightarrow> string) \<Rightarrow> int \<Rightarrow> nat \<Rightarrow> string \<Rightarrow> string list \<Rightarrow> dist_db \<Rightarrow> dist_db" where
  "favorite_each fok newID now k item [] s = s"
| "favorite_each fok newID now k item (u # us) s =
     favorite_each fok newID now (Suc k) item us (snd (FavoriteItem (fok k) (newID (Suc (Suc (2 * k)))) now item u s))"

record DistributionResult =
  dres_Distribution :: ItemDistribution
  dres_RecipientCount :: nat

definition new_distribution ::
  "string \<Rightarrow> int \<Rightarrow> string \<Rightarrow> string \<Rightarrow> DistributionTarget \<Rightarrow> DistributeItemRequest \<Rightarrow> ItemDistribution" where
  "new_distribution newID now item distributorID t req =
     \<lparr>ds_ID = newID, ds_ItemID = item, ds_DistributorID = distributorID, ds_PermissionMode = rq_PermissionMode req, ds_Status = ''active'',
      ds_ScopeType = tg_ScopeType t, ds_TargetID = tg_TargetID t, ds_Message = rq_Message req, ds_RevokedAt = None,
      ds_ExpiresAt = rq_ExpiresAt req, ds_CreatedAt = now, ds_UpdatedAt = now\<rparr>"

record dist_call =
  dc_ok :: "nat \<Rightarrow> bool"
  dc_fok :: "nat \<Rightarrow> nat \<Rightarrow> bool"
  dc_newID :: "nat \<Rightarrow> string"
  dc_now :: int

definition distributeToTarget ::
  "dist_call \<Rightarrow> dist_service \<Rightarrow> string \<Rightarrow> string \<Rightarrow> DistributeItemRequest \<Rightarrow> DistributionTarget \<Rightarrow> dist_db \<Rightarrow>
   (dist_error + DistributionResult) \<times> (string \<times> string) list \<times> dist_db" where
  "distributeToTarget call svc item distributorID req t s =
     (let ok = dc_ok call; dist = new_distribution (dc_newID call 0) (dc_now call) item distributorID t req
      in if \<not> ok 1 \<or> ds_ID dist \<in> set (map ds_ID (db_dists s)) then (Inl DistDBError, [], s)
         else
           let s1 = s\<lparr>db_dists := db_dists s @ [dist]\<rparr>
           in case resolveRecipients (ok 2) svc t s1 of
                Inl e \<Rightarrow> (Inl e, [], s)
              | Inr recipients \<Rightarrow>
                  (case create_receipts ok (dc_newID call) (dc_now call) 0 (ds_ID dist) recipients s1 of
                     (Some e, _) \<Rightarrow> (Inl e, [], s)
                   | (None, s2) \<Rightarrow>
                       if \<not> ok 0 then (Inl DistDBError, [], s)
                       else (Inr \<lparr>dres_Distribution = dist, dres_RecipientCount = length recipients\<rparr>,
                             if sv_notification svc then map (\<lambda>u. (u, ''item.distributed'')) recipients else [],
                             if sv_behavior svc then favorite_each (dc_fok call) (dc_newID call) (dc_now call) 0 item recipients s2 else s2)))"

text \<open>One call per target; the targets before a failing one stay distributed.\<close>

fun distribute_loop ::
  "(nat \<Rightarrow> dist_call) \<Rightarrow> nat \<Rightarrow> dist_service \<Rightarrow> string \<Rightarrow> string \<Rightarrow> DistributeItemRequest \<Rightarrow> DistributionTarget list \<Rightarrow> dist_db \<Rightarrow>
   (dist_error + DistributionResult list) \<times> (string \<times> string) list \<times> dist_db" where
  "distribute_loop calls k svc item distributorID req [] s = (Inr [], [], s)"
| "distribute_loop calls k svc item distributorID req (t # ts) s =
     (case distributeToTarget (calls k) svc item distributorID req t s of
        (Inl e, ms, s1) \<Rightarrow> (Inl (DistributeTargetFailed (tg_ScopeType t) (tg_TargetID t) e), ms, s1)
      | (Inr result, ms, s1) \<Rightarrow>
          (case distribute_loop calls (Suc k) svc item distributorID req ts s1 of
             (Inl e, ms', s2) \<Rightarrow> (Inl e, ms @ ms', s2)
           | (Inr results, ms', s2) \<Rightarrow> (Inr (result # results), ms @ ms', s2)))"

definition DistributeItem ::
  "(nat \<Rightarrow> dist_call) \<Rightarrow> dist_service \<Rightarrow> string \<Rightarrow> string \<Rightarrow> DistributeItemRequest \<Rightarrow> dist_db \<Rightarrow>
   (dist_error + DistributionResult list) \<times> (string \<times> string) list \<times> dist_db" where
  "DistributeItem calls svc item distributorID req s =
     (case validateDistributionTargets (rq_Targets req) of
        Some e \<Rightarrow> (Inl e, [], s)
      | None \<Rightarrow> distribute_loop calls 0 svc item distributorID req (rq_Targets req) s)"

section \<open>Listings\<close>

record DistributionListFilter =
  df_Status :: string
  df_ScopeType :: string
  df_Search :: string
  df_Page :: int
  df_PageSize :: int

definition newest_first :: "ItemDistribution list \<Rightarrow> ItemDistribution list" where
  "newest_first ds = sort_key (\<lambda>d. - ds_CreatedAt d) ds"

definition search_matches :: "(string \<Rightarrow> string \<Rightarrow> bool) \<Rightarrow> string \<Rightarrow> dist_db \<Rightarrow> ItemDistribution \<Rightarrow> bool" where
  "search_matches like search s d =
     (let pattern = ''%'' @ search @ ''%''
      in search = [] \<or> like (ds_DistributorID d) pattern \<or> like (ds_TargetID d) pattern \<or>
         list_ex (\<lambda>i. it_ID i = ds_ItemID d \<and> like (it_Name i) pattern) (db_items s))"

definition ListAllDistributions ::
  "(string \<Rightarrow> string \<Rightarrow> bool) \<Rightarrow> (nat \<Rightarrow> bool) \<Rightarrow> DistributionListFilter \<Rightarrow> dist_db \<Rightarrow> dist_error + ItemDistribution list \<times> nat" where
  "ListAllDistributions like ok f s =
     (let rows = filter (\<lambda>d. (df_Status f = [] \<or> ds_Status d = df_Status f) \<and> (df_ScopeType f = [] \<or> ds_ScopeType d = df_ScopeType f) \<and>
                           search_matches like (df_Search f) s d) (db_dists s);
          page = (if df_Page f < 1 then 1 else df_Page f); size = (if df_PageSize f \<le> 0 then 20 else df_PageSize f)
      in if \<not> ok 1 \<or> \<not> ok 2 then Inl DistDBError
         else Inr (take (nat size) (drop (nat ((page - 1) * size)) (newest_first rows)), length rows))"

definition ListReceipts :: "bool \<Rightarrow> string \<Rightarrow> dist_db \<Rightarrow> dist_error + ItemDistributionReceipt list" where
  "ListReceipts ok distID s =
     (if ok then Inr (sort_key (\<lambda>r. - rc_CreatedAt r) (filter (\<lambda>r. rc_DistributionID r = distID) (db_receipts s))) else Inl DistDBError)"

definition ListItemDistributionsScoped :: "bool \<Rightarrow> string \<Rightarrow> string \<Rightarrow> bool \<Rightarrow> dist_db \<Rightarrow> dist_error + ItemDistribution list" where
  "ListItemDistributionsScoped ok item user isPlatformAdmin s =
     (if ok then Inr (newest_first (filter (\<lambda>d. ds_ItemID d = item \<and> (isPlatformAdmin \<or> ds_DistributorID d = user)) (db_dists s))) else Inl DistDBError)"

definition ListSentDistributions :: "bool \<Rightarrow> string \<Rightarrow> dist_db \<Rightarrow> dist_error + ItemDistribution list" where
  "ListSentDistributions ok user s =
     (if ok then Inr (newest_first (filter (\<lambda>d. ds_DistributorID d = user) (db_dists s))) else Inl DistDBError)"

definition visible :: "string \<Rightarrow> dist_db \<Rightarrow> ItemDistributionReceipt \<Rightarrow> bool" where
  "visible user s r \<longleftrightarrow> rc_UserID r = user \<and> rc_ReceiptStatus r \<noteq> ''dismissed'' \<and>
     list_ex (\<lambda>d. ds_ID d = rc_DistributionID r \<and> ds_Status d = ''active'') (db_dists s)"

definition ListReceivedDistributions :: "bool \<Rightarrow> string \<Rightarrow> dist_db \<Rightarrow> dist_error + ItemDistributionReceipt list" where
  "ListReceivedDistributions ok user s =
     (if ok then Inr (sort_key (\<lambda>r. - rc_CreatedAt r) (filter (visible user s) (db_receipts s))) else Inl DistDBError)"

definition GetDistributionByID :: "bool \<Rightarrow> string \<Rightarrow> dist_db \<Rightarrow> dist_error + ItemDistribution" where
  "GetDistributionByID ok distID s =
     (if \<not> ok then Inl DistDBError
      else case find (\<lambda>d. ds_ID d = distID) (db_dists s) of None \<Rightarrow> Inl ErrDistributionNotFound | Some d \<Rightarrow> Inr d)"

definition GetReceiptByDistributionAndUser :: "bool \<Rightarrow> string \<Rightarrow> string \<Rightarrow> dist_db \<Rightarrow> dist_error + ItemDistributionReceipt" where
  "GetReceiptByDistributionAndUser ok distID user s =
     (if \<not> ok then Inl DistDBError
      else case find (\<lambda>r. rc_DistributionID r = distID \<and> rc_UserID r = user) (db_receipts s) of None \<Rightarrow> Inl ReceiptNotFound | Some r \<Rightarrow> Inr r)"

definition GetEffectivePermission :: "bool \<Rightarrow> string \<Rightarrow> string \<Rightarrow> dist_db \<Rightarrow> string option" where
  "GetEffectivePermission ok item user s =
     (let rows = newest_first (filter (\<lambda>d. ds_ItemID d = item \<and> ds_Status d = ''active'' \<and>
                   list_ex (\<lambda>r. rc_DistributionID r = ds_ID d \<and> rc_UserID r = user \<and> rc_ReceiptStatus r \<noteq> ''dismissed'') (db_receipts s)) (db_dists s))
      in if \<not> ok then None else case rows of [] \<Rightarrow> None | d # _ \<Rightarrow> Some (ds_PermissionMode d))"

section \<open>Changes\<close>

definition canModifyDistribution :: "ItemDistribution \<Rightarrow> string \<Rightarrow> bool \<Rightarrow> bool" where
  "canModifyDistribution dist operator isPlatformAdmin \<longleftrightarrow> isPlatformAdmin \<or> ds_DistributorID dist = operator"

definition apply_dist_updates :: "int \<Rightarrow> string option \<Rightarrow> string option \<Rightarrow> string option \<Rightarrow> ItemDistribution \<Rightarrow> ItemDistribution" where
  "apply_dist_updates now status mode message d =
     d\<lparr>ds_Status := (case status of None \<Rightarrow> ds_Status d | Some x \<Rightarrow> x),
       ds_RevokedAt := (if status = Some ''revoked'' then Some now else ds_RevokedAt d),
       ds_PermissionMode := (case mode of None \<Rightarrow> ds_PermissionMode d | Some x \<Rightarrow> x),
       ds_Message := (case message of None \<Rightarrow> ds_Message d | Some x \<Rightarrow> x), ds_UpdatedAt := now\<rparr>"

definition update_dist :: "string \<Rightarrow> (ItemDistribution \<Rightarrow> ItemDistribution) \<Rightarrow> dist_db \<Rightarrow> dist_db" where
  "update_dist distID f s = s\<lparr>db_dists := map (\<lambda>d. if ds_ID d = distID then f d else d) (db_dists s)\<rparr>"

definition set_receipts :: "(ItemDistributionReceipt \<Rightarrow> bool) \<Rightarrow> string \<Rightarrow> int \<Rightarrow> dist_db \<Rightarrow> dist_db" where
  "set_receipts P status now s =
     s\<lparr>db_receipts := map (\<lambda>r. if P r then r\<lparr>rc_ReceiptStatus := status, rc_UpdatedAt := now\<rparr> else r) (db_receipts s)\<rparr>"

text \<open>The loops over the receipts inside the transaction, ten statements for each; a required item keeps its favourite.\<close>

fun unfavorite_all :: "(nat \<Rightarrow> bool) \<Rightarrow> nat \<Rightarrow> string \<Rightarrow> string list \<Rightarrow> dist_db \<Rightarrow> dist_error option \<times> dist_db" where
  "unfavorite_all ok n item [] s = (None, s)"
| "unfavorite_all ok n item (u # us) s =
     (case unfavoriteItemTx (\<lambda>k. ok (n + k)) item u s of
        (Inl e, s1) \<Rightarrow> if e = ErrSkillRequired then unfavorite_all ok (n + 10) item us s1 else (Some e, s1)
      | (Inr _, s1) \<Rightarrow> unfavorite_all ok (n + 10) item us s1)"

fun favorite_all :: "(nat \<Rightarrow> bool) \<Rightarrow> (nat \<Rightarrow> string) \<Rightarrow> int \<Rightarrow> nat \<Rightarrow> string \<Rightarrow> string list \<Rightarrow> dist_db \<Rightarrow> dist_error option \<times> dist_db" where
  "favorite_all ok newID now n item [] s = (None, s)"
| "favorite_all ok newID now n item (u # us) s =
     (case favoriteItemTx (\<lambda>k. ok (n + k)) (newID n) now item u s of
        (Inl e, s1) \<Rightarrow> (Some e, s1)
      | (Inr _, s1) \<Rightarrow> favorite_all ok newID now (n + 10) item us s1)"

definition recipients_of :: "string \<Rightarrow> dist_db \<Rightarrow> string list" where
  "recipients_of distID s = map rc_UserID (filter (\<lambda>r. rc_DistributionID r = distID) (db_receipts s))"

definition update_tx ::
  "dist_call \<Rightarrow> dist_service \<Rightarrow> ItemDistribution \<Rightarrow> string option \<Rightarrow> string option \<Rightarrow> string option \<Rightarrow> dist_db \<Rightarrow> dist_error option \<times> dist_db" where
  "update_tx call svc dist status mode message s =
     (let ok = dc_ok call; now = dc_now call; distID = ds_ID dist; s1 = update_dist distID (apply_dist_updates now status mode message) s
      in if \<not> ok 2 then (Some DistDBError, s)
         else if status = Some ''revoked'' \<or> status = Some ''paused'' then
           (if \<not> ok 3 then (Some DistDBError, s1)
            else case (if sv_behavior svc then unfavorite_all ok 100 (ds_ItemID dist) (recipients_of distID s1) s1 else (None, s1)) of
              (Some e, s2) \<Rightarrow> (Some e, s2)
            | (None, s2) \<Rightarrow>
                if status = Some ''revoked'' then
                  (if \<not> ok 4 then (Some DistDBError, s2) else (None, set_receipts (\<lambda>r. rc_DistributionID r = distID) ''dismissed'' now s2))
                else (None, s2))
         else if status = Some ''active'' then
           (if \<not> ok 5 then (Some DistDBError, s1)
            else if sv_behavior svc then
              favorite_all ok (dc_newID call) now 100 (ds_ItemID dist)
                (map rc_UserID (filter (\<lambda>r. rc_DistributionID r = distID \<and> rc_ReceiptStatus r \<noteq> ''dismissed'') (db_receipts s1))) s1
            else (None, s1))
         else (None, s1))"

definition UpdateDistribution ::
  "dist_call \<Rightarrow> dist_service \<Rightarrow> string \<Rightarrow> string \<Rightarrow> bool \<Rightarrow> string option \<Rightarrow> string option \<Rightarrow> string option \<Rightarrow> dist_db \<Rightarrow>
   (dist_error + ItemDistribution) \<times> (string \<times> string) list \<times> dist_db" where
  "UpdateDistribution call svc distID operator isPlatformAdmin status mode message s =
     (let ok = dc_ok call
      in case GetDistributionByID (ok 1) distID s of
           Inl e \<Rightarrow> (Inl e, [], s)
         | Inr dist \<Rightarrow>
             if \<not> canModifyDistribution dist operator isPlatformAdmin then (Inl ErrNotDistributor, [], s)
             else if status = None \<and> mode = None \<and> message = None then (Inr dist, [], s)
             else case update_tx call svc dist status mode message s of
               (Some e, _) \<Rightarrow> (Inl e, [], s)
             | (None, s1) \<Rightarrow>
                 if \<not> ok 0 then (Inl DistDBError, [], s)
                 else
                   (GetDistributionByID (ok 8) distID s1,
                    if sv_notification svc \<and> (status = Some ''revoked'' \<or> status = Some ''paused'') \<and> ok 6
                    then map (\<lambda>u. (u, ''item.'' @ the status)) (recipients_of (ds_ID dist) s1) else [],
                    s1))"

definition RevokeDistribution ::
  "dist_call \<Rightarrow> dist_service \<Rightarrow> string \<Rightarrow> string \<Rightarrow> bool \<Rightarrow> dist_db \<Rightarrow> dist_error option \<times> (string \<times> string) list \<times> dist_db" where
  "RevokeDistribution call svc distID operator isPlatformAdmin s =
     (case UpdateDistribution call svc distID operator isPlatformAdmin (Some ''revoked'') None None s of
        (Inl e, ms, s1) \<Rightarrow> (Some e, ms, s1) | (Inr _, ms, s1) \<Rightarrow> (None, ms, s1))"

text \<open>
  The favourite is removed by a transaction of its own, which does not see the uncommitted receipt: it works on the state before, and stays
  when the commit of the receipt fails.
\<close>

definition DismissReceipt :: "dist_call \<Rightarrow> dist_service \<Rightarrow> string \<Rightarrow> string \<Rightarrow> dist_db \<Rightarrow> dist_error option \<times> dist_db" where
  "DismissReceipt call svc distID user s =
     (let ok = dc_ok call; P = (\<lambda>r. rc_DistributionID r = distID \<and> rc_UserID r = user)
      in if \<not> ok 1 then (Some DistDBError, s)
         else if \<not> list_ex P (db_receipts s) then (Some ReceiptNotFound, s)
         else
           let s1 = (case GetDistributionByID (ok 2) distID s of
                       Inl _ \<Rightarrow> s
                     | Inr dist \<Rightarrow> if sv_behavior svc then snd (UnfavoriteItem (dc_fok call 0) (ds_ItemID dist) user s) else s)
           in if ok 0 then (None, set_receipts P ''dismissed'' (dc_now call) s1) else (Some DistDBError, s1))"

definition MarkReceiptRead :: "dist_call \<Rightarrow> string \<Rightarrow> string \<Rightarrow> dist_db \<Rightarrow> dist_error option \<times> dist_db" where
  "MarkReceiptRead call distID user s =
     (let P = (\<lambda>r. rc_DistributionID r = distID \<and> rc_UserID r = user)
      in if \<not> dc_ok call 1 then (Some DistDBError, s)
         else if \<not> list_ex P (db_receipts s) then (Some ReceiptNotFound, s)
         else (None, set_receipts P ''read'' (dc_now call) s))"

section \<open>Handlers\<close>

definition dist_isPlatformAdmin :: "(nat \<Rightarrow> bool) \<Rightarrow> string \<Rightarrow> role_db \<Rightarrow> bool" where
  "dist_isPlatformAdmin rok user roles \<longleftrightarrow> user \<noteq> [] \<and> HasRole rok user SystemRolePlatformAdmin roles = Inr True"

text \<open>The status of the answer; \<open>None\<close> as the request is a body that does not bind.\<close>

definition DistributeItem_handler ::
  "(nat \<Rightarrow> bool) \<Rightarrow> (nat \<Rightarrow> bool) \<Rightarrow> (nat \<Rightarrow> dist_call) \<Rightarrow> dist_service \<Rightarrow> role_db \<Rightarrow> string \<Rightarrow> string \<Rightarrow> DistributeItemRequest option \<Rightarrow> dist_db \<Rightarrow>
   nat \<times> (string \<times> string) list \<times> dist_db" where
  "DistributeItem_handler rok ok calls svc roles itemID user req s =
     (if \<not> ok 2 \<or> \<not> list_ex (\<lambda>i. it_ID i = itemID) (db_items s) then (404, [], s)
      else
        let admin = dist_isPlatformAdmin rok user roles
        in if \<not> CanDistribute (ok 3) svc user admin s then (403, [], s)
           else case req of
             None \<Rightarrow> (400, [], s)
           | Some r \<Rightarrow>
               (case AuthorizeTargets ok svc user admin (rq_Targets r) s of
                  Some e \<Rightarrow> (if e = ErrUnsupportedScope then 400 else 403, [], s)
                | None \<Rightarrow>
                    (case DistributeItem calls svc itemID user r s of
                       (Inl e, ms, s1) \<Rightarrow> (500, ms, s1)
                     | (Inr results, ms, s1) \<Rightarrow> (201, ms, s1))))"

definition UpdateDistribution_handler ::
  "(nat \<Rightarrow> bool) \<Rightarrow> dist_call \<Rightarrow> dist_service \<Rightarrow> role_db \<Rightarrow> string \<Rightarrow> string \<Rightarrow> (string option \<times> string option \<times> string option) option \<Rightarrow> dist_db \<Rightarrow>
   nat \<times> (string \<times> string) list \<times> dist_db" where
  "UpdateDistribution_handler rok call svc roles distID user req s =
     (case req of
        None \<Rightarrow> (400, [], s)
      | Some (status, mode, message) \<Rightarrow>
          (case UpdateDistribution call svc distID user (dist_isPlatformAdmin rok user roles) status mode message s of
             (Inl ErrDistributionNotFound, ms, s1) \<Rightarrow> (404, ms, s1)
           | (Inl ErrNotDistributor, ms, s1) \<Rightarrow> (403, ms, s1)
           | (Inl _, ms, s1) \<Rightarrow> (500, ms, s1)
           | (Inr _, ms, s1) \<Rightarrow> (200, ms, s1)))"

definition RevokeDistribution_handler ::
  "(nat \<Rightarrow> bool) \<Rightarrow> dist_call \<Rightarrow> dist_service \<Rightarrow> role_db \<Rightarrow> string \<Rightarrow> string \<Rightarrow> dist_db \<Rightarrow> nat \<times> (string \<times> string) list \<times> dist_db" where
  "RevokeDistribution_handler rok call svc roles distID user s =
     (case RevokeDistribution call svc distID user (dist_isPlatformAdmin rok user roles) s of
        (Some ErrDistributionNotFound, ms, s1) \<Rightarrow> (404, ms, s1)
      | (Some ErrNotDistributor, ms, s1) \<Rightarrow> (403, ms, s1)
      | (Some _, ms, s1) \<Rightarrow> (500, ms, s1)
      | (None, ms, s1) \<Rightarrow> (200, ms, s1))"

definition DismissReceipt_handler :: "dist_call \<Rightarrow> dist_service \<Rightarrow> string \<Rightarrow> string \<Rightarrow> dist_db \<Rightarrow> nat \<times> dist_db" where
  "DismissReceipt_handler call svc distID user s =
     (case DismissReceipt call svc distID user s of (Some _, s1) \<Rightarrow> (400, s1) | (None, s1) \<Rightarrow> (200, s1))"

definition MarkReceiptRead_handler :: "dist_call \<Rightarrow> string \<Rightarrow> string \<Rightarrow> dist_db \<Rightarrow> nat \<times> dist_db" where
  "MarkReceiptRead_handler call distID user s =
     (case MarkReceiptRead call distID user s of (Some _, s1) \<Rightarrow> (400, s1) | (None, s1) \<Rightarrow> (200, s1))"

section \<open>Favourites and their counts\<close>

definition has_fav :: "string \<Rightarrow> string \<Rightarrow> dist_db \<Rightarrow> bool" where
  "has_fav item user s \<longleftrightarrow> list_ex (is_favorite item user) (db_favs s)"

definition favs_of :: "string \<Rightarrow> dist_db \<Rightarrow> ItemFavorite list" where
  "favs_of item s = filter (\<lambda>f. fv_ItemID f = item) (db_favs s)"

definition counts_ok :: "dist_db \<Rightarrow> bool" where
  "counts_ok s \<longleftrightarrow> unique_favs (db_favs s) \<and> (\<forall>i \<in> set (db_items s). it_FavoriteCount i = int (length (favs_of (it_ID i) s)))"

text \<open>An operation on favourites leaves the distributions, the receipts and the users alone.\<close>

definition same_dists :: "dist_db \<Rightarrow> dist_db \<Rightarrow> bool" where
  "same_dists s s' \<longleftrightarrow> db_dists s' = db_dists s \<and> db_receipts s' = db_receipts s \<and> db_subjects s' = db_subjects s"

lemma same_dists_refl [simp]: "same_dists s s"
  by (simp add: same_dists_def)

lemma same_dists_trans: "same_dists s s1 \<Longrightarrow> same_dists s1 s2 \<Longrightarrow> same_dists s s2"
  by (simp add: same_dists_def)

lemma same_dists_required: "same_dists s s' \<Longrightarrow> required item user s' = required item user s"
  by (simp add: same_dists_def required_def)

lemma update_count_fields [simp]:
  "db_favs (update_count item f s) = db_favs s" "db_dists (update_count item f s) = db_dists s" "db_receipts (update_count item f s) = db_receipts s"
  "db_subjects (update_count item f s) = db_subjects s"
  by (simp_all add: update_count_def)

lemma counts_updated:
  assumes "\<forall>i \<in> set (db_items s). it_FavoriteCount i = int (length (favs_of (it_ID i) s))"
    and "\<And>i. i \<noteq> item \<Longrightarrow> length (favs_of i s1) = length (favs_of i s)" and "f (int (length (favs_of item s))) = int (length (favs_of item s1))"
    and "db_items s1 = db_items s"
  shows "\<forall>i \<in> set (db_items (update_count item f s1)). it_FavoriteCount i = int (length (favs_of (it_ID i) (update_count item f s1)))"
  using assms by (auto simp: update_count_def favs_of_def)

lemma favoriteItemTx_effect:
  assumes "favoriteItemTx ok newID now item user s = (r, s')"
  shows "same_dists s s' \<and> (counts_ok s \<longrightarrow> counts_ok s') \<and> (\<forall>i u. has_fav i u s \<longrightarrow> has_fav i u s') \<and>
    (\<forall>x. r = Inr x \<longrightarrow> has_fav item user s')"
proof (cases "(\<exists>x. r = Inr x) \<and> \<not> has_fav item user s")
  case False
  then have "s' = s \<and> (\<forall>x. r = Inr x \<longrightarrow> has_fav item user s)" using assms by (auto simp: favoriteItemTx_def Let_def has_fav_def split: if_splits)
  then show ?thesis by auto
next
  case True
  let ?f = "\<lparr>fv_ID = newID, fv_ItemID = item, fv_UserID = user, fv_CreatedAt = now\<rparr>"
  let ?s1 = "s\<lparr>db_favs := db_favs s @ [?f]\<rparr>"
  have e: "s' = update_count item (\<lambda>n. n + 1) ?s1" "unique_favs (db_favs ?s1)"
    using assms True by (auto simp: favoriteItemTx_def Let_def has_fav_def split: if_splits)
  have "counts_ok s'" if c: "counts_ok s"
    unfolding counts_ok_def
  proof
    show "unique_favs (db_favs s')" using e by simp
    show "\<forall>i \<in> set (db_items s'). it_FavoriteCount i = int (length (favs_of (it_ID i) s'))"
      unfolding e(1) by (rule counts_updated[where s = s]) (use c in \<open>simp_all add: counts_ok_def favs_of_def\<close>)
  qed
  then show ?thesis using e(1) by (simp add: same_dists_def has_fav_def is_favorite_def)
qed

lemma one_fav: "unique_favs fs \<Longrightarrow> list_ex (is_favorite item user) fs \<Longrightarrow> length (filter (is_favorite item user) fs) = 1"
proof (induction fs)
  case (Cons a fs)
  have u: "unique_favs fs" using Cons.prems(1) by (simp add: unique_favs_def)
  have none: "filter (is_favorite item user) fs = []" if "is_favorite item user a"
    using Cons.prems(1) that by (auto simp: unique_favs_def is_favorite_def filter_empty_conv image_iff)
  show ?case using Cons.IH[OF u] Cons.prems(2) none by (cases "is_favorite item user a") simp_all
qed simp

lemma removed_length:
  assumes "unique_favs (db_favs s)" "has_fav item user s"
  shows "length (favs_of item s) = Suc (length (favs_of item (s\<lparr>db_favs := filter (\<lambda>f. \<not> is_favorite item user f) (db_favs s)\<rparr>)))"
proof -
  have "length (filter (\<lambda>f. fv_ItemID f = item) fs) =
      length (filter (is_favorite item user) fs) + length (filter (\<lambda>f. fv_ItemID f = item) (filter (\<lambda>f. \<not> is_favorite item user f) fs))" for fs
    by (induction fs) (auto simp: is_favorite_def)
  then show ?thesis using one_fav[of "db_favs s" item user] assms by (simp add: favs_of_def has_fav_def)
qed

lemma kept_length:
  "i \<noteq> item \<or> \<not> has_fav item user s \<Longrightarrow> length (favs_of i (s\<lparr>db_favs := filter (\<lambda>f. \<not> is_favorite item user f) (db_favs s)\<rparr>)) = length (favs_of i s)"
  by (auto simp: favs_of_def has_fav_def is_favorite_def list_ex_iff intro!: arg_cong[of _ _ length] filter_cong)

lemma unfavoriteItemTx_effect:
  assumes "unfavoriteItemTx ok item user s = (r, s')"
  shows "same_dists s s' \<and> (counts_ok s \<longrightarrow> counts_ok s') \<and>
    (\<forall>i u. has_fav i u s' \<longleftrightarrow> has_fav i u s \<and> \<not> (i = item \<and> u = user \<and> (\<exists>x. r = Inr x))) \<and> ((\<exists>x. r = Inr x) \<longrightarrow> \<not> required item user s) \<and>
    (r = Inl ErrSkillRequired \<longrightarrow> required item user s)"
proof (cases r)
  case (Inl e)
  then show ?thesis using assms by (auto simp: unfavoriteItemTx_def Let_def split: if_splits)
next
  case (Inr x)
  let ?s1 = "s\<lparr>db_favs := filter (\<lambda>f. \<not> is_favorite item user f) (db_favs s)\<rparr>" and ?dec = "\<lambda>n :: int. if n > 0 then n - 1 else 0"
  have e: "s' = (if has_fav item user s then update_count item ?dec ?s1 else ?s1)" "\<not> required item user s"
    using assms Inr by (auto simp: unfavoriteItemTx_def Let_def has_fav_def split: if_splits)
  have favs: "db_favs s' = filter (\<lambda>f. \<not> is_favorite item user f) (db_favs s)" by (simp add: e(1))
  have "counts_ok s'" if c: "counts_ok s"
    unfolding counts_ok_def
  proof
    show "unique_favs (db_favs s')" using c unfolding favs by (simp add: counts_ok_def unique_favs_def distinct_map_filter)
    show "\<forall>i \<in> set (db_items s'). it_FavoriteCount i = int (length (favs_of (it_ID i) s'))"
    proof (cases "has_fav item user s")
      case True
      have u: "unique_favs (db_favs s)" using c by (simp add: counts_ok_def)
      have "\<forall>i \<in> set (db_items (update_count item ?dec ?s1)). it_FavoriteCount i = int (length (favs_of (it_ID i) (update_count item ?dec ?s1)))"
        by (rule counts_updated[where s = s]) (use c kept_length[of _ item user s] removed_length[OF u True] in \<open>simp_all add: counts_ok_def\<close>)
      then show ?thesis using e(1) True by simp
    next
      case False
      have "s' = ?s1" using e(1) False by simp
      then show ?thesis using c kept_length[of _ item user s] False by (simp add: counts_ok_def)
    qed
  qed
  moreover have "has_fav i u s' \<longleftrightarrow> has_fav i u s \<and> \<not> (i = item \<and> u = user)" for i u
    unfolding has_fav_def favs by (auto simp: list_ex_iff is_favorite_def)
  moreover have "same_dists s s'" by (simp add: e(1) same_dists_def)
  ultimately show ?thesis using Inr e(2) by simp
qed

section \<open>Effects\<close>

definition dist_good :: "dist_db \<Rightarrow> bool" where
  "dist_good s \<longleftrightarrow> counts_ok s \<and> unique_receipts (db_receipts s) \<and> distinct (map ds_ID (db_dists s))"

definition grows :: "dist_db \<Rightarrow> dist_db \<Rightarrow> bool" where
  "grows s s' \<longleftrightarrow> (dist_good s \<longrightarrow> dist_good s') \<and> (\<forall>i u. has_fav i u s \<longrightarrow> has_fav i u s')"

lemma grows_refl [simp]: "grows s s"
  by (simp add: grows_def)

lemma grows_trans: "grows s s1 \<Longrightarrow> grows s1 s2 \<Longrightarrow> grows s s2"
  by (simp add: grows_def)

lemma good_same: "same_dists s s' \<Longrightarrow> (counts_ok s \<longrightarrow> counts_ok s') \<Longrightarrow> dist_good s \<Longrightarrow> dist_good s'"
  by (simp add: dist_good_def same_dists_def)

lemma in_tx_cases: "in_tx ok r s = (x, s') \<Longrightarrow> s' = s \<and> (\<exists>e. x = Inl e) \<or> r = (x, s') \<and> (\<exists>y. x = Inr y)"
  by (cases r, cases "fst r") (auto simp: in_tx_def split: if_splits)

lemma FavoriteItem_grows: "grows s (snd (FavoriteItem ok newID now item user s)) \<and> same_dists s (snd (FavoriteItem ok newID now item user s))"
proof -
  obtain x s' where f: "FavoriteItem ok newID now item user s = (x, s')" by fastforce
  from in_tx_cases[OF f[unfolded FavoriteItem_def]] show ?thesis
  proof
    assume "favoriteItemTx ok newID now item user s = (x, s') \<and> (\<exists>y. x = Inr y)"
    then show ?thesis using favoriteItemTx_effect[of ok newID now item user s x s'] good_same[of s s'] f by (simp add: grows_def)
  qed (simp add: f)
qed

lemma favorite_each_grows: "grows s (favorite_each fok newID now k item us s) \<and> same_dists s (favorite_each fok newID now k item us s)"
proof (induction us arbitrary: k s)
  case (Cons u us)
  let ?s1 = "snd (FavoriteItem (fok k) (newID (Suc (Suc (2 * k)))) now item u s)"
  note f = FavoriteItem_grows[of s "fok k" "newID (Suc (Suc (2 * k)))" now item u]
  show ?case using Cons[of ?s1 "Suc k"] f grows_trans[of s ?s1] same_dists_trans[of s ?s1] by simp
qed simp

lemma create_receipts_effect:
  assumes "create_receipts ok newID now k distID us s = (e, s')"
  shows "db_dists s' = db_dists s \<and> db_favs s' = db_favs s \<and> db_items s' = db_items s \<and> db_subjects s' = db_subjects s \<and>
    (unique_receipts (db_receipts s) \<longrightarrow> unique_receipts (db_receipts s')) \<and>
    (\<forall>r \<in> set (db_receipts s'). r \<in> set (db_receipts s) \<or> rc_DistributionID r = distID \<and> rc_UserID r \<in> set us)"
  using assms
proof (induction us arbitrary: k s)
  case (Cons u us)
  let ?r = "\<lparr>rc_ID = newID (Suc (2 * k)), rc_DistributionID = distID, rc_UserID = u, rc_ReceiptStatus = ''unread'', rc_CreatedAt = now, rc_UpdatedAt = now\<rparr>"
  let ?s1 = "if unique_receipts (db_receipts s @ [?r]) then s\<lparr>db_receipts := db_receipts s @ [?r]\<rparr> else s"
  show ?case
  proof (cases "ok (100 + k)")
    case False
    then show ?thesis using Cons.prems by (simp add: Let_def)
  next
    case True
    then have "create_receipts ok newID now (Suc k) distID us ?s1 = (e, s')" using Cons.prems by (simp add: Let_def)
    note IH = Cons.IH[OF this]
    then show ?thesis by (cases "unique_receipts (db_receipts s @ [?r])") auto
  qed
qed simp

lemma resolve_subjects:
  assumes "db_subjects s' = db_subjects s"
  shows "resolveRecipients ok svc t s' = resolveRecipients ok svc t s"
  unfolding resolveRecipients_def assms ..

lemma distributeToTarget_effect:
  assumes "distributeToTarget call svc item distributorID req t s = (res, ms, s')"
  shows "grows s s' \<and> db_subjects s' = db_subjects s \<and>
    (\<forall>r \<in> set (db_receipts s'). r \<in> set (db_receipts s) \<or> (\<exists>ok recipients. resolveRecipients ok svc t s = Inr recipients \<and> rc_UserID r \<in> set recipients))"
proof (cases res)
  case (Inl e)
  then have "s' = s" using assms by (auto simp: distributeToTarget_def Let_def split: if_splits sum.splits prod.splits option.splits)
  then show ?thesis by simp
next
  case (Inr x)
  let ?d = "new_distribution (dc_newID call 0) (dc_now call) item distributorID t req"
  let ?s1 = "s\<lparr>db_dists := db_dists s @ [?d]\<rparr>"
  have fresh: "ds_ID ?d \<notin> set (map ds_ID (db_dists s))" using assms Inr by (auto simp: distributeToTarget_def Let_def)
  obtain recipients s2 where
      rr: "resolveRecipients (dc_ok call 2) svc t ?s1 = Inr recipients"
      and cr: "create_receipts (dc_ok call) (dc_newID call) (dc_now call) 0 (ds_ID ?d) recipients ?s1 = (None, s2)"
      and s': "s' = (if sv_behavior svc then favorite_each (dc_fok call) (dc_newID call) (dc_now call) 0 item recipients s2 else s2)"
    using assms Inr fresh by (auto simp: distributeToTarget_def Let_def split: if_splits sum.splits prod.splits option.splits)
  have rr': "resolveRecipients (dc_ok call 2) svc t s = Inr recipients" using rr resolve_subjects[of ?s1 s] by simp
  note c = create_receipts_effect[OF cr]
  have "grows s s2" unfolding grows_def
    using c fresh by (auto simp: dist_good_def counts_ok_def favs_of_def has_fav_def)
  moreover have g: "grows s2 s' \<and> same_dists s2 s'" unfolding s' using favorite_each_grows by simp
  ultimately have "grows s s'" using grows_trans by blast
  moreover have "db_receipts s' = db_receipts s2" "db_subjects s' = db_subjects s" using g c by (simp_all add: same_dists_def)
  ultimately show ?thesis using c rr' by auto
qed

lemma distribute_loop_effect:
  assumes "distribute_loop calls k svc item distributorID req ts s = (res, ms, s')"
  shows "grows s s' \<and> db_subjects s' = db_subjects s \<and>
    (\<forall>r \<in> set (db_receipts s'). r \<in> set (db_receipts s) \<or>
       (\<exists>t \<in> set ts. \<exists>ok recipients. resolveRecipients ok svc t s = Inr recipients \<and> rc_UserID r \<in> set recipients))"
  using assms
proof (induction ts arbitrary: k s res ms s')
  case (Cons t ts)
  obtain r1 ms1 s1 where d: "distributeToTarget (calls k) svc item distributorID req t s = (r1, ms1, s1)" by (metis prod_cases3)
  note e1 = distributeToTarget_effect[OF d]
  show ?case
  proof (cases r1)
    case (Inl e)
    then have "s' = s1" using Cons.prems d by simp
    then show ?thesis using e1 by auto
  next
    case (Inr x)
    obtain r2 ms2 s2 where l: "distribute_loop calls (Suc k) svc item distributorID req ts s1 = (r2, ms2, s2)" by (metis prod_cases3)
    have s': "s' = s2" using Cons.prems d Inr l by (auto split: sum.splits)
    have sub: "db_subjects s1 = db_subjects s" using e1 by simp
    note e2 = Cons.IH[OF l, unfolded resolve_subjects[OF sub]]
    have "grows s s2" using e1 e2 grows_trans[of s s1 s2] by simp
    moreover have "r \<in> set (db_receipts s) \<or> (\<exists>t' \<in> set (t # ts). \<exists>ok recipients. resolveRecipients ok svc t' s = Inr recipients \<and> rc_UserID r \<in> set recipients)"
      if r: "r \<in> set (db_receipts s2)" for r
    proof -
      have "r \<in> set (db_receipts s1) \<or> (\<exists>t' \<in> set ts. \<exists>ok recipients. resolveRecipients ok svc t' s = Inr recipients \<and> rc_UserID r \<in> set recipients)"
        using e2 r by blast
      then show ?thesis using e1 by (metis list.set_intros)
    qed
    ultimately show ?thesis using s' e2 sub by simp
  qed
qed simp

text \<open>The loops of a change of status.\<close>

lemma unfavorite_all_effect:
  assumes "unfavorite_all ok n item us s = (None, s')"
  shows "same_dists s s' \<and> (counts_ok s \<longrightarrow> counts_ok s') \<and>
    (\<forall>i u. has_fav i u s' \<longleftrightarrow> has_fav i u s \<and> \<not> (i = item \<and> u \<in> set us \<and> \<not> required item u s))"
  using assms
proof (induction us arbitrary: n s)
  case (Cons u us)
  obtain r s1 where t: "unfavoriteItemTx (\<lambda>k. ok (n + k)) item u s = (r, s1)" by fastforce
  note e = unfavoriteItemTx_effect[OF t]
  have rest: "unfavorite_all ok (n + 10) item us s1 = (None, s')" and r: "r = Inl ErrSkillRequired \<or> (\<exists>x. r = Inr x)"
    using Cons.prems t by (auto split: sum.splits if_splits)
  have req: "required item x s1 = required item x s" for x using e same_dists_required[of s s1] by blast
  have gone: "(\<exists>x. r = Inr x) \<longleftrightarrow> \<not> required item u s" using e r by auto
  show ?case using Cons.IH[OF rest] e same_dists_trans[of s s1 s'] req gone by auto
qed simp

lemma favorite_all_effect:
  assumes "favorite_all ok newID now n item us s = (None, s')"
  shows "same_dists s s' \<and> (counts_ok s \<longrightarrow> counts_ok s') \<and> (\<forall>i u. has_fav i u s \<longrightarrow> has_fav i u s')"
  using assms
proof (induction us arbitrary: n s)
  case (Cons u us)
  obtain r s1 where t: "favoriteItemTx (\<lambda>k. ok (n + k)) (newID n) now item u s = (r, s1)" by fastforce
  have rest: "favorite_all ok newID now (n + 10) item us s1 = (None, s')" using Cons.prems t by (auto split: sum.splits)
  show ?case using Cons.IH[OF rest] favoriteItemTx_effect[OF t] same_dists_trans[of s s1 s'] by simp
qed simp

text \<open>What every operation keeps: the invariant, and the favourites of items that are still required afterwards.\<close>

definition keeps :: "dist_db \<Rightarrow> dist_db \<Rightarrow> bool" where
  "keeps s s' \<longleftrightarrow> (dist_good s \<longrightarrow> dist_good s') \<and> (\<forall>i u. has_fav i u s \<and> required i u s' \<longrightarrow> has_fav i u s')"

lemma keeps_refl [simp]: "keeps s s"
  by (simp add: keeps_def)

lemma grows_keeps: "grows s s' \<Longrightarrow> keeps s s'"
  by (simp add: grows_def keeps_def)

lemma update_dist_fields [simp]:
  "db_receipts (update_dist distID f s) = db_receipts s" "db_favs (update_dist distID f s) = db_favs s" "db_items (update_dist distID f s) = db_items s"
  "db_subjects (update_dist distID f s) = db_subjects s"
  by (simp_all add: update_dist_def)

lemma update_dist_ids: "(\<And>d. ds_ID (f d) = ds_ID d) \<Longrightarrow> map ds_ID (db_dists (update_dist distID f s)) = map ds_ID (db_dists s)"
  by (simp add: update_dist_def)

lemma apply_updates_ID [simp]: "ds_ID (apply_dist_updates now status mode message d) = ds_ID d"
  "ds_ItemID (apply_dist_updates now status mode message d) = ds_ItemID d"
  by (simp_all add: apply_dist_updates_def)

lemma set_receipts_fields [simp]:
  "db_dists (set_receipts P st now s) = db_dists s" "db_favs (set_receipts P st now s) = db_favs s" "db_items (set_receipts P st now s) = db_items s"
  "db_subjects (set_receipts P st now s) = db_subjects s"
  by (simp_all add: set_receipts_def)

lemma set_receipts_unique: "unique_receipts (db_receipts (set_receipts P st now s)) = unique_receipts (db_receipts s)"
proof -
  let ?g = "\<lambda>r. if P r then r\<lparr>rc_ReceiptStatus := st, rc_UpdatedAt := now\<rparr> else r"
  have a: "map rc_ID (map ?g rs) = map rc_ID rs" and b: "map (\<lambda>r. (rc_DistributionID r, rc_UserID r)) (map ?g rs) = map (\<lambda>r. (rc_DistributionID r, rc_UserID r)) rs" for rs
    by simp_all
  have r: "db_receipts (set_receipts P st now s) = map ?g (db_receipts s)" by (simp add: set_receipts_def)
  show ?thesis unfolding unique_receipts_def r a b ..
qed

lemma dismissed_required: "required i u (set_receipts P ''dismissed'' now s) \<Longrightarrow> required i u s"
  by (auto simp: required_def set_receipts_def list_ex_iff split: if_splits)

lemma receipts_good: "dist_good s \<Longrightarrow> dist_good (set_receipts P st now s)"
  by (simp add: dist_good_def counts_ok_def favs_of_def set_receipts_unique)

lemma updated_good:
  "dist_good s \<Longrightarrow> dist_good (update_dist distID (apply_dist_updates now status mode message) s)"
  by (simp add: dist_good_def counts_ok_def favs_of_def update_dist_ids)

lemma has_fav_fields: "db_favs s' = db_favs s \<Longrightarrow> has_fav i u s' = has_fav i u s"
  by (simp add: has_fav_def)

lemma update_tx_keeps:
  assumes "update_tx call svc dist status mode message s = (None, s')"
  shows "keeps s s'"
proof -
  let ?s1 = "update_dist (ds_ID dist) (apply_dist_updates (dc_now call) status mode message) s"
  let ?stop = "status = Some ''revoked'' \<or> status = Some ''paused''"
  have fav1: "has_fav i u ?s1 = has_fav i u s" for i u by (rule has_fav_fields) simp
  show ?thesis
  proof (cases ?stop)
    case True
    then obtain s2 where u: "(if sv_behavior svc then unfavorite_all (dc_ok call) 100 (ds_ItemID dist) (recipients_of (ds_ID dist) ?s1) ?s1 else (None, ?s1)) = (None, s2)"
        and s': "s' = s2 \<or> s' = set_receipts (\<lambda>r. rc_DistributionID r = ds_ID dist) ''dismissed'' (dc_now call) s2"
      using assms by (auto simp: update_tx_def Let_def split: if_splits prod.splits option.splits)
    have e: "same_dists ?s1 s2 \<and> (counts_ok ?s1 \<longrightarrow> counts_ok s2) \<and> (\<forall>i u. has_fav i u ?s1 \<and> required i u ?s1 \<longrightarrow> has_fav i u s2)"
      using u unfavorite_all_effect[of "dc_ok call" 100 "ds_ItemID dist" "recipients_of (ds_ID dist) ?s1" ?s1 s2] by (auto split: if_splits)
    have "dist_good s2" if "dist_good s" using good_same[of ?s1 s2] e updated_good[OF that] by blast
    then have g: "dist_good s \<longrightarrow> dist_good s'" using s' receipts_good by blast
    have "required i u ?s1" if "required i u s'" for i u
      using that s' dismissed_required same_dists_required[of ?s1 s2 i u] e by blast
    moreover have "has_fav i u s' = has_fav i u s2" for i u using s' by (auto simp: has_fav_def)
    ultimately show ?thesis using g e fav1 unfolding keeps_def by blast
  next
    case False
    then have "s' = ?s1 \<or> (\<exists>us. favorite_all (dc_ok call) (dc_newID call) (dc_now call) 100 (ds_ItemID dist) us ?s1 = (None, s'))"
      using assms by (auto simp: update_tx_def Let_def split: if_splits)
    then have "same_dists ?s1 s' \<and> (counts_ok ?s1 \<longrightarrow> counts_ok s') \<and> (\<forall>i u. has_fav i u ?s1 \<longrightarrow> has_fav i u s')"
      using favorite_all_effect by fastforce
    then show ?thesis using good_same[of ?s1 s'] updated_good fav1 unfolding keeps_def by blast
  qed
qed

lemma UpdateDistribution_cases:
  assumes "UpdateDistribution call svc distID operator admin status mode message s = (res, ms, s')"
  obtains "s' = s"
  | dist where "GetDistributionByID (dc_ok call 1) distID s = Inr dist" "canModifyDistribution dist operator admin"
      "update_tx call svc dist status mode message s = (None, s')" "res = GetDistributionByID (dc_ok call 8) distID s'"
  using assms by (auto simp: UpdateDistribution_def Let_def split: sum.splits if_splits prod.splits option.splits)

lemma UpdateDistribution_keeps: "keeps s (snd (snd (UpdateDistribution call svc distID operator admin status mode message s)))"
proof -
  obtain res ms s' where u: "UpdateDistribution call svc distID operator admin status mode message s = (res, ms, s')" by (metis prod_cases3)
  then have "keeps s s'" by (cases rule: UpdateDistribution_cases) (use update_tx_keeps in auto)
  then show ?thesis by (simp add: u)
qed

lemma UnfavoriteItem_keeps:
  "keeps s (snd (UnfavoriteItem ok item user s)) \<and> same_dists s (snd (UnfavoriteItem ok item user s))"
proof -
  obtain x s' where f: "UnfavoriteItem ok item user s = (x, s')" by fastforce
  from in_tx_cases[OF f[unfolded UnfavoriteItem_def]] show ?thesis
  proof
    assume "unfavoriteItemTx ok item user s = (x, s') \<and> (\<exists>y. x = Inr y)"
    then show ?thesis using unfavoriteItemTx_effect[of ok item user s x s'] good_same[of s s'] same_dists_required[of s s'] f by (auto simp: keeps_def)
  qed (simp add: f)
qed

lemma receipts_keep: "keeps s s1 \<Longrightarrow> keeps s (set_receipts P ''dismissed'' now s1)"
  unfolding keeps_def using receipts_good dismissed_required by (auto simp: has_fav_def)

lemma DismissReceipt_keeps: "keeps s (snd (DismissReceipt call svc distID user s))"
proof -
  let ?P = "\<lambda>r. rc_DistributionID r = distID \<and> rc_UserID r = user"
  let ?s1 = "case GetDistributionByID (dc_ok call 2) distID s of Inl _ \<Rightarrow> s
     | Inr dist \<Rightarrow> if sv_behavior svc then snd (UnfavoriteItem (dc_fok call 0) (ds_ItemID dist) user s) else s"
  have k: "keeps s ?s1" using UnfavoriteItem_keeps[of s "dc_fok call 0" _ user] by (simp split: sum.split)
  have "snd (DismissReceipt call svc distID user s) \<in> {s, ?s1, set_receipts ?P ''dismissed'' (dc_now call) ?s1}"
    by (simp add: DismissReceipt_def Let_def)
  then show ?thesis using k receipts_keep[OF k] keeps_refl by auto
qed

section \<open>Sequences of operations\<close>

datatype dist_op =
    DoDistribute "nat \<Rightarrow> bool" "nat \<Rightarrow> bool" "nat \<Rightarrow> dist_call" dist_service role_db string string "DistributeItemRequest option"
  | DoUpdate "nat \<Rightarrow> bool" dist_call dist_service role_db string string "(string option \<times> string option \<times> string option) option"
  | DoRevoke "nat \<Rightarrow> bool" dist_call dist_service role_db string string
  | DoDismiss dist_call dist_service string string
  | DoRead dist_call string string
  | DoFavorite "nat \<Rightarrow> bool" string int string string
  | DoUnfavorite "nat \<Rightarrow> bool" string string

fun dist_step :: "dist_op \<Rightarrow> dist_db \<Rightarrow> dist_db" where
  "dist_step (DoDistribute rok ok calls svc roles item user req) s = snd (snd (DistributeItem_handler rok ok calls svc roles item user req s))"
| "dist_step (DoUpdate rok call svc roles distID user req) s = snd (snd (UpdateDistribution_handler rok call svc roles distID user req s))"
| "dist_step (DoRevoke rok call svc roles distID user) s = snd (snd (RevokeDistribution_handler rok call svc roles distID user s))"
| "dist_step (DoDismiss call svc distID user) s = snd (DismissReceipt_handler call svc distID user s)"
| "dist_step (DoRead call distID user) s = snd (MarkReceiptRead_handler call distID user s)"
| "dist_step (DoFavorite ok newID now item user) s = snd (FavoriteItem ok newID now item user s)"
| "dist_step (DoUnfavorite ok item user) s = snd (UnfavoriteItem ok item user s)"

lemma DistributeItem_handler_state:
  "snd (snd (DistributeItem_handler rok ok calls svc roles item user req s)) = s \<or>
   (\<exists>r. req = Some r \<and> AuthorizeTargets ok svc user (dist_isPlatformAdmin rok user roles) (rq_Targets r) s = None \<and>
        snd (snd (DistributeItem_handler rok ok calls svc roles item user req s)) = snd (snd (DistributeItem calls svc item user r s)))"
  by (simp add: DistributeItem_handler_def Let_def split: option.split sum.split prod.split)

lemma DistributeItem_effect:
  "grows s (snd (snd (DistributeItem calls svc item user r s))) \<and>
   (\<forall>x \<in> set (db_receipts (snd (snd (DistributeItem calls svc item user r s)))). x \<in> set (db_receipts s) \<or>
       (\<exists>t \<in> set (rq_Targets r). \<exists>ok recipients. resolveRecipients ok svc t s = Inr recipients \<and> rc_UserID x \<in> set recipients))"
proof (cases "validateDistributionTargets (rq_Targets r)")
  case None
  obtain res ms s' where l: "distribute_loop calls 0 svc item user r (rq_Targets r) s = (res, ms, s')" by (metis prod_cases3)
  then show ?thesis using distribute_loop_effect[OF l] None by (simp add: DistributeItem_def)
qed (simp add: DistributeItem_def)

lemma MarkReceiptRead_keeps: "keeps s (snd (MarkReceiptRead call distID user s))"
  by (auto simp: MarkReceiptRead_def Let_def keeps_def receipts_good has_fav_def)

lemma handler_states:
  "snd (snd (UpdateDistribution_handler rok call svc roles distID user (Some (status, mode, message)) s)) =
     snd (snd (UpdateDistribution call svc distID user (dist_isPlatformAdmin rok user roles) status mode message s))"
  "snd (snd (RevokeDistribution_handler rok call svc roles distID user s)) =
     snd (snd (UpdateDistribution call svc distID user (dist_isPlatformAdmin rok user roles) (Some ''revoked'') None None s))"
  by (auto simp: UpdateDistribution_handler_def RevokeDistribution_handler_def RevokeDistribution_def split: prod.split sum.split dist_error.split)

lemma dist_step_keeps: "keeps s (dist_step a s)"
proof (cases a)
  case (DoDistribute rok ok calls svc roles item user req)
  then show ?thesis
    using DistributeItem_handler_state[of rok ok calls svc roles item user req s] DistributeItem_effect[of s calls svc item user] grows_keeps
    by (metis dist_step.simps(1) keeps_refl)
next
  case (DoUpdate rok call svc roles distID user req)
  then show ?thesis
    using UpdateDistribution_keeps handler_states(1)[of rok call svc roles distID user _ _ _ s] by (cases req) (auto simp: UpdateDistribution_handler_def[where req = None])
next
  case (DoRevoke rok call svc roles distID user)
  then show ?thesis using UpdateDistribution_keeps handler_states(2) by simp
next
  case (DoDismiss call svc distID user)
  then show ?thesis using DismissReceipt_keeps[of s call svc distID user] by (auto simp: DismissReceipt_handler_def split: prod.splits option.splits)
next
  case (DoRead call distID user)
  then show ?thesis using MarkReceiptRead_keeps[of s call distID user] by (auto simp: MarkReceiptRead_handler_def split: prod.splits option.splits)
next
  case (DoFavorite ok newID now item user)
  then show ?thesis using FavoriteItem_grows grows_keeps by simp
next
  case (DoUnfavorite ok item user)
  then show ?thesis using UnfavoriteItem_keeps by simp
qed

interpretation distributions: stepped dist_step dist_good
  by unfold_locales (use dist_step_keeps in \<open>auto simp: keeps_def\<close>)

section \<open>Revocation\<close>

lemma revoked_required:
  assumes "\<forall>d \<in> set (db_dists s). ds_ID d = distID \<longrightarrow> ds_Status d \<noteq> ''active''"
  shows "required i u (set_receipts (\<lambda>r. rc_DistributionID r = distID) st now s) = required i u s"
proof -
  let ?g = "\<lambda>r. if rc_DistributionID r = distID then r\<lparr>rc_ReceiptStatus := st, rc_UpdatedAt := now\<rparr> else r"
  let ?Q = "\<lambda>r. rc_UserID r = u \<and> rc_ReceiptStatus r \<noteq> ''dismissed'' \<and>
        list_ex (\<lambda>d. ds_ID d = rc_DistributionID r \<and> ds_ItemID d = i \<and> ds_Status d = ''active'' \<and> ds_PermissionMode d = ''readonly'') (db_dists s)"
  have q: "?Q (?g r) = ?Q r" for r using assms by (auto simp: list_ex_iff)
  have l: "list_ex ?Q (map ?g rs) = list_ex ?Q rs" for rs by (simp only: list_ex_iff[of _ "map _ _"] list_ex_iff[of _ rs] set_map bex_simps q)
  have "db_receipts (set_receipts (\<lambda>r. rc_DistributionID r = distID) st now s) = map ?g (db_receipts s)" by (simp add: set_receipts_def)
  then show ?thesis unfolding required_def set_receipts_fields using l by simp
qed

lemma RevokeDistribution_effect:
  assumes "RevokeDistribution call svc distID operator admin s = (None, ms, s')"
  obtains dist s2 where "dist \<in> set (db_dists s)" "ds_ID dist = distID" "canModifyDistribution dist operator admin"
    "(if sv_behavior svc then unfavorite_all (dc_ok call) 100 (ds_ItemID dist) (recipients_of distID s)
         (update_dist distID (apply_dist_updates (dc_now call) (Some ''revoked'') None None) s)
      else (None, update_dist distID (apply_dist_updates (dc_now call) (Some ''revoked'') None None) s)) = (None, s2)"
    "s' = set_receipts (\<lambda>r. rc_DistributionID r = distID) ''dismissed'' (dc_now call) s2"
proof -
  obtain d where u: "UpdateDistribution call svc distID operator admin (Some ''revoked'') None None s = (Inr d, ms, s')"
    using assms by (auto simp: RevokeDistribution_def split: prod.splits sum.splits)
  have ok: "GetDistributionByID (dc_ok call 1) distID s = Inr x \<Longrightarrow> x \<in> set (db_dists s) \<and> ds_ID x = distID" for x
    by (auto simp: GetDistributionByID_def split: if_splits option.splits dest: find_SomeD)
  obtain dist where dist: "GetDistributionByID (dc_ok call 1) distID s = Inr dist" "canModifyDistribution dist operator admin"
      "update_tx call svc dist (Some ''revoked'') None None s = (None, s')"
    using u by (auto simp: UpdateDistribution_def Let_def split: sum.splits if_splits prod.splits option.splits)
  note m = ok[OF dist(1)]
  have r: "recipients_of (ds_ID dist) (update_dist x f s) = recipients_of (ds_ID dist) s" for x f by (simp add: recipients_of_def)
  obtain s2 where "(if sv_behavior svc then unfavorite_all (dc_ok call) 100 (ds_ItemID dist) (recipients_of distID s)
         (update_dist distID (apply_dist_updates (dc_now call) (Some ''revoked'') None None) s)
      else (None, update_dist distID (apply_dist_updates (dc_now call) (Some ''revoked'') None None) s)) = (None, s2)"
    "s' = set_receipts (\<lambda>r. rc_DistributionID r = distID) ''dismissed'' (dc_now call) s2"
    using dist(3) m r by (auto simp: update_tx_def Let_def split: if_splits prod.splits option.splits)
  then show ?thesis using that m dist(2) by blast
qed

section \<open>Reach\<close>

text \<open>
  The universal identifier of a live user.  The paths that an operator may distribute to: those of the departments with sub-departments
  that the operator is a member of, the rule that \<^verbatim>\<open>ledDepartmentsFor\<close> documents; no leader is looked at.  A user is in reach if one
  of his departments is at or below such a path, or a department whose members he is among is.  The subject of a target that names a user
  is compared without the white space around it, while the receipt has it as given (lemma \<open>untrimmed_recipient\<close> below).
\<close>

definition known_as :: "dist_db \<Rightarrow> string \<Rightarrow> string \<Rightarrow> bool" where
  "known_as s subject uid \<longleftrightarrow> uid \<noteq> [] \<and> (\<exists>v \<in> set (db_subjects s). su_live v \<and> su_SubjectID v = subject \<and> su_UniversalID v = Some uid)"

definition nonleaf_member :: "deptMemberResolver \<Rightarrow> string \<Rightarrow> dist_db \<Rightarrow> string \<Rightarrow> bool" where
  "nonleaf_member r operator s path \<longleftrightarrow>
     path \<noteq> [] \<and>
     (\<exists>uid depts d node. known_as s (trim_space operator) uid \<and> dr_GetUserDepartments r uid = Inr depts \<and> d \<in> set depts \<and>
        dr_DepartmentSubtree r (dt_DeptID d) = Inr (Some node) \<and> dt_Children node \<noteq> [] \<and> path = dt_DeptPath node)"

definition in_reach :: "deptMemberResolver \<Rightarrow> string \<Rightarrow> dist_db \<Rightarrow> string \<Rightarrow> bool" where
  "in_reach r operator s user \<longleftrightarrow>
     (\<exists>m. nonleaf_member r operator s m \<and>
        ((\<exists>uid depts. known_as s (trim_space user) uid \<and> dr_GetUserDepartments r uid = Inr depts \<and> (\<exists>d \<in> set depts. pathHasPrefix (dt_DeptPath d) m)) \<or>
         (\<exists>dept path members. dr_GetDepartmentPath r dept = Inr path \<and> pathHasPrefix path m \<and> dr_GetDeptUsersTree r dept = Inr members \<and>
            (\<exists>x \<in> set members. known_as s user (du_UniversalID x)))))"

lemma anyPrefixMatch_path: "anyPrefixMatch path ps \<longleftrightarrow> (\<exists>p \<in> set ps. pathHasPrefix path p)"
  by (auto simp: anyPrefixMatch_def pathHasPrefix_def list_ex_iff)

lemma dedupe_fold: "set (fold (\<lambda>x out. if x \<in> set out then out else out @ [x]) xs out) = set out \<union> set xs"
  by (induction xs arbitrary: out) auto

lemma set_dedupe [simp]: "set (dedupeStrings xs) = set xs"
  by (simp add: dedupeStrings_def dedupe_fold)

lemma led_loop_sound:
  "led_loop r ds seen = Inr nodes \<Longrightarrow> node \<in> set nodes \<Longrightarrow> \<exists>d \<in> set ds. dr_DepartmentSubtree r (dt_DeptID d) = Inr (Some node) \<and> dt_Children node \<noteq> []"
proof (induction ds arbitrary: seen nodes)
  case (Cons d ds)
  have skip: ?case if "led_loop r ds seen = Inr nodes" using Cons.IH[OF that Cons.prems(2)] by simp
  show ?case
  proof (cases "\<exists>n. dt_DeptID d \<noteq> [] \<and> dr_DepartmentSubtree r (dt_DeptID d) = Inr (Some n) \<and> dt_Children n \<noteq> [] \<and> dt_DeptPath n \<notin> set seen")
    case True
    then obtain n where n: "dt_DeptID d \<noteq> []" "dr_DepartmentSubtree r (dt_DeptID d) = Inr (Some n)" "dt_Children n \<noteq> []" "dt_DeptPath n \<notin> set seen" by blast
    then obtain rest where rest: "led_loop r ds (dt_DeptPath n # seen) = Inr rest" "nodes = n # rest" using Cons.prems(1) by (simp split: sum.splits)
    show ?thesis
    proof (cases "node = n")
      case True
      then show ?thesis using n by simp
    next
      case False
      then show ?thesis using Cons.IH[OF rest(1)] rest(2) Cons.prems(2) by simp
    qed
  next
    case False
    then have "led_loop r ds seen = Inr nodes" using Cons.prems(1) by (simp split: if_splits sum.splits option.splits)
    then show ?thesis by (rule skip)
  qed
qed simp

lemma universalID_known:
  assumes "dist_universalIDFor ok u s \<noteq> []"
  shows "known_as s (trim_space u) (dist_universalIDFor ok u s)"
proof -
  obtain v where v: "find (\<lambda>v. su_live v \<and> su_SubjectID v = trim_space u) (db_subjects s) = Some v"
      "su_UniversalID v = Some (dist_universalIDFor ok u s)"
    using assms by (auto simp: dist_universalIDFor_def Let_def split: if_splits option.splits)
  then have "v \<in> set (db_subjects s)" "su_live v" "su_SubjectID v = trim_space u" by (auto simp: find_Some_iff)
  then show ?thesis unfolding known_as_def using assms v(2) by blast
qed

lemma scope_sound:
  assumes "resolveDistributionScope ok svc operator False s = (unlimited, ms)"
  shows "\<not> unlimited \<and> (\<forall>p \<in> set ms. \<exists>r. sv_deptSync svc = Some r \<and> nonleaf_member r operator s p)"
proof -
  have "\<exists>r. sv_deptSync svc = Some r \<and> nonleaf_member r operator s p" if led: "ledDepartmentsFor ok svc operator s = Inr led" and p: "p \<in> dt_DeptPath ` set led" "p \<noteq> []" for led p
  proof -
    obtain node where n: "node \<in> set led" "p = dt_DeptPath node" using p(1) by blast
    then obtain r depts where r: "sv_deptSync svc = Some r" "dist_universalIDFor ok operator s \<noteq> []"
        "dr_GetUserDepartments r (dist_universalIDFor ok operator s) = Inr depts" "led_loop r depts [] = Inr led"
      using led by (auto simp: ledDepartmentsFor_def Let_def split: option.splits if_splits sum.splits)
    then show ?thesis using led_loop_sound[OF r(4) n(1)] universalID_known[OF r(2)] r(1,3) n(2) p(2) unfolding nonleaf_member_def by blast
  qed
  then show ?thesis using assms by (auto simp: resolveDistributionScope_def split: sum.splits)
qed

lemma authorize_loop_sound:
  "authorize_loop ok k r ms s ts = None \<Longrightarrow> t \<in> set ts \<Longrightarrow>
     (tg_ScopeType t = ''department'' \<or> tg_ScopeType t = ''user'') \<and> (\<exists>b. target_in_scope b r ms s t)"
  by (induction ok k r ms s ts rule: authorize_loop.induct) (auto split: if_splits)

text \<open>A recipient of a target in scope is in reach.\<close>

lemma recipient_in_reach:
  assumes "target_in_scope b r ms s t" "tg_ScopeType t = ''department'' \<or> tg_ScopeType t = ''user''" "\<forall>p \<in> set ms. nonleaf_member r operator s p"
    "sv_deptSync svc = Some r" "resolveRecipients b' svc t s = Inr recipients" "u \<in> set recipients"
  shows "in_reach r operator s u"
proof (cases "tg_ScopeType t = ''department''")
  case True
  then obtain path m where p: "dr_GetDepartmentPath r (tg_TargetID t) = Inr path" "m \<in> set ms" "pathHasPrefix path m"
    using assms(1) by (auto simp: target_in_scope_def anyPrefixMatch_path split: sum.splits)
  have "recipients \<noteq> []" using assms(6) by auto
  then obtain members v x where v: "dr_GetDeptUsersTree r (tg_TargetID t) = Inr members" "v \<in> set (db_subjects s)" "su_live v" "su_SubjectID v = u"
      "x \<in> set members" "su_UniversalID v = Some (du_UniversalID x)" "du_UniversalID x \<noteq> []"
    using assms(4,5,6) True by (auto simp: resolveRecipients_def Let_def split: if_splits sum.splits option.splits)
  have "nonleaf_member r operator s m" using assms(3) p(2) by blast
  moreover have "known_as s u (du_UniversalID x)" unfolding known_as_def using v by blast
  ultimately show ?thesis unfolding in_reach_def using p v by blast
next
  case False
  then have u: "u = tg_TargetID t" using assms(2,5,6) by (auto simp: resolveRecipients_def)
  have "userWithinPrefixes b r u ms s = Inr True" using assms(1) False u by (simp add: target_in_scope_def)
  then obtain depts d m where d: "dist_universalIDFor b u s \<noteq> []" "dr_GetUserDepartments r (dist_universalIDFor b u s) = Inr depts" "d \<in> set depts"
      "m \<in> set ms" "pathHasPrefix (dt_DeptPath d) m"
    by (auto simp: userWithinPrefixes_def Let_def anyPrefixMatch_path list_ex_iff split: if_splits sum.splits)
  have "nonleaf_member r operator s m" using assms(3) d(4) by blast
  then show ?thesis unfolding in_reach_def using d universalID_known[OF d(1)] by blast
qed

section \<open>An example\<close>

text \<open>A lead in department A, a member in its child B and an outsider; item \<open>i\<close>.\<close>

definition dist_resolver_example :: deptMemberResolver where
  "dist_resolver_example =
     (let b = Dept ''B'' ''B'' ''/A/B'' ''A'' 2 0 [] 0 []; a = Dept ''A'' ''A'' ''/A'' [] 1 1 [] 0 [b]; z = Dept ''Z'' ''Z'' ''/Z'' [] 1 0 [] 0 [];
          ann = \<lparr>du_UserID = ''1'', du_Username = ''ann'', du_UniversalID = ''U1'', du_DeptID = ''B'', du_DeptName = ''B'', du_Position = [], du_IsMain = 1,
                 du_Status = 1\<rparr>
      in \<lparr>dr_GetDeptUsersTree = (\<lambda>d. if d = ''A'' \<or> d = ''B'' then Inr [ann] else Inr []),
          dr_GetDepartmentPath = (\<lambda>d. if d = ''A'' then Inr ''/A'' else if d = ''B'' then Inr ''/A/B'' else if d = ''Z'' then Inr ''/Z''
                                       else Inl (DepartmentNotFound d)),
          dr_GetUserDepartments = (\<lambda>u. if u = ''U0'' then Inr [a] else if u = ''U1'' then Inr [b] else if u = ''U2'' then Inr [z] else Inr []),
          dr_DepartmentSubtree = (\<lambda>d. if d = ''A'' then Inr (Some a) else if d = ''B'' then Inr (Some b) else Inr None),
          dr_Configured = True\<rparr>)"

definition dist_service_example :: dist_service where
  "dist_service_example = \<lparr>sv_deptSync = Some dist_resolver_example, sv_behavior = True, sv_notification = True\<rparr>"

definition dist_call_example :: "string \<Rightarrow> dist_call" where
  "dist_call_example x = \<lparr>dc_ok = (\<lambda>_. True), dc_fok = (\<lambda>_ _. True), dc_newID = (\<lambda>n. if n = 0 then CHR ''d'' # x else if n = 1 then CHR ''r'' # x else CHR ''f'' # x), dc_now = 5\<rparr>"

definition dist_subject_example :: "string \<Rightarrow> string \<Rightarrow> server_user" where
  "dist_subject_example name uid =
     \<lparr>su_SubjectID = name, su_Username = name, su_DisplayName = None, su_Email = None, su_AvatarURL = None, su_UniversalID = Some uid, su_IsActive = True, su_live = True\<rparr>"

definition dist_db_example :: dist_db where
  "dist_db_example = \<lparr>db_dists = [], db_receipts = [], db_favs = [], db_items = [\<lparr>it_ID = ''i'', it_Name = ''item'', it_FavoriteCount = 0\<rparr>],
     db_subjects = [dist_subject_example ''lead'' ''U0'', dist_subject_example ''ann'' ''U1'', dist_subject_example ''bob'' ''U2'']\<rparr>"

definition dist_request_example :: "string \<Rightarrow> string \<Rightarrow> string \<Rightarrow> DistributeItemRequest" where
  "dist_request_example scope target mode = \<lparr>rq_Targets = [\<lparr>tg_ScopeType = scope, tg_TargetID = target\<rparr>], rq_PermissionMode = mode, rq_Message = [], rq_ExpiresAt = None\<rparr>"

definition distribute_example :: "string \<Rightarrow> string \<Rightarrow> string \<Rightarrow> dist_op" where
  "distribute_example x target mode =
     DoDistribute (\<lambda>_. True) (\<lambda>_. True) (\<lambda>_. dist_call_example x) dist_service_example \<lparr>rdb_users = [], rdb_roles = []\<rparr> ''i'' ''lead''
       (Some (dist_request_example ''user'' target mode))"

definition distributed_example :: dist_db where
  "distributed_example = dist_step (distribute_example ''1'' ''ann'' ''readonly'') dist_db_example"

lemma distributed_example_eq:
  "distributed_example = dist_db_example\<lparr>
     db_dists := [\<lparr>ds_ID = ''d1'', ds_ItemID = ''i'', ds_DistributorID = ''lead'', ds_PermissionMode = ''readonly'', ds_Status = ''active'', ds_ScopeType = ''user'',
                   ds_TargetID = ''ann'', ds_Message = [], ds_RevokedAt = None, ds_ExpiresAt = None, ds_CreatedAt = 5, ds_UpdatedAt = 5\<rparr>],
     db_receipts := [\<lparr>rc_ID = ''r1'', rc_DistributionID = ''d1'', rc_UserID = ''ann'', rc_ReceiptStatus = ''unread'', rc_CreatedAt = 5, rc_UpdatedAt = 5\<rparr>],
     db_favs := [\<lparr>fv_ID = ''f1'', fv_ItemID = ''i'', fv_UserID = ''ann'', fv_CreatedAt = 5\<rparr>],
     db_items := [\<lparr>it_ID = ''i'', it_Name = ''item'', it_FavoriteCount = 1\<rparr>]\<rparr>"
  by code_simp

section \<open>Properties\<close>

text \<open>C15. After any sequence of operations on a consistent state, the counter of every item is the number of its favourites.\<close>

theorem favorite_counts:
  assumes "dist_good s" and "i \<in> set (db_items (fold dist_step ops s))"
  shows "it_FavoriteCount i = int (length (favs_of (it_ID i) (fold dist_step ops s)))"
  using distributions.run_good[OF assms(1), of ops] assms(2) by (simp add: dist_good_def counts_ok_def)

theorem favorite_counts_witness:
  "(let s = fold dist_step [distribute_example ''1'' ''ann'' ''readonly''] dist_db_example
    in \<forall>i \<in> set (db_items s). it_FavoriteCount i = int (length (favs_of (it_ID i) s))) \<and> dist_good dist_db_example"
proof -
  have "dist_good dist_db_example" by code_simp
  then show ?thesis using favorite_counts[of dist_db_example _ "[distribute_example ''1'' ''ann'' ''readonly'']"] by (simp add: Let_def)
qed

text \<open>C14. As long as an item stays required for a user after every operation of a sequence, it stays among the favourites of that user.\<close>

theorem required_kept:
  assumes "has_fav item user s" and "\<forall>n \<le> length ops. required item user (fold dist_step (take n ops) s)"
  shows "has_fav item user (fold dist_step ops s)"
  using assms
proof (induction ops arbitrary: s)
  case (Cons a ops)
  have "required item user (dist_step a s)" using Cons.prems(2)[rule_format, of 1] by simp
  then have f: "has_fav item user (dist_step a s)" using dist_step_keeps[of s a] Cons.prems(1) by (simp add: keeps_def)
  have "required item user (fold dist_step (take n ops) (dist_step a s))" if "n \<le> length ops" for n
    using Cons.prems(2)[rule_format, of "Suc n"] that by simp
  then show ?case using Cons.IH[OF f] by simp
qed simp

lemma unfavorite_example: "dist_step (DoUnfavorite (\<lambda>_. True) ''i'' ''ann'') distributed_example = distributed_example"
  unfolding distributed_example_eq by code_simp

theorem required_kept_witness:
  "has_fav ''i'' ''ann'' (fold dist_step [DoUnfavorite (\<lambda>_. True) ''i'' ''ann''] distributed_example)"
proof (rule required_kept)
  show "has_fav ''i'' ''ann'' distributed_example" unfolding distributed_example_eq by code_simp
  have "required ''i'' ''ann'' distributed_example" unfolding distributed_example_eq by code_simp
  then show "\<forall>n \<le> length [DoUnfavorite (\<lambda>_. True) ''i'' ''ann'']. required ''i'' ''ann'' (fold dist_step (take n [DoUnfavorite (\<lambda>_. True) ''i'' ''ann'']) distributed_example)"
    by (auto simp: le_Suc_eq unfavorite_example simp del: dist_step.simps)
qed

lemma update_dist_dists: "db_dists (update_dist distID f s) = map (\<lambda>d. if ds_ID d = distID then f d else d) (db_dists s)"
  by (simp add: update_dist_def)

lemma revoke_update_status:
  assumes "d \<in> set (db_dists (update_dist distID (apply_dist_updates now (Some ''revoked'') None None) s))" "ds_ID d = distID"
  shows "ds_Status d = ''revoked'' \<and> ds_RevokedAt d = Some now"
proof -
  obtain x where x: "d = (if ds_ID x = distID then apply_dist_updates now (Some ''revoked'') None None x else x)"
    using assms(1) unfolding update_dist_dists set_map by blast
  have "ds_ID x = distID" using x assms(2) by (cases "ds_ID x = distID") simp_all
  then have "d = apply_dist_updates now (Some ''revoked'') None None x" using x by simp
  then show ?thesis by (simp add: apply_dist_updates_def)
qed

text \<open>C13. When a revocation succeeds, the distribution is revoked and none of its receipts is visible to anyone; with the behaviour service, the
  favourites that go are those of its recipients on its item, unless another active readonly distribution still requires them.\<close>

theorem revoke_effective:
  assumes "RevokeDistribution call svc distID operator admin s = (None, ms, s')"
  shows "\<exists>dist \<in> set (db_dists s). ds_ID dist = distID \<and> (admin \<or> ds_DistributorID dist = operator) \<and>
    (\<forall>d \<in> set (db_dists s'). ds_ID d = distID \<longrightarrow> ds_Status d = ''revoked'' \<and> ds_RevokedAt d = Some (dc_now call)) \<and>
    (\<forall>r \<in> set (db_receipts s'). \<forall>u. rc_DistributionID r = distID \<longrightarrow> \<not> visible u s' r) \<and>
    (\<forall>i u. has_fav i u s' \<longleftrightarrow>
       has_fav i u s \<and> \<not> (sv_behavior svc \<and> i = ds_ItemID dist \<and> u \<in> set (recipients_of distID s) \<and> \<not> required i u s'))"
proof -
  let ?s1 = "update_dist distID (apply_dist_updates (dc_now call) (Some ''revoked'') None None) s"
  obtain dist s2 where d: "dist \<in> set (db_dists s)" "ds_ID dist = distID" "canModifyDistribution dist operator admin"
    "(if sv_behavior svc then unfavorite_all (dc_ok call) 100 (ds_ItemID dist) (recipients_of distID s) ?s1 else (None, ?s1)) = (None, s2)"
    "s' = set_receipts (\<lambda>r. rc_DistributionID r = distID) ''dismissed'' (dc_now call) s2"
    using RevokeDistribution_effect[OF assms] by blast
  have e: "same_dists ?s1 s2 \<and> (\<forall>i u. has_fav i u s2 \<longleftrightarrow>
      has_fav i u ?s1 \<and> \<not> (sv_behavior svc \<and> i = ds_ItemID dist \<and> u \<in> set (recipients_of distID s) \<and> \<not> required i u ?s1))"
    using d(4) unfavorite_all_effect[of "dc_ok call" 100 "ds_ItemID dist" "recipients_of distID s" ?s1 s2] by (auto split: if_splits)
  have dists: "db_dists s' = db_dists ?s1" using d(5) e by (simp add: same_dists_def)
  then have st: "\<forall>x \<in> set (db_dists s'). ds_ID x = distID \<longrightarrow> ds_Status x = ''revoked'' \<and> ds_RevokedAt x = Some (dc_now call)"
    using revoke_update_status by metis
  have "\<forall>x \<in> set (db_dists s2). ds_ID x = distID \<longrightarrow> ds_Status x \<noteq> ''active''" using st d(5) by auto
  then have req: "required i u s' = required i u ?s1" for i u
    unfolding d(5) using revoked_required[of s2 distID i u] same_dists_required[of ?s1 s2 i u] e by simp
  have vis: "\<forall>r \<in> set (db_receipts s'). \<forall>u. rc_DistributionID r = distID \<longrightarrow> \<not> visible u s' r"
    using st by (auto simp: visible_def list_ex_iff)
  have fav: "has_fav i u s' = has_fav i u s2" "has_fav i u ?s1 = has_fav i u s" for i u using d(5) by (simp_all add: has_fav_def)
  show ?thesis using d(1,2,3) st vis e unfolding fav req canModifyDistribution_def by blast
qed

theorem revoke_effective_witness:
  "\<exists>ms s'. RevokeDistribution (dist_call_example ''1'') dist_service_example ''d1'' ''lead'' False distributed_example = (None, ms, s') \<and>
     (\<forall>r \<in> set (db_receipts s'). \<forall>u. rc_DistributionID r = ''d1'' \<longrightarrow> \<not> visible u s' r) \<and>
     (has_fav ''i'' ''ann'' s' \<longrightarrow> required ''i'' ''ann'' s')"
proof -
  let ?R = "RevokeDistribution (dist_call_example ''1'') dist_service_example ''d1'' ''lead'' False distributed_example"
  have "fst ?R = None" unfolding distributed_example_eq by code_simp
  then obtain ms s' where r: "?R = (None, ms, s')" by (cases ?R) auto
  have "''ann'' \<in> set (recipients_of ''d1'' distributed_example) \<and> sv_behavior dist_service_example \<and>
      list_all (\<lambda>d. ds_ItemID d = ''i'') (db_dists distributed_example)" unfolding distributed_example_eq by code_simp
  then show ?thesis using revoke_effective[OF r] r by (fastforce simp: list_all_iff)
qed

text \<open>C12. A request to distribute an item by someone who is not a platform administrator creates receipts only for users in reach: a
  receipt is for a member of a department at or below one that has sub-departments and of which the operator is a member, as the department
  service answers during the request.  The rule is membership, not leadership; and the subject of a user target is that of a live user
  after trimming, while the receipt has it untrimmed.\<close>

theorem distribution_within_reach:
  assumes "\<not> dist_isPlatformAdmin rok user roles"
    and "x \<in> set (db_receipts (snd (snd (DistributeItem_handler rok ok calls svc roles item user req s))))" and "x \<notin> set (db_receipts s)"
  shows "\<exists>r. sv_deptSync svc = Some r \<and> in_reach r user s (rc_UserID x)"
proof -
  obtain q where q: "AuthorizeTargets ok svc user False (rq_Targets q) s = None"
      "x \<in> set (db_receipts (snd (snd (DistributeItem calls svc item user q s))))"
    using DistributeItem_handler_state[of rok ok calls svc roles item user req s] assms by auto
  obtain ms unlimited where ms: "resolveDistributionScope (ok 1) svc user False s = (unlimited, ms)" by fastforce
  note sc = scope_sound[OF ms]
  obtain r where r: "sv_deptSync svc = Some r" "authorize_loop ok 0 r ms s (rq_Targets q) = None"
    using q(1) ms sc by (auto simp: AuthorizeTargets_def split: option.splits if_splits)
  obtain t b' recipients where t: "t \<in> set (rq_Targets q)" "resolveRecipients b' svc t s = Inr recipients" "rc_UserID x \<in> set recipients"
    using DistributeItem_effect[of s calls svc item user q] q(2) assms(3) by blast
  note a = authorize_loop_sound[OF r(2) t(1)]
  then obtain b where b: "target_in_scope b r ms s t" by blast
  have m: "\<forall>p \<in> set ms. nonleaf_member r user s p" using sc r(1) by auto
  show ?thesis using recipient_in_reach[OF b _ m r(1) t(2,3)] a r(1) by blast
qed

theorem distribution_within_reach_witness:
  "\<exists>x. x \<in> set (db_receipts distributed_example) \<and> (\<exists>r. sv_deptSync dist_service_example = Some r \<and> in_reach r ''lead'' dist_db_example (rc_UserID x))"
proof -
  let ?x = "\<lparr>rc_ID = ''r1'', rc_DistributionID = ''d1'', rc_UserID = ''ann'', rc_ReceiptStatus = ''unread'', rc_CreatedAt = 5, rc_UpdatedAt = 5\<rparr>"
  have a: "\<not> dist_isPlatformAdmin (\<lambda>_. True) ''lead'' \<lparr>rdb_users = [], rdb_roles = []\<rparr>" by code_simp
  have x: "?x \<in> set (db_receipts distributed_example)" unfolding distributed_example_eq by simp
  have n: "?x \<notin> set (db_receipts dist_db_example)" by (simp add: dist_db_example_def)
  show ?thesis
    using distribution_within_reach[OF a x[unfolded distributed_example_def distribute_example_def dist_step.simps] n] x by blast
qed

section \<open>What the model shows\<close>

text \<open>
  A recipient can dismiss a readonly distribution: the receipt goes, the favourite stays, because its removal runs in a transaction of its own
  that still sees the receipt; afterwards nothing requires the item.
\<close>

definition dismissed_example :: dist_db where
  "dismissed_example = snd (DismissReceipt (dist_call_example ''2'') dist_service_example ''d1'' ''ann'' distributed_example)"

lemma readonly_dismissed:
  "\<not> required ''i'' ''ann'' dismissed_example \<and> has_fav ''i'' ''ann'' dismissed_example \<and>
   \<not> has_fav ''i'' ''ann'' (snd (UnfavoriteItem (\<lambda>_. True) ''i'' ''ann'' dismissed_example))"
  unfolding dismissed_example_def distributed_example_eq by code_simp

text \<open>Marking a dismissed receipt as read makes the item required again.\<close>

lemma read_revives: "required ''i'' ''ann'' (snd (MarkReceiptRead (dist_call_example ''3'') ''d1'' ''ann'' dismissed_example))"
  unfolding dismissed_example_def distributed_example_eq by code_simp

text \<open>A revoked distribution that is set to active again has no recipient: the receipts stay dismissed, the time of the revocation stays.\<close>

definition resumed_example :: dist_db where
  "resumed_example =
     (let s = snd (snd (RevokeDistribution (dist_call_example ''2'') dist_service_example ''d1'' ''lead'' False distributed_example))
      in snd (snd (UpdateDistribution (dist_call_example ''3'') dist_service_example ''d1'' ''lead'' False (Some ''active'') None None s)))"

lemma resumed_reaches_nobody:
  "map ds_Status (db_dists resumed_example) = [''active''] \<and> map ds_RevokedAt (db_dists resumed_example) = [Some 5] \<and>
   map rc_ReceiptStatus (db_receipts resumed_example) = [''dismissed''] \<and> db_favs resumed_example = []"
  unfolding resumed_example_def distributed_example_eq by code_simp

text \<open>Neither the permission mode nor the status is checked.\<close>

lemma any_mode_accepted:
  "let s = snd (snd (UpdateDistribution (dist_call_example ''2'') dist_service_example ''d1'' ''lead'' False (Some ''x'') (Some ''y'') None distributed_example))
   in map ds_Status (db_dists s) = [''x''] \<and> map ds_PermissionMode (db_dists s) = [''y'']"
  unfolding distributed_example_eq by code_simp

text \<open>The subject of a user target is trimmed for the authorisation and kept as it is in the receipt, which then belongs to nobody.\<close>

lemma untrimmed_recipient:
  "map rc_UserID (db_receipts (dist_step (distribute_example ''1'' '' ann'' ''readonly'') dist_db_example)) = ['' ann'']"
  by code_simp

text \<open>When a later target fails, the earlier ones stay distributed although the request answers with an error.\<close>

lemma partial_distribution:
  "let req = (dist_request_example ''user'' ''ann'' ''readonly'')\<lparr>rq_Targets := [\<lparr>tg_ScopeType = ''user'', tg_TargetID = ''ann''\<rparr>, \<lparr>tg_ScopeType = ''user'', tg_TargetID = ''ann''\<rparr>]\<rparr>;
       calls = (\<lambda>k. (dist_call_example ''1'')\<lparr>dc_ok := (\<lambda>_. k = 0)\<rparr>);
       (status, ms, s) = DistributeItem_handler (\<lambda>_. True) (\<lambda>_. True) calls dist_service_example \<lparr>rdb_users = [], rdb_roles = []\<rparr> ''i'' ''lead'' (Some req) dist_db_example
   in status = 500 \<and> length (db_receipts s) = 1"
  by code_simp

text \<open>The favourite is gone although the dismissal fails at its commit and the receipt stays.\<close>

lemma failed_dismiss_unfavorites:
  "let s = dist_step (distribute_example ''1'' ''ann'' ''dismissible'') dist_db_example;
       (e, s') = DismissReceipt ((dist_call_example ''2'')\<lparr>dc_ok := (\<lambda>n. n \<noteq> 0)\<rparr>) dist_service_example ''d1'' ''ann'' s
   in e = Some DistDBError \<and> db_receipts s' = db_receipts s \<and> db_favs s' = []"
  by code_simp

end
