(* ===== verification/Spec2Isabelle.thy ===== *)
theory Spec2Isabelle
  imports Filter_SSE Cloud_Events Url_Guard Team_Tasks Outbox Authz Project_Service Tenant_Service Job_Queue
    Dispatcher Workspace_Service User_Account Distribution
begin

text \<open>
  \<^bold>\<open>Verification of the core logic of costrict-web\<close>

  costrict-web is a platform around AI coding agents.  Four Go programs carry its logic: the
  content-filtering \<^verbatim>\<open>proxy\<close> (\<^verbatim>\<open>src/proxy\<close>), which redacts source code from agent conversations; the main
  \<^verbatim>\<open>server\<close> (\<^verbatim>\<open>src/server\<close>), with the registry of device gateways, team sessions and repository
  synchronisation; the user service \<^verbatim>\<open>cs-user\<close> (\<^verbatim>\<open>src/cs-user\<close>); and the device \<^verbatim>\<open>gateway\<close>.  The library
  models the components that keep state or decide something, one theory each, over a shared
  \<^verbatim>\<open>Prelude\<close> of byte-string and list lemmas.

  \<^bold>\<open>Theories and sources\<close>

  \<^item> \<^verbatim>\<open>Filter_Text\<close>, \<^verbatim>\<open>Filter_Markdown\<close>, \<^verbatim>\<open>Filter_Json\<close>, \<^verbatim>\<open>Filter_SSE\<close>: \<^verbatim>\<open>src/proxy/internal/filter\<close>.  Text and
    diff filters, the Markdown block filter (its offset loop is proved equal to a left-to-right
    substitution), the walk over JSON responses with its audit summary, and the filter of streamed
    deltas.
  \<^item> \<^verbatim>\<open>Gateway_Store\<close>, \<^verbatim>\<open>Gateway_Registry\<close>: \<^verbatim>\<open>src/server/internal/gateway\<close>.  The \<^verbatim>\<open>Store\<close> interface is a record
    of operations with the locale \<open>gateway_store\<close> as its contract; the in-memory store is an
    interpretation; the registry is proved over the contract and as a reachable-state system.
  \<^item> \<^verbatim>\<open>Net_Addr\<close>, \<^verbatim>\<open>Url_Guard\<close>: the address parsing and classification of Go's \<^verbatim>\<open>net\<close> and \<^verbatim>\<open>strconv\<close> as far as
    the guards use it, and the three guards against server-side request forgery
    (\<^verbatim>\<open>gateway/internal_url.go\<close>, \<^verbatim>\<open>services/git_service.go\<close>, \<^verbatim>\<open>safetch/safetch.go\<close>).
  \<^item> \<^verbatim>\<open>Team_Scheduler\<close>, \<^verbatim>\<open>Team_Hub\<close>, \<^verbatim>\<open>Team_Tasks\<close>: \<^verbatim>\<open>src/server/internal/team\<close>.  The assignment of tasks to members
    with its load accounting; the hub that routes events to WebSocket connections, its Redis
    backlog, event log and leader election; the task table with the handlers that plan, assign,
    claim, retry, complete and reconcile tasks.  \<^verbatim>\<open>Team_Tasks\<close> composes the other two: the loads the
    scheduler works with are exactly those of the table, so its bound carries over to the rows.
  \<^item> \<^verbatim>\<open>Cloud_Events\<close>: \<^verbatim>\<open>src/server/internal/cloud\<close>.  Server-sent event connections with their limits, the batching
    of device events and the routing of user commands through the registry of \<^verbatim>\<open>Gateway_Registry\<close>.
  \<^item> \<^verbatim>\<open>System_Role\<close>, \<^verbatim>\<open>Authz\<close>: \<^verbatim>\<open>src/server/internal/systemrole\<close> and \<^verbatim>\<open>authz\<close>.  Roles and capabilities; resource
    permissions, grants inherited along department paths, visibility scopes and the permission
    middleware.  What \<^verbatim>\<open>Authz\<close> relies on from the role service is the locale \<open>role_source\<close>, interpreted on
    \<^verbatim>\<open>System_Role\<close>.
  \<^item> \<^verbatim>\<open>Project_Service\<close>: \<^verbatim>\<open>src/server/internal/project\<close>.  Projects, members, invitations and bound repositories as
    four tables; every operation is a step of a user, and the properties (an administrator for every
    project, who may change roles, the life of an invitation) hold on all reachable tables.
  \<^item> \<^verbatim>\<open>Db_Query\<close>: the query of one row that the services below use on their tables (\<^verbatim>\<open>First\<close> of gorm).
  \<^item> \<^verbatim>\<open>Json_Data\<close>: decoded JSON values, shared by the filter and the dispatcher.
  \<^item> \<^verbatim>\<open>Dispatcher\<close>: \<^verbatim>\<open>src/server/internal/dispatcher\<close> and \<^verbatim>\<open>gateway/session_proxy.go\<close>.  Device events, their debounced backlog, the
    polling loop and the managers that ask the device, through the registry of \<^verbatim>\<open>Gateway_Registry\<close>, whether an event is still open.
  \<^item> \<^verbatim>\<open>Job_Queue\<close>: \<^verbatim>\<open>src/server/internal/services/job_service.go\<close>, \<^verbatim>\<open>scan_job_service.go\<close> and \<^verbatim>\<open>src/server/internal/worker\<close>.  The queues of
    synchronisation and scan jobs.  The pieces of a worker's tick interleave with those of other workers and with requests,
    under row locks; the locale \<open>job_rows\<close> is interpreted for both tables.
  \<^item> \<^verbatim>\<open>Device_Service\<close>, \<^verbatim>\<open>Workspace_Service\<close>: \<^verbatim>\<open>src/server/internal/services/device_service.go\<close>, \<^verbatim>\<open>workspace_service.go\<close> and
    \<^verbatim>\<open>pathutil\<close>.  The registration and recovery of devices with the cache of ownership checks, and the workspaces and directories of
    users; both as histories of operations with failing statements, and the cache also under interleaving statements.
  \<^item> \<^verbatim>\<open>Dept_Sync\<close>, \<^verbatim>\<open>Distribution\<close>: \<^verbatim>\<open>src/server/internal/deptsync\<close>, \<^verbatim>\<open>services/distribution_service.go\<close>, the favourites of
    \<^verbatim>\<open>services/behavior_service.go\<close> and \<^verbatim>\<open>handlers/distribution.go\<close>.  The cached client of the department service, with the age of its
    answers; and the distribution of items to users and departments: nobody but a platform administrator reaches beyond the
    departments with sub-departments that he is a member of, a required item stays a favourite, a revocation takes effect and the counters of favourites are exact, along
    every sequence of operations (an interpretation of \<open>stepped\<close>).
  \<^item> \<^verbatim>\<open>Step_System\<close>: the locales \<open>stepped\<close> and \<open>tenanted\<close>, systems of operations that keep an invariant and the isolation of tenants.
  \<^item> \<^verbatim>\<open>Outbox\<close>: \<^verbatim>\<open>src/cs-user/internal/eventbus\<close>.  The transactional outbox for user events.
  \<^item> \<^verbatim>\<open>Tenant_Service\<close>: \<^verbatim>\<open>src/cs-user/internal/tenant\<close> and \<^verbatim>\<open>middleware/tenant.go\<close>.  Tenants, their administration and the
    resolution of the tenant of a request.  The two meet in the stored list of e-mail domains: what the administration writes
    is what the resolver reads, so that no domain of printable ASCII characters is ambiguous.  The three changes of status share the locale
    \<open>tenant_transition\<close>.
  \<^item> \<^verbatim>\<open>Tenant_Config\<close>: \<^verbatim>\<open>src/cs-user/internal/tenantconfig\<close>.  The YAML documents of tenants, their typed section of identity providers
    and the cache of effective mappings.  The cache is the locale \<open>cacher\<close>, a sublocale of \<open>go_cache\<close>, the contract of the library
    behind it; in front of any such cache, operations that do not overlap are answered as if there were none.
  \<^item> \<^verbatim>\<open>Employment\<close>, \<^verbatim>\<open>User_Identity\<close>, \<^verbatim>\<open>User_Account\<close>: \<^verbatim>\<open>src/cs-user/internal/user\<close>.  The employment row that a login refreshes through the
    configuration of the tenant; the login identities of users: keys, ranks, binding, transfer and removal; and the accounts: login,
    provisioning, registration, profile and status.  A login composes the other two with the outbox.  The operations of all three on accounts
    are one system of steps, an interpretation of the locales \<open>stepped\<close> and \<open>tenanted\<close>: a login is repeatable whatever other tenants do, registration is final and
    tenants do not touch each other's users and identities, whatever the sequence.

  \<^bold>\<open>State and operations\<close>

  A Go struct is a record, an operation is a function from the old state to a result and the new
  state with the names of the source, time and randomness are arguments.  Maps whose iteration
  order matters are association lists, others are functions to \<open>option\<close>.  Errors are values of a
  datatype per component.  Loops are structural recursion or \<open>function\<close> with a termination proof; no fuel
  is used.

  \<^bold>\<open>Concurrency\<close>

  The components in memory (the gateway store, the hub and its connections, the event router)
  do their work under a mutex, so a concurrent execution of them is a sequence of operations.  The services on a database hold no lock
  across their statements.  Their theorems are about operations that do not overlap: the step relations of the outbox, the role,
  project and tenant services, the tenant configuration, devices and workspaces, login identities and accounts, distributions, the
  department client and the dispatcher run each operation, with any of its statements failing, to its end before the next one, in any order.  Where
  overlapping operations break such a property, a lemma shows the interleaving: \<open>stale_after_race\<close> for the configuration cache,
  \<open>overlapping_creates\<close> for the domains of tenants, \<open>drain_race_loses_event\<close> and \<open>concurrent_inserts_differ\<close> for the backlog of the
  dispatcher, \<open>deleted_device_passes\<close> for the ownership cache.  Three models interleave finer pieces: the workers of the job queues (the
  statements of a tick, under row locks, with requests and deletions in between), the ownership checks of devices (\<open>ov_step\<close>: every
  statement and every access to the cache on its own), and the connection of a WebSocket, where other deliveries fall into its set-up.

  \<^bold>\<open>Parameters\<close>

  Code outside the repository is an argument of the definitions that use it: the JSON codec
  (\<open>json_codec\<close>, \<open>event_codec\<close>, \<open>json_decoder\<close> with the grammar \<open>decodes_json\<close> of arrays of strings), Redis (\<open>redis_ops\<close>, with \<open>redis_lists\<close> and \<open>redis_locks\<close> as the documented
  behaviour of its list and key commands), the URL parser, resolver and dialer, the sort routine
  (\<open>sorts_candidates\<close>) and floating point arithmetic (\<open>fl_ops\<close>), the HTTP consumer and the database of
  the outbox (\<open>outbox_env\<close>), the department directory (\<open>DepartmentProvider\<close>), the token parser and subject
  resolver, the YAML library (\<open>yaml_laws\<close>) and the cache library (\<open>go_cache\<close>) of the tenant configuration, the HTTP client, payload codec and AI handler of the dispatcher, the HTTP client and decoder of the department service (\<open>dept_env\<close>), the services that run jobs.  Which statements of a database fail is an argument of the role, permission, project and tenant services, the queues and the dispatcher;
  the task handlers ignore such failures in the source and are modelled for a working database.

  \<^bold>\<open>Not modelled\<close>

  Most REST handlers and middleware (glue between HTTP, the database and the components above), database
  backed stores, migrations, generated API documentation, the agent runtime and its language-model
  calls, logging, configuration loading, front ends and deployment files.
\<close>

end
